(* ===== verification/Cal_Prelude.thy ===== *)
theory Cal_Prelude
  imports Main "HOL-Library.Word"
begin

text \<open>
  The prelude of the development: the error values and the result types every component
  returns, the sequencing operations that stand for early returns, C integer conversions,
  big-endian byte strings, and the generic list and word lemmas the components share.

  An operation of the library ends in one of four ways:
  \<^item> it succeeds;
  \<^item> it returns AWS_OP_ERR (or NULL) after an error was raised: \<open>Raised e\<close>;
  \<^item> it executes code whose behaviour C leaves undefined (a null dereference, a read past the
    end of an object, a use of freed storage): \<open>Undefined u\<close>;
  \<^item> a fatal assertion aborts the process: \<open>Fatal\<close>.

  Loops that call code outside the repository run on fuel, and \<open>Out_of_fuel\<close> is the value of
  a run that used it up; the components prove that it never occurs.
\<close>

unbundle bit_operations_syntax

section \<open>Results\<close>

text \<open>
  The error codes of \<open>enum aws_cal_errors\<close>, the codes of aws-c-common that the sources raise by
  name, and \<open>Lib_error\<close> for a code raised inside code that is not part of the repository.
  A function that returns AWS_OP_ERR without raising anything fails with AWS_ERROR_SUCCESS, the
  code of a thread that has raised no error.
\<close>

datatype aws_error =
    AWS_ERROR_CAL_SIGNATURE_VALIDATION_FAILED
  | AWS_ERROR_CAL_MISSING_REQUIRED_KEY_COMPONENT
  | AWS_ERROR_CAL_INVALID_KEY_LENGTH_FOR_ALGORITHM
  | AWS_ERROR_CAL_UNKNOWN_OBJECT_IDENTIFIER
  | AWS_ERROR_CAL_MALFORMED_ASN1_ENCOUNTERED
  | AWS_ERROR_CAL_MISMATCHED_DER_TYPE
  | AWS_ERROR_CAL_UNSUPPORTED_ALGORITHM
  | AWS_ERROR_CAL_BUFFER_TOO_LARGE_FOR_ALGORITHM
  | AWS_ERROR_CAL_INVALID_CIPHER_MATERIAL_SIZE_FOR_ALGORITHM
  | AWS_ERROR_INVALID_BUFFER_SIZE
  | AWS_ERROR_SHORT_BUFFER
  | AWS_ERROR_INVALID_STATE
  | AWS_ERROR_INVALID_ARGUMENT
  | AWS_ERROR_OOM
  | AWS_ERROR_OVERFLOW_DETECTED
  | AWS_ERROR_UNKNOWN
  | AWS_ERROR_SYS_CALL_FAILURE
  | AWS_ERROR_UNSUPPORTED_OPERATION
  | AWS_ERROR_SUCCESS
  | Lib_error nat

datatype ub = Null_deref | Out_of_bounds | Use_after_free | Signed_overflow

datatype failure = Raised aws_error | Undefined ub | Fatal | Out_of_fuel

type_synonym 'a result = "failure + 'a"

named_theorems cal_simps \<open>rewrite rules for results and early returns\<close>
named_theorems buf_simps \<open>rewrite rules for buffers and cursors\<close>

text \<open>Sequencing: the first failure is the result, as an early return makes it.\<close>

definition rbind :: "'a result \<Rightarrow> ('a \<Rightarrow> 'b result) \<Rightarrow> 'b result" where
  "rbind r f = (case r of Inl e \<Rightarrow> Inl e | Inr x \<Rightarrow> f x)"

text \<open>The same for operations that also change a state and keep it when they fail.\<close>

definition seq_op :: "'a result \<times> 's \<Rightarrow> ('a \<Rightarrow> 's \<Rightarrow> 'b result \<times> 's) \<Rightarrow> 'b result \<times> 's" where
  "seq_op r f = (case r of (Inl e, s) \<Rightarrow> (Inl e, s) | (Inr x, s) \<Rightarrow> f x s)"

text \<open>
  \<open>return aws_raise_error(e)\<close> on the failure path of a call replaces the error the callee
  raised; undefined behaviour and aborts are not errors and pass through.
\<close>

definition reraise :: "aws_error \<Rightarrow> failure \<Rightarrow> failure" where
  "reraise e f = (case f of Raised _ \<Rightarrow> Raised e | _ \<Rightarrow> f)"

definition raise_on_failure :: "aws_error \<Rightarrow> 'a result \<Rightarrow> 'a result" where
  "raise_on_failure e r = (case r of Inl f \<Rightarrow> Inl (reraise e f) | Inr x \<Rightarrow> Inr x)"

lemma rbind_simps [simp, cal_simps]:
  "rbind (Inl e) f = Inl e"
  "rbind (Inr x) f = f x"
  by (simp_all add: rbind_def)

lemma rbind_eq_Inr [cal_simps]: "rbind r f = Inr y \<longleftrightarrow> (\<exists>x. r = Inr x \<and> f x = Inr y)"
  by (cases r) auto

lemma seq_op_simps [simp, cal_simps]:
  "seq_op (Inl e, s) f = (Inl e, s)"
  "seq_op (Inr x, s) f = f x s"
  by (simp_all add: seq_op_def)

lemma reraise_simps [simp, cal_simps]:
  "reraise e (Raised e') = Raised e"
  "reraise e (Undefined u) = Undefined u"
  "reraise e Fatal = Fatal"
  "reraise e Out_of_fuel = Out_of_fuel"
  by (simp_all add: reraise_def)

lemma reraise_fuel [simp]: "reraise e f = Out_of_fuel \<longleftrightarrow> f = Out_of_fuel"
  by (cases f) auto

lemma raise_on_failure_simps [simp, cal_simps]:
  "raise_on_failure e (Inl f) = Inl (reraise e f)"
  "raise_on_failure e (Inr x) = Inr x"
  by (simp_all add: raise_on_failure_def)

section \<open>Integers of the C program\<close>

text \<open>
  Lengths and capacities of objects are natural numbers. Where the sources subtract two
  \<open>size_t\<close> values the wrap-around is written out, and a cast of a size to \<open>int\<close> reads the low
  32 bits as two's complement.
\<close>

abbreviation SIZE_MAX :: nat where
  "SIZE_MAX \<equiv> 2 ^ 64 - 1"

abbreviation INT_MAX :: nat where
  "INT_MAX \<equiv> 2 ^ 31 - 1"

definition size_sub :: "nat \<Rightarrow> nat \<Rightarrow> nat" where
  "size_sub a b = (if b \<le> a then a - b else a + 2 ^ 64 - b)"

definition int_of_size :: "nat \<Rightarrow> int" where
  "int_of_size n = sint (word_of_nat n :: 32 word)"

text \<open>A size cast to a 32-bit unsigned type (ULONG, CC_LONG, unsigned int).\<close>

definition ulong :: "nat \<Rightarrow> nat" where
  "ulong n = n mod 2 ^ 32"

lemma size_sub_le [simp, buf_simps]: "b \<le> a \<Longrightarrow> size_sub a b = a - b"
  by (simp add: size_sub_def)

lemma int_of_size_small [simp]:
  assumes "n < 2 ^ 31"
  shows "int_of_size n = int n"
proof -
  have "signed_take_bit 31 (int n) = int n"
    using assms by (intro signed_take_bit_int_eq_self) auto
  then show ?thesis
    by (simp add: int_of_size_def signed_of_nat)
qed

section \<open>Big-endian byte strings\<close>

type_synonym byte = "8 word"
type_synonym bytes = "byte list"

primrec be_bytes :: "nat \<Rightarrow> nat \<Rightarrow> bytes" where
  "be_bytes 0 v = []"
| "be_bytes (Suc n) v = be_bytes n (v div 256) @ [word_of_nat v]"

definition be_nat :: "bytes \<Rightarrow> nat" where
  "be_nat bs = foldl (\<lambda>a b. a * 256 + unat b) 0 bs"

lemma length_be_bytes [simp]: "length (be_bytes n v) = n"
  by (induction n arbitrary: v) auto

lemma be_nat_Nil [simp]: "be_nat [] = 0"
  by (simp add: be_nat_def)

lemma be_nat_snoc [simp]: "be_nat (bs @ [b]) = be_nat bs * 256 + unat b"
  by (simp add: be_nat_def)

lemma be_nat_be_bytes: "be_nat (be_bytes n v) = v mod 256 ^ n"
proof (induction n arbitrary: v)
  case 0
  then show ?case by simp
next
  case (Suc n)
  have "v mod 256 ^ Suc n = (v div 256 mod 256 ^ n) * 256 + v mod 256"
    by (simp add: mod_mult2_eq mult.commute add.commute)
  with Suc show ?case
    by (simp add: unat_of_nat)
qed

lemma be_bytes_be_nat: "be_bytes (length bs) (be_nat bs) = bs"
proof (induction bs rule: rev_induct)
  case (snoc b bs)
  have b: "unat b < 256" using unsigned_less [of b] by simp
  have "unat (word_of_nat (be_nat bs * 256 + unat b) :: byte) = unat b" using b by (simp only: unat_of_nat) simp
  then have "(word_of_nat (be_nat bs * 256 + unat b) :: byte) = b" by (simp only: word_unat_eq_iff)
  with snoc b show ?case by (simp add: div_add1_eq [of "be_nat bs * 256"])
qed simp

lemma be_nat_foldl: "foldl (\<lambda>a b. a * 256 + unat b) k bs = k * 256 ^ length bs + be_nat bs"
proof (induction bs rule: rev_induct)
  case Nil
  then show ?case by simp
next
  case (snoc b bs)
  then show ?case by (simp add: algebra_simps)
qed

lemma be_nat_Cons: "be_nat (b # bs) = unat b * 256 ^ length bs + be_nat bs"
  using be_nat_foldl [of "unat b" bs] by (simp add: be_nat_def)

lemma be_nat_zero_Cons [simp]: "be_nat (0 # bs) = be_nat bs"
  by (simp add: be_nat_Cons)

lemma be_nat_bound: "be_nat bs < 256 ^ length bs"
proof (induction bs rule: rev_induct)
  case (snoc b bs)
  have "unat b < 256" using unsigned_less [of b] by simp
  with snoc show ?case by simp
qed simp

lemma be_nat_lower:
  assumes "bs \<noteq> []" and "hd bs \<noteq> 0"
  shows "256 ^ (length bs - 1) \<le> be_nat bs"
proof -
  obtain b r where b: "bs = b # r" "b \<noteq> 0" using assms by (cases bs) auto
  then have "1 \<le> unat b" using unat_gt_0 [of b] by simp
  then have "1 * 256 ^ length r \<le> unat b * 256 ^ length r" by (intro mult_right_mono) simp_all
  then have "256 ^ length r \<le> unat b * 256 ^ length r + be_nat r" by linarith
  with b(1) show ?thesis by (simp add: be_nat_Cons)
qed

section \<open>Lists\<close>

lemma take_drop_append [simp]:
  "take (length ys) (drop (length xs) (xs @ ys @ zs)) = ys"
  by simp

lemma nth_last_index: "xs \<noteq> [] \<Longrightarrow> (length xs - 1) < length xs"
  by (cases xs) auto

text \<open>Overwriting a region of memory, as a store through a pointer does.\<close>

definition overwrite :: "nat \<Rightarrow> 'a list \<Rightarrow> 'a list \<Rightarrow> 'a list" where
  "overwrite i ys xs = take i xs @ ys @ drop (i + length ys) xs"

lemma length_overwrite [simp]:
  "i + length ys \<le> length xs \<Longrightarrow> length (overwrite i ys xs) = length xs"
  by (simp add: overwrite_def)

lemma take_overwrite [simp]:
  "i + length ys \<le> length xs \<Longrightarrow> take (i + length ys) (overwrite i ys xs) = take i xs @ ys"
  by (cases ys) (auto simp: overwrite_def min_def)

lemma take_overwrite_before [simp]:
  "k \<le> i \<Longrightarrow> i \<le> length xs \<Longrightarrow> take k (overwrite i ys xs) = take k xs"
  by (simp add: overwrite_def min_def)

end
