(* ===== verification/Aws_Common.thy ===== *)
theory Aws_Common
  imports Cal_Prelude
begin

text \<open>
  What the sources use of aws-c-common, which is not part of the repository. The structures
  \<open>aws_byte_cursor\<close>, \<open>aws_byte_buf\<close> and \<open>aws_array_list\<close> are records whose fields the sources
  read and write. The functions on them are the fields of the records \<open>aws_common\<close> and
  \<open>array_list_ops\<close>: they are parameters of every definition that calls them, and the predicates
  \<open>common_spec\<close> and \<open>array_list_spec\<close> state the documented behaviour the proofs rely on.
  The theory ends with an instance of each record that satisfies its predicate.

  A pointer to bytes is an object together with an offset into it, so that a read past the end
  of the object is visible. A byte buffer owns a block of \<open>capacity\<close> bytes, of which the first
  \<open>buf_len\<close> are its contents.
\<close>

section \<open>Pointers, cursors and buffers\<close>

record pointer =
  pobj :: bytes
  poff :: nat

record aws_byte_cursor =
  ptr :: "pointer option"
  cur_len :: nat

record aws_byte_buf =
  buf_len :: nat
  buffer :: "bytes option"
  capacity :: nat
  allocator :: bool

definition ptr_add :: "pointer option \<Rightarrow> nat \<Rightarrow> pointer option" where
  "ptr_add p n = map_option (\<lambda>q. q\<lparr>poff := poff q + n\<rparr>) p"

definition bytes_at :: "pointer option \<Rightarrow> nat \<Rightarrow> bytes result" where
  "bytes_at p n =
     (if n = 0 then Inr []
      else case p of
        None \<Rightarrow> Inl (Undefined Null_deref)
      | Some q \<Rightarrow> if poff q + n \<le> length (pobj q) then Inr (take n (drop (poff q) (pobj q)))
                  else Inl (Undefined Out_of_bounds))"

definition deref :: "pointer option \<Rightarrow> byte result" where
  "deref p = (case p of
       None \<Rightarrow> Inl (Undefined Null_deref)
     | Some q \<Rightarrow> if poff q < length (pobj q) then Inr (pobj q ! poff q)
                 else Inl (Undefined Out_of_bounds))"

definition readable :: "aws_byte_cursor \<Rightarrow> nat \<Rightarrow> bool" where
  "readable cur n \<longleftrightarrow>
     (n \<le> cur_len cur \<longrightarrow>
        (case ptr cur of None \<Rightarrow> n = 0 | Some p \<Rightarrow> poff p + n \<le> length (pobj p)))"

definition cur_data :: "aws_byte_cursor \<Rightarrow> nat \<Rightarrow> bytes" where
  "cur_data cur n = (case ptr cur of None \<Rightarrow> [] | Some p \<Rightarrow> take n (drop (poff p) (pobj p)))"

definition cur_drop :: "nat \<Rightarrow> aws_byte_cursor \<Rightarrow> aws_byte_cursor" where
  "cur_drop n cur = cur\<lparr>ptr := ptr_add (ptr cur) n, cur_len := cur_len cur - n\<rparr>"

definition null_cursor :: aws_byte_cursor where
  "null_cursor = \<lparr>ptr = None, cur_len = 0\<rparr>"

definition zero_buf :: aws_byte_buf where
  "zero_buf = \<lparr>buf_len = 0, buffer = None, capacity = 0, allocator = False\<rparr>"

text \<open>A cursor over the whole of a byte string.\<close>

definition cursor_of :: "bytes \<Rightarrow> aws_byte_cursor" where
  "cursor_of bs = \<lparr>ptr = Some \<lparr>pobj = bs, poff = 0\<rparr>, cur_len = length bs\<rparr>"

definition valid_buf :: "aws_byte_buf \<Rightarrow> bool" where
  "valid_buf b \<longleftrightarrow>
     (case buffer b of None \<Rightarrow> capacity b = 0 | Some m \<Rightarrow> length m = capacity b) \<and>
     buf_len b \<le> capacity b \<and> capacity b \<le> SIZE_MAX div 2"

definition contents :: "aws_byte_buf \<Rightarrow> bytes" where
  "contents b = (case buffer b of None \<Rightarrow> [] | Some m \<Rightarrow> take (buf_len b) m)"

definition room :: "aws_byte_buf \<Rightarrow> nat" where
  "room b = capacity b - buf_len b"

definition aws_byte_cursor_from_buf :: "aws_byte_buf \<Rightarrow> aws_byte_cursor" where
  "aws_byte_cursor_from_buf b =
     \<lparr>ptr = map_option (\<lambda>m. \<lparr>pobj = m, poff = 0\<rparr>) (buffer b), cur_len = buf_len b\<rparr>"

lemma length_contents [simp, buf_simps]: "valid_buf b \<Longrightarrow> length (contents b) = buf_len b"
  by (auto simp: valid_buf_def contents_def split: option.splits)

lemma valid_capacity: "valid_buf b \<Longrightarrow> capacity b \<le> SIZE_MAX div 2"
  by (simp add: valid_buf_def)

lemma cur_drop_0 [simp]: "cur_drop 0 cur = cur"
  by (cases "ptr cur") (auto simp: cur_drop_def ptr_add_def)

lemma ptr_add_add [simp]: "ptr_add (ptr_add p m) n = ptr_add p (m + n)"
  by (cases p) (auto simp: ptr_add_def add.assoc)

lemma cur_len_cur_drop [simp]: "cur_len (cur_drop n cur) = cur_len cur - n"
  by (simp add: cur_drop_def)

lemma bytes_at_deref:
  assumes "bytes_at p n = Inr bs" and "0 < n"
  shows "deref p = Inr (hd bs)" and "length bs = n"
proof -
  obtain q where q: "p = Some q" and le: "poff q + n \<le> length (pobj q)"
      and bs: "bs = take n (drop (poff q) (pobj q))"
    using assms by (cases p) (auto simp: bytes_at_def split: if_splits)
  show "length bs = n" using le bs by simp
  have "hd bs = pobj q ! poff q"
    using le bs assms(2) by (simp add: hd_conv_nth)
  then show "deref p = Inr (hd bs)"
    using q le assms(2) by (simp add: deref_def)
qed

lemma bytes_at_0 [simp]: "bytes_at p 0 = Inr []"
  by (simp add: bytes_at_def)

lemma bytes_at_length: "bytes_at p n = Inr bs \<Longrightarrow> length bs = n"
  by (cases "n = 0") (auto dest: bytes_at_deref)

lemma bytes_at_take: "bytes_at p n = Inr bs \<Longrightarrow> k \<le> n \<Longrightarrow> bytes_at p k = Inr (take k bs)"
  by (cases p) (auto simp: bytes_at_def min_def split: if_splits)

lemma bytes_at_drop: "bytes_at p n = Inr bs \<Longrightarrow> k \<le> n \<Longrightarrow> bytes_at (ptr_add p k) (n - k) = Inr (drop k bs)"
  by (cases p) (auto simp: bytes_at_def ptr_add_def drop_take add.commute split: if_splits)

lemma bytes_at_cursor_of [simp]: "bytes_at (ptr (cursor_of bs)) n = Inr bs \<longleftrightarrow> n = length bs"
  by (auto simp: bytes_at_def cursor_of_def)

lemma cur_len_cursor_of [simp]: "cur_len (cursor_of bs) = length bs"
  by (simp add: cursor_of_def)

section \<open>The functions of aws-c-common the sources call\<close>

record aws_common =
  aws_mem_acquire_ok :: bool
  aws_byte_cursor_read_u8 :: "aws_byte_cursor \<Rightarrow> (byte \<times> aws_byte_cursor) option"
  aws_byte_cursor_read_be16 :: "aws_byte_cursor \<Rightarrow> (16 word \<times> aws_byte_cursor) option"
  aws_byte_cursor_read_be32 :: "aws_byte_cursor \<Rightarrow> (32 word \<times> aws_byte_cursor) option"
  aws_byte_cursor_advance :: "aws_byte_cursor \<Rightarrow> nat \<Rightarrow> aws_byte_cursor \<times> aws_byte_cursor"
  aws_byte_cursor_eq :: "aws_byte_cursor \<Rightarrow> aws_byte_cursor \<Rightarrow> bool"
  aws_byte_buf_init :: "nat \<Rightarrow> aws_byte_buf result"
  aws_byte_buf_init_copy :: "bytes \<Rightarrow> aws_byte_buf result"
  aws_byte_buf_write :: "aws_byte_buf \<Rightarrow> bytes \<Rightarrow> aws_byte_buf option"
  aws_byte_buf_write_u8 :: "aws_byte_buf \<Rightarrow> byte \<Rightarrow> aws_byte_buf option"
  aws_byte_buf_write_be16 :: "aws_byte_buf \<Rightarrow> 16 word \<Rightarrow> aws_byte_buf option"
  aws_byte_buf_write_be32 :: "aws_byte_buf \<Rightarrow> 32 word \<Rightarrow> aws_byte_buf option"
  aws_byte_buf_write_u8_n :: "aws_byte_buf \<Rightarrow> byte \<Rightarrow> nat \<Rightarrow> aws_byte_buf option"
  aws_byte_buf_reserve_relative :: "aws_byte_buf \<Rightarrow> nat \<Rightarrow> aws_byte_buf result"
  aws_byte_buf_append_dynamic :: "aws_byte_buf \<Rightarrow> bytes \<Rightarrow> aws_byte_buf result"
  aws_byte_buf_secure_zero :: "aws_byte_buf \<Rightarrow> aws_byte_buf"
  aws_byte_buf_reset :: "aws_byte_buf \<Rightarrow> bool \<Rightarrow> aws_byte_buf"
  aws_add_u32_checked :: "32 word \<Rightarrow> 32 word \<Rightarrow> 32 word option"
  aws_device_random_buffer_append :: "aws_byte_buf \<Rightarrow> nat \<Rightarrow> aws_byte_buf result"
  aws_byte_buf_append :: "aws_byte_buf \<Rightarrow> aws_byte_cursor \<Rightarrow> aws_byte_buf result"
  aws_byte_cursor_left_trim_pred :: "aws_byte_cursor \<Rightarrow> (byte \<Rightarrow> bool) \<Rightarrow> aws_byte_cursor"

text \<open>
  Reading: a read of \<open>n\<close> bytes succeeds exactly when the cursor has that many left, and then
  moves the cursor; an advance by more than is left changes nothing and returns a null cursor.
\<close>

definition cursor_spec :: "aws_common \<Rightarrow> bool" where
  "cursor_spec C \<longleftrightarrow>
     (\<forall>cur. readable cur 1 \<longrightarrow> aws_byte_cursor_read_u8 C cur =
        (if cur_len cur < 1 then None else Some (hd (cur_data cur 1), cur_drop 1 cur))) \<and>
     (\<forall>cur. readable cur 2 \<longrightarrow> aws_byte_cursor_read_be16 C cur =
        (if cur_len cur < 2 then None
         else Some (word_of_nat (be_nat (cur_data cur 2)), cur_drop 2 cur))) \<and>
     (\<forall>cur. readable cur 4 \<longrightarrow> aws_byte_cursor_read_be32 C cur =
        (if cur_len cur < 4 then None
         else Some (word_of_nat (be_nat (cur_data cur 4)), cur_drop 4 cur))) \<and>
     (\<forall>cur n. cur_len cur \<le> SIZE_MAX div 2 \<longrightarrow> aws_byte_cursor_advance C cur n =
        (if n \<le> cur_len cur then (cur\<lparr>cur_len := n\<rparr>, cur_drop n cur) else (null_cursor, cur))) \<and>
     (\<forall>a b. cur_len a \<noteq> cur_len b \<longrightarrow> \<not> aws_byte_cursor_eq C a b) \<and>
     (\<forall>a b x y. bytes_at (ptr a) (cur_len a) = Inr x \<and> bytes_at (ptr b) (cur_len b) = Inr y \<longrightarrow>
        aws_byte_cursor_eq C a b = (x = y)) \<and>
     (\<forall>cur P x. bytes_at (ptr cur) (cur_len cur) = Inr x \<longrightarrow>
        aws_byte_cursor_left_trim_pred C cur P = cur_drop (length (takeWhile P x)) cur)"

text \<open>
  Writing: a write appends when the bytes fit and otherwise fails and leaves the buffer as it
  was; none of the plain writes changes the capacity.
\<close>

definition appends :: "aws_byte_buf \<Rightarrow> bytes \<Rightarrow> aws_byte_buf option \<Rightarrow> bool" where
  "appends b bs r \<longleftrightarrow>
     (case r of
        None \<Rightarrow> room b < length bs
      | Some b' \<Rightarrow> length bs \<le> room b \<and> valid_buf b' \<and> contents b' = contents b @ bs \<and>
          buf_len b' = buf_len b + length bs \<and> capacity b' = capacity b \<and>
          allocator b' = allocator b)"

definition write_spec :: "aws_common \<Rightarrow> bool" where
  "write_spec C \<longleftrightarrow>
     (\<forall>b bs. valid_buf b \<longrightarrow> appends b bs (aws_byte_buf_write C b bs)) \<and>
     (\<forall>b x. valid_buf b \<longrightarrow> appends b [x] (aws_byte_buf_write_u8 C b x)) \<and>
     (\<forall>b x. valid_buf b \<longrightarrow> appends b (be_bytes 2 (unat x)) (aws_byte_buf_write_be16 C b x)) \<and>
     (\<forall>b x. valid_buf b \<longrightarrow> appends b (be_bytes 4 (unat x)) (aws_byte_buf_write_be32 C b x)) \<and>
     (\<forall>b x n. valid_buf b \<longrightarrow> appends b (replicate n x) (aws_byte_buf_write_u8_n C b x n)) \<and>
     (\<forall>b cur. valid_buf b \<longrightarrow>
        (if cur_len cur \<le> room b
         then \<forall>bs. bytes_at (ptr cur) (cur_len cur) = Inr bs \<longrightarrow>
                (\<exists>b'. aws_byte_buf_append C b cur = Inr b' \<and> appends b bs (Some b') \<and>
                      buffer b' = map_option (overwrite (buf_len b) bs) (buffer b))
         else \<exists>e. aws_byte_buf_append C b cur = Inl (Raised e)))"

definition fresh_buf :: "nat \<Rightarrow> aws_byte_buf \<Rightarrow> bool" where
  "fresh_buf n b \<longleftrightarrow> valid_buf b \<and> buf_len b = 0 \<and> capacity b = n \<and> allocator b"

text \<open>
  Allocation: \<open>aws_mem_acquire\<close> and the buffers built on it do not fail for sizes up to
  \<open>SIZE_MAX / 2\<close>. A buffer with an allocator can be grown; a buffer without one cannot.
\<close>

definition alloc_spec :: "aws_common \<Rightarrow> bool" where
  "alloc_spec C \<longleftrightarrow>
     aws_mem_acquire_ok C \<and>
     (\<forall>n \<le> SIZE_MAX div 2. \<exists>b. aws_byte_buf_init C n = Inr b \<and> fresh_buf n b) \<and>
     (\<forall>bs. length bs \<le> SIZE_MAX div 2 \<longrightarrow>
        (\<exists>b. aws_byte_buf_init_copy C bs = Inr b \<and> valid_buf b \<and> contents b = bs \<and>
             capacity b = length bs \<and> allocator b)) \<and>
     (\<forall>b n. valid_buf b \<longrightarrow>
        (if allocator b \<and> buf_len b + n \<le> SIZE_MAX div 2
         then \<exists>b'. aws_byte_buf_reserve_relative C b n = Inr b' \<and> valid_buf b' \<and>
                contents b' = contents b \<and> buf_len b' = buf_len b \<and>
                capacity b' = max (capacity b) (buf_len b + n) \<and> allocator b'
         else \<exists>e. aws_byte_buf_reserve_relative C b n = Inl (Raised e))) \<and>
     (\<forall>b bs. valid_buf b \<and> allocator b \<and> buf_len b + length bs \<le> SIZE_MAX div 2 \<longrightarrow>
        (\<exists>b'. aws_byte_buf_append_dynamic C b bs = Inr b' \<and> valid_buf b' \<and>
              contents b' = contents b @ bs \<and> buf_len b' = buf_len b + length bs \<and> allocator b')) \<and>
     (\<forall>b. valid_buf b \<longrightarrow> valid_buf (aws_byte_buf_secure_zero C b) \<and>
        buf_len (aws_byte_buf_secure_zero C b) = 0 \<and>
        capacity (aws_byte_buf_secure_zero C b) = capacity b \<and>
        allocator (aws_byte_buf_secure_zero C b) = allocator b) \<and>
     (\<forall>b. valid_buf b \<longrightarrow> buffer (aws_byte_buf_secure_zero C b) = map_option (map (\<lambda>_. 0)) (buffer b)) \<and>
     (\<forall>b z. valid_buf b \<longrightarrow> valid_buf (aws_byte_buf_reset C b z) \<and> buf_len (aws_byte_buf_reset C b z) = 0 \<and>
        capacity (aws_byte_buf_reset C b z) = capacity b \<and> allocator (aws_byte_buf_reset C b z) = allocator b) \<and>
     (\<forall>b n. valid_buf b \<longrightarrow>
        (if n \<le> room b
         then \<exists>rnd. length rnd = n \<and>
                (\<exists>b'. aws_device_random_buffer_append C b n = Inr b' \<and> appends b rnd (Some b'))
         else \<exists>e. aws_device_random_buffer_append C b n = Inl (Raised e)))"

text \<open>Checked addition: fails exactly when the sum does not fit.\<close>

definition math_spec :: "aws_common \<Rightarrow> bool" where
  "math_spec C \<longleftrightarrow> (\<forall>a b. aws_add_u32_checked C a b =
     (if unat a + unat b < 2 ^ 32 then Some (a + b) else None))"

definition common_spec :: "aws_common \<Rightarrow> bool" where
  "common_spec C \<longleftrightarrow> cursor_spec C \<and> write_spec C \<and> alloc_spec C \<and> math_spec C"

text \<open>The laws in the form the proofs apply them.\<close>

lemma read_u8_law:
  "common_spec C \<Longrightarrow> readable cur 1 \<Longrightarrow> aws_byte_cursor_read_u8 C cur =
     (if cur_len cur < 1 then None else Some (hd (cur_data cur 1), cur_drop 1 cur))"
  by (simp add: common_spec_def cursor_spec_def)

lemma read_be16_law:
  "common_spec C \<Longrightarrow> readable cur 2 \<Longrightarrow> aws_byte_cursor_read_be16 C cur =
     (if cur_len cur < 2 then None
      else Some (word_of_nat (be_nat (cur_data cur 2)), cur_drop 2 cur))"
  by (simp add: common_spec_def cursor_spec_def)

lemma read_be32_law:
  "common_spec C \<Longrightarrow> readable cur 4 \<Longrightarrow> aws_byte_cursor_read_be32 C cur =
     (if cur_len cur < 4 then None
      else Some (word_of_nat (be_nat (cur_data cur 4)), cur_drop 4 cur))"
  by (simp add: common_spec_def cursor_spec_def)

lemma advance_law:
  "common_spec C \<Longrightarrow> cur_len cur \<le> SIZE_MAX div 2 \<Longrightarrow> aws_byte_cursor_advance C cur n =
     (if n \<le> cur_len cur then (cur\<lparr>cur_len := n\<rparr>, cur_drop n cur) else (null_cursor, cur))"
  by (simp only: common_spec_def cursor_spec_def)

lemma advance_bytes:
  assumes C: "common_spec C" and b: "bytes_at (ptr cur) (cur_len cur) = Inr bs" and k: "k \<le> length bs"
    and len: "length bs \<le> SIZE_MAX div 2"
  shows "\<exists>s r. aws_byte_cursor_advance C cur k = (s, r) \<and> bytes_at (ptr s) (cur_len s) = Inr (take k bs) \<and>
    bytes_at (ptr r) (cur_len r) = Inr (drop k bs)"
proof -
  have l: "cur_len cur = length bs" using bytes_at_length [OF b] by simp
  have "aws_byte_cursor_advance C cur k = (cur\<lparr>cur_len := k\<rparr>, cur_drop k cur)"
    using advance_law [OF C, of cur k] l k len by simp
  with bytes_at_take [OF b, of k] bytes_at_drop [OF b, of k] k l show ?thesis by (simp add: cur_drop_def)
qed

lemma cursor_eq_laws:
  assumes "common_spec C"
  shows "cur_len a \<noteq> cur_len b \<Longrightarrow> \<not> aws_byte_cursor_eq C a b"
    and "bytes_at (ptr a) (cur_len a) = Inr x \<Longrightarrow> bytes_at (ptr b) (cur_len b) = Inr y \<Longrightarrow>
      aws_byte_cursor_eq C a b = (x = y)"
  using assms unfolding common_spec_def cursor_spec_def by blast+

lemma write_laws:
  assumes "common_spec C" and "valid_buf b"
  shows "appends b bs (aws_byte_buf_write C b bs)"
    and "appends b [x] (aws_byte_buf_write_u8 C b x)"
    and "appends b (be_bytes 2 (unat y)) (aws_byte_buf_write_be16 C b y)"
    and "appends b (be_bytes 4 (unat z)) (aws_byte_buf_write_be32 C b z)"
    and "appends b (replicate n x) (aws_byte_buf_write_u8_n C b x n)"
  using assms by (simp_all only: common_spec_def write_spec_def)

lemma init_law:
  "common_spec C \<Longrightarrow> n \<le> SIZE_MAX div 2 \<Longrightarrow> \<exists>b. aws_byte_buf_init C n = Inr b \<and> fresh_buf n b"
  by (simp only: common_spec_def alloc_spec_def)

lemma init_copy_law:
  "common_spec C \<Longrightarrow> length bs \<le> SIZE_MAX div 2 \<Longrightarrow>
     \<exists>b. aws_byte_buf_init_copy C bs = Inr b \<and> valid_buf b \<and> contents b = bs \<and>
       capacity b = length bs \<and> allocator b"
  unfolding common_spec_def alloc_spec_def by blast

lemma reserve_law:
  "common_spec C \<Longrightarrow> valid_buf b \<Longrightarrow> allocator b \<Longrightarrow> buf_len b + n \<le> SIZE_MAX div 2 \<Longrightarrow>
     \<exists>b'. aws_byte_buf_reserve_relative C b n = Inr b' \<and> valid_buf b' \<and> contents b' = contents b \<and>
       buf_len b' = buf_len b \<and> capacity b' = max (capacity b) (buf_len b + n) \<and> allocator b'"
  by (simp only: common_spec_def alloc_spec_def)

lemma reserve_fails_law:
  "common_spec C \<Longrightarrow> valid_buf b \<Longrightarrow> \<not> allocator b \<Longrightarrow>
     \<exists>e. aws_byte_buf_reserve_relative C b n = Inl (Raised e)"
  by (simp only: common_spec_def alloc_spec_def) meson

lemma append_dynamic_law:
  "common_spec C \<Longrightarrow> valid_buf b \<Longrightarrow> allocator b \<Longrightarrow> buf_len b + length bs \<le> SIZE_MAX div 2 \<Longrightarrow>
     \<exists>b'. aws_byte_buf_append_dynamic C b bs = Inr b' \<and> valid_buf b' \<and>
       contents b' = contents b @ bs \<and> buf_len b' = buf_len b + length bs \<and> allocator b'"
  unfolding common_spec_def alloc_spec_def by blast

lemma secure_zero_law:
  "common_spec C \<Longrightarrow> valid_buf b \<Longrightarrow> valid_buf (aws_byte_buf_secure_zero C b) \<and>
     buf_len (aws_byte_buf_secure_zero C b) = 0 \<and> capacity (aws_byte_buf_secure_zero C b) = capacity b \<and>
     allocator (aws_byte_buf_secure_zero C b) = allocator b"
  unfolding common_spec_def alloc_spec_def by blast

lemma secure_zero_memory:
  "common_spec C \<Longrightarrow> valid_buf b \<Longrightarrow> buffer (aws_byte_buf_secure_zero C b) = map_option (map (\<lambda>_. 0)) (buffer b)"
  unfolding common_spec_def alloc_spec_def by blast

lemma reset_law:
  "common_spec C \<Longrightarrow> valid_buf b \<Longrightarrow> valid_buf (aws_byte_buf_reset C b z) \<and>
     buf_len (aws_byte_buf_reset C b z) = 0 \<and> capacity (aws_byte_buf_reset C b z) = capacity b \<and>
     allocator (aws_byte_buf_reset C b z) = allocator b"
  unfolding common_spec_def alloc_spec_def by blast

lemma add_checked_law:
  "common_spec C \<Longrightarrow> aws_add_u32_checked C a b = (if unat a + unat b < 2 ^ 32 then Some (a + b) else None)"
  by (simp only: common_spec_def math_spec_def)

lemma random_append_law:
  "common_spec C \<Longrightarrow> valid_buf b \<Longrightarrow> n \<le> room b \<Longrightarrow>
     \<exists>rnd b'. length rnd = n \<and> aws_device_random_buffer_append C b n = Inr b' \<and> appends b rnd (Some b')"
  by (simp only: common_spec_def alloc_spec_def) meson

lemma random_append_fails_law:
  "common_spec C \<Longrightarrow> valid_buf b \<Longrightarrow> \<not> n \<le> room b \<Longrightarrow>
     \<exists>e. aws_device_random_buffer_append C b n = Inl (Raised e)"
  by (simp only: common_spec_def alloc_spec_def) meson

lemma append_law:
  "common_spec C \<Longrightarrow> valid_buf b \<Longrightarrow> bytes_at (ptr cur) (cur_len cur) = Inr bs \<Longrightarrow> cur_len cur \<le> room b \<Longrightarrow>
     \<exists>b'. aws_byte_buf_append C b cur = Inr b' \<and> appends b bs (Some b') \<and>
       buffer b' = map_option (overwrite (buf_len b) bs) (buffer b)"
  by (simp only: common_spec_def write_spec_def)

lemma append_fails_law:
  "common_spec C \<Longrightarrow> valid_buf b \<Longrightarrow> \<not> cur_len cur \<le> room b \<Longrightarrow>
     \<exists>e. aws_byte_buf_append C b cur = Inl (Raised e)"
  by (simp only: common_spec_def write_spec_def) meson

lemma left_trim_law:
  "common_spec C \<Longrightarrow> bytes_at (ptr cur) (cur_len cur) = Inr x \<Longrightarrow>
     aws_byte_cursor_left_trim_pred C cur P = cur_drop (length (takeWhile P x)) cur"
  unfolding common_spec_def cursor_spec_def by blast

lemma appends_trans:
  assumes "appends b xs (Some b1)" and "appends b1 ys (Some b2)"
  shows "appends b (xs @ ys) (Some b2)"
  using assms by (auto simp: appends_def room_def)

lemma appends_room: "appends b xs (Some b1) \<Longrightarrow> room b1 = room b - length xs"
  by (auto simp: appends_def room_def)

lemma mem_acquire_law [simp]: "common_spec C \<Longrightarrow> aws_mem_acquire_ok C"
  by (simp add: common_spec_def alloc_spec_def)

text \<open>
  \<open>aws_byte_buf_append\<close> compares the length with the room before it copies: memory is read only
  when there is room. \<open>append_ok\<close> gives its outcome; \<open>append_unchecked\<close> is a call whose result is
  ignored.
\<close>

definition buf_append :: "aws_common \<Rightarrow> aws_byte_buf \<Rightarrow> aws_byte_cursor \<Rightarrow> aws_byte_buf result" where
  "buf_append C b cur =
     (if cur_len cur \<le> size_sub (capacity b) (buf_len b)
      then rbind (bytes_at (ptr cur) (cur_len cur)) (\<lambda>_. aws_byte_buf_append C b cur)
      else aws_byte_buf_append C b cur)"

definition append_unchecked :: "aws_common \<Rightarrow> aws_byte_buf \<Rightarrow> aws_byte_cursor \<Rightarrow> aws_byte_buf result" where
  "append_unchecked C b cur = (case buf_append C b cur of Inl (Raised _) \<Rightarrow> Inr b | r \<Rightarrow> r)"

lemma append_ok:
  assumes "common_spec C" and "valid_buf b" and "bytes_at (ptr cur) (cur_len cur) = Inr bs"
    and "length bs \<le> room b"
  shows "\<exists>b'. buf_append C b cur = Inr b' \<and> append_unchecked C b cur = Inr b' \<and> appends b bs (Some b') \<and>
    buffer b' = map_option (overwrite (buf_len b) bs) (buffer b)"
proof -
  have "cur_len cur \<le> room b" using bytes_at_length [OF assms(3)] assms(4) by simp
  from append_law [OF assms(1-3) this] this assms(2,3) show ?thesis
    by (auto simp: append_unchecked_def buf_append_def room_def valid_buf_def)
qed

lemma append_too_long:
  assumes "common_spec C" and "valid_buf b" and "room b < cur_len cur"
  shows "\<exists>e. buf_append C b cur = Inl (Raised e)"
  using append_fails_law [OF assms(1,2), of cur] assms(2,3)
  by (auto simp: buf_append_def room_def valid_buf_def)

text \<open>
  An initialization whose result is not tested: a failed allocation leaves an empty buffer.
  \<open>copy_cursor\<close> is such a call of \<open>aws_byte_buf_init_copy_from_cursor\<close>.
\<close>

definition or_zero :: "aws_byte_buf result \<Rightarrow> aws_byte_buf result" where
  "or_zero r = (case r of Inl (Raised _) \<Rightarrow> Inr zero_buf | _ \<Rightarrow> r)"

definition copy_cursor :: "aws_common \<Rightarrow> aws_byte_cursor \<Rightarrow> aws_byte_buf result" where
  "copy_cursor C cur = rbind (bytes_at (ptr cur) (cur_len cur)) (\<lambda>bs. or_zero (aws_byte_buf_init_copy C bs))"

lemma copied:
  assumes "common_spec C" and "bytes_at (ptr cur) (cur_len cur) = Inr b" and "length b \<le> SIZE_MAX div 2"
  shows "\<exists>x. copy_cursor C cur = Inr x \<and> valid_buf x \<and> allocator x \<and> contents x = b \<and> buf_len x = length b \<and> (b \<noteq> [] \<longrightarrow> buffer x = Some b)"
proof -
  obtain x where x: "aws_byte_buf_init_copy C b = Inr x" "valid_buf x" "contents x = b" "capacity x = length b" "allocator x"
    using init_copy_law [OF assms(1,3)] by blast
  have l: "buf_len x = length b" using length_contents [OF x(2)] x(3) by simp
  have "buffer x = Some b" if "b \<noteq> []"
    using x(2-4) l that by (cases "buffer x") (auto simp: valid_buf_def contents_def)
  with x assms(2) l show ?thesis by (simp add: copy_cursor_def or_zero_def)
qed

lemma bytes_at_from_buf:
  "valid_buf b \<Longrightarrow> bytes_at (ptr (aws_byte_cursor_from_buf b)) (cur_len (aws_byte_cursor_from_buf b)) = Inr (contents b)"
  by (auto simp: aws_byte_cursor_from_buf_def bytes_at_def contents_def valid_buf_def split: option.splits)

section \<open>Array lists\<close>

text \<open>
  An array list holds its elements in a block of storage. \<open>al_storage\<close> identifies the block, so
  that a pointer to an element, which is a block and an index, can be told apart from a pointer
  into a block the list has given up. Appending to a list that is not full keeps the block.
\<close>

record 'e array_list =
  al_items :: "'e list"
  al_storage :: nat
  al_capacity :: nat

record 'e array_list_ops =
  aws_array_list_init_dynamic :: "nat \<Rightarrow> 'e array_list result"
  aws_array_list_push_back :: "'e array_list \<Rightarrow> 'e \<Rightarrow> 'e array_list result"
  aws_array_list_back :: "'e array_list \<Rightarrow> 'e result"
  aws_array_list_pop_back :: "'e array_list \<Rightarrow> 'e array_list"
  aws_array_list_get_at :: "'e array_list \<Rightarrow> nat \<Rightarrow> 'e result"
  aws_array_list_get_at_ptr :: "'e array_list \<Rightarrow> nat \<Rightarrow> (nat \<times> nat) option"

definition array_list_spec :: "'e array_list_ops \<Rightarrow> bool" where
  "array_list_spec L \<longleftrightarrow>
     (\<forall>n. \<exists>l. aws_array_list_init_dynamic L n = Inr l \<and> al_items l = [] \<and> al_capacity l = n) \<and>
     (\<forall>l x. \<exists>l'. aws_array_list_push_back L l x = Inr l' \<and> al_items l' = al_items l @ [x] \<and>
        (length (al_items l) < al_capacity l \<longrightarrow>
           al_storage l' = al_storage l \<and> al_capacity l' = al_capacity l)) \<and>
     (\<forall>l. al_items l = [] \<longrightarrow> (\<exists>e. aws_array_list_back L l = Inl (Raised e))) \<and>
     (\<forall>l. al_items l \<noteq> [] \<longrightarrow> aws_array_list_back L l = Inr (last (al_items l))) \<and>
     (\<forall>l. al_items l \<noteq> [] \<longrightarrow>
        al_items (aws_array_list_pop_back L l) = butlast (al_items l)) \<and>
     (\<forall>l i. i < length (al_items l) \<longrightarrow> aws_array_list_get_at L l i = Inr (al_items l ! i)) \<and>
     (\<forall>l i. length (al_items l) \<le> i \<longrightarrow> (\<exists>e. aws_array_list_get_at L l i = Inl (Raised e))) \<and>
     (\<forall>l i. aws_array_list_get_at_ptr L l i =
        (if i < length (al_items l) then Some (al_storage l, i) else None))"

lemma push_back_law:
  "array_list_spec L \<Longrightarrow> \<exists>l'. aws_array_list_push_back L l x = Inr l' \<and>
     al_items l' = al_items l @ [x] \<and>
     (length (al_items l) < al_capacity l \<longrightarrow>
        al_storage l' = al_storage l \<and> al_capacity l' = al_capacity l)"
  unfolding array_list_spec_def by blast

lemma init_dynamic_law:
  "array_list_spec L \<Longrightarrow>
     \<exists>l. aws_array_list_init_dynamic L n = Inr l \<and> al_items l = [] \<and> al_capacity l = n"
  unfolding array_list_spec_def by blast

lemma back_laws:
  "array_list_spec L \<Longrightarrow> al_items l = [] \<Longrightarrow> \<exists>e. aws_array_list_back L l = Inl (Raised e)"
  "array_list_spec L \<Longrightarrow> al_items l \<noteq> [] \<Longrightarrow> aws_array_list_back L l = Inr (last (al_items l))"
  unfolding array_list_spec_def by blast+

lemma pop_back_law [simp]:
  "array_list_spec L \<Longrightarrow> al_items l \<noteq> [] \<Longrightarrow>
     al_items (aws_array_list_pop_back L l) = butlast (al_items l)"
  unfolding array_list_spec_def by blast

lemma get_at_law [simp]:
  "array_list_spec L \<Longrightarrow> i < length (al_items l) \<Longrightarrow>
     aws_array_list_get_at L l i = Inr (al_items l ! i)"
  unfolding array_list_spec_def by blast

lemma get_at_fails:
  "array_list_spec L \<Longrightarrow> length (al_items l) \<le> i \<Longrightarrow>
     \<exists>e. aws_array_list_get_at L l i = Inl (Raised e)"
  unfolding array_list_spec_def by blast

lemma get_at_ptr_law [simp]:
  "array_list_spec L \<Longrightarrow> aws_array_list_get_at_ptr L l i =
     (if i < length (al_items l) then Some (al_storage l, i) else None)"
  unfolding array_list_spec_def by blast

section \<open>Instances that satisfy the specifications\<close>

definition ref_write :: "aws_byte_buf \<Rightarrow> bytes \<Rightarrow> aws_byte_buf option" where
  "ref_write b bs =
     (if length bs \<le> room b
      then Some (b\<lparr>buffer := map_option (overwrite (buf_len b) bs) (buffer b),
                   buf_len := buf_len b + length bs\<rparr>)
      else None)"

definition ref_init :: "nat \<Rightarrow> aws_byte_buf result" where
  "ref_init n = Inr \<lparr>buf_len = 0, buffer = Some (replicate n 0), capacity = n, allocator = True\<rparr>"

definition ref_reserve :: "aws_byte_buf \<Rightarrow> nat \<Rightarrow> aws_byte_buf result" where
  "ref_reserve b n =
     (if allocator b \<and> buf_len b + n \<le> SIZE_MAX div 2
      then Inr (b\<lparr>buffer := Some (contents b @ replicate (max (capacity b) (buf_len b + n) - buf_len b) 0),
                  capacity := max (capacity b) (buf_len b + n)\<rparr>)
      else Inl (Raised AWS_ERROR_INVALID_ARGUMENT))"

definition ref_append :: "aws_byte_buf \<Rightarrow> bytes \<Rightarrow> aws_byte_buf result" where
  "ref_append b bs =
     rbind (ref_reserve b (length bs)) (\<lambda>b'.
       case ref_write b' bs of None \<Rightarrow> Inl (Raised AWS_ERROR_SHORT_BUFFER) | Some b'' \<Rightarrow> Inr b'')"

definition ref_read :: "nat \<Rightarrow> aws_byte_cursor \<Rightarrow> (bytes \<times> aws_byte_cursor) option" where
  "ref_read n cur = (if cur_len cur < n then None else Some (cur_data cur n, cur_drop n cur))"

definition ref_common :: aws_common where
  "ref_common =
     \<lparr>aws_mem_acquire_ok = True,
      aws_byte_cursor_read_u8 = (\<lambda>cur. map_option (\<lambda>(d, c). (hd d, c)) (ref_read 1 cur)),
      aws_byte_cursor_read_be16 =
        (\<lambda>cur. map_option (\<lambda>(d, c). (word_of_nat (be_nat d), c)) (ref_read 2 cur)),
      aws_byte_cursor_read_be32 =
        (\<lambda>cur. map_option (\<lambda>(d, c). (word_of_nat (be_nat d), c)) (ref_read 4 cur)),
      aws_byte_cursor_advance =
        (\<lambda>cur n. if n \<le> cur_len cur then (cur\<lparr>cur_len := n\<rparr>, cur_drop n cur)
                 else (null_cursor, cur)),
      aws_byte_cursor_eq =
        (\<lambda>a b. cur_len a = cur_len b \<and>
               bytes_at (ptr a) (cur_len a) = bytes_at (ptr b) (cur_len b)),
      aws_byte_buf_init = ref_init,
      aws_byte_buf_init_copy =
        (\<lambda>bs. Inr \<lparr>buf_len = length bs, buffer = Some bs, capacity = length bs,
                   allocator = True\<rparr>),
      aws_byte_buf_write = ref_write,
      aws_byte_buf_write_u8 = (\<lambda>b x. ref_write b [x]),
      aws_byte_buf_write_be16 = (\<lambda>b x. ref_write b (be_bytes 2 (unat x))),
      aws_byte_buf_write_be32 = (\<lambda>b x. ref_write b (be_bytes 4 (unat x))),
      aws_byte_buf_write_u8_n = (\<lambda>b x n. ref_write b (replicate n x)),
      aws_byte_buf_reserve_relative = ref_reserve,
      aws_byte_buf_append_dynamic = ref_append,
      aws_byte_buf_secure_zero =
        (\<lambda>b. b\<lparr>buf_len := 0, buffer := map_option (map (\<lambda>_. 0)) (buffer b)\<rparr>),
      aws_byte_buf_reset = (\<lambda>b z. b\<lparr>buf_len := 0,
        buffer := if z then map_option (map (\<lambda>_. 0)) (buffer b) else buffer b\<rparr>),
      aws_add_u32_checked = (\<lambda>a b. if unat a + unat b < 2 ^ 32 then Some (a + b) else None),
      aws_device_random_buffer_append =
        (\<lambda>b n. case ref_write b (replicate n 7) of
                 None \<Rightarrow> Inl (Raised AWS_ERROR_SHORT_BUFFER) | Some b' \<Rightarrow> Inr b'),
      aws_byte_buf_append =
        (\<lambda>b cur. if cur_len cur \<le> room b then
                    (case bytes_at (ptr cur) (cur_len cur) of Inl f \<Rightarrow> Inl f
                     | Inr bs \<Rightarrow> (case ref_write b bs of
                         None \<Rightarrow> Inl (Raised (Lib_error 3)) | Some b' \<Rightarrow> Inr b'))
                  else Inl (Raised (Lib_error 3))),
      aws_byte_cursor_left_trim_pred =
        (\<lambda>cur P. case bytes_at (ptr cur) (cur_len cur) of
                   Inl _ \<Rightarrow> cur | Inr bs \<Rightarrow> cur_drop (length (takeWhile P bs)) cur)\<rparr>"

definition ref_array_list :: "'e array_list_ops" where
  "ref_array_list =
     \<lparr>aws_array_list_init_dynamic =
        (\<lambda>n. Inr \<lparr>al_items = [], al_storage = 0, al_capacity = n\<rparr>),
      aws_array_list_push_back =
        (\<lambda>l x. Inr (if length (al_items l) < al_capacity l then l\<lparr>al_items := al_items l @ [x]\<rparr>
                    else \<lparr>al_items = al_items l @ [x], al_storage = Suc (al_storage l),
                          al_capacity = 2 * Suc (al_capacity l)\<rparr>)),
      aws_array_list_back =
        (\<lambda>l. if al_items l = [] then Inl (Raised (Lib_error 1)) else Inr (last (al_items l))),
      aws_array_list_pop_back = (\<lambda>l. l\<lparr>al_items := butlast (al_items l)\<rparr>),
      aws_array_list_get_at =
        (\<lambda>l i. if i < length (al_items l) then Inr (al_items l ! i)
               else Inl (Raised (Lib_error 2))),
      aws_array_list_get_at_ptr =
        (\<lambda>l i. if i < length (al_items l) then Some (al_storage l, i) else None)\<rparr>"

lemma appends_ref_write:
  assumes v: "valid_buf b"
  shows "appends b bs (ref_write b bs)"
proof (cases "buffer b")
  case None
  with v show ?thesis
    by (cases bs) (auto simp: appends_def ref_write_def valid_buf_def room_def contents_def)
next
  case (Some m)
  have "buf_len b + length bs \<le> length m" if "length bs \<le> room b"
    using that v Some by (auto simp: valid_buf_def room_def)
  with v Some show ?thesis
    by (auto simp: appends_def ref_write_def valid_buf_def room_def contents_def)
qed

lemma valid_ref_reserve:
  assumes "valid_buf b" and "allocator b" and "buf_len b + n \<le> SIZE_MAX div 2"
  shows "\<exists>b'. ref_reserve b n = Inr b' \<and> valid_buf b' \<and> contents b' = contents b \<and>
    buf_len b' = buf_len b \<and> capacity b' = max (capacity b) (buf_len b + n) \<and>
    allocator b'"
proof -
  have "length (contents b) = buf_len b" using assms(1) by simp
  with assms show ?thesis
    by (auto simp: ref_reserve_def valid_buf_def contents_def split: option.splits)
qed

lemma ref_append_law:
  assumes "valid_buf b" and "allocator b" and "buf_len b + length bs \<le> SIZE_MAX div 2"
  shows "\<exists>b'. ref_append b bs = Inr b' \<and> valid_buf b' \<and> contents b' = contents b @ bs \<and>
    buf_len b' = buf_len b + length bs \<and> allocator b'"
proof -
  obtain b1 where b1: "ref_reserve b (length bs) = Inr b1" "valid_buf b1"
      "contents b1 = contents b" "buf_len b1 = buf_len b"
      "capacity b1 = max (capacity b) (buf_len b + length bs)" "allocator b1"
    using valid_ref_reserve [OF assms] by blast
  have "length bs \<le> room b1" using b1(4,5) by (simp add: room_def)
  from appends_ref_write [OF b1(2), of bs] this b1(1,3,4,6) show ?thesis
    by (cases "ref_write b1 bs") (auto simp: ref_append_def appends_def)
qed

lemma cursor_spec_ref: "cursor_spec ref_common"
  by (auto simp: cursor_spec_def ref_common_def ref_read_def dest!: bytes_at_length)

lemma ref_append_plain:
  assumes "valid_buf b"
  shows "if cur_len cur \<le> room b
    then \<forall>bs. bytes_at (ptr cur) (cur_len cur) = Inr bs \<longrightarrow>
      (\<exists>b'. aws_byte_buf_append ref_common b cur = Inr b' \<and> appends b bs (Some b') \<and>
            buffer b' = map_option (overwrite (buf_len b) bs) (buffer b))
    else \<exists>e. aws_byte_buf_append ref_common b cur = Inl (Raised e)"
proof -
  have "\<exists>b'. ref_write b bs = Some b' \<and> appends b bs (Some b') \<and>
      buffer b' = map_option (overwrite (buf_len b) bs) (buffer b)"
    if "cur_len cur \<le> room b" "bytes_at (ptr cur) (cur_len cur) = Inr bs" for bs
    using appends_ref_write [OF assms, of bs] bytes_at_length [OF that(2)] that(1) by (auto simp: ref_write_def)
  then show ?thesis
    by (force simp: ref_common_def)
qed

lemma write_spec_ref: "write_spec ref_common"
  unfolding write_spec_def
  by (intro conjI allI impI; (rule ref_append_plain, assumption)?)
    (simp_all add: ref_common_def appends_ref_write)

lemma alloc_spec_ref: "alloc_spec ref_common"
  unfolding alloc_spec_def
proof (intro conjI allI impI)
  fix b n
  assume v: "valid_buf b"
  show "if n \<le> room b
     then \<exists>rnd. length rnd = n \<and>
            (\<exists>b'. aws_device_random_buffer_append ref_common b n = Inr b' \<and> appends b rnd (Some b'))
     else \<exists>e. aws_device_random_buffer_append ref_common b n = Inl (Raised e)"
    using appends_ref_write [OF v, of "replicate n 7"]
    by (auto simp: ref_common_def ref_write_def intro!: exI [where x = "replicate n 7"])
  show "if allocator b \<and> buf_len b + n \<le> SIZE_MAX div 2
     then \<exists>b'. aws_byte_buf_reserve_relative ref_common b n = Inr b' \<and> valid_buf b' \<and>
            contents b' = contents b \<and> buf_len b' = buf_len b \<and>
            capacity b' = max (capacity b) (buf_len b + n) \<and> allocator b'
     else \<exists>e. aws_byte_buf_reserve_relative ref_common b n = Inl (Raised e)"
    using valid_ref_reserve [OF v, of n] by (auto simp: ref_common_def ref_reserve_def)
next
  fix b :: aws_byte_buf and bs :: bytes
  assume "valid_buf b \<and> allocator b \<and> buf_len b + length bs \<le> SIZE_MAX div 2"
  then show "\<exists>b'. aws_byte_buf_append_dynamic ref_common b bs = Inr b' \<and> valid_buf b' \<and>
      contents b' = contents b @ bs \<and> buf_len b' = buf_len b + length bs \<and> allocator b'"
    using ref_append_law [of b bs] by (simp add: ref_common_def)
qed (auto simp: ref_common_def ref_init_def fresh_buf_def valid_buf_def contents_def
      split: option.splits)

lemma math_spec_ref: "math_spec ref_common"
  by (simp add: math_spec_def ref_common_def)

lemma common_spec_ref: "common_spec ref_common"
  by (simp add: common_spec_def cursor_spec_ref write_spec_ref alloc_spec_ref math_spec_ref)

lemma array_list_spec_ref: "array_list_spec ref_array_list"
  by (auto simp: array_list_spec_def ref_array_list_def)

section \<open>Clean-up\<close>

text \<open>
  The world in which a destroy function runs: the actions on what an object owns, in their
  order. \<open>'h\<close> is a handle of the crypto library.
\<close>

datatype 'h clean_up =
    Free_handle 'h
  | Destroy_cf_allocator
  | Clean_up_buf aws_byte_buf
  | Clean_up_secure aws_byte_buf
  | Clean_up_list
  | Release_auth_info
  | Mem_release

definition free_handle :: "'h option \<Rightarrow> 'h clean_up list" where
  "free_handle h = (case h of None \<Rightarrow> [] | Some x \<Rightarrow> [Free_handle x])"

end
