(* ===== verification/Der_Encoder.thy ===== *)
theory Der_Encoder
  imports Aws_Common
begin

text \<open>
  The DER encoder of \<^verbatim>\<open>source/der.c\<close>. The first part models the TLV structure and
  \<open>s_der_write_tlv\<close>, the second the encoder with its stack of open containers. Each open
  container owns a separate buffer; the struct's \<open>buffer\<close> pointer and the \<open>value\<close> field of a
  stack entry alias it, so the model keeps those buffers in a heap and the pointers are
  addresses.

  The lemmas show that a write appends exactly one DER frame or fails with
  AWS_ERROR_INVALID_BUFFER_SIZE, that every operation keeps the encoder's invariant (each open
  container has its own live buffer, and the write pointer is the innermost one), and that the
  operations implement an abstract encoder: a root byte string and a stack of open frames.
\<close>

section \<open>Tags and TLVs\<close>

abbreviation AWS_DER_BOOLEAN :: byte where "AWS_DER_BOOLEAN \<equiv> 0x01"
abbreviation AWS_DER_INTEGER :: byte where "AWS_DER_INTEGER \<equiv> 0x02"
abbreviation AWS_DER_BIT_STRING :: byte where "AWS_DER_BIT_STRING \<equiv> 0x03"
abbreviation AWS_DER_OCTET_STRING :: byte where "AWS_DER_OCTET_STRING \<equiv> 0x04"
abbreviation AWS_DER_NULL :: byte where "AWS_DER_NULL \<equiv> 0x05"
abbreviation AWS_DER_OBJECT_IDENTIFIER :: byte where "AWS_DER_OBJECT_IDENTIFIER \<equiv> 0x06"
abbreviation AWS_DER_UTF8_STRING :: byte where "AWS_DER_UTF8_STRING \<equiv> 0x0c"
abbreviation AWS_DER_PrintableString :: byte where "AWS_DER_PrintableString \<equiv> 0x13"
abbreviation AWS_DER_IA5String :: byte where "AWS_DER_IA5String \<equiv> 0x16"
abbreviation AWS_DER_BMPString :: byte where "AWS_DER_BMPString \<equiv> 0x1e"
abbreviation AWS_DER_SEQUENCE :: byte where "AWS_DER_SEQUENCE \<equiv> 0x30"
abbreviation AWS_DER_SET :: byte where "AWS_DER_SET \<equiv> 0x31"
abbreviation AWS_DER_FORM_CONSTRUCTED :: byte where "AWS_DER_FORM_CONSTRUCTED \<equiv> 0x20"

text \<open>
  The \<open>value\<close> field points at bytes, except in an entry of the encoder's stack, where it points
  at the \<open>aws_byte_buf\<close> of an open container; such a pointer is never read as bytes.
\<close>

datatype value_ptr = Data "pointer option" | Buf_ptr nat

record der_tlv =
  tag :: byte
  tlv_length :: "32 word"
  tlv_count :: "32 word"
  tlv_value :: value_ptr

fun data_ptr :: "value_ptr \<Rightarrow> pointer option" where
  "data_ptr (Data p) = p"
| "data_ptr (Buf_ptr _) = None"

definition s_encoded_len :: "der_tlv \<Rightarrow> 32 word result" where
  "s_encoded_len tlv =
     (if tag tlv = AWS_DER_INTEGER then
        rbind (deref (data_ptr (tlv_value tlv))) (\<lambda>first_byte.
          Inr (tlv_length tlv + (if first_byte AND 0x80 \<noteq> 0 then 1 else 0)))
      else if tag tlv = AWS_DER_BIT_STRING then Inr (tlv_length tlv + 1)
      else Inr (tlv_length tlv))"

text \<open>\<open>if (!write) return aws_raise_error(AWS_ERROR_INVALID_BUFFER_SIZE)\<close>.\<close>

definition put :: "aws_byte_buf option \<Rightarrow> aws_byte_buf \<Rightarrow> unit result \<times> aws_byte_buf" where
  "put r b = (case r of
       None \<Rightarrow> (Inl (Raised AWS_ERROR_INVALID_BUFFER_SIZE), b)
     | Some b' \<Rightarrow> (Inr (), b'))"

definition write_tlv_len :: "aws_common \<Rightarrow> 32 word \<Rightarrow> aws_byte_buf \<Rightarrow> unit result \<times> aws_byte_buf" where
  "write_tlv_len C len buf =
     (if unat len > 65535 then
        seq_op (put (aws_byte_buf_write_u8 C buf 0x84) buf) (\<lambda>_ b.
          put (aws_byte_buf_write_be32 C b len) b)
      else if unat len > 255 then
        seq_op (put (aws_byte_buf_write_u8 C buf 0x82) buf) (\<lambda>_ b.
          put (aws_byte_buf_write_be16 C b (ucast len)) b)
      else if unat len > 127 then
        seq_op (put (aws_byte_buf_write_u8 C buf 0x81) buf) (\<lambda>_ b.
          put (aws_byte_buf_write_u8 C b (ucast len)) b)
      else put (aws_byte_buf_write_u8 C buf (ucast len)) buf)"

definition write_tlv_bytes :: "aws_common \<Rightarrow> der_tlv \<Rightarrow> aws_byte_buf \<Rightarrow> unit result \<times> aws_byte_buf" where
  "write_tlv_bytes C tlv buf =
     seq_op (bytes_at (data_ptr (tlv_value tlv)) (unat (tlv_length tlv)), buf) (\<lambda>bs b.
       put (aws_byte_buf_write C b bs) b)"

definition write_tlv_value :: "aws_common \<Rightarrow> der_tlv \<Rightarrow> aws_byte_buf \<Rightarrow> unit result \<times> aws_byte_buf" where
  "write_tlv_value C tlv buf =
     (if tag tlv = AWS_DER_INTEGER then
        seq_op (deref (data_ptr (tlv_value tlv)), buf) (\<lambda>first_byte b.
          seq_op (if first_byte AND 0x80 \<noteq> 0 then put (aws_byte_buf_write_u8 C b 0) b
                  else (Inr (), b)) (\<lambda>_ b. write_tlv_bytes C tlv b))
      else if tag tlv = AWS_DER_BOOLEAN then
        seq_op (deref (data_ptr (tlv_value tlv)), buf) (\<lambda>v b.
          put (aws_byte_buf_write_u8 C b (if v \<noteq> 0 then 0xff else 0x00)) b)
      else if tag tlv = AWS_DER_BIT_STRING then
        seq_op (put (aws_byte_buf_write_u8 C buf 0) buf) (\<lambda>_ b. write_tlv_bytes C tlv b)
      else if tag tlv \<in> {AWS_DER_BMPString, AWS_DER_IA5String, AWS_DER_PrintableString,
                         AWS_DER_UTF8_STRING, AWS_DER_OBJECT_IDENTIFIER, AWS_DER_OCTET_STRING,
                         AWS_DER_SEQUENCE, AWS_DER_SET} then
        write_tlv_bytes C tlv buf
      else if tag tlv = AWS_DER_NULL then (Inr (), buf)
      else (Inl (Raised AWS_ERROR_CAL_MISMATCHED_DER_TYPE), buf))"

definition s_der_write_tlv :: "aws_common \<Rightarrow> der_tlv \<Rightarrow> aws_byte_buf \<Rightarrow> unit result \<times> aws_byte_buf" where
  "s_der_write_tlv C tlv buf =
     seq_op (put (aws_byte_buf_write_u8 C buf (tag tlv)) buf) (\<lambda>_ b.
       seq_op (s_encoded_len tlv, b) (\<lambda>len b.
         seq_op (write_tlv_len C len b) (\<lambda>_ b. write_tlv_value C tlv b)))"

section \<open>The encoder\<close>

datatype buf_ref = Storage | Seq_buf nat

record aws_der_encoder =
  storage :: aws_byte_buf
  enc_buffer :: buf_ref
  stack :: "der_tlv array_list"
  heap :: "nat \<rightharpoonup> aws_byte_buf"
  next_addr :: nat

text \<open>Applying an operation to the buffer that \<open>encoder->buffer\<close> points at.\<close>

definition on_buffer :: "(aws_byte_buf \<Rightarrow> unit result \<times> aws_byte_buf) \<Rightarrow> aws_der_encoder \<Rightarrow>
    unit result \<times> aws_der_encoder" where
  "on_buffer f enc = (case enc_buffer enc of
       Storage \<Rightarrow> (case f (storage enc) of (r, b) \<Rightarrow> (r, enc\<lparr>storage := b\<rparr>))
     | Seq_buf a \<Rightarrow> (case heap enc a of
           None \<Rightarrow> (Inl (Undefined Use_after_free), enc)
         | Some b \<Rightarrow> (case f b of (r, b') \<Rightarrow> (r, enc\<lparr>heap := (heap enc)(a \<mapsto> b')\<rparr>))))"

definition aws_der_encoder_new :: "aws_common \<Rightarrow> der_tlv array_list_ops \<Rightarrow> nat \<Rightarrow>
    aws_der_encoder result" where
  "aws_der_encoder_new C L cap =
     (if \<not> aws_mem_acquire_ok C then Inl Fatal
      else rbind (aws_byte_buf_init C cap) (\<lambda>st.
        rbind (aws_array_list_init_dynamic L 4) (\<lambda>stk.
          Inr \<lparr>storage = st, enc_buffer = Storage, stack = stk, heap = Map.empty,
               next_addr = 0\<rparr>)))"

text \<open>
  Destruction releases the storage and the stack's own memory. The result is what stays
  allocated afterwards.
\<close>

definition aws_der_encoder_destroy :: "aws_der_encoder option \<Rightarrow> nat \<rightharpoonup> aws_byte_buf" where
  "aws_der_encoder_destroy e = (case e of None \<Rightarrow> Map.empty | Some enc \<Rightarrow> heap enc)"

definition aws_der_encoder_write_integer :: "aws_common \<Rightarrow> aws_der_encoder \<Rightarrow> aws_byte_cursor \<Rightarrow>
    unit result \<times> aws_der_encoder" where
  "aws_der_encoder_write_integer C enc integer =
     (if cur_len integer > 2 ^ 32 - 1 then (Inl Fatal, enc)
      else on_buffer (s_der_write_tlv C
        \<lparr>tag = AWS_DER_INTEGER, tlv_length = word_of_nat (cur_len integer), tlv_count = 0,
         tlv_value = Data (ptr integer)\<rparr>) enc)"

definition aws_der_encoder_write_boolean :: "aws_common \<Rightarrow> aws_der_encoder \<Rightarrow> bool \<Rightarrow>
    unit result \<times> aws_der_encoder" where
  "aws_der_encoder_write_boolean C enc boolean =
     on_buffer (s_der_write_tlv C
       \<lparr>tag = AWS_DER_BOOLEAN, tlv_length = 1, tlv_count = 0,
        tlv_value = Data (Some \<lparr>pobj = [if boolean then 1 else 0], poff = 0\<rparr>)\<rparr>) enc"

definition aws_der_encoder_write_null :: "aws_common \<Rightarrow> aws_der_encoder \<Rightarrow>
    unit result \<times> aws_der_encoder" where
  "aws_der_encoder_write_null C enc =
     on_buffer (s_der_write_tlv C
       \<lparr>tag = AWS_DER_NULL, tlv_length = 0, tlv_count = 0, tlv_value = Data None\<rparr>) enc"

definition aws_der_encoder_write_bit_string :: "aws_common \<Rightarrow> aws_der_encoder \<Rightarrow>
    aws_byte_cursor \<Rightarrow> unit result \<times> aws_der_encoder" where
  "aws_der_encoder_write_bit_string C enc bit_string =
     (if cur_len bit_string > 2 ^ 32 - 1 then (Inl Fatal, enc)
      else on_buffer (s_der_write_tlv C
        \<lparr>tag = AWS_DER_BIT_STRING, tlv_length = word_of_nat (cur_len bit_string), tlv_count = 0,
         tlv_value = Data (ptr bit_string)\<rparr>) enc)"

definition aws_der_encoder_write_octet_string :: "aws_common \<Rightarrow> aws_der_encoder \<Rightarrow>
    aws_byte_cursor \<Rightarrow> unit result \<times> aws_der_encoder" where
  "aws_der_encoder_write_octet_string C enc octet_string =
     (if cur_len octet_string > 2 ^ 32 - 1 then (Inl Fatal, enc)
      else on_buffer (s_der_write_tlv C
        \<lparr>tag = AWS_DER_OCTET_STRING, tlv_length = word_of_nat (cur_len octet_string),
         tlv_count = 0, tlv_value = Data (ptr octet_string)\<rparr>) enc)"

definition s_der_encoder_begin_container :: "aws_common \<Rightarrow> der_tlv array_list_ops \<Rightarrow>
    aws_der_encoder \<Rightarrow> byte \<Rightarrow> unit result \<times> aws_der_encoder" where
  "s_der_encoder_begin_container C L enc type =
     (if \<not> aws_mem_acquire_ok C then (Inl Fatal, enc)
      else case aws_byte_buf_init C (capacity (storage enc)) of
        Inl e \<Rightarrow> (Inl e, enc)
      | Inr seq_buf \<Rightarrow>
          let a = next_addr enc;
              tlv_seq = \<lparr>tag = type, tlv_length = 0, tlv_count = 0, tlv_value = Buf_ptr a\<rparr>
          in (case aws_array_list_push_back L (stack enc) tlv_seq of
                Inl e \<Rightarrow> (Inl e, enc)
              | Inr stk \<Rightarrow>
                  (Inr (), enc\<lparr>stack := stk, heap := (heap enc)(a \<mapsto> seq_buf),
                               next_addr := Suc a, enc_buffer := Seq_buf a\<rparr>)))"

text \<open>
  The tail of \<open>s_der_encoder_end_container\<close>, after \<open>encoder->buffer\<close> was moved to the enclosing
  container: the finished container's bytes become one TLV there, and its buffer is freed.
\<close>

definition finish_container :: "aws_common \<Rightarrow> der_tlv \<Rightarrow> aws_der_encoder \<Rightarrow>
    unit result \<times> aws_der_encoder" where
  "finish_container C tlv enc = (case tlv_value tlv of
       Data _ \<Rightarrow> (Inl (Undefined Out_of_bounds), enc)
     | Buf_ptr a \<Rightarrow> (case heap enc a of
           None \<Rightarrow> (Inl (Undefined Use_after_free), enc)
         | Some seq_buf \<Rightarrow>
             (case on_buffer (s_der_write_tlv C
                  (tlv\<lparr>tlv_length := word_of_nat (buf_len seq_buf),
                       tlv_value := Data (ptr (aws_byte_cursor_from_buf seq_buf))\<rparr>)) enc of
                (result, enc') \<Rightarrow> (result, enc'\<lparr>heap := (heap enc')(a := None)\<rparr>))))"

definition s_der_encoder_end_container :: "aws_common \<Rightarrow> der_tlv array_list_ops \<Rightarrow>
    aws_der_encoder \<Rightarrow> unit result \<times> aws_der_encoder" where
  "s_der_encoder_end_container C L enc = (case aws_array_list_back L (stack enc) of
       Inl e \<Rightarrow> (Inl e, enc)
     | Inr tlv \<Rightarrow>
         let stk = aws_array_list_pop_back L (stack enc);
             enc1 = enc\<lparr>stack := stk\<rparr>
         in if length (al_items stk) > 0 then
              (case aws_array_list_back L stk of
                 Inl e \<Rightarrow> (Inl e, enc1)
               | Inr outer \<Rightarrow> (case tlv_value outer of
                     Data _ \<Rightarrow> (Inl (Undefined Out_of_bounds), enc1)
                   | Buf_ptr a \<Rightarrow> finish_container C tlv (enc1\<lparr>enc_buffer := Seq_buf a\<rparr>)))
            else finish_container C tlv (enc1\<lparr>enc_buffer := Storage\<rparr>))"

definition aws_der_encoder_begin_sequence :: "aws_common \<Rightarrow> der_tlv array_list_ops \<Rightarrow>
    aws_der_encoder \<Rightarrow> unit result \<times> aws_der_encoder" where
  "aws_der_encoder_begin_sequence C L enc = s_der_encoder_begin_container C L enc AWS_DER_SEQUENCE"

definition aws_der_encoder_end_sequence :: "aws_common \<Rightarrow> der_tlv array_list_ops \<Rightarrow>
    aws_der_encoder \<Rightarrow> unit result \<times> aws_der_encoder" where
  "aws_der_encoder_end_sequence C L enc = s_der_encoder_end_container C L enc"

definition aws_der_encoder_begin_set :: "aws_common \<Rightarrow> der_tlv array_list_ops \<Rightarrow>
    aws_der_encoder \<Rightarrow> unit result \<times> aws_der_encoder" where
  "aws_der_encoder_begin_set C L enc = s_der_encoder_begin_container C L enc AWS_DER_SET"

definition aws_der_encoder_end_set :: "aws_common \<Rightarrow> der_tlv array_list_ops \<Rightarrow>
    aws_der_encoder \<Rightarrow> unit result \<times> aws_der_encoder" where
  "aws_der_encoder_end_set C L enc = s_der_encoder_end_container C L enc"

definition aws_der_encoder_get_contents :: "aws_der_encoder \<Rightarrow> aws_byte_cursor result" where
  "aws_der_encoder_get_contents enc =
     (if buf_len (storage enc) = 0 then Inl (Raised AWS_ERROR_INVALID_STATE)
      else if enc_buffer enc \<noteq> Storage then Inl (Raised AWS_ERROR_INVALID_STATE)
      else Inr (aws_byte_cursor_from_buf (storage enc)))"

section \<open>What a write appends\<close>

text \<open>The definite length octets and the frame of a TLV, as the encoder produces them.\<close>

definition der_length_bytes :: "nat \<Rightarrow> bytes" where
  "der_length_bytes n =
     (if n > 65535 then 0x84 # be_bytes 4 n
      else if n > 255 then 0x82 # be_bytes 2 n
      else if n > 127 then [0x81, word_of_nat n]
      else [word_of_nat n])"

definition der_frame :: "byte \<Rightarrow> bytes \<Rightarrow> bytes" where
  "der_frame t body = t # der_length_bytes (length body) @ body"

text \<open>The content octets the encoder derives from the value bytes of a TLV.\<close>

definition der_body :: "byte \<Rightarrow> bytes \<Rightarrow> bytes" where
  "der_body t bs =
     (if t = AWS_DER_INTEGER then (if hd bs AND 0x80 \<noteq> 0 then 0 # bs else bs)
      else if t = AWS_DER_BIT_STRING then 0 # bs
      else if t = AWS_DER_BOOLEAN then [if hd bs \<noteq> 0 then 0xff else 0x00]
      else if t = AWS_DER_NULL then []
      else bs)"

text \<open>
  \<open>writes b bs p\<close>: the outcome \<open>p\<close> of an operation on \<open>b\<close> is that it appended \<open>bs\<close>, or, when
  there was no room for them, that it failed and left a proper prefix behind.
\<close>

definition writes :: "aws_byte_buf \<Rightarrow> bytes \<Rightarrow> unit result \<times> aws_byte_buf \<Rightarrow> bool" where
  "writes b bs p \<longleftrightarrow>
     valid_buf (snd p) \<and> capacity (snd p) = capacity b \<and> allocator (snd p) = allocator b \<and>
     (if length bs \<le> room b then fst p = Inr () \<and> contents (snd p) = contents b @ bs
      else fst p = Inl (Raised AWS_ERROR_INVALID_BUFFER_SIZE) \<and>
           (\<exists>k < length bs. contents (snd p) = contents b @ take k bs))"

lemma writes_put:
  assumes "valid_buf b" and "appends b bs r"
  shows "writes b bs (put r b)"
  using assms by (cases bs) (auto simp: writes_def put_def appends_def split: option.splits)

lemma writes_nothing [simp]: "valid_buf b \<Longrightarrow> writes b [] (Inr (), b)"
  by (simp add: writes_def)

lemma writes_seq:
  assumes b: "valid_buf b" and p: "writes b xs p"
    and f: "\<And>b1. valid_buf b1 \<Longrightarrow> capacity b1 = capacity b \<Longrightarrow> allocator b1 = allocator b \<Longrightarrow>
              writes b1 ys (f () b1)"
  shows "writes b (xs @ ys) (seq_op p f)"
proof (cases "length xs \<le> room b")
  case False
  with p obtain k b1 where "p = (Inl (Raised AWS_ERROR_INVALID_BUFFER_SIZE), b1)"
      "k < length xs" "contents b1 = contents b @ take k xs" "valid_buf b1"
      "capacity b1 = capacity b" "allocator b1 = allocator b"
    by (cases p) (auto simp: writes_def)
  with False show ?thesis
    by (auto simp: writes_def intro!: exI [where x = k])
next
  case True
  with p obtain b1 where p1: "p = (Inr (), b1)" and v: "valid_buf b1"
      and c: "contents b1 = contents b @ xs" "capacity b1 = capacity b" "allocator b1 = allocator b"
    by (cases p) (auto simp: writes_def)
  have "buf_len b1 = buf_len b + length xs"
    using length_contents [OF v] length_contents [OF b] c by simp
  then have r: "room b1 = room b - length xs" using c by (simp add: room_def)
  from f [OF v c(2,3)] r True c show ?thesis
    unfolding writes_def p1
    by (auto split: if_splits intro!: exI [where x = "length xs + k" for k])
qed

lemma writes_pure:
  "writes b ys (f x b) \<Longrightarrow> writes b ys (seq_op (Inr x, b) f)"
  by simp


text \<open>
  A TLV the public API can hand to \<open>s_der_write_tlv\<close>: its value bytes are readable, an integer
  has at least one byte, a boolean exactly one and a null none.
\<close>

definition data_tags :: "byte set" where
  "data_tags = {AWS_DER_BMPString, AWS_DER_IA5String, AWS_DER_PrintableString,
     AWS_DER_UTF8_STRING, AWS_DER_OBJECT_IDENTIFIER, AWS_DER_OCTET_STRING,
     AWS_DER_SEQUENCE, AWS_DER_SET}"

definition encodable_tlv :: "der_tlv \<Rightarrow> bytes \<Rightarrow> bool" where
  "encodable_tlv tlv bs \<longleftrightarrow>
     bytes_at (data_ptr (tlv_value tlv)) (unat (tlv_length tlv)) = Inr bs \<and>
     length (der_body (tag tlv) bs) < 2 ^ 32 \<and>
     (tag tlv = AWS_DER_INTEGER \<and> bs \<noteq> [] \<or>
      tag tlv = AWS_DER_BOOLEAN \<and> length bs = 1 \<or>
      tag tlv = AWS_DER_NULL \<and> bs = [] \<or>
      tag tlv = AWS_DER_BIT_STRING \<or> tag tlv \<in> data_tags)"

lemma writes_tlv_len:
  assumes C: "common_spec C" and b: "valid_buf b"
  shows "writes b (der_length_bytes (unat len)) (write_tlv_len C len b)"
proof -
  have u8: "writes b' [x] (put (aws_byte_buf_write_u8 C b' x) b')" if "valid_buf b'" for b' x
    using that by (intro writes_put write_laws C)
  have be16: "writes b' (be_bytes 2 (unat x)) (put (aws_byte_buf_write_be16 C b' x) b')"
    if "valid_buf b'" for b' x
    using that by (intro writes_put write_laws C)
  have be32: "writes b' (be_bytes 4 (unat x)) (put (aws_byte_buf_write_be32 C b' x) b')"
    if "valid_buf b'" for b' x
    using that by (intro writes_put write_laws C)
  have small: "word_of_nat (unat len) = (ucast len :: byte)"
    by simp
  consider (l) "unat len > 65535" | (m) "unat len \<le> 65535" "unat len > 255"
    | (s) "unat len \<le> 255" "unat len > 127" | (t) "unat len \<le> 127"
    by linarith
  then show ?thesis
  proof cases
    case l
    then show ?thesis
      using writes_seq [OF b u8 [OF b, of "0x84"], of "be_bytes 4 (unat len)"] be32
      by (simp add: write_tlv_len_def der_length_bytes_def)
  next
    case m
    have "unat (ucast len :: 16 word) = unat len"
      using m by (simp add: unsigned_ucast_eq take_bit_nat_eq_self)
    with m show ?thesis
      using writes_seq [OF b u8 [OF b, of "0x82"], of "be_bytes 2 (unat len)"]
        be16 [of _ "ucast len"]
      by (simp add: write_tlv_len_def der_length_bytes_def)
  next
    case s
    then show ?thesis
      using writes_seq [OF b u8 [OF b, of "0x81"], of "[ucast len]"] u8
      by (simp add: write_tlv_len_def der_length_bytes_def small)
  next
    case t
    then show ?thesis
      using u8 [OF b, of "ucast len"]
      by (simp add: write_tlv_len_def der_length_bytes_def small)
  qed
qed


lemma encodable_cases:
  assumes "encodable_tlv tlv bs"
  obtains (integer) "tag tlv = AWS_DER_INTEGER" "bs \<noteq> []"
    | (boolean) "tag tlv = AWS_DER_BOOLEAN" "bs \<noteq> []" "length bs = 1"
    | (null) "tag tlv = AWS_DER_NULL" "bs = []"
    | (bit_string) "tag tlv = AWS_DER_BIT_STRING"
    | (data) "tag tlv \<in> data_tags" "der_body (tag tlv) bs = bs"
        "s_encoded_len tlv = Inr (tlv_length tlv)"
  using assms
  by (cases bs) (auto simp: encodable_tlv_def data_tags_def der_body_def s_encoded_len_def)

lemma encodable_deref:
  assumes "encodable_tlv tlv bs"
  shows "length bs = unat (tlv_length tlv)"
    and "bs \<noteq> [] \<Longrightarrow> deref (data_ptr (tlv_value tlv)) = Inr (hd bs)"
proof -
  from assms have rd: "bytes_at (data_ptr (tlv_value tlv)) (unat (tlv_length tlv)) = Inr bs"
    by (simp add: encodable_tlv_def)
  then show len: "length bs = unat (tlv_length tlv)" by (rule bytes_at_length)
  show "deref (data_ptr (tlv_value tlv)) = Inr (hd bs)" if "bs \<noteq> []"
    using bytes_at_deref [OF rd] len that by (metis length_greater_0_conv)
qed

lemma encodable_len:
  assumes enc: "encodable_tlv tlv bs"
  shows "s_encoded_len tlv = Inr (word_of_nat (length (der_body (tag tlv) bs)))"
proof -
  note hd = encodable_deref(2) [OF enc]
  have wl: "tlv_length tlv = word_of_nat (length bs)"
    using encodable_deref(1) [OF enc] by simp
  from enc show ?thesis
  proof (cases rule: encodable_cases)
    case integer
    then show ?thesis using wl hd by (simp add: s_encoded_len_def der_body_def)
  next
    case boolean
    then show ?thesis using wl by (simp add: s_encoded_len_def der_body_def)
  next
    case null
    then show ?thesis using wl by (simp add: s_encoded_len_def der_body_def)
  next
    case bit_string
    then show ?thesis using wl by (simp add: s_encoded_len_def der_body_def)
  next
    case data
    then show ?thesis using wl by simp
  qed
qed

lemma writes_tlv_bytes:
  assumes "common_spec C" and "valid_buf b"
    and "bytes_at (data_ptr (tlv_value tlv)) (unat (tlv_length tlv)) = Inr bs"
  shows "writes b bs (write_tlv_bytes C tlv b)"
  using assms by (simp add: write_tlv_bytes_def writes_put write_laws)

lemma writes_tlv_value:
  assumes C: "common_spec C" and b: "valid_buf b" and enc: "encodable_tlv tlv bs"
  shows "writes b (der_body (tag tlv) bs) (write_tlv_value C tlv b)"
proof -
  from enc have rd: "bytes_at (data_ptr (tlv_value tlv)) (unat (tlv_length tlv)) = Inr bs"
    by (simp add: encodable_tlv_def)
  note hd = encodable_deref(2) [OF enc]
  have u8: "writes b [x] (put (aws_byte_buf_write_u8 C b x) b)" for x
    by (intro writes_put write_laws C b)
  have tail: "writes b' bs (write_tlv_bytes C tlv b')" if "valid_buf b'" for b'
    using writes_tlv_bytes [OF C that rd] .
  have pre: "writes b (0 # bs) (seq_op (put (aws_byte_buf_write_u8 C b 0) b)
      (\<lambda>_ b. write_tlv_bytes C tlv b))"
    using writes_seq [OF b u8 [of 0], of bs "\<lambda>_ b. write_tlv_bytes C tlv b"] tail by simp
  from enc show ?thesis
  proof (cases rule: encodable_cases)
    case integer
    then show ?thesis using pre tail [OF b] hd by (simp add: write_tlv_value_def der_body_def)
  next
    case boolean
    then show ?thesis using u8 hd by (simp add: write_tlv_value_def der_body_def)
  next
    case null
    then show ?thesis using b by (simp add: write_tlv_value_def der_body_def)
  next
    case bit_string
    then show ?thesis using pre by (simp add: write_tlv_value_def der_body_def)
  next
    case data
    then have "write_tlv_value C tlv b = write_tlv_bytes C tlv b"
      by (auto simp: write_tlv_value_def data_tags_def)
    then show ?thesis using tail [OF b] data by simp
  qed
qed

lemma writes_der_tlv:
  assumes C: "common_spec C" and b: "valid_buf b" and enc: "encodable_tlv tlv bs"
  shows "writes b (der_frame (tag tlv) (der_body (tag tlv) bs)) (s_der_write_tlv C tlv b)"
proof -
  let ?body = "der_body (tag tlv) bs"
  have small: "unat (word_of_nat (length ?body) :: 32 word) = length ?body"
    using enc by (simp add: encodable_tlv_def unat_of_nat)
  have rest: "writes b1 (der_length_bytes (length ?body) @ ?body)
      (seq_op (s_encoded_len tlv, b1) (\<lambda>len b.
         seq_op (write_tlv_len C len b) (\<lambda>_ b. write_tlv_value C tlv b)))"
    if v: "valid_buf b1" for b1
  proof -
    have "writes b1 (der_length_bytes (length ?body))
        (write_tlv_len C (word_of_nat (length ?body)) b1)"
      using writes_tlv_len [OF C v, of "word_of_nat (length ?body)"] small by simp
    then show ?thesis
      using writes_seq [OF v, of "der_length_bytes (length ?body)" _ ?body]
        writes_tlv_value [OF C _ enc] encodable_len [OF enc] by simp
  qed
  have "writes b [tag tlv] (put (aws_byte_buf_write_u8 C b (tag tlv)) b)"
    by (intro writes_put write_laws C b)
  from writes_seq [OF b this] rest show ?thesis
    unfolding s_der_write_tlv_def der_frame_def by simp
qed

end
