(* ===== verification/Der_Encoder_Spec.thy ===== *)
theory Der_Encoder_Spec
  imports Der_Encoder
begin

text \<open>
  The encoder as an abstract data type. The abstract state is the byte string of the root and
  the stack of open frames, innermost last, each with its tag and the bytes written into it so
  far. \<open>enc_inv\<close> is the representation invariant and \<open>enc_abs\<close> the abstraction function. The
  locale \<open>der_sink\<close> is the interface a client of the encoder relies on; inside it, emitting a
  tree of values is shown to append the bytes \<open>der_of\<close> the code writes for it. The interpretation at the end
  discharges the laws for the model of \<^verbatim>\<open>source/der.c\<close>. The function \<open>x690\<close> is the encoding that the standard X.690 demands,
  and \<open>canonical\<close> says for which values the code writes it.
\<close>

section \<open>Abstract encoder\<close>

type_synonym abs_encoder = "bytes \<times> (byte \<times> bytes) list"

definition abs_append :: "bytes \<Rightarrow> abs_encoder \<Rightarrow> abs_encoder" where
  "abs_append bs s = (case s of (root, frames) \<Rightarrow>
     if frames = [] then (root @ bs, [])
     else (root, butlast frames @ [(fst (last frames), snd (last frames) @ bs)]))"

definition abs_top :: "abs_encoder \<Rightarrow> bytes" where
  "abs_top s = (case s of (root, frames) \<Rightarrow> if frames = [] then root else snd (last frames))"

lemma abs_append_snoc [simp]:
  "abs_append bs (root, fs @ [(t, c)]) = (root, fs @ [(t, c @ bs)])"
  by (simp add: abs_append_def)

lemma abs_top_snoc [simp]: "abs_top (root, fs @ [(t, c)]) = c"
  by (simp add: abs_top_def)

lemma abs_append_append [simp]: "abs_append ys (abs_append xs s) = abs_append (xs @ ys) s"
  by (auto simp: abs_append_def split: prod.splits)

lemma abs_append_Nil [simp]: "abs_append [] s = s"
  by (cases s) (auto simp: abs_append_def)

lemma abs_top_append [simp]: "abs_top (abs_append bs s) = abs_top s @ bs"
  by (auto simp: abs_append_def abs_top_def split: prod.splits)

section \<open>Values and their encoding\<close>

datatype der_prim = Integer bytes | Boolean bool | Null | Bit_string bytes | Octet_string bytes
datatype der_kind = Seq_of | Set_of
datatype der_value = Prim der_prim | Cont der_kind "der_value list"

fun prim_tag :: "der_prim \<Rightarrow> byte" where
  "prim_tag (Integer _) = AWS_DER_INTEGER"
| "prim_tag (Boolean _) = AWS_DER_BOOLEAN"
| "prim_tag Null = AWS_DER_NULL"
| "prim_tag (Bit_string _) = AWS_DER_BIT_STRING"
| "prim_tag (Octet_string _) = AWS_DER_OCTET_STRING"

fun prim_bytes :: "der_prim \<Rightarrow> bytes" where
  "prim_bytes (Integer bs) = bs"
| "prim_bytes (Boolean b) = [if b then 1 else 0]"
| "prim_bytes Null = []"
| "prim_bytes (Bit_string bs) = bs"
| "prim_bytes (Octet_string bs) = bs"

fun kind_tag :: "der_kind \<Rightarrow> byte" where
  "kind_tag Seq_of = AWS_DER_SEQUENCE"
| "kind_tag Set_of = AWS_DER_SET"

definition prim_body :: "der_prim \<Rightarrow> bytes" where
  "prim_body p = der_body (prim_tag p) (prim_bytes p)"

text \<open>What the code writes: lengths in one, two, three or five octets, integers with the bytes that were given.\<close>

fun der_of :: "der_value \<Rightarrow> bytes" where
  "der_of (Prim p) = der_frame (prim_tag p) (prim_body p)"
| "der_of (Cont k vs) = der_frame (kind_tag k) (concat (map der_of vs))"

fun wf_value :: "der_value \<Rightarrow> bool" where
  "wf_value (Prim p) = (\<forall>bs. p = Integer bs \<longrightarrow> bs \<noteq> [])"
| "wf_value (Cont k vs) = (\<forall>v \<in> set vs. wf_value v)"

subsection \<open>The encoding X.690 demands\<close>

text \<open>The number of octets of the shortest big-endian form of a number.\<close>

fun octets :: "nat \<Rightarrow> nat" where
  "octets n = (if n < 256 then 1 else Suc (octets (n div 256)))"

declare octets.simps [simp del]

text \<open>Lengths below 128 in one octet, others in the long form with as few octets as possible (X.690, 8.1.3 and 10.1).\<close>

definition x690_length :: "nat \<Rightarrow> bytes" where
  "x690_length n = (if n < 128 then [word_of_nat n] else word_of_nat (0x80 + octets n) # be_bytes (octets n) n)"

definition x690_frame :: "byte \<Rightarrow> bytes \<Rightarrow> bytes" where
  "x690_frame t body = t # x690_length (length body) @ body"

text \<open>An integer that is not negative, in two's complement with as few octets as possible (8.3).\<close>

definition x690_integer :: "nat \<Rightarrow> bytes" where
  "x690_integer n = (let bs = be_bytes (octets n) n in if 128 \<le> unat (hd bs) then 0 # bs else bs)"

fun x690_content :: "der_prim \<Rightarrow> bytes" where
  "x690_content (Integer bs) = x690_integer (be_nat bs)"
| "x690_content (Boolean b) = [if b then 0xff else 0]"
| "x690_content Null = []"
| "x690_content (Bit_string bs) = 0 # bs"
| "x690_content (Octet_string bs) = bs"

fun x690 :: "der_value \<Rightarrow> bytes" where
  "x690 (Prim p) = x690_frame (prim_tag p) (x690_content p)"
| "x690 (Cont k vs) = x690_frame (kind_tag k) (concat (map x690 vs))"

text \<open>The order of the elements of a SET OF: octet strings, the shorter one padded with zero octets at the end (11.6).\<close>

fun octets_le :: "bytes \<Rightarrow> bytes \<Rightarrow> bool" where
  "octets_le [] ys = True"
| "octets_le (x # xs) [] = (x = 0 \<and> octets_le xs [])"
| "octets_le (x # xs) (y # ys) = (x < y \<or> x = y \<and> octets_le xs ys)"

text \<open>
  Where the code writes X.690: the bytes of an integer have no superfluous leading zero, the elements of a set are given in
  order, and no content is of a length whose shortest form has three octets, which the code writes with four.
\<close>

definition three_octets :: "nat \<Rightarrow> bool" where
  "three_octets n \<longleftrightarrow> 65536 \<le> n \<and> n < 2 ^ 24"

fun minimal_prim :: "der_prim \<Rightarrow> bool" where
  "minimal_prim (Integer (b # c # bs)) = (b \<noteq> 0 \<or> 128 \<le> unat c)"
| "minimal_prim p = (p \<noteq> Integer [])"

fun canonical :: "der_value \<Rightarrow> bool" where
  "canonical (Prim p) = (minimal_prim p \<and> \<not> three_octets (length (x690_content p)))"
| "canonical (Cont k vs) = ((\<forall>v \<in> set vs. canonical v) \<and> \<not> three_octets (length (concat (map x690 vs))) \<and>
     (k = Set_of \<longrightarrow> sorted_wrt octets_le (map x690 vs)))"

lemma octets_cases:
  "n < 256 \<Longrightarrow> octets n = 1" "256 \<le> n \<Longrightarrow> n < 65536 \<Longrightarrow> octets n = 2"
  "2 ^ 24 \<le> n \<Longrightarrow> n < 2 ^ 32 \<Longrightarrow> octets n = 4"
proof -
  have o: "octets n = (if n < 256 then 1 else Suc (octets (n div 256)))" for n by (rule octets.simps)
  show "n < 256 \<Longrightarrow> octets n = 1" by (simp add: o)
  have "n < 65536 \<Longrightarrow> n div 256 < 256" by simp
  then show "256 \<le> n \<Longrightarrow> n < 65536 \<Longrightarrow> octets n = 2" by (simp add: o [of n] o [of "n div 256"])
  assume n: "2 ^ 24 \<le> n" "n < 2 ^ 32"
  then have "65536 \<le> n div 256" "256 \<le> n div 256 div 256" "n div 256 div 256 div 256 < 256" by simp_all
  with n show "octets n = 4" by (simp add: o [of n] o [of "n div 256"] o [of "n div 256 div 256"] o [of "n div 256 div 256 div 256"])
qed

lemma length_bytes_x690:
  assumes "n < 2 ^ 32" and "\<not> three_octets n"
  shows "der_length_bytes n = x690_length n"
proof -
  consider "n < 128" | "128 \<le> n" "n < 256" | "256 \<le> n" "n < 65536" | "2 ^ 24 \<le> n"
    using assms(2) unfolding three_octets_def by linarith
  then show ?thesis
  proof cases
    case 1
    then show ?thesis by (simp add: der_length_bytes_def x690_length_def)
  next
    case 2
    then show ?thesis using octets_cases(1) [of n] by (simp add: der_length_bytes_def x690_length_def)
  next
    case 3
    then show ?thesis using octets_cases(2) [of n] by (simp add: der_length_bytes_def x690_length_def)
  next
    case 4
    then show ?thesis using octets_cases(3) [of n] assms(1) by (simp add: der_length_bytes_def x690_length_def)
  qed
qed

lemma octets_be_nat:
  assumes "bs \<noteq> []" and "length bs = 1 \<or> hd bs \<noteq> 0"
  shows "octets (be_nat bs) = length bs"
  using assms
proof (induction bs rule: rev_induct)
  case (snoc b bs)
  have b: "unat b < 256" using unsigned_less [of b] by simp
  show ?case
  proof (cases "bs = []")
    case True
    with b show ?thesis by (simp add: octets_cases(1) be_nat_Cons)
  next
    case False
    with snoc.prems have "hd bs \<noteq> 0" by auto
    moreover have "256 ^ (length bs - 1) \<le> be_nat bs" using be_nat_lower [OF False calculation] .
    then have "1 \<le> be_nat bs" using one_le_power [of "256::nat" "length bs - 1"] by linarith
    then have "256 \<le> be_nat bs * 256 + unat b" by linarith
    ultimately show ?thesis using snoc.IH False b
      by (subst octets.simps) (simp add: div_add1_eq [of "be_nat bs * 256"])
  qed
qed simp

lemma x690_integer_bytes:
  assumes "bs \<noteq> []" and "length bs = 1 \<or> hd bs \<noteq> 0"
  shows "x690_integer (be_nat bs) = (if 128 \<le> unat (hd bs) then 0 # bs else bs)"
  using assms by (simp add: x690_integer_def Let_def octets_be_nat be_bytes_be_nat)

lemma high_bit: "(b :: byte) AND 0x80 \<noteq> 0 \<longleftrightarrow> 128 \<le> unat b"
proof -
  have "unat b < 256" using unsigned_less [of b] by simp
  then have "unat b div 128 = (if 128 \<le> unat b then 1 else 0)" by (simp add: div_nat_eqI)
  then have "bit (unat b) 7 \<longleftrightarrow> 128 \<le> unat b" by (simp add: bit_iff_odd)
  moreover have "bit (unat b) 7 \<longleftrightarrow> bit b 7" by (simp add: bit_unsigned_iff)
  ultimately show ?thesis using and_exp_eq_0_iff_not_bit [of b 7] by simp
qed

text \<open>What the code writes is X.690 for these values.\<close>

lemma prim_body_x690:
  assumes "minimal_prim p"
  shows "prim_body p = x690_content p"
  using assms
proof (cases p)
  case (Integer bs)
  consider "length bs = 1 \<or> hd bs \<noteq> 0" "bs \<noteq> []" | c cs where "bs = 0 # c # cs" "128 \<le> unat c"
    using assms Integer by (cases bs; cases "tl bs") auto
  then show ?thesis
  proof cases
    case 1
    with Integer show ?thesis
      by (simp add: prim_body_def der_body_def high_bit x690_integer_bytes [OF 1(2,1)])
  next
    case 2
    then have "hd (c # cs) \<noteq> 0" by auto
    with x690_integer_bytes [of "c # cs"] 2 Integer show ?thesis by (simp add: prim_body_def der_body_def)
  qed
qed (simp_all add: prim_body_def der_body_def)

lemma frame_x690: "length (der_frame t body) < 2 ^ 32 \<Longrightarrow> \<not> three_octets (length body) \<Longrightarrow> der_frame t body = x690_frame t body"
  by (simp add: der_frame_def x690_frame_def length_bytes_x690)

lemma der_of_x690: "canonical v \<Longrightarrow> length (der_of v) < 2 ^ 32 \<Longrightarrow> der_of v = x690 v"
proof (induction v)
  case (Prim p)
  then show ?case using prim_body_x690 [of p] frame_x690 [of "prim_tag p" "prim_body p"] by simp
next
  case (Cont k vs)
  let ?body = "concat (map der_of vs)"
  have "length (der_of v) \<le> length ?body" if "v \<in> set vs" for v using that by (induction vs) auto
  moreover have "length ?body < length (der_of (Cont k vs))" by (simp add: der_frame_def)
  ultimately have "\<forall>v \<in> set vs. der_of v = x690 v" using Cont by fastforce
  then have "map der_of vs = map x690 vs" by simp
  with Cont.prems frame_x690 [of "kind_tag k" ?body] show ?case by (simp only: der_of.simps x690.simps canonical.simps) simp
qed

text \<open>The client: a depth-first walk that calls the operations of an encoder.\<close>

fun emit_value :: "('s \<Rightarrow> der_prim \<Rightarrow> unit result \<times> 's) \<Rightarrow> ('s \<Rightarrow> der_kind \<Rightarrow> unit result \<times> 's) \<Rightarrow>
    ('s \<Rightarrow> der_kind \<Rightarrow> unit result \<times> 's) \<Rightarrow> der_value \<Rightarrow> 's \<Rightarrow> unit result \<times> 's"
and emit_values :: "('s \<Rightarrow> der_prim \<Rightarrow> unit result \<times> 's) \<Rightarrow> ('s \<Rightarrow> der_kind \<Rightarrow> unit result \<times> 's) \<Rightarrow>
    ('s \<Rightarrow> der_kind \<Rightarrow> unit result \<times> 's) \<Rightarrow> der_value list \<Rightarrow> 's \<Rightarrow> unit result \<times> 's" where
  "emit_value P B E (Prim p) s = P s p"
| "emit_value P B E (Cont k vs) s =
     seq_op (B s k) (\<lambda>_ s. seq_op (emit_values P B E vs s) (\<lambda>_ s. E s k))"
| "emit_values P B E [] s = (Inr (), s)"
| "emit_values P B E (v # vs) s = seq_op (emit_value P B E v s) (\<lambda>_ s. emit_values P B E vs s)"

lemma length_der_frame: "length body < length (der_frame t body)"
  by (simp add: der_frame_def)

section \<open>The interface of an encoder\<close>

locale der_sink =
  fixes inv :: "'s \<Rightarrow> bool" and abs :: "'s \<Rightarrow> abs_encoder" and cap :: "'s \<Rightarrow> nat"
    and put_prim :: "'s \<Rightarrow> der_prim \<Rightarrow> unit result \<times> 's"
    and begin_kind :: "'s \<Rightarrow> der_kind \<Rightarrow> unit result \<times> 's"
    and end_kind :: "'s \<Rightarrow> der_kind \<Rightarrow> unit result \<times> 's"
  assumes put_ok:
      "inv s \<Longrightarrow> wf_value (Prim p) \<Longrightarrow> length (der_of (Prim p)) < 2 ^ 32 \<Longrightarrow>
       length (abs_top (abs s)) + length (der_of (Prim p)) \<le> cap s \<Longrightarrow>
       \<exists>s'. put_prim s p = (Inr (), s') \<and> inv s' \<and> cap s' = cap s \<and>
            abs s' = abs_append (der_of (Prim p)) (abs s)"
    and begin_ok:
      "inv s \<Longrightarrow> \<exists>s'. begin_kind s k = (Inr (), s') \<and> inv s' \<and> cap s' = cap s \<and>
            abs s' = (fst (abs s), snd (abs s) @ [(kind_tag k, [])])"
    and end_ok:
      "inv s \<Longrightarrow> abs s = (root, fs @ [(t, c)]) \<Longrightarrow> length (der_frame t c) < 2 ^ 32 \<Longrightarrow>
       length (abs_top (root, fs)) + length (der_frame t c) \<le> cap s \<Longrightarrow>
       \<exists>s'. end_kind s k = (Inr (), s') \<and> inv s' \<and> cap s' = cap s \<and>
            abs s' = abs_append (der_frame t c) (root, fs)"
begin

definition emits :: "der_value \<Rightarrow> bool" where
  "emits v \<longleftrightarrow> (\<forall>s. inv s \<longrightarrow> length (abs_top (abs s)) + length (der_of v) \<le> cap s \<longrightarrow>
     (\<exists>s'. emit_value put_prim begin_kind end_kind v s = (Inr (), s') \<and> inv s' \<and>
           cap s' = cap s \<and> abs s' = abs_append (der_of v) (abs s)))"

lemma emit_values_ok:
  assumes "\<forall>v \<in> set vs. emits v" and "inv s"
    and "length (abs_top (abs s)) + length (concat (map der_of vs)) \<le> cap s"
  shows "\<exists>s'. emit_values put_prim begin_kind end_kind vs s = (Inr (), s') \<and> inv s' \<and>
    cap s' = cap s \<and> abs s' = abs_append (concat (map der_of vs)) (abs s)"
  using assms
proof (induction vs arbitrary: s)
  case Nil
  then show ?case by simp
next
  case (Cons v vs)
  then have "emits v" by simp
  with Cons.prems obtain s1 where s1: "emit_value put_prim begin_kind end_kind v s = (Inr (), s1)"
      "inv s1" "cap s1 = cap s" "abs s1 = abs_append (der_of v) (abs s)"
    unfolding emits_def by fastforce
  with Cons.prems Cons.IH [of s1] show ?case by auto
qed

lemma emit_ok: "wf_value v \<Longrightarrow> length (der_of v) < 2 ^ 32 \<Longrightarrow> emits v"
proof (induction v)
  case (Prim p)
  then show ?case using put_ok [of _ p] by (simp add: emits_def)
next
  case (Cont k vs)
  let ?body = "concat (map der_of vs)"
  have len: "length (der_of (Cont k vs)) = length (der_frame (kind_tag k) ?body)" by simp
  have "length (der_of v) < 2 ^ 32" if "v \<in> set vs" for v
  proof -
    have "length (der_of v) \<le> length ?body"
      using that by (induction vs) auto
    with Cont.prems(2) length_der_frame [of ?body "kind_tag k"] show ?thesis by simp
  qed
  with Cont have each: "\<forall>v \<in> set vs. emits v" by simp
  show ?case
    unfolding emits_def
  proof (intro allI impI)
    fix s
    assume inv: "inv s" and fits: "length (abs_top (abs s)) + length (der_of (Cont k vs)) \<le> cap s"
    obtain root fs where abs: "abs s = (root, fs)" by (cases "abs s")
    obtain s1 where s1: "begin_kind s k = (Inr (), s1)" "inv s1" "cap s1 = cap s"
        "abs s1 = (root, fs @ [(kind_tag k, [])])"
      using begin_ok [OF inv, of k] abs by auto
    obtain s2 where s2: "emit_values put_prim begin_kind end_kind vs s1 = (Inr (), s2)"
        "inv s2" "cap s2 = cap s" "abs s2 = (root, fs @ [(kind_tag k, ?body)])"
      using emit_values_ok [OF each s1(2)] s1(3,4) fits length_der_frame [of ?body "kind_tag k"]
      by auto
    have "\<exists>s'. end_kind s2 k = (Inr (), s') \<and> inv s' \<and> cap s' = cap s \<and>
        abs s' = abs_append (der_frame (kind_tag k) ?body) (root, fs)"
      using end_ok [OF s2(2,4)] Cont.prems(2) fits abs s2(3) by simp
    with s1 s2 abs show "\<exists>s'. emit_value put_prim begin_kind end_kind (Cont k vs) s = (Inr (), s') \<and>
        inv s' \<and> cap s' = cap s \<and> abs s' = abs_append (der_of (Cont k vs)) (abs s)" by auto
  qed
qed

end

section \<open>Representation invariant and abstraction of the encoder\<close>

definition tlv_addr :: "der_tlv \<Rightarrow> nat" where
  "tlv_addr t = (case tlv_value t of Buf_ptr a \<Rightarrow> a | Data _ \<Rightarrow> 0)"

definition is_frame :: "der_tlv \<Rightarrow> bool" where
  "is_frame t \<longleftrightarrow> tlv_value t = Buf_ptr (tlv_addr t) \<and> tag t \<in> {AWS_DER_SEQUENCE, AWS_DER_SET}"

definition heap_ok :: "nat \<Rightarrow> (nat \<rightharpoonup> aws_byte_buf) \<Rightarrow> bool" where
  "heap_ok cap h \<longleftrightarrow> (\<forall>a b. h a = Some b \<longrightarrow> valid_buf b \<and> capacity b = cap)"

lemma heap_okD: "heap_ok cap h \<Longrightarrow> h a = Some b \<Longrightarrow> valid_buf b \<and> capacity b = cap"
  by (simp add: heap_ok_def)

lemma heap_ok_upd [simp]:
  "heap_ok cap h \<Longrightarrow> valid_buf b \<Longrightarrow> capacity b = cap \<Longrightarrow> heap_ok cap (h(a \<mapsto> b))"
  "heap_ok cap h \<Longrightarrow> heap_ok cap (h(a := None))"
  "heap_ok cap Map.empty"
  by (simp_all add: heap_ok_def)

text \<open>
  Every entry of the stack is an open container with a live buffer of its own, there are no
  other buffers, new addresses are fresh, and \<open>encoder->buffer\<close> is the innermost container's
  buffer, or the storage when none is open.
\<close>

definition enc_inv :: "aws_der_encoder \<Rightarrow> bool" where
  "enc_inv enc \<longleftrightarrow>
     (let items = al_items (stack enc) in
      (\<forall>t \<in> set items. is_frame t) \<and> distinct (map tlv_addr items) \<and>
      dom (heap enc) = tlv_addr ` set items \<and>
      (\<forall>a \<in> dom (heap enc). a < next_addr enc) \<and>
      valid_buf (storage enc) \<and>
      heap_ok (capacity (storage enc)) (heap enc) \<and>
      enc_buffer enc = (if items = [] then Storage else Seq_buf (tlv_addr (last items))))"

definition enc_abs :: "aws_der_encoder \<Rightarrow> abs_encoder" where
  "enc_abs enc =
     (contents (storage enc),
      map (\<lambda>t. (tag t, contents (the (heap enc (tlv_addr t))))) (al_items (stack enc)))"

definition enc_cap :: "aws_der_encoder \<Rightarrow> nat" where
  "enc_cap enc = capacity (storage enc)"

definition set_buffer :: "aws_byte_buf \<Rightarrow> aws_der_encoder \<Rightarrow> aws_der_encoder" where
  "set_buffer b enc = (case enc_buffer enc of
       Storage \<Rightarrow> enc\<lparr>storage := b\<rparr>
     | Seq_buf a \<Rightarrow> enc\<lparr>heap := (heap enc)(a \<mapsto> b)\<rparr>)"

lemma set_buffer_frame [simp]:
  "stack (set_buffer b enc) = stack enc"
  "next_addr (set_buffer b enc) = next_addr enc"
  "enc_buffer (set_buffer b enc) = enc_buffer enc"
  by (simp_all add: set_buffer_def split: buf_ref.splits)

lemma on_buffer_top:
  assumes inv: "enc_inv enc"
  obtains b where "valid_buf b" "capacity b = enc_cap enc" "contents b = abs_top (enc_abs enc)"
    "\<And>f. on_buffer f enc = (fst (f b), set_buffer (snd (f b)) enc)"
proof (cases "al_items (stack enc)" rule: rev_cases)
  case Nil
  with inv have e: "enc_buffer enc = Storage" and v: "valid_buf (storage enc)"
    by (simp_all add: enc_inv_def)
  show ?thesis
  proof
    show "on_buffer f enc = (fst (f (storage enc)), set_buffer (snd (f (storage enc))) enc)" for f
      using e by (simp add: on_buffer_def set_buffer_def split: prod.splits)
  qed (use Nil v in \<open>simp_all add: enc_cap_def enc_abs_def abs_top_def\<close>)
next
  case (snoc ts t)
  with inv have e: "enc_buffer enc = Seq_buf (tlv_addr t)" and "tlv_addr t \<in> dom (heap enc)"
    by (simp_all add: enc_inv_def)
  then obtain b where b: "heap enc (tlv_addr t) = Some b" by blast
  show ?thesis
  proof
    show "on_buffer f enc = (fst (f b), set_buffer (snd (f b)) enc)" for f
      using e b by (simp add: on_buffer_def set_buffer_def split: prod.splits)
    show "valid_buf b" and "capacity b = enc_cap enc"
      using inv heap_okD [of "enc_cap enc" "heap enc" "tlv_addr t" b] b
      by (auto simp: enc_inv_def Let_def enc_cap_def)
  qed (use snoc b in \<open>simp add: enc_abs_def\<close>)
qed

lemma set_buffer_top:
  assumes inv: "enc_inv enc" and b: "valid_buf b" "capacity b = enc_cap enc"
    and c: "contents b = abs_top (enc_abs enc) @ bs"
  shows "enc_inv (set_buffer b enc)" and "enc_cap (set_buffer b enc) = enc_cap enc"
    and "enc_abs (set_buffer b enc) = abs_append bs (enc_abs enc)"
proof -
  have "enc_inv (set_buffer b enc) \<and> enc_cap (set_buffer b enc) = enc_cap enc \<and>
      enc_abs (set_buffer b enc) = abs_append bs (enc_abs enc)"
  proof (cases "al_items (stack enc)" rule: rev_cases)
    case Nil
    with inv have "enc_buffer enc = Storage" by (simp add: enc_inv_def)
    with Nil inv b c show ?thesis
      by (simp add: enc_inv_def set_buffer_def enc_cap_def enc_abs_def abs_top_def abs_append_def)
  next
    case (snoc ts t)
    with inv have e: "enc_buffer enc = Seq_buf (tlv_addr t)"
        and d: "tlv_addr t \<in> dom (heap enc)" "tlv_addr t \<notin> tlv_addr ` set ts"
      by (simp_all add: enc_inv_def)
    have ne: "tlv_addr u \<noteq> tlv_addr t" if "u \<in> set ts" for u
      using d(2) imageI [OF that, of tlv_addr] by auto
    have others: "map (\<lambda>u. (tag u, contents (the (((heap enc)(tlv_addr t \<mapsto> b)) (tlv_addr u))))) ts =
        map (\<lambda>u. (tag u, contents (the (heap enc (tlv_addr u))))) ts"
      by (intro map_cong refl) (simp add: ne)
    have "dom ((heap enc)(tlv_addr t \<mapsto> b)) = dom (heap enc)" using d(1) by auto
    with snoc e inv b have "enc_inv (set_buffer b enc)"
      by (simp add: enc_inv_def Let_def set_buffer_def enc_cap_def split: if_splits)
    with snoc e c others show ?thesis
      by (simp add: set_buffer_def enc_cap_def enc_abs_def)
  qed
  then show "enc_inv (set_buffer b enc)" and "enc_cap (set_buffer b enc) = enc_cap enc"
    and "enc_abs (set_buffer b enc) = abs_append bs (enc_abs enc)" by simp_all
qed

text \<open>An operation that writes into a buffer, run on the encoder's current buffer.\<close>

lemma on_buffer_writes:
  assumes inv: "enc_inv enc" and f: "\<And>b. valid_buf b \<Longrightarrow> writes b bs (f b)"
  obtains r enc' where "on_buffer f enc = (r, enc')" "enc_inv enc'" "enc_cap enc' = enc_cap enc"
    "stack enc' = stack enc" "next_addr enc' = next_addr enc" "enc_buffer enc' = enc_buffer enc"
    "if length (abs_top (enc_abs enc)) + length bs \<le> enc_cap enc
     then r = Inr () \<and> enc_abs enc' = abs_append bs (enc_abs enc)
     else r = Inl (Raised AWS_ERROR_INVALID_BUFFER_SIZE) \<and>
          (\<exists>k < length bs. enc_abs enc' = abs_append (take k bs) (enc_abs enc))"
proof -
  obtain b where b: "valid_buf b" "capacity b = enc_cap enc" "contents b = abs_top (enc_abs enc)"
      and run: "\<And>f. on_buffer f enc = (fst (f b), set_buffer (snd (f b)) enc)"
    by (rule on_buffer_top [OF inv]) (rule that)
  have "length (abs_top (enc_abs enc)) = buf_len b"
    using length_contents [OF b(1)] b(3) by simp
  moreover have "buf_len b \<le> capacity b" using b(1) by (simp add: valid_buf_def)
  ultimately have fits:
    "length bs \<le> room b \<longleftrightarrow> length (abs_top (enc_abs enc)) + length bs \<le> enc_cap enc"
    using b(2) by (auto simp: room_def)
  note w = f [OF b(1), unfolded writes_def]
  from w b have v: "valid_buf (snd (f b))" "capacity (snd (f b)) = enc_cap enc" by simp_all
  obtain ys where ys: "contents (snd (f b)) = abs_top (enc_abs enc) @ ys"
    and r: "if length (abs_top (enc_abs enc)) + length bs \<le> enc_cap enc
       then fst (f b) = Inr () \<and> ys = bs
       else fst (f b) = Inl (Raised AWS_ERROR_INVALID_BUFFER_SIZE) \<and>
            (\<exists>k < length bs. ys = take k bs)"
    using w b(3) fits by (auto split: if_splits)
  show ?thesis
  proof
    show "on_buffer f enc = (fst (f b), set_buffer (snd (f b)) enc)" by (rule run)
    show "if length (abs_top (enc_abs enc)) + length bs \<le> enc_cap enc
     then fst (f b) = Inr () \<and> enc_abs (set_buffer (snd (f b)) enc) = abs_append bs (enc_abs enc)
     else fst (f b) = Inl (Raised AWS_ERROR_INVALID_BUFFER_SIZE) \<and>
          (\<exists>k < length bs. enc_abs (set_buffer (snd (f b)) enc) = abs_append (take k bs) (enc_abs enc))"
      using r set_buffer_top(3) [OF inv v ys] by auto
  qed (simp_all add: set_buffer_top [OF inv v ys])
qed

section \<open>The operations of the encoder implement the abstract ones\<close>

fun encoder_put :: "aws_common \<Rightarrow> aws_der_encoder \<Rightarrow> der_prim \<Rightarrow> unit result \<times> aws_der_encoder" where
  "encoder_put C enc (Integer bs) = aws_der_encoder_write_integer C enc (cursor_of bs)"
| "encoder_put C enc (Boolean b) = aws_der_encoder_write_boolean C enc b"
| "encoder_put C enc Null = aws_der_encoder_write_null C enc"
| "encoder_put C enc (Bit_string bs) = aws_der_encoder_write_bit_string C enc (cursor_of bs)"
| "encoder_put C enc (Octet_string bs) = aws_der_encoder_write_octet_string C enc (cursor_of bs)"

fun encoder_begin :: "aws_common \<Rightarrow> der_tlv array_list_ops \<Rightarrow> aws_der_encoder \<Rightarrow> der_kind \<Rightarrow>
    unit result \<times> aws_der_encoder" where
  "encoder_begin C L enc Seq_of = aws_der_encoder_begin_sequence C L enc"
| "encoder_begin C L enc Set_of = aws_der_encoder_begin_set C L enc"

fun encoder_end :: "aws_common \<Rightarrow> der_tlv array_list_ops \<Rightarrow> aws_der_encoder \<Rightarrow> der_kind \<Rightarrow>
    unit result \<times> aws_der_encoder" where
  "encoder_end C L enc Seq_of = aws_der_encoder_end_sequence C L enc"
| "encoder_end C L enc Set_of = aws_der_encoder_end_set C L enc"

lemma prim_body_length: "length (prim_bytes p) \<le> length (prim_body p)"
  by (cases p) (simp_all add: prim_body_def der_body_def)

lemma encoder_put_writes:
  assumes C: "common_spec C" and wf: "wf_value (Prim p)" and small: "length (prim_body p) < 2 ^ 32"
  obtains f where "\<And>enc. encoder_put C enc p = on_buffer f enc"
    "\<And>b. valid_buf b \<Longrightarrow> writes b (der_of (Prim p)) (f b)"
proof -
  define tlv where "tlv = \<lparr>tag = prim_tag p, tlv_length = word_of_nat (length (prim_bytes p)),
    tlv_count = 0, tlv_value = Data (case p of Null \<Rightarrow> None | _ \<Rightarrow> ptr (cursor_of (prim_bytes p)))\<rparr>"
  have len: "length (prim_bytes p) < 2 ^ 32" using small prim_body_length [of p] by simp
  have enc: "encodable_tlv tlv (prim_bytes p)"
    using wf len small
    by (cases p)
      (simp_all add: encodable_tlv_def tlv_def unat_of_nat prim_body_def data_tags_def
        bytes_at_def cursor_of_def)
  show ?thesis
  proof
    show "encoder_put C e p = on_buffer (s_der_write_tlv C tlv) e" for e
      using len
      by (cases p)
        (simp_all add: tlv_def aws_der_encoder_write_integer_def aws_der_encoder_write_boolean_def
          aws_der_encoder_write_null_def aws_der_encoder_write_bit_string_def
          aws_der_encoder_write_octet_string_def cursor_of_def)
    show "writes b (der_of (Prim p)) (s_der_write_tlv C tlv b)" if "valid_buf b" for b
      using writes_der_tlv [OF C that enc] by (simp add: tlv_def prim_body_def)
  qed
qed

lemma begin_container_ok:
  assumes C: "common_spec C" and L: "array_list_spec L" and inv: "enc_inv enc"
    and t: "t \<in> {AWS_DER_SEQUENCE, AWS_DER_SET}"
  obtains enc' where "s_der_encoder_begin_container C L enc t = (Inr (), enc')" "enc_inv enc'"
    "enc_cap enc' = enc_cap enc" "enc_abs enc' = (fst (enc_abs enc), snd (enc_abs enc) @ [(t, [])])"
proof -
  let ?a = "next_addr enc"
  let ?tlv = "\<lparr>tag = t, tlv_length = 0, tlv_count = 0, tlv_value = Buf_ptr ?a\<rparr>"
  from inv have "capacity (storage enc) \<le> SIZE_MAX div 2"
    by (simp add: enc_inv_def Let_def valid_buf_def)
  from init_law [OF C this] obtain sb where
      sb: "aws_byte_buf_init C (capacity (storage enc)) = Inr sb" "fresh_buf (capacity (storage enc)) sb"
    by blast
  obtain stk where stk: "aws_array_list_push_back L (stack enc) ?tlv = Inr stk"
      "al_items stk = al_items (stack enc) @ [?tlv]"
    using push_back_law [OF L] by blast
  let ?enc' = "enc\<lparr>stack := stk, heap := (heap enc)(?a \<mapsto> sb), next_addr := Suc ?a,
    enc_buffer := Seq_buf ?a\<rparr>"
  have fresh: "?a \<notin> tlv_addr ` set (al_items (stack enc))"
    using inv by (auto simp: enc_inv_def Let_def)
  then have ne: "tlv_addr u \<noteq> ?a" if "u \<in> set (al_items (stack enc))" for u
    using imageI [OF that, of tlv_addr] by auto
  have old: "map (\<lambda>u. (tag u, contents (the (((heap enc)(?a \<mapsto> sb)) (tlv_addr u)))))
      (al_items (stack enc)) = snd (enc_abs enc)"
    unfolding enc_abs_def by (simp add: ne)
  have "contents sb = []" "valid_buf sb" "capacity sb = capacity (storage enc)"
    using sb(2) by (auto simp: fresh_buf_def contents_def split: option.splits)
  with stk inv fresh t old show ?thesis
    by (intro that [of ?enc'])
      (auto simp: s_der_encoder_begin_container_def C sb stk enc_inv_def Let_def enc_cap_def
        enc_abs_def is_frame_def tlv_addr_def [of ?tlv] intro: less_SucI)
qed

text \<open>Forgetting a buffer other than the current one commutes with an operation on it.\<close>

lemma on_buffer_forget:
  assumes "enc_buffer enc \<noteq> Seq_buf a" and "on_buffer f enc = (r, enc')"
  shows "on_buffer f (enc\<lparr>heap := (heap enc)(a := None)\<rparr>) =
    (r, enc'\<lparr>heap := (heap enc')(a := None)\<rparr>)"
  using assms
  by (auto simp: on_buffer_def fun_upd_twist split: buf_ref.splits option.splits prod.splits)

lemma container_tlv_encodable:
  assumes "is_frame t" and "valid_buf sb" and "buf_len sb < 2 ^ 32"
  shows "encodable_tlv (t\<lparr>tlv_length := word_of_nat (buf_len sb),
    tlv_value := Data (ptr (aws_byte_cursor_from_buf sb))\<rparr>) (contents sb)"
proof -
  have "bytes_at (ptr (aws_byte_cursor_from_buf sb)) (buf_len sb) = Inr (contents sb)"
    using assms(2)
    by (auto simp: bytes_at_def aws_byte_cursor_from_buf_def contents_def valid_buf_def
        split: option.splits)
  with assms show ?thesis
    by (auto simp: encodable_tlv_def is_frame_def data_tags_def der_body_def unat_of_nat)
qed

text \<open>
  Closing a container is a write of its frame into the encoder that no longer has it: popping
  the stack, moving the write pointer outwards and freeing the buffer give an encoder that
  satisfies the invariant again.
\<close>

definition pop_container :: "der_tlv array_list_ops \<Rightarrow> aws_der_encoder \<Rightarrow> aws_der_encoder" where
  "pop_container L enc =
     (let items = al_items (stack enc); ts = butlast items in
      enc\<lparr>stack := aws_array_list_pop_back L (stack enc),
          enc_buffer := (if ts = [] then Storage else Seq_buf (tlv_addr (last ts))),
          heap := (heap enc)(tlv_addr (last items) := None)\<rparr>)"

lemma pop_container_inv:
  assumes L: "array_list_spec L" and inv: "enc_inv enc"
    and items: "al_items (stack enc) = ts @ [t]" and sb: "heap enc (tlv_addr t) = Some sb"
  shows "enc_inv (pop_container L enc)" and "enc_cap (pop_container L enc) = enc_cap enc"
    and "enc_abs enc = (fst (enc_abs (pop_container L enc)),
           snd (enc_abs (pop_container L enc)) @ [(tag t, contents sb)])"
proof -
  have ts: "al_items (stack (pop_container L enc)) = ts"
    using L items by (simp add: pop_container_def)
  have ne: "tlv_addr u \<noteq> tlv_addr t" if "u \<in> set ts" for u
    using inv items imageI [OF that, of tlv_addr] by (auto simp: enc_inv_def Let_def)
  have "dom ((heap enc)(tlv_addr t := None)) = tlv_addr ` set ts"
    using inv items ne by (auto simp: enc_inv_def Let_def)
  then show "enc_inv (pop_container L enc)"
    using inv items ts L unfolding enc_inv_def Let_def
    by (simp add: pop_container_def Let_def)
  show "enc_cap (pop_container L enc) = enc_cap enc"
    by (simp add: enc_cap_def pop_container_def Let_def)
  show "enc_abs enc = (fst (enc_abs (pop_container L enc)),
      snd (enc_abs (pop_container L enc)) @ [(tag t, contents sb)])"
    using items sb ne L by (simp add: enc_abs_def pop_container_def Let_def)
qed

lemma end_container_pop:
  assumes L: "array_list_spec L" and inv: "enc_inv enc"
    and items: "al_items (stack enc) = ts @ [t]" and sb: "heap enc (tlv_addr t) = Some sb"
  shows "s_der_encoder_end_container C L enc =
    on_buffer (s_der_write_tlv C (t\<lparr>tlv_length := word_of_nat (buf_len sb),
      tlv_value := Data (ptr (aws_byte_cursor_from_buf sb))\<rparr>)) (pop_container L enc)"
    (is "_ = on_buffer ?f _")
proof -
  let ?ref = "if ts = [] then Storage else Seq_buf (tlv_addr (last ts))"
  let ?enc1 = "enc\<lparr>stack := aws_array_list_pop_back L (stack enc), enc_buffer := ?ref\<rparr>"
  have top: "aws_array_list_back L (stack enc) = Inr t"
    using back_laws(2) [OF L, of "stack enc"] items by simp
  have pop: "al_items (aws_array_list_pop_back L (stack enc)) = ts"
    using L items by simp
  have outer: "tlv_value (last ts) = Buf_ptr (tlv_addr (last ts))" if "ts \<noteq> []"
    using inv items that by (auto simp: enc_inv_def Let_def is_frame_def)
  have t: "tlv_value t = Buf_ptr (tlv_addr t)"
    using inv items by (auto simp: enc_inv_def Let_def is_frame_def)
  have "s_der_encoder_end_container C L enc = finish_container C t ?enc1"
    using top pop outer back_laws(2) [OF L, of "aws_array_list_pop_back L (stack enc)"]
    by (cases "ts = []") (simp_all add: s_der_encoder_end_container_def)
  also have "\<dots> = (case on_buffer ?f ?enc1 of (r, e) \<Rightarrow> (r, e\<lparr>heap := (heap e)(tlv_addr t := None)\<rparr>))"
    using t sb by (simp add: finish_container_def)
  also have "\<dots> = on_buffer ?f (?enc1\<lparr>heap := (heap ?enc1)(tlv_addr t := None)\<rparr>)"
  proof -
    have "tlv_addr t \<notin> tlv_addr ` set ts" using inv items by (simp add: enc_inv_def)
    then have "?ref \<noteq> Seq_buf (tlv_addr t)" by (metis buf_ref.distinct(1) buf_ref.inject imageI last_in_set)
    then have "enc_buffer ?enc1 \<noteq> Seq_buf (tlv_addr t)" by simp
    from on_buffer_forget [OF this] show ?thesis
      by (cases "on_buffer ?f ?enc1") simp
  qed
  also have "?enc1\<lparr>heap := (heap ?enc1)(tlv_addr t := None)\<rparr> = pop_container L enc"
    using items by (simp add: pop_container_def)
  finally show ?thesis .
qed

lemma end_container_writes:
  assumes C: "common_spec C" and L: "array_list_spec L" and inv: "enc_inv enc"
    and abs: "enc_abs enc = (root, fs @ [(t, c)])" and small: "length c < 2 ^ 32"
  obtains f enc2 where "s_der_encoder_end_container C L enc = on_buffer f enc2" "enc_inv enc2"
    "enc_cap enc2 = enc_cap enc" "enc_abs enc2 = (root, fs)"
    "\<And>b. valid_buf b \<Longrightarrow> writes b (der_frame t c) (f b)"
proof -
  from abs obtain ts tl where items: "al_items (stack enc) = ts @ [tl]"
    by (cases "al_items (stack enc)" rule: rev_cases) (auto simp: enc_abs_def)
  from inv items have "tlv_addr tl \<in> dom (heap enc)" by (simp add: enc_inv_def)
  then obtain sb where sb: "heap enc (tlv_addr tl) = Some sb" by blast
  with inv have v: "valid_buf sb" and fr: "is_frame tl"
    using heap_okD [of "capacity (storage enc)" "heap enc" "tlv_addr tl" sb] items
    by (auto simp: enc_inv_def Let_def)
  note pop = pop_container_inv [OF L inv items sb]
  from pop(3) abs have abs2: "enc_abs (pop_container L enc) = (root, fs)" "t = tag tl" "c = contents sb"
    by (auto intro: prod_eqI)
  have "buf_len sb < 2 ^ 32" using small abs2(3) length_contents [OF v] by simp
  note enc = container_tlv_encodable [OF fr v this]
  have body: "der_body (tag tl) (contents sb) = contents sb"
    using fr by (auto simp: is_frame_def der_body_def)
  show ?thesis
    by (rule that [OF end_container_pop [OF L inv items sb]])
      (use pop abs2 body writes_der_tlv [OF C _ enc] in simp_all)
qed

interpretation der_enc: der_sink
  "\<lambda>enc. common_spec C \<and> array_list_spec L \<and> enc_inv enc" enc_abs enc_cap
  "encoder_put C" "encoder_begin C L" "encoder_end C L" for C L
proof (unfold_locales, goal_cases)
  case (1 s p)
  then have "length (prim_body p) < 2 ^ 32"
    using length_der_frame [of "prim_body p" "prim_tag p"] by simp
  with 1 obtain f where f: "\<And>enc. encoder_put C enc p = on_buffer f enc"
      "\<And>b. valid_buf b \<Longrightarrow> writes b (der_of (Prim p)) (f b)"
    using encoder_put_writes [of C p] by metis
  obtain r s' where "on_buffer f s = (r, s')" "enc_inv s'" "enc_cap s' = enc_cap s"
      "r = Inr () \<and> enc_abs s' = abs_append (der_of (Prim p)) (enc_abs s)"
    by (rule on_buffer_writes [of s "der_of (Prim p)" f]) (use 1 f in simp_all)
  with 1 f show ?case by auto
next
  case (2 s k)
  obtain s' where "s_der_encoder_begin_container C L s (kind_tag k) = (Inr (), s')" "enc_inv s'"
      "enc_cap s' = enc_cap s" "enc_abs s' = (fst (enc_abs s), snd (enc_abs s) @ [(kind_tag k, [])])"
    by (rule begin_container_ok [of C L s "kind_tag k"]) (use 2 in \<open>cases k; simp\<close>)+
  with 2 show ?case
    by (cases k) (auto simp: aws_der_encoder_begin_sequence_def aws_der_encoder_begin_set_def)
next
  case (3 s root fs t c k)
  then have "length c < 2 ^ 32" using length_der_frame [of c t] by simp
  with 3 obtain f s2 where f: "s_der_encoder_end_container C L s = on_buffer f s2" "enc_inv s2"
      "enc_cap s2 = enc_cap s" "enc_abs s2 = (root, fs)"
      "\<And>b. valid_buf b \<Longrightarrow> writes b (der_frame t c) (f b)"
    using end_container_writes [of C L s root fs t c] by metis
  obtain r s' where "on_buffer f s2 = (r, s')" "enc_inv s'" "enc_cap s' = enc_cap s2"
      "r = Inr () \<and> enc_abs s' = abs_append (der_frame t c) (enc_abs s2)"
    by (rule on_buffer_writes [of s2 "der_frame t c" f]) (use 3 f in simp_all)
  with 3 f show ?case
    by (cases k) (auto simp: aws_der_encoder_end_sequence_def aws_der_encoder_end_set_def)
qed

section \<open>Properties of the encoder\<close>

lemma encoder_new:
  assumes "common_spec C" and "array_list_spec L" and "cap \<le> SIZE_MAX div 2"
  obtains enc where "aws_der_encoder_new C L cap = Inr enc" "enc_inv enc" "enc_cap enc = cap"
    "enc_abs enc = ([], [])"
proof -
  obtain st where st: "aws_byte_buf_init C cap = Inr st" "fresh_buf cap st"
    using init_law [OF assms(1,3)] by blast
  obtain stk where stk: "aws_array_list_init_dynamic L 4 = Inr stk" "al_items stk = []"
    using init_dynamic_law [OF assms(2)] by blast
  from st stk assms show ?thesis
    by (intro that)
      (auto simp: aws_der_encoder_new_def enc_inv_def enc_cap_def enc_abs_def fresh_buf_def
        contents_def split: option.splits)
qed

lemma get_contents_cases:
  assumes "enc_inv enc"
  shows "if snd (enc_abs enc) = [] \<and> fst (enc_abs enc) \<noteq> []
    then \<exists>cur. aws_der_encoder_get_contents enc = Inr cur \<and>
           bytes_at (ptr cur) (cur_len cur) = Inr (fst (enc_abs enc))
    else aws_der_encoder_get_contents enc = Inl (Raised AWS_ERROR_INVALID_STATE)"
proof -
  from assms have v: "valid_buf (storage enc)"
    and buf: "enc_buffer enc = Storage \<longleftrightarrow> snd (enc_abs enc) = []"
    by (auto simp: enc_inv_def Let_def enc_abs_def)
  have "buf_len (storage enc) = 0 \<longleftrightarrow> fst (enc_abs enc) = []"
    using length_contents [OF v] by (auto simp: enc_abs_def)
  moreover have "bytes_at (ptr (aws_byte_cursor_from_buf (storage enc))) (buf_len (storage enc)) =
      Inr (contents (storage enc))"
    using v by (auto simp: bytes_at_def aws_byte_cursor_from_buf_def contents_def valid_buf_def
        split: option.splits)
  ultimately show ?thesis
    using buf by (auto simp: aws_der_encoder_get_contents_def enc_abs_def aws_byte_cursor_from_buf_def)
qed

lemma get_contents_root:
  assumes "enc_inv enc" and "enc_abs enc = (root, [])" and "root \<noteq> []"
  shows "aws_der_encoder_get_contents enc = Inr (aws_byte_cursor_from_buf (storage enc))"
    and "contents (storage enc) = root" and "valid_buf (storage enc)"
  using get_contents_cases [OF assms(1)] assms
  by (auto simp: enc_abs_def enc_inv_def Let_def aws_der_encoder_get_contents_def split: if_splits)

lemma der_of_nonempty: "der_of v \<noteq> []"
  by (cases v) (simp_all add: der_frame_def)

lemma destroy_leaks: "enc_inv enc \<Longrightarrow>
    card (dom (aws_der_encoder_destroy (Some enc))) = length (snd (enc_abs enc))"
  by (simp add: enc_inv_def Let_def aws_der_encoder_destroy_def enc_abs_def distinct_card
      flip: set_map)

text \<open>
  The operations of the interface in any order, and the abstract machine they implement: a
  write that does not fit fails with AWS_ERROR_INVALID_BUFFER_SIZE and leaves a proper prefix of
  its bytes behind; closing a container when none is open is an error that changes nothing.
\<close>

datatype enc_op = Put_op der_prim | Begin_op der_kind | End_op der_kind

fun run_op :: "aws_common \<Rightarrow> der_tlv array_list_ops \<Rightarrow> enc_op \<Rightarrow> aws_der_encoder \<Rightarrow>
    unit result \<times> aws_der_encoder" where
  "run_op C L (Put_op p) enc = encoder_put C enc p"
| "run_op C L (Begin_op k) enc = encoder_begin C L enc k"
| "run_op C L (End_op k) enc = encoder_end C L enc k"

fun op_ok :: "enc_op \<Rightarrow> bool" where
  "op_ok (Put_op p) = (wf_value (Prim p) \<and> length (prim_body p) < 2 ^ 32)"
| "op_ok (Begin_op k) = True"
| "op_ok (End_op k) = True"

definition abs_write :: "nat \<Rightarrow> bytes \<Rightarrow> abs_encoder \<Rightarrow> unit result \<Rightarrow> abs_encoder \<Rightarrow> bool" where
  "abs_write cap bs s r s' \<longleftrightarrow>
     (if length (abs_top s) + length bs \<le> cap then r = Inr () \<and> s' = abs_append bs s
      else r = Inl (Raised AWS_ERROR_INVALID_BUFFER_SIZE) \<and>
           (\<exists>k < length bs. s' = abs_append (take k bs) s))"

fun abs_step :: "nat \<Rightarrow> enc_op \<Rightarrow> abs_encoder \<Rightarrow> unit result \<Rightarrow> abs_encoder \<Rightarrow> bool" where
  "abs_step cap (Put_op p) s r s' = abs_write cap (der_of (Prim p)) s r s'"
| "abs_step cap (Begin_op k) s r s' = (r = Inr () \<and> s' = (fst s, snd s @ [(kind_tag k, [])]))"
| "abs_step cap (End_op k) s r s' =
     (if snd s = [] then (\<exists>e. r = Inl (Raised e)) \<and> s' = s
      else abs_write cap (der_frame (fst (last (snd s))) (snd (last (snd s))))
             (fst s, butlast (snd s)) r s')"

lemma frame_length:
  assumes "enc_inv enc" and "enc_abs enc = (root, fs @ [(t, c)])"
  shows "length c \<le> enc_cap enc"
proof -
  obtain b where "valid_buf b" "capacity b = enc_cap enc" "contents b = abs_top (enc_abs enc)"
    by (rule on_buffer_top [OF assms(1)])
  with assms(2) length_contents [of b] show ?thesis by (simp add: valid_buf_def)
qed

lemma end_container_empty:
  assumes "array_list_spec L" and "snd (enc_abs enc) = []"
  shows "\<exists>e. s_der_encoder_end_container C L enc = (Inl (Raised e), enc)"
  using assms back_laws(1) [OF assms(1), of "stack enc"]
  by (auto simp: s_der_encoder_end_container_def enc_abs_def)

lemma encoder_end_simp [simp]: "encoder_end C L enc k = s_der_encoder_end_container C L enc"
  by (cases k) (simp_all add: aws_der_encoder_end_sequence_def aws_der_encoder_end_set_def)

lemma encoder_begin_simp [simp]:
  "encoder_begin C L enc k = s_der_encoder_begin_container C L enc (kind_tag k)"
  by (cases k) (simp_all add: aws_der_encoder_begin_sequence_def aws_der_encoder_begin_set_def)

lemma run_op_simulation:
  assumes C: "common_spec C" and L: "array_list_spec L" and inv: "enc_inv enc"
    and cap: "enc_cap enc < 2 ^ 32" and ok: "op_ok op" and run: "run_op C L op enc = (r, enc')"
  shows "enc_inv enc' \<and> enc_cap enc' = enc_cap enc \<and>
    abs_step (enc_cap enc) op (enc_abs enc) r (enc_abs enc')"
proof (cases op)
  case (Put_op p)
  with ok obtain f where f: "\<And>e. encoder_put C e p = on_buffer f e"
      "\<And>b. valid_buf b \<Longrightarrow> writes b (der_of (Prim p)) (f b)"
    using encoder_put_writes [OF C, of p] by (metis op_ok.simps(1))
  show ?thesis
    by (rule on_buffer_writes [OF inv f(2)])
      (use run Put_op f(1) in \<open>auto simp: abs_write_def simp del: der_of.simps\<close>)
next
  case (Begin_op k)
  show ?thesis
    by (rule begin_container_ok [OF C L inv, of "kind_tag k"])
      (use run Begin_op in \<open>cases k; simp\<close>)+
next
  case (End_op k)
  obtain root fs where abs: "enc_abs enc = (root, fs)" by (cases "enc_abs enc")
  show ?thesis
  proof (cases fs rule: rev_cases)
    case Nil
    then show ?thesis
      using end_container_empty [OF L, of enc C] End_op run abs inv by auto
  next
    case (snoc gs g)
    obtain t c where g: "g = (t, c)" by (cases g)
    have "length c < 2 ^ 32" using frame_length [OF inv, of root gs t c] abs snoc g cap by simp
    then obtain f enc2 where f: "s_der_encoder_end_container C L enc = on_buffer f enc2"
        and e2: "enc_inv enc2" "enc_cap enc2 = enc_cap enc" "enc_abs enc2 = (root, gs)"
        and w: "\<And>b. valid_buf b \<Longrightarrow> writes b (der_frame t c) (f b)"
      using end_container_writes [OF C L inv, of root gs t c] abs snoc g by metis
    show ?thesis
      by (rule on_buffer_writes [OF e2(1) w])
        (use run End_op f e2 abs snoc g in \<open>auto simp: abs_write_def\<close>)
  qed
qed

inductive encoder_reach :: "aws_common \<Rightarrow> der_tlv array_list_ops \<Rightarrow> nat \<Rightarrow> aws_der_encoder \<Rightarrow> bool"
  for C L cap where
  new: "aws_der_encoder_new C L cap = Inr enc \<Longrightarrow> encoder_reach C L cap enc"
| step: "encoder_reach C L cap enc \<Longrightarrow> op_ok op \<Longrightarrow> run_op C L op enc = (r, enc') \<Longrightarrow>
    encoder_reach C L cap enc'"

lemma reach_inv:
  assumes "encoder_reach C L cap enc" and "common_spec C" and "array_list_spec L"
    and "cap < 2 ^ 32"
  shows "enc_inv enc \<and> enc_cap enc = cap"
  using assms(1)
proof induction
  case (new enc)
  have "cap \<le> SIZE_MAX div 2" using assms(4) by simp
  with new show ?case by (metis encoder_new [OF assms(2,3)] sum.inject(2))
next
  case (step enc op r enc')
  with assms run_op_simulation [of C L enc op r enc'] show ?case by simp
qed

lemma encode_value:
  assumes "common_spec C" and "array_list_spec L" and "wf_value v" and "length (der_of v) < 2 ^ 32"
    and "length (der_of v) \<le> cap" and "cap \<le> SIZE_MAX div 2"
  shows "\<exists>enc0 enc1 cur. aws_der_encoder_new C L cap = Inr enc0 \<and>
    emit_value (encoder_put C) (encoder_begin C L) (encoder_end C L) v enc0 = (Inr (), enc1) \<and>
    aws_der_encoder_get_contents enc1 = Inr cur \<and>
    bytes_at (ptr cur) (cur_len cur) = Inr (der_of v) \<and>
    aws_der_encoder_destroy (Some enc1) = Map.empty"
proof -
  obtain enc0 where new: "aws_der_encoder_new C L cap = Inr enc0" "enc_inv enc0"
      "enc_cap enc0 = cap" "enc_abs enc0 = ([], [])"
    by (rule encoder_new [OF assms(1,2,6)])
  obtain enc1 where emit: "emit_value (encoder_put C) (encoder_begin C L) (encoder_end C L) v enc0 =
      (Inr (), enc1)" "enc_inv enc1" "enc_abs enc1 = (der_of v, [])"
    using der_enc.emit_ok [OF assms(3,4), of C L, unfolded der_enc.emits_def] new assms(1,2,5)
    by (auto simp: abs_top_def abs_append_def)
  from get_contents_cases [OF emit(2)] emit(3) der_of_nonempty [of v] obtain cur where
      "aws_der_encoder_get_contents enc1 = Inr cur" "bytes_at (ptr cur) (cur_len cur) = Inr (der_of v)"
    by auto
  moreover have "aws_der_encoder_destroy (Some enc1) = Map.empty"
    using emit(2,3) by (simp add: aws_der_encoder_destroy_def enc_inv_def Let_def enc_abs_def)
  ultimately show ?thesis using new emit by blast
qed

text \<open>
  Claim C1. Encoding is correct and leaks nothing: from a new encoder whose capacity is at least
  the length of what is written for a value tree, the walk that calls the write, begin and end
  operations succeeds, \<open>aws_der_encoder_get_contents\<close> returns a cursor over exactly the bytes \<open>der_of\<close>,
  and destroying the encoder leaves no container buffer allocated. If the tree is canonical, which means that no integer was given with a superfluous
  leading zero, that the elements of sets were given in their order and that no content has between 65536 and 2^24 - 1 bytes,
  then these bytes are the DER encoding of the tree according to X.690.
\<close>

theorem encode_der_of:
  assumes "common_spec C" and "array_list_spec L" and "wf_value v" and "length (der_of v) < 2 ^ 32"
    and "length (der_of v) \<le> cap" and "cap \<le> SIZE_MAX div 2"
  shows "\<exists>enc0 enc1 cur. aws_der_encoder_new C L cap = Inr enc0 \<and>
    emit_value (encoder_put C) (encoder_begin C L) (encoder_end C L) v enc0 = (Inr (), enc1) \<and>
    aws_der_encoder_get_contents enc1 = Inr cur \<and>
    bytes_at (ptr cur) (cur_len cur) = Inr (der_of v) \<and>
    (canonical v \<longrightarrow> bytes_at (ptr cur) (cur_len cur) = Inr (x690 v)) \<and>
    aws_der_encoder_destroy (Some enc1) = Map.empty"
  using encode_value [OF assms] der_of_x690 [OF _ assms(4)] by metis

text \<open>A signature-shaped value: a sequence of two integers, the first with its top bit set.\<close>

definition sample_value :: der_value where
  "sample_value = Cont Seq_of [Prim (Integer [0x80, 0x01]), Prim (Integer [0x7f])]"

lemma der_of_sample: "der_of sample_value = [0x30, 0x08, 0x02, 0x03, 0x00, 0x80, 0x01, 0x02, 0x01, 0x7f]"
  by (simp add: sample_value_def prim_body_def der_frame_def der_body_def der_length_bytes_def)

lemma encode_der_of_witness:
  "\<exists>enc0 enc1 cur. aws_der_encoder_new ref_common ref_array_list 64 = Inr enc0 \<and>
    emit_value (encoder_put ref_common) (encoder_begin ref_common ref_array_list)
      (encoder_end ref_common ref_array_list) sample_value enc0 = (Inr (), enc1) \<and>
    aws_der_encoder_get_contents enc1 = Inr cur \<and>
    bytes_at (ptr cur) (cur_len cur) = Inr (x690 sample_value) \<and>
    aws_der_encoder_destroy (Some enc1) = Map.empty"
proof -
  have int: "x690_integer (be_nat [0x80, 0x01]) = [0, 0x80, 0x01]" "x690_integer (be_nat [0x7f]) = [0x7f]"
    by (subst x690_integer_bytes; simp)+
  have "canonical sample_value" by (simp add: sample_value_def int three_octets_def x690_frame_def x690_length_def)
  then show ?thesis
    using encode_der_of [OF common_spec_ref array_list_spec_ref, of sample_value 64]
    unfolding der_of_sample by (fastforce simp: sample_value_def)
qed

text \<open>
  Claim C14. Refinement: every operation of the encoder, in any reachable state and on every
  branch, is a step of the abstract encoder, a root byte string with a stack of open frames. In
  particular no operation reads freed memory or aborts, and the only error of a write is
  AWS_ERROR_INVALID_BUFFER_SIZE.
\<close>

theorem encoder_refines:
  assumes "common_spec C" and "array_list_spec L" and "cap < 2 ^ 32"
    and "encoder_reach C L cap enc" and "op_ok op" and "run_op C L op enc = (r, enc')"
  shows "abs_step cap op (enc_abs enc) r (enc_abs enc')"
  using run_op_simulation [OF assms(1,2)] reach_inv [OF assms(4,1,2,3)] assms(3,5,6) by metis

lemma encoder_refines_witness:
  "\<exists>enc r enc'. aws_der_encoder_new ref_common ref_array_list 2 = Inr enc \<and>
     run_op ref_common ref_array_list (Put_op (Octet_string [1, 2])) enc = (r, enc') \<and>
     abs_step 2 (Put_op (Octet_string [1, 2])) (enc_abs enc) r (enc_abs enc')"
proof -
  obtain enc where enc: "aws_der_encoder_new ref_common ref_array_list 2 = Inr enc"
    by (rule encoder_new [OF common_spec_ref array_list_spec_ref, of 2]) simp_all
  obtain r enc' where run: "run_op ref_common ref_array_list (Put_op (Octet_string [1, 2])) enc = (r, enc')"
    by (cases "run_op ref_common ref_array_list (Put_op (Octet_string [1, 2])) enc")
  have "abs_step 2 (Put_op (Octet_string [1, 2])) (enc_abs enc) r (enc_abs enc')"
    by (rule encoder_refines [OF common_spec_ref array_list_spec_ref _ encoder_reach.new [OF enc] _ run])
      (simp_all add: prim_body_def der_body_def)
  with enc run show ?thesis by blast
qed

text \<open>
  Contents and destruction: in every reachable state \<open>aws_der_encoder_get_contents\<close>
  returns the root bytes exactly when something was written and no container is open, and raises
  AWS_ERROR_INVALID_STATE otherwise; destroying the encoder leaves one buffer allocated for each
  container that is still open.
\<close>

theorem encoder_contents:
  assumes "common_spec C" and "array_list_spec L" and "cap < 2 ^ 32" and "encoder_reach C L cap enc"
  shows "(if snd (enc_abs enc) = [] \<and> fst (enc_abs enc) \<noteq> []
      then \<exists>cur. aws_der_encoder_get_contents enc = Inr cur \<and>
             bytes_at (ptr cur) (cur_len cur) = Inr (fst (enc_abs enc))
      else aws_der_encoder_get_contents enc = Inl (Raised AWS_ERROR_INVALID_STATE)) \<and>
    card (dom (aws_der_encoder_destroy (Some enc))) = length (snd (enc_abs enc))"
  using reach_inv [OF assms(4,1,2,3)] get_contents_cases destroy_leaks by blast

lemma encoder_contents_witness:
  "\<exists>enc. aws_der_encoder_new ref_common ref_array_list 2 = Inr enc \<and>
     aws_der_encoder_get_contents enc = Inl (Raised AWS_ERROR_INVALID_STATE) \<and>
     card (dom (aws_der_encoder_destroy (Some enc))) = 0"
proof -
  obtain enc where enc: "aws_der_encoder_new ref_common ref_array_list 2 = Inr enc"
      "enc_abs enc = ([], [])"
    by (rule encoder_new [OF common_spec_ref array_list_spec_ref, of 2]) simp_all
  with encoder_contents [OF common_spec_ref array_list_spec_ref _ encoder_reach.new [OF enc(1)]]
  show ?thesis by auto
qed

end
