(* ===== verification/Der_Decoder.thy ===== *)
theory Der_Decoder
  imports Der_Encoder_Spec
begin

text \<open>
  The DER decoder of \<^verbatim>\<open>source/der.c\<close>. Creating a decoder parses the whole input into a flat
  list of TLVs in preorder; the accessors then walk that list. The field \<open>container\<close> of the
  struct points into the storage of that list; here it is a block identifier and an index, so
  that a write through it after the list moved to a new block is undefined behaviour.

  The definitions follow the source on every branch, including the reads that can leave the
  input: \<open>s_decode_tlv\<close> reads the first value byte before the length is compared with what is
  left, and the result of \<open>aws_byte_cursor_advance\<close> is ignored. The length is read into the low
  bytes of a \<open>uint32_t\<close> through a narrower pointer, which gives its value on a little-endian
  machine. The loops over the input run on fuel, the number of bytes left, and the recursion on
  the seventeen levels the depth check admits; the lemmas show that neither is ever used up.
\<close>

section \<open>Reading one TLV\<close>

definition s_decode_tlv :: "der_tlv \<Rightarrow> der_tlv result" where
  "s_decode_tlv tlv =
     (if tag tlv = AWS_DER_INTEGER then
        rbind (deref (data_ptr (tlv_value tlv))) (\<lambda>first_byte.
          if first_byte = 0x00
          then Inr (tlv\<lparr>tlv_length := tlv_length tlv - 1,
                        tlv_value := Data (ptr_add (data_ptr (tlv_value tlv)) 1)\<rparr>)
          else Inr tlv)
      else if tag tlv = AWS_DER_BIT_STRING then
        Inr (tlv\<lparr>tlv_length := tlv_length tlv - 1,
                 tlv_value := Data (ptr_add (data_ptr (tlv_value tlv)) 1)\<rparr>)
      else Inr tlv)"

text \<open>A read of \<open>n\<close> bytes from a cursor whose length lies about the memory behind it is undefined.\<close>

definition cursor_read :: "nat \<Rightarrow> (aws_byte_cursor \<Rightarrow> ('a \<times> aws_byte_cursor) option) \<Rightarrow>
    aws_byte_cursor \<Rightarrow> aws_error \<Rightarrow> ('a \<times> aws_byte_cursor) result" where
  "cursor_read n f cur e =
     (if \<not> readable cur n
      then Inl (Undefined (if ptr cur = None then Null_deref else Out_of_bounds))
      else case f cur of None \<Rightarrow> Inl (Raised e) | Some p \<Rightarrow> Inr p)"

definition read_tlv_len :: "aws_common \<Rightarrow> byte \<Rightarrow> aws_byte_cursor \<Rightarrow>
    (32 word \<times> aws_byte_cursor) result" where
  "read_tlv_len C len_bytes cur =
     (if len_bytes AND 0x80 \<noteq> 0 then
        let n = len_bytes AND 0x7f in
        if n = 1 then
          rbind (cursor_read 1 (aws_byte_cursor_read_u8 C) cur AWS_ERROR_CAL_MALFORMED_ASN1_ENCOUNTERED)
            (\<lambda>(len, cur). Inr (ucast len, cur))
        else if n = 2 then
          rbind (cursor_read 2 (aws_byte_cursor_read_be16 C) cur AWS_ERROR_CAL_MALFORMED_ASN1_ENCOUNTERED)
            (\<lambda>(len, cur). Inr (ucast len, cur))
        else if n = 4 then
          cursor_read 4 (aws_byte_cursor_read_be32 C) cur AWS_ERROR_CAL_MALFORMED_ASN1_ENCOUNTERED
        else Inl (Raised AWS_ERROR_CAL_MALFORMED_ASN1_ENCOUNTERED)
      else Inr (ucast len_bytes, cur))"

definition s_der_read_tlv :: "aws_common \<Rightarrow> aws_byte_cursor \<Rightarrow> (der_tlv \<times> aws_byte_cursor) result" where
  "s_der_read_tlv C cur =
     rbind (cursor_read 1 (aws_byte_cursor_read_u8 C) cur AWS_ERROR_SUCCESS) (\<lambda>(t, cur).
     rbind (cursor_read 1 (aws_byte_cursor_read_u8 C) cur AWS_ERROR_SUCCESS) (\<lambda>(len_bytes, cur).
     rbind (read_tlv_len C len_bytes cur) (\<lambda>(len, cur).
     rbind (s_decode_tlv \<lparr>tag = t, tlv_length = len, tlv_count = 0,
              tlv_value = Data (if t = AWS_DER_NULL then None else ptr cur)\<rparr>) (\<lambda>tlv.
       Inr (tlv, snd (aws_byte_cursor_advance C cur (unat len)))))))"

section \<open>Parsing\<close>

record aws_der_decoder =
  tlvs :: "der_tlv array_list"
  tlv_idx :: int
  input :: aws_byte_cursor
  depth :: "32 word"
  container :: "(nat \<times> nat) option"

primrec skip_newlines :: "aws_common \<Rightarrow> nat \<Rightarrow> aws_byte_cursor \<Rightarrow> aws_byte_cursor result" where
  "skip_newlines C 0 cur = (if cur_len cur = 0 then Inr cur else Inl Out_of_fuel)"
| "skip_newlines C (Suc n) cur =
     (if cur_len cur = 0 then Inr cur
      else rbind (deref (ptr cur)) (\<lambda>c.
        if c = 0x0a then skip_newlines C n (snd (aws_byte_cursor_advance C cur 1))
        else Inr cur))"

text \<open>\<open>if (decoder->container) decoder->container->count++\<close>\<close>

definition count_element :: "aws_der_decoder \<Rightarrow> aws_der_decoder result" where
  "count_element dec = (case container dec of
       None \<Rightarrow> Inr dec
     | Some (block, i) \<Rightarrow>
         let l = tlvs dec; items = al_items l in
         if block = al_storage l \<and> i < length items
         then Inr (dec\<lparr>tlvs := l\<lparr>al_items :=
                items[i := (items ! i)\<lparr>tlv_count := tlv_count (items ! i) + 1\<rparr>]\<rparr>\<rparr>)
         else Inl (Undefined Use_after_free))"

text \<open>The body of \<open>if (tlv.tag & AWS_DER_FORM_CONSTRUCTED)\<close>; \<open>rec\<close> is \<open>s_parse_cursor\<close>.\<close>

definition expand_container :: "der_tlv array_list_ops \<Rightarrow>
    (aws_der_decoder \<Rightarrow> aws_byte_cursor \<Rightarrow> aws_der_decoder result) \<Rightarrow>
    aws_der_decoder \<Rightarrow> aws_der_decoder result" where
  "expand_container L rec dec =
     (let outer_container = container dec;
          items = al_items (tlvs dec);
          p = aws_array_list_get_at_ptr L (tlvs dec) (size_sub (length items) 1)
      in case p of
           None \<Rightarrow> Inl (Raised AWS_ERROR_INVALID_STATE)
         | Some (block, i) \<Rightarrow>
             if block \<noteq> al_storage (tlvs dec) \<or> length items \<le> i then Inl (Undefined Use_after_free)
             else let c = items ! i;
                      container_cur = \<lparr>ptr = data_ptr (tlv_value c), cur_len = unat (tlv_length c)\<rparr>
                  in rbind (raise_on_failure AWS_ERROR_CAL_MALFORMED_ASN1_ENCOUNTERED
                             (rec (dec\<lparr>container := p\<rparr>) container_cur))
                       (\<lambda>dec. Inr (dec\<lparr>container := outer_container\<rparr>)))"

text \<open>The part of an iteration that records a TLV: append it, count it in the container that is
  being expanded, and expand it when it is a container itself.\<close>

definition add_tlv :: "der_tlv array_list_ops \<Rightarrow>
    (aws_der_decoder \<Rightarrow> aws_byte_cursor \<Rightarrow> aws_der_decoder result) \<Rightarrow>
    der_tlv \<Rightarrow> aws_der_decoder \<Rightarrow> aws_der_decoder result" where
  "add_tlv L rec tlv dec =
     rbind (raise_on_failure AWS_ERROR_INVALID_STATE (aws_array_list_push_back L (tlvs dec) tlv)) (\<lambda>l.
     rbind (count_element (dec\<lparr>tlvs := l\<rparr>)) (\<lambda>dec.
       if tag tlv AND AWS_DER_FORM_CONSTRUCTED \<noteq> 0 then expand_container L rec dec
       else Inr dec))"

primrec parse_loop :: "aws_common \<Rightarrow> der_tlv array_list_ops \<Rightarrow>
    (aws_der_decoder \<Rightarrow> aws_byte_cursor \<Rightarrow> aws_der_decoder result) \<Rightarrow> nat \<Rightarrow>
    aws_der_decoder \<Rightarrow> aws_byte_cursor \<Rightarrow> aws_der_decoder result" where
  "parse_loop C L rec 0 dec cur = (if cur_len cur = 0 then Inr dec else Inl Out_of_fuel)"
| "parse_loop C L rec (Suc n) dec cur =
     (if cur_len cur = 0 then Inr dec
      else
        rbind (raise_on_failure AWS_ERROR_CAL_MALFORMED_ASN1_ENCOUNTERED (s_der_read_tlv C cur))
          (\<lambda>(tlv, cur).
        rbind (skip_newlines C (cur_len cur) cur) (\<lambda>cur.
        rbind (add_tlv L rec tlv dec) (\<lambda>dec.
        parse_loop C L rec n dec cur))))"

primrec parse_level :: "aws_common \<Rightarrow> der_tlv array_list_ops \<Rightarrow> nat \<Rightarrow>
    aws_der_decoder \<Rightarrow> aws_byte_cursor \<Rightarrow> aws_der_decoder result" where
  "parse_level C L 0 dec cur = Inl Out_of_fuel"
| "parse_level C L (Suc k) dec cur =
     (let dec = dec\<lparr>depth := depth dec + 1\<rparr> in
      if unat (depth dec) > 16 then Inl (Raised AWS_ERROR_CAL_MALFORMED_ASN1_ENCOUNTERED)
      else rbind (parse_loop C L (parse_level C L k) (cur_len cur) dec cur)
             (\<lambda>dec. Inr (dec\<lparr>depth := depth dec - 1\<rparr>)))"

definition s_parse_cursor :: "aws_common \<Rightarrow> der_tlv array_list_ops \<Rightarrow> aws_der_decoder \<Rightarrow>
    aws_byte_cursor \<Rightarrow> aws_der_decoder result" where
  "s_parse_cursor C L dec cur = parse_level C L 17 dec cur"

definition s_decoder_parse :: "aws_common \<Rightarrow> der_tlv array_list_ops \<Rightarrow> aws_der_decoder \<Rightarrow>
    aws_der_decoder result" where
  "s_decoder_parse C L dec = s_parse_cursor C L dec (input dec)"

definition aws_der_decoder_new :: "aws_common \<Rightarrow> der_tlv array_list_ops \<Rightarrow> aws_byte_cursor \<Rightarrow>
    aws_der_decoder result" where
  "aws_der_decoder_new C L inp =
     (if \<not> aws_mem_acquire_ok C then Inl Fatal
      else rbind (aws_array_list_init_dynamic L 16) (\<lambda>l.
        s_decoder_parse C L \<lparr>tlvs = l, tlv_idx = -1, input = inp, depth = 0, container = None\<rparr>))"

section \<open>Accessors\<close>

text \<open>\<open>tlv_idx\<close> is a C \<open>int\<close>: incrementing its largest value is undefined.\<close>

definition aws_der_decoder_next :: "aws_der_decoder \<Rightarrow> (bool \<times> aws_der_decoder) result" where
  "aws_der_decoder_next dec =
     (let i = tlv_idx dec + 1 in
      if i > int INT_MAX then Inl (Undefined Signed_overflow)
      else Inr (i < int_of_size (length (al_items (tlvs dec))), dec\<lparr>tlv_idx := i\<rparr>))"

text \<open>
  A failed \<open>aws_array_list_get_at\<close> leaves the zeroed TLV; a negative index is converted to a
  large \<open>size_t\<close>.
\<close>

definition zero_tlv :: der_tlv where
  "zero_tlv = \<lparr>tag = 0, tlv_length = 0, tlv_count = 0, tlv_value = Data None\<rparr>"

definition s_decoder_tlv :: "der_tlv array_list_ops \<Rightarrow> aws_der_decoder \<Rightarrow> der_tlv result" where
  "s_decoder_tlv L dec =
     (if tlv_idx dec < int_of_size (length (al_items (tlvs dec)))
      then (case aws_array_list_get_at L (tlvs dec) (nat (tlv_idx dec mod 2 ^ 64)) of
              Inl (Raised _) \<Rightarrow> Inr zero_tlv
            | r \<Rightarrow> r)
      else Inl Fatal)"

definition aws_der_decoder_tlv_type :: "der_tlv array_list_ops \<Rightarrow> aws_der_decoder \<Rightarrow> byte result" where
  "aws_der_decoder_tlv_type L dec = rbind (s_decoder_tlv L dec) (\<lambda>tlv. Inr (tag tlv))"

definition aws_der_decoder_tlv_length :: "der_tlv array_list_ops \<Rightarrow> aws_der_decoder \<Rightarrow> nat result" where
  "aws_der_decoder_tlv_length L dec =
     rbind (s_decoder_tlv L dec) (\<lambda>tlv. Inr (unat (tlv_length tlv)))"

definition aws_der_decoder_tlv_count :: "der_tlv array_list_ops \<Rightarrow> aws_der_decoder \<Rightarrow> nat result" where
  "aws_der_decoder_tlv_count L dec =
     rbind (s_decoder_tlv L dec) (\<lambda>tlv.
       if tag tlv AND AWS_DER_FORM_CONSTRUCTED \<noteq> 0 then Inr (unat (tlv_count tlv)) else Inl Fatal)"

definition s_tlv_to_blob :: "der_tlv \<Rightarrow> aws_byte_cursor result" where
  "s_tlv_to_blob tlv =
     (if tag tlv \<noteq> AWS_DER_NULL
      then Inr \<lparr>ptr = data_ptr (tlv_value tlv), cur_len = unat (tlv_length tlv)\<rparr>
      else Inl Fatal)"

definition aws_der_decoder_tlv_string :: "der_tlv array_list_ops \<Rightarrow> aws_der_decoder \<Rightarrow>
    aws_byte_cursor result" where
  "aws_der_decoder_tlv_string L dec =
     rbind (s_decoder_tlv L dec) (\<lambda>tlv.
       if tag tlv \<noteq> AWS_DER_OCTET_STRING \<and> tag tlv \<noteq> AWS_DER_BIT_STRING
       then Inl (Raised AWS_ERROR_CAL_MISMATCHED_DER_TYPE)
       else s_tlv_to_blob tlv)"

definition aws_der_decoder_tlv_integer :: "der_tlv array_list_ops \<Rightarrow> aws_der_decoder \<Rightarrow>
    aws_byte_cursor result" where
  "aws_der_decoder_tlv_integer L dec =
     rbind (s_decoder_tlv L dec) (\<lambda>tlv.
       if tag tlv \<noteq> AWS_DER_INTEGER then Inl (Raised AWS_ERROR_CAL_MISMATCHED_DER_TYPE)
       else s_tlv_to_blob tlv)"

definition aws_der_decoder_tlv_boolean :: "der_tlv array_list_ops \<Rightarrow> aws_der_decoder \<Rightarrow> bool result" where
  "aws_der_decoder_tlv_boolean L dec =
     rbind (s_decoder_tlv L dec) (\<lambda>tlv.
       if tag tlv \<noteq> AWS_DER_BOOLEAN then Inl (Raised AWS_ERROR_CAL_MISMATCHED_DER_TYPE)
       else rbind (deref (data_ptr (tlv_value tlv))) (\<lambda>b. Inr (b \<noteq> 0)))"

definition aws_der_decoder_tlv_blob :: "der_tlv array_list_ops \<Rightarrow> aws_der_decoder \<Rightarrow>
    aws_byte_cursor result" where
  "aws_der_decoder_tlv_blob L dec = rbind (s_decoder_tlv L dec) s_tlv_to_blob"

end
