(* ===== verification/Der_Decoder_Spec.thy ===== *)
theory Der_Decoder_Spec
  imports Der_Decoder
begin

text \<open>
  Correctness of the DER decoder. The first part holds for every input: creating a decoder
  terminates, and it either succeeds, raises AWS_ERROR_CAL_MALFORMED_ASN1_ENCOUNTERED, leaves
  the input (which it can: the length of a TLV is not compared with what is left) or uses the old storage of a list of TLVs that has
  moved. The second part describes the decoder on a forest of at most sixteen TLVs with any tags, framed as the encoder frames them: it succeeds
  exactly when at most fifteen containers are nested, and yields the preorder of the forest with
  the element count of each container.
\<close>

section \<open>Cursors over a byte string\<close>

definition cursor_at :: "aws_byte_cursor \<Rightarrow> bytes \<Rightarrow> bool" where
  "cursor_at cur bs \<longleftrightarrow>
     (\<exists>pre post. ptr cur = Some \<lparr>pobj = pre @ bs @ post, poff = length pre\<rparr> \<and>
        cur_len cur = length bs)"

lemma cursor_atI:
  "ptr cur = Some \<lparr>pobj = pre @ bs @ post, poff = length pre\<rparr> \<Longrightarrow> cur_len cur = length bs \<Longrightarrow>
     cursor_at cur bs"
  by (auto simp: cursor_at_def)

lemma cursor_at_cursor_of [simp]: "cursor_at (cursor_of bs) bs"
  by (rule cursor_atI [of _ "[]" _ "[]"]) (simp_all add: cursor_of_def)

lemma cursor_at_len: "cursor_at cur bs \<Longrightarrow> cur_len cur = length bs"
  by (auto simp: cursor_at_def)

lemma cursor_at_readable: "cursor_at cur bs \<Longrightarrow> readable cur n"
  by (auto simp: cursor_at_def readable_def)

lemma cursor_at_take:
  assumes "cursor_at cur (xs @ ys)"
  shows "bytes_at (ptr cur) (length xs) = Inr xs" and "cur_data cur (length xs) = xs"
    and "cursor_at \<lparr>ptr = ptr cur, cur_len = length xs\<rparr> xs"
proof -
  obtain pre post where p: "ptr cur = Some \<lparr>pobj = pre @ (xs @ ys) @ post, poff = length pre\<rparr>"
    using assms by (auto simp: cursor_at_def)
  then show "bytes_at (ptr cur) (length xs) = Inr xs" and "cur_data cur (length xs) = xs"
    by (auto simp: bytes_at_def cur_data_def)
  show "cursor_at \<lparr>ptr = ptr cur, cur_len = length xs\<rparr> xs"
    using p by (intro cursor_atI [of _ pre _ "ys @ post"]) simp_all
qed

lemma cursor_at_drop:
  assumes "cursor_at cur (xs @ ys)"
  shows "cursor_at (cur_drop (length xs) cur) ys"
proof -
  obtain pre post where p: "ptr cur = Some \<lparr>pobj = pre @ (xs @ ys) @ post, poff = length pre\<rparr>"
    using assms by (auto simp: cursor_at_def)
  then show ?thesis
    using cursor_at_len [OF assms] by (intro cursor_atI [of _ "pre @ xs" _ post]) (simp_all add: cur_drop_def ptr_add_def)
qed

lemma cur_drop_drop [simp]: "cur_drop m (cur_drop n cur) = cur_drop (n + m) cur"
  by (simp add: cur_drop_def)

lemma cursor_reads:
  assumes C: "common_spec C" and at: "cursor_at cur (xs @ rest)"
  shows "xs = [x] \<Longrightarrow> cursor_read 1 (aws_byte_cursor_read_u8 C) cur e = Inr (x, cur_drop 1 cur)"
    and "length xs = 2 \<Longrightarrow> cursor_read 2 (aws_byte_cursor_read_be16 C) cur e =
           Inr (word_of_nat (be_nat xs), cur_drop 2 cur)"
    and "length xs = 4 \<Longrightarrow> cursor_read 4 (aws_byte_cursor_read_be32 C) cur e =
           Inr (word_of_nat (be_nat xs), cur_drop 4 cur)"
  using cursor_at_take(2) [OF at] cursor_at_len [OF at] cursor_at_readable [OF at]
  by (auto simp: cursor_read_def read_u8_law [OF C] read_be16_law [OF C] read_be32_law [OF C])

lemma cursor_at_from_buf:
  assumes v: "valid_buf b" and ne: "contents b \<noteq> []"
  shows "cursor_at (aws_byte_cursor_from_buf b) (contents b)"
proof -
  obtain m where m: "buffer b = Some m" using ne by (cases "buffer b") (auto simp: contents_def)
  with v have "m = [] @ contents b @ drop (buf_len b) m" by (simp add: contents_def)
  then show ?thesis
    using m length_contents [OF v]
    by (intro cursor_atI [of _ "[]" _ "drop (buf_len b) m"]) (simp_all add: aws_byte_cursor_from_buf_def)
qed

section \<open>Every input\<close>

text \<open>The ways parsing can fail.\<close>

definition parse_failure :: "failure \<Rightarrow> bool" where
  "parse_failure f \<longleftrightarrow> f \<in> {Raised AWS_ERROR_CAL_MALFORMED_ASN1_ENCOUNTERED, Undefined Out_of_bounds, Undefined Use_after_free}"

lemma parse_failure_simps [simp]:
  "parse_failure (Raised e) \<longleftrightarrow> e = AWS_ERROR_CAL_MALFORMED_ASN1_ENCOUNTERED"
  "parse_failure (Undefined u) \<longleftrightarrow> u = Out_of_bounds \<or> u = Use_after_free"
  "\<not> parse_failure Out_of_fuel"
  "\<not> parse_failure Fatal"
  by (auto simp: parse_failure_def)

lemma cursor_read_len:
  assumes C: "common_spec C"
  shows "cursor_read 1 (aws_byte_cursor_read_u8 C) cur e = Inr (x, cur') \<Longrightarrow>
      1 \<le> cur_len cur \<and> cur' = cur_drop 1 cur"
    and "cursor_read 2 (aws_byte_cursor_read_be16 C) cur e = Inr (y, cur') \<Longrightarrow>
      2 \<le> cur_len cur \<and> cur' = cur_drop 2 cur"
    and "cursor_read 4 (aws_byte_cursor_read_be32 C) cur e = Inr (z, cur') \<Longrightarrow>
      4 \<le> cur_len cur \<and> cur' = cur_drop 4 cur"
  by (auto simp: cursor_read_def read_u8_law [OF C] read_be16_law [OF C] read_be32_law [OF C]
      split: if_splits)

text \<open>A failure of a call, which the caller turns into its own error.\<close>

definition plain_failure :: "failure \<Rightarrow> bool" where
  "plain_failure f \<longleftrightarrow> (\<exists>e. f = Raised e) \<or> f = Undefined Out_of_bounds"

lemma plain_failure_simps [simp]:
  "plain_failure (Raised e)" "plain_failure (Undefined u) \<longleftrightarrow> u = Out_of_bounds"
  "\<not> plain_failure Fatal" "\<not> plain_failure Out_of_fuel"
  by (simp_all add: plain_failure_def)

lemma plain_failure_reraise [simp]:
  "plain_failure f \<Longrightarrow> parse_failure (reraise AWS_ERROR_CAL_MALFORMED_ASN1_ENCOUNTERED f)"
  by (cases f) simp_all

lemma parse_failure_reraise [simp]:
  "parse_failure f \<Longrightarrow> parse_failure (reraise AWS_ERROR_CAL_MALFORMED_ASN1_ENCOUNTERED f)"
  by (cases f) simp_all

lemma cursor_read_plain: "cursor_read n f cur e = Inl x \<Longrightarrow> ptr cur \<noteq> None \<Longrightarrow> plain_failure x"
  by (auto simp: cursor_read_def split: if_splits option.splits)

lemma read_tlv_len_fails: "read_tlv_len C b cur = Inl f \<Longrightarrow> ptr cur \<noteq> None \<Longrightarrow> plain_failure f"
  by (auto simp: read_tlv_len_def Let_def rbind_def dest: cursor_read_plain
      split: if_splits sum.splits)

lemma read_tlv_len_shorter:
  "common_spec C \<Longrightarrow> read_tlv_len C b cur = Inr (len, cur') \<Longrightarrow> cur_len cur' \<le> cur_len cur"
  by (auto simp: read_tlv_len_def Let_def rbind_eq_Inr dest: cursor_read_len split: if_splits)

lemma decode_tlv_fails: "s_decode_tlv tlv = Inl f \<Longrightarrow> data_ptr (tlv_value tlv) \<noteq> None \<or> tag tlv = AWS_DER_NULL \<Longrightarrow> plain_failure f"
  by (auto simp: s_decode_tlv_def rbind_def deref_def split: if_splits option.splits)

lemma advance_len:
  assumes "common_spec C" and "cur_len cur \<le> SIZE_MAX div 2"
  shows "cur_len (snd (aws_byte_cursor_advance C cur n)) \<le> cur_len cur"
  using assms by (simp add: advance_law del: power_numeral)

text \<open>Pointers into the input stay pointers.\<close>

lemma ptr_kept:
  assumes "common_spec C" and "ptr cur \<noteq> None"
  shows "ptr (cur_drop n cur) \<noteq> None"
    and "cur_len cur \<le> SIZE_MAX div 2 \<Longrightarrow> ptr (snd (aws_byte_cursor_advance C cur n)) \<noteq> None"
  using assms by (auto simp: advance_law cur_drop_def ptr_add_def simp del: power_numeral)

lemma read_tlv_len_ptr:
  "common_spec C \<Longrightarrow> read_tlv_len C b cur = Inr (len, cur') \<Longrightarrow> ptr cur \<noteq> None \<Longrightarrow> ptr cur' \<noteq> None"
  by (auto simp: read_tlv_len_def Let_def rbind_eq_Inr cur_drop_def ptr_add_def dest: cursor_read_len split: if_splits)

text \<open>Reading a TLV consumes at least two bytes, so that the loop over the input terminates. It fails with an error or
  outside the input, and the value of a container is not null.\<close>

lemma read_tlv_parts:
  assumes "s_der_read_tlv C cur = Inr (tlv, cur')"
  obtains t c1 b c2 n c3 where "cursor_read 1 (aws_byte_cursor_read_u8 C) cur AWS_ERROR_SUCCESS = Inr (t, c1)"
    "cursor_read 1 (aws_byte_cursor_read_u8 C) c1 AWS_ERROR_SUCCESS = Inr (b, c2)" "read_tlv_len C b c2 = Inr (n, c3)"
    "s_decode_tlv \<lparr>tag = t, tlv_length = n, tlv_count = 0, tlv_value = Data (if t = AWS_DER_NULL then None else ptr c3)\<rparr> = Inr tlv"
    "cur' = snd (aws_byte_cursor_advance C c3 (unat n))"
  using assms by (auto simp: s_der_read_tlv_def rbind_eq_Inr)

lemma read_tlv_fails:
  assumes C: "common_spec C" and p: "ptr cur \<noteq> None" and f: "s_der_read_tlv C cur = Inl f"
  shows "plain_failure f"
proof -
  let ?r = "cursor_read 1 (aws_byte_cursor_read_u8 C)"
  consider "?r cur AWS_ERROR_SUCCESS = Inl f"
    | t c1 where "?r cur AWS_ERROR_SUCCESS = Inr (t, c1)" "?r c1 AWS_ERROR_SUCCESS = Inl f"
    | t c1 b c2 where "?r cur AWS_ERROR_SUCCESS = Inr (t, c1)" "?r c1 AWS_ERROR_SUCCESS = Inr (b, c2)" "read_tlv_len C b c2 = Inl f"
    | t c1 b c2 n c3 where "?r cur AWS_ERROR_SUCCESS = Inr (t, c1)" "?r c1 AWS_ERROR_SUCCESS = Inr (b, c2)"
        "read_tlv_len C b c2 = Inr (n, c3)"
        "s_decode_tlv \<lparr>tag = t, tlv_length = n, tlv_count = 0, tlv_value = Data (if t = AWS_DER_NULL then None else ptr c3)\<rparr> = Inl f"
    using f by (auto simp: s_der_read_tlv_def rbind_def split: sum.splits prod.splits)
  then show ?thesis
  proof cases
    case 1
    with p show ?thesis by (rule cursor_read_plain [rotated])
  next
    case 2
    with cursor_read_len(1) [OF C 2(1)] ptr_kept(1) [OF C p] show ?thesis by (auto intro: cursor_read_plain)
  next
    case 3
    with cursor_read_len(1) [OF C 3(1)] cursor_read_len(1) [OF C 3(2)] ptr_kept(1) [OF C p] ptr_kept(1) [OF C]
    show ?thesis by (auto intro: read_tlv_len_fails)
  next
    case 4
    then have "c2 = cur_drop 1 (cur_drop 1 cur)"
      using cursor_read_len(1) [OF C 4(1)] cursor_read_len(1) [OF C 4(2)] by simp
    then have "ptr c3 \<noteq> None"
      using read_tlv_len_ptr [OF C 4(3)] ptr_kept(1) [OF C ptr_kept(1) [OF C p]] by blast
    with decode_tlv_fails [OF 4(4)] show ?thesis by (auto split: if_splits)
  qed
qed

lemma read_tlv_shorter:
  assumes C: "common_spec C" and len: "cur_len cur \<le> SIZE_MAX div 2"
    and rd: "s_der_read_tlv C cur = Inr (tlv, cur')"
  shows "cur_len cur' + 2 \<le> cur_len cur"
    and "ptr cur \<noteq> None \<Longrightarrow> ptr cur' \<noteq> None \<and> (tag tlv AND AWS_DER_FORM_CONSTRUCTED \<noteq> 0 \<longrightarrow> data_ptr (tlv_value tlv) \<noteq> None)"
proof -
  from rd obtain t c1 b c2 n c3 where
      c1: "cursor_read 1 (aws_byte_cursor_read_u8 C) cur AWS_ERROR_SUCCESS = Inr (t, c1)" and
      c2: "cursor_read 1 (aws_byte_cursor_read_u8 C) c1 AWS_ERROR_SUCCESS = Inr (b, c2)" and
      c3: "read_tlv_len C b c2 = Inr (n, c3)" and
      d: "s_decode_tlv \<lparr>tag = t, tlv_length = n, tlv_count = 0, tlv_value = Data (if t = AWS_DER_NULL then None else ptr c3)\<rparr> = Inr tlv" and
      c': "cur' = snd (aws_byte_cursor_advance C c3 (unat n))"
    by (rule read_tlv_parts)
  have le: "cur_len c2 + 2 \<le> cur_len cur" and drop: "c2 = cur_drop 1 (cur_drop 1 cur)"
    using cursor_read_len(1) [OF C c1] cursor_read_len(1) [OF C c2] by auto
  with read_tlv_len_shorter [OF C c3] advance_len [OF C, of c3 "unat n"] len c' show "cur_len cur' + 2 \<le> cur_len cur"
    by simp
  assume p: "ptr cur \<noteq> None"
  have "ptr c3 \<noteq> None" using read_tlv_len_ptr [OF C c3] ptr_kept(1) [OF C ptr_kept(1) [OF C p]] drop by blast
  moreover have "cur_len c3 \<le> SIZE_MAX div 2" using le len read_tlv_len_shorter [OF C c3] by simp
  ultimately have "ptr cur' \<noteq> None" using ptr_kept(2) [OF C] c' by blast
  moreover have "tag tlv = t" "t \<noteq> AWS_DER_NULL \<longrightarrow> data_ptr (tlv_value tlv) \<noteq> None"
    using d \<open>ptr c3 \<noteq> None\<close> by (auto simp: s_decode_tlv_def rbind_eq_Inr ptr_add_def split: if_splits)
  ultimately show "ptr cur' \<noteq> None \<and> (tag tlv AND AWS_DER_FORM_CONSTRUCTED \<noteq> 0 \<longrightarrow> data_ptr (tlv_value tlv) \<noteq> None)"
    by auto
qed

lemma skip_newlines_outcome:
  assumes C: "common_spec C"
  shows "ptr cur \<noteq> None \<Longrightarrow> cur_len cur \<le> n \<Longrightarrow> n \<le> SIZE_MAX div 2 \<Longrightarrow> case skip_newlines C n cur of
      Inl f \<Rightarrow> f = Undefined Out_of_bounds
    | Inr cur' \<Rightarrow> cur_len cur' \<le> cur_len cur \<and> ptr cur' \<noteq> None"
proof (induction n arbitrary: cur)
  case 0
  then show ?case by simp
next
  case (Suc n)
  let ?cur = "snd (aws_byte_cursor_advance C cur 1)"
  have "cur_len ?cur = cur_len cur - 1"
    using Suc.prems C by (simp add: advance_law del: power_numeral)
  moreover have "ptr ?cur \<noteq> None" using ptr_kept(2) [OF C Suc.prems(1)] Suc.prems(2,3) by simp
  ultimately show ?case using Suc.IH [of ?cur] Suc.prems
    by (fastforce simp: rbind_def deref_def split: sum.splits option.splits)
qed

text \<open>
  What a parsing function guarantees at a given depth: it does not run out of fuel, and when it
  succeeds the depth counter and the walk's other fields are as before.
\<close>

definition parse_frame :: "aws_der_decoder \<Rightarrow> aws_der_decoder \<Rightarrow> bool" where
  "parse_frame dec dec' \<longleftrightarrow> depth dec' = depth dec \<and> container dec' = container dec \<and>
     tlv_idx dec' = tlv_idx dec \<and> input dec' = input dec"

definition parse_safe :: "aws_der_decoder \<Rightarrow> aws_der_decoder result \<Rightarrow> bool" where
  "parse_safe dec r \<longleftrightarrow> (case r of Inl f \<Rightarrow> parse_failure f | Inr dec' \<Rightarrow> parse_frame dec dec')"

lemma parse_frame_trans: "parse_frame a b \<Longrightarrow> parse_frame b c \<Longrightarrow> parse_frame a c"
  by (simp add: parse_frame_def)

lemma parse_safe_bind:
  "parse_safe dec r \<Longrightarrow> (\<And>dec'. r = Inr dec' \<Longrightarrow> parse_frame dec dec' \<Longrightarrow> parse_safe dec (f dec')) \<Longrightarrow>
     parse_safe dec (rbind r f)"
  by (auto simp: parse_safe_def split: sum.splits)

lemma parse_safe_frame:
  "parse_safe dec' r \<Longrightarrow> parse_frame dec dec' \<Longrightarrow> parse_safe dec r"
  by (auto simp: parse_safe_def parse_frame_def split: sum.splits)

lemma parse_safe_value:
  "(\<And>f. r = Inl f \<Longrightarrow> parse_failure f) \<Longrightarrow> (\<And>x. r = Inr x \<Longrightarrow> parse_safe dec (g x)) \<Longrightarrow>
     parse_safe dec (rbind r g)"
  by (cases r) (auto simp: parse_safe_def)

lemma count_element_safe: "parse_safe dec (count_element dec)"
  by (auto simp: parse_safe_def parse_frame_def count_element_def Let_def split: option.splits)

lemma expand_container_eq:
  assumes "array_list_spec L" and "al_items (tlvs dec) = xs @ [c]"
  shows "expand_container L rec dec =
    rbind (raise_on_failure AWS_ERROR_CAL_MALFORMED_ASN1_ENCOUNTERED
      (rec (dec\<lparr>container := Some (al_storage (tlvs dec), length xs)\<rparr>)
           \<lparr>ptr = data_ptr (tlv_value c), cur_len = unat (tlv_length c)\<rparr>))
      (\<lambda>dec'. Inr (dec'\<lparr>container := container dec\<rparr>))"
  using assms by (simp add: expand_container_def Let_def)

lemma expand_container_safe:
  assumes L: "array_list_spec L" and ne: "al_items (tlvs dec) \<noteq> []" "data_ptr (tlv_value (last (al_items (tlvs dec)))) \<noteq> None"
    and rec: "\<And>dec' cur. depth dec' = depth dec \<Longrightarrow> cur_len cur < 2 ^ 32 \<Longrightarrow> ptr cur \<noteq> None \<Longrightarrow> parse_safe dec' (rec dec' cur)"
  shows "parse_safe dec (expand_container L rec dec)"
proof -
  obtain xs c where items: "al_items (tlvs dec) = xs @ [c]"
    using ne(1) by (cases "al_items (tlvs dec)" rule: rev_cases) auto
  let ?dec = "dec\<lparr>container := Some (al_storage (tlvs dec), length xs)\<rparr>"
  let ?r = "rec ?dec \<lparr>ptr = data_ptr (tlv_value c), cur_len = unat (tlv_length c)\<rparr>"
  have "unat (tlv_length c) < 2 ^ 32" using unsigned_less [of "tlv_length c"] by simp
  then have "parse_safe ?dec ?r" using ne(2) items by (intro rec) simp_all
  then show ?thesis
    unfolding expand_container_eq [OF L items]
    by (cases ?r) (auto simp: parse_safe_def parse_frame_def)
qed

lemma add_tlv_safe:
  assumes L: "array_list_spec L" and v: "tag tlv AND AWS_DER_FORM_CONSTRUCTED \<noteq> 0 \<longrightarrow> data_ptr (tlv_value tlv) \<noteq> None"
    and rec: "\<And>dec' cur. depth dec' = depth dec \<Longrightarrow> cur_len cur < 2 ^ 32 \<Longrightarrow> ptr cur \<noteq> None \<Longrightarrow> parse_safe dec' (rec dec' cur)"
  shows "parse_safe dec (add_tlv L rec tlv dec)"
proof -
  obtain l where l: "aws_array_list_push_back L (tlvs dec) tlv = Inr l"
      "al_items l = al_items (tlvs dec) @ [tlv]"
    using push_back_law [OF L] by blast
  let ?dec = "dec\<lparr>tlvs := l\<rparr>"
  have fr: "parse_frame dec ?dec" by (simp add: parse_frame_def)
  have "parse_safe ?dec (rbind (count_element ?dec) (\<lambda>dec.
      if tag tlv AND AWS_DER_FORM_CONSTRUCTED \<noteq> 0 then expand_container L rec dec else Inr dec))"
  proof (rule parse_safe_bind [OF count_element_safe])
    fix dec3
    assume ce: "count_element ?dec = Inr dec3" and fr3: "parse_frame ?dec dec3"
    have ne: "al_items (tlvs dec3) \<noteq> []" and last: "tlv_value (last (al_items (tlvs dec3))) = tlv_value tlv"
      using ce l(2) by (auto simp: count_element_def Let_def last_list_update split: option.splits if_splits)
    from expand_container_safe [OF L ne, of rec] last v rec fr3 show "parse_safe ?dec
        (if tag tlv AND AWS_DER_FORM_CONSTRUCTED \<noteq> 0 then expand_container L rec dec3 else Inr dec3)"
      by (intro parse_safe_frame [OF _ fr3]) (simp add: parse_frame_def parse_safe_def)
  qed
  with l(1) show ?thesis
    by (simp add: add_tlv_def parse_safe_frame [OF _ fr])
qed

lemma parse_loop_safe:
  assumes C: "common_spec C" and L: "array_list_spec L"
    and rec: "\<And>dec' cur. depth dec' = d \<Longrightarrow> cur_len cur < 2 ^ 32 \<Longrightarrow> ptr cur \<noteq> None \<Longrightarrow> parse_safe dec' (rec dec' cur)"
  shows "depth dec = d \<Longrightarrow> ptr cur \<noteq> None \<or> cur_len cur = 0 \<Longrightarrow> cur_len cur \<le> n \<Longrightarrow> n \<le> SIZE_MAX div 2 \<Longrightarrow>
    parse_safe dec (parse_loop C L rec n dec cur)"
proof (induction n arbitrary: dec cur)
  case 0
  then show ?case by (simp add: parse_safe_def parse_frame_def)
next
  case (Suc n)
  have step: "parse_safe dec (rbind (skip_newlines C (cur_len cur') cur') (\<lambda>cur.
      rbind (add_tlv L rec tlv dec) (\<lambda>dec. parse_loop C L rec n dec cur)))"
    if short: "cur_len cur' + 2 \<le> cur_len cur" "ptr cur' \<noteq> None"
      "tag tlv AND AWS_DER_FORM_CONSTRUCTED \<noteq> 0 \<longrightarrow> data_ptr (tlv_value tlv) \<noteq> None" for tlv cur'
  proof (rule parse_safe_value)
    have le: "cur_len cur' \<le> SIZE_MAX div 2" using short Suc.prems by simp
    note skip = skip_newlines_outcome [OF C short(2) le_refl le]
    show "parse_failure f" if "skip_newlines C (cur_len cur') cur' = Inl f" for f
      using skip that by auto
    fix cur2
    assume "skip_newlines C (cur_len cur') cur' = Inr cur2"
    with skip short Suc.prems have cur2: "cur_len cur2 \<le> n" "ptr cur2 \<noteq> None" by simp_all
    show "parse_safe dec (rbind (add_tlv L rec tlv dec) (\<lambda>dec. parse_loop C L rec n dec cur2))"
    proof (rule parse_safe_bind)
      show "parse_safe dec (add_tlv L rec tlv dec)"
        using Suc.prems(1) by (intro add_tlv_safe [OF L short(3)] rec) simp_all
      show "parse_safe dec (parse_loop C L rec n dec4 cur2)" if "parse_frame dec dec4" for dec4
        using that Suc.prems cur2
        by (intro parse_safe_frame [OF _ that] Suc.IH) (simp_all add: parse_frame_def)
    qed
  qed
  have "cur_len cur \<le> SIZE_MAX div 2" using Suc.prems by simp
  note shorter = read_tlv_shorter [OF C this]
  show ?case
  proof (cases "cur_len cur = 0")
    case True
    then show ?thesis by (simp add: parse_safe_def parse_frame_def)
  next
    case False
    then have p: "ptr cur \<noteq> None" using Suc.prems(2) by simp
    show ?thesis
      unfolding parse_loop.simps if_not_P [OF False]
      by (rule parse_safe_value)
        (use p shorter in \<open>auto simp: raise_on_failure_def intro!: step dest: read_tlv_fails [OF C p] split: sum.splits\<close>)
  qed
qed

lemma parse_level_safe:
  assumes C: "common_spec C" and L: "array_list_spec L"
  shows "unat (depth dec) + k = 17 \<Longrightarrow> 0 < k \<Longrightarrow> cur_len cur \<le> SIZE_MAX div 2 \<Longrightarrow> ptr cur \<noteq> None \<or> cur_len cur = 0 \<Longrightarrow>
    parse_safe dec (parse_level C L k dec cur)"
proof (induction k arbitrary: dec cur)
  case 0
  then show ?case by simp
next
  case (Suc k)
  let ?dec = "dec\<lparr>depth := depth dec + 1\<rparr>"
  have d: "unat (depth dec + 1) = unat (depth dec) + 1"
    using Suc.prems(1) by (simp add: unat_word_ariths)
  show ?case
  proof (cases "k = 0")
    case True
    with Suc.prems d show ?thesis by (simp add: parse_safe_def)
  next
    case False
    have "parse_safe ?dec (parse_loop C L (parse_level C L k) (cur_len cur) ?dec cur)"
    proof (rule parse_loop_safe [OF C L])
      show "parse_safe dec' (parse_level C L k dec' cur')"
        if "depth dec' = depth ?dec" "cur_len cur' < 2 ^ 32" "ptr cur' \<noteq> None" for dec' cur'
        using Suc.IH [of dec' cur'] Suc.prems False d that by simp
    qed (use Suc.prems in simp_all)
    with Suc.prems d False show ?thesis
      by (auto simp: parse_safe_def parse_frame_def Let_def rbind_def split: sum.splits)
  qed
qed

text \<open>
  Claim C15. Creating a decoder terminates on every input that is not a null pointer: the parse never exhausts its fuel, the
  only error it reports is AWS_ERROR_CAL_MALFORMED_ASN1_ENCOUNTERED, the only undefined behaviour is a read outside the input or a use
  of the old storage of the list of TLVs after it has moved, and a decoder it returns is
  positioned before the first TLV with no container open and the depth counter back at zero.
\<close>

theorem decoder_new_total:
  assumes "common_spec C" and "array_list_spec L" and "cur_len inp \<le> SIZE_MAX div 2" and "ptr inp \<noteq> None \<or> cur_len inp = 0"
  shows "case aws_der_decoder_new C L inp of
      Inl f \<Rightarrow> f = Raised AWS_ERROR_CAL_MALFORMED_ASN1_ENCOUNTERED \<or> f = Undefined Out_of_bounds \<or> f = Undefined Use_after_free
    | Inr dec \<Rightarrow> tlv_idx dec = -1 \<and> container dec = None \<and> depth dec = 0 \<and> input dec = inp"
proof -
  obtain l where l: "aws_array_list_init_dynamic L 16 = Inr l"
    using init_dynamic_law [OF assms(2)] by blast
  let ?dec = "\<lparr>tlvs = l, tlv_idx = -1, input = inp, depth = 0, container = None\<rparr>"
  have "parse_safe ?dec (parse_level C L 17 ?dec inp)"
    by (rule parse_level_safe [OF assms(1,2)]) (use assms(3,4) in simp_all)
  with assms(1) l show ?thesis
    by (auto simp: aws_der_decoder_new_def s_decoder_parse_def s_parse_cursor_def parse_safe_def
        parse_failure_def parse_frame_def simp del: parse_level.simps split: sum.splits)
qed

lemma decoder_new_total_witness:
  "case aws_der_decoder_new ref_common ref_array_list (cursor_of [0x05, 0x00]) of
      Inl f \<Rightarrow> f = Raised AWS_ERROR_CAL_MALFORMED_ASN1_ENCOUNTERED \<or> f = Undefined Out_of_bounds \<or> f = Undefined Use_after_free
    | Inr dec \<Rightarrow> tlv_idx dec = -1 \<and> container dec = None \<and> depth dec = 0 \<and>
        input dec = cursor_of [0x05, 0x00]"
  by (rule decoder_new_total [OF common_spec_ref array_list_spec_ref]) (simp_all add: cursor_of_def)

section \<open>Encoded forests\<close>

datatype der_tree = Leaf byte bytes | Node byte "der_tree list"

fun tree_bytes :: "der_tree \<Rightarrow> bytes" where
  "tree_bytes (Leaf t b) = der_frame t b"
| "tree_bytes (Node t ts) = der_frame t (concat (map tree_bytes ts))"

abbreviation forest_bytes :: "der_tree list \<Rightarrow> bytes" where
  "forest_bytes ts \<equiv> concat (map tree_bytes ts)"

text \<open>
  Which content a tag admits: an INTEGER has at least one byte, a BIT STRING at least the byte
  that counts unused bits, a NULL none. A primitive element may not start with a newline, which
  the decoder skips between elements.
\<close>

definition leaf_ok :: "byte \<Rightarrow> bytes \<Rightarrow> bool" where
  "leaf_ok t b \<longleftrightarrow> t \<noteq> 0x0a \<and> (t = AWS_DER_INTEGER \<or> t = AWS_DER_BIT_STRING \<longrightarrow> b \<noteq> []) \<and>
     (t = AWS_DER_NULL \<longrightarrow> b = [])"

fun tree_ok :: "der_tree \<Rightarrow> bool" where
  "tree_ok (Leaf t b) = (t AND AWS_DER_FORM_CONSTRUCTED = 0 \<and> leaf_ok t b)"
| "tree_ok (Node t ts) = (t AND AWS_DER_FORM_CONSTRUCTED \<noteq> 0 \<and> (\<forall>x \<in> set ts. tree_ok x))"

text \<open>The value bytes the decoder reports for a leaf.\<close>

definition leaf_value :: "byte \<Rightarrow> bytes \<Rightarrow> bytes" where
  "leaf_value t b =
     (if t = AWS_DER_INTEGER then (if hd b = 0 then tl b else b)
      else if t = AWS_DER_BIT_STRING then tl b else b)"

text \<open>What a decoded TLV shows: its tag, its element count and the bytes it points at.\<close>

type_synonym tlv_view = "byte \<times> 32 word \<times> bytes result"

definition view :: "der_tlv \<Rightarrow> tlv_view" where
  "view tlv = (tag tlv, tlv_count tlv, bytes_at (data_ptr (tlv_value tlv)) (unat (tlv_length tlv)))"

fun tree_view :: "der_tree \<Rightarrow> tlv_view list" where
  "tree_view (Leaf t b) = [(t, 0, Inr (leaf_value t b))]"
| "tree_view (Node t ts) =
     (t, word_of_nat (length ts), Inr (forest_bytes ts)) # concat (map tree_view ts)"

abbreviation forest_view :: "der_tree list \<Rightarrow> tlv_view list" where
  "forest_view ts \<equiv> concat (map tree_view ts)"

fun tree_depth :: "der_tree \<Rightarrow> nat" where
  "tree_depth (Leaf t b) = 0"
| "tree_depth (Node t ts) = Suc (fold max (map tree_depth ts) 0)"

abbreviation forest_depth :: "der_tree list \<Rightarrow> nat" where
  "forest_depth ts \<equiv> fold max (map tree_depth ts) 0"

lemma fold_max_0: "fold max xs (a::nat) = max a (fold max xs 0)"
proof (induction xs arbitrary: a)
  case (Cons x xs)
  show ?case
    using Cons [of "max x a"] Cons [of "max x 0"] by (simp add: max.assoc max.commute)
qed simp

lemma forest_depth_Cons [simp]: "forest_depth (x # ts) = max (tree_depth x) (forest_depth ts)"
  using fold_max_0 [of "map tree_depth ts" "tree_depth x"] by simp

subsection \<open>One frame\<close>

lemma small_len_byte: "n \<le> 127 \<Longrightarrow> (word_of_nat n :: byte) AND 0x80 = 0"
proof -
  assume "n \<le> 127"
  then have "\<not> bit n 7" by (simp add: bit_iff_odd)
  then have "\<not> bit (word_of_nat n :: byte) 7" by (simp add: bit_of_nat_iff)
  then show ?thesis using and_exp_eq_0_iff_not_bit [of "word_of_nat n :: byte" 7] by simp
qed

lemma read_len:
  assumes C: "common_spec C" and at: "cursor_at cur (tl (der_length_bytes n) @ rest)" and n: "n < 2 ^ 32"
  shows "read_tlv_len C (hd (der_length_bytes n)) cur =
    Inr (word_of_nat n, cur_drop (length (tl (der_length_bytes n))) cur)"
proof -
  consider (l) "n > 65535" | (m) "n \<le> 65535" "n > 255" | (s) "n \<le> 255" "n > 127" | (t) "n \<le> 127"
    by linarith
  then show ?thesis
  proof cases
    case l
    then show ?thesis
      using cursor_reads(3) [OF C, of cur "be_bytes 4 n" rest] at n
      by (simp add: der_length_bytes_def read_tlv_len_def be_nat_be_bytes)
  next
    case m
    have "ucast (word_of_nat n :: 16 word) = (word_of_nat n :: 32 word)"
      using m by (intro word_unat_eq_iff [THEN iffD2]) (simp add: unat_of_nat unsigned_ucast_eq take_bit_nat_eq_self)
    then show ?thesis
      using cursor_reads(2) [OF C, of cur "be_bytes 2 n" rest] at m
      by (simp add: der_length_bytes_def read_tlv_len_def be_nat_be_bytes)
  next
    case s
    have "ucast (word_of_nat n :: byte) = (word_of_nat n :: 32 word)"
      using s by (intro word_unat_eq_iff [THEN iffD2]) (simp add: unat_of_nat unsigned_ucast_eq take_bit_nat_eq_self)
    then show ?thesis
      using cursor_reads(1) [OF C, of cur "[word_of_nat n]" rest] at s
      by (simp add: der_length_bytes_def read_tlv_len_def)
  next
    case t
    have "ucast (word_of_nat n :: byte) = (word_of_nat n :: 32 word)"
      using t by (intro word_unat_eq_iff [THEN iffD2]) (simp add: unat_of_nat unsigned_ucast_eq take_bit_nat_eq_self)
    with t small_len_byte show ?thesis
      by (simp add: der_length_bytes_def read_tlv_len_def)
  qed
qed

definition tlv_cursor :: "der_tlv \<Rightarrow> aws_byte_cursor" where
  "tlv_cursor tlv = \<lparr>ptr = data_ptr (tlv_value tlv), cur_len = unat (tlv_length tlv)\<rparr>"

lemma decode_leaf:
  assumes at: "cursor_at cur (body @ rest)" and small: "length body < 2 ^ 32" and ok: "leaf_ok t body"
  shows "\<exists>tlv. s_decode_tlv \<lparr>tag = t, tlv_length = word_of_nat (length body), tlv_count = 0,
      tlv_value = Data (if t = AWS_DER_NULL then None else ptr cur)\<rparr> = Inr tlv \<and>
    view tlv = (t, 0, Inr (leaf_value t body)) \<and>
    (t AND AWS_DER_FORM_CONSTRUCTED \<noteq> 0 \<longrightarrow> cursor_at (tlv_cursor tlv) body)"
proof -
  have all: "bytes_at (ptr cur) (length body) = Inr body" by (rule cursor_at_take(1) [OF at])
  have len: "unat (word_of_nat (length body) :: 32 word) = length body"
    using small by (simp add: unat_of_nat)
  have tail: "bytes_at (ptr_add (ptr cur) 1) (unat (word_of_nat (length body) - 1 :: 32 word)) =
      Inr (tl body)" if ne: "body \<noteq> []"
  proof -
    obtain b bs where b: "body = b # bs" using ne by (cases body) auto
    have "word_of_nat (length body) - 1 = (word_of_nat (length bs) :: 32 word)" by (simp add: b)
    moreover have "cursor_at (cur_drop 1 cur) (bs @ rest)"
      using cursor_at_drop [of cur "[b]" "bs @ rest"] at b by simp
    ultimately show ?thesis
      using cursor_at_take(1) [of "cur_drop 1 cur" bs rest] small b
      by (simp add: cur_drop_def unat_of_nat)
  qed
  have hd: "deref (ptr cur) = Inr (hd body)" if "body \<noteq> []"
    using bytes_at_deref [OF all] that by simp
  consider (i) "t = AWS_DER_INTEGER" "body \<noteq> []" | (b) "t = AWS_DER_BIT_STRING" "body \<noteq> []"
    | (n) "t = AWS_DER_NULL" "body = []"
    | (o) "t \<noteq> AWS_DER_INTEGER" "t \<noteq> AWS_DER_BIT_STRING" "t \<noteq> AWS_DER_NULL"
    using ok by (auto simp: leaf_ok_def)
  then show ?thesis
    by cases (simp_all add: s_decode_tlv_def view_def leaf_value_def hd tail [unfolded One_nat_def]
        all len tlv_cursor_def cursor_at_take(3) [OF at])
qed

lemma der_frame_split:
  "der_frame t body = t # hd (der_length_bytes (length body)) #
     tl (der_length_bytes (length body)) @ body"
  by (simp add: der_frame_def der_length_bytes_def)

lemma read_frame:
  assumes C: "common_spec C" and at: "cursor_at cur (der_frame t body @ rest)"
    and small: "length body < 2 ^ 32" and max: "length (der_frame t body @ rest) \<le> SIZE_MAX div 2"
    and ok: "leaf_ok t body"
  shows "\<exists>tlv. s_der_read_tlv C cur = Inr (tlv, cur_drop (length (der_frame t body)) cur) \<and>
    view tlv = (t, 0, Inr (leaf_value t body)) \<and>
    (t AND AWS_DER_FORM_CONSTRUCTED \<noteq> 0 \<longrightarrow> cursor_at (tlv_cursor tlv) body)"
proof -
  let ?l = "der_length_bytes (length body)"
  let ?c2 = "cur_drop 2 cur" and ?c3 = "cur_drop (2 + length (tl ?l)) cur"
  have at1: "cursor_at (cur_drop 1 cur) ([hd ?l] @ tl ?l @ body @ rest)"
    using cursor_at_drop [of cur "[t]"] at unfolding der_frame_split by simp
  have at2: "cursor_at ?c2 (tl ?l @ body @ rest)" using cursor_at_drop [OF at1] by (simp add: numeral_2_eq_2)
  have at3: "cursor_at ?c3 (body @ rest)" using cursor_at_drop [OF at2] by simp
  have r1: "cursor_read 1 (aws_byte_cursor_read_u8 C) cur e = Inr (t, cur_drop 1 cur)" for e
    using cursor_reads(1) [OF C, of cur "[t]"] at unfolding der_frame_split by simp
  have r2: "cursor_read 1 (aws_byte_cursor_read_u8 C) (cur_drop 1 cur) e = Inr (hd ?l, ?c2)" for e
    using cursor_reads(1) [OF C at1] by (simp add: numeral_2_eq_2)
  have r3: "read_tlv_len C (hd ?l) ?c2 = Inr (word_of_nat (length body), ?c3)"
    using read_len [OF C at2 small] by simp
  have len: "unat (word_of_nat (length body) :: 32 word) = length body"
    using small by (simp add: unat_of_nat)
  have "cur_len ?c3 \<le> SIZE_MAX div 2"
    using cursor_at_len [OF at3] max by (simp add: der_frame_def del: power_numeral)
  then have adv: "snd (aws_byte_cursor_advance C ?c3 (length body)) = cur_drop (length (der_frame t body)) cur"
    using cursor_at_len [OF at3] unfolding der_frame_split by (simp add: advance_law [OF C] add.assoc)
  obtain tlv where "s_decode_tlv \<lparr>tag = t, tlv_length = word_of_nat (length body), tlv_count = 0,
      tlv_value = Data (if t = AWS_DER_NULL then None else ptr ?c3)\<rparr> = Inr tlv"
      "view tlv = (t, 0, Inr (leaf_value t body))"
      "t AND AWS_DER_FORM_CONSTRUCTED \<noteq> 0 \<longrightarrow> cursor_at (tlv_cursor tlv) body"
    using decode_leaf [OF at3 small ok] by blast
  then show ?thesis
    unfolding s_der_read_tlv_def r1 r2 r3 rbind_simps prod.case len by (simp only: rbind_simps adv) simp
qed

lemma skip_no_newline:
  "cursor_at cur bs \<Longrightarrow> bs = [] \<or> hd bs \<noteq> 0x0a \<Longrightarrow> skip_newlines C (length bs) cur = Inr cur"
proof (cases bs)
  case (Cons b bs')
  assume at: "cursor_at cur bs" and ne: "bs = [] \<or> hd bs \<noteq> 0x0a"
  have "deref (ptr cur) = Inr b"
    using bytes_at_deref(1) [OF cursor_at_take(1) [of cur "[b]" bs']] at Cons by simp
  with Cons ne cursor_at_len [OF at] show ?thesis by simp
qed (simp add: cursor_at_len)

lemma tree_bytes_hd: "tree_ok x \<Longrightarrow> tree_bytes x \<noteq> [] \<and> hd (tree_bytes x) \<noteq> 0x0a"
  by (cases x) (auto simp: der_frame_def leaf_ok_def)

lemma forest_bytes_hd:
  "\<forall>x \<in> set ts. tree_ok x \<Longrightarrow> forest_bytes ts = [] \<or> hd (forest_bytes ts) \<noteq> 0x0a"
  using tree_bytes_hd by (cases ts) auto

subsection \<open>Forests\<close>

definition views :: "aws_der_decoder \<Rightarrow> tlv_view list" where
  "views dec = map view (al_items (tlvs dec))"

text \<open>Counting \<open>n\<close> more elements in the container that is being expanded.\<close>

definition bump :: "(nat \<times> nat) option \<Rightarrow> nat \<Rightarrow> tlv_view list \<Rightarrow> tlv_view list" where
  "bump c n xs = (case c of None \<Rightarrow> xs
     | Some (_, i) \<Rightarrow> xs[i := (case xs ! i of (t, m, b) \<Rightarrow> (t, m + word_of_nat n, b))])"

definition container_ok :: "aws_der_decoder \<Rightarrow> bool" where
  "container_ok dec = (case container dec of None \<Rightarrow> True
     | Some (block, i) \<Rightarrow> block = al_storage (tlvs dec) \<and> i < length (al_items (tlvs dec)))"

text \<open>The decoder after a forest was parsed at its current position, with the same storage block.\<close>

definition parsed :: "aws_der_decoder \<Rightarrow> der_tree list \<Rightarrow> aws_der_decoder \<Rightarrow> bool" where
  "parsed dec ts dec' \<longleftrightarrow> parse_frame dec dec' \<and>
     al_storage (tlvs dec') = al_storage (tlvs dec) \<and> al_capacity (tlvs dec') = al_capacity (tlvs dec) \<and>
     views dec' = bump (container dec) (length ts) (views dec) @ forest_view ts"

definition parses :: "nat \<Rightarrow> aws_der_decoder \<Rightarrow> der_tree list \<Rightarrow> aws_der_decoder result \<Rightarrow> bool" where
  "parses k dec ts r \<longleftrightarrow>
     (if forest_depth ts + 2 \<le> k then \<exists>dec'. r = Inr dec' \<and> parsed dec ts dec'
      else r = Inl (Raised AWS_ERROR_CAL_MALFORMED_ASN1_ENCOUNTERED))"

definition fits :: "aws_der_decoder \<Rightarrow> der_tree list \<Rightarrow> bool" where
  "fits dec ts \<longleftrightarrow> length (al_items (tlvs dec)) + length (forest_view ts) \<le> al_capacity (tlvs dec)"

lemma length_bump [simp]: "length (bump c n xs) = length xs"
  by (auto simp: bump_def split: option.splits)

lemma length_views [simp]: "length (views dec) = length (al_items (tlvs dec))"
  by (simp add: views_def)

lemma bump_0 [simp]: "bump c 0 xs = xs"
  by (auto simp: bump_def split: option.splits prod.splits)

lemma bump_bump:
  assumes "\<forall>b i. c = Some (b, i) \<longrightarrow> i < length xs"
  shows "bump c n (bump c m xs @ ys) = bump c (m + n) xs @ ys"
  using assms by (auto simp: bump_def list_update_append nth_append add.assoc split: option.splits prod.splits)

lemma bump_append:
  assumes "\<forall>b i. c = Some (b, i) \<longrightarrow> i < length xs"
  shows "bump c n (xs @ ys) = bump c n xs @ ys"
  using bump_bump [OF assms, of n 0 ys] by simp

lemma bump_last: "bump (Some (b, length xs)) n (xs @ [(t, m, v)]) = xs @ [(t, m + word_of_nat n, v)]"
  by (simp add: bump_def)

lemma container_ok_length:
  "container_ok dec \<Longrightarrow> \<forall>b i. container dec = Some (b, i) \<longrightarrow> i < length (views dec)"
  by (auto simp: container_ok_def)

lemma parsed_Nil [simp]: "parsed dec [] dec"
  by (simp add: parsed_def parse_frame_def)

lemma parsed_length:
  "parsed dec ts dec' \<Longrightarrow> length (al_items (tlvs dec')) = length (al_items (tlvs dec)) + length (forest_view ts)"
  by (simp add: parsed_def flip: length_views)

lemma parsed_container_ok: "parsed dec ts dec' \<Longrightarrow> container_ok dec \<Longrightarrow> container_ok dec'"
  using parsed_length [of dec ts dec']
  by (auto simp: parsed_def parse_frame_def container_ok_def split: option.splits)

lemma parsed_trans:
  assumes "parsed dec xs d1" and "parsed d1 ys d2" and "container_ok dec"
  shows "parsed dec (xs @ ys) d2"
  using assms bump_bump [OF container_ok_length [OF assms(3)], of "length ys" "length xs" "forest_view xs"]
  by (simp add: parsed_def parse_frame_def)

lemma count_element_parsed:
  assumes "container_ok dec"
  shows "\<exists>dec'. count_element dec = Inr dec' \<and> parse_frame dec dec' \<and>
    al_storage (tlvs dec') = al_storage (tlvs dec) \<and> al_capacity (tlvs dec') = al_capacity (tlvs dec) \<and>
    views dec' = bump (container dec) 1 (views dec)"
proof (cases "container dec")
  case None
  then show ?thesis by (simp add: count_element_def parse_frame_def bump_def)
next
  case (Some p)
  obtain b i where p: "p = (b, i)" by (cases p)
  have "view ((al_items (tlvs dec) ! i)\<lparr>tlv_count := tlv_count (al_items (tlvs dec) ! i) + 1\<rparr>) =
      (case view (al_items (tlvs dec) ! i) of (t, m, v) \<Rightarrow> (t, m + 1, v))"
    by (simp add: view_def)
  with assms Some p show ?thesis
    by (simp add: count_element_def container_ok_def Let_def parse_frame_def views_def bump_def map_update)
qed

text \<open>The view of the root of a tree before its children are counted.\<close>

fun root_view :: "der_tree \<Rightarrow> tlv_view" where
  "root_view (Leaf t b) = (t, 0, Inr (leaf_value t b))"
| "root_view (Node t ts) = (t, 0, Inr (forest_bytes ts))"

fun children :: "der_tree \<Rightarrow> der_tree list" where
  "children (Leaf t b) = []"
| "children (Node t ts) = ts"

definition tlv_of_tree :: "der_tree \<Rightarrow> der_tlv \<Rightarrow> bool" where
  "tlv_of_tree x tlv \<longleftrightarrow> view tlv = root_view x \<and>
     (\<forall>t ts. x = Node t ts \<longrightarrow> cursor_at (tlv_cursor tlv) (forest_bytes ts))"

text \<open>What \<open>rec\<close> must do for the containers of a forest at depth \<open>d\<close>.\<close>

definition rec_parses :: "32 word \<Rightarrow> nat \<Rightarrow> der_tree list \<Rightarrow>
    (aws_der_decoder \<Rightarrow> aws_byte_cursor \<Rightarrow> aws_der_decoder result) \<Rightarrow> bool" where
  "rec_parses d k xs rec \<longleftrightarrow> (\<forall>t ts dec cur. Node t ts \<in> set xs \<longrightarrow> depth dec = d \<longrightarrow>
     cursor_at cur (forest_bytes ts) \<longrightarrow> fits dec ts \<longrightarrow> container_ok dec \<longrightarrow> parses k dec ts (rec dec cur))"

lemma parsed_root:
  assumes L: "array_list_spec L" and ok: "container_ok dec" and fit: "fits dec [x]"
    and v: "view tlv = root_view x"
  shows "\<exists>d1. rbind (raise_on_failure AWS_ERROR_INVALID_STATE (aws_array_list_push_back L (tlvs dec) tlv))
      (\<lambda>l. count_element (dec\<lparr>tlvs := l\<rparr>)) = Inr d1 \<and> parse_frame dec d1 \<and>
    al_storage (tlvs d1) = al_storage (tlvs dec) \<and> al_capacity (tlvs d1) = al_capacity (tlvs dec) \<and>
    (\<exists>xs c. al_items (tlvs d1) = xs @ [c] \<and> length xs = length (al_items (tlvs dec)) \<and>
       tlv_value c = tlv_value tlv \<and> tlv_length c = tlv_length tlv) \<and>
    views d1 = bump (container dec) 1 (views dec) @ [root_view x]"
proof -
  have "length (al_items (tlvs dec)) < al_capacity (tlvs dec)"
    using fit by (cases x) (simp_all add: fits_def)
  then obtain l where l: "aws_array_list_push_back L (tlvs dec) tlv = Inr l"
      "al_items l = al_items (tlvs dec) @ [tlv]" "al_storage l = al_storage (tlvs dec)"
      "al_capacity l = al_capacity (tlvs dec)"
    using push_back_law [OF L] by metis
  let ?dec = "dec\<lparr>tlvs := l\<rparr>"
  have ok1: "container_ok ?dec" using ok l by (auto simp: container_ok_def split: option.splits)
  obtain d1 where d1: "count_element ?dec = Inr d1" "parse_frame ?dec d1"
      "al_storage (tlvs d1) = al_storage l" "al_capacity (tlvs d1) = al_capacity l"
      "views d1 = bump (container dec) 1 (views ?dec)"
    using count_element_parsed [OF ok1] by auto
  have "views ?dec = views dec @ [root_view x]" using l v by (simp add: views_def)
  with d1(5) bump_append [OF container_ok_length [OF ok]]
  have "views d1 = bump (container dec) 1 (views dec) @ [root_view x]" by simp
  moreover have "\<exists>xs c. al_items (tlvs d1) = xs @ [c] \<and> length xs = length (al_items (tlvs dec)) \<and>
       tlv_value c = tlv_value tlv \<and> tlv_length c = tlv_length tlv"
    using d1(1) l(2) ok by (auto simp: count_element_def Let_def container_ok_def list_update_append
        split: option.splits if_splits)
  ultimately show ?thesis using d1 l by (simp add: parse_frame_def)
qed

lemma add_tlv_eq:
  "add_tlv L rec tlv dec =
     rbind (rbind (raise_on_failure AWS_ERROR_INVALID_STATE (aws_array_list_push_back L (tlvs dec) tlv))
       (\<lambda>l. count_element (dec\<lparr>tlvs := l\<rparr>))) (\<lambda>dec.
       if tag tlv AND AWS_DER_FORM_CONSTRUCTED \<noteq> 0 then expand_container L rec dec else Inr dec)"
  by (simp add: add_tlv_def rbind_def split: sum.splits)

lemma add_tlv_parses:
  assumes L: "array_list_spec L" and ok: "tree_ok x" "container_ok dec" "fits dec [x]"
    and t: "tlv_of_tree x tlv" and rec: "rec_parses (depth dec) k [x] rec" and k: "0 < k"
  shows "parses (Suc k) dec [x] (add_tlv L rec tlv dec)"
proof -
  have v: "view tlv = root_view x" using t by (simp add: tlv_of_tree_def)
  obtain d1 xs c where d1: "rbind (raise_on_failure AWS_ERROR_INVALID_STATE
        (aws_array_list_push_back L (tlvs dec) tlv)) (\<lambda>l. count_element (dec\<lparr>tlvs := l\<rparr>)) = Inr d1"
      "parse_frame dec d1" "al_storage (tlvs d1) = al_storage (tlvs dec)"
      "al_capacity (tlvs d1) = al_capacity (tlvs dec)" "al_items (tlvs d1) = xs @ [c]"
      "length xs = length (al_items (tlvs dec))" "tlv_value c = tlv_value tlv"
      "tlv_length c = tlv_length tlv" "views d1 = bump (container dec) 1 (views dec) @ [root_view x]"
    using parsed_root [OF L ok(2,3) v] by blast
  show ?thesis
  proof (cases x)
    case (Leaf t b)
    with ok(1) v have "tag tlv AND AWS_DER_FORM_CONSTRUCTED = 0" by (simp add: view_def)
    with Leaf d1 k show ?thesis by (simp add: add_tlv_eq parses_def parsed_def)
  next
    case (Node tg ts)
    let ?d2 = "d1\<lparr>container := Some (al_storage (tlvs d1), length xs)\<rparr>"
    have tag: "tag tlv AND AWS_DER_FORM_CONSTRUCTED \<noteq> 0" using ok(1) v Node by (simp add: view_def)
    have cur: "cursor_at \<lparr>ptr = data_ptr (tlv_value c), cur_len = unat (tlv_length c)\<rparr> (forest_bytes ts)"
      using t Node d1 by (simp add: tlv_of_tree_def tlv_cursor_def)
    have "fits ?d2 ts" "container_ok ?d2" "depth ?d2 = depth dec"
      using ok(3) Node d1 by (simp_all add: fits_def container_ok_def parse_frame_def)
    with rec cur Node have p: "parses k ?d2 ts (rec ?d2 \<lparr>ptr = data_ptr (tlv_value c), cur_len = unat (tlv_length c)\<rparr>)"
      unfolding rec_parses_def by (metis list.set_intros(1))
    have vw: "views ?d2 = bump (container dec) 1 (views dec) @ [(tg, 0, Inr (forest_bytes ts))]"
      using d1(9) Node by (simp add: views_def)
    have ct: "container ?d2 = Some (al_storage (tlvs d1), length (bump (container dec) 1 (views dec)))"
      using d1(6) by simp
    have b: "bump (container ?d2) (length ts) (views ?d2) @ forest_view ts =
        bump (container dec) 1 (views dec) @ tree_view x"
      unfolding vw ct bump_last by (simp add: Node)
    show ?thesis
      using p d1(1,2,3,4) tag b Node
      unfolding add_tlv_eq d1(1) rbind_simps expand_container_eq [OF L d1(5)]
      by (auto simp: parses_def parsed_def parse_frame_def views_def)
  qed
qed

lemma tree_frame:
  assumes "tree_ok x"
  obtains t body where "tree_bytes x = der_frame t body" "leaf_ok t body"
    "root_view x = (t, 0, Inr (leaf_value t body))"
    "\<And>tg ts. x = Node tg ts \<Longrightarrow> t AND AWS_DER_FORM_CONSTRUCTED \<noteq> 0 \<and> body = forest_bytes ts"
proof (cases x)
  case (Leaf t b)
  with assms show ?thesis by (intro that [of t b]) simp_all
next
  case (Node t ts)
  with assms have "t \<noteq> 0x0a" "t \<noteq> AWS_DER_INTEGER" "t \<noteq> AWS_DER_BIT_STRING" "t \<noteq> AWS_DER_NULL"
    by auto
  with assms Node show ?thesis
    by (intro that [of t "forest_bytes ts"]) (simp_all add: leaf_ok_def leaf_value_def)
qed

lemma read_tree:
  assumes C: "common_spec C" and at: "cursor_at cur (tree_bytes x @ rest)" and ok: "tree_ok x"
    and small: "length (tree_bytes x) < 2 ^ 32" and max: "length (tree_bytes x @ rest) \<le> SIZE_MAX div 2"
  shows "\<exists>tlv. s_der_read_tlv C cur = Inr (tlv, cur_drop (length (tree_bytes x)) cur) \<and> tlv_of_tree x tlv"
proof -
  obtain t body where f: "tree_bytes x = der_frame t body" "leaf_ok t body"
      "root_view x = (t, 0, Inr (leaf_value t body))"
      and n: "\<And>tg ts. x = Node tg ts \<Longrightarrow> t AND AWS_DER_FORM_CONSTRUCTED \<noteq> 0 \<and> body = forest_bytes ts"
    by (rule tree_frame [OF ok]) (rule that)
  have "length body < 2 ^ 32" using small length_der_frame [of body t] f(1) by simp
  from read_frame [OF C at [unfolded f(1)] this max [unfolded f(1)] f(2)] obtain tlv where
      "s_der_read_tlv C cur = Inr (tlv, cur_drop (length (tree_bytes x)) cur)"
      "view tlv = root_view x"
      "t AND AWS_DER_FORM_CONSTRUCTED \<noteq> 0 \<longrightarrow> cursor_at (tlv_cursor tlv) body"
    unfolding f by blast
  with n show ?thesis unfolding tlv_of_tree_def by blast
qed

lemma parses_step:
  assumes p: "parses (Suc k) dec [x] r" and ok: "container_ok dec"
    and q: "\<And>d1. parsed dec [x] d1 \<Longrightarrow> parses (Suc k) d1 ts (f d1)"
  shows "parses (Suc k) dec (x # ts) (rbind r f)"
proof (cases "tree_depth x + 2 \<le> Suc k")
  case True
  with p obtain d1 where "r = Inr d1" "parsed dec [x] d1" by (auto simp: parses_def)
  with q [of d1] True parsed_trans [OF this(2) _ ok, of ts] show ?thesis
    by (auto simp: parses_def fold_max_0 [of "map tree_depth ts" "tree_depth x"] split: if_splits)
next
  case False
  with p show ?thesis
    by (simp add: parses_def fold_max_0 [of "map tree_depth ts" "tree_depth x"])
qed

lemma parse_loop_parses:
  assumes C: "common_spec C" and L: "array_list_spec L" and k: "0 < k"
  shows "cursor_at cur (forest_bytes ts) \<Longrightarrow> length (forest_bytes ts) \<le> n \<Longrightarrow>
    length (forest_bytes ts) < 2 ^ 32 \<Longrightarrow> \<forall>x \<in> set ts. tree_ok x \<Longrightarrow> container_ok dec \<Longrightarrow>
    fits dec ts \<Longrightarrow> rec_parses (depth dec) k ts rec \<Longrightarrow>
    parses (Suc k) dec ts (parse_loop C L rec n dec cur)"
proof (induction ts arbitrary: n dec cur)
  case Nil
  then show ?case
    using k cursor_at_len [OF Nil.prems(1)] by (cases n) (simp_all add: parses_def)
next
  case (Cons x ts)
  let ?c1 = "cur_drop (length (tree_bytes x)) cur"
  have at: "cursor_at cur (tree_bytes x @ forest_bytes ts)" using Cons.prems(1) by simp
  have at1: "cursor_at ?c1 (forest_bytes ts)" by (rule cursor_at_drop [OF at])
  obtain tlv where tlv: "s_der_read_tlv C cur = Inr (tlv, ?c1)" "tlv_of_tree x tlv"
    using read_tree [OF C at] Cons.prems(3,4) by auto
  have ne: "tree_bytes x \<noteq> []" using tree_bytes_hd Cons.prems(4) by simp
  obtain m where n: "n = Suc m" "length (forest_bytes ts) \<le> m"
    using Cons.prems(2) ne by (cases n) (auto simp: neq_Nil_conv)
  have "cur_len cur \<noteq> 0" using cursor_at_len [OF at] ne by simp
  moreover have "skip_newlines C (cur_len ?c1) ?c1 = Inr ?c1"
    using skip_no_newline [OF at1] forest_bytes_hd Cons.prems(4) cursor_at_len [OF at1] by simp
  ultimately have "parse_loop C L rec n dec cur =
      rbind (add_tlv L rec tlv dec) (\<lambda>dec. parse_loop C L rec m dec ?c1)"
    using tlv n by simp
  moreover have "parses (Suc k) dec (x # ts)
      (rbind (add_tlv L rec tlv dec) (\<lambda>dec. parse_loop C L rec m dec ?c1))"
  proof (rule parses_step)
    show "parses (Suc k) dec [x] (add_tlv L rec tlv dec)"
      using Cons.prems tlv k by (intro add_tlv_parses [OF L]) (auto simp: fits_def rec_parses_def)
    show "parses (Suc k) d1 ts (parse_loop C L rec m d1 ?c1)" if "parsed dec [x] d1" for d1
    proof (rule Cons.IH [OF at1 n(2)])
      show "fits d1 ts" using parsed_length [OF that] that Cons.prems(6) by (simp add: fits_def parsed_def)
      show "rec_parses (depth d1) k ts rec"
        using that Cons.prems(7) by (auto simp: rec_parses_def parsed_def parse_frame_def)
    qed (use Cons.prems parsed_container_ok [OF that] in simp_all)
  qed (rule Cons.prems(5))
  ultimately show ?case by simp
qed

lemma forest_bytes_child:
  "Node t ts \<in> set xs \<Longrightarrow> length (forest_bytes ts) < length (forest_bytes xs)"
proof (induction xs)
  case (Cons x xs)
  then show ?case using length_der_frame [of "forest_bytes ts" t] by auto
qed simp

lemma parse_level_parses:
  assumes C: "common_spec C" and L: "array_list_spec L"
  shows "unat (depth dec) + k = 17 \<Longrightarrow> 0 < k \<Longrightarrow> cursor_at cur (forest_bytes ts) \<Longrightarrow>
    length (forest_bytes ts) < 2 ^ 32 \<Longrightarrow> \<forall>x \<in> set ts. tree_ok x \<Longrightarrow> container_ok dec \<Longrightarrow>
    fits dec ts \<Longrightarrow> parses k dec ts (parse_level C L k dec cur)"
proof (induction k arbitrary: dec cur ts)
  case 0
  then show ?case by simp
next
  case (Suc k)
  let ?dec = "dec\<lparr>depth := depth dec + 1\<rparr>"
  have d: "unat (depth dec + 1) = unat (depth dec) + 1"
    using Suc.prems(1) by (simp add: unat_word_ariths)
  show ?case
  proof (cases "k = 0")
    case True
    with Suc.prems d show ?thesis by (simp add: parses_def)
  next
    case False
    have "parses k dec' us (parse_level C L k dec' cur')"
      if "Node t us \<in> set ts" "depth dec' = depth ?dec" "cursor_at cur' (forest_bytes us)"
        "fits dec' us" "container_ok dec'" for t us dec' cur'
      using that False Suc.prems d forest_bytes_child [OF that(1)] by (intro Suc.IH) auto
    then have "rec_parses (depth ?dec) k ts (parse_level C L k)" unfolding rec_parses_def by blast
    moreover have "container_ok ?dec" "fits ?dec ts"
      using Suc.prems by (auto simp: container_ok_def fits_def split: option.splits)
    ultimately have "parses (Suc k) ?dec ts (parse_loop C L (parse_level C L k) (cur_len cur) ?dec cur)"
      using Suc.prems False cursor_at_len [OF Suc.prems(3)] by (intro parse_loop_parses [OF C L]) simp_all
    with Suc.prems d False show ?thesis
      by (auto simp: parses_def parsed_def parse_frame_def views_def Let_def)
  qed
qed

section \<open>Properties of the decoder\<close>

lemma decode_forest_new:
  assumes C: "common_spec C" and L: "array_list_spec L" and at: "cursor_at inp (forest_bytes ts)"
    and ok: "\<forall>x \<in> set ts. tree_ok x" and small: "length (forest_bytes ts) < 2 ^ 32"
    and n: "length (forest_view ts) \<le> 16"
  shows "if forest_depth ts \<le> 15
    then \<exists>dec. aws_der_decoder_new C L inp = Inr dec \<and> tlv_idx dec = -1 \<and> views dec = forest_view ts
    else aws_der_decoder_new C L inp = Inl (Raised AWS_ERROR_CAL_MALFORMED_ASN1_ENCOUNTERED)"
proof -
  obtain l where l: "aws_array_list_init_dynamic L 16 = Inr l" "al_items l = []" "al_capacity l = 16"
    using init_dynamic_law [OF L] by blast
  let ?dec = "\<lparr>tlvs = l, tlv_idx = -1, input = inp, depth = 0, container = None\<rparr>"
  have "parses 17 ?dec ts (parse_level C L 17 ?dec inp)"
    by (rule parse_level_parses [OF C L _ _ at small ok])
      (use l n in \<open>simp_all add: container_ok_def fits_def\<close>)
  then show ?thesis
    using C l by (auto simp: aws_der_decoder_new_def s_decoder_parse_def s_parse_cursor_def
        parses_def parsed_def parse_frame_def views_def bump_def simp del: parse_level.simps)
qed



subsection \<open>Round trip with the encoder\<close>

text \<open>The bytes the decoder reports for a value handed to the encoder.\<close>

fun prim_value :: "der_prim \<Rightarrow> bytes" where
  "prim_value (Integer bs) = (if hd bs = 0 then tl bs else bs)"
| "prim_value (Boolean b) = [if b then 0xff else 0]"
| "prim_value Null = []"
| "prim_value (Bit_string bs) = bs"
| "prim_value (Octet_string bs) = bs"

fun value_view :: "der_value \<Rightarrow> tlv_view list" where
  "value_view (Prim p) = [(prim_tag p, 0, Inr (prim_value p))]"
| "value_view (Cont k vs) =
     (kind_tag k, word_of_nat (length vs), Inr (concat (map der_of vs))) # concat (map value_view vs)"

fun value_depth :: "der_value \<Rightarrow> nat" where
  "value_depth (Prim p) = 0"
| "value_depth (Cont k vs) = Suc (fold max (map value_depth vs) 0)"

fun tree_of :: "der_value \<Rightarrow> der_tree" where
  "tree_of (Prim p) = Leaf (prim_tag p) (prim_body p)"
| "tree_of (Cont k vs) = Node (kind_tag k) (map tree_of vs)"

lemma der_of_tree: "der_of v = tree_bytes (tree_of v)"
proof (induction v)
  case (Cont k vs)
  then show ?case by (simp add: comp_def cong: map_cong)
qed simp

lemma leaf_value_prim:
  assumes "wf_value (Prim p)"
  shows "leaf_value (prim_tag p) (prim_body p) = prim_value p"
  using assms by (cases p) (auto simp: leaf_value_def prim_body_def der_body_def)

lemma tree_view_of: "wf_value v \<Longrightarrow> tree_view (tree_of v) = value_view v"
proof (induction v)
  case (Prim p)
  then show ?case using leaf_value_prim [of p] by (simp del: wf_value.simps)
next
  case (Cont k vs)
  then show ?case by (simp add: der_of_tree [abs_def] comp_def cong: map_cong)
qed

lemma tree_depth_of: "tree_depth (tree_of v) = value_depth v"
proof (induction v)
  case (Cont k vs)
  then show ?case by (simp add: comp_def cong: map_cong)
qed simp

lemma tree_ok_of: "wf_value v \<Longrightarrow> tree_ok (tree_of v)"
proof (induction v)
  case (Prim p)
  then show ?case by (cases p) (auto simp: leaf_ok_def prim_body_def der_body_def)
next
  case (Cont k vs)
  then show ?case by (cases k) auto
qed

text \<open>
  Claim C2. Round trip: a value tree with at most sixteen TLVs and at most fifteen nested
  containers that is written with a new encoder and read back with a new decoder yields the
  preorder of the tree, with every count and every value; a boolean true comes back as 0xff and
  a leading zero byte of an integer is dropped.
\<close>

theorem encode_decode:
  assumes C: "common_spec C" and L: "array_list_spec L" and wf: "wf_value v"
    and small: "length (der_of v) < 2 ^ 32" "length (der_of v) \<le> cap" "cap \<le> SIZE_MAX div 2"
    and d: "value_depth v \<le> 15" and n: "length (value_view v) \<le> 16"
  shows "\<exists>enc0 enc1 cur dec. aws_der_encoder_new C L cap = Inr enc0 \<and>
    emit_value (encoder_put C) (encoder_begin C L) (encoder_end C L) v enc0 = (Inr (), enc1) \<and>
    aws_der_encoder_get_contents enc1 = Inr cur \<and> aws_der_decoder_new C L cur = Inr dec \<and>
    views dec = value_view v"
proof -
  obtain enc0 where new: "aws_der_encoder_new C L cap = Inr enc0" "enc_inv enc0"
      "enc_cap enc0 = cap" "enc_abs enc0 = ([], [])"
    by (rule encoder_new [OF C L small(3)])
  obtain enc1 where emit: "emit_value (encoder_put C) (encoder_begin C L) (encoder_end C L) v enc0 =
      (Inr (), enc1)" "enc_inv enc1" "enc_abs enc1 = (der_of v, [])"
    using der_enc.emit_ok [OF wf small(1), of C L, unfolded der_enc.emits_def] new C L small(2)
    by (auto simp: abs_top_def abs_append_def)
  obtain cur where cur: "aws_der_encoder_get_contents enc1 = Inr cur" "cursor_at cur (der_of v)"
    using get_contents_root [OF emit(2,3) der_of_nonempty] cursor_at_from_buf der_of_nonempty by metis
  have "\<exists>dec. aws_der_decoder_new C L cur = Inr dec \<and> views dec = value_view v"
    using decode_forest_new [OF C L, of cur "[tree_of v]"] cur(2) small(1) d n wf
    by (auto simp: der_of_tree tree_view_of tree_depth_of tree_ok_of)
  with new emit cur show ?thesis by blast
qed

lemma encode_decode_witness:
  "\<exists>enc0 enc1 cur dec. aws_der_encoder_new ref_common ref_array_list 64 = Inr enc0 \<and>
    emit_value (encoder_put ref_common) (encoder_begin ref_common ref_array_list)
      (encoder_end ref_common ref_array_list) sample_value enc0 = (Inr (), enc1) \<and>
    aws_der_encoder_get_contents enc1 = Inr cur \<and>
    aws_der_decoder_new ref_common ref_array_list cur = Inr dec \<and>
    views dec = value_view sample_value"
  by (rule encode_decode [OF common_spec_ref array_list_spec_ref])
    (unfold der_of_sample, simp_all add: sample_value_def)

text \<open>
  Integers keep their value: the magnitude bytes the decoder reports for an encoded
  unsigned integer denote the same number as the bytes given to the encoder, and they never start
  with a byte zero unless two leading zeros were given.
\<close>

theorem integer_value_kept:
  assumes "bs \<noteq> []"
  shows "leaf_value AWS_DER_INTEGER (der_body AWS_DER_INTEGER bs) = (if hd bs = 0 then tl bs else bs) \<and>
    be_nat (leaf_value AWS_DER_INTEGER (der_body AWS_DER_INTEGER bs)) = be_nat bs"
  using assms by (cases bs) (auto simp: leaf_value_def der_body_def)

lemma integer_value_kept_witness:
  "be_nat (leaf_value AWS_DER_INTEGER (der_body AWS_DER_INTEGER [0x80, 0x01])) = be_nat [0x80, 0x01]"
  using integer_value_kept [of "[0x80, 0x01]"] by simp

subsection \<open>Walking the TLVs\<close>

lemma decoder_tlv_at:
  assumes "array_list_spec L" and "tlv_idx dec = int i" and "i < length (al_items (tlvs dec))"
    and "length (al_items (tlvs dec)) < 2 ^ 31"
  shows "s_decoder_tlv L dec = Inr (al_items (tlvs dec) ! i)"
proof -
  have "nat (int i mod 2 ^ 64) = i" using assms by (simp add: nat_mod_distrib)
  with assms show ?thesis by (simp add: s_decoder_tlv_def)
qed

text \<open>
  The accessors at a position \<open>i\<close> of the decoded list report the \<open>i\<close>-th TLV: its tag,
  its length, and its bytes when the tag is the one the accessor is for. A string or integer
  accessor on another tag raises AWS_ERROR_CAL_MISMATCHED_DER_TYPE; asking a primitive TLV for its
  count, or a NULL for its bytes, is a fatal assertion.
\<close>

theorem decoder_accessors:
  assumes "array_list_spec L" and "tlv_idx dec = int i" and "i < length (views dec)"
    and "length (views dec) < 2 ^ 31" and "views dec ! i = (t, c, Inr bs)"
  shows "aws_der_decoder_tlv_type L dec = Inr t \<and>
    aws_der_decoder_tlv_length L dec = Inr (length bs) \<and>
    aws_der_decoder_tlv_count L dec = (if t AND AWS_DER_FORM_CONSTRUCTED \<noteq> 0 then Inr (unat c) else Inl Fatal) \<and>
    (if t = AWS_DER_INTEGER
     then \<exists>cur. aws_der_decoder_tlv_integer L dec = Inr cur \<and> bytes_at (ptr cur) (cur_len cur) = Inr bs
     else aws_der_decoder_tlv_integer L dec = Inl (Raised AWS_ERROR_CAL_MISMATCHED_DER_TYPE)) \<and>
    (if t = AWS_DER_OCTET_STRING \<or> t = AWS_DER_BIT_STRING
     then \<exists>cur. aws_der_decoder_tlv_string L dec = Inr cur \<and> bytes_at (ptr cur) (cur_len cur) = Inr bs
     else aws_der_decoder_tlv_string L dec = Inl (Raised AWS_ERROR_CAL_MISMATCHED_DER_TYPE)) \<and>
    (if t \<noteq> AWS_DER_BOOLEAN
     then aws_der_decoder_tlv_boolean L dec = Inl (Raised AWS_ERROR_CAL_MISMATCHED_DER_TYPE)
     else bs \<noteq> [] \<longrightarrow> aws_der_decoder_tlv_boolean L dec = Inr (hd bs \<noteq> 0)) \<and>
    (if t = AWS_DER_NULL then aws_der_decoder_tlv_blob L dec = Inl Fatal
     else \<exists>cur. aws_der_decoder_tlv_blob L dec = Inr cur \<and> bytes_at (ptr cur) (cur_len cur) = Inr bs)"
proof -
  let ?tlv = "al_items (tlvs dec) ! i"
  have s: "s_decoder_tlv L dec = Inr ?tlv"
    by (rule decoder_tlv_at) (use assms in simp_all)
  have v: "tag ?tlv = t" "tlv_count ?tlv = c"
      and b: "bytes_at (data_ptr (tlv_value ?tlv)) (unat (tlv_length ?tlv)) = Inr bs"
    using assms(3,5) by (simp_all add: views_def view_def)
  have len: "length bs = unat (tlv_length ?tlv)" by (rule bytes_at_length [OF b])
  have hd: "deref (data_ptr (tlv_value ?tlv)) = Inr (hd bs)" if "bs \<noteq> []"
    using bytes_at_deref(1) [OF b] that len by (metis length_greater_0_conv)
  show ?thesis
    using v b len hd
    by (simp add: aws_der_decoder_tlv_type_def aws_der_decoder_tlv_length_def
        aws_der_decoder_tlv_count_def aws_der_decoder_tlv_integer_def aws_der_decoder_tlv_string_def
        aws_der_decoder_tlv_boolean_def aws_der_decoder_tlv_blob_def s_tlv_to_blob_def s)
qed

definition sample_decoder :: aws_der_decoder where
  "sample_decoder =
     \<lparr>tlvs = \<lparr>al_items = [\<lparr>tag = AWS_DER_INTEGER, tlv_length = 2, tlv_count = 0,
        tlv_value = Data (Some \<lparr>pobj = [0x02, 0x02, 0x11, 0x22], poff = 2\<rparr>)\<rparr>],
        al_storage = 0, al_capacity = 16\<rparr>,
      tlv_idx = 0, input = cursor_of [0x02, 0x02, 0x11, 0x22], depth = 0, container = None\<rparr>"

lemma decoder_accessors_witness:
  "\<exists>cur. aws_der_decoder_tlv_integer ref_array_list sample_decoder = Inr cur \<and>
     bytes_at (ptr cur) (cur_len cur) = Inr [0x11, 0x22]"
proof -
  have "views sample_decoder ! 0 = (AWS_DER_INTEGER, 0, Inr [0x11, 0x22])"
    by (simp add: views_def view_def sample_decoder_def bytes_at_def)
  from decoder_accessors [OF array_list_spec_ref _ _ _ this] show ?thesis
    by (simp add: sample_decoder_def)
qed

text \<open>\<open>n\<close> calls of \<open>aws_der_decoder_next\<close>, with their results.\<close>

primrec next_n :: "nat \<Rightarrow> aws_der_decoder \<Rightarrow> (bool list \<times> aws_der_decoder) result" where
  "next_n 0 dec = Inr ([], dec)"
| "next_n (Suc n) dec =
     rbind (aws_der_decoder_next dec) (\<lambda>(b, dec). rbind (next_n n dec) (\<lambda>(bs, dec). Inr (b # bs, dec)))"

lemma next_n_from:
  assumes "length (al_items (tlvs dec)) < 2 ^ 31"
  shows "next_n n dec =
    (if tlv_idx dec + int n \<le> int INT_MAX \<or> n = 0
     then Inr (map (\<lambda>j. tlv_idx dec + 1 + int j < int (length (al_items (tlvs dec)))) [0..<n],
            dec\<lparr>tlv_idx := tlv_idx dec + int n\<rparr>)
     else Inl (Undefined Signed_overflow))"
  using assms
proof (induction n arbitrary: dec)
  case (Suc n)
  let ?d = "dec\<lparr>tlv_idx := tlv_idx dec + 1\<rparr>"
  have "map (\<lambda>j. tlv_idx dec + 1 + int j < int (length (al_items (tlvs dec)))) [0..<Suc n] =
      (tlv_idx dec + 1 < int (length (al_items (tlvs dec)))) #
      map (\<lambda>j. tlv_idx ?d + 1 + int j < int (length (al_items (tlvs ?d)))) [0..<n]"
    by (simp add: upt_conv_Cons map_Suc_upt [symmetric] del: upt_Suc) (simp add: comp_def algebra_simps)
  with Suc.IH [of ?d] Suc.prems show ?case
    by (auto simp: aws_der_decoder_next_def Let_def algebra_simps simp del: upt_Suc)
qed simp

text \<open>
  Claim C40. Walking: on a decoder just created, the first \<open>length\<close> calls of
  \<open>aws_der_decoder_next\<close> return true and every later one false, until after \<open>2 ^ 31\<close> calls the index overflows. After \<open>i + 1\<close> calls within the
  list the accessors see the \<open>i\<close>-th TLV; before the first call they see a zeroed TLV, and past
  the end every accessor is a fatal assertion.
\<close>

theorem decoder_walk:
  assumes "array_list_spec L" and "tlv_idx dec = -1" and "length (al_items (tlvs dec)) < 2 ^ 31"
  shows "if n \<le> 2 ^ 31
    then \<exists>dec'. next_n n dec = Inr (map (\<lambda>j. j < length (al_items (tlvs dec))) [0..<n], dec') \<and>
      s_decoder_tlv L dec' =
        (if length (al_items (tlvs dec)) < n then Inl Fatal
         else if n = 0 then Inr zero_tlv
         else Inr (al_items (tlvs dec) ! (n - 1)))
    else next_n n dec = Inl (Undefined Signed_overflow)"
proof -
  let ?d = "dec\<lparr>tlv_idx := int n - 1\<rparr>"
  have run: "next_n n dec = (if n \<le> 2 ^ 31 then Inr (map (\<lambda>j. j < length (al_items (tlvs dec))) [0..<n], ?d)
      else Inl (Undefined Signed_overflow))"
    using next_n_from [OF assms(3), of n] assms(2) by auto
  have "s_decoder_tlv L ?d = Inr (al_items (tlvs dec) ! (n - 1))"
    if "0 < n" "n \<le> length (al_items (tlvs dec))"
    using decoder_tlv_at [OF assms(1), of ?d "n - 1"] that assms(3) by (simp add: of_nat_diff)
  moreover have "s_decoder_tlv L ?d = Inl Fatal" if "length (al_items (tlvs dec)) < n"
    using that assms(3) by (simp add: s_decoder_tlv_def)
  moreover have "s_decoder_tlv L ?d = Inr zero_tlv" if "n = 0"
    using that assms(3) get_at_fails [OF assms(1), of "tlvs dec" "2 ^ 64 - 1"]
    by (auto simp: s_decoder_tlv_def)
  ultimately show ?thesis using run by auto
qed

lemma decoder_walk_witness:
  "\<exists>dec'. next_n 2 (sample_decoder\<lparr>tlv_idx := -1\<rparr>) = Inr ([True, False], dec') \<and> s_decoder_tlv ref_array_list dec' = Inl Fatal"
  using decoder_walk [OF array_list_spec_ref, of "sample_decoder\<lparr>tlv_idx := -1\<rparr>" 2]
  by (simp add: sample_decoder_def upt_rec del: next_n.simps)

subsection \<open>Inputs the decoder does not guard against\<close>

lemma read_sequence_header:
  assumes C: "common_spec C" and n: "n \<le> 127"
  shows "s_der_read_tlv C (cursor_of [AWS_DER_SEQUENCE, word_of_nat n]) =
    Inr (\<lparr>tag = AWS_DER_SEQUENCE, tlv_length = word_of_nat n, tlv_count = 0,
          tlv_value = Data (Some \<lparr>pobj = [AWS_DER_SEQUENCE, word_of_nat n], poff = 2\<rparr>)\<rparr>,
         \<lparr>ptr = Some \<lparr>pobj = [AWS_DER_SEQUENCE, word_of_nat n], poff = 2\<rparr>, cur_len = 0\<rparr>)"
proof -
  let ?bs = "[AWS_DER_SEQUENCE, word_of_nat n]"
  let ?cur = "cursor_of ?bs"
  have at: "cursor_at ?cur ([AWS_DER_SEQUENCE] @ [word_of_nat n])" by simp
  have at1: "cursor_at (cur_drop 1 ?cur) ([word_of_nat n] @ [])"
    using cursor_at_drop [OF at] by simp
  have r1: "cursor_read 1 (aws_byte_cursor_read_u8 C) ?cur e = Inr (AWS_DER_SEQUENCE, cur_drop 1 ?cur)" for e
    using cursor_reads(1) [OF C at] by simp
  have r2: "cursor_read 1 (aws_byte_cursor_read_u8 C) (cur_drop 1 ?cur) e =
      Inr (word_of_nat n, cur_drop 2 ?cur)" for e
    using cursor_reads(1) [OF C at1] by (simp add: numeral_2_eq_2)
  have ucast: "(ucast (word_of_nat n :: byte) :: 32 word) = word_of_nat n"
    using n by (intro word_unat_eq_iff [THEN iffD2]) (simp add: unat_of_nat unsigned_ucast_eq take_bit_nat_eq_self)
  have d: "cur_drop 2 ?cur = \<lparr>ptr = Some \<lparr>pobj = ?bs, poff = 2\<rparr>, cur_len = 0\<rparr>"
    by (simp add: cur_drop_def cursor_of_def ptr_add_def)
  have "snd (aws_byte_cursor_advance C (cur_drop 2 ?cur) m) = cur_drop 2 ?cur" for m
    unfolding d using advance_law [OF C, of "\<lparr>ptr = Some \<lparr>pobj = ?bs, poff = 2\<rparr>, cur_len = 0\<rparr>" m]
    by (auto simp: null_cursor_def cur_drop_def ptr_add_def)
  with n show ?thesis
    unfolding s_der_read_tlv_def r1 r2 rbind_simps prod.case
    by (simp add: read_tlv_len_def small_len_byte s_decode_tlv_def ucast d)
qed

text \<open>
  The length of a TLV is not compared with the input: on a two-byte input that announces
  a SEQUENCE of \<open>n\<close> bytes, \<open>0 < n \<le> 127\<close>, the decoder goes on to read past the end of the input
  instead of reporting malformed data, because the result of \<open>aws_byte_cursor_advance\<close> is ignored
  and the container's cursor takes the announced length.
\<close>

theorem decoder_overread:
  assumes "common_spec C" and "array_list_spec L" and "0 < n" and "n \<le> 127"
  shows "aws_der_decoder_new C L (cursor_of [AWS_DER_SEQUENCE, word_of_nat n]) =
    Inl (Undefined Out_of_bounds)"
proof -
  let ?bs = "[AWS_DER_SEQUENCE, word_of_nat n]"
  obtain l where l: "aws_array_list_init_dynamic L 16 = Inr l" "al_items l = []"
    using init_dynamic_law [OF assms(2)] by blast
  obtain l' where l': "aws_array_list_push_back L l t = Inr (l' t)" "al_items (l' t) = [] @ [t]" for t
    using push_back_law [OF assms(2), of l] l(2) by (metis append_Nil)
  have u: "unat (word_of_nat n :: 32 word) = n" using assms(4) by (simp add: unat_of_nat)
  have ex: "expand_container L rec \<lparr>tlvs = l' t, tlv_idx = a, input = b, depth = c, container = e\<rparr> =
      rbind (raise_on_failure AWS_ERROR_CAL_MALFORMED_ASN1_ENCOUNTERED
        (rec \<lparr>tlvs = l' t, tlv_idx = a, input = b, depth = c, container = Some (al_storage (l' t), 0)\<rparr>
             \<lparr>ptr = data_ptr (tlv_value t), cur_len = unat (tlv_length t)\<rparr>))
        (\<lambda>dec'. Inr (dec'\<lparr>container := e\<rparr>))" for rec t a b c e
    using expand_container_eq [OF assms(2), of "\<lparr>tlvs = l' t, tlv_idx = a, input = b, depth = c,
      container = e\<rparr>" "[]" t] l'(2) by simp
  have inner: "parse_level C L (Suc k) d \<lparr>ptr = Some \<lparr>pobj = ?bs, poff = 2\<rparr>, cur_len = n\<rparr> =
      Inl (Undefined Out_of_bounds)" if "depth d = 1" for k d
    using that assms(3)
    by (cases n) (simp_all add: Let_def s_der_read_tlv_def cursor_read_def readable_def)
  have two: "parse_loop C L rec (Suc (Suc 0)) d (cursor_of ?bs) =
      rbind (add_tlv L rec \<lparr>tag = AWS_DER_SEQUENCE, tlv_length = word_of_nat n, tlv_count = 0,
          tlv_value = Data (Some \<lparr>pobj = ?bs, poff = 2\<rparr>)\<rparr> d) Inr" for rec d
    using read_sequence_header [OF assms(1,4)] by simp
  have outer: "parse_level C L 17 d c =
      (if unat (depth d + 1) > 16 then Inl (Raised AWS_ERROR_CAL_MALFORMED_ASN1_ENCOUNTERED)
       else rbind (parse_loop C L (parse_level C L 16) (cur_len c) (d\<lparr>depth := depth d + 1\<rparr>) c)
              (\<lambda>dec. Inr (dec\<lparr>depth := depth dec - 1\<rparr>)))" for d c
    using parse_level.simps(2) [of C L 16 d c] by (simp add: Let_def)
  from assms(1) l show ?thesis
    by (simp add: aws_der_decoder_new_def s_decoder_parse_def s_parse_cursor_def outer two
        add_tlv_def l' count_element_def ex u inner [where k = 15, simplified]
        del: parse_loop.simps)
qed

lemma decoder_overread_witness:
  "aws_der_decoder_new ref_common ref_array_list (cursor_of [0x30, 0x7f]) = Inl (Undefined Out_of_bounds)"
  using decoder_overread [OF common_spec_ref array_list_spec_ref, of 127] by simp

text \<open>
  Bounds of a decoded length: \<open>s_decode_tlv\<close> never lengthens a TLV except that the
  subtraction wraps around to \<open>2^32 - 1\<close> on a BIT STRING of length zero and on an INTEGER of
  length zero that is followed by a zero byte; the tag and the count are kept.
\<close>

theorem decode_tlv_length:
  assumes "s_decode_tlv tlv = Inr tlv'"
  shows "tag tlv' = tag tlv \<and> tlv_count tlv' = tlv_count tlv \<and>
    (if tlv_length tlv = 0 \<and> tlv_length tlv' \<noteq> 0
     then unat (tlv_length tlv') = 2 ^ 32 - 1 \<and> tag tlv \<in> {AWS_DER_INTEGER, AWS_DER_BIT_STRING}
     else unat (tlv_length tlv') \<le> unat (tlv_length tlv) \<and>
          unat (tlv_length tlv) \<le> unat (tlv_length tlv') + 1)"
proof -
  have "unat (w - 1) = unat w - 1" if "w \<noteq> 0" for w :: "32 word"
    using that by (rule unat_minus_one)
  moreover have "unat (-1 :: 32 word) = 2 ^ 32 - 1" by (simp add: unsigned_minus_1_eq_mask mask_eq_exp_minus_1)
  ultimately show ?thesis
    using assms by (auto simp: s_decode_tlv_def rbind_eq_Inr split: if_splits)
qed

lemma decode_tlv_length_witness:
  "\<exists>tlv'. s_decode_tlv \<lparr>tag = AWS_DER_BIT_STRING, tlv_length = 0, tlv_count = 0,
       tlv_value = Data (Some \<lparr>pobj = [0x03, 0x00], poff = 2\<rparr>)\<rparr> = Inr tlv' \<and>
     unat (tlv_length tlv') = 2 ^ 32 - 1"
proof -
  obtain tlv' where t: "s_decode_tlv \<lparr>tag = AWS_DER_BIT_STRING, tlv_length = 0, tlv_count = 0,
       tlv_value = Data (Some \<lparr>pobj = [0x03, 0x00], poff = 2\<rparr>)\<rparr> = Inr tlv'" "tlv_length tlv' \<noteq> 0"
    by (simp add: s_decode_tlv_def)
  with decode_tlv_length [OF t(1)] show ?thesis by simp
qed

text \<open>
  The container pointer dangles when the list of TLVs grows: if appending a TLV moves
  the list to another block while a container is being expanded, counting the element writes
  through the stale pointer.
\<close>

theorem container_dangles:
  assumes "container dec = Some (al_storage (tlvs dec), i)"
    and "aws_array_list_push_back L (tlvs dec) tlv = Inr l" and "al_storage l \<noteq> al_storage (tlvs dec)"
  shows "add_tlv L rec tlv dec = Inl (Undefined Use_after_free)"
  using assms by (simp add: add_tlv_def count_element_def Let_def)

lemma container_dangles_witness:
  "\<forall>rec. add_tlv ref_array_list rec zero_tlv
     \<lparr>tlvs = \<lparr>al_items = replicate 16 zero_tlv, al_storage = 0, al_capacity = 16\<rparr>, tlv_idx = -1,
      input = null_cursor, depth = 2, container = Some (0, 0)\<rparr> = Inl (Undefined Use_after_free)"
  by (rule allI, rule container_dangles [where i = 0 and l = "\<lparr>al_items = replicate 16 zero_tlv @ [zero_tlv],
        al_storage = 1, al_capacity = 34\<rparr>"]) (simp_all add: ref_array_list_def)

end
