(* ===== verification/Ecc.thy ===== *)
theory Ecc
  imports Der_Decoder_Spec
begin

text \<open>
  The platform-independent part of elliptic-curve key pairs, \<^verbatim>\<open>source/ecc.c\<close>: curve names and
  object identifiers, loading a key pair from parsed DER, reference counting, keys from
  hexadecimal coordinates, and the calls through the key pair's vtable. Building a key from its
  coordinates is the work of a platform's crypto library and is a parameter here.
\<close>

section \<open>Curves\<close>

text \<open>A C enum can hold any integer; the sources test for values outside the two curves.\<close>

datatype aws_ecc_curve_name = AWS_CAL_ECDSA_P256 | AWS_CAL_ECDSA_P384 | Other_curve int

definition s_p256_oid :: bytes where
  "s_p256_oid = [0x2A, 0x86, 0x48, 0xCE, 0x3D, 0x03, 0x01, 0x07]"

definition s_p384_oid :: bytes where
  "s_p384_oid = [0x2B, 0x81, 0x04, 0x00, 0x22]"

text \<open>Comparing cursors reads both objects when the lengths agree.\<close>

definition cursor_eq :: "aws_common \<Rightarrow> aws_byte_cursor \<Rightarrow> aws_byte_cursor \<Rightarrow> bool result" where
  "cursor_eq C a b =
     (if cur_len a = cur_len b then rbind (bytes_at (ptr a) (cur_len a)) (\<lambda>_. Inr (aws_byte_cursor_eq C a b))
      else Inr (aws_byte_cursor_eq C a b))"

definition aws_ecc_curve_name_from_oid :: "aws_common \<Rightarrow> aws_byte_cursor \<Rightarrow> aws_ecc_curve_name result" where
  "aws_ecc_curve_name_from_oid C oid =
     rbind (cursor_eq C oid (cursor_of s_p256_oid)) (\<lambda>p256.
       if p256 then Inr AWS_CAL_ECDSA_P256
       else rbind (cursor_eq C oid (cursor_of s_p384_oid)) (\<lambda>p384.
         if p384 then Inr AWS_CAL_ECDSA_P384
         else Inl (Raised AWS_ERROR_CAL_UNKNOWN_OBJECT_IDENTIFIER)))"

definition aws_ecc_oid_from_curve_name :: "aws_ecc_curve_name \<Rightarrow> aws_byte_cursor result" where
  "aws_ecc_oid_from_curve_name curve = (case curve of
       AWS_CAL_ECDSA_P256 \<Rightarrow> Inr (cursor_of s_p256_oid)
     | AWS_CAL_ECDSA_P384 \<Rightarrow> Inr (cursor_of s_p384_oid)
     | Other_curve _ \<Rightarrow> Inl (Raised AWS_ERROR_CAL_UNSUPPORTED_ALGORITHM))"

definition aws_ecc_key_coordinate_byte_size_from_curve_name :: "aws_ecc_curve_name \<Rightarrow> nat" where
  "aws_ecc_key_coordinate_byte_size_from_curve_name curve = (case curve of
       AWS_CAL_ECDSA_P256 \<Rightarrow> 32 | AWS_CAL_ECDSA_P384 \<Rightarrow> 48 | Other_curve _ \<Rightarrow> 0)"

section \<open>Loading a key pair from DER\<close>

text \<open>The local variables of \<open>aws_der_decoder_load_ecc_key_pair\<close> during its loop.\<close>

record load_state =
  ld_decoder :: aws_der_decoder
  pair_part_1 :: aws_byte_cursor
  pair_part_2 :: aws_byte_cursor
  current_is_2 :: bool
  recognized :: "aws_ecc_curve_name option"

definition store_part :: "aws_byte_cursor \<Rightarrow> load_state \<Rightarrow> load_state" where
  "store_part cur st =
     (if current_is_2 st then st\<lparr>pair_part_2 := cur\<rparr>
      else st\<lparr>pair_part_1 := cur, current_is_2 := True\<rparr>)"

text \<open>One iteration of the loop, after \<open>aws_der_decoder_next\<close> returned true.\<close>

definition load_tlv :: "aws_common \<Rightarrow> der_tlv array_list_ops \<Rightarrow> load_state \<Rightarrow> load_state result" where
  "load_tlv C L st =
     (let dec = ld_decoder st in
      rbind (aws_der_decoder_tlv_type L dec) (\<lambda>type.
        if type = AWS_DER_OBJECT_IDENTIFIER then
          rbind (aws_der_decoder_tlv_blob L dec) (\<lambda>oid.
            case aws_ecc_curve_name_from_oid C oid of
              Inr curve \<Rightarrow> Inr (st\<lparr>recognized := Some curve\<rparr>)
            | Inl (Raised _) \<Rightarrow> Inr st
            | Inl f \<Rightarrow> Inl f)
        else if type = AWS_DER_BIT_STRING \<or> type = AWS_DER_OCTET_STRING then
          rbind (aws_der_decoder_tlv_string L dec) (\<lambda>cur. Inr (store_part cur st))
        else Inr st))"

primrec load_loop :: "aws_common \<Rightarrow> der_tlv array_list_ops \<Rightarrow> nat \<Rightarrow> load_state \<Rightarrow> load_state result" where
  "load_loop C L 0 st = Inl Out_of_fuel"
| "load_loop C L (Suc n) st =
     rbind (aws_der_decoder_next (ld_decoder st)) (\<lambda>(more, dec). let st = st\<lparr>ld_decoder := dec\<rparr> in
      if more then rbind (load_tlv C L st) (load_loop C L n) else Inr st)"

datatype part = Part_1 | Part_2

text \<open>Which of the two parts has a given length; the second one wins.\<close>

definition part_of_length :: "nat \<Rightarrow> load_state \<Rightarrow> part option" where
  "part_of_length n st =
     (if ptr (pair_part_2 st) \<noteq> None \<and> cur_len (pair_part_2 st) \<noteq> 0 \<and> cur_len (pair_part_2 st) = n
      then Some Part_2
      else if ptr (pair_part_1 st) \<noteq> None \<and> cur_len (pair_part_1 st) \<noteq> 0 \<and>
              cur_len (pair_part_1 st) = n
      then Some Part_1
      else None)"

definition get_part :: "load_state \<Rightarrow> part \<Rightarrow> aws_byte_cursor" where
  "get_part st p = (case p of Part_1 \<Rightarrow> pair_part_1 st | Part_2 \<Rightarrow> pair_part_2 st)"

record loaded_key =
  out_public_x_coor :: aws_byte_cursor
  out_public_y_coor :: aws_byte_cursor
  out_private_d :: aws_byte_cursor
  out_curve_name :: aws_ecc_curve_name

text \<open>
  The code after the loop. The two candidate lengths differ, so that the order of the tests in
  the source is that of \<open>part_of_length\<close> for each of them.
\<close>

definition select_key_parts :: "aws_common \<Rightarrow> load_state \<Rightarrow> loaded_key result" where
  "select_key_parts C st = (case recognized st of
       None \<Rightarrow> Inl (Raised AWS_ERROR_CAL_UNKNOWN_OBJECT_IDENTIFIER)
     | Some curve \<Rightarrow>
         let key_coordinate_size = aws_ecc_key_coordinate_byte_size_from_curve_name curve;
             public_key_blob_size = key_coordinate_size * 2 + 1;
             private_key = part_of_length key_coordinate_size st;
             public_key = part_of_length public_key_blob_size st;
             d = (case private_key of None \<Rightarrow> null_cursor | Some p \<Rightarrow> get_part st p)
         in if private_key = None \<and> public_key = None
            then Inl (Raised AWS_ERROR_CAL_MISSING_REQUIRED_KEY_COMPONENT)
            else case public_key of
                None \<Rightarrow> Inr \<lparr>out_public_x_coor = null_cursor, out_public_y_coor = null_cursor,
                             out_private_d = d, out_curve_name = curve\<rparr>
              | Some p \<Rightarrow>
                  let pub = snd (aws_byte_cursor_advance C (get_part st p) 1)
                  in Inr \<lparr>out_public_x_coor = pub\<lparr>cur_len := key_coordinate_size\<rparr>,
                          out_public_y_coor = \<lparr>ptr = ptr_add (ptr pub) key_coordinate_size,
                                               cur_len = key_coordinate_size\<rparr>,
                          out_private_d = d, out_curve_name = curve\<rparr>)"

definition aws_der_decoder_load_ecc_key_pair :: "aws_common \<Rightarrow> der_tlv array_list_ops \<Rightarrow>
    aws_der_decoder \<Rightarrow> loaded_key result" where
  "aws_der_decoder_load_ecc_key_pair C L dec =
     rbind (load_loop C L (length (al_items (tlvs dec)) + 1)
              \<lparr>ld_decoder = dec, pair_part_1 = null_cursor, pair_part_2 = null_cursor,
               current_is_2 = False, recognized = None\<rparr>)
       (select_key_parts C)"

section \<open>Key pairs\<close>

record 'i aws_ecc_key_pair =
  ref_count :: "64 word"
  curve_name :: aws_ecc_curve_name
  key_buf :: aws_byte_buf
  pub_x :: aws_byte_buf
  pub_y :: aws_byte_buf
  priv_d :: aws_byte_buf
  impl :: 'i

text \<open>The vtable of a platform; a missing entry is a null pointer. The state \<open>'w\<close> stands for what
  the platform's functions change.\<close>

record ('k, 'w) aws_ecc_key_pair_vtable =
  vt_destroy :: "('k \<Rightarrow> 'w \<Rightarrow> 'w) option"
  vt_derive_pub_key :: "('k \<Rightarrow> unit result \<times> 'k) option"
  vt_sign_message :: "('k \<Rightarrow> aws_byte_cursor \<Rightarrow> aws_byte_buf \<Rightarrow> unit result \<times> aws_byte_buf) option"
  vt_verify_signature :: "('k \<Rightarrow> aws_byte_cursor \<Rightarrow> aws_byte_cursor \<Rightarrow> unit result) option"
  vt_signature_length :: "('k \<Rightarrow> nat) option"

definition s_aws_ecc_key_pair_destroy :: "('k, 'w) aws_ecc_key_pair_vtable \<Rightarrow> 'k option \<Rightarrow> 'w \<Rightarrow>
    unit result \<times> 'w" where
  "s_aws_ecc_key_pair_destroy vt key w = (case key of
       None \<Rightarrow> (Inr (), w)
     | Some k \<Rightarrow> (case vt_destroy vt of None \<Rightarrow> (Inl Fatal, w) | Some f \<Rightarrow> (Inr (), f k w)))"

definition aws_ecc_key_pair_derive_public_key :: "('k, 'w) aws_ecc_key_pair_vtable \<Rightarrow> 'k \<Rightarrow>
    unit result \<times> 'k" where
  "aws_ecc_key_pair_derive_public_key vt k =
     (case vt_derive_pub_key vt of None \<Rightarrow> (Inl Fatal, k) | Some f \<Rightarrow> f k)"

definition aws_ecc_key_pair_sign_message :: "('k, 'w) aws_ecc_key_pair_vtable \<Rightarrow> 'k \<Rightarrow>
    aws_byte_cursor \<Rightarrow> aws_byte_buf \<Rightarrow> unit result \<times> aws_byte_buf" where
  "aws_ecc_key_pair_sign_message vt k message sig =
     (case vt_sign_message vt of None \<Rightarrow> (Inl Fatal, sig) | Some f \<Rightarrow> f k message sig)"

definition aws_ecc_key_pair_verify_signature :: "('k, 'w) aws_ecc_key_pair_vtable \<Rightarrow> 'k \<Rightarrow>
    aws_byte_cursor \<Rightarrow> aws_byte_cursor \<Rightarrow> unit result" where
  "aws_ecc_key_pair_verify_signature vt k message sig =
     (case vt_verify_signature vt of None \<Rightarrow> Inl Fatal | Some f \<Rightarrow> f k message sig)"

definition aws_ecc_key_pair_signature_length :: "('k, 'w) aws_ecc_key_pair_vtable \<Rightarrow> 'k \<Rightarrow> nat result" where
  "aws_ecc_key_pair_signature_length vt k =
     (case vt_signature_length vt of None \<Rightarrow> Inl Fatal | Some f \<Rightarrow> Inr (f k))"

definition aws_ecc_key_pair_get_public_key :: "'i aws_ecc_key_pair \<Rightarrow> aws_byte_cursor \<times> aws_byte_cursor" where
  "aws_ecc_key_pair_get_public_key k =
     (aws_byte_cursor_from_buf (pub_x k), aws_byte_cursor_from_buf (pub_y k))"

definition aws_ecc_key_pair_get_private_key :: "'i aws_ecc_key_pair \<Rightarrow> aws_byte_cursor" where
  "aws_ecc_key_pair_get_private_key k = aws_byte_cursor_from_buf (priv_d k)"

text \<open>Atomic add and subtract return the old value; the counter wraps as a \<open>size_t\<close> does.\<close>

definition aws_ecc_key_pair_acquire :: "'i aws_ecc_key_pair \<Rightarrow> 'i aws_ecc_key_pair" where
  "aws_ecc_key_pair_acquire k = k\<lparr>ref_count := ref_count k + 1\<rparr>"

definition aws_ecc_key_pair_release :: "('i aws_ecc_key_pair, 'w) aws_ecc_key_pair_vtable \<Rightarrow>
    'i aws_ecc_key_pair option \<Rightarrow> 'w \<Rightarrow> unit result \<times> 'i aws_ecc_key_pair option \<times> 'w" where
  "aws_ecc_key_pair_release vt key w = (case key of
       None \<Rightarrow> (Inr (), None, w)
     | Some k \<Rightarrow>
         let old_value = ref_count k; k' = k\<lparr>ref_count := ref_count k - 1\<rparr>
         in if old_value = 1
            then (case s_aws_ecc_key_pair_destroy vt (Some k') w of (r, w') \<Rightarrow> (r, Some k', w'))
            else (Inr (), Some k', w))"

section \<open>Keys from hexadecimal coordinates\<close>

record hex_ops =
  aws_hex_compute_decoded_len :: "nat \<Rightarrow> nat result"
  aws_hex_decode :: "aws_byte_cursor \<Rightarrow> aws_byte_buf \<Rightarrow> unit result \<times> aws_byte_buf"

text \<open>
  \<open>new_key\<close> is \<open>aws_ecc_key_pair_new_from_public_key\<close>. Both buffers are released on every path,
  so that only the key is left of a call.
\<close>

definition aws_ecc_key_new_from_hex_coordinates :: "aws_common \<Rightarrow> hex_ops \<Rightarrow>
    (aws_ecc_curve_name \<Rightarrow> aws_byte_cursor \<Rightarrow> aws_byte_cursor \<Rightarrow> 'k result) \<Rightarrow>
    aws_ecc_curve_name \<Rightarrow> aws_byte_cursor \<Rightarrow> aws_byte_cursor \<Rightarrow> 'k result" where
  "aws_ecc_key_new_from_hex_coordinates C H new_key curve x_hex y_hex =
     rbind (aws_hex_compute_decoded_len H (cur_len x_hex)) (\<lambda>pub_x_length.
     rbind (aws_hex_compute_decoded_len H (cur_len y_hex)) (\<lambda>pub_y_length.
     rbind (aws_byte_buf_init C pub_x_length) (\<lambda>pub_x_buffer.
     rbind (aws_byte_buf_init C pub_y_length) (\<lambda>pub_y_buffer.
       case aws_hex_decode H x_hex pub_x_buffer of
         (Inl f, _) \<Rightarrow> Inl f
       | (Inr _, pub_x_buffer) \<Rightarrow>
           (case aws_hex_decode H y_hex pub_y_buffer of
              (Inl f, _) \<Rightarrow> Inl f
            | (Inr _, pub_y_buffer) \<Rightarrow>
                new_key curve (aws_byte_cursor_from_buf pub_x_buffer)
                  (aws_byte_cursor_from_buf pub_y_buffer))))))"

end
