(* ===== verification/Ecc_Spec.thy ===== *)
theory Ecc_Spec
  imports Ecc
begin

text \<open>
  Properties of the platform-independent ECC code: curve names and object identifiers determine
  each other, loading a key pair returns the coordinates and the private key that a DER document
  contains, and a key pair is destroyed exactly once, by the release that drops the last
  reference.
\<close>

section \<open>Object identifiers\<close>

fun curve_oid :: "aws_ecc_curve_name \<Rightarrow> bytes option" where
  "curve_oid AWS_CAL_ECDSA_P256 = Some s_p256_oid"
| "curve_oid AWS_CAL_ECDSA_P384 = Some s_p384_oid"
| "curve_oid (Other_curve _) = None"

definition curve_of_oid :: "bytes \<Rightarrow> aws_ecc_curve_name option" where
  "curve_of_oid bs =
     (if bs = s_p256_oid then Some AWS_CAL_ECDSA_P256
      else if bs = s_p384_oid then Some AWS_CAL_ECDSA_P384 else None)"

lemma curve_of_oid_iff: "curve_of_oid bs = Some c \<longleftrightarrow> curve_oid c = Some bs"
  by (cases c) (auto simp: curve_of_oid_def s_p256_oid_def s_p384_oid_def)

lemma cursor_eq_bytes:
  assumes "common_spec C" and "bytes_at (ptr a) (cur_len a) = Inr bs"
  shows "cursor_eq C a (cursor_of ys) = Inr (bs = ys)"
proof (cases "cur_len a = length ys")
  case True
  have "aws_byte_cursor_eq C a (cursor_of ys) = (bs = ys)"
    by (rule cursor_eq_laws(2) [OF assms]) simp
  with True assms(2) show ?thesis by (simp add: cursor_eq_def)
next
  case False
  then have "\<not> aws_byte_cursor_eq C a (cursor_of ys)" by (intro cursor_eq_laws(1) [OF assms(1)]) simp
  moreover have "bs \<noteq> ys" using False bytes_at_length [OF assms(2)] by auto
  ultimately show ?thesis using False by (simp add: cursor_eq_def)
qed

lemma curve_name_from_oid:
  assumes "common_spec C" and "bytes_at (ptr oid) (cur_len oid) = Inr bs"
  shows "aws_ecc_curve_name_from_oid C oid =
    (case curve_of_oid bs of Some c \<Rightarrow> Inr c
     | None \<Rightarrow> Inl (Raised AWS_ERROR_CAL_UNKNOWN_OBJECT_IDENTIFIER))"
  by (simp add: aws_ecc_curve_name_from_oid_def cursor_eq_bytes [OF assms] curve_of_oid_def)

text \<open>
  Curve names and object identifiers determine each other: looking up the OID of a
  supported curve and then its name returns the curve, the name of an OID is a curve with that
  very OID, and every other OID or curve value is refused with its error.
\<close>

theorem curve_oid_round_trip:
  assumes "common_spec C" and "bytes_at (ptr oid) (cur_len oid) = Inr bs"
  shows "(\<forall>c cur. aws_ecc_oid_from_curve_name c = Inr cur \<longrightarrow> aws_ecc_curve_name_from_oid C cur = Inr c) \<and>
    (\<forall>c. aws_ecc_curve_name_from_oid C oid = Inr c \<longrightarrow>
       aws_ecc_oid_from_curve_name c = Inr (cursor_of bs)) \<and>
    ((\<forall>c. aws_ecc_oid_from_curve_name c \<noteq> Inr (cursor_of bs)) \<longrightarrow>
       aws_ecc_curve_name_from_oid C oid = Inl (Raised AWS_ERROR_CAL_UNKNOWN_OBJECT_IDENTIFIER)) \<and>
    (\<forall>i. aws_ecc_oid_from_curve_name (Other_curve i) = Inl (Raised AWS_ERROR_CAL_UNSUPPORTED_ALGORITHM))"
proof -
  have rt: "aws_ecc_curve_name_from_oid C (cursor_of b) =
      (case curve_of_oid b of Some c \<Rightarrow> Inr c
       | None \<Rightarrow> Inl (Raised AWS_ERROR_CAL_UNKNOWN_OBJECT_IDENTIFIER))" for b
    by (rule curve_name_from_oid [OF assms(1)]) simp
  have oid: "aws_ecc_oid_from_curve_name c =
      (case curve_oid c of Some b \<Rightarrow> Inr (cursor_of b)
       | None \<Rightarrow> Inl (Raised AWS_ERROR_CAL_UNSUPPORTED_ALGORITHM))" for c
    by (cases c) (simp_all add: aws_ecc_oid_from_curve_name_def)
  have fwd: "curve_oid c = Some b \<Longrightarrow> curve_of_oid b = Some c" for c b by (simp add: curve_of_oid_iff)
  have bwd: "curve_of_oid b = Some c \<Longrightarrow> curve_oid c = Some b" for c b by (simp add: curve_of_oid_iff)
  show ?thesis
  proof (intro conjI allI impI)
    show "aws_ecc_curve_name_from_oid C cur = Inr c" if "aws_ecc_oid_from_curve_name c = Inr cur" for c cur
      using that by (auto simp: rt oid dest!: fwd split: option.splits)
    show "aws_ecc_oid_from_curve_name c = Inr (cursor_of bs)" if "aws_ecc_curve_name_from_oid C oid = Inr c" for c
      using that by (auto simp: oid curve_name_from_oid [OF assms] dest!: bwd split: option.splits)
    show "aws_ecc_curve_name_from_oid C oid = Inl (Raised AWS_ERROR_CAL_UNKNOWN_OBJECT_IDENTIFIER)"
      if none: "\<forall>c. aws_ecc_oid_from_curve_name c \<noteq> Inr (cursor_of bs)"
    proof (cases "curve_of_oid bs")
      case (Some c)
      with none [THEN spec, of c] bwd [OF Some] show ?thesis by (simp add: oid)
    qed (simp add: curve_name_from_oid [OF assms])
  qed (simp add: oid)
qed

lemma curve_oid_round_trip_witness:
  "aws_ecc_curve_name_from_oid ref_common (cursor_of s_p384_oid) = Inr AWS_CAL_ECDSA_P384"
proof -
  have "aws_ecc_oid_from_curve_name AWS_CAL_ECDSA_P384 = Inr (cursor_of s_p384_oid)"
    by (simp add: aws_ecc_oid_from_curve_name_def)
  moreover have "bytes_at (ptr (cursor_of s_p384_oid)) (cur_len (cursor_of s_p384_oid)) = Inr s_p384_oid"
    by simp
  from curve_oid_round_trip [OF common_spec_ref this]
  have "\<forall>c cur. aws_ecc_oid_from_curve_name c = Inr cur \<longrightarrow> aws_ecc_curve_name_from_oid ref_common cur = Inr c"
    by (rule conjunct1)
  ultimately show ?thesis by blast
qed

section \<open>Loading a key pair\<close>

definition value_bytes :: "der_tlv \<Rightarrow> bytes result" where
  "value_bytes tlv = bytes_at (data_ptr (tlv_value tlv)) (unat (tlv_length tlv))"

text \<open>The effect of one TLV on the variables of the loop.\<close>

definition load_item :: "der_tlv \<Rightarrow> load_state \<Rightarrow> load_state" where
  "load_item tlv st =
     (if tag tlv = AWS_DER_OBJECT_IDENTIFIER then
        (case value_bytes tlv of
           Inl _ \<Rightarrow> st
         | Inr bs \<Rightarrow> (case curve_of_oid bs of None \<Rightarrow> st | Some c \<Rightarrow> st\<lparr>recognized := Some c\<rparr>))
      else if tag tlv = AWS_DER_BIT_STRING \<or> tag tlv = AWS_DER_OCTET_STRING
      then store_part (tlv_cursor tlv) st
      else st)"

lemma load_item_decoder [simp]: "ld_decoder (load_item tlv st) = ld_decoder st"
  by (auto simp: load_item_def store_part_def split: sum.splits option.splits)

lemma load_item_commute [simp]:
  "load_item tlv (st\<lparr>ld_decoder := d\<rparr>) = (load_item tlv st)\<lparr>ld_decoder := d\<rparr>"
  by (auto simp: load_item_def store_part_def split: sum.splits option.splits)

lemma fold_load_item_commute:
  "fold load_item ts (st\<lparr>ld_decoder := d\<rparr>) = (fold load_item ts st)\<lparr>ld_decoder := d\<rparr>"
  by (induction ts arbitrary: st) auto

lemma load_tlv_item:
  assumes C: "common_spec C" and L: "array_list_spec L" and i: "tlv_idx (ld_decoder st) = int i"
    and len: "i < length (al_items (tlvs (ld_decoder st)))" "length (al_items (tlvs (ld_decoder st))) < 2 ^ 31"
    and rd: "value_bytes (al_items (tlvs (ld_decoder st)) ! i) = Inr bs"
  shows "load_tlv C L st = Inr (load_item (al_items (tlvs (ld_decoder st)) ! i) st)"
proof -
  let ?t = "al_items (tlvs (ld_decoder st)) ! i"
  have s: "s_decoder_tlv L (ld_decoder st) = Inr ?t" by (rule decoder_tlv_at [OF L i len])
  have oid: "aws_ecc_curve_name_from_oid C (tlv_cursor ?t) =
    (case curve_of_oid bs of Some c \<Rightarrow> Inr c
     | None \<Rightarrow> Inl (Raised AWS_ERROR_CAL_UNKNOWN_OBJECT_IDENTIFIER))"
    by (rule curve_name_from_oid [OF C]) (use rd in \<open>simp add: tlv_cursor_def value_bytes_def\<close>)
  show ?thesis
    using rd oid
    by (auto simp: load_tlv_def load_item_def aws_der_decoder_tlv_type_def aws_der_decoder_tlv_blob_def
        aws_der_decoder_tlv_string_def s_tlv_to_blob_def s tlv_cursor_def Let_def split: option.splits)
qed

lemma load_loop_items:
  assumes C: "common_spec C" and L: "array_list_spec L"
  shows "al_items (tlvs (ld_decoder st)) = xs @ ys \<Longrightarrow> tlv_idx (ld_decoder st) = int (length xs) - 1 \<Longrightarrow>
    length (xs @ ys) < 2 ^ 31 \<Longrightarrow> \<forall>t \<in> set ys. \<exists>bs. value_bytes t = Inr bs \<Longrightarrow>
    \<exists>d. load_loop C L (length ys + 1) st = Inr ((fold load_item ys st)\<lparr>ld_decoder := d\<rparr>)"
proof (induction ys arbitrary: st xs)
  case Nil
  then show ?case by (auto simp: aws_der_decoder_next_def)
next
  case (Cons y ys)
  let ?d = "(ld_decoder st)\<lparr>tlv_idx := int (length xs)\<rparr>"
  let ?st = "st\<lparr>ld_decoder := ?d\<rparr>"
  have nxt: "aws_der_decoder_next (ld_decoder st) = Inr (True, ?d)"
    using Cons.prems by (simp add: aws_der_decoder_next_def)
  obtain bs where "value_bytes y = Inr bs" using Cons.prems(4) by auto
  then have "load_tlv C L ?st = Inr (load_item y ?st)"
    using load_tlv_item [OF C L, of ?st "length xs" bs] Cons.prems by simp
  moreover obtain d where "load_loop C L (length ys + 1) (load_item y ?st) =
      Inr ((fold load_item ys (load_item y ?st))\<lparr>ld_decoder := d\<rparr>)"
    using Cons.IH [of "load_item y ?st" "xs @ [y]"] Cons.prems by auto
  ultimately show ?case
    using nxt by (auto simp: fold_load_item_commute simp del: load_loop.simps(2)
        simp: load_loop.simps(2) [of C L "Suc (length ys)"])
qed

text \<open>The loop as a whole, from a decoder just created.\<close>

lemma load_key_items:
  assumes "common_spec C" and "array_list_spec L" and "tlv_idx dec = -1"
    and "length (al_items (tlvs dec)) < 2 ^ 31" and "\<forall>t \<in> set (al_items (tlvs dec)). \<exists>bs. value_bytes t = Inr bs"
  shows "\<exists>d. aws_der_decoder_load_ecc_key_pair C L dec = select_key_parts C
    ((fold load_item (al_items (tlvs dec)) \<lparr>ld_decoder = dec, pair_part_1 = null_cursor,
        pair_part_2 = null_cursor, current_is_2 = False, recognized = None\<rparr>)\<lparr>ld_decoder := d\<rparr>)"
  using load_loop_items [OF assms(1,2), of "\<lparr>ld_decoder = dec, pair_part_1 = null_cursor,
        pair_part_2 = null_cursor, current_is_2 = False, recognized = None\<rparr>" "[]" "al_items (tlvs dec)"] assms(3-5)
  by (auto simp: aws_der_decoder_load_ecc_key_pair_def simp del: load_loop.simps)

lemma bytes_at_append:
  assumes "bytes_at p (length (xs @ ys)) = Inr (xs @ ys)"
  shows "bytes_at p (length xs) = Inr xs" and "bytes_at (ptr_add p (length xs)) (length ys) = Inr ys"
proof -
  consider "xs @ ys = []" | q where "p = Some q" "poff q + length (xs @ ys) \<le> length (pobj q)"
      "take (length (xs @ ys)) (drop (poff q) (pobj q)) = xs @ ys"
    using assms by (auto simp: bytes_at_def split: if_splits option.splits)
  then have "bytes_at p (length xs) = Inr xs \<and> bytes_at (ptr_add p (length xs)) (length ys) = Inr ys"
  proof cases
    case (2 q)
    have "take (length xs) (drop (poff q) (pobj q)) =
        take (length xs) (take (length (xs @ ys)) (drop (poff q) (pobj q)))" by simp
    also have "\<dots> = xs" unfolding 2(3) by simp
    finally have "take (length xs) (drop (poff q) (pobj q)) = xs" .
    moreover have "take (length ys) (drop (length xs) (drop (poff q) (pobj q))) =
        drop (length xs) (take (length (xs @ ys)) (drop (poff q) (pobj q)))" by (simp add: take_drop ac_simps)
    then have "take (length ys) (drop (poff q + length xs) (pobj q)) = ys"
      unfolding 2(3) by (simp add: add.commute)
    ultimately show ?thesis using 2(1,2) by (simp add: bytes_at_def ptr_add_def)
  qed simp
  then show "bytes_at p (length xs) = Inr xs" and "bytes_at (ptr_add p (length xs)) (length ys) = Inr ys"
    by simp_all
qed

text \<open>An EC private key document (RFC 5915): version, private key, curve, and the uncompressed
  public point as a BIT STRING without unused bits.\<close>

definition ec_private_key :: "bytes \<Rightarrow> bytes \<Rightarrow> bytes \<Rightarrow> bytes \<Rightarrow> der_tree" where
  "ec_private_key oid d x y =
     Node AWS_DER_SEQUENCE [Leaf AWS_DER_INTEGER [1], Leaf AWS_DER_OCTET_STRING d,
       Node 0xa0 [Leaf AWS_DER_OBJECT_IDENTIFIER oid],
       Node 0xa1 [Leaf AWS_DER_BIT_STRING (0 # 0x04 # x @ y)]]"

text \<open>A public key document (RFC 5480): the algorithm and curve identifiers and the point.\<close>

definition ec_public_key :: "bytes \<Rightarrow> bytes \<Rightarrow> bytes \<Rightarrow> bytes \<Rightarrow> der_tree" where
  "ec_public_key alg oid x y =
     Node AWS_DER_SEQUENCE [Node AWS_DER_SEQUENCE [Leaf AWS_DER_OBJECT_IDENTIFIER alg,
         Leaf AWS_DER_OBJECT_IDENTIFIER oid],
       Leaf AWS_DER_BIT_STRING (0 # 0x04 # x @ y)]"

abbreviation coord_size :: "aws_ecc_curve_name \<Rightarrow> nat" where
  "coord_size \<equiv> aws_ecc_key_coordinate_byte_size_from_curve_name"

lemma curve_oid_size:
  assumes "curve_oid c = Some oid"
  shows "coord_size c \<in> {32, 48}" and "length oid \<le> 8"
  using assms by (cases c; auto simp: aws_ecc_key_coordinate_byte_size_from_curve_name_def
      s_p256_oid_def s_p384_oid_def)+

lemma length_der_frame_le: "length (der_frame t b) \<le> length b + 6"
  by (simp add: der_frame_def der_length_bytes_def)

lemma views_items:
  assumes "views dec = vs" and "\<forall>v \<in> set vs. \<exists>bs. snd (snd v) = Inr bs"
  shows "\<forall>t \<in> set (al_items (tlvs dec)). \<exists>bs. value_bytes t = Inr bs"
  using assms by (auto simp: views_def view_def value_bytes_def)

text \<open>A public point splits into its two coordinates.\<close>

lemma split_point:
  assumes C: "common_spec C" and b: "bytes_at (ptr cur) (cur_len cur) = Inr (t # x @ y)"
    and len: "length x = n" "length y = n" "n < 2 ^ 32"
  shows "bytes_at (ptr (snd (aws_byte_cursor_advance C cur 1))) n = Inr x"
    and "bytes_at (ptr_add (ptr (snd (aws_byte_cursor_advance C cur 1))) n) n = Inr y"
proof -
  have cl: "cur_len cur = length ([t] @ x @ y)" using bytes_at_length [OF b] by simp
  have "cur_len cur \<le> SIZE_MAX div 2" using cl len by simp
  then have adv: "ptr (snd (aws_byte_cursor_advance C cur 1)) = ptr_add (ptr cur) 1"
    using cl by (simp add: advance_law [OF C] cur_drop_def)
  have "bytes_at (ptr cur) (length ([t] @ x @ y)) = Inr ([t] @ x @ y)" using b cl by simp
  from bytes_at_append(2) [OF this] have "bytes_at (ptr_add (ptr cur) 1) (length (x @ y)) = Inr (x @ y)"
    by simp
  from bytes_at_append [OF this] show "bytes_at (ptr (snd (aws_byte_cursor_advance C cur 1))) n = Inr x"
    and "bytes_at (ptr_add (ptr (snd (aws_byte_cursor_advance C cur 1))) n) n = Inr y"
    unfolding adv using len by simp_all
qed

lemma bytes_at_nonnull: "bytes_at p n = Inr bs \<Longrightarrow> 0 < n \<Longrightarrow> p \<noteq> None"
  by (auto simp: bytes_at_def split: option.splits)

lemma tlv_cursor_view:
  assumes "view t = (tg, c, Inr bs)"
  shows "tag t = tg" and "value_bytes t = Inr bs" and "cur_len (tlv_cursor t) = length bs"
    and "bytes_at (ptr (tlv_cursor t)) (cur_len (tlv_cursor t)) = Inr bs"
    and "bs \<noteq> [] \<Longrightarrow> ptr (tlv_cursor t) \<noteq> None"
proof -
  have b: "bytes_at (data_ptr (tlv_value t)) (unat (tlv_length t)) = Inr bs"
    using assms by (simp add: view_def)
  show "tag t = tg" "value_bytes t = Inr bs"
    using assms by (simp_all add: view_def value_bytes_def)
  show len: "cur_len (tlv_cursor t) = length bs"
    using bytes_at_length [OF b] by (simp add: tlv_cursor_def)
  show "bytes_at (ptr (tlv_cursor t)) (cur_len (tlv_cursor t)) = Inr bs"
    using b by (simp add: tlv_cursor_def)
  show "ptr (tlv_cursor t) \<noteq> None" if "bs \<noteq> []"
    using bytes_at_nonnull [OF b] len that by (simp add: tlv_cursor_def)
qed

lemma load_private_key_doc:
  assumes C: "common_spec C" and L: "array_list_spec L" and c: "curve_oid c = Some oid"
    and len: "length d = coord_size c" "length x = coord_size c" "length y = coord_size c"
  shows "\<exists>dec k. aws_der_decoder_new C L (cursor_of (tree_bytes (ec_private_key oid d x y))) = Inr dec \<and>
    aws_der_decoder_load_ecc_key_pair C L dec = Inr k \<and> out_curve_name k = c \<and>
    bytes_at (ptr (out_private_d k)) (cur_len (out_private_d k)) = Inr d \<and>
    bytes_at (ptr (out_public_x_coor k)) (cur_len (out_public_x_coor k)) = Inr x \<and>
    bytes_at (ptr (out_public_y_coor k)) (cur_len (out_public_y_coor k)) = Inr y"
proof -
  let ?n = "coord_size c"
  let ?t = "ec_private_key oid d x y"
  note sz = curve_oid_size [OF c]
  have n: "?n \<le> 48" "0 < ?n" using sz(1) by auto
  have small: "length (tree_bytes ?t) < 2 ^ 32"
    using n(1) sz(2) len by (simp add: ec_private_key_def der_frame_def der_length_bytes_def)
  have ok: "tree_ok ?t" by (simp add: ec_private_key_def leaf_ok_def)
  obtain dec where dec: "aws_der_decoder_new C L (cursor_of (tree_bytes ?t)) = Inr dec" "tlv_idx dec = -1"
      "views dec = tree_view ?t"
    using decode_forest_new [OF C L, of "cursor_of (tree_bytes ?t)" "[?t]"] small ok
    by (auto simp: ec_private_key_def)
  obtain t1 t2 t3 t4 t5 t6 t7 where items: "al_items (tlvs dec) = [t1, t2, t3, t4, t5, t6, t7]"
      and v: "view t1 = (AWS_DER_SEQUENCE, 4, Inr (forest_bytes (children ?t)))"
        "view t2 = (AWS_DER_INTEGER, 0, Inr [1])" "view t3 = (AWS_DER_OCTET_STRING, 0, Inr d)"
        "view t4 = (0xa0, 1, Inr (der_frame AWS_DER_OBJECT_IDENTIFIER oid))"
        "view t5 = (AWS_DER_OBJECT_IDENTIFIER, 0, Inr oid)"
        "view t6 = (0xa1, 1, Inr (der_frame AWS_DER_BIT_STRING (0 # 0x04 # x @ y)))"
        "view t7 = (AWS_DER_BIT_STRING, 0, Inr (0x04 # x @ y))"
    using dec(3) by (auto simp: views_def ec_private_key_def leaf_value_def map_eq_Cons_conv)
  have rd: "\<forall>t \<in> set (al_items (tlvs dec)). \<exists>bs. value_bytes t = Inr bs"
    using items v by (auto intro: tlv_cursor_view(2))
  obtain e where load: "aws_der_decoder_load_ecc_key_pair C L dec = select_key_parts C
      \<lparr>ld_decoder = e, pair_part_1 = tlv_cursor t3, pair_part_2 = tlv_cursor t7, current_is_2 = True,
       recognized = Some c\<rparr>"
    using load_key_items [OF C L dec(2) _ rd] items tlv_cursor_view(1) [OF v(1)] tlv_cursor_view(1) [OF v(2)]
      tlv_cursor_view(1) [OF v(3)] tlv_cursor_view(1) [OF v(4)] tlv_cursor_view(1,2) [OF v(5)]
      tlv_cursor_view(1) [OF v(6)] tlv_cursor_view(1) [OF v(7)] c
    by (auto simp: load_item_def store_part_def curve_of_oid_iff [THEN iffD2])
  note p = tlv_cursor_view(3,4,5) [OF v(3)] and q = tlv_cursor_view(3,4,5) [OF v(7)]
  have "d \<noteq> []" using len(1) n(2) by auto
  with load p q len n show ?thesis
    using split_point [OF C q(2), of ?n] dec(1)
    by (simp add: select_key_parts_def part_of_length_def get_part_def Let_def)
qed

text \<open>
  Claim C18. Loading an EC private key document: decoding it and loading the key pair succeeds and
  returns the curve of the document, and cursors over exactly the private key and the two
  coordinates it contains.
\<close>

theorem load_ec_private_key:
  assumes C: "common_spec C" and L: "array_list_spec L" and c: "curve_oid c = Some oid"
    and len: "length d = coord_size c" "length x = coord_size c" "length y = coord_size c"
  shows "\<exists>dec k. aws_der_decoder_new C L (cursor_of (tree_bytes (ec_private_key oid d x y))) = Inr dec \<and>
    aws_der_decoder_load_ecc_key_pair C L dec = Inr k \<and> out_curve_name k = c \<and>
    bytes_at (ptr (out_private_d k)) (cur_len (out_private_d k)) = Inr d \<and>
    bytes_at (ptr (out_public_x_coor k)) (cur_len (out_public_x_coor k)) = Inr x \<and>
    bytes_at (ptr (out_public_y_coor k)) (cur_len (out_public_y_coor k)) = Inr y"
  using load_private_key_doc [OF assms] .

lemma load_ec_private_key_witness:
  "\<exists>dec k. aws_der_decoder_new ref_common ref_array_list (cursor_of (tree_bytes
      (ec_private_key s_p256_oid (replicate 32 1) (replicate 32 2) (replicate 32 3)))) = Inr dec \<and>
    aws_der_decoder_load_ecc_key_pair ref_common ref_array_list dec = Inr k \<and>
    out_curve_name k = AWS_CAL_ECDSA_P256 \<and>
    bytes_at (ptr (out_private_d k)) (cur_len (out_private_d k)) = Inr (replicate 32 1) \<and>
    bytes_at (ptr (out_public_x_coor k)) (cur_len (out_public_x_coor k)) = Inr (replicate 32 2) \<and>
    bytes_at (ptr (out_public_y_coor k)) (cur_len (out_public_y_coor k)) = Inr (replicate 32 3)"
  by (rule load_ec_private_key [OF common_spec_ref array_list_spec_ref])
    (simp_all only: curve_oid.simps length_replicate
      aws_ecc_key_coordinate_byte_size_from_curve_name_def aws_ecc_curve_name.case)

lemma load_public_key_doc:
  assumes C: "common_spec C" and L: "array_list_spec L" and c: "curve_oid c = Some oid"
    and len: "length x = coord_size c" "length y = coord_size c" and alg: "length alg < 2 ^ 16"
  shows "\<exists>dec k. aws_der_decoder_new C L (cursor_of (tree_bytes (ec_public_key alg oid x y))) = Inr dec \<and>
    aws_der_decoder_load_ecc_key_pair C L dec = Inr k \<and> out_curve_name k = c \<and>
    out_private_d k = null_cursor \<and>
    bytes_at (ptr (out_public_x_coor k)) (cur_len (out_public_x_coor k)) = Inr x \<and>
    bytes_at (ptr (out_public_y_coor k)) (cur_len (out_public_y_coor k)) = Inr y"
proof -
  let ?n = "coord_size c"
  let ?t = "ec_public_key alg oid x y"
  note sz = curve_oid_size [OF c]
  have n: "?n \<le> 48" "0 < ?n" using sz(1) by auto
  have small: "length (tree_bytes ?t) < 2 ^ 32"
    using n(1) sz(2) len alg by (simp add: ec_public_key_def der_frame_def der_length_bytes_def)
  have ok: "tree_ok ?t" by (simp add: ec_public_key_def leaf_ok_def)
  obtain dec where dec: "aws_der_decoder_new C L (cursor_of (tree_bytes ?t)) = Inr dec" "tlv_idx dec = -1"
      "views dec = tree_view ?t"
    using decode_forest_new [OF C L, of "cursor_of (tree_bytes ?t)" "[?t]"] small ok
    by (auto simp: ec_public_key_def)
  obtain t1 t2 t3 t4 t5 b1 b2 where items: "al_items (tlvs dec) = [t1, t2, t3, t4, t5]"
      and v: "view t1 = (AWS_DER_SEQUENCE, 2, Inr b1)" "view t2 = (AWS_DER_SEQUENCE, 2, Inr b2)"
        "view t3 = (AWS_DER_OBJECT_IDENTIFIER, 0, Inr alg)"
        "view t4 = (AWS_DER_OBJECT_IDENTIFIER, 0, Inr oid)"
        "view t5 = (AWS_DER_BIT_STRING, 0, Inr (0x04 # x @ y))"
    using dec(3) by (auto simp: views_def ec_public_key_def leaf_value_def map_eq_Cons_conv)
  have rd: "\<forall>t \<in> set (al_items (tlvs dec)). \<exists>bs. value_bytes t = Inr bs"
    using items v by (auto intro: tlv_cursor_view(2))
  obtain e where load: "aws_der_decoder_load_ecc_key_pair C L dec = select_key_parts C
      \<lparr>ld_decoder = e, pair_part_1 = tlv_cursor t5, pair_part_2 = null_cursor, current_is_2 = True,
       recognized = Some c\<rparr>"
    using load_key_items [OF C L dec(2) _ rd] items tlv_cursor_view(1) [OF v(1)] tlv_cursor_view(1) [OF v(2)]
      tlv_cursor_view(1,2) [OF v(3)] tlv_cursor_view(1,2) [OF v(4)] tlv_cursor_view(1) [OF v(5)] c
    by (cases "curve_of_oid alg")
      (auto simp: load_item_def store_part_def curve_of_oid_iff [THEN iffD2])
  note q = tlv_cursor_view(3,4,5) [OF v(5)]
  from load q len n show ?thesis
    using split_point [OF C q(2), of ?n] dec(1)
    by (simp add: select_key_parts_def part_of_length_def get_part_def Let_def null_cursor_def)
qed

text \<open>
  Loading a public key document: the coordinates and the curve are those of the
  document, whatever other object identifier precedes the curve's, and there is no private key.
\<close>

theorem load_ec_public_key:
  assumes C: "common_spec C" and L: "array_list_spec L" and c: "curve_oid c = Some oid"
    and len: "length x = coord_size c" "length y = coord_size c" and alg: "length alg < 2 ^ 16"
  shows "\<exists>dec k. aws_der_decoder_new C L (cursor_of (tree_bytes (ec_public_key alg oid x y))) = Inr dec \<and>
    aws_der_decoder_load_ecc_key_pair C L dec = Inr k \<and> out_curve_name k = c \<and>
    out_private_d k = null_cursor \<and>
    bytes_at (ptr (out_public_x_coor k)) (cur_len (out_public_x_coor k)) = Inr x \<and>
    bytes_at (ptr (out_public_y_coor k)) (cur_len (out_public_y_coor k)) = Inr y"
  using load_public_key_doc [OF assms] .

lemma load_ec_public_key_witness:
  "\<exists>dec k. aws_der_decoder_new ref_common ref_array_list (cursor_of (tree_bytes
      (ec_public_key [0x2a, 0x86] s_p384_oid (replicate 48 2) (replicate 48 3)))) = Inr dec \<and>
    aws_der_decoder_load_ecc_key_pair ref_common ref_array_list dec = Inr k \<and>
    out_curve_name k = AWS_CAL_ECDSA_P384 \<and> out_private_d k = null_cursor \<and>
    bytes_at (ptr (out_public_x_coor k)) (cur_len (out_public_x_coor k)) = Inr (replicate 48 2) \<and>
    bytes_at (ptr (out_public_y_coor k)) (cur_len (out_public_y_coor k)) = Inr (replicate 48 3)"
  by (rule load_ec_public_key [OF common_spec_ref array_list_spec_ref])
    (simp_all add: aws_ecc_key_coordinate_byte_size_from_curve_name_def)

lemma recognized_fold:
  assumes "\<forall>t \<in> set ts. tag t = AWS_DER_OBJECT_IDENTIFIER \<longrightarrow> (\<exists>bs. value_bytes t = Inr bs \<and> curve_of_oid bs = None)"
  shows "recognized (fold load_item ts st) = recognized st"
  using assms
proof (induction ts arbitrary: st)
  case (Cons t ts)
  then have "recognized (load_item t st) = recognized st"
    by (auto simp: load_item_def store_part_def)
  with Cons show ?case by simp
qed simp

text \<open>The parts the loop stores are TLVs of the document or empty.\<close>

lemma parts_fold:
  assumes "P (pair_part_1 st)" and "P (pair_part_2 st)"
    and "\<forall>t \<in> set ts. tag t = AWS_DER_BIT_STRING \<or> tag t = AWS_DER_OCTET_STRING \<longrightarrow> P (tlv_cursor t)"
  shows "P (pair_part_1 (fold load_item ts st)) \<and> P (pair_part_2 (fold load_item ts st))"
  using assms
proof (induction ts arbitrary: st)
  case (Cons t ts)
  have "P (pair_part_1 (load_item t st)) \<and> P (pair_part_2 (load_item t st))"
    using Cons.prems by (auto simp: load_item_def store_part_def split: sum.splits option.splits)
  with Cons show ?case by simp
qed simp

lemma recognized_known:
  "recognized st \<in> {None, Some AWS_CAL_ECDSA_P256, Some AWS_CAL_ECDSA_P384} \<Longrightarrow>
     recognized (fold load_item ts st) \<in> {None, Some AWS_CAL_ECDSA_P256, Some AWS_CAL_ECDSA_P384}"
proof (induction ts arbitrary: st)
  case (Cons t ts)
  then have "recognized (load_item t st) \<in> {None, Some AWS_CAL_ECDSA_P256, Some AWS_CAL_ECDSA_P384}"
    by (auto simp: load_item_def store_part_def curve_of_oid_def split: sum.splits)
  then show ?case using Cons.IH by simp
qed simp

lemma select_wrong_lengths:
  assumes "cur_len (pair_part_1 st) \<notin> {32, 48, 65, 97}" and "cur_len (pair_part_2 st) \<notin> {32, 48, 65, 97}"
    and "recognized st \<in> {None, Some AWS_CAL_ECDSA_P256, Some AWS_CAL_ECDSA_P384}"
  shows "select_key_parts C st \<in> {Inl (Raised AWS_ERROR_CAL_UNKNOWN_OBJECT_IDENTIFIER),
    Inl (Raised AWS_ERROR_CAL_MISSING_REQUIRED_KEY_COMPONENT)}"
  using assms by (auto simp: select_key_parts_def part_of_length_def Let_def
      aws_ecc_key_coordinate_byte_size_from_curve_name_def)

lemma part_of_length_frame: "part_of_length n (st\<lparr>ld_decoder := d\<rparr>) = part_of_length n st"
  by (simp add: part_of_length_def cong: if_cong)

lemma get_part_frame: "get_part (st\<lparr>ld_decoder := d\<rparr>) p = get_part st p"
  by (simp add: get_part_def split: part.splits)

text \<open>
  Errors of loading: a document without the OID of a supported curve is refused with
  AWS_ERROR_CAL_UNKNOWN_OBJECT_IDENTIFIER, and one in which no BIT STRING or OCTET STRING has the
  length of a private key or an uncompressed point of a supported curve is refused, with that
  error or with AWS_ERROR_CAL_MISSING_REQUIRED_KEY_COMPONENT. No document is both readable and
  left without an answer: the loop always ends.
\<close>

theorem load_key_errors:
  assumes C: "common_spec C" and L: "array_list_spec L" and idx: "tlv_idx dec = -1"
    and len: "length (al_items (tlvs dec)) < 2 ^ 31"
    and rd: "\<forall>t \<in> set (al_items (tlvs dec)). \<exists>bs. value_bytes t = Inr bs"
  shows "((\<forall>t \<in> set (al_items (tlvs dec)). tag t = AWS_DER_OBJECT_IDENTIFIER \<longrightarrow>
        (\<forall>bs. value_bytes t = Inr bs \<longrightarrow> curve_of_oid bs = None)) \<longrightarrow>
      aws_der_decoder_load_ecc_key_pair C L dec = Inl (Raised AWS_ERROR_CAL_UNKNOWN_OBJECT_IDENTIFIER)) \<and>
    ((\<forall>t \<in> set (al_items (tlvs dec)). tag t \<in> {AWS_DER_BIT_STRING, AWS_DER_OCTET_STRING} \<longrightarrow>
        unat (tlv_length t) \<notin> {32, 48, 65, 97}) \<longrightarrow>
      aws_der_decoder_load_ecc_key_pair C L dec \<in> {Inl (Raised AWS_ERROR_CAL_UNKNOWN_OBJECT_IDENTIFIER),
        Inl (Raised AWS_ERROR_CAL_MISSING_REQUIRED_KEY_COMPONENT)}) \<and>
    aws_der_decoder_load_ecc_key_pair C L dec \<noteq> Inl Out_of_fuel"
proof -
  let ?st = "\<lparr>ld_decoder = dec, pair_part_1 = null_cursor, pair_part_2 = null_cursor,
    current_is_2 = False, recognized = None\<rparr>"
  let ?P = "\<lambda>c. cur_len c \<notin> {32, 48, 65, 97}"
  obtain e where run: "aws_der_decoder_load_ecc_key_pair C L dec =
      select_key_parts C ((fold load_item (al_items (tlvs dec)) ?st)\<lparr>ld_decoder := e\<rparr>)"
    using load_key_items [OF C L idx len rd] by blast
  have sel: "select_key_parts C (s\<lparr>ld_decoder := e\<rparr>) = select_key_parts C s" for s
    unfolding select_key_parts_def part_of_length_frame get_part_frame by simp
  show ?thesis
  proof (intro conjI impI)
    assume "\<forall>t \<in> set (al_items (tlvs dec)). tag t = AWS_DER_OBJECT_IDENTIFIER \<longrightarrow>
        (\<forall>bs. value_bytes t = Inr bs \<longrightarrow> curve_of_oid bs = None)"
    with rd have "recognized (fold load_item (al_items (tlvs dec)) ?st) = None"
      using recognized_fold [of "al_items (tlvs dec)" ?st] by (metis load_state.select_convs(5))
    then show "aws_der_decoder_load_ecc_key_pair C L dec = Inl (Raised AWS_ERROR_CAL_UNKNOWN_OBJECT_IDENTIFIER)"
      by (simp add: run select_key_parts_def)
  next
    assume "\<forall>t \<in> set (al_items (tlvs dec)). tag t \<in> {AWS_DER_BIT_STRING, AWS_DER_OCTET_STRING} \<longrightarrow>
        unat (tlv_length t) \<notin> {32, 48, 65, 97}"
    then have "?P (pair_part_1 (fold load_item (al_items (tlvs dec)) ?st)) \<and>
        ?P (pair_part_2 (fold load_item (al_items (tlvs dec)) ?st))"
      by (intro parts_fold) (auto simp: null_cursor_def tlv_cursor_def)
    then show "aws_der_decoder_load_ecc_key_pair C L dec \<in>
        {Inl (Raised AWS_ERROR_CAL_UNKNOWN_OBJECT_IDENTIFIER),
         Inl (Raised AWS_ERROR_CAL_MISSING_REQUIRED_KEY_COMPONENT)}"
      using recognized_known [of ?st "al_items (tlvs dec)"] unfolding run sel
      by (intro select_wrong_lengths) simp_all
  next
    show "aws_der_decoder_load_ecc_key_pair C L dec \<noteq> Inl Out_of_fuel"
      by (auto simp: run select_key_parts_def Let_def split: option.splits)
  qed
qed

lemma load_key_errors_witness:
  "aws_der_decoder_load_ecc_key_pair ref_common ref_array_list (sample_decoder\<lparr>tlv_idx := -1\<rparr>) =
     Inl (Raised AWS_ERROR_CAL_UNKNOWN_OBJECT_IDENTIFIER)"
  using load_key_errors [OF common_spec_ref array_list_spec_ref, of "sample_decoder\<lparr>tlv_idx := -1\<rparr>"]
  by (simp add: sample_decoder_def value_bytes_def bytes_at_def)

section \<open>Reference counting\<close>

text \<open>
  The atomic operations of all holders of a key pair in the order in which they take effect, and
  the number of references held after them: only a holder acquires or releases, and nobody holds
  more references than a \<open>size_t\<close> counts.
\<close>

datatype rc_op = Acquire | Release

primrec run_rc :: "('i aws_ecc_key_pair, 'w) aws_ecc_key_pair_vtable \<Rightarrow> rc_op list \<Rightarrow>
    'i aws_ecc_key_pair \<Rightarrow> 'w \<Rightarrow> ('i aws_ecc_key_pair \<times> 'w) result" where
  "run_rc vt [] k w = Inr (k, w)"
| "run_rc vt (x # ops) k w = (case x of
       Acquire \<Rightarrow> run_rc vt ops (aws_ecc_key_pair_acquire k) w
     | Release \<Rightarrow> (case aws_ecc_key_pair_release vt (Some k) w of
           (Inr _, Some k', w') \<Rightarrow> run_rc vt ops k' w'
         | (Inr _, None, w') \<Rightarrow> Inl (Undefined Null_deref)
         | (Inl f, _, _) \<Rightarrow> Inl f))"

fun held :: "nat \<Rightarrow> rc_op list \<Rightarrow> nat option" where
  "held n [] = Some n"
| "held n (Acquire # ops) = (if 0 < n \<and> Suc n < 2 ^ 64 then held (Suc n) ops else None)"
| "held n (Release # ops) = (if 0 < n then held (n - 1) ops else None)"

lemma held_0: "held 0 ops = Some m \<Longrightarrow> ops = [] \<and> m = 0"
  by (cases ops rule: list.exhaust) (auto split: if_splits elim: held.elims)

text \<open>
  Claim C39. Reference counting: for every order of acquires and releases by holders of the key
  pair, the counter is the number of references held, the vtable's destroy function runs exactly
  when that number reaches zero, once, and as the last thing done with the key pair.
\<close>

theorem release_destroys_once:
  assumes "vt_destroy vt = Some f" and "0 < n" and "n < 2 ^ 64" and "ref_count k = word_of_nat n"
    and "held n ops = Some m"
  shows "\<exists>k'. ref_count k' = word_of_nat m \<and>
    run_rc vt ops k w = Inr (k', if m = 0 then f k' w else w)"
  using assms
proof (induction ops arbitrary: n k)
  case Nil
  then show ?case by simp
next
  case (Cons x ops)
  show ?case
  proof (cases x)
    case Acquire
    with Cons.prems Cons.IH [of "Suc n" "aws_ecc_key_pair_acquire k"] show ?thesis
      by (auto simp: aws_ecc_key_pair_acquire_def add.commute split: if_splits)
  next
    case Release
    let ?k = "k\<lparr>ref_count := ref_count k - 1\<rparr>"
    have "unat (ref_count k) = n" using Cons.prems(3,4) by (simp add: unat_of_nat)
    then have one: "ref_count k = 1 \<longleftrightarrow> n = 1" by (metis unat_1 word_unat_eq_iff)
    have dec: "ref_count ?k = word_of_nat (n - 1)" using Cons.prems(2,4) by (simp add: of_nat_diff)
    show ?thesis
    proof (cases "n = 1")
      case True
      with Cons.prems Release held_0 have "ops = []" "m = 0" by auto
      with True one dec Release Cons.prems show ?thesis
        by (auto simp: aws_ecc_key_pair_release_def s_aws_ecc_key_pair_destroy_def Let_def)
    next
      case False
      with Cons.prems Release one dec Cons.IH [of "n - 1" ?k] show ?thesis
        by (simp add: aws_ecc_key_pair_release_def Let_def)
    qed
  qed
qed

definition sample_key :: "unit aws_ecc_key_pair" where
  "sample_key = \<lparr>ref_count = 1, curve_name = AWS_CAL_ECDSA_P256, key_buf = zero_buf, pub_x = zero_buf,
     pub_y = zero_buf, priv_d = zero_buf, impl = ()\<rparr>"

lemma release_destroys_once_witness:
  "\<exists>k'. ref_count k' = 0 \<and>
     run_rc \<lparr>vt_destroy = Some (\<lambda>_ w. Suc w), vt_derive_pub_key = None, vt_sign_message = None,
        vt_verify_signature = None, vt_signature_length = None\<rparr> [Acquire, Release, Release] sample_key 0 =
       Inr (k', 1)"
  using release_destroys_once [of "\<lparr>vt_destroy = Some (\<lambda>_ w. Suc w), vt_derive_pub_key = None,
      vt_sign_message = None, vt_verify_signature = None, vt_signature_length = None\<rparr>"
      "\<lambda>_ w. Suc w" 1 sample_key "[Acquire, Release, Release]" 0 0]
  by (simp add: sample_key_def)

end
