(* ===== verification/Digest.thy ===== *)
theory Digest
  imports Aws_Common
begin

text \<open>
  What hashes and HMACs share. \<^verbatim>\<open>source/hash.c\<close> and \<^verbatim>\<open>source/hmac.c\<close> contain the same code for
  truncating a digest and for the one-shot computations, over the functions of a vtable; it is
  modelled once here and instantiated in the theories of the two components.

  The locale \<open>digest\<close> is the contract between that code and an implementation: an object has
  been fed a message or is spent, feeding extends the message, finalizing appends the digest of
  the message and spends the object, and a spent object refuses everything. The client's
  properties are proved from the contract.
\<close>

section \<open>Raw stores into a buffer\<close>

text \<open>A store of bytes behind the contents of a buffer, which does not change its length.\<close>

definition poke :: "aws_byte_buf \<Rightarrow> bytes \<Rightarrow> aws_byte_buf result" where
  "poke b bs =
     (if bs = [] then Inr b
      else case buffer b of
        None \<Rightarrow> Inl (Undefined Null_deref)
      | Some m \<Rightarrow> if buf_len b + length bs \<le> length m
                   then Inr (b\<lparr>buffer := Some (overwrite (buf_len b) bs m)\<rparr>)
                   else Inl (Undefined Out_of_bounds))"

definition add_len :: "nat \<Rightarrow> aws_byte_buf \<Rightarrow> aws_byte_buf" where
  "add_len n b = b\<lparr>buf_len := buf_len b + n\<rparr>"

definition buf_room :: "aws_byte_buf \<Rightarrow> nat" where
  "buf_room b = size_sub (capacity b) (buf_len b)"

lemma buf_room_valid [simp]: "valid_buf b \<Longrightarrow> buf_room b = room b"
  by (simp add: buf_room_def room_def valid_buf_def)

lemma poke_appends:
  assumes v: "valid_buf b" and r: "length bs \<le> room b"
  obtains b1 where "poke b bs = Inr b1" "appends b bs (Some (add_len (length bs) b1))"
    "buf_len b1 = buf_len b"
proof (cases "bs = []")
  case True
  with v show ?thesis by (intro that [of b]) (simp_all add: poke_def appends_def add_len_def)
next
  case False
  with v r obtain m where m: "buffer b = Some m" "length m = capacity b"
    by (cases "buffer b") (auto simp: valid_buf_def room_def)
  with v r have fit: "buf_len b + length bs \<le> length m" by (auto simp: valid_buf_def room_def)
  with False m v r show ?thesis
    by (intro that [of "b\<lparr>buffer := Some (overwrite (buf_len b) bs m)\<rparr>"])
      (simp_all add: poke_def appends_def add_len_def valid_buf_def contents_def room_def)
qed

section \<open>Truncated and one-shot digests\<close>

text \<open>The 128-byte array on the stack that receives a digest before it is truncated.\<close>

definition tmp_out_buf :: aws_byte_buf where
  "tmp_out_buf = \<lparr>buf_len = 0, buffer = Some (replicate 128 0), capacity = 128, allocator = False\<rparr>"

definition digest_finalize :: "('h \<Rightarrow> aws_byte_buf \<Rightarrow> unit result \<times> 'h \<times> aws_byte_buf) \<Rightarrow> nat \<Rightarrow> 'h \<Rightarrow>
    aws_byte_buf \<Rightarrow> nat \<Rightarrow> unit result \<times> 'h \<times> aws_byte_buf" where
  "digest_finalize finalize dsize h output truncate_to =
     (if truncate_to \<noteq> 0 \<and> truncate_to < dsize then
        if buf_room output < truncate_to then (Inl (Raised AWS_ERROR_SHORT_BUFFER), h, output)
        else (case finalize h tmp_out_buf of
            (Inl e, h', _) \<Rightarrow> (Inl e, h', output)
          | (Inr _, h', tmp) \<Rightarrow>
              (case rbind (bytes_at (map_option (\<lambda>m. \<lparr>pobj = m, poff = 0\<rparr>) (buffer tmp)) truncate_to)
                      (poke output) of
                 Inl e \<Rightarrow> (Inl e, h', output)
               | Inr output' \<Rightarrow> (Inr (), h', add_len truncate_to output')))
      else finalize h output)"

definition digest_compute :: "('h \<Rightarrow> aws_byte_cursor \<Rightarrow> unit result \<times> 'h) \<Rightarrow>
    ('h \<Rightarrow> aws_byte_buf \<Rightarrow> nat \<Rightarrow> unit result \<times> 'h \<times> aws_byte_buf) \<Rightarrow> 'h result \<Rightarrow>
    aws_byte_cursor \<Rightarrow> aws_byte_buf \<Rightarrow> nat \<Rightarrow> unit result \<times> aws_byte_buf" where
  "digest_compute update finalize hash inp output truncate_to = (case hash of
       Inl e \<Rightarrow> (Inl e, output)
     | Inr h \<Rightarrow> (case update h inp of
           (Inl e, _) \<Rightarrow> (Inl e, output)
         | (Inr _, h') \<Rightarrow> (case finalize h' output truncate_to of (r, _, output') \<Rightarrow> (r, output'))))"

text \<open>Feeding a list of pieces.\<close>

primrec update_all :: "('h \<Rightarrow> aws_byte_cursor \<Rightarrow> unit result \<times> 'h) \<Rightarrow> aws_byte_cursor list \<Rightarrow> 'h \<Rightarrow>
    unit result \<times> 'h" where
  "update_all update [] h = (Inr (), h)"
| "update_all update (c # cs) h = seq_op (update h c) (\<lambda>_ h. update_all update cs h)"

text \<open>A whole run: all pieces, then finalize. What remains visible is the result and the output.\<close>

definition digest_run :: "('h \<Rightarrow> aws_byte_cursor \<Rightarrow> unit result \<times> 'h) \<Rightarrow>
    ('h \<Rightarrow> aws_byte_buf \<Rightarrow> nat \<Rightarrow> unit result \<times> 'h \<times> aws_byte_buf) \<Rightarrow> 'h result \<Rightarrow>
    aws_byte_cursor list \<Rightarrow> aws_byte_buf \<Rightarrow> nat \<Rightarrow> unit result \<times> bytes" where
  "digest_run update finalize hash cs out n = (case hash of
       Inl e \<Rightarrow> (Inl e, contents out)
     | Inr h \<Rightarrow> (case update_all update cs h of
           (Inl e, _) \<Rightarrow> (Inl e, contents out)
         | (Inr _, h1) \<Rightarrow> (case finalize h1 out n of (r, _, out') \<Rightarrow> (r, contents out'))))"

definition out_len :: "nat \<Rightarrow> nat \<Rightarrow> nat" where
  "out_len dsize n = (if n \<noteq> 0 \<and> n < dsize then n else dsize)"

section \<open>The contract of an implementation\<close>

locale digest =
  fixes update :: "'h \<Rightarrow> aws_byte_cursor \<Rightarrow> unit result \<times> 'h"
    and finalize :: "'h \<Rightarrow> aws_byte_buf \<Rightarrow> unit result \<times> 'h \<times> aws_byte_buf"
    and inv :: "'h \<Rightarrow> bool" and fed :: "'h \<Rightarrow> bytes option"
    and dsize :: nat and dig :: "bytes \<Rightarrow> bytes" and reliable :: bool and fits :: "bytes \<Rightarrow> bool"
  assumes update_ok:
      "inv h \<Longrightarrow> fed h = Some m \<Longrightarrow> bytes_at (ptr cur) (cur_len cur) = Inr b \<Longrightarrow> fits b \<Longrightarrow>
       (\<exists>h'. update h cur = (Inr (), h') \<and> inv h' \<and> fed h' = Some (m @ b)) \<or>
       \<not> reliable \<and> (\<exists>h'. update h cur = (Inl (Raised AWS_ERROR_INVALID_ARGUMENT), h') \<and> inv h' \<and> fed h' = None)"
    and finalize_ok:
      "inv h \<Longrightarrow> fed h = Some m \<Longrightarrow> valid_buf out \<Longrightarrow> dsize \<le> room out \<Longrightarrow>
       (\<exists>h' out'. finalize h out = (Inr (), h', out') \<and> inv h' \<and> fed h' = None \<and> appends out (dig m) (Some out')) \<or>
       \<not> reliable \<and> (\<exists>h'. finalize h out = (Inl (Raised AWS_ERROR_INVALID_ARGUMENT), h', out) \<and> inv h' \<and> fed h' = None)"
    and finalize_short:
      "inv h \<Longrightarrow> fed h = Some m \<Longrightarrow> valid_buf out \<Longrightarrow> room out < dsize \<Longrightarrow>
       finalize h out = (Inl (Raised AWS_ERROR_SHORT_BUFFER), h, out)"
    and spent_update: "inv h \<Longrightarrow> fed h = None \<Longrightarrow> update h cur = (Inl (Raised AWS_ERROR_INVALID_STATE), h)"
    and spent_finalize:
      "inv h \<Longrightarrow> fed h = None \<Longrightarrow> finalize h out = (Inl (Raised AWS_ERROR_INVALID_STATE), h, out)"
    and dig_length: "length (dig m) = dsize" and size_max: "dsize \<le> 128"
begin

lemma update_all_ok:
  assumes "reliable" and "inv h" and "fed h = Some m"
    and "list_all2 (\<lambda>c b. bytes_at (ptr c) (cur_len c) = Inr b) cs bs" and "\<forall>b \<in> set bs. fits b"
  shows "\<exists>h'. update_all update cs h = (Inr (), h') \<and> inv h' \<and> fed h' = Some (m @ concat bs)"
  using assms(4,2,3,5)
proof (induction cs bs arbitrary: h m rule: list_all2_induct)
  case Nil
  then show ?case by simp
next
  case (Cons c cs b bs)
  then obtain h1 where "update h c = (Inr (), h1)" "inv h1" "fed h1 = Some (m @ b)"
    using update_ok [of h m c b] assms(1) by auto
  with Cons.IH [of h1 "m @ b"] Cons.prems(3) show ?case by simp
qed

text \<open>Finalizing with truncation.\<close>

lemma truncated_ok:
  assumes "inv h" and "fed h = Some m" and v: "valid_buf out" and r: "out_len dsize n \<le> room out"
  shows "(\<exists>h' out'. digest_finalize finalize dsize h out n = (Inr (), h', out') \<and> inv h' \<and> fed h' = None \<and>
       appends out (take (out_len dsize n) (dig m)) (Some out')) \<or>
     \<not> reliable \<and> (\<exists>h'. digest_finalize finalize dsize h out n =
       (Inl (Raised AWS_ERROR_INVALID_ARGUMENT), h', out) \<and> inv h' \<and> fed h' = None)"
proof (cases "n \<noteq> 0 \<and> n < dsize")
  case False
  with assms finalize_ok [of h m out] show ?thesis
    by (auto simp: digest_finalize_def out_len_def dig_length)
next
  case True
  have tmp: "valid_buf tmp_out_buf" "dsize \<le> room tmp_out_buf"
    using size_max by (simp_all add: tmp_out_buf_def valid_buf_def room_def)
  from finalize_ok [OF assms(1,2) tmp] show ?thesis
  proof (elim disjE conjE exE)
    fix h' t
    assume fin: "finalize h tmp_out_buf = (Inr (), h', t)" and h': "inv h'" "fed h' = None"
      and t: "appends tmp_out_buf (dig m) (Some t)"
    then obtain mem where mem: "buffer t = Some mem" "take dsize mem = dig m" "length mem = 128"
      using size_max True dig_length [of m]
      by (cases "buffer t") (auto simp: appends_def contents_def tmp_out_buf_def valid_buf_def)
    have "take n mem = take n (take dsize mem)" using True by (simp add: min_def)
    with mem have rd: "take n mem = take n (dig m)" by simp
    have "length (take n (dig m)) \<le> room out" using True r dig_length by (simp add: out_len_def)
    from poke_appends [OF v this] obtain b1 where
        "poke out (take n (dig m)) = Inr b1" "appends out (take n (dig m)) (Some (add_len n b1))"
      using True dig_length by (metis length_take min.absorb4)
    with fin h' mem rd True r v size_max show ?thesis
      by (simp add: digest_finalize_def out_len_def bytes_at_def)
  next
    assume "\<not> reliable"
    moreover fix h'
    assume "finalize h tmp_out_buf = (Inl (Raised AWS_ERROR_INVALID_ARGUMENT), h', tmp_out_buf)"
      "inv h'" "fed h' = None"
    ultimately show ?thesis using True r v by (simp add: digest_finalize_def out_len_def)
  qed
qed

lemma truncated_short:
  assumes "inv h" and "fed h = Some m" and "valid_buf out" and "room out < out_len dsize n"
  shows "digest_finalize finalize dsize h out n = (Inl (Raised AWS_ERROR_SHORT_BUFFER), h, out)"
  using assms finalize_short by (auto simp: digest_finalize_def out_len_def)

lemma truncated_spent:
  assumes "inv h" and "fed h = None" and "valid_buf out"
  shows "\<exists>e. digest_finalize finalize dsize h out n = (Inl (Raised e), h, out) \<and>
    (out_len dsize n \<le> room out \<longrightarrow> e = AWS_ERROR_INVALID_STATE)"
  using assms spent_finalize by (auto simp: digest_finalize_def out_len_def)

text \<open>A whole run on a new object, behind any function that finalizes as \<open>digest_finalize\<close> does.\<close>

lemma run_ok:
  assumes "reliable" and "inv h" and "fed h = Some []"
    and "list_all2 (\<lambda>c b. bytes_at (ptr c) (cur_len c) = Inr b) cs bs" and "\<forall>b \<in> set bs. fits b" and v: "valid_buf out"
    and F: "\<forall>h. inv h \<longrightarrow> F h out n = digest_finalize finalize dsize h out n"
  shows "digest_run update F (Inr h) cs out n =
    (if out_len dsize n \<le> room out then (Inr (), contents out @ take (out_len dsize n) (dig (concat bs)))
     else (Inl (Raised AWS_ERROR_SHORT_BUFFER), contents out))"
proof -
  obtain h1 where h1: "update_all update cs h = (Inr (), h1)" "inv h1" "fed h1 = Some (concat bs)"
    using update_all_ok [OF assms(1-5)] by auto
  with truncated_ok [OF h1(2,3) v, of n] truncated_short [OF h1(2,3) v, of n] assms(1) F show ?thesis
    by (cases "out_len dsize n \<le> room out") (auto simp: digest_run_def appends_def)
qed

text \<open>The one-shot functions on a new object.\<close>

lemma compute_ok:
  assumes "reliable" and "inv h" and "fed h = Some []" and "bytes_at (ptr inp) (cur_len inp) = Inr bs"
    and "valid_buf out" and "fits bs"
  shows "if out_len dsize n \<le> room out
    then \<exists>out'. digest_compute update (digest_finalize finalize dsize) (Inr h) inp out n = (Inr (), out') \<and>
           appends out (take (out_len dsize n) (dig bs)) (Some out')
    else digest_compute update (digest_finalize finalize dsize) (Inr h) inp out n =
           (Inl (Raised AWS_ERROR_SHORT_BUFFER), out)"
proof -
  obtain h1 where h1: "update h inp = (Inr (), h1)" "inv h1" "fed h1 = Some bs"
    using update_ok [OF assms(2,3,4,6)] assms(1) by auto
  show ?thesis
    using truncated_ok [OF h1(2,3) assms(5), of n] truncated_short [OF h1(2,3) assms(5), of n] h1(1) assms(1)
    by (fastforce simp: digest_compute_def not_le)
qed

text \<open>The same behind any function that finalizes as \<open>digest_finalize\<close> does.\<close>

lemma compute_behind:
  assumes "reliable" and "inv h" and "fed h = Some []" and "bytes_at (ptr inp) (cur_len inp) = Inr bs"
    and "valid_buf out" and "fits bs" and r: "out_len dsize n \<le> room out"
    and F: "\<forall>h. inv h \<longrightarrow> F h out n = digest_finalize finalize dsize h out n"
  shows "\<exists>out'. digest_compute update F (Inr h) inp out n = (Inr (), out') \<and>
    appends out (take (out_len dsize n) (dig bs)) (Some out')"
proof -
  obtain h1 where h1: "update h inp = (Inr (), h1)" "inv h1" "fed h1 = Some bs"
    using update_ok [OF assms(2,3,4,6)] assms(1) by auto
  with truncated_ok [OF h1(2,3) assms(5) r] F assms(1) show ?thesis by (auto simp: digest_compute_def)
qed

text \<open>A short buffer is not fatal: the object keeps its message, and a later call with room
  returns the digest.\<close>

lemma short_then_retry:
  assumes "reliable" and "inv h" and "fed h = Some m" and "valid_buf out" and "room out < out_len dsize n"
    and "valid_buf out2" and "out_len dsize n \<le> room out2"
  shows "\<exists>h1 h2 out'. digest_finalize finalize dsize h out n = (Inl (Raised AWS_ERROR_SHORT_BUFFER), h1, out) \<and>
    digest_finalize finalize dsize h1 out2 n = (Inr (), h2, out') \<and>
    appends out2 (take (out_len dsize n) (dig m)) (Some out') \<and> fed h2 = None"
  using truncated_short [OF assms(2-5)] truncated_ok [OF assms(2,3,6,7)] assms(1) by auto

end

text \<open>An empty growable buffer with \<open>n\<close> bytes of memory.\<close>

definition empty_out :: "nat \<Rightarrow> aws_byte_buf" where
  "empty_out n = \<lparr>buf_len = 0, buffer = Some (replicate n 0), capacity = n, allocator = True\<rparr>"

lemma valid_empty_out [simp]: "n \<le> SIZE_MAX div 2 \<Longrightarrow> valid_buf (empty_out n)" "room (empty_out n) = n"
    "allocator (empty_out n)" "buf_len (empty_out n) = 0" "contents (empty_out n) = []" "capacity (empty_out n) = n"
  by (simp_all add: empty_out_def valid_buf_def room_def contents_def)

end
