(* ===== verification/Hash.thy ===== *)
theory Hash
  imports Digest
begin

text \<open>
  Hashes: the interface of \<^verbatim>\<open>source/hash.c\<close> and its OpenSSL implementation in
  \<^verbatim>\<open>source/unix/opensslcrypto_hash.c\<close>. The functions of libcrypto are reached through the table
  \<open>g_aws_openssl_evp_md_ctx_table\<close>, which is a parameter; \<open>evp_md_spec\<close> states what the proofs use
  of its documentation. The interpretation at the end shows that the OpenSSL implementation
  satisfies the contract of the theory Digest for each of the three algorithms.
\<close>

section \<open>The interface\<close>

record 'c aws_hash =
  digest_size :: nat
  good :: bool
  hash_impl :: "'c option"

record 'c aws_hash_vtable =
  hash_vt_update :: "'c aws_hash \<Rightarrow> aws_byte_cursor \<Rightarrow> unit result \<times> 'c aws_hash"
  hash_vt_finalize :: "'c aws_hash \<Rightarrow> aws_byte_buf \<Rightarrow> unit result \<times> 'c aws_hash \<times> aws_byte_buf"

text \<open>The three replaceable constructors, static variables of the file.\<close>

record 'h hash_new_fns =
  s_sha256_new_fn :: "unit \<Rightarrow> 'h result"
  s_sha1_new_fn :: "unit \<Rightarrow> 'h result"
  s_md5_new_fn :: "unit \<Rightarrow> 'h result"

definition aws_sha1_new :: "'h hash_new_fns \<Rightarrow> 'h result" where
  "aws_sha1_new fns = s_sha1_new_fn fns ()"

definition aws_sha256_new :: "'h hash_new_fns \<Rightarrow> 'h result" where
  "aws_sha256_new fns = s_sha256_new_fn fns ()"

definition aws_md5_new :: "'h hash_new_fns \<Rightarrow> 'h result" where
  "aws_md5_new fns = s_md5_new_fn fns ()"

definition aws_set_md5_new_fn :: "(unit \<Rightarrow> 'h result) \<Rightarrow> 'h hash_new_fns \<Rightarrow> 'h hash_new_fns" where
  "aws_set_md5_new_fn fn fns = fns\<lparr>s_md5_new_fn := fn\<rparr>"

definition aws_set_sha256_new_fn :: "(unit \<Rightarrow> 'h result) \<Rightarrow> 'h hash_new_fns \<Rightarrow> 'h hash_new_fns" where
  "aws_set_sha256_new_fn fn fns = fns\<lparr>s_sha256_new_fn := fn\<rparr>"

definition aws_set_sha1_new_fn :: "(unit \<Rightarrow> 'h result) \<Rightarrow> 'h hash_new_fns \<Rightarrow> 'h hash_new_fns" where
  "aws_set_sha1_new_fn fn fns = fns\<lparr>s_sha1_new_fn := fn\<rparr>"

definition aws_hash_update :: "'c aws_hash_vtable \<Rightarrow> 'c aws_hash \<Rightarrow> aws_byte_cursor \<Rightarrow>
    unit result \<times> 'c aws_hash" where
  "aws_hash_update vt hash to_hash = hash_vt_update vt hash to_hash"

definition aws_hash_finalize :: "'c aws_hash_vtable \<Rightarrow> 'c aws_hash \<Rightarrow> aws_byte_buf \<Rightarrow> nat \<Rightarrow>
    unit result \<times> 'c aws_hash \<times> aws_byte_buf" where
  "aws_hash_finalize vt hash output truncate_to =
     digest_finalize (hash_vt_finalize vt) (digest_size hash) hash output truncate_to"

definition compute_hash :: "'c aws_hash_vtable \<Rightarrow> 'c aws_hash result \<Rightarrow> aws_byte_cursor \<Rightarrow>
    aws_byte_buf \<Rightarrow> nat \<Rightarrow> unit result \<times> aws_byte_buf" where
  "compute_hash vt hash inp output truncate_to =
     digest_compute (aws_hash_update vt) (aws_hash_finalize vt) hash inp output truncate_to"

definition aws_md5_compute :: "'c aws_hash_vtable \<Rightarrow> 'c aws_hash hash_new_fns \<Rightarrow> aws_byte_cursor \<Rightarrow>
    aws_byte_buf \<Rightarrow> nat \<Rightarrow> unit result \<times> aws_byte_buf" where
  "aws_md5_compute vt fns inp output truncate_to =
     compute_hash vt (aws_md5_new fns) inp output truncate_to"

definition aws_sha256_compute :: "'c aws_hash_vtable \<Rightarrow> 'c aws_hash hash_new_fns \<Rightarrow> aws_byte_cursor \<Rightarrow>
    aws_byte_buf \<Rightarrow> nat \<Rightarrow> unit result \<times> aws_byte_buf" where
  "aws_sha256_compute vt fns inp output truncate_to =
     compute_hash vt (aws_sha256_new fns) inp output truncate_to"

definition aws_sha1_compute :: "'c aws_hash_vtable \<Rightarrow> 'c aws_hash hash_new_fns \<Rightarrow> aws_byte_cursor \<Rightarrow>
    aws_byte_buf \<Rightarrow> nat \<Rightarrow> unit result \<times> aws_byte_buf" where
  "aws_sha1_compute vt fns inp output truncate_to =
     compute_hash vt (aws_sha1_new fns) inp output truncate_to"

section \<open>The OpenSSL implementation\<close>

datatype evp_md = EVP_md5 | EVP_sha1 | EVP_sha256

fun md_len :: "evp_md \<Rightarrow> nat" where
  "md_len EVP_md5 = 16"
| "md_len EVP_sha1 = 20"
| "md_len EVP_sha256 = 32"

text \<open>\<open>struct openssl_evp_md_ctx_table\<close>; a call returns whether it succeeded and the context it
  leaves.\<close>

record 'c evp_md_ctx_table =
  md_new_fn :: "'c option"
  md_init_ex_fn :: "'c \<Rightarrow> evp_md \<Rightarrow> bool \<times> 'c"
  md_update_fn :: "'c \<Rightarrow> bytes \<Rightarrow> bool \<times> 'c"
  md_final_ex_fn :: "'c \<Rightarrow> bool \<times> bytes \<times> 'c"

definition hash_default_new :: "aws_common \<Rightarrow> 'c evp_md_ctx_table \<Rightarrow> evp_md \<Rightarrow> nat \<Rightarrow> 'c aws_hash result" where
  "hash_default_new C T md len =
     (if \<not> aws_mem_acquire_ok C then Inl (Raised AWS_ERROR_OOM)
      else case md_new_fn T of
        None \<Rightarrow> Inl (Raised AWS_ERROR_OOM)
      | Some ctx \<Rightarrow> (case md_init_ex_fn T ctx md of
            (False, _) \<Rightarrow> Inl (Raised AWS_ERROR_UNKNOWN)
          | (True, ctx') \<Rightarrow> Inr \<lparr>digest_size = len, good = True, hash_impl = Some ctx'\<rparr>))"

definition aws_md5_default_new :: "aws_common \<Rightarrow> 'c evp_md_ctx_table \<Rightarrow> 'c aws_hash result" where
  "aws_md5_default_new C T = hash_default_new C T EVP_md5 16"

definition aws_sha256_default_new :: "aws_common \<Rightarrow> 'c evp_md_ctx_table \<Rightarrow> 'c aws_hash result" where
  "aws_sha256_default_new C T = hash_default_new C T EVP_sha256 32"

definition aws_sha1_default_new :: "aws_common \<Rightarrow> 'c evp_md_ctx_table \<Rightarrow> 'c aws_hash result" where
  "aws_sha1_default_new C T = hash_default_new C T EVP_sha1 20"

definition s_update_hash :: "'c evp_md_ctx_table \<Rightarrow> 'c aws_hash \<Rightarrow> aws_byte_cursor \<Rightarrow>
    unit result \<times> 'c aws_hash" where
  "s_update_hash T hash to_hash =
     (if \<not> good hash then (Inl (Raised AWS_ERROR_INVALID_STATE), hash)
      else case hash_impl hash of
        None \<Rightarrow> (Inl (Undefined Null_deref), hash)
      | Some ctx \<Rightarrow> (case bytes_at (ptr to_hash) (cur_len to_hash) of
            Inl e \<Rightarrow> (Inl e, hash)
          | Inr bs \<Rightarrow> (case md_update_fn T ctx bs of
                (True, ctx') \<Rightarrow> (Inr (), hash\<lparr>hash_impl := Some ctx'\<rparr>)
              | (False, ctx') \<Rightarrow>
                  (Inl (Raised AWS_ERROR_INVALID_ARGUMENT), hash\<lparr>hash_impl := Some ctx', good := False\<rparr>))))"

definition s_finalize_hash :: "'c evp_md_ctx_table \<Rightarrow> 'c aws_hash \<Rightarrow> aws_byte_buf \<Rightarrow>
    unit result \<times> 'c aws_hash \<times> aws_byte_buf" where
  "s_finalize_hash T hash output =
     (if \<not> good hash then (Inl (Raised AWS_ERROR_INVALID_STATE), hash, output)
      else case hash_impl hash of
        None \<Rightarrow> (Inl (Undefined Null_deref), hash, output)
      | Some ctx \<Rightarrow>
          if buf_room output < digest_size hash then (Inl (Raised AWS_ERROR_SHORT_BUFFER), hash, output)
          else (case md_final_ex_fn T ctx of
              (True, md, ctx') \<Rightarrow>
                (case poke output md of
                   Inl e \<Rightarrow> (Inl e, hash, output)
                 | Inr output' \<Rightarrow>
                     (Inr (), hash\<lparr>hash_impl := Some ctx', good := False\<rparr>,
                      add_len (digest_size hash) output'))
            | (False, _, ctx') \<Rightarrow>
                (Inl (Raised AWS_ERROR_INVALID_ARGUMENT), hash\<lparr>hash_impl := Some ctx', good := False\<rparr>, output)))"

definition openssl_hash_vtable :: "'c evp_md_ctx_table \<Rightarrow> 'c aws_hash_vtable" where
  "openssl_hash_vtable T = \<lparr>hash_vt_update = s_update_hash T, hash_vt_finalize = s_finalize_hash T\<rparr>"

section \<open>The implementation satisfies the contract\<close>

text \<open>
  What libcrypto documents, for an abstraction \<open>msg\<close> of its contexts: a context that was
  initialised for an algorithm has been fed a message; a successful update extends it, and a
  successful final call delivers the digest, whose length is that of the algorithm.
\<close>

definition evp_md_spec :: "'c evp_md_ctx_table \<Rightarrow> ('c \<Rightarrow> (evp_md \<times> bytes) option) \<Rightarrow>
    (evp_md \<Rightarrow> bytes \<Rightarrow> bytes) \<Rightarrow> bool" where
  "evp_md_spec T msg H \<longleftrightarrow>
     (\<forall>c md c'. md_init_ex_fn T c md = (True, c') \<longrightarrow> msg c' = Some (md, [])) \<and>
     (\<forall>c md m b c'. msg c = Some (md, m) \<longrightarrow> md_update_fn T c b = (True, c') \<longrightarrow> msg c' = Some (md, m @ b)) \<and>
     (\<forall>c md m d c'. msg c = Some (md, m) \<longrightarrow> md_final_ex_fn T c = (True, d, c') \<longrightarrow> d = H md m) \<and>
     (\<forall>md m. length (H md m) = md_len md)"

text \<open>No call of libcrypto fails.\<close>

definition evp_md_reliable :: "'c evp_md_ctx_table \<Rightarrow> bool" where
  "evp_md_reliable T \<longleftrightarrow> md_new_fn T \<noteq> None \<and> (\<forall>c md. fst (md_init_ex_fn T c md)) \<and>
     (\<forall>c b. fst (md_update_fn T c b)) \<and> (\<forall>c. fst (md_final_ex_fn T c))"

definition hash_inv :: "('c \<Rightarrow> (evp_md \<times> bytes) option) \<Rightarrow> evp_md \<Rightarrow> 'c aws_hash \<Rightarrow> bool" where
  "hash_inv msg md h \<longleftrightarrow> digest_size h = md_len md \<and>
     (good h \<longrightarrow> (\<exists>c m. hash_impl h = Some c \<and> msg c = Some (md, m)))"

definition hash_fed :: "('c \<Rightarrow> (evp_md \<times> bytes) option) \<Rightarrow> 'c aws_hash \<Rightarrow> bytes option" where
  "hash_fed msg h =
     (if good h then (case hash_impl h of None \<Rightarrow> None | Some c \<Rightarrow> map_option snd (msg c)) else None)"

lemma hash_goodE:
  assumes "hash_inv msg md h" and "hash_fed msg h = Some m"
  obtains c where "good h" "hash_impl h = Some c" "msg c = Some (md, m)" "digest_size h = md_len md"
  using assms by (auto simp: hash_inv_def hash_fed_def split: if_splits)

lemma hash_spent: "hash_inv msg md h \<Longrightarrow> hash_fed msg h = None \<Longrightarrow> \<not> good h"
  by (auto simp: hash_inv_def hash_fed_def)

lemma evp_md_laws:
  assumes "evp_md_spec T msg H"
  shows "md_init_ex_fn T c md = (True, c') \<Longrightarrow> msg c' = Some (md, [])"
    and "msg c = Some (md, m) \<Longrightarrow> md_update_fn T c b = (True, c') \<Longrightarrow> msg c' = Some (md, m @ b)"
    and "msg c = Some (md, m) \<Longrightarrow> md_final_ex_fn T c = (True, d, c') \<Longrightarrow> d = H md m"
    and "length (H md m) = md_len md"
  using assms unfolding evp_md_spec_def by blast+

lemma evp_md_reliable_laws:
  assumes "evp_md_reliable T"
  shows "fst (md_init_ex_fn T c md)" and "fst (md_update_fn T c b)" and "fst (md_final_ex_fn T c)"
    and "md_new_fn T \<noteq> None"
  using assms unfolding evp_md_reliable_def by blast+

lemma hash_update_ok:
  assumes S: "evp_md_spec T msg H" and h: "hash_inv msg md h" "hash_fed msg h = Some m"
    and b: "bytes_at (ptr cur) (cur_len cur) = Inr b"
  shows "(\<exists>h'. s_update_hash T h cur = (Inr (), h') \<and> hash_inv msg md h' \<and> hash_fed msg h' = Some (m @ b)) \<or>
    \<not> evp_md_reliable T \<and> (\<exists>h'. s_update_hash T h cur = (Inl (Raised AWS_ERROR_INVALID_ARGUMENT), h') \<and>
      hash_inv msg md h' \<and> hash_fed msg h' = None)"
proof -
  obtain c where c: "good h" "hash_impl h = Some c" "msg c = Some (md, m)" "digest_size h = md_len md"
    by (rule hash_goodE [OF h])
  obtain ok c' where u: "md_update_fn T c b = (ok, c')" by (cases "md_update_fn T c b")
  show ?thesis
  proof (cases ok)
    case True
    with evp_md_laws(2) [OF S c(3)] u c b show ?thesis
      by (simp add: s_update_hash_def hash_inv_def hash_fed_def)
  next
    case False
    with evp_md_reliable_laws(2) [of T c b] u have "\<not> evp_md_reliable T" by auto
    with False u c b show ?thesis by (simp add: s_update_hash_def hash_inv_def hash_fed_def)
  qed
qed

lemma hash_finalize_ok:
  assumes S: "evp_md_spec T msg H" and h: "hash_inv msg md h" "hash_fed msg h = Some m"
    and v: "valid_buf out" and r: "md_len md \<le> room out"
  shows "(\<exists>h' out'. s_finalize_hash T h out = (Inr (), h', out') \<and> hash_inv msg md h' \<and> hash_fed msg h' = None \<and>
      appends out (H md m) (Some out')) \<or>
    \<not> evp_md_reliable T \<and> (\<exists>h'. s_finalize_hash T h out = (Inl (Raised AWS_ERROR_INVALID_ARGUMENT), h', out) \<and>
      hash_inv msg md h' \<and> hash_fed msg h' = None)"
proof -
  obtain c where c: "good h" "hash_impl h = Some c" "msg c = Some (md, m)" "digest_size h = md_len md"
    by (rule hash_goodE [OF h])
  obtain ok d c' where u: "md_final_ex_fn T c = (ok, d, c')" by (cases "md_final_ex_fn T c")
  show ?thesis
  proof (cases ok)
    case True
    with evp_md_laws(3) [OF S c(3)] u have d: "d = H md m" by simp
    have "length (H md m) \<le> room out" using r evp_md_laws(4) [OF S] by simp
    from poke_appends [OF v this] obtain b1 where "poke out (H md m) = Inr b1"
        "appends out (H md m) (Some (add_len (md_len md) b1))"
      using evp_md_laws(4) [OF S] by metis
    with True u d c r v show ?thesis by (simp add: s_finalize_hash_def hash_inv_def hash_fed_def)
  next
    case False
    with evp_md_reliable_laws(3) [of T c] u have "\<not> evp_md_reliable T" by auto
    with False u c r v show ?thesis by (simp add: s_finalize_hash_def hash_inv_def hash_fed_def)
  qed
qed

text \<open>
  A parametrised interpretation needs the specification of libcrypto as a fact; it is carried in
  the invariant.
\<close>

interpretation openssl_hash: digest "s_update_hash T" "s_finalize_hash T"
  "\<lambda>h. evp_md_spec T msg H \<and> hash_inv msg md h" "hash_fed msg" "md_len md"
  "\<lambda>m. if evp_md_spec T msg H then H md m else replicate (md_len md) 0" "evp_md_reliable T" "\<lambda>_. True" for T msg H md
proof (unfold_locales, goal_cases)
  case (1 h m cur b)
  then show ?case using hash_update_ok [of T msg H md h m cur b] by blast
next
  case (2 h m out)
  then show ?case using hash_finalize_ok [of T msg H md h m out] by auto
next
  case (3 h m out)
  then have h: "hash_inv msg md h" "hash_fed msg h = Some m" by simp_all
  with 3 show ?case by (auto elim!: hash_goodE simp: s_finalize_hash_def)
next
  case (4 h cur)
  then show ?case using hash_spent [of msg md h] by (simp add: s_update_hash_def)
next
  case (5 h out)
  then show ?case using hash_spent [of msg md h] by (simp add: s_finalize_hash_def)
next
  case (6 m)
  then show ?case using evp_md_laws(4) [of T msg H md m] by simp
next
  case 7
  then show ?case by (cases md) simp_all
qed

section \<open>Properties of hashes\<close>

fun default_new :: "aws_common \<Rightarrow> 'c evp_md_ctx_table \<Rightarrow> evp_md \<Rightarrow> 'c aws_hash result" where
  "default_new C T EVP_md5 = aws_md5_default_new C T"
| "default_new C T EVP_sha1 = aws_sha1_default_new C T"
| "default_new C T EVP_sha256 = aws_sha256_default_new C T"

lemma default_new_eq: "default_new C T md = hash_default_new C T md (md_len md)"
  by (cases md) (simp_all add: aws_md5_default_new_def aws_sha1_default_new_def aws_sha256_default_new_def)

lemma default_new_ok:
  assumes "common_spec C" and "evp_md_spec T msg H" and "evp_md_reliable T"
  obtains h where "default_new C T md = Inr h" "hash_inv msg md h" "hash_fed msg h = Some []"
proof -
  obtain c where c: "md_new_fn T = Some c" using evp_md_reliable_laws(4) [OF assms(3)] by blast
  obtain c' where c': "md_init_ex_fn T c md = (True, c')"
    using evp_md_reliable_laws(1) [OF assms(3), of c md] by (cases "md_init_ex_fn T c md") simp
  with evp_md_laws(1) [OF assms(2)] c assms(1) show ?thesis
    by (intro that [of "\<lparr>digest_size = md_len md, good = True, hash_impl = Some c'\<rparr>"])
      (simp_all add: default_new_eq hash_default_new_def hash_inv_def hash_fed_def)
qed

lemma hash_finalize_eq:
  "hash_inv msg md h \<Longrightarrow> aws_hash_finalize (openssl_hash_vtable T) h out n =
     digest_finalize (s_finalize_hash T) (md_len md) h out n"
  by (simp add: aws_hash_finalize_def openssl_hash_vtable_def hash_inv_def)

lemma hash_update_eq: "aws_hash_update (openssl_hash_vtable T) = s_update_hash T"
  by (simp add: aws_hash_update_def openssl_hash_vtable_def fun_eq_iff)

text \<open>
  Hashing in pieces: when libcrypto does not fail, a new MD5, SHA1 or SHA256 object fed
  any sequence of byte strings and finalized appends to the output the digest of their
  concatenation, cut to \<open>truncate_to\<close> bytes when that is positive and less than the digest size; if
  the output has no room for those bytes it fails with AWS_ERROR_SHORT_BUFFER, the output is
  unchanged and the object still holds the message.
\<close>

theorem hash_of_pieces:
  assumes "common_spec C" and S: "evp_md_spec T msg H" and R: "evp_md_reliable T"
    and pieces: "list_all2 (\<lambda>c b. bytes_at (ptr c) (cur_len c) = Inr b) cs bs" and v: "valid_buf out"
  shows "\<exists>h h1. default_new C T md = Inr h \<and>
    update_all (aws_hash_update (openssl_hash_vtable T)) cs h = (Inr (), h1) \<and>
    (if out_len (md_len md) n \<le> room out
     then \<exists>h2 out'. aws_hash_finalize (openssl_hash_vtable T) h1 out n = (Inr (), h2, out') \<and>
            appends out (take (out_len (md_len md) n) (H md (concat bs))) (Some out')
     else aws_hash_finalize (openssl_hash_vtable T) h1 out n = (Inl (Raised AWS_ERROR_SHORT_BUFFER), h1, out))"
proof -
  obtain h where h: "default_new C T md = Inr h" "hash_inv msg md h" "hash_fed msg h = Some []"
    by (rule default_new_ok [OF assms(1) S R])
  obtain h1 where h1: "update_all (s_update_hash T) cs h = (Inr (), h1)" "hash_inv msg md h1"
      "hash_fed msg h1 = Some (concat bs)"
    using openssl_hash.update_all_ok [of T msg H md h "[]" cs bs] R S h pieces by auto
  show ?thesis
    using openssl_hash.truncated_ok [of T msg H md h1 "concat bs" out n]
      openssl_hash.truncated_short [of T msg H md h1 "concat bs" out n] R S h h1 v
    by (cases "out_len (md_len md) n \<le> room out")
      (auto simp: not_le hash_update_eq hash_finalize_eq [OF h1(2)])
qed

text \<open>
  A hash object is spent by a successful finalize, and by any failure of libcrypto: from
  then on update and finalize raise AWS_ERROR_INVALID_STATE (or AWS_ERROR_SHORT_BUFFER when a
  truncated digest does not fit) and change neither the object nor the output.
\<close>

theorem hash_spent_after_finalize:
  assumes S: "evp_md_spec T msg H" and h: "hash_inv msg md h" "hash_fed msg h = Some m"
    and v: "valid_buf out" "valid_buf out2"
    and r: "out_len (md_len md) n \<le> room out"
    and fin: "aws_hash_finalize (openssl_hash_vtable T) h out n = (r, h1, out1)"
  shows "aws_hash_update (openssl_hash_vtable T) h1 cur = (Inl (Raised AWS_ERROR_INVALID_STATE), h1) \<and>
    (\<exists>e. aws_hash_finalize (openssl_hash_vtable T) h1 out2 k = (Inl (Raised e), h1, out2) \<and>
      (out_len (md_len md) k \<le> room out2 \<longrightarrow> e = AWS_ERROR_INVALID_STATE)) \<and>
    (r = Inr () \<or> r = Inl (Raised AWS_ERROR_INVALID_ARGUMENT) \<and> out1 = out)"
proof -
  have "hash_inv msg md h1 \<and> hash_fed msg h1 = None \<and>
      (r = Inr () \<or> r = Inl (Raised AWS_ERROR_INVALID_ARGUMENT) \<and> out1 = out)"
    using openssl_hash.truncated_ok [of T msg H md h m out n] S h v r fin hash_finalize_eq [OF h(1), of T out n]
    by auto
  then have h1: "hash_inv msg md h1" "hash_fed msg h1 = None"
      "r = Inr () \<or> r = Inl (Raised AWS_ERROR_INVALID_ARGUMENT) \<and> out1 = out" by simp_all
  show ?thesis
    using openssl_hash.spent_update [of T msg H md h1 cur] S h1 v
      openssl_hash.truncated_spent [of T msg H md h1 out2 k]
    unfolding hash_update_eq hash_finalize_eq [OF h1(1)] by simp
qed

text \<open>
  The one-shot functions agree with hashing in one piece: \<open>aws_sha256_compute\<close>, with the
  default constructor, appends the truncated SHA256 digest of its input, or fails with
  AWS_ERROR_SHORT_BUFFER and leaves the output alone.
\<close>

theorem sha256_compute_ok:
  assumes "common_spec C" and S: "evp_md_spec T msg H" and R: "evp_md_reliable T"
    and "s_sha256_new_fn fns = (\<lambda>_. aws_sha256_default_new C T)"
    and b: "bytes_at (ptr inp) (cur_len inp) = Inr bs" and v: "valid_buf out"
  shows "if out_len 32 n \<le> room out
    then \<exists>out'. aws_sha256_compute (openssl_hash_vtable T) fns inp out n = (Inr (), out') \<and>
           appends out (take (out_len 32 n) (H EVP_sha256 bs)) (Some out')
    else aws_sha256_compute (openssl_hash_vtable T) fns inp out n = (Inl (Raised AWS_ERROR_SHORT_BUFFER), out)"
proof -
  obtain h where h: "default_new C T EVP_sha256 = Inr h" "hash_inv msg EVP_sha256 h" "hash_fed msg h = Some []"
    by (rule default_new_ok [OF assms(1) S R])
  obtain h1 where h1: "s_update_hash T h inp = (Inr (), h1)" "hash_inv msg EVP_sha256 h1"
    using hash_update_ok [OF S h(2,3) b] R by blast
  have "aws_sha256_compute (openssl_hash_vtable T) fns inp out n =
      digest_compute (s_update_hash T) (digest_finalize (s_finalize_hash T) (md_len EVP_sha256)) (Inr h) inp out n"
    using assms(4) h(1) h1 hash_finalize_eq [OF h1(2), of T out n]
    by (simp add: aws_sha256_compute_def compute_hash_def aws_sha256_new_def digest_compute_def hash_update_eq)
  then show ?thesis
    using openssl_hash.compute_ok [of T msg H EVP_sha256 h inp bs out n] S R h b v
    by (cases "out_len 32 n \<le> room out") simp_all
qed

text \<open>An instance of libcrypto's table that satisfies its specification.\<close>

definition ref_digest :: "evp_md \<Rightarrow> bytes \<Rightarrow> bytes" where
  "ref_digest md m = replicate (md_len md) (word_of_nat (length m))"

definition ref_evp_md :: "(evp_md \<times> bytes) option evp_md_ctx_table" where
  "ref_evp_md =
     \<lparr>md_new_fn = Some None,
      md_init_ex_fn = (\<lambda>_ md. (True, Some (md, []))),
      md_update_fn = (\<lambda>c b. (True, map_option (\<lambda>(md, m). (md, m @ b)) c)),
      md_final_ex_fn = (\<lambda>c. (True, (case c of None \<Rightarrow> [] | Some (md, m) \<Rightarrow> ref_digest md m), None))\<rparr>"

lemma ref_evp_md_ok: "evp_md_spec ref_evp_md id ref_digest" "evp_md_reliable ref_evp_md"
  by (auto simp: evp_md_spec_def evp_md_reliable_def ref_evp_md_def ref_digest_def)

lemma hash_of_pieces_witness:
  "\<exists>h h1 h2 out'. default_new ref_common ref_evp_md EVP_sha1 = Inr h \<and>
     update_all (aws_hash_update (openssl_hash_vtable ref_evp_md)) [cursor_of [1, 2], cursor_of [3]] h = (Inr (), h1) \<and>
     aws_hash_finalize (openssl_hash_vtable ref_evp_md) h1 (empty_out 8) 5 = (Inr (), h2, out') \<and>
     appends (empty_out 8) (take 5 (ref_digest EVP_sha1 [1, 2, 3])) (Some out')"
  using hash_of_pieces [OF common_spec_ref ref_evp_md_ok, of "[cursor_of [1, 2], cursor_of [3]]"
      "[[1, 2], [3]]" "empty_out 8" EVP_sha1 5]
  by (simp add: out_len_def)

lemma sha256_compute_ok_witness:
  "aws_sha256_compute (openssl_hash_vtable ref_evp_md)
     \<lparr>s_sha256_new_fn = (\<lambda>_. aws_sha256_default_new ref_common ref_evp_md),
      s_sha1_new_fn = (\<lambda>_. Inl Fatal), s_md5_new_fn = (\<lambda>_. Inl Fatal)\<rparr>
     (cursor_of [1]) (empty_out 8) 0 = (Inl (Raised AWS_ERROR_SHORT_BUFFER), empty_out 8)"
  using sha256_compute_ok [OF common_spec_ref ref_evp_md_ok, of "\<lparr>s_sha256_new_fn =
      (\<lambda>_. aws_sha256_default_new ref_common ref_evp_md), s_sha1_new_fn = (\<lambda>_. Inl Fatal),
      s_md5_new_fn = (\<lambda>_. Inl Fatal)\<rparr>" "cursor_of [1]" "[1]" "empty_out 8" 0]
  by (simp add: out_len_def)

lemma hash_spent_after_finalize_witness:
  "\<exists>r h1 out1. aws_hash_finalize (openssl_hash_vtable ref_evp_md)
       \<lparr>digest_size = 16, good = True, hash_impl = Some (Some (EVP_md5, [7]))\<rparr> (empty_out 16) 0 = (r, h1, out1) \<and>
     aws_hash_update (openssl_hash_vtable ref_evp_md) h1 (cursor_of []) =
       (Inl (Raised AWS_ERROR_INVALID_STATE), h1)"
proof -
  let ?h = "\<lparr>digest_size = 16, good = True, hash_impl = Some (Some (EVP_md5, [7]))\<rparr>"
  obtain r h1 out1 where
      fin: "aws_hash_finalize (openssl_hash_vtable ref_evp_md) ?h (empty_out 16) 0 = (r, h1, out1)"
    by (cases "aws_hash_finalize (openssl_hash_vtable ref_evp_md) ?h (empty_out 16) 0")
  have "hash_inv id EVP_md5 ?h" "hash_fed id ?h = Some [7]" by (simp_all add: hash_inv_def hash_fed_def)
  from hash_spent_after_finalize [OF ref_evp_md_ok(1) this _ _ _ fin, of "empty_out 16"] fin
  show ?thesis by (simp add: out_len_def)
qed

end
