(* ===== verification/Hmac.thy ===== *)
theory Hmac
  imports Hash
begin

text \<open>
  HMAC-SHA256: the interface of \<^verbatim>\<open>source/hmac.c\<close> and its OpenSSL implementation in
  \<^verbatim>\<open>source/unix/opensslcrypto_hmac.c\<close>. It has the shape of the hash component, with a secret at
  creation and the context table \<open>g_aws_openssl_hmac_ctx_table\<close>, and satisfies the same contract.
\<close>

section \<open>The interface\<close>

record 'c aws_hmac =
  hmac_digest_size :: nat
  hmac_good :: bool
  hmac_impl :: "'c option"

record 'c aws_hmac_vtable =
  hmac_vt_update :: "'c aws_hmac \<Rightarrow> aws_byte_cursor \<Rightarrow> unit result \<times> 'c aws_hmac"
  hmac_vt_finalize :: "'c aws_hmac \<Rightarrow> aws_byte_buf \<Rightarrow> unit result \<times> 'c aws_hmac \<times> aws_byte_buf"

type_synonym 'c hmac_new_fn = "aws_byte_cursor \<Rightarrow> 'c aws_hmac result"

definition aws_sha256_hmac_new :: "'c hmac_new_fn \<Rightarrow> aws_byte_cursor \<Rightarrow> 'c aws_hmac result" where
  "aws_sha256_hmac_new s_sha256_hmac_new_fn secret = s_sha256_hmac_new_fn secret"

definition aws_hmac_update :: "'c aws_hmac_vtable \<Rightarrow> 'c aws_hmac \<Rightarrow> aws_byte_cursor \<Rightarrow>
    unit result \<times> 'c aws_hmac" where
  "aws_hmac_update vt hmac to_hmac = hmac_vt_update vt hmac to_hmac"

definition aws_hmac_finalize :: "'c aws_hmac_vtable \<Rightarrow> 'c aws_hmac \<Rightarrow> aws_byte_buf \<Rightarrow> nat \<Rightarrow>
    unit result \<times> 'c aws_hmac \<times> aws_byte_buf" where
  "aws_hmac_finalize vt hmac output truncate_to =
     digest_finalize (hmac_vt_finalize vt) (hmac_digest_size hmac) hmac output truncate_to"

definition aws_sha256_hmac_compute :: "'c aws_hmac_vtable \<Rightarrow> 'c hmac_new_fn \<Rightarrow> aws_byte_cursor \<Rightarrow>
    aws_byte_cursor \<Rightarrow> aws_byte_buf \<Rightarrow> nat \<Rightarrow> unit result \<times> aws_byte_buf" where
  "aws_sha256_hmac_compute vt new_fn secret to_hmac output truncate_to =
     digest_compute (aws_hmac_update vt) (aws_hmac_finalize vt) (aws_sha256_hmac_new new_fn secret)
       to_hmac output truncate_to"

section \<open>The OpenSSL implementation\<close>

text \<open>\<open>struct openssl_hmac_ctx_table\<close>: creation, initialisation without and with a key, update
  and final.\<close>

record 'c hmac_ctx_table =
  hmac_new_ctx_fn :: "'c option"
  hmac_init_fn :: "'c \<Rightarrow> 'c"
  hmac_init_ex_fn :: "'c \<Rightarrow> bytes \<Rightarrow> evp_md \<Rightarrow> bool \<times> 'c"
  hmac_update_fn :: "'c \<Rightarrow> bytes \<Rightarrow> bool \<times> 'c"
  hmac_final_fn :: "'c \<Rightarrow> bool \<times> bytes \<times> 'c"

definition aws_sha256_hmac_default_new :: "aws_common \<Rightarrow> 'c hmac_ctx_table \<Rightarrow> aws_byte_cursor \<Rightarrow>
    'c aws_hmac result" where
  "aws_sha256_hmac_default_new C T secret =
     (if \<not> aws_mem_acquire_ok C then Inl (Raised AWS_ERROR_OOM)
      else case hmac_new_ctx_fn T of
        None \<Rightarrow> Inl (Raised AWS_ERROR_OOM)
      | Some ctx \<Rightarrow>
          rbind (bytes_at (ptr secret) (cur_len secret)) (\<lambda>key.
            case hmac_init_ex_fn T (hmac_init_fn T ctx) key EVP_sha256 of
              (False, _) \<Rightarrow> Inl (Raised AWS_ERROR_INVALID_ARGUMENT)
            | (True, ctx') \<Rightarrow> Inr \<lparr>hmac_digest_size = 32, hmac_good = True, hmac_impl = Some ctx'\<rparr>))"

definition s_update_hmac :: "'c hmac_ctx_table \<Rightarrow> 'c aws_hmac \<Rightarrow> aws_byte_cursor \<Rightarrow>
    unit result \<times> 'c aws_hmac" where
  "s_update_hmac T hmac to_hmac =
     (if \<not> hmac_good hmac then (Inl (Raised AWS_ERROR_INVALID_STATE), hmac)
      else case hmac_impl hmac of
        None \<Rightarrow> (Inl (Undefined Null_deref), hmac)
      | Some ctx \<Rightarrow> (case bytes_at (ptr to_hmac) (cur_len to_hmac) of
            Inl e \<Rightarrow> (Inl e, hmac)
          | Inr bs \<Rightarrow> (case hmac_update_fn T ctx bs of
                (True, ctx') \<Rightarrow> (Inr (), hmac\<lparr>hmac_impl := Some ctx'\<rparr>)
              | (False, ctx') \<Rightarrow>
                  (Inl (Raised AWS_ERROR_INVALID_ARGUMENT),
                   hmac\<lparr>hmac_impl := Some ctx', hmac_good := False\<rparr>))))"

definition s_finalize_hmac :: "'c hmac_ctx_table \<Rightarrow> 'c aws_hmac \<Rightarrow> aws_byte_buf \<Rightarrow>
    unit result \<times> 'c aws_hmac \<times> aws_byte_buf" where
  "s_finalize_hmac T hmac output =
     (if \<not> hmac_good hmac then (Inl (Raised AWS_ERROR_INVALID_STATE), hmac, output)
      else case hmac_impl hmac of
        None \<Rightarrow> (Inl (Undefined Null_deref), hmac, output)
      | Some ctx \<Rightarrow>
          if buf_room output < hmac_digest_size hmac
          then (Inl (Raised AWS_ERROR_SHORT_BUFFER), hmac, output)
          else (case hmac_final_fn T ctx of
              (True, md, ctx') \<Rightarrow>
                (case poke output md of
                   Inl e \<Rightarrow> (Inl e, hmac, output)
                 | Inr output' \<Rightarrow>
                     (Inr (), hmac\<lparr>hmac_impl := Some ctx', hmac_good := False\<rparr>,
                      add_len (hmac_digest_size hmac) output'))
            | (False, _, ctx') \<Rightarrow>
                (Inl (Raised AWS_ERROR_INVALID_ARGUMENT),
                 hmac\<lparr>hmac_impl := Some ctx', hmac_good := False\<rparr>, output)))"

definition openssl_hmac_vtable :: "'c hmac_ctx_table \<Rightarrow> 'c aws_hmac_vtable" where
  "openssl_hmac_vtable T = \<lparr>hmac_vt_update = s_update_hmac T, hmac_vt_finalize = s_finalize_hmac T\<rparr>"

section \<open>The implementation satisfies the contract\<close>

text \<open>What libcrypto documents: \<open>msg\<close> is the key and the message a context has been given, and
  \<open>M\<close> the HMAC of a message under a key. The length of a key is a C int.\<close>

definition hmac_spec :: "'c hmac_ctx_table \<Rightarrow> ('c \<Rightarrow> (bytes \<times> bytes) option) \<Rightarrow>
    (bytes \<Rightarrow> bytes \<Rightarrow> bytes) \<Rightarrow> bool" where
  "hmac_spec T msg M \<longleftrightarrow>
     (\<forall>c k c'. length k \<le> INT_MAX \<longrightarrow> hmac_init_ex_fn T c k EVP_sha256 = (True, c') \<longrightarrow> msg c' = Some (k, [])) \<and>
     (\<forall>c k m b c'. msg c = Some (k, m) \<longrightarrow> hmac_update_fn T c b = (True, c') \<longrightarrow> msg c' = Some (k, m @ b)) \<and>
     (\<forall>c k m d c'. msg c = Some (k, m) \<longrightarrow> hmac_final_fn T c = (True, d, c') \<longrightarrow> d = M k m) \<and>
     (\<forall>k m. length (M k m) = 32)"

definition hmac_reliable :: "'c hmac_ctx_table \<Rightarrow> bool" where
  "hmac_reliable T \<longleftrightarrow> hmac_new_ctx_fn T \<noteq> None \<and> (\<forall>c k md. length k \<le> INT_MAX \<longrightarrow> fst (hmac_init_ex_fn T c k md)) \<and>
     (\<forall>c b. fst (hmac_update_fn T c b)) \<and> (\<forall>c. fst (hmac_final_fn T c))"

definition hmac_inv :: "('c \<Rightarrow> (bytes \<times> bytes) option) \<Rightarrow> bytes \<Rightarrow> 'c aws_hmac \<Rightarrow> bool" where
  "hmac_inv msg k h \<longleftrightarrow> hmac_digest_size h = 32 \<and>
     (hmac_good h \<longrightarrow> (\<exists>c m. hmac_impl h = Some c \<and> msg c = Some (k, m)))"

definition hmac_fed :: "('c \<Rightarrow> (bytes \<times> bytes) option) \<Rightarrow> 'c aws_hmac \<Rightarrow> bytes option" where
  "hmac_fed msg h =
     (if hmac_good h then (case hmac_impl h of None \<Rightarrow> None | Some c \<Rightarrow> map_option snd (msg c)) else None)"

lemma hmac_goodE:
  assumes "hmac_inv msg k h" and "hmac_fed msg h = Some m"
  obtains c where "hmac_good h" "hmac_impl h = Some c" "msg c = Some (k, m)" "hmac_digest_size h = 32"
  using assms by (auto simp: hmac_inv_def hmac_fed_def split: if_splits)

lemma hmac_spent: "hmac_inv msg k h \<Longrightarrow> hmac_fed msg h = None \<Longrightarrow> \<not> hmac_good h"
  by (auto simp: hmac_inv_def hmac_fed_def)

lemma hmac_laws:
  assumes "hmac_spec T msg M"
  shows "length k \<le> INT_MAX \<Longrightarrow> hmac_init_ex_fn T c k EVP_sha256 = (True, c') \<Longrightarrow> msg c' = Some (k, [])"
    and "msg c = Some (k, m) \<Longrightarrow> hmac_update_fn T c b = (True, c') \<Longrightarrow> msg c' = Some (k, m @ b)"
    and "msg c = Some (k, m) \<Longrightarrow> hmac_final_fn T c = (True, d, c') \<Longrightarrow> d = M k m"
    and "length (M k m) = 32"
  using assms unfolding hmac_spec_def by blast+

lemma hmac_reliable_laws:
  assumes "hmac_reliable T"
  shows "length k \<le> INT_MAX \<Longrightarrow> fst (hmac_init_ex_fn T c k md)" and "fst (hmac_update_fn T c b)" and "fst (hmac_final_fn T c)"
    and "hmac_new_ctx_fn T \<noteq> None"
  using assms unfolding hmac_reliable_def by blast+

lemma hmac_update_ok:
  assumes S: "hmac_spec T msg M" and h: "hmac_inv msg k h" "hmac_fed msg h = Some m"
    and b: "bytes_at (ptr cur) (cur_len cur) = Inr b"
  shows "(\<exists>h'. s_update_hmac T h cur = (Inr (), h') \<and> hmac_inv msg k h' \<and> hmac_fed msg h' = Some (m @ b)) \<or>
    \<not> hmac_reliable T \<and> (\<exists>h'. s_update_hmac T h cur = (Inl (Raised AWS_ERROR_INVALID_ARGUMENT), h') \<and>
      hmac_inv msg k h' \<and> hmac_fed msg h' = None)"
proof -
  obtain c where c: "hmac_good h" "hmac_impl h = Some c" "msg c = Some (k, m)" "hmac_digest_size h = 32"
    by (rule hmac_goodE [OF h])
  obtain ok c' where u: "hmac_update_fn T c b = (ok, c')" by (cases "hmac_update_fn T c b")
  show ?thesis
  proof (cases ok)
    case True
    with hmac_laws(2) [OF S c(3)] u c b show ?thesis
      by (simp add: s_update_hmac_def hmac_inv_def hmac_fed_def)
  next
    case False
    with hmac_reliable_laws(2) [of T c b] u have "\<not> hmac_reliable T" by auto
    with False u c b show ?thesis by (simp add: s_update_hmac_def hmac_inv_def hmac_fed_def)
  qed
qed

lemma hmac_finalize_ok:
  assumes S: "hmac_spec T msg M" and h: "hmac_inv msg k h" "hmac_fed msg h = Some m"
    and v: "valid_buf out" and r: "32 \<le> room out"
  shows "(\<exists>h' out'. s_finalize_hmac T h out = (Inr (), h', out') \<and> hmac_inv msg k h' \<and> hmac_fed msg h' = None \<and>
      appends out (M k m) (Some out')) \<or>
    \<not> hmac_reliable T \<and> (\<exists>h'. s_finalize_hmac T h out = (Inl (Raised AWS_ERROR_INVALID_ARGUMENT), h', out) \<and>
      hmac_inv msg k h' \<and> hmac_fed msg h' = None)"
proof -
  obtain c where c: "hmac_good h" "hmac_impl h = Some c" "msg c = Some (k, m)" "hmac_digest_size h = 32"
    by (rule hmac_goodE [OF h])
  obtain ok d c' where u: "hmac_final_fn T c = (ok, d, c')" by (cases "hmac_final_fn T c")
  show ?thesis
  proof (cases ok)
    case True
    with hmac_laws(3) [OF S c(3)] u have d: "d = M k m" by simp
    have "length (M k m) \<le> room out" using r hmac_laws(4) [OF S] by simp
    from poke_appends [OF v this] obtain b1 where "poke out (M k m) = Inr b1"
        "appends out (M k m) (Some (add_len 32 b1))"
      using hmac_laws(4) [OF S] by metis
    with True u d c r v show ?thesis by (simp add: s_finalize_hmac_def hmac_inv_def hmac_fed_def)
  next
    case False
    with hmac_reliable_laws(3) [of T c] u have "\<not> hmac_reliable T" by auto
    with False u c r v show ?thesis by (simp add: s_finalize_hmac_def hmac_inv_def hmac_fed_def)
  qed
qed

interpretation openssl_hmac: digest "s_update_hmac T" "s_finalize_hmac T"
  "\<lambda>h. hmac_spec T msg M \<and> hmac_inv msg k h" "hmac_fed msg" 32
  "\<lambda>m. if hmac_spec T msg M then M k m else replicate 32 0" "hmac_reliable T" "\<lambda>_. True" for T msg M k
proof (unfold_locales, goal_cases)
  case (1 h m cur b)
  then show ?case using hmac_update_ok [of T msg M k h m cur b] by blast
next
  case (2 h m out)
  then show ?case using hmac_finalize_ok [of T msg M k h m out] by auto
next
  case (3 h m out)
  then have h: "hmac_inv msg k h" "hmac_fed msg h = Some m" by simp_all
  with 3 show ?case by (auto elim!: hmac_goodE simp: s_finalize_hmac_def)
next
  case (4 h cur)
  then show ?case using hmac_spent [of msg k h] by (simp add: s_update_hmac_def)
next
  case (5 h out)
  then show ?case using hmac_spent [of msg k h] by (simp add: s_finalize_hmac_def)
next
  case (6 m)
  then show ?case using hmac_laws(4) [of T msg M k m] by simp
qed simp

section \<open>Properties of HMAC\<close>

lemma hmac_new_ok:
  assumes "common_spec C" and "hmac_spec T msg M" and "hmac_reliable T"
    and "bytes_at (ptr secret) (cur_len secret) = Inr k" and "length k \<le> INT_MAX"
  obtains h where "aws_sha256_hmac_default_new C T secret = Inr h" "hmac_inv msg k h" "hmac_fed msg h = Some []"
proof -
  obtain c where c: "hmac_new_ctx_fn T = Some c" using hmac_reliable_laws(4) [OF assms(3)] by blast
  obtain c' where c': "hmac_init_ex_fn T (hmac_init_fn T c) k EVP_sha256 = (True, c')"
    using hmac_reliable_laws(1) [OF assms(3,5), of "hmac_init_fn T c" EVP_sha256]
    by (cases "hmac_init_ex_fn T (hmac_init_fn T c) k EVP_sha256") simp
  with hmac_laws(1) [OF assms(2,5)] c assms(1,4) show ?thesis
    by (intro that [of "\<lparr>hmac_digest_size = 32, hmac_good = True, hmac_impl = Some c'\<rparr>"])
      (simp_all add: aws_sha256_hmac_default_new_def hmac_inv_def hmac_fed_def)
qed

lemma hmac_finalize_eq:
  "hmac_inv msg k h \<Longrightarrow> aws_hmac_finalize (openssl_hmac_vtable T) h out n =
     digest_finalize (s_finalize_hmac T) 32 h out n"
  by (simp add: aws_hmac_finalize_def openssl_hmac_vtable_def hmac_inv_def)

lemma hmac_update_eq: "aws_hmac_update (openssl_hmac_vtable T) = s_update_hmac T"
  by (simp add: aws_hmac_update_def openssl_hmac_vtable_def fun_eq_iff)

text \<open>
  HMAC in pieces and in one shot: a new HMAC object fed the pieces of a message and
  finalized appends the HMAC-SHA256 of the whole message under the secret, truncated as asked, or
  fails with AWS_ERROR_SHORT_BUFFER and changes nothing; \<open>aws_sha256_hmac_compute\<close> on a message in
  one piece does the same.
\<close>

theorem hmac_of_pieces:
  assumes "common_spec C" and S: "hmac_spec T msg M" and R: "hmac_reliable T"
    and key: "bytes_at (ptr secret) (cur_len secret) = Inr k" "length k \<le> INT_MAX"
    and pieces: "list_all2 (\<lambda>c b. bytes_at (ptr c) (cur_len c) = Inr b) cs bs" and v: "valid_buf out"
  shows "(\<exists>h h1. aws_sha256_hmac_default_new C T secret = Inr h \<and>
      update_all (aws_hmac_update (openssl_hmac_vtable T)) cs h = (Inr (), h1) \<and>
      (if out_len 32 n \<le> room out
       then \<exists>h2 out'. aws_hmac_finalize (openssl_hmac_vtable T) h1 out n = (Inr (), h2, out') \<and>
              appends out (take (out_len 32 n) (M k (concat bs))) (Some out')
       else aws_hmac_finalize (openssl_hmac_vtable T) h1 out n = (Inl (Raised AWS_ERROR_SHORT_BUFFER), h1, out))) \<and>
    (\<forall>c b. bytes_at (ptr c) (cur_len c) = Inr b \<longrightarrow> out_len 32 n \<le> room out \<longrightarrow>
      (\<exists>out'. aws_sha256_hmac_compute (openssl_hmac_vtable T) (aws_sha256_hmac_default_new C T) secret c out n =
         (Inr (), out') \<and> appends out (take (out_len 32 n) (M k b)) (Some out')))"
proof -
  obtain h where h: "aws_sha256_hmac_default_new C T secret = Inr h" "hmac_inv msg k h" "hmac_fed msg h = Some []"
    by (rule hmac_new_ok [OF assms(1) S R key])
  obtain h1 where h1: "update_all (s_update_hmac T) cs h = (Inr (), h1)" "hmac_inv msg k h1"
      "hmac_fed msg h1 = Some (concat bs)"
    using openssl_hmac.update_all_ok [of T msg M k h "[]" cs bs] R S h pieces by auto
  have one: "\<exists>out'. aws_sha256_hmac_compute (openssl_hmac_vtable T) (aws_sha256_hmac_default_new C T) secret c out n =
         (Inr (), out') \<and> appends out (take (out_len 32 n) (M k b)) (Some out')"
    if b: "bytes_at (ptr c) (cur_len c) = Inr b" and r: "out_len 32 n \<le> room out" for c b
  proof -
    obtain h2 where h2: "s_update_hmac T h c = (Inr (), h2)" "hmac_inv msg k h2"
      using hmac_update_ok [OF S h(2,3) b] R by blast
    then have "aws_sha256_hmac_compute (openssl_hmac_vtable T) (aws_sha256_hmac_default_new C T) secret c out n =
        digest_compute (s_update_hmac T) (digest_finalize (s_finalize_hmac T) 32) (Inr h) c out n"
      using h(1) hmac_finalize_eq [OF h2(2), of T out n]
      by (simp add: aws_sha256_hmac_compute_def aws_sha256_hmac_new_def digest_compute_def hmac_update_eq)
    then show ?thesis using openssl_hmac.compute_ok [of T msg M k h c b out n] S R h b v r by simp
  qed
  show ?thesis
    using openssl_hmac.truncated_ok [of T msg M k h1 "concat bs" out n]
      openssl_hmac.truncated_short [of T msg M k h1 "concat bs" out n] R S h h1 v one
    by (cases "out_len 32 n \<le> room out") (auto simp: not_le hmac_update_eq hmac_finalize_eq [OF h1(2)])
qed

text \<open>An instance of libcrypto's table that satisfies its specification.\<close>

definition ref_hmac :: "(bytes \<times> bytes) option hmac_ctx_table" where
  "ref_hmac =
     \<lparr>hmac_new_ctx_fn = Some None, hmac_init_fn = (\<lambda>c. c),
      hmac_init_ex_fn = (\<lambda>_ k _. (True, Some (k, []))),
      hmac_update_fn = (\<lambda>c b. (True, map_option (\<lambda>(k, m). (k, m @ b)) c)),
      hmac_final_fn = (\<lambda>c. (True, (case c of None \<Rightarrow> []
        | Some (k, m) \<Rightarrow> replicate 32 (word_of_nat (length k + length m))), None))\<rparr>"

lemma ref_hmac_ok:
  "hmac_spec ref_hmac id (\<lambda>k m. replicate 32 (word_of_nat (length k + length m)))" "hmac_reliable ref_hmac"
  by (auto simp: hmac_spec_def hmac_reliable_def ref_hmac_def)

lemma hmac_of_pieces_witness:
  "\<exists>h h1 h2 out'. aws_sha256_hmac_default_new ref_common ref_hmac (cursor_of [9]) = Inr h \<and>
     update_all (aws_hmac_update (openssl_hmac_vtable ref_hmac)) [cursor_of [1, 2], cursor_of [3]] h = (Inr (), h1) \<and>
     aws_hmac_finalize (openssl_hmac_vtable ref_hmac) h1 (empty_out 40) 0 = (Inr (), h2, out') \<and>
     appends (empty_out 40) (replicate 32 4) (Some out')"
  using conjunct1 [OF hmac_of_pieces [OF common_spec_ref ref_hmac_ok, of "cursor_of [9]" "[9]"
      "[cursor_of [1, 2], cursor_of [3]]" "[[1, 2], [3]]" "empty_out 40" 0]]
  by (simp add: out_len_def)

end
