(* ===== verification/Symmetric_Cipher.thy ===== *)
theory Symmetric_Cipher
  imports Digest
begin

text \<open>
  The platform-independent part of symmetric ciphers, \<^verbatim>\<open>source/symmetric_cipher.c\<close>: the checks in
  front of the constructors and operations, the \<open>good\<close> flag that makes a cipher a state machine,
  random keys and initialization vectors, and the growth of output buffers. The operations go
  through the cipher's vtable, a record of functions here; the properties hold for any vtable.
\<close>

section \<open>Ciphers\<close>

record 'i aws_symmetric_cipher =
  iv :: aws_byte_buf
  key :: aws_byte_buf
  aad :: aws_byte_buf
  ctag :: aws_byte_buf
  block_size :: nat
  key_length_bits :: nat
  cipher_good :: bool
  cipher_impl :: 'i

type_synonym 'i cipher_op =
  "'i aws_symmetric_cipher \<Rightarrow> aws_byte_buf \<Rightarrow> unit result \<times> 'i aws_symmetric_cipher \<times> aws_byte_buf"

record 'i aws_symmetric_cipher_vtable =
  vt_reset :: "'i aws_symmetric_cipher \<Rightarrow> unit result \<times> 'i aws_symmetric_cipher"
  vt_encrypt :: "aws_byte_cursor \<Rightarrow> 'i cipher_op"
  vt_decrypt :: "aws_byte_cursor \<Rightarrow> 'i cipher_op"
  vt_finalize_encryption :: "'i cipher_op"
  vt_finalize_decryption :: "'i cipher_op"

abbreviation AWS_AES_256_CIPHER_BLOCK_SIZE :: nat where "AWS_AES_256_CIPHER_BLOCK_SIZE \<equiv> 16"
abbreviation AWS_AES_256_KEY_BIT_LEN :: nat where "AWS_AES_256_KEY_BIT_LEN \<equiv> 256"
abbreviation AWS_AES_256_KEY_BYTE_LEN :: nat where "AWS_AES_256_KEY_BYTE_LEN \<equiv> 32"

section \<open>Construction\<close>

definition s_validate_key_materials :: "aws_byte_cursor option \<Rightarrow> nat \<Rightarrow> aws_byte_cursor option \<Rightarrow>
    nat \<Rightarrow> unit result" where
  "s_validate_key_materials k expected_key_size v expected_iv_size =
     (if (case k of None \<Rightarrow> False | Some c \<Rightarrow> cur_len c \<noteq> expected_key_size)
      then Inl (Raised AWS_ERROR_CAL_INVALID_KEY_LENGTH_FOR_ALGORITHM)
      else if (case v of None \<Rightarrow> False | Some c \<Rightarrow> cur_len c \<noteq> expected_iv_size)
      then Inl (Raised AWS_ERROR_CAL_INVALID_CIPHER_MATERIAL_SIZE_FOR_ALGORITHM)
      else Inr ())"

text \<open>The replaceable constructors, static variables of the file.\<close>

record 'k cipher_new_fns =
  s_aes_cbc_new_fn :: "aws_byte_cursor option \<Rightarrow> aws_byte_cursor option \<Rightarrow> 'k result"
  s_aes_ctr_new_fn :: "aws_byte_cursor option \<Rightarrow> aws_byte_cursor option \<Rightarrow> 'k result"
  s_aes_gcm_new_fn :: "aws_byte_cursor option \<Rightarrow> aws_byte_cursor option \<Rightarrow> aws_byte_cursor option \<Rightarrow>
    aws_byte_cursor option \<Rightarrow> 'k result"
  s_aes_keywrap_new_fn :: "aws_byte_cursor option \<Rightarrow> 'k result"

definition aws_aes_cbc_256_new :: "'k cipher_new_fns \<Rightarrow> aws_byte_cursor option \<Rightarrow>
    aws_byte_cursor option \<Rightarrow> 'k result" where
  "aws_aes_cbc_256_new fns k v =
     rbind (s_validate_key_materials k AWS_AES_256_KEY_BYTE_LEN v AWS_AES_256_CIPHER_BLOCK_SIZE)
       (\<lambda>_. s_aes_cbc_new_fn fns k v)"

definition aws_aes_ctr_256_new :: "'k cipher_new_fns \<Rightarrow> aws_byte_cursor option \<Rightarrow>
    aws_byte_cursor option \<Rightarrow> 'k result" where
  "aws_aes_ctr_256_new fns k v =
     rbind (s_validate_key_materials k AWS_AES_256_KEY_BYTE_LEN v AWS_AES_256_CIPHER_BLOCK_SIZE)
       (\<lambda>_. s_aes_ctr_new_fn fns k v)"

definition aws_aes_gcm_256_new :: "'k cipher_new_fns \<Rightarrow> aws_byte_cursor option \<Rightarrow>
    aws_byte_cursor option \<Rightarrow> aws_byte_cursor option \<Rightarrow> aws_byte_cursor option \<Rightarrow> 'k result" where
  "aws_aes_gcm_256_new fns k v a decryption_tag =
     rbind (s_validate_key_materials k AWS_AES_256_KEY_BYTE_LEN v (AWS_AES_256_CIPHER_BLOCK_SIZE - 4))
       (\<lambda>_. s_aes_gcm_new_fn fns k v a decryption_tag)"

definition aws_aes_keywrap_256_new :: "'k cipher_new_fns \<Rightarrow> aws_byte_cursor option \<Rightarrow> 'k result" where
  "aws_aes_keywrap_256_new fns k =
     rbind (s_validate_key_materials k AWS_AES_256_KEY_BYTE_LEN None 0) (\<lambda>_. s_aes_keywrap_new_fn fns k)"

section \<open>Operations\<close>

definition s_check_input_size_limits :: "'i aws_symmetric_cipher \<Rightarrow> aws_byte_cursor \<Rightarrow> unit result" where
  "s_check_input_size_limits cipher inp =
     (if cur_len inp \<le> size_sub INT_MAX (block_size cipher) then Inr ()
      else Inl (Raised AWS_ERROR_CAL_BUFFER_TOO_LARGE_FOR_ALGORITHM))"

definition aws_symmetric_cipher_encrypt :: "'i aws_symmetric_cipher_vtable \<Rightarrow> aws_byte_cursor \<Rightarrow> 'i cipher_op" where
  "aws_symmetric_cipher_encrypt vt to_encrypt cipher out =
     (case s_check_input_size_limits cipher to_encrypt of
        Inl e \<Rightarrow> (Inl e, cipher, out)
      | Inr _ \<Rightarrow> if cipher_good cipher then vt_encrypt vt to_encrypt cipher out
                 else (Inl (Raised AWS_ERROR_INVALID_STATE), cipher, out))"

definition aws_symmetric_cipher_decrypt :: "'i aws_symmetric_cipher_vtable \<Rightarrow> aws_byte_cursor \<Rightarrow> 'i cipher_op" where
  "aws_symmetric_cipher_decrypt vt to_decrypt cipher out =
     (case s_check_input_size_limits cipher to_decrypt of
        Inl e \<Rightarrow> (Inl e, cipher, out)
      | Inr _ \<Rightarrow> if cipher_good cipher then vt_decrypt vt to_decrypt cipher out
                 else (Inl (Raised AWS_ERROR_INVALID_STATE), cipher, out))"

definition aws_symmetric_cipher_finalize_encryption :: "'i aws_symmetric_cipher_vtable \<Rightarrow> 'i cipher_op" where
  "aws_symmetric_cipher_finalize_encryption vt cipher out =
     (if cipher_good cipher then
        (case vt_finalize_encryption vt cipher out of
           (ret_val, cipher', out') \<Rightarrow> (ret_val, cipher'\<lparr>cipher_good := False\<rparr>, out'))
      else (Inl (Raised AWS_ERROR_INVALID_STATE), cipher, out))"

definition aws_symmetric_cipher_finalize_decryption :: "'i aws_symmetric_cipher_vtable \<Rightarrow> 'i cipher_op" where
  "aws_symmetric_cipher_finalize_decryption vt cipher out =
     (if cipher_good cipher then
        (case vt_finalize_decryption vt cipher out of
           (ret_val, cipher', out') \<Rightarrow> (ret_val, cipher'\<lparr>cipher_good := False\<rparr>, out'))
      else (Inl (Raised AWS_ERROR_INVALID_STATE), cipher, out))"

definition aws_symmetric_cipher_reset :: "'i aws_symmetric_cipher_vtable \<Rightarrow> 'i aws_symmetric_cipher \<Rightarrow>
    unit result \<times> 'i aws_symmetric_cipher" where
  "aws_symmetric_cipher_reset vt cipher =
     (case vt_reset vt cipher of
        (Inr _, cipher') \<Rightarrow> (Inr (), cipher'\<lparr>cipher_good := True\<rparr>)
      | (Inl e, cipher') \<Rightarrow> (Inl e, cipher'))"

definition aws_symmetric_cipher_get_tag :: "'i aws_symmetric_cipher \<Rightarrow> aws_byte_cursor" where
  "aws_symmetric_cipher_get_tag cipher = aws_byte_cursor_from_buf (ctag cipher)"

definition aws_symmetric_cipher_get_initialization_vector :: "'i aws_symmetric_cipher \<Rightarrow> aws_byte_cursor" where
  "aws_symmetric_cipher_get_initialization_vector cipher = aws_byte_cursor_from_buf (iv cipher)"

definition aws_symmetric_cipher_get_key :: "'i aws_symmetric_cipher \<Rightarrow> aws_byte_cursor" where
  "aws_symmetric_cipher_get_key cipher = aws_byte_cursor_from_buf (key cipher)"

definition aws_symmetric_cipher_is_good :: "'i aws_symmetric_cipher \<Rightarrow> bool" where
  "aws_symmetric_cipher_is_good cipher = cipher_good cipher"

definition aws_symmetric_cipher_generate_initialization_vector :: "aws_common \<Rightarrow> nat \<Rightarrow> bool \<Rightarrow>
    aws_byte_buf \<Rightarrow> aws_byte_buf result" where
  "aws_symmetric_cipher_generate_initialization_vector C len_bytes is_counter_mode out =
     (let counter_len = (if is_counter_mode then 4 else 0);
          rand_len = size_sub len_bytes counter_len
      in case aws_device_random_buffer_append C out rand_len of
           Inl _ \<Rightarrow> Inl Fatal
         | Inr out' \<Rightarrow>
             if is_counter_mode
             then (case aws_byte_buf_write_be32 C out' 1 of None \<Rightarrow> Inr out' | Some out'' \<Rightarrow> Inr out'')
             else Inr out')"

definition aws_symmetric_cipher_generate_key :: "aws_common \<Rightarrow> nat \<Rightarrow> aws_byte_buf \<Rightarrow> aws_byte_buf result" where
  "aws_symmetric_cipher_generate_key C key_len_bytes out =
     (case aws_device_random_buffer_append C out key_len_bytes of Inl _ \<Rightarrow> Inl Fatal | Inr out' \<Rightarrow> Inr out')"

definition aws_symmetric_cipher_try_ensure_sufficient_buffer_space :: "aws_common \<Rightarrow> aws_byte_buf \<Rightarrow> nat \<Rightarrow>
    aws_byte_buf result" where
  "aws_symmetric_cipher_try_ensure_sufficient_buffer_space C buf n =
     (if buf_room buf < n then aws_byte_buf_reserve_relative C buf n else Inr buf)"

section \<open>The state machine of a cipher\<close>

datatype cipher_call = Encrypt aws_byte_cursor | Decrypt aws_byte_cursor | Finalize_encryption
  | Finalize_decryption

fun run_call :: "'i aws_symmetric_cipher_vtable \<Rightarrow> cipher_call \<Rightarrow> 'i cipher_op" where
  "run_call vt (Encrypt c) = aws_symmetric_cipher_encrypt vt c"
| "run_call vt (Decrypt c) = aws_symmetric_cipher_decrypt vt c"
| "run_call vt Finalize_encryption = aws_symmetric_cipher_finalize_encryption vt"
| "run_call vt Finalize_decryption = aws_symmetric_cipher_finalize_decryption vt"

primrec run_calls :: "'i aws_symmetric_cipher_vtable \<Rightarrow> cipher_call list \<Rightarrow> 'i aws_symmetric_cipher \<Rightarrow>
    aws_byte_buf \<Rightarrow> unit result list \<times> 'i aws_symmetric_cipher \<times> aws_byte_buf" where
  "run_calls vt [] c out = ([], c, out)"
| "run_calls vt (x # xs) c out =
     (let (r, c1, out1) = run_call vt x c out; (rs, c2, out2) = run_calls vt xs c1 out1
      in (r # rs, c2, out2))"

text \<open>The error of a call on a cipher that is not good: the size check comes first.\<close>

definition refused :: "'i aws_symmetric_cipher \<Rightarrow> cipher_call \<Rightarrow> unit result" where
  "refused c x = (case x of
       Encrypt i \<Rightarrow> (case s_check_input_size_limits c i of Inl e \<Rightarrow> Inl e
         | Inr _ \<Rightarrow> Inl (Raised AWS_ERROR_INVALID_STATE))
     | Decrypt i \<Rightarrow> (case s_check_input_size_limits c i of Inl e \<Rightarrow> Inl e
         | Inr _ \<Rightarrow> Inl (Raised AWS_ERROR_INVALID_STATE))
     | _ \<Rightarrow> Inl (Raised AWS_ERROR_INVALID_STATE))"

lemma not_good_call: "\<not> cipher_good c \<Longrightarrow> run_call vt x c out = (refused c x, c, out)"
  by (cases x)
    (auto simp: refused_def aws_symmetric_cipher_encrypt_def aws_symmetric_cipher_decrypt_def
      aws_symmetric_cipher_finalize_encryption_def aws_symmetric_cipher_finalize_decryption_def
      split: sum.splits)

lemma not_good_calls: "\<not> cipher_good c \<Longrightarrow> run_calls vt xs c out = (map (refused c) xs, c, out)"
  by (induction xs) (simp_all add: not_good_call)

lemma finalize_not_good:
  "x \<in> {Finalize_encryption, Finalize_decryption} \<Longrightarrow> run_call vt x c out = (r, c1, out1) \<Longrightarrow>
     \<not> cipher_good c1"
  by (auto simp: aws_symmetric_cipher_finalize_encryption_def aws_symmetric_cipher_finalize_decryption_def
      split: if_splits prod.splits)

text \<open>
  Claim C38. The life of a cipher, for any implementation: after a finalize call, successful or
  not, every further call fails as long as no reset is called (with AWS_ERROR_INVALID_STATE, or with
  AWS_ERROR_CAL_BUFFER_TOO_LARGE_FOR_ALGORITHM for an oversized input) and changes neither the
  cipher nor the output buffer; a successful reset makes the cipher good again.
\<close>

theorem finalized_cipher_refuses:
  assumes "x \<in> {Finalize_encryption, Finalize_decryption}" and "run_call vt x c out = (r, c1, out1)"
  shows "run_calls vt xs c1 out2 = (map (refused c1) xs, c1, out2) \<and>
    (\<forall>r \<in> set (map (refused c1) xs). r \<in> {Inl (Raised AWS_ERROR_INVALID_STATE),
       Inl (Raised AWS_ERROR_CAL_BUFFER_TOO_LARGE_FOR_ALGORITHM)}) \<and>
    (\<forall>c2. aws_symmetric_cipher_reset vt c1 = (Inr (), c2) \<longrightarrow> aws_symmetric_cipher_is_good c2)"
  using not_good_calls [OF finalize_not_good [OF assms], of vt xs out2]
  by (auto simp: refused_def s_check_input_size_limits_def aws_symmetric_cipher_reset_def
      aws_symmetric_cipher_is_good_def split: cipher_call.splits sum.splits prod.splits)

definition sample_cipher :: "bool \<Rightarrow> unit aws_symmetric_cipher" where
  "sample_cipher g = \<lparr>iv = zero_buf, key = zero_buf, aad = zero_buf, ctag = zero_buf, block_size = 16,
     key_length_bits = 256, cipher_good = g, cipher_impl = ()\<rparr>"

definition sample_vtable :: "unit aws_symmetric_cipher_vtable" where
  "sample_vtable = \<lparr>vt_reset = (\<lambda>c. (Inr (), c)), vt_encrypt = (\<lambda>_ c out. (Inr (), c, out)),
     vt_decrypt = (\<lambda>_ c out. (Inr (), c, out)), vt_finalize_encryption = (\<lambda>c out. (Inr (), c, out)),
     vt_finalize_decryption = (\<lambda>c out. (Inr (), c, out))\<rparr>"

lemma finalized_cipher_refuses_witness:
  "run_calls sample_vtable [Encrypt null_cursor, Finalize_decryption] (sample_cipher False) zero_buf =
     (map (refused (sample_cipher False)) [Encrypt null_cursor, Finalize_decryption], sample_cipher False, zero_buf)"
proof -
  have "run_call sample_vtable Finalize_encryption (sample_cipher True) zero_buf =
      (Inr (), sample_cipher False, zero_buf)"
    by (simp add: sample_vtable_def sample_cipher_def aws_symmetric_cipher_finalize_encryption_def)
  from finalized_cipher_refuses [OF _ this] show ?thesis by blast
qed

text \<open>
  Size limits: an input longer than \<open>INT_MAX\<close> minus the block size never reaches the
  implementation, whatever the state of the cipher, and an input within the limit reaches it
  exactly when the cipher is good. In particular the length plus a block fits in a C \<open>int\<close>, which
  libcrypto uses.
\<close>

theorem input_size_checked:
  assumes "block_size c \<le> INT_MAX"
  shows "aws_symmetric_cipher_encrypt vt i c out =
      (if cur_len i + block_size c > INT_MAX
       then (Inl (Raised AWS_ERROR_CAL_BUFFER_TOO_LARGE_FOR_ALGORITHM), c, out)
       else if cipher_good c then vt_encrypt vt i c out
       else (Inl (Raised AWS_ERROR_INVALID_STATE), c, out)) \<and>
    aws_symmetric_cipher_decrypt vt i c out =
      (if cur_len i + block_size c > INT_MAX
       then (Inl (Raised AWS_ERROR_CAL_BUFFER_TOO_LARGE_FOR_ALGORITHM), c, out)
       else if cipher_good c then vt_decrypt vt i c out
       else (Inl (Raised AWS_ERROR_INVALID_STATE), c, out))"
  using assms
  by (auto simp: aws_symmetric_cipher_encrypt_def aws_symmetric_cipher_decrypt_def
      s_check_input_size_limits_def split: sum.splits if_splits)

lemma input_size_checked_witness:
  "aws_symmetric_cipher_encrypt sample_vtable \<lparr>ptr = None, cur_len = 2 ^ 31 - 16\<rparr> (sample_cipher True) zero_buf =
     (Inl (Raised AWS_ERROR_CAL_BUFFER_TOO_LARGE_FOR_ALGORITHM), sample_cipher True, zero_buf)"
  using input_size_checked [of "sample_cipher True" sample_vtable "\<lparr>ptr = None, cur_len = 2 ^ 31 - 16\<rparr>" zero_buf]
  by (simp add: sample_cipher_def)

section \<open>Keys, vectors and buffers\<close>

lemma counter_one: "be_bytes 4 (unat (1 :: 32 word)) = [0, 0, 0, 1]"
proof -
  have "(4::nat) = Suc (Suc (Suc (Suc 0)))" by simp
  then show ?thesis by (simp only: be_bytes.simps) simp
qed

text \<open>
  Generated initialization vectors and keys: into a buffer with room for them, exactly
  \<open>len_bytes\<close> bytes are appended; in counter mode the last four are the big-endian counter 1 and the
  others come from the random source, otherwise all of them do. A buffer without room aborts.
\<close>

theorem generate_iv_and_key:
  assumes C: "common_spec C" and v: "valid_buf out" and n: "4 \<le> n" "n \<le> SIZE_MAX"
  shows "(n \<le> room out \<longrightarrow> (\<exists>rnd out'. length rnd = n - (if ctr then 4 else 0) \<and>
      aws_symmetric_cipher_generate_initialization_vector C n ctr out = Inr out' \<and>
      appends out (rnd @ (if ctr then [0, 0, 0, 1] else [])) (Some out'))) \<and>
    (if n \<le> room out
     then \<exists>rnd out'. length rnd = n \<and> aws_symmetric_cipher_generate_key C n out = Inr out' \<and>
            appends out rnd (Some out')
     else aws_symmetric_cipher_generate_key C n out = Inl Fatal)"
proof (intro conjI impI)
  let ?k = "n - (if ctr then 4 else 0)"
  assume r: "n \<le> room out"
  then obtain rnd b1 where b1: "length rnd = ?k" "aws_device_random_buffer_append C out ?k = Inr b1"
      "appends out rnd (Some b1)"
    using random_append_law [OF C v le_trans [OF diff_le_self r, of "if ctr then 4 else 0"]] by (elim exE conjE)
  have v1: "valid_buf b1" using b1(3) by (simp add: appends_def)
  show "\<exists>rnd out'. length rnd = ?k \<and>
      aws_symmetric_cipher_generate_initialization_vector C n ctr out = Inr out' \<and>
      appends out (rnd @ (if ctr then [0, 0, 0, 1] else [])) (Some out')"
  proof (cases ctr)
    case False
    then have "aws_symmetric_cipher_generate_initialization_vector C n ctr out = Inr b1"
      using b1(2) by (simp add: aws_symmetric_cipher_generate_initialization_vector_def Let_def)
    with b1(1,3) False show ?thesis by auto
  next
    case True
    have "4 \<le> room b1" using appends_room [OF b1(3)] b1(1) True r n by simp
    then obtain b2 where b2: "aws_byte_buf_write_be32 C b1 1 = Some b2" "appends b1 [0, 0, 0, 1] (Some b2)"
      using write_laws(4) [OF C v1, of 1] unfolding counter_one
      by (cases "aws_byte_buf_write_be32 C b1 1") (simp_all add: appends_def)
    have "aws_symmetric_cipher_generate_initialization_vector C n ctr out = Inr b2"
      using b1(2) b2(1) True n by (simp add: aws_symmetric_cipher_generate_initialization_vector_def Let_def)
    with b1(1) True appends_trans [OF b1(3) b2(2)] show ?thesis by auto
  qed
next
  show "if n \<le> room out
     then \<exists>rnd out'. length rnd = n \<and> aws_symmetric_cipher_generate_key C n out = Inr out' \<and>
            appends out rnd (Some out')
     else aws_symmetric_cipher_generate_key C n out = Inl Fatal"
    using random_append_law [OF C v, of n] random_append_fails_law [OF C v, of n]
    by (cases "n \<le> room out") (force simp: aws_symmetric_cipher_generate_key_def)+
qed

lemma generate_iv_and_key_witness:
  "\<exists>rnd out'. length rnd = 12 \<and>
     aws_symmetric_cipher_generate_initialization_vector ref_common 16 True
       \<lparr>buf_len = 0, buffer = Some (replicate 16 0), capacity = 16, allocator = True\<rparr> = Inr out' \<and>
     appends \<lparr>buf_len = 0, buffer = Some (replicate 16 0), capacity = 16, allocator = True\<rparr>
       (rnd @ [0, 0, 0, 1]) (Some out')"
  using generate_iv_and_key [OF common_spec_ref, of "\<lparr>buf_len = 0, buffer = Some (replicate 16 0),
      capacity = 16, allocator = True\<rparr>" 16 True]
  by (simp add: valid_buf_def room_def)

text \<open>Growing a buffer keeps its contents and makes the room that was asked for.\<close>

lemma ensure_space:
  assumes C: "common_spec C" and v: "valid_buf b" and n: "buf_len b + n \<le> SIZE_MAX div 2"
  shows "if n \<le> room b \<or> allocator b
    then \<exists>b'. aws_symmetric_cipher_try_ensure_sufficient_buffer_space C b n = Inr b' \<and> valid_buf b' \<and>
           contents b' = contents b \<and> buf_len b' = buf_len b \<and> n \<le> room b' \<and> allocator b' = allocator b \<and>
           capacity b' \<le> max (capacity b) (buf_len b + n)
    else \<exists>e. aws_symmetric_cipher_try_ensure_sufficient_buffer_space C b n = Inl (Raised e)"
proof (cases "n \<le> room b")
  case True
  with v show ?thesis by (simp add: aws_symmetric_cipher_try_ensure_sufficient_buffer_space_def)
next
  case False
  show ?thesis
  proof (cases "allocator b")
    case True
    from reserve_law [OF C v True n] False v True show ?thesis
      by (auto simp: aws_symmetric_cipher_try_ensure_sufficient_buffer_space_def room_def)
  next
    case nogrow: False
    from reserve_fails_law [OF C v nogrow, of n] False v nogrow show ?thesis
      by (auto simp: aws_symmetric_cipher_try_ensure_sufficient_buffer_space_def)
  qed
qed

section \<open>Key material\<close>

text \<open>
  Key and vector at construction: copied from the caller or generated. The results of the buffer
  functions are not tested.
\<close>

definition key_material :: "aws_common \<Rightarrow> aws_byte_cursor option \<Rightarrow> aws_byte_buf result" where
  "key_material C k = (case k of
       Some cur \<Rightarrow> copy_cursor C cur
     | None \<Rightarrow> rbind (or_zero (aws_byte_buf_init C AWS_AES_256_KEY_BYTE_LEN))
                 (aws_symmetric_cipher_generate_key C AWS_AES_256_KEY_BYTE_LEN))"

definition iv_material :: "aws_common \<Rightarrow> nat \<Rightarrow> bool \<Rightarrow> aws_byte_cursor option \<Rightarrow> aws_byte_buf result" where
  "iv_material C len is_counter_mode v = (case v of
       Some cur \<Rightarrow> copy_cursor C cur
     | None \<Rightarrow> rbind (or_zero (aws_byte_buf_init C len))
                 (aws_symmetric_cipher_generate_initialization_vector C len is_counter_mode))"

end
