(* ===== verification/Openssl_Aes.thy ===== *)
theory Openssl_Aes
  imports Symmetric_Cipher
begin

text \<open>
  The AES ciphers over OpenSSL's libcrypto, \<^verbatim>\<open>source/unix/openssl_aes.c\<close>: CBC, CTR, GCM and key
  wrap (RFC 3394). The functions of libcrypto are the fields of \<open>evp_cipher_api\<close>, parameters of the
  definitions: a call returns whether it succeeded, the bytes it wrote and the context it leaves.
  Bytes are stored behind the contents of the output buffer, so that a library that writes more
  than there is room for is undefined behaviour. Additional data and tags are passed with the length that is left of theirs after
  the cast to \<open>int\<close>.

  Key wrap works in place on the memory of the output buffer. The loops over \<open>j\<close> and \<open>i\<close> run over the
  list of index pairs they visit.
\<close>

datatype evp_cipher = EVP_aes_256_cbc | EVP_aes_256_ctr | EVP_aes_256_gcm | EVP_aes_256_ecb

record 'x evp_cipher_api =
  EVP_CIPHER_CTX_new :: "'x option"
  EVP_CIPHER_CTX_cleanup :: "'x \<Rightarrow> 'x"
  EVP_EncryptInit_ex :: "'x \<Rightarrow> evp_cipher option \<Rightarrow> bytes option \<Rightarrow> bytes option \<Rightarrow> bool \<times> 'x"
  EVP_DecryptInit_ex :: "'x \<Rightarrow> evp_cipher option \<Rightarrow> bytes option \<Rightarrow> bytes option \<Rightarrow> bool \<times> 'x"
  EVP_CIPHER_CTX_set_padding :: "'x \<Rightarrow> bool \<Rightarrow> bool \<times> 'x"
  EVP_EncryptUpdate :: "'x \<Rightarrow> bytes \<Rightarrow> bool \<times> bytes \<times> 'x"
  EVP_DecryptUpdate :: "'x \<Rightarrow> bytes \<Rightarrow> bool \<times> bytes \<times> 'x"
  EVP_EncryptUpdate_aad :: "'x \<Rightarrow> bytes \<Rightarrow> int \<Rightarrow> bool \<times> 'x"
  EVP_DecryptUpdate_aad :: "'x \<Rightarrow> bytes \<Rightarrow> int \<Rightarrow> bool \<times> 'x"
  EVP_EncryptFinal_ex :: "'x \<Rightarrow> bool \<times> bytes \<times> 'x"
  EVP_DecryptFinal_ex :: "'x \<Rightarrow> bool \<times> bytes \<times> 'x"
  EVP_GCM_GET_TAG :: "'x \<Rightarrow> nat \<Rightarrow> bool \<times> bytes \<times> 'x"
  EVP_GCM_SET_TAG :: "'x \<Rightarrow> bytes \<Rightarrow> int \<Rightarrow> bool \<times> 'x"

record 'x openssl_aes_cipher =
  encryptor_ctx :: 'x
  decryptor_ctx :: 'x
  working_buffer :: aws_byte_buf

type_synonym 'x aes_cipher = "'x openssl_aes_cipher aws_symmetric_cipher"

definition set_enc :: "'x \<Rightarrow> 'x aes_cipher \<Rightarrow> 'x aes_cipher" where
  "set_enc x c = c\<lparr>cipher_impl := (cipher_impl c)\<lparr>encryptor_ctx := x\<rparr>\<rparr>"

definition set_dec :: "'x \<Rightarrow> 'x aes_cipher \<Rightarrow> 'x aes_cipher" where
  "set_dec x c = c\<lparr>cipher_impl := (cipher_impl c)\<lparr>decryptor_ctx := x\<rparr>\<rparr>"

definition set_working :: "aws_byte_buf \<Rightarrow> 'x aes_cipher \<Rightarrow> 'x aes_cipher" where
  "set_working b c = c\<lparr>cipher_impl := (cipher_impl c)\<lparr>working_buffer := b\<rparr>\<rparr>"

section \<open>Streams: CBC, CTR and GCM\<close>

text \<open>What follows a call of libcrypto that writes into \<open>out\<close>; \<open>set_ctx\<close> stores the context back.\<close>

definition evp_output :: "('x \<Rightarrow> 'x aes_cipher \<Rightarrow> 'x aes_cipher) \<Rightarrow> bool \<times> bytes \<times> 'x \<Rightarrow>
    'x openssl_aes_cipher cipher_op" where
  "evp_output set_ctx result c out = (case result of
       (False, _, x) \<Rightarrow> (Inl (Raised AWS_ERROR_INVALID_ARGUMENT), (set_ctx x c)\<lparr>cipher_good := False\<rparr>, out)
     | (True, written, x) \<Rightarrow> (case poke out written of
           Inl e \<Rightarrow> (Inl e, set_ctx x c, out)
         | Inr out' \<Rightarrow> (Inr (), set_ctx x c, add_len (length written) out')))"

definition s_encrypt :: "aws_common \<Rightarrow> 'x evp_cipher_api \<Rightarrow> aws_byte_cursor \<Rightarrow>
    'x openssl_aes_cipher cipher_op" where
  "s_encrypt C A inp c out =
     (case aws_symmetric_cipher_try_ensure_sufficient_buffer_space C out (cur_len inp + block_size c) of
        Inl f \<Rightarrow> (Inl (reraise AWS_ERROR_SHORT_BUFFER f), c, out)
      | Inr out \<Rightarrow> (case bytes_at (ptr inp) (cur_len inp) of
            Inl f \<Rightarrow> (Inl f, c, out)
          | Inr bs \<Rightarrow> evp_output set_enc (EVP_EncryptUpdate A (encryptor_ctx (cipher_impl c)) bs) c out))"

definition s_finalize_encryption :: "aws_common \<Rightarrow> 'x evp_cipher_api \<Rightarrow> 'x openssl_aes_cipher cipher_op" where
  "s_finalize_encryption C A c out =
     (case aws_symmetric_cipher_try_ensure_sufficient_buffer_space C out (block_size c) of
        Inl f \<Rightarrow> (Inl (reraise AWS_ERROR_SHORT_BUFFER f), c, out)
      | Inr out \<Rightarrow> evp_output set_enc (EVP_EncryptFinal_ex A (encryptor_ctx (cipher_impl c))) c out)"

definition s_decrypt :: "aws_common \<Rightarrow> 'x evp_cipher_api \<Rightarrow> aws_byte_cursor \<Rightarrow>
    'x openssl_aes_cipher cipher_op" where
  "s_decrypt C A inp c out =
     (case aws_symmetric_cipher_try_ensure_sufficient_buffer_space C out (cur_len inp + block_size c) of
        Inl f \<Rightarrow> (Inl (reraise AWS_ERROR_SHORT_BUFFER f), c, out)
      | Inr out \<Rightarrow> (case bytes_at (ptr inp) (cur_len inp) of
            Inl f \<Rightarrow> (Inl f, c, out)
          | Inr bs \<Rightarrow> evp_output set_dec (EVP_DecryptUpdate A (decryptor_ctx (cipher_impl c)) bs) c out))"

definition s_finalize_decryption :: "aws_common \<Rightarrow> 'x evp_cipher_api \<Rightarrow> 'x openssl_aes_cipher cipher_op" where
  "s_finalize_decryption C A c out =
     (case aws_symmetric_cipher_try_ensure_sufficient_buffer_space C out (block_size c) of
        Inl f \<Rightarrow> (Inl (reraise AWS_ERROR_SHORT_BUFFER f), c, out)
      | Inr out \<Rightarrow> evp_output set_dec (EVP_DecryptFinal_ex A (decryptor_ctx (cipher_impl c))) c out)"

definition s_clear_reusable_state :: "aws_common \<Rightarrow> 'x evp_cipher_api \<Rightarrow> 'x aes_cipher \<Rightarrow> 'x aes_cipher" where
  "s_clear_reusable_state C A c =
     (let i = cipher_impl c in
      c\<lparr>cipher_impl := i\<lparr>encryptor_ctx := EVP_CIPHER_CTX_cleanup A (encryptor_ctx i),
                         decryptor_ctx := EVP_CIPHER_CTX_cleanup A (decryptor_ctx i),
                         working_buffer := aws_byte_buf_secure_zero C (working_buffer i)\<rparr>,
        cipher_good := True\<rparr>)"

text \<open>A chain of calls \<open>f1 && f2 && ...\<close> on one context: the first failure ends it.\<close>

primrec ctx_chain :: "('x \<Rightarrow> bool \<times> 'x) list \<Rightarrow> 'x \<Rightarrow> bool \<times> 'x" where
  "ctx_chain [] x = (True, x)"
| "ctx_chain (f # fs) x = (case f x of (True, x') \<Rightarrow> ctx_chain fs x' | (False, x') \<Rightarrow> (False, x'))"

text \<open>\<open>if (!(encryptor calls) || !(decryptor calls)) return aws_raise_error(...)\<close>\<close>

definition init_contexts :: "('x \<Rightarrow> bool \<times> 'x) list \<Rightarrow> ('x \<Rightarrow> bool \<times> 'x) list \<Rightarrow> 'x aes_cipher \<Rightarrow>
    unit result \<times> 'x aes_cipher" where
  "init_contexts es ds c =
     (case ctx_chain es (encryptor_ctx (cipher_impl c)) of
        (False, x) \<Rightarrow> (Inl (Raised AWS_ERROR_INVALID_ARGUMENT), set_enc x c)
      | (True, x) \<Rightarrow> (case ctx_chain ds (decryptor_ctx (cipher_impl c)) of
            (False, y) \<Rightarrow> (Inl (Raised AWS_ERROR_INVALID_ARGUMENT), set_dec y (set_enc x c))
          | (True, y) \<Rightarrow> (Inr (), set_dec y (set_enc x c))))"

definition s_init_cbc_cipher_materials :: "'x evp_cipher_api \<Rightarrow> 'x aes_cipher \<Rightarrow> unit result \<times> 'x aes_cipher" where
  "s_init_cbc_cipher_materials A c =
     init_contexts
       [\<lambda>x. EVP_EncryptInit_ex A x (Some EVP_aes_256_cbc) (buffer (key c)) (buffer (iv c))]
       [\<lambda>x. EVP_DecryptInit_ex A x (Some EVP_aes_256_cbc) (buffer (key c)) (buffer (iv c))] c"

definition s_reset_cbc_cipher_materials :: "aws_common \<Rightarrow> 'x evp_cipher_api \<Rightarrow> 'x aes_cipher \<Rightarrow>
    unit result \<times> 'x aes_cipher" where
  "s_reset_cbc_cipher_materials C A c = s_init_cbc_cipher_materials A (s_clear_reusable_state C A c)"

definition s_cbc_vtable :: "aws_common \<Rightarrow> 'x evp_cipher_api \<Rightarrow> 'x openssl_aes_cipher aws_symmetric_cipher_vtable" where
  "s_cbc_vtable C A = \<lparr>vt_reset = s_reset_cbc_cipher_materials C A, vt_encrypt = s_encrypt C A,
     vt_decrypt = s_decrypt C A, vt_finalize_encryption = s_finalize_encryption C A,
     vt_finalize_decryption = s_finalize_decryption C A\<rparr>"

text \<open>The part the constructors share: the base structure with two new contexts.\<close>

definition new_cipher :: "aws_common \<Rightarrow> 'x evp_cipher_api \<Rightarrow> nat \<Rightarrow> aws_byte_buf \<Rightarrow> aws_byte_buf \<Rightarrow>
    aws_byte_buf \<Rightarrow> aws_byte_buf \<Rightarrow> aws_byte_buf \<Rightarrow> 'x aes_cipher result" where
  "new_cipher C A bs k v a t w = (case EVP_CIPHER_CTX_new A of
       None \<Rightarrow> Inl Fatal
     | Some x \<Rightarrow> Inr \<lparr>iv = v, key = k, aad = a, ctag = t, block_size = bs,
                     key_length_bits = AWS_AES_256_KEY_BIT_LEN, cipher_good = False,
                     cipher_impl = \<lparr>encryptor_ctx = x, decryptor_ctx = x, working_buffer = w\<rparr>\<rparr>)"

text \<open>\<open>if (init(...)) goto error; cipher->good = true;\<close>\<close>

definition finish_new :: "unit result \<times> 'x aes_cipher \<Rightarrow> 'x aes_cipher result" where
  "finish_new r = (case r of (Inl f, _) \<Rightarrow> Inl f | (Inr _, c) \<Rightarrow> Inr (c\<lparr>cipher_good := True\<rparr>))"

definition aws_aes_cbc_256_new_impl :: "aws_common \<Rightarrow> 'x evp_cipher_api \<Rightarrow> aws_byte_cursor option \<Rightarrow>
    aws_byte_cursor option \<Rightarrow> 'x aes_cipher result" where
  "aws_aes_cbc_256_new_impl C A k v =
     rbind (key_material C k) (\<lambda>kb.
     rbind (iv_material C AWS_AES_256_CIPHER_BLOCK_SIZE False v) (\<lambda>vb.
     rbind (new_cipher C A AWS_AES_256_CIPHER_BLOCK_SIZE kb vb zero_buf zero_buf zero_buf) (\<lambda>c.
       finish_new (s_init_cbc_cipher_materials A c))))"

definition s_init_ctr_cipher_materials :: "'x evp_cipher_api \<Rightarrow> 'x aes_cipher \<Rightarrow> unit result \<times> 'x aes_cipher" where
  "s_init_ctr_cipher_materials A c =
     init_contexts
       [\<lambda>x. EVP_EncryptInit_ex A x (Some EVP_aes_256_ctr) (buffer (key c)) (buffer (iv c)),
        \<lambda>x. EVP_CIPHER_CTX_set_padding A x False]
       [\<lambda>x. EVP_DecryptInit_ex A x (Some EVP_aes_256_ctr) (buffer (key c)) (buffer (iv c)),
        \<lambda>x. EVP_CIPHER_CTX_set_padding A x False] c"

definition s_reset_ctr_cipher_materials :: "aws_common \<Rightarrow> 'x evp_cipher_api \<Rightarrow> 'x aes_cipher \<Rightarrow>
    unit result \<times> 'x aes_cipher" where
  "s_reset_ctr_cipher_materials C A c = s_init_ctr_cipher_materials A (s_clear_reusable_state C A c)"

definition s_ctr_vtable :: "aws_common \<Rightarrow> 'x evp_cipher_api \<Rightarrow> 'x openssl_aes_cipher aws_symmetric_cipher_vtable" where
  "s_ctr_vtable C A = \<lparr>vt_reset = s_reset_ctr_cipher_materials C A, vt_encrypt = s_encrypt C A,
     vt_decrypt = s_decrypt C A, vt_finalize_encryption = s_finalize_encryption C A,
     vt_finalize_decryption = s_finalize_decryption C A\<rparr>"

definition aws_aes_ctr_256_new_impl :: "aws_common \<Rightarrow> 'x evp_cipher_api \<Rightarrow> aws_byte_cursor option \<Rightarrow>
    aws_byte_cursor option \<Rightarrow> 'x aes_cipher result" where
  "aws_aes_ctr_256_new_impl C A k v =
     rbind (key_material C k) (\<lambda>kb.
     rbind (iv_material C AWS_AES_256_CIPHER_BLOCK_SIZE True v) (\<lambda>vb.
     rbind (new_cipher C A AWS_AES_256_CIPHER_BLOCK_SIZE kb vb zero_buf zero_buf zero_buf) (\<lambda>c.
       finish_new (s_init_ctr_cipher_materials A c))))"

subsection \<open>GCM\<close>

text \<open>The tag is fetched only while the tag buffer is empty; libcrypto stores as many bytes as the
  buffer holds.\<close>

definition s_finalize_gcm_encryption :: "aws_common \<Rightarrow> 'x evp_cipher_api \<Rightarrow> 'x openssl_aes_cipher cipher_op" where
  "s_finalize_gcm_encryption C A c out =
     (case s_finalize_encryption C A c out of
        (Inl f, c, out) \<Rightarrow> (Inl f, c, out)
      | (Inr _, c, out) \<Rightarrow>
          if buf_len (ctag c) = 0 then
            (case EVP_GCM_GET_TAG A (encryptor_ctx (cipher_impl c)) (capacity (ctag c)) of
               (False, _, x) \<Rightarrow>
                 (Inl (Raised AWS_ERROR_INVALID_ARGUMENT), (set_enc x c)\<lparr>cipher_good := False\<rparr>, out)
             | (True, t, x) \<Rightarrow> (case poke (ctag c) t of
                   Inl e \<Rightarrow> (Inl e, set_enc x c, out)
                 | Inr t' \<Rightarrow> (Inr (), (set_enc x c)\<lparr>ctag := t'\<lparr>buf_len := AWS_AES_256_CIPHER_BLOCK_SIZE\<rparr>\<rparr>, out)))
          else (Inr (), c, out))"

definition s_init_gcm_cipher_materials :: "'x evp_cipher_api \<Rightarrow> 'x aes_cipher \<Rightarrow> unit result \<times> 'x aes_cipher" where
  "s_init_gcm_cipher_materials A c =
     seq_op (init_contexts
       [\<lambda>x. EVP_EncryptInit_ex A x (Some EVP_aes_256_gcm) None None,
        \<lambda>x. EVP_EncryptInit_ex A x None (buffer (key c)) (buffer (iv c)),
        \<lambda>x. EVP_CIPHER_CTX_set_padding A x False]
       [\<lambda>x. EVP_DecryptInit_ex A x (Some EVP_aes_256_gcm) None None,
        \<lambda>x. EVP_DecryptInit_ex A x None (buffer (key c)) (buffer (iv c)),
        \<lambda>x. EVP_CIPHER_CTX_set_padding A x False] c) (\<lambda>_ c.
     seq_op (if buf_len (aad c) \<noteq> 0
       then init_contexts [\<lambda>x. EVP_EncryptUpdate_aad A x (contents (aad c)) (int_of_size (buf_len (aad c)))]
              [\<lambda>x. EVP_DecryptUpdate_aad A x (contents (aad c)) (int_of_size (buf_len (aad c)))] c
       else (Inr (), c)) (\<lambda>_ c.
     if buf_len (ctag c) \<noteq> 0
     then init_contexts [] [\<lambda>x. EVP_GCM_SET_TAG A x (contents (ctag c)) (int_of_size (buf_len (ctag c)))] c
     else (Inr (), c)))"

definition s_reset_gcm_cipher_materials :: "aws_common \<Rightarrow> 'x evp_cipher_api \<Rightarrow> 'x aes_cipher \<Rightarrow>
    unit result \<times> 'x aes_cipher" where
  "s_reset_gcm_cipher_materials C A c = s_init_gcm_cipher_materials A (s_clear_reusable_state C A c)"

definition s_gcm_vtable :: "aws_common \<Rightarrow> 'x evp_cipher_api \<Rightarrow> 'x openssl_aes_cipher aws_symmetric_cipher_vtable" where
  "s_gcm_vtable C A = \<lparr>vt_reset = s_reset_gcm_cipher_materials C A, vt_encrypt = s_encrypt C A,
     vt_decrypt = s_decrypt C A, vt_finalize_encryption = s_finalize_gcm_encryption C A,
     vt_finalize_decryption = s_finalize_decryption C A\<rparr>"

definition aws_aes_gcm_256_new_impl :: "aws_common \<Rightarrow> 'x evp_cipher_api \<Rightarrow> aws_byte_cursor option \<Rightarrow>
    aws_byte_cursor option \<Rightarrow> aws_byte_cursor option \<Rightarrow> aws_byte_cursor option \<Rightarrow> 'x aes_cipher result" where
  "aws_aes_gcm_256_new_impl C A k v a decryption_tag =
     rbind (key_material C k) (\<lambda>kb.
     rbind (iv_material C (AWS_AES_256_CIPHER_BLOCK_SIZE - 4) False v) (\<lambda>vb.
     rbind (case a of None \<Rightarrow> Inr zero_buf | Some cur \<Rightarrow> copy_cursor C cur) (\<lambda>ab.
     rbind (case decryption_tag of None \<Rightarrow> or_zero (aws_byte_buf_init C AWS_AES_256_CIPHER_BLOCK_SIZE)
              | Some cur \<Rightarrow> copy_cursor C cur) (\<lambda>tb.
     rbind (new_cipher C A AWS_AES_256_CIPHER_BLOCK_SIZE kb vb ab tb zero_buf) (\<lambda>c.
       finish_new (s_init_gcm_cipher_materials A c))))))"

section \<open>Key wrap\<close>

definition s_key_wrap_encrypt_decrypt :: "aws_common \<Rightarrow> aws_byte_cursor \<Rightarrow> 'x openssl_aes_cipher cipher_op" where
  "s_key_wrap_encrypt_decrypt C inp c out =
     (case rbind (bytes_at (ptr inp) (cur_len inp))
             (aws_byte_buf_append_dynamic C (working_buffer (cipher_impl c))) of
        Inl f \<Rightarrow> (Inl f, c, out)
      | Inr w \<Rightarrow> (Inr (), set_working w c, out))"

abbreviation MIN_CEK_LENGTH_BYTES :: nat where "MIN_CEK_LENGTH_BYTES \<equiv> 16"
abbreviation KEYWRAP_BLOCK_SIZE :: nat where "KEYWRAP_BLOCK_SIZE \<equiv> 8"
abbreviation INTEGRITY_VALUE :: byte where "INTEGRITY_VALUE \<equiv> 0xA6"

text \<open>\<open>(unsigned char)((n * j) + i)\<close>, and its exclusive or into the last byte of a register.\<close>

definition kw_t :: "nat \<Rightarrow> nat \<Rightarrow> nat \<Rightarrow> byte" where
  "kw_t n j i = word_of_nat (n * j + i)"

definition xor_last :: "byte \<Rightarrow> bytes \<Rightarrow> bytes" where
  "xor_last t a = a[7 := a ! 7 XOR t]"

text \<open>The index pairs in the order in which wrapping visits them.\<close>

definition kw_schedule :: "nat \<Rightarrow> (nat \<times> nat) list" where
  "kw_schedule n = concat (map (\<lambda>j. map (Pair j) [1..<Suc n]) [0..<6])"

text \<open>The state of the loops: the memory that holds the registers, the memory that holds \<open>A\<close> (for
  unwrapping), the buffer \<open>b\<close> and the context.\<close>

record 'x kw_state =
  kw_mem :: bytes
  kw_a :: bytes
  kw_b :: bytes
  kw_ctx :: 'x

definition wrap_step :: "'x evp_cipher_api \<Rightarrow> nat \<Rightarrow> nat \<Rightarrow> nat \<times> nat \<Rightarrow> 'x kw_state \<Rightarrow>
    unit result \<times> 'x kw_state" where
  "wrap_step A off n ji st = (case ji of (j, i) \<Rightarrow>
     let r = off + 8 * i; mem = kw_mem st in
     if length mem < r + 8 then (Inl (Undefined Out_of_bounds), st)
     else case EVP_EncryptUpdate A (kw_ctx st) (take 8 (drop off mem) @ take 8 (drop r mem)) of
         (False, _, x) \<Rightarrow> (Inl (Raised AWS_ERROR_INVALID_ARGUMENT), st\<lparr>kw_ctx := x\<rparr>)
       | (True, written, x) \<Rightarrow>
           if length (kw_b st) < length written then (Inl (Undefined Out_of_bounds), st)
           else let b = overwrite 0 written (kw_b st);
                    mem = overwrite off (xor_last (kw_t n j i) (take 8 b)) mem;
                    mem = overwrite r (take 8 (drop 8 b)) mem
                in (Inr (), st\<lparr>kw_mem := mem, kw_b := b, kw_ctx := x\<rparr>))"

definition unwrap_step :: "'x evp_cipher_api \<Rightarrow> nat \<Rightarrow> nat \<Rightarrow> nat \<times> nat \<Rightarrow> 'x kw_state \<Rightarrow>
    unit result \<times> 'x kw_state" where
  "unwrap_step A last_r n ji st = (case ji of (j, i) \<Rightarrow>
     let r = last_r - 8 * (n - i); mem = kw_mem st in
     if length mem < r + 8 \<or> length (kw_a st) < 8 then (Inl (Undefined Out_of_bounds), st)
     else case EVP_DecryptUpdate A (kw_ctx st)
                (xor_last (kw_t n j i) (take 8 (kw_a st)) @ take 8 (drop r mem)) of
         (False, _, x) \<Rightarrow> (Inl (Raised AWS_ERROR_INVALID_ARGUMENT), st\<lparr>kw_ctx := x\<rparr>)
       | (True, written, x) \<Rightarrow>
           if length (kw_b st) < length written then (Inl (Undefined Out_of_bounds), st)
           else let b = overwrite 0 written (kw_b st)
                in (Inr (), st\<lparr>kw_a := overwrite 0 (take 8 b) (kw_a st),
                              kw_mem := overwrite r (take 8 (drop 8 b)) mem, kw_b := b, kw_ctx := x\<rparr>))"

primrec kw_loop :: "(nat \<times> nat \<Rightarrow> 'x kw_state \<Rightarrow> unit result \<times> 'x kw_state) \<Rightarrow> (nat \<times> nat) list \<Rightarrow>
    'x kw_state \<Rightarrow> unit result \<times> 'x kw_state" where
  "kw_loop step [] st = (Inr (), st)"
| "kw_loop step (ji # jis) st = seq_op (step ji st) (\<lambda>_ st. kw_loop step jis st)"

definition keep :: "aws_byte_buf option \<Rightarrow> aws_byte_buf \<Rightarrow> aws_byte_buf" where
  "keep r b = (case r of None \<Rightarrow> b | Some b' \<Rightarrow> b')"

definition s_key_wrap_finalize_encryption :: "aws_common \<Rightarrow> 'x evp_cipher_api \<Rightarrow> 'x openssl_aes_cipher cipher_op" where
  "s_key_wrap_finalize_encryption C A c out =
     (let w = working_buffer (cipher_impl c) in
      if buf_len w < MIN_CEK_LENGTH_BYTES
      then (Inl (Raised AWS_ERROR_INVALID_STATE), c\<lparr>cipher_good := False\<rparr>, out)
      else case aws_symmetric_cipher_try_ensure_sufficient_buffer_space C out (buf_len w + block_size c) of
          Inl f \<Rightarrow> (Inl (reraise AWS_ERROR_SHORT_BUFFER f), c, out)
        | Inr out1 \<Rightarrow>
            let off = buf_len out;
                out2 = keep (aws_byte_buf_write_u8_n C out1 INTEGRITY_VALUE KEYWRAP_BLOCK_SIZE) out1;
                out3 = keep (aws_byte_buf_write C out2 (contents w)) out2;
                n = nat (int_of_size (buf_len w div KEYWRAP_BLOCK_SIZE))
            in (case buffer out3 of
                  None \<Rightarrow> (Inl (Undefined Null_deref), c, out3)
                | Some mem \<Rightarrow>
                    (case kw_loop (wrap_step A off n) (kw_schedule n)
                            \<lparr>kw_mem = mem, kw_a = [], kw_b = replicate 16 0,
                             kw_ctx = encryptor_ctx (cipher_impl c)\<rparr> of
                       (r, st) \<Rightarrow>
                         let c' = set_enc (kw_ctx st) c; out' = out3\<lparr>buffer := Some (kw_mem st)\<rparr>
                         in (r, if r = Inl (Raised AWS_ERROR_INVALID_ARGUMENT) then c'\<lparr>cipher_good := False\<rparr> else c',
                             out'))))"

definition s_key_wrap_finalize_decryption :: "aws_common \<Rightarrow> 'x evp_cipher_api \<Rightarrow> 'x openssl_aes_cipher cipher_op" where
  "s_key_wrap_finalize_decryption C A c out =
     (let w = working_buffer (cipher_impl c) in
      if buf_len w < MIN_CEK_LENGTH_BYTES + KEYWRAP_BLOCK_SIZE
      then (Inl (Raised AWS_ERROR_INVALID_STATE), c\<lparr>cipher_good := False\<rparr>, out)
      else let required = buf_len w - KEYWRAP_BLOCK_SIZE in
        case aws_symmetric_cipher_try_ensure_sufficient_buffer_space C out required of
          Inl f \<Rightarrow> (Inl (reraise AWS_ERROR_SHORT_BUFFER f), c, out)
        | Inr out1 \<Rightarrow>
            (case buffer w of
               None \<Rightarrow> (Inl (Undefined Null_deref), c, out1)
             | Some wmem \<Rightarrow>
                 (case poke out1 (take required (drop KEYWRAP_BLOCK_SIZE wmem)) of
                    Inl f \<Rightarrow> (Inl f, c, out1)
                  | Inr out2 \<Rightarrow>
                      (case buffer out2 of
                         None \<Rightarrow> (Inl (Undefined Null_deref), c, out2)
                       | Some mem \<Rightarrow>
                           let last_r = buf_len out + required - KEYWRAP_BLOCK_SIZE;
                               n = nat (int_of_size (required div KEYWRAP_BLOCK_SIZE))
                           in (case kw_loop (unwrap_step A last_r n) (rev (kw_schedule n))
                                     \<lparr>kw_mem = mem, kw_a = wmem, kw_b = replicate 80 0,
                                      kw_ctx = decryptor_ctx (cipher_impl c)\<rparr> of
                                (r, st) \<Rightarrow>
                                  let c' = set_working (w\<lparr>buffer := Some (kw_a st)\<rparr>) (set_dec (kw_ctx st) c);
                                      out' = out2\<lparr>buffer := Some (kw_mem st)\<rparr>
                                  in (case r of
                                        Inl f \<Rightarrow> (Inl f, if f = Raised AWS_ERROR_INVALID_ARGUMENT
                                                        then c'\<lparr>cipher_good := False\<rparr> else c', out')
                                      | Inr _ \<Rightarrow>
                                          if take 8 (kw_a st) \<noteq> replicate 8 INTEGRITY_VALUE
                                          then (Inl (Raised AWS_ERROR_CAL_SIGNATURE_VALIDATION_FAILED),
                                                c'\<lparr>cipher_good := False\<rparr>, out')
                                          else (Inr (), c', add_len required out')))))))"

definition s_init_keywrap_cipher_materials :: "'x evp_cipher_api \<Rightarrow> 'x aes_cipher \<Rightarrow> unit result \<times> 'x aes_cipher" where
  "s_init_keywrap_cipher_materials A c =
     (case init_contexts
        [\<lambda>x. EVP_EncryptInit_ex A x (Some EVP_aes_256_ecb) (buffer (key c)) None,
         \<lambda>x. EVP_CIPHER_CTX_set_padding A x False]
        [\<lambda>x. EVP_DecryptInit_ex A x (Some EVP_aes_256_ecb) (buffer (key c)) None,
         \<lambda>x. EVP_CIPHER_CTX_set_padding A x False] c of
        (Inr _, c) \<Rightarrow> (Inr (), c)
      | (Inl f, c) \<Rightarrow> (Inl f, c\<lparr>cipher_good := False\<rparr>))"

definition s_reset_keywrap_cipher_materials :: "aws_common \<Rightarrow> 'x evp_cipher_api \<Rightarrow> 'x aes_cipher \<Rightarrow>
    unit result \<times> 'x aes_cipher" where
  "s_reset_keywrap_cipher_materials C A c = s_init_keywrap_cipher_materials A (s_clear_reusable_state C A c)"

definition s_keywrap_vtable :: "aws_common \<Rightarrow> 'x evp_cipher_api \<Rightarrow> 'x openssl_aes_cipher aws_symmetric_cipher_vtable" where
  "s_keywrap_vtable C A = \<lparr>vt_reset = s_reset_keywrap_cipher_materials C A,
     vt_encrypt = s_key_wrap_encrypt_decrypt C, vt_decrypt = s_key_wrap_encrypt_decrypt C,
     vt_finalize_encryption = s_key_wrap_finalize_encryption C A,
     vt_finalize_decryption = s_key_wrap_finalize_decryption C A\<rparr>"

definition aws_aes_keywrap_256_new_impl :: "aws_common \<Rightarrow> 'x evp_cipher_api \<Rightarrow> aws_byte_cursor option \<Rightarrow>
    'x aes_cipher result" where
  "aws_aes_keywrap_256_new_impl C A k =
     rbind (key_material C k) (\<lambda>kb.
     rbind (or_zero (aws_byte_buf_init C KEYWRAP_BLOCK_SIZE)) (\<lambda>w.
     rbind (new_cipher C A KEYWRAP_BLOCK_SIZE kb zero_buf zero_buf zero_buf w) (\<lambda>c.
       finish_new (s_init_keywrap_cipher_materials A c))))"

end
