(* ===== verification/Cipher_Stream.thy ===== *)
theory Cipher_Stream
  imports Symmetric_Cipher
begin

text \<open>
  The contract of one direction of a streaming cipher behind the public interface: what a cipher
  was fed (\<open>io c p m w\<close> says that the cipher \<open>c\<close>, with parameters \<open>p\<close>, was fed \<open>m\<close> and has written \<open>w\<close>),
  and what a finalize call adds. At most \<open>lim p\<close> bytes may be fed, into output buffers of
  a capacity of at most \<open>bound\<close>. The implementations on
  OpenSSL and on Windows are interpretations of this locale, so that the lemmas about whole runs
  (any number of pieces, then finalize) are proved once.
\<close>

text \<open>The pieces a list of cursors refers to.\<close>

definition pieces :: "aws_byte_cursor list \<Rightarrow> bytes list \<Rightarrow> bool" where
  "pieces = list_all2 (\<lambda>c b. bytes_at (ptr c) (cur_len c) = Inr b)"

lemma pieces_simps [simp]: "pieces [] bs \<longleftrightarrow> bs = []" "pieces cs [] \<longleftrightarrow> cs = []"
  "pieces (c # cs) (b # bs) \<longleftrightarrow> bytes_at (ptr c) (cur_len c) = Inr b \<and> pieces cs bs"
  by (simp_all add: pieces_def)

locale cipher_stream =
  fixes vt :: "'i aws_symmetric_cipher_vtable" and K :: "aws_byte_cursor \<Rightarrow> cipher_call" and F :: cipher_call
    and io :: "'i aws_symmetric_cipher \<Rightarrow> 'p \<Rightarrow> bytes \<Rightarrow> bytes \<Rightarrow> bool" and lim :: "'p \<Rightarrow> nat" and bound :: nat
    and accepts :: "'p \<Rightarrow> bytes \<Rightarrow> bytes \<Rightarrow> bool" and rejects :: "'p \<Rightarrow> bytes \<Rightarrow> bool"
    and post :: "'p \<Rightarrow> bytes \<Rightarrow> 'i aws_symmetric_cipher \<Rightarrow> bool"
  assumes feed_ok: "io c p m w \<Longrightarrow> bytes_at (ptr cur) (cur_len cur) = Inr b \<Longrightarrow>
      length b + 16 \<le> INT_MAX \<Longrightarrow> length m + length b \<le> lim p \<Longrightarrow> valid_buf out \<Longrightarrow> allocator out \<Longrightarrow>
      capacity out \<le> bound \<Longrightarrow> buf_len out + (length m - length w) + length b + 16 \<le> bound \<Longrightarrow>
      \<exists>w' c' out'. run_call vt (K cur) c out = (Inr (), c', out') \<and> io c' p (m @ b) (w @ w') \<and>
        valid_buf out' \<and> allocator out' \<and> capacity out' \<le> bound \<and> contents out' = contents out @ w'"
    and written: "io c p m w \<Longrightarrow> length w \<le> length m"
    and finish_ok: "io c p m w \<Longrightarrow> accepts p m t \<Longrightarrow> length m \<le> lim p \<Longrightarrow> valid_buf out \<Longrightarrow>
      allocator out \<Longrightarrow> capacity out \<le> bound \<Longrightarrow> buf_len out + (length m - length w) + 16 \<le> bound \<Longrightarrow>
      \<exists>w' c' out'. run_call vt F c out = (Inr (), c', out') \<and> t = w @ w' \<and> post p m c' \<and>
        valid_buf out' \<and> contents out' = contents out @ w'"
    and finish_rejects: "io c p m w \<Longrightarrow> rejects p m \<Longrightarrow> length m \<le> lim p \<Longrightarrow> valid_buf out \<Longrightarrow>
      allocator out \<Longrightarrow> capacity out \<le> bound \<Longrightarrow> buf_len out + (length m - length w) + 16 \<le> bound \<Longrightarrow>
      \<exists>c' out'. run_call vt F c out = (Inl (Raised AWS_ERROR_INVALID_ARGUMENT), c', out') \<and>
        contents out' = contents out"
begin

lemma feed_all:
  assumes "pieces cs bs"
  shows "io c p m w \<Longrightarrow> \<forall>b \<in> set bs. length b + 16 \<le> INT_MAX \<Longrightarrow> length m + length (concat bs) \<le> lim p \<Longrightarrow>
    valid_buf out \<Longrightarrow> allocator out \<Longrightarrow> capacity out \<le> bound \<Longrightarrow> contents out = pre @ w \<Longrightarrow>
    length pre + length m + length (concat bs) + 16 \<le> bound \<Longrightarrow>
    \<exists>w' c' out'. run_calls vt (map K cs) c out = (replicate (length cs) (Inr ()), c', out') \<and>
      io c' p (m @ concat bs) w' \<and> valid_buf out' \<and> allocator out' \<and> capacity out' \<le> bound \<and> contents out' = pre @ w'"
  using assms unfolding pieces_def
proof (induction cs bs arbitrary: c m w out rule: list_all2_induct)
  case Nil
  then show ?case by simp
next
  case (Cons cur cs b bs)
  have "buf_len out = length pre + length w" using Cons.prems(4,7) length_contents by fastforce
  then have "buf_len out + (length m - length w) + length b + 16 \<le> bound"
    using Cons.prems(8) written [OF Cons.prems(1)] by simp
  then obtain w' c' out' where s: "run_call vt (K cur) c out = (Inr (), c', out')"
      "io c' p (m @ b) (w @ w')" "valid_buf out'" "allocator out'" "capacity out' \<le> bound"
      "contents out' = contents out @ w'"
    using feed_ok [OF Cons.prems(1) Cons.hyps(1) _ _ Cons.prems(4,5,6)] Cons.prems(2,3) by auto
  from Cons.IH [OF s(2) _ _ s(3,4,5)] s(1,6) Cons.prems(2,3,7,8) show ?case by (auto simp: add.assoc)
qed

text \<open>A whole run: all pieces, then the finalize call.\<close>

lemma stream_ok:
  assumes "pieces cs bs" and "io c p [] []"
    and "\<forall>b \<in> set bs. length b + 16 \<le> INT_MAX" and "length (concat bs) \<le> lim p" and "valid_buf out"
    and "allocator out" and "capacity out \<le> bound" and "buf_len out + length (concat bs) + 16 \<le> bound"
  shows "\<exists>c1 out1. run_calls vt (map K cs) c out = (replicate (length cs) (Inr ()), c1, out1) \<and>
    (\<forall>t. accepts p (concat bs) t \<longrightarrow> (\<exists>c2 out2. run_call vt F c1 out1 = (Inr (), c2, out2) \<and>
       valid_buf out2 \<and> contents out2 = contents out @ t \<and> post p (concat bs) c2)) \<and>
    (rejects p (concat bs) \<longrightarrow>
       (\<exists>c2 out2. run_call vt F c1 out1 = (Inl (Raised AWS_ERROR_INVALID_ARGUMENT), c2, out2)))"
proof -
  have "length (contents out) = buf_len out" using assms(5) by simp
  with feed_all [OF assms(1,2,3) _ assms(5,6,7), of "contents out"] assms(4,8) obtain w c1 out1 where
      s: "run_calls vt (map K cs) c out = (replicate (length cs) (Inr ()), c1, out1)"
        "io c1 p (concat bs) w" "valid_buf out1" "allocator out1" "capacity out1 \<le> bound" "contents out1 = contents out @ w"
    by auto
  have "buf_len out1 = buf_len out + length w" using s(3,6) assms(5) length_contents by (metis length_append)
  then have "buf_len out1 + (length (concat bs) - length w) + 16 \<le> bound"
    using written [OF s(2)] assms(8) by simp
  with finish_ok [OF s(2) _ assms(4) s(3,4,5)] finish_rejects [OF s(2) _ assms(4) s(3,4,5)] s(1,6) show ?thesis by fastforce
qed

text \<open>The same for a message in one piece.\<close>

lemma message_ok:
  assumes "bytes_at (ptr cur) (cur_len cur) = Inr b" and "io c p [] []" and "length b + 16 \<le> INT_MAX"
    and "length b \<le> lim p" and "valid_buf out" and "allocator out" and "capacity out \<le> bound"
    and "buf_len out + length b + 16 \<le> bound" and "accepts p b t"
  shows "\<exists>c1 out1 c2 out2. run_call vt (K cur) c out = (Inr (), c1, out1) \<and> run_call vt F c1 out1 = (Inr (), c2, out2) \<and>
    contents out2 = contents out @ t \<and> post p b c2"
  using stream_ok [of "[cur]" "[b]" c p out] assms by (auto simp: Let_def split: prod.splits)

end

section \<open>Collecting ciphers\<close>

text \<open>
  The contract of a cipher that only collects its input until it is finalized, as key wrap does:
  \<open>ready c m\<close> says that the cipher \<open>c\<close> has collected \<open>m\<close>. Pieces that fit are accepted up to
  \<open>lim\<close> bytes in all, and the output buffer is not touched.
\<close>

locale cipher_collect =
  fixes vt :: "'i aws_symmetric_cipher_vtable" and K :: "aws_byte_cursor \<Rightarrow> cipher_call"
    and ready :: "'i aws_symmetric_cipher \<Rightarrow> bytes \<Rightarrow> bool" and fits :: "bytes \<Rightarrow> bool" and lim :: nat
  assumes collect_ok: "ready c m \<Longrightarrow> bytes_at (ptr cur) (cur_len cur) = Inr b \<Longrightarrow> fits b \<Longrightarrow> length m + length b \<le> lim \<Longrightarrow>
      \<exists>c'. run_call vt (K cur) c out = (Inr (), c', out) \<and> ready c' (m @ b)"
begin

lemma collect_all:
  assumes "pieces cs bs"
  shows "ready c m \<Longrightarrow> \<forall>b \<in> set bs. fits b \<Longrightarrow> length m + length (concat bs) \<le> lim \<Longrightarrow>
    \<exists>c'. run_calls vt (map K cs) c out = (replicate (length cs) (Inr ()), c', out) \<and> ready c' (m @ concat bs)"
  using assms unfolding pieces_def
proof (induction cs bs arbitrary: c m rule: list_all2_induct)
  case (Cons cur cs b bs)
  have l: "length m + length b \<le> lim" "length (m @ b) + length (concat bs) \<le> lim" "fits b" "\<forall>b \<in> set bs. fits b"
    using Cons.prems(2,3) by simp_all
  from collect_ok [OF Cons.prems(1) Cons.hyps(1) l(3,1)] obtain c' where
      c': "run_call vt (K cur) c out = (Inr (), c', out)" "ready c' (m @ b)" by blast
  from Cons.IH [OF c'(2) l(4,2)] c'(1) show ?case by auto
qed simp

end

section \<open>Key streams\<close>

text \<open>A text combined with a key stream, from an offset of the stream on.\<close>

definition part :: "(nat \<Rightarrow> byte) \<Rightarrow> nat \<Rightarrow> bytes \<Rightarrow> bytes" where
  "part ks off x = map (\<lambda>i. x ! i XOR ks (off + i)) [0..<length x]"

lemma part_simps [simp]: "length (part ks off x) = length x" "part ks off [] = []"
  by (simp_all add: part_def)

lemma part_append: "part ks off (x @ y) = part ks off x @ part ks (off + length x) y"
  by (rule nth_equalityI) (auto simp: part_def nth_append)

lemma part_part [simp]: "part ks off (part ks off x) = x"
  by (rule nth_equalityI) (simp_all add: part_def xor.assoc)

end
