(* ===== verification/Key_Wrap.thy ===== *)
theory Key_Wrap
  imports Openssl_Aes Cipher_Stream
begin

text \<open>
  AES key wrap: the loops of \<open>s_key_wrap_finalize_encryption\<close> and \<open>s_key_wrap_finalize_decryption\<close>,
  which work in place on the output buffer, are related to a functional description on the
  register \<open>A\<close> and the list of registers \<open>R\<close>. On that level unwrapping inverts wrapping for every
  number of blocks, and wrapping is the algorithm of RFC 3394 as long as the step counter fits in a
  byte.
\<close>

section \<open>Registers\<close>

type_synonym registers = "bytes \<times> bytes list"

definition reg_step :: "(bytes \<Rightarrow> bytes) \<Rightarrow> nat \<Rightarrow> registers \<Rightarrow> nat \<times> nat \<Rightarrow> registers" where
  "reg_step E n s ji = (case s of (a, rs) \<Rightarrow> case ji of (j, i) \<Rightarrow>
     let b = E (a @ rs ! (i - 1)) in (xor_last (kw_t n j i) (take 8 b), rs[i - 1 := drop 8 b]))"

definition reg_unstep :: "(bytes \<Rightarrow> bytes) \<Rightarrow> nat \<Rightarrow> registers \<Rightarrow> nat \<times> nat \<Rightarrow> registers" where
  "reg_unstep D n s ji = (case s of (a, rs) \<Rightarrow> case ji of (j, i) \<Rightarrow>
     let b = D (xor_last (kw_t n j i) a @ rs ! (i - 1)) in (take 8 b, rs[i - 1 := drop 8 b]))"

definition wrap_regs :: "(bytes \<Rightarrow> bytes) \<Rightarrow> nat \<Rightarrow> registers \<Rightarrow> registers" where
  "wrap_regs E n s = foldl (reg_step E n) s (kw_schedule n)"

definition unwrap_regs :: "(bytes \<Rightarrow> bytes) \<Rightarrow> nat \<Rightarrow> registers \<Rightarrow> registers" where
  "unwrap_regs D n s = foldl (reg_unstep D n) s (rev (kw_schedule n))"

definition regs_ok :: "nat \<Rightarrow> registers \<Rightarrow> bool" where
  "regs_ok n s \<longleftrightarrow> length (fst s) = 8 \<and> length (snd s) = n \<and> (\<forall>r \<in> set (snd s). length r = 8)"

definition block_cipher :: "(bytes \<Rightarrow> bytes) \<Rightarrow> bool" where
  "block_cipher E \<longleftrightarrow> (\<forall>b. length b = 16 \<longrightarrow> length (E b) = 16)"

lemma length_xor_last [simp]: "length (xor_last t a) = length a"
  by (simp add: xor_last_def)

lemma xor_last_twice: "length a = 8 \<Longrightarrow> xor_last t (xor_last t a) = a"
  by (simp add: xor_last_def xor.assoc)

lemma regs_nth: "regs_ok n s \<Longrightarrow> i < n \<Longrightarrow> length (snd s ! i) = 8"
  by (simp add: regs_ok_def)

lemma kw_schedule_range: "ji \<in> set (kw_schedule n) \<Longrightarrow> 1 \<le> snd ji \<and> snd ji \<le> n \<and> fst ji \<le> 5"
  by (auto simp: kw_schedule_def)

lemma reg_step_ok:
  assumes "block_cipher E" and "regs_ok n s" and "1 \<le> i" and "i \<le> n"
  shows "regs_ok n (reg_step E n s (j, i))"
proof -
  obtain a rs where s: "s = (a, rs)" by (cases s)
  have "length (rs ! (i - 1)) = 8" using regs_nth [OF assms(2), of "i - 1"] assms(3,4) s by simp
  then have "length (E (a @ rs ! (i - 1))) = 16"
    using assms(1,2) s by (simp add: block_cipher_def regs_ok_def)
  then show ?thesis
    using assms(2) s by (auto simp: reg_step_def Let_def regs_ok_def dest!: set_update_subset_insert [THEN subsetD])
qed

lemma reg_unstep_step:
  assumes E: "block_cipher E" and D: "\<And>b. length b = 16 \<Longrightarrow> D (E b) = b" and s: "regs_ok n s"
    and i: "1 \<le> i" "i \<le> n"
  shows "reg_unstep D n (reg_step E n s (j, i)) (j, i) = s"
proof -
  obtain a rs where ar: "s = (a, rs)" by (cases s)
  let ?b = "E (a @ rs ! (i - 1))"
  have r: "length (rs ! (i - 1)) = 8" using regs_nth [OF s, of "i - 1"] i ar by simp
  have a: "length a = 8" "length rs = n" using s ar by (simp_all add: regs_ok_def)
  have b: "length ?b = 16" using E a r by (simp add: block_cipher_def)
  have "D ?b = a @ rs ! (i - 1)" using D a r by simp
  with a r b i show ?thesis
    by (simp add: ar reg_step_def reg_unstep_def Let_def xor_last_twice)
qed

lemma foldl_unstep:
  assumes E: "block_cipher E" and D: "\<And>b. length b = 16 \<Longrightarrow> D (E b) = b"
  shows "regs_ok n s \<Longrightarrow> \<forall>ji \<in> set jis. 1 \<le> snd ji \<and> snd ji \<le> n \<Longrightarrow>
    foldl (reg_unstep D n) (foldl (reg_step E n) s jis) (rev jis) = s \<and>
    regs_ok n (foldl (reg_step E n) s jis)"
proof (induction jis arbitrary: s)
  case (Cons ji jis)
  obtain j i where ji: "ji = (j, i)" by (cases ji)
  with Cons.prems have i: "1 \<le> i" "i \<le> n" by auto
  let ?s = "reg_step E n s ji"
  have ok: "regs_ok n ?s" using reg_step_ok [OF E Cons.prems(1) i] ji by simp
  have "foldl (reg_unstep D n) (foldl (reg_step E n) ?s jis) (rev jis) = ?s \<and>
      regs_ok n (foldl (reg_step E n) ?s jis)"
    using Cons.IH [OF ok] Cons.prems by simp
  with reg_unstep_step [OF E D Cons.prems(1) i, of j] ji show ?case by simp
qed simp

lemma wrap_regs_ok: "block_cipher E \<Longrightarrow> regs_ok n s \<Longrightarrow> regs_ok n (wrap_regs E n s)"
proof -
  assume E: "block_cipher E" and s: "regs_ok n s"
  have "\<forall>ji \<in> set jis. 1 \<le> snd ji \<and> snd ji \<le> n \<Longrightarrow> regs_ok n (foldl (reg_step E n) s jis)" for jis
    by (induction jis rule: rev_induct) (auto simp: s intro!: reg_step_ok [OF E])
  then show ?thesis using kw_schedule_range unfolding wrap_regs_def by blast
qed

lemma unwrap_wrap_regs:
  assumes "block_cipher E" and "\<And>b. length b = 16 \<Longrightarrow> D (E b) = b" and "regs_ok n s"
  shows "unwrap_regs D n (wrap_regs E n s) = s" and "regs_ok n (wrap_regs E n s)"
  using foldl_unstep [OF assms, of "kw_schedule n"] kw_schedule_range
  by (auto simp: unwrap_regs_def wrap_regs_def)

section \<open>RFC 3394\<close>

text \<open>The algorithm of RFC 3394, section 2.2.1, with the 64-bit counter \<open>t\<close>.\<close>

definition rfc3394_step :: "(bytes \<Rightarrow> bytes) \<Rightarrow> nat \<Rightarrow> registers \<Rightarrow> nat \<times> nat \<Rightarrow> registers" where
  "rfc3394_step E n s ji = (case s of (a, rs) \<Rightarrow> case ji of (j, i) \<Rightarrow>
     let b = E (a @ rs ! (i - 1))
     in (map2 (XOR) (take 8 b) (be_bytes 8 (n * j + i)), rs[i - 1 := drop 8 b]))"

definition rfc3394_wrap :: "(bytes \<Rightarrow> bytes) \<Rightarrow> bytes list \<Rightarrow> registers" where
  "rfc3394_wrap E rs =
     foldl (rfc3394_step E (length rs)) (replicate 8 0xA6, rs) (kw_schedule (length rs))"

lemma be_bytes_small: "t < 256 \<Longrightarrow> be_bytes (Suc k) t = replicate k 0 @ [word_of_nat t]"
proof -
  assume "t < 256"
  then have "t div 256 = 0" by simp
  moreover have "be_bytes k 0 = replicate k 0" by (induction k) (simp_all flip: replicate_append_same)
  ultimately show ?thesis by simp
qed

lemma xor_counter:
  assumes "length a = 8" and "t < 256"
  shows "map2 (XOR) a (be_bytes 8 t) = xor_last (word_of_nat t) a"
proof -
  obtain xs y where a: "a = xs @ [y]" "length xs = 7"
    using assms(1) by (cases a rule: rev_cases) auto
  have "map2 (XOR) xs (replicate 7 (0 :: byte)) = xs"
    using a(2) by (intro nth_equalityI) simp_all
  then show ?thesis
    using a be_bytes_small [OF assms(2), of 7] by (simp add: xor_last_def list_update_append nth_append)
qed

lemma rfc3394_step_eq:
  assumes "block_cipher E" and "regs_ok n s" and "1 \<le> i" and "i \<le> n" and "n * j + i < 256"
  shows "rfc3394_step E n s (j, i) = reg_step E n s (j, i)"
proof -
  obtain a rs where s: "s = (a, rs)" by (cases s)
  have "length (rs ! (i - 1)) = 8" using regs_nth [OF assms(2), of "i - 1"] assms(3,4) s by simp
  then have "length (E (a @ rs ! (i - 1))) = 16"
    using assms(1,2) s by (simp add: block_cipher_def regs_ok_def)
  then show ?thesis
    using xor_counter [OF _ assms(5)] by (simp add: s rfc3394_step_def reg_step_def Let_def kw_t_def)
qed

lemma foldl_rfc3394:
  assumes "block_cipher E"
  shows "regs_ok n s \<Longrightarrow> \<forall>(j, i) \<in> set jis. 1 \<le> i \<and> i \<le> n \<and> n * j + i < 256 \<Longrightarrow>
    foldl (rfc3394_step E n) s jis = foldl (reg_step E n) s jis"
proof (induction jis arbitrary: s)
  case (Cons ji jis)
  obtain j i where ji: "ji = (j, i)" by (cases ji)
  with Cons.prems have i: "1 \<le> i" "i \<le> n" "n * j + i < 256" by auto
  show ?case
    using Cons.IH [OF reg_step_ok [OF assms Cons.prems(1) i(1,2)], of j] Cons.prems(2) ji
      rfc3394_step_eq [OF assms Cons.prems(1) i] by simp
qed simp

lemma wrap_is_rfc3394:
  assumes "block_cipher E" and "\<forall>r \<in> set rs. length r = 8" and "length rs \<le> 42"
  shows "wrap_regs E (length rs) (replicate 8 INTEGRITY_VALUE, rs) = rfc3394_wrap E rs"
proof -
  have "n * j + i < 256" if "n \<le> 42" "j \<le> 5" "i \<le> n" for n j i :: nat
  proof -
    have "n * j \<le> 42 * 5" using that by (intro mult_le_mono) simp_all
    with that show ?thesis by simp
  qed
  then have "\<forall>(j, i) \<in> set (kw_schedule (length rs)). 1 \<le> i \<and> i \<le> length rs \<and> length rs * j + i < 256"
    using kw_schedule_range [of _ "length rs"] assms(3) by fastforce
  with assms foldl_rfc3394 [OF assms(1), of "length rs" "(replicate 8 INTEGRITY_VALUE, rs)"] show ?thesis
    by (simp add: wrap_regs_def rfc3394_wrap_def regs_ok_def)
qed

section \<open>Registers in memory\<close>

text \<open>A byte string cut into blocks of eight.\<close>

function blocks8 :: "bytes \<Rightarrow> bytes list" where
  "blocks8 xs = (if xs = [] then [] else take 8 xs # blocks8 (drop 8 xs))"
  by auto
termination by (relation "measure length") auto

declare blocks8.simps [simp del]

lemma concat_blocks8: "concat (blocks8 xs) = xs"
  by (induction xs rule: blocks8.induct) (subst blocks8.simps, simp)

lemma blocks8_length: "length xs = 8 * n \<Longrightarrow> length (blocks8 xs) = n \<and> (\<forall>r \<in> set (blocks8 xs). length r = 8)"
proof (induction n arbitrary: xs)
  case 0
  then show ?case by (simp add: blocks8.simps)
next
  case (Suc n)
  from Suc.IH [of "drop 8 xs"] Suc.prems show ?case
    by (subst (1 2) blocks8.simps) auto
qed

lemma blocks8_concat: "\<forall>r \<in> set rs. length r = 8 \<Longrightarrow> blocks8 (concat rs) = rs"
proof (induction rs)
  case (Cons r rs)
  then have "r \<noteq> []" "take 8 (r @ concat rs) = r" "drop 8 (r @ concat rs) = concat rs" by auto
  with Cons show ?case by (subst blocks8.simps) simp
qed (simp add: blocks8.simps)

lemma length_concat8: "\<forall>r \<in> set rs. length r = 8 \<Longrightarrow> length (concat rs) = 8 * length rs"
  by (induction rs) auto

lemma overwrite_at:
  "i = length xs \<Longrightarrow> length ys' = length ys \<Longrightarrow> overwrite i ys' (xs @ ys @ zs) = xs @ ys' @ zs"
  by (simp add: overwrite_def)

text \<open>Register \<open>i\<close> in a run of registers, and the run after it was replaced.\<close>

lemma concat_split:
  assumes "regs_ok n (a, rs)" and "1 \<le> i" and "i \<le> n"
  obtains c1 c2 where "concat rs = c1 @ rs ! (i - 1) @ c2" "length c1 = 8 * (i - 1)"
    "\<And>r. concat (rs[i - 1 := r]) = c1 @ r @ c2"
proof -
  have i: "i - 1 < length rs" and len: "\<forall>r \<in> set rs. length r = 8" using assms by (auto simp: regs_ok_def)
  have upd: "concat (rs[i - 1 := r]) = concat (take (i - 1) rs) @ r @ concat (drop i rs)" for r
    using i assms(2) by (simp add: upd_conv_take_nth_drop)
  have "\<forall>r \<in> set (take (i - 1) rs). length r = 8" using len by (meson in_set_takeD)
  from length_concat8 [OF this] i have l: "length (concat (take (i - 1) rs)) = 8 * (i - 1)" by simp
  have c: "concat rs = concat (take (i - 1) rs) @ rs ! (i - 1) @ concat (drop i rs)"
    using upd [of "rs ! (i - 1)"] by simp
  show ?thesis by (rule that [OF c l upd])
qed

section \<open>What the proofs use of libcrypto\<close>

text \<open>
  A context initialised for AES-256 in ECB mode without padding, abstracted by \<open>ek\<close> (encryption)
  or \<open>dk\<close> (decryption) to its key: an update with one block succeeds and writes the encrypted or
  decrypted block, and decryption inverts encryption.
\<close>

definition ecb_spec :: "'x evp_cipher_api \<Rightarrow> ('x \<Rightarrow> bytes option) \<Rightarrow> ('x \<Rightarrow> bytes option) \<Rightarrow>
    (bytes \<Rightarrow> bytes \<Rightarrow> bytes) \<Rightarrow> (bytes \<Rightarrow> bytes \<Rightarrow> bytes) \<Rightarrow> bool" where
  "ecb_spec A ek dk E D \<longleftrightarrow>
     (\<forall>x k b. ek x = Some k \<and> length b = 16 \<longrightarrow>
        (\<exists>x'. EVP_EncryptUpdate A x b = (True, E k b, x') \<and> ek x' = Some k)) \<and>
     (\<forall>x k b. dk x = Some k \<and> length b = 16 \<longrightarrow>
        (\<exists>x'. EVP_DecryptUpdate A x b = (True, D k b, x') \<and> dk x' = Some k)) \<and>
     (\<forall>k b. length b = 16 \<longrightarrow> length (E k b) = 16 \<and> length (D k b) = 16 \<and> D k (E k b) = b) \<and>
     (\<forall>x m. \<exists>x1 x2. EVP_EncryptInit_ex A x (Some EVP_aes_256_ecb) (Some m) None = (True, x1) \<and>
        EVP_CIPHER_CTX_set_padding A x1 False = (True, x2) \<and> ek x2 = Some (take 32 m)) \<and>
     (\<forall>x m. \<exists>x1 x2. EVP_DecryptInit_ex A x (Some EVP_aes_256_ecb) (Some m) None = (True, x1) \<and>
        EVP_CIPHER_CTX_set_padding A x1 False = (True, x2) \<and> dk x2 = Some (take 32 m)) \<and>
     EVP_CIPHER_CTX_new A \<noteq> None"

lemma ecb_laws:
  assumes "ecb_spec A ek dk E D"
  shows "ek x = Some k \<Longrightarrow> length b = 16 \<Longrightarrow>
      \<exists>x'. EVP_EncryptUpdate A x b = (True, E k b, x') \<and> ek x' = Some k"
    and "dk x = Some k \<Longrightarrow> length b = 16 \<Longrightarrow>
      \<exists>x'. EVP_DecryptUpdate A x b = (True, D k b, x') \<and> dk x' = Some k"
    and "length b = 16 \<Longrightarrow> length (E k b) = 16" and "length b = 16 \<Longrightarrow> length (D k b) = 16"
    and "length b = 16 \<Longrightarrow> D k (E k b) = b" and "block_cipher (E k)"
  using assms by (auto simp: ecb_spec_def block_cipher_def)

section \<open>The loops in memory\<close>

definition in_mem :: "nat \<Rightarrow> bytes \<Rightarrow> bytes \<Rightarrow> registers \<Rightarrow> bytes \<Rightarrow> bool" where
  "in_mem off pre post s mem \<longleftrightarrow> length pre = off \<and> mem = pre @ fst s @ concat (snd s) @ post"

lemma wrap_step_ok:
  assumes S: "ecb_spec A ek dk E D" and x: "ek (kw_ctx st) = Some k" and b: "length (kw_b st) = 16"
    and s: "regs_ok n s" and m: "in_mem off pre post s (kw_mem st)" and i: "1 \<le> i" "i \<le> n"
  shows "\<exists>st'. wrap_step A off n (j, i) st = (Inr (), st') \<and> ek (kw_ctx st') = Some k \<and>
    length (kw_b st') = 16 \<and> in_mem off pre post (reg_step (E k) n s (j, i)) (kw_mem st')"
proof -
  obtain a rs where ar: "s = (a, rs)" by (cases s)
  obtain c1 c2 where c: "concat rs = c1 @ rs ! (i - 1) @ c2" "length c1 = 8 * (i - 1)"
      and upd: "\<And>r. concat (rs[i - 1 := r]) = c1 @ r @ c2"
    using s i by (auto simp: ar elim: concat_split [of n a rs i])
  have a: "length a = 8" and r: "length (rs ! (i - 1)) = 8"
    using s regs_nth [OF s, of "i - 1"] i by (auto simp: ar regs_ok_def)
  have off: "off + 8 * i = length (pre @ a @ c1)" using m c(2) a i by (simp add: in_mem_def)
  have mem: "kw_mem st = pre @ a @ c1 @ rs ! (i - 1) @ c2 @ post"
    using m c(1) by (simp add: in_mem_def ar)
  have ta: "take 8 (drop off (kw_mem st)) = a" using m a by (simp add: mem in_mem_def)
  have tr: "take 8 (drop (off + 8 * i) (kw_mem st)) = rs ! (i - 1)"
    unfolding off mem using r by (simp add: append_assoc [symmetric] del: append_assoc)
  let ?B = "E k (a @ rs ! (i - 1))"
  have B: "length ?B = 16" using ecb_laws(3) [OF S] a r by simp
  obtain x' where x': "EVP_EncryptUpdate A (kw_ctx st) (a @ rs ! (i - 1)) = (True, ?B, x')" "ek x' = Some k"
    using ecb_laws(1) [OF S x, of "a @ rs ! (i - 1)"] a r by auto
  have ov: "overwrite 0 ?B (kw_b st) = ?B" using B b by (simp add: overwrite_def)
  let ?a = "xor_last (kw_t n j i) (take 8 ?B)"
  have m1: "overwrite off ?a (kw_mem st) = (pre @ ?a @ c1) @ rs ! (i - 1) @ (c2 @ post)"
    using m a B overwrite_at [of off pre ?a a "c1 @ rs ! (i - 1) @ c2 @ post"] by (simp add: mem in_mem_def)
  have m2: "overwrite (off + 8 * i) (take 8 (drop 8 ?B)) (overwrite off ?a (kw_mem st)) =
      (pre @ ?a @ c1) @ drop 8 ?B @ (c2 @ post)"
    unfolding m1 using off a B r by (subst overwrite_at) simp_all
  have fit: "\<not> length (kw_mem st) < off + 8 * i + 8" unfolding off mem using r by simp
  let ?mem = "(pre @ ?a @ c1) @ drop 8 ?B @ (c2 @ post)"
  have "wrap_step A off n (j, i) st = (Inr (), st\<lparr>kw_mem := ?mem, kw_b := ?B, kw_ctx := x'\<rparr>)"
    using fit b B unfolding wrap_step_def prod.case Let_def ta tr x'(1) by (simp only: ov m2) simp
  moreover have "length pre = off" using m by (simp add: in_mem_def)
  ultimately show ?thesis
    using x'(2) B upd by (simp add: in_mem_def reg_step_def ar Let_def)
qed

lemma wrap_loop_ok:
  assumes S: "ecb_spec A ek dk E D"
  shows "ek (kw_ctx st) = Some k \<Longrightarrow> length (kw_b st) = 16 \<Longrightarrow> regs_ok n s \<Longrightarrow>
    in_mem off pre post s (kw_mem st) \<Longrightarrow> \<forall>ji \<in> set jis. 1 \<le> snd ji \<and> snd ji \<le> n \<Longrightarrow>
    \<exists>st'. kw_loop (wrap_step A off n) jis st = (Inr (), st') \<and> ek (kw_ctx st') = Some k \<and>
      in_mem off pre post (foldl (reg_step (E k) n) s jis) (kw_mem st')"
proof (induction jis arbitrary: st s)
  case (Cons ji jis)
  obtain j i where ji: "ji = (j, i)" by (cases ji)
  with Cons.prems have i: "1 \<le> i" "i \<le> n" by auto
  obtain st1 where st1: "wrap_step A off n (j, i) st = (Inr (), st1)" "ek (kw_ctx st1) = Some k"
      "length (kw_b st1) = 16" "in_mem off pre post (reg_step (E k) n s (j, i)) (kw_mem st1)"
    using wrap_step_ok [OF S Cons.prems(1-4) i] by blast
  have "regs_ok n (reg_step (E k) n s (j, i))"
    by (rule reg_step_ok [OF ecb_laws(6) [OF S] Cons.prems(3) i])
  from Cons.IH [OF st1(2,3) this st1(4)] Cons.prems(5) st1(1) ji show ?case by simp
qed simp

text \<open>The unwrapping loops: \<open>A\<close> is at the start of the working buffer's memory, the registers at the
  end of a region of the output buffer.\<close>

definition in_mem2 :: "nat \<Rightarrow> bytes \<Rightarrow> bytes \<Rightarrow> bytes \<Rightarrow> registers \<Rightarrow> 'x kw_state \<Rightarrow> bool" where
  "in_mem2 off pre post atail s st \<longleftrightarrow> length pre = off \<and> kw_mem st = pre @ concat (snd s) @ post \<and>
     kw_a st = fst s @ atail"

lemma reg_unstep_ok:
  assumes "\<And>b. length b = 16 \<Longrightarrow> length (D b) = 16" and "regs_ok n s" and "1 \<le> i" and "i \<le> n"
  shows "regs_ok n (reg_unstep D n s (j, i))"
proof -
  obtain a rs where s: "s = (a, rs)" by (cases s)
  have "length (rs ! (i - 1)) = 8" using regs_nth [OF assms(2), of "i - 1"] assms(3,4) s by simp
  then have "length (D (xor_last (kw_t n j i) a @ rs ! (i - 1))) = 16"
    using assms(1,2) s by (simp add: regs_ok_def)
  then show ?thesis
    using assms(2) s
    by (auto simp: reg_unstep_def Let_def regs_ok_def dest!: set_update_subset_insert [THEN subsetD])
qed

lemma unwrap_step_ok:
  assumes S: "ecb_spec A ek dk E D" and x: "dk (kw_ctx st) = Some k" and b: "length (kw_b st) = 80"
    and s: "regs_ok n s" and m: "in_mem2 off pre post atail s st" and i: "1 \<le> i" "i \<le> n"
  shows "\<exists>st'. unwrap_step A (off + 8 * n - 8) n (j, i) st = (Inr (), st') \<and> dk (kw_ctx st') = Some k \<and>
    length (kw_b st') = 80 \<and> in_mem2 off pre post atail (reg_unstep (D k) n s (j, i)) st'"
proof -
  obtain a rs where ar: "s = (a, rs)" by (cases s)
  obtain c1 c2 where c: "concat rs = c1 @ rs ! (i - 1) @ c2" "length c1 = 8 * (i - 1)"
      and upd: "\<And>r. concat (rs[i - 1 := r]) = c1 @ r @ c2"
    using s i by (auto simp: ar elim: concat_split [of n a rs i])
  have a: "length a = 8" and r: "length (rs ! (i - 1)) = 8"
    using s regs_nth [OF s, of "i - 1"] i by (auto simp: ar regs_ok_def)
  have off: "off + 8 * n - 8 - 8 * (n - i) = length (pre @ c1)" using m c(2) i by (simp add: in_mem2_def)
  have mem: "kw_mem st = (pre @ c1) @ rs ! (i - 1) @ (c2 @ post)"
    using m c(1) by (simp add: in_mem2_def ar)
  have am: "kw_a st = [] @ a @ atail" using m by (simp add: in_mem2_def ar)
  have ta: "take 8 (kw_a st) = a" using a by (simp add: am)
  have tr: "take 8 (drop (length (pre @ c1)) (kw_mem st)) = rs ! (i - 1)"
    unfolding mem using r by simp
  let ?in = "xor_last (kw_t n j i) a @ rs ! (i - 1)"
  let ?B = "D k ?in"
  have B: "length ?B = 16" using ecb_laws(4) [OF S] a r by simp
  obtain x' where x': "EVP_DecryptUpdate A (kw_ctx st) ?in = (True, ?B, x')" "dk x' = Some k"
    using ecb_laws(2) [OF S x, of ?in] a r by auto
  let ?b = "overwrite 0 ?B (kw_b st)"
  have ov: "take 8 ?b = take 8 ?B" "take 8 (drop 8 ?b) = drop 8 ?B" "length ?b = 80"
    using B b by (simp_all add: overwrite_def)
  have m1: "overwrite 0 (take 8 ?B) (kw_a st) = take 8 ?B @ atail"
    unfolding am using a B by (subst overwrite_at) simp_all
  have m2: "overwrite (length (pre @ c1)) (drop 8 ?B) (kw_mem st) = (pre @ c1) @ drop 8 ?B @ (c2 @ post)"
    unfolding mem using B r by (subst overwrite_at) simp_all
  have fit: "\<not> (length (kw_mem st) < length (pre @ c1) + 8 \<or> length (kw_a st) < 8)"
    unfolding am mem using r a by simp
  have "unwrap_step A (off + 8 * n - 8) n (j, i) st = (Inr (), st\<lparr>kw_a := take 8 ?B @ atail,
      kw_mem := (pre @ c1) @ drop 8 ?B @ (c2 @ post), kw_b := ?b, kw_ctx := x'\<rparr>)"
    using fit b B unfolding unwrap_step_def prod.case Let_def off ta tr x'(1) by (simp only: ov m1 m2) simp
  moreover have "length pre = off" using m by (simp add: in_mem2_def)
  ultimately show ?thesis
    using x'(2) B upd ov(3) by (simp add: in_mem2_def reg_unstep_def ar Let_def)
qed

lemma unwrap_loop_ok:
  assumes S: "ecb_spec A ek dk E D"
  shows "dk (kw_ctx st) = Some k \<Longrightarrow> length (kw_b st) = 80 \<Longrightarrow> regs_ok n s \<Longrightarrow>
    in_mem2 off pre post atail s st \<Longrightarrow> \<forall>ji \<in> set jis. 1 \<le> snd ji \<and> snd ji \<le> n \<Longrightarrow>
    \<exists>st'. kw_loop (unwrap_step A (off + 8 * n - 8) n) jis st = (Inr (), st') \<and> dk (kw_ctx st') = Some k \<and>
      in_mem2 off pre post atail (foldl (reg_unstep (D k) n) s jis) st' \<and>
      regs_ok n (foldl (reg_unstep (D k) n) s jis)"
proof (induction jis arbitrary: st s)
  case (Cons ji jis)
  obtain j i where ji: "ji = (j, i)" by (cases ji)
  with Cons.prems have i: "1 \<le> i" "i \<le> n" by auto
  obtain st1 where st1: "unwrap_step A (off + 8 * n - 8) n (j, i) st = (Inr (), st1)" "dk (kw_ctx st1) = Some k"
      "length (kw_b st1) = 80" "in_mem2 off pre post atail (reg_unstep (D k) n s (j, i)) st1"
    using unwrap_step_ok [OF S Cons.prems(1-4) i] by blast
  have "regs_ok n (reg_unstep (D k) n s (j, i))"
    by (rule reg_unstep_ok [OF ecb_laws(4) [OF S] Cons.prems(3) i])
  from Cons.IH [OF st1(2,3) this st1(4)] Cons.prems(5) st1(1) ji show ?case by simp
qed simp

section \<open>Wrapping and unwrapping\<close>

definition wrapped :: "(bytes \<Rightarrow> bytes) \<Rightarrow> bytes \<Rightarrow> bytes" where
  "wrapped E p = (case wrap_regs E (length p div 8) (replicate 8 INTEGRITY_VALUE, blocks8 p) of
     (a, rs) \<Rightarrow> a @ concat rs)"

definition unwrapped :: "(bytes \<Rightarrow> bytes) \<Rightarrow> bytes \<Rightarrow> registers" where
  "unwrapped D w = unwrap_regs D (length w div 8 - 1) (take 8 w, blocks8 (drop 8 w))"

lemma regs_ok_blocks: "length a = 8 \<Longrightarrow> length p = 8 * n \<Longrightarrow> regs_ok n (a, blocks8 p)"
  using blocks8_length [of p n] by (simp add: regs_ok_def)

lemma length_regs: "regs_ok n (a, rs) \<Longrightarrow> length a = 8 \<and> length (concat rs) = 8 * n"
  using length_concat8 [of rs] by (simp add: regs_ok_def)

lemma length_wrapped:
  assumes "block_cipher E" and "length p = 8 * n"
  shows "length (wrapped E p) = 8 * n + 8"
proof -
  obtain a rs where w: "wrap_regs E n (replicate 8 INTEGRITY_VALUE, blocks8 p) = (a, rs)"
    by (cases "wrap_regs E n (replicate 8 INTEGRITY_VALUE, blocks8 p)")
  have "regs_ok n (a, rs)" using wrap_regs_ok [OF assms(1) regs_ok_blocks [OF _ assms(2)]] w by (metis length_replicate)
  with length_regs w assms(2) show ?thesis by (simp add: wrapped_def)
qed

lemma unwrapped_wrapped:
  assumes E: "block_cipher E" and D: "\<And>b. length b = 16 \<Longrightarrow> D (E b) = b" and p: "length p = 8 * n"
  shows "unwrapped D (wrapped E p) = (replicate 8 INTEGRITY_VALUE, blocks8 p)"
proof -
  obtain a rs where w: "wrap_regs E n (replicate 8 INTEGRITY_VALUE, blocks8 p) = (a, rs)"
    by (cases "wrap_regs E n (replicate 8 INTEGRITY_VALUE, blocks8 p)")
  have ok: "regs_ok n (replicate 8 INTEGRITY_VALUE, blocks8 p)" using regs_ok_blocks p by simp
  note uw = unwrap_wrap_regs [OF E D ok]
  have rs: "length a = 8" "\<forall>r \<in> set rs. length r = 8" using uw(2) w by (simp_all add: regs_ok_def)
  have wp: "wrapped E p = a @ concat rs" using w p by (simp add: wrapped_def)
  have "length (wrapped E p) div 8 - 1 = n" using length_wrapped [OF E p] by simp
  with uw(1) w rs wp blocks8_concat [OF rs(2)] show ?thesis by (simp add: unwrapped_def)
qed

lemma valid_buf_split:
  assumes "valid_buf b" and "contents b = xs" and "xs \<noteq> []"
  obtains post where "buffer b = Some (xs @ post)" "length (xs @ post) = capacity b" "buf_len b = length xs"
proof (cases "buffer b")
  case None
  with assms show ?thesis by (simp add: contents_def)
next
  case (Some m)
  then have xs: "xs = take (buf_len b) m" using assms(2) by (simp add: contents_def)
  have "length m = capacity b" using assms(1) Some by (simp add: valid_buf_def)
  moreover have "length xs = buf_len b" using length_contents [OF assms(1)] assms(2) by simp
  ultimately show ?thesis using Some by (intro that [of "drop (buf_len b) m"]) (simp_all add: xs)
qed

lemma key_wrap_finalize:
  assumes C: "common_spec C" and S: "ecb_spec A ek dk E D"
    and x: "ek (encryptor_ctx (cipher_impl c)) = Some k"
    and w: "valid_buf (working_buffer (cipher_impl c))" "contents (working_buffer (cipher_impl c)) = p"
    and p: "length p = 8 * n" "2 \<le> n" "8 * n < 2 ^ 31" and bs: "block_size c = 8"
    and out: "valid_buf out" "8 * n + 8 \<le> room out \<or> allocator out" "buf_len out + (8 * n + 8) \<le> SIZE_MAX div 2"
  shows "\<exists>x' out'. s_key_wrap_finalize_encryption C A c out = (Inr (), set_enc x' c, out') \<and>
    ek x' = Some k \<and> valid_buf out' \<and> contents out' = contents out @ wrapped (E k) p"
proof -
  let ?iv = "replicate 8 INTEGRITY_VALUE"
  have wl: "buf_len (working_buffer (cipher_impl c)) = 8 * n" using length_contents [OF w(1)] w(2) p(1) by simp
  obtain out1 where o1: "aws_symmetric_cipher_try_ensure_sufficient_buffer_space C out (8 * n + 8) = Inr out1"
      "valid_buf out1" "contents out1 = contents out" "buf_len out1 = buf_len out" "8 * n + 8 \<le> room out1"
    using ensure_space [OF C out(1) out(3)] out(2) by auto
  obtain out2 where o2: "aws_byte_buf_write_u8_n C out1 INTEGRITY_VALUE 8 = Some out2" "appends out1 ?iv (Some out2)"
    using write_laws(5) [OF C o1(2), where n = 8 and x = INTEGRITY_VALUE] o1(5)
    by (cases "aws_byte_buf_write_u8_n C out1 INTEGRITY_VALUE 8") (simp_all add: appends_def)
  have v2: "valid_buf out2" "8 * n \<le> room out2"
    using o2(2) appends_room [OF o2(2)] o1(5) by (simp_all add: appends_def)
  obtain out3 where o3: "aws_byte_buf_write C out2 p = Some out3" "appends out2 p (Some out3)"
    using write_laws(1) [OF C v2(1), of p] v2(2) p(1)
    by (cases "aws_byte_buf_write C out2 p") (simp_all add: appends_def)
  have c3: "valid_buf out3" "contents out3 = contents out @ ?iv @ p"
    using appends_trans [OF o2(2) o3(2)] o1(3) by (simp_all add: appends_def)
  obtain post where m: "buffer out3 = Some ((contents out @ ?iv @ p) @ post)"
      "length ((contents out @ ?iv @ p) @ post) = capacity out3" "buf_len out3 = length (contents out @ ?iv @ p)"
    by (rule valid_buf_split [OF c3]) simp
  let ?st = "\<lparr>kw_mem = (contents out @ ?iv @ p) @ post, kw_a = [], kw_b = replicate 16 0,
    kw_ctx = encryptor_ctx (cipher_impl c)\<rparr>"
  have ok: "regs_ok n (?iv, blocks8 p)" using regs_ok_blocks p(1) by simp
  have im: "in_mem (buf_len out) (contents out) post (?iv, blocks8 p) (kw_mem ?st)"
    using length_contents [OF out(1)] by (simp add: in_mem_def concat_blocks8)
  obtain st' where st': "kw_loop (wrap_step A (buf_len out) n) (kw_schedule n) ?st = (Inr (), st')"
      "ek (kw_ctx st') = Some k"
      "in_mem (buf_len out) (contents out) post (wrap_regs (E k) n (?iv, blocks8 p)) (kw_mem st')"
    using wrap_loop_ok [OF S _ _ ok im, of k "kw_schedule n"] x kw_schedule_range
    by (auto simp: wrap_regs_def)
  have mem': "kw_mem st' = contents out @ wrapped (E k) p @ post"
    using st'(3) p(1) by (simp add: in_mem_def wrapped_def split: prod.splits)
  let ?out' = "out3\<lparr>buffer := Some (kw_mem st')\<rparr>"
  have lw: "length (wrapped (E k) p) = 8 * n + 8" by (rule length_wrapped [OF ecb_laws(6) [OF S] p(1)])
  have "valid_buf ?out'" using c3(1) m lw p(1) by (simp add: valid_buf_def mem')
  moreover have "contents ?out' = contents out @ wrapped (E k) p"
    using m(3) lw p(1) by (simp add: contents_def mem')
  moreover have "s_key_wrap_finalize_encryption C A c out = (Inr (), set_enc (kw_ctx st') c, ?out')"
    using wl p bs o1(1) o2(1) o3(1) w(2) m(1) st'(1)
    by (simp add: s_key_wrap_finalize_encryption_def Let_def keep_def)
  ultimately show ?thesis using st'(2) by blast
qed

text \<open>The wrapped key without its first block is copied behind the contents of the output.\<close>

lemma unwrap_output:
  assumes C: "common_spec C" and r: "length r = 8 * n" "2 \<le> n"
    and out: "valid_buf out" "8 * n \<le> room out \<or> allocator out" "buf_len out + 8 * n \<le> SIZE_MAX div 2"
  obtains out1 out2 post where "aws_symmetric_cipher_try_ensure_sufficient_buffer_space C out (8 * n) = Inr out1"
    "poke out1 r = Inr out2" "valid_buf (add_len (8 * n) out2)" "buf_len out2 = length (contents out)"
    "buf_len out1 = buf_len out" "buffer out2 = Some ((contents out @ r) @ post)" "length ((contents out @ r) @ post) = capacity out2"
proof -
  obtain out1 where o1: "aws_symmetric_cipher_try_ensure_sufficient_buffer_space C out (8 * n) = Inr out1"
      "valid_buf out1" "contents out1 = contents out" "buf_len out1 = buf_len out" "8 * n \<le> room out1"
    using ensure_space [OF C out(1) out(3)] out(2) by auto
  have "length r \<le> room out1" using r(1) o1(5) by simp
  from poke_appends [OF o1(2) this] obtain out2 where o2: "poke out1 r = Inr out2"
      "appends out1 r (Some (add_len (8 * n) out2))" "buf_len out2 = buf_len out1" using r(1) by metis
  have v2: "valid_buf (add_len (8 * n) out2)" "contents (add_len (8 * n) out2) = contents out @ r"
    using o2(2) o1(3) by (simp_all add: appends_def)
  obtain post where "buffer out2 = Some ((contents out @ r) @ post)" "length ((contents out @ r) @ post) = capacity out2"
    by (rule valid_buf_split [OF v2]) (use r in \<open>auto simp: add_len_def\<close>)
  with o1 o2 v2(1) length_contents [OF out(1)] show ?thesis by (intro that [of out1 out2 post]) simp_all
qed

lemma key_unwrap_finalize:
  assumes C: "common_spec C" and S: "ecb_spec A ek dk E D"
    and x: "dk (decryptor_ctx (cipher_impl c)) = Some k"
    and w: "valid_buf (working_buffer (cipher_impl c))" "contents (working_buffer (cipher_impl c)) = q"
    and q: "length q = 8 * n + 8" "2 \<le> n" "8 * n < 2 ^ 31"
    and out: "valid_buf out" "8 * n \<le> room out \<or> allocator out" "buf_len out + 8 * n \<le> SIZE_MAX div 2"
    and u: "unwrapped (D k) q = (a, rs)"
  shows "\<exists>c' out'. valid_buf out' \<and> s_key_wrap_finalize_decryption C A c out =
    (if a = replicate 8 INTEGRITY_VALUE then (Inr (), c', out')
     else (Inl (Raised AWS_ERROR_CAL_SIGNATURE_VALIDATION_FAILED), c', out')) \<and>
    contents out' = (if a = replicate 8 INTEGRITY_VALUE then contents out @ concat rs else contents out)"
proof -
  let ?w = "working_buffer (cipher_impl c)"
  have wl: "buf_len ?w = 8 * n + 8" using length_contents [OF w(1)] w(2) q(1) by simp
  obtain tail where wm: "buffer ?w = Some (q @ tail)"
    by (rule valid_buf_split [OF w]) (use q in auto)
  let ?r = "drop 8 q"
  have src: "take (8 * n) (drop 8 (q @ tail)) = ?r" using q(1) by simp
  have rl: "length ?r = 8 * n" using q(1) by simp
  obtain out1 out2 post where o1: "aws_symmetric_cipher_try_ensure_sufficient_buffer_space C out (8 * n) = Inr out1"
      and o2: "poke out1 ?r = Inr out2" and v2: "valid_buf (add_len (8 * n) out2)" and bl: "buf_len out2 = length (contents out)"
      and b1: "buf_len out1 = buf_len out"
      and m: "buffer out2 = Some ((contents out @ ?r) @ post)" "length ((contents out @ ?r) @ post) = capacity out2"
    by (rule unwrap_output [OF C rl q(2) out])
  let ?st = "\<lparr>kw_mem = (contents out @ ?r) @ post, kw_a = q @ tail, kw_b = replicate 80 0,
    kw_ctx = decryptor_ctx (cipher_impl c)\<rparr>"
  have ok: "regs_ok n (take 8 q, blocks8 ?r)" using regs_ok_blocks q(1) by simp
  have im: "in_mem2 (buf_len out) (contents out) post (?r @ tail) (take 8 q, blocks8 ?r) ?st"
    using length_contents [OF out(1)] append_take_drop_id [of 8 q]
    by (simp add: in_mem2_def concat_blocks8 append_assoc [symmetric] del: append_assoc append_take_drop_id)
  have "length q div 8 - 1 = n" using q(1) by simp
  then have uw: "foldl (reg_unstep (D k) n) (take 8 q, blocks8 ?r) (rev (kw_schedule n)) = (a, rs)"
    using u by (simp add: unwrapped_def unwrap_regs_def)
  obtain st' where st': "kw_loop (unwrap_step A (buf_len out + 8 * n - 8) n) (rev (kw_schedule n)) ?st = (Inr (), st')"
      "in_mem2 (buf_len out) (contents out) post (?r @ tail) (a, rs) st'" "regs_ok n (a, rs)"
    using unwrap_loop_ok [OF S _ _ ok im, of k "rev (kw_schedule n)"] x kw_schedule_range uw by auto
  have len: "length a = 8" "length (concat rs) = 8 * n" using length_regs [OF st'(3)] by simp_all
  have mem': "kw_mem st' = contents out @ concat rs @ post" "take 8 (kw_a st') = a"
    using st'(2) len(1) by (simp_all add: in_mem2_def)
  let ?out' = "out2\<lparr>buffer := Some (kw_mem st')\<rparr>"
  have v: "valid_buf (add_len (8 * n) ?out')" "valid_buf ?out'"
    using v2 m(2) len q(1) by (simp_all add: valid_buf_def mem' add_len_def)
  have cont: "contents ?out' = contents out" "contents (add_len (8 * n) ?out') = contents out @ concat rs"
    using bl len(2) by (simp_all add: contents_def mem' add_len_def)
  let ?c = "set_working (?w\<lparr>buffer := Some (kw_a st')\<rparr>) (set_dec (kw_ctx st') c)"
  have run: "s_key_wrap_finalize_decryption C A c out =
      (if a = replicate 8 INTEGRITY_VALUE then (Inr (), ?c, add_len (8 * n) ?out')
       else (Inl (Raised AWS_ERROR_CAL_SIGNATURE_VALIDATION_FAILED), ?c\<lparr>cipher_good := False\<rparr>, ?out'))"
    using wl q o1 o2 b1 wm m(1) st'(1) src
    by (simp add: s_key_wrap_finalize_decryption_def Let_def mem'(2))
  show ?thesis
  proof (cases "a = replicate 8 INTEGRITY_VALUE")
    case True
    with run v(1) cont(2) show ?thesis by auto
  next
    case False
    with run v(2) cont(1) show ?thesis by auto
  qed
qed

section \<open>Key wrap through the public interface\<close>

text \<open>A key wrap cipher under key \<open>k\<close> that has collected \<open>p\<close>.\<close>

definition kw_ready :: "('x \<Rightarrow> bytes option) \<Rightarrow> ('x \<Rightarrow> bytes option) \<Rightarrow> bytes \<Rightarrow> bytes \<Rightarrow> 'x aes_cipher \<Rightarrow> bool" where
  "kw_ready ek dk k p c \<longleftrightarrow> cipher_good c \<and> block_size c = 8 \<and>
     ek (encryptor_ctx (cipher_impl c)) = Some k \<and> dk (decryptor_ctx (cipher_impl c)) = Some k \<and>
     valid_buf (working_buffer (cipher_impl c)) \<and> allocator (working_buffer (cipher_impl c)) \<and>
     contents (working_buffer (cipher_impl c)) = p"

lemma keywrap_new:
  assumes C: "common_spec C" and S: "ecb_spec A ek dk E D"
    and k: "bytes_at (ptr kc) (cur_len kc) = Inr k" "length k = 32"
  shows "\<exists>c. aws_aes_keywrap_256_new_impl C A (Some kc) = Inr c \<and> kw_ready ek dk k [] c"
proof -
  have ne: "k \<noteq> []" "length k \<le> SIZE_MAX div 2" using k(2) by auto
  obtain kb where kb: "copy_cursor C kc = Inr kb" "buffer kb = Some k"
    using copied [OF C k(1)] ne by blast
  obtain w where w: "aws_byte_buf_init C 8 = Inr w" "fresh_buf 8 w" using init_law [OF C, of 8] by auto
  obtain x where x: "EVP_CIPHER_CTX_new A = Some x" using S by (auto simp: ecb_spec_def)
  obtain e1 e2 where e: "EVP_EncryptInit_ex A x (Some EVP_aes_256_ecb) (Some k) None = (True, e1)"
      "EVP_CIPHER_CTX_set_padding A e1 False = (True, e2)" "ek e2 = Some k"
    using S k(2) unfolding ecb_spec_def by (metis order_refl take_all)
  obtain d1 d2 where d: "EVP_DecryptInit_ex A x (Some EVP_aes_256_ecb) (Some k) None = (True, d1)"
      "EVP_CIPHER_CTX_set_padding A d1 False = (True, d2)" "dk d2 = Some k"
    using S k(2) unfolding ecb_spec_def by (metis order_refl take_all)
  have "contents w = []" "valid_buf w" "allocator w"
    using w(2) by (auto simp: fresh_buf_def contents_def split: option.splits)
  with kb w(1) x e d show ?thesis
    by (simp add: aws_aes_keywrap_256_new_impl_def key_material_def or_zero_def new_cipher_def finish_new_def
        s_init_keywrap_cipher_materials_def init_contexts_def set_enc_def set_dec_def kw_ready_def)
qed

lemma keywrap_feed:
  assumes C: "common_spec C" and c: "kw_ready ek dk k p c" and b: "bytes_at (ptr cur) (cur_len cur) = Inr b"
    and len: "length p + length b < 2 ^ 31 - 8" and x: "x = Encrypt cur \<or> x = Decrypt cur"
  shows "\<exists>c'. run_call (s_keywrap_vtable C A) x c out = (Inr (), c', out) \<and> kw_ready ek dk k (p @ b) c'"
proof -
  let ?w = "working_buffer (cipher_impl c)"
  have w: "valid_buf ?w" "allocator ?w" "contents ?w = p" using c by (simp_all add: kw_ready_def)
  have "buf_len ?w + length b \<le> SIZE_MAX div 2" using length_contents [OF w(1)] w(3) len by simp
  then obtain w' where w': "aws_byte_buf_append_dynamic C ?w b = Inr w'" "valid_buf w'" "contents w' = p @ b" "allocator w'"
    using append_dynamic_law [OF C w(1,2)] w(3) by auto
  have "s_check_input_size_limits c cur = Inr ()"
    using c len bytes_at_length [OF b] by (simp add: s_check_input_size_limits_def kw_ready_def)
  with x b w' c show ?thesis
    by (auto simp: aws_symmetric_cipher_encrypt_def aws_symmetric_cipher_decrypt_def s_keywrap_vtable_def
        s_key_wrap_encrypt_decrypt_def set_working_def kw_ready_def)
qed

interpretation kw_collect: cipher_collect "s_keywrap_vtable C A" K
  "\<lambda>c p. common_spec C \<and> (K = Encrypt \<or> K = Decrypt) \<and> kw_ready ek dk k p c" "\<lambda>_. True" "2 ^ 31 - 9" for C A K ek dk k
proof (unfold_locales, goal_cases)
  case (1 c p cur b out)
  from 1(4) have "length p + length b < 2 ^ 31 - 8" by simp
  with keywrap_feed [of C ek dk k p c cur b "K cur" A out] 1 show ?case by auto
qed

lemma keywrap_feed_all:
  assumes C: "common_spec C" and K: "K = Encrypt \<or> K = Decrypt"
    and cs: "list_all2 (\<lambda>c b. bytes_at (ptr c) (cur_len c) = Inr b) cs bs"
    and c: "kw_ready ek dk k p c" and len: "length p + length (concat bs) < 2 ^ 31 - 8"
  shows "\<exists>c'. run_calls (s_keywrap_vtable C A) (map K cs) c out = (replicate (length cs) (Inr ()), c', out) \<and>
      kw_ready ek dk k (p @ concat bs) c'"
proof -
  have ps: "pieces cs bs" using cs by (simp add: pieces_def)
  show ?thesis
    using kw_collect.collect_all [OF ps conjI [OF C conjI [OF K c]], of A out] len by auto
qed

lemma keywrap_finalize_call:
  assumes "kw_ready ek dk k p c"
  shows "run_call (s_keywrap_vtable C A) Finalize_encryption c out =
      (case s_key_wrap_finalize_encryption C A c out of (r, c', out') \<Rightarrow> (r, c'\<lparr>cipher_good := False\<rparr>, out'))"
    and "run_call (s_keywrap_vtable C A) Finalize_decryption c out =
      (case s_key_wrap_finalize_decryption C A c out of (r, c', out') \<Rightarrow> (r, c'\<lparr>cipher_good := False\<rparr>, out'))"
  using assms by (simp_all add: kw_ready_def aws_symmetric_cipher_finalize_encryption_def
      aws_symmetric_cipher_finalize_decryption_def s_keywrap_vtable_def)

lemma keywrap_encrypts:
  assumes C: "common_spec C" and S: "ecb_spec A ek dk E D"
    and k: "bytes_at (ptr kc) (cur_len kc) = Inr k" "length k = 32"
    and pieces: "list_all2 (\<lambda>c b. bytes_at (ptr c) (cur_len c) = Inr b) cs bs"
    and p: "length (concat bs) = 8 * n" "2 \<le> n" "8 * n < 2 ^ 31 - 8"
    and out: "valid_buf out" "allocator out" "buf_len out + (8 * n + 8) \<le> SIZE_MAX div 2"
  shows "\<exists>c c1 c2 out'. aws_aes_keywrap_256_new_impl C A (Some kc) = Inr c \<and>
    run_calls (s_keywrap_vtable C A) (map Encrypt cs) c out = (replicate (length cs) (Inr ()), c1, out) \<and>
    aws_symmetric_cipher_finalize_encryption (s_keywrap_vtable C A) c1 out = (Inr (), c2, out') \<and>
    contents out' = contents out @ wrapped (E k) (concat bs)"
proof -
  obtain c where c: "aws_aes_keywrap_256_new_impl C A (Some kc) = Inr c" "kw_ready ek dk k [] c"
    using keywrap_new [OF C S k] by blast
  have "length [] + length (concat bs) < 2 ^ 31 - 8" using p by simp
  from keywrap_feed_all [OF C _ pieces c(2) this, of Encrypt A out] obtain c1 where
      c1: "run_calls (s_keywrap_vtable C A) (map Encrypt cs) c out = (replicate (length cs) (Inr ()), c1, out)"
        "kw_ready ek dk k (concat bs) c1" by auto
  have "\<exists>x' out'. s_key_wrap_finalize_encryption C A c1 out = (Inr (), set_enc x' c1, out') \<and> ek x' = Some k \<and>
      valid_buf out' \<and> contents out' = contents out @ wrapped (E k) (concat bs)"
    by (rule key_wrap_finalize [OF C S _ _ _ p(1)]) (use c1(2) p out in \<open>auto simp: kw_ready_def\<close>)
  then show ?thesis
    using c(1) c1(1) keywrap_finalize_call(1) [OF c1(2), of C A out] by auto
qed

text \<open>
  Claim C4. Wrapping a key: a new key wrap cipher under a 32-byte key, fed the pieces of a key of
  \<open>8 n\<close> bytes with \<open>2 \<le> n \<le> 42\<close> and finalized, appends to a growable output buffer the RFC 3394
  wrapping of that key: the final register \<open>A\<close> followed by the registers \<open>R\<close>.
\<close>

theorem keywrap_wraps:
  assumes C: "common_spec C" and S: "ecb_spec A ek dk E D"
    and k: "bytes_at (ptr kc) (cur_len kc) = Inr k" "length k = 32"
    and pieces: "list_all2 (\<lambda>c b. bytes_at (ptr c) (cur_len c) = Inr b) cs bs"
    and p: "length (concat bs) = 8 * n" "2 \<le> n" "n \<le> 42"
    and out: "valid_buf out" "allocator out" "buf_len out + 400 \<le> SIZE_MAX div 2"
  shows "\<exists>c c1 c2 out'. aws_aes_keywrap_256_new_impl C A (Some kc) = Inr c \<and>
    run_calls (s_keywrap_vtable C A) (map Encrypt cs) c out = (replicate (length cs) (Inr ()), c1, out) \<and>
    aws_symmetric_cipher_finalize_encryption (s_keywrap_vtable C A) c1 out = (Inr (), c2, out') \<and>
    contents out' = contents out @ fst (rfc3394_wrap (E k) (blocks8 (concat bs))) @
      concat (snd (rfc3394_wrap (E k) (blocks8 (concat bs))))"
proof -
  have bl: "length (blocks8 (concat bs)) = n" "\<forall>r \<in> set (blocks8 (concat bs)). length r = 8"
    using blocks8_length [OF p(1)] by simp_all
  have "wrap_regs (E k) n (replicate 8 INTEGRITY_VALUE, blocks8 (concat bs)) = rfc3394_wrap (E k) (blocks8 (concat bs))"
    using wrap_is_rfc3394 [OF ecb_laws(6) [OF S] bl(2), of k] bl(1) p(3) by simp
  then have wr: "wrapped (E k) (concat bs) = fst (rfc3394_wrap (E k) (blocks8 (concat bs))) @
      concat (snd (rfc3394_wrap (E k) (blocks8 (concat bs))))"
    using p(1) by (simp add: wrapped_def split: prod.splits)
  show ?thesis
    using keywrap_encrypts [OF C S k pieces p(1,2) _ out(1,2)] p(3) out(3) unfolding wr by simp
qed

section \<open>A reference block cipher\<close>

text \<open>An instance of libcrypto that satisfies the assumptions: the context is the key, and the block
  cipher reverses a block.\<close>

definition ref_ecb :: "bytes option evp_cipher_api" where
  "ref_ecb = \<lparr>EVP_CIPHER_CTX_new = Some None, EVP_CIPHER_CTX_cleanup = (\<lambda>_. None),
     EVP_EncryptInit_ex = (\<lambda>x c m v. (True, case m of None \<Rightarrow> x | Some m \<Rightarrow> Some (take 32 m))),
     EVP_DecryptInit_ex = (\<lambda>x c m v. (True, case m of None \<Rightarrow> x | Some m \<Rightarrow> Some (take 32 m))),
     EVP_CIPHER_CTX_set_padding = (\<lambda>x p. (True, x)),
     EVP_EncryptUpdate = (\<lambda>x b. (True, rev b, x)), EVP_DecryptUpdate = (\<lambda>x b. (True, rev b, x)),
     EVP_EncryptUpdate_aad = (\<lambda>x a n. (False, x)), EVP_DecryptUpdate_aad = (\<lambda>x a n. (False, x)),
     EVP_EncryptFinal_ex = (\<lambda>x. (True, [], x)), EVP_DecryptFinal_ex = (\<lambda>x. (True, [], x)),
     EVP_GCM_GET_TAG = (\<lambda>x n. (False, [], x)), EVP_GCM_SET_TAG = (\<lambda>x t n. (False, x))\<rparr>"

lemma ecb_spec_ref: "ecb_spec ref_ecb id id (\<lambda>_. rev) (\<lambda>_. rev)"
  by (simp add: ecb_spec_def ref_ecb_def)

lemma keywrap_wraps_witness:
  "\<exists>c c1 c2 out'. aws_aes_keywrap_256_new_impl ref_common ref_ecb (Some (cursor_of (replicate 32 7))) = Inr c \<and>
    run_calls (s_keywrap_vtable ref_common ref_ecb)
      (map Encrypt [cursor_of (replicate 4 1), cursor_of (replicate 12 2)]) c (empty_out 0) =
        ([Inr (), Inr ()], c1, empty_out 0) \<and>
    aws_symmetric_cipher_finalize_encryption (s_keywrap_vtable ref_common ref_ecb) c1 (empty_out 0) = (Inr (), c2, out') \<and>
    contents out' = fst (rfc3394_wrap rev (blocks8 (replicate 4 1 @ replicate 12 2))) @
      concat (snd (rfc3394_wrap rev (blocks8 (replicate 4 1 @ replicate 12 2))))"
  using keywrap_wraps [OF common_spec_ref ecb_spec_ref, of "cursor_of (replicate 32 7)" "replicate 32 7"
      "[cursor_of (replicate 4 1), cursor_of (replicate 12 2)]" "[replicate 4 1, replicate 12 2]" 2 "empty_out 0"]
  by simp

section \<open>Unwrapping\<close>

lemma keywrap_decrypts:
  assumes C: "common_spec C" and S: "ecb_spec A ek dk E D"
    and k: "bytes_at (ptr kc) (cur_len kc) = Inr k" "length k = 32"
    and pieces: "list_all2 (\<lambda>c b. bytes_at (ptr c) (cur_len c) = Inr b) cs bs"
    and q: "length (concat bs) = 8 * n + 8" "2 \<le> n" "8 * n < 2 ^ 31 - 16"
    and out: "valid_buf out" "allocator out" "buf_len out + 8 * n \<le> SIZE_MAX div 2"
    and u: "unwrapped (D k) (concat bs) = (a, rs)"
  shows "\<exists>c c1 c2 out'. aws_aes_keywrap_256_new_impl C A (Some kc) = Inr c \<and>
    run_calls (s_keywrap_vtable C A) (map Decrypt cs) c out = (replicate (length cs) (Inr ()), c1, out) \<and>
    aws_symmetric_cipher_finalize_decryption (s_keywrap_vtable C A) c1 out =
      (if a = replicate 8 INTEGRITY_VALUE then Inr () else Inl (Raised AWS_ERROR_CAL_SIGNATURE_VALIDATION_FAILED),
       c2, out') \<and> \<not> aws_symmetric_cipher_is_good c2 \<and>
    contents out' = (if a = replicate 8 INTEGRITY_VALUE then contents out @ concat rs else contents out)"
proof -
  obtain c where c: "aws_aes_keywrap_256_new_impl C A (Some kc) = Inr c" "kw_ready ek dk k [] c"
    using keywrap_new [OF C S k] by blast
  have "length [] + length (concat bs) < 2 ^ 31 - 8" using q by simp
  from keywrap_feed_all [OF C _ pieces c(2) this, of Decrypt A out] obtain c1 where
      c1: "run_calls (s_keywrap_vtable C A) (map Decrypt cs) c out = (replicate (length cs) (Inr ()), c1, out)"
        "kw_ready ek dk k (concat bs) c1" by auto
  have "\<exists>c' out'. valid_buf out' \<and> s_key_wrap_finalize_decryption C A c1 out =
    (if a = replicate 8 INTEGRITY_VALUE then (Inr (), c', out')
     else (Inl (Raised AWS_ERROR_CAL_SIGNATURE_VALIDATION_FAILED), c', out')) \<and>
    contents out' = (if a = replicate 8 INTEGRITY_VALUE then contents out @ concat rs else contents out)"
    by (rule key_unwrap_finalize [OF C S _ _ _ q(1,2) _ out(1) _ out(3) u])
      (use c1(2) q out in \<open>auto simp: kw_ready_def\<close>)
  then show ?thesis
    using c(1) c1(1) keywrap_finalize_call(2) [OF c1(2), of C A out]
    by (auto simp: aws_symmetric_cipher_is_good_def)
qed

text \<open>
  Claim C5. Key wrap round trip: for every key of \<open>8 n\<close> bytes with \<open>2 \<le> n\<close> within the size limit
  (beyond 42 blocks too, where the one-byte counter departs from RFC 3394), the bytes that wrapping
  appends to an empty output, fed in any pieces to a new cipher under the same key, unwrap to
  exactly that key.
\<close>

theorem keywrap_round_trip:
  assumes C: "common_spec C" and S: "ecb_spec A ek dk E D"
    and k: "bytes_at (ptr kc) (cur_len kc) = Inr k" "length k = 32"
    and pieces: "list_all2 (\<lambda>c b. bytes_at (ptr c) (cur_len c) = Inr b) cs bs"
    and p: "length (concat bs) = 8 * n" "2 \<le> n" "8 * n < 2 ^ 31 - 16"
    and out: "valid_buf out" "allocator out" "contents out = []" "valid_buf out1" "allocator out1"
      "buf_len out1 + 8 * n \<le> SIZE_MAX div 2"
  shows "\<exists>c c1 c2 out'. aws_aes_keywrap_256_new_impl C A (Some kc) = Inr c \<and>
    run_calls (s_keywrap_vtable C A) (map Encrypt cs) c out = (replicate (length cs) (Inr ()), c1, out) \<and>
    aws_symmetric_cipher_finalize_encryption (s_keywrap_vtable C A) c1 out = (Inr (), c2, out') \<and>
    (\<forall>ds ws. list_all2 (\<lambda>c b. bytes_at (ptr c) (cur_len c) = Inr b) ds ws \<and> concat ws = contents out' \<longrightarrow>
       (\<exists>d d1 d2 res. aws_aes_keywrap_256_new_impl C A (Some kc) = Inr d \<and>
         run_calls (s_keywrap_vtable C A) (map Decrypt ds) d out1 = (replicate (length ds) (Inr ()), d1, out1) \<and>
         aws_symmetric_cipher_finalize_decryption (s_keywrap_vtable C A) d1 out1 = (Inr (), d2, res) \<and>
         contents res = contents out1 @ concat bs))"
proof -
  obtain c c1 c2 out' where w: "aws_aes_keywrap_256_new_impl C A (Some kc) = Inr c"
      "run_calls (s_keywrap_vtable C A) (map Encrypt cs) c out = (replicate (length cs) (Inr ()), c1, out)"
      "aws_symmetric_cipher_finalize_encryption (s_keywrap_vtable C A) c1 out = (Inr (), c2, out')"
      "contents out' = contents out @ wrapped (E k) (concat bs)"
    using keywrap_encrypts [OF C S k pieces p(1,2) _ out(1,2)] p(3) out(1,3) length_contents [OF out(1)] by fastforce
  have lw: "length (wrapped (E k) (concat bs)) = 8 * n + 8" by (rule length_wrapped [OF ecb_laws(6) [OF S] p(1)])
  have uw: "unwrapped (D k) (wrapped (E k) (concat bs)) = (replicate 8 INTEGRITY_VALUE, blocks8 (concat bs))"
    by (rule unwrapped_wrapped [OF ecb_laws(6) [OF S] ecb_laws(5) [OF S] p(1)])
  have "\<exists>d d1 d2 res. aws_aes_keywrap_256_new_impl C A (Some kc) = Inr d \<and>
         run_calls (s_keywrap_vtable C A) (map Decrypt ds) d out1 = (replicate (length ds) (Inr ()), d1, out1) \<and>
         aws_symmetric_cipher_finalize_decryption (s_keywrap_vtable C A) d1 out1 = (Inr (), d2, res) \<and>
         contents res = contents out1 @ concat bs"
    if "list_all2 (\<lambda>c b. bytes_at (ptr c) (cur_len c) = Inr b) ds ws" "concat ws = contents out'" for ds ws
  proof -
    have ws: "concat ws = wrapped (E k) (concat bs)" using that(2) w(4) out(3) by simp
    show ?thesis
      using keywrap_decrypts [OF C S k that(1), of n out1 "replicate 8 INTEGRITY_VALUE" "blocks8 (concat bs)"]
        ws lw uw p(2,3) out(4-6) by (auto simp: concat_blocks8)
  qed
  with w(1-3) show ?thesis by blast
qed

lemma keywrap_round_trip_witness:
  "\<exists>c c1 c2 out'. aws_aes_keywrap_256_new_impl ref_common ref_ecb (Some (cursor_of (replicate 32 7))) = Inr c \<and>
    run_calls (s_keywrap_vtable ref_common ref_ecb) [Encrypt (cursor_of (replicate 400 5))] c (empty_out 0) =
      ([Inr ()], c1, empty_out 0) \<and>
    aws_symmetric_cipher_finalize_encryption (s_keywrap_vtable ref_common ref_ecb) c1 (empty_out 0) = (Inr (), c2, out') \<and>
    (\<exists>d d1 d2 res. aws_aes_keywrap_256_new_impl ref_common ref_ecb (Some (cursor_of (replicate 32 7))) = Inr d \<and>
       run_calls (s_keywrap_vtable ref_common ref_ecb) [Decrypt (cursor_of (contents out'))] d (empty_out 3) =
         ([Inr ()], d1, empty_out 3) \<and>
       aws_symmetric_cipher_finalize_decryption (s_keywrap_vtable ref_common ref_ecb) d1 (empty_out 3) = (Inr (), d2, res) \<and>
       contents res = replicate 400 5)"
proof -
  let ?k = "cursor_of (replicate 32 7)" and ?vt = "s_keywrap_vtable ref_common ref_ecb"
  obtain c c1 c2 out' where w: "aws_aes_keywrap_256_new_impl ref_common ref_ecb (Some ?k) = Inr c"
      "run_calls ?vt (map Encrypt [cursor_of (replicate 400 5)]) c (empty_out 0) =
        (replicate (length [cursor_of (replicate 400 5)]) (Inr ()), c1, empty_out 0)"
      "aws_symmetric_cipher_finalize_encryption ?vt c1 (empty_out 0) = (Inr (), c2, out')"
      and u: "\<forall>ds ws. list_all2 (\<lambda>c b. bytes_at (ptr c) (cur_len c) = Inr b) ds ws \<and> concat ws = contents out' \<longrightarrow>
       (\<exists>d d1 d2 res. aws_aes_keywrap_256_new_impl ref_common ref_ecb (Some ?k) = Inr d \<and>
         run_calls ?vt (map Decrypt ds) d (empty_out 3) = (replicate (length ds) (Inr ()), d1, empty_out 3) \<and>
         aws_symmetric_cipher_finalize_decryption ?vt d1 (empty_out 3) = (Inr (), d2, res) \<and>
         contents res = contents (empty_out 3) @ concat [replicate 400 5])"
    using keywrap_round_trip [OF common_spec_ref ecb_spec_ref, of ?k "replicate 32 7"
        "[cursor_of (replicate 400 5)]" "[replicate 400 5]" 50 "empty_out 0" "empty_out 3"] by auto
  from u [rule_format, of "[cursor_of (contents out')]" "[contents out']"] w show ?thesis by auto
qed

lemma keywrap_short:
  assumes C: "common_spec C" and S: "ecb_spec A ek dk E D"
    and k: "bytes_at (ptr kc) (cur_len kc) = Inr k" "length k = 32"
    and pieces: "list_all2 (\<lambda>c b. bytes_at (ptr c) (cur_len c) = Inr b) cs bs"
  shows "length (concat bs) < 24 \<Longrightarrow> \<exists>c c1 c2. aws_aes_keywrap_256_new_impl C A (Some kc) = Inr c \<and>
      run_calls (s_keywrap_vtable C A) (map Decrypt cs) c out = (replicate (length cs) (Inr ()), c1, out) \<and>
      aws_symmetric_cipher_finalize_decryption (s_keywrap_vtable C A) c1 out =
        (Inl (Raised AWS_ERROR_INVALID_STATE), c2, out) \<and> \<not> aws_symmetric_cipher_is_good c2"
    and "length (concat bs) < 16 \<Longrightarrow> \<exists>c c1 c2. aws_aes_keywrap_256_new_impl C A (Some kc) = Inr c \<and>
      run_calls (s_keywrap_vtable C A) (map Encrypt cs) c out = (replicate (length cs) (Inr ()), c1, out) \<and>
      aws_symmetric_cipher_finalize_encryption (s_keywrap_vtable C A) c1 out =
        (Inl (Raised AWS_ERROR_INVALID_STATE), c2, out) \<and> \<not> aws_symmetric_cipher_is_good c2"
proof -
  obtain c where c: "aws_aes_keywrap_256_new_impl C A (Some kc) = Inr c" "kw_ready ek dk k [] c"
    using keywrap_new [OF C S k] by blast
  have feed: "\<exists>c1. run_calls (s_keywrap_vtable C A) (map K cs) c out = (replicate (length cs) (Inr ()), c1, out) \<and>
      kw_ready ek dk k (concat bs) c1" if "length (concat bs) < 24" "K = Encrypt \<or> K = Decrypt" for K
    using keywrap_feed_all [OF C that(2) pieces c(2), of A out] that(1) by simp
  have len: "buf_len (working_buffer (cipher_impl c1)) = length (concat bs)"
    if "kw_ready ek dk k (concat bs) c1" for c1
    using that length_contents by (fastforce simp: kw_ready_def)
  show "\<exists>c c1 c2. aws_aes_keywrap_256_new_impl C A (Some kc) = Inr c \<and>
      run_calls (s_keywrap_vtable C A) (map Decrypt cs) c out = (replicate (length cs) (Inr ()), c1, out) \<and>
      aws_symmetric_cipher_finalize_decryption (s_keywrap_vtable C A) c1 out =
        (Inl (Raised AWS_ERROR_INVALID_STATE), c2, out) \<and> \<not> aws_symmetric_cipher_is_good c2"
    if short: "length (concat bs) < 24"
  proof -
    obtain c1 where "run_calls (s_keywrap_vtable C A) (map Decrypt cs) c out = (replicate (length cs) (Inr ()), c1, out)"
        "kw_ready ek dk k (concat bs) c1" using feed [OF short] by blast
    with c(1) short keywrap_finalize_call(2) [of ek dk k "concat bs" c1 C A out] len [of c1] show ?thesis
      by (auto simp: s_key_wrap_finalize_decryption_def Let_def aws_symmetric_cipher_is_good_def)
  qed
  show "\<exists>c c1 c2. aws_aes_keywrap_256_new_impl C A (Some kc) = Inr c \<and>
      run_calls (s_keywrap_vtable C A) (map Encrypt cs) c out = (replicate (length cs) (Inr ()), c1, out) \<and>
      aws_symmetric_cipher_finalize_encryption (s_keywrap_vtable C A) c1 out =
        (Inl (Raised AWS_ERROR_INVALID_STATE), c2, out) \<and> \<not> aws_symmetric_cipher_is_good c2"
    if short: "length (concat bs) < 16"
  proof -
    have "length (concat bs) < 24" using short by simp
    from feed [OF this] obtain c1 where
        "run_calls (s_keywrap_vtable C A) (map Encrypt cs) c out = (replicate (length cs) (Inr ()), c1, out)"
        "kw_ready ek dk k (concat bs) c1" by blast
    with c(1) short keywrap_finalize_call(1) [of ek dk k "concat bs" c1 C A out] len [of c1] show ?thesis
      by (auto simp: s_key_wrap_finalize_encryption_def Let_def aws_symmetric_cipher_is_good_def)
  qed
qed

text \<open>
  Claim C35. Key wrap rejects: unwrapping input of at least three whole blocks of 8 bytes whose recovered register \<open>A\<close> is not
  the integrity value ends in AWS_ERROR_CAL_SIGNATURE_VALIDATION_FAILED, and input that is too
  short (below three blocks for unwrapping, below two for wrapping) in AWS_ERROR_INVALID_STATE;
  the output buffer keeps its contents and the cipher is no longer good. Nothing is said of longer input that is not made of whole blocks.
\<close>

theorem keywrap_rejects:
  assumes C: "common_spec C" and S: "ecb_spec A ek dk E D"
    and k: "bytes_at (ptr kc) (cur_len kc) = Inr k" "length k = 32"
    and pieces: "list_all2 (\<lambda>c b. bytes_at (ptr c) (cur_len c) = Inr b) cs bs"
    and q: "length (concat bs) < 2 ^ 31 - 16" "length (concat bs) < 24 \<or>
      length (concat bs) mod 8 = 0 \<and> fst (unwrapped (D k) (concat bs)) \<noteq> replicate 8 INTEGRITY_VALUE"
    and out: "valid_buf out" "allocator out" "buf_len out + length (concat bs) \<le> SIZE_MAX div 2"
  shows "(\<exists>c c1 c2 out'. aws_aes_keywrap_256_new_impl C A (Some kc) = Inr c \<and>
      run_calls (s_keywrap_vtable C A) (map Decrypt cs) c out = (replicate (length cs) (Inr ()), c1, out) \<and>
      aws_symmetric_cipher_finalize_decryption (s_keywrap_vtable C A) c1 out =
        (Inl (Raised (if length (concat bs) < 24 then AWS_ERROR_INVALID_STATE
           else AWS_ERROR_CAL_SIGNATURE_VALIDATION_FAILED)), c2, out') \<and>
      contents out' = contents out \<and> \<not> aws_symmetric_cipher_is_good c2) \<and>
    (length (concat bs) < 16 \<longrightarrow> (\<exists>c c1 c2. aws_aes_keywrap_256_new_impl C A (Some kc) = Inr c \<and>
      run_calls (s_keywrap_vtable C A) (map Encrypt cs) c out = (replicate (length cs) (Inr ()), c1, out) \<and>
      aws_symmetric_cipher_finalize_encryption (s_keywrap_vtable C A) c1 out =
        (Inl (Raised AWS_ERROR_INVALID_STATE), c2, out) \<and> \<not> aws_symmetric_cipher_is_good c2))"
proof (cases "length (concat bs) < 24")
  case True
  with keywrap_short(1) [OF C S k pieces True, of out] keywrap_short(2) [OF C S k pieces, of out] show ?thesis by auto
next
  case False
  define n where "n = length (concat bs) div 8 - 1"
  have n: "length (concat bs) = 8 * n + 8" "2 \<le> n" using False q(2) by (auto simp: n_def)
  obtain a rs where u: "unwrapped (D k) (concat bs) = (a, rs)" by (cases "unwrapped (D k) (concat bs)")
  have "8 * n < 2 ^ 31 - 16" "buf_len out + 8 * n \<le> SIZE_MAX div 2" using q(1) out(3) n(1) by linarith+
  from keywrap_decrypts [OF C S k pieces n this(1) out(1,2) this(2) u] False q(2) u show ?thesis by auto
qed

lemma keywrap_rejects_witness:
  "\<exists>c c1 c2 out'. aws_aes_keywrap_256_new_impl ref_common ref_ecb (Some (cursor_of (replicate 32 7))) = Inr c \<and>
      run_calls (s_keywrap_vtable ref_common ref_ecb) [Decrypt (cursor_of (replicate 24 0))] c (empty_out 3) =
        ([Inr ()], c1, empty_out 3) \<and>
      aws_symmetric_cipher_finalize_decryption (s_keywrap_vtable ref_common ref_ecb) c1 (empty_out 3) =
        (Inl (Raised AWS_ERROR_CAL_SIGNATURE_VALIDATION_FAILED), c2, out') \<and>
      contents out' = [] \<and> \<not> aws_symmetric_cipher_is_good c2"
proof -
  have "fst (unwrapped rev (replicate 24 0)) \<noteq> replicate 8 INTEGRITY_VALUE" by code_simp
  then show ?thesis
    using keywrap_rejects [OF common_spec_ref ecb_spec_ref, of "cursor_of (replicate 32 7)" "replicate 32 7"
        "[cursor_of (replicate 24 0)]" "[replicate 24 0]" "empty_out 3"] by simp
qed

end
