(* ===== verification/Aes_Streams.thy ===== *)
theory Aes_Streams
  imports Openssl_Aes Cipher_Stream
begin

text \<open>
  Correctness of the streaming ciphers (CBC, CTR and GCM) over libcrypto: the contract
  \<open>cipher_stream\<close> is interpreted for encryption and for decryption on the vtables of the three
  modes. The properties are about whole runs: a new cipher, any number of pieces, finalize, reset,
  and back.
\<close>

section \<open>What the proofs use of libcrypto\<close>

text \<open>
  \<open>est\<close> and \<open>dst\<close> abstract a context with an operation under way to its parameters (cipher, key,
  vector, additional data), the bytes it was fed and the bytes it has written; for decryption also
  the expected tag. \<open>fst_tag\<close> abstracts a finished encryption. \<open>Enc\<close> and \<open>Tag\<close> are the cipher text and
  the GCM tag of a message.
\<close>

type_synonym stream_params = "evp_cipher \<times> bytes \<times> bytes \<times> bytes"

record 'x evp_stream =
  est :: "'x \<Rightarrow> (stream_params \<times> bytes \<times> bytes) option"
  dst :: "'x \<Rightarrow> (stream_params \<times> bytes option \<times> bytes \<times> bytes) option"
  fin :: "'x \<Rightarrow> (stream_params \<times> bytes) option"
  Enc :: "stream_params \<Rightarrow> bytes \<Rightarrow> bytes"
  Tag :: "stream_params \<Rightarrow> bytes \<Rightarrow> bytes"

text \<open>An update writes at most a block more than it is given, never more in total than was fed.
  Finalizing completes the cipher text; decryption returns the message of a cipher text, for GCM
  only under the right tag.\<close>

definition update_spec :: "'x evp_cipher_api \<Rightarrow> 'x evp_stream \<Rightarrow> bool" where
  "update_spec A S \<longleftrightarrow>
     (\<forall>x p m w b. est S x = Some (p, m, w) \<longrightarrow> length w \<le> length m \<and>
        (\<exists>w' x'. EVP_EncryptUpdate A x b = (True, w', x') \<and> est S x' = Some (p, m @ b, w @ w') \<and>
           length w' \<le> length b + 16)) \<and>
     (\<forall>x p t m w b. dst S x = Some (p, t, m, w) \<longrightarrow> length w \<le> length m \<and>
        (\<exists>w' x'. EVP_DecryptUpdate A x b = (True, w', x') \<and> dst S x' = Some (p, t, m @ b, w @ w') \<and>
           length w' \<le> length b + 16))"

definition final_spec :: "'x evp_cipher_api \<Rightarrow> 'x evp_stream \<Rightarrow> bool" where
  "final_spec A S \<longleftrightarrow>
     (\<forall>x p m w. est S x = Some (p, m, w) \<longrightarrow>
        (\<exists>w' x'. EVP_EncryptFinal_ex A x = (True, w', x') \<and> fin S x' = Some (p, m) \<and> Enc S p m = w @ w' \<and>
           length w' \<le> 16)) \<and>
     (\<forall>x p t m w. dst S x = Some (p, t, Enc S p m, w) \<longrightarrow>
        (if fst p \<noteq> EVP_aes_256_gcm \<or> t = Some (Tag S p m)
         then \<exists>w' x'. EVP_DecryptFinal_ex A x = (True, w', x') \<and> m = w @ w' \<and> length w' \<le> 16
         else \<exists>w' x'. EVP_DecryptFinal_ex A x = (False, w', x')))"

definition tag_spec :: "'x evp_cipher_api \<Rightarrow> 'x evp_stream \<Rightarrow> bool" where
  "tag_spec A S \<longleftrightarrow>
     (\<forall>x p m. fin S x = Some (p, m) \<and> fst p = EVP_aes_256_gcm \<longrightarrow>
        (\<exists>x'. EVP_GCM_GET_TAG A x 16 = (True, Tag S p m, x'))) \<and>
     (\<forall>p m. length (Tag S p m) = 16)"

text \<open>Initialisation, from any context: at once for CBC and CTR, in two steps for GCM, whose
  additional data and expected tag are set before any data.\<close>

definition init_spec :: "'x evp_cipher_api \<Rightarrow> 'x evp_stream \<Rightarrow> bool" where
  "init_spec A S \<longleftrightarrow>
     (\<forall>x ci k v. ci \<in> {EVP_aes_256_cbc, EVP_aes_256_ctr} \<and> length k = 32 \<and> length v = 16 \<longrightarrow>
        (\<exists>x'. EVP_EncryptInit_ex A x (Some ci) (Some k) (Some v) = (True, x') \<and> est S x' = Some ((ci, k, v, []), [], [])) \<and>
        (\<exists>x'. EVP_DecryptInit_ex A x (Some ci) (Some k) (Some v) = (True, x') \<and> dst S x' = Some ((ci, k, v, []), None, [], []))) \<and>
     (\<forall>x k v. length k = 32 \<and> length v = 12 \<longrightarrow>
        (\<exists>x1 x2. EVP_EncryptInit_ex A x (Some EVP_aes_256_gcm) None None = (True, x1) \<and>
           EVP_EncryptInit_ex A x1 None (Some k) (Some v) = (True, x2) \<and> est S x2 = Some ((EVP_aes_256_gcm, k, v, []), [], [])) \<and>
        (\<exists>x1 x2. EVP_DecryptInit_ex A x (Some EVP_aes_256_gcm) None None = (True, x1) \<and>
           EVP_DecryptInit_ex A x1 None (Some k) (Some v) = (True, x2) \<and> dst S x2 = Some ((EVP_aes_256_gcm, k, v, []), None, [], [])))"

definition setup_spec :: "'x evp_cipher_api \<Rightarrow> 'x evp_stream \<Rightarrow> bool" where
  "setup_spec A S \<longleftrightarrow>
     (\<forall>x p. est S x = Some (p, [], []) \<and> fst p \<noteq> EVP_aes_256_cbc \<longrightarrow>
        (\<exists>x'. EVP_CIPHER_CTX_set_padding A x False = (True, x') \<and> est S x' = Some (p, [], []))) \<and>
     (\<forall>x p. dst S x = Some (p, None, [], []) \<and> fst p \<noteq> EVP_aes_256_cbc \<longrightarrow>
        (\<exists>x'. EVP_CIPHER_CTX_set_padding A x False = (True, x') \<and> dst S x' = Some (p, None, [], []))) \<and>
     (\<forall>x k v b n. est S x = Some ((EVP_aes_256_gcm, k, v, []), [], []) \<and> 0 \<le> n \<and> n \<le> int (length b) \<longrightarrow>
        (\<exists>x'. EVP_EncryptUpdate_aad A x b n = (True, x') \<and>
           est S x' = Some ((EVP_aes_256_gcm, k, v, take (nat n) b), [], []))) \<and>
     (\<forall>x k v b n. dst S x = Some ((EVP_aes_256_gcm, k, v, []), None, [], []) \<and> 0 \<le> n \<and> n \<le> int (length b) \<longrightarrow>
        (\<exists>x'. EVP_DecryptUpdate_aad A x b n = (True, x') \<and>
           dst S x' = Some ((EVP_aes_256_gcm, k, v, take (nat n) b), None, [], []))) \<and>
     (\<forall>x p t. dst S x = Some (p, None, [], []) \<and> fst p = EVP_aes_256_gcm \<and> length t = 16 \<longrightarrow>
        (\<exists>x'. EVP_GCM_SET_TAG A x t 16 = (True, x') \<and> dst S x' = Some (p, Some t, [], [])))"

definition stream_spec :: "'x evp_cipher_api \<Rightarrow> 'x evp_stream \<Rightarrow> bool" where
  "stream_spec A S \<longleftrightarrow> update_spec A S \<and> final_spec A S \<and> tag_spec A S \<and> init_spec A S \<and> setup_spec A S \<and>
     EVP_CIPHER_CTX_new A \<noteq> None"

lemma stream_specD:
  assumes "stream_spec A S"
  shows "update_spec A S" "final_spec A S" "tag_spec A S" "init_spec A S" "setup_spec A S"
    "EVP_CIPHER_CTX_new A \<noteq> None"
  using assms by (simp_all add: stream_spec_def)

lemma update_laws:
  assumes "stream_spec A S"
  shows "est S x = Some (p, m, w) \<Longrightarrow> length w \<le> length m"
    and "dst S x = Some (p, t, m, w) \<Longrightarrow> length w \<le> length m"
    and "est S x = Some (p, m, w) \<Longrightarrow> \<exists>w' x'. EVP_EncryptUpdate A x b = (True, w', x') \<and>
      est S x' = Some (p, m @ b, w @ w') \<and> length w' \<le> length b + 16"
    and "dst S x = Some (p, t, m, w) \<Longrightarrow> \<exists>w' x'. EVP_DecryptUpdate A x b = (True, w', x') \<and>
      dst S x' = Some (p, t, m @ b, w @ w') \<and> length w' \<le> length b + 16"
  using stream_specD(1) [OF assms] unfolding update_spec_def by blast+

lemma final_laws:
  assumes "stream_spec A S"
  shows "est S x = Some (p, m, w) \<Longrightarrow> \<exists>w' x'. EVP_EncryptFinal_ex A x = (True, w', x') \<and>
      fin S x' = Some (p, m) \<and> Enc S p m = w @ w' \<and> length w' \<le> 16"
    and "dst S x = Some (p, t, Enc S p m, w) \<Longrightarrow> fst p \<noteq> EVP_aes_256_gcm \<or> t = Some (Tag S p m) \<Longrightarrow>
      \<exists>w' x'. EVP_DecryptFinal_ex A x = (True, w', x') \<and> m = w @ w' \<and> length w' \<le> 16"
    and "dst S x = Some (p, t, Enc S p m, w) \<Longrightarrow> \<not> (fst p \<noteq> EVP_aes_256_gcm \<or> t = Some (Tag S p m)) \<Longrightarrow>
      \<exists>w' x'. EVP_DecryptFinal_ex A x = (False, w', x')"
  using stream_specD(2) [OF assms] unfolding final_spec_def by presburger+

lemma tag_laws:
  assumes "stream_spec A S"
  shows "fin S x = Some (p, m) \<Longrightarrow> fst p = EVP_aes_256_gcm \<Longrightarrow> \<exists>x'. EVP_GCM_GET_TAG A x 16 = (True, Tag S p m, x')"
    and "length (Tag S p m) = 16"
  using stream_specD(3) [OF assms] unfolding tag_spec_def by blast+

section \<open>The three modes\<close>

datatype aes_mode = CBC | CTR | GCM

fun mode_vtable :: "aws_common \<Rightarrow> 'x evp_cipher_api \<Rightarrow> aes_mode \<Rightarrow> 'x openssl_aes_cipher aws_symmetric_cipher_vtable" where
  "mode_vtable C A CBC = s_cbc_vtable C A"
| "mode_vtable C A CTR = s_ctr_vtable C A"
| "mode_vtable C A GCM = s_gcm_vtable C A"

fun mode_cipher :: "aes_mode \<Rightarrow> evp_cipher" where
  "mode_cipher CBC = EVP_aes_256_cbc"
| "mode_cipher CTR = EVP_aes_256_ctr"
| "mode_cipher GCM = EVP_aes_256_gcm"

fun mode_new :: "aws_common \<Rightarrow> 'x evp_cipher_api \<Rightarrow> aes_mode \<Rightarrow> aws_byte_cursor \<Rightarrow> aws_byte_cursor \<Rightarrow>
    aws_byte_cursor option \<Rightarrow> aws_byte_cursor option \<Rightarrow> 'x aes_cipher result" where
  "mode_new C A CBC k v a t = aws_aes_cbc_256_new_impl C A (Some k) (Some v)"
| "mode_new C A CTR k v a t = aws_aes_ctr_256_new_impl C A (Some k) (Some v)"
| "mode_new C A GCM k v a t = aws_aes_gcm_256_new_impl C A (Some k) (Some v) a t"

lemma mode_gcm [simp]: "mode_cipher md = EVP_aes_256_gcm \<longleftrightarrow> md = GCM"
  by (cases md) simp_all

lemma mode_vtable_sel:
  "vt_encrypt (mode_vtable C A md) = s_encrypt C A" "vt_decrypt (mode_vtable C A md) = s_decrypt C A"
  "vt_finalize_decryption (mode_vtable C A md) = s_finalize_decryption C A"
  "vt_finalize_encryption (mode_vtable C A md) =
     (if md = GCM then s_finalize_gcm_encryption C A else s_finalize_encryption C A)"
  by (cases md; simp add: s_cbc_vtable_def s_ctr_vtable_def s_gcm_vtable_def)+

text \<open>The tag buffer is empty with room for a tag, or holds a tag.\<close>

definition tag_ok :: "aws_byte_buf \<Rightarrow> bool" where
  "tag_ok t \<longleftrightarrow> valid_buf t \<and> (buf_len t = 0 \<longrightarrow> capacity t = 16)"

type_synonym cipher_materials = "aws_byte_buf \<times> aws_byte_buf \<times> aws_byte_buf \<times> aws_byte_buf"

definition materials :: "'x aes_cipher \<Rightarrow> cipher_materials" where
  "materials c = (key c, iv c, aad c, ctag c)"

definition enc_io :: "aws_common \<Rightarrow> 'x evp_cipher_api \<Rightarrow> 'x evp_stream \<Rightarrow> aes_mode \<Rightarrow> 'x aes_cipher \<Rightarrow>
    ((stream_params \<times> cipher_materials) \<times> bytes \<times> bytes) option" where
  "enc_io C A S md c =
     (if common_spec C \<and> stream_spec A S \<and> cipher_good c \<and> block_size c = 16 \<and> (md = GCM \<longrightarrow> tag_ok (ctag c))
      then case est S (encryptor_ctx (cipher_impl c)) of
          Some (p, m, w) \<Rightarrow> if fst p = mode_cipher md then Some ((p, materials c), m, w) else None
        | None \<Rightarrow> None
      else None)"

definition dec_io :: "aws_common \<Rightarrow> 'x evp_cipher_api \<Rightarrow> 'x evp_stream \<Rightarrow> 'x aes_cipher \<Rightarrow>
    ((stream_params \<times> bytes option) \<times> bytes \<times> bytes) option" where
  "dec_io C A S c =
     (if common_spec C \<and> stream_spec A S \<and> cipher_good c \<and> block_size c = 16
      then case dst S (decryptor_ctx (cipher_impl c)) of
          Some (p, t, m, w) \<Rightarrow> Some ((p, t), m, w)
        | None \<Rightarrow> None
      else None)"

text \<open>What finalizing leaves: the key materials, with the tag filled in where it was empty.\<close>

definition finished :: "'x evp_stream \<Rightarrow> aes_mode \<Rightarrow> stream_params \<times> cipher_materials \<Rightarrow> bytes \<Rightarrow> 'x aes_cipher \<Rightarrow> bool" where
  "finished S md pm m c \<longleftrightarrow> (case pm of (p, k, v, a, t) \<Rightarrow>
     block_size c = 16 \<and> key c = k \<and> iv c = v \<and> aad c = a \<and>
     (if md = GCM \<and> buf_len t = 0 then valid_buf (ctag c) \<and> contents (ctag c) = Tag S p m else ctag c = t))"

lemma enc_ioE:
  assumes "enc_io C A S md c = Some (pm, m, w)"
  obtains p where "common_spec C" "stream_spec A S" "cipher_good c" "block_size c = 16"
    "md = GCM \<longrightarrow> tag_ok (ctag c)" "est S (encryptor_ctx (cipher_impl c)) = Some (p, m, w)"
    "fst p = mode_cipher md" "pm = (p, materials c)"
  using assms by (auto simp: enc_io_def split: if_splits option.splits)

lemma dec_ioE:
  assumes "dec_io C A S c = Some (pt, m, w)"
  obtains p t where "common_spec C" "stream_spec A S" "cipher_good c" "block_size c = 16"
    "dst S (decryptor_ctx (cipher_impl c)) = Some (p, t, m, w)" "pt = (p, t)"
  using assms by (auto simp: dec_io_def split: if_splits option.splits)

section \<open>One call\<close>

lemma evp_output_ok:
  assumes "valid_buf out" and "length w \<le> room out"
  shows "\<exists>out'. evp_output set_ctx (True, w, x) c out = (Inr (), set_ctx x c, out') \<and> valid_buf out' \<and>
    allocator out' = allocator out \<and> contents out' = contents out @ w"
proof -
  from poke_appends [OF assms] obtain b1 where "poke out w = Inr b1" "appends out w (Some (add_len (length w) b1))"
    by blast
  then show ?thesis by (auto simp: evp_output_def appends_def)
qed

text \<open>The common shape of the four operations: make room, then run one function of libcrypto.\<close>

lemma grown_output:
  assumes C: "common_spec C" and out: "valid_buf out" "allocator out" "buf_len out + n \<le> SIZE_MAX div 2"
    and w: "length w \<le> n"
  shows "\<exists>out1 out'. aws_symmetric_cipher_try_ensure_sufficient_buffer_space C out n = Inr out1 \<and>
    evp_output set_ctx (True, w, x) c out1 = (Inr (), set_ctx x c, out') \<and> valid_buf out' \<and>
    allocator out' \<and> contents out' = contents out @ w \<and> contents out1 = contents out"
proof -
  obtain out1 where o1: "aws_symmetric_cipher_try_ensure_sufficient_buffer_space C out n = Inr out1"
      "valid_buf out1" "contents out1 = contents out" "n \<le> room out1" "allocator out1"
    using ensure_space [OF C out(1,3)] out(2) by auto
  with evp_output_ok [OF o1(2), of w set_ctx x c] w show ?thesis by auto
qed

lemma set_sel [simp]:
  "cipher_good (set_enc x c) = cipher_good c" "cipher_good (set_dec x c) = cipher_good c"
  "block_size (set_enc x c) = block_size c" "block_size (set_dec x c) = block_size c"
  "ctag (set_enc x c) = ctag c" "ctag (set_dec x c) = ctag c"
  "materials (set_enc x c) = materials c" "materials (set_dec x c) = materials c"
  "encryptor_ctx (cipher_impl (set_enc x c)) = x" "decryptor_ctx (cipher_impl (set_dec x c)) = x"
  "encryptor_ctx (cipher_impl (set_dec x c)) = encryptor_ctx (cipher_impl c)"
  "decryptor_ctx (cipher_impl (set_enc x c)) = decryptor_ctx (cipher_impl c)"
  by (simp_all add: set_enc_def set_dec_def materials_def)

lemma good_call:
  assumes "cipher_good c" and "block_size c = 16"
  shows "cur_len cur + 16 \<le> INT_MAX \<Longrightarrow>
      run_call (mode_vtable C A md) (Encrypt cur) c out = s_encrypt C A cur c out"
    and "cur_len cur + 16 \<le> INT_MAX \<Longrightarrow>
      run_call (mode_vtable C A md) (Decrypt cur) c out = s_decrypt C A cur c out"
    and "run_call (mode_vtable C A md) Finalize_encryption c out =
      (case (if md = GCM then s_finalize_gcm_encryption C A c out else s_finalize_encryption C A c out) of
         (r, c', out') \<Rightarrow> (r, c'\<lparr>cipher_good := False\<rparr>, out'))"
    and "run_call (mode_vtable C A md) Finalize_decryption c out =
      (case s_finalize_decryption C A c out of (r, c', out') \<Rightarrow> (r, c'\<lparr>cipher_good := False\<rparr>, out'))"
  using assms
  by (simp_all add: aws_symmetric_cipher_encrypt_def aws_symmetric_cipher_decrypt_def mode_vtable_sel
      aws_symmetric_cipher_finalize_encryption_def aws_symmetric_cipher_finalize_decryption_def
      s_check_input_size_limits_def)

lemma encrypt_feed:
  assumes io: "enc_io C A S md c = Some (pm, m, w)" and b: "bytes_at (ptr cur) (cur_len cur) = Inr b"
    and len: "length b + 16 \<le> INT_MAX" and out: "valid_buf out" "allocator out" "buf_len out + length b + 16 \<le> SIZE_MAX div 2"
  shows "\<exists>w' c' out'. run_call (mode_vtable C A md) (Encrypt cur) c out = (Inr (), c', out') \<and>
    enc_io C A S md c' = Some (pm, m @ b, w @ w') \<and> valid_buf out' \<and> allocator out' \<and> contents out' = contents out @ w'"
  using io
proof (rule enc_ioE)
  fix p
  assume C: "common_spec C" and S: "stream_spec A S" and g: "cipher_good c" "block_size c = 16"
    and t: "md = GCM \<longrightarrow> tag_ok (ctag c)" and e: "est S (encryptor_ctx (cipher_impl c)) = Some (p, m, w)"
    and p: "fst p = mode_cipher md" "pm = (p, materials c)"
  obtain w' x' where u: "EVP_EncryptUpdate A (encryptor_ctx (cipher_impl c)) b = (True, w', x')"
      "est S x' = Some (p, m @ b, w @ w')" "length w' \<le> length b + 16"
    using update_laws(3) [OF S e] by blast
  have "buf_len out + (length b + 16) \<le> SIZE_MAX div 2" using out(3) by simp
  from grown_output [OF C out(1,2) this u(3), of set_enc x' c] u(1) b bytes_at_length [OF b] g(2)
  have "\<exists>out'. s_encrypt C A cur c out = (Inr (), set_enc x' c, out') \<and> valid_buf out' \<and> allocator out' \<and>
      contents out' = contents out @ w'" by (auto simp: s_encrypt_def)
  moreover have "enc_io C A S md (set_enc x' c) = Some (pm, m @ b, w @ w')"
    using C S g t p u(2) by (simp add: enc_io_def)
  ultimately show ?thesis using good_call(1) [OF g] len bytes_at_length [OF b] by auto
qed

lemma decrypt_feed:
  assumes io: "dec_io C A S c = Some (pt, m, w)" and b: "bytes_at (ptr cur) (cur_len cur) = Inr b"
    and len: "length b + 16 \<le> INT_MAX" and out: "valid_buf out" "allocator out" "buf_len out + length b + 16 \<le> SIZE_MAX div 2"
  shows "\<exists>w' c' out'. run_call (mode_vtable C A md) (Decrypt cur) c out = (Inr (), c', out') \<and>
    dec_io C A S c' = Some (pt, m @ b, w @ w') \<and> valid_buf out' \<and> allocator out' \<and> contents out' = contents out @ w'"
  using io
proof (rule dec_ioE)
  fix p t
  assume C: "common_spec C" and S: "stream_spec A S" and g: "cipher_good c" "block_size c = 16"
    and d: "dst S (decryptor_ctx (cipher_impl c)) = Some (p, t, m, w)" and p: "pt = (p, t)"
  obtain w' x' where u: "EVP_DecryptUpdate A (decryptor_ctx (cipher_impl c)) b = (True, w', x')"
      "dst S x' = Some (p, t, m @ b, w @ w')" "length w' \<le> length b + 16"
    using update_laws(4) [OF S d] by blast
  have "buf_len out + (length b + 16) \<le> SIZE_MAX div 2" using out(3) by simp
  from grown_output [OF C out(1,2) this u(3), of set_dec x' c] u(1) b bytes_at_length [OF b] g(2)
  have "\<exists>out'. s_decrypt C A cur c out = (Inr (), set_dec x' c, out') \<and> valid_buf out' \<and> allocator out' \<and>
      contents out' = contents out @ w'" by (auto simp: s_decrypt_def)
  moreover have "dec_io C A S (set_dec x' c) = Some (pt, m @ b, w @ w')"
    using C S g p u(2) by (simp add: dec_io_def)
  ultimately show ?thesis using good_call(2) [OF g] len bytes_at_length [OF b] by auto
qed

lemma store_tag:
  assumes "tag_ok t" and "buf_len t = 0" and "length bs = 16"
  shows "\<exists>t'. poke t bs = Inr t' \<and> valid_buf (t'\<lparr>buf_len := 16\<rparr>) \<and> contents (t'\<lparr>buf_len := 16\<rparr>) = bs"
proof -
  have t: "valid_buf t" "length bs \<le> room t" using assms by (auto simp: tag_ok_def room_def)
  from poke_appends [OF this] obtain t' where t': "poke t bs = Inr t'" "appends t bs (Some (add_len (length bs) t'))"
    "buf_len t' = buf_len t" by blast
  have "contents t = []" using length_contents [OF t(1)] assms(2) by simp
  moreover have "add_len (length bs) t' = t'\<lparr>buf_len := 16\<rparr>" using t'(3) assms(2,3) by (simp add: add_len_def)
  ultimately show ?thesis using t'(1,2) by (simp add: appends_def)
qed

lemma encrypt_finish:
  assumes io: "enc_io C A S md c = Some (pm, m, w)" and t: "t = Enc S (fst pm) m"
    and out: "valid_buf out" "allocator out" "buf_len out + 16 \<le> SIZE_MAX div 2"
  shows "\<exists>w' c' out'. run_call (mode_vtable C A md) Finalize_encryption c out = (Inr (), c', out') \<and> t = w @ w' \<and>
    finished S md pm m c' \<and> valid_buf out' \<and> contents out' = contents out @ w'"
  using io
proof (rule enc_ioE)
  fix p
  assume C: "common_spec C" and S: "stream_spec A S" and g: "cipher_good c" "block_size c = 16"
    and tg: "md = GCM \<longrightarrow> tag_ok (ctag c)" and e: "est S (encryptor_ctx (cipher_impl c)) = Some (p, m, w)"
    and p: "fst p = mode_cipher md" "pm = (p, materials c)"
  obtain w' x' where u: "EVP_EncryptFinal_ex A (encryptor_ctx (cipher_impl c)) = (True, w', x')"
      "fin S x' = Some (p, m)" "Enc S p m = w @ w'" "length w' \<le> 16"
    using final_laws(1) [OF S e] by blast
  from grown_output [OF C out u(4), of set_enc x' c] u(1) g(2) obtain out' where
      f: "s_finalize_encryption C A c out = (Inr (), set_enc x' c, out')" "valid_buf out'"
        "contents out' = contents out @ w'" by (auto simp: s_finalize_encryption_def)
  show ?thesis
  proof (cases "md = GCM \<and> buf_len (ctag c) = 0")
    case False
    with f u(3) g p(2) t good_call(3) [OF g, of C A md out] show ?thesis
      by (auto simp: s_finalize_gcm_encryption_def finished_def materials_def set_enc_def)
  next
    case True
    then have tg: "tag_ok (ctag c)" "capacity (ctag c) = 16" using tg by (simp_all add: tag_ok_def)
    obtain x2 where x2: "EVP_GCM_GET_TAG A x' 16 = (True, Tag S p m, x2)"
      using tag_laws(1) [OF S u(2)] p(1) True by auto
    obtain t' where "poke (ctag c) (Tag S p m) = Inr t'" "valid_buf (t'\<lparr>buf_len := 16\<rparr>)"
        "contents (t'\<lparr>buf_len := 16\<rparr>) = Tag S p m"
      using store_tag [OF tg(1) _ tag_laws(2) [OF S]] True by blast
    with f True u(3) x2 tg(2) p(2) t g good_call(3) [OF g, of C A md out] show ?thesis
      by (auto simp: s_finalize_gcm_encryption_def finished_def materials_def set_enc_def)
  qed
qed

text \<open>When a decryption is the decryption of a message, and when GCM must refuse it.\<close>

definition decrypts :: "'x evp_stream \<Rightarrow> stream_params \<times> bytes option \<Rightarrow> bytes \<Rightarrow> bytes \<Rightarrow> bool" where
  "decrypts S pt q m \<longleftrightarrow> q = Enc S (fst pt) m \<and>
     (fst (fst pt) \<noteq> EVP_aes_256_gcm \<or> snd pt = Some (Tag S (fst pt) m))"

definition bad_tag :: "'x evp_stream \<Rightarrow> stream_params \<times> bytes option \<Rightarrow> bytes \<Rightarrow> bool" where
  "bad_tag S pt q \<longleftrightarrow> (\<exists>m. q = Enc S (fst pt) m \<and> fst (fst pt) = EVP_aes_256_gcm \<and>
     snd pt \<noteq> Some (Tag S (fst pt) m))"

lemma decrypt_finish:
  assumes io: "dec_io C A S c = Some (pt, q, w)" and m: "decrypts S pt q m"
    and out: "valid_buf out" "allocator out" "buf_len out + 16 \<le> SIZE_MAX div 2"
  shows "\<exists>w' c' out'. run_call (mode_vtable C A md) Finalize_decryption c out = (Inr (), c', out') \<and> m = w @ w' \<and>
    True \<and> valid_buf out' \<and> contents out' = contents out @ w'"
  using io
proof (rule dec_ioE)
  fix p t
  assume C: "common_spec C" and S: "stream_spec A S" and g: "cipher_good c" "block_size c = 16"
    and d: "dst S (decryptor_ctx (cipher_impl c)) = Some (p, t, q, w)" and p: "pt = (p, t)"
  obtain w' x' where u: "EVP_DecryptFinal_ex A (decryptor_ctx (cipher_impl c)) = (True, w', x')"
      "m = w @ w'" "length w' \<le> 16"
    using final_laws(2) [OF S, of "decryptor_ctx (cipher_impl c)" p t m w] d m p by (auto simp: decrypts_def)
  from grown_output [OF C out u(3), of set_dec x' c] u(1) g(2) obtain out' where
      "s_finalize_decryption C A c out = (Inr (), set_dec x' c, out')" "valid_buf out'"
      "contents out' = contents out @ w'" by (auto simp: s_finalize_decryption_def)
  with u(2) good_call(4) [OF g, of C A md out] show ?thesis by auto
qed

lemma decrypt_reject:
  assumes io: "dec_io C A S c = Some (pt, q, w)" and m: "bad_tag S pt q"
    and out: "valid_buf out" "allocator out" "buf_len out + 16 \<le> SIZE_MAX div 2"
  shows "\<exists>c' out'. run_call (mode_vtable C A md) Finalize_decryption c out =
    (Inl (Raised AWS_ERROR_INVALID_ARGUMENT), c', out') \<and> contents out' = contents out"
  using io
proof (rule dec_ioE)
  fix p t
  assume C: "common_spec C" and S: "stream_spec A S" and g: "cipher_good c" "block_size c = 16"
    and d: "dst S (decryptor_ctx (cipher_impl c)) = Some (p, t, q, w)" and p: "pt = (p, t)"
  obtain m where "q = Enc S p m" "fst p = EVP_aes_256_gcm" "t \<noteq> Some (Tag S p m)"
    using m p by (auto simp: bad_tag_def)
  then obtain w' x' where "EVP_DecryptFinal_ex A (decryptor_ctx (cipher_impl c)) = (False, w', x')"
    using final_laws(3) [OF S, of "decryptor_ctx (cipher_impl c)" p t m w] d by auto
  with ensure_space [OF C out(1,3)] out(2) g(2) good_call(4) [OF g, of C A md out] show ?thesis
    by (auto simp: s_finalize_decryption_def evp_output_def)
qed

interpretation aes_enc: cipher_stream "mode_vtable C A md" Encrypt Finalize_encryption "\<lambda>c p m w. enc_io C A S md c = Some (p, m, w)"
  "\<lambda>_. SIZE_MAX div 2" "SIZE_MAX div 2"
  "\<lambda>pm m t. t = Enc S (fst pm) m" "\<lambda>_ _. False" "finished S md" for C A S md
proof (unfold_locales, goal_cases)
  case (1 c p m w cur b out)
  then show ?case using encrypt_feed [OF 1(1-3,5,6)] by (fastforce simp: valid_buf_def)
next
  case (2 c p m w)
  then show ?case by (rule enc_ioE) (metis update_laws(1))
next
  case (3 c p m w t out)
  then show ?case by (intro encrypt_finish) simp_all
qed simp

interpretation aes_dec: cipher_stream "mode_vtable C A md" Decrypt Finalize_decryption "\<lambda>c p m w. dec_io C A S c = Some (p, m, w)"
  "\<lambda>_. SIZE_MAX div 2" "SIZE_MAX div 2"
  "decrypts S" "bad_tag S" "\<lambda>_ _ _. True" for C A S md
proof (unfold_locales, goal_cases)
  case (1 c p m w cur b out)
  then show ?case using decrypt_feed [OF 1(1-3,5,6)] by (fastforce simp: valid_buf_def)
next
  case (2 c p m w)
  then show ?case by (rule dec_ioE) (metis update_laws(2))
next
  case (3 c p m w t out)
  then show ?case by (intro decrypt_finish) simp_all
next
  case (4 c p m w out)
  then show ?case by (intro decrypt_reject) simp_all
qed

section \<open>New and reset ciphers\<close>

lemma init_laws:
  assumes "stream_spec A S"
  shows "ci \<in> {EVP_aes_256_cbc, EVP_aes_256_ctr} \<Longrightarrow> length k = 32 \<Longrightarrow> length v = 16 \<Longrightarrow>
      \<exists>x'. EVP_EncryptInit_ex A x (Some ci) (Some k) (Some v) = (True, x') \<and> est S x' = Some ((ci, k, v, []), [], [])"
    and "ci \<in> {EVP_aes_256_cbc, EVP_aes_256_ctr} \<Longrightarrow> length k = 32 \<Longrightarrow> length v = 16 \<Longrightarrow>
      \<exists>x'. EVP_DecryptInit_ex A x (Some ci) (Some k) (Some v) = (True, x') \<and> dst S x' = Some ((ci, k, v, []), None, [], [])"
    and "length k = 32 \<Longrightarrow> length v = 12 \<Longrightarrow> \<exists>x1 x2. EVP_EncryptInit_ex A x (Some EVP_aes_256_gcm) None None = (True, x1) \<and>
      EVP_EncryptInit_ex A x1 None (Some k) (Some v) = (True, x2) \<and> est S x2 = Some ((EVP_aes_256_gcm, k, v, []), [], [])"
    and "length k = 32 \<Longrightarrow> length v = 12 \<Longrightarrow> \<exists>x1 x2. EVP_DecryptInit_ex A x (Some EVP_aes_256_gcm) None None = (True, x1) \<and>
      EVP_DecryptInit_ex A x1 None (Some k) (Some v) = (True, x2) \<and> dst S x2 = Some ((EVP_aes_256_gcm, k, v, []), None, [], [])"
  using stream_specD(4) [OF assms] unfolding init_spec_def by blast+

lemma setup_laws:
  assumes "stream_spec A S"
  shows "est S x = Some (p, [], []) \<Longrightarrow> fst p \<noteq> EVP_aes_256_cbc \<Longrightarrow>
      \<exists>x'. EVP_CIPHER_CTX_set_padding A x False = (True, x') \<and> est S x' = Some (p, [], [])"
    and "dst S x = Some (p, None, [], []) \<Longrightarrow> fst p \<noteq> EVP_aes_256_cbc \<Longrightarrow>
      \<exists>x'. EVP_CIPHER_CTX_set_padding A x False = (True, x') \<and> dst S x' = Some (p, None, [], [])"
    and "est S x = Some ((EVP_aes_256_gcm, k, v, []), [], []) \<Longrightarrow> 0 \<le> n \<Longrightarrow> n \<le> int (length b) \<Longrightarrow>
      \<exists>x'. EVP_EncryptUpdate_aad A x b n = (True, x') \<and> est S x' = Some ((EVP_aes_256_gcm, k, v, take (nat n) b), [], [])"
    and "dst S x = Some ((EVP_aes_256_gcm, k, v, []), None, [], []) \<Longrightarrow> 0 \<le> n \<Longrightarrow> n \<le> int (length b) \<Longrightarrow>
      \<exists>x'. EVP_DecryptUpdate_aad A x b n = (True, x') \<and> dst S x' = Some ((EVP_aes_256_gcm, k, v, take (nat n) b), None, [], [])"
    and "dst S x = Some (p, None, [], []) \<Longrightarrow> fst p = EVP_aes_256_gcm \<Longrightarrow> length t = 16 \<Longrightarrow>
      \<exists>x'. EVP_GCM_SET_TAG A x t 16 = (True, x') \<and> dst S x' = Some (p, Some t, [], [])"
  using stream_specD(5) [OF assms] unfolding setup_spec_def by blast+

fun mode_init :: "'x evp_cipher_api \<Rightarrow> aes_mode \<Rightarrow> 'x aes_cipher \<Rightarrow> unit result \<times> 'x aes_cipher" where
  "mode_init A CBC = s_init_cbc_cipher_materials A"
| "mode_init A CTR = s_init_ctr_cipher_materials A"
| "mode_init A GCM = s_init_gcm_cipher_materials A"

definition mode_iv_len :: "aes_mode \<Rightarrow> nat" where
  "mode_iv_len md = (if md = GCM then 12 else 16)"

definition mode_params :: "aes_mode \<Rightarrow> bytes \<Rightarrow> bytes \<Rightarrow> bytes \<Rightarrow> stream_params" where
  "mode_params md k v a = (mode_cipher md, k, v, if md = GCM then a else [])"

definition expected_tag :: "aes_mode \<Rightarrow> aws_byte_buf \<Rightarrow> bytes option" where
  "expected_tag md t = (if md = GCM \<and> buf_len t \<noteq> 0 then Some (contents t) else None)"

text \<open>Initialisation of the materials puts both contexts at the start of a stream.\<close>

definition started :: "'x evp_stream \<Rightarrow> aes_mode \<Rightarrow> stream_params \<Rightarrow> 'x aes_cipher \<Rightarrow> 'x aes_cipher \<Rightarrow> bool" where
  "started S md p c c' \<longleftrightarrow> (\<exists>x y. c' = set_dec y (set_enc x c) \<and> est S x = Some (p, [], []) \<and>
     dst S y = Some (p, expected_tag md (ctag c), [], []))"

lemma set_set [simp]: "set_enc x (set_enc y c) = set_enc x c" "set_dec x (set_dec y c) = set_dec x c"
  "set_enc x (set_dec y c) = set_dec y (set_enc x c)"
  by (simp_all add: set_enc_def set_dec_def)

lemma key_set [simp]: "key (set_enc x c) = key c" "key (set_dec x c) = key c" "iv (set_enc x c) = iv c"
  "iv (set_dec x c) = iv c" "aad (set_enc x c) = aad c" "aad (set_dec x c) = aad c"
  by (simp_all add: set_enc_def set_dec_def)

lemma init_stream:
  assumes S: "stream_spec A S" and k: "buffer (key c) = Some k" "length k = 32"
    and v: "buffer (iv c) = Some v" "length v = 16" and md: "md \<noteq> GCM"
  shows "\<exists>c'. mode_init A md c = (Inr (), c') \<and> started S md (mode_params md k v a) c c'"
proof -
  let ?ci = "mode_cipher md"
  have ci: "?ci \<in> {EVP_aes_256_cbc, EVP_aes_256_ctr}" using md by (cases md) simp_all
  obtain x where x: "EVP_EncryptInit_ex A (encryptor_ctx (cipher_impl c)) (Some ?ci) (Some k) (Some v) = (True, x)"
      "est S x = Some ((?ci, k, v, []), [], [])" using init_laws(1) [OF S ci k(2) v(2)] by blast
  obtain y where y: "EVP_DecryptInit_ex A (decryptor_ctx (cipher_impl c)) (Some ?ci) (Some k) (Some v) = (True, y)"
      "dst S y = Some ((?ci, k, v, []), None, [], [])" using init_laws(2) [OF S ci k(2) v(2)] by blast
  have p: "mode_params md k v a = (?ci, k, v, [])" "expected_tag md (ctag c) = None"
    using md by (simp_all add: mode_params_def expected_tag_def)
  show ?thesis
  proof (cases "md = CBC")
    case True
    with x y p k(1) v(1) show ?thesis
      by (auto simp: s_init_cbc_cipher_materials_def init_contexts_def started_def)
  next
    case False
    with md have md: "md = CTR" by (cases md) simp_all
    obtain x' where "EVP_CIPHER_CTX_set_padding A x False = (True, x')" "est S x' = Some ((?ci, k, v, []), [], [])"
      using setup_laws(1) [OF S x(2)] md by auto
    moreover obtain y' where "EVP_CIPHER_CTX_set_padding A y False = (True, y')" "dst S y' = Some ((?ci, k, v, []), None, [], [])"
      using setup_laws(2) [OF S y(2)] md by auto
    ultimately show ?thesis using x y p k(1) v(1) md
      by (auto simp: s_init_ctr_cipher_materials_def init_contexts_def started_def)
  qed
qed

text \<open>The two optional steps of the GCM set-up.\<close>

lemma gcm_aad_step:
  assumes S: "stream_spec A S" and x: "est S x = Some ((EVP_aes_256_gcm, k, v, []), [], [])"
    and y: "dst S y = Some ((EVP_aes_256_gcm, k, v, []), None, [], [])" and a: "valid_buf a" "buf_len a \<le> INT_MAX"
  obtains x' y' where "(if buf_len a \<noteq> 0 then init_contexts [\<lambda>x. EVP_EncryptUpdate_aad A x (contents a) (int_of_size (buf_len a))]
      [\<lambda>x. EVP_DecryptUpdate_aad A x (contents a) (int_of_size (buf_len a))] (set_dec y (set_enc x c)) else (Inr (), set_dec y (set_enc x c))) =
      (Inr (), set_dec y' (set_enc x' c))"
    "est S x' = Some ((EVP_aes_256_gcm, k, v, contents a), [], [])"
    "dst S y' = Some ((EVP_aes_256_gcm, k, v, contents a), None, [], [])"
proof (cases "buf_len a = 0")
  case True
  then have "contents a = []" using length_contents [OF a(1)] by simp
  with True x y that [of y x] show ?thesis by simp
next
  case False
  have n: "int_of_size (buf_len a) = int (length (contents a))" using length_contents [OF a(1)] a(2) by simp
  obtain x' where "EVP_EncryptUpdate_aad A x (contents a) (int_of_size (buf_len a)) = (True, x')"
      "est S x' = Some ((EVP_aes_256_gcm, k, v, contents a), [], [])"
    using setup_laws(3) [OF S x, of "int (length (contents a))" "contents a"] n by auto
  moreover obtain y' where "EVP_DecryptUpdate_aad A y (contents a) (int_of_size (buf_len a)) = (True, y')"
      "dst S y' = Some ((EVP_aes_256_gcm, k, v, contents a), None, [], [])"
    using setup_laws(4) [OF S y, of "int (length (contents a))" "contents a"] n by auto
  ultimately show ?thesis using False that [of y' x'] by (simp add: init_contexts_def)
qed

lemma gcm_tag_step:
  assumes S: "stream_spec A S" and y: "dst S y = Some (p, None, [], [])" and p: "fst p = EVP_aes_256_gcm"
    and t: "valid_buf t" "buf_len t \<noteq> 0 \<longrightarrow> buf_len t = 16"
  obtains y' where "(if buf_len t \<noteq> 0 then init_contexts [] [\<lambda>x. EVP_GCM_SET_TAG A x (contents t) (int_of_size (buf_len t))] (set_dec y c)
      else (Inr (), set_dec y c)) = (Inr (), set_dec y' (set_enc (encryptor_ctx (cipher_impl c)) c))"
    "dst S y' = Some (p, expected_tag GCM t, [], [])"
proof (cases "buf_len t = 0")
  case True
  with y that [of y] show ?thesis by (simp add: expected_tag_def set_enc_def)
next
  case False
  then have "length (contents t) = 16" using t by simp
  then obtain y' where "EVP_GCM_SET_TAG A y (contents t) (int_of_size (buf_len t)) = (True, y')" "dst S y' = Some (p, Some (contents t), [], [])"
    using setup_laws(5) [OF S y p] False t(2) by auto
  with False that [of y'] show ?thesis by (simp add: init_contexts_def expected_tag_def)
qed

lemma init_gcm:
  assumes S: "stream_spec A S" and k: "buffer (key c) = Some k" "length k = 32"
    and v: "buffer (iv c) = Some v" "length v = 12" and a: "valid_buf (aad c)" "buf_len (aad c) \<le> INT_MAX"
    and t: "valid_buf (ctag c)" "buf_len (ctag c) \<noteq> 0 \<longrightarrow> buf_len (ctag c) = 16"
  shows "\<exists>c'. mode_init A GCM c = (Inr (), c') \<and> started S GCM (mode_params GCM k v (contents (aad c))) c c'"
proof -
  let ?p = "\<lambda>a. (EVP_aes_256_gcm, k, v, a)"
  obtain x0 x1 x2 where x: "EVP_EncryptInit_ex A (encryptor_ctx (cipher_impl c)) (Some EVP_aes_256_gcm) None None = (True, x0)"
      "EVP_EncryptInit_ex A x0 None (Some k) (Some v) = (True, x1)"
      "EVP_CIPHER_CTX_set_padding A x1 False = (True, x2)" "est S x2 = Some (?p [], [], [])"
    using init_laws(3) [OF S k(2) v(2)] setup_laws(1) [OF S, of _ "?p []"] by fastforce
  obtain y0 y1 y2 where y: "EVP_DecryptInit_ex A (decryptor_ctx (cipher_impl c)) (Some EVP_aes_256_gcm) None None = (True, y0)"
      "EVP_DecryptInit_ex A y0 None (Some k) (Some v) = (True, y1)"
      "EVP_CIPHER_CTX_set_padding A y1 False = (True, y2)" "dst S y2 = Some (?p [], None, [], [])"
    using init_laws(4) [OF S k(2) v(2)] setup_laws(2) [OF S, of _ "?p []"] by fastforce
  obtain x' y' where a': "(if buf_len (aad c) \<noteq> 0 then init_contexts [\<lambda>x. EVP_EncryptUpdate_aad A x (contents (aad c)) (int_of_size (buf_len (aad c)))]
        [\<lambda>x. EVP_DecryptUpdate_aad A x (contents (aad c)) (int_of_size (buf_len (aad c)))] (set_dec y2 (set_enc x2 c)) else (Inr (), set_dec y2 (set_enc x2 c))) =
      (Inr (), set_dec y' (set_enc x' c))"
      "est S x' = Some (?p (contents (aad c)), [], [])" "dst S y' = Some (?p (contents (aad c)), None, [], [])"
    by (rule gcm_aad_step [OF S x(4) y(4) a])
  obtain y'' where t': "(if buf_len (ctag c) \<noteq> 0
        then init_contexts [] [\<lambda>x. EVP_GCM_SET_TAG A x (contents (ctag c)) (int_of_size (buf_len (ctag c)))] (set_dec y' (set_enc x' c))
        else (Inr (), set_dec y' (set_enc x' c))) = (Inr (), set_dec y'' (set_enc x' c))"
      "dst S y'' = Some (?p (contents (aad c)), expected_tag GCM (ctag c), [], [])"
    by (rule gcm_tag_step [OF S a'(3) _ t, where c = "set_enc x' c"]) auto
  have "init_contexts
       [\<lambda>x. EVP_EncryptInit_ex A x (Some EVP_aes_256_gcm) None None,
        \<lambda>x. EVP_EncryptInit_ex A x None (buffer (key c)) (buffer (iv c)),
        \<lambda>x. EVP_CIPHER_CTX_set_padding A x False]
       [\<lambda>x. EVP_DecryptInit_ex A x (Some EVP_aes_256_gcm) None None,
        \<lambda>x. EVP_DecryptInit_ex A x None (buffer (key c)) (buffer (iv c)),
        \<lambda>x. EVP_CIPHER_CTX_set_padding A x False] c = (Inr (), set_dec y2 (set_enc x2 c))"
    using x y k(1) v(1) by (simp add: init_contexts_def)
  then have "mode_init A GCM c = (Inr (), set_dec y'' (set_enc x' c))"
    using a'(1) t'(1) by (auto simp: s_init_gcm_cipher_materials_def split: if_splits)
  with a'(2) t'(2) show ?thesis by (auto simp: started_def mode_params_def)
qed

text \<open>A cipher at the start of a stream, with 16-byte blocks and its materials in memory.\<close>

definition at_start :: "aws_common \<Rightarrow> 'x evp_cipher_api \<Rightarrow> 'x evp_stream \<Rightarrow> aes_mode \<Rightarrow> bytes \<Rightarrow> bytes \<Rightarrow> bytes \<Rightarrow>
    'x aes_cipher \<Rightarrow> bool" where
  "at_start C A S md k v a c \<longleftrightarrow> buffer (key c) = Some k \<and> buffer (iv c) = Some v \<and>
     (md = GCM \<longrightarrow> valid_buf (aad c) \<and> contents (aad c) = a \<and> length a \<le> INT_MAX \<and> tag_ok (ctag c)) \<and>
     enc_io C A S md c = Some ((mode_params md k v a, materials c), [], []) \<and>
     dec_io C A S c = Some ((mode_params md k v a, expected_tag md (ctag c)), [], [])"

lemma started_at_start:
  assumes "common_spec C" and "stream_spec A S" and "started S md (mode_params md k v a) c c'" and "block_size c = 16"
    and "buffer (key c) = Some k" and "buffer (iv c) = Some v"
    and "md = GCM \<longrightarrow> valid_buf (aad c) \<and> contents (aad c) = a \<and> length a \<le> INT_MAX \<and> tag_ok (ctag c)"
  shows "at_start C A S md k v a (c'\<lparr>cipher_good := True\<rparr>)"
  using assms
  by (auto simp: started_def at_start_def enc_io_def dec_io_def mode_params_def materials_def set_enc_def set_dec_def)

lemma mode_init_ok:
  assumes S: "stream_spec A S" and k: "buffer (key c) = Some k" "length k = 32"
    and v: "buffer (iv c) = Some v" "length v = mode_iv_len md"
    and g: "md = GCM \<longrightarrow> valid_buf (aad c) \<and> contents (aad c) = a \<and> length a \<le> INT_MAX \<and> valid_buf (ctag c) \<and> buf_len (ctag c) \<in> {0, 16}"
  shows "\<exists>c'. mode_init A md c = (Inr (), c') \<and> started S md (mode_params md k v a) c c'"
proof (cases "md = GCM")
  case True
  with init_gcm [OF S k v(1)] v(2) g show ?thesis by (auto simp: mode_iv_len_def)
next
  case False
  with init_stream [OF S k v(1)] v(2) show ?thesis by (simp add: mode_iv_len_def)
qed

lemma mode_new_ok:
  assumes C: "common_spec C" and S: "stream_spec A S"
    and k: "bytes_at (ptr kc) (cur_len kc) = Inr k" "length k = 32"
    and v: "bytes_at (ptr vc) (cur_len vc) = Inr v" "length v = mode_iv_len md"
    and a: "bytes_at (ptr ac) (cur_len ac) = Inr a" "length a \<le> INT_MAX"
    and t: "case tc of None \<Rightarrow> True | Some cur \<Rightarrow> \<exists>t. bytes_at (ptr cur) (cur_len cur) = Inr t \<and> length t = 16"
  shows "\<exists>c. mode_new C A md kc vc (Some ac) tc = Inr c \<and> at_start C A S md k v a c \<and> (md = GCM \<longrightarrow>
    (case tc of None \<Rightarrow> buf_len (ctag c) = 0 | Some cur \<Rightarrow> Inr (contents (ctag c)) = bytes_at (ptr cur) (cur_len cur)))"
proof -
  have "k \<noteq> []" "length k \<le> SIZE_MAX div 2" using k(2) by auto
  then obtain kb where kb: "copy_cursor C kc = Inr kb" "buffer kb = Some k" using copied [OF C k(1)] by blast
  have "v \<noteq> []" "length v \<le> SIZE_MAX div 2" using v(2) by (auto simp: mode_iv_len_def split: if_splits)
  then obtain vb where vb: "copy_cursor C vc = Inr vb" "buffer vb = Some v" using copied [OF C v(1)] by blast
  have "length a \<le> SIZE_MAX div 2" using a(2) by simp
  then obtain ab where ab: "copy_cursor C ac = Inr ab" "valid_buf ab" "contents ab = a" using copied [OF C a(1)] by blast
  obtain tb where tb: "(case tc of None \<Rightarrow> or_zero (aws_byte_buf_init C 16) | Some cur \<Rightarrow> copy_cursor C cur) = Inr tb"
      "valid_buf tb" "buf_len tb \<in> {0, 16}" "tag_ok tb"
      "case tc of None \<Rightarrow> buf_len tb = 0 | Some cur \<Rightarrow> Inr (contents tb) = bytes_at (ptr cur) (cur_len cur)"
  proof (cases tc)
    case None
    with that init_law [OF C, of 16] show ?thesis by (auto simp: or_zero_def fresh_buf_def tag_ok_def)
  next
    case (Some cur)
    with t obtain t' where t': "bytes_at (ptr cur) (cur_len cur) = Inr t'" "length t' = 16" by auto
    moreover have "length t' \<le> SIZE_MAX div 2" using t'(2) by simp
    ultimately show ?thesis using Some that copied [OF C t'(1)] by (auto simp: tag_ok_def)
  qed
  obtain x where x: "EVP_CIPHER_CTX_new A = Some x" using stream_specD(6) [OF S] by blast
  let ?c = "\<lambda>ab tb. \<lparr>iv = vb, key = kb, aad = ab, ctag = tb, block_size = 16, key_length_bits = 256, cipher_good = False,
     cipher_impl = \<lparr>encryptor_ctx = x, decryptor_ctx = x, working_buffer = zero_buf\<rparr>\<rparr>"
  let ?c0 = "if md = GCM then ?c ab tb else ?c zero_buf zero_buf"
  have new: "mode_new C A md kc vc (Some ac) tc = finish_new (mode_init A md ?c0)"
    using kb(1) vb(1) ab(1) tb(1) x
    by (cases md) (simp_all add: aws_aes_cbc_256_new_impl_def aws_aes_ctr_256_new_impl_def aws_aes_gcm_256_new_impl_def
        key_material_def iv_material_def new_cipher_def)
  have "\<exists>c'. mode_init A md ?c0 = (Inr (), c') \<and> started S md (mode_params md k v a) ?c0 c'"
    by (rule mode_init_ok [OF S _ k(2) _ v(2)]) (use kb vb ab tb a(2) in auto)
  then obtain c' where c': "mode_init A md ?c0 = (Inr (), c')" "started S md (mode_params md k v a) ?c0 c'" by blast
  have "at_start C A S md k v a (c'\<lparr>cipher_good := True\<rparr>)"
    by (rule started_at_start [OF C S c'(2)]) (use kb vb ab tb a(2) in auto)
  moreover have "md = GCM \<longrightarrow> ctag c' = tb" using c'(2) by (auto simp: started_def)
  ultimately show ?thesis using new c'(1) tb(5) by (auto simp: finish_new_def split: option.splits)
qed

lemma mode_reset: "vt_reset (mode_vtable C A md) c = mode_init A md (s_clear_reusable_state C A c)"
  by (cases md) (simp_all add: s_cbc_vtable_def s_ctr_vtable_def s_gcm_vtable_def s_reset_cbc_cipher_materials_def
      s_reset_ctr_cipher_materials_def s_reset_gcm_cipher_materials_def)

lemma reset_ok:
  assumes C: "common_spec C" and S: "stream_spec A S" and b: "block_size c = 16"
    and k: "buffer (key c) = Some k" "length k = 32" and v: "buffer (iv c) = Some v" "length v = mode_iv_len md"
    and g: "md = GCM \<longrightarrow> valid_buf (aad c) \<and> contents (aad c) = a \<and> length a \<le> INT_MAX \<and> tag_ok (ctag c) \<and> buf_len (ctag c) \<in> {0, 16}"
  shows "\<exists>c'. aws_symmetric_cipher_reset (mode_vtable C A md) c = (Inr (), c') \<and> at_start C A S md k v a c' \<and> ctag c' = ctag c"
proof -
  let ?c = "s_clear_reusable_state C A c"
  have c: "key ?c = key c" "iv ?c = iv c" "aad ?c = aad c" "ctag ?c = ctag c" "block_size ?c = block_size c"
    by (simp_all add: s_clear_reusable_state_def Let_def)
  have "\<exists>c'. mode_init A md ?c = (Inr (), c') \<and> started S md (mode_params md k v a) ?c c'"
    by (rule mode_init_ok [OF S _ k(2) _ v(2)]) (use c k v g in \<open>auto simp: tag_ok_def\<close>)
  then obtain c' where c': "mode_init A md ?c = (Inr (), c')" "started S md (mode_params md k v a) ?c c'" by blast
  have "at_start C A S md k v a (c'\<lparr>cipher_good := True\<rparr>)"
    by (rule started_at_start [OF C S c'(2)]) (use c b k v g in auto)
  moreover have "ctag c' = ctag c" using c'(2) c(4) by (auto simp: started_def)
  ultimately show ?thesis using c'(1) by (simp add: aws_symmetric_cipher_reset_def mode_reset)
qed

section \<open>Whole runs\<close>

lemma reset_after_encryption:
  assumes s: "at_start C A S md k v a c" and f: "finished S md (mode_params md k v a, materials c) m c'"
    and k: "length k = 32" and v: "length v = mode_iv_len md" and t: "md = GCM \<longrightarrow> buf_len (ctag c) = 0"
  shows "\<exists>c2. aws_symmetric_cipher_reset (mode_vtable C A md) c' = (Inr (), c2) \<and> at_start C A S md k v a c2 \<and>
    dec_io C A S c2 = Some ((mode_params md k v a, if md = GCM then Some (Tag S (mode_params md k v a) m) else None), [], []) \<and>
    ctag c2 = ctag c'"
proof -
  have e: "enc_io C A S md c = Some ((mode_params md k v a, materials c), [], [])" using s by (simp add: at_start_def)
  then have CS: "common_spec C" "stream_spec A S" by (auto elim: enc_ioE)
  have m: "block_size c' = 16" "buffer (key c') = Some k" "buffer (iv c') = Some v"
      "md = GCM \<longrightarrow> valid_buf (aad c') \<and> contents (aad c') = a"
      "md = GCM \<longrightarrow> valid_buf (ctag c') \<and> contents (ctag c') = Tag S (mode_params md k v a) m"
    using f s t by (auto simp: finished_def materials_def at_start_def)
  then have l: "md = GCM \<longrightarrow> buf_len (ctag c') = 16"
    using tag_laws(2) [OF CS(2)] by (metis length_contents)
  then have "md = GCM \<longrightarrow> valid_buf (aad c') \<and> contents (aad c') = a \<and> length a \<le> INT_MAX \<and> tag_ok (ctag c') \<and> buf_len (ctag c') \<in> {0, 16}"
    using m s by (simp add: tag_ok_def at_start_def)
  from reset_ok [OF CS m(1,2) k m(3) v this] obtain c2 where
      c2: "aws_symmetric_cipher_reset (mode_vtable C A md) c' = (Inr (), c2)" "at_start C A S md k v a c2" "ctag c2 = ctag c'"
    by blast
  have "expected_tag md (ctag c2) = (if md = GCM then Some (Tag S (mode_params md k v a) m) else None)"
    using c2(3) l m(5) by (simp add: expected_tag_def)
  with c2 show ?thesis by (auto simp: at_start_def)
qed

lemma one_message:
  assumes s: "at_start C A S GCM k v a c" and m: "bytes_at (ptr mc) (cur_len mc) = Inr m" "length m + 16 \<le> INT_MAX"
    and out: "valid_buf out" "allocator out" "buf_len out + length m + 16 \<le> SIZE_MAX div 2"
  shows "\<exists>c1 out1 c2 out2. aws_symmetric_cipher_encrypt (s_gcm_vtable C A) mc c out = (Inr (), c1, out1) \<and>
    aws_symmetric_cipher_finalize_encryption (s_gcm_vtable C A) c1 out1 = (Inr (), c2, out2) \<and>
    contents out2 = contents out @ Enc S (mode_params GCM k v a) m \<and>
    finished S GCM (mode_params GCM k v a, materials c) m c2"
proof -
  have e: "enc_io C A S GCM c = Some ((mode_params GCM k v a, materials c), [], [])" using s by (simp add: at_start_def)
  show ?thesis
    using aes_enc.message_ok [OF m(1) e m(2) _ out(1,2) valid_capacity [OF out(1)] out(3)] out(3) by simp
qed

text \<open>
  Claim C3. AES in CBC, CTR and GCM mode: a new cipher under a given key and vector (and at most \<open>INT_MAX\<close> bytes of additional
  data for GCM, as the source casts that length to a C int), fed any pieces of at most \<open>INT_MAX - 16\<close> bytes and finalized, appends to a growable output exactly libcrypto's
  cipher text of the concatenation, for GCM with its tag left in the cipher. After a reset the same
  cipher, fed that cipher text in any pieces and finalized, appends the message; for GCM under the
  tag of the encryption.
\<close>

theorem stream_round_trip:
  assumes C: "common_spec C" and S: "stream_spec A S"
    and k: "bytes_at (ptr kc) (cur_len kc) = Inr k" "length k = 32"
    and v: "bytes_at (ptr vc) (cur_len vc) = Inr v" "length v = mode_iv_len md"
    and a: "bytes_at (ptr ac) (cur_len ac) = Inr a" "length a \<le> INT_MAX"
    and ps: "pieces cs bs" "\<forall>b \<in> set bs. length b + 16 \<le> INT_MAX"
    and out: "valid_buf out" "allocator out" "buf_len out + length (concat bs) + 16 \<le> SIZE_MAX div 2"
    and p: "p = mode_params md k v a"
  shows "\<exists>c c1 c2 c3 out1 out2. mode_new C A md kc vc (Some ac) None = Inr c \<and>
    run_calls (mode_vtable C A md) (map Encrypt cs) c out = (replicate (length cs) (Inr ()), c1, out1) \<and>
    aws_symmetric_cipher_finalize_encryption (mode_vtable C A md) c1 out1 = (Inr (), c2, out2) \<and>
    contents out2 = contents out @ Enc S p (concat bs) \<and>
    (md = GCM \<longrightarrow> contents (ctag c2) = Tag S p (concat bs)) \<and>
    aws_symmetric_cipher_reset (mode_vtable C A md) c2 = (Inr (), c3) \<and>
    (\<forall>ds ws res. pieces ds ws \<and> concat ws = Enc S p (concat bs) \<and>
       (\<forall>b \<in> set ws. length b + 16 \<le> INT_MAX) \<and> valid_buf res \<and> allocator res \<and>
       buf_len res + length (concat ws) + 16 \<le> SIZE_MAX div 2 \<longrightarrow>
       (\<exists>d1 d2 res1 res2.
         run_calls (mode_vtable C A md) (map Decrypt ds) c3 res = (replicate (length ds) (Inr ()), d1, res1) \<and>
         aws_symmetric_cipher_finalize_decryption (mode_vtable C A md) d1 res1 = (Inr (), d2, res2) \<and>
         contents res2 = contents res @ concat bs))"
proof -
  obtain c where c: "mode_new C A md kc vc (Some ac) None = Inr c" "at_start C A S md k v a c" "md = GCM \<longrightarrow> buf_len (ctag c) = 0"
    using mode_new_ok [OF C S k v a, of None] by auto
  have e: "enc_io C A S md c = Some ((p, materials c), [], [])" using c(2) p by (simp add: at_start_def)
  have lim: "length (concat bs) \<le> SIZE_MAX div 2" using out(3) by linarith
  from aes_enc.stream_ok [OF ps(1) e ps(2) lim out(1,2) valid_capacity [OF out(1)] out(3)] obtain c1 out1 c2 out2 where
      r: "run_calls (mode_vtable C A md) (map Encrypt cs) c out = (replicate (length cs) (Inr ()), c1, out1)"
        "aws_symmetric_cipher_finalize_encryption (mode_vtable C A md) c1 out1 = (Inr (), c2, out2)"
        "contents out2 = contents out @ Enc S p (concat bs)" "finished S md (p, materials c) (concat bs) c2"
    by auto
  obtain c3 where c3: "aws_symmetric_cipher_reset (mode_vtable C A md) c2 = (Inr (), c3)"
      "dec_io C A S c3 = Some ((p, if md = GCM then Some (Tag S p (concat bs)) else None), [], [])"
    using reset_after_encryption [OF c(2) _ k(2) v(2) c(3), of "concat bs" c2] r(4) p by auto
  have tag: "md = GCM \<longrightarrow> contents (ctag c2) = Tag S p (concat bs)"
    using r(4) c(3) by (auto simp: finished_def materials_def)
  have dec: "decrypts S (p, if md = GCM then Some (Tag S p (concat bs)) else None) q (concat bs)"
    if "q = Enc S p (concat bs)" for q
    using that p by (simp add: decrypts_def mode_params_def)
  have "\<exists>d1 d2 res1 res2.
         run_calls (mode_vtable C A md) (map Decrypt ds) c3 res = (replicate (length ds) (Inr ()), d1, res1) \<and>
         aws_symmetric_cipher_finalize_decryption (mode_vtable C A md) d1 res1 = (Inr (), d2, res2) \<and>
         contents res2 = contents res @ concat bs"
    if "pieces ds ws" "concat ws = Enc S p (concat bs)"
      "\<forall>b \<in> set ws. length b + 16 \<le> INT_MAX" "valid_buf res" "allocator res"
      "buf_len res + length (concat ws) + 16 \<le> SIZE_MAX div 2" for ds ws res
  proof -
    have "length (concat ws) \<le> SIZE_MAX div 2" using that(6) by linarith
    from aes_dec.stream_ok [OF that(1) c3(2) that(3) this that(4,5) valid_capacity [OF that(4)] that(6)] dec [OF that(2)] show ?thesis by fastforce
  qed
  with c(1) r c3(1) tag show ?thesis by blast
qed

text \<open>
  Claim C31. GCM authenticates: a new GCM cipher given a 16-byte tag and at most \<open>INT_MAX\<close> bytes of additional data (longer data
  is cut by a cast in the source) and fed a cipher text in any pieces of at most \<open>INT_MAX - 16\<close> bytes returns the message when the tag is the tag of that message under these key, vector
  and additional data, and otherwise fails in finalize with AWS_ERROR_INVALID_ARGUMENT.
\<close>

theorem gcm_authenticates:
  assumes C: "common_spec C" and S: "stream_spec A S"
    and k: "bytes_at (ptr kc) (cur_len kc) = Inr k" "length k = 32"
    and v: "bytes_at (ptr vc) (cur_len vc) = Inr v" "length v = 12"
    and a: "bytes_at (ptr ac) (cur_len ac) = Inr a" "length a \<le> INT_MAX"
    and t: "bytes_at (ptr tc) (cur_len tc) = Inr t" "length t = 16"
    and ps: "pieces ds ws" "\<forall>b \<in> set ws. length b + 16 \<le> INT_MAX"
    and q: "concat ws = Enc S (EVP_aes_256_gcm, k, v, a) m"
    and out: "valid_buf out" "allocator out" "buf_len out + length (concat ws) + 16 \<le> SIZE_MAX div 2"
  shows "\<exists>c c1 c2 out1 out2. aws_aes_gcm_256_new_impl C A (Some kc) (Some vc) (Some ac) (Some tc) = Inr c \<and>
    run_calls (s_gcm_vtable C A) (map Decrypt ds) c out = (replicate (length ds) (Inr ()), c1, out1) \<and>
    (if t = Tag S (EVP_aes_256_gcm, k, v, a) m
     then aws_symmetric_cipher_finalize_decryption (s_gcm_vtable C A) c1 out1 = (Inr (), c2, out2) \<and>
       contents out2 = contents out @ m
     else aws_symmetric_cipher_finalize_decryption (s_gcm_vtable C A) c1 out1 =
       (Inl (Raised AWS_ERROR_INVALID_ARGUMENT), c2, out2))"
proof -
  let ?p = "(EVP_aes_256_gcm, k, v, a)"
  have v': "length v = mode_iv_len GCM" using v(2) by (simp add: mode_iv_len_def)
  obtain c where c: "aws_aes_gcm_256_new_impl C A (Some kc) (Some vc) (Some ac) (Some tc) = Inr c"
      "at_start C A S GCM k v a c" "contents (ctag c) = t"
    using mode_new_ok [OF C S k v(1) v' a, of "Some tc"] t by auto
  have "valid_buf (ctag c)" using c(2) by (simp add: at_start_def tag_ok_def)
  then have "buf_len (ctag c) \<noteq> 0" using length_contents [of "ctag c"] c(3) t(2) by simp
  then have d: "dec_io C A S c = Some ((?p, Some t), [], [])"
    using c(2,3) by (simp add: at_start_def mode_params_def expected_tag_def)
  have lim: "length (concat ws) \<le> SIZE_MAX div 2" using out(3) by linarith
  obtain c1 out1 where
      r: "run_calls (s_gcm_vtable C A) (map Decrypt ds) c out = (replicate (length ds) (Inr ()), c1, out1)"
      "\<forall>m. decrypts S (?p, Some t) (concat ws) m \<longrightarrow> (\<exists>c2 out2.
         aws_symmetric_cipher_finalize_decryption (s_gcm_vtable C A) c1 out1 = (Inr (), c2, out2) \<and>
         valid_buf out2 \<and> contents out2 = contents out @ m)"
      "bad_tag S (?p, Some t) (concat ws) \<longrightarrow> (\<exists>c2 out2.
         aws_symmetric_cipher_finalize_decryption (s_gcm_vtable C A) c1 out1 =
           (Inl (Raised AWS_ERROR_INVALID_ARGUMENT), c2, out2))"
    using aes_dec.stream_ok [OF ps(1) d ps(2) lim out(1,2) valid_capacity [OF out(1)] out(3), of GCM] by auto
  show ?thesis
  proof (cases "t = Tag S ?p m")
    case True
    with r(2) [rule_format, of m] q have "\<exists>c2 out2. aws_symmetric_cipher_finalize_decryption (s_gcm_vtable C A) c1 out1 = (Inr (), c2, out2) \<and>
         contents out2 = contents out @ m" by (auto simp: decrypts_def)
    with c(1) r(1) True show ?thesis by simp
  next
    case False
    with r(3) q have "\<exists>c2 out2. aws_symmetric_cipher_finalize_decryption (s_gcm_vtable C A) c1 out1 =
           (Inl (Raised AWS_ERROR_INVALID_ARGUMENT), c2, out2)" by (auto simp: bad_tag_def)
    with c(1) r(1) False show ?thesis by simp
  qed
qed

text \<open>
  The GCM tag of a reset cipher: after encrypting one message, a reset and encrypting a
  second message, both runs succeed and produce the right cipher text, but the cipher still reports the tag of
  the first message.
\<close>

theorem gcm_tag_not_refreshed:
  assumes C: "common_spec C" and S: "stream_spec A S"
    and k: "bytes_at (ptr kc) (cur_len kc) = Inr k" "length k = 32"
    and v: "bytes_at (ptr vc) (cur_len vc) = Inr v" "length v = 12"
    and a: "bytes_at (ptr ac) (cur_len ac) = Inr a" "length a \<le> INT_MAX"
    and m: "bytes_at (ptr mc) (cur_len mc) = Inr m" "length m + 16 \<le> INT_MAX"
    and m': "bytes_at (ptr mc') (cur_len mc') = Inr m'" "length m' + 16 \<le> INT_MAX"
    and out: "valid_buf out" "allocator out" "buf_len out + length m + 16 \<le> SIZE_MAX div 2"
    and out': "valid_buf out'" "allocator out'" "buf_len out' + length m' + 16 \<le> SIZE_MAX div 2"
    and p: "p = (EVP_aes_256_gcm, k, v, a)"
  shows "\<exists>c c1 c2 c3 c4 c5 out1 out2 out3 out4.
    aws_aes_gcm_256_new_impl C A (Some kc) (Some vc) (Some ac) None = Inr c \<and>
    aws_symmetric_cipher_encrypt (s_gcm_vtable C A) mc c out = (Inr (), c1, out1) \<and>
    aws_symmetric_cipher_finalize_encryption (s_gcm_vtable C A) c1 out1 = (Inr (), c2, out2) \<and>
    aws_symmetric_cipher_reset (s_gcm_vtable C A) c2 = (Inr (), c3) \<and>
    aws_symmetric_cipher_encrypt (s_gcm_vtable C A) mc' c3 out' = (Inr (), c4, out3) \<and>
    aws_symmetric_cipher_finalize_encryption (s_gcm_vtable C A) c4 out3 = (Inr (), c5, out4) \<and>
    contents out2 = contents out @ Enc S p m \<and> contents out4 = contents out' @ Enc S p m' \<and>
    bytes_at (ptr (aws_symmetric_cipher_get_tag c5)) (cur_len (aws_symmetric_cipher_get_tag c5)) = Inr (Tag S p m)"
proof -
  have v': "length v = mode_iv_len GCM" and p': "mode_params GCM k v a = p"
    using v(2) p by (simp_all add: mode_iv_len_def mode_params_def)
  obtain c where c: "aws_aes_gcm_256_new_impl C A (Some kc) (Some vc) (Some ac) None = Inr c"
      "at_start C A S GCM k v a c" "buf_len (ctag c) = 0"
    using mode_new_ok [OF C S k v(1) v' a, of None] by auto
  obtain c1 out1 c2 out2 where e1: "aws_symmetric_cipher_encrypt (s_gcm_vtable C A) mc c out = (Inr (), c1, out1)"
      "aws_symmetric_cipher_finalize_encryption (s_gcm_vtable C A) c1 out1 = (Inr (), c2, out2)"
      "contents out2 = contents out @ Enc S p m" "finished S GCM (p, materials c) m c2"
    using one_message [OF c(2) m out] p' by auto
  then have t2: "valid_buf (ctag c2)" "contents (ctag c2) = Tag S p m"
    using c(3) by (auto simp: finished_def materials_def)
  obtain c3 where c3: "aws_symmetric_cipher_reset (s_gcm_vtable C A) c2 = (Inr (), c3)" "at_start C A S GCM k v a c3"
      "ctag c3 = ctag c2"
    using reset_after_encryption [OF c(2) _ k(2) v', of m c2] e1(4) c(3) p' by auto
  obtain c4 out3 c5 out4 where e2: "aws_symmetric_cipher_encrypt (s_gcm_vtable C A) mc' c3 out' = (Inr (), c4, out3)"
      "aws_symmetric_cipher_finalize_encryption (s_gcm_vtable C A) c4 out3 = (Inr (), c5, out4)"
      "contents out4 = contents out' @ Enc S p m'" "finished S GCM (p, materials c3) m' c5"
    using one_message [OF c3(2) m' out'] p' by auto
  have "buf_len (ctag c3) \<noteq> 0"
    using t2 length_contents [OF t2(1)] tag_laws(2) [OF S, of p m] c3(3) by auto
  then have "ctag c5 = ctag c2" using e2(4) c3(3) by (auto simp: finished_def materials_def)
  with t2 have "bytes_at (ptr (aws_symmetric_cipher_get_tag c5)) (cur_len (aws_symmetric_cipher_get_tag c5)) = Inr (Tag S p m)"
    by (simp add: aws_symmetric_cipher_get_tag_def bytes_at_from_buf)
  with c(1) e1(1-3) c3(1) e2(1-3) show ?thesis by blast
qed

section \<open>A reference stream cipher\<close>

text \<open>
  An instance of libcrypto that satisfies the assumptions. A context holds its parameters, the
  expected tag, the bytes it was fed and whether it was finalized; the cipher complements every
  byte, and the tag repeats the sum of the message.
\<close>

type_synonym ref_ctx = "stream_params \<times> bytes option \<times> bytes \<times> bool"

definition ref_tag :: "bytes \<Rightarrow> bytes" where
  "ref_tag m = replicate 16 (sum_list m)"

definition ref_evp_init :: "ref_ctx \<Rightarrow> evp_cipher option \<Rightarrow> bytes option \<Rightarrow> bytes option \<Rightarrow> bool \<times> ref_ctx" where
  "ref_evp_init x ci m v = (case x of ((c0, k0, v0, _), _) \<Rightarrow>
     (True, (case ci of None \<Rightarrow> c0 | Some c \<Rightarrow> c, case m of None \<Rightarrow> k0 | Some k \<Rightarrow> k,
       case v of None \<Rightarrow> v0 | Some v \<Rightarrow> v, []), None, [], False))"

definition ref_update :: "ref_ctx \<Rightarrow> bytes \<Rightarrow> bool \<times> bytes \<times> ref_ctx" where
  "ref_update x b = (case x of (p, t, m, f) \<Rightarrow> (True, map not b, (p, t, m @ b, f)))"

definition ref_aad :: "ref_ctx \<Rightarrow> bytes \<Rightarrow> int \<Rightarrow> bool \<times> ref_ctx" where
  "ref_aad x b n = (case x of ((ci, k, v, _), t, m, f) \<Rightarrow> (0 \<le> n, (ci, k, v, take (nat n) b), t, m, f))"

definition ref_evp :: "ref_ctx evp_cipher_api" where
  "ref_evp = \<lparr>EVP_CIPHER_CTX_new = Some ((EVP_aes_256_ecb, [], [], []), None, [], True),
     EVP_CIPHER_CTX_cleanup = (\<lambda>_. ((EVP_aes_256_ecb, [], [], []), None, [], True)),
     EVP_EncryptInit_ex = ref_evp_init, EVP_DecryptInit_ex = ref_evp_init,
     EVP_CIPHER_CTX_set_padding = (\<lambda>x p. (True, x)),
     EVP_EncryptUpdate = ref_update, EVP_DecryptUpdate = ref_update,
     EVP_EncryptUpdate_aad = ref_aad, EVP_DecryptUpdate_aad = ref_aad,
     EVP_EncryptFinal_ex = (\<lambda>(p, t, m, f). (True, [], (p, t, m, True))),
     EVP_DecryptFinal_ex = (\<lambda>(p, t, q, f). (fst p \<noteq> EVP_aes_256_gcm \<or> t = Some (ref_tag (map not q)), [], (p, t, q, True))),
     EVP_GCM_GET_TAG = (\<lambda>(p, t, m, f) n. (True, ref_tag m, (p, t, m, f))),
     EVP_GCM_SET_TAG = (\<lambda>(p, _, m, f) t n. (True, (p, Some t, m, f)))\<rparr>"

definition ref_stream :: "ref_ctx evp_stream" where
  "ref_stream = \<lparr>est = (\<lambda>(p, t, m, f). if f then None else Some (p, m, map not m)),
     dst = (\<lambda>(p, t, m, f). if f then None else Some (p, t, m, map not m)),
     fin = (\<lambda>(p, t, m, f). if f then Some (p, m) else None),
     Enc = (\<lambda>_. map not), Tag = (\<lambda>_. ref_tag)\<rparr>"

lemma map_not_not: "map not (map not m) = (m :: bytes)"
  by (simp add: comp_def)

lemma stream_spec_ref: "stream_spec ref_evp ref_stream"
proof -
  have u: "update_spec ref_evp ref_stream"
    by (auto simp: update_spec_def ref_evp_def ref_stream_def ref_update_def split: if_splits)
  have f: "final_spec ref_evp ref_stream"
    by (auto simp: final_spec_def ref_evp_def ref_stream_def map_not_not comp_def split: if_splits)
  have t: "tag_spec ref_evp ref_stream"
    by (auto simp: tag_spec_def ref_evp_def ref_stream_def ref_tag_def split: if_splits)
  have i: "init_spec ref_evp ref_stream"
    by (auto simp: init_spec_def ref_evp_def ref_stream_def ref_evp_init_def split: if_splits)
  have s: "setup_spec ref_evp ref_stream"
    by (auto simp: setup_spec_def ref_evp_def ref_stream_def ref_aad_def split: if_splits)
  show ?thesis using u f t i s by (simp add: stream_spec_def ref_evp_def)
qed

lemma stream_round_trip_witness:
  "\<exists>c c1 c2 c3 out1 out2. aws_aes_cbc_256_new_impl ref_common ref_evp (Some (cursor_of (replicate 32 7)))
      (Some (cursor_of (replicate 16 3))) = Inr c \<and>
    run_calls (s_cbc_vtable ref_common ref_evp) (map Encrypt [cursor_of [1, 2], cursor_of [3]]) c (empty_out 0) =
      (replicate 2 (Inr ()), c1, out1) \<and>
    aws_symmetric_cipher_finalize_encryption (s_cbc_vtable ref_common ref_evp) c1 out1 = (Inr (), c2, out2) \<and>
    contents out2 = map not [1, 2, 3] \<and>
    aws_symmetric_cipher_reset (s_cbc_vtable ref_common ref_evp) c2 = (Inr (), c3)"
proof -
  let ?k = "replicate 32 7 :: bytes" and ?v = "replicate 16 3 :: bytes"
  have prems: "length ?k = 32" "length ?v = mode_iv_len CBC" "length ([] :: bytes) \<le> INT_MAX"
    "pieces [cursor_of [1, 2], cursor_of [3]] [[1, 2], [3]]"
    "\<forall>b \<in> set [[1, 2], [3 :: byte]]. length b + 16 \<le> INT_MAX"
    "buf_len (empty_out 0) + length (concat [[1, 2], [3 :: byte]]) + 16 \<le> SIZE_MAX div 2"
    "valid_buf (empty_out 0)" "allocator (empty_out 0)"
    by (simp_all add: mode_iv_len_def)
  have cur: "bytes_at (ptr (cursor_of b)) (cur_len (cursor_of b)) = Inr b" for b by simp
  have run: "mode_new ref_common ref_evp CBC (cursor_of ?k) (cursor_of ?v) (Some (cursor_of [])) None =
      aws_aes_cbc_256_new_impl ref_common ref_evp (Some (cursor_of ?k)) (Some (cursor_of ?v))"
    "mode_vtable ref_common ref_evp CBC = s_cbc_vtable ref_common ref_evp"
    "contents (empty_out 0) @ Enc ref_stream (mode_params CBC ?k ?v []) (concat [[1, 2], [3]]) = map not [1, 2, 3]"
    "length [cursor_of [1, 2], cursor_of [3]] = 2"
    by (simp_all add: ref_stream_def)
  show ?thesis
    using stream_round_trip [OF common_spec_ref stream_spec_ref cur prems(1) cur prems(2) cur prems(3) prems(4,5,7,8,6) refl]
    unfolding run by (elim exE conjE) (intro exI conjI; assumption)
qed

lemma gcm_authenticates_witness:
  "\<exists>c c1 c2 out1 out2. aws_aes_gcm_256_new_impl ref_common ref_evp (Some (cursor_of (replicate 32 7)))
      (Some (cursor_of (replicate 12 3))) (Some (cursor_of [9])) (Some (cursor_of (replicate 16 5))) = Inr c \<and>
    run_calls (s_gcm_vtable ref_common ref_evp) (map Decrypt [cursor_of [not 1]]) c (empty_out 0) = ([Inr ()], c1, out1) \<and>
    aws_symmetric_cipher_finalize_decryption (s_gcm_vtable ref_common ref_evp) c1 out1 =
       (Inl (Raised AWS_ERROR_INVALID_ARGUMENT), c2, out2)"
  using gcm_authenticates [OF common_spec_ref stream_spec_ref, of "cursor_of (replicate 32 7)" "replicate 32 7"
      "cursor_of (replicate 12 3)" "replicate 12 3" "cursor_of [9]" "[9]" "cursor_of (replicate 16 5)" "replicate 16 5"
      "[cursor_of [not 1]]" "[[not 1]]" "[1]" "empty_out 0"]
  by (simp add: ref_stream_def ref_tag_def del: run_calls.simps)

lemma gcm_tag_not_refreshed_witness:
  "\<exists>c5. bytes_at (ptr (aws_symmetric_cipher_get_tag c5)) (cur_len (aws_symmetric_cipher_get_tag (c5 :: ref_ctx aes_cipher))) =
     Inr (ref_tag [1]) \<and> ref_tag [1] \<noteq> ref_tag [2]"
  using gcm_tag_not_refreshed [OF common_spec_ref stream_spec_ref, of "cursor_of (replicate 32 7)" "replicate 32 7"
      "cursor_of (replicate 12 3)" "replicate 12 3" "cursor_of [9]" "[9]" "cursor_of [1]" "[1]" "cursor_of [2]" "[2]"
      "empty_out 0" "empty_out 0" "(EVP_aes_256_gcm, replicate 32 7, replicate 12 3, [9])"]
  by (auto simp: ref_stream_def ref_tag_def)

end
