(* ===== verification/Bcrypt_Aes.thy ===== *)
theory Bcrypt_Aes
  imports Symmetric_Cipher
begin

text \<open>
  The AES ciphers on Windows, \<^verbatim>\<open>source/windows/bcrypt_aes.c\<close>, over the Cryptography API: Next
  Generation (CNG). Its functions are the fields of \<open>cng_api\<close>, parameters of the definitions; a key
  handle is an object whose state they return. CNG works on whole blocks, so that the file keeps
  the rest of the input in the buffer \<open>overflow\<close>; it has no counter mode, so that CTR is built here
  on single blocks.

  Casts to \<open>ULONG\<close> reduce a length modulo \<open>2 ^ 32\<close>. The results of the buffer functions are ignored
  where the source ignores them.
\<close>

section \<open>CNG\<close>

datatype chaining_mode = BCRYPT_CHAIN_MODE_CBC | BCRYPT_CHAIN_MODE_GCM | BCRYPT_CHAIN_MODE_ECB

text \<open>The memory that an authenticated call refers to, and the flag for chained calls.\<close>

record auth_call =
  pbNonce :: bytes
  pbTag :: bytes
  pbMacContext :: bytes
  pbAuthData :: bytes
  pbIV :: bytes
  chained :: bool

text \<open>
  \<open>BCryptEncrypt\<close> and \<open>BCryptDecrypt\<close> without authentication take the input, whether padding is on
  and the room for output; with authentication they also change the tag, the MAC context and the
  vector, in this order.
\<close>

record ('a, 'k) cng_api =
  BCryptOpenAlgorithmProvider :: "'a option"
  BCryptSetProperty_chaining :: "'a \<Rightarrow> chaining_mode \<Rightarrow> bool \<times> 'a"
  key_data_blob_header :: "nat \<Rightarrow> bytes"
  blob_cbKeyData :: "bytes \<Rightarrow> nat"
  BCryptImportKey :: "'a \<Rightarrow> bytes \<Rightarrow> 'k option"
  BCryptSetProperty_iv :: "'k \<Rightarrow> bytes \<Rightarrow> bool \<times> 'k"
  BCryptEncrypt :: "'k \<Rightarrow> bytes \<Rightarrow> bool \<Rightarrow> nat \<Rightarrow> bool \<times> bytes \<times> 'k"
  BCryptDecrypt :: "'k \<Rightarrow> bytes \<Rightarrow> bool \<Rightarrow> nat \<Rightarrow> bool \<times> bytes \<times> 'k"
  BCryptEncrypt_auth :: "'k \<Rightarrow> bytes \<Rightarrow> auth_call \<Rightarrow> nat \<Rightarrow> bool \<times> bytes \<times> (bytes \<times> bytes \<times> bytes) \<times> 'k"
  BCryptDecrypt_auth :: "'k \<Rightarrow> bytes \<Rightarrow> auth_call \<Rightarrow> nat \<Rightarrow> bool \<times> bytes \<times> (bytes \<times> bytes \<times> bytes) \<times> 'k"
  BCryptExportKey_wrap_size :: "'k \<Rightarrow> 'k \<Rightarrow> nat option"
  BCryptExportKey_wrap :: "'k \<Rightarrow> 'k \<Rightarrow> nat \<Rightarrow> bytes option"
  BCryptImportKey_wrap :: "'a \<Rightarrow> 'k \<Rightarrow> bytes \<Rightarrow> 'k option"
  BCryptExportKey_data :: "'k \<Rightarrow> nat \<Rightarrow> bytes option"

record 'a alg_handles =
  s_aes_cbc_algorithm_handle :: 'a
  s_aes_gcm_algorithm_handle :: 'a
  s_aes_ctr_algorithm_handle :: 'a
  s_aes_keywrap_algorithm_handle :: 'a

definition open_with_mode :: "('a, 'k) cng_api \<Rightarrow> chaining_mode \<Rightarrow> 'a result" where
  "open_with_mode N mode = (case BCryptOpenAlgorithmProvider N of
       None \<Rightarrow> Inl Fatal
     | Some a \<Rightarrow> (case BCryptSetProperty_chaining N a mode of (True, a') \<Rightarrow> Inr a' | (False, _) \<Rightarrow> Inl Fatal))"

text \<open>For key wrap the assertion tests the CTR handle and then the status of the open call, so that a
  failed open call is fatal as well.\<close>

definition s_load_alg_handles :: "('a, 'k) cng_api \<Rightarrow> 'a alg_handles result" where
  "s_load_alg_handles N =
     rbind (open_with_mode N BCRYPT_CHAIN_MODE_CBC) (\<lambda>cbc.
     rbind (open_with_mode N BCRYPT_CHAIN_MODE_GCM) (\<lambda>gcm.
     rbind (open_with_mode N BCRYPT_CHAIN_MODE_ECB) (\<lambda>ctr.
     case BCryptOpenAlgorithmProvider N of
       None \<Rightarrow> Inl Fatal
     | Some kw \<Rightarrow> Inr \<lparr>s_aes_cbc_algorithm_handle = cbc, s_aes_gcm_algorithm_handle = gcm,
         s_aes_ctr_algorithm_handle = ctr, s_aes_keywrap_algorithm_handle = kw\<rparr>)))"

section \<open>The cipher\<close>

record auth_mode_info =
  cbNonce :: nat
  cbTag :: nat
  cbMacContext :: nat
  cbAuthData :: nat
  chain_calls :: bool

text \<open>\<open>cipher_flags\<close> is 0 or \<open>BCRYPT_BLOCK_PADDING\<close>. \<open>iv_shared\<close> says whether \<open>working_iv.buffer\<close> and
  \<open>cipher.iv.buffer\<close> are the same pointer.\<close>

record ('a, 'k) aes_bcrypt_cipher =
  alg_handle :: 'a
  key_handle :: "'k option"
  auth_info_ptr :: "auth_mode_info option"
  block_padding :: bool
  overflow :: aws_byte_buf
  working_iv :: aws_byte_buf
  iv_shared :: bool
  working_mac_buffer :: aws_byte_buf

type_synonym ('a, 'k) bcrypt_cipher = "('a, 'k) aes_bcrypt_cipher aws_symmetric_cipher"
type_synonym ('a, 'k) bcrypt_op = "('a, 'k) aes_bcrypt_cipher cipher_op"

definition on_impl :: "(('a, 'k) aes_bcrypt_cipher \<Rightarrow> ('a, 'k) aes_bcrypt_cipher) \<Rightarrow>
    ('a, 'k) bcrypt_cipher \<Rightarrow> ('a, 'k) bcrypt_cipher" where
  "on_impl f c = c\<lparr>cipher_impl := f (cipher_impl c)\<rparr>"

abbreviation set_overflow :: "aws_byte_buf \<Rightarrow> ('a, 'k) bcrypt_cipher \<Rightarrow> ('a, 'k) bcrypt_cipher" where
  "set_overflow b \<equiv> on_impl (\<lambda>i. i\<lparr>overflow := b\<rparr>)"

abbreviation set_padding :: "bool \<Rightarrow> ('a, 'k) bcrypt_cipher \<Rightarrow> ('a, 'k) bcrypt_cipher" where
  "set_padding f \<equiv> on_impl (\<lambda>i. i\<lparr>block_padding := f\<rparr>)"

abbreviation set_key_handle :: "'k option \<Rightarrow> ('a, 'k) bcrypt_cipher \<Rightarrow> ('a, 'k) bcrypt_cipher" where
  "set_key_handle h \<equiv> on_impl (\<lambda>i. i\<lparr>key_handle := h\<rparr>)"

abbreviation set_working_iv :: "aws_byte_buf \<Rightarrow> ('a, 'k) bcrypt_cipher \<Rightarrow> ('a, 'k) bcrypt_cipher" where
  "set_working_iv b \<equiv> on_impl (\<lambda>i. i\<lparr>working_iv := b\<rparr>)"

text \<open>The first \<open>n\<close> bytes of the memory of a buffer, and storing into it from its start.\<close>

definition buf_mem :: "aws_byte_buf \<Rightarrow> nat \<Rightarrow> bytes result" where
  "buf_mem b n = bytes_at (map_option (\<lambda>m. \<lparr>pobj = m, poff = 0\<rparr>) (buffer b)) n"

definition store_mem :: "aws_byte_buf \<Rightarrow> bytes \<Rightarrow> aws_byte_buf result" where
  "store_mem b bs = (if bs = [] then Inr b else case buffer b of
       None \<Rightarrow> Inl (Undefined Null_deref)
     | Some m \<Rightarrow> if length bs \<le> length m then Inr (b\<lparr>buffer := Some (overwrite 0 bs m)\<rparr>)
                  else Inl (Undefined Out_of_bounds))"

text \<open>\<open>aws_byte_buf_append_dynamic\<close> with its result ignored.\<close>

definition append_ignoring :: "aws_common \<Rightarrow> aws_byte_buf \<Rightarrow> aws_byte_cursor \<Rightarrow> aws_byte_buf result" where
  "append_ignoring C b cur = rbind (bytes_at (ptr cur) (cur_len cur)) (\<lambda>bs.
     case aws_byte_buf_append_dynamic C b bs of Inl (Raised _) \<Rightarrow> Inr b | r \<Rightarrow> r)"

definition s_import_key_blob :: "aws_common \<Rightarrow> ('a, 'k) cng_api \<Rightarrow> 'a \<Rightarrow> aws_byte_buf \<Rightarrow> 'k result" where
  "s_import_key_blob C N alg k =
     (let header = key_data_blob_header N (ulong (buf_len k)) in
      rbind (or_zero (aws_byte_buf_init C (length header + buf_len k))) (\<lambda>b.
      rbind (buf_mem k (buf_len k)) (\<lambda>kb.
      let b1 = (case aws_byte_buf_write C b header of None \<Rightarrow> b | Some b' \<Rightarrow> b');
          b2 = (case aws_byte_buf_write C b1 kb of None \<Rightarrow> b1 | Some b' \<Rightarrow> b')
      in rbind (buf_mem b2 (ulong (buf_len b2))) (\<lambda>blob.
         case BCryptImportKey N alg blob of None \<Rightarrow> Inl (Raised AWS_ERROR_INVALID_ARGUMENT) | Some h \<Rightarrow> Inr h))))"

section \<open>Materials\<close>

text \<open>The GCM buffers: the tag (given, or zeroed with a length), the additional data and the MAC
  context.\<close>

definition zeroed :: "aws_common \<Rightarrow> aws_byte_buf result" where
  "zeroed C = rbind (or_zero (aws_byte_buf_init C AWS_AES_256_CIPHER_BLOCK_SIZE)) (\<lambda>b.
     Inr ((aws_byte_buf_secure_zero C b)\<lparr>buf_len := AWS_AES_256_CIPHER_BLOCK_SIZE\<rparr>))"

definition gcm_materials :: "aws_common \<Rightarrow> aws_byte_cursor option \<Rightarrow> aws_byte_cursor option \<Rightarrow>
    ('a, 'k) bcrypt_cipher \<Rightarrow> ('a, 'k) bcrypt_cipher result" where
  "gcm_materials C t a c =
     rbind (if buf_len (ctag c) \<noteq> 0 then Inr (ctag c)
            else case t of Some cur \<Rightarrow> copy_cursor C cur | None \<Rightarrow> zeroed C) (\<lambda>tb.
     rbind (if buf_len (aad c) \<noteq> 0 then Inr (aad c)
            else case a of Some cur \<Rightarrow> copy_cursor C cur | None \<Rightarrow> Inr (aad c)) (\<lambda>ab.
     rbind (if buf_len (working_mac_buffer (cipher_impl c)) \<noteq> 0 then Inr (working_mac_buffer (cipher_impl c))
            else zeroed C) (\<lambda>mb.
     Inr (on_impl (\<lambda>i. i\<lparr>working_mac_buffer := mb\<rparr>) (c\<lparr>ctag := tb, aad := ab\<rparr>)))))"

text \<open>The last part of \<open>s_initialize_cipher_materials\<close>: the vector is set on the key, or the
  authentication info is created.\<close>

definition set_up_mode :: "('a, 'k) cng_api \<Rightarrow> bool \<Rightarrow> 'k \<Rightarrow> ('a, 'k) bcrypt_cipher \<Rightarrow>
    unit result \<times> ('a, 'k) bcrypt_cipher" where
  "set_up_mode N is_gcm h c =
     (if \<not> is_gcm \<and> buf_len (iv c) \<noteq> 0 then
        (case buf_mem (iv c) (ulong (buf_len (iv c))) of
           Inl f \<Rightarrow> (Inl f, c)
         | Inr v \<Rightarrow> (case BCryptSetProperty_iv N h v of
               (True, h') \<Rightarrow> (Inr (), set_key_handle (Some h') c)
             | (False, h') \<Rightarrow> (Inl (Raised AWS_ERROR_INVALID_ARGUMENT),
                              (set_key_handle (Some h') c)\<lparr>cipher_good := False\<rparr>)))
      else if is_gcm then
        (Inr (), on_impl (\<lambda>i. i\<lparr>auth_info_ptr := Some
           \<lparr>cbNonce = ulong (buf_len (iv c)), cbTag = ulong (buf_len (ctag c)),
            cbMacContext = ulong (buf_len (working_mac_buffer i)),
            cbAuthData = (if buf_len (aad c) \<noteq> 0 then ulong (buf_len (aad c)) else 0),
            chain_calls = True\<rparr>\<rparr>) c)
      else (Inr (), c))"

definition s_initialize_cipher_materials :: "aws_common \<Rightarrow> ('a, 'k) cng_api \<Rightarrow> ('a, 'k) bcrypt_cipher \<Rightarrow>
    aws_byte_cursor option \<Rightarrow> aws_byte_cursor option \<Rightarrow> aws_byte_cursor option \<Rightarrow> aws_byte_cursor option \<Rightarrow>
    nat \<Rightarrow> bool \<Rightarrow> bool \<Rightarrow> unit result \<times> ('a, 'k) bcrypt_cipher" where
  "s_initialize_cipher_materials C N c k v t a iv_size is_ctr_mode is_gcm =
     (case rbind (if buf_len (key c) \<noteq> 0 then Inr (key c) else key_material C k) (\<lambda>kb.
           rbind (if buf_len (iv c) \<noteq> 0 \<or> iv_size = 0 then Inr (iv c) else iv_material C iv_size is_ctr_mode v) (\<lambda>vb.
           (if is_gcm then gcm_materials C t a else Inr) (c\<lparr>key := kb, iv := vb\<rparr>))) of
        Inl f \<Rightarrow> (Inl f, c)
      | Inr c \<Rightarrow> (case s_import_key_blob C N (alg_handle (cipher_impl c)) (key c) of
            Inl f \<Rightarrow> (Inl f, (set_key_handle None c)\<lparr>cipher_good := False\<rparr>)
          | Inr h \<Rightarrow> set_up_mode N is_gcm h (set_padding False (set_key_handle (Some h) c))))"

definition s_clear_reusable_components :: "aws_common \<Rightarrow> ('a, 'k) bcrypt_cipher \<Rightarrow> ('a, 'k) bcrypt_cipher" where
  "s_clear_reusable_components C = on_impl (\<lambda>i.
     i\<lparr>working_iv := (if iv_shared i then working_iv i else aws_byte_buf_secure_zero C (working_iv i)),
       key_handle := None, auth_info_ptr := None,
       overflow := aws_byte_buf_secure_zero C (overflow i),
       working_mac_buffer := (aws_byte_buf_secure_zero C (working_mac_buffer i))
         \<lparr>buf_len := AWS_AES_256_CIPHER_BLOCK_SIZE\<rparr>\<rparr>)"

definition s_reset_cbc_cipher :: "aws_common \<Rightarrow> ('a, 'k) cng_api \<Rightarrow> ('a, 'k) bcrypt_cipher \<Rightarrow>
    unit result \<times> ('a, 'k) bcrypt_cipher" where
  "s_reset_cbc_cipher C N c = s_initialize_cipher_materials C N (s_clear_reusable_components C c)
     None None None None AWS_AES_256_CIPHER_BLOCK_SIZE False False"

definition s_reset_ctr_cipher :: "aws_common \<Rightarrow> ('a, 'k) cng_api \<Rightarrow> ('a, 'k) bcrypt_cipher \<Rightarrow>
    unit result \<times> ('a, 'k) bcrypt_cipher" where
  "s_reset_ctr_cipher C N c =
     (let c = s_clear_reusable_components C c in
      case append_ignoring C (working_iv (cipher_impl c)) (aws_byte_cursor_from_buf (iv c)) of
        Inl f \<Rightarrow> (Inl f, c)
      | Inr w \<Rightarrow> s_initialize_cipher_materials C N (set_working_iv w c) None None None None
                   AWS_AES_256_CIPHER_BLOCK_SIZE True False)"

definition s_reset_gcm_cipher :: "aws_common \<Rightarrow> ('a, 'k) cng_api \<Rightarrow> ('a, 'k) bcrypt_cipher \<Rightarrow>
    unit result \<times> ('a, 'k) bcrypt_cipher" where
  "s_reset_gcm_cipher C N c = s_initialize_cipher_materials C N (s_clear_reusable_components C c)
     None None None None (AWS_AES_256_CIPHER_BLOCK_SIZE - 4) False True"

section \<open>Running CNG\<close>

text \<open>A call of CNG that writes behind the contents of \<open>out\<close>. Without a key handle it fails.\<close>

definition bcrypt_plain :: "('k \<Rightarrow> bytes \<Rightarrow> bool \<Rightarrow> nat \<Rightarrow> bool \<times> bytes \<times> 'k) \<Rightarrow> bytes \<Rightarrow> ('a, 'k) bcrypt_op" where
  "bcrypt_plain crypt bs c out = (case key_handle (cipher_impl c) of
       None \<Rightarrow> (Inl (Raised AWS_ERROR_INVALID_ARGUMENT), c\<lparr>cipher_good := False\<rparr>, out)
     | Some h \<Rightarrow> (case crypt h bs (block_padding (cipher_impl c)) (ulong (buf_room out)) of
           (False, _, h') \<Rightarrow>
             (Inl (Raised AWS_ERROR_INVALID_ARGUMENT), (set_key_handle (Some h') c)\<lparr>cipher_good := False\<rparr>, out)
         | (True, w, h') \<Rightarrow> (case poke out w of
               Inl f \<Rightarrow> (Inl f, set_key_handle (Some h') c, out)
             | Inr out' \<Rightarrow> (Inr (), set_key_handle (Some h') c, add_len (length w) out'))))"

definition auth_args :: "auth_mode_info \<Rightarrow> ('a, 'k) bcrypt_cipher \<Rightarrow> auth_call result" where
  "auth_args a c =
     rbind (buf_mem (iv c) (cbNonce a)) (\<lambda>n.
     rbind (buf_mem (ctag c) (cbTag a)) (\<lambda>t.
     rbind (buf_mem (working_mac_buffer (cipher_impl c)) (cbMacContext a)) (\<lambda>mac.
     rbind (buf_mem (aad c) (cbAuthData a)) (\<lambda>d.
     rbind (buf_mem (working_iv (cipher_impl c)) (ulong (capacity (working_iv (cipher_impl c))))) (\<lambda>v.
     Inr \<lparr>pbNonce = n, pbTag = t, pbMacContext = mac, pbAuthData = d, pbIV = v, chained = chain_calls a\<rparr>)))))"

definition bcrypt_auth :: "('k \<Rightarrow> bytes \<Rightarrow> auth_call \<Rightarrow> nat \<Rightarrow> bool \<times> bytes \<times> (bytes \<times> bytes \<times> bytes) \<times> 'k) \<Rightarrow>
    auth_mode_info \<Rightarrow> bytes \<Rightarrow> ('a, 'k) bcrypt_op" where
  "bcrypt_auth crypt a bs c out = (case key_handle (cipher_impl c) of
       None \<Rightarrow> (Inl (Raised AWS_ERROR_INVALID_ARGUMENT), c\<lparr>cipher_good := False\<rparr>, out)
     | Some h \<Rightarrow> (case auth_args a c of
           Inl f \<Rightarrow> (Inl f, c, out)
         | Inr args \<Rightarrow> (case crypt h bs args (ulong (buf_room out)) of
               (False, _, _, h') \<Rightarrow>
                 (Inl (Raised AWS_ERROR_INVALID_ARGUMENT), (set_key_handle (Some h') c)\<lparr>cipher_good := False\<rparr>, out)
             | (True, w, (t, mac, v), h') \<Rightarrow>
                 (case rbind (store_mem (ctag c) t) (\<lambda>tb.
                       rbind (store_mem (working_mac_buffer (cipher_impl c)) mac) (\<lambda>mb.
                       rbind (store_mem (working_iv (cipher_impl c)) v) (\<lambda>vb.
                       rbind (poke out w) (\<lambda>out'. Inr (tb, mb, vb, out'))))) of
                    Inl f \<Rightarrow> (Inl f, c, out)
                  | Inr (tb, mb, vb, out') \<Rightarrow>
                      (Inr (), on_impl (\<lambda>i. i\<lparr>key_handle := Some h', working_mac_buffer := mb, working_iv := vb\<rparr>)
                                 (c\<lparr>ctag := tb\<rparr>), add_len (length w) out')))))"

definition s_aes_default_encrypt :: "aws_common \<Rightarrow> ('a, 'k) cng_api \<Rightarrow> aws_byte_cursor \<Rightarrow> ('a, 'k) bcrypt_op" where
  "s_aes_default_encrypt C N to_encrypt c out =
     (if cur_len to_encrypt = 0 then (Inr (), c, out)
      else let n = cur_len to_encrypt;
               predicted_write_length = (if block_padding (cipher_impl c)
                 then n + (AWS_AES_256_CIPHER_BLOCK_SIZE - n mod AWS_AES_256_CIPHER_BLOCK_SIZE) else n)
           in case aws_symmetric_cipher_try_ensure_sufficient_buffer_space C out predicted_write_length of
                Inl f \<Rightarrow> (Inl (reraise AWS_ERROR_SHORT_BUFFER f), c, out)
              | Inr out \<Rightarrow> (case bytes_at (ptr to_encrypt) n of
                    Inl f \<Rightarrow> (Inl f, c, out)
                  | Inr bs \<Rightarrow> (case auth_info_ptr (cipher_impl c) of
                        None \<Rightarrow> bcrypt_plain (BCryptEncrypt N) bs c out
                      | Some a \<Rightarrow> bcrypt_auth (BCryptEncrypt_auth N) a bs c out)))"

definition s_default_aes_decrypt :: "aws_common \<Rightarrow> ('a, 'k) cng_api \<Rightarrow> aws_byte_cursor \<Rightarrow> ('a, 'k) bcrypt_op" where
  "s_default_aes_decrypt C N to_decrypt c out =
     (if cur_len to_decrypt = 0 then (Inr (), c, out)
      else case aws_symmetric_cipher_try_ensure_sufficient_buffer_space C out (cur_len to_decrypt) of
                Inl f \<Rightarrow> (Inl (reraise AWS_ERROR_SHORT_BUFFER f), c, out)
              | Inr out \<Rightarrow> (case bytes_at (ptr to_decrypt) (cur_len to_decrypt) of
                    Inl f \<Rightarrow> (Inl f, c, out)
                  | Inr bs \<Rightarrow> (case auth_info_ptr (cipher_impl c) of
                        None \<Rightarrow> bcrypt_plain (BCryptDecrypt N) bs c out
                      | Some a \<Rightarrow> bcrypt_auth (BCryptDecrypt_auth N) a bs c out)))"

section \<open>CBC\<close>

abbreviation RESERVE_SIZE :: nat where "RESERVE_SIZE \<equiv> AWS_AES_256_CIPHER_BLOCK_SIZE * 2"

text \<open>The overflow followed by the new input, in a buffer of its own.\<close>

definition prepend_overflow :: "aws_common \<Rightarrow> aws_byte_buf \<Rightarrow> aws_byte_cursor \<Rightarrow> aws_byte_buf result" where
  "prepend_overflow C ov cur = rbind (copy_cursor C (aws_byte_cursor_from_buf ov)) (\<lambda>b. append_ignoring C b cur)"

definition s_fill_in_overflow :: "aws_common \<Rightarrow> aws_byte_cursor \<Rightarrow> ('a, 'k) bcrypt_cipher \<Rightarrow>
    aws_byte_buf result \<times> ('a, 'k) bcrypt_cipher" where
  "s_fill_in_overflow C to_operate c =
     (let c = set_padding False c; ov = overflow (cipher_impl c) in
      case (if buf_len ov > 0
            then rbind (prepend_overflow C ov to_operate) (\<lambda>b. Inr (b, aws_byte_buf_secure_zero C ov))
            else rbind (copy_cursor C to_operate) (\<lambda>b. Inr (b, ov))) of
        Inl f \<Rightarrow> (Inl f, c)
      | Inr (final, ov) \<Rightarrow>
          if buf_len final > RESERVE_SIZE then
            let n = buf_len final mod RESERVE_SIZE;
                offset = (if n = 0 then RESERVE_SIZE else n);
                slice = snd (aws_byte_cursor_advance C (aws_byte_cursor_from_buf final) (buf_len final - offset))
            in (case append_ignoring C ov slice of
                  Inl f \<Rightarrow> (Inl f, set_overflow ov c)
                | Inr ov' \<Rightarrow> (Inr (final\<lparr>buf_len := buf_len final - offset\<rparr>), set_overflow ov' c))
          else (case append_ignoring C ov (aws_byte_cursor_from_buf final) of
                  Inl f \<Rightarrow> (Inl f, set_overflow ov c)
                | Inr ov' \<Rightarrow> (Inr zero_buf, set_overflow ov' c)))"

definition s_aes_cbc_encrypt :: "aws_common \<Rightarrow> ('a, 'k) cng_api \<Rightarrow> aws_byte_cursor \<Rightarrow> ('a, 'k) bcrypt_op" where
  "s_aes_cbc_encrypt C N to_encrypt c out = (case s_fill_in_overflow C to_encrypt c of
       (Inl f, c) \<Rightarrow> (Inl f, c, out)
     | (Inr final, c) \<Rightarrow> s_aes_default_encrypt C N (aws_byte_cursor_from_buf final) c out)"

definition s_aes_cbc_decrypt :: "aws_common \<Rightarrow> ('a, 'k) cng_api \<Rightarrow> aws_byte_cursor \<Rightarrow> ('a, 'k) bcrypt_op" where
  "s_aes_cbc_decrypt C N to_decrypt c out = (case s_fill_in_overflow C to_decrypt c of
       (Inl f, c) \<Rightarrow> (Inl f, c, out)
     | (Inr final, c) \<Rightarrow> s_default_aes_decrypt C N (aws_byte_cursor_from_buf final) c out)"

text \<open>Zeroing the overflow after an operation.\<close>

definition zero_overflow :: "aws_common \<Rightarrow> ('a, 'k) bcrypt_cipher \<Rightarrow> ('a, 'k) bcrypt_cipher" where
  "zero_overflow C = on_impl (\<lambda>i. i\<lparr>overflow := aws_byte_buf_secure_zero C (overflow i)\<rparr>)"

definition s_aes_cbc_finalize_encryption :: "aws_common \<Rightarrow> ('a, 'k) cng_api \<Rightarrow> ('a, 'k) bcrypt_op" where
  "s_aes_cbc_finalize_encryption C N c out =
     (if cipher_good c \<and> buf_len (overflow (cipher_impl c)) > 0 then
        (case s_aes_default_encrypt C N (aws_byte_cursor_from_buf (overflow (cipher_impl c))) (set_padding True c) out of
           (r, c, out) \<Rightarrow> (r, zero_overflow C c, out))
      else (Inr (), c, out))"

definition s_aes_cbc_finalize_decryption :: "aws_common \<Rightarrow> ('a, 'k) cng_api \<Rightarrow> ('a, 'k) bcrypt_op" where
  "s_aes_cbc_finalize_decryption C N c out =
     (if cipher_good c \<and> buf_len (overflow (cipher_impl c)) > 0 then
        (case s_default_aes_decrypt C N (aws_byte_cursor_from_buf (overflow (cipher_impl c))) (set_padding True c) out of
           (r, c, out) \<Rightarrow> (r, zero_overflow C c, out))
      else (Inr (), c, out))"

definition s_aes_cbc_vtable :: "aws_common \<Rightarrow> ('a, 'k) cng_api \<Rightarrow> ('a, 'k) aes_bcrypt_cipher aws_symmetric_cipher_vtable" where
  "s_aes_cbc_vtable C N = \<lparr>vt_reset = s_reset_cbc_cipher C N, vt_encrypt = s_aes_cbc_encrypt C N,
     vt_decrypt = s_aes_cbc_decrypt C N, vt_finalize_encryption = s_aes_cbc_finalize_encryption C N,
     vt_finalize_decryption = s_aes_cbc_finalize_decryption C N\<rparr>"

text \<open>A structure from \<open>aws_mem_calloc\<close>.\<close>

definition calloc_cipher :: "'a \<Rightarrow> nat \<Rightarrow> ('a, 'k) bcrypt_cipher" where
  "calloc_cipher alg bs = \<lparr>iv = zero_buf, key = zero_buf, aad = zero_buf, ctag = zero_buf, block_size = bs,
     key_length_bits = AWS_AES_256_KEY_BIT_LEN, cipher_good = False,
     cipher_impl = \<lparr>alg_handle = alg, key_handle = None, auth_info_ptr = None, block_padding = False,
       overflow = zero_buf, working_iv = zero_buf, iv_shared = True, working_mac_buffer = zero_buf\<rparr>\<rparr>"

definition bcrypt_cbc_256_new_impl :: "aws_common \<Rightarrow> ('a, 'k) cng_api \<Rightarrow> 'a alg_handles \<Rightarrow>
    aws_byte_cursor option \<Rightarrow> aws_byte_cursor option \<Rightarrow> ('a, 'k) bcrypt_cipher result" where
  "bcrypt_cbc_256_new_impl C N H k v =
     (case s_initialize_cipher_materials C N
             (calloc_cipher (s_aes_cbc_algorithm_handle H) AWS_AES_256_CIPHER_BLOCK_SIZE) k v None None
             AWS_AES_256_CIPHER_BLOCK_SIZE False False of
        (Inl f, _) \<Rightarrow> Inl f
      | (Inr _, c) \<Rightarrow> rbind (or_zero (aws_byte_buf_init C (AWS_AES_256_CIPHER_BLOCK_SIZE * 2))) (\<lambda>ov.
          Inr ((on_impl (\<lambda>i. i\<lparr>overflow := ov, working_iv := (iv c)\<lparr>allocator := False\<rparr>, iv_shared := True\<rparr>) c)
                 \<lparr>cipher_good := True\<rparr>)))"

text \<open>The other constructors call \<open>s_aes_default_destroy\<close> on their error path, before the pointer to the implementation has been
  set, so that the destructor dereferences a null pointer.\<close>

definition destroy_without_impl :: "failure \<Rightarrow> failure" where
  "destroy_without_impl f = (case f of Raised _ \<Rightarrow> Undefined Null_deref | _ \<Rightarrow> f)"

section \<open>GCM\<close>

text \<open>Encryption and decryption buffer their input in the same way: all of it up to a block,
  otherwise all but the last block and what follows it.\<close>

definition gcm_feed :: "aws_common \<Rightarrow> (aws_byte_cursor \<Rightarrow> ('a, 'k) bcrypt_op) \<Rightarrow> aws_byte_cursor \<Rightarrow> ('a, 'k) bcrypt_op" where
  "gcm_feed C crypt inp c out =
     (if cur_len inp = 0 then (Inr (), c, out)
      else let ov = overflow (cipher_impl c) in
        case (if buf_len ov \<noteq> 0 then rbind (prepend_overflow C ov inp) (\<lambda>b. Inr (b, aws_byte_buf_reset C ov True))
              else rbind (copy_cursor C inp) (\<lambda>b. Inr (b, ov))) of
          Inl f \<Rightarrow> (Inl f, c, out)
        | Inr (working, ov) \<Rightarrow>
            if buf_len working > AWS_AES_256_CIPHER_BLOCK_SIZE then
              let offset = buf_len working mod AWS_AES_256_CIPHER_BLOCK_SIZE;
                  seek_to = buf_len working - (AWS_AES_256_CIPHER_BLOCK_SIZE + offset)
              in (case aws_byte_cursor_advance C (aws_byte_cursor_from_buf working) seek_to of
                    (working_slice, rest) \<Rightarrow> (case append_ignoring C ov rest of
                        Inl f \<Rightarrow> (Inl f, set_overflow ov c, out)
                      | Inr ov' \<Rightarrow> crypt working_slice (set_overflow ov' c) out))
            else (case append_ignoring C ov (aws_byte_cursor_from_buf working) of
                    Inl f \<Rightarrow> (Inl f, set_overflow ov c, out)
                  | Inr ov' \<Rightarrow> (Inr (), set_overflow ov' c, out)))"

definition s_aes_gcm_encrypt :: "aws_common \<Rightarrow> ('a, 'k) cng_api \<Rightarrow> aws_byte_cursor \<Rightarrow> ('a, 'k) bcrypt_op" where
  "s_aes_gcm_encrypt C N = gcm_feed C (s_aes_default_encrypt C N)"

definition s_aes_gcm_decrypt :: "aws_common \<Rightarrow> ('a, 'k) cng_api \<Rightarrow> aws_byte_cursor \<Rightarrow> ('a, 'k) bcrypt_op" where
  "s_aes_gcm_decrypt C N = gcm_feed C (s_default_aes_decrypt C N)"

text \<open>The last call is made with the chaining flag off; then the overflow and the vector are zeroed.\<close>

definition gcm_finalize :: "aws_common \<Rightarrow> (aws_byte_cursor \<Rightarrow> ('a, 'k) bcrypt_op) \<Rightarrow> ('a, 'k) bcrypt_op" where
  "gcm_finalize C crypt c out = (case auth_info_ptr (cipher_impl c) of
       None \<Rightarrow> (Inl (Undefined Null_deref), c, out)
     | Some a \<Rightarrow>
         (case crypt (aws_byte_cursor_from_buf (overflow (cipher_impl c)))
                 (on_impl (\<lambda>i. i\<lparr>auth_info_ptr := Some (a\<lparr>chain_calls := False\<rparr>)\<rparr>) c) out of
            (r, c, out) \<Rightarrow>
              (r, on_impl (\<lambda>i. i\<lparr>working_iv := aws_byte_buf_secure_zero C (working_iv i)\<rparr>) (zero_overflow C c), out)))"

definition s_aes_gcm_finalize_encryption :: "aws_common \<Rightarrow> ('a, 'k) cng_api \<Rightarrow> ('a, 'k) bcrypt_op" where
  "s_aes_gcm_finalize_encryption C N = gcm_finalize C (s_aes_default_encrypt C N)"

definition s_aes_gcm_finalize_decryption :: "aws_common \<Rightarrow> ('a, 'k) cng_api \<Rightarrow> ('a, 'k) bcrypt_op" where
  "s_aes_gcm_finalize_decryption C N = gcm_finalize C (s_default_aes_decrypt C N)"

definition s_aes_gcm_vtable :: "aws_common \<Rightarrow> ('a, 'k) cng_api \<Rightarrow> ('a, 'k) aes_bcrypt_cipher aws_symmetric_cipher_vtable" where
  "s_aes_gcm_vtable C N = \<lparr>vt_reset = s_reset_gcm_cipher C N, vt_encrypt = s_aes_gcm_encrypt C N,
     vt_decrypt = s_aes_gcm_decrypt C N, vt_finalize_encryption = s_aes_gcm_finalize_encryption C N,
     vt_finalize_decryption = s_aes_gcm_finalize_decryption C N\<rparr>"

definition bcrypt_gcm_256_new_impl :: "aws_common \<Rightarrow> ('a, 'k) cng_api \<Rightarrow> 'a alg_handles \<Rightarrow>
    aws_byte_cursor option \<Rightarrow> aws_byte_cursor option \<Rightarrow> aws_byte_cursor option \<Rightarrow> aws_byte_cursor option \<Rightarrow>
    ('a, 'k) bcrypt_cipher result" where
  "bcrypt_gcm_256_new_impl C N H k v a decryption_tag =
     (case s_initialize_cipher_materials C N
             (calloc_cipher (s_aes_gcm_algorithm_handle H) AWS_AES_256_CIPHER_BLOCK_SIZE) k v decryption_tag a
             (AWS_AES_256_CIPHER_BLOCK_SIZE - 4) False True of
        (Inl f, _) \<Rightarrow> Inl (destroy_without_impl f)
      | (Inr _, c) \<Rightarrow>
          rbind (or_zero (aws_byte_buf_init C (AWS_AES_256_CIPHER_BLOCK_SIZE * 2))) (\<lambda>ov.
          rbind (or_zero (aws_byte_buf_init C AWS_AES_256_CIPHER_BLOCK_SIZE)) (\<lambda>w.
          Inr ((on_impl (\<lambda>i. i\<lparr>overflow := ov, working_iv := aws_byte_buf_secure_zero C w, iv_shared := False\<rparr>) c)
                 \<lparr>cipher_good := True\<rparr>))))"

section \<open>CTR\<close>

definition s_xor_cursors :: "aws_common \<Rightarrow> aws_byte_cursor \<Rightarrow> aws_byte_cursor \<Rightarrow> aws_byte_buf \<Rightarrow> aws_byte_buf result" where
  "s_xor_cursors C a b dest =
     (let min_size = min (cur_len b) (cur_len a) in
      case aws_symmetric_cipher_try_ensure_sufficient_buffer_space C dest min_size of
        Inl f \<Rightarrow> Inl (reraise AWS_ERROR_SHORT_BUFFER f)
      | Inr dest \<Rightarrow>
          rbind (bytes_at (ptr a) min_size) (\<lambda>x.
          rbind (bytes_at (ptr b) min_size) (\<lambda>y.
          rbind (poke dest (map2 (XOR) x y)) (\<lambda>dest'. Inr (add_len min_size dest')))))"

text \<open>One slice per block, pushed on an array list whose errors are ignored.\<close>

primrec slice_loop :: "aws_common \<Rightarrow> aws_byte_cursor array_list_ops \<Rightarrow> nat \<Rightarrow> aws_byte_cursor \<Rightarrow>
    aws_byte_cursor array_list \<Rightarrow> aws_byte_cursor array_list result" where
  "slice_loop C L 0 cur l = Inl Out_of_fuel"
| "slice_loop C L (Suc fuel) cur l =
     (if cur_len cur = 0 then Inr l
      else let (slice, rest) =
             (if cur_len cur \<ge> AWS_AES_256_CIPHER_BLOCK_SIZE
              then aws_byte_cursor_advance C cur AWS_AES_256_CIPHER_BLOCK_SIZE
              else (cur, snd (aws_byte_cursor_advance C cur (cur_len cur))))
           in slice_loop C L fuel rest
                (case aws_array_list_push_back L l slice of Inl _ \<Rightarrow> l | Inr l' \<Rightarrow> l'))"

text \<open>The counter in the last four bytes of the vector, incremented with a check.\<close>

definition increment_counter :: "aws_common \<Rightarrow> aws_byte_buf \<Rightarrow> aws_byte_buf option" where
  "increment_counter C w =
     (let counter_offset = AWS_AES_256_CIPHER_BLOCK_SIZE - 4;
          counter_cur = snd (aws_byte_cursor_advance C (aws_byte_cursor_from_buf w) counter_offset);
          counter = (case aws_byte_cursor_read_be32 C counter_cur of None \<Rightarrow> 0 | Some (n, _) \<Rightarrow> n)
      in case aws_add_u32_checked C counter 1 of
           None \<Rightarrow> None
         | Some n \<Rightarrow> Some (case aws_byte_buf_write_be32 C (w\<lparr>buf_len := counter_offset\<rparr>) n of
               None \<Rightarrow> w | Some b \<Rightarrow> w\<lparr>buffer := buffer b\<rparr>))"

text \<open>The loop body for one slice. \<open>cnt\<close> is the number of slices; \<open>aws_add_u32_checked\<close> raises the
  error of an overflow.\<close>

definition ctr_slice :: "aws_common \<Rightarrow> ('a, 'k) cng_api \<Rightarrow> nat \<Rightarrow> aws_byte_cursor \<Rightarrow> ('a, 'k) bcrypt_op" where
  "ctr_slice C N cnt cur c out =
     (let i = cipher_impl c in
      if cur_len cur = AWS_AES_256_CIPHER_BLOCK_SIZE \<or> (buf_len (overflow i) > 0 \<and> cnt \<noteq> 0) then
        (case buf_mem (working_iv i) (ulong (buf_len (working_iv i))) of
           Inl f \<Rightarrow> (Inl f, c, out)
         | Inr v \<Rightarrow>
             (case (case key_handle i of None \<Rightarrow> (False, [], None)
                    | Some h \<Rightarrow> (case BCryptEncrypt N h v (block_padding i) AWS_AES_256_CIPHER_BLOCK_SIZE of
                        (ok, w, h') \<Rightarrow> (ok, w, Some h'))) of
                (False, _, h) \<Rightarrow>
                  (Inl (Raised AWS_ERROR_INVALID_ARGUMENT), (set_key_handle h c)\<lparr>cipher_good := False\<rparr>, out)
              | (True, w, h) \<Rightarrow>
                  if length w > AWS_AES_256_CIPHER_BLOCK_SIZE then (Inl (Undefined Out_of_bounds), c, out)
                  else (case s_xor_cursors C cur (cursor_of (overwrite 0 w (replicate AWS_AES_256_CIPHER_BLOCK_SIZE 0))) out of
                          Inl f \<Rightarrow> (Inl f, set_key_handle h c, out)
                        | Inr out' \<Rightarrow> (case increment_counter C (working_iv i) of
                              None \<Rightarrow> (Inl (Raised AWS_ERROR_OVERFLOW_DETECTED), (set_key_handle h c)\<lparr>cipher_good := False\<rparr>, out')
                            | Some v' \<Rightarrow> (Inr (), set_working_iv v' (set_key_handle h c), out')))))
      else (case append_ignoring C (overflow i) cur of
              Inl f \<Rightarrow> (Inl f, c, out)
            | Inr ov \<Rightarrow> (Inr (), set_overflow ov c, out)))"

primrec ctr_loop :: "aws_common \<Rightarrow> ('a, 'k) cng_api \<Rightarrow> nat \<Rightarrow> aws_byte_cursor list \<Rightarrow> ('a, 'k) bcrypt_op" where
  "ctr_loop C N cnt [] c out = (Inr (), c, out)"
| "ctr_loop C N cnt (cur # curs) c out = (case ctr_slice C N cnt cur c out of
       (Inl f, c, out) \<Rightarrow> (Inl f, c, out)
     | (Inr _, c, out) \<Rightarrow> ctr_loop C N cnt curs c out)"

text \<open>
  \<open>from_overflow\<close> says whether \<open>to_encrypt\<close> points into the overflow buffer, as in the finalize call.
  The slices are read back from the array list by index. With no slice at all \<open>ret_val\<close> would be
  AWS_OP_ERR; the loop above makes at least one slice when there is input.
\<close>

definition ctr_crypt :: "aws_common \<Rightarrow> ('a, 'k) cng_api \<Rightarrow> aws_byte_cursor array_list_ops \<Rightarrow> bool \<Rightarrow>
    aws_byte_cursor \<Rightarrow> ('a, 'k) bcrypt_op" where
  "ctr_crypt C N L from_overflow to_encrypt c out =
     (if cur_len to_encrypt = 0 then (Inr (), c, out)
      else let ov = overflow (cipher_impl c) in
        case (if buf_len ov \<noteq> 0 \<and> \<not> from_overflow
              then rbind (prepend_overflow C ov to_encrypt) (\<lambda>b. Inr (b, aws_byte_buf_reset C ov True))
              else rbind (copy_cursor C to_encrypt) (\<lambda>b. Inr (b, ov))) of
          Inl f \<Rightarrow> (Inl f, c, out)
        | Inr (working, ov) \<Rightarrow>
            (case rbind (aws_array_list_init_dynamic L (cur_len to_encrypt div AWS_AES_256_CIPHER_BLOCK_SIZE + 1))
                    (slice_loop C L (Suc (buf_len working)) (aws_byte_cursor_from_buf working)) of
               Inl f \<Rightarrow> (Inl f, set_overflow ov c, out)
             | Inr l \<Rightarrow>
                 let cnt = length (al_items l)
                 in if cnt = 0 then (Inl (Raised AWS_ERROR_SUCCESS), set_overflow ov c, out)
                    else ctr_loop C N cnt
                      (map (\<lambda>i. case aws_array_list_get_at L l i of Inl _ \<Rightarrow> null_cursor | Inr s \<Rightarrow> s) [0..<cnt])
                      (set_overflow ov c) out))"

definition s_aes_ctr_encrypt :: "aws_common \<Rightarrow> ('a, 'k) cng_api \<Rightarrow> aws_byte_cursor array_list_ops \<Rightarrow>
    aws_byte_cursor \<Rightarrow> ('a, 'k) bcrypt_op" where
  "s_aes_ctr_encrypt C N L = ctr_crypt C N L False"

definition s_aes_ctr_finalize_encryption :: "aws_common \<Rightarrow> ('a, 'k) cng_api \<Rightarrow> aws_byte_cursor array_list_ops \<Rightarrow>
    ('a, 'k) bcrypt_op" where
  "s_aes_ctr_finalize_encryption C N L c out =
     (case ctr_crypt C N L True (aws_byte_cursor_from_buf (overflow (cipher_impl c))) c out of
        (r, c, out) \<Rightarrow>
          (r, on_impl (\<lambda>i. i\<lparr>working_iv := aws_byte_buf_secure_zero C (working_iv i)\<rparr>) (zero_overflow C c), out))"

definition s_aes_ctr_vtable :: "aws_common \<Rightarrow> ('a, 'k) cng_api \<Rightarrow> aws_byte_cursor array_list_ops \<Rightarrow>
    ('a, 'k) aes_bcrypt_cipher aws_symmetric_cipher_vtable" where
  "s_aes_ctr_vtable C N L = \<lparr>vt_reset = s_reset_ctr_cipher C N, vt_encrypt = s_aes_ctr_encrypt C N L,
     vt_decrypt = s_aes_ctr_encrypt C N L, vt_finalize_encryption = s_aes_ctr_finalize_encryption C N L,
     vt_finalize_decryption = s_aes_ctr_finalize_encryption C N L\<rparr>"

definition bcrypt_ctr_256_new_impl :: "aws_common \<Rightarrow> ('a, 'k) cng_api \<Rightarrow> 'a alg_handles \<Rightarrow>
    aws_byte_cursor option \<Rightarrow> aws_byte_cursor option \<Rightarrow> ('a, 'k) bcrypt_cipher result" where
  "bcrypt_ctr_256_new_impl C N H k v =
     (case s_initialize_cipher_materials C N
             (calloc_cipher (s_aes_ctr_algorithm_handle H) AWS_AES_256_CIPHER_BLOCK_SIZE) k v None None
             AWS_AES_256_CIPHER_BLOCK_SIZE True False of
        (Inl f, _) \<Rightarrow> Inl (destroy_without_impl f)
      | (Inr _, c) \<Rightarrow>
          rbind (or_zero (aws_byte_buf_init C (AWS_AES_256_CIPHER_BLOCK_SIZE * 2))) (\<lambda>ov.
          rbind (copy_cursor C (aws_byte_cursor_from_buf (iv c))) (\<lambda>w.
          Inr ((on_impl (\<lambda>i. i\<lparr>overflow := ov, working_iv := w, iv_shared := False\<rparr>) c)\<lparr>cipher_good := True\<rparr>))))"

section \<open>Key wrap\<close>

definition bcrypt_key_wrap_encrypt_decrypt :: "aws_common \<Rightarrow> aws_byte_cursor \<Rightarrow> ('a, 'k) bcrypt_op" where
  "bcrypt_key_wrap_encrypt_decrypt C inp c out =
     (case rbind (bytes_at (ptr inp) (cur_len inp)) (aws_byte_buf_append_dynamic C (overflow (cipher_impl c))) of
        Inl f \<Rightarrow> (Inl f, c, out)
      | Inr ov \<Rightarrow> (Inr (), set_overflow ov c, out))"

text \<open>The collected bytes are imported as a key, which is exported wrapped by the cipher's key.\<close>

definition s_keywrap_finalize_encryption :: "aws_common \<Rightarrow> ('a, 'k) cng_api \<Rightarrow> 'a alg_handles \<Rightarrow> ('a, 'k) bcrypt_op" where
  "s_keywrap_finalize_encryption C N H c out =
     (case s_import_key_blob C N (s_aes_keywrap_algorithm_handle H) (overflow (cipher_impl c)) of
        Inl f \<Rightarrow> (Inl f, c, out)
      | Inr kh \<Rightarrow> (case key_handle (cipher_impl c) of
            None \<Rightarrow> (Inl (Raised AWS_ERROR_INVALID_STATE), c\<lparr>cipher_good := False\<rparr>, out)
          | Some wrapping \<Rightarrow> (case BCryptExportKey_wrap_size N kh wrapping of
                None \<Rightarrow> (Inl (Raised AWS_ERROR_INVALID_STATE), c\<lparr>cipher_good := False\<rparr>, out)
              | Some output_size \<Rightarrow>
                  (case aws_symmetric_cipher_try_ensure_sufficient_buffer_space C out output_size of
                     Inl f \<Rightarrow> (Inl f, c, out)
                   | Inr out \<Rightarrow> (case BCryptExportKey_wrap N kh wrapping output_size of
                         None \<Rightarrow> (Inl (Raised AWS_ERROR_SUCCESS), c\<lparr>cipher_good := False\<rparr>, out)
                       | Some w \<Rightarrow> (case poke out w of
                             Inl f \<Rightarrow> (Inl f, c, out)
                           | Inr out' \<Rightarrow> (Inr (), c, add_len (length w) out')))))))"

text \<open>The collected bytes are imported as a wrapped key, which is exported as a plain key: a header
  and the key data.\<close>

definition s_keywrap_finalize_decryption :: "aws_common \<Rightarrow> ('a, 'k) cng_api \<Rightarrow> 'a alg_handles \<Rightarrow> ('a, 'k) bcrypt_op" where
  "s_keywrap_finalize_decryption C N H c out =
     (let ov = overflow (cipher_impl c); header_size = length (key_data_blob_header N 0);
          failed = (Inl (Raised AWS_ERROR_INVALID_ARGUMENT), c\<lparr>cipher_good := False\<rparr>, out) in
      case rbind (buf_mem ov (ulong (buf_len ov))) (\<lambda>bs.
             Inr (case key_handle (cipher_impl c) of None \<Rightarrow> None
                  | Some h \<Rightarrow> BCryptImportKey_wrap N (s_aes_keywrap_algorithm_handle H) h bs)) of
        Inl f \<Rightarrow> (Inl f, c, out)
      | Inr None \<Rightarrow> failed
      | Inr (Some import_key) \<Rightarrow> (case or_zero (aws_byte_buf_init C (header_size + buf_len ov)) of
            Inl f \<Rightarrow> (Inl f, c, out)
          | Inr blob \<Rightarrow> (case BCryptExportKey_data N import_key (ulong (capacity blob)) of
                None \<Rightarrow> failed
              | Some exported \<Rightarrow> (case poke blob exported of
                    Inl f \<Rightarrow> (Inl f, c, out)
                  | Inr blob \<Rightarrow>
                      (case aws_symmetric_cipher_try_ensure_sufficient_buffer_space C out (length exported) of
                         Inl f \<Rightarrow> (Inl f, c, out)
                       | Inr out \<Rightarrow>
                           (case bytes_at (map_option (\<lambda>m. \<lparr>pobj = m, poff = header_size\<rparr>) (buffer blob))
                                   (blob_cbKeyData N exported) of
                              Inl f \<Rightarrow> (Inl f, c, out)
                            | Inr bs \<Rightarrow> (case aws_byte_buf_write C out bs of
                                  None \<Rightarrow> (Inl Fatal, c, out)
                                | Some out' \<Rightarrow> (Inr (), c, out'))))))))"

definition s_reset_keywrap_cipher :: "aws_common \<Rightarrow> ('a, 'k) cng_api \<Rightarrow> ('a, 'k) bcrypt_cipher \<Rightarrow>
    unit result \<times> ('a, 'k) bcrypt_cipher" where
  "s_reset_keywrap_cipher C N c = s_initialize_cipher_materials C N (s_clear_reusable_components C c)
     None None None None 0 False False"

definition s_aes_keywrap_vtable :: "aws_common \<Rightarrow> ('a, 'k) cng_api \<Rightarrow> 'a alg_handles \<Rightarrow>
    ('a, 'k) aes_bcrypt_cipher aws_symmetric_cipher_vtable" where
  "s_aes_keywrap_vtable C N H = \<lparr>vt_reset = s_reset_keywrap_cipher C N,
     vt_encrypt = bcrypt_key_wrap_encrypt_decrypt C, vt_decrypt = bcrypt_key_wrap_encrypt_decrypt C,
     vt_finalize_encryption = s_keywrap_finalize_encryption C N H,
     vt_finalize_decryption = s_keywrap_finalize_decryption C N H\<rparr>"

definition bcrypt_keywrap_256_new_impl :: "aws_common \<Rightarrow> ('a, 'k) cng_api \<Rightarrow> 'a alg_handles \<Rightarrow>
    aws_byte_cursor option \<Rightarrow> ('a, 'k) bcrypt_cipher result" where
  "bcrypt_keywrap_256_new_impl C N H k =
     (case s_initialize_cipher_materials C N (calloc_cipher (s_aes_keywrap_algorithm_handle H) 8) k None None None
             0 False False of
        (Inl f, _) \<Rightarrow> Inl (destroy_without_impl f)
      | (Inr _, c) \<Rightarrow> rbind (or_zero (aws_byte_buf_init C (AWS_AES_256_CIPHER_BLOCK_SIZE * 2 + 8))) (\<lambda>ov.
          Inr ((set_overflow ov c)\<lparr>cipher_good := True\<rparr>)))"

end
