(* ===== verification/Bcrypt_Buffers.thy ===== *)
theory Bcrypt_Buffers
  imports Bcrypt_Aes Cipher_Stream
begin

text \<open>
  The buffering of the ciphers on Windows: what the overflow holds and what is handed to CNG, and
  the set-up of the key materials that the modes share.
\<close>

section \<open>Buffers\<close>

lemma buf_mem_contents: "valid_buf b \<Longrightarrow> buf_mem b (buf_len b) = Inr (contents b)"
  by (auto simp: buf_mem_def bytes_at_def contents_def valid_buf_def split: option.splits)

lemma contents_empty: "valid_buf b \<Longrightarrow> buf_len b = 0 \<Longrightarrow> contents b = []"
  by (metis length_0_conv length_contents)

lemma contents_shorter:
  "valid_buf b \<Longrightarrow> n \<le> buf_len b \<Longrightarrow>
     valid_buf (b\<lparr>buf_len := n\<rparr>) \<and> contents (b\<lparr>buf_len := n\<rparr>) = take n (contents b)"
  by (auto simp: valid_buf_def contents_def min_def split: option.splits)

lemma append_ignoring_ok:
  assumes "common_spec C" and "valid_buf b" and "allocator b" and "bytes_at (ptr cur) (cur_len cur) = Inr bs"
    and "buf_len b + length bs \<le> SIZE_MAX div 2"
  shows "\<exists>b'. append_ignoring C b cur = Inr b' \<and> valid_buf b' \<and> allocator b' \<and> contents b' = contents b @ bs"
  using append_dynamic_law [OF assms(1-3,5)] assms(4) by (auto simp: append_ignoring_def)

lemma prepend_overflow_ok:
  assumes C: "common_spec C" and ov: "valid_buf ov" and b: "bytes_at (ptr cur) (cur_len cur) = Inr bs"
    and len: "buf_len ov + length bs \<le> SIZE_MAX div 2"
  shows "\<exists>b. prepend_overflow C ov cur = Inr b \<and> valid_buf b \<and> contents b = contents ov @ bs"
proof -
  have "length (contents ov) \<le> SIZE_MAX div 2" using length_contents [OF ov] len by linarith
  from copied [OF C bytes_at_from_buf [OF ov] this] obtain x where
      x: "copy_cursor C (aws_byte_cursor_from_buf ov) = Inr x" "valid_buf x" "allocator x" "contents x = contents ov"
        "buf_len x = length (contents ov)" by blast
  have "buf_len x + length bs \<le> SIZE_MAX div 2" using x(5) length_contents [OF ov] len by simp
  from append_ignoring_ok [OF C x(2,3) b this] x(1,4) show ?thesis by (auto simp: prepend_overflow_def)
qed

text \<open>The first step of every feed: the overflow and the new bytes together, and an empty overflow.\<close>

lemma collected:
  assumes C: "common_spec C" and ov: "valid_buf ov" "allocator ov" "contents ov = r"
    and b: "bytes_at (ptr cur) (cur_len cur) = Inr bs" and len: "length r + length bs \<le> SIZE_MAX div 2"
    and z: "valid_buf (Z ov)" "buf_len (Z ov) = 0" "allocator (Z ov)"
  shows "\<exists>w ov'. (if buf_len ov \<noteq> 0 then rbind (prepend_overflow C ov cur) (\<lambda>b. Inr (b, Z ov))
        else rbind (copy_cursor C cur) (\<lambda>b. Inr (b, ov))) = Inr (w, ov') \<and>
      valid_buf w \<and> contents w = r @ bs \<and> valid_buf ov' \<and> contents ov' = [] \<and> allocator ov'"
proof (cases "buf_len ov = 0")
  case True
  have "length bs \<le> SIZE_MAX div 2" using len by linarith
  from copied [OF C b this] True ov length_contents [OF ov(1)] show ?thesis by auto
next
  case False
  have "buf_len ov + length bs \<le> SIZE_MAX div 2" using len ov length_contents [OF ov(1)] by simp
  from prepend_overflow_ok [OF C ov(1) b this] False ov(3) z contents_empty [OF z(1,2)] show ?thesis by auto
qed

section \<open>Filling the overflow\<close>

text \<open>How many of \<open>n\<close> collected bytes are handed to the cipher in CBC mode.\<close>

definition cbc_cut :: "nat \<Rightarrow> nat" where
  "cbc_cut n = (if n > 32 then n - (if n mod 32 = 0 then 32 else n mod 32) else 0)"

lemma cbc_cut_facts:
  "cbc_cut n \<le> n" "n - cbc_cut n \<le> 32" "cbc_cut n mod 32 = 0" "0 < n \<Longrightarrow> cbc_cut n < n"
proof -
  have "n - n mod 32 = 32 * (n div 32)" by (simp add: minus_mod_eq_mult_div)
  moreover have "(n - 32) mod 32 = 0" if "32 < n" "n mod 32 = 0" using that by presburger
  ultimately show "cbc_cut n mod 32 = 0" by (simp add: cbc_cut_def)
  show "n - cbc_cut n \<le> 32" "cbc_cut n \<le> n" "0 < n \<Longrightarrow> cbc_cut n < n"
    using mod_less_divisor [of 32 n] by (auto simp: cbc_cut_def)
qed

lemma cbc_cut_dvd: "16 dvd cbc_cut n"
  using cbc_cut_facts(3) [of n] by presburger

lemma impl_sel [simp]:
  "cipher_impl (on_impl f c) = f (cipher_impl c)" "cipher_good (on_impl f c) = cipher_good c"
  "block_size (on_impl f c) = block_size c" "key (on_impl f c) = key c" "iv (on_impl f c) = iv c"
  "aad (on_impl f c) = aad c" "ctag (on_impl f c) = ctag c" "on_impl f (on_impl g c) = on_impl (f \<circ> g) c"
  by (simp_all add: on_impl_def)

lemma fill_in_overflow:
  assumes C: "common_spec C" and ov: "valid_buf (overflow (cipher_impl c))" "allocator (overflow (cipher_impl c))"
      "contents (overflow (cipher_impl c)) = r"
    and b: "bytes_at (ptr cur) (cur_len cur) = Inr bs" and len: "length r + length bs \<le> SIZE_MAX div 2"
  shows "\<exists>w ov'. s_fill_in_overflow C cur c = (Inr w, set_overflow ov' (set_padding False c)) \<and> valid_buf w \<and>
    contents w = take (cbc_cut (length (r @ bs))) (r @ bs) \<and> valid_buf ov' \<and> allocator ov' \<and>
    contents ov' = drop (cbc_cut (length (r @ bs))) (r @ bs)"
proof -
  let ?ov = "overflow (cipher_impl c)" and ?z = "r @ bs"
  let ?n = "cbc_cut (length ?z)"
  obtain f ov1 where f: "(if buf_len ?ov \<noteq> 0 then rbind (prepend_overflow C ?ov cur) (\<lambda>b. Inr (b, aws_byte_buf_secure_zero C ?ov))
        else rbind (copy_cursor C cur) (\<lambda>b. Inr (b, ?ov))) = Inr (f, ov1)"
      "valid_buf f" "contents f = ?z" "valid_buf ov1" "contents ov1 = []" "allocator ov1"
    using collected [OF C ov b len, of "aws_byte_buf_secure_zero C"] secure_zero_law [OF C ov(1)] ov(2) by auto
  have fl: "buf_len f = length ?z" "buf_len ov1 = 0" using length_contents [OF f(2)] length_contents [OF f(4)] f(3,5) by simp_all
  show ?thesis
  proof (cases "32 < length ?z")
    case True
    have z: "bytes_at (ptr (aws_byte_cursor_from_buf f)) (cur_len (aws_byte_cursor_from_buf f)) = Inr ?z" "length ?z \<le> SIZE_MAX div 2"
      using bytes_at_from_buf [OF f(2)] f(3) len by simp_all
    obtain s t where st: "aws_byte_cursor_advance C (aws_byte_cursor_from_buf f) ?n = (s, t)"
        "bytes_at (ptr t) (cur_len t) = Inr (drop ?n ?z)"
      using advance_bytes [OF C z(1) cbc_cut_facts(1) z(2)] by blast
    have "buf_len ov1 + length (drop ?n ?z) \<le> SIZE_MAX div 2" using fl(2) z(2) by simp
    from append_ignoring_ok [OF C f(4,6) st(2) this] obtain ov' where ov': "append_ignoring C ov1 t = Inr ov'" "valid_buf ov'"
        "allocator ov'" "contents ov' = drop ?n ?z" using f(5) by auto
    let ?w = "f\<lparr>buf_len := ?n\<rparr>"
    have w: "valid_buf ?w" "contents ?w = take ?n ?z"
      using contents_shorter [OF f(2), of ?n] cbc_cut_facts(1) [of "length ?z"] f(3) fl(1) by auto
    have "s_fill_in_overflow C cur c = (Inr ?w, set_overflow ov' (set_padding False c))"
      using f(1) True fl(1) st(1) ov'(1)
      by (auto simp: s_fill_in_overflow_def Let_def cbc_cut_def split: if_splits)
    with w ov' show ?thesis by blast
  next
    case False
    then have n: "?n = 0" by (simp add: cbc_cut_def)
    have z: "bytes_at (ptr (aws_byte_cursor_from_buf f)) (cur_len (aws_byte_cursor_from_buf f)) = Inr ?z"
      using bytes_at_from_buf [OF f(2)] f(3) by simp
    have "buf_len ov1 + length ?z \<le> SIZE_MAX div 2" using fl(2) len by simp
    from append_ignoring_ok [OF C f(4,6) z this] obtain ov' where ov': "append_ignoring C ov1 (aws_byte_cursor_from_buf f) = Inr ov'"
        "valid_buf ov'" "allocator ov'" "contents ov' = ?z" using f(5) by auto
    have "s_fill_in_overflow C cur c = (Inr zero_buf, set_overflow ov' (set_padding False c))"
      using f(1) False fl(1) ov'(1) by (auto simp: s_fill_in_overflow_def Let_def split: if_splits)
    with ov' n show ?thesis by (auto simp: zero_buf_def valid_buf_def contents_def)
  qed
qed

section \<open>Running CNG\<close>

text \<open>Output buffers whose room fits in a \<open>ULONG\<close>.\<close>

abbreviation ulong_bound :: nat where "ulong_bound \<equiv> 2 ^ 32 - 1"

lemma ulong_small [simp]: "n \<le> ulong_bound \<Longrightarrow> ulong n = n"
  by (simp add: ulong_def)

lemma room_le: "room b \<le> capacity b"
  by (simp add: room_def)

lemma plain_run:
  assumes h: "key_handle (cipher_impl c) = Some h" and out: "valid_buf out" "capacity out \<le> ulong_bound"
    and w: "crypt h bs (block_padding (cipher_impl c)) (room out) = (True, w, h')" "length w \<le> room out"
  shows "\<exists>out'. bcrypt_plain crypt bs c out = (Inr (), set_key_handle (Some h') c, out') \<and> valid_buf out' \<and>
    allocator out' = allocator out \<and> capacity out' = capacity out \<and> contents out' = contents out @ w"
proof -
  have "room out \<le> ulong_bound" using room_le [of out] out(2) by linarith
  then have r: "ulong (buf_room out) = room out" using out(1) by simp
  from poke_appends [OF out(1) w(2)] obtain b1 where "poke out w = Inr b1" "appends out w (Some (add_len (length w) b1))"
    by blast
  then show ?thesis using h w(1) r by (auto simp: bcrypt_plain_def appends_def)
qed

lemma grown_out:
  assumes C: "common_spec C" and out: "valid_buf out" "allocator out" "capacity out \<le> ulong_bound"
      "buf_len out + n \<le> ulong_bound"
  obtains out1 where "aws_symmetric_cipher_try_ensure_sufficient_buffer_space C out n = Inr out1" "valid_buf out1"
    "allocator out1" "capacity out1 \<le> ulong_bound" "n \<le> room out1" "contents out1 = contents out"
proof -
  have "buf_len out + n \<le> SIZE_MAX div 2" using out(4) by simp
  from ensure_space [OF C out(1) this] out(2-4) that show ?thesis by fastforce
qed

lemma encrypt_run:
  assumes C: "common_spec C" and h: "key_handle (cipher_impl c) = Some h" "auth_info_ptr (cipher_impl c) = None"
    and b: "bytes_at (ptr cur) (cur_len cur) = Inr bs" "bs \<noteq> []"
    and n: "n = (if block_padding (cipher_impl c) then length bs + (16 - length bs mod 16) else length bs)"
    and w: "\<And>r. n \<le> r \<Longrightarrow> BCryptEncrypt N h bs (block_padding (cipher_impl c)) r = (True, w, h')" "length w \<le> n"
    and out: "valid_buf out" "allocator out" "capacity out \<le> ulong_bound" "buf_len out + n \<le> ulong_bound"
  shows "\<exists>out'. s_aes_default_encrypt C N cur c out = (Inr (), set_key_handle (Some h') c, out') \<and> valid_buf out' \<and>
    allocator out' \<and> capacity out' \<le> ulong_bound \<and> contents out' = contents out @ w"
proof -
  obtain out1 where o1: "aws_symmetric_cipher_try_ensure_sufficient_buffer_space C out n = Inr out1" "valid_buf out1"
      "allocator out1" "capacity out1 \<le> ulong_bound" "n \<le> room out1" "contents out1 = contents out"
    by (rule grown_out [OF C out])
  have "length w \<le> room out1" using w(2) o1(5) by simp
  from plain_run [OF h(1) o1(2,4), where crypt = "BCryptEncrypt N", OF w(1) [OF o1(5)] this] o1(1,3,4,6) b bytes_at_length [OF b(1)] h(2) n show ?thesis
    by (auto simp: s_aes_default_encrypt_def Let_def)
qed

lemma decrypt_run:
  assumes C: "common_spec C" and h: "key_handle (cipher_impl c) = Some h" "auth_info_ptr (cipher_impl c) = None"
    and b: "bytes_at (ptr cur) (cur_len cur) = Inr bs" "bs \<noteq> []"
    and w: "\<And>r. length bs \<le> r \<Longrightarrow> BCryptDecrypt N h bs (block_padding (cipher_impl c)) r = (True, w, h')" "length w \<le> length bs"
    and out: "valid_buf out" "allocator out" "capacity out \<le> ulong_bound" "buf_len out + length bs \<le> ulong_bound"
  shows "\<exists>out'. s_default_aes_decrypt C N cur c out = (Inr (), set_key_handle (Some h') c, out') \<and> valid_buf out' \<and>
    allocator out' \<and> capacity out' \<le> ulong_bound \<and> contents out' = contents out @ w"
proof -
  obtain out1 where o1: "aws_symmetric_cipher_try_ensure_sufficient_buffer_space C out (length bs) = Inr out1" "valid_buf out1"
      "allocator out1" "capacity out1 \<le> ulong_bound" "length bs \<le> room out1" "contents out1 = contents out"
    by (rule grown_out [OF C out])
  have "length w \<le> room out1" using w(2) o1(5) by simp
  from plain_run [OF h(1) o1(2,4), where crypt = "BCryptDecrypt N", OF w(1) [OF o1(5)] this] o1(1,3,4,6) b bytes_at_length [OF b(1)] h(2) show ?thesis
    by (auto simp: s_default_aes_decrypt_def)
qed

lemma crypt_nothing: "bytes_at (ptr cur) (cur_len cur) = Inr [] \<Longrightarrow>
    s_aes_default_encrypt C N cur c out = (Inr (), c, out) \<and> s_default_aes_decrypt C N cur c out = (Inr (), c, out)"
  using bytes_at_length [of "ptr cur" "cur_len cur" "[]"] by (simp add: s_aes_default_encrypt_def s_default_aes_decrypt_def)

text \<open>The default operation of a direction, True for encryption.\<close>

definition default_op :: "bool \<Rightarrow> aws_common \<Rightarrow> ('a, 'k) cng_api \<Rightarrow> aws_byte_cursor \<Rightarrow> ('a, 'k) bcrypt_op" where
  "default_op d C N = (if d then s_aes_default_encrypt C N else s_default_aes_decrypt C N)"

section \<open>Materials\<close>

text \<open>What the proofs use of importing keys: the blob is a header and the key, and its header is
  short.\<close>

definition key_imports :: "('a, 'k) cng_api \<Rightarrow> 'a \<Rightarrow> bytes \<Rightarrow> 'k \<Rightarrow> bool" where
  "key_imports N alg k h \<longleftrightarrow> length (key_data_blob_header N (length k)) \<le> 4096 \<and>
     BCryptImportKey N alg (key_data_blob_header N (length k) @ k) = Some h"

lemma import_ok:
  assumes C: "common_spec C" and k: "valid_buf kb" "contents kb = k" "length k \<le> 4096" and i: "key_imports N alg k h"
  shows "s_import_key_blob C N alg kb = Inr h"
proof -
  let ?hd = "key_data_blob_header N (length k)"
  have kl: "buf_len kb = length k" using length_contents [OF k(1)] k(2) by simp
  have hl: "length ?hd \<le> 4096" using i by (simp add: key_imports_def)
  have "length ?hd + length k \<le> SIZE_MAX div 2" using hl k(3) by simp
  from init_law [OF C this] obtain b where b: "aws_byte_buf_init C (length ?hd + length k) = Inr b"
      "fresh_buf (length ?hd + length k) b" by blast
  have vb: "valid_buf b" "room b = length ?hd + length k" "contents b = []"
    using b(2) contents_empty [of b] by (simp_all add: fresh_buf_def room_def)
  obtain b1 where b1: "aws_byte_buf_write C b ?hd = Some b1" "appends b ?hd (Some b1)"
    using write_laws(1) [OF C vb(1), of ?hd] vb(2) by (cases "aws_byte_buf_write C b ?hd") (auto simp: appends_def)
  have v1: "valid_buf b1" "room b1 = length k" using b1(2) appends_room [OF b1(2)] vb(2) by (simp_all add: appends_def)
  obtain b2 where b2: "aws_byte_buf_write C b1 k = Some b2" "appends b1 k (Some b2)"
    using write_laws(1) [OF C v1(1), of k] v1(2) by (cases "aws_byte_buf_write C b1 k") (auto simp: appends_def)
  have v2: "valid_buf b2" "contents b2 = ?hd @ k"
    using appends_trans [OF b1(2) b2(2)] vb(3) by (simp_all add: appends_def)
  have "buf_len b2 = length ?hd + length k" using length_contents [OF v2(1)] v2(2) by simp
  moreover have "\<dots> \<le> ulong_bound" using hl k(3) by simp
  ultimately have "buf_mem b2 (ulong (buf_len b2)) = Inr (?hd @ k)" using buf_mem_contents [OF v2(1)] v2(2) by simp
  moreover have "ulong (buf_len kb) = length k" using kl k(3) by simp
  ultimately show ?thesis
    using b(1) b1(1) b2(1) kl buf_mem_contents [OF k(1)] k(2) i
    by (simp add: s_import_key_blob_def Let_def or_zero_def key_imports_def)
qed

text \<open>Key and vector, as they are after construction and kept by a reset.\<close>

lemma materials_plain:
  assumes C: "common_spec C"
    and kb: "(if buf_len (key c) \<noteq> 0 then Inr (key c) else key_material C kc) = Inr kb" "valid_buf kb" "contents kb = k" "length k = 32"
    and vb: "(if buf_len (iv c) \<noteq> 0 \<or> n = 0 then Inr (iv c) else iv_material C n ctr vc) = Inr vb" "valid_buf vb"
      "contents vb = v" "length v = 16"
    and h: "key_imports N (alg_handle (cipher_impl c)) k h" "BCryptSetProperty_iv N h v = (True, h')"
  shows "s_initialize_cipher_materials C N c kc vc t a n ctr False =
    (Inr (), on_impl (\<lambda>i. i\<lparr>key_handle := Some h', block_padding := False\<rparr>) (c\<lparr>key := kb, iv := vb\<rparr>))"
proof -
  have "s_import_key_blob C N (alg_handle (cipher_impl c)) kb = Inr h"
    by (rule import_ok [OF C kb(2,3) _ h(1)]) (simp add: kb(4))
  moreover have "buf_len vb = 16" using length_contents [OF vb(2)] vb(3,4) by simp
  ultimately show ?thesis
    using kb(1) vb(1) h(2) buf_mem_contents [OF vb(2)] vb(3)
    by (simp add: s_initialize_cipher_materials_def set_up_mode_def on_impl_def)
qed

lemma new_material:
  assumes C: "common_spec C" and k: "bytes_at (ptr kc) (cur_len kc) = Inr k" "length k \<le> 4096"
  obtains kb where "key_material C (Some kc) = Inr kb" "iv_material C n ctr (Some kc) = Inr kb" "valid_buf kb" "contents kb = k"
proof -
  have "length k \<le> SIZE_MAX div 2" using k(2) by simp
  from copied [OF C k(1) this] that show ?thesis by (auto simp: key_material_def iv_material_def)
qed

lemma clear_sel [simp]:
  "key (s_clear_reusable_components C c) = key c" "iv (s_clear_reusable_components C c) = iv c"
  "ctag (s_clear_reusable_components C c) = ctag c" "aad (s_clear_reusable_components C c) = aad c"
  "block_size (s_clear_reusable_components C c) = block_size c"
  "alg_handle (cipher_impl (s_clear_reusable_components C c)) = alg_handle (cipher_impl c)"
  "auth_info_ptr (cipher_impl (s_clear_reusable_components C c)) = None"
  "overflow (cipher_impl (s_clear_reusable_components C c)) = aws_byte_buf_secure_zero C (overflow (cipher_impl c))"
  by (simp_all add: s_clear_reusable_components_def)

text \<open>Handles for the instances of CNG that follow.\<close>

definition ref_handles :: "unit alg_handles" where
  "ref_handles = \<lparr>s_aes_cbc_algorithm_handle = (), s_aes_gcm_algorithm_handle = (),
     s_aes_ctr_algorithm_handle = (), s_aes_keywrap_algorithm_handle = ()\<rparr>"

end
