(* ===== verification/Bcrypt_Cbc.thy ===== *)
theory Bcrypt_Cbc
  imports Bcrypt_Buffers
begin

text \<open>
  CBC on Windows. CNG encrypts whole blocks and pads only in the last call; the cipher keeps one or
  two blocks back for it. The contract of a stream is interpreted for both directions, against
  textbook CBC with PKCS 7 padding.
\<close>

section \<open>Textbook CBC\<close>

function cbc_enc :: "(bytes \<Rightarrow> bytes) \<Rightarrow> bytes \<Rightarrow> bytes \<Rightarrow> bytes" where
  "cbc_enc E v xs = (if xs = [] then []
     else let y = E (map2 (XOR) v (take 16 xs)) in y @ cbc_enc E y (drop 16 xs))"
  by auto
termination by (relation "measure (\<lambda>(_, _, xs). length xs)") auto

function cbc_dec :: "(bytes \<Rightarrow> bytes) \<Rightarrow> bytes \<Rightarrow> bytes \<Rightarrow> bytes" where
  "cbc_dec D v ys = (if ys = [] then []
     else map2 (XOR) v (D (take 16 ys)) @ cbc_dec D (take 16 ys) (drop 16 ys))"
  by auto
termination by (relation "measure (\<lambda>(_, _, ys). length ys)") auto

declare cbc_enc.simps [simp del] cbc_dec.simps [simp del]

definition cbc_last :: "bytes \<Rightarrow> bytes \<Rightarrow> bytes" where
  "cbc_last v y = (if y = [] then v else drop (length y - 16) y)"

definition pkcs7 :: "bytes \<Rightarrow> bytes" where
  "pkcs7 m = (let n = 16 - length m mod 16 in m @ replicate n (word_of_nat n))"

lemma cbc_Nil [simp]: "cbc_enc E v [] = []" "cbc_dec D v [] = []" "cbc_last v [] = v"
  by (simp_all add: cbc_enc.simps cbc_dec.simps cbc_last_def)

lemma cbc_block:
  assumes "length b = 16"
  shows "cbc_enc E v (b @ xs) = E (map2 (XOR) v b) @ cbc_enc E (E (map2 (XOR) v b)) xs"
    and "cbc_dec D v (b @ xs) = map2 (XOR) v (D b) @ cbc_dec D b xs"
proof -
  have b: "b \<noteq> []" using assms by auto
  show "cbc_enc E v (b @ xs) = E (map2 (XOR) v b) @ cbc_enc E (E (map2 (XOR) v b)) xs"
    by (subst cbc_enc.simps) (simp add: assms b Let_def)
  show "cbc_dec D v (b @ xs) = map2 (XOR) v (D b) @ cbc_dec D b xs"
    by (subst cbc_dec.simps) (simp add: assms b)
qed

text \<open>Induction over blocks.\<close>

lemma block_induct [consumes 1, case_names Nil Block]:
  assumes "16 dvd length xs" and "P []" and "\<And>b xs. length b = 16 \<Longrightarrow> 16 dvd length xs \<Longrightarrow> P xs \<Longrightarrow> P (b @ xs)"
  shows "P (xs :: 'a list)"
  using assms(1)
proof (induction xs rule: length_induct)
  case (1 xs)
  show ?case
  proof (cases "xs = []")
    case False
    then have l: "16 \<le> length xs" using 1(2) by (simp add: dvd_imp_le)
    then have d: "16 dvd length (drop 16 xs)" using 1(2) by (simp add: dvd_diff_nat)
    have "P (drop 16 xs)" using 1(1) d l by simp
    with assms(3) [of "take 16 xs" "drop 16 xs"] d l show ?thesis by simp
  qed (simp add: assms(2))
qed

lemma xor_twice: "length a = length b \<Longrightarrow> map2 (XOR) a (map2 (XOR) a b) = (b :: bytes)"
  by (intro nth_equalityI) (simp_all flip: xor.assoc)

text \<open>A block cipher and its inverse.\<close>

definition block_inverse :: "(bytes \<Rightarrow> bytes) \<Rightarrow> (bytes \<Rightarrow> bytes) \<Rightarrow> bool" where
  "block_inverse E D \<longleftrightarrow> (\<forall>b. length b = 16 \<longrightarrow> length (E b) = 16 \<and> length (D b) = 16 \<and> D (E b) = b)"

lemma block_inverseD:
  "block_inverse E D \<Longrightarrow> length b = 16 \<Longrightarrow> length (E b) = 16"
  "block_inverse E D \<Longrightarrow> length b = 16 \<Longrightarrow> length (D b) = 16"
  "block_inverse E D \<Longrightarrow> length b = 16 \<Longrightarrow> D (E b) = b"
  by (simp_all add: block_inverse_def)

lemma cbc_enc_length:
  "block_inverse E D \<Longrightarrow> 16 dvd length xs \<Longrightarrow> length v = 16 \<Longrightarrow> length (cbc_enc E v xs) = length xs"
proof -
  assume E: "block_inverse E D" and "16 dvd length xs" and "length v = 16"
  from this(2,3) show ?thesis
    by (induction xs arbitrary: v rule: block_induct) (simp_all add: cbc_block block_inverseD(1) [OF E])
qed

lemma cbc_dec_length:
  "block_inverse E D \<Longrightarrow> 16 dvd length ys \<Longrightarrow> length v = 16 \<Longrightarrow> length (cbc_dec D v ys) = length ys"
proof -
  assume E: "block_inverse E D" and "16 dvd length ys" and "length v = 16"
  from this(2,3) show ?thesis
    by (induction ys arbitrary: v rule: block_induct) (simp_all add: cbc_block block_inverseD(2) [OF E])
qed

lemma cbc_last_block: "length b = 16 \<Longrightarrow> 16 dvd length ys \<Longrightarrow> cbc_last v (b @ ys) = cbc_last b ys"
  by (auto simp: cbc_last_def dest: dvd_imp_le)

lemma cbc_last_length: "length v = 16 \<Longrightarrow> 16 dvd length y \<Longrightarrow> length (cbc_last v y) = 16"
  by (cases "y = []") (auto simp: cbc_last_def dest: dvd_imp_le)

lemma cbc_enc_append:
  assumes "block_inverse E D" and "16 dvd length xs" and "length v = 16"
  shows "cbc_enc E v (xs @ ys) = cbc_enc E v xs @ cbc_enc E (cbc_last v (cbc_enc E v xs)) ys"
  using assms(2,3)
  by (induction xs arbitrary: v rule: block_induct)
    (simp_all add: cbc_block cbc_last_block block_inverseD(1) [OF assms(1)] cbc_enc_length [OF assms(1)])

lemma cbc_dec_append:
  assumes "16 dvd length xs"
  shows "cbc_dec D v (xs @ ys) = cbc_dec D v xs @ cbc_dec D (cbc_last v xs) ys"
  using assms by (induction xs arbitrary: v rule: block_induct) (simp_all add: cbc_block cbc_last_block)

lemma cbc_dec_enc:
  assumes "block_inverse E D" and "16 dvd length xs" and "length v = 16"
  shows "cbc_dec D v (cbc_enc E v xs) = xs"
  using assms(2,3)
  by (induction xs arbitrary: v rule: block_induct)
    (simp_all add: cbc_block xor_twice block_inverseD [OF assms(1)])

lemma cbc_last_append: "16 dvd length ys \<Longrightarrow> ys \<noteq> [] \<Longrightarrow> cbc_last v (xs @ ys) = cbc_last w ys"
  by (auto simp: cbc_last_def dest: dvd_imp_le)

lemma cbc_last_last: "16 dvd length ys \<Longrightarrow> cbc_last (cbc_last v xs) ys = cbc_last v (xs @ ys)"
  by (cases "ys = []") (simp_all add: cbc_last_append [where w = "cbc_last v xs"])

lemma pkcs7_append: "16 dvd length x \<Longrightarrow> pkcs7 (x @ r) = x @ pkcs7 r"
  by (simp add: pkcs7_def Let_def dvd_eq_mod_eq_0 mod_add_left_eq [of "length x", symmetric])

lemma pkcs7_length: "length (pkcs7 m) = length m + (16 - length m mod 16)" "16 dvd length (pkcs7 m)"
proof -
  show l: "length (pkcs7 m) = length m + (16 - length m mod 16)" by (simp add: pkcs7_def Let_def)
  have "(n + (16 - n mod 16)) mod 16 = 0" for n :: nat by presburger
  then show "16 dvd length (pkcs7 m)" using l by (simp add: dvd_eq_mod_eq_0)
qed

lemma pkcs7_nonempty [simp]: "pkcs7 m \<noteq> []"
  by (auto simp: pkcs7_def Let_def)

text \<open>A padded text whose first blocks are cut off is the padding of what is left.\<close>

lemma pkcs7_suffix:
  assumes "pkcs7 m = x @ z" and "16 dvd length x" and "16 dvd length z" and "z \<noteq> []"
  shows "pkcs7 (drop (length x) m) = z" and "m = x @ drop (length x) m"
proof -
  have "16 \<le> length z" using assms(3,4) by (simp add: dvd_imp_le)
  moreover have "length m + (16 - length m mod 16) = length x + length z"
    using arg_cong [OF assms(1), of length] by (simp add: pkcs7_length)
  ultimately have l: "length x \<le> length m" by linarith
  have "take (length x) (pkcs7 m) = take (length x) m" using l by (simp add: pkcs7_def Let_def)
  then have "take (length x) m = x" using assms(1) by simp
  then show m: "m = x @ drop (length x) m" by (metis append_take_drop_id)
  show "pkcs7 (drop (length x) m) = z" using assms(1) pkcs7_append [OF assms(2), of "drop (length x) m"] m by simp
qed

section \<open>CNG in CBC mode\<close>

text \<open>
  What the code relies on: a key handle has a key and a current vector; a call on whole blocks
  continues the chain and leaves the last cipher block as the vector; with the padding flag the text
  is padded and checked as in PKCS 7; and a new handle starts with the vector that was set. \<open>d\<close> is
  the direction, True for encryption.
\<close>

record ('a, 'k) cng_cbc =
  cbc_alg :: 'a
  cst :: "'k \<Rightarrow> (bytes \<times> bytes) option"
  Blk :: "bytes \<Rightarrow> bytes \<Rightarrow> bytes"
  Unblk :: "bytes \<Rightarrow> bytes \<Rightarrow> bytes"

definition cbc_text :: "bool \<Rightarrow> ('a, 'k) cng_cbc \<Rightarrow> bytes \<Rightarrow> bytes \<Rightarrow> bytes \<Rightarrow> bytes" where
  "cbc_text d X k v x = (if d then cbc_enc (Blk X k) v x else cbc_dec (Unblk X k) v x)"

definition next_iv :: "bool \<Rightarrow> ('a, 'k) cng_cbc \<Rightarrow> bytes \<Rightarrow> bytes \<Rightarrow> bytes \<Rightarrow> bytes" where
  "next_iv d X k v x = cbc_last v (if d then cbc_text d X k v x else x)"

definition cbc_call :: "bool \<Rightarrow> ('a, 'k) cng_api \<Rightarrow> 'k \<Rightarrow> bytes \<Rightarrow> bool \<Rightarrow> nat \<Rightarrow> bool \<times> bytes \<times> 'k" where
  "cbc_call d N = (if d then BCryptEncrypt N else BCryptDecrypt N)"

definition cbc_blocks_spec :: "('a, 'k) cng_api \<Rightarrow> ('a, 'k) cng_cbc \<Rightarrow> bool" where
  "cbc_blocks_spec N X \<longleftrightarrow> (\<forall>d h k v x. cst X h = Some (k, v) \<longrightarrow> x \<noteq> [] \<longrightarrow> 16 dvd length x \<longrightarrow>
     (\<exists>h'. cst X h' = Some (k, next_iv d X k v x) \<and>
        (\<forall>n \<ge> length x. cbc_call d N h x False n = (True, cbc_text d X k v x, h'))))"

definition cbc_plain :: "('a, 'k) cng_cbc \<Rightarrow> bytes \<Rightarrow> bytes \<Rightarrow> bytes \<Rightarrow> bytes \<Rightarrow> bool" where
  "cbc_plain X k v y m \<longleftrightarrow> 16 dvd length y \<and> cbc_dec (Unblk X k) v y = pkcs7 m"

definition cbc_padding_spec :: "('a, 'k) cng_api \<Rightarrow> ('a, 'k) cng_cbc \<Rightarrow> bool" where
  "cbc_padding_spec N X \<longleftrightarrow>
     (\<forall>h k v x. cst X h = Some (k, v) \<longrightarrow> (\<exists>h'. \<forall>n \<ge> length (pkcs7 x).
        BCryptEncrypt N h x True n = (True, cbc_enc (Blk X k) v (pkcs7 x), h'))) \<and>
     (\<forall>h k v y m. cst X h = Some (k, v) \<longrightarrow> cbc_plain X k v y m \<longrightarrow>
        (\<exists>h'. \<forall>n \<ge> length y. BCryptDecrypt N h y True n = (True, m, h'))) \<and>
     (\<forall>h k v y n. cst X h = Some (k, v) \<longrightarrow> (\<nexists>m. cbc_plain X k v y m) \<longrightarrow>
        \<not> fst (BCryptDecrypt N h y True n))"

definition cbc_start_spec :: "('a, 'k) cng_api \<Rightarrow> ('a, 'k) cng_cbc \<Rightarrow> bool" where
  "cbc_start_spec N X \<longleftrightarrow> (\<forall>k. block_inverse (Blk X k) (Unblk X k)) \<and>
     (\<forall>k v. length k = 32 \<longrightarrow> length v = 16 \<longrightarrow>
        (\<exists>h h'. key_imports N (cbc_alg X) k h \<and> BCryptSetProperty_iv N h v = (True, h') \<and> cst X h' = Some (k, v)))"

definition cbc_spec :: "('a, 'k) cng_api \<Rightarrow> ('a, 'k) cng_cbc \<Rightarrow> bool" where
  "cbc_spec N X \<longleftrightarrow> cbc_blocks_spec N X \<and> cbc_padding_spec N X \<and> cbc_start_spec N X"

lemma cbc_block_cipher: "cbc_spec N X \<Longrightarrow> block_inverse (Blk X k) (Unblk X k)"
  by (simp add: cbc_spec_def cbc_start_spec_def)

lemma cbc_start:
  assumes "cbc_spec N X" and "length k = 32" and "length v = 16"
  obtains h h' where "key_imports N (cbc_alg X) k h" "BCryptSetProperty_iv N h v = (True, h')" "cst X h' = Some (k, v)"
  using assms unfolding cbc_spec_def cbc_start_spec_def by blast

lemma cbc_blocks:
  assumes "cbc_spec N X" and "cst X h = Some (k, v)" and "x \<noteq> []" and "16 dvd length x"
  obtains h' where "cst X h' = Some (k, next_iv d X k v x)"
    "\<And>n. length x \<le> n \<Longrightarrow> cbc_call d N h x False n = (True, cbc_text d X k v x, h')"
  using assms unfolding cbc_spec_def cbc_blocks_spec_def by blast

lemma cbc_padded:
  assumes "cbc_spec N X"
  shows "cst X h = Some (k, v) \<Longrightarrow>
      \<exists>h'. \<forall>n \<ge> length (pkcs7 x). BCryptEncrypt N h x True n = (True, cbc_enc (Blk X k) v (pkcs7 x), h')"
    and "cst X h = Some (k, v) \<Longrightarrow> cbc_plain X k v y m \<Longrightarrow>
      \<exists>h'. \<forall>n \<ge> length y. BCryptDecrypt N h y True n = (True, m, h')"
    and "cst X h = Some (k, v) \<Longrightarrow> \<nexists>m. cbc_plain X k v y m \<Longrightarrow> \<not> fst (BCryptDecrypt N h y True n)"
proof -
  have P: "cbc_padding_spec N X" using assms by (simp add: cbc_spec_def)
  show "cst X h = Some (k, v) \<Longrightarrow>
      \<exists>h'. \<forall>n \<ge> length (pkcs7 x). BCryptEncrypt N h x True n = (True, cbc_enc (Blk X k) v (pkcs7 x), h')"
    using P unfolding cbc_padding_spec_def by presburger
  show "cst X h = Some (k, v) \<Longrightarrow> cbc_plain X k v y m \<Longrightarrow>
      \<exists>h'. \<forall>n \<ge> length y. BCryptDecrypt N h y True n = (True, m, h')"
    using P unfolding cbc_padding_spec_def by presburger
  show "cst X h = Some (k, v) \<Longrightarrow> \<nexists>m. cbc_plain X k v y m \<Longrightarrow> \<not> fst (BCryptDecrypt N h y True n)"
    using P unfolding cbc_padding_spec_def by presburger
qed

text \<open>Both directions in pieces.\<close>

lemma cbc_text_laws:
  assumes "cbc_spec N X" and "16 dvd length x" and "length v = 16"
  shows "length (cbc_text d X k v x) = length x"
    and "length (next_iv d X k v x) = 16"
    and "cbc_text d X k v (x @ y) = cbc_text d X k v x @ cbc_text d X k (next_iv d X k v x) y"
    and "16 dvd length y \<Longrightarrow> next_iv d X k v (x @ y) = next_iv d X k (next_iv d X k v x) y"
proof -
  note E = cbc_block_cipher [OF assms(1), of k]
  have len: "length (cbc_text d X k v x) = length x" if "16 dvd length x" "length v = 16" for x v
    using that cbc_enc_length [OF E] cbc_dec_length [OF E] by (simp add: cbc_text_def)
  then show "length (cbc_text d X k v x) = length x" using assms(2,3) by blast
  show nxt: "length (next_iv d X k v x) = 16"
    using assms(2,3) len [OF assms(2,3)] by (cases d) (simp_all add: next_iv_def cbc_last_length)
  have app: "cbc_text d X k v (x @ y) = cbc_text d X k v x @ cbc_text d X k (next_iv d X k v x) y" for y
    using cbc_enc_append [OF E assms(2,3)] cbc_dec_append [OF assms(2)] by (simp add: cbc_text_def next_iv_def)
  then show "cbc_text d X k v (x @ y) = cbc_text d X k v x @ cbc_text d X k (next_iv d X k v x) y" .
  show "next_iv d X k v (x @ y) = next_iv d X k (next_iv d X k v x) y" if "16 dvd length y"
    using that app [of y] len [OF that nxt] by (cases d) (simp_all add: next_iv_def cbc_last_last)
qed

section \<open>A CBC cipher as a stream\<close>

text \<open>What stays as it is from construction on, whatever is fed and finalized.\<close>

definition cbc_kept :: "aws_common \<Rightarrow> ('a, 'k) cng_api \<Rightarrow> ('a, 'k) cng_cbc \<Rightarrow> bytes \<times> bytes \<Rightarrow> ('a, 'k) bcrypt_cipher \<Rightarrow> bool" where
  "cbc_kept C N X p c \<longleftrightarrow> common_spec C \<and> cbc_spec N X \<and> length (fst p) = 32 \<and> length (snd p) = 16 \<and>
     valid_buf (key c) \<and> contents (key c) = fst p \<and> valid_buf (iv c) \<and> contents (iv c) = snd p \<and>
     block_size c = 16 \<and> alg_handle (cipher_impl c) = cbc_alg X \<and> auth_info_ptr (cipher_impl c) = None \<and>
     valid_buf (overflow (cipher_impl c)) \<and> allocator (overflow (cipher_impl c))"

text \<open>The cipher has processed whole blocks and keeps one or two blocks' worth of the input back.\<close>

definition cbc_io :: "aws_common \<Rightarrow> ('a, 'k) cng_api \<Rightarrow> ('a, 'k) cng_cbc \<Rightarrow> bool \<Rightarrow> ('a, 'k) bcrypt_cipher \<Rightarrow>
    bytes \<times> bytes \<Rightarrow> bytes \<Rightarrow> bytes \<Rightarrow> bool" where
  "cbc_io C N X d c p m w \<longleftrightarrow> cbc_kept C N X p c \<and> cipher_good c \<and>
     (\<exists>x h. m = x @ contents (overflow (cipher_impl c)) \<and> 16 dvd length x \<and> w = cbc_text d X (fst p) (snd p) x \<and>
        key_handle (cipher_impl c) = Some h \<and> cst X h = Some (fst p, next_iv d X (fst p) (snd p) x)) \<and>
     (m \<noteq> [] \<longrightarrow> contents (overflow (cipher_impl c)) \<noteq> []) \<and> length (contents (overflow (cipher_impl c))) \<le> 32"

lemma cbc_ioE:
  assumes "cbc_io C N X d c p m w"
  obtains k v x r h where "p = (k, v)" "cbc_kept C N X (k, v) c" "cipher_good c" "r = contents (overflow (cipher_impl c))"
    "m = x @ r" "16 dvd length x" "w = cbc_text d X k v x" "key_handle (cipher_impl c) = Some h"
    "cst X h = Some (k, next_iv d X k v x)" "m \<noteq> [] \<longrightarrow> r \<noteq> []" "length r \<le> 32" "length w = length x" "length v = 16"
proof (cases p)
  case (Pair k v)
  then obtain x h where a: "cbc_kept C N X (k, v) c" "cipher_good c" "m = x @ contents (overflow (cipher_impl c))"
      "16 dvd length x" "w = cbc_text d X k v x" "key_handle (cipher_impl c) = Some h" "cst X h = Some (k, next_iv d X k v x)"
      "m \<noteq> [] \<longrightarrow> contents (overflow (cipher_impl c)) \<noteq> []" "length (contents (overflow (cipher_impl c))) \<le> 32"
    using assms by (auto simp: cbc_io_def)
  then have "cbc_spec N X" "length v = 16" by (simp_all add: cbc_kept_def)
  then have "length w = length x" "length v = 16" using a(4,5) cbc_text_laws(1) by blast+
  from that [OF Pair a(1,2) refl a(3-9) this] show ?thesis .
qed

text \<open>The default operation on whole blocks, without padding.\<close>

lemma cbc_op_run:
  assumes C: "common_spec C" and h: "key_handle (cipher_impl c) = Some h" "auth_info_ptr (cipher_impl c) = None"
      "\<not> block_padding (cipher_impl c)"
    and b: "bytes_at (ptr cur) (cur_len cur) = Inr bs" "bs \<noteq> []"
    and w: "\<And>n. length bs \<le> n \<Longrightarrow> cbc_call d N h bs False n = (True, w, h')" "length w \<le> length bs"
    and out: "valid_buf out" "allocator out" "capacity out \<le> ulong_bound" "buf_len out + length bs \<le> ulong_bound"
  shows "\<exists>out'. default_op d C N cur c out = (Inr (), set_key_handle (Some h') c, out') \<and> valid_buf out' \<and>
    allocator out' \<and> capacity out' \<le> ulong_bound \<and> contents out' = contents out @ w"
proof (cases d)
  case True
  have r: "\<And>n. length bs \<le> n \<Longrightarrow> BCryptEncrypt N h bs (block_padding (cipher_impl c)) n = (True, w, h')"
    using w(1) True h(3) by (simp add: cbc_call_def)
  have "length bs = (if block_padding (cipher_impl c) then length bs + (16 - length bs mod 16) else length bs)" using h(3) by simp
  from encrypt_run [where N = N, OF C h(1,2) b this r w(2) out] True show ?thesis by (simp add: default_op_def)
next
  case False
  have "\<And>n. length bs \<le> n \<Longrightarrow> BCryptDecrypt N h bs (block_padding (cipher_impl c)) n = (True, w, h')"
    using w(1) False h(3) by (simp add: cbc_call_def)
  from decrypt_run [where N = N, OF C h(1,2) b this w(2) out] False show ?thesis by (simp add: default_op_def)
qed

definition cbc_feed :: "bool \<Rightarrow> aws_byte_cursor \<Rightarrow> cipher_call" where
  "cbc_feed d = (if d then Encrypt else Decrypt)"

lemma cbc_feed_call:
  assumes "cipher_good c" and "block_size c = 16" and "cur_len cur + 16 \<le> INT_MAX"
  shows "run_call (s_aes_cbc_vtable C N) (cbc_feed d cur) c out = (case s_fill_in_overflow C cur c of
     (Inl f, c) \<Rightarrow> (Inl f, c, out)
   | (Inr final, c) \<Rightarrow> default_op d C N (aws_byte_cursor_from_buf final) c out)"
  using assms
  by (cases d) (simp_all add: cbc_feed_def default_op_def aws_symmetric_cipher_encrypt_def aws_symmetric_cipher_decrypt_def
      s_check_input_size_limits_def s_aes_cbc_vtable_def s_aes_cbc_encrypt_def s_aes_cbc_decrypt_def split: prod.splits sum.splits)

lemma set_key_handle_same: "key_handle (cipher_impl c) = Some h \<Longrightarrow> set_key_handle (Some h) c = c"
  by (simp add: on_impl_def)

lemma cbc_text_Nil [simp]: "cbc_text d X k v [] = []" "next_iv d X k v [] = v"
  by (simp_all add: cbc_text_def next_iv_def)

text \<open>Whole blocks through the default operation; no blocks are no call.\<close>

lemma cbc_whole:
  assumes C: "common_spec C" "cbc_spec N X" and h: "key_handle (cipher_impl c) = Some h" "auth_info_ptr (cipher_impl c) = None"
      "\<not> block_padding (cipher_impl c)" "cst X h = Some (k, v)" "length v = 16"
    and y: "bytes_at (ptr cur) (cur_len cur) = Inr y" "16 dvd length y"
    and out: "valid_buf out" "allocator out" "capacity out \<le> ulong_bound" "buf_len out + length y \<le> ulong_bound"
  shows "\<exists>h' out'. default_op d C N cur c out = (Inr (), set_key_handle (Some h') c, out') \<and> cst X h' = Some (k, next_iv d X k v y) \<and>
    valid_buf out' \<and> allocator out' \<and> capacity out' \<le> ulong_bound \<and> contents out' = contents out @ cbc_text d X k v y"
proof (cases "y = []")
  case True
  then have "default_op d C N cur c out = (Inr (), c, out)" using crypt_nothing [of cur] y(1) by (auto simp: default_op_def)
  with True h(4) out set_key_handle_same [OF h(1)] show ?thesis by (intro exI [of _ h] exI [of _ out]) simp
next
  case False
  obtain h' where h': "cst X h' = Some (k, next_iv d X k v y)"
      "\<And>n. length y \<le> n \<Longrightarrow> cbc_call d N h y False n = (True, cbc_text d X k v y, h')"
    using cbc_blocks [OF C(2) h(4) False y(2)] by blast
  have "length (cbc_text d X k v y) \<le> length y" using cbc_text_laws(1) [OF C(2) y(2) h(5)] by simp
  from cbc_op_run [OF C(1) h(1-3) y(1) False h'(2) this out] h'(1) show ?thesis by blast
qed

lemma cbc_feed_ok:
  assumes io: "cbc_io C N X d c p m w" and b: "bytes_at (ptr cur) (cur_len cur) = Inr b" and len: "length b + 16 \<le> INT_MAX"
    and out: "valid_buf out" "allocator out" "capacity out \<le> ulong_bound"
      "buf_len out + (length m - length w) + length b \<le> ulong_bound"
  shows "\<exists>w' c' out'. run_call (s_aes_cbc_vtable C N) (cbc_feed d cur) c out = (Inr (), c', out') \<and>
    cbc_io C N X d c' p (m @ b) (w @ w') \<and> valid_buf out' \<and> allocator out' \<and> capacity out' \<le> ulong_bound \<and>
    contents out' = contents out @ w'"
proof -
  obtain k v x r h where i: "p = (k, v)" "cbc_kept C N X (k, v) c" "cipher_good c" "r = contents (overflow (cipher_impl c))"
    "m = x @ r" "16 dvd length x" "w = cbc_text d X k v x" "key_handle (cipher_impl c) = Some h"
    "cst X h = Some (k, next_iv d X k v x)" "m \<noteq> [] \<longrightarrow> r \<noteq> []" "length r \<le> 32" "length w = length x" "length v = 16"
    by (rule cbc_ioE [OF io])
  from i(2) have K: "common_spec C" "cbc_spec N X" "valid_buf (overflow (cipher_impl c))" "allocator (overflow (cipher_impl c))"
    "block_size c = 16" "auth_info_ptr (cipher_impl c) = None" by (simp_all add: cbc_kept_def)
  let ?z = "r @ b"
  let ?y = "take (cbc_cut (length ?z)) ?z" and ?r = "drop (cbc_cut (length ?z)) ?z"
  have "length r + length b \<le> SIZE_MAX div 2" using i(11) len by simp
  from fill_in_overflow [OF K(1,3,4) i(4) [symmetric] b this] obtain f ov where
      f: "s_fill_in_overflow C cur c = (Inr f, set_overflow ov (set_padding False c))" "valid_buf f" "contents f = ?y"
        "valid_buf ov" "allocator ov" "contents ov = ?r" by blast
  let ?c = "set_overflow ov (set_padding False c)"
  have y: "16 dvd length ?y" using cbc_cut_dvd cbc_cut_facts(1) by (metis length_take min.absorb2)
  have room: "buf_len out + length ?y \<le> ulong_bound" using out(4) i(5,12) cbc_cut_facts(1) [of "length ?z"] by simp
  have h1: "key_handle (cipher_impl ?c) = Some h" "auth_info_ptr (cipher_impl ?c) = None" "\<not> block_padding (cipher_impl ?c)"
    using i(8) K(6) by simp_all
  note t = cbc_text_laws [OF K(2) i(6,13), where d = d and k = k]
  have yf: "bytes_at (ptr (aws_byte_cursor_from_buf f)) (cur_len (aws_byte_cursor_from_buf f)) = Inr ?y"
    using bytes_at_from_buf [OF f(2)] f(3) by simp
  from cbc_whole [OF K(1,2) h1 i(9) t(2) yf y out(1-3) room, where d = d] obtain h' out' where
      e: "default_op d C N (aws_byte_cursor_from_buf f) ?c out = (Inr (), set_key_handle (Some h') ?c, out')"
        "cst X h' = Some (k, next_iv d X k (next_iv d X k v x) ?y)" "valid_buf out'" "allocator out'" "capacity out' \<le> ulong_bound"
        "contents out' = contents out @ cbc_text d X k (next_iv d X k v x) ?y" by blast
  let ?c' = "set_key_handle (Some h') ?c"
  have "run_call (s_aes_cbc_vtable C N) (cbc_feed d cur) c out = (Inr (), ?c', out')"
    using cbc_feed_call [OF i(3) K(5), of cur C N d out] bytes_at_length [OF b] len f(1) e(1) by simp
  moreover have "cbc_io C N X d ?c' p (m @ b) (w @ cbc_text d X k (next_iv d X k v x) ?y)"
  proof -
    have "cbc_kept C N X (k, v) ?c'" using i(2) f(4,5) by (simp add: cbc_kept_def)
    moreover have "m @ b = (x @ ?y) @ ?r" using i(5) by (metis append.assoc append_take_drop_id)
    moreover have "16 dvd length (x @ ?y)" using i(6) y by (metis dvd_add length_append)
    moreover have "?r \<noteq> []" if "m @ b \<noteq> []"
      using cbc_cut_facts(4) [of "length ?z"] that i(5,10) by (cases "?z = []") auto
    moreover have "length ?r \<le> 32" using cbc_cut_facts(2) [of "length ?z"] by simp
    ultimately show ?thesis
      unfolding cbc_io_def using i(1,3,7) e(2) f(6) t(3) [of ?y] t(4) [OF y] by auto
  qed
  ultimately show ?thesis using e(3-6) by blast
qed

text \<open>What a finalize call accepts. A message without bytes makes no padding block.\<close>

definition cbc_accepts :: "('a, 'k) cng_cbc \<Rightarrow> bool \<Rightarrow> bytes \<times> bytes \<Rightarrow> bytes \<Rightarrow> bytes \<Rightarrow> bool" where
  "cbc_accepts X d p m t \<longleftrightarrow> (if m = [] then t = []
     else if d then t = cbc_enc (Blk X (fst p)) (snd p) (pkcs7 m) else cbc_plain X (fst p) (snd p) m t)"

definition cbc_rejects :: "('a, 'k) cng_cbc \<Rightarrow> bool \<Rightarrow> bytes \<times> bytes \<Rightarrow> bytes \<Rightarrow> bool" where
  "cbc_rejects X d p q \<longleftrightarrow> \<not> d \<and> q \<noteq> [] \<and> (\<nexists>m. cbc_plain X (fst p) (snd p) q m)"

lemma cbc_plain_tail:
  assumes X: "cbc_spec N X" and x: "16 dvd length x" "length v = 16" and r: "r \<noteq> []"
  shows "cbc_plain X k v (x @ r) m \<longleftrightarrow>
    (\<exists>s. m = cbc_text False X k v x @ s \<and> cbc_plain X k (next_iv False X k v x) r s)"
proof (cases "16 dvd length r")
  case True
  let ?x = "cbc_text False X k v x" and ?z = "cbc_dec (Unblk X k) (next_iv False X k v x) r"
  note t = cbc_text_laws [OF X x, where d = False and k = k]
  have l: "length ?x = length x" "length ?z = length r"
    using t(1) cbc_text_laws(1) [OF X True t(2), where d = False and k = k] by (simp_all add: cbc_text_def)
  have "cbc_dec (Unblk X k) v (x @ r) = ?x @ ?z" using t(3) [of r] by (simp add: cbc_text_def)
  moreover have "pkcs7 m = ?x @ ?z \<longleftrightarrow> (\<exists>s. m = ?x @ s \<and> ?z = pkcs7 s)"
    using pkcs7_suffix [of m ?x ?z] pkcs7_append [of ?x] l x(1) True r by (metis length_0_conv same_append_eq)
  moreover have "16 dvd length (x @ r)" using True x(1) by simp
  ultimately show ?thesis using True by (auto simp: cbc_plain_def)
next
  case False
  then have "\<not> 16 dvd length (x @ r)" using x(1) by (simp add: dvd_add_right_iff)
  with False show ?thesis by (simp add: cbc_plain_def)
qed

definition cbc_final :: "bool \<Rightarrow> cipher_call" where
  "cbc_final d = (if d then Finalize_encryption else Finalize_decryption)"

lemma cbc_final_call:
  assumes "cipher_good c"
  shows "run_call (s_aes_cbc_vtable C N) (cbc_final d) c out =
    (if buf_len (overflow (cipher_impl c)) > 0 then
       (case default_op d C N (aws_byte_cursor_from_buf (overflow (cipher_impl c))) (set_padding True c) out of
          (r, c, out) \<Rightarrow> (r, (zero_overflow C c)\<lparr>cipher_good := False\<rparr>, out))
     else (Inr (), c\<lparr>cipher_good := False\<rparr>, out))"
  using assms
  by (cases d) (simp_all add: cbc_final_def default_op_def aws_symmetric_cipher_finalize_encryption_def
      aws_symmetric_cipher_finalize_decryption_def s_aes_cbc_vtable_def s_aes_cbc_finalize_encryption_def
      s_aes_cbc_finalize_decryption_def split: prod.splits)

text \<open>The last call, with padding.\<close>

lemma cbc_last_op:
  assumes C: "common_spec C" "cbc_spec N X" and h: "key_handle (cipher_impl c) = Some h" "auth_info_ptr (cipher_impl c) = None"
      "block_padding (cipher_impl c)" "cst X h = Some (k, v)" "length v = 16"
    and r: "bytes_at (ptr cur) (cur_len cur) = Inr r" "r \<noteq> []" and a: "cbc_accepts X d (k, v) r t"
    and out: "valid_buf out" "allocator out" "capacity out \<le> ulong_bound" "buf_len out + length r + 16 \<le> ulong_bound"
  shows "\<exists>h' out'. default_op d C N cur c out = (Inr (), set_key_handle (Some h') c, out') \<and> valid_buf out' \<and>
    contents out' = contents out @ t"
proof (cases d)
  case True
  then have t: "t = cbc_enc (Blk X k) v (pkcs7 r)" using a r(2) by (simp add: cbc_accepts_def)
  from cbc_padded(1) [OF C(2) h(4)] t obtain h' where
      h': "\<And>n. length (pkcs7 r) \<le> n \<Longrightarrow> BCryptEncrypt N h r (block_padding (cipher_impl c)) n = (True, t, h')"
    using h(3) by fastforce
  have n: "length (pkcs7 r) = (if block_padding (cipher_impl c) then length r + (16 - length r mod 16) else length r)"
    using h(3) by (simp add: pkcs7_length)
  have l: "length t \<le> length (pkcs7 r)"
    using cbc_enc_length [OF cbc_block_cipher [OF C(2)] pkcs7_length(2) h(5)] t by simp
  have room: "buf_len out + length (pkcs7 r) \<le> ulong_bound" using out(4) by (simp add: pkcs7_length)
  from encrypt_run [where N = N, OF C(1) h(1,2) r n h' l out(1-3) room] True show ?thesis by (auto simp: default_op_def)
next
  case False
  then have p: "cbc_plain X k v r t" using a r(2) by (simp add: cbc_accepts_def)
  from cbc_padded(2) [OF C(2) h(4) p] obtain h' where
      h': "\<And>n. length r \<le> n \<Longrightarrow> BCryptDecrypt N h r (block_padding (cipher_impl c)) n = (True, t, h')"
    using h(3) by fastforce
  have "length (pkcs7 t) = length r"
    using p cbc_dec_length [OF cbc_block_cipher [OF C(2)] _ h(5), of r k] by (simp add: cbc_plain_def)
  then have l: "length t \<le> length r" by (simp add: pkcs7_length)
  have room: "buf_len out + length r \<le> ulong_bound" using out(4) by simp
  from decrypt_run [where N = N, OF C(1) h(1,2) r h' l out(1-3) room] False show ?thesis by (auto simp: default_op_def)
qed

lemma kept_zeroed:
  "cbc_kept C N X p c \<Longrightarrow> cbc_kept C N X p ((zero_overflow C (set_key_handle h (set_padding f c)))\<lparr>cipher_good := g\<rparr>)"
  "cbc_kept C N X p c \<Longrightarrow> cbc_kept C N X p (c\<lparr>cipher_good := g\<rparr>)"
  using secure_zero_law [of C "overflow (cipher_impl c)"] by (simp_all add: cbc_kept_def zero_overflow_def)

lemma cbc_finish_ok:
  assumes io: "cbc_io C N X d c p m w" and a: "cbc_accepts X d p m t"
    and out: "valid_buf out" "allocator out" "capacity out \<le> ulong_bound" "buf_len out + (length m - length w) + 16 \<le> ulong_bound"
  shows "\<exists>w' c' out'. run_call (s_aes_cbc_vtable C N) (cbc_final d) c out = (Inr (), c', out') \<and> t = w @ w' \<and>
    cbc_kept C N X p c' \<and> valid_buf out' \<and> contents out' = contents out @ w'"
proof -
  obtain k v x r h where i: "p = (k, v)" "cbc_kept C N X (k, v) c" "cipher_good c" "r = contents (overflow (cipher_impl c))"
    "m = x @ r" "16 dvd length x" "w = cbc_text d X k v x" "key_handle (cipher_impl c) = Some h"
    "cst X h = Some (k, next_iv d X k v x)" "m \<noteq> [] \<longrightarrow> r \<noteq> []" "length r \<le> 32" "length w = length x" "length v = 16"
    by (rule cbc_ioE [OF io])
  from i(2) have K: "common_spec C" "cbc_spec N X" "valid_buf (overflow (cipher_impl c))" "auth_info_ptr (cipher_impl c) = None"
    by (simp_all add: cbc_kept_def)
  have l: "buf_len (overflow (cipher_impl c)) = length r" using length_contents [OF K(3)] i(4) by simp
  show ?thesis
  proof (cases "r = []")
    case True
    then have "m = []" "w = []" "t = []" using i(5,10,12) a by (auto simp: cbc_accepts_def)
    with cbc_final_call [OF i(3), of C N d out] l True out(1) kept_zeroed(2) [OF i(2)] i(1) show ?thesis by simp
  next
    case False
    let ?c = "set_padding True c" and ?v = "next_iv d X k v x"
    note tx = cbc_text_laws [OF K(2) i(6,13), where d = d and k = k]
    obtain s where s: "t = w @ s" "cbc_accepts X d (k, ?v) r s"
    proof (cases d)
      case True
      then have "t = w @ cbc_enc (Blk X k) ?v (pkcs7 r)"
        using a False i(1,5,7) tx(3) [of "pkcs7 r"] pkcs7_append [OF i(6)] by (simp add: cbc_accepts_def cbc_text_def)
      with True False that show ?thesis by (simp add: cbc_accepts_def)
    next
      case dec: False
      then have "cbc_plain X k v (x @ r) t" using a False i(1,5) by (simp add: cbc_accepts_def)
      with cbc_plain_tail [OF K(2) i(6,13) False] dec False i(7) that show ?thesis by (auto simp: cbc_accepts_def)
    qed
    have h: "key_handle (cipher_impl ?c) = Some h" "auth_info_ptr (cipher_impl ?c) = None" "block_padding (cipher_impl ?c)"
      using i(8) K(4) by simp_all
    have r: "bytes_at (ptr (aws_byte_cursor_from_buf (overflow (cipher_impl c)))) (cur_len (aws_byte_cursor_from_buf (overflow (cipher_impl c)))) = Inr r"
      using bytes_at_from_buf [OF K(3)] i(4) by simp
    have room: "buf_len out + length r + 16 \<le> ulong_bound" using out(4) i(5,12) by simp
    from cbc_last_op [OF K(1,2) h i(9) tx(2) r False s(2) out(1-3) room] obtain h' out' where
        e: "default_op d C N (aws_byte_cursor_from_buf (overflow (cipher_impl c))) ?c out = (Inr (), set_key_handle (Some h') ?c, out')"
          "valid_buf out'" "contents out' = contents out @ s" by blast
    with cbc_final_call [OF i(3), of C N d out] l False s(1) kept_zeroed(1) [OF i(2)] i(1) show ?thesis by auto
  qed
qed

lemma decrypt_fails:
  assumes C: "common_spec C" and h: "key_handle (cipher_impl c) = Some h" "auth_info_ptr (cipher_impl c) = None"
    and b: "bytes_at (ptr cur) (cur_len cur) = Inr bs" "bs \<noteq> []"
    and w: "\<And>n. \<not> fst (BCryptDecrypt N h bs (block_padding (cipher_impl c)) n)"
    and out: "valid_buf out" "allocator out" "capacity out \<le> ulong_bound" "buf_len out + length bs \<le> ulong_bound"
  shows "\<exists>c' out'. s_default_aes_decrypt C N cur c out = (Inl (Raised AWS_ERROR_INVALID_ARGUMENT), c', out') \<and>
    contents out' = contents out"
proof -
  obtain out1 where o1: "aws_symmetric_cipher_try_ensure_sufficient_buffer_space C out (length bs) = Inr out1" "contents out1 = contents out"
    by (rule grown_out [OF C out]) blast
  have "fst (BCryptDecrypt N h bs (block_padding (cipher_impl c)) (ulong (buf_room out1))) = False" using w by blast
  moreover have "cur_len cur \<noteq> 0" using b(2) bytes_at_length [OF b(1)] by (metis length_0_conv)
  ultimately show ?thesis using o1 h b bytes_at_length [OF b(1)]
    by (auto simp: s_default_aes_decrypt_def bcrypt_plain_def split: prod.splits bool.splits)
qed

lemma cbc_finish_rejects:
  assumes io: "cbc_io C N X d c p m w" and a: "cbc_rejects X d p m"
    and out: "valid_buf out" "allocator out" "capacity out \<le> ulong_bound" "buf_len out + (length m - length w) + 16 \<le> ulong_bound"
  shows "\<exists>c' out'. run_call (s_aes_cbc_vtable C N) (cbc_final d) c out = (Inl (Raised AWS_ERROR_INVALID_ARGUMENT), c', out') \<and>
    contents out' = contents out"
proof -
  obtain k v x r h where i: "p = (k, v)" "cbc_kept C N X (k, v) c" "cipher_good c" "r = contents (overflow (cipher_impl c))"
    "m = x @ r" "16 dvd length x" "w = cbc_text d X k v x" "key_handle (cipher_impl c) = Some h"
    "cst X h = Some (k, next_iv d X k v x)" "m \<noteq> [] \<longrightarrow> r \<noteq> []" "length r \<le> 32" "length w = length x" "length v = 16"
    by (rule cbc_ioE [OF io])
  from i(2) have K: "common_spec C" "cbc_spec N X" "valid_buf (overflow (cipher_impl c))" "auth_info_ptr (cipher_impl c) = None"
    by (simp_all add: cbc_kept_def)
  have d: "\<not> d" and r: "r \<noteq> []" using a i(10) by (auto simp: cbc_rejects_def)
  have "\<nexists>s. cbc_plain X k (next_iv d X k v x) r s"
    using a cbc_plain_tail [OF K(2) i(6,13) r] i(1,5) d by (auto simp: cbc_rejects_def)
  from cbc_padded(3) [OF K(2) i(9) this] have f: "\<And>n. \<not> fst (BCryptDecrypt N h r (block_padding (cipher_impl (set_padding True c))) n)" by simp
  have b: "bytes_at (ptr (aws_byte_cursor_from_buf (overflow (cipher_impl c)))) (cur_len (aws_byte_cursor_from_buf (overflow (cipher_impl c)))) = Inr r"
    using bytes_at_from_buf [OF K(3)] i(4) by simp
  have h: "key_handle (cipher_impl (set_padding True c)) = Some h" "auth_info_ptr (cipher_impl (set_padding True c)) = None"
    using i(8) K(4) by simp_all
  have room: "buf_len out + length r \<le> ulong_bound" using out(4) i(5,12) by simp
  have "buf_len (overflow (cipher_impl c)) > 0" using length_contents [OF K(3)] i(4) r by (metis length_greater_0_conv)
  with decrypt_fails [OF K(1) h b r f out(1-3) room] cbc_final_call [OF i(3), of C N d out] d show ?thesis
    by (auto simp: default_op_def)
qed

interpretation cng_cbc: cipher_stream "s_aes_cbc_vtable C N" "cbc_feed d" "cbc_final d" "cbc_io C N X d"
  "\<lambda>_. ulong_bound" ulong_bound "cbc_accepts X d" "cbc_rejects X d" "\<lambda>p _. cbc_kept C N X p" for C N X d
proof (unfold_locales, goal_cases)
  case (1 c p m w cur b out)
  then have "buf_len out + (length m - length w) + length b \<le> ulong_bound" by linarith
  from cbc_feed_ok [OF 1(1-3,5-7) this] show ?case .
next
  case (2 c p m w)
  then show ?case by (rule cbc_ioE) simp
next
  case (3 c p m w t out)
  from cbc_finish_ok [OF 3(1,2,4-7)] show ?case .
next
  case (4 c p m w out)
  from cbc_finish_rejects [OF 4(1,2,4-7)] show ?case .
qed

section \<open>New and reset ciphers\<close>

definition cbc_fresh :: "aws_common \<Rightarrow> ('a, 'k) cng_api \<Rightarrow> ('a, 'k) cng_cbc \<Rightarrow> bytes \<times> bytes \<Rightarrow> ('a, 'k) bcrypt_cipher \<Rightarrow> bool" where
  "cbc_fresh C N X p c \<longleftrightarrow> (\<forall>d. cbc_io C N X d c p [] [])"

lemma cbc_freshI:
  assumes "cbc_kept C N X (k, v) c" and "cipher_good c" and "buf_len (overflow (cipher_impl c)) = 0"
    and "key_handle (cipher_impl c) = Some h" and "cst X h = Some (k, v)"
  shows "cbc_fresh C N X (k, v) c"
  using assms contents_empty [of "overflow (cipher_impl c)"] by (auto simp: cbc_fresh_def cbc_io_def cbc_kept_def)

lemma cbc_new_ok:
  assumes C: "common_spec C" and X: "cbc_spec N X" "s_aes_cbc_algorithm_handle H = cbc_alg X"
    and k: "bytes_at (ptr kc) (cur_len kc) = Inr k" "length k = 32"
    and v: "bytes_at (ptr vc) (cur_len vc) = Inr v" "length v = 16"
  shows "\<exists>c. bcrypt_cbc_256_new_impl C N H (Some kc) (Some vc) = Inr c \<and> cbc_fresh C N X (k, v) c"
proof -
  obtain h h' where h: "key_imports N (cbc_alg X) k h" "BCryptSetProperty_iv N h v = (True, h')" "cst X h' = Some (k, v)"
    by (rule cbc_start [OF X(1) k(2) v(2)])
  have kl: "length k \<le> 4096" and vl: "length v \<le> 4096" using k(2) v(2) by simp_all
  obtain kb where kb: "key_material C (Some kc) = Inr kb" "valid_buf kb" "contents kb = k" by (rule new_material [OF C k(1) kl])
  obtain vb where vb: "iv_material C 16 False (Some vc) = Inr vb" "valid_buf vb" "contents vb = v"
    by (rule new_material [OF C v(1) vl])
  let ?c = "calloc_cipher (cbc_alg X) 16 :: ('a, 'b) bcrypt_cipher"
  have z: "buf_len (key ?c) = 0" "buf_len (iv ?c) = 0" "alg_handle (cipher_impl ?c) = cbc_alg X"
    by (simp_all add: calloc_cipher_def zero_buf_def)
  have i: "s_initialize_cipher_materials C N ?c (Some kc) (Some vc) None None 16 False False =
      (Inr (), on_impl (\<lambda>i. i\<lparr>key_handle := Some h', block_padding := False\<rparr>) (?c\<lparr>key := kb, iv := vb\<rparr>))"
    by (rule materials_plain [OF C _ kb(2,3) k(2) _ vb(2,3) v(2) _ h(2)]) (simp_all add: z kb(1) vb(1) h(1))
  have "(32 :: nat) \<le> SIZE_MAX div 2" by simp
  from init_law [OF C this] obtain ov where ov: "aws_byte_buf_init C 32 = Inr ov" "fresh_buf 32 ov" by blast
  let ?d = "(on_impl (\<lambda>i. i\<lparr>overflow := ov, working_iv := vb\<lparr>allocator := False\<rparr>, iv_shared := True\<rparr>)
    (on_impl (\<lambda>i. i\<lparr>key_handle := Some h', block_padding := False\<rparr>) (?c\<lparr>key := kb, iv := vb\<rparr>)))\<lparr>cipher_good := True\<rparr>"
  have "bcrypt_cbc_256_new_impl C N H (Some kc) (Some vc) = Inr ?d"
    using i ov(1) X(2) by (simp add: bcrypt_cbc_256_new_impl_def or_zero_def)
  moreover have "cbc_fresh C N X (k, v) ?d"
    using C X(1) k(2) v(2) kb vb ov(2) h(3)
    by (intro cbc_freshI) (simp_all add: cbc_kept_def calloc_cipher_def fresh_buf_def)
  ultimately show ?thesis by blast
qed

lemma cbc_reset_ok:
  assumes K: "cbc_kept C N X p c"
  shows "\<exists>c'. aws_symmetric_cipher_reset (s_aes_cbc_vtable C N) c = (Inr (), c') \<and> cbc_fresh C N X p c'"
proof (cases p)
  case (Pair k v)
  with K have a: "common_spec C" "cbc_spec N X" "length k = 32" "length v = 16" "valid_buf (key c)" "contents (key c) = k"
    "valid_buf (iv c)" "contents (iv c) = v" "alg_handle (cipher_impl c) = cbc_alg X" "valid_buf (overflow (cipher_impl c))"
    by (simp_all add: cbc_kept_def)
  obtain h h' where h: "key_imports N (cbc_alg X) k h" "BCryptSetProperty_iv N h v = (True, h')" "cst X h' = Some (k, v)"
    by (rule cbc_start [OF a(2-4)])
  have l: "buf_len (key c) = 32" "buf_len (iv c) = 16" using length_contents [OF a(5)] length_contents [OF a(7)] a(3,4,6,8) by simp_all
  let ?c = "s_clear_reusable_components C c"
  have i: "s_initialize_cipher_materials C N ?c None None None None 16 False False =
      (Inr (), on_impl (\<lambda>i. i\<lparr>key_handle := Some h', block_padding := False\<rparr>) (?c\<lparr>key := key c, iv := iv c\<rparr>))"
    by (rule materials_plain [OF a(1) _ a(5,6,3) _ a(7,8,4) _ h(2)]) (simp_all add: l a(9) h(1))
  let ?d = "(on_impl (\<lambda>i. i\<lparr>key_handle := Some h', block_padding := False\<rparr>) (?c\<lparr>key := key c, iv := iv c\<rparr>))\<lparr>cipher_good := True\<rparr>"
  have "aws_symmetric_cipher_reset (s_aes_cbc_vtable C N) c = (Inr (), ?d)"
    using i by (simp add: aws_symmetric_cipher_reset_def s_aes_cbc_vtable_def s_reset_cbc_cipher_def)
  moreover have "cbc_fresh C N X (k, v) ?d"
    using K Pair h(3) secure_zero_law [OF a(1,10)] by (intro cbc_freshI) (simp_all add: cbc_kept_def)
  ultimately show ?thesis using Pair by blast
qed

section \<open>Whole messages\<close>

text \<open>
  Claim C19. On Windows, a new CBC cipher that is fed a non-empty message in any pieces and finalized writes the
  CBC encryption of the padded message, although CNG
  is only ever given whole blocks before the last call; for the empty message it writes nothing, not even the padding block; after a reset, decrypting that text in any pieces and
  finalizing writes the message. Output buffers and texts are smaller than 4 GiB.
\<close>

theorem cng_cbc_round_trip:
  assumes C: "common_spec C" and X: "cbc_spec N X" "s_aes_cbc_algorithm_handle H = cbc_alg X"
    and k: "bytes_at (ptr kc) (cur_len kc) = Inr k" "length k = 32"
    and v: "bytes_at (ptr vc) (cur_len vc) = Inr v" "length v = 16"
    and ps: "pieces cs bs" "\<forall>b \<in> set bs. length b + 16 \<le> INT_MAX"
    and out: "valid_buf out" "allocator out" "capacity out \<le> ulong_bound"
      "buf_len out + length (concat bs) + 16 \<le> ulong_bound"
    and q: "q = (if concat bs = [] then [] else cbc_enc (Blk X k) v (pkcs7 (concat bs)))"
  shows "\<exists>c c1 c2 c3 out1 out2. bcrypt_cbc_256_new_impl C N H (Some kc) (Some vc) = Inr c \<and>
    run_calls (s_aes_cbc_vtable C N) (map Encrypt cs) c out = (replicate (length cs) (Inr ()), c1, out1) \<and>
    aws_symmetric_cipher_finalize_encryption (s_aes_cbc_vtable C N) c1 out1 = (Inr (), c2, out2) \<and>
    contents out2 = contents out @ q \<and>
    aws_symmetric_cipher_reset (s_aes_cbc_vtable C N) c2 = (Inr (), c3) \<and>
    (\<forall>ds ws res. pieces ds ws \<longrightarrow> concat ws = q \<longrightarrow> (\<forall>b \<in> set ws. length b + 16 \<le> INT_MAX) \<longrightarrow>
      valid_buf res \<longrightarrow> allocator res \<longrightarrow> capacity res \<le> ulong_bound \<longrightarrow> buf_len res + length q + 16 \<le> ulong_bound \<longrightarrow>
      (\<exists>d1 d2 res1 res2. run_calls (s_aes_cbc_vtable C N) (map Decrypt ds) c3 res = (replicate (length ds) (Inr ()), d1, res1) \<and>
         aws_symmetric_cipher_finalize_decryption (s_aes_cbc_vtable C N) d1 res1 = (Inr (), d2, res2) \<and>
         contents res2 = contents res @ concat bs))"
proof -
  obtain c where c: "bcrypt_cbc_256_new_impl C N H (Some kc) (Some vc) = Inr c" "cbc_fresh C N X (k, v) c"
    using cbc_new_ok [OF C X k v] by blast
  have a: "cbc_accepts X True (k, v) (concat bs) q" using q by (simp add: cbc_accepts_def)
  have lim: "length (concat bs) \<le> ulong_bound" using out(4) by linarith
  have "cbc_io C N X True c (k, v) [] []" using c(2) by (simp add: cbc_fresh_def)
  from cng_cbc.stream_ok [OF ps(1) this ps(2) lim out] a obtain c1 out1 c2 out2 where
      e: "run_calls (s_aes_cbc_vtable C N) (map Encrypt cs) c out = (replicate (length cs) (Inr ()), c1, out1)"
        "aws_symmetric_cipher_finalize_encryption (s_aes_cbc_vtable C N) c1 out1 = (Inr (), c2, out2)"
        "contents out2 = contents out @ q" "cbc_kept C N X (k, v) c2"
    by (auto simp: cbc_feed_def cbc_final_def)
  obtain c3 where c3: "aws_symmetric_cipher_reset (s_aes_cbc_vtable C N) c2 = (Inr (), c3)" "cbc_fresh C N X (k, v) c3"
    using cbc_reset_ok [OF e(4)] by blast
  have "cbc_enc (Blk X k) v (pkcs7 m) \<noteq> []" for m
    using cbc_enc_length [OF cbc_block_cipher [OF X(1)] pkcs7_length(2) v(2), of k m] by (metis length_0_conv pkcs7_nonempty)
  then have d: "cbc_accepts X False (k, v) q (concat bs)"
    using q pkcs7_length(2) cbc_dec_enc [OF cbc_block_cipher [OF X(1)] pkcs7_length(2) v(2)]
      cbc_enc_length [OF cbc_block_cipher [OF X(1)] pkcs7_length(2) v(2)] by (simp add: cbc_accepts_def cbc_plain_def)
  have "\<exists>d1 d2 res1 res2. run_calls (s_aes_cbc_vtable C N) (map Decrypt ds) c3 res = (replicate (length ds) (Inr ()), d1, res1) \<and>
         aws_symmetric_cipher_finalize_decryption (s_aes_cbc_vtable C N) d1 res1 = (Inr (), d2, res2) \<and>
         contents res2 = contents res @ concat bs"
    if "pieces ds ws" "concat ws = q" "\<forall>b \<in> set ws. length b + 16 \<le> INT_MAX" "valid_buf res" "allocator res"
      "capacity res \<le> ulong_bound" "buf_len res + length q + 16 \<le> ulong_bound" for ds ws res
  proof -
    have i: "cbc_io C N X False c3 (k, v) [] []" using c3(2) by (simp add: cbc_fresh_def)
    have l: "length (concat ws) \<le> ulong_bound" "buf_len res + length (concat ws) + 16 \<le> ulong_bound" using that(2,7) by simp_all
    from cng_cbc.stream_ok [OF that(1) i that(3) l(1) that(4-6) l(2)] d that(2) show ?thesis
      by (auto simp: cbc_feed_def cbc_final_def)
  qed
  with c(1) e(1-3) c3(1) show ?thesis by blast
qed

text \<open>
  On Windows, CBC decryption checks length and padding: a new cipher fed a non-empty text in any pieces
  writes \<open>m\<close> if the text has whole blocks that decrypt to the padding of \<open>m\<close>, and if there is
  no such \<open>m\<close> its finalize call fails with AWS_ERROR_INVALID_ARGUMENT and leaves the cipher not good.
\<close>

theorem cng_cbc_checks_padding:
  assumes C: "common_spec C" and X: "cbc_spec N X" "s_aes_cbc_algorithm_handle H = cbc_alg X"
    and k: "bytes_at (ptr kc) (cur_len kc) = Inr k" "length k = 32"
    and v: "bytes_at (ptr vc) (cur_len vc) = Inr v" "length v = 16"
    and ps: "pieces ds ws" "\<forall>b \<in> set ws. length b + 16 \<le> INT_MAX" "concat ws \<noteq> []"
    and out: "valid_buf out" "allocator out" "capacity out \<le> ulong_bound"
      "buf_len out + length (concat ws) + 16 \<le> ulong_bound"
  shows "\<exists>c c1 c2 out1 out2 r. bcrypt_cbc_256_new_impl C N H (Some kc) (Some vc) = Inr c \<and>
    run_calls (s_aes_cbc_vtable C N) (map Decrypt ds) c out = (replicate (length ds) (Inr ()), c1, out1) \<and>
    aws_symmetric_cipher_finalize_decryption (s_aes_cbc_vtable C N) c1 out1 = (r, c2, out2) \<and> \<not> cipher_good c2 \<and>
    (if \<exists>m. cbc_plain X k v (concat ws) m
     then r = Inr () \<and> (\<forall>m. cbc_plain X k v (concat ws) m \<longrightarrow> contents out2 = contents out @ m)
     else r = Inl (Raised AWS_ERROR_INVALID_ARGUMENT))"
proof -
  obtain c where c: "bcrypt_cbc_256_new_impl C N H (Some kc) (Some vc) = Inr c" "cbc_io C N X False c (k, v) [] []"
    using cbc_new_ok [OF C X k v] unfolding cbc_fresh_def by blast
  have lim: "length (concat ws) \<le> ulong_bound" using out(4) by linarith
  from cng_cbc.stream_ok [OF ps(1) c(2) ps(2) lim out] obtain c1 out1 where
      r: "run_calls (s_aes_cbc_vtable C N) (map Decrypt ds) c out = (replicate (length ds) (Inr ()), c1, out1)"
      "\<forall>t. cbc_accepts X False (k, v) (concat ws) t \<longrightarrow> (\<exists>c2 out2.
         aws_symmetric_cipher_finalize_decryption (s_aes_cbc_vtable C N) c1 out1 = (Inr (), c2, out2) \<and> contents out2 = contents out @ t)"
      "cbc_rejects X False (k, v) (concat ws) \<longrightarrow> (\<exists>c2 out2.
         aws_symmetric_cipher_finalize_decryption (s_aes_cbc_vtable C N) c1 out1 = (Inl (Raised AWS_ERROR_INVALID_ARGUMENT), c2, out2))"
    by (simp add: cbc_feed_def cbc_final_def) blast
  obtain r0 c2 out2 where f: "aws_symmetric_cipher_finalize_decryption (s_aes_cbc_vtable C N) c1 out1 = (r0, c2, out2)"
    by (metis prod_cases3)
  have "\<not> cipher_good c2" using finalize_not_good [where x = Finalize_decryption] f by (metis insertI1 insertI2 run_call.simps(4))
  moreover have "r0 = Inr () \<and> contents out2 = contents out @ m" if "cbc_plain X k v (concat ws) m" for m
  proof -
    have "cbc_accepts X False (k, v) (concat ws) m" using that ps(3) unfolding cbc_accepts_def by auto
    with r(2) [rule_format, of m] f show ?thesis by simp
  qed
  moreover have "r0 = Inl (Raised AWS_ERROR_INVALID_ARGUMENT)" if "\<nexists>m. cbc_plain X k v (concat ws) m"
    using r(3) that ps(3) f unfolding cbc_rejects_def by simp
  ultimately show ?thesis using c(1) r(1) f by metis
qed

section \<open>A reference CNG\<close>

text \<open>
  An instance of CNG that satisfies the assumptions. A key handle is the key and the vector; the
  block cipher adds the sum of the key to every byte.
\<close>

definition ref_blk :: "bytes \<Rightarrow> bytes \<Rightarrow> bytes" where
  "ref_blk k = map (\<lambda>x. x + sum_list k)"

definition ref_unblk :: "bytes \<Rightarrow> bytes \<Rightarrow> bytes" where
  "ref_unblk k = map (\<lambda>x. x - sum_list k)"

definition unpad :: "bytes \<Rightarrow> bytes option" where
  "unpad z = (let m = take (length z - unat (last z)) z in if z \<noteq> [] \<and> pkcs7 m = z then Some m else None)"

definition ref_cbc :: "(unit, bytes \<times> bytes) cng_cbc" where
  "ref_cbc = \<lparr>cbc_alg = (), cst = Some, Blk = ref_blk, Unblk = ref_unblk\<rparr>"

definition ref_encrypt :: "bytes \<times> bytes \<Rightarrow> bytes \<Rightarrow> bool \<Rightarrow> nat \<Rightarrow> bool \<times> bytes \<times> bytes \<times> bytes" where
  "ref_encrypt h x pad n = (case h of (k, v) \<Rightarrow>
     let y = cbc_enc (ref_blk k) v (if pad then pkcs7 x else x) in (True, y, k, cbc_last v y))"

definition ref_decrypt :: "bytes \<times> bytes \<Rightarrow> bytes \<Rightarrow> bool \<Rightarrow> nat \<Rightarrow> bool \<times> bytes \<times> bytes \<times> bytes" where
  "ref_decrypt h y pad n = (case h of (k, v) \<Rightarrow>
     let x = cbc_dec (ref_unblk k) v y; h' = (k, cbc_last v y)
     in if pad then (case if 16 dvd length y then unpad x else None of None \<Rightarrow> (False, [], h') | Some m \<Rightarrow> (True, m, h'))
        else (True, x, h'))"

definition ref_cng :: "(unit, bytes \<times> bytes) cng_api" where
  "ref_cng = \<lparr>BCryptOpenAlgorithmProvider = Some (), BCryptSetProperty_chaining = (\<lambda>a _. (True, a)),
     key_data_blob_header = (\<lambda>_. []), blob_cbKeyData = (\<lambda>_. 0), BCryptImportKey = (\<lambda>_ b. Some (b, [])),
     BCryptSetProperty_iv = (\<lambda>h v. (True, (fst h, v))), BCryptEncrypt = ref_encrypt, BCryptDecrypt = ref_decrypt,
     BCryptEncrypt_auth = (\<lambda>h _ _ _. (False, [], ([], [], []), h)), BCryptDecrypt_auth = (\<lambda>h _ _ _. (False, [], ([], [], []), h)),
     BCryptExportKey_wrap_size = (\<lambda>_ _. None), BCryptExportKey_wrap = (\<lambda>_ _ _. None),
     BCryptImportKey_wrap = (\<lambda>_ _ _. None), BCryptExportKey_data = (\<lambda>_ _. None)\<rparr>"

lemma unpad_pkcs7: "unpad z = Some m \<longleftrightarrow> z = pkcs7 m"
proof
  assume "z = pkcs7 m"
  moreover have "unat (word_of_nat (16 - length m mod 16) :: byte) = 16 - length m mod 16"
    by (simp only: unat_of_nat) simp
  moreover have "last (pkcs7 m) = word_of_nat (16 - length m mod 16)"
    by (simp add: pkcs7_def Let_def)
  ultimately have "take (length z - unat (last z)) z = m" by (simp add: pkcs7_length(1)) (simp add: pkcs7_def Let_def)
  with \<open>z = pkcs7 m\<close> show "unpad z = Some m" by (simp add: unpad_def)
qed (auto simp: unpad_def Let_def split: if_splits)

lemma cbc_spec_ref: "cbc_spec ref_cng ref_cbc"
proof -
  have b: "cbc_blocks_spec ref_cng ref_cbc"
    by (auto simp: cbc_blocks_spec_def ref_cng_def ref_cbc_def cbc_call_def cbc_text_def next_iv_def ref_encrypt_def
        ref_decrypt_def Let_def)
  have u: "unpad x = Some m \<Longrightarrow> x = pkcs7 m" for x m by (simp add: unpad_pkcs7)
  have p: "cbc_padding_spec ref_cng ref_cbc"
    by (auto simp: cbc_padding_spec_def ref_cng_def ref_cbc_def ref_encrypt_def ref_decrypt_def cbc_plain_def Let_def
        unpad_pkcs7 [THEN iffD2] dest: u split: option.splits)
  have "block_inverse (ref_blk k) (ref_unblk k)" for k by (simp add: block_inverse_def ref_blk_def ref_unblk_def comp_def)
  then have "cbc_start_spec ref_cng ref_cbc" by (auto simp: cbc_start_spec_def ref_cng_def ref_cbc_def key_imports_def)
  with b p show ?thesis by (simp add: cbc_spec_def)
qed

lemma cng_cbc_round_trip_witness:
  "\<exists>c c1 c2 c3 out1 out2. bcrypt_cbc_256_new_impl ref_common ref_cng ref_handles (Some (cursor_of (replicate 32 7)))
      (Some (cursor_of (replicate 16 3))) = Inr c \<and>
    run_calls (s_aes_cbc_vtable ref_common ref_cng) (map Encrypt [cursor_of [1, 2], cursor_of [3]]) c (empty_out 0) =
      (replicate 2 (Inr ()), c1, out1) \<and>
    aws_symmetric_cipher_finalize_encryption (s_aes_cbc_vtable ref_common ref_cng) c1 out1 = (Inr (), c2, out2) \<and>
    contents out2 = cbc_enc (ref_blk (replicate 32 7)) (replicate 16 3) ([1, 2, 3] @ replicate 13 13) \<and>
    aws_symmetric_cipher_reset (s_aes_cbc_vtable ref_common ref_cng) c2 = (Inr (), c3)"
proof -
  let ?k = "replicate 32 7 :: bytes" and ?v = "replicate 16 3 :: bytes"
  have prems: "length ?k = 32" "length ?v = 16" "pieces [cursor_of [1, 2], cursor_of [3]] [[1, 2], [3]]"
    "\<forall>b \<in> set [[1, 2], [3 :: byte]]. length b + 16 \<le> INT_MAX"
    "buf_len (empty_out 0) + length (concat [[1, 2], [3 :: byte]]) + 16 \<le> ulong_bound"
    "valid_buf (empty_out 0)" "allocator (empty_out 0)" "capacity (empty_out 0) \<le> ulong_bound"
    "s_aes_cbc_algorithm_handle ref_handles = cbc_alg ref_cbc"
    by simp_all
  have cur: "bytes_at (ptr (cursor_of b)) (cur_len (cursor_of b)) = Inr b" for b by simp
  have run: "contents (empty_out 0) @ (if concat [[1, 2], [3 :: byte]] = [] then [] else cbc_enc (Blk ref_cbc ?k) ?v (pkcs7 (concat [[1, 2], [3]])))
      = cbc_enc (ref_blk ?k) ?v ([1, 2, 3] @ replicate 13 13)"
    "length [cursor_of [1, 2], cursor_of [3]] = 2"
    by (simp_all add: ref_cbc_def pkcs7_def Let_def)
  show ?thesis
    using cng_cbc_round_trip [OF common_spec_ref cbc_spec_ref prems(9) cur prems(1) cur prems(2) prems(3,4,6,7,8,5) refl]
    unfolding run by (elim exE conjE) (intro exI conjI; assumption)
qed

lemma cng_cbc_checks_padding_witness:
  "\<exists>c c1 c2 out1 out2. bcrypt_cbc_256_new_impl ref_common ref_cng ref_handles (Some (cursor_of (replicate 32 7)))
      (Some (cursor_of (replicate 16 3))) = Inr c \<and>
    run_calls (s_aes_cbc_vtable ref_common ref_cng) (map Decrypt [cursor_of [1, 2]]) c (empty_out 0) = ([Inr ()], c1, out1) \<and>
    aws_symmetric_cipher_finalize_decryption (s_aes_cbc_vtable ref_common ref_cng) c1 out1 =
      (Inl (Raised AWS_ERROR_INVALID_ARGUMENT), c2, out2)"
proof -
  have "\<not> cbc_plain ref_cbc k v (concat [[1, 2]]) m" for k v m by (simp add: cbc_plain_def dvd_eq_mod_eq_0)
  then show ?thesis
    using cng_cbc_checks_padding [OF common_spec_ref cbc_spec_ref, of ref_handles "cursor_of (replicate 32 7)" "replicate 32 7"
        "cursor_of (replicate 16 3)" "replicate 16 3" "[cursor_of [1, 2]]" "[[1, 2]]" "empty_out 0"]
    by (simp del: run_calls.simps concat.simps) (simp del: run_calls.simps, blast)
qed

end
