(* ===== verification/Bcrypt_Gcm.thy ===== *)
theory Bcrypt_Gcm
  imports Bcrypt_Buffers
begin

text \<open>
  GCM on Windows. CNG keeps the state of a chain of calls in the key handle, the MAC context and the
  vector, and computes or checks the tag in the last call, which is made without the chaining flag;
  the cipher keeps at least one block back for it. The contract of a stream is interpreted for both
  directions against GCM as a key stream with a tag over the cipher text.
\<close>

section \<open>CNG in GCM mode\<close>

text \<open>Parameters are key, nonce and additional data.\<close>

type_synonym gcm_params = "bytes \<times> bytes \<times> bytes"

text \<open>
  \<open>gst h p mac v = Some y\<close>: the handle, with this MAC context and this vector, has produced or
  consumed the cipher text \<open>y\<close> under \<open>p\<close>. \<open>gcipher d\<close> is the cipher text of the piece \<open>x\<close> at
  offset \<open>off\<close>: the output of an encryption (\<open>d\<close>), the input of a decryption.
\<close>

record ('a, 'k) cng_gcm =
  gcm_alg :: 'a
  gst :: "'k \<Rightarrow> gcm_params \<Rightarrow> bytes \<Rightarrow> bytes \<Rightarrow> bytes option"
  Ks :: "gcm_params \<Rightarrow> nat \<Rightarrow> byte"
  Gtag :: "gcm_params \<Rightarrow> bytes \<Rightarrow> bytes"

definition gcipher :: "('a, 'k) cng_gcm \<Rightarrow> bool \<Rightarrow> gcm_params \<Rightarrow> nat \<Rightarrow> bytes \<Rightarrow> bytes" where
  "gcipher X d p off x = (if d then part (Ks X p) off x else x)"

definition gcm_call :: "bool \<Rightarrow> ('a, 'k) cng_api \<Rightarrow> 'k \<Rightarrow> bytes \<Rightarrow> auth_call \<Rightarrow> nat \<Rightarrow>
    bool \<times> bytes \<times> (bytes \<times> bytes \<times> bytes) \<times> 'k" where
  "gcm_call d N = (if d then BCryptEncrypt_auth N else BCryptDecrypt_auth N)"

text \<open>A chained call on whole blocks advances the state and leaves the tag alone.\<close>

definition gcm_chain_spec :: "('a, 'k) cng_api \<Rightarrow> ('a, 'k) cng_gcm \<Rightarrow> bool" where
  "gcm_chain_spec N X \<longleftrightarrow> (\<forall>d h k args y x. chained args \<longrightarrow> length (pbMacContext args) = 16 \<longrightarrow> length (pbIV args) = 16 \<longrightarrow>
     gst X h (k, pbNonce args, pbAuthData args) (pbMacContext args) (pbIV args) = Some y \<longrightarrow> x \<noteq> [] \<longrightarrow> 16 dvd length x \<longrightarrow>
     (\<exists>mac v h'. length mac = 16 \<and> length v = 16 \<and>
        gst X h' (k, pbNonce args, pbAuthData args) mac v =
          Some (y @ gcipher X d (k, pbNonce args, pbAuthData args) (length y) x) \<and>
        (\<forall>n \<ge> length x. gcm_call d N h x args n =
           (True, part (Ks X (k, pbNonce args, pbAuthData args)) (length y) x, (pbTag args, mac, v), h'))))"

text \<open>The last call writes the tag, or compares it.\<close>

definition gcm_last_spec :: "('a, 'k) cng_api \<Rightarrow> ('a, 'k) cng_gcm \<Rightarrow> bool" where
  "gcm_last_spec N X \<longleftrightarrow> (\<forall>d h k args y x. \<not> chained args \<longrightarrow> length (pbMacContext args) = 16 \<longrightarrow> length (pbIV args) = 16 \<longrightarrow>
     length (pbTag args) = 16 \<longrightarrow> x \<noteq> [] \<longrightarrow>
     gst X h (k, pbNonce args, pbAuthData args) (pbMacContext args) (pbIV args) = Some y \<longrightarrow>
     (let p = (k, pbNonce args, pbAuthData args); t = Gtag X p (y @ gcipher X d p (length y) x) in
      if d \<or> pbTag args = t
      then \<exists>mac v h'. length mac = 16 \<and> length v = 16 \<and>
        (\<forall>n \<ge> length x. gcm_call d N h x args n = (True, part (Ks X p) (length y) x, (t, mac, v), h'))
      else \<forall>n. \<not> fst (gcm_call d N h x args n)))"

text \<open>A new key with zeroed context and vector is at the start for any nonce and data.\<close>

definition gcm_start_spec :: "('a, 'k) cng_api \<Rightarrow> ('a, 'k) cng_gcm \<Rightarrow> bool" where
  "gcm_start_spec N X \<longleftrightarrow> (\<forall>p y. length (Gtag X p y) = 16) \<and>
     (\<forall>k. length k = 32 \<longrightarrow> (\<exists>h. key_imports N (gcm_alg X) k h \<and>
        (\<forall>n a. gst X h (k, n, a) (replicate 16 0) (replicate 16 0) = Some [])))"

definition cng_gcm_spec :: "('a, 'k) cng_api \<Rightarrow> ('a, 'k) cng_gcm \<Rightarrow> bool" where
  "cng_gcm_spec N X \<longleftrightarrow> gcm_chain_spec N X \<and> gcm_last_spec N X \<and> gcm_start_spec N X"

lemma gcm_tag_length: "cng_gcm_spec N X \<Longrightarrow> length (Gtag X p y) = 16"
  unfolding cng_gcm_spec_def gcm_start_spec_def by blast

lemma gcm_start:
  assumes "cng_gcm_spec N X" and "length k = 32"
  obtains h where "key_imports N (gcm_alg X) k h" "\<forall>n a. gst X h (k, n, a) (replicate 16 0) (replicate 16 0) = Some []"
  using assms unfolding cng_gcm_spec_def gcm_start_spec_def by blast

lemma gcm_chain:
  assumes "cng_gcm_spec N X" and "chained args" and "length (pbMacContext args) = 16" and "length (pbIV args) = 16"
    and "p = (k, pbNonce args, pbAuthData args)"
    and "gst X h p (pbMacContext args) (pbIV args) = Some y" and "x \<noteq> []" and "16 dvd length x"
  obtains mac v h' where "length mac = 16" "length v = 16" "gst X h' p mac v = Some (y @ gcipher X d p (length y) x)"
    "\<And>n. length x \<le> n \<Longrightarrow> gcm_call d N h x args n = (True, part (Ks X p) (length y) x, (pbTag args, mac, v), h')"
  using assms unfolding cng_gcm_spec_def gcm_chain_spec_def by blast

lemma gcm_last:
  assumes "cng_gcm_spec N X" and "\<not> chained args" and "length (pbMacContext args) = 16" and "length (pbIV args) = 16"
    and "length (pbTag args) = 16" and "p = (k, pbNonce args, pbAuthData args)"
    and "gst X h p (pbMacContext args) (pbIV args) = Some y" and "x \<noteq> []"
    and "t = Gtag X p (y @ gcipher X d p (length y) x)"
  shows "d \<or> pbTag args = t \<Longrightarrow> \<exists>mac v h'. length mac = 16 \<and> length v = 16 \<and>
      (\<forall>n \<ge> length x. gcm_call d N h x args n = (True, part (Ks X p) (length y) x, (t, mac, v), h'))"
    and "\<not> (d \<or> pbTag args = t) \<Longrightarrow> \<not> fst (gcm_call d N h x args n)"
proof -
  have "gcm_last_spec N X" using assms(1) by (simp add: cng_gcm_spec_def)
  from this [unfolded gcm_last_spec_def Let_def, rule_format, OF assms(2-5,8), of h k y d] assms(7)
  have "if d \<or> pbTag args = t then \<exists>mac v h'. length mac = 16 \<and> length v = 16 \<and>
      (\<forall>n \<ge> length x. gcm_call d N h x args n = (True, part (Ks X p) (length y) x, (t, mac, v), h'))
    else \<forall>n. \<not> fst (gcm_call d N h x args n)" unfolding assms(6,9) by blast
  then show "d \<or> pbTag args = t \<Longrightarrow> \<exists>mac v h'. length mac = 16 \<and> length v = 16 \<and>
      (\<forall>n \<ge> length x. gcm_call d N h x args n = (True, part (Ks X p) (length y) x, (t, mac, v), h'))"
    "\<not> (d \<or> pbTag args = t) \<Longrightarrow> \<not> fst (gcm_call d N h x args n)"
    by (simp_all only: if_True if_False) blast
qed

section \<open>A GCM cipher as a stream\<close>

text \<open>Buffers of a block of memory, with that memory.\<close>

definition mem16 :: "aws_byte_buf \<Rightarrow> bytes \<Rightarrow> bool" where
  "mem16 b m \<longleftrightarrow> valid_buf b \<and> buffer b = Some m \<and> length m = 16"

lemma mem16_laws:
  assumes "mem16 b m"
  shows "buf_mem b 16 = Inr m" and "ulong (capacity b) = 16" and "length m' = 16 \<Longrightarrow> store_mem b m' = Inr (b\<lparr>buffer := Some m'\<rparr>)"
    and "length m' = 16 \<Longrightarrow> mem16 (b\<lparr>buffer := Some m'\<rparr>) m'"
  using assms
  by (auto simp: mem16_def buf_mem_def bytes_at_def valid_buf_def ulong_def store_mem_def overwrite_def)

lemma mem16_zeroed:
  assumes "common_spec C" and "mem16 b m"
  shows "mem16 (aws_byte_buf_secure_zero C b) (replicate 16 0)"
    and "mem16 ((aws_byte_buf_secure_zero C b)\<lparr>buf_len := 16\<rparr>) (replicate 16 0)"
  using assms secure_zero_law [OF assms(1), of b] secure_zero_memory [OF assms(1), of b]
  by (auto simp: mem16_def valid_buf_def map_replicate_const)

text \<open>One authenticated call through the default operation.\<close>

definition gcm_step :: "'k \<Rightarrow> bytes \<Rightarrow> bytes \<Rightarrow> bytes \<Rightarrow> ('a, 'k) bcrypt_cipher \<Rightarrow> ('a, 'k) bcrypt_cipher" where
  "gcm_step h t mac v c = on_impl (\<lambda>i. i\<lparr>key_handle := Some h,
     working_mac_buffer := (working_mac_buffer i)\<lparr>buffer := Some mac\<rparr>, working_iv := (working_iv i)\<lparr>buffer := Some v\<rparr>\<rparr>)
     (c\<lparr>ctag := (ctag c)\<lparr>buffer := Some t\<rparr>\<rparr>)"

lemma auth_op:
  assumes C: "common_spec C" and h: "key_handle (cipher_impl c) = Some h" "auth_info_ptr (cipher_impl c) = Some i"
      "\<not> block_padding (cipher_impl c)" "auth_args i c = Inr args"
    and m: "mem16 (ctag c) t0" "mem16 (working_mac_buffer (cipher_impl c)) m0" "mem16 (working_iv (cipher_impl c)) v0"
      "length t = 16" "length mac = 16" "length v = 16"
    and b: "bytes_at (ptr cur) (cur_len cur) = Inr bs" "bs \<noteq> []"
    and w: "\<And>n. length bs \<le> n \<Longrightarrow> gcm_call d N h bs args n = (True, w, (t, mac, v), h')" "length w = length bs"
    and out: "valid_buf out" "allocator out" "capacity out \<le> ulong_bound" "buf_len out + length bs \<le> ulong_bound"
  shows "\<exists>out'. default_op d C N cur c out = (Inr (), gcm_step h' t mac v c, out') \<and> valid_buf out' \<and>
    allocator out' \<and> capacity out' \<le> ulong_bound \<and> contents out' = contents out @ w"
proof -
  obtain out1 where o1: "aws_symmetric_cipher_try_ensure_sufficient_buffer_space C out (length bs) = Inr out1" "valid_buf out1"
      "allocator out1" "capacity out1 \<le> ulong_bound" "length bs \<le> room out1" "contents out1 = contents out"
    by (rule grown_out [OF C out])
  have l: "length w \<le> room out1" using w(2) o1(5) by simp
  have "room out1 \<le> ulong_bound" using room_le [of out1] o1(4) by linarith
  then have r: "ulong (buf_room out1) = room out1" using o1(2) by simp
  from poke_appends [OF o1(2) l] obtain b1 where b1: "poke out1 w = Inr b1" "appends out1 w (Some (add_len (length w) b1))"
    by blast
  have n: "cur_len cur \<noteq> 0" "cur_len cur = length bs" using b bytes_at_length [OF b(1)] by (metis length_0_conv, simp)
  have "bcrypt_auth (gcm_call d N) i bs c out1 = (Inr (), gcm_step h' t mac v c, add_len (length w) b1)"
    using h(1,4) r w(1) [OF o1(5)] mem16_laws(3) [OF m(1,4)] mem16_laws(3) [OF m(2,5)] mem16_laws(3) [OF m(3,6)] b1(1)
    by (simp add: bcrypt_auth_def gcm_step_def on_impl_def)
  then have "default_op d C N cur c out = (Inr (), gcm_step h' t mac v c, add_len (length w) b1)"
    using n h(2,3) o1(1) b(1)
    by (cases d) (simp_all add: default_op_def s_aes_default_encrypt_def s_default_aes_decrypt_def gcm_call_def)
  with b1(2) o1(3,4,6) show ?thesis by (auto simp: appends_def)
qed

lemma auth_op_fails:
  assumes C: "common_spec C" and h: "key_handle (cipher_impl c) = Some h" "auth_info_ptr (cipher_impl c) = Some i"
      "\<not> block_padding (cipher_impl c)" "auth_args i c = Inr args"
    and b: "bytes_at (ptr cur) (cur_len cur) = Inr bs" "bs \<noteq> []" and w: "\<And>n. \<not> fst (gcm_call d N h bs args n)"
    and out: "valid_buf out" "allocator out" "capacity out \<le> ulong_bound" "buf_len out + length bs \<le> ulong_bound"
  shows "\<exists>c' out'. default_op d C N cur c out = (Inl (Raised AWS_ERROR_INVALID_ARGUMENT), c', out') \<and> contents out' = contents out"
proof -
  obtain out1 where o1: "aws_symmetric_cipher_try_ensure_sufficient_buffer_space C out (length bs) = Inr out1" "contents out1 = contents out"
    by (rule grown_out [OF C out]) blast
  have n: "cur_len cur \<noteq> 0" "cur_len cur = length bs" using b bytes_at_length [OF b(1)] by (metis length_0_conv, simp)
  have "fst (gcm_call d N h bs args (ulong (buf_room out1))) = False" using w by blast
  then have "\<exists>c'. bcrypt_auth (gcm_call d N) i bs c out1 = (Inl (Raised AWS_ERROR_INVALID_ARGUMENT), c', out1)"
    using h(1,4) by (auto simp: bcrypt_auth_def split: prod.splits bool.splits)
  then show ?thesis using n h(2,3) o1 b(1)
    by (cases d) (auto simp: default_op_def s_aes_default_encrypt_def s_default_aes_decrypt_def gcm_call_def)
qed

text \<open>What stays as it is from construction on.\<close>

definition gcm_kept :: "aws_common \<Rightarrow> ('a, 'k) cng_api \<Rightarrow> ('a, 'k) cng_gcm \<Rightarrow> gcm_params \<Rightarrow> ('a, 'k) bcrypt_cipher \<Rightarrow> bool" where
  "gcm_kept C N X p c \<longleftrightarrow> (case p of (k, n, a) \<Rightarrow>
     common_spec C \<and> cng_gcm_spec N X \<and> length k = 32 \<and> length n = 12 \<and> length a \<le> ulong_bound \<and>
     valid_buf (key c) \<and> contents (key c) = k \<and> valid_buf (iv c) \<and> contents (iv c) = n \<and>
     valid_buf (aad c) \<and> contents (aad c) = a) \<and> buf_len (ctag c) = 16 \<and> buf_len (working_mac_buffer (cipher_impl c)) = 16 \<and>
     block_size c = 16 \<and> alg_handle (cipher_impl c) = gcm_alg X \<and> \<not> block_padding (cipher_impl c) \<and> \<not> iv_shared (cipher_impl c) \<and>
     valid_buf (overflow (cipher_impl c)) \<and> allocator (overflow (cipher_impl c))"

text \<open>The authentication info that the materials set up, with and without the chaining flag.\<close>

definition gcm_info :: "gcm_params \<Rightarrow> bool \<Rightarrow> auth_mode_info" where
  "gcm_info p b = \<lparr>cbNonce = 12, cbTag = 16, cbMacContext = 16, cbAuthData = length (snd (snd p)), chain_calls = b\<rparr>"

definition gcm_mem :: "bytes \<Rightarrow> bytes \<Rightarrow> bytes \<Rightarrow> ('a, 'k) bcrypt_cipher \<Rightarrow> bool" where
  "gcm_mem t mac v c \<longleftrightarrow> mem16 (ctag c) t \<and> mem16 (working_mac_buffer (cipher_impl c)) mac \<and> mem16 (working_iv (cipher_impl c)) v"

definition gcm_args :: "gcm_params \<Rightarrow> bytes \<Rightarrow> bytes \<Rightarrow> bytes \<Rightarrow> bool \<Rightarrow> auth_call" where
  "gcm_args p t mac v b = \<lparr>pbNonce = fst (snd p), pbTag = t, pbMacContext = mac, pbAuthData = snd (snd p), pbIV = v, chained = b\<rparr>"

lemma gcm_auth_args:
  assumes "gcm_kept C N X p c" and "gcm_mem t mac v c"
  shows "auth_args (gcm_info p b) c = Inr (gcm_args p t mac v b)"
proof -
  obtain k n a where p: "p = (k, n, a)" by (metis prod_cases3)
  with assms(1) have v: "valid_buf (iv c)" "contents (iv c) = n" "length n = 12" "valid_buf (aad c)" "contents (aad c) = a"
    by (simp_all add: gcm_kept_def)
  have "buf_mem (iv c) 12 = Inr n" "buf_mem (aad c) (length a) = Inr a"
    using buf_mem_contents [OF v(1)] buf_mem_contents [OF v(4)] length_contents [OF v(1)] length_contents [OF v(4)] v(2,3,5) by simp_all
  with assms(2) p show ?thesis by (auto simp: gcm_mem_def auth_args_def gcm_info_def gcm_args_def mem16_laws)
qed

text \<open>The cipher has processed whole blocks and keeps up to two blocks' worth of the input back.\<close>

definition gcm_io :: "aws_common \<Rightarrow> ('a, 'k) cng_api \<Rightarrow> ('a, 'k) cng_gcm \<Rightarrow> bool \<Rightarrow> ('a, 'k) bcrypt_cipher \<Rightarrow>
    gcm_params \<times> bytes \<Rightarrow> bytes \<Rightarrow> bytes \<Rightarrow> bool" where
  "gcm_io C N X d c pt m w \<longleftrightarrow> gcm_kept C N X (fst pt) c \<and> cipher_good c \<and>
     auth_info_ptr (cipher_impl c) = Some (gcm_info (fst pt) True) \<and>
     (\<exists>x h mac v. m = x @ contents (overflow (cipher_impl c)) \<and> 16 dvd length x \<and> w = part (Ks X (fst pt)) 0 x \<and>
        key_handle (cipher_impl c) = Some h \<and> gcm_mem (snd pt) mac v c \<and>
        gst X h (fst pt) mac v = Some (gcipher X d (fst pt) 0 x)) \<and>
     (m \<noteq> [] \<longrightarrow> contents (overflow (cipher_impl c)) \<noteq> []) \<and> length (contents (overflow (cipher_impl c))) \<le> 32"

lemma gcm_ioE:
  assumes "gcm_io C N X d c pt m w"
  obtains p t x r h mac v where "pt = (p, t)" "gcm_kept C N X p c" "cipher_good c"
    "auth_info_ptr (cipher_impl c) = Some (gcm_info p True)" "r = contents (overflow (cipher_impl c))" "m = x @ r"
    "16 dvd length x" "w = part (Ks X p) 0 x" "key_handle (cipher_impl c) = Some h" "gcm_mem t mac v c"
    "gst X h p mac v = Some (gcipher X d p 0 x)" "m \<noteq> [] \<longrightarrow> r \<noteq> []" "length r \<le> 32"
  using assms unfolding gcm_io_def
  by (elim conjE exE) (rule that [OF prod.collapse [symmetric] _ _ _ refl]; assumption)

lemma gcipher_laws: "length (gcipher X d p off x) = length x"
  "gcipher X d p off (x @ y) = gcipher X d p off x @ gcipher X d p (off + length x) y"
  by (simp_all add: gcipher_def part_append)

lemma gcm_step_sel [simp]:
  "cipher_good (gcm_step h t mac v c) = cipher_good c" "key (gcm_step h t mac v c) = key c" "iv (gcm_step h t mac v c) = iv c"
  "aad (gcm_step h t mac v c) = aad c" "block_size (gcm_step h t mac v c) = block_size c"
  "auth_info_ptr (cipher_impl (gcm_step h t mac v c)) = auth_info_ptr (cipher_impl c)"
  "overflow (cipher_impl (gcm_step h t mac v c)) = overflow (cipher_impl c)"
  "key_handle (cipher_impl (gcm_step h t mac v c)) = Some h"
  by (simp_all add: gcm_step_def)

lemma gcm_step_laws:
  "gcm_kept C N X p (gcm_step h t mac v c) \<longleftrightarrow> gcm_kept C N X p c"
  "gcm_mem t0 m0 v0 c \<Longrightarrow> length t = 16 \<Longrightarrow> length mac = 16 \<Longrightarrow> length v = 16 \<Longrightarrow> gcm_mem t mac v (gcm_step h t mac v c)"
  using mem16_laws(4) by (auto simp: gcm_step_def gcm_kept_def gcm_mem_def)

text \<open>How many of \<open>n\<close> collected bytes are handed to CNG before the last call.\<close>

definition gcm_cut :: "nat \<Rightarrow> nat" where
  "gcm_cut n = (if n > 16 then n - (16 + n mod 16) else 0)"

lemma gcm_cut_facts:
  "gcm_cut n \<le> n" "n - gcm_cut n \<le> 32" "16 dvd gcm_cut n" "0 < n \<Longrightarrow> gcm_cut n < n"
proof -
  have "16 dvd n - (16 + n mod 16)" if "16 < n" using that by presburger
  then show "16 dvd gcm_cut n" by (simp add: gcm_cut_def)
  show "n - gcm_cut n \<le> 32" "gcm_cut n \<le> n" "0 < n \<Longrightarrow> gcm_cut n < n"
    using mod_less_divisor [of 16 n] by (auto simp: gcm_cut_def)
qed

text \<open>The buffering of a feed, for any operation on the whole blocks.\<close>

lemma gcm_feed_split:
  assumes C: "common_spec C" and ov: "valid_buf (overflow (cipher_impl c))" "allocator (overflow (cipher_impl c))"
      "contents (overflow (cipher_impl c)) = r"
    and b: "bytes_at (ptr cur) (cur_len cur) = Inr bs" "bs \<noteq> []" and len: "length r + length bs \<le> SIZE_MAX div 2"
    and nil: "\<And>s c. bytes_at (ptr s) (cur_len s) = Inr [] \<Longrightarrow> f s c out = (Inr (), c, out)"
  shows "\<exists>s ov'. gcm_feed C f cur c out = f s (set_overflow ov' c) out \<and>
    bytes_at (ptr s) (cur_len s) = Inr (take (gcm_cut (length (r @ bs))) (r @ bs)) \<and> valid_buf ov' \<and> allocator ov' \<and>
    contents ov' = drop (gcm_cut (length (r @ bs))) (r @ bs)"
proof -
  let ?ov = "overflow (cipher_impl c)" and ?z = "r @ bs"
  let ?n = "gcm_cut (length ?z)"
  have z: "cur_len cur \<noteq> 0" using b bytes_at_length [OF b(1)] by (metis length_0_conv)
  obtain g ov1 where g: "(if buf_len ?ov \<noteq> 0 then rbind (prepend_overflow C ?ov cur) (\<lambda>b. Inr (b, aws_byte_buf_reset C ?ov True))
        else rbind (copy_cursor C cur) (\<lambda>b. Inr (b, ?ov))) = Inr (g, ov1)"
      "valid_buf g" "contents g = ?z" "valid_buf ov1" "contents ov1 = []" "allocator ov1"
    using collected [OF C ov b(1) len, of "\<lambda>b. aws_byte_buf_reset C b True"] reset_law [OF C ov(1)] ov(2) by auto
  have l: "buf_len g = length ?z" "buf_len ov1 = 0" using length_contents [OF g(2)] length_contents [OF g(4)] g(3,5) by simp_all
  have gz: "bytes_at (ptr (aws_byte_cursor_from_buf g)) (cur_len (aws_byte_cursor_from_buf g)) = Inr ?z"
    using bytes_at_from_buf [OF g(2)] g(3) by simp
  show ?thesis
  proof (cases "16 < length ?z")
    case True
    have "length ?z \<le> SIZE_MAX div 2" using len by simp
    from advance_bytes [OF C gz gcm_cut_facts(1) this] obtain s t where
        st: "aws_byte_cursor_advance C (aws_byte_cursor_from_buf g) ?n = (s, t)"
          "bytes_at (ptr s) (cur_len s) = Inr (take ?n ?z)" "bytes_at (ptr t) (cur_len t) = Inr (drop ?n ?z)" by blast
    have "buf_len ov1 + length (drop ?n ?z) \<le> SIZE_MAX div 2" using l(2) len by simp
    from append_ignoring_ok [OF C g(4,6) st(3) this] obtain ov' where ov': "append_ignoring C ov1 t = Inr ov'" "valid_buf ov'"
        "allocator ov'" "contents ov' = drop ?n ?z" using g(5) by auto
    have "gcm_feed C f cur c out = f s (set_overflow ov' c) out"
      using z g(1) True l(1) st(1) ov'(1) by (simp add: gcm_feed_def Let_def gcm_cut_def)
    with st(2) ov' show ?thesis by blast
  next
    case False
    then have n: "?n = 0" by (simp add: gcm_cut_def)
    have "buf_len ov1 + length ?z \<le> SIZE_MAX div 2" using l(2) len by simp
    from append_ignoring_ok [OF C g(4,6) gz this] obtain ov' where
        ov': "append_ignoring C ov1 (aws_byte_cursor_from_buf g) = Inr ov'" "valid_buf ov'" "allocator ov'" "contents ov' = ?z"
      using g(5) by auto
    have e: "bytes_at (ptr null_cursor) (cur_len null_cursor) = Inr []" by (simp add: null_cursor_def)
    have "gcm_feed C f cur c out = f null_cursor (set_overflow ov' c) out"
      using z g(1) False l(1) ov'(1) nil [OF e] by (simp add: gcm_feed_def Let_def)
    with ov' n e show ?thesis by auto
  qed
qed

definition gcm_feed_call :: "bool \<Rightarrow> aws_byte_cursor \<Rightarrow> cipher_call" where
  "gcm_feed_call d = (if d then Encrypt else Decrypt)"

definition gcm_final :: "bool \<Rightarrow> cipher_call" where
  "gcm_final d = (if d then Finalize_encryption else Finalize_decryption)"

lemma gcm_run_call:
  assumes "cipher_good c"
  shows "block_size c = 16 \<Longrightarrow> cur_len cur + 16 \<le> INT_MAX \<Longrightarrow>
      run_call (s_aes_gcm_vtable C N) (gcm_feed_call d cur) c out = gcm_feed C (default_op d C N) cur c out"
    and "run_call (s_aes_gcm_vtable C N) (gcm_final d) c out =
      (case gcm_finalize C (default_op d C N) c out of (r, c, out) \<Rightarrow> (r, c\<lparr>cipher_good := False\<rparr>, out))"
  using assms
  by (cases d; simp add: gcm_feed_call_def gcm_final_def default_op_def aws_symmetric_cipher_encrypt_def
      aws_symmetric_cipher_decrypt_def aws_symmetric_cipher_finalize_encryption_def aws_symmetric_cipher_finalize_decryption_def
      s_check_input_size_limits_def s_aes_gcm_vtable_def s_aes_gcm_encrypt_def s_aes_gcm_decrypt_def
      s_aes_gcm_finalize_encryption_def s_aes_gcm_finalize_decryption_def)+

lemma default_op_nothing: "bytes_at (ptr cur) (cur_len cur) = Inr [] \<Longrightarrow> default_op d C N cur c out = (Inr (), c, out)"
  using crypt_nothing [of cur] by (auto simp: default_op_def)

lemma gcm_kept_specs: "gcm_kept C N X p c \<Longrightarrow> common_spec C" "gcm_kept C N X p c \<Longrightarrow> cng_gcm_spec N X"
  "gcm_kept C N X p c \<Longrightarrow> \<not> block_padding (cipher_impl c)" "gcm_kept C N X p c \<Longrightarrow> block_size c = 16"
  "gcm_kept C N X p c \<Longrightarrow> valid_buf (overflow (cipher_impl c))" "gcm_kept C N X p c \<Longrightarrow> allocator (overflow (cipher_impl c))"
  by (auto simp: gcm_kept_def split: prod.splits)

lemma gcm_args_sel: "p = (fst p, pbNonce (gcm_args p t mac v b), pbAuthData (gcm_args p t mac v b))"
  "pbTag (gcm_args p t mac v b) = t" "pbMacContext (gcm_args p t mac v b) = mac" "pbIV (gcm_args p t mac v b) = v"
  "chained (gcm_args p t mac v b) = b"
  by (simp_all add: gcm_args_def)

lemma gcm_mem_lengths: "gcm_mem t mac v c \<Longrightarrow> length t = 16 \<and> length mac = 16 \<and> length v = 16"
  by (simp add: gcm_mem_def mem16_def)

text \<open>Whole blocks in a chained call; no blocks are no call.\<close>

lemma gcm_whole:
  assumes K: "gcm_kept C N X p c" and h: "key_handle (cipher_impl c) = Some h"
      "auth_info_ptr (cipher_impl c) = Some (gcm_info p True)" "gcm_mem t mac v c" "gst X h p mac v = Some z"
    and y: "bytes_at (ptr cur) (cur_len cur) = Inr y" "16 dvd length y"
    and out: "valid_buf out" "allocator out" "capacity out \<le> ulong_bound" "buf_len out + length y \<le> ulong_bound"
  obtains h' mac' v' c' out' where "default_op d C N cur c out = (Inr (), c', out')" "gcm_kept C N X p c'"
    "cipher_good c' = cipher_good c" "auth_info_ptr (cipher_impl c') = Some (gcm_info p True)"
    "overflow (cipher_impl c') = overflow (cipher_impl c)" "key_handle (cipher_impl c') = Some h'" "gcm_mem t mac' v' c'"
    "gst X h' p mac' v' = Some (z @ gcipher X d p (length z) y)" "valid_buf out'" "allocator out'" "capacity out' \<le> ulong_bound"
    "contents out' = contents out @ part (Ks X p) (length z) y"
proof (cases "y = []")
  case True
  then show ?thesis
    using default_op_nothing [of cur d C N c out] y(1) that [of c out h mac v] K h out by (simp add: gcipher_def)
next
  case False
  note l = gcm_mem_lengths [OF h(3)]
  obtain mac' v' h' where n: "length mac' = 16" "length v' = 16" "gst X h' p mac' v' = Some (z @ gcipher X d p (length z) y)"
      "\<And>n. length y \<le> n \<Longrightarrow> gcm_call d N h y (gcm_args p t mac v True) n = (True, part (Ks X p) (length z) y, (t, mac', v'), h')"
    using gcm_chain [of N X "gcm_args p t mac v True" p "fst p" h z y d] gcm_kept_specs(2) [OF K] l h(4) False y(2)
    by (auto simp: gcm_args_sel(2-5) gcm_args_sel(1) [symmetric])
  have m: "mem16 (ctag c) t" "mem16 (working_mac_buffer (cipher_impl c)) mac" "mem16 (working_iv (cipher_impl c)) v"
    using h(3) by (simp_all add: gcm_mem_def)
  have lt: "length t = 16" and pl: "length (part (Ks X p) (length z) y) = length y" using l by simp_all
  from auth_op [OF gcm_kept_specs(1) [OF K] h(1,2) gcm_kept_specs(3) [OF K] gcm_auth_args [OF K h(3)] m lt n(1,2) y(1) False n(4) pl out]
  obtain out' where e: "default_op d C N cur c out = (Inr (), gcm_step h' t mac' v' c, out')" "valid_buf out'" "allocator out'"
      "capacity out' \<le> ulong_bound" "contents out' = contents out @ part (Ks X p) (length z) y" by blast
  show ?thesis
    by (rule that [OF e(1) _ _ _ _ _ _ n(3) e(2-5)])
      (use K h(2) gcm_step_laws(2) [OF h(3) lt n(1,2)] in \<open>simp_all add: gcm_step_laws(1)\<close>)
qed

text \<open>The invariant after the blocks of a call have been processed and the rest is kept.\<close>

lemma gcm_io_extend:
  assumes "pt = (p, t)" and k: "gcm_kept C N X p c" "cipher_good c" "auth_info_ptr (cipher_impl c) = Some (gcm_info p True)"
    and o: "contents (overflow (cipher_impl c)) = r" "r \<noteq> []" "length r \<le> 32"
    and x: "16 dvd length x" "16 dvd length y" "w = part (Ks X p) 0 x"
    and h: "key_handle (cipher_impl c) = Some h" "gcm_mem t mac v c"
    and g: "gst X h p mac v = Some (gcipher X d p 0 x @ gcipher X d p (length (gcipher X d p 0 x)) y)"
  shows "gcm_io C N X d c pt ((x @ y) @ r) (w @ part (Ks X p) (length x) y)"
proof -
  have "16 dvd length (x @ y)" using x(1,2) by simp
  moreover have "w @ part (Ks X p) (length x) y = part (Ks X p) 0 (x @ y)" using x(3) by (simp add: part_append)
  moreover have "gst X h p mac v = Some (gcipher X d p 0 (x @ y))" using g by (simp add: gcipher_laws)
  ultimately show ?thesis unfolding gcm_io_def using assms(1) k o h by auto
qed

lemma gcm_feed_ok:
  assumes io: "gcm_io C N X d c pt m w" and b: "bytes_at (ptr cur) (cur_len cur) = Inr b" and len: "length b + 16 \<le> INT_MAX"
    and out: "valid_buf out" "allocator out" "capacity out \<le> ulong_bound"
      "buf_len out + (length m - length w) + length b \<le> ulong_bound"
  shows "\<exists>w' c' out'. run_call (s_aes_gcm_vtable C N) (gcm_feed_call d cur) c out = (Inr (), c', out') \<and>
    gcm_io C N X d c' pt (m @ b) (w @ w') \<and> valid_buf out' \<and> allocator out' \<and> capacity out' \<le> ulong_bound \<and>
    contents out' = contents out @ w'"
  using io
proof (rule gcm_ioE)
  fix p t x r h mac v
  assume i: "pt = (p, t)" "gcm_kept C N X p c" "cipher_good c"
    "auth_info_ptr (cipher_impl c) = Some (gcm_info p True)" "r = contents (overflow (cipher_impl c))" "m = x @ r"
    "16 dvd length x" "w = part (Ks X p) 0 x" "key_handle (cipher_impl c) = Some h" "gcm_mem t mac v c"
    "gst X h p mac v = Some (gcipher X d p 0 x)" "m \<noteq> [] \<longrightarrow> r \<noteq> []" "length r \<le> 32"
  note K = gcm_kept_specs [OF i(2)]
  have call: "run_call (s_aes_gcm_vtable C N) (gcm_feed_call d cur) c out = gcm_feed C (default_op d C N) cur c out"
    using gcm_run_call(1) [OF i(3) K(4)] bytes_at_length [OF b] len by simp
  show ?thesis
  proof (cases "b = []")
    case True
    then have "gcm_feed C (default_op d C N) cur c out = (Inr (), c, out)"
      using bytes_at_length [OF b] by (simp add: gcm_feed_def)
    with call io True out show ?thesis by (intro exI [of _ "[]"] exI [of _ c] exI [of _ out]) simp
  next
    case False
    let ?z = "r @ b"
    let ?y = "take (gcm_cut (length ?z)) ?z" and ?r = "drop (gcm_cut (length ?z)) ?z"
    have "length r + length b \<le> SIZE_MAX div 2" using i(13) len by simp
    from gcm_feed_split [where f = "default_op d C N", OF K(1,5,6) i(5) [symmetric] b False this default_op_nothing]
    obtain s ov where f: "gcm_feed C (default_op d C N) cur c out = default_op d C N s (set_overflow ov c) out"
        "bytes_at (ptr s) (cur_len s) = Inr ?y" "valid_buf ov" "allocator ov" "contents ov = ?r" by blast
    let ?c = "set_overflow ov c"
    have y: "16 dvd length ?y" using gcm_cut_facts(1,3) by (metis length_take min.absorb2)
    have room: "buf_len out + length ?y \<le> ulong_bound" using out(4) i(6,8) gcm_cut_facts(1) [of "length ?z"] by simp
    have c: "gcm_kept C N X p ?c" "key_handle (cipher_impl ?c) = Some h" "auth_info_ptr (cipher_impl ?c) = Some (gcm_info p True)"
      "gcm_mem t mac v ?c" using i(2,4,9,10) f(3,4) by (simp_all add: gcm_kept_def gcm_mem_def)
    obtain h' mac' v' c' out' where e: "default_op d C N s ?c out = (Inr (), c', out')" "gcm_kept C N X p c'"
        "cipher_good c' = cipher_good ?c" "auth_info_ptr (cipher_impl c') = Some (gcm_info p True)"
        "overflow (cipher_impl c') = overflow (cipher_impl ?c)" "key_handle (cipher_impl c') = Some h'" "gcm_mem t mac' v' c'"
        "gst X h' p mac' v' = Some (gcipher X d p 0 x @ gcipher X d p (length (gcipher X d p 0 x)) ?y)"
        "valid_buf out'" "allocator out'" "capacity out' \<le> ulong_bound"
        "contents out' = contents out @ part (Ks X p) (length (gcipher X d p 0 x)) ?y"
      by (rule gcm_whole [OF c i(11) f(2) y out(1-3) room])
    have r: "contents (overflow (cipher_impl c')) = ?r" "?r \<noteq> []" "length ?r \<le> 32" "cipher_good c'"
      using gcm_cut_facts(2,4) [of "length ?z"] False e(3,5) f(5) i(3) by simp_all linarith
    have "m @ b = (x @ ?y) @ ?r" using i(6) by (metis append.assoc append_take_drop_id)
    with gcm_io_extend [OF i(1) e(2) r(4) e(4) r(1-3) i(7) y i(8) e(6-8)]
    have "gcm_io C N X d c' pt (m @ b) (w @ part (Ks X p) (length x) ?y)" by simp
    with call f(1) e(1,9-12) show ?thesis by (auto simp: gcipher_laws(1))
  qed
qed

text \<open>What a finalize call accepts, and what it leaves. Without input no tag is made or checked.\<close>

definition gcm_accepts :: "('a, 'k) cng_gcm \<Rightarrow> bool \<Rightarrow> gcm_params \<times> bytes \<Rightarrow> bytes \<Rightarrow> bytes \<Rightarrow> bool" where
  "gcm_accepts X d pt m w \<longleftrightarrow> w = part (Ks X (fst pt)) 0 m \<and>
     (m = [] \<or> d \<or> snd pt = Gtag X (fst pt) (gcipher X d (fst pt) 0 m))"

definition gcm_rejects :: "('a, 'k) cng_gcm \<Rightarrow> bool \<Rightarrow> gcm_params \<times> bytes \<Rightarrow> bytes \<Rightarrow> bool" where
  "gcm_rejects X d pt m \<longleftrightarrow> m \<noteq> [] \<and> \<not> d \<and> snd pt \<noteq> Gtag X (fst pt) (gcipher X d (fst pt) 0 m)"

definition gcm_post :: "aws_common \<Rightarrow> ('a, 'k) cng_api \<Rightarrow> ('a, 'k) cng_gcm \<Rightarrow> bool \<Rightarrow> gcm_params \<times> bytes \<Rightarrow> bytes \<Rightarrow>
    ('a, 'k) bcrypt_cipher \<Rightarrow> bool" where
  "gcm_post C N X d pt m c \<longleftrightarrow> gcm_kept C N X (fst pt) c \<and> (\<exists>mac v. gcm_mem
     (if m = [] then snd pt else Gtag X (fst pt) (gcipher X d (fst pt) 0 m)) mac v c)"

lemma gcm_after_final:
  assumes K: "gcm_kept C N X p c" and m: "gcm_mem t mac v c"
  shows "gcm_kept C N X p ((on_impl (\<lambda>i. i\<lparr>working_iv := aws_byte_buf_secure_zero C (working_iv i)\<rparr>) (zero_overflow C c))\<lparr>cipher_good := g\<rparr>)"
    and "gcm_mem t mac (replicate 16 0)
      ((on_impl (\<lambda>i. i\<lparr>working_iv := aws_byte_buf_secure_zero C (working_iv i)\<rparr>) (zero_overflow C c))\<lparr>cipher_good := g\<rparr>)"
  using K m secure_zero_law [OF gcm_kept_specs(1) [OF K] gcm_kept_specs(5) [OF K]] mem16_zeroed(1) [OF gcm_kept_specs(1) [OF K]]
  by (auto simp: gcm_kept_def gcm_mem_def zero_overflow_def split: prod.splits)

lemma gcm_unchain:
  assumes "gcm_kept C N X p c" and "gcm_mem t mac v c" and "key_handle (cipher_impl c) = Some h"
  defines "c1 \<equiv> on_impl (\<lambda>i. i\<lparr>auth_info_ptr := Some (gcm_info p False)\<rparr>) c"
  shows "gcm_kept C N X p c1" "gcm_mem t mac v c1" "key_handle (cipher_impl c1) = Some h"
    "auth_info_ptr (cipher_impl c1) = Some (gcm_info p False)" "\<not> block_padding (cipher_impl c1)"
    "auth_args (gcm_info p False) c1 = Inr (gcm_args p t mac v False)"
proof -
  show K: "gcm_kept C N X p c1" "gcm_mem t mac v c1" using assms(1,2) by (simp_all add: c1_def gcm_kept_def gcm_mem_def)
  show "\<not> block_padding (cipher_impl c1)" by (rule gcm_kept_specs(3) [OF K(1)])
  show "auth_args (gcm_info p False) c1 = Inr (gcm_args p t mac v False)" by (rule gcm_auth_args [OF K])
qed (simp_all add: c1_def assms(3))

lemma gcm_final_run:
  assumes "cipher_good c" and "auth_info_ptr (cipher_impl c) = Some (gcm_info p True)"
    and "default_op d C N (aws_byte_cursor_from_buf (overflow (cipher_impl c)))
      (on_impl (\<lambda>i. i\<lparr>auth_info_ptr := Some (gcm_info p False)\<rparr>) c) out = (r, c1, out1)"
  shows "run_call (s_aes_gcm_vtable C N) (gcm_final d) c out =
    (r, (on_impl (\<lambda>i. i\<lparr>working_iv := aws_byte_buf_secure_zero C (working_iv i)\<rparr>) (zero_overflow C c1))\<lparr>cipher_good := False\<rparr>, out1)"
proof -
  have "gcm_info p True\<lparr>chain_calls := False\<rparr> = gcm_info p False" by (simp add: gcm_info_def)
  with assms show ?thesis by (simp add: gcm_run_call(2) gcm_finalize_def)
qed

lemma gcm_finish_ok:
  assumes io: "gcm_io C N X d c pt m w" and a: "gcm_accepts X d pt m u"
    and out: "valid_buf out" "allocator out" "capacity out \<le> ulong_bound" "buf_len out + (length m - length w) + 16 \<le> ulong_bound"
  shows "\<exists>w' c' out'. run_call (s_aes_gcm_vtable C N) (gcm_final d) c out = (Inr (), c', out') \<and> u = w @ w' \<and>
    gcm_post C N X d pt m c' \<and> valid_buf out' \<and> contents out' = contents out @ w'"
  using io
proof (rule gcm_ioE)
  fix p t x r h mac v
  assume i: "pt = (p, t)" "gcm_kept C N X p c" "cipher_good c"
    "auth_info_ptr (cipher_impl c) = Some (gcm_info p True)" "r = contents (overflow (cipher_impl c))" "m = x @ r"
    "16 dvd length x" "w = part (Ks X p) 0 x" "key_handle (cipher_impl c) = Some h" "gcm_mem t mac v c"
    "gst X h p mac v = Some (gcipher X d p 0 x)" "m \<noteq> [] \<longrightarrow> r \<noteq> []" "length r \<le> 32"
  note K = gcm_kept_specs [OF i(2)] and un = gcm_unchain [OF i(2,10,9)] and l = gcm_mem_lengths [OF i(10)]
  let ?cur = "aws_byte_cursor_from_buf (overflow (cipher_impl c))" and ?c = "on_impl (\<lambda>i. i\<lparr>auth_info_ptr := Some (gcm_info p False)\<rparr>) c"
  have r: "bytes_at (ptr ?cur) (cur_len ?cur) = Inr r" using bytes_at_from_buf [OF K(5)] i(5) by simp
  show ?thesis
  proof (cases "r = []")
    case True
    then have e: "m = []" "w = []" "u = []" using i(1,6,8,12) a by (auto simp: gcm_accepts_def)
    have "default_op d C N ?cur ?c out = (Inr (), ?c, out)" using default_op_nothing r True by blast
    from gcm_final_run [OF i(3,4) this] e out(1) gcm_after_final [OF un(1,2)] i(1) show ?thesis
      by (auto simp: gcm_post_def)
  next
    case False
    let ?y = "gcipher X d p 0 x" and ?g = "gcm_args p t mac v False"
    let ?t = "Gtag X p (?y @ gcipher X d p (length ?y) r)"
    have T: "?t = Gtag X p (gcipher X d p 0 m)" using i(6) by (simp add: gcipher_laws)
    have ok: "d \<or> pbTag ?g = ?t" using a i(1,6) False T by (auto simp: gcm_accepts_def gcm_args_sel)
    have "length (pbMacContext ?g) = 16" "length (pbIV ?g) = 16" "length (pbTag ?g) = 16" "\<not> chained ?g"
      "gst X h p (pbMacContext ?g) (pbIV ?g) = Some ?y" using l i(11) by (simp_all add: gcm_args_sel)
    from gcm_last(1) [OF K(2) this(4,1-3) gcm_args_sel(1) this(5) False refl ok] obtain mac' v' h' where
        n: "length mac' = 16" "length v' = 16"
          "\<And>n. length r \<le> n \<Longrightarrow> gcm_call d N h r ?g n = (True, part (Ks X p) (length ?y) r, (?t, mac', v'), h')" by blast
    have m: "mem16 (ctag ?c) t" "mem16 (working_mac_buffer (cipher_impl ?c)) mac" "mem16 (working_iv (cipher_impl ?c)) v"
      using un(2) by (simp_all only: gcm_mem_def)
    have lt: "length ?t = 16" and pl: "length (part (Ks X p) (length ?y) r) = length r" using gcm_tag_length [OF K(2)] by simp_all
    have room: "buf_len out + length r \<le> ulong_bound" using out(4) i(6,8) by simp
    from auth_op [OF K(1) un(3-6) m lt n(1,2) r False n(3) pl out(1-3) room] obtain out' where
        e: "default_op d C N ?cur ?c out = (Inr (), gcm_step h' ?t mac' v' ?c, out')" "valid_buf out'"
          "contents out' = contents out @ part (Ks X p) (length ?y) r" by blast
    have k: "gcm_kept C N X p (gcm_step h' ?t mac' v' ?c)" "gcm_mem ?t mac' v' (gcm_step h' ?t mac' v' ?c)"
      using gcm_step_laws(2) [OF un(2) lt n(1,2)] un(1) by (simp_all add: gcm_step_laws(1))
    have u: "u = w @ part (Ks X p) (length ?y) r" using a i(1,6,8) by (simp add: gcm_accepts_def part_append gcipher_laws)
    have "m \<noteq> []" using False i(6) by simp
    let ?c' = "(on_impl (\<lambda>i. i\<lparr>working_iv := aws_byte_buf_secure_zero C (working_iv i)\<rparr>)
      (zero_overflow C (gcm_step h' ?t mac' v' ?c)))\<lparr>cipher_good := False\<rparr>"
    from \<open>m \<noteq> []\<close> gcm_after_final [OF k, of False] T have "gcm_post C N X d pt m ?c'" unfolding gcm_post_def i(1) by auto
    with gcm_final_run [OF i(3,4) e(1)] e(2,3) u show ?thesis by blast
  qed
qed

lemma gcm_finish_rejects:
  assumes io: "gcm_io C N X d c pt m w" and a: "gcm_rejects X d pt m"
    and out: "valid_buf out" "allocator out" "capacity out \<le> ulong_bound" "buf_len out + (length m - length w) + 16 \<le> ulong_bound"
  shows "\<exists>c' out'. run_call (s_aes_gcm_vtable C N) (gcm_final d) c out = (Inl (Raised AWS_ERROR_INVALID_ARGUMENT), c', out') \<and>
    contents out' = contents out"
  using io
proof (rule gcm_ioE)
  fix p t x r h mac v
  assume i: "pt = (p, t)" "gcm_kept C N X p c" "cipher_good c"
    "auth_info_ptr (cipher_impl c) = Some (gcm_info p True)" "r = contents (overflow (cipher_impl c))" "m = x @ r"
    "16 dvd length x" "w = part (Ks X p) 0 x" "key_handle (cipher_impl c) = Some h" "gcm_mem t mac v c"
    "gst X h p mac v = Some (gcipher X d p 0 x)" "m \<noteq> [] \<longrightarrow> r \<noteq> []" "length r \<le> 32"
  note K = gcm_kept_specs [OF i(2)] and un = gcm_unchain [OF i(2,10,9)] and l = gcm_mem_lengths [OF i(10)]
  let ?cur = "aws_byte_cursor_from_buf (overflow (cipher_impl c))" and ?c = "on_impl (\<lambda>i. i\<lparr>auth_info_ptr := Some (gcm_info p False)\<rparr>) c"
  have r: "bytes_at (ptr ?cur) (cur_len ?cur) = Inr r" "r \<noteq> []"
    using bytes_at_from_buf [OF K(5)] i(5,12) a by (simp_all add: gcm_rejects_def)
  let ?y = "gcipher X d p 0 x" and ?g = "gcm_args p t mac v False"
  let ?t = "Gtag X p (?y @ gcipher X d p (length ?y) r)"
  have bad: "\<not> (d \<or> pbTag ?g = ?t)" using a i(1,6) by (auto simp: gcm_rejects_def gcm_args_sel gcipher_laws)
  have "length (pbMacContext ?g) = 16" "length (pbIV ?g) = 16" "length (pbTag ?g) = 16" "\<not> chained ?g"
    "gst X h p (pbMacContext ?g) (pbIV ?g) = Some ?y" using l i(11) by (simp_all add: gcm_args_sel)
  from gcm_last(2) [OF K(2) this(4,1-3) gcm_args_sel(1) this(5) r(2) refl bad]
  have n: "\<And>n. \<not> fst (gcm_call d N h r ?g n)" .
  have room: "buf_len out + length r \<le> ulong_bound" using out(4) i(6,8) by simp
  from auth_op_fails [OF K(1) un(3-6) r n out(1-3) room] obtain c' out' where
      e: "default_op d C N ?cur ?c out = (Inl (Raised AWS_ERROR_INVALID_ARGUMENT), c', out')" "contents out' = contents out" by blast
  from gcm_final_run [OF i(3,4) e(1)] e(2) show ?thesis by blast
qed

interpretation cng_gcm: cipher_stream "s_aes_gcm_vtable C N" "gcm_feed_call d" "gcm_final d" "gcm_io C N X d"
  "\<lambda>_. ulong_bound" ulong_bound "gcm_accepts X d" "gcm_rejects X d" "gcm_post C N X d" for C N X d
proof (unfold_locales, goal_cases)
  case (1 c p m w cur b out)
  then have "buf_len out + (length m - length w) + length b \<le> ulong_bound" by linarith
  from gcm_feed_ok [OF 1(1-3,5-7) this] show ?case .
next
  case (2 c p m w)
  then show ?case by (rule gcm_ioE) simp
next
  case (3 c p m w t out)
  from gcm_finish_ok [OF 3(1,2,4-7)] show ?case .
next
  case (4 c p m w out)
  from gcm_finish_rejects [OF 4(1,2,4-7)] show ?case .
qed

section \<open>New and reset ciphers\<close>

definition gcm_fresh :: "aws_common \<Rightarrow> ('a, 'k) cng_api \<Rightarrow> ('a, 'k) cng_gcm \<Rightarrow> gcm_params \<times> bytes \<Rightarrow> ('a, 'k) bcrypt_cipher \<Rightarrow> bool" where
  "gcm_fresh C N X pt c \<longleftrightarrow> (\<forall>d. gcm_io C N X d c pt [] [])"

lemma gcm_freshI:
  assumes "gcm_kept C N X p c" and "cipher_good c" and "auth_info_ptr (cipher_impl c) = Some (gcm_info p True)"
    and "key_handle (cipher_impl c) = Some h" and "gst X h p (replicate 16 0) (replicate 16 0) = Some []"
    and "gcm_mem t (replicate 16 0) (replicate 16 0) c" and "buf_len (overflow (cipher_impl c)) = 0"
  shows "gcm_fresh C N X (p, t) c"
proof -
  have "contents (overflow (cipher_impl c)) = []" by (rule contents_empty [OF gcm_kept_specs(5) [OF assms(1)] assms(7)])
  with assms show ?thesis unfolding gcm_fresh_def gcm_io_def
    by (intro allI conjI exI [of _ "[]"] exI [of _ h] exI [of _ "replicate 16 0"]) (simp_all add: gcipher_def)
qed

lemma zeroed_ok:
  assumes "common_spec C"
  obtains b where "zeroed C = Inr b" "mem16 b (replicate 16 0)" "buf_len b = 16"
proof -
  have "(16 :: nat) \<le> SIZE_MAX div 2" by simp
  from init_law [OF assms this] obtain b where b: "aws_byte_buf_init C 16 = Inr b" "fresh_buf 16 b" by blast
  then obtain m where "mem16 b m" by (auto simp: fresh_buf_def mem16_def valid_buf_def split: option.splits)
  from mem16_zeroed(2) [OF assms this] b(1) that show ?thesis by (simp add: zeroed_def or_zero_def)
qed

lemma tag_copied:
  assumes "common_spec C" and "bytes_at (ptr tc) (cur_len tc) = Inr t" and "length t = 16"
  obtains b where "copy_cursor C tc = Inr b" "mem16 b t" "buf_len b = 16"
proof -
  have "length t \<le> SIZE_MAX div 2" "t \<noteq> []" using assms(3) by auto
  from copied [OF assms(1,2) this(1)] this(2) assms(3) that show ?thesis by (auto simp: mem16_def)
qed

text \<open>The set-up of a GCM cipher once its buffers are there.\<close>

lemma materials_gcm:
  assumes C: "common_spec C"
    and kb: "(if buf_len (key c) \<noteq> 0 then Inr (key c) else key_material C kc) = Inr kb" "valid_buf kb" "contents kb = k" "length k = 32"
    and vb: "(if buf_len (iv c) \<noteq> 0 then Inr (iv c) else iv_material C 12 False vc) = Inr vb" "buf_len vb = 12"
    and g: "gcm_materials C t a (c\<lparr>key := kb, iv := vb\<rparr>) = Inr c2" "key c2 = kb" "iv c2 = vb" "buf_len (ctag c2) = 16"
      "buf_len (working_mac_buffer (cipher_impl c2)) = 16" "buf_len (aad c2) = length (snd (snd p))" "length (snd (snd p)) \<le> ulong_bound"
    and h: "key_imports N (alg_handle (cipher_impl c2)) k h"
  shows "s_initialize_cipher_materials C N c kc vc t a 12 False True =
    (Inr (), on_impl (\<lambda>i. i\<lparr>key_handle := Some h, block_padding := False, auth_info_ptr := Some (gcm_info p True)\<rparr>) c2)"
proof -
  have "s_import_key_blob C N (alg_handle (cipher_impl c2)) kb = Inr h"
    by (rule import_ok [OF C kb(2,3) _ h]) (simp add: kb(4))
  then show ?thesis
    using kb(1) vb g by (simp add: s_initialize_cipher_materials_def set_up_mode_def on_impl_def gcm_info_def)
qed

lemma gcm_new_ok:
  assumes C: "common_spec C" and X: "cng_gcm_spec N X" "s_aes_gcm_algorithm_handle H = gcm_alg X"
    and k: "bytes_at (ptr kc) (cur_len kc) = Inr k" "length k = 32"
    and v: "bytes_at (ptr vc) (cur_len vc) = Inr v" "length v = 12"
    and a: "bytes_at (ptr ac) (cur_len ac) = Inr a" "length a \<le> ulong_bound"
    and t: "case tc of None \<Rightarrow> t = replicate 16 0 | Some cur \<Rightarrow> bytes_at (ptr cur) (cur_len cur) = Inr t \<and> length t = 16"
  shows "\<exists>c. bcrypt_gcm_256_new_impl C N H (Some kc) (Some vc) (Some ac) tc = Inr c \<and> gcm_fresh C N X ((k, v, a), t) c"
proof -
  obtain h where h: "key_imports N (gcm_alg X) k h" "\<forall>n a. gst X h (k, n, a) (replicate 16 0) (replicate 16 0) = Some []"
    by (rule gcm_start [OF X(1) k(2)])
  have kl: "length k \<le> 4096" and vl: "length v \<le> 4096" and al: "length a \<le> SIZE_MAX div 2" using k(2) v(2) a(2) by simp_all
  obtain kb where kb: "key_material C (Some kc) = Inr kb" "valid_buf kb" "contents kb = k" by (rule new_material [OF C k(1) kl])
  obtain vb where vb: "iv_material C 12 False (Some vc) = Inr vb" "valid_buf vb" "contents vb = v"
    by (rule new_material [OF C v(1) vl])
  obtain ab where ab: "copy_cursor C ac = Inr ab" "valid_buf ab" "contents ab = a" "buf_len ab = length a"
    using copied [OF C a(1) al] by blast
  obtain mb where mb: "zeroed C = Inr mb" "mem16 mb (replicate 16 0)" "buf_len mb = 16" by (rule zeroed_ok [OF C])
  obtain tb where tb: "(case tc of Some cur \<Rightarrow> copy_cursor C cur | None \<Rightarrow> zeroed C) = Inr tb" "mem16 tb t" "buf_len tb = 16"
    using t mb by (cases tc) (auto elim: tag_copied [OF C])
  let ?c = "calloc_cipher (gcm_alg X) 16 :: ('a, 'b) bcrypt_cipher"
  have z: "buf_len (key ?c) = 0" "buf_len (iv ?c) = 0" "buf_len (ctag ?c) = 0" "buf_len (aad ?c) = 0"
      "buf_len (working_mac_buffer (cipher_impl ?c)) = 0" "alg_handle (cipher_impl ?c) = gcm_alg X" "block_size ?c = 16"
    by (simp_all add: calloc_cipher_def zero_buf_def)
  let ?c2 = "on_impl (\<lambda>i. i\<lparr>working_mac_buffer := mb\<rparr>) (?c\<lparr>key := kb, iv := vb, ctag := tb, aad := ab\<rparr>)"
  have vlen: "buf_len vb = 12" using length_contents [OF vb(2)] vb(3) v(2) by simp
  have g: "gcm_materials C tc (Some ac) (?c\<lparr>key := kb, iv := vb\<rparr>) = Inr ?c2"
    using tb(1) ab(1) mb(1) z by (simp add: gcm_materials_def)
  have i: "s_initialize_cipher_materials C N ?c (Some kc) (Some vc) tc (Some ac) 12 False True =
      (Inr (), on_impl (\<lambda>i. i\<lparr>key_handle := Some h, block_padding := False, auth_info_ptr := Some (gcm_info (k, v, a) True)\<rparr>) ?c2)"
    by (rule materials_gcm [OF C _ kb(2,3) k(2) _ vlen g]) (use a(2) in \<open>simp_all add: z kb(1) vb(1) h(1) tb(3) mb(3) ab(4)\<close>)
  have "(32 :: nat) \<le> SIZE_MAX div 2" "(16 :: nat) \<le> SIZE_MAX div 2" by simp_all
  with init_law [OF C] obtain ov w where ov: "aws_byte_buf_init C 32 = Inr ov" "fresh_buf 32 ov" "aws_byte_buf_init C 16 = Inr w" "fresh_buf 16 w"
    by meson
  then obtain m0 where "mem16 w m0" by (auto simp: fresh_buf_def mem16_def valid_buf_def split: option.splits)
  note w = mem16_zeroed(1) [OF C this]
  let ?d = "(on_impl (\<lambda>i. i\<lparr>overflow := ov, working_iv := aws_byte_buf_secure_zero C w, iv_shared := False\<rparr>) (on_impl
     (\<lambda>i. i\<lparr>key_handle := Some h, block_padding := False, auth_info_ptr := Some (gcm_info (k, v, a) True)\<rparr>) ?c2))\<lparr>cipher_good := True\<rparr>"
  have "bcrypt_gcm_256_new_impl C N H (Some kc) (Some vc) (Some ac) tc = Inr ?d"
    using i ov(1,3) X(2) by (simp add: bcrypt_gcm_256_new_impl_def or_zero_def)
  moreover have "gcm_fresh C N X ((k, v, a), t) ?d"
    by (rule gcm_freshI [OF _ _ _ _ h(2) [rule_format]])
      (use C X(1) k(2) v(2) a(2) kb vb ab tb mb w ov(2) z(6,7) in \<open>simp_all add: gcm_kept_def gcm_mem_def fresh_buf_def\<close>)
  ultimately show ?thesis by blast
qed

lemma gcm_reset_ok:
  assumes K: "gcm_kept C N X p c" and m: "gcm_mem t mac v c"
  shows "\<exists>c'. aws_symmetric_cipher_reset (s_aes_gcm_vtable C N) c = (Inr (), c') \<and> gcm_fresh C N X (p, t) c'"
proof -
  obtain k n a where p: "p = (k, n, a)" by (metis prod_cases3)
  with K have x: "common_spec C" "cng_gcm_spec N X" "length k = 32" "valid_buf (key c)" "contents (key c) = k" "valid_buf (iv c)"
    "contents (iv c) = n" "length n = 12" "valid_buf (aad c)" "contents (aad c) = a" "length (snd (snd p)) \<le> ulong_bound" "buf_len (ctag c) = 16"
    "alg_handle (cipher_impl c) = gcm_alg X" "\<not> iv_shared (cipher_impl c)"
    by (simp_all add: gcm_kept_def)
  obtain h where h: "key_imports N (gcm_alg X) k h" "\<forall>n a. gst X h (k, n, a) (replicate 16 0) (replicate 16 0) = Some []"
    by (rule gcm_start [OF x(2,3)])
  have l: "buf_len (key c) = 32" "buf_len (iv c) = 12" "buf_len (aad c) = length a"
    using length_contents [OF x(4)] length_contents [OF x(6)] length_contents [OF x(9)] x(3,5,7,8,10) by simp_all
  let ?c = "s_clear_reusable_components C c"
  have z: "gcm_mem t (replicate 16 0) (replicate 16 0) ?c" "buf_len (working_mac_buffer (cipher_impl ?c)) = 16"
    using m x(1,14) mem16_zeroed by (auto simp: gcm_mem_def s_clear_reusable_components_def)
  have g: "gcm_materials C None None (?c\<lparr>key := key c, iv := iv c\<rparr>) = Inr (?c\<lparr>key := key c, iv := iv c\<rparr>)"
    using x(12) z(2) by (simp add: gcm_materials_def on_impl_def)
  have i: "s_initialize_cipher_materials C N ?c None None None None 12 False True =
      (Inr (), on_impl (\<lambda>i. i\<lparr>key_handle := Some h, block_padding := False, auth_info_ptr := Some (gcm_info p True)\<rparr>)
        (?c\<lparr>key := key c, iv := iv c\<rparr>))"
    by (rule materials_gcm [OF x(1) _ x(4,5,3) _ l(2) g _ _ _ _ _ x(11)]) (simp_all add: l p x(12,13) z(2) h(1))
  let ?d = "(on_impl (\<lambda>i. i\<lparr>key_handle := Some h, block_padding := False, auth_info_ptr := Some (gcm_info p True)\<rparr>)
        (?c\<lparr>key := key c, iv := iv c\<rparr>))\<lparr>cipher_good := True\<rparr>"
  have "aws_symmetric_cipher_reset (s_aes_gcm_vtable C N) c = (Inr (), ?d)"
    using i by (simp add: aws_symmetric_cipher_reset_def s_aes_gcm_vtable_def s_reset_gcm_cipher_def)
  moreover have "gcm_fresh C N X (p, t) ?d"
  proof (rule gcm_freshI)
    show "gst X h p (replicate 16 0) (replicate 16 0) = Some []" using h(2) p by simp
    show "gcm_kept C N X p ?d" "gcm_mem t (replicate 16 0) (replicate 16 0) ?d" "buf_len (overflow (cipher_impl ?d)) = 0"
      using K z secure_zero_law [OF x(1) gcm_kept_specs(5) [OF K]]
      by (auto simp: gcm_kept_def gcm_mem_def s_clear_reusable_components_def split: prod.splits)
  qed simp_all
  ultimately show ?thesis by blast
qed

section \<open>Whole messages\<close>

text \<open>
  Claim C20. On Windows, a new GCM cipher that is fed a non-empty message in any pieces and finalized writes
  its encryption and reports the tag of that cipher text under the key, nonce and additional data. After a reset, the
  same cipher fed any non-empty text in any pieces succeeds and writes its decryption exactly when the text has that tag, and
  otherwise fails with AWS_ERROR_INVALID_ARGUMENT; the cipher text of the message decrypts to the message.
\<close>

theorem cng_gcm_round_trip:
  assumes C: "common_spec C" and X: "cng_gcm_spec N X" "s_aes_gcm_algorithm_handle H = gcm_alg X"
    and k: "bytes_at (ptr kc) (cur_len kc) = Inr k" "length k = 32"
    and v: "bytes_at (ptr vc) (cur_len vc) = Inr v" "length v = 12"
    and a: "bytes_at (ptr ac) (cur_len ac) = Inr a" "length a \<le> ulong_bound"
    and ps: "pieces cs bs" "\<forall>b \<in> set bs. length b + 16 \<le> INT_MAX" "concat bs \<noteq> []"
    and out: "valid_buf out" "allocator out" "capacity out \<le> ulong_bound"
      "buf_len out + length (concat bs) + 16 \<le> ulong_bound"
    and q: "p = (k, v, a)" "q = part (Ks X p) 0 (concat bs)"
  shows "\<exists>c c1 c2 c3 out1 out2. bcrypt_gcm_256_new_impl C N H (Some kc) (Some vc) (Some ac) None = Inr c \<and>
    run_calls (s_aes_gcm_vtable C N) (map Encrypt cs) c out = (replicate (length cs) (Inr ()), c1, out1) \<and>
    aws_symmetric_cipher_finalize_encryption (s_aes_gcm_vtable C N) c1 out1 = (Inr (), c2, out2) \<and>
    contents out2 = contents out @ q \<and>
    bytes_at (ptr (aws_symmetric_cipher_get_tag c2)) (cur_len (aws_symmetric_cipher_get_tag c2)) = Inr (Gtag X p q) \<and>
    aws_symmetric_cipher_reset (s_aes_gcm_vtable C N) c2 = (Inr (), c3) \<and>
    (\<forall>ds ws res. pieces ds ws \<longrightarrow> (\<forall>b \<in> set ws. length b + 16 \<le> INT_MAX) \<longrightarrow> concat ws \<noteq> [] \<longrightarrow>
      valid_buf res \<longrightarrow> allocator res \<longrightarrow> capacity res \<le> ulong_bound \<longrightarrow> buf_len res + length (concat ws) + 16 \<le> ulong_bound \<longrightarrow>
      (\<exists>d1 d2 res1 res2 r. run_calls (s_aes_gcm_vtable C N) (map Decrypt ds) c3 res = (replicate (length ds) (Inr ()), d1, res1) \<and>
         aws_symmetric_cipher_finalize_decryption (s_aes_gcm_vtable C N) d1 res1 = (r, d2, res2) \<and>
         (if Gtag X p (concat ws) = Gtag X p q then r = Inr () \<and> contents res2 = contents res @ part (Ks X p) 0 (concat ws)
          else r = Inl (Raised AWS_ERROR_INVALID_ARGUMENT)))) \<and>
    part (Ks X p) 0 q = concat bs"
proof -
  obtain c where c: "bcrypt_gcm_256_new_impl C N H (Some kc) (Some vc) (Some ac) None = Inr c" "gcm_io C N X True c (p, replicate 16 0) [] []"
    using gcm_new_ok [OF C X k v a, where tc = None and t = "replicate 16 0"] q(1) by (auto simp: gcm_fresh_def)
  have lim: "length (concat bs) \<le> ulong_bound" using out(4) by linarith
  have acc: "gcm_accepts X True (p, replicate 16 0) (concat bs) q" using q(2) by (simp add: gcm_accepts_def)
  from cng_gcm.stream_ok [OF ps(1) c(2) ps(2) lim out] acc obtain c1 out1 c2 out2 where
      e: "run_calls (s_aes_gcm_vtable C N) (map Encrypt cs) c out = (replicate (length cs) (Inr ()), c1, out1)"
        "aws_symmetric_cipher_finalize_encryption (s_aes_gcm_vtable C N) c1 out1 = (Inr (), c2, out2)"
        "contents out2 = contents out @ q" "gcm_post C N X True (p, replicate 16 0) (concat bs) c2"
    by (auto simp: gcm_feed_call_def gcm_final_def)
  obtain mac v' where t: "gcm_kept C N X p c2" "gcm_mem (Gtag X p q) mac v' c2"
    using e(4) ps(3) q(2) by (auto simp: gcm_post_def gcipher_def simp del: concat_eq_Nil_conv)
  then have "valid_buf (ctag c2)" "contents (ctag c2) = Gtag X p q"
    by (auto simp: gcm_mem_def mem16_def gcm_kept_def contents_def split: prod.splits)
  then have tag: "bytes_at (ptr (aws_symmetric_cipher_get_tag c2)) (cur_len (aws_symmetric_cipher_get_tag c2)) = Inr (Gtag X p q)"
    by (simp add: aws_symmetric_cipher_get_tag_def bytes_at_from_buf)
  obtain c3 where c3: "aws_symmetric_cipher_reset (s_aes_gcm_vtable C N) c2 = (Inr (), c3)" "gcm_io C N X False c3 (p, Gtag X p q) [] []"
    using gcm_reset_ok [OF t] unfolding gcm_fresh_def by blast
  have "\<exists>d1 d2 res1 res2 r. run_calls (s_aes_gcm_vtable C N) (map Decrypt ds) c3 res = (replicate (length ds) (Inr ()), d1, res1) \<and>
         aws_symmetric_cipher_finalize_decryption (s_aes_gcm_vtable C N) d1 res1 = (r, d2, res2) \<and>
         (if Gtag X p (concat ws) = Gtag X p q then r = Inr () \<and> contents res2 = contents res @ part (Ks X p) 0 (concat ws)
          else r = Inl (Raised AWS_ERROR_INVALID_ARGUMENT))"
    if w: "pieces ds ws" "\<forall>b \<in> set ws. length b + 16 \<le> INT_MAX" "concat ws \<noteq> []" "valid_buf res" "allocator res"
      "capacity res \<le> ulong_bound" "buf_len res + length (concat ws) + 16 \<le> ulong_bound" for ds ws res
  proof -
    have l: "length (concat ws) \<le> ulong_bound" using w(7) by linarith
    have "gcm_accepts X False (p, Gtag X p q) (concat ws) (part (Ks X p) 0 (concat ws)) \<or> gcm_rejects X False (p, Gtag X p q) (concat ws)"
      "gcm_accepts X False (p, Gtag X p q) (concat ws) (part (Ks X p) 0 (concat ws)) \<longleftrightarrow> Gtag X p (concat ws) = Gtag X p q"
      using w(3) unfolding gcm_accepts_def gcm_rejects_def gcipher_def by auto
    with cng_gcm.stream_ok [OF w(1) c3(2) w(2) l w(4-7)] show ?thesis
      by (simp add: gcm_feed_call_def gcm_final_def) metis
  qed
  with c(1) e(1-3) tag c3(1) q(2) show ?thesis by auto
qed

text \<open>
  On Windows, GCM without data is not authenticated: a new cipher with any tag and any additional data that is
  finalized for decryption without having been fed anything succeeds, whatever the tag is, and one
  that is finalized for encryption reports a tag of 16 zero bytes.
\<close>

theorem cng_gcm_empty_unauthenticated:
  assumes C: "common_spec C" and X: "cng_gcm_spec N X" "s_aes_gcm_algorithm_handle H = gcm_alg X"
    and k: "bytes_at (ptr kc) (cur_len kc) = Inr k" "length k = 32"
    and v: "bytes_at (ptr vc) (cur_len vc) = Inr v" "length v = 12"
    and a: "bytes_at (ptr ac) (cur_len ac) = Inr a" "length a \<le> ulong_bound"
    and t: "bytes_at (ptr tc) (cur_len tc) = Inr t" "length t = 16"
    and out: "valid_buf out" "allocator out" "capacity out \<le> ulong_bound" "buf_len out + 16 \<le> ulong_bound"
  shows "\<exists>c c2 e e2 out2 out3. bcrypt_gcm_256_new_impl C N H (Some kc) (Some vc) (Some ac) (Some tc) = Inr c \<and>
    aws_symmetric_cipher_finalize_decryption (s_aes_gcm_vtable C N) c out = (Inr (), c2, out2) \<and> contents out2 = contents out \<and>
    bcrypt_gcm_256_new_impl C N H (Some kc) (Some vc) (Some ac) None = Inr e \<and>
    aws_symmetric_cipher_finalize_encryption (s_aes_gcm_vtable C N) e out = (Inr (), e2, out3) \<and> contents out3 = contents out \<and>
    bytes_at (ptr (aws_symmetric_cipher_get_tag e2)) (cur_len (aws_symmetric_cipher_get_tag e2)) = Inr (replicate 16 0)"
proof -
  let ?p = "(k, v, a)"
  obtain c where c: "bcrypt_gcm_256_new_impl C N H (Some kc) (Some vc) (Some ac) (Some tc) = Inr c" "gcm_io C N X False c (?p, t) [] []"
    using gcm_new_ok [OF C X k v a, where tc = "Some tc" and t = t] t by (auto simp: gcm_fresh_def)
  obtain e where e: "bcrypt_gcm_256_new_impl C N H (Some kc) (Some vc) (Some ac) None = Inr e" "gcm_io C N X True e (?p, replicate 16 0) [] []"
    using gcm_new_ok [OF C X k v a, where tc = None and t = "replicate 16 0"] by (auto simp: gcm_fresh_def)
  have o: "buf_len out + (length ([] :: bytes) - length ([] :: bytes)) + 16 \<le> ulong_bound" using out(4) by simp
  have acc: "gcm_accepts X d pt [] []" for d pt by (simp add: gcm_accepts_def)
  obtain c2 out2 where f: "aws_symmetric_cipher_finalize_decryption (s_aes_gcm_vtable C N) c out = (Inr (), c2, out2)" "contents out2 = contents out"
    using gcm_finish_ok [OF c(2) acc out(1-3) o] by (auto simp: gcm_final_def)
  obtain e2 out3 where g: "aws_symmetric_cipher_finalize_encryption (s_aes_gcm_vtable C N) e out = (Inr (), e2, out3)"
      "contents out3 = contents out" "gcm_post C N X True (?p, replicate 16 0) [] e2"
    using gcm_finish_ok [OF e(2) acc out(1-3) o] by (auto simp: gcm_final_def)
  then have "valid_buf (ctag e2)" "contents (ctag e2) = replicate 16 0"
    by (auto simp: gcm_post_def gcm_mem_def mem16_def gcm_kept_def contents_def)
  then have "bytes_at (ptr (aws_symmetric_cipher_get_tag e2)) (cur_len (aws_symmetric_cipher_get_tag e2)) = Inr (replicate 16 0)"
    by (simp add: aws_symmetric_cipher_get_tag_def bytes_at_from_buf)
  with c(1) f e(1) g(1,2) show ?thesis by blast
qed

section \<open>A reference CNG\<close>

text \<open>
  An instance of CNG that satisfies the assumptions. A key handle is the key and the cipher text so
  far; the key stream repeats a byte that depends on the key and the nonce, and the tag repeats a
  sum.
\<close>

definition ref_ks :: "gcm_params \<Rightarrow> nat \<Rightarrow> byte" where
  "ref_ks p i = (case p of (k, n, a) \<Rightarrow> sum_list k + sum_list n + word_of_nat i)"

definition ref_gtag :: "gcm_params \<Rightarrow> bytes \<Rightarrow> bytes" where
  "ref_gtag p y = (case p of (k, n, a) \<Rightarrow> replicate 16 (sum_list k + sum_list n + sum_list a + sum_list y))"

definition ref_auth :: "bool \<Rightarrow> bytes \<times> bytes \<Rightarrow> bytes \<Rightarrow> auth_call \<Rightarrow> nat \<Rightarrow> bool \<times> bytes \<times> (bytes \<times> bytes \<times> bytes) \<times> bytes \<times> bytes" where
  "ref_auth d h x args n = (case h of (k, y) \<Rightarrow>
     let p = (k, pbNonce args, pbAuthData args); w = part (ref_ks p) (length y) x; y' = y @ (if d then w else x); t = ref_gtag p y'
     in if chained args then (True, w, (pbTag args, pbMacContext args, pbIV args), k, y')
        else (d \<or> pbTag args = t, w, (t, pbMacContext args, pbIV args), k, y'))"

definition ref_gcm_cng :: "(unit, bytes \<times> bytes) cng_api" where
  "ref_gcm_cng = \<lparr>BCryptOpenAlgorithmProvider = Some (), BCryptSetProperty_chaining = (\<lambda>a _. (True, a)),
     key_data_blob_header = (\<lambda>_. []), blob_cbKeyData = (\<lambda>_. 0), BCryptImportKey = (\<lambda>_ b. Some (b, [])),
     BCryptSetProperty_iv = (\<lambda>h v. (False, h)), BCryptEncrypt = (\<lambda>h _ _ _. (False, [], h)), BCryptDecrypt = (\<lambda>h _ _ _. (False, [], h)),
     BCryptEncrypt_auth = ref_auth True, BCryptDecrypt_auth = ref_auth False,
     BCryptExportKey_wrap_size = (\<lambda>_ _. None), BCryptExportKey_wrap = (\<lambda>_ _ _. None),
     BCryptImportKey_wrap = (\<lambda>_ _ _. None), BCryptExportKey_data = (\<lambda>_ _. None)\<rparr>"

definition ref_gcm :: "(unit, bytes \<times> bytes) cng_gcm" where
  "ref_gcm = \<lparr>gcm_alg = (), gst = (\<lambda>(k, y) (k', _) _ _. if k = k' then Some y else None), Ks = ref_ks, Gtag = ref_gtag\<rparr>"

lemma cng_gcm_spec_ref: "cng_gcm_spec ref_gcm_cng ref_gcm"
proof -
  have "gcm_chain_spec ref_gcm_cng ref_gcm"
    by (auto simp: gcm_chain_spec_def ref_gcm_cng_def ref_gcm_def gcm_call_def gcipher_def ref_auth_def Let_def split: if_splits)
  moreover have "gcm_last_spec ref_gcm_cng ref_gcm"
    by (auto simp: gcm_last_spec_def ref_gcm_cng_def ref_gcm_def gcm_call_def gcipher_def ref_auth_def Let_def split: if_splits)
  moreover have "gcm_start_spec ref_gcm_cng ref_gcm"
    by (auto simp: gcm_start_spec_def ref_gcm_cng_def ref_gcm_def ref_gtag_def key_imports_def split: prod.splits)
  ultimately show ?thesis by (simp add: cng_gcm_spec_def)
qed

lemma cng_gcm_round_trip_witness:
  "\<exists>c c1 c2 c3 out1 out2. bcrypt_gcm_256_new_impl ref_common ref_gcm_cng ref_handles (Some (cursor_of (replicate 32 7)))
      (Some (cursor_of (replicate 12 3))) (Some (cursor_of [9])) None = Inr c \<and>
    run_calls (s_aes_gcm_vtable ref_common ref_gcm_cng) (map Encrypt [cursor_of [1, 2], cursor_of [3]]) c (empty_out 0) =
      (replicate 2 (Inr ()), c1, out1) \<and>
    aws_symmetric_cipher_finalize_encryption (s_aes_gcm_vtable ref_common ref_gcm_cng) c1 out1 = (Inr (), c2, out2) \<and>
    contents out2 = [5, 7, 5] \<and>
    bytes_at (ptr (aws_symmetric_cipher_get_tag c2)) (cur_len (aws_symmetric_cipher_get_tag c2)) = Inr (replicate 16 30) \<and>
    aws_symmetric_cipher_reset (s_aes_gcm_vtable ref_common ref_gcm_cng) c2 = (Inr (), c3)"
proof -
  let ?k = "replicate 32 7 :: bytes" and ?v = "replicate 12 3 :: bytes"
  have prems: "length ?k = 32" "length ?v = 12" "length [9 :: byte] \<le> ulong_bound" "pieces [cursor_of [1, 2], cursor_of [3]] [[1, 2], [3]]"
    "\<forall>b \<in> set [[1, 2], [3 :: byte]]. length b + 16 \<le> INT_MAX" "concat [[1, 2], [3 :: byte]] \<noteq> []"
    "valid_buf (empty_out 0)" "allocator (empty_out 0)" "capacity (empty_out 0) \<le> ulong_bound"
    "buf_len (empty_out 0) + length (concat [[1, 2], [3 :: byte]]) + 16 \<le> ulong_bound"
    "s_aes_gcm_algorithm_handle ref_handles = gcm_alg ref_gcm"
    by simp_all
  have cur: "bytes_at (ptr (cursor_of b)) (cur_len (cursor_of b)) = Inr b" for b by simp
  let ?q = "part (Ks ref_gcm (?k, ?v, [9])) 0 (concat [[1, 2], [3]])"
  have run: "contents (empty_out 0) @ ?q = [5, 7, 5]" "Gtag ref_gcm (?k, ?v, [9]) ?q = replicate 16 30"
    "length [cursor_of [1, 2], cursor_of [3]] = 2"
    by (simp_all add: ref_gcm_def part_def ref_ks_def ref_gtag_def upt_rec sum_list_replicate)
  show ?thesis
    using cng_gcm_round_trip [OF common_spec_ref cng_gcm_spec_ref prems(11) cur prems(1) cur prems(2) cur prems(3-10) refl refl]
    unfolding run by (elim exE conjE) (intro exI conjI; assumption)
qed

lemma cng_gcm_empty_unauthenticated_witness:
  "\<exists>c c2 out2. bcrypt_gcm_256_new_impl ref_common ref_gcm_cng ref_handles (Some (cursor_of (replicate 32 7)))
      (Some (cursor_of (replicate 12 3))) (Some (cursor_of [9])) (Some (cursor_of (replicate 16 1))) = Inr c \<and>
    aws_symmetric_cipher_finalize_decryption (s_aes_gcm_vtable ref_common ref_gcm_cng) c (empty_out 0) = (Inr (), c2, out2) \<and>
    Gtag ref_gcm (replicate 32 7, replicate 12 3, [9]) [] \<noteq> replicate 16 1"
  using cng_gcm_empty_unauthenticated [OF common_spec_ref cng_gcm_spec_ref, of ref_handles "cursor_of (replicate 32 7)" "replicate 32 7"
      "cursor_of (replicate 12 3)" "replicate 12 3" "cursor_of [9]" "[9]" "cursor_of (replicate 16 1)" "replicate 16 1" "empty_out 0"]
  by (auto simp: ref_gcm_def ref_gtag_def sum_list_replicate)

end
