(* ===== verification/Bcrypt_Ctr.thy ===== *)
theory Bcrypt_Ctr
  imports Bcrypt_Buffers
begin

text \<open>
  CTR on Windows. CNG has no counter mode, so that the cipher encrypts the counter block by block
  and combines the results with the text. The contract of a stream is interpreted
  for both directions against textbook CTR with a counter of 32 bits that is not allowed to wrap.
\<close>

section \<open>Textbook CTR\<close>

definition ctr_block :: "bytes \<Rightarrow> nat \<Rightarrow> bytes" where
  "ctr_block v j = take 12 v @ be_bytes 4 (be_nat (drop 12 v) + j)"

definition ctr_ks :: "(bytes \<Rightarrow> bytes) \<Rightarrow> bytes \<Rightarrow> nat \<Rightarrow> byte" where
  "ctr_ks E v i = E (ctr_block v (i div 16)) ! (i mod 16)"

lemma ctr_block_length [simp]: "length v = 16 \<Longrightarrow> length (ctr_block v j) = 16"
  by (simp add: ctr_block_def)

lemma ctr_block_0: "length v = 16 \<Longrightarrow> ctr_block v 0 = v"
  using be_bytes_be_nat [of "drop 12 v"] by (simp add: ctr_block_def)

lemma ctr_part:
  assumes "length (E (ctr_block v j)) = 16" and "length b \<le> 16"
  shows "map2 (XOR) b (take (length b) (E (ctr_block v j))) = part (ctr_ks E v) (16 * j) b"
proof (rule nth_equalityI)
  fix i
  assume "i < length (map2 (XOR) b (take (length b) (E (ctr_block v j))))"
  then have i: "i < length b" "i < 16" using assms by simp_all
  then have "(16 * j + i) div 16 = j" "(16 * j + i) mod 16 = i" by simp_all
  with i assms show "map2 (XOR) b (take (length b) (E (ctr_block v j))) ! i = part (ctr_ks E v) (16 * j) b ! i"
    by (simp add: part_def ctr_ks_def)
qed (use assms in simp)

section \<open>The counter\<close>

lemma increment_ok:
  assumes C: "common_spec C" and w: "valid_buf w" "contents w = ctr_block v j" "length v = 16"
    and n: "n = be_nat (drop 12 v) + j" "n < 2 ^ 32"
  shows "Suc n < 2 ^ 32 \<Longrightarrow> \<exists>w'. increment_counter C w = Some w' \<and> valid_buf w' \<and> contents w' = ctr_block v (Suc j) \<and>
      allocator w' = allocator w"
    and "\<not> Suc n < 2 ^ 32 \<Longrightarrow> increment_counter C w = None"
proof -
  have l: "buf_len w = 16" using length_contents [OF w(1)] w(2,3) by simp
  let ?cur = "aws_byte_cursor_from_buf w"
  have b: "bytes_at (ptr ?cur) (cur_len ?cur) = Inr (ctr_block v j)" using bytes_at_from_buf [OF w(1)] w(2) by simp
  have "(12 :: nat) \<le> length (ctr_block v j)" "length (ctr_block v j) \<le> SIZE_MAX div 2" using w(3) by simp_all
  from advance_bytes [OF C b this] obtain s r where r: "aws_byte_cursor_advance C ?cur 12 = (s, r)"
      "bytes_at (ptr r) (cur_len r) = Inr (drop 12 (ctr_block v j))" by blast
  have d: "drop 12 (ctr_block v j) = be_bytes 4 n" using w(3) n(1) by (simp add: ctr_block_def)
  then have rl: "cur_len r = 4" using bytes_at_length [OF r(2)] by simp
  have "readable r 4 \<and> cur_data r 4 = be_bytes 4 n"
    using r(2) d rl by (auto simp: readable_def cur_data_def bytes_at_def split: option.splits if_splits)
  then have rd: "aws_byte_cursor_read_be32 C r = Some (word_of_nat n, cur_drop 4 r)"
    using read_be32_law [OF C, of r] rl n(2) be_nat_be_bytes [of 4 n] by simp
  have u: "unat (word_of_nat n :: 32 word) = n" using n(2) by (simp add: unat_of_nat)
  let ?b = "w\<lparr>buf_len := 12\<rparr>"
  have vb: "valid_buf ?b" "contents ?b = take 12 v" "4 \<le> room ?b"
    using contents_shorter [OF w(1), of 12] w(1,2,3) l by (auto simp: ctr_block_def room_def valid_buf_def)
  show "\<not> Suc n < 2 ^ 32 \<Longrightarrow> increment_counter C w = None"
    using r(1) rd u by (simp add: increment_counter_def add_checked_law [OF C])
  assume S: "Suc n < 2 ^ 32"
  have u1: "unat (word_of_nat n + 1 :: 32 word) = Suc n" 
  proof -
    have "unat (word_of_nat (Suc n) :: 32 word) = Suc n" using S by (simp add: unat_of_nat del: of_nat_Suc)
    then show ?thesis by (simp add: add.commute)
  qed
  obtain b' where b': "aws_byte_buf_write_be32 C ?b (word_of_nat n + 1) = Some b'" "appends ?b (be_bytes 4 (Suc n)) (Some b')"
    using write_laws(4) [OF C vb(1), of "word_of_nat n + 1"] vb(3) u1
    by (cases "aws_byte_buf_write_be32 C ?b (word_of_nat n + 1)") (auto simp: appends_def)
  have "increment_counter C w = Some (w\<lparr>buffer := buffer b'\<rparr>)"
    using r(1) rd u S b'(1) by (simp add: increment_counter_def add_checked_law [OF C])
  moreover have "valid_buf b'" "contents b' = ctr_block v (Suc j)" "capacity b' = capacity w" "buf_len b' = 16"
    using b'(2) vb(2) n(1) by (auto simp: appends_def ctr_block_def)
  ultimately show "\<exists>w'. increment_counter C w = Some w' \<and> valid_buf w' \<and> contents w' = ctr_block v (Suc j) \<and> allocator w' = allocator w"
    using l by (auto simp: valid_buf_def contents_def split: option.splits)
qed

section \<open>Slices\<close>

text \<open>The loop cuts the text into whole blocks and a rest; the fuel is enough.\<close>

lemma slices:
  assumes C: "common_spec C" and L: "array_list_spec L"
  shows "bytes_at (ptr cur) (cur_len cur) = Inr z \<Longrightarrow> length z \<le> SIZE_MAX div 2 \<Longrightarrow> length z < fuel \<Longrightarrow>
    \<exists>l' ss ts bls tl. slice_loop C L fuel cur l = Inr l' \<and> al_items l' = al_items l @ ss @ ts \<and> pieces ss bls \<and>
      (\<forall>b \<in> set bls. length b = 16) \<and> pieces ts (if tl = [] then [] else [tl]) \<and> z = concat bls @ tl \<and> length tl < 16"
proof (induction fuel arbitrary: cur z l)
  case (Suc fuel)
  have n: "cur_len cur = length z" using bytes_at_length [OF Suc.prems(1)] by simp
  obtain l1 where push: "\<And>x. (case aws_array_list_push_back L l x of Inl _ \<Rightarrow> l | Inr l' \<Rightarrow> l') = l1 x" "\<And>x. al_items (l1 x) = al_items l @ [x]"
  proof (rule that [of "\<lambda>x. case aws_array_list_push_back L l x of Inl _ \<Rightarrow> l | Inr l' \<Rightarrow> l'"])
    fix x
    show "al_items (case aws_array_list_push_back L l x of Inl _ \<Rightarrow> l | Inr l' \<Rightarrow> l') = al_items l @ [x]"
      using push_back_law [OF L, of l x] by auto
  qed simp
  show ?case
  proof (cases "z = []")
    case True
    then show ?thesis using n by (intro exI [of _ l] exI [of _ "[]"]) simp
  next
    case z: False
    show ?thesis
    proof (cases "16 \<le> length z")
      case True
      from advance_bytes [OF C Suc.prems(1) True Suc.prems(2)] obtain s r where
          a: "aws_byte_cursor_advance C cur 16 = (s, r)" "bytes_at (ptr s) (cur_len s) = Inr (take 16 z)"
            "bytes_at (ptr r) (cur_len r) = Inr (drop 16 z)" by blast
      have "length (drop 16 z) \<le> SIZE_MAX div 2" "length (drop 16 z) < fuel" using Suc.prems(2,3) True by simp_all
      from Suc.IH [OF a(3) this, of "l1 s"] obtain l' ss ts bls tl where
          i: "slice_loop C L fuel r (l1 s) = Inr l'" "al_items l' = al_items (l1 s) @ ss @ ts" "pieces ss bls" "\<forall>b \<in> set bls. length b = 16"
            "pieces ts (if tl = [] then [] else [tl])" "drop 16 z = concat bls @ tl" "length tl < 16" by blast
      have "slice_loop C L (Suc fuel) cur l = Inr l'" using n z True a(1) i(1) push(1) by (simp add: Let_def)
      moreover have "al_items l' = al_items l @ (s # ss) @ ts" using i(2) push(2) by simp
      moreover have "z = concat (take 16 z # bls) @ tl" using i(6) by (metis append.assoc append_take_drop_id concat.simps(2))
      moreover have "pieces (s # ss) (take 16 z # bls)" "\<forall>b \<in> set (take 16 z # bls). length b = 16" using a(2) i(3,4) True by simp_all
      ultimately show ?thesis using i(5,7) by blast
    next
      case False
      from advance_bytes [OF C Suc.prems(1) order_refl Suc.prems(2)] obtain s r where
          a: "aws_byte_cursor_advance C cur (length z) = (s, r)" "bytes_at (ptr r) (cur_len r) = Inr []" by auto
      have "cur_len r = 0" using bytes_at_length [OF a(2)] by simp
      moreover obtain f where "fuel = Suc f" using Suc.prems(3) z by (cases fuel) auto
      ultimately have "slice_loop C L (Suc fuel) cur l = Inr (l1 cur)" using n z False a(1) push(1) by (simp add: Let_def)
      with Suc.prems(1) push(2) z False show ?thesis
        by (intro exI [of _ "l1 cur"] exI [of _ "[]"] exI [of _ "[cur]"] exI [of _ z]) simp
    qed
  qed
qed simp

section \<open>CNG on single blocks\<close>

text \<open>What the code relies on: a key handle has a key, encrypts single blocks with it, and accepts
  the vector that is set on it.\<close>

record ('a, 'k) cng_ecb =
  ecb_alg :: 'a
  ecb_key :: "'k \<Rightarrow> bytes option"
  Ecb :: "bytes \<Rightarrow> bytes \<Rightarrow> bytes"

definition block_spec :: "('a, 'k) cng_api \<Rightarrow> ('a, 'k) cng_ecb \<Rightarrow> bool" where
  "block_spec N X \<longleftrightarrow>
     (\<forall>h k b. ecb_key X h = Some k \<longrightarrow> length b = 16 \<longrightarrow> length (Ecb X k b) = 16 \<and>
        (\<exists>h'. ecb_key X h' = Some k \<and> BCryptEncrypt N h b False 16 = (True, Ecb X k b, h'))) \<and>
     (\<forall>k v. length k = 32 \<longrightarrow> length v = 16 \<longrightarrow>
        (\<exists>h h'. key_imports N (ecb_alg X) k h \<and> BCryptSetProperty_iv N h v = (True, h') \<and> ecb_key X h' = Some k))"

lemma ecb_call:
  assumes "block_spec N X" and "ecb_key X h = Some k" and "length b = 16"
  obtains h' where "length (Ecb X k b) = 16" "ecb_key X h' = Some k" "BCryptEncrypt N h b False 16 = (True, Ecb X k b, h')"
  using assms unfolding block_spec_def by blast

lemma ecb_start:
  assumes "block_spec N X" and "length k = 32" and "length v = 16"
  obtains h h' where "key_imports N (ecb_alg X) k h" "BCryptSetProperty_iv N h v = (True, h')" "ecb_key X h' = Some k"
  using assms unfolding block_spec_def by blast

section \<open>A CTR cipher as a stream\<close>

definition ctr_kept :: "aws_common \<Rightarrow> ('a, 'k) cng_api \<Rightarrow> aws_byte_cursor array_list_ops \<Rightarrow> ('a, 'k) cng_ecb \<Rightarrow> bytes \<times> bytes \<Rightarrow>
    ('a, 'k) bcrypt_cipher \<Rightarrow> bool" where
  "ctr_kept C N L X p c \<longleftrightarrow> common_spec C \<and> array_list_spec L \<and> block_spec N X \<and> length (fst p) = 32 \<and> length (snd p) = 16 \<and>
     valid_buf (key c) \<and> contents (key c) = fst p \<and> valid_buf (iv c) \<and> contents (iv c) = snd p \<and>
     block_size c = 16 \<and> alg_handle (cipher_impl c) = ecb_alg X \<and> \<not> iv_shared (cipher_impl c) \<and>
     valid_buf (working_iv (cipher_impl c)) \<and> allocator (working_iv (cipher_impl c)) \<and>
     valid_buf (overflow (cipher_impl c)) \<and> allocator (overflow (cipher_impl c))"

text \<open>The cipher is ready to make the block \<open>j\<close> of its key stream.\<close>

definition ctr_at :: "('a, 'k) cng_ecb \<Rightarrow> bytes \<times> bytes \<Rightarrow> nat \<Rightarrow> ('a, 'k) bcrypt_cipher \<Rightarrow> bool" where
  "ctr_at X p j c \<longleftrightarrow> contents (working_iv (cipher_impl c)) = ctr_block (snd p) j \<and> \<not> block_padding (cipher_impl c) \<and>
     (\<exists>h. key_handle (cipher_impl c) = Some h \<and> ecb_key X h = Some (fst p))"

abbreviation ctr_stream :: "('a, 'k) cng_ecb \<Rightarrow> bytes \<times> bytes \<Rightarrow> nat \<Rightarrow> byte" where
  "ctr_stream X p \<equiv> ctr_ks (Ecb X (fst p)) (snd p)"

abbreviation counter0 :: "bytes \<times> bytes \<Rightarrow> nat" where
  "counter0 p \<equiv> be_nat (drop 12 (snd p))"

lemma xor_ok:
  assumes C: "common_spec C" and a: "bytes_at (ptr cur) (cur_len cur) = Inr b" "length b \<le> length y"
    and out: "valid_buf out" "allocator out" "buf_len out + length b \<le> SIZE_MAX div 2"
  obtains out' where "s_xor_cursors C cur (cursor_of y) out = Inr out'" "valid_buf out'" "allocator out'"
    "contents out' = contents out @ map2 (XOR) b (take (length b) y)"
proof -
  have n: "min (cur_len (cursor_of y)) (cur_len cur) = length b" "cur_len cur = length b" using bytes_at_length [OF a(1)] a(2) by simp_all
  obtain o1 where o1: "aws_symmetric_cipher_try_ensure_sufficient_buffer_space C out (length b) = Inr o1" "valid_buf o1"
      "contents o1 = contents out" "length b \<le> room o1" "allocator o1"
    using ensure_space [OF C out(1,3)] out(2) by auto
  have t: "bytes_at (ptr (cursor_of y)) (length b) = Inr (take (length b) y)" using a(2) by (simp add: cursor_of_def bytes_at_def)
  have "length (map2 (XOR) b (take (length b) y)) \<le> room o1" "length (map2 (XOR) b (take (length b) y)) = length b" using o1(4) a(2) by simp_all
  with poke_appends [OF o1(2), of "map2 (XOR) b (take (length b) y)"] obtain o2 where
      "poke o1 (map2 (XOR) b (take (length b) y)) = Inr o2"
      "appends o1 (map2 (XOR) b (take (length b) y)) (Some (add_len (length b) o2))" by auto
  with that [of "add_len (length b) o2"] o1 n t a(1) show ?thesis by (auto simp: s_xor_cursors_def appends_def)
qed

text \<open>One block of the key stream on a slice.\<close>

lemma ctr_slice_run:
  assumes K: "ctr_kept C N L X p c" and j: "ctr_at X p j c"
    and b: "bytes_at (ptr cur) (cur_len cur) = Inr b" "length b \<le> 16"
      "length b = 16 \<or> buf_len (overflow (cipher_impl c)) > 0 \<and> cnt \<noteq> 0"
    and out: "valid_buf out" "allocator out" "buf_len out + length b \<le> SIZE_MAX div 2"
  obtains h' out' where "ecb_key X h' = Some (fst p)" "valid_buf out'" "allocator out'"
    "contents out' = contents out @ part (ctr_stream X p) (16 * j) b"
    "ctr_slice C N cnt cur c out = (case increment_counter C (working_iv (cipher_impl c)) of
       None \<Rightarrow> (Inl (Raised AWS_ERROR_OVERFLOW_DETECTED), (set_key_handle (Some h') c)\<lparr>cipher_good := False\<rparr>, out')
     | Some v' \<Rightarrow> (Inr (), set_working_iv v' (set_key_handle (Some h') c), out'))"
proof -
  let ?w = "working_iv (cipher_impl c)" and ?v = "ctr_block (snd p) j"
  have k: "common_spec C" "block_spec N X" "length (snd p) = 16" "valid_buf ?w" using K by (simp_all add: ctr_kept_def)
  have w: "contents ?w = ?v" "length ?v = 16" using j k(3) by (simp_all add: ctr_at_def)
  have "buf_len ?w = 16" using length_contents [OF k(4)] w by simp
  then have m: "buf_mem ?w (ulong (buf_len ?w)) = Inr ?v" using buf_mem_contents [OF k(4)] w(1) by simp
  obtain h where h: "key_handle (cipher_impl c) = Some h" "ecb_key X h = Some (fst p)" "\<not> block_padding (cipher_impl c)"
    using j by (auto simp: ctr_at_def)
  obtain h' where e: "length (Ecb X (fst p) ?v) = 16" "ecb_key X h' = Some (fst p)" "BCryptEncrypt N h ?v False 16 = (True, Ecb X (fst p) ?v, h')"
    by (rule ecb_call [OF k(2) h(2) w(2)])
  have y: "length b \<le> length (Ecb X (fst p) ?v)" using e(1) b(2) by simp
  obtain out' where o: "s_xor_cursors C cur (cursor_of (Ecb X (fst p) ?v)) out = Inr out'" "valid_buf out'" "allocator out'"
      "contents out' = contents out @ map2 (XOR) b (take (length b) (Ecb X (fst p) ?v))"
    by (rule xor_ok [OF k(1) b(1) y out])
  have t: "overwrite 0 (Ecb X (fst p) ?v) (replicate 16 0) = Ecb X (fst p) ?v" using e(1) by (simp add: overwrite_def)
  have "cur_len cur = 16 \<or> buf_len (overflow (cipher_impl c)) > 0 \<and> cnt \<noteq> 0" using b(3) bytes_at_length [OF b(1)] by simp
  then have "ctr_slice C N cnt cur c out = (case increment_counter C ?w of
       None \<Rightarrow> (Inl (Raised AWS_ERROR_OVERFLOW_DETECTED), (set_key_handle (Some h') c)\<lparr>cipher_good := False\<rparr>, out')
     | Some v' \<Rightarrow> (Inr (), set_working_iv v' (set_key_handle (Some h') c), out'))"
    using m h(1,3) e(1,3) o(1) t by (simp add: ctr_slice_def Let_def)
  with that [OF e(2) o(2,3)] o(4) ctr_part [where E = "Ecb X (fst p)", OF e(1) b(2)] show ?thesis by simp
qed

lemma ctr_slice_ok:
  assumes K: "ctr_kept C N L X p c" and j: "ctr_at X p j c" and n: "Suc (counter0 p + j) < 2 ^ 32"
    and b: "bytes_at (ptr cur) (cur_len cur) = Inr b" "length b \<le> 16"
      "length b = 16 \<or> buf_len (overflow (cipher_impl c)) > 0 \<and> cnt \<noteq> 0"
    and out: "valid_buf out" "allocator out" "buf_len out + length b \<le> SIZE_MAX div 2"
  obtains c' out' where "ctr_slice C N cnt cur c out = (Inr (), c', out')" "ctr_kept C N L X p c'" "ctr_at X p (Suc j) c'"
    "overflow (cipher_impl c') = overflow (cipher_impl c)" "cipher_good c' = cipher_good c" "valid_buf out'" "allocator out'"
    "contents out' = contents out @ part (ctr_stream X p) (16 * j) b"
proof -
  obtain h' out' where r: "ecb_key X h' = Some (fst p)" "valid_buf out'" "allocator out'"
    "contents out' = contents out @ part (ctr_stream X p) (16 * j) b"
    "ctr_slice C N cnt cur c out = (case increment_counter C (working_iv (cipher_impl c)) of
       None \<Rightarrow> (Inl (Raised AWS_ERROR_OVERFLOW_DETECTED), (set_key_handle (Some h') c)\<lparr>cipher_good := False\<rparr>, out')
     | Some v' \<Rightarrow> (Inr (), set_working_iv v' (set_key_handle (Some h') c), out'))"
    by (rule ctr_slice_run [OF K j b out])
  have k: "common_spec C" "length (snd p) = 16" "valid_buf (working_iv (cipher_impl c))" "allocator (working_iv (cipher_impl c))"
    using K by (simp_all add: ctr_kept_def)
  have w: "contents (working_iv (cipher_impl c)) = ctr_block (snd p) j" using j by (simp add: ctr_at_def)
  have "counter0 p + j < 2 ^ 32" using n by simp
  from increment_ok(1) [OF k(1,3) w k(2) refl this n] k(4) obtain v' where
      v: "increment_counter C (working_iv (cipher_impl c)) = Some v'" "valid_buf v'" "contents v' = ctr_block (snd p) (Suc j)" "allocator v'"
    by auto
  show ?thesis
    by (rule that [of "set_working_iv v' (set_key_handle (Some h') c)" out'])
      (use r v K j in \<open>simp_all add: ctr_kept_def ctr_at_def\<close>)
qed

text \<open>The block of the largest counter value is written, but the counter cannot be incremented.\<close>

lemma ctr_slice_last:
  assumes K: "ctr_kept C N L X p c" and j: "ctr_at X p j c" and n: "Suc (counter0 p + j) = 2 ^ 32"
    and b: "bytes_at (ptr cur) (cur_len cur) = Inr b" "length b \<le> 16"
      "length b = 16 \<or> buf_len (overflow (cipher_impl c)) > 0 \<and> cnt \<noteq> 0"
    and out: "valid_buf out" "allocator out" "buf_len out + length b \<le> SIZE_MAX div 2"
  obtains c' out' where "ctr_slice C N cnt cur c out = (Inl (Raised AWS_ERROR_OVERFLOW_DETECTED), c', out')"
    "\<not> cipher_good c'" "contents out' = contents out @ part (ctr_stream X p) (16 * j) b"
proof -
  obtain h' out' where r: "contents out' = contents out @ part (ctr_stream X p) (16 * j) b"
    "ctr_slice C N cnt cur c out = (case increment_counter C (working_iv (cipher_impl c)) of
       None \<Rightarrow> (Inl (Raised AWS_ERROR_OVERFLOW_DETECTED), (set_key_handle (Some h') c)\<lparr>cipher_good := False\<rparr>, out')
     | Some v' \<Rightarrow> (Inr (), set_working_iv v' (set_key_handle (Some h') c), out'))"
    by (rule ctr_slice_run [OF K j b out])
  have k: "common_spec C" "length (snd p) = 16" "valid_buf (working_iv (cipher_impl c))" using K by (simp_all add: ctr_kept_def)
  have w: "contents (working_iv (cipher_impl c)) = ctr_block (snd p) j" using j by (simp add: ctr_at_def)
  have "counter0 p + j < 2 ^ 32" "\<not> Suc (counter0 p + j) < 2 ^ 32" using n by simp_all
  from increment_ok(2) [OF k(1,3) w k(2) refl this] r show ?thesis
    by (intro that [of "(set_key_handle (Some h') c)\<lparr>cipher_good := False\<rparr>" out']) simp_all
qed

text \<open>Whole blocks through the loop.\<close>

lemma ctr_full:
  assumes "pieces ss bls"
  shows "\<forall>b \<in> set bls. length b = 16 \<Longrightarrow> ctr_kept C N L X p c \<Longrightarrow> ctr_at X p j c \<Longrightarrow>
    counter0 p + j + length bls < 2 ^ 32 \<Longrightarrow> valid_buf out \<Longrightarrow> allocator out \<Longrightarrow> buf_len out + length (concat bls) \<le> SIZE_MAX div 2 \<Longrightarrow>
    \<exists>c' out'. ctr_loop C N cnt (ss @ rest) c out = ctr_loop C N cnt rest c' out' \<and> ctr_kept C N L X p c' \<and>
      ctr_at X p (j + length bls) c' \<and> overflow (cipher_impl c') = overflow (cipher_impl c) \<and> cipher_good c' = cipher_good c \<and>
      valid_buf out' \<and> allocator out' \<and> contents out' = contents out @ part (ctr_stream X p) (16 * j) (concat bls)"
  using assms unfolding pieces_def
proof (induction ss bls arbitrary: c j out rule: list_all2_induct)
  case Nil
  then show ?case by (intro exI [of _ c] exI [of _ out]) simp
next
  case (Cons s ss b bls)
  have b: "length b = 16" using Cons.prems(1) by simp
  have n: "Suc (counter0 p + j) < 2 ^ 32" "counter0 p + Suc j + length bls < 2 ^ 32" using Cons.prems(4) by simp_all
  have "length b \<le> 16" "length b = 16 \<or> buf_len (overflow (cipher_impl c)) > 0 \<and> cnt \<noteq> 0" "buf_len out + length b \<le> SIZE_MAX div 2"
    using b Cons.prems(7) by simp_all
  then obtain c1 out1 where s: "ctr_slice C N cnt s c out = (Inr (), c1, out1)" "ctr_kept C N L X p c1" "ctr_at X p (Suc j) c1"
      "overflow (cipher_impl c1) = overflow (cipher_impl c)" "cipher_good c1 = cipher_good c" "valid_buf out1" "allocator out1"
      "contents out1 = contents out @ part (ctr_stream X p) (16 * j) b"
    using ctr_slice_ok [OF Cons.prems(2,3) n(1) Cons.hyps(1) _ _ Cons.prems(5,6)] by metis
  have l: "buf_len out1 = buf_len out + 16"
    using length_contents [OF s(6)] length_contents [OF Cons.prems(5)] s(8) b by simp
  have "\<forall>b \<in> set bls. length b = 16" "buf_len out1 + length (concat bls) \<le> SIZE_MAX div 2" using Cons.prems(1,7) l by simp_all
  from Cons.IH [OF this(1) s(2,3) n(2) s(6,7) this(2)] s(1,4,5,8) b show ?case
    by (auto simp: part_append add.commute [of 16])
qed

text \<open>The slices of a text, through the array list.\<close>

lemma sliced:
  assumes C: "common_spec C" and L: "array_list_spec L" and w: "valid_buf w" "contents w = z" "z \<noteq> []"
  obtains l ss ts bls tl where "rbind (aws_array_list_init_dynamic L n)
      (slice_loop C L (Suc (buf_len w)) (aws_byte_cursor_from_buf w)) = Inr l"
    "map (\<lambda>i. case aws_array_list_get_at L l i of Inl _ \<Rightarrow> null_cursor | Inr s \<Rightarrow> s) [0..<length (al_items l)] = ss @ ts"
    "length (al_items l) \<noteq> 0" "pieces ss bls" "\<forall>b \<in> set bls. length b = 16" "pieces ts (if tl = [] then [] else [tl])"
    "z = concat bls @ tl" "length tl < 16"
proof -
  obtain l0 where l0: "aws_array_list_init_dynamic L n = Inr l0" "al_items l0 = []" using init_dynamic_law [OF L] by blast
  have b: "bytes_at (ptr (aws_byte_cursor_from_buf w)) (cur_len (aws_byte_cursor_from_buf w)) = Inr z"
    using bytes_at_from_buf [OF w(1)] w(2) by simp
  have len: "length z = buf_len w" using length_contents [OF w(1)] w(2) by simp
  have "length z \<le> SIZE_MAX div 2" "length z < Suc (buf_len w)" using len w(1) by (simp_all add: valid_buf_def)
  from slices [OF C L b this, of l0] l0(2) obtain l ss ts bls tl where
      s: "slice_loop C L (Suc (buf_len w)) (aws_byte_cursor_from_buf w) l0 = Inr l" "al_items l = ss @ ts" "pieces ss bls"
        "\<forall>b \<in> set bls. length b = 16" "pieces ts (if tl = [] then [] else [tl])" "z = concat bls @ tl" "length tl < 16" by auto
  have "map (\<lambda>i. case aws_array_list_get_at L l i of Inl _ \<Rightarrow> null_cursor | Inr s \<Rightarrow> s) [0..<length (al_items l)] = ss @ ts"
    using L s(2) by (intro nth_equalityI) simp_all
  moreover have "al_items l \<noteq> []" using s(2,3,5,6) w(3) by (cases tl) (auto simp: pieces_def)
  ultimately show ?thesis using that [OF _ _ _ s(3-7), of l] l0(1) s(1) by simp
qed

text \<open>The cipher has processed whole blocks and keeps less than a block back.\<close>

definition ctr_io :: "aws_common \<Rightarrow> ('a, 'k) cng_api \<Rightarrow> aws_byte_cursor array_list_ops \<Rightarrow> ('a, 'k) cng_ecb \<Rightarrow> ('a, 'k) bcrypt_cipher \<Rightarrow>
    bytes \<times> bytes \<Rightarrow> bytes \<Rightarrow> bytes \<Rightarrow> bool" where
  "ctr_io C N L X c p m w \<longleftrightarrow> ctr_kept C N L X p c \<and> cipher_good c \<and>
     (\<exists>x j. m = x @ contents (overflow (cipher_impl c)) \<and> length x = 16 * j \<and> w = part (ctr_stream X p) 0 x \<and> ctr_at X p j c) \<and>
     length (contents (overflow (cipher_impl c))) < 16"

text \<open>How many bytes a counter allows.\<close>

definition ctr_limit :: "bytes \<times> bytes \<Rightarrow> nat" where
  "ctr_limit p = 16 * (2 ^ 32 - 1 - counter0 p)"

text \<open>How many bytes there are until the block of the largest counter value is complete.\<close>

definition ctr_room :: "bytes \<times> bytes \<Rightarrow> nat" where
  "ctr_room p = 16 * (2 ^ 32 - counter0 p)"

definition ctr_feed :: "bool \<Rightarrow> aws_byte_cursor \<Rightarrow> cipher_call" where
  "ctr_feed d = (if d then Encrypt else Decrypt)"

definition ctr_final :: "bool \<Rightarrow> cipher_call" where
  "ctr_final d = (if d then Finalize_encryption else Finalize_decryption)"

lemma ctr_run_call:
  assumes "cipher_good c"
  shows "block_size c = 16 \<Longrightarrow> cur_len cur + 16 \<le> INT_MAX \<Longrightarrow>
      run_call (s_aes_ctr_vtable C N L) (ctr_feed d cur) c out = ctr_crypt C N L False cur c out"
    and "run_call (s_aes_ctr_vtable C N L) (ctr_final d) c out =
      (case s_aes_ctr_finalize_encryption C N L c out of (r, c, out) \<Rightarrow> (r, c\<lparr>cipher_good := False\<rparr>, out))"
  using assms
  by (cases d; simp add: ctr_feed_def ctr_final_def aws_symmetric_cipher_encrypt_def
      aws_symmetric_cipher_decrypt_def aws_symmetric_cipher_finalize_encryption_def aws_symmetric_cipher_finalize_decryption_def
      s_check_input_size_limits_def s_aes_ctr_vtable_def s_aes_ctr_encrypt_def)+

text \<open>The rest goes to the empty overflow.\<close>

lemma ctr_rest:
  assumes C: "common_spec C" and ov: "valid_buf (overflow (cipher_impl c))" "allocator (overflow (cipher_impl c))"
      "contents (overflow (cipher_impl c)) = []"
    and t: "pieces ts (if z = [] then [] else [z])" "length z < 16"
  obtains ov' where "ctr_loop C N cnt ts c out = (Inr (), set_overflow ov' c, out)" "valid_buf ov'" "allocator ov'" "contents ov' = z"
proof (cases "z = []")
  case True
  have "set_overflow (overflow (cipher_impl c)) c = c" by (simp add: on_impl_def)
  with True t ov that [of "overflow (cipher_impl c)"] show ?thesis by simp
next
  case False
  then obtain s where s: "ts = [s]" "bytes_at (ptr s) (cur_len s) = Inr z" using t(1) by (auto simp: pieces_def list_all2_Cons2)
  have l: "buf_len (overflow (cipher_impl c)) = 0" "cur_len s \<noteq> 16"
    using length_contents [OF ov(1)] ov(3) bytes_at_length [OF s(2)] t(2) by simp_all
  have "buf_len (overflow (cipher_impl c)) + length z \<le> SIZE_MAX div 2" using l(1) t(2) by simp
  from append_ignoring_ok [OF C ov(1,2) s(2) this] ov(3) obtain ov' where
      "append_ignoring C (overflow (cipher_impl c)) s = Inr ov'" "valid_buf ov'" "allocator ov'" "contents ov' = z" by auto
  with that [of ov'] l s(1) show ?thesis by (simp add: ctr_slice_def Let_def)
qed

lemma counter_left:
  shows "16 * k + t < ctr_room p \<Longrightarrow> counter0 p + k < 2 ^ 32"
    and "16 * k + t \<le> ctr_limit p \<Longrightarrow> 0 < t \<Longrightarrow> Suc (counter0 p + k) < 2 ^ 32"
    and "length (snd p) = 16 \<Longrightarrow> n \<le> ctr_limit p \<Longrightarrow> n < ctr_room p"
proof -
  assume "length (snd p) = 16"
  then have "counter0 p < 2 ^ 32" using be_nat_bound [of "drop 12 (snd p)"] by simp
  then show "n \<le> ctr_limit p \<Longrightarrow> n < ctr_room p" by (simp add: ctr_limit_def ctr_room_def)
qed (simp_all add: ctr_limit_def ctr_room_def)

text \<open>A call with data moves the overflow in front of them and cuts both into blocks and a rest.\<close>

lemma ctr_feed_split:
  assumes k: "ctr_kept C N L X p c" and r: "r = contents (overflow (cipher_impl c))" "length r < 16"
    and b: "bytes_at (ptr cur) (cur_len cur) = Inr b" "b \<noteq> []" and len: "length b + 16 \<le> INT_MAX"
  obtains n ov ss ts bls tl where "ctr_crypt C N L False cur c out = ctr_loop C N n (ss @ ts) (set_overflow ov c) out"
    "valid_buf ov" "allocator ov" "contents ov = []" "pieces ss bls" "\<forall>b \<in> set bls. length b = 16"
    "pieces ts (if tl = [] then [] else [tl])" "r @ b = concat bls @ tl" "length tl < 16"
proof -
  let ?ov = "overflow (cipher_impl c)"
  have k: "common_spec C" "array_list_spec L" "valid_buf ?ov" "allocator ?ov" using k by (simp_all add: ctr_kept_def)
  have "length r + length b \<le> SIZE_MAX div 2" using r(2) len by simp
  from collected [OF k(1,3,4) r(1) [symmetric] b(1) this, of "\<lambda>b. aws_byte_buf_reset C b True"] reset_law [OF k(1,3)] k(4)
  obtain g ov1 where g: "(if buf_len ?ov \<noteq> 0 then rbind (prepend_overflow C ?ov cur) (\<lambda>b. Inr (b, aws_byte_buf_reset C ?ov True))
      else rbind (copy_cursor C cur) (\<lambda>b. Inr (b, ?ov))) = Inr (g, ov1)"
    "valid_buf g" "contents g = r @ b" "valid_buf ov1" "contents ov1 = []" "allocator ov1" by auto
  have "r @ b \<noteq> []" using b(2) by simp
  from sliced [OF k(1,2) g(2,3) this, of "cur_len cur div 16 + 1"] obtain l ss ts bls tl where
      s: "rbind (aws_array_list_init_dynamic L (cur_len cur div 16 + 1)) (slice_loop C L (Suc (buf_len g)) (aws_byte_cursor_from_buf g)) = Inr l"
        "map (\<lambda>i. case aws_array_list_get_at L l i of Inl _ \<Rightarrow> null_cursor | Inr s \<Rightarrow> s) [0..<length (al_items l)] = ss @ ts"
        "length (al_items l) \<noteq> 0" "pieces ss bls" "\<forall>b \<in> set bls. length b = 16" "pieces ts (if tl = [] then [] else [tl])"
        "r @ b = concat bls @ tl" "length tl < 16" by metis
  have "ctr_crypt C N L False cur c out = ctr_loop C N (length (al_items l)) (ss @ ts) (set_overflow ov1 c) out"
    using g(1) s(1-3) b(2) bytes_at_length [OF b(1)] by (auto simp: ctr_crypt_def Let_def)
  with g(4-6) s(4-8) show ?thesis by (intro that)
qed

text \<open>The invariant after the blocks have been processed and the rest is kept.\<close>

lemma ctr_io_extend:
  assumes "length x = 16 * j" and "length y = 16 * k" and "w = part (ctr_stream X p) 0 x"
    and "ctr_kept C N L X p c" and "ctr_at X p (j + k) c" and "cipher_good c"
    and "valid_buf ov" and "allocator ov" and "contents ov = u" and "length u < 16"
  shows "ctr_io C N L X (set_overflow ov c) p ((x @ y) @ u) (w @ part (ctr_stream X p) (16 * j) y)"
proof -
  have "w @ part (ctr_stream X p) (16 * j) y = part (ctr_stream X p) 0 (x @ y)" "length (x @ y) = 16 * (j + k)"
    using assms(1-3) by (simp_all add: part_append)
  with assms(4-10) show ?thesis unfolding ctr_io_def
    by (intro conjI exI [of _ "x @ y"] exI [of _ "j + k"]) (simp_all add: ctr_kept_def ctr_at_def)
qed

lemma ctr_feed_ok:
  assumes io: "ctr_io C N L X c p m w" and b: "bytes_at (ptr cur) (cur_len cur) = Inr b" and len: "length b + 16 \<le> INT_MAX"
    and lim: "length m + length b < ctr_room p"
    and out: "valid_buf out" "allocator out" "buf_len out + (length m - length w) + length b \<le> SIZE_MAX div 2"
  shows "\<exists>w' c' out'. run_call (s_aes_ctr_vtable C N L) (ctr_feed d cur) c out = (Inr (), c', out') \<and>
    ctr_io C N L X c' p (m @ b) (w @ w') \<and> valid_buf out' \<and> allocator out' \<and> contents out' = contents out @ w'"
proof -
  obtain x j where i: "m = x @ contents (overflow (cipher_impl c))" "length x = 16 * j" "w = part (ctr_stream X p) 0 x" "ctr_at X p j c"
      "length (contents (overflow (cipher_impl c))) < 16" "ctr_kept C N L X p c" "cipher_good c"
    using io by (auto simp: ctr_io_def)
  define r where "r = contents (overflow (cipher_impl c))"
  have k: "common_spec C" "array_list_spec L" "valid_buf (overflow (cipher_impl c))" "allocator (overflow (cipher_impl c))" "block_size c = 16"
    using i(6) by (simp_all add: ctr_kept_def)
  have call: "run_call (s_aes_ctr_vtable C N L) (ctr_feed d cur) c out = ctr_crypt C N L False cur c out"
    using ctr_run_call(1) [OF i(7) k(5)] bytes_at_length [OF b] len by simp
  show ?thesis
  proof (cases "b = []")
    case True
    then have "ctr_crypt C N L False cur c out = (Inr (), c, out)" using bytes_at_length [OF b] by (simp add: ctr_crypt_def)
    with call io True out show ?thesis by (intro exI [of _ "[]"] exI [of _ c] exI [of _ out]) simp
  next
    case False
    obtain n ov1 ss ts bls tl where run: "ctr_crypt C N L False cur c out = ctr_loop C N n (ss @ ts) (set_overflow ov1 c) out"
        and ov1: "valid_buf ov1" "allocator ov1" "contents ov1 = []"
        and s: "pieces ss bls" "\<forall>b \<in> set bls. length b = 16" "pieces ts (if tl = [] then [] else [tl])" "r @ b = concat bls @ tl" "length tl < 16"
      by (rule ctr_feed_split [OF i(6) r_def i(5) [folded r_def] b False len])
    let ?c = "set_overflow ov1 c"
    have bl: "length (concat bls) = 16 * length bls" using s(2) by (induction bls) simp_all
    have tot: "16 * (j + length bls) + length tl = length m + length b"
      using arg_cong [OF s(4), of length] bl i(1,2) by (simp add: r_def)
    from tot lim counter_left(1) [of "j + length bls" "length tl" p]
    have lim': "counter0 p + j + length bls < 2 ^ 32" by (simp only: add.assoc)
    have kc: "ctr_kept C N L X p ?c" "ctr_at X p j ?c" using i(4,6) ov1 by (simp_all add: ctr_kept_def ctr_at_def)
    have room: "buf_len out + length (concat bls) \<le> SIZE_MAX div 2" using out(3) tot bl i(2,3) by simp
    from ctr_full [OF s(1,2) kc lim' out(1,2) room, of n ts] obtain c1 out1 where
        f: "ctr_loop C N n (ss @ ts) ?c out = ctr_loop C N n ts c1 out1" "ctr_kept C N L X p c1"
          "ctr_at X p (j + length bls) c1" "overflow (cipher_impl c1) = ov1" "cipher_good c1 = cipher_good c"
          "valid_buf out1" "allocator out1" "contents out1 = contents out @ part (ctr_stream X p) (16 * j) (concat bls)" by auto
    from ctr_rest [OF k(1) ov1 [folded f(4)] s(3,5)] obtain ov2 where
        o2: "ctr_loop C N n ts c1 out1 = (Inr (), set_overflow ov2 c1, out1)" "valid_buf ov2" "allocator ov2" "contents ov2 = tl" by blast
    have "m @ b = (x @ concat bls) @ tl" using i(1) s(4) by (simp add: r_def)
    with ctr_io_extend [OF i(2) bl i(3) f(2,3) _ o2(2-4) s(5)] f(5) i(7)
    have "ctr_io C N L X (set_overflow ov2 c1) p (m @ b) (w @ part (ctr_stream X p) (16 * j) (concat bls))" by simp
    with call run f(1,6-8) o2(1) show ?thesis by auto
  qed
qed

lemma ctr_after_final:
  assumes "ctr_kept C N L X p c"
  shows "ctr_kept C N L X p ((on_impl (\<lambda>i. i\<lparr>working_iv := aws_byte_buf_secure_zero C (working_iv i)\<rparr>) (zero_overflow C c))\<lparr>cipher_good := g\<rparr>)"
  using assms secure_zero_law [of C "overflow (cipher_impl c)"] secure_zero_law [of C "working_iv (cipher_impl c)"]
  by (simp add: ctr_kept_def zero_overflow_def)

text \<open>The finalize call makes one slice of what is kept.\<close>

lemma ctr_final_split:
  assumes k: "ctr_kept C N L X p c" and r: "r = contents (overflow (cipher_impl c))" "length r < 16" "r \<noteq> []"
  obtains n s where "ctr_crypt C N L True (aws_byte_cursor_from_buf (overflow (cipher_impl c))) c out = ctr_loop C N n [s] c out"
    "n \<noteq> 0" "bytes_at (ptr s) (cur_len s) = Inr r" "buf_len (overflow (cipher_impl c)) = length r"
proof -
  let ?ov = "overflow (cipher_impl c)"
  let ?cur = "aws_byte_cursor_from_buf ?ov"
  have k: "common_spec C" "array_list_spec L" "valid_buf ?ov" using k by (simp_all add: ctr_kept_def)
  have b: "bytes_at (ptr ?cur) (cur_len ?cur) = Inr r" using bytes_at_from_buf [OF k(3)] r(1) by simp
  have "length r \<le> SIZE_MAX div 2" using r(2) by simp
  from copied [OF k(1) b this] obtain g where g: "copy_cursor C ?cur = Inr g" "valid_buf g" "contents g = r" by blast
  from sliced [OF k(1,2) g(2,3) r(3), of "cur_len ?cur div 16 + 1"] obtain l ss ts bls tl where
      s: "rbind (aws_array_list_init_dynamic L (cur_len ?cur div 16 + 1)) (slice_loop C L (Suc (buf_len g)) (aws_byte_cursor_from_buf g)) = Inr l"
        "map (\<lambda>i. case aws_array_list_get_at L l i of Inl _ \<Rightarrow> null_cursor | Inr s \<Rightarrow> s) [0..<length (al_items l)] = ss @ ts"
        "length (al_items l) \<noteq> 0" "pieces ss bls" "\<forall>b \<in> set bls. length b = 16" "pieces ts (if tl = [] then [] else [tl])"
        "r = concat bls @ tl" by metis
  have "bls = []" using s(5,7) r(2) by (cases bls) auto
  then have "ss = []" "tl = r" using s(4,7) by (simp_all add: pieces_def)
  then obtain s1 where s1: "ss @ ts = [s1]" "bytes_at (ptr s1) (cur_len s1) = Inr r" using s(6) r(3) by (auto simp: pieces_def list_all2_Cons2)
  have "set_overflow ?ov c = c" by (simp add: on_impl_def)
  then have "ctr_crypt C N L True ?cur c out = ctr_loop C N (length (al_items l)) [s1] c out"
    using g(1) s(1-3) s1(1) r(3) bytes_at_length [OF b] by (auto simp: ctr_crypt_def Let_def)
  from that [OF this s(3) s1(2)] length_contents [OF k(3)] r(1) show ?thesis by simp
qed

lemma ctr_finish_ok:
  assumes io: "ctr_io C N L X c p m w" and t: "t = part (ctr_stream X p) 0 m" and lim: "length m \<le> ctr_limit p"
    and out: "valid_buf out" "allocator out" "buf_len out + (length m - length w) \<le> SIZE_MAX div 2"
  shows "\<exists>w' c' out'. run_call (s_aes_ctr_vtable C N L) (ctr_final d) c out = (Inr (), c', out') \<and> t = w @ w' \<and>
    ctr_kept C N L X p c' \<and> valid_buf out' \<and> contents out' = contents out @ w'"
proof -
  obtain x j where i: "m = x @ contents (overflow (cipher_impl c))" "length x = 16 * j" "w = part (ctr_stream X p) 0 x" "ctr_at X p j c"
      "length (contents (overflow (cipher_impl c))) < 16" "ctr_kept C N L X p c" "cipher_good c"
    using io by (auto simp: ctr_io_def)
  define r where "r = contents (overflow (cipher_impl c))"
  let ?ov = "overflow (cipher_impl c)"
  let ?cur = "aws_byte_cursor_from_buf ?ov"
  have fin: "run_call (s_aes_ctr_vtable C N L) (ctr_final d) c out =
      (Inr (), (on_impl (\<lambda>i. i\<lparr>working_iv := aws_byte_buf_secure_zero C (working_iv i)\<rparr>) (zero_overflow C c'))\<lparr>cipher_good := False\<rparr>, out')"
    if "ctr_crypt C N L True ?cur c out = (Inr (), c', out')" for c' out'
    using ctr_run_call(2) [OF i(7), of C N L d out] that by (simp add: s_aes_ctr_finalize_encryption_def)
  show ?thesis
  proof (cases "r = []")
    case True
    have "valid_buf ?ov" using i(6) by (simp add: ctr_kept_def)
    from bytes_at_length [OF bytes_at_from_buf [OF this]] True have "cur_len ?cur = 0" by (simp add: r_def)
    then have "ctr_crypt C N L True ?cur c out = (Inr (), c, out)" by (simp add: ctr_crypt_def)
    from fin [OF this] True i(1,3) t out(1) ctr_after_final [OF i(6)] show ?thesis by (auto simp: r_def)
  next
    case False
    obtain cnt s1 where s1: "ctr_crypt C N L True ?cur c out = ctr_loop C N cnt [s1] c out" "cnt \<noteq> 0"
        "bytes_at (ptr s1) (cur_len s1) = Inr r" "buf_len ?ov = length r"
      by (rule ctr_final_split [OF i(6) r_def i(5) [folded r_def] False])
    have n: "Suc (counter0 p + j) < 2 ^ 32"
      using counter_left(2) [of j "length r" p] False lim i(1,2) by (simp add: r_def)
    have "length r \<le> 16" "length r = 16 \<or> buf_len ?ov > 0 \<and> cnt \<noteq> 0" "buf_len out + length r \<le> SIZE_MAX div 2"
      using s1(2,4) False i(5) out(3) i(1,3) by (simp_all add: r_def)
    from ctr_slice_ok [OF i(6,4) n s1(3) this(1,2) out(1,2) this(3)] obtain c' out' where
        e: "ctr_slice C N cnt s1 c out = (Inr (), c', out')" "ctr_kept C N L X p c'" "valid_buf out'"
          "contents out' = contents out @ part (ctr_stream X p) (16 * j) r" by metis
    have "t = w @ part (ctr_stream X p) (16 * j) r" using t i(1-3) by (simp add: part_append r_def)
    with fin s1(1) e ctr_after_final [OF e(2)] show ?thesis by fastforce
  qed
qed

section \<open>The end of the counter\<close>

lemma cut_blocks:
  assumes "pieces ss bls" and "\<forall>b \<in> set bls. length b = 16" and "z = concat bls @ u" and "q < length bls"
  obtains ys s rest y x where "ss = ys @ s # rest" "pieces ys y" "bytes_at (ptr s) (cur_len s) = Inr x" "length y = q"
    "\<forall>b \<in> set y. length b = 16" "length x = 16" "length (concat y) = 16 * q" "take (16 * Suc q) z = concat y @ x"
proof -
  let ?y = "take q bls" and ?x = "bls ! q"
  have bls: "bls = ?y @ ?x # drop (Suc q) bls" using assms(4) by (rule id_take_nth_drop)
  have q: "q < length ss" using assms(1,4) by (simp add: pieces_def list_all2_lengthD)
  have ss: "ss = take q ss @ ss ! q # drop (Suc q) ss" using q by (rule id_take_nth_drop)
  have p: "pieces (take q ss) ?y" "bytes_at (ptr (ss ! q)) (cur_len (ss ! q)) = Inr ?x"
    using assms(1) list_all2_nthD [OF assms(1) [unfolded pieces_def] q] by (simp_all add: pieces_def list_all2_takeI)
  have l: "\<forall>b \<in> set ?y. length b = 16" "length ?x = 16" using assms(2,4) by (auto dest: in_set_takeD)
  have ly: "length (concat zs) = 16 * length zs" if "\<forall>b \<in> set zs. length b = 16" for zs :: "bytes list"
    using that by (induction zs) simp_all
  have c: "length (concat ?y) = 16 * q" "length ?y = q" using ly [OF l(1)] assms(4) by simp_all
  have "z = (concat ?y @ ?x) @ concat (drop (Suc q) bls) @ u"
    using arg_cong [OF bls, of concat] assms(3) by simp
  then have "take (16 * Suc q) z = concat ?y @ ?x" using c(1) l(2) by simp
  with that [OF ss p c(2) l c(1)] show ?thesis .
qed

text \<open>A call with which the block of the largest counter value is complete writes up to that block and fails.\<close>

lemma ctr_feed_exhausted:
  assumes io: "ctr_io C N L X c p m w" and b: "bytes_at (ptr cur) (cur_len cur) = Inr b" and len: "length b + 16 \<le> INT_MAX"
    and lim: "length m < ctr_room p" "ctr_room p \<le> length m + length b"
    and out: "valid_buf out" "allocator out" "buf_len out + (length m - length w) + length b \<le> SIZE_MAX div 2"
  shows "\<exists>w' c' out'. run_call (s_aes_ctr_vtable C N L) (ctr_feed d cur) c out = (Inl (Raised AWS_ERROR_OVERFLOW_DETECTED), c', out') \<and>
    \<not> cipher_good c' \<and> contents out' = contents out @ w' \<and> w @ w' = part (ctr_stream X p) 0 (take (ctr_room p) (m @ b))"
proof -
  obtain x j where i: "m = x @ contents (overflow (cipher_impl c))" "length x = 16 * j" "w = part (ctr_stream X p) 0 x" "ctr_at X p j c"
      "length (contents (overflow (cipher_impl c))) < 16" "ctr_kept C N L X p c" "cipher_good c"
    using io by (auto simp: ctr_io_def)
  define r where "r = contents (overflow (cipher_impl c))"
  have k: "block_size c = 16" using i(6) by (simp add: ctr_kept_def)
  have call: "run_call (s_aes_ctr_vtable C N L) (ctr_feed d cur) c out = ctr_crypt C N L False cur c out"
    using ctr_run_call(1) [OF i(7) k] bytes_at_length [OF b] len by simp
  have ne: "b \<noteq> []" using lim by auto
  obtain n ov ss ts bls tl where run: "ctr_crypt C N L False cur c out = ctr_loop C N n (ss @ ts) (set_overflow ov c) out"
      and ov: "valid_buf ov" "allocator ov" "contents ov = []"
      and s: "pieces ss bls" "\<forall>b \<in> set bls. length b = 16" "r @ b = concat bls @ tl" "length tl < 16"
    by (rule ctr_feed_split [OF i(6) r_def i(5) [folded r_def] b ne len])
  let ?c = "set_overflow ov c"
  have kc: "ctr_kept C N L X p ?c" "ctr_at X p j ?c" using i(4,6) ov by (simp_all add: ctr_kept_def ctr_at_def)
  have blocks: "length (concat zs) = 16 * length zs" if "\<forall>b \<in> set zs. length b = 16" for zs :: "bytes list"
    using that by (induction zs) simp_all
  have tot: "16 * (j + length bls) + length tl = length m + length b"
    using arg_cong [OF s(3), of length] blocks [OF s(2)] i(1,2) by (simp add: r_def)
  \<comment> \<open>The first blocks still leave a counter value, the next one takes the last.\<close>
  obtain q where q: "Suc (counter0 p + (j + q)) = 2 ^ 32" "q < length bls"
  proof (rule that [of "2 ^ 32 - 1 - counter0 p - j"])
    have "counter0 p + j < 2 ^ 32" using counter_left(1) [of j "length r" p] lim(1) i(1,2) by (simp add: r_def)
    then show "Suc (counter0 p + (j + (2 ^ 32 - 1 - counter0 p - j))) = 2 ^ 32" by simp
    then show "2 ^ 32 - 1 - counter0 p - j < length bls" using tot lim(2) s(4) by (simp add: ctr_room_def)
  qed
  have room: "ctr_room p = 16 * (j + Suc q)" using q(1) by (simp add: ctr_room_def)
  obtain ys s1 rest y z where ss: "ss = ys @ s1 # rest" "pieces ys y" "bytes_at (ptr s1) (cur_len s1) = Inr z" "length y = q"
      and l16: "\<forall>b \<in> set y. length b = 16" "length z = 16" and ly: "length (concat y) = 16 * q"
      and cut: "take (16 * Suc q) (r @ b) = concat y @ z"
    by (rule cut_blocks [OF s(1-3) q(2)])
  have le: "16 * Suc q \<le> length (r @ b)" using room lim(2) i(1,2) by (simp add: r_def)
  have bo: "buf_len out + 16 * Suc q \<le> SIZE_MAX div 2" using le out(3) i(1-3) by (simp add: r_def)
  have "counter0 p + j + length y < 2 ^ 32" "buf_len out + length (concat y) \<le> SIZE_MAX div 2" using q(1) ss(4) ly bo by simp_all
  from ctr_full [OF ss(2) l16(1) kc this(1) out(1,2) this(2), of n "s1 # rest @ ts"] obtain c1 out1 where
      f: "ctr_loop C N n (ss @ ts) ?c out = ctr_loop C N n (s1 # rest @ ts) c1 out1" "ctr_kept C N L X p c1" "ctr_at X p (j + q) c1"
        "valid_buf out1" "allocator out1" "contents out1 = contents out @ part (ctr_stream X p) (16 * j) (concat y)"
    using ss(1,4) by auto
  have "buf_len out1 = buf_len out + 16 * q"
    using arg_cong [OF f(6), of length] length_contents [OF f(4)] length_contents [OF out(1)] ly by simp
  then have "length z \<le> 16" "length z = 16 \<or> buf_len (overflow (cipher_impl c1)) > 0 \<and> n \<noteq> 0" "buf_len out1 + length z \<le> SIZE_MAX div 2"
    using l16(2) bo by simp_all
  from ctr_slice_last [OF f(2,3) q(1) ss(3) this(1,2) f(4,5) this(3)] obtain c2 out2 where
      g: "ctr_slice C N n s1 c1 out1 = (Inl (Raised AWS_ERROR_OVERFLOW_DETECTED), c2, out2)" "\<not> cipher_good c2"
        "contents out2 = contents out1 @ part (ctr_stream X p) (16 * (j + q)) z" by metis
  have "w @ part (ctr_stream X p) (16 * j) (concat y @ z) = part (ctr_stream X p) 0 (x @ take (16 * Suc q) (r @ b))"
    using i(2,3) cut by (simp add: part_append)
  also have "x @ take (16 * Suc q) (r @ b) = take (ctr_room p) (m @ b)" using i(1,2) room by (simp add: r_def)
  finally have "w @ part (ctr_stream X p) (16 * j) (concat y @ z) = part (ctr_stream X p) 0 (take (ctr_room p) (m @ b))" .
  moreover have "contents out2 = contents out @ part (ctr_stream X p) (16 * j) (concat y @ z)"
    using f(6) g(3) ly by (simp add: part_append algebra_simps)
  ultimately show ?thesis using call run f(1) g(1,2) by auto
qed

text \<open>Finalizing with a part of that block writes it and fails.\<close>

lemma ctr_final_exhausted:
  assumes io: "ctr_io C N L X c p m w" and lim: "ctr_limit p < length m" "length m < ctr_room p"
    and out: "valid_buf out" "allocator out" "buf_len out + (length m - length w) \<le> SIZE_MAX div 2"
  shows "\<exists>w' c' out'. run_call (s_aes_ctr_vtable C N L) (ctr_final d) c out = (Inl (Raised AWS_ERROR_OVERFLOW_DETECTED), c', out') \<and>
    \<not> cipher_good c' \<and> contents out' = contents out @ w' \<and> w @ w' = part (ctr_stream X p) 0 m"
proof -
  obtain x j where i: "m = x @ contents (overflow (cipher_impl c))" "length x = 16 * j" "w = part (ctr_stream X p) 0 x" "ctr_at X p j c"
      "length (contents (overflow (cipher_impl c))) < 16" "ctr_kept C N L X p c" "cipher_good c"
    using io by (auto simp: ctr_io_def)
  define r where "r = contents (overflow (cipher_impl c))"
  let ?ov = "overflow (cipher_impl c)"
  have m: "length m = 16 * j + length r" "length r < 16" using i(1,2,5) by (simp_all add: r_def)
  then have j: "Suc (counter0 p + j) = 2 ^ 32" using lim unfolding ctr_limit_def ctr_room_def by linarith
  then have "ctr_limit p = 16 * j" by (simp add: ctr_limit_def)
  then have ne: "r \<noteq> []" using lim(1) m(1) by auto
  obtain cnt s1 where s1: "ctr_crypt C N L True (aws_byte_cursor_from_buf ?ov) c out = ctr_loop C N cnt [s1] c out" "cnt \<noteq> 0"
      "bytes_at (ptr s1) (cur_len s1) = Inr r" "buf_len ?ov = length r"
    by (rule ctr_final_split [OF i(6) r_def i(5) [folded r_def] ne])
  have "length r \<le> 16" "length r = 16 \<or> buf_len ?ov > 0 \<and> cnt \<noteq> 0" "buf_len out + length r \<le> SIZE_MAX div 2"
    using s1(2,4) ne m(2) out(3) i(1,3) by (simp_all add: r_def)
  from ctr_slice_last [OF i(6,4) j s1(3) this(1,2) out(1,2) this(3)] obtain c' out' where
      e: "ctr_slice C N cnt s1 c out = (Inl (Raised AWS_ERROR_OVERFLOW_DETECTED), c', out')"
        "contents out' = contents out @ part (ctr_stream X p) (16 * j) r" by metis
  moreover have "w @ part (ctr_stream X p) (16 * j) r = part (ctr_stream X p) 0 m" using i(1-3) by (simp add: part_append r_def)
  ultimately show ?thesis using ctr_run_call(2) [OF i(7), of C N L d out] s1(1) by (auto simp: s_aes_ctr_finalize_encryption_def)
qed

section \<open>The contract\<close>

lemma room_pos: "ctr_io C N L X c p m w \<Longrightarrow> 0 < ctr_room p"
  using be_nat_bound [of "drop 12 (snd p)"] by (simp add: ctr_io_def ctr_kept_def ctr_room_def)

text \<open>As a stream the cipher can be fed until the last block is complete; finalizing succeeds within the limit.\<close>

interpretation cng_ctr: cipher_stream "s_aes_ctr_vtable C N L" "ctr_feed d" "ctr_final d" "ctr_io C N L X"
  "\<lambda>p. ctr_room p - 1" "SIZE_MAX div 2" "\<lambda>p m t. length m \<le> ctr_limit p \<and> t = part (ctr_stream X p) 0 m" "\<lambda>_ _. False" "\<lambda>p _. ctr_kept C N L X p" for C N L X d
proof (unfold_locales, goal_cases)
  case (1 c p m w cur b out)
  have "length m + length b < ctr_room p" "buf_len out + (length m - length w) + length b \<le> SIZE_MAX div 2"
    using 1(4,8) room_pos [OF 1(1)] by linarith+
  from ctr_feed_ok [OF 1(1-3) this(1) 1(5,6) this(2)] valid_capacity show ?case by blast
next
  case (2 c p m w)
  then show ?case by (auto simp: ctr_io_def)
next
  case (3 c p m w t out)
  have "buf_len out + (length m - length w) \<le> SIZE_MAX div 2" using 3(7) by linarith
  from ctr_finish_ok [OF 3(1) _ _ 3(4,5) this] 3(2) show ?case by blast
qed simp

section \<open>New and reset ciphers\<close>

lemma ctr_start_io:
  assumes "ctr_kept C N L X (k, v) c" and "cipher_good c" and "buf_len (overflow (cipher_impl c)) = 0"
    and "contents (working_iv (cipher_impl c)) = v" and "\<not> block_padding (cipher_impl c)"
    and "key_handle (cipher_impl c) = Some h" and "ecb_key X h = Some k"
  shows "ctr_io C N L X c (k, v) [] []"
proof -
  have "length v = 16" "valid_buf (overflow (cipher_impl c))" using assms(1) by (simp_all add: ctr_kept_def)
  moreover from contents_empty [OF this(2) assms(3)] have "contents (overflow (cipher_impl c)) = []" .
  ultimately show ?thesis using assms by (auto simp: ctr_io_def ctr_at_def ctr_block_0)
qed

lemma ctr_new_ok:
  assumes C: "common_spec C" "array_list_spec L" and X: "block_spec N X" "s_aes_ctr_algorithm_handle H = ecb_alg X"
    and k: "bytes_at (ptr kc) (cur_len kc) = Inr k" "length k = 32"
    and v: "bytes_at (ptr vc) (cur_len vc) = Inr v" "length v = 16"
  shows "\<exists>c. bcrypt_ctr_256_new_impl C N H (Some kc) (Some vc) = Inr c \<and> ctr_io C N L X c (k, v) [] []"
proof -
  obtain h h' where h: "key_imports N (ecb_alg X) k h" "BCryptSetProperty_iv N h v = (True, h')" "ecb_key X h' = Some k"
    by (rule ecb_start [OF X(1) k(2) v(2)])
  have kl: "length k \<le> 4096" and vl: "length v \<le> 4096" and vm: "length v \<le> SIZE_MAX div 2" using k(2) v(2) by simp_all
  obtain kb where kb: "key_material C (Some kc) = Inr kb" "valid_buf kb" "contents kb = k" by (rule new_material [OF C(1) k(1) kl])
  obtain vb where vb: "iv_material C 16 True (Some vc) = Inr vb" "valid_buf vb" "contents vb = v"
    by (rule new_material [OF C(1) v(1) vl])
  let ?c = "calloc_cipher (ecb_alg X) 16 :: ('a, 'b) bcrypt_cipher"
  have z: "buf_len (key ?c) = 0" "buf_len (iv ?c) = 0" "alg_handle (cipher_impl ?c) = ecb_alg X"
    by (simp_all add: calloc_cipher_def zero_buf_def)
  have i: "s_initialize_cipher_materials C N ?c (Some kc) (Some vc) None None 16 True False =
      (Inr (), on_impl (\<lambda>i. i\<lparr>key_handle := Some h', block_padding := False\<rparr>) (?c\<lparr>key := kb, iv := vb\<rparr>))"
    by (rule materials_plain [OF C(1) _ kb(2,3) k(2) _ vb(2,3) v(2) _ h(2)]) (simp_all add: z kb(1) vb(1) h(1))
  have "(32 :: nat) \<le> SIZE_MAX div 2" by simp
  from init_law [OF C(1) this] obtain ov where ov: "aws_byte_buf_init C 32 = Inr ov" "fresh_buf 32 ov" by blast
  have vc: "bytes_at (ptr (aws_byte_cursor_from_buf vb)) (cur_len (aws_byte_cursor_from_buf vb)) = Inr v"
    using bytes_at_from_buf [OF vb(2)] vb(3) by simp
  from copied [OF C(1) vc vm] obtain w where w: "copy_cursor C (aws_byte_cursor_from_buf vb) = Inr w" "valid_buf w" "allocator w" "contents w = v"
    by blast
  let ?d = "(on_impl (\<lambda>i. i\<lparr>overflow := ov, working_iv := w, iv_shared := False\<rparr>)
    (on_impl (\<lambda>i. i\<lparr>key_handle := Some h', block_padding := False\<rparr>) (?c\<lparr>key := kb, iv := vb\<rparr>)))\<lparr>cipher_good := True\<rparr>"
  have "bcrypt_ctr_256_new_impl C N H (Some kc) (Some vc) = Inr ?d"
    using i ov(1) w(1) X(2) by (simp add: bcrypt_ctr_256_new_impl_def or_zero_def)
  moreover have "ctr_io C N L X ?d (k, v) [] []"
    using C X(1) k(2) v(2) kb vb ov(2) w h(3)
    by (intro ctr_start_io) (simp_all add: ctr_kept_def calloc_cipher_def fresh_buf_def)
  ultimately show ?thesis by blast
qed

lemma ctr_reset_ok:
  assumes K: "ctr_kept C N L X p c"
  shows "\<exists>c'. aws_symmetric_cipher_reset (s_aes_ctr_vtable C N L) c = (Inr (), c') \<and> ctr_io C N L X c' p [] []"
proof (cases p)
  case (Pair k v)
  with K have a: "common_spec C" "block_spec N X" "length k = 32" "length v = 16" "valid_buf (key c)" "contents (key c) = k"
    "valid_buf (iv c)" "contents (iv c) = v" "alg_handle (cipher_impl c) = ecb_alg X" "valid_buf (overflow (cipher_impl c))"
    "valid_buf (working_iv (cipher_impl c))" "allocator (working_iv (cipher_impl c))" "\<not> iv_shared (cipher_impl c)"
    by (simp_all add: ctr_kept_def)
  obtain h h' where h: "key_imports N (ecb_alg X) k h" "BCryptSetProperty_iv N h v = (True, h')" "ecb_key X h' = Some k"
    by (rule ecb_start [OF a(2-4)])
  have l: "buf_len (key c) = 32" "buf_len (iv c) = 16" using length_contents [OF a(5)] length_contents [OF a(7)] a(3,4,6,8) by simp_all
  let ?c = "s_clear_reusable_components C c"
  have wz: "working_iv (cipher_impl ?c) = aws_byte_buf_secure_zero C (working_iv (cipher_impl c))" "iv_shared (cipher_impl ?c) = iv_shared (cipher_impl c)"
    using a(13) by (simp_all add: s_clear_reusable_components_def)
  have w0: "valid_buf (working_iv (cipher_impl ?c))" "allocator (working_iv (cipher_impl ?c))" "buf_len (working_iv (cipher_impl ?c)) = 0"
    using secure_zero_law [OF a(1,11)] a(12) wz by simp_all
  have vc: "bytes_at (ptr (aws_byte_cursor_from_buf (iv c))) (cur_len (aws_byte_cursor_from_buf (iv c))) = Inr v"
    using bytes_at_from_buf [OF a(7)] a(8) by simp
  have "buf_len (working_iv (cipher_impl ?c)) + length v \<le> SIZE_MAX div 2" using w0(3) a(4) by simp
  from append_ignoring_ok [OF a(1) w0(1,2) vc this] contents_empty [OF w0(1,3)] obtain w where
      w: "append_ignoring C (working_iv (cipher_impl ?c)) (aws_byte_cursor_from_buf (iv c)) = Inr w" "valid_buf w" "allocator w" "contents w = v" by auto
  let ?c1 = "set_working_iv w ?c"
  have i: "s_initialize_cipher_materials C N ?c1 None None None None 16 True False =
      (Inr (), on_impl (\<lambda>i. i\<lparr>key_handle := Some h', block_padding := False\<rparr>) (?c1\<lparr>key := key c, iv := iv c\<rparr>))"
    by (rule materials_plain [OF a(1) _ a(5,6,3) _ a(7,8,4) _ h(2)]) (simp_all add: l a(9) h(1))
  let ?d = "(on_impl (\<lambda>i. i\<lparr>key_handle := Some h', block_padding := False\<rparr>) (?c1\<lparr>key := key c, iv := iv c\<rparr>))\<lparr>cipher_good := True\<rparr>"
  have "aws_symmetric_cipher_reset (s_aes_ctr_vtable C N L) c = (Inr (), ?d)"
    using i w(1) by (simp add: aws_symmetric_cipher_reset_def s_aes_ctr_vtable_def s_reset_ctr_cipher_def Let_def)
  moreover have "ctr_io C N L X ?d (k, v) [] []"
    using K Pair h(3) w wz(2) secure_zero_law [OF a(1,10)] by (intro ctr_start_io) (simp_all add: ctr_kept_def)
  ultimately show ?thesis using Pair by blast
qed

section \<open>Whole messages\<close>

text \<open>
  Claim C21. On Windows, a new CTR cipher fed a message in any pieces and finalized writes the message
  combined with the key stream of counter mode (the block cipher on the vector with its last four
  bytes counted up), provided the counter does not reach its last value; after a reset, feeding the result as cipher text in any pieces
  writes the message.
\<close>

theorem cng_ctr_round_trip:
  assumes C: "common_spec C" "array_list_spec L" and X: "block_spec N X" "s_aes_ctr_algorithm_handle H = ecb_alg X"
    and k: "bytes_at (ptr kc) (cur_len kc) = Inr k" "length k = 32"
    and v: "bytes_at (ptr vc) (cur_len vc) = Inr v" "length v = 16"
    and ps: "pieces cs bs" "\<forall>b \<in> set bs. length b + 16 \<le> INT_MAX"
    and lim: "length (concat bs) \<le> 16 * (2 ^ 32 - 1 - be_nat (drop 12 v))"
    and out: "valid_buf out" "allocator out" "buf_len out + length (concat bs) + 16 \<le> SIZE_MAX div 2"
    and q: "q = part (ctr_ks (Ecb X k) v) 0 (concat bs)"
  shows "\<exists>c c1 c2 c3 out1 out2. bcrypt_ctr_256_new_impl C N H (Some kc) (Some vc) = Inr c \<and>
    run_calls (s_aes_ctr_vtable C N L) (map Encrypt cs) c out = (replicate (length cs) (Inr ()), c1, out1) \<and>
    aws_symmetric_cipher_finalize_encryption (s_aes_ctr_vtable C N L) c1 out1 = (Inr (), c2, out2) \<and>
    contents out2 = contents out @ q \<and>
    aws_symmetric_cipher_reset (s_aes_ctr_vtable C N L) c2 = (Inr (), c3) \<and>
    (\<forall>ds ws res. pieces ds ws \<longrightarrow> concat ws = q \<longrightarrow> (\<forall>b \<in> set ws. length b + 16 \<le> INT_MAX) \<longrightarrow>
      valid_buf res \<longrightarrow> allocator res \<longrightarrow> buf_len res + length q + 16 \<le> SIZE_MAX div 2 \<longrightarrow>
      (\<exists>d1 d2 res1 res2. run_calls (s_aes_ctr_vtable C N L) (map Decrypt ds) c3 res = (replicate (length ds) (Inr ()), d1, res1) \<and>
         aws_symmetric_cipher_finalize_decryption (s_aes_ctr_vtable C N L) d1 res1 = (Inr (), d2, res2) \<and>
         contents res2 = contents res @ concat bs))"
proof -
  obtain c where c: "bcrypt_ctr_256_new_impl C N H (Some kc) (Some vc) = Inr c" "ctr_io C N L X c (k, v) [] []"
    using ctr_new_ok [OF C X k v] by blast
  have l: "length (concat bs) \<le> ctr_limit (k, v)" using lim by (simp add: ctr_limit_def)
  then have lr: "length (concat bs) \<le> ctr_room (k, v) - 1" using counter_left(3) [of "(k, v)" "length (concat bs)"] v(2) by simp
  from cng_ctr.stream_ok [OF ps(1) c(2) ps(2) lr out(1,2) valid_capacity [OF out(1)] out(3), of True] q l obtain c1 out1 c2 out2 where
      e: "run_calls (s_aes_ctr_vtable C N L) (map Encrypt cs) c out = (replicate (length cs) (Inr ()), c1, out1)"
        "aws_symmetric_cipher_finalize_encryption (s_aes_ctr_vtable C N L) c1 out1 = (Inr (), c2, out2)"
        "contents out2 = contents out @ q" "ctr_kept C N L X (k, v) c2"
    by (auto simp: ctr_feed_def ctr_final_def)
  obtain c3 where c3: "aws_symmetric_cipher_reset (s_aes_ctr_vtable C N L) c2 = (Inr (), c3)" "ctr_io C N L X c3 (k, v) [] []"
    using ctr_reset_ok [OF e(4)] by blast
  have "\<exists>d1 d2 res1 res2. run_calls (s_aes_ctr_vtable C N L) (map Decrypt ds) c3 res = (replicate (length ds) (Inr ()), d1, res1) \<and>
         aws_symmetric_cipher_finalize_decryption (s_aes_ctr_vtable C N L) d1 res1 = (Inr (), d2, res2) \<and>
         contents res2 = contents res @ concat bs"
    if "pieces ds ws" "concat ws = q" "\<forall>b \<in> set ws. length b + 16 \<le> INT_MAX" "valid_buf res" "allocator res"
      "buf_len res + length q + 16 \<le> SIZE_MAX div 2" for ds ws res
  proof -
    have lq: "length (concat ws) \<le> ctr_room (k, v) - 1" "length (concat ws) \<le> ctr_limit (k, v)" "buf_len res + length (concat ws) + 16 \<le> SIZE_MAX div 2"
      using that(2,6) q l lr by simp_all
    have "part (ctr_ks (Ecb X k) v) 0 (concat ws) = concat bs" using that(2) q by simp
    with cng_ctr.stream_ok [OF that(1) c3(2) that(3) lq(1) that(4,5) valid_capacity [OF that(4)] lq(3), of False] lq(2) show ?thesis
      by (auto simp: ctr_feed_def ctr_final_def)
  qed
  with c(1) e(1-3) c3(1) show ?thesis by blast
qed

text \<open>
  Claim C37. On Windows, the CTR counter does not wrap around. Let the vector leave \<open>n\<close> counter values, the largest included, and let
  a new cipher be fed less than \<open>n\<close> blocks in any pieces, as an encryption or a decryption, which succeeds. Then any call that completes the last of these
  blocks fails with AWS_ERROR_OVERFLOW_DETECTED wherever in its data that block ends, having written exactly the first \<open>n\<close> blocks of the message
  combined with the key stream, and so does a finalize call that has to write a part of that block; the cipher is then not good.
\<close>

theorem cng_ctr_counter_exhausted:
  assumes C: "common_spec C" "array_list_spec L" and X: "block_spec N X" "s_aes_ctr_algorithm_handle H = ecb_alg X"
    and k: "bytes_at (ptr kc) (cur_len kc) = Inr k" "length k = 32"
    and v: "bytes_at (ptr vc) (cur_len vc) = Inr v" "length v = 16"
    and n: "n = 2 ^ 32 - be_nat (drop 12 v)"
    and ps: "pieces cs bs" "\<forall>b \<in> set bs. length b + 16 \<le> INT_MAX" "length (concat bs) < 16 * n"
    and out: "valid_buf out" "allocator out" "buf_len out + length (concat bs) + INT_MAX \<le> SIZE_MAX div 2"
    and op: "feed = Encrypt \<and> final = Finalize_encryption \<or> feed = Decrypt \<and> final = Finalize_decryption"
  shows "\<exists>c c1 out1. bcrypt_ctr_256_new_impl C N H (Some kc) (Some vc) = Inr c \<and>
    run_calls (s_aes_ctr_vtable C N L) (map feed cs) c out = (replicate (length cs) (Inr ()), c1, out1) \<and>
    (\<forall>cur b. bytes_at (ptr cur) (cur_len cur) = Inr b \<longrightarrow> length b + 16 \<le> INT_MAX \<longrightarrow> 16 * n \<le> length (concat bs @ b) \<longrightarrow>
      (\<exists>c2 out2. run_call (s_aes_ctr_vtable C N L) (feed cur) c1 out1 = (Inl (Raised AWS_ERROR_OVERFLOW_DETECTED), c2, out2) \<and>
         \<not> aws_symmetric_cipher_is_good c2 \<and>
         contents out2 = contents out @ part (ctr_ks (Ecb X k) v) 0 (take (16 * n) (concat bs @ b)))) \<and>
    (16 * (n - 1) < length (concat bs) \<longrightarrow>
      (\<exists>c2 out2. run_call (s_aes_ctr_vtable C N L) final c1 out1 = (Inl (Raised AWS_ERROR_OVERFLOW_DETECTED), c2, out2) \<and>
         \<not> aws_symmetric_cipher_is_good c2 \<and> contents out2 = contents out @ part (ctr_ks (Ecb X k) v) 0 (concat bs)))"
proof -
  let ?p = "(k, v)" and ?vt = "s_aes_ctr_vtable C N L"
  have p: "ctr_room ?p = 16 * n" "ctr_limit ?p = 16 * (n - 1)" using n by (simp_all add: ctr_room_def ctr_limit_def)
  obtain d where d: "feed = ctr_feed d" "final = ctr_final d" using op by (auto simp: ctr_feed_def ctr_final_def intro: that [of True] that [of False])
  obtain c where c: "bcrypt_ctr_256_new_impl C N H (Some kc) (Some vc) = Inr c" "ctr_io C N L X c ?p [] []"
    using ctr_new_ok [OF C X k v] by blast
  have l: "length [] + length (concat bs) \<le> ctr_room ?p - 1" "length (contents out) = buf_len out"
      "length (contents out) + length [] + length (concat bs) + 16 \<le> SIZE_MAX div 2"
    using ps(3) p(1) out(1,3) by simp_all
  from cng_ctr.feed_all [OF ps(1) c(2) ps(2) l(1) out(1,2) valid_capacity [OF out(1)] _ l(3), of d] obtain w c1 out1 where
      r: "run_calls ?vt (map feed cs) c out = (replicate (length cs) (Inr ()), c1, out1)" "ctr_io C N L X c1 ?p (concat bs) w"
        "valid_buf out1" "allocator out1" "contents out1 = contents out @ w" using d(1) by auto
  have o1: "buf_len out1 = buf_len out + length w" "length w \<le> length (concat bs)"
    using arg_cong [OF r(5), of length] length_contents [OF r(3)] l(2) cng_ctr.written [OF r(2)] by simp_all
  have "\<exists>c2 out2. run_call ?vt (feed cur) c1 out1 = (Inl (Raised AWS_ERROR_OVERFLOW_DETECTED), c2, out2) \<and>
      \<not> aws_symmetric_cipher_is_good c2 \<and> contents out2 = contents out @ part (ctr_ks (Ecb X k) v) 0 (take (16 * n) (concat bs @ b))"
    if b: "bytes_at (ptr cur) (cur_len cur) = Inr b" "length b + 16 \<le> INT_MAX" "16 * n \<le> length (concat bs @ b)" for cur b
  proof -
    have "length (concat bs) < ctr_room ?p" "ctr_room ?p \<le> length (concat bs) + length b"
        "buf_len out1 + (length (concat bs) - length w) + length b \<le> SIZE_MAX div 2"
      using p(1) ps(3) b(2,3) o1 out(3) by simp_all
    from ctr_feed_exhausted [OF r(2) b(1,2) this(1,2) r(3,4) this(3), of d] d(1) r(5) p(1) show ?thesis
      by (auto simp: aws_symmetric_cipher_is_good_def)
  qed
  moreover have "\<exists>c2 out2. run_call ?vt final c1 out1 = (Inl (Raised AWS_ERROR_OVERFLOW_DETECTED), c2, out2) \<and>
      \<not> aws_symmetric_cipher_is_good c2 \<and> contents out2 = contents out @ part (ctr_ks (Ecb X k) v) 0 (concat bs)"
    if "16 * (n - 1) < length (concat bs)"
  proof -
    have "ctr_limit ?p < length (concat bs)" "length (concat bs) < ctr_room ?p"
        "buf_len out1 + (length (concat bs) - length w) \<le> SIZE_MAX div 2"
      using p that ps(3) o1 out(3) by simp_all
    from ctr_final_exhausted [OF r(2) this(1,2) r(3,4) this(3), of d] d(2) r(5) show ?thesis
      by (auto simp: aws_symmetric_cipher_is_good_def)
  qed
  ultimately show ?thesis using c(1) r(1) by blast
qed

section \<open>A reference CNG\<close>

text \<open>An instance of CNG that satisfies the assumptions: a key handle is the key, and the block
  cipher adds the sum of the key to every byte.\<close>

definition ref_ecb_cng :: "(unit, bytes) cng_api" where
  "ref_ecb_cng = \<lparr>BCryptOpenAlgorithmProvider = Some (), BCryptSetProperty_chaining = (\<lambda>a _. (True, a)),
     key_data_blob_header = (\<lambda>_. []), blob_cbKeyData = (\<lambda>_. 0), BCryptImportKey = (\<lambda>_ b. Some b),
     BCryptSetProperty_iv = (\<lambda>h v. (True, h)), BCryptEncrypt = (\<lambda>h b _ _. (True, map (\<lambda>x. x + sum_list h) b, h)),
     BCryptDecrypt = (\<lambda>h _ _ _. (False, [], h)),
     BCryptEncrypt_auth = (\<lambda>h _ _ _. (False, [], ([], [], []), h)), BCryptDecrypt_auth = (\<lambda>h _ _ _. (False, [], ([], [], []), h)),
     BCryptExportKey_wrap_size = (\<lambda>_ _. None), BCryptExportKey_wrap = (\<lambda>_ _ _. None),
     BCryptImportKey_wrap = (\<lambda>_ _ _. None), BCryptExportKey_data = (\<lambda>_ _. None)\<rparr>"

definition ref_ecb_key :: "(unit, bytes) cng_ecb" where
  "ref_ecb_key = \<lparr>ecb_alg = (), ecb_key = Some, Ecb = (\<lambda>k. map (\<lambda>x. x + sum_list k))\<rparr>"

lemma block_spec_ref: "block_spec ref_ecb_cng ref_ecb_key"
  by (simp add: block_spec_def ref_ecb_cng_def ref_ecb_key_def key_imports_def)

lemma cng_ctr_round_trip_witness:
  "\<exists>c c1 c2 c3 out1 out2. bcrypt_ctr_256_new_impl ref_common ref_ecb_cng ref_handles (Some (cursor_of (replicate 32 7)))
      (Some (cursor_of (replicate 12 3 @ [0, 0, 0, 1]))) = Inr c \<and>
    run_calls (s_aes_ctr_vtable ref_common ref_ecb_cng ref_array_list) (map Encrypt [cursor_of [1, 2], cursor_of [3]]) c (empty_out 0) =
      (replicate 2 (Inr ()), c1, out1) \<and>
    aws_symmetric_cipher_finalize_encryption (s_aes_ctr_vtable ref_common ref_ecb_cng ref_array_list) c1 out1 = (Inr (), c2, out2) \<and>
    contents out2 = [226, 225, 224] \<and>
    aws_symmetric_cipher_reset (s_aes_ctr_vtable ref_common ref_ecb_cng ref_array_list) c2 = (Inr (), c3)"
proof -
  let ?k = "replicate 32 7 :: bytes" and ?v = "replicate 12 3 @ [0, 0, 0, 1] :: bytes"
  have "be_nat (drop 12 ?v) = 1" by (simp add: be_nat_def)
  then have prems: "length ?k = 32" "length ?v = 16" "pieces [cursor_of [1, 2], cursor_of [3]] [[1, 2], [3]]"
    "\<forall>b \<in> set [[1, 2], [3 :: byte]]. length b + 16 \<le> INT_MAX"
    "length (concat [[1, 2], [3 :: byte]]) \<le> 16 * (2 ^ 32 - 1 - be_nat (drop 12 ?v))"
    "valid_buf (empty_out 0)" "allocator (empty_out 0)"
    "buf_len (empty_out 0) + length (concat [[1, 2], [3 :: byte]]) + 16 \<le> SIZE_MAX div 2"
    "s_aes_ctr_algorithm_handle ref_handles = ecb_alg ref_ecb_key"
    by simp_all
  have cur: "bytes_at (ptr (cursor_of b)) (cur_len (cursor_of b)) = Inr b" for b by simp
  have run: "contents (empty_out 0) @ part (ctr_ks (Ecb ref_ecb_key ?k) ?v) 0 (concat [[1, 2], [3]]) = [226, 225, 224]"
    "length [cursor_of [1, 2], cursor_of [3]] = 2"
    by (simp_all add: ref_ecb_key_def part_def ctr_ks_def ctr_block_def upt_rec sum_list_replicate nth_append)
  show ?thesis
    using cng_ctr_round_trip [OF common_spec_ref array_list_spec_ref block_spec_ref prems(9) cur prems(1) cur prems(2) prems(3-8) refl]
    unfolding run by (elim exE conjE) (intro exI conjI; assumption)
qed

lemma cng_ctr_counter_exhausted_witness:
  "\<exists>c c1 c2 out1 out2. bcrypt_ctr_256_new_impl ref_common ref_ecb_cng ref_handles (Some (cursor_of (replicate 32 7)))
      (Some (cursor_of (replicate 12 3 @ [255, 255, 255, 254]))) = Inr c \<and>
    run_calls (s_aes_ctr_vtable ref_common ref_ecb_cng ref_array_list) (map Encrypt [cursor_of [1, 2]]) c (empty_out 0) =
      (replicate 1 (Inr ()), c1, out1) \<and>
    run_call (s_aes_ctr_vtable ref_common ref_ecb_cng ref_array_list) (Encrypt (cursor_of (replicate 40 0))) c1 out1 =
      (Inl (Raised AWS_ERROR_OVERFLOW_DETECTED), c2, out2)"
proof -
  let ?k = "replicate 32 7 :: bytes" and ?v = "replicate 12 3 @ [255, 255, 255, 254] :: bytes"
  have "be_nat (drop 12 ?v) = 2 ^ 32 - 2" by (simp add: be_nat_def)
  then have prems: "length ?k = 32" "length ?v = 16" "2 = 2 ^ 32 - be_nat (drop 12 ?v)" "pieces [cursor_of [1, 2]] [[1, 2]]"
    "\<forall>b \<in> set [[1, 2 :: byte]]. length b + 16 \<le> INT_MAX" "length (concat [[1, 2 :: byte]]) < 16 * 2"
    "valid_buf (empty_out 0)" "allocator (empty_out 0)" "buf_len (empty_out 0) + length (concat [[1, 2 :: byte]]) + INT_MAX \<le> SIZE_MAX div 2"
    "s_aes_ctr_algorithm_handle ref_handles = ecb_alg ref_ecb_key"
    "Encrypt = Encrypt \<and> Finalize_encryption = Finalize_encryption \<or> Encrypt = Decrypt \<and> Finalize_encryption = Finalize_decryption"
    by simp_all
  have cur: "bytes_at (ptr (cursor_of b)) (cur_len (cursor_of b)) = Inr b" for b by simp
  have b: "length (replicate 40 (0 :: byte)) + 16 \<le> INT_MAX" "16 * 2 \<le> length (concat [[1, 2]] @ replicate 40 (0 :: byte))" by simp_all
  from cng_ctr_counter_exhausted [OF common_spec_ref array_list_spec_ref block_spec_ref prems(10) cur prems(1) cur prems(2) prems(3-9,11)]
  obtain c c1 out1 where "bcrypt_ctr_256_new_impl ref_common ref_ecb_cng ref_handles (Some (cursor_of ?k)) (Some (cursor_of ?v)) = Inr c"
      "run_calls (s_aes_ctr_vtable ref_common ref_ecb_cng ref_array_list) (map Encrypt [cursor_of [1, 2]]) c (empty_out 0) =
        (replicate (length [cursor_of [1, 2]]) (Inr ()), c1, out1)"
      "\<exists>c2 out2. run_call (s_aes_ctr_vtable ref_common ref_ecb_cng ref_array_list) (Encrypt (cursor_of (replicate 40 0))) c1 out1 =
        (Inl (Raised AWS_ERROR_OVERFLOW_DETECTED), c2, out2)"
    using cur [of "replicate 40 0"] b by blast
  then show ?thesis by auto
qed

end
