(* ===== verification/Bcrypt_Keywrap.thy ===== *)
theory Bcrypt_Keywrap
  imports Bcrypt_Buffers
begin

text \<open>
  Key wrap on Windows. CNG wraps key objects: the cipher collects its input, imports it as a key and
  exports that key wrapped, or the other way round. The contract of a stream is interpreted for
  both directions; nothing is written before the finalize call.
\<close>

section \<open>CNG and wrapped keys\<close>

text \<open>What the code relies on: AES keys of 16, 24 or 32 bytes can be imported; a key can be exported
  wrapped by another, which takes eight more bytes, and imported again from that, and
  nothing else is accepted; and plain export is a header of three 32-bit numbers and the key.\<close>

definition aes_key :: "bytes \<Rightarrow> bool" where
  "aes_key m \<longleftrightarrow> length m \<in> {16, 24, 32}"

record ('a, 'k) cng_wrap =
  wrap_alg :: 'a
  held_key :: "'k \<Rightarrow> bytes option"
  Wrap :: "bytes \<Rightarrow> bytes \<Rightarrow> bytes"

definition wrap_spec :: "('a, 'k) cng_api \<Rightarrow> ('a, 'k) cng_wrap \<Rightarrow> bool" where
  "wrap_spec N X \<longleftrightarrow>
     (\<forall>n. length (key_data_blob_header N n) = 12) \<and>
     (\<forall>n bs. n < 2 ^ 32 \<longrightarrow> blob_cbKeyData N (key_data_blob_header N n @ bs) = n) \<and>
     (\<forall>k m. aes_key m \<longrightarrow> length (Wrap X k m) = length m + 8) \<and>
     (\<forall>k. aes_key k \<longrightarrow> (\<exists>h. key_imports N (wrap_alg X) k h \<and> held_key X h = Some k)) \<and>
     (\<forall>h w k m. held_key X h = Some m \<longrightarrow> held_key X w = Some k \<longrightarrow> aes_key m \<longrightarrow>
        BCryptExportKey_wrap_size N h w = Some (length m + 8) \<and> BCryptExportKey_wrap N h w (length m + 8) = Some (Wrap X k m)) \<and>
     (\<forall>h m n. held_key X h = Some m \<longrightarrow> 12 + length m \<le> n \<longrightarrow>
        BCryptExportKey_data N h n = Some (key_data_blob_header N (length m) @ m)) \<and>
     (\<forall>w k q. held_key X w = Some k \<longrightarrow>
        (case BCryptImportKey_wrap N (wrap_alg X) w q of
           None \<Rightarrow> \<nexists>m. aes_key m \<and> q = Wrap X k m
         | Some h \<Rightarrow> (\<exists>m. aes_key m \<and> q = Wrap X k m \<and> held_key X h = Some m))) \<and>
     (\<forall>k m m'. aes_key m \<longrightarrow> aes_key m' \<longrightarrow> Wrap X k m = Wrap X k m' \<longrightarrow> m = m')"

lemma wrap_laws:
  assumes "wrap_spec N X"
  shows "length (key_data_blob_header N n) = 12" and "n < 2 ^ 32 \<Longrightarrow> blob_cbKeyData N (key_data_blob_header N n @ bs) = n"
    and "aes_key m \<Longrightarrow> length (Wrap X k m) = length m + 8"
    and "aes_key k \<Longrightarrow> \<exists>h. key_imports N (wrap_alg X) k h \<and> held_key X h = Some k"
    and "held_key X h = Some m \<Longrightarrow> held_key X w = Some k \<Longrightarrow> aes_key m \<Longrightarrow>
      BCryptExportKey_wrap_size N h w = Some (length m + 8) \<and> BCryptExportKey_wrap N h w (length m + 8) = Some (Wrap X k m)"
    and "held_key X h = Some m \<Longrightarrow> 12 + length m \<le> n \<Longrightarrow> BCryptExportKey_data N h n = Some (key_data_blob_header N (length m) @ m)"
    and "aes_key m \<Longrightarrow> aes_key m' \<Longrightarrow> Wrap X k m = Wrap X k m' \<Longrightarrow> m = m'"
  using assms unfolding wrap_spec_def by (elim conjE; blast)+

lemma wrap_import:
  assumes X: "wrap_spec N X" and w: "held_key X w = Some k"
  shows "aes_key m \<Longrightarrow> \<exists>h. BCryptImportKey_wrap N (wrap_alg X) w (Wrap X k m) = Some h \<and> held_key X h = Some m"
    and "\<nexists>m. aes_key m \<and> q = Wrap X k m \<Longrightarrow> BCryptImportKey_wrap N (wrap_alg X) w q = None"
proof -
  have s: "case BCryptImportKey_wrap N (wrap_alg X) w q of None \<Rightarrow> \<nexists>m. aes_key m \<and> q = Wrap X k m
         | Some h \<Rightarrow> (\<exists>m. aes_key m \<and> q = Wrap X k m \<and> held_key X h = Some m)" for q
    using X w unfolding wrap_spec_def by (elim conjE) blast
  show "\<nexists>m. aes_key m \<and> q = Wrap X k m \<Longrightarrow> BCryptImportKey_wrap N (wrap_alg X) w q = None"
    using s [of q] by (cases "BCryptImportKey_wrap N (wrap_alg X) w q") auto
  assume "aes_key m"
  with s [of "Wrap X k m"] wrap_laws(7) [OF X, of m _ k]
  show "\<exists>h. BCryptImportKey_wrap N (wrap_alg X) w (Wrap X k m) = Some h \<and> held_key X h = Some m"
    by (cases "BCryptImportKey_wrap N (wrap_alg X) w (Wrap X k m)") auto
qed

section \<open>A key-wrap cipher as a stream\<close>

definition wrap_kept :: "aws_common \<Rightarrow> ('a, 'k) cng_api \<Rightarrow> 'a alg_handles \<Rightarrow> ('a, 'k) cng_wrap \<Rightarrow> bytes \<Rightarrow> ('a, 'k) bcrypt_cipher \<Rightarrow> bool" where
  "wrap_kept C N H X k c \<longleftrightarrow> common_spec C \<and> wrap_spec N X \<and> s_aes_keywrap_algorithm_handle H = wrap_alg X \<and> length k = 32 \<and>
     valid_buf (key c) \<and> contents (key c) = k \<and> buf_len (iv c) = 0 \<and> block_size c = 8 \<and> alg_handle (cipher_impl c) = wrap_alg X \<and>
     valid_buf (overflow (cipher_impl c)) \<and> allocator (overflow (cipher_impl c))"

definition wrap_io :: "aws_common \<Rightarrow> ('a, 'k) cng_api \<Rightarrow> 'a alg_handles \<Rightarrow> ('a, 'k) cng_wrap \<Rightarrow> ('a, 'k) bcrypt_cipher \<Rightarrow> bytes \<Rightarrow>
    bytes \<Rightarrow> bytes \<Rightarrow> bool" where
  "wrap_io C N H X c k m w \<longleftrightarrow> wrap_kept C N H X k c \<and> cipher_good c \<and> contents (overflow (cipher_impl c)) = m \<and> w = [] \<and>
     (\<exists>h. key_handle (cipher_impl c) = Some h \<and> held_key X h = Some k)"

definition wrap_accepts :: "('a, 'k) cng_wrap \<Rightarrow> bool \<Rightarrow> bytes \<Rightarrow> bytes \<Rightarrow> bytes \<Rightarrow> bool" where
  "wrap_accepts X d k m t \<longleftrightarrow> (if d then aes_key m \<and> t = Wrap X k m else aes_key t \<and> m = Wrap X k t)"

definition wrap_rejects :: "('a, 'k) cng_wrap \<Rightarrow> bool \<Rightarrow> bytes \<Rightarrow> bytes \<Rightarrow> bool" where
  "wrap_rejects X d k q \<longleftrightarrow> \<not> d \<and> (\<nexists>m. aes_key m \<and> q = Wrap X k m)"

definition wrap_feed :: "bool \<Rightarrow> aws_byte_cursor \<Rightarrow> cipher_call" where
  "wrap_feed d = (if d then Encrypt else Decrypt)"

definition wrap_final :: "bool \<Rightarrow> cipher_call" where
  "wrap_final d = (if d then Finalize_encryption else Finalize_decryption)"

lemma wrap_run_call:
  assumes "cipher_good c"
  shows "block_size c = 8 \<Longrightarrow> cur_len cur + 16 \<le> INT_MAX \<Longrightarrow>
      run_call (s_aes_keywrap_vtable C N H) (wrap_feed d cur) c out = bcrypt_key_wrap_encrypt_decrypt C cur c out"
    and "run_call (s_aes_keywrap_vtable C N H) (wrap_final d) c out =
      (case (if d then s_keywrap_finalize_encryption C N H c out else s_keywrap_finalize_decryption C N H c out) of
         (r, c, out) \<Rightarrow> (r, c\<lparr>cipher_good := False\<rparr>, out))"
  using assms
  by (cases d; simp add: wrap_feed_def wrap_final_def aws_symmetric_cipher_encrypt_def
      aws_symmetric_cipher_decrypt_def aws_symmetric_cipher_finalize_encryption_def aws_symmetric_cipher_finalize_decryption_def
      s_check_input_size_limits_def s_aes_keywrap_vtable_def)+

lemma wrap_feed_ok:
  assumes io: "wrap_io C N H X c k m w" and b: "bytes_at (ptr cur) (cur_len cur) = Inr b" and len: "length b + 16 \<le> INT_MAX"
    and lim: "length m + length b \<le> SIZE_MAX div 2"
  shows "\<exists>c'. run_call (s_aes_keywrap_vtable C N H) (wrap_feed d cur) c out = (Inr (), c', out) \<and> wrap_io C N H X c' k (m @ b) w"
proof -
  have k: "common_spec C" "valid_buf (overflow (cipher_impl c))" "allocator (overflow (cipher_impl c))" "block_size c = 8"
      "cipher_good c" "contents (overflow (cipher_impl c)) = m"
    using io by (simp_all add: wrap_io_def wrap_kept_def)
  have "buf_len (overflow (cipher_impl c)) + length b \<le> SIZE_MAX div 2" using lim length_contents [OF k(2)] k(6) by simp
  from append_dynamic_law [OF k(1-3) this] obtain ov where
      o: "aws_byte_buf_append_dynamic C (overflow (cipher_impl c)) b = Inr ov" "valid_buf ov" "contents ov = m @ b" "allocator ov"
    using k(6) by auto
  have "run_call (s_aes_keywrap_vtable C N H) (wrap_feed d cur) c out = (Inr (), set_overflow ov c, out)"
    using wrap_run_call(1) [OF k(5,4)] bytes_at_length [OF b] len b o(1) by (simp add: bcrypt_key_wrap_encrypt_decrypt_def)
  with io o show ?thesis by (auto simp: wrap_io_def wrap_kept_def)
qed

text \<open>Appending to an output buffer that is grown first.\<close>

lemma grow_and_poke:
  assumes C: "common_spec C" and out: "valid_buf out" "allocator out" "buf_len out + n \<le> SIZE_MAX div 2" and w: "length w \<le> n"
  obtains o1 o2 where "aws_symmetric_cipher_try_ensure_sufficient_buffer_space C out n = Inr o1" "poke o1 w = Inr o2"
    "valid_buf (add_len (length w) o2)" "contents (add_len (length w) o2) = contents out @ w" "valid_buf o1" "n \<le> room o1" "contents o1 = contents out"
proof -
  obtain o1 where o1: "aws_symmetric_cipher_try_ensure_sufficient_buffer_space C out n = Inr o1" "valid_buf o1"
      "contents o1 = contents out" "n \<le> room o1"
    using ensure_space [OF C out(1,3)] out(2) by auto
  have "length w \<le> room o1" using o1(4) w by simp
  from poke_appends [OF o1(2) this] obtain o2 where "poke o1 w = Inr o2" "appends o1 w (Some (add_len (length w) o2))" by blast
  with that o1 show ?thesis by (auto simp: appends_def)
qed

lemma wrap_finish_enc:
  assumes io: "wrap_io C N H X c k m w" and a: "aes_key m"
    and out: "valid_buf out" "allocator out" "buf_len out + length m + 16 \<le> SIZE_MAX div 2"
  shows "\<exists>out'. s_keywrap_finalize_encryption C N H c out = (Inr (), c, out') \<and> valid_buf out' \<and> contents out' = contents out @ Wrap X k m"
proof -
  obtain h where k: "common_spec C" "wrap_spec N X" "s_aes_keywrap_algorithm_handle H = wrap_alg X" "valid_buf (overflow (cipher_impl c))"
      "contents (overflow (cipher_impl c)) = m" "key_handle (cipher_impl c) = Some h" "held_key X h = Some k"
    using io by (auto simp: wrap_io_def wrap_kept_def)
  obtain kh where kh: "key_imports N (wrap_alg X) m kh" "held_key X kh = Some m" using wrap_laws(4) [OF k(2) a] by blast
  have "length m \<le> 4096" using a by (auto simp: aes_key_def)
  from import_ok [OF k(1,4,5) this kh(1)] have i: "s_import_key_blob C N (wrap_alg X) (overflow (cipher_impl c)) = Inr kh" .
  note x = wrap_laws(5) [OF k(2) kh(2) k(7) a] and l = wrap_laws(3) [OF k(2) a, of k]
  have n: "buf_len out + (length m + 8) \<le> SIZE_MAX div 2" using out(3) by simp
  obtain o1 o2 where o: "aws_symmetric_cipher_try_ensure_sufficient_buffer_space C out (length m + 8) = Inr o1" "poke o1 (Wrap X k m) = Inr o2"
      "valid_buf (add_len (length (Wrap X k m)) o2)" "contents (add_len (length (Wrap X k m)) o2) = contents out @ Wrap X k m"
    using grow_and_poke [OF k(1) out(1,2) n, of "Wrap X k m"] l by (metis order_refl)
  have "s_keywrap_finalize_encryption C N H c out = (Inr (), c, add_len (length (Wrap X k m)) o2)"
    using i x o(1,2) k(3,6) by (simp add: s_keywrap_finalize_encryption_def)
  with o(3,4) show ?thesis by blast
qed

text \<open>Reading back behind the header.\<close>

lemma behind_header:
  assumes "valid_buf (add_len (12 + length m) b)" and "contents (add_len (12 + length m) b) = y @ m" and "length y = 12"
  shows "bytes_at (map_option (\<lambda>x. \<lparr>pobj = x, poff = 12\<rparr>) (buffer b)) (length m) = Inr m"
proof -
  obtain x where x: "buffer b = Some x" "take (buf_len b + (12 + length m)) x = y @ m"
    using assms(2,3) by (auto simp: contents_def add_len_def split: option.splits)
  have "buf_len b + (12 + length m) \<le> length x" using assms(1) x(1) by (simp add: valid_buf_def add_len_def)
  moreover have "length (y @ m) = min (buf_len b + (12 + length m)) (length x)" using arg_cong [OF x(2), of length] by simp
  ultimately have "buf_len b = 0" "12 + length m \<le> length x" using assms(3) by simp_all
  with x assms(3) have "take (length m) (drop 12 x) = m" by (metis add_0 append_eq_conv_conj drop_take diff_add_inverse)
  with x(1) \<open>12 + length m \<le> length x\<close> show ?thesis by (simp add: bytes_at_def)
qed

lemma wrap_finish_dec:
  assumes io: "wrap_io C N H X c k q w" and a: "aes_key m" "q = Wrap X k m"
    and out: "valid_buf out" "allocator out" "buf_len out + length q + 16 \<le> SIZE_MAX div 2"
  shows "\<exists>out'. s_keywrap_finalize_decryption C N H c out = (Inr (), c, out') \<and> valid_buf out' \<and> contents out' = contents out @ m"
proof -
  obtain h where k: "common_spec C" "wrap_spec N X" "s_aes_keywrap_algorithm_handle H = wrap_alg X" "valid_buf (overflow (cipher_impl c))"
      "contents (overflow (cipher_impl c)) = q" "key_handle (cipher_impl c) = Some h" "held_key X h = Some k"
    using io by (auto simp: wrap_io_def wrap_kept_def)
  let ?hd = "key_data_blob_header N (length m)"
  note hd = wrap_laws(1) [OF k(2)]
  have l: "length q = length m + 8" "length m \<le> 32" using wrap_laws(3) [OF k(2) a(1)] a by (auto simp: aes_key_def)
  have ql: "buf_len (overflow (cipher_impl c)) = length q" using length_contents [OF k(4)] k(5) by simp
  have "length q \<le> ulong_bound" using l by simp
  then have b: "buf_mem (overflow (cipher_impl c)) (ulong (length q)) = Inr q" using buf_mem_contents [OF k(4)] k(5) ql by simp
  obtain kh where kh: "BCryptImportKey_wrap N (wrap_alg X) h q = Some kh" "held_key X kh = Some m"
    using wrap_import(1) [OF k(2,7) a(1)] a(2) by blast
  have "12 + length q \<le> SIZE_MAX div 2" using l by simp
  from init_law [OF k(1) this] obtain bl where bl: "aws_byte_buf_init C (12 + length q) = Inr bl" "fresh_buf (12 + length q) bl" by blast
  then have cap: "ulong (capacity bl) = 12 + length q" using l by (simp add: fresh_buf_def)
  have ex: "BCryptExportKey_data N kh (12 + length q) = Some (?hd @ m)" by (rule wrap_laws(6) [OF k(2) kh(2)]) (simp add: l)
  have vb: "valid_buf bl" "length (?hd @ m) \<le> room bl" "contents bl = []"
    using bl(2) l(1) hd contents_empty [of bl] by (simp_all add: fresh_buf_def room_def)
  from poke_appends [OF vb(1,2)] obtain b1 where b1: "poke bl (?hd @ m) = Inr b1" "appends bl (?hd @ m) (Some (add_len (12 + length m) b1))"
    using hd by auto
  then have bh: "bytes_at (map_option (\<lambda>x. \<lparr>pobj = x, poff = 12\<rparr>) (buffer b1)) (length m) = Inr m"
    using behind_header [of m b1 ?hd] vb(3) hd by (simp add: appends_def)
  have n: "buf_len out + (12 + length m) \<le> SIZE_MAX div 2" using out(3) l(1) by simp
  obtain o1 where o1: "aws_symmetric_cipher_try_ensure_sufficient_buffer_space C out (12 + length m) = Inr o1" "valid_buf o1"
      "contents o1 = contents out" "12 + length m \<le> room o1"
    using ensure_space [OF k(1) out(1) n] out(2) by auto
  obtain o2 where o2: "aws_byte_buf_write C o1 m = Some o2" "appends o1 m (Some o2)"
    using write_laws(1) [OF k(1) o1(2), of m] o1(4) by (cases "aws_byte_buf_write C o1 m") (auto simp: appends_def)
  have "length m < 2 ^ 32" using l(2) by simp
  note cb = wrap_laws(2) [OF k(2) this, of m]
  have "s_keywrap_finalize_decryption C N H c out = (Inr (), c, o2)"
    using b kh(1) bl(1) cap ex b1(1) bh o1(1) o2(1) k(3,6) hd cb ql
    by (simp add: s_keywrap_finalize_decryption_def Let_def or_zero_def)
  with o2(2) o1(3) show ?thesis by (auto simp: appends_def)
qed

lemma wrap_finish_rejects:
  assumes io: "wrap_io C N H X c k q w" and a: "\<nexists>m. aes_key m \<and> q = Wrap X k m" and len: "length q \<le> ulong_bound"
  shows "s_keywrap_finalize_decryption C N H c out = (Inl (Raised AWS_ERROR_INVALID_ARGUMENT), c\<lparr>cipher_good := False\<rparr>, out)"
proof -
  obtain h where k: "wrap_spec N X" "s_aes_keywrap_algorithm_handle H = wrap_alg X" "valid_buf (overflow (cipher_impl c))"
      "contents (overflow (cipher_impl c)) = q" "key_handle (cipher_impl c) = Some h" "held_key X h = Some k"
    using io by (auto simp: wrap_io_def wrap_kept_def)
  have ql: "buf_len (overflow (cipher_impl c)) = length q" using length_contents [OF k(3)] k(4) by simp
  then have "buf_mem (overflow (cipher_impl c)) (ulong (length q)) = Inr q" using buf_mem_contents [OF k(3)] k(4) len by simp
  with wrap_import(2) [OF k(1,6) a] k(2,5) ql show ?thesis by (simp add: s_keywrap_finalize_decryption_def Let_def)
qed

interpretation cng_wrap: cipher_stream "s_aes_keywrap_vtable C N H" "wrap_feed d" "wrap_final d" "wrap_io C N H X"
  "\<lambda>_. ulong_bound" "SIZE_MAX div 2" "wrap_accepts X d" "wrap_rejects X d" "\<lambda>k _. wrap_kept C N H X k" for C N H X d
proof (unfold_locales, goal_cases)
  case (1 c p m w cur b out)
  have "length m + length b \<le> SIZE_MAX div 2" using 1(4) by simp
  from wrap_feed_ok [OF 1(1-3) this, of d out] 1(5-7) show ?case by (intro exI [of _ "[]"]) auto
next
  case (2 c p m w)
  then show ?case by (simp add: wrap_io_def)
next
  case (3 c p m w t out)
  have g: "cipher_good c" "w = []" "wrap_kept C N H X p (c\<lparr>cipher_good := False\<rparr>)" using 3(1) by (auto simp: wrap_io_def wrap_kept_def)
  have n: "buf_len out + length m + 16 \<le> SIZE_MAX div 2" using 3(7) g(2) by simp
  show ?case
  proof (cases d)
    case True
    with wrap_finish_enc [OF 3(1) _ 3(4,5) n] 3(2) g wrap_run_call(2) [OF g(1), of C N H d out] show ?thesis
      by (auto simp: wrap_accepts_def)
  next
    case False
    with wrap_finish_dec [where m = t, OF 3(1) _ _ 3(4,5) n] 3(2) g wrap_run_call(2) [OF g(1), of C N H d out] show ?thesis
      by (auto simp: wrap_accepts_def)
  qed
next
  case (4 c p m w out)
  have g: "cipher_good c" using 4(1) by (simp add: wrap_io_def)
  from wrap_finish_rejects [OF 4(1) _ 4(3), of out] 4(2) wrap_run_call(2) [OF g, of C N H d out] show ?case
    by (auto simp: wrap_rejects_def)
qed

section \<open>New and reset ciphers\<close>

lemma materials_wrap:
  assumes C: "common_spec C"
    and kb: "(if buf_len (key c) \<noteq> 0 then Inr (key c) else key_material C kc) = Inr kb" "valid_buf kb" "contents kb = k" "length k = 32"
    and v: "buf_len (iv c) = 0" and h: "key_imports N (alg_handle (cipher_impl c)) k h"
  shows "s_initialize_cipher_materials C N c kc None None None 0 False False =
    (Inr (), on_impl (\<lambda>i. i\<lparr>key_handle := Some h, block_padding := False\<rparr>) (c\<lparr>key := kb\<rparr>))"
proof -
  have "s_import_key_blob C N (alg_handle (cipher_impl c)) kb = Inr h"
    by (rule import_ok [OF C kb(2,3) _ h]) (simp add: kb(4))
  then show ?thesis using kb(1) v by (simp add: s_initialize_cipher_materials_def set_up_mode_def on_impl_def)
qed

lemma wrap_new_ok:
  assumes C: "common_spec C" and X: "wrap_spec N X" "s_aes_keywrap_algorithm_handle H = wrap_alg X"
    and k: "bytes_at (ptr kc) (cur_len kc) = Inr k" "length k = 32"
  shows "\<exists>c. bcrypt_keywrap_256_new_impl C N H (Some kc) = Inr c \<and> wrap_io C N H X c k [] []"
proof -
  have "aes_key k" using k(2) by (simp add: aes_key_def)
  from wrap_laws(4) [OF X(1) this] obtain h where h: "key_imports N (wrap_alg X) k h" "held_key X h = Some k" by blast
  have kl: "length k \<le> 4096" using k(2) by simp
  obtain kb where kb: "key_material C (Some kc) = Inr kb" "valid_buf kb" "contents kb = k" by (rule new_material [OF C k(1) kl])
  let ?c = "calloc_cipher (wrap_alg X) 8 :: ('a, 'b) bcrypt_cipher"
  have i: "s_initialize_cipher_materials C N ?c (Some kc) None None None 0 False False =
      (Inr (), on_impl (\<lambda>i. i\<lparr>key_handle := Some h, block_padding := False\<rparr>) (?c\<lparr>key := kb\<rparr>))"
    by (rule materials_wrap [OF C _ kb(2,3) k(2)]) (simp_all add: calloc_cipher_def zero_buf_def kb(1) h(1))
  have "(40 :: nat) \<le> SIZE_MAX div 2" by simp
  from init_law [OF C this] obtain ov where ov: "aws_byte_buf_init C 40 = Inr ov" "fresh_buf 40 ov" by blast
  let ?d = "(set_overflow ov (on_impl (\<lambda>i. i\<lparr>key_handle := Some h, block_padding := False\<rparr>) (?c\<lparr>key := kb\<rparr>)))\<lparr>cipher_good := True\<rparr>"
  have "bcrypt_keywrap_256_new_impl C N H (Some kc) = Inr ?d"
    using i ov(1) X(2) by (simp add: bcrypt_keywrap_256_new_impl_def or_zero_def)
  moreover have "wrap_io C N H X ?d k [] []"
    using C X k(2) kb ov(2) h(2) contents_empty [of ov] by (simp add: wrap_io_def wrap_kept_def calloc_cipher_def fresh_buf_def zero_buf_def)
  ultimately show ?thesis by blast
qed

lemma wrap_reset_ok:
  assumes K: "wrap_kept C N H X k c"
  shows "\<exists>c'. aws_symmetric_cipher_reset (s_aes_keywrap_vtable C N H) c = (Inr (), c') \<and> wrap_io C N H X c' k [] []"
proof -
  have a: "common_spec C" "wrap_spec N X" "length k = 32" "valid_buf (key c)" "contents (key c) = k" "alg_handle (cipher_impl c) = wrap_alg X"
      "valid_buf (overflow (cipher_impl c))" "buf_len (iv c) = 0" using K by (simp_all add: wrap_kept_def)
  have "aes_key k" using a(3) by (simp add: aes_key_def)
  from wrap_laws(4) [OF a(2) this] obtain h where h: "key_imports N (wrap_alg X) k h" "held_key X h = Some k" by blast
  have l: "buf_len (key c) = 32" using length_contents [OF a(4)] a(3,5) by simp
  let ?c = "s_clear_reusable_components C c"
  have i: "s_initialize_cipher_materials C N ?c None None None None 0 False False =
      (Inr (), on_impl (\<lambda>i. i\<lparr>key_handle := Some h, block_padding := False\<rparr>) (?c\<lparr>key := key c\<rparr>))"
    by (rule materials_wrap [OF a(1) _ a(4,5,3)]) (simp_all add: l a(6,8) h(1))
  let ?d = "(on_impl (\<lambda>i. i\<lparr>key_handle := Some h, block_padding := False\<rparr>) (?c\<lparr>key := key c\<rparr>))\<lparr>cipher_good := True\<rparr>"
  have "aws_symmetric_cipher_reset (s_aes_keywrap_vtable C N H) c = (Inr (), ?d)"
    using i by (simp add: aws_symmetric_cipher_reset_def s_aes_keywrap_vtable_def s_reset_keywrap_cipher_def)
  moreover have "wrap_io C N H X ?d k [] []"
    using K h(2) secure_zero_law [OF a(1,7)] contents_empty [of "aws_byte_buf_secure_zero C (overflow (cipher_impl c))"]
    by (simp add: wrap_io_def wrap_kept_def)
  ultimately show ?thesis by blast
qed

interpretation cng_collect: cipher_collect "s_aes_keywrap_vtable C N H" "wrap_feed d" "\<lambda>c m. wrap_io C N H X c k m []"
  "\<lambda>b. length b + 16 \<le> INT_MAX" "SIZE_MAX div 2" for C N H X d k
  by unfold_locales (rule wrap_feed_ok)

text \<open>Unwrapping, whatever the input.\<close>

lemma wrap_decrypts:
  assumes X: "wrap_spec N X" and c3: "wrap_io C N H X c3 k [] []"
    and w: "pieces ds ws" "\<forall>b \<in> set ws. length b + 16 \<le> INT_MAX" "length (concat ws) \<le> ulong_bound" "valid_buf res" "allocator res"
      "buf_len res + length (concat ws) + 16 \<le> SIZE_MAX div 2"
  shows "\<exists>d1 d2 res1 res2 r. run_calls (s_aes_keywrap_vtable C N H) (map Decrypt ds) c3 res = (replicate (length ds) (Inr ()), d1, res1) \<and>
         aws_symmetric_cipher_finalize_decryption (s_aes_keywrap_vtable C N H) d1 res1 = (r, d2, res2) \<and>
         (if \<exists>m. aes_key m \<and> concat ws = Wrap X k m
          then r = Inr () \<and> (\<forall>m. aes_key m \<longrightarrow> concat ws = Wrap X k m \<longrightarrow> contents res2 = contents res @ m)
          else r = Inl (Raised AWS_ERROR_INVALID_ARGUMENT))"
proof -
  from cng_wrap.stream_ok [OF w(1) c3 w(2,3,4,5) valid_capacity [OF w(4)] w(6), of False] obtain d1 res1 where
      s: "run_calls (s_aes_keywrap_vtable C N H) (map Decrypt ds) c3 res = (replicate (length ds) (Inr ()), d1, res1)"
      "\<forall>t. wrap_accepts X False k (concat ws) t \<longrightarrow> (\<exists>c2 out2. aws_symmetric_cipher_finalize_decryption (s_aes_keywrap_vtable C N H) d1 res1 = (Inr (), c2, out2) \<and>
         contents out2 = contents res @ t)"
      "wrap_rejects X False k (concat ws) \<longrightarrow> (\<exists>c2 out2. aws_symmetric_cipher_finalize_decryption (s_aes_keywrap_vtable C N H) d1 res1 =
         (Inl (Raised AWS_ERROR_INVALID_ARGUMENT), c2, out2))"
    by (simp add: wrap_feed_def wrap_final_def) blast
  show ?thesis
  proof (cases "\<exists>m. aes_key m \<and> concat ws = Wrap X k m")
    case True
    then obtain m where m: "aes_key m" "concat ws = Wrap X k m" by blast
    have "m' = m" if "aes_key m'" "concat ws = Wrap X k m'" for m'
      by (rule wrap_laws(7) [OF X that(1) m(1) trans [OF sym [OF that(2)] m(2)]])
    moreover obtain d2 res2 where "aws_symmetric_cipher_finalize_decryption (s_aes_keywrap_vtable C N H) d1 res1 = (Inr (), d2, res2)"
        "contents res2 = contents res @ m"
      using s(2) [rule_format, of m] m by (auto simp: wrap_accepts_def)
    ultimately show ?thesis using s(1) True by (intro exI conjI) auto
  next
    case False
    with s(1,3) show ?thesis by (auto simp: wrap_rejects_def)
  qed
qed

text \<open>
  Claim C22. On Windows, a new key-wrap cipher fed an AES key in any pieces writes, in the finalize call, what CNG makes of
  wrapping that key; after a reset, feeding any text in any pieces writes the key that it wraps, and if it
  wraps none the finalize call fails with AWS_ERROR_INVALID_ARGUMENT. Nothing is written before.
\<close>

theorem cng_keywrap_round_trip:
  assumes C: "common_spec C" and X: "wrap_spec N X" "s_aes_keywrap_algorithm_handle H = wrap_alg X"
    and k: "bytes_at (ptr kc) (cur_len kc) = Inr k" "length k = 32"
    and ps: "pieces cs bs" "aes_key (concat bs)"
    and out: "valid_buf out" "allocator out" "buf_len out + length (concat bs) + 16 \<le> SIZE_MAX div 2"
  shows "\<exists>c c1 c2 c3 out2. bcrypt_keywrap_256_new_impl C N H (Some kc) = Inr c \<and>
    run_calls (s_aes_keywrap_vtable C N H) (map Encrypt cs) c out = (replicate (length cs) (Inr ()), c1, out) \<and>
    aws_symmetric_cipher_finalize_encryption (s_aes_keywrap_vtable C N H) c1 out = (Inr (), c2, out2) \<and>
    contents out2 = contents out @ Wrap X k (concat bs) \<and>
    aws_symmetric_cipher_reset (s_aes_keywrap_vtable C N H) c2 = (Inr (), c3) \<and>
    (\<forall>ds ws res. pieces ds ws \<longrightarrow> (\<forall>b \<in> set ws. length b + 16 \<le> INT_MAX) \<longrightarrow> length (concat ws) \<le> ulong_bound \<longrightarrow>
      valid_buf res \<longrightarrow> allocator res \<longrightarrow> buf_len res + length (concat ws) + 16 \<le> SIZE_MAX div 2 \<longrightarrow>
      (\<exists>d1 d2 res1 res2 r. run_calls (s_aes_keywrap_vtable C N H) (map Decrypt ds) c3 res = (replicate (length ds) (Inr ()), d1, res1) \<and>
         aws_symmetric_cipher_finalize_decryption (s_aes_keywrap_vtable C N H) d1 res1 = (r, d2, res2) \<and>
         (if \<exists>m. aes_key m \<and> concat ws = Wrap X k m
          then r = Inr () \<and> (\<forall>m. aes_key m \<longrightarrow> concat ws = Wrap X k m \<longrightarrow> contents res2 = contents res @ m)
          else r = Inl (Raised AWS_ERROR_INVALID_ARGUMENT))))"
proof -
  obtain c where c: "bcrypt_keywrap_256_new_impl C N H (Some kc) = Inr c" "wrap_io C N H X c k [] []"
    using wrap_new_ok [OF C X k] by blast
  have sm: "length (concat bs) \<le> 32" using ps(2) by (auto simp: aes_key_def)
  have "\<forall>b \<in> set bs. length b + 16 \<le> INT_MAX"
  proof
    fix b
    assume "b \<in> set bs"
    then have "length b \<le> length (concat bs)" by (induction bs) auto
    with sm show "length b + 16 \<le> INT_MAX" by simp
  qed
  with cng_collect.collect_all [OF ps(1) c(2), of True] sm obtain c1 where c1: "run_calls (s_aes_keywrap_vtable C N H) (map Encrypt cs) c out = (replicate (length cs) (Inr ()), c1, out)"
      "wrap_io C N H X c1 k (concat bs) []" by (auto simp: wrap_feed_def)
  have "wrap_accepts X True k (concat bs) (Wrap X k (concat bs))" "length (concat bs) \<le> ulong_bound"
      "buf_len out + (length (concat bs) - length ([] :: bytes)) + 16 \<le> SIZE_MAX div 2"
    using ps(2) sm out(3) by (simp_all add: wrap_accepts_def)
  from cng_wrap.finish_ok [OF c1(2) this(1,2) out(1,2) valid_capacity [OF out(1)] this(3)] obtain c2 out2 where
      e: "aws_symmetric_cipher_finalize_encryption (s_aes_keywrap_vtable C N H) c1 out = (Inr (), c2, out2)"
        "contents out2 = contents out @ Wrap X k (concat bs)" "wrap_kept C N H X k c2"
    by (auto simp: wrap_final_def)
  obtain c3 where c3: "aws_symmetric_cipher_reset (s_aes_keywrap_vtable C N H) c2 = (Inr (), c3)" "wrap_io C N H X c3 k [] []"
    using wrap_reset_ok [OF e(3)] by blast
  with c(1) c1(1) e(1,2) c3(1) wrap_decrypts [OF X(1) c3(2)] show ?thesis by blast
qed

section \<open>A reference CNG\<close>

text \<open>An instance of CNG that satisfies the assumptions: a key handle is the key, the header is
  twelve bytes with the length in the last one, and wrapping appends eight zero bytes.\<close>

definition ref_wrap_cng :: "(unit, bytes) cng_api" where
  "ref_wrap_cng = \<lparr>BCryptOpenAlgorithmProvider = Some (), BCryptSetProperty_chaining = (\<lambda>a _. (True, a)),
     key_data_blob_header = (\<lambda>n. be_bytes 12 n), blob_cbKeyData = (\<lambda>b. be_nat (take 12 b)),
     BCryptImportKey = (\<lambda>_ b. Some (drop 12 b)),
     BCryptSetProperty_iv = (\<lambda>h v. (True, h)), BCryptEncrypt = (\<lambda>h _ _ _. (False, [], h)), BCryptDecrypt = (\<lambda>h _ _ _. (False, [], h)),
     BCryptEncrypt_auth = (\<lambda>h _ _ _. (False, [], ([], [], []), h)), BCryptDecrypt_auth = (\<lambda>h _ _ _. (False, [], ([], [], []), h)),
     BCryptExportKey_wrap_size = (\<lambda>m _. Some (length m + 8)), BCryptExportKey_wrap = (\<lambda>m _ _. Some (m @ replicate 8 0)),
     BCryptImportKey_wrap = (\<lambda>_ _ q. let m = take (length q - 8) q in if aes_key m \<and> q = m @ replicate 8 0 then Some m else None),
     BCryptExportKey_data = (\<lambda>m _. Some (be_bytes 12 (length m) @ m))\<rparr>"

definition ref_wrap :: "(unit, bytes) cng_wrap" where
  "ref_wrap = \<lparr>wrap_alg = (), held_key = Some, Wrap = (\<lambda>_ m. m @ replicate 8 0)\<rparr>"

lemma wrap_spec_ref: "wrap_spec ref_wrap_cng ref_wrap"
proof -
  have h: "be_nat (be_bytes 12 n) = n" if "n < 2 ^ 32" for n
    using that be_nat_be_bytes [of 12 n] by simp
  have i: "key_imports ref_wrap_cng () k k" if "aes_key k" for k
    using that by (auto simp: key_imports_def ref_wrap_cng_def aes_key_def)
  have u: "take (length q - 8) q = m" if "q = m @ replicate 8 0" for q m :: bytes using that by simp
  show ?thesis
    unfolding wrap_spec_def
  proof (intro conjI allI impI)
    fix w k q
    assume "held_key ref_wrap w = Some k"
    show "case BCryptImportKey_wrap ref_wrap_cng (wrap_alg ref_wrap) w q of None \<Rightarrow> \<nexists>m. aes_key m \<and> q = Wrap ref_wrap k m
         | Some h \<Rightarrow> \<exists>m. aes_key m \<and> q = Wrap ref_wrap k m \<and> held_key ref_wrap h = Some m"
      using u [of q] by (auto simp: ref_wrap_cng_def ref_wrap_def Let_def)
  qed (use h i in \<open>auto simp: ref_wrap_cng_def ref_wrap_def\<close>)
qed

lemma cng_keywrap_round_trip_witness:
  "\<exists>c c1 c2 c3 out2. bcrypt_keywrap_256_new_impl ref_common ref_wrap_cng ref_handles (Some (cursor_of (replicate 32 7))) = Inr c \<and>
    run_calls (s_aes_keywrap_vtable ref_common ref_wrap_cng ref_handles) (map Encrypt [cursor_of (replicate 10 1), cursor_of (replicate 6 2)]) c (empty_out 0) =
      (replicate 2 (Inr ()), c1, empty_out 0) \<and>
    aws_symmetric_cipher_finalize_encryption (s_aes_keywrap_vtable ref_common ref_wrap_cng ref_handles) c1 (empty_out 0) = (Inr (), c2, out2) \<and>
    contents out2 = replicate 10 1 @ replicate 6 2 @ replicate 8 0 \<and>
    aws_symmetric_cipher_reset (s_aes_keywrap_vtable ref_common ref_wrap_cng ref_handles) c2 = (Inr (), c3)"
proof -
  let ?bs = "[replicate 10 1, replicate 6 2 :: bytes]" and ?cs = "[cursor_of (replicate 10 1), cursor_of (replicate 6 2)]"
  have prems: "length (replicate 32 7 :: bytes) = 32" "pieces ?cs ?bs" "aes_key (concat ?bs)" "valid_buf (empty_out 0)" "allocator (empty_out 0)"
    "buf_len (empty_out 0) + length (concat ?bs) + 16 \<le> SIZE_MAX div 2" "s_aes_keywrap_algorithm_handle ref_handles = wrap_alg ref_wrap"
    by (simp_all add: aes_key_def)
  have cur: "bytes_at (ptr (cursor_of b)) (cur_len (cursor_of b)) = Inr b" for b by simp
  have run: "contents (empty_out 0) @ Wrap ref_wrap k (concat ?bs) = replicate 10 1 @ replicate 6 2 @ replicate 8 0" "length ?cs = 2" for k
    by (simp_all add: ref_wrap_def)
  show ?thesis
    using cng_keywrap_round_trip [OF common_spec_ref wrap_spec_ref prems(7) cur prems(1-6)]
    unfolding run by (elim exE conjE) (intro exI conjI; assumption)
qed

end
