(* ===== verification/Ecc_Platform.thy ===== *)
theory Ecc_Platform
  imports Ecc_Spec Digest
begin

text \<open>
  What the platform implementations of elliptic-curve key pairs share: buffers that point into the
  memory of another buffer, and calls whose error is ignored.

  On Windows and Darwin the buffers \<open>pub_x\<close>, \<open>pub_y\<close> and \<open>priv_d\<close> of a key pair point into
  \<open>key_buf\<close>, which holds a header, the two coordinates and the private key one behind the other.
  \<open>point_into\<close> sets them from the memory of \<open>key_buf\<close>; an operation that changes this memory applies
  it again.
\<close>

definition array_buf :: "bytes \<Rightarrow> nat \<Rightarrow> nat \<Rightarrow> aws_byte_buf" where
  "array_buf m off n = \<lparr>buf_len = n, buffer = Some (take n (drop off m)), capacity = n, allocator = False\<rparr>"

definition point_into :: "nat \<Rightarrow> nat \<Rightarrow> 'i aws_ecc_key_pair \<Rightarrow> 'i aws_ecc_key_pair" where
  "point_into header n k = (case buffer (key_buf k) of
       None \<Rightarrow> k
     | Some m \<Rightarrow> k\<lparr>pub_x := array_buf m header n, pub_y := array_buf m (header + n) n,
                   priv_d := array_buf m (header + 2 * n) n\<rparr>)"

text \<open>A call whose error return is ignored.\<close>

definition ignore_error :: "unit result \<times> 's \<Rightarrow> 's result" where
  "ignore_error p = (case p of
       (Inl (Raised _), s) \<Rightarrow> Inr s | (Inl f, s) \<Rightarrow> Inl f | (Inr _, s) \<Rightarrow> Inr s)"

text \<open>\<open>(pub_x.ptr && pub_x.len != size) || ...\<close>\<close>

definition wrong_length :: "nat \<Rightarrow> aws_byte_cursor \<Rightarrow> bool" where
  "wrong_length n cur \<longleftrightarrow> ptr cur \<noteq> None \<and> cur_len cur \<noteq> n"

lemma ignore_error_simps [simp]:
  "ignore_error (Inr u, s) = Inr s"
  "ignore_error (Inl (Raised e), s) = Inr s"
  "ignore_error (Inl (Undefined u'), s) = Inl (Undefined u')"
  "ignore_error (Inl Fatal, s) = Inl Fatal"
  by (simp_all add: ignore_error_def)

lemma contents_array_buf [simp]: "contents (array_buf m off n) = take n (drop off m)"
  by (simp add: array_buf_def contents_def)

lemma point_into_parts:
  assumes "valid_buf (key_buf k)" and "contents (key_buf k) = h @ x @ y @ d @ rest"
    and "length h = header" and "length x = n" and "length y = n" and "length d = n" and "d \<noteq> []"
  shows "contents (pub_x (point_into header n k)) = x" and "contents (pub_y (point_into header n k)) = y"
    and "contents (priv_d (point_into header n k)) = d"
proof -
  obtain m where m: "buffer (key_buf k) = Some m"
    using assms(2,7) by (cases "buffer (key_buf k)") (auto simp: contents_def)
  have "m = contents (key_buf k) @ drop (buf_len (key_buf k)) m" using m by (simp add: contents_def)
  with assms(2) have eq: "m = h @ x @ y @ d @ rest @ drop (buf_len (key_buf k)) m" by simp
  have d1: "drop header m = x @ y @ d @ rest @ drop (buf_len (key_buf k)) m"
    using eq assms(3) by (metis append_eq_conv_conj)
  have d2: "drop (header + n) m = y @ d @ rest @ drop (buf_len (key_buf k)) m"
    using d1 assms(4) by (metis append_eq_conv_conj add.commute drop_drop)
  have d3: "drop (header + 2 * n) m = d @ rest @ drop (buf_len (key_buf k)) m"
  proof -
    have "header + 2 * n = n + (header + n)" by simp
    then have "drop (header + 2 * n) m = drop n (drop (header + n) m)" by (simp only: drop_drop)
    also have "\<dots> = d @ rest @ drop (buf_len (key_buf k)) m" unfolding d2 using assms(5) by simp
    finally show ?thesis .
  qed
  show "contents (pub_x (point_into header n k)) = x" using m d1 assms(4) by (simp add: point_into_def)
  show "contents (pub_y (point_into header n k)) = y" using m d2 assms(5) by (simp add: point_into_def)
  show "contents (priv_d (point_into header n k)) = d" using m d3 assms(6) by (simp add: point_into_def)
qed

section \<open>Filling a buffer of zeros\<close>

text \<open>A buffer with the contents \<open>pre\<close> and room for \<open>m\<close> bytes, all of them zero.\<close>

definition zero_tail :: "aws_byte_buf \<Rightarrow> bytes \<Rightarrow> nat \<Rightarrow> bool" where
  "zero_tail b pre m \<longleftrightarrow> valid_buf b \<and> buf_len b = length pre \<and> buffer b = Some (pre @ replicate m 0)"

lemma zero_tail_room: "zero_tail b pre m \<Longrightarrow> room b = m"
  by (auto simp: zero_tail_def valid_buf_def room_def)

lemma zero_tail_new:
  assumes C: "common_spec C" and "0 < m" and "m \<le> SIZE_MAX div 2"
  shows "\<exists>b. aws_byte_buf_init C m = Inr b \<and> zero_tail (aws_byte_buf_secure_zero C b) [] m"
proof -
  obtain b where b: "aws_byte_buf_init C m = Inr b" "fresh_buf m b" using init_law [OF C assms(3)] by blast
  then have v: "valid_buf b" "capacity b = m" by (simp_all add: fresh_buf_def)
  then obtain mem where mem: "buffer b = Some mem" "length mem = m"
    using assms(2) by (cases "buffer b") (auto simp: valid_buf_def)
  have "buffer (aws_byte_buf_secure_zero C b) = Some (replicate m 0)"
    using secure_zero_memory [OF C v(1)] mem by (simp add: map_replicate_const)
  with b(1) secure_zero_law [OF C v(1)] show ?thesis by (auto simp: zero_tail_def)
qed

lemma zero_tail_append:
  assumes C: "common_spec C" and z: "zero_tail b pre m" and cur: "bytes_at (ptr cur) (cur_len cur) = Inr bs"
    and "length bs \<le> m"
  shows "\<exists>b'. append_unchecked C b cur = Inr b' \<and> zero_tail b' (pre @ bs) (m - length bs)"
proof -
  have v: "valid_buf b" using z by (simp add: zero_tail_def)
  obtain b' where b': "append_unchecked C b cur = Inr b'" "appends b bs (Some b')"
      "buffer b' = map_option (overwrite (buf_len b) bs) (buffer b)"
    using append_ok [OF C v cur] zero_tail_room [OF z] assms(4) by auto
  moreover have "overwrite (length pre) bs (pre @ replicate m 0) = pre @ bs @ replicate (m - length bs) 0"
    by (simp add: overwrite_def)
  ultimately show ?thesis using z by (auto simp: zero_tail_def appends_def)
qed

lemma zero_tail_skip:
  assumes "zero_tail b pre m" and "j \<le> m"
  shows "zero_tail (add_len j b) (pre @ replicate j 0) (m - j)"
proof -
  have "replicate m 0 = replicate j (0 :: byte) @ replicate (m - j) 0"
    using assms(2) by (simp flip: replicate_add)
  with assms show ?thesis by (auto simp: zero_tail_def add_len_def valid_buf_def)
qed

lemma zero_tail_bytes:
  assumes "zero_tail b pre m"
  shows "bytes_at (ptr (aws_byte_cursor_from_buf b)) (length pre) = Inr pre"
  using assms by (simp add: zero_tail_def aws_byte_cursor_from_buf_def bytes_at_def)

text \<open>A component of a key: absent, or a cursor over its bytes.\<close>

definition key_part :: "aws_byte_cursor \<Rightarrow> bytes option \<Rightarrow> bool" where
  "key_part cur v \<longleftrightarrow> (case v of
       None \<Rightarrow> ptr cur = None
     | Some bs \<Rightarrow> ptr cur \<noteq> None \<and> bytes_at (ptr cur) (cur_len cur) = Inr bs)"

definition part_or_zeros :: "nat \<Rightarrow> bytes option \<Rightarrow> bytes" where
  "part_or_zeros n v = (case v of None \<Rightarrow> replicate n 0 | Some bs \<Rightarrow> bs)"

lemma key_partI: "bytes_at (ptr cur) (cur_len cur) = Inr bs \<Longrightarrow> bs \<noteq> [] \<Longrightarrow> key_part cur (Some bs)"
  by (cases "ptr cur") (auto simp: key_part_def bytes_at_def split: if_splits)

lemma key_part_null [simp]: "key_part null_cursor None"
  by (simp add: key_part_def null_cursor_def)

lemma key_part_wrong_length:
  "key_part cur v \<Longrightarrow> wrong_length n cur \<longleftrightarrow> (\<exists>bs. v = Some bs \<and> length bs \<noteq> n)"
  by (auto simp: key_part_def wrong_length_def dest: bytes_at_length split: option.splits)

end
