(* ===== verification/Bcrypt_Ecc.thy ===== *)
theory Bcrypt_Ecc
  imports Ecc_Platform
begin

text \<open>
  Elliptic-curve key pairs on Windows, \<^verbatim>\<open>source/windows/bcrypt_ecc.c\<close>. CNG signs and verifies raw
  signatures, two integers of the size of a coordinate one behind the other; the file translates
  them to and from DER with the encoder and the decoder of the library. The functions and
  constants of CNG are the fields of \<open>cng_ecc_api\<close>, parameters of the definitions; a call on a null
  handle is a call on \<open>None\<close>.
\<close>

section \<open>CNG\<close>

datatype ecc_alg_id = BCRYPT_ECDSA_P256_ALGORITHM | BCRYPT_ECDSA_P384_ALGORITHM
datatype ecc_blob_type = BCRYPT_ECCPUBLIC_BLOB | BCRYPT_ECCPRIVATE_BLOB

text \<open>
  \<open>ecckey_blob\<close> are the bytes of a \<open>BCRYPT_ECCKEY_BLOB\<close> with a magic number and a key size.
  \<open>BCryptExportKey_ecc\<close> returns the status, the number it stores in \<open>pcbResult\<close> and the bytes it
  writes. The flag of \<open>BCryptImportKeyPair\<close> is \<open>BCRYPT_NO_KEY_VALIDATION\<close>.
\<close>

record ('a, 'k) cng_ecc_api =
  BCryptOpenAlgorithmProvider :: "ecc_alg_id \<Rightarrow> 'a option"
  BCRYPT_ECDSA_PRIVATE_P256_MAGIC :: nat
  BCRYPT_ECDSA_PUBLIC_P256_MAGIC :: nat
  BCRYPT_ECDSA_PRIVATE_P384_MAGIC :: nat
  BCRYPT_ECDSA_PUBLIC_P384_MAGIC :: nat
  ecckey_blob :: "nat \<Rightarrow> nat \<Rightarrow> bytes"
  BCryptImportKeyPair :: "'a option \<Rightarrow> ecc_blob_type \<Rightarrow> bytes \<Rightarrow> bool \<Rightarrow> 'k option"
  BCryptGenerateKeyPair :: "'a option \<Rightarrow> nat \<Rightarrow> 'k option"
  BCryptFinalizeKeyPair :: "'k \<Rightarrow> bool \<times> 'k"
  BCryptExportKey_ecc :: "'k option \<Rightarrow> nat \<Rightarrow> bool \<times> nat \<times> bytes"
  BCryptSignHash :: "'k option \<Rightarrow> bytes \<Rightarrow> nat \<Rightarrow> bytes option"
  BCryptVerifySignature :: "'k option \<Rightarrow> bytes \<Rightarrow> bytes \<Rightarrow> bool"

record 'a ecc_alg_handles =
  s_ecdsa_p256_alg :: "'a option"
  s_ecdsa_p384_alg :: "'a option"

definition s_load_alg_handle :: "('a, 'k) cng_ecc_api \<Rightarrow> 'a ecc_alg_handles" where
  "s_load_alg_handle N = \<lparr>s_ecdsa_p256_alg = BCryptOpenAlgorithmProvider N BCRYPT_ECDSA_P256_ALGORITHM,
     s_ecdsa_p384_alg = BCryptOpenAlgorithmProvider N BCRYPT_ECDSA_P384_ALGORITHM\<rparr>"

abbreviation MAX_SIGNATURE_LENGTH :: nat where "MAX_SIGNATURE_LENGTH \<equiv> 96"

section \<open>Key pairs\<close>

record 'k bcrypt_ecc_key_pair =
  ecc_key_handle :: "'k option"

type_synonym 'k bcrypt_key = "'k bcrypt_ecc_key_pair aws_ecc_key_pair"

definition s_key_alg_handle_from_curve_name :: "'a ecc_alg_handles \<Rightarrow> aws_ecc_curve_name \<Rightarrow> 'a option" where
  "s_key_alg_handle_from_curve_name H curve = (case curve of
       AWS_CAL_ECDSA_P256 \<Rightarrow> s_ecdsa_p256_alg H
     | AWS_CAL_ECDSA_P384 \<Rightarrow> s_ecdsa_p384_alg H
     | Other_curve _ \<Rightarrow> None)"

definition s_get_magic_from_curve_name :: "('a, 'k) cng_ecc_api \<Rightarrow> aws_ecc_curve_name \<Rightarrow> bool \<Rightarrow> nat" where
  "s_get_magic_from_curve_name N curve private_key = (case curve of
       AWS_CAL_ECDSA_P256 \<Rightarrow>
         if private_key then BCRYPT_ECDSA_PRIVATE_P256_MAGIC N else BCRYPT_ECDSA_PUBLIC_P256_MAGIC N
     | AWS_CAL_ECDSA_P384 \<Rightarrow>
         if private_key then BCRYPT_ECDSA_PRIVATE_P384_MAGIC N else BCRYPT_ECDSA_PUBLIC_P384_MAGIC N
     | Other_curve _ \<Rightarrow> 0)"

definition bcrypt_destroy_key :: "'k bcrypt_key \<Rightarrow> 'k clean_up list \<Rightarrow> 'k clean_up list" where
  "bcrypt_destroy_key k w =
     w @ free_handle (ecc_key_handle (impl k)) @ [Clean_up_secure (key_buf k), Mem_release]"

definition bcrypt_signature_length :: "'k bcrypt_key \<Rightarrow> nat" where
  "bcrypt_signature_length k = 8 + coord_size (curve_name k) * 2"

section \<open>Signing\<close>

definition s_trim_zeros_predicate :: "byte \<Rightarrow> bool" where
  "s_trim_zeros_predicate value \<longleftrightarrow> value = 0"

text \<open>The DER encoding of the two halves of a raw signature; the errors of the encoder are ignored.\<close>

definition trimmed_integer :: "aws_common \<Rightarrow> bytes \<Rightarrow> nat \<Rightarrow> nat \<Rightarrow> aws_byte_cursor" where
  "trimmed_integer C temp off n =
     aws_byte_cursor_left_trim_pred C \<lparr>ptr = Some \<lparr>pobj = temp, poff = off\<rparr>, cur_len = n\<rparr> s_trim_zeros_predicate"

definition encode_signature :: "aws_common \<Rightarrow> der_tlv array_list_ops \<Rightarrow> nat \<Rightarrow> bytes \<Rightarrow> nat \<Rightarrow>
    aws_byte_cursor result" where
  "encode_signature C L cap temp coordinate_len =
     rbind (aws_der_encoder_new C L cap) (\<lambda>encoder.
     rbind (ignore_error (aws_der_encoder_begin_sequence C L encoder)) (\<lambda>encoder.
     rbind (ignore_error (aws_der_encoder_write_integer C encoder
              (trimmed_integer C temp 0 coordinate_len))) (\<lambda>encoder.
     rbind (ignore_error (aws_der_encoder_write_integer C encoder
              (trimmed_integer C temp coordinate_len coordinate_len))) (\<lambda>encoder.
     rbind (ignore_error (aws_der_encoder_end_sequence C L encoder)) (\<lambda>encoder.
       case aws_der_encoder_get_contents encoder of
         Inl (Raised _) \<Rightarrow> Inr null_cursor
       | r \<Rightarrow> r)))))"

definition bcrypt_sign_message :: "aws_common \<Rightarrow> der_tlv array_list_ops \<Rightarrow> ('a, 'k) cng_ecc_api \<Rightarrow>
    'k bcrypt_key \<Rightarrow> aws_byte_cursor \<Rightarrow> aws_byte_buf \<Rightarrow> unit result \<times> aws_byte_buf" where
  "bcrypt_sign_message C L N k message signature_output =
     (if buf_room signature_output < bcrypt_signature_length k
      then (Inl (Raised AWS_ERROR_SHORT_BUFFER), signature_output)
      else case bytes_at (ptr message) (ulong (cur_len message)) of
          Inl f \<Rightarrow> (Inl f, signature_output)
        | Inr hash \<Rightarrow>
            (case BCryptSignHash N (ecc_key_handle (impl k)) hash MAX_SIGNATURE_LENGTH of
               None \<Rightarrow> (Inl (Raised AWS_ERROR_INVALID_ARGUMENT), signature_output)
             | Some sig \<Rightarrow>
                 if length sig > MAX_SIGNATURE_LENGTH then (Inl (Undefined Out_of_bounds), signature_output)
                 else (case rbind (encode_signature C L (buf_room signature_output)
                              (overwrite 0 sig (replicate MAX_SIGNATURE_LENGTH 0)) (length sig div 2))
                            (append_unchecked C signature_output) of
                         Inl f \<Rightarrow> (Inl f, signature_output)
                       | Inr out \<Rightarrow> (Inr (), out))))"

section \<open>Deriving the public key\<close>

text \<open>
  The private blob is written over the memory of \<open>key_buf\<close>, into which the other buffers point.
  Its length is stored whether the call succeeds or not.
\<close>

definition bcrypt_derive_public_key :: "('a, 'k) cng_ecc_api \<Rightarrow> 'k bcrypt_key \<Rightarrow> unit result \<times> 'k bcrypt_key" where
  "bcrypt_derive_public_key N k =
     (case BCryptExportKey_ecc N (ecc_key_handle (impl k)) (ulong (capacity (key_buf k))) of
        (ok, count, written) \<Rightarrow>
          (case poke ((key_buf k)\<lparr>buf_len := 0\<rparr>) written of
             Inl f \<Rightarrow> (Inl f, k)
           | Inr b \<Rightarrow>
               (if ok then Inr () else Inl (Raised AWS_ERROR_CAL_MISSING_REQUIRED_KEY_COMPONENT),
                point_into (length (ecckey_blob N 0 0)) (coord_size (curve_name k))
                  (k\<lparr>key_buf := b\<lparr>buf_len := count\<rparr>\<rparr>))))"

section \<open>Verifying\<close>

definition s_append_coordinate :: "aws_common \<Rightarrow> aws_byte_buf \<Rightarrow> aws_byte_cursor \<Rightarrow> aws_ecc_curve_name \<Rightarrow>
    aws_byte_buf result" where
  "s_append_coordinate C buf coordinate curve =
     (let n = coord_size curve in
      if cur_len coordinate < n then
        let leading_zero_count = n - cur_len coordinate in
        if leading_zero_count + buf_len buf \<le> capacity buf
        then buf_append C (case aws_byte_buf_write_u8_n C buf 0 leading_zero_count of None \<Rightarrow> buf | Some b \<Rightarrow> b)
               coordinate
        else Inl Fatal
      else buf_append C buf coordinate)"

text \<open>\<open>if (!aws_der_decoder_next(decoder) || aws_der_decoder_tlv_type(decoder) != tag) goto error;\<close>\<close>

definition expect_tlv :: "der_tlv array_list_ops \<Rightarrow> byte \<Rightarrow> aws_der_decoder \<Rightarrow> aws_der_decoder result" where
  "expect_tlv L t decoder =
     rbind (aws_der_decoder_next decoder) (\<lambda>(has_next, decoder).
        if \<not> has_next then Inl (Raised AWS_ERROR_CAL_MALFORMED_ASN1_ENCOUNTERED)
        else rbind (aws_der_decoder_tlv_type L decoder) (\<lambda>t'.
          if t' \<noteq> t then Inl (Raised AWS_ERROR_CAL_MALFORMED_ASN1_ENCOUNTERED) else Inr decoder))"

definition read_coordinate :: "aws_common \<Rightarrow> der_tlv array_list_ops \<Rightarrow> aws_ecc_curve_name \<Rightarrow>
    aws_byte_buf \<Rightarrow> aws_der_decoder \<Rightarrow> (aws_byte_buf \<times> aws_der_decoder) result" where
  "read_coordinate C L curve buf decoder =
     rbind (expect_tlv L AWS_DER_INTEGER decoder) (\<lambda>decoder.
     rbind (raise_on_failure AWS_ERROR_CAL_MALFORMED_ASN1_ENCOUNTERED
              (aws_der_decoder_tlv_integer L decoder)) (\<lambda>coordinate.
     rbind (s_append_coordinate C buf coordinate curve) (\<lambda>buf. Inr (buf, decoder))))"

definition temp_signature_buf :: aws_byte_buf where
  "temp_signature_buf = \<lparr>buf_len = 0, buffer = Some (replicate MAX_SIGNATURE_LENGTH 0),
     capacity = MAX_SIGNATURE_LENGTH, allocator = False\<rparr>"

definition bcrypt_verify_signature :: "aws_common \<Rightarrow> der_tlv array_list_ops \<Rightarrow> ('a, 'k) cng_ecc_api \<Rightarrow>
    'k bcrypt_key \<Rightarrow> aws_byte_cursor \<Rightarrow> aws_byte_cursor \<Rightarrow> unit result" where
  "bcrypt_verify_signature C L N k message signature =
     rbind (aws_der_decoder_new C L signature) (\<lambda>decoder.
     rbind (expect_tlv L AWS_DER_SEQUENCE decoder) (\<lambda>decoder.
     rbind (read_coordinate C L (curve_name k) temp_signature_buf decoder) (\<lambda>(buf, decoder).
     rbind (read_coordinate C L (curve_name k) buf decoder) (\<lambda>(buf, decoder).
     rbind (bytes_at (ptr message) (ulong (cur_len message))) (\<lambda>hash.
     rbind (bytes_at (ptr (aws_byte_cursor_from_buf buf)) (ulong (buf_len buf))) (\<lambda>sig.
       if BCryptVerifySignature N (ecc_key_handle (impl k)) hash sig then Inr ()
       else Inl (Raised AWS_ERROR_CAL_SIGNATURE_VALIDATION_FAILED)))))))"

definition bcrypt_ecc_vtable :: "aws_common \<Rightarrow> der_tlv array_list_ops \<Rightarrow> ('a, 'k) cng_ecc_api \<Rightarrow>
    ('k bcrypt_key, 'k clean_up list) aws_ecc_key_pair_vtable" where
  "bcrypt_ecc_vtable C L N = \<lparr>vt_destroy = Some bcrypt_destroy_key,
     vt_derive_pub_key = Some (bcrypt_derive_public_key N),
     vt_sign_message = Some (bcrypt_sign_message C L N),
     vt_verify_signature = Some (bcrypt_verify_signature C L N),
     vt_signature_length = Some bcrypt_signature_length\<rparr>"

section \<open>Constructors\<close>

definition calloc_pair :: "aws_ecc_curve_name \<Rightarrow> 'k bcrypt_key" where
  "calloc_pair curve = \<lparr>ref_count = 1, curve_name = curve, key_buf = zero_buf, pub_x = zero_buf,
     pub_y = zero_buf, priv_d = zero_buf, impl = \<lparr>ecc_key_handle = None\<rparr>\<rparr>"

text \<open>The blob that is imported: header, coordinates (zeros when there is no public key) and private
  key.\<close>

definition fill_key_buf :: "aws_common \<Rightarrow> ('a, 'k) cng_ecc_api \<Rightarrow> aws_ecc_curve_name \<Rightarrow> aws_byte_cursor \<Rightarrow>
    aws_byte_cursor \<Rightarrow> aws_byte_cursor \<Rightarrow> aws_byte_buf \<Rightarrow> aws_byte_buf result" where
  "fill_key_buf C N curve x y d buf =
     (let n = coord_size curve;
          header = ecckey_blob N (s_get_magic_from_curve_name N curve (ptr d \<noteq> None \<and> cur_len d \<noteq> 0)) (ulong n) in
      rbind (append_unchecked C buf (cursor_of header)) (\<lambda>buf.
      rbind (if ptr x \<noteq> None \<and> ptr y \<noteq> None
             then rbind (append_unchecked C buf x) (\<lambda>buf. append_unchecked C buf y)
             else Inr (add_len (n * 2) buf)) (\<lambda>buf.
      if ptr d \<noteq> None then append_unchecked C buf d else Inr buf)))"

definition bcrypt_alloc_pair_and_init_buffers :: "aws_common \<Rightarrow> ('a, 'k) cng_ecc_api \<Rightarrow> aws_ecc_curve_name \<Rightarrow>
    aws_byte_cursor \<Rightarrow> aws_byte_cursor \<Rightarrow> aws_byte_cursor \<Rightarrow> 'k bcrypt_key result" where
  "bcrypt_alloc_pair_and_init_buffers C N curve x y d =
     (let n = coord_size curve; header_size = length (ecckey_blob N 0 0) in
      if \<not> aws_mem_acquire_ok C then Inl Fatal
      else if n = 0 then Inl (Raised AWS_ERROR_INVALID_ARGUMENT)
      else if wrong_length n x \<or> wrong_length n y \<or> wrong_length n d
      then Inl (Raised AWS_ERROR_CAL_INVALID_KEY_LENGTH_FOR_ALGORITHM)
      else rbind (aws_byte_buf_init C (n * 3 + header_size)) (\<lambda>buf.
        rbind (fill_key_buf C N curve x y d (aws_byte_buf_secure_zero C buf)) (\<lambda>buf.
        let k = point_into header_size n ((calloc_pair curve)\<lparr>key_buf := buf\<rparr>) in
        rbind (bytes_at (ptr (aws_byte_cursor_from_buf buf)) (ulong (buf_len buf))) (\<lambda>blob.
        case BCryptImportKeyPair N (s_key_alg_handle_from_curve_name (s_load_alg_handle N) curve)
               (if ptr d \<noteq> None then BCRYPT_ECCPRIVATE_BLOB else BCRYPT_ECCPUBLIC_BLOB) blob
               (\<not> (ptr x \<noteq> None \<and> ptr y \<noteq> None)) of
          None \<Rightarrow> Inl (Raised AWS_ERROR_INVALID_ARGUMENT)
        | Some h \<Rightarrow> Inr (k\<lparr>impl := \<lparr>ecc_key_handle = Some h\<rparr>\<rparr>)))))"

definition bcrypt_new_from_private_key_impl :: "aws_common \<Rightarrow> ('a, 'k) cng_ecc_api \<Rightarrow> aws_ecc_curve_name \<Rightarrow>
    aws_byte_cursor \<Rightarrow> 'k bcrypt_key result" where
  "bcrypt_new_from_private_key_impl C N curve d =
     bcrypt_alloc_pair_and_init_buffers C N curve null_cursor null_cursor d"

definition bcrypt_new_from_public_key_impl :: "aws_common \<Rightarrow> ('a, 'k) cng_ecc_api \<Rightarrow> aws_ecc_curve_name \<Rightarrow>
    aws_byte_cursor \<Rightarrow> aws_byte_cursor \<Rightarrow> 'k bcrypt_key result" where
  "bcrypt_new_from_public_key_impl C N curve x y =
     bcrypt_alloc_pair_and_init_buffers C N curve x y null_cursor"

definition bcrypt_new_generate_random :: "aws_common \<Rightarrow> ('a, 'k) cng_ecc_api \<Rightarrow> aws_ecc_curve_name \<Rightarrow>
    'k bcrypt_key result" where
  "bcrypt_new_generate_random C N curve =
     (let n = coord_size curve; header_size = length (ecckey_blob N 0 0) in
      if \<not> aws_mem_acquire_ok C then Inl Fatal
      else if n = 0 then Inl (Raised AWS_ERROR_INVALID_ARGUMENT)
      else case BCryptGenerateKeyPair N (s_key_alg_handle_from_curve_name (s_load_alg_handle N) curve)
                  (ulong (ulong n * 8)) of
          None \<Rightarrow> Inl (Raised AWS_ERROR_SYS_CALL_FAILURE)
        | Some h \<Rightarrow> (case BCryptFinalizeKeyPair N h of
              (False, _) \<Rightarrow> Inl (Raised AWS_ERROR_SYS_CALL_FAILURE)
            | (True, h) \<Rightarrow>
                rbind (aws_byte_buf_init C (n * 3 + header_size)) (\<lambda>buf.
                let k = point_into header_size n ((calloc_pair curve)
                      \<lparr>key_buf := aws_byte_buf_secure_zero C buf, impl := \<lparr>ecc_key_handle = Some h\<rparr>\<rparr>) in
                case bcrypt_derive_public_key N k of (Inl f, _) \<Rightarrow> Inl f | (Inr _, k) \<Rightarrow> Inr k)))"

text \<open>A decoder that could not be created is used all the same.\<close>

definition bcrypt_new_from_asn1 :: "aws_common \<Rightarrow> der_tlv array_list_ops \<Rightarrow> ('a, 'k) cng_ecc_api \<Rightarrow>
    aws_byte_cursor \<Rightarrow> 'k bcrypt_key result" where
  "bcrypt_new_from_asn1 C L N encoded_keys =
     (case aws_der_decoder_new C L encoded_keys of
        Inl (Raised _) \<Rightarrow> Inl (Undefined Null_deref)
      | Inl f \<Rightarrow> Inl f
      | Inr decoder \<Rightarrow> rbind (aws_der_decoder_load_ecc_key_pair C L decoder) (\<lambda>p.
          bcrypt_alloc_pair_and_init_buffers C N (out_curve_name p) (out_public_x_coor p)
            (out_public_y_coor p) (out_private_d p)))"

end
