(* ===== verification/Bcrypt_Ecc_Spec.thy ===== *)
theory Bcrypt_Ecc_Spec
  imports Bcrypt_Ecc
begin

text \<open>
  Properties of key pairs on Windows. A signature of CNG survives the translation to DER and back:
  the leading zero bytes that DER forbids are trimmed when signing and restored when verifying. The
  outcome of verifying is given for every pair of integers, including those that are too long.
\<close>

section \<open>Raw and encoded signatures\<close>

definition trim_zeros :: "bytes \<Rightarrow> bytes" where
  "trim_zeros bs = dropWhile s_trim_zeros_predicate bs"

definition pad_zeros :: "nat \<Rightarrow> bytes \<Rightarrow> bytes" where
  "pad_zeros n bs = replicate (n - length bs) 0 @ bs"

definition signature_value :: "bytes \<Rightarrow> bytes \<Rightarrow> der_value" where
  "signature_value r s = Cont Seq_of [Prim (Integer r), Prim (Integer s)]"

lemma length_pad_zeros: "length (pad_zeros n bs) = max n (length bs)"
  by (simp add: pad_zeros_def)

lemma takeWhile_zeros: "takeWhile s_trim_zeros_predicate bs = replicate (length bs - length (trim_zeros bs)) 0"
proof (induction bs)
  case (Cons b bs)
  have "length (trim_zeros bs) \<le> length bs" by (simp add: trim_zeros_def length_dropWhile_le)
  with Cons show ?case by (auto simp: trim_zeros_def s_trim_zeros_predicate_def Suc_diff_le)
qed (simp add: trim_zeros_def)

lemma length_trim_zeros: "length (trim_zeros bs) \<le> length bs"
  by (simp add: trim_zeros_def length_dropWhile_le)

lemma pad_trim_zeros: "length bs = n \<Longrightarrow> pad_zeros n (trim_zeros bs) = bs"
  using takeWhile_dropWhile_id [of s_trim_zeros_predicate bs]
  by (simp add: pad_zeros_def takeWhile_zeros flip: trim_zeros_def)

lemma trim_zeros_hd: "trim_zeros bs \<noteq> [] \<Longrightarrow> hd (trim_zeros bs) \<noteq> 0"
  using hd_dropWhile [of s_trim_zeros_predicate bs] by (simp add: trim_zeros_def s_trim_zeros_predicate_def)

lemma trim_zeros_nonempty: "(\<exists>b \<in> set bs. b \<noteq> 0) \<Longrightarrow> trim_zeros bs \<noteq> []"
  by (auto simp: trim_zeros_def dropWhile_eq_Nil_conv s_trim_zeros_predicate_def)

lemma signature_der_length:
  assumes "length r \<le> n" and "length s \<le> n" and "n \<le> 48"
  shows "length (der_of (signature_value r s)) \<le> 8 + n * 2"
  using assms by (simp add: signature_value_def der_frame_def der_length_bytes_def prim_body_def der_body_def)

section \<open>Signing\<close>

text \<open>An integer is written from where its cursor points.\<close>

lemma write_integer_cursor:
  assumes "bytes_at (ptr cur) (cur_len cur) = Inr bs" and "bs \<noteq> []" and "length bs < 2 ^ 32"
  shows "aws_der_encoder_write_integer C enc cur = aws_der_encoder_write_integer C enc (cursor_of bs)"
proof -
  have len: "cur_len cur = length bs" using bytes_at_length [OF assms(1)] by simp
  have d: "deref (ptr cur) = Inr (hd bs)" using bytes_at_deref(1) [OF assms(1)] assms(2) len by simp
  have d': "deref (ptr (cursor_of bs)) = Inr (hd bs)"
    using bytes_at_deref(1) [of "ptr (cursor_of bs)" "length bs" bs] assms(2) by simp
  let ?tlv = "\<lambda>p. \<lparr>tag = AWS_DER_INTEGER, tlv_length = word_of_nat (length bs), tlv_count = 0, tlv_value = Data p\<rparr>"
  have r: "bytes_at (ptr cur) (length bs) = Inr bs" "bytes_at (ptr (cursor_of bs)) (length bs) = Inr bs"
    using assms(1) len by simp_all
  have "write_tlv_bytes C (?tlv (ptr cur)) = write_tlv_bytes C (?tlv (ptr (cursor_of bs)))"
    using assms(3) by (intro ext) (simp add: write_tlv_bytes_def r unat_of_nat)
  then have "s_der_write_tlv C (?tlv (ptr cur)) = s_der_write_tlv C (?tlv (ptr (cursor_of bs)))"
    by (intro ext) (simp add: s_der_write_tlv_def s_encoded_len_def write_tlv_value_def d d')
  then show ?thesis using len by (simp add: aws_der_encoder_write_integer_def)
qed

lemma trimmed_integer_bytes:
  assumes "common_spec C" and "temp = pre @ bs @ post" and "off = length pre" and "n = length bs"
  shows "bytes_at (ptr (trimmed_integer C temp off n)) (cur_len (trimmed_integer C temp off n)) =
    Inr (trim_zeros bs)"
proof -
  let ?cur = "\<lparr>ptr = Some \<lparr>pobj = temp, poff = off\<rparr>, cur_len = n\<rparr>"
  let ?z = "takeWhile s_trim_zeros_predicate bs"
  have at: "cursor_at ?cur (?z @ trim_zeros bs)"
    using assms(2-4) by (intro cursor_atI [of _ pre _ post]) (simp_all add: trim_zeros_def)
  have "bytes_at (ptr ?cur) (cur_len ?cur) = Inr bs"
    using cursor_at_take(1) [of ?cur bs "[]"] at assms(4) by (simp add: trim_zeros_def)
  then have "trimmed_integer C temp off n = cur_drop (length ?z) ?cur"
    unfolding trimmed_integer_def by (rule left_trim_law [OF assms(1)])
  then have "cursor_at (trimmed_integer C temp off n) (trim_zeros bs @ [])"
    using cursor_at_drop [OF at] by simp
  from cursor_at_take(1) [OF this] cursor_at_len [OF this] show ?thesis by simp
qed

lemma encode_signature_ok:
  assumes C: "common_spec C" and L: "array_list_spec L" and temp: "temp = r @ s @ rest"
    and len: "length r = n" "length s = n" "n \<le> 48"
    and nz: "trim_zeros r \<noteq> []" "trim_zeros s \<noteq> []"
    and cap: "8 + n * 2 \<le> cap" "cap \<le> SIZE_MAX div 2"
  shows "\<exists>cur. encode_signature C L cap temp n = Inr cur \<and>
    bytes_at (ptr cur) (cur_len cur) = Inr (der_of (signature_value (trim_zeros r) (trim_zeros s)))"
proof -
  let ?v = "signature_value (trim_zeros r) (trim_zeros s)"
  have small: "length (trim_zeros r) \<le> n" "length (trim_zeros s) \<le> n"
    using length_trim_zeros [of r] length_trim_zeros [of s] len by simp_all
  have der: "length (der_of ?v) \<le> 8 + n * 2" by (rule signature_der_length [OF small len(3)])
  have wf: "wf_value ?v" using nz by (simp add: signature_value_def)
  obtain e0 e1 cur where run: "aws_der_encoder_new C L cap = Inr e0"
      "emit_value (encoder_put C) (encoder_begin C L) (encoder_end C L) ?v e0 = (Inr (), e1)"
      "aws_der_encoder_get_contents e1 = Inr cur" "bytes_at (ptr cur) (cur_len cur) = Inr (der_of ?v)"
    using encode_value [OF C L wf, of cap] der cap len(3) by auto
  have w: "aws_der_encoder_write_integer C e (trimmed_integer C temp 0 n) =
        aws_der_encoder_write_integer C e (cursor_of (trim_zeros r))"
      "aws_der_encoder_write_integer C e (trimmed_integer C temp n n) =
        aws_der_encoder_write_integer C e (cursor_of (trim_zeros s))" for e
    using trimmed_integer_bytes [OF C, of temp "[]" r "s @ rest"] trimmed_integer_bytes [OF C, of temp r s rest]
      temp len nz small by (simp_all add: write_integer_cursor)
  from run show ?thesis
    by (auto simp: encode_signature_def w signature_value_def seq_op_def aws_der_encoder_begin_sequence_def
        aws_der_encoder_end_sequence_def split: prod.splits sum.splits)
qed

section \<open>Verifying\<close>

lemma expect_tlv_at:
  assumes "array_list_spec L" and "tlv_idx dec = int i - 1" and "i < length (views dec)"
    and "length (views dec) < 2 ^ 31" and "views dec ! i = (t, c, v)"
  shows "expect_tlv L t' dec =
    (if t = t' then Inr (dec\<lparr>tlv_idx := int i\<rparr>) else Inl (Raised AWS_ERROR_CAL_MALFORMED_ASN1_ENCOUNTERED))"
proof -
  let ?dec = "dec\<lparr>tlv_idx := int i\<rparr>"
  have nxt: "aws_der_decoder_next dec = Inr (True, ?dec)"
    using assms(2-4) by (simp add: aws_der_decoder_next_def)
  have "tag (al_items (tlvs dec) ! i) = t"
    using assms(3,5) by (simp add: views_def view_def)
  then have "aws_der_decoder_tlv_type L ?dec = Inr t"
    using decoder_tlv_at [OF assms(1), of ?dec i] assms(3,4) by (simp add: aws_der_decoder_tlv_type_def)
  then show ?thesis by (simp add: expect_tlv_def nxt)
qed

lemma read_coordinate_at:
  assumes "array_list_spec L" and "tlv_idx dec = int i - 1" and "i < length (views dec)"
    and "length (views dec) < 2 ^ 31" and "views dec ! i = (AWS_DER_INTEGER, c, Inr bs)"
  shows "\<exists>cur. bytes_at (ptr cur) (cur_len cur) = Inr bs \<and> (\<forall>buf. read_coordinate C L curve buf dec =
    rbind (s_append_coordinate C buf cur curve) (\<lambda>buf. Inr (buf, dec\<lparr>tlv_idx := int i\<rparr>)))"
proof -
  let ?dec = "dec\<lparr>tlv_idx := int i\<rparr>"
  let ?tlv = "al_items (tlvs dec) ! i"
  have v: "view ?tlv = (AWS_DER_INTEGER, c, Inr bs)" using assms(3,5) by (simp add: views_def)
  have "s_decoder_tlv L ?dec = Inr ?tlv"
    using decoder_tlv_at [OF assms(1), of ?dec i] assms(3,4) by simp
  then have "aws_der_decoder_tlv_integer L ?dec = Inr (tlv_cursor ?tlv)"
    using v by (simp add: aws_der_decoder_tlv_integer_def s_tlv_to_blob_def tlv_cursor_def view_def)
  moreover have "bytes_at (ptr (tlv_cursor ?tlv)) (cur_len (tlv_cursor ?tlv)) = Inr bs"
    using v by (simp add: tlv_cursor_def view_def)
  ultimately show ?thesis
    using expect_tlv_at [OF assms] by (auto simp: read_coordinate_def)
qed

lemma append_padded:
  assumes C: "common_spec C" and v: "valid_buf buf" and cur: "bytes_at (ptr cur) (cur_len cur) = Inr bs"
    and n: "n = coord_size curve" and l: "length bs < n" "n - length bs \<le> room buf"
  shows "if room buf < n then \<exists>e. s_append_coordinate C buf cur curve = Inl (Raised e)
    else \<exists>b. s_append_coordinate C buf cur curve = Inr b \<and> appends buf (replicate (n - length bs) 0 @ bs) (Some b)"
proof -
  let ?z = "replicate (n - length bs) (0 :: byte)"
  have len: "cur_len cur = length bs" using bytes_at_length [OF cur] by simp
  obtain b1 where b1: "aws_byte_buf_write_u8_n C buf 0 (n - length bs) = Some b1" "appends buf ?z (Some b1)"
    using write_laws(5) [OF C v, of "n - length bs" 0] l(2)
    by (cases "aws_byte_buf_write_u8_n C buf 0 (n - length bs)") (auto simp: appends_def)
  have v1: "valid_buf b1" using b1(2) by (simp add: appends_def)
  have r1: "room b1 = room buf - (n - length bs)" using appends_room [OF b1(2)] by simp
  have "n - length bs + buf_len buf \<le> capacity buf" using l(2) v unfolding room_def valid_buf_def by linarith
  with l b1(1) have run: "s_append_coordinate C buf cur curve = buf_append C b1 cur"
    by (simp add: s_append_coordinate_def Let_def len flip: n)
  show ?thesis
  proof (cases "length bs \<le> room b1")
    case True
    obtain b2 where b2: "buf_append C b1 cur = Inr b2" "appends b1 bs (Some b2)" using append_ok [OF C v1 cur True] by blast
    from appends_trans [OF b1(2) b2(2)] b2(1) True l r1 show ?thesis by (simp add: run)
  next
    case False
    then have "room b1 < cur_len cur" "room buf < n" using len l r1 by linarith+
    then show ?thesis using append_too_long [OF C v1, of cur] by (simp add: run)
  qed
qed

lemma append_coordinate_outcome:
  assumes C: "common_spec C" and v: "valid_buf buf" and cur: "bytes_at (ptr cur) (cur_len cur) = Inr bs"
    and n: "n = coord_size curve"
  shows "if length bs < n \<and> room buf < n - length bs then s_append_coordinate C buf cur curve = Inl Fatal
    else if room buf < length (pad_zeros n bs) then \<exists>e. s_append_coordinate C buf cur curve = Inl (Raised e)
    else \<exists>b. s_append_coordinate C buf cur curve = Inr b \<and> appends buf (pad_zeros n bs) (Some b)"
proof -
  have len: "cur_len cur = length bs" using bytes_at_length [OF cur] by simp
  have le: "buf_len buf \<le> capacity buf" using v by (simp add: valid_buf_def)
  consider "n \<le> length bs" | "length bs < n" "room buf < n - length bs"
    | "length bs < n" "n - length bs \<le> room buf" by linarith
  then show ?thesis
  proof cases
    case 1
    then have "s_append_coordinate C buf cur curve = buf_append C buf cur" "pad_zeros n bs = bs"
      using len n by (simp_all add: s_append_coordinate_def Let_def pad_zeros_def)
    with 1 append_ok [OF C v cur] append_too_long [OF C v, of cur] len show ?thesis
      by (metis not_le)
  next
    case 2
    have "\<not> n - length bs + buf_len buf \<le> capacity buf" using 2 le unfolding room_def by linarith
    with 2 show ?thesis by (simp add: s_append_coordinate_def Let_def len flip: n)
  next
    case 3
    with append_padded [OF C v cur n] show ?thesis by (simp add: length_pad_zeros) (simp add: pad_zeros_def)
  qed
qed

lemma valid_temp_signature_buf: "valid_buf temp_signature_buf" "contents temp_signature_buf = []"
    "room temp_signature_buf = MAX_SIGNATURE_LENGTH"
  by (simp_all add: temp_signature_buf_def valid_buf_def contents_def room_def)

text \<open>A signature document with two integers, and the decoder over it.\<close>

definition signature_doc :: "bytes \<Rightarrow> bytes \<Rightarrow> bytes" where
  "signature_doc a b = tree_bytes (Node AWS_DER_SEQUENCE [Leaf AWS_DER_INTEGER a, Leaf AWS_DER_INTEGER b])"

abbreviation int_value :: "bytes \<Rightarrow> bytes" where
  "int_value \<equiv> leaf_value AWS_DER_INTEGER"

lemma signature_doc_length:
  "length a < 2 ^ 16 \<Longrightarrow> length b < 2 ^ 16 \<Longrightarrow> length (signature_doc a b) < 2 ^ 32"
  by (simp add: signature_doc_def der_frame_def der_length_bytes_def)

lemma signature_decoder:
  assumes "common_spec C" and "array_list_spec L" and "cursor_at sig (signature_doc a b)"
    and "a \<noteq> []" and "b \<noteq> []" and "length a < 2 ^ 16" and "length b < 2 ^ 16"
  shows "\<exists>dec body. aws_der_decoder_new C L sig = Inr dec \<and> tlv_idx dec = -1 \<and>
    views dec = [(AWS_DER_SEQUENCE, 2, body), (AWS_DER_INTEGER, 0, Inr (int_value a)),
      (AWS_DER_INTEGER, 0, Inr (int_value b))]"
  using decode_forest_new [OF assms(1,2), of sig "[Node AWS_DER_SEQUENCE [Leaf AWS_DER_INTEGER a, Leaf AWS_DER_INTEGER b]]"]
    assms(3-5) signature_doc_length [OF assms(6,7)]
  by (auto simp: signature_doc_def leaf_ok_def)

text \<open>The two coordinates are read into the temporary buffer one behind the other.\<close>

lemma verify_reads:
  assumes "common_spec C" and "array_list_spec L" and "cursor_at sig (signature_doc a b)"
    and "a \<noteq> []" and "b \<noteq> []" and "length a < 2 ^ 16" and "length b < 2 ^ 16"
    and msg: "bytes_at (ptr message) (cur_len message) = Inr hash" and small: "cur_len message < 2 ^ 32"
  shows "\<exists>x y. bytes_at (ptr x) (cur_len x) = Inr (int_value a) \<and> bytes_at (ptr y) (cur_len y) = Inr (int_value b) \<and>
    bcrypt_verify_signature C L N k message sig =
      rbind (s_append_coordinate C temp_signature_buf x (curve_name k)) (\<lambda>buf.
      rbind (s_append_coordinate C buf y (curve_name k)) (\<lambda>buf.
      rbind (bytes_at (ptr (aws_byte_cursor_from_buf buf)) (ulong (buf_len buf))) (\<lambda>raw.
        if BCryptVerifySignature N (ecc_key_handle (impl k)) hash raw then Inr ()
        else Inl (Raised AWS_ERROR_CAL_SIGNATURE_VALIDATION_FAILED))))"
proof -
  obtain dec body where dec: "aws_der_decoder_new C L sig = Inr dec" "tlv_idx dec = -1"
      "views dec = [(AWS_DER_SEQUENCE, 2, body), (AWS_DER_INTEGER, 0, Inr (int_value a)),
        (AWS_DER_INTEGER, 0, Inr (int_value b))]"
    using signature_decoder [OF assms(1-7)] by blast
  let ?d0 = "dec\<lparr>tlv_idx := 0\<rparr>" and ?d1 = "dec\<lparr>tlv_idx := 1\<rparr>"
  have v: "views (dec\<lparr>tlv_idx := i\<rparr>) = views dec" for i by (simp add: views_def)
  have e: "expect_tlv L AWS_DER_SEQUENCE dec = Inr ?d0"
    using expect_tlv_at [OF assms(2), of dec 0] dec(2,3) by simp
  obtain x where x: "bytes_at (ptr x) (cur_len x) = Inr (int_value a)"
      "\<forall>buf. read_coordinate C L (curve_name k) buf ?d0 =
        rbind (s_append_coordinate C buf x (curve_name k)) (\<lambda>buf. Inr (buf, ?d1))"
    using read_coordinate_at [OF assms(2), of ?d0 1 0 "int_value a" C "curve_name k"] dec(3) v by auto
  obtain y where y: "bytes_at (ptr y) (cur_len y) = Inr (int_value b)"
      "\<forall>buf. read_coordinate C L (curve_name k) buf ?d1 =
        rbind (s_append_coordinate C buf y (curve_name k)) (\<lambda>buf. Inr (buf, dec\<lparr>tlv_idx := 2\<rparr>))"
    using read_coordinate_at [OF assms(2), of ?d1 2 0 "int_value b" C "curve_name k"] dec(3) v by auto
  have "bytes_at (ptr message) (ulong (cur_len message)) = Inr hash" using msg small by (simp add: ulong_def)
  then show ?thesis
    using x y dec(1) e
    by (intro exI [where x = x] exI [where x = y])
      (auto simp: bcrypt_verify_signature_def rbind_def split: sum.splits)
qed

lemma verify_raw:
  fixes check :: "bytes \<Rightarrow> unit result"
  assumes C: "common_spec C" and x: "bytes_at (ptr x) (cur_len x) = Inr a" and y: "bytes_at (ptr y) (cur_len y) = Inr b"
    and n: "n = coord_size curve" "n \<le> 48"
  defines "run \<equiv> rbind (s_append_coordinate C temp_signature_buf x curve) (\<lambda>buf.
      rbind (s_append_coordinate C buf y curve) (\<lambda>buf.
      rbind (bytes_at (ptr (aws_byte_cursor_from_buf buf)) (ulong (buf_len buf))) check))"
  shows "if 96 < length (pad_zeros n a) then \<exists>e. run = Inl (Raised e)
    else if length b < n \<and> 96 < length (pad_zeros n a) + (n - length b) then run = Inl Fatal
    else if 96 < length (pad_zeros n a) + length (pad_zeros n b) then \<exists>e. run = Inl (Raised e)
    else run = check (pad_zeros n a @ pad_zeros n b)"
proof -
  note t = valid_temp_signature_buf
  have "\<not> (length a < n \<and> room temp_signature_buf < n - length a)" using n(2) t(3) by linarith
  note first = append_coordinate_outcome [OF C t(1) x n(1), unfolded if_not_P [OF this], unfolded t(3)]
  show ?thesis
  proof (cases "96 < length (pad_zeros n a)")
    case True
    with first show ?thesis by (auto simp: run_def)
  next
    case False
    with first obtain b1 where b1: "s_append_coordinate C temp_signature_buf x curve = Inr b1"
        "appends temp_signature_buf (pad_zeros n a) (Some b1)" by auto
    have v1: "valid_buf b1" using b1(2) by (simp add: appends_def)
    have r1: "room b1 = 96 - length (pad_zeros n a)" using appends_room [OF b1(2)] t(3) by simp
    note second = append_coordinate_outcome [OF C v1 y n(1)]
    show ?thesis
    proof (cases "96 < length (pad_zeros n a) + length (pad_zeros n b)")
      case True
      with False second b1(1) r1 show ?thesis
        by (auto simp: run_def length_pad_zeros split: if_splits)
    next
      case fits: False
      then have "\<not> (length b < n \<and> room b1 < n - length b)" "\<not> room b1 < length (pad_zeros n b)"
        using r1 False by (auto simp: length_pad_zeros)
      with second obtain b2 where b2: "s_append_coordinate C b1 y curve = Inr b2"
          "appends b1 (pad_zeros n b) (Some b2)" by auto
      let ?raw = "pad_zeros n a @ pad_zeros n b"
      have "appends temp_signature_buf ?raw (Some b2)" by (rule appends_trans [OF b1(2) b2(2)])
      then have v2: "valid_buf b2" "contents b2 = ?raw" "buf_len b2 = length ?raw"
        using t by (auto simp: appends_def temp_signature_buf_def)
      have "cursor_at (aws_byte_cursor_from_buf b2) (?raw @ [])" if "?raw \<noteq> []"
        using cursor_at_from_buf [OF v2(1)] v2(2) that by simp
      then have "bytes_at (ptr (aws_byte_cursor_from_buf b2)) (length ?raw) = Inr ?raw"
        using cursor_at_take(1) [of "aws_byte_cursor_from_buf b2" ?raw "[]"] by (cases "?raw = []") auto
      moreover have "ulong (length ?raw) = length ?raw" using fits by (simp add: ulong_def)
      ultimately have "run = check ?raw"
        by (simp add: run_def b1(1) b2(1) v2(3) del: length_append)
      with False fits show ?thesis by (auto simp: length_pad_zeros)
    qed
  qed
qed

lemma known_curve:
  assumes "curve \<in> {AWS_CAL_ECDSA_P256, AWS_CAL_ECDSA_P384}"
  shows "coord_size curve \<le> 48" and "0 < coord_size curve"
  using assms by (auto simp: aws_ecc_key_coordinate_byte_size_from_curve_name_def)

text \<open>The signature that signing wrote is the document of the two trimmed halves.\<close>

lemma verify_signature_value:
  assumes C: "common_spec C" and L: "array_list_spec L" and curve: "curve_name k \<in> {AWS_CAL_ECDSA_P256, AWS_CAL_ECDSA_P384}"
    and msg: "bytes_at (ptr message) (cur_len message) = Inr hash" "cur_len message < 2 ^ 32"
    and rs: "length r = coord_size (curve_name k)" "length s = coord_size (curve_name k)"
    and nz: "trim_zeros r \<noteq> []" "trim_zeros s \<noteq> []"
    and sig: "cursor_at sig (der_of (signature_value (trim_zeros r) (trim_zeros s)))"
  shows "bcrypt_verify_signature C L N k message sig =
    (if BCryptVerifySignature N (ecc_key_handle (impl k)) hash (r @ s) then Inr ()
     else Inl (Raised AWS_ERROR_CAL_SIGNATURE_VALIDATION_FAILED))"
proof -
  let ?n = "coord_size (curve_name k)"
  let ?a = "prim_body (Integer (trim_zeros r))" and ?b = "prim_body (Integer (trim_zeros s))"
  have n: "?n \<le> 48" using known_curve(1) [OF curve] .
  have doc: "cursor_at sig (signature_doc ?a ?b)"
    using sig by (simp add: signature_doc_def signature_value_def)
  have val: "int_value ?a = trim_zeros r" "int_value ?b = trim_zeros s"
    using leaf_value_prim [of "Integer (trim_zeros r)"] leaf_value_prim [of "Integer (trim_zeros s)"] nz
      trim_zeros_hd [OF nz(1)] trim_zeros_hd [OF nz(2)] by simp_all
  have len: "length ?a \<le> Suc ?n" "length ?b \<le> Suc ?n" and ne: "?a \<noteq> []" "?b \<noteq> []"
    using length_trim_zeros [of r] length_trim_zeros [of s] rs nz by (auto simp: prim_body_def der_body_def)
  then have small: "length ?a < 2 ^ 16" "length ?b < 2 ^ 16" using n by simp_all
  obtain cx cy where c: "bytes_at (ptr cx) (cur_len cx) = Inr (trim_zeros r)" "bytes_at (ptr cy) (cur_len cy) = Inr (trim_zeros s)"
      and run: "bcrypt_verify_signature C L N k message sig =
      rbind (s_append_coordinate C temp_signature_buf cx (curve_name k)) (\<lambda>buf.
      rbind (s_append_coordinate C buf cy (curve_name k)) (\<lambda>buf.
      rbind (bytes_at (ptr (aws_byte_cursor_from_buf buf)) (ulong (buf_len buf))) (\<lambda>raw.
        if BCryptVerifySignature N (ecc_key_handle (impl k)) hash raw then Inr ()
        else Inl (Raised AWS_ERROR_CAL_SIGNATURE_VALIDATION_FAILED))))"
    using verify_reads [OF C L doc ne small msg, of N k] unfolding val by blast
  have pad: "pad_zeros ?n (trim_zeros r) = r" "pad_zeros ?n (trim_zeros s) = s"
    using rs by (simp_all add: pad_trim_zeros)
  have fits: "\<not> 96 < length r" "\<not> (length (trim_zeros s) < ?n \<and> 96 < length r + (?n - length (trim_zeros s)))"
      "\<not> 96 < length r + length s"
    using n rs by linarith+
  show ?thesis
    unfolding run
    by (rule verify_raw [OF C c refl n, unfolded pad, unfolded if_not_P [OF fits(1)] if_not_P [OF fits(2)] if_not_P [OF fits(3)]])
qed

section \<open>Properties\<close>

text \<open>
  Claim C26. Verifying a signature on Windows, for every DER sequence of two INTEGERs: each integer,
  without its sign byte, is padded with leading zeros to the size of a coordinate, and CNG decides
  about the two behind one another. Integers that do not fit the buffer of 96 bytes are an error,
  except when the zeros of the second one do not fit: then an assertion aborts the process, so that
  a malformed signature of a peer ends it.
\<close>

theorem bcrypt_verify_outcome:
  assumes C: "common_spec C" and L: "array_list_spec L" and curve: "curve_name k \<in> {AWS_CAL_ECDSA_P256, AWS_CAL_ECDSA_P384}"
    and sig: "cursor_at sig (signature_doc a b)"
    and ab: "a \<noteq> []" "b \<noteq> []" "length a < 2 ^ 16" "length b < 2 ^ 16"
    and msg: "bytes_at (ptr message) (cur_len message) = Inr hash" "cur_len message < 2 ^ 32"
    and x: "x = pad_zeros (coord_size (curve_name k)) (int_value a)"
    and y: "y = pad_zeros (coord_size (curve_name k)) (int_value b)"
  shows "if 96 < length x then \<exists>e. bcrypt_verify_signature C L N k message sig = Inl (Raised e)
    else if length (int_value b) < coord_size (curve_name k) \<and>
            96 < length x + (coord_size (curve_name k) - length (int_value b))
    then bcrypt_verify_signature C L N k message sig = Inl Fatal
    else if 96 < length x + length y then \<exists>e. bcrypt_verify_signature C L N k message sig = Inl (Raised e)
    else bcrypt_verify_signature C L N k message sig =
      (if BCryptVerifySignature N (ecc_key_handle (impl k)) hash (x @ y) then Inr ()
       else Inl (Raised AWS_ERROR_CAL_SIGNATURE_VALIDATION_FAILED))"
proof -
  obtain cx cy where c: "bytes_at (ptr cx) (cur_len cx) = Inr (int_value a)" "bytes_at (ptr cy) (cur_len cy) = Inr (int_value b)"
      and run: "bcrypt_verify_signature C L N k message sig =
      rbind (s_append_coordinate C temp_signature_buf cx (curve_name k)) (\<lambda>buf.
      rbind (s_append_coordinate C buf cy (curve_name k)) (\<lambda>buf.
      rbind (bytes_at (ptr (aws_byte_cursor_from_buf buf)) (ulong (buf_len buf))) (\<lambda>raw.
        if BCryptVerifySignature N (ecc_key_handle (impl k)) hash raw then Inr ()
        else Inl (Raised AWS_ERROR_CAL_SIGNATURE_VALIDATION_FAILED))))"
    using verify_reads [OF C L sig ab msg, of N k] by blast
  show ?thesis unfolding run x y by (rule verify_raw [OF C c refl known_curve(1) [OF curve]])
qed

text \<open>Signing when there is room for the longest signature.\<close>

lemma bcrypt_sign_ok:
  assumes C: "common_spec C" and L: "array_list_spec L" and curve: "curve_name k \<in> {AWS_CAL_ECDSA_P256, AWS_CAL_ECDSA_P384}"
    and msg: "bytes_at (ptr message) (cur_len message) = Inr hash" "cur_len message < 2 ^ 32"
    and cng: "BCryptSignHash N (ecc_key_handle (impl k)) hash 96 = Some (r @ s)"
    and rs: "length r = coord_size (curve_name k)" "length s = coord_size (curve_name k)"
    and nz: "trim_zeros r \<noteq> []" "trim_zeros s \<noteq> []"
    and out: "valid_buf out" and room: "\<not> room out < bcrypt_signature_length k"
    and der: "der = der_of (signature_value (trim_zeros r) (trim_zeros s))" "length der \<le> bcrypt_signature_length k"
  shows "\<exists>out'. bcrypt_sign_message C L N k message out = (Inr (), out') \<and> appends out der (Some out')"
proof -
  let ?n = "coord_size (curve_name k)"
  have n: "?n \<le> 48" "0 < ?n" using known_curve [OF curve] by simp_all
  have hash: "bytes_at (ptr message) (ulong (cur_len message)) = Inr hash" using msg by (simp add: ulong_def)
  have temp: "overwrite 0 (r @ s) (replicate 96 0) = r @ s @ replicate (96 - 2 * ?n) 0"
    using rs(1,2) n by (simp add: overwrite_def)
  have cap: "8 + ?n * 2 \<le> room out" "room out \<le> SIZE_MAX div 2"
    using room valid_capacity [OF out] by (simp_all add: bcrypt_signature_length_def room_def)
  obtain cur where cur: "encode_signature C L (room out) (overwrite 0 (r @ s) (replicate 96 0)) ?n = Inr cur"
      "bytes_at (ptr cur) (cur_len cur) = Inr der"
    using encode_signature_ok [OF C L temp rs(1,2) n(1) nz cap] unfolding der(1) by blast
  obtain out' where "append_unchecked C out cur = Inr out'" "appends out der (Some out')"
    using append_ok [OF C out cur(2)] der(2) room by auto
  with cur(1) hash cng rs(1,2) n room out show ?thesis by (simp add: bcrypt_sign_message_def)
qed

text \<open>
  Claim C25. Signing on Windows: with too little room the call fails and leaves the buffer as it
  was. Otherwise the DER encoding of the two halves of CNG's signature, without leading zeros, is
  appended, at most as long as the signature length the key reports; and verifying it presents to CNG
  exactly the signature that CNG made.
\<close>

theorem bcrypt_sign_verify:
  assumes C: "common_spec C" and L: "array_list_spec L" and curve: "curve_name k \<in> {AWS_CAL_ECDSA_P256, AWS_CAL_ECDSA_P384}"
    and msg: "bytes_at (ptr message) (cur_len message) = Inr hash" "cur_len message < 2 ^ 32"
    and cng: "BCryptSignHash N (ecc_key_handle (impl k)) hash 96 = Some (r @ s)"
    and rs: "length r = coord_size (curve_name k)" "length s = coord_size (curve_name k)"
      "\<exists>b \<in> set r. b \<noteq> 0" "\<exists>b \<in> set s. b \<noteq> 0"
    and out: "valid_buf out" and der: "der = der_of (signature_value (trim_zeros r) (trim_zeros s))"
  shows "if room out < bcrypt_signature_length k
    then bcrypt_sign_message C L N k message out = (Inl (Raised AWS_ERROR_SHORT_BUFFER), out)
    else \<exists>out'. bcrypt_sign_message C L N k message out = (Inr (), out') \<and> valid_buf out' \<and>
      contents out' = contents out @ der \<and> length der \<le> bcrypt_signature_length k \<and>
      (\<forall>sig. cursor_at sig der \<longrightarrow> bcrypt_verify_signature C L N k message sig =
         (if BCryptVerifySignature N (ecc_key_handle (impl k)) hash (r @ s) then Inr ()
          else Inl (Raised AWS_ERROR_CAL_SIGNATURE_VALIDATION_FAILED)))"
proof -
  let ?n = "coord_size (curve_name k)"
  let ?r = "trim_zeros r" and ?s = "trim_zeros s"
  have n: "?n \<le> 48" "0 < ?n" using known_curve [OF curve] by simp_all
  have nz: "?r \<noteq> []" "?s \<noteq> []" using rs(3,4) by (simp_all add: trim_zeros_nonempty)
  have le: "length ?r \<le> ?n" "length ?s \<le> ?n" using length_trim_zeros rs(1,2) by metis+
  have len: "length der \<le> bcrypt_signature_length k"
    unfolding der bcrypt_signature_length_def by (rule signature_der_length [OF le n(1)])
  note sign = bcrypt_sign_ok [OF C L curve msg cng rs(1,2) nz out _ der len]
  have verify: "bcrypt_verify_signature C L N k message sig =
      (if BCryptVerifySignature N (ecc_key_handle (impl k)) hash (r @ s) then Inr ()
       else Inl (Raised AWS_ERROR_CAL_SIGNATURE_VALIDATION_FAILED))" if "cursor_at sig der" for sig
    by (rule verify_signature_value [OF C L curve msg rs(1,2) nz]) (use that in \<open>simp add: der\<close>)
  from sign verify len out show ?thesis
    by (auto simp: bcrypt_sign_message_def appends_def)
qed

section \<open>Building keys\<close>

text \<open>The header of a key blob has one size, whatever it holds.\<close>

definition header_spec :: "('a, 'k) cng_ecc_api \<Rightarrow> bool" where
  "header_spec N \<longleftrightarrow> (\<forall>m n. length (ecckey_blob N m n) = length (ecckey_blob N 0 0)) \<and>
     length (ecckey_blob N 0 0) < 2 ^ 16"

definition key_blob :: "('a, 'k) cng_ecc_api \<Rightarrow> aws_ecc_curve_name \<Rightarrow> bytes option \<Rightarrow> bytes option \<Rightarrow>
    bytes option \<Rightarrow> bytes" where
  "key_blob N c x y d = ecckey_blob N (s_get_magic_from_curve_name N c (d \<noteq> None)) (coord_size c) @
     part_or_zeros (coord_size c) x @ part_or_zeros (coord_size c) y @ (case d of None \<Rightarrow> [] | Some bs \<Rightarrow> bs)"

lemma fill_coordinates_ok:
  assumes C: "common_spec C" and parts: "key_part x vx" "key_part y vy" "vx = None \<longleftrightarrow> vy = None"
    and len: "\<And>bs. Some bs \<in> {vx, vy} \<Longrightarrow> length bs = n" and z: "zero_tail b h (n * 3)"
  obtains b' where "(if ptr x \<noteq> None \<and> ptr y \<noteq> None then rbind (append_unchecked C b x) (\<lambda>buf. append_unchecked C buf y)
      else Inr (add_len (n * 2) b)) = Inr b'" "zero_tail b' (h @ part_or_zeros n vx @ part_or_zeros n vy) n"
proof (cases vx)
  case None
  then have "replicate (n * 2) (0 :: byte) = part_or_zeros n vx @ part_or_zeros n vy" and "ptr x = None"
    using parts by (simp_all add: part_or_zeros_def key_part_def mult_2_right replicate_add)
  with zero_tail_skip [OF z, of "n * 2"] show ?thesis by (intro that) simp_all
next
  case (Some xs)
  then obtain ys where ys: "vy = Some ys" using parts(3) by auto
  have x: "ptr x \<noteq> None" "bytes_at (ptr x) (cur_len x) = Inr xs" and y: "ptr y \<noteq> None" "bytes_at (ptr y) (cur_len y) = Inr ys"
    using parts(1,2) Some ys by (simp_all add: key_part_def)
  have l: "length xs = n" "length ys = n" using len Some ys by auto
  obtain b2 where b2: "append_unchecked C b x = Inr b2" "zero_tail b2 (h @ xs) (n * 3 - n)"
    using zero_tail_append [OF C z x(2)] l by auto
  obtain b3 where "append_unchecked C b2 y = Inr b3" "zero_tail b3 ((h @ xs) @ ys) (n * 3 - n - n)"
    using zero_tail_append [OF C b2(2) y(2)] l by auto
  moreover have "n * 3 - n - n = n" by simp
  ultimately show ?thesis using x y b2 Some ys by (intro that [of b3]) (auto simp: part_or_zeros_def)
qed

lemma fill_key_buf_ok:
  assumes C: "common_spec C" and H: "header_spec N" and n: "n = coord_size c" "0 < n" "n \<le> 48"
    and parts: "key_part x vx" "key_part y vy" "key_part d vd" "vx = None \<longleftrightarrow> vy = None"
    and len: "\<And>bs. Some bs \<in> {vx, vy, vd} \<Longrightarrow> length bs = n"
    and z: "zero_tail b [] (n * 3 + length (ecckey_blob N 0 0))"
  shows "\<exists>b'. fill_key_buf C N c x y d b = Inr b' \<and>
    zero_tail b' (key_blob N c vx vy vd) (case vd of None \<Rightarrow> n | Some _ \<Rightarrow> 0)"
proof -
  have d0: "ptr d \<noteq> None \<and> cur_len d \<noteq> 0 \<longleftrightarrow> vd \<noteq> None" and d1: "ptr d = None \<longleftrightarrow> vd = None"
    using parts(3) n(2) len bytes_at_length by (fastforce simp: key_part_def split: option.splits)+
  let ?h = "ecckey_blob N (s_get_magic_from_curve_name N c (vd \<noteq> None)) n"
  let ?xy = "part_or_zeros n vx @ part_or_zeros n vy"
  have u: "ulong n = n" using n(3) by (simp add: ulong_def)
  have hl: "length ?h = length (ecckey_blob N 0 0)" using H by (simp only: header_spec_def)
  have xyl: "length ?xy = 2 * n" using len by (auto simp: part_or_zeros_def split: option.splits)
  obtain b1 where b1: "append_unchecked C b (cursor_of ?h) = Inr b1" "zero_tail b1 ?h (n * 3)"
    using zero_tail_append [OF C z, of "cursor_of ?h" ?h] hl by auto
  obtain b2 where b2: "(if ptr x \<noteq> None \<and> ptr y \<noteq> None
        then rbind (append_unchecked C b1 x) (\<lambda>buf. append_unchecked C buf y)
        else Inr (add_len (n * 2) b1)) = Inr b2" "zero_tail b2 (?h @ ?xy) n"
    by (rule fill_coordinates_ok [OF C parts(1,2,4) _ b1(2)]) (use len in auto)
  have run: "fill_key_buf C N c x y d b = (if ptr d \<noteq> None then append_unchecked C b2 d else Inr b2)"
    unfolding fill_key_buf_def Let_def d0 n(1) [symmetric] u b1(1) rbind_simps b2(1) by (rule refl)
  show ?thesis
  proof (cases vd)
    case None
    with run d1 b2(2) n(1) show ?thesis by (simp add: key_blob_def)
  next
    case (Some ds)
    then have "bytes_at (ptr d) (cur_len d) = Inr ds" "length ds = n" using parts(3) len by (auto simp: key_part_def)
    from zero_tail_append [OF C b2(2) this(1)] this(2) Some run d1 n(1) show ?thesis
      by (auto simp: key_blob_def)
  qed
qed

text \<open>The key pair that \<open>s_alloc_pair_and_init_buffers\<close> returns for these components and a handle.\<close>

definition built_key :: "aws_ecc_curve_name \<Rightarrow> bytes option \<Rightarrow> bytes option \<Rightarrow> bytes option \<Rightarrow> 'k \<Rightarrow>
    'k bcrypt_key \<Rightarrow> bool" where
  "built_key c x y d h k \<longleftrightarrow> ref_count k = 1 \<and> curve_name k = c \<and> ecc_key_handle (impl k) = Some h \<and>
     contents (pub_x k) = part_or_zeros (coord_size c) x \<and> contents (pub_y k) = part_or_zeros (coord_size c) y \<and>
     contents (priv_d k) = part_or_zeros (coord_size c) d"

lemma alloc_pair_ok:
  assumes C: "common_spec C" and H: "header_spec N" and c: "c \<in> {AWS_CAL_ECDSA_P256, AWS_CAL_ECDSA_P384}"
    and parts: "key_part x vx" "key_part y vy" "key_part d vd" "vx = None \<longleftrightarrow> vy = None"
    and len: "\<And>bs. Some bs \<in> {vx, vy, vd} \<Longrightarrow> length bs = coord_size c"
  shows "case BCryptImportKeyPair N (s_key_alg_handle_from_curve_name (s_load_alg_handle N) c)
      (if vd \<noteq> None then BCRYPT_ECCPRIVATE_BLOB else BCRYPT_ECCPUBLIC_BLOB) (key_blob N c vx vy vd) (vx = None) of
      None \<Rightarrow> bcrypt_alloc_pair_and_init_buffers C N c x y d = Inl (Raised AWS_ERROR_INVALID_ARGUMENT)
    | Some h \<Rightarrow> \<exists>k. bcrypt_alloc_pair_and_init_buffers C N c x y d = Inr k \<and> built_key c vx vy vd h k"
proof -
  let ?n = "coord_size c" and ?hs = "length (ecckey_blob N 0 0)"
  have n: "0 < ?n" "?n \<le> 48" using known_curve [OF c] by simp_all
  have hs: "?hs < 2 ^ 16" using H by (simp add: header_spec_def)
  have "?n * 3 + ?hs \<le> SIZE_MAX div 2" using n hs by simp
  then obtain b0 where b0: "aws_byte_buf_init C (?n * 3 + ?hs) = Inr b0"
      "zero_tail (aws_byte_buf_secure_zero C b0) [] (?n * 3 + ?hs)"
    using zero_tail_new [OF C, of "?n * 3 + ?hs"] n by auto
  obtain b where b: "fill_key_buf C N c x y d (aws_byte_buf_secure_zero C b0) = Inr b"
      "zero_tail b (key_blob N c vx vy vd) (case vd of None \<Rightarrow> ?n | Some _ \<Rightarrow> 0)"
    using fill_key_buf_ok [OF C H refl n parts len b0(2)] by blast
  have ok: "\<not> (wrong_length ?n x \<or> wrong_length ?n y \<or> wrong_length ?n d)"
    using key_part_wrong_length [OF parts(1)] key_part_wrong_length [OF parts(2)] key_part_wrong_length [OF parts(3)] len
    by auto
  have ptrs: "ptr d \<noteq> None \<longleftrightarrow> vd \<noteq> None" "ptr x \<noteq> None \<and> ptr y \<noteq> None \<longleftrightarrow> vx \<noteq> None"
    using parts by (auto simp: key_part_def split: option.splits)
  let ?h = "ecckey_blob N (s_get_magic_from_curve_name N c (vd \<noteq> None)) ?n"
  let ?x = "part_or_zeros ?n vx" and ?y = "part_or_zeros ?n vy" and ?d = "part_or_zeros ?n vd"
  have lens: "length ?h = ?hs" "length ?x = ?n" "length ?y = ?n" "length ?d = ?n"
    using H len by (auto simp: header_spec_def part_or_zeros_def split: option.splits)
  have blob: "length (key_blob N c vx vy vd) < 2 ^ 32"
    using lens hs n len by (auto simp: key_blob_def split: option.splits)
  have mem: "buffer b = Some (?h @ ?x @ ?y @ ?d)"
    using b(2) by (auto simp: zero_tail_def key_blob_def part_or_zeros_def split: option.splits)
  have bytes: "bytes_at (ptr (aws_byte_cursor_from_buf b)) (ulong (buf_len b)) = Inr (key_blob N c vx vy vd)"
    using zero_tail_bytes [OF b(2)] b(2) blob by (simp add: zero_tail_def ulong_def)
  define k where "k = point_into ?hs ?n ((calloc_pair c)\<lparr>key_buf := b\<rparr> :: 'b bcrypt_key)"
  have run: "bcrypt_alloc_pair_and_init_buffers C N c x y d =
      (case BCryptImportKeyPair N (s_key_alg_handle_from_curve_name (s_load_alg_handle N) c)
         (if vd \<noteq> None then BCRYPT_ECCPRIVATE_BLOB else BCRYPT_ECCPUBLIC_BLOB) (key_blob N c vx vy vd) (vx = None) of
         None \<Rightarrow> Inl (Raised AWS_ERROR_INVALID_ARGUMENT)
       | Some h \<Rightarrow> Inr (k\<lparr>impl := \<lparr>ecc_key_handle = Some h\<rparr>\<rparr>))"
    using n C unfolding bcrypt_alloc_pair_and_init_buffers_def Let_def if_not_P [OF ok] b0(1) b(1) rbind_simps
      bytes ptrs k_def by simp
  have "built_key c vx vy vd h (k\<lparr>impl := \<lparr>ecc_key_handle = Some h\<rparr>\<rparr>)" for h
    using lens by (simp add: built_key_def k_def point_into_def mem calloc_pair_def flip: mult_2)
  then show ?thesis unfolding run by (auto split: option.splits)
qed

text \<open>A document of one byte is malformed.\<close>

lemma decode_one_byte:
  assumes C: "common_spec C" and L: "array_list_spec L"
  shows "aws_der_decoder_new C L (cursor_of [t]) = Inl (Raised AWS_ERROR_CAL_MALFORMED_ASN1_ENCOUNTERED)"
proof -
  have r: "readable (cur_drop 1 (cursor_of [t])) 1" by (simp add: readable_def)
  have "cursor_read 1 (aws_byte_cursor_read_u8 C) (cursor_of [t]) e = Inr (t, cur_drop 1 (cursor_of [t]))" for e
    using cursor_reads(1) [OF C, of "cursor_of [t]" "[t]" "[]"] by simp
  moreover have "cursor_read 1 (aws_byte_cursor_read_u8 C) (cur_drop 1 (cursor_of [t])) e = Inl (Raised e)" for e
    using r by (simp add: cursor_read_def read_u8_law [OF C])
  ultimately have "s_der_read_tlv C (cursor_of [t]) = Inl (Raised AWS_ERROR_SUCCESS)"
    by (simp add: s_der_read_tlv_def)
  then show ?thesis
    using C init_dynamic_law [OF L, of 16]
    by (auto simp: aws_der_decoder_new_def s_decoder_parse_def s_parse_cursor_def eval_nat_numeral)
qed

text \<open>
  Claim C27. Keys on Windows from DER: for the document of an EC private key with its public key, CNG
  is asked to import the blob of header, coordinates and private key of the document's curve. When
  it refuses, the error is AWS_ERROR_INVALID_ARGUMENT; otherwise the key pair holds the handle, one
  reference, the curve, and buffers over exactly the coordinates and the private key of the
  document. For a document that the decoder rejects, already one cut off after its first byte, the
  null decoder is dereferenced.
\<close>

theorem bcrypt_key_from_asn1:
  assumes C: "common_spec C" and L: "array_list_spec L" and H: "header_spec N" and c: "curve_oid c = Some oid"
    and len: "length d = coord_size c" "length x = coord_size c" "length y = coord_size c"
    and doc: "doc = tree_bytes (ec_private_key oid d x y)"
  shows "(case BCryptImportKeyPair N (s_key_alg_handle_from_curve_name (s_load_alg_handle N) c)
        BCRYPT_ECCPRIVATE_BLOB (key_blob N c (Some x) (Some y) (Some d)) False of
      None \<Rightarrow> bcrypt_new_from_asn1 C L N (cursor_of doc) = Inl (Raised AWS_ERROR_INVALID_ARGUMENT)
    | Some h \<Rightarrow> \<exists>k. bcrypt_new_from_asn1 C L N (cursor_of doc) = Inr k \<and>
        built_key c (Some x) (Some y) (Some d) h k) \<and>
    bcrypt_new_from_asn1 C L N (cursor_of (take 1 doc)) = Inl (Undefined Null_deref)"
proof
  have n: "0 < coord_size c" using curve_oid_size(1) [OF c] by auto
  then have ne: "d \<noteq> []" "x \<noteq> []" "y \<noteq> []" using len by auto
  have known: "c \<in> {AWS_CAL_ECDSA_P256, AWS_CAL_ECDSA_P384}" using c by (cases c) auto
  obtain dec p where p: "aws_der_decoder_new C L (cursor_of doc) = Inr dec"
      "aws_der_decoder_load_ecc_key_pair C L dec = Inr p" "out_curve_name p = c"
      "bytes_at (ptr (out_private_d p)) (cur_len (out_private_d p)) = Inr d"
      "bytes_at (ptr (out_public_x_coor p)) (cur_len (out_public_x_coor p)) = Inr x"
      "bytes_at (ptr (out_public_y_coor p)) (cur_len (out_public_y_coor p)) = Inr y"
    using load_private_key_doc [OF C L c len] doc by auto
  have run: "bcrypt_new_from_asn1 C L N (cursor_of doc) =
      bcrypt_alloc_pair_and_init_buffers C N c (out_public_x_coor p) (out_public_y_coor p) (out_private_d p)"
    using p(1-3) by (simp add: bcrypt_new_from_asn1_def)
  have lens: "length bs = coord_size c" if "Some bs \<in> {Some x, Some y, Some d}" for bs using that len by auto
  show "case BCryptImportKeyPair N (s_key_alg_handle_from_curve_name (s_load_alg_handle N) c)
        BCRYPT_ECCPRIVATE_BLOB (key_blob N c (Some x) (Some y) (Some d)) False of
      None \<Rightarrow> bcrypt_new_from_asn1 C L N (cursor_of doc) = Inl (Raised AWS_ERROR_INVALID_ARGUMENT)
    | Some h \<Rightarrow> \<exists>k. bcrypt_new_from_asn1 C L N (cursor_of doc) = Inr k \<and>
        built_key c (Some x) (Some y) (Some d) h k"
    unfolding run using alloc_pair_ok [OF C H known key_partI [OF p(5) ne(2)] key_partI [OF p(6) ne(3)] key_partI [OF p(4) ne(1)] _ lens]
    by simp
next
  have "take 1 doc = [AWS_DER_SEQUENCE]" using doc by (simp add: ec_private_key_def der_frame_def)
  then show "bcrypt_new_from_asn1 C L N (cursor_of (take 1 doc)) = Inl (Undefined Null_deref)"
    using decode_one_byte [OF C L, of AWS_DER_SEQUENCE] by (simp add: bcrypt_new_from_asn1_def)
qed

section \<open>An instance of CNG\<close>

text \<open>
  A key is the blob it was imported from; the signature of every hash is the same pair of integers,
  the first of them with leading zero bytes.
\<close>

definition ref_raw :: bytes where
  "ref_raw = ([0, 0] @ replicate 30 0x80) @ replicate 32 1"

definition ref_cng_ecc :: "(unit, bytes) cng_ecc_api" where
  "ref_cng_ecc = \<lparr>BCryptOpenAlgorithmProvider = (\<lambda>_. Some ()), BCRYPT_ECDSA_PRIVATE_P256_MAGIC = 1,
     BCRYPT_ECDSA_PUBLIC_P256_MAGIC = 2, BCRYPT_ECDSA_PRIVATE_P384_MAGIC = 3, BCRYPT_ECDSA_PUBLIC_P384_MAGIC = 4,
     ecckey_blob = (\<lambda>m n. be_bytes 4 m @ be_bytes 4 n), BCryptImportKeyPair = (\<lambda>_ _ blob _. Some blob),
     BCryptGenerateKeyPair = (\<lambda>_ _. Some []), BCryptFinalizeKeyPair = (\<lambda>k. (True, k)),
     BCryptExportKey_ecc = (\<lambda>_ _. (True, 0, [])), BCryptSignHash = (\<lambda>_ _ _. Some ref_raw),
     BCryptVerifySignature = (\<lambda>_ _ sig. sig = ref_raw)\<rparr>"

abbreviation ref_bcrypt_key :: "bytes bcrypt_key" where
  "ref_bcrypt_key \<equiv> (calloc_pair AWS_CAL_ECDSA_P256)\<lparr>impl := \<lparr>ecc_key_handle = Some []\<rparr>\<rparr>"

lemma header_spec_ref: "header_spec ref_cng_ecc"
  by (simp add: header_spec_def ref_cng_ecc_def)

lemma bcrypt_verify_outcome_witness:
  "bcrypt_verify_signature ref_common ref_array_list ref_cng_ecc ref_bcrypt_key (cursor_of [1, 2])
     (cursor_of (signature_doc (replicate 96 1) [1])) = Inl Fatal"
  using bcrypt_verify_outcome [OF common_spec_ref array_list_spec_ref _ cursor_at_cursor_of, of ref_bcrypt_key
      "replicate 96 1" "[1]" "cursor_of [1, 2]" "[1, 2]" _ _ ref_cng_ecc]
  by (simp add: calloc_pair_def leaf_value_def pad_zeros_def aws_ecc_key_coordinate_byte_size_from_curve_name_def)

lemma bcrypt_sign_verify_witness:
  "\<exists>out'. bcrypt_sign_message ref_common ref_array_list ref_cng_ecc ref_bcrypt_key (cursor_of [1, 2]) (empty_out 80) =
      (Inr (), out') \<and>
    bcrypt_verify_signature ref_common ref_array_list ref_cng_ecc ref_bcrypt_key (cursor_of [1, 2])
      (cursor_of (contents out')) = Inr ()"
proof -
  have "room (empty_out 80) = 80" "valid_buf (empty_out 80)" "contents (empty_out 80) = []"
    by (simp_all add: empty_out_def room_def valid_buf_def contents_def)
  then show ?thesis
    using bcrypt_sign_verify [OF common_spec_ref array_list_spec_ref, of ref_bcrypt_key "cursor_of [1, 2]" "[1, 2]"
        ref_cng_ecc "[0, 0] @ replicate 30 0x80" "replicate 32 1" "empty_out 80"]
    by (auto simp: calloc_pair_def ref_cng_ecc_def ref_raw_def bcrypt_signature_length_def
        aws_ecc_key_coordinate_byte_size_from_curve_name_def)
qed

lemma bcrypt_key_from_asn1_witness:
  "\<exists>k. bcrypt_new_from_asn1 ref_common ref_array_list ref_cng_ecc (cursor_of (tree_bytes
        (ec_private_key s_p256_oid (replicate 32 1) (replicate 32 2) (replicate 32 3)))) = Inr k \<and>
     contents (pub_x k) = replicate 32 2 \<and> contents (priv_d k) = replicate 32 1"
proof -
  have "\<exists>k. bcrypt_new_from_asn1 ref_common ref_array_list ref_cng_ecc (cursor_of (tree_bytes
        (ec_private_key s_p256_oid (replicate 32 1) (replicate 32 2) (replicate 32 3)))) = Inr k \<and>
      built_key AWS_CAL_ECDSA_P256 (Some (replicate 32 2)) (Some (replicate 32 3)) (Some (replicate 32 1))
        (key_blob ref_cng_ecc AWS_CAL_ECDSA_P256 (Some (replicate 32 2)) (Some (replicate 32 3)) (Some (replicate 32 1))) k"
    using bcrypt_key_from_asn1 [OF common_spec_ref array_list_spec_ref header_spec_ref,
        of AWS_CAL_ECDSA_P256 s_p256_oid "replicate 32 1" "replicate 32 2" "replicate 32 3"]
    by (simp add: aws_ecc_key_coordinate_byte_size_from_curve_name_def ref_cng_ecc_def)
  then show ?thesis by (auto simp: built_key_def part_or_zeros_def)
qed

end
