(* ===== verification/Openssl_Ecc.thy ===== *)
theory Openssl_Ecc
  imports Ecc_Platform
begin

text \<open>
  Elliptic-curve key pairs over OpenSSL's libcrypto, \<^verbatim>\<open>source/unix/opensslcrypto_ecc.c\<close>. The functions
  of libcrypto are the fields of \<open>ec_api\<close>: \<open>'e\<close> is the type of an EC_KEY, \<open>'p\<close> of a point and \<open>'b\<close> of a
  BIGNUM. The group of a key is a function of the key, so that the functions on points take the
  key. A null EC_KEY is \<open>None\<close>; passing it on to libcrypto dereferences it.
\<close>

section \<open>libcrypto\<close>

datatype nid = NID_X9_62_prime256v1 | NID_secp384r1

text \<open>
  \<open>ECDSA_sign\<close> takes the hash and the size on entry and returns whether it succeeded, the bytes it
  wrote and the size on return. \<open>d2i_ECPrivateKey\<close> returns the key and the number of bytes by which it
  moves the pointer it is given.
\<close>

record ('e, 'p, 'b) ec_api =
  EC_KEY_new_by_curve_name :: "nid \<Rightarrow> 'e option"
  EC_KEY_set_private_key :: "'e \<Rightarrow> 'b \<Rightarrow> bool \<times> 'e"
  EC_KEY_set_public_key :: "'e \<Rightarrow> 'p \<Rightarrow> bool \<times> 'e"
  EC_KEY_generate_key :: "'e \<Rightarrow> bool \<times> 'e"
  EC_KEY_get0_public_key :: "'e \<Rightarrow> 'p"
  EC_KEY_get0_private_key :: "'e \<Rightarrow> 'b"
  EC_POINT_mul :: "'e \<Rightarrow> 'b \<Rightarrow> 'p"
  EC_POINT_get_affine_coordinates_GFp :: "'e \<Rightarrow> 'p \<Rightarrow> ('b \<times> 'b) option"
  EC_POINT_set_affine_coordinates_GFp :: "'e \<Rightarrow> 'b \<Rightarrow> 'b \<Rightarrow> 'p option"
  ECDSA_sign :: "'e \<Rightarrow> bytes \<Rightarrow> nat \<Rightarrow> bool \<times> bytes \<times> nat"
  ECDSA_verify :: "'e \<Rightarrow> bytes \<Rightarrow> bytes \<Rightarrow> int"
  ECDSA_size :: "'e \<Rightarrow> nat"
  d2i_ECPrivateKey :: "bytes \<Rightarrow> ('e \<times> nat) option"
  BN_bin2bn :: "bytes \<Rightarrow> 'b"
  BN_num_bytes :: "'b \<Rightarrow> nat"
  BN_bn2bin :: "'b \<Rightarrow> bytes"

section \<open>Key pairs\<close>

record 'e libcrypto_ecc_key =
  ec_key :: "'e option"

type_synonym 'e ossl_key = "'e libcrypto_ecc_key aws_ecc_key_pair"

definition s_curve_name_to_nid :: "aws_ecc_curve_name \<Rightarrow> nid result" where
  "s_curve_name_to_nid curve = (case curve of
       AWS_CAL_ECDSA_P256 \<Rightarrow> Inr NID_X9_62_prime256v1
     | AWS_CAL_ECDSA_P384 \<Rightarrow> Inr NID_secp384r1
     | Other_curve _ \<Rightarrow> Inl Fatal)"

definition s_key_pair_destroy :: "'e ossl_key \<Rightarrow> 'e clean_up list \<Rightarrow> 'e clean_up list" where
  "s_key_pair_destroy k w = w @ [Clean_up_buf (pub_x k), Clean_up_buf (pub_y k), Clean_up_secure (priv_d k)] @
     free_handle (ec_key (impl k)) @ [Mem_release]"

definition with_ec_key :: "'e ossl_key \<Rightarrow> 'e result" where
  "with_ec_key k = (case ec_key (impl k) of None \<Rightarrow> Inl (Undefined Null_deref) | Some e \<Rightarrow> Inr e)"

definition set_ec_key :: "'e \<Rightarrow> 'e ossl_key \<Rightarrow> 'e ossl_key" where
  "set_ec_key e k = k\<lparr>impl := \<lparr>ec_key = Some e\<rparr>\<rparr>"

text \<open>A length argument of type \<open>int\<close>.\<close>

definition hash_bytes :: "aws_byte_cursor \<Rightarrow> bytes result" where
  "hash_bytes cur = bytes_at (ptr cur) (nat (int_of_size (cur_len cur)))"

text \<open>
  The room of the buffer is passed on in an \<open>unsigned int\<close>, but libcrypto does not read it: it writes
  the whole signature. The size on return is added to the length on failure as well.
\<close>

definition s_sign_payload :: "('e, 'p, 'b) ec_api \<Rightarrow> 'e ossl_key \<Rightarrow> aws_byte_cursor \<Rightarrow> aws_byte_buf \<Rightarrow>
    unit result \<times> aws_byte_buf" where
  "s_sign_payload E k hash signature_output =
     (case rbind (with_ec_key k) (\<lambda>e. rbind (hash_bytes hash) (\<lambda>bs. Inr (e, bs))) of
        Inl f \<Rightarrow> (Inl f, signature_output)
      | Inr (e, bs) \<Rightarrow>
          (case ECDSA_sign E e bs (ulong (buf_room signature_output)) of
             (ok, written, signature_size) \<Rightarrow>
               (case poke signature_output written of
                  Inl f \<Rightarrow> (Inl f, signature_output)
                | Inr out \<Rightarrow> (if ok then Inr () else Inl (Raised AWS_ERROR_INVALID_ARGUMENT),
                             add_len signature_size out))))"

definition s_verify_payload :: "('e, 'p, 'b) ec_api \<Rightarrow> 'e ossl_key \<Rightarrow> aws_byte_cursor \<Rightarrow> aws_byte_cursor \<Rightarrow>
    unit result" where
  "s_verify_payload E k hash signature =
     rbind (with_ec_key k) (\<lambda>e.
     rbind (hash_bytes hash) (\<lambda>bs.
     rbind (hash_bytes signature) (\<lambda>sig.
       if ECDSA_verify E e bs sig = 1 then Inr ()
       else Inl (Raised AWS_ERROR_CAL_SIGNATURE_VALIDATION_FAILED))))"

definition s_signature_length :: "('e, 'p, 'b) ec_api \<Rightarrow> 'e ossl_key \<Rightarrow> nat" where
  "s_signature_length E k = (case ec_key (impl k) of None \<Rightarrow> 0 | Some e \<Rightarrow> ECDSA_size E e)"

text \<open>Storing a number in a buffer that was allocated for it.\<close>

definition store_number :: "('e, 'p, 'b) ec_api \<Rightarrow> 'b \<Rightarrow> aws_byte_buf \<Rightarrow> aws_byte_buf result" where
  "store_number E b buf = rbind (poke buf (BN_bn2bin E b)) (\<lambda>buf. Inr (buf\<lparr>buf_len := BN_num_bytes E b\<rparr>))"

definition s_fill_in_public_key_info :: "aws_common \<Rightarrow> ('e, 'p, 'b) ec_api \<Rightarrow> 'e \<Rightarrow> 'p \<Rightarrow> 'e ossl_key \<Rightarrow>
    unit result \<times> 'e ossl_key" where
  "s_fill_in_public_key_info C E e pub_key_point k =
     (case EC_POINT_get_affine_coordinates_GFp E e pub_key_point of
        None \<Rightarrow> (Inl (Raised AWS_ERROR_INVALID_STATE), k)
      | Some (big_num_x, big_num_y) \<Rightarrow> (case aws_byte_buf_init C (BN_num_bytes E big_num_x) of
            Inl f \<Rightarrow> (Inl f, k)
          | Inr b \<Rightarrow> (case aws_byte_buf_init C (BN_num_bytes E big_num_y) of
                Inl f \<Rightarrow> (Inl f, k\<lparr>pub_x := b\<rparr>)
              | Inr b' \<Rightarrow>
                  (case rbind (store_number E big_num_x b) (\<lambda>x.
                        rbind (store_number E big_num_y b') (\<lambda>y. Inr (x, y))) of
                     Inl f \<Rightarrow> (Inl f, k\<lparr>pub_x := b, pub_y := b'\<rparr>)
                   | Inr (x, y) \<Rightarrow> (Inr (), k\<lparr>pub_x := x, pub_y := y\<rparr>)))))"

definition ossl_derive_public_key :: "aws_common \<Rightarrow> ('e, 'p, 'b) ec_api \<Rightarrow> 'e ossl_key \<Rightarrow>
    unit result \<times> 'e ossl_key" where
  "ossl_derive_public_key C E k =
     (if buffer (priv_d k) = None then (Inl (Raised AWS_ERROR_INVALID_STATE), k)
      else if buf_len (pub_x k) \<noteq> 0 then (Inr (), k)
      else (case rbind (hash_bytes (aws_byte_cursor_from_buf (priv_d k))) (\<lambda>d.
                   rbind (with_ec_key k) (\<lambda>e. Inr (e, EC_POINT_mul E e (BN_bin2bn E d)))) of
              Inl f \<Rightarrow> (Inl f, k)
            | Inr (e, point) \<Rightarrow> (case EC_KEY_set_public_key E e point of
                  (_, e') \<Rightarrow> s_fill_in_public_key_info C E e' point (set_ec_key e' k))))"

definition ossl_ecc_vtable :: "aws_common \<Rightarrow> ('e, 'p, 'b) ec_api \<Rightarrow>
    ('e ossl_key, 'e clean_up list) aws_ecc_key_pair_vtable" where
  "ossl_ecc_vtable C E = \<lparr>vt_destroy = Some s_key_pair_destroy,
     vt_derive_pub_key = Some (ossl_derive_public_key C E), vt_sign_message = Some (s_sign_payload E),
     vt_verify_signature = Some (s_verify_payload E), vt_signature_length = Some (s_signature_length E)\<rparr>"

section \<open>Constructors\<close>

definition calloc_key :: "aws_common \<Rightarrow> ('e, 'p, 'b) ec_api \<Rightarrow> aws_ecc_curve_name \<Rightarrow> 'e ossl_key result" where
  "calloc_key C E curve =
     (if \<not> aws_mem_acquire_ok C then Inl Fatal
      else rbind (s_curve_name_to_nid curve) (\<lambda>nid.
        Inr \<lparr>ref_count = 1, curve_name = curve, key_buf = zero_buf, pub_x = zero_buf, pub_y = zero_buf,
             priv_d = zero_buf, impl = \<lparr>ec_key = EC_KEY_new_by_curve_name E nid\<rparr>\<rparr>))"

definition ossl_new_from_private_key_impl :: "aws_common \<Rightarrow> ('e, 'p, 'b) ec_api \<Rightarrow> aws_ecc_curve_name \<Rightarrow>
    aws_byte_cursor \<Rightarrow> 'e ossl_key result" where
  "ossl_new_from_private_key_impl C E curve priv_key =
     (if cur_len priv_key \<noteq> coord_size curve
      then Inl (Raised AWS_ERROR_CAL_INVALID_KEY_LENGTH_FOR_ALGORITHM)
      else rbind (calloc_key C E curve) (\<lambda>k.
        rbind (copy_cursor C priv_key) (\<lambda>d.
        rbind (hash_bytes (aws_byte_cursor_from_buf d)) (\<lambda>bs.
        rbind (with_ec_key k) (\<lambda>e. case EC_KEY_set_private_key E e (BN_bin2bn E bs) of
            (False, _) \<Rightarrow> Inl (Raised AWS_ERROR_INVALID_ARGUMENT)
          | (True, e') \<Rightarrow> Inr (set_ec_key e' (k\<lparr>priv_d := d\<rparr>)))))))"

text \<open>A failed key generation returns NULL without raising an error.\<close>

definition ossl_new_generate_random :: "aws_common \<Rightarrow> ('e, 'p, 'b) ec_api \<Rightarrow> aws_ecc_curve_name \<Rightarrow>
    'e ossl_key result" where
  "ossl_new_generate_random C E curve =
     rbind (calloc_key C E curve) (\<lambda>k.
     rbind (with_ec_key k) (\<lambda>e. case EC_KEY_generate_key E e of
         (False, _) \<Rightarrow> Inl (Raised AWS_ERROR_SUCCESS)
       | (True, e') \<Rightarrow>
           rbind (aws_byte_buf_init C (BN_num_bytes E (EC_KEY_get0_private_key E e'))) (\<lambda>d.
           rbind (store_number E (EC_KEY_get0_private_key E e') d) (\<lambda>d.
           case s_fill_in_public_key_info C E e' (EC_KEY_get0_public_key E e')
                  (set_ec_key e' (k\<lparr>priv_d := d\<rparr>)) of
             (Inl f, _) \<Rightarrow> Inl f
           | (Inr _, k') \<Rightarrow> Inr k'))))"

text \<open>\<open>aws_byte_buf_init_copy_from_cursor\<close> with its result tested.\<close>

definition init_copy_from_cursor :: "aws_common \<Rightarrow> aws_byte_cursor \<Rightarrow> aws_byte_buf result" where
  "init_copy_from_cursor C cur = rbind (bytes_at (ptr cur) (cur_len cur)) (aws_byte_buf_init_copy C)"

text \<open>Coordinates that libcrypto refuses lead to NULL without an error.\<close>

definition ossl_new_from_public_key_impl :: "aws_common \<Rightarrow> ('e, 'p, 'b) ec_api \<Rightarrow> aws_ecc_curve_name \<Rightarrow>
    aws_byte_cursor \<Rightarrow> aws_byte_cursor \<Rightarrow> 'e ossl_key result" where
  "ossl_new_from_public_key_impl C E curve public_key_x public_key_y =
     rbind (calloc_key C E curve) (\<lambda>k.
     rbind (init_copy_from_cursor C public_key_x) (\<lambda>x.
     rbind (init_copy_from_cursor C public_key_y) (\<lambda>y.
     rbind (hash_bytes public_key_x) (\<lambda>xs.
     rbind (hash_bytes public_key_y) (\<lambda>ys.
     rbind (with_ec_key k) (\<lambda>e.
       case EC_POINT_set_affine_coordinates_GFp E e (BN_bin2bn E xs) (BN_bin2bn E ys) of
         None \<Rightarrow> Inl (Raised AWS_ERROR_SUCCESS)
       | Some point \<Rightarrow> (case EC_KEY_set_public_key E e point of
             (False, _) \<Rightarrow> Inl (Raised AWS_ERROR_SUCCESS)
           | (True, e') \<Rightarrow> Inr (set_ec_key e' (k\<lparr>pub_x := x, pub_y := y\<rparr>)))))))))"

definition copy_if_present :: "aws_common \<Rightarrow> aws_byte_cursor \<Rightarrow> aws_byte_buf result" where
  "copy_if_present C cur = (if ptr cur \<noteq> None then init_copy_from_cursor C cur else Inr zero_buf)"

text \<open>
  With a private key libcrypto parses the document itself, through the pointer of the caller's
  cursor: the second result is the cursor after the call. \<open>new_from_public_key\<close> is the function
  installed for public keys.
\<close>

definition ossl_new_from_asn1 :: "aws_common \<Rightarrow> der_tlv array_list_ops \<Rightarrow> ('e, 'p, 'b) ec_api \<Rightarrow>
    (aws_ecc_curve_name \<Rightarrow> aws_byte_cursor \<Rightarrow> aws_byte_cursor \<Rightarrow> 'e ossl_key result) \<Rightarrow>
    aws_byte_cursor \<Rightarrow> 'e ossl_key result \<times> aws_byte_cursor" where
  "ossl_new_from_asn1 C L E new_from_public_key encoded_keys =
     (case rbind (aws_der_decoder_new C L encoded_keys) (aws_der_decoder_load_ecc_key_pair C L) of
        Inl f \<Rightarrow> (Inl f, encoded_keys)
      | Inr p \<Rightarrow>
          if ptr (out_private_d p) = None
          then (new_from_public_key (out_curve_name p) (out_public_x_coor p) (out_public_y_coor p), encoded_keys)
          else if \<not> aws_mem_acquire_ok C then (Inl Fatal, encoded_keys)
          else (case bytes_at (ptr encoded_keys) (cur_len encoded_keys) of
              Inl f \<Rightarrow> (Inl f, encoded_keys)
            | Inr doc \<Rightarrow> (case d2i_ECPrivateKey E doc of
                  None \<Rightarrow> (Inl (Raised AWS_ERROR_CAL_MISSING_REQUIRED_KEY_COMPONENT), encoded_keys)
                | Some (e, consumed) \<Rightarrow>
                    (rbind (copy_if_present C (out_public_x_coor p)) (\<lambda>x.
                     rbind (copy_if_present C (out_public_y_coor p)) (\<lambda>y.
                     rbind (copy_if_present C (out_private_d p)) (\<lambda>d.
                       Inr \<lparr>ref_count = 1, curve_name = out_curve_name p, key_buf = zero_buf, pub_x = x,
                            pub_y = y, priv_d = d, impl = \<lparr>ec_key = Some e\<rparr>\<rparr>))),
                     encoded_keys\<lparr>ptr := ptr_add (ptr encoded_keys) consumed\<rparr>))))"

end
