(* ===== verification/Openssl_Ecc_Spec.thy ===== *)
theory Openssl_Ecc_Spec
  imports Openssl_Ecc
begin

text \<open>
  Properties of key pairs over OpenSSL: what signing writes and where, the numbers a derived or
  generated key exports, and when an exported private key can be imported again.
\<close>

section \<open>Numbers\<close>

text \<open>BIGNUMs stand for natural numbers; \<open>BN_bn2bin\<close> writes them without leading zero bytes.\<close>

definition bn_spec :: "('e, 'p, 'b) ec_api \<Rightarrow> ('b \<Rightarrow> nat) \<Rightarrow> bool" where
  "bn_spec E val \<longleftrightarrow>
     (\<forall>b. be_nat (BN_bn2bin E b) = val b \<and> length (BN_bn2bin E b) = BN_num_bytes E b \<and>
        (BN_bn2bin E b \<noteq> [] \<longrightarrow> hd (BN_bn2bin E b) \<noteq> 0)) \<and>
     (\<forall>bs. val (BN_bin2bn E bs) = be_nat bs)"

lemma num_bytes_full:
  assumes "bn_spec E val" and "val b < 256 ^ n" and "0 < n"
  shows "BN_num_bytes E b \<le> n" and "BN_num_bytes E b = n \<longleftrightarrow> 256 ^ (n - 1) \<le> val b"
proof -
  let ?bs = "BN_bn2bin E b"
  have bs: "be_nat ?bs = val b" "length ?bs = BN_num_bytes E b" "?bs \<noteq> [] \<Longrightarrow> hd ?bs \<noteq> 0"
    using assms(1) by (auto simp: bn_spec_def)
  have low: "256 ^ (BN_num_bytes E b - 1) \<le> val b" if "0 < BN_num_bytes E b"
  proof -
    have "?bs \<noteq> []" using bs(2) that by auto
    from be_nat_lower [OF this bs(3) [OF this]] bs(1,2) show ?thesis by simp
  qed
  show le: "BN_num_bytes E b \<le> n"
  proof (rule ccontr)
    assume a: "\<not> BN_num_bytes E b \<le> n"
    then have pow: "(256 :: nat) ^ n \<le> 256 ^ (BN_num_bytes E b - 1)" by (intro power_increasing) auto
    have "0 < BN_num_bytes E b" using a by simp
    from low [OF this] pow assms(2) show False by linarith
  qed
  show "BN_num_bytes E b = n \<longleftrightarrow> 256 ^ (n - 1) \<le> val b"
  proof
    assume "BN_num_bytes E b = n"
    with low assms(3) show "256 ^ (n - 1) \<le> val b" by auto
  next
    assume a: "256 ^ (n - 1) \<le> val b"
    show "BN_num_bytes E b = n"
    proof (rule ccontr)
      assume "BN_num_bytes E b \<noteq> n"
      with le have "(256 :: nat) ^ BN_num_bytes E b \<le> 256 ^ (n - 1)" by (intro power_increasing) auto
      moreover have "val b < 256 ^ BN_num_bytes E b" using be_nat_bound [of ?bs] bs(1,2) by simp
      ultimately show False using a by linarith
    qed
  qed
qed

lemma store_number_ok:
  assumes C: "common_spec C" and bn: "bn_spec E val" and n: "BN_num_bytes E b \<le> 2 ^ 16"
  shows "\<exists>buf x. aws_byte_buf_init C (BN_num_bytes E b) = Inr buf \<and> store_number E b buf = Inr x \<and>
    valid_buf x \<and> contents x = BN_bn2bin E b \<and> buf_len x = BN_num_bytes E b"
proof -
  have len: "length (BN_bn2bin E b) = BN_num_bytes E b" using bn by (simp add: bn_spec_def)
  have "BN_num_bytes E b \<le> SIZE_MAX div 2" using n by simp
  then obtain buf where buf: "aws_byte_buf_init C (BN_num_bytes E b) = Inr buf" "fresh_buf (BN_num_bytes E b) buf"
    using init_law [OF C] by blast
  then have v: "valid_buf buf" "room buf = BN_num_bytes E b" "contents buf = []" "buf_len buf = 0"
    by (auto simp: fresh_buf_def room_def contents_def split: option.splits)
  obtain b1 where b1: "poke buf (BN_bn2bin E b) = Inr b1"
      "appends buf (BN_bn2bin E b) (Some (add_len (BN_num_bytes E b) b1))" "buf_len b1 = buf_len buf"
    using poke_appends [OF v(1), of "BN_bn2bin E b"] v(2) len by auto
  then have "b1\<lparr>buf_len := BN_num_bytes E b\<rparr> = add_len (BN_num_bytes E b) b1" using v(4) by (simp add: add_len_def)
  with b1(1,2) buf(1) v(3,4) show ?thesis by (simp add: store_number_def appends_def len)
qed

lemma fill_in_public_key_ok:
  assumes C: "common_spec C" and bn: "bn_spec E val"
    and p: "EC_POINT_get_affine_coordinates_GFp E e point = Some (bx, by')"
    and n: "BN_num_bytes E bx \<le> 2 ^ 16" "BN_num_bytes E by' \<le> 2 ^ 16"
  shows "\<exists>x y. s_fill_in_public_key_info C E e point k = (Inr (), k\<lparr>pub_x := x, pub_y := y\<rparr>) \<and>
    contents x = BN_bn2bin E bx \<and> contents y = BN_bn2bin E by' \<and> buf_len x = BN_num_bytes E bx \<and>
    valid_buf x \<and> valid_buf y"
proof -
  obtain b x where x: "aws_byte_buf_init C (BN_num_bytes E bx) = Inr b" "store_number E bx b = Inr x" "valid_buf x"
      "contents x = BN_bn2bin E bx" "buf_len x = BN_num_bytes E bx"
    using store_number_ok [OF C bn n(1)] by blast
  obtain b' y where y: "aws_byte_buf_init C (BN_num_bytes E by') = Inr b'" "store_number E by' b' = Inr y" "valid_buf y"
      "contents y = BN_bn2bin E by'"
    using store_number_ok [OF C bn n(2)] by blast
  show ?thesis
    by (rule exI [where x = x], rule exI [where x = y]) (simp add: s_fill_in_public_key_info_def p x y)
qed

section \<open>Properties\<close>

lemma hash_bytes_small:
  "bytes_at (ptr cur) (cur_len cur) = Inr bs \<Longrightarrow> cur_len cur < 2 ^ 31 \<Longrightarrow> hash_bytes cur = Inr bs"
  by (simp add: hash_bytes_def)

lemma ossl_sign_fits:
  assumes e: "ec_key (impl k) = Some e" and hash: "bytes_at (ptr hash) (cur_len hash) = Inr bs" "cur_len hash < 2 ^ 31"
    and out: "valid_buf out" "room out < 2 ^ 32" and sign: "ECDSA_sign E e bs (room out) = (True, sig, length sig)"
    and fit: "length sig \<le> room out"
  shows "\<exists>out'. s_sign_payload E k hash out = (Inr (), out') \<and> appends out sig (Some out')"
proof -
  obtain b1 where "poke out sig = Inr b1" "appends out sig (Some (add_len (length sig) b1))"
    by (rule poke_appends [OF out(1) fit])
  with e hash_bytes_small [OF hash] out sign show ?thesis by (simp add: s_sign_payload_def with_ec_key_def ulong_def)
qed

lemma ossl_verify_bytes:
  assumes "ec_key (impl k) = Some e" and "bytes_at (ptr hash) (cur_len hash) = Inr bs" "cur_len hash < 2 ^ 31"
    and "bytes_at (ptr cur) (cur_len cur) = Inr sig" "cur_len cur < 2 ^ 31"
  shows "s_verify_payload E k hash cur = (if ECDSA_verify E e bs sig = 1 then Inr ()
    else Inl (Raised AWS_ERROR_CAL_SIGNATURE_VALIDATION_FAILED))"
  using assms(1) hash_bytes_small [OF assms(2,3)] hash_bytes_small [OF assms(4,5)] by (simp add: s_verify_payload_def with_ec_key_def)

text \<open>
  Claim C28. Signing over OpenSSL appends the signature that libcrypto writes, and verifying hands the
  same bytes to libcrypto. The room of the buffer is never compared with the size of a signature: a
  signature longer than the room is written past the end of the buffer. When libcrypto fails, the
  size it left behind is added to the length of the buffer.
\<close>

theorem ossl_sign_outcome:
  assumes e: "ec_key (impl k) = Some e" and hash: "bytes_at (ptr hash) (cur_len hash) = Inr bs" "cur_len hash < 2 ^ 31"
    and out: "valid_buf out" "room out < 2 ^ 32" and sign: "ECDSA_sign E e bs (room out) = (ok, sig, sz)"
  shows "(ok \<and> sz = length sig \<and> length sig \<le> room out \<longrightarrow>
      (\<exists>out'. s_sign_payload E k hash out = (Inr (), out') \<and> valid_buf out' \<and> contents out' = contents out @ sig \<and>
        (\<forall>cur. bytes_at (ptr cur) (cur_len cur) = Inr sig \<and> cur_len cur < 2 ^ 31 \<longrightarrow>
           s_verify_payload E k hash cur = (if ECDSA_verify E e bs sig = 1 then Inr ()
             else Inl (Raised AWS_ERROR_CAL_SIGNATURE_VALIDATION_FAILED))))) \<and>
    (room out < length sig \<and> buffer out \<noteq> None \<longrightarrow>
      s_sign_payload E k hash out = (Inl (Undefined Out_of_bounds), out)) \<and>
    (\<not> ok \<and> sig = [] \<longrightarrow>
      s_sign_payload E k hash out = (Inl (Raised AWS_ERROR_INVALID_ARGUMENT), add_len sz out))"
proof -
  have run: "s_sign_payload E k hash out = (case poke out sig of
      Inl f \<Rightarrow> (Inl f, out)
    | Inr out' \<Rightarrow> (if ok then Inr () else Inl (Raised AWS_ERROR_INVALID_ARGUMENT), add_len sz out'))"
    using e hash_bytes_small [OF hash] out sign by (simp add: s_sign_payload_def with_ec_key_def ulong_def)
  note verify = ossl_verify_bytes [OF e hash, of _ sig E]
  have fits: "\<exists>out'. s_sign_payload E k hash out = (Inr (), out') \<and> valid_buf out' \<and> contents out' = contents out @ sig"
    if "ok" "sz = length sig" "length sig \<le> room out"
    using ossl_sign_fits [OF e hash out, of E sig] sign that by (auto simp: appends_def)
  have over: "poke out sig = Inl (Undefined Out_of_bounds)" if "room out < length sig" "buffer out \<noteq> None"
    using that out(1) by (auto simp: poke_def room_def valid_buf_def)
  show ?thesis using fits verify over by (auto simp: run poke_def)
qed

lemma curve_nid_size:
  assumes "s_curve_name_to_nid c = Inr nid"
  shows "0 < coord_size c" and "coord_size c \<le> 48"
  using assms by (auto simp: s_curve_name_to_nid_def aws_ecc_key_coordinate_byte_size_from_curve_name_def
      split: aws_ecc_curve_name.splits)

lemma import_private_key:
  assumes C: "common_spec C" and nid: "s_curve_name_to_nid c = Inr nid" and new: "EC_KEY_new_by_curve_name E nid = Some e"
    and d: "bytes_at (ptr cur) (cur_len cur) = Inr d" "length d = coord_size c"
    and set: "EC_KEY_set_private_key E e (BN_bin2bn E d) = (True, e1)"
  shows "\<exists>db. ossl_new_from_private_key_impl C E c cur = Inr \<lparr>ref_count = 1, curve_name = c, key_buf = zero_buf,
      pub_x = zero_buf, pub_y = zero_buf, priv_d = db, impl = \<lparr>ec_key = Some e1\<rparr>\<rparr> \<and>
    contents db = d \<and> buffer db = Some d \<and> hash_bytes (aws_byte_cursor_from_buf db) = Inr d"
proof -
  note n = curve_nid_size [OF nid]
  have len: "cur_len cur = coord_size c" using bytes_at_length [OF d(1)] d(2) by simp
  have "length d \<le> SIZE_MAX div 2" "d \<noteq> []" using d(2) n by auto
  with copied [OF C d(1)] obtain db where db: "copy_cursor C cur = Inr db" "valid_buf db" "contents db = d"
      "buffer db = Some d" "buf_len db = length d" by blast
  have hb: "hash_bytes (aws_byte_cursor_from_buf db) = Inr d"
    using bytes_at_from_buf [OF db(2)] db(3,5) d(2) n by (intro hash_bytes_small) (simp_all add: aws_byte_cursor_from_buf_def)
  have "ossl_new_from_private_key_impl C E c cur = Inr \<lparr>ref_count = 1, curve_name = c, key_buf = zero_buf,
      pub_x = zero_buf, pub_y = zero_buf, priv_d = db, impl = \<lparr>ec_key = Some e1\<rparr>\<rparr>"
    using C nid new db(1) hb set(1) len
    by (simp add: ossl_new_from_private_key_impl_def calloc_key_def with_ec_key_def set_ec_key_def)
  with db(3,4) hb show ?thesis by blast
qed

text \<open>
  A key made from a private key over OpenSSL has no public key until it is derived. Deriving
  stores the coordinates of the point that libcrypto computes, as numbers: each is shorter than a
  coordinate of the curve exactly when its first byte would be zero. Deriving again changes nothing.
\<close>

theorem ossl_derived_key:
  assumes C: "common_spec C" and bn: "bn_spec E val" and nid: "s_curve_name_to_nid c = Inr nid"
    and new: "EC_KEY_new_by_curve_name E nid = Some e" and d: "bytes_at (ptr cur) (cur_len cur) = Inr d" "length d = coord_size c"
    and set: "EC_KEY_set_private_key E e (BN_bin2bn E d) = (True, e1)"
      "EC_KEY_set_public_key E e1 (EC_POINT_mul E e1 (BN_bin2bn E d)) = (ok, e2)"
    and p: "EC_POINT_get_affine_coordinates_GFp E e2 (EC_POINT_mul E e1 (BN_bin2bn E d)) = Some (bx, b')"
    and b: "0 < val bx" "val bx < 256 ^ coord_size c" "val b' < 256 ^ coord_size c"
  shows "\<exists>k k'. ossl_new_from_private_key_impl C E c cur = Inr k \<and> contents (priv_d k) = d \<and> contents (pub_x k) = [] \<and>
    ossl_derive_public_key C E k = (Inr (), k') \<and> ec_key (impl k') = Some e2 \<and> contents (priv_d k') = d \<and>
    be_nat (contents (pub_x k')) = val bx \<and> be_nat (contents (pub_y k')) = val b' \<and>
    length (contents (pub_x k')) \<le> coord_size c \<and>
    (length (contents (pub_x k')) = coord_size c \<longleftrightarrow> 256 ^ (coord_size c - 1) \<le> val bx) \<and>
    ossl_derive_public_key C E k' = (Inr (), k')"
proof -
  note n = curve_nid_size [OF nid]
  obtain db where db: "ossl_new_from_private_key_impl C E c cur = Inr \<lparr>ref_count = 1, curve_name = c, key_buf = zero_buf,
      pub_x = zero_buf, pub_y = zero_buf, priv_d = db, impl = \<lparr>ec_key = Some e1\<rparr>\<rparr>"
      "contents db = d" "buffer db = Some d" "hash_bytes (aws_byte_cursor_from_buf db) = Inr d"
    using import_private_key [OF C nid new d set(1)] by blast
  define k :: "'a ossl_key" where "k = \<lparr>ref_count = 1, curve_name = c, key_buf = zero_buf, pub_x = zero_buf,
    pub_y = zero_buf, priv_d = db, impl = \<lparr>ec_key = Some e1\<rparr>\<rparr>"
  have k: "ossl_new_from_private_key_impl C E c cur = Inr k" using db(1) by (simp add: k_def)
  have num: "BN_num_bytes E bx \<le> coord_size c" "BN_num_bytes E b' \<le> coord_size c"
      "BN_num_bytes E bx = coord_size c \<longleftrightarrow> 256 ^ (coord_size c - 1) \<le> val bx"
    using num_bytes_full [OF bn b(2) n(1)] num_bytes_full(1) [OF bn b(3) n(1)] by simp_all
  obtain x y where xy: "s_fill_in_public_key_info C E e2 (EC_POINT_mul E e1 (BN_bin2bn E d)) (set_ec_key e2 k) =
      (Inr (), (set_ec_key e2 k)\<lparr>pub_x := x, pub_y := y\<rparr>)" "contents x = BN_bn2bin E bx" "contents y = BN_bn2bin E b'"
      "buf_len x = BN_num_bytes E bx"
  proof -
    have "BN_num_bytes E bx \<le> 2 ^ 16" "BN_num_bytes E b' \<le> 2 ^ 16" using num n by simp_all
    with fill_in_public_key_ok [OF C bn p, of "set_ec_key e2 k"] that show ?thesis by blast
  qed
  have vals: "be_nat (BN_bn2bin E bx) = val bx" "be_nat (BN_bn2bin E b') = val b'"
      "length (BN_bn2bin E bx) = BN_num_bytes E bx"
    using bn by (simp_all add: bn_spec_def)
  have num0: "BN_num_bytes E bx \<noteq> 0" using vals(1,3) b(1) by (cases "BN_bn2bin E bx") auto
  define k' where "k' = (set_ec_key e2 k)\<lparr>pub_x := x, pub_y := y\<rparr>"
  have derive: "ossl_derive_public_key C E k = (Inr (), k')"
    using db(3,4) set(2) xy(1)
    by (simp add: ossl_derive_public_key_def k_def with_ec_key_def set_ec_key_def zero_buf_def k'_def)
  have again: "ossl_derive_public_key C E k' = (Inr (), k')"
    using db(3) xy(4) num0 by (simp add: ossl_derive_public_key_def k'_def set_ec_key_def k_def)
  have f: "contents (priv_d k) = d" "contents (pub_x k) = []" "ec_key (impl k') = Some e2" "contents (priv_d k') = d"
      "contents (pub_x k') = BN_bn2bin E bx" "contents (pub_y k') = BN_bn2bin E b'"
    using db(2) xy(2,3) by (simp_all add: k_def k'_def set_ec_key_def zero_buf_def contents_def)
  show ?thesis
    by (rule exI [where x = k], rule exI [where x = k']) (simp add: k derive again f vals num)
qed

text \<open>
  Claim C29. A generated key over OpenSSL exports its private key as a number. Importing what it exports
  works when the number has as many bytes as a coordinate and fails with
  AWS_ERROR_CAL_INVALID_KEY_LENGTH_FOR_ALGORITHM otherwise, so that the keys with a leading zero byte
  cannot be imported again.
\<close>

theorem ossl_generated_key:
  assumes C: "common_spec C" and bn: "bn_spec E val" and nid: "s_curve_name_to_nid c = Inr nid"
    and new: "EC_KEY_new_by_curve_name E nid = Some e" and gen: "EC_KEY_generate_key E e = (True, e1)"
    and p: "EC_POINT_get_affine_coordinates_GFp E e1 (EC_KEY_get0_public_key E e1) = Some (bx, b')"
    and d: "d = EC_KEY_get0_private_key E e1"
    and b: "val d < 256 ^ coord_size c" "val bx < 256 ^ coord_size c" "val b' < 256 ^ coord_size c"
    and set: "EC_KEY_set_private_key E e (BN_bin2bn E (BN_bn2bin E d)) = (True, e2)"
  shows "\<exists>k. ossl_new_generate_random C E c = Inr k \<and> ref_count k = 1 \<and> ec_key (impl k) = Some e1 \<and>
    be_nat (contents (priv_d k)) = val d \<and> be_nat (contents (pub_x k)) = val bx \<and> be_nat (contents (pub_y k)) = val b' \<and>
    (if 256 ^ (coord_size c - 1) \<le> val d
     then \<exists>k'. ossl_new_from_private_key_impl C E c (aws_ecc_key_pair_get_private_key k) = Inr k' \<and>
            ec_key (impl k') = Some e2 \<and> contents (priv_d k') = contents (priv_d k)
     else ossl_new_from_private_key_impl C E c (aws_ecc_key_pair_get_private_key k) =
            Inl (Raised AWS_ERROR_CAL_INVALID_KEY_LENGTH_FOR_ALGORITHM))"
proof -
  note n = curve_nid_size [OF nid]
  have num: "BN_num_bytes E d \<le> 2 ^ 16" "BN_num_bytes E bx \<le> 2 ^ 16" "BN_num_bytes E b' \<le> 2 ^ 16"
    using num_bytes_full(1) [OF bn b(1) n(1)] num_bytes_full(1) [OF bn b(2) n(1)] num_bytes_full(1) [OF bn b(3) n(1)] n(2)
    by simp_all
  obtain buf db where db: "aws_byte_buf_init C (BN_num_bytes E d) = Inr buf" "store_number E d buf = Inr db"
      "valid_buf db" "contents db = BN_bn2bin E d" "buf_len db = BN_num_bytes E d"
    using store_number_ok [OF C bn num(1)] by blast
  define k0 :: "'a ossl_key" where "k0 = \<lparr>ref_count = 1, curve_name = c, key_buf = zero_buf, pub_x = zero_buf,
    pub_y = zero_buf, priv_d = db, impl = \<lparr>ec_key = Some e1\<rparr>\<rparr>"
  obtain x y where xy: "s_fill_in_public_key_info C E e1 (EC_KEY_get0_public_key E e1) k0 =
      (Inr (), k0\<lparr>pub_x := x, pub_y := y\<rparr>)" "contents x = BN_bn2bin E bx" "contents y = BN_bn2bin E b'"
    using fill_in_public_key_ok [OF C bn p num(2,3), of k0] by blast
  define k where "k = k0\<lparr>pub_x := x, pub_y := y\<rparr>"
  have run: "ossl_new_generate_random C E c = Inr k"
    using C nid new gen db(1,2) xy(1)
    by (simp add: ossl_new_generate_random_def calloc_key_def with_ec_key_def set_ec_key_def k0_def k_def d)
  have vals: "be_nat (BN_bn2bin E b) = val b" "length (BN_bn2bin E b) = BN_num_bytes E b" for b
    using bn by (simp_all add: bn_spec_def)
  have priv: "aws_ecc_key_pair_get_private_key k = aws_byte_cursor_from_buf db"
    by (simp add: aws_ecc_key_pair_get_private_key_def k_def k0_def)
  have f: "ref_count k = 1" "ec_key (impl k) = Some e1" "contents (priv_d k) = BN_bn2bin E d"
      "contents (pub_x k) = BN_bn2bin E bx" "contents (pub_y k) = BN_bn2bin E b'"
    using db(4) xy(2,3) by (simp_all add: k_def k0_def)
  show ?thesis
  proof (cases "256 ^ (coord_size c - 1) \<le> val d")
    case True
    then have full: "length (BN_bn2bin E d) = coord_size c" using num_bytes_full(2) [OF bn b(1) n(1)] vals(2) by simp
    have "bytes_at (ptr (aws_byte_cursor_from_buf db)) (cur_len (aws_byte_cursor_from_buf db)) = Inr (BN_bn2bin E d)"
      using bytes_at_from_buf [OF db(3)] db(4) by simp
    from import_private_key [OF C nid new this full set] True show ?thesis
      by (auto simp: run f vals priv)
  next
    case False
    then have "cur_len (aws_byte_cursor_from_buf db) \<noteq> coord_size c"
      using num_bytes_full(2) [OF bn b(1) n(1)] db(5) by (simp add: aws_byte_cursor_from_buf_def)
    with False show ?thesis by (simp add: run f vals priv ossl_new_from_private_key_impl_def)
  qed
qed

section \<open>An instance of libcrypto\<close>

text \<open>
  Numbers are byte strings without leading zeros, an EC_KEY holds a private number and a point, and
  the multiple of the base point by a number has that number as both coordinates.
\<close>

definition strip :: "bytes \<Rightarrow> bytes" where
  "strip bs = dropWhile (\<lambda>b. b = 0) bs"

typedef ref_bn = "{bs :: bytes. bs = [] \<or> hd bs \<noteq> 0}"
  morphisms bn_bytes Abs_bn
  by (rule exI [where x = "[]"]) simp

definition bn_of :: "bytes \<Rightarrow> ref_bn" where
  "bn_of bs = Abs_bn (strip bs)"

lemma strip_hd: "strip bs = [] \<or> hd (strip bs) \<noteq> 0"
  using hd_dropWhile [of "\<lambda>b. b = 0" bs] by (auto simp: strip_def)

lemma be_nat_strip: "be_nat (strip bs) = be_nat bs"
  by (induction bs) (auto simp: strip_def)

lemma bn_bytes_of [simp]: "bn_bytes (bn_of bs) = strip bs"
  using strip_hd [of bs] by (simp add: bn_of_def Abs_bn_inverse)

definition ref_ec :: "(ref_bn \<times> ref_bn, ref_bn, ref_bn) ec_api" where
  "ref_ec = \<lparr>EC_KEY_new_by_curve_name = (\<lambda>_. Some (bn_of [], bn_of [])),
     EC_KEY_set_private_key = (\<lambda>(_, p) b. (True, (b, p))), EC_KEY_set_public_key = (\<lambda>(b, _) p. (True, (b, p))),
     EC_KEY_generate_key = (\<lambda>_. (True, (bn_of [7], bn_of [7]))), EC_KEY_get0_public_key = snd,
     EC_KEY_get0_private_key = fst, EC_POINT_mul = (\<lambda>_ b. b),
     EC_POINT_get_affine_coordinates_GFp = (\<lambda>_ p. Some (p, p)),
     EC_POINT_set_affine_coordinates_GFp = (\<lambda>_ x _. Some x),
     ECDSA_sign = (\<lambda>_ bs _. (True, bs, length bs)), ECDSA_verify = (\<lambda>_ bs sig. if bs = sig then 1 else 0),
     ECDSA_size = (\<lambda>_. 72), d2i_ECPrivateKey = (\<lambda>bs. Some ((bn_of bs, bn_of bs), length bs)),
     BN_bin2bn = bn_of, BN_num_bytes = (\<lambda>b. length (bn_bytes b)), BN_bn2bin = bn_bytes\<rparr>"

lemma bn_spec_ref: "bn_spec ref_ec (\<lambda>b. be_nat (bn_bytes b))"
  using bn_bytes by (auto simp: bn_spec_def ref_ec_def be_nat_strip)

definition ref_ossl_key :: "(ref_bn \<times> ref_bn) ossl_key" where
  "ref_ossl_key = \<lparr>ref_count = 1, curve_name = AWS_CAL_ECDSA_P256, key_buf = zero_buf, pub_x = zero_buf, pub_y = zero_buf,
     priv_d = zero_buf, impl = \<lparr>ec_key = Some (bn_of [], bn_of [])\<rparr>\<rparr>"

lemma ossl_sign_outcome_witness:
  "s_sign_payload ref_ec ref_ossl_key (cursor_of [1, 2, 3]) (empty_out 2) = (Inl (Undefined Out_of_bounds), empty_out 2)"
  using ossl_sign_outcome [of ref_ossl_key "(bn_of [], bn_of [])" "cursor_of [1, 2, 3]" "[1, 2, 3]" "empty_out 2" ref_ec]
  by (auto simp: ref_ossl_key_def ref_ec_def empty_out_def room_def valid_buf_def)

lemma ossl_derived_key_witness:
  "\<exists>k k'. ossl_new_from_private_key_impl ref_common ref_ec AWS_CAL_ECDSA_P256 (cursor_of (0 # replicate 31 9)) = Inr k \<and>
     ossl_derive_public_key ref_common ref_ec k = (Inr (), k') \<and> length (contents (pub_x k')) \<noteq> 32"
proof -
  let ?d = "0 # replicate 31 9 :: bytes"
  let ?v = "be_nat (replicate 31 9)"
  have s: "strip ?d = replicate 31 9" by (simp add: strip_def)
  have v: "?v < 256 ^ 31" "0 < ?v"
    using be_nat_bound [of "replicate 31 9"] be_nat_lower [of "replicate 31 9"] by simp_all
  have nid: "s_curve_name_to_nid AWS_CAL_ECDSA_P256 = Inr NID_X9_62_prime256v1" by (simp add: s_curve_name_to_nid_def)
  have size: "coord_size AWS_CAL_ECDSA_P256 = 32" by (simp add: aws_ecc_key_coordinate_byte_size_from_curve_name_def)
  from v(1) have "?v < 256 ^ 32" by (rule less_trans) simp
  with v show ?thesis
    using ossl_derived_key [OF common_spec_ref bn_spec_ref nid, of "(bn_of [], bn_of [])" "cursor_of ?d" ?d
        "(bn_of ?d, bn_of [])" True "(bn_of ?d, bn_of ?d)" "bn_of ?d" "bn_of ?d"]
    unfolding size by (auto simp: ref_ec_def s simp del: power_Suc)
qed

lemma ossl_generated_key_witness:
  "\<exists>k. ossl_new_generate_random ref_common ref_ec AWS_CAL_ECDSA_P256 = Inr k \<and>
     ossl_new_from_private_key_impl ref_common ref_ec AWS_CAL_ECDSA_P256 (aws_ecc_key_pair_get_private_key k) =
       Inl (Raised AWS_ERROR_CAL_INVALID_KEY_LENGTH_FOR_ALGORITHM)"
proof -
  have nid: "s_curve_name_to_nid AWS_CAL_ECDSA_P256 = Inr NID_X9_62_prime256v1" by (simp add: s_curve_name_to_nid_def)
  have size: "coord_size AWS_CAL_ECDSA_P256 = 32" by (simp add: aws_ecc_key_coordinate_byte_size_from_curve_name_def)
  have v: "be_nat (strip [7]) = 7" by (simp add: strip_def be_nat_def)
  show ?thesis
    using ossl_generated_key [OF common_spec_ref bn_spec_ref nid, of "(bn_of [], bn_of [])" "(bn_of [7], bn_of [7])"
        "bn_of [7]" "bn_of [7]" "bn_of [7]" "(bn_of (strip [7]), bn_of [])"]
    unfolding size by (auto simp: ref_ec_def v)
qed

end
