(* ===== verification/Security_Ecc.thy ===== *)
theory Security_Ecc
  imports Ecc_Platform
begin

text \<open>
  Elliptic-curve key pairs on Darwin, \<^verbatim>\<open>source/darwin/securityframework_ecc.c\<close>. The functions of Core
  Foundation and the Security framework are the fields of \<open>sec_api\<close>; \<open>'r\<close> is the type of a SecKeyRef,
  and \<open>cf_allocator\<close> tells whether a key pair has its allocator for Core Foundation.
  A function with an error parameter returns a reference and whether the error was set.

  A constructor that fails without raising an error, for example because Core Foundation has no
  memory, fails with AWS_ERROR_SUCCESS.
\<close>

section \<open>The frameworks\<close>

datatype key_class = kSecAttrKeyClassPublic | kSecAttrKeyClassPrivate

text \<open>The entries of an attribute dictionary. The size of a key is stored as the address of a
  number, or as a string.\<close>

datatype sec_attr = KeyType_ECSECPrimeRandom | KeyClass key_class | KeySizeInBits_address nat
  | KeySizeInBits_string string | CanSign bool | CanVerify bool | CanDerive bool

record 'r sec_api =
  aws_wrapped_cf_allocator_new :: "unit result"
  CFDataCreateWithBytesNoCopy :: "bytes \<Rightarrow> bytes option"
  CFDataCreate :: "bytes \<Rightarrow> bytes option"
  CFDictionaryCreateMutable_ok :: bool
  CFStringCreateWithCString :: "string \<Rightarrow> string option"
  SecKeyCreateWithData :: "bytes \<Rightarrow> sec_attr list \<Rightarrow> 'r option \<times> bool"
  SecKeyCreateRandomKey :: "sec_attr list \<Rightarrow> 'r option \<times> bool"
  SecKeyCopyPublicKey :: "'r \<Rightarrow> 'r option"
  SecItemExport :: "'r \<Rightarrow> bytes option"
  SecKeyCreateSignature :: "'r \<Rightarrow> bytes \<Rightarrow> bytes option \<times> bool"
  SecKeyVerifySignature :: "'r \<Rightarrow> bytes \<Rightarrow> bytes \<Rightarrow> bool"

section \<open>Key pairs\<close>

record 'r commoncrypto_ecc_key_pair =
  priv_key_ref :: "'r option"
  pub_key_ref :: "'r option"
  cf_allocator :: bool

type_synonym 'r sec_key = "'r commoncrypto_ecc_key_pair aws_ecc_key_pair"

abbreviation s_preamble :: byte where "s_preamble \<equiv> 0x04"
abbreviation s_der_overhead :: nat where "s_der_overhead \<equiv> 8"

definition sec_sign_message :: "aws_common \<Rightarrow> 'r sec_api \<Rightarrow> 'r sec_key \<Rightarrow> aws_byte_cursor \<Rightarrow> aws_byte_buf \<Rightarrow>
    unit result \<times> aws_byte_buf" where
  "sec_sign_message C S k message signature_output =
     (case priv_key_ref (impl k) of
        None \<Rightarrow> (Inl (Raised AWS_ERROR_CAL_MISSING_REQUIRED_KEY_COMPONENT), signature_output)
      | Some r \<Rightarrow> (case bytes_at (ptr message) (cur_len message) of
            Inl f \<Rightarrow> (Inl f, signature_output)
          | Inr bs \<Rightarrow> (case CFDataCreateWithBytesNoCopy S bs of
                None \<Rightarrow> (Inl Fatal, signature_output)
              | Some hash \<Rightarrow> (case SecKeyCreateSignature S r hash of
                    (_, True) \<Rightarrow> (Inl (Raised AWS_ERROR_SYS_CALL_FAILURE), signature_output)
                  | (None, False) \<Rightarrow> (Inl (Undefined Null_deref), signature_output)
                  | (Some signature, False) \<Rightarrow>
                      (case buf_append C signature_output (cursor_of signature) of
                         Inl f \<Rightarrow> (Inl (reraise AWS_ERROR_SHORT_BUFFER f), signature_output)
                       | Inr out \<Rightarrow> (Inr (), out))))))"

definition sec_signature_length :: "'r sec_key \<Rightarrow> nat" where
  "sec_signature_length k = coord_size (curve_name k) * 2 + s_der_overhead"

definition sec_verify_signature :: "'r sec_api \<Rightarrow> 'r sec_key \<Rightarrow> aws_byte_cursor \<Rightarrow> aws_byte_cursor \<Rightarrow> unit result" where
  "sec_verify_signature S k message signature =
     (case pub_key_ref (impl k) of
        None \<Rightarrow> Inl (Raised AWS_ERROR_CAL_MISSING_REQUIRED_KEY_COMPONENT)
      | Some r \<Rightarrow>
          rbind (bytes_at (ptr message) (cur_len message)) (\<lambda>bs.
          rbind (bytes_at (ptr signature) (cur_len signature)) (\<lambda>sig.
            case (CFDataCreateWithBytesNoCopy S bs, CFDataCreateWithBytesNoCopy S sig) of
              (Some hash_ref, Some signature_ref) \<Rightarrow>
                if SecKeyVerifySignature S r hash_ref signature_ref then Inr ()
                else Inl (Raised AWS_ERROR_CAL_SIGNATURE_VALIDATION_FAILED)
            | _ \<Rightarrow> Inl Fatal)))"

definition sec_derive_public_key :: "'r sec_key \<Rightarrow> unit result \<times> 'r sec_key" where
  "sec_derive_public_key k =
     (if buffer (pub_x k) \<noteq> None \<and> buf_len (pub_x k) \<noteq> 0 then Inr ()
      else Inl (Raised AWS_ERROR_UNSUPPORTED_OPERATION), k)"

definition sec_destroy_key :: "'r sec_key \<Rightarrow> 'r clean_up list \<Rightarrow> 'r clean_up list" where
  "sec_destroy_key k w = w @ free_handle (pub_key_ref (impl k)) @ free_handle (priv_key_ref (impl k)) @
     (if cf_allocator (impl k) then [Destroy_cf_allocator] else []) @ [Clean_up_secure (key_buf k), Mem_release]"

definition s_key_pair_vtable :: "aws_common \<Rightarrow> 'r sec_api \<Rightarrow> ('r sec_key, 'r clean_up list) aws_ecc_key_pair_vtable" where
  "s_key_pair_vtable C S = \<lparr>vt_destroy = Some sec_destroy_key, vt_derive_pub_key = Some sec_derive_public_key,
     vt_sign_message = Some (sec_sign_message C S), vt_verify_signature = Some (sec_verify_signature S),
     vt_signature_length = Some sec_signature_length\<rparr>"

section \<open>Constructors\<close>

text \<open>The buffers that point into \<open>key_buf\<close>. Its memory is not initialized, so that \<open>priv_d\<close> of a key
  without a private key points at arbitrary bytes.\<close>

definition sec_point_into :: "bool \<Rightarrow> nat \<Rightarrow> 'r sec_key \<Rightarrow> 'r sec_key" where
  "sec_point_into has_public n k = (case buffer (key_buf k) of
       None \<Rightarrow> k
     | Some m \<Rightarrow> (if has_public then k\<lparr>pub_x := array_buf m 1 n, pub_y := array_buf m (1 + n) n\<rparr> else k)
                  \<lparr>priv_d := array_buf m (1 + n * 2) n\<rparr>)"

definition sec_zero_key :: "aws_ecc_curve_name \<Rightarrow> 'r sec_key" where
  "sec_zero_key curve = \<lparr>ref_count = 1, curve_name = curve, key_buf = zero_buf, pub_x = zero_buf, pub_y = zero_buf,
     priv_d = zero_buf, impl = \<lparr>priv_key_ref = None, pub_key_ref = None, cf_allocator = True\<rparr>\<rparr>"

definition write_unchecked :: "aws_byte_buf option \<Rightarrow> aws_byte_buf \<Rightarrow> aws_byte_buf" where
  "write_unchecked r b = (case r of None \<Rightarrow> b | Some b' \<Rightarrow> b')"

definition sec_alloc_pair_and_init_buffers :: "aws_common \<Rightarrow> 'r sec_api \<Rightarrow> aws_ecc_curve_name \<Rightarrow> aws_byte_cursor \<Rightarrow>
    aws_byte_cursor \<Rightarrow> aws_byte_cursor \<Rightarrow> 'r sec_key result" where
  "sec_alloc_pair_and_init_buffers C S curve x y d =
     (let n = coord_size curve in
      if \<not> aws_mem_acquire_ok C then Inl Fatal
      else rbind (aws_wrapped_cf_allocator_new S) (\<lambda>_.
        if n = 0 then Inl (Raised AWS_ERROR_INVALID_ARGUMENT)
        else if wrong_length n x \<or> wrong_length n y \<or> wrong_length n d
        then Inl (Raised AWS_ERROR_INVALID_ARGUMENT)
        else rbind (aws_byte_buf_init C (n * 3 + 1)) (\<lambda>buf.
          let buf = write_unchecked (aws_byte_buf_write_u8 C buf s_preamble) buf in
          rbind (if ptr x \<noteq> None \<and> ptr y \<noteq> None
                 then rbind (append_unchecked C buf x) (\<lambda>buf. append_unchecked C buf y)
                 else Inr (write_unchecked (aws_byte_buf_write_u8_n C buf 0 (n * 2)) buf)) (\<lambda>buf.
          rbind (if ptr d \<noteq> None then append_unchecked C buf d else Inr buf) (\<lambda>buf.
            Inr (sec_point_into (ptr x \<noteq> None) n ((sec_zero_key curve)\<lparr>key_buf := buf\<rparr>)))))))"

text \<open>The bytes of \<open>key_buf\<close> as a CFData object, and a new dictionary.\<close>

definition sec_key_data :: "'r sec_api \<Rightarrow> 'r sec_key \<Rightarrow> bytes result" where
  "sec_key_data S k =
     rbind (bytes_at (ptr (aws_byte_cursor_from_buf (key_buf k))) (buf_len (key_buf k))) (\<lambda>bs.
       case CFDataCreate S bs of
         None \<Rightarrow> Inl (Raised AWS_ERROR_SUCCESS)
       | Some data \<Rightarrow> if CFDictionaryCreateMutable_ok S then Inr data else Inl (Raised AWS_ERROR_SUCCESS))"

definition sec_new_from_private_key_impl :: "aws_common \<Rightarrow> 'r sec_api \<Rightarrow> aws_ecc_curve_name \<Rightarrow> aws_byte_cursor \<Rightarrow>
    'r sec_key result" where
  "sec_new_from_private_key_impl C S curve priv_key =
     rbind (sec_alloc_pair_and_init_buffers C S curve null_cursor null_cursor priv_key) (\<lambda>k.
     rbind (sec_key_data S k) (\<lambda>private_key_data.
     case SecKeyCreateWithData S private_key_data [KeyType_ECSECPrimeRandom, KeyClass kSecAttrKeyClassPrivate,
            KeySizeInBits_address (buf_len (priv_d k) * 8), CanSign True, CanVerify False, CanDerive True] of
       (_, True) \<Rightarrow> Inl (Raised AWS_ERROR_INVALID_ARGUMENT)
     | (r, False) \<Rightarrow> Inr (k\<lparr>impl := (impl k)\<lparr>priv_key_ref := r\<rparr>\<rparr>)))"

definition sec_new_from_public_key_impl :: "aws_common \<Rightarrow> 'r sec_api \<Rightarrow> aws_ecc_curve_name \<Rightarrow> aws_byte_cursor \<Rightarrow>
    aws_byte_cursor \<Rightarrow> 'r sec_key result" where
  "sec_new_from_public_key_impl C S curve public_key_x public_key_y =
     rbind (sec_alloc_pair_and_init_buffers C S curve public_key_x public_key_y null_cursor) (\<lambda>k.
     rbind (sec_key_data S k) (\<lambda>pub_key_data.
     case SecKeyCreateWithData S pub_key_data [KeyType_ECSECPrimeRandom, KeyClass kSecAttrKeyClassPublic,
            KeySizeInBits_address (buf_len (pub_x k) * 8), CanSign False, CanVerify True, CanDerive False] of
       (_, True) \<Rightarrow> Inl (Raised AWS_ERROR_INVALID_ARGUMENT)
     | (r, False) \<Rightarrow> Inr (k\<lparr>impl := (impl k)\<lparr>pub_key_ref := r\<rparr>\<rparr>)))"

text \<open>\<open>snprintf\<close> with \<open>%d\<close> for a number that is not negative.\<close>

fun decimal :: "nat \<Rightarrow> string" where
  "decimal n = (if n < 10 then [char_of (48 + n)] else decimal (n div 10) @ [char_of (48 + n mod 10)])"

text \<open>The key that \<open>SecKeyCreateRandomKey\<close> makes is exported as DER, and its parts are read from there.\<close>

definition sec_load_exported :: "aws_common \<Rightarrow> der_tlv array_list_ops \<Rightarrow> nat \<Rightarrow> bytes \<Rightarrow> 'r commoncrypto_ecc_key_pair \<Rightarrow>
    'r sec_key result" where
  "sec_load_exported C L n doc refs =
     rbind (aws_der_decoder_new C L (cursor_of doc)) (\<lambda>decoder.
     rbind (aws_der_decoder_load_ecc_key_pair C L decoder) (\<lambda>p.
     rbind (aws_byte_buf_init C (n * 3 + 1)) (\<lambda>buf.
     rbind (append_unchecked C (write_unchecked (aws_byte_buf_write_u8 C buf s_preamble) buf)
              (out_public_x_coor p)) (\<lambda>buf.
     rbind (append_unchecked C buf (out_public_y_coor p)) (\<lambda>buf.
     rbind (append_unchecked C buf (out_private_d p)) (\<lambda>buf.
       Inr (sec_point_into True n
         ((sec_zero_key (out_curve_name p))\<lparr>key_buf := buf, impl := refs\<rparr>))))))))"

definition sec_new_generate_random :: "aws_common \<Rightarrow> der_tlv array_list_ops \<Rightarrow> 'r sec_api \<Rightarrow> aws_ecc_curve_name \<Rightarrow>
    'r sec_key result" where
  "sec_new_generate_random C L S curve =
     (let n = coord_size curve in
      if \<not> aws_mem_acquire_ok C then Inl Fatal
      else rbind (aws_wrapped_cf_allocator_new S) (\<lambda>_.
        if n = 0 then Inl (Raised AWS_ERROR_INVALID_ARGUMENT)
        else if \<not> CFDictionaryCreateMutable_ok S then Inl (Raised AWS_ERROR_SUCCESS)
        else case CFStringCreateWithCString S (decimal (n * 8)) of
            None \<Rightarrow> Inl (Raised AWS_ERROR_SUCCESS)
          | Some key_size \<Rightarrow>
              (case SecKeyCreateRandomKey S [KeyType_ECSECPrimeRandom, KeyClass kSecAttrKeyClassPrivate,
                      KeySizeInBits_string key_size] of
                 (_, True) \<Rightarrow> Inl (Raised AWS_ERROR_SYS_CALL_FAILURE)
               | (None, False) \<Rightarrow> Inl (Undefined Null_deref)
               | (Some r, False) \<Rightarrow> (case SecItemExport S r of
                     None \<Rightarrow> Inl (Raised AWS_ERROR_SYS_CALL_FAILURE)
                   | Some doc \<Rightarrow> sec_load_exported C L n doc
                       \<lparr>priv_key_ref = Some r, pub_key_ref = SecKeyCopyPublicKey S r, cf_allocator = True\<rparr>))))"

definition asn1_attributes :: "loaded_key \<Rightarrow> sec_attr list" where
  "asn1_attributes p = KeyType_ECSECPrimeRandom #
     (if ptr (out_private_d p) \<noteq> None
      then [KeyClass kSecAttrKeyClassPrivate, CanSign True, CanDerive True] @
           (if ptr (out_public_x_coor p) \<noteq> None then [CanVerify True] else [])
      else if ptr (out_public_x_coor p) \<noteq> None then [KeyClass kSecAttrKeyClassPublic, CanSign False, CanVerify True]
      else [])"

text \<open>
  When \<open>SecKeyCreateWithData\<close> fails an error is raised, but the key pair is returned; with a public key
  in the document the null reference is then passed to \<open>SecKeyCopyPublicKey\<close>. The reference of a public
  key is stored as that of the private key.
\<close>

definition sec_new_from_asn1 :: "aws_common \<Rightarrow> der_tlv array_list_ops \<Rightarrow> 'r sec_api \<Rightarrow> aws_byte_cursor \<Rightarrow>
    'r sec_key result" where
  "sec_new_from_asn1 C L S encoded_keys =
     rbind (aws_der_decoder_new C L encoded_keys) (\<lambda>decoder.
     rbind (aws_der_decoder_load_ecc_key_pair C L decoder) (\<lambda>p.
       if ptr (out_public_x_coor p) = None \<and> ptr (out_private_d p) = None
       then Inl (Raised AWS_ERROR_CAL_MISSING_REQUIRED_KEY_COMPONENT)
       else rbind (sec_alloc_pair_and_init_buffers C S (out_curve_name p) (out_public_x_coor p)
                     (out_public_y_coor p) (out_private_d p)) (\<lambda>k.
         rbind (sec_key_data S k) (\<lambda>key_data.
         let r = fst (SecKeyCreateWithData S key_data (asn1_attributes p)) in
         if ptr (out_public_x_coor p) = None then Inr (k\<lparr>impl := (impl k)\<lparr>priv_key_ref := r\<rparr>\<rparr>)
         else case r of
             None \<Rightarrow> Inl (Undefined Null_deref)
           | Some key \<Rightarrow> Inr (k\<lparr>impl := (impl k)\<lparr>priv_key_ref := r, pub_key_ref := SecKeyCopyPublicKey S key\<rparr>\<rparr>)))))"

end
