(* ===== verification/Security_Ecc_Spec.thy ===== *)
theory Security_Ecc_Spec
  imports Security_Ecc
begin

text \<open>
  Properties of key pairs on Darwin: the parts of a key that is loaded from DER or generated are those
  of the document, and what happens when the Security framework refuses a key.
\<close>

section \<open>Filling the key buffer\<close>

lemma append_unchecked_ok:
  assumes "common_spec C" and "valid_buf b" and "bytes_at (ptr cur) (cur_len cur) = Inr bs" and "length bs \<le> room b"
  shows "\<exists>b'. append_unchecked C b cur = Inr b' \<and> appends b bs (Some b')"
  using append_ok [OF assms] by blast

lemma write_u8_unchecked:
  assumes "common_spec C" and "valid_buf b" and "0 < room b"
  shows "appends b [x] (Some (write_unchecked (aws_byte_buf_write_u8 C b x) b))"
  using write_laws(2) [OF assms(1,2), of x] assms(3) by (auto simp: write_unchecked_def appends_def split: option.splits)

text \<open>Preamble, coordinates and private key in a buffer of their size.\<close>

lemma fill_parts:
  assumes C: "common_spec C" and n: "0 < n" "n \<le> 48"
    and x: "bytes_at (ptr x) (cur_len x) = Inr xs" and y: "bytes_at (ptr y) (cur_len y) = Inr ys"
    and d: "bytes_at (ptr d) (cur_len d) = Inr ds" and len: "length xs = n" "length ys = n" "length ds = n \<or> ds = []"
  shows "\<exists>b b2 b3 b4. aws_byte_buf_init C (n * 3 + 1) = Inr b \<and>
    append_unchecked C (write_unchecked (aws_byte_buf_write_u8 C b s_preamble) b) x = Inr b2 \<and>
    append_unchecked C b2 y = Inr b3 \<and> append_unchecked C b3 d = Inr b4 \<and>
    valid_buf b3 \<and> contents b3 = s_preamble # xs @ ys \<and> capacity b3 = n * 3 + 1 \<and>
    valid_buf b4 \<and> contents b4 = s_preamble # xs @ ys @ ds \<and> buf_len b4 = Suc (2 * n + length ds)"
proof -
  have "n * 3 + 1 \<le> SIZE_MAX div 2" using n by simp
  then obtain b where b: "aws_byte_buf_init C (n * 3 + 1) = Inr b" "fresh_buf (n * 3 + 1) b"
    using init_law [OF C] by blast
  then have v: "valid_buf b" "room b = n * 3 + 1" "contents b = []" "buf_len b = 0" "capacity b = n * 3 + 1"
    by (auto simp: fresh_buf_def room_def contents_def split: option.splits)
  define b1 where "b1 = write_unchecked (aws_byte_buf_write_u8 C b s_preamble) b"
  have b1: "appends b [s_preamble] (Some b1)" unfolding b1_def by (rule write_u8_unchecked [OF C v(1)]) (simp add: v)
  have v1: "valid_buf b1" "room b1 = n * 3" using b1 appends_room [OF b1] v(2) by (simp_all add: appends_def)
  obtain b2 where b2: "append_unchecked C b1 x = Inr b2" "appends b1 xs (Some b2)"
    using append_unchecked_ok [OF C v1(1) x] v1(2) len by auto
  have v2: "valid_buf b2" "room b2 = n * 3 - n" using b2(2) appends_room [OF b2(2)] v1(2) len by (simp_all add: appends_def)
  obtain b3 where b3: "append_unchecked C b2 y = Inr b3" "appends b2 ys (Some b3)"
    using append_unchecked_ok [OF C v2(1) y] v2(2) len by auto
  have v3: "valid_buf b3" "room b3 = n * 3 - n - n" using b3(2) appends_room [OF b3(2)] v2(2) len by (simp_all add: appends_def)
  obtain b4 where b4: "append_unchecked C b3 d = Inr b4" "appends b3 ds (Some b4)"
    using append_unchecked_ok [OF C v3(1) d] v3(2) len by fastforce
  have c3: "contents b3 = s_preamble # xs @ ys" "capacity b3 = n * 3 + 1" "buf_len b3 = Suc (2 * n)"
    using b1 b2(2) b3(2) v len by (simp_all add: appends_def)
  have c4: "valid_buf b4" "contents b4 = s_preamble # xs @ ys @ ds" "buf_len b4 = Suc (2 * n + length ds)"
    using b4(2) c3 by (simp_all add: appends_def)
  show ?thesis
    using b(1) b2(1) b3(1) b4(1) v3(1) c3(1,2) c4 unfolding b1_def by blast
qed

lemma memory_of:
  assumes "valid_buf b" and "contents b = bs" and "bs \<noteq> []"
  obtains post where "buffer b = Some (bs @ post)"
  using assms by (cases "buffer b") (auto simp: contents_def, metis append_take_drop_id)

lemma sec_views:
  assumes "buffer (key_buf k) = Some (s_preamble # xs @ ys @ rest)" and "length xs = n" "length ys = n"
  shows "contents (pub_x (sec_point_into True n k)) = xs" and "contents (pub_y (sec_point_into True n k)) = ys"
    and "contents (priv_d (sec_point_into hp n k)) = take n rest"
    and "key_buf (sec_point_into hp n k) = key_buf k" "curve_name (sec_point_into hp n k) = curve_name k"
      "impl (sec_point_into hp n k) = impl k" "ref_count (sec_point_into hp n k) = ref_count k"
proof -
  have "drop (n * 2) (xs @ ys @ rest) = rest" using assms(2,3) by simp
  with assms show "contents (pub_x (sec_point_into True n k)) = xs" "contents (pub_y (sec_point_into True n k)) = ys"
      "contents (priv_d (sec_point_into hp n k)) = take n rest"
    by (simp_all add: sec_point_into_def)
qed (simp_all add: sec_point_into_def split: option.splits)

section \<open>Properties\<close>

text \<open>Core Foundation has memory, and its data objects hold the bytes they are made from.\<close>

definition cf_spec :: "'r sec_api \<Rightarrow> bool" where
  "cf_spec S \<longleftrightarrow> aws_wrapped_cf_allocator_new S = Inr () \<and> CFDictionaryCreateMutable_ok S \<and>
     (\<forall>bs. CFDataCreate S bs = Some bs \<and> CFDataCreateWithBytesNoCopy S bs = Some bs) \<and>
     (\<forall>s. CFStringCreateWithCString S s = Some s)"

definition has_parts :: "aws_ecc_curve_name \<Rightarrow> bytes \<Rightarrow> bytes \<Rightarrow> bytes \<Rightarrow> 'r sec_key \<Rightarrow> bool" where
  "has_parts c x y d k \<longleftrightarrow> ref_count k = 1 \<and> curve_name k = c \<and> contents (pub_x k) = x \<and> contents (pub_y k) = y \<and>
     contents (priv_d k) = d"

lemma known_curve_size:
  assumes "curve_oid c = Some oid"
  shows "0 < coord_size c" and "coord_size c \<le> 48"
  using curve_oid_size(1) [OF assms] by auto

text \<open>The buffers of a key with both parts, and of a key without a private one.\<close>

lemma sec_alloc_full:
  assumes C: "common_spec C" and S: "cf_spec S" and n: "n = coord_size c" "0 < n" "n \<le> 48"
    and x: "bytes_at (ptr x) (cur_len x) = Inr xs" and y: "bytes_at (ptr y) (cur_len y) = Inr ys"
    and d: "key_part d vd" and len: "length xs = n" "length ys = n" "\<forall>ds. vd = Some ds \<longrightarrow> length ds = n"
    and ds: "ds = (case vd of None \<Rightarrow> [] | Some z \<Rightarrow> z)"
  shows "\<exists>k. sec_alloc_pair_and_init_buffers C S c x y d = Inr k \<and> sec_key_data S k = Inr (s_preamble # xs @ ys @ ds) \<and>
    ref_count k = 1 \<and> curve_name k = c \<and> contents (pub_x k) = xs \<and> contents (pub_y k) = ys \<and>
    (\<forall>z. vd = Some z \<longrightarrow> contents (priv_d k) = z) \<and> impl k = \<lparr>priv_key_ref = None, pub_key_ref = None, cf_allocator = True\<rparr> \<and>
    buffer (pub_x k) \<noteq> None \<and> buf_len (pub_x k) = n"
proof -
  have dd: "bytes_at (ptr (if vd = None then null_cursor else d)) (cur_len (if vd = None then null_cursor else d)) = Inr ds"
    using d ds by (auto simp: key_part_def null_cursor_def split: option.splits)
  have "length ds = n \<or> ds = []" using len(3) ds by (auto split: option.splits)
  from fill_parts [OF C n(2,3) x y dd len(1,2) this] obtain b b2 b3 b4 where
      b: "aws_byte_buf_init C (n * 3 + 1) = Inr b"
      "append_unchecked C (write_unchecked (aws_byte_buf_write_u8 C b s_preamble) b) x = Inr b2"
      "append_unchecked C b2 y = Inr b3" "append_unchecked C b3 (if vd = None then null_cursor else d) = Inr b4"
      "valid_buf b3" "contents b3 = s_preamble # xs @ ys"
      "valid_buf b4" "contents b4 = s_preamble # xs @ ys @ ds" by blast
  define bf where "bf = (if vd = None then b3 else b4)"
  have bf: "valid_buf bf" "contents bf = s_preamble # xs @ ys @ ds" using b(5-8) ds by (auto simp: bf_def)
  obtain post where mem: "buffer bf = Some ((s_preamble # xs @ ys @ ds) @ post)"
    using memory_of [OF bf] by blast
  define k where "k = sec_point_into True n ((sec_zero_key c :: 'a sec_key)\<lparr>key_buf := bf\<rparr>)"
  have ne: "xs \<noteq> []" "ys \<noteq> []" using len n(2) by auto
  have ptrs: "ptr x \<noteq> None" "ptr y \<noteq> None" "ptr d = None \<longleftrightarrow> vd = None"
    using key_partI [OF x ne(1)] key_partI [OF y ne(2)] d by (auto simp: key_part_def split: option.splits)
  have ok: "\<not> (wrong_length n x \<or> wrong_length n y \<or> wrong_length n d)"
    using key_part_wrong_length [OF key_partI [OF x ne(1)], of n] key_part_wrong_length [OF key_partI [OF y ne(2)], of n]
      key_part_wrong_length [OF d, of n] len by auto
  have run: "sec_alloc_pair_and_init_buffers C S c x y d = Inr k"
    using C S n b(1-4) ptrs ok by (auto simp: sec_alloc_pair_and_init_buffers_def Let_def cf_spec_def k_def bf_def)
  have "buffer (key_buf ((sec_zero_key c :: 'a sec_key)\<lparr>key_buf := bf\<rparr>)) = Some (s_preamble # xs @ ys @ (ds @ post))"
    using mem by simp
  note v = sec_views [OF this len(1,2), folded k_def]
  have "bytes_at (ptr (aws_byte_cursor_from_buf bf)) (buf_len bf) = Inr (contents bf)"
    using bytes_at_from_buf [OF bf(1)] by (simp add: aws_byte_cursor_from_buf_def)
  then have data: "sec_key_data S k = Inr (s_preamble # xs @ ys @ ds)"
    using S bf(2) v(4) [of True] by (simp add: sec_key_data_def cf_spec_def k_def)
  have d_part: "contents (priv_d k) = z" if "vd = Some z" for z
    using v(3) [of True] that len(3) ds by (simp add: k_def)
  have bx: "buffer (pub_x k) \<noteq> None" "buf_len (pub_x k) = n"
    using mem by (simp_all add: k_def sec_point_into_def array_buf_def)
  show ?thesis
    using run data v(1,2) v(5-7) [of True] d_part bx by (auto simp: k_def sec_zero_key_def)
qed

text \<open>
  Claim C30. Keys on Darwin from DER: for the document of an EC private key with its public key the
  Security framework is given the preamble, the coordinates and the private key. With the reference
  it returns, the key pair holds the parts of the document, signs with that reference and verifies
  with the public key of it. When the framework refuses the key, the null reference is passed on to
  \<open>SecKeyCopyPublicKey\<close>.
\<close>

theorem sec_key_from_asn1:
  assumes C: "common_spec C" and L: "array_list_spec L" and S: "cf_spec S" and c: "curve_oid c = Some oid"
    and len: "length d = coord_size c" "length x = coord_size c" "length y = coord_size c"
    and r: "r = fst (SecKeyCreateWithData S (s_preamble # x @ y @ d)
      [KeyType_ECSECPrimeRandom, KeyClass kSecAttrKeyClassPrivate, CanSign True, CanDerive True, CanVerify True])"
  shows "case r of
      None \<Rightarrow> sec_new_from_asn1 C L S (cursor_of (tree_bytes (ec_private_key oid d x y))) = Inl (Undefined Null_deref)
    | Some key \<Rightarrow> \<exists>k. sec_new_from_asn1 C L S (cursor_of (tree_bytes (ec_private_key oid d x y))) = Inr k \<and>
        has_parts c x y d k \<and> priv_key_ref (impl k) = Some key \<and> pub_key_ref (impl k) = SecKeyCopyPublicKey S key \<and>
        sec_derive_public_key k = (Inr (), k)"
proof -
  note n = known_curve_size [OF c]
  have ne: "d \<noteq> []" "x \<noteq> []" "y \<noteq> []" using n len by auto
  obtain dec p where p: "aws_der_decoder_new C L (cursor_of (tree_bytes (ec_private_key oid d x y))) = Inr dec"
      "aws_der_decoder_load_ecc_key_pair C L dec = Inr p" "out_curve_name p = c"
      "bytes_at (ptr (out_private_d p)) (cur_len (out_private_d p)) = Inr d"
      "bytes_at (ptr (out_public_x_coor p)) (cur_len (out_public_x_coor p)) = Inr x"
      "bytes_at (ptr (out_public_y_coor p)) (cur_len (out_public_y_coor p)) = Inr y"
    using load_private_key_doc [OF C L c len] by blast
  have part: "key_part (out_private_d p) (Some d)" "key_part (out_public_x_coor p) (Some x)"
    using p(4,5) ne key_partI by blast+
  then have ptrs: "ptr (out_private_d p) \<noteq> None" "ptr (out_public_x_coor p) \<noteq> None" by (simp_all add: key_part_def)
  obtain k where k: "sec_alloc_pair_and_init_buffers C S c (out_public_x_coor p) (out_public_y_coor p) (out_private_d p) = Inr k"
      "sec_key_data S k = Inr (s_preamble # x @ y @ d)" "ref_count k = 1" "curve_name k = c" "contents (pub_x k) = x"
      "contents (pub_y k) = y" "contents (priv_d k) = d" "buffer (pub_x k) \<noteq> None" "buf_len (pub_x k) = coord_size c"
    using sec_alloc_full [OF C S refl n p(5,6) part(1) len(2,3), of d] len(1) by auto
  have attrs: "asn1_attributes p = [KeyType_ECSECPrimeRandom, KeyClass kSecAttrKeyClassPrivate, CanSign True, CanDerive True, CanVerify True]"
    using ptrs by (simp add: asn1_attributes_def)
  have run: "sec_new_from_asn1 C L S (cursor_of (tree_bytes (ec_private_key oid d x y))) = (case r of
      None \<Rightarrow> Inl (Undefined Null_deref)
    | Some key \<Rightarrow> Inr (k\<lparr>impl := (impl k)\<lparr>priv_key_ref := r, pub_key_ref := SecKeyCopyPublicKey S key\<rparr>\<rparr>))"
    using p(1-3) k(1,2) ptrs attrs by (auto simp: sec_new_from_asn1_def Let_def r split: option.split)
  show ?thesis
    unfolding run using k n by (auto simp: has_parts_def sec_derive_public_key_def split: option.splits)
qed

text \<open>
  Generated keys on Darwin: the parts of the key pair are those of the DER document that the
  framework exports for the new key, and the key pair has the references for signing and verifying.
  Signing appends the framework's signature when it fits and fails with AWS_ERROR_SHORT_BUFFER and an
  unchanged buffer otherwise; verifying asks the framework about the same bytes.
\<close>

theorem sec_generated_key:
  assumes C: "common_spec C" and L: "array_list_spec L" and S: "cf_spec S" and c: "curve_oid c = Some oid"
    and len: "length d = coord_size c" "length x = coord_size c" "length y = coord_size c"
    and key: "SecKeyCreateRandomKey S [KeyType_ECSECPrimeRandom, KeyClass kSecAttrKeyClassPrivate,
        KeySizeInBits_string (decimal (coord_size c * 8))] = (Some r, False)"
      "SecItemExport S r = Some (tree_bytes (ec_private_key oid d x y))" "SecKeyCopyPublicKey S r = Some q"
    and msg: "bytes_at (ptr message) (cur_len message) = Inr hash" "SecKeyCreateSignature S r hash = (Some sig, False)"
    and out: "valid_buf out"
  shows "\<exists>k. sec_new_generate_random C L S c = Inr k \<and> has_parts c x y d k \<and>
    (if length sig \<le> room out
     then \<exists>out'. sec_sign_message C S k message out = (Inr (), out') \<and> contents out' = contents out @ sig
     else sec_sign_message C S k message out = (Inl (Raised AWS_ERROR_SHORT_BUFFER), out)) \<and>
    sec_verify_signature S k message (cursor_of sig) =
      (if SecKeyVerifySignature S q hash sig then Inr () else Inl (Raised AWS_ERROR_CAL_SIGNATURE_VALIDATION_FAILED))"
proof -
  note n = known_curve_size [OF c]
  have ne: "d \<noteq> []" "x \<noteq> []" "y \<noteq> []" using n len by auto
  obtain dec p where p: "aws_der_decoder_new C L (cursor_of (tree_bytes (ec_private_key oid d x y))) = Inr dec"
      "aws_der_decoder_load_ecc_key_pair C L dec = Inr p" "out_curve_name p = c"
      "bytes_at (ptr (out_private_d p)) (cur_len (out_private_d p)) = Inr d"
      "bytes_at (ptr (out_public_x_coor p)) (cur_len (out_public_x_coor p)) = Inr x"
      "bytes_at (ptr (out_public_y_coor p)) (cur_len (out_public_y_coor p)) = Inr y"
    using load_private_key_doc [OF C L c len] by blast
  obtain b b2 b3 b4 where b: "aws_byte_buf_init C (coord_size c * 3 + 1) = Inr b"
      "append_unchecked C (write_unchecked (aws_byte_buf_write_u8 C b s_preamble) b) (out_public_x_coor p) = Inr b2"
      "append_unchecked C b2 (out_public_y_coor p) = Inr b3" "append_unchecked C b3 (out_private_d p) = Inr b4"
      "valid_buf b4" "contents b4 = s_preamble # x @ y @ d"
    using fill_parts [OF C n p(5,6,4) len(2,3)] len(1) by blast
  define k where "k = sec_point_into True (coord_size c) ((sec_zero_key c)\<lparr>key_buf := b4,
    impl := \<lparr>priv_key_ref = Some r, pub_key_ref = Some q, cf_allocator = True\<rparr>\<rparr>)"
  have run: "sec_new_generate_random C L S c = Inr k"
    using C S n(1) key p(1-3) b(1-4)
    by (simp add: sec_new_generate_random_def Let_def cf_spec_def sec_load_exported_def k_def del: decimal.simps)
  obtain post where mem: "buffer b4 = Some ((s_preamble # x @ y @ d) @ post)" using memory_of [OF b(5,6)] by blast
  have parts: "has_parts c x y d k"
    using mem len by (simp add: has_parts_def k_def sec_point_into_def sec_zero_key_def)
  have i: "impl k = \<lparr>priv_key_ref = Some r, pub_key_ref = Some q, cf_allocator = True\<rparr>"
    using mem by (simp add: k_def sec_point_into_def)
  have fits: "\<exists>out'. sec_sign_message C S k message out = (Inr (), out') \<and> contents out' = contents out @ sig"
    if "length sig \<le> room out"
    using append_ok [OF C out, of "cursor_of sig" sig] that msg S i by (auto simp: sec_sign_message_def cf_spec_def appends_def)
  have short: "sec_sign_message C S k message out = (Inl (Raised AWS_ERROR_SHORT_BUFFER), out)" if "\<not> length sig \<le> room out"
    using append_too_long [OF C out, of "cursor_of sig"] that msg S i by (auto simp: sec_sign_message_def cf_spec_def)
  have sig_bytes: "bytes_at (ptr (cursor_of sig)) (length sig) = Inr sig" by simp
  have verify: "sec_verify_signature S k message (cursor_of sig) =
      (if SecKeyVerifySignature S q hash sig then Inr () else Inl (Raised AWS_ERROR_CAL_SIGNATURE_VALIDATION_FAILED))"
    using msg(1) S i by (simp add: sec_verify_signature_def cf_spec_def sig_bytes)
  show ?thesis using run parts fits short verify by auto
qed

section \<open>Reference frameworks\<close>

text \<open>A Security framework in which a key is the bytes it was made from, for the witnesses; a signature of
  a hash is the hash. The document is what it exports for a new key.\<close>

definition ref_sec :: "bytes \<Rightarrow> bytes sec_api" where
  "ref_sec doc = \<lparr>aws_wrapped_cf_allocator_new = Inr (), CFDataCreateWithBytesNoCopy = Some, CFDataCreate = Some,
     CFDictionaryCreateMutable_ok = True, CFStringCreateWithCString = Some,
     SecKeyCreateWithData = (\<lambda>bs _. (Some bs, False)), SecKeyCreateRandomKey = (\<lambda>_. (Some [], False)),
     SecKeyCopyPublicKey = Some, SecItemExport = (\<lambda>_. Some doc), SecKeyCreateSignature = (\<lambda>_ bs. (Some bs, False)),
     SecKeyVerifySignature = (\<lambda>_ bs sig. bs = sig)\<rparr>"

lemma cf_spec_ref: "cf_spec (ref_sec doc)"
  by (simp add: cf_spec_def ref_sec_def)

lemma p256_size: "coord_size AWS_CAL_ECDSA_P256 = 32"
  by (simp add: aws_ecc_key_coordinate_byte_size_from_curve_name_def)

lemma sec_key_from_asn1_witness:
  "\<exists>oid k. sec_new_from_asn1 ref_common ref_array_list (ref_sec [])
       (cursor_of (tree_bytes (ec_private_key oid (replicate 32 1) (replicate 32 2) (replicate 32 3)))) = Inr k \<and>
     has_parts AWS_CAL_ECDSA_P256 (replicate 32 2) (replicate 32 3) (replicate 32 1) k"
proof -
  obtain oid where oid: "curve_oid AWS_CAL_ECDSA_P256 = Some oid" by simp
  show ?thesis
    using sec_key_from_asn1 [OF common_spec_ref array_list_spec_ref cf_spec_ref [of "[]"] oid,
        of "replicate 32 1" "replicate 32 2" "replicate 32 3"]
    by (auto simp: p256_size ref_sec_def)
qed

lemma sec_generated_key_witness:
  "\<exists>doc k out. sec_new_generate_random ref_common ref_array_list (ref_sec doc) AWS_CAL_ECDSA_P256 = Inr k \<and>
     has_parts AWS_CAL_ECDSA_P256 (replicate 32 2) (replicate 32 3) (replicate 32 1) k \<and>
     sec_sign_message ref_common (ref_sec doc) k (cursor_of [9, 8]) (empty_out 72) = (Inr (), out) \<and> contents out = [9, 8] \<and>
     sec_verify_signature (ref_sec doc) k (cursor_of [9, 8]) (cursor_of [9, 8]) = Inr ()"
proof -
  obtain oid where oid: "curve_oid AWS_CAL_ECDSA_P256 = Some oid" by simp
  let ?doc = "tree_bytes (ec_private_key oid (replicate 32 1) (replicate 32 2) (replicate 32 3))"
  show ?thesis
    using sec_generated_key [OF common_spec_ref array_list_spec_ref cf_spec_ref [of ?doc] oid,
        of "replicate 32 1" "replicate 32 2" "replicate 32 3" "[]" "[]" "cursor_of [9, 8]" "[9, 8]" "[9, 8]" "empty_out 72"]
    by (auto simp: p256_size ref_sec_def empty_out_def room_def valid_buf_def contents_def)
qed

end
