(* ===== verification/Commoncrypto_Aes.thy ===== *)
theory Commoncrypto_Aes
  imports Symmetric_Cipher
begin

text \<open>
  The AES ciphers over Apple's CommonCrypto, \<^verbatim>\<open>source/darwin/commoncrypto_aes.c\<close>: CBC, CTR, GCM and key
  wrap. The functions of CommonCrypto are the fields of \<open>cc_api\<close>, parameters of the definitions; \<open>'x\<close> is the
  type of a cryptor and None the null reference, which the functions can be called with. A call returns
  whether its status was kCCSuccess, the bytes it wrote and the cryptor it leaves. \<open>latest_api\<close> tells whether
  the functions of macOS 10.13 are available.
\<close>

section \<open>The library\<close>

datatype cc_operation = kCCEncrypt | kCCDecrypt
datatype cc_mode = kCCModeCBC | kCCModeCTR | kCCModeGCM
datatype cc_padding = ccNoPadding | ccPKCS7Padding
datatype cc_mode_option = No_option | kCCModeOptionCTR_BE

record 'x cc_api =
  latest_api :: bool
  CCCryptorCreateWithMode :: "cc_operation \<Rightarrow> cc_mode \<Rightarrow> cc_padding \<Rightarrow> bytes option \<Rightarrow> bytes \<Rightarrow> cc_mode_option \<Rightarrow> 'x option"
  CCCryptorUpdate :: "'x option \<Rightarrow> bytes \<Rightarrow> nat \<Rightarrow> bool \<times> bytes \<times> 'x option"
  CCCryptorFinal :: "'x option \<Rightarrow> nat \<Rightarrow> bool \<times> bytes \<times> 'x option"
  CCCryptorGCMSetIV :: "'x option \<Rightarrow> bytes \<Rightarrow> bool \<times> 'x option"
  CCCryptorGCMAddIV :: "'x option \<Rightarrow> bytes \<Rightarrow> bool \<times> 'x option"
  CCCryptorGCMAddAAD :: "'x option \<Rightarrow> bytes \<Rightarrow> bool \<times> 'x option"
  CCCryptorGCMFinalize :: "'x option \<Rightarrow> bytes option \<Rightarrow> nat \<Rightarrow> bool \<times> bytes \<times> 'x option"
  CCCryptorGCMFinal :: "'x option \<Rightarrow> nat \<Rightarrow> bool \<times> bytes \<times> 'x option"
  CCSymmetricKeyWrap :: "bytes \<Rightarrow> bytes \<Rightarrow> nat \<Rightarrow> bytes option"
  CCSymmetricKeyUnwrap :: "bytes \<Rightarrow> bytes \<Rightarrow> nat \<Rightarrow> bytes option"

record 'x cc_aes_cipher =
  encryptor_handle :: "'x option"
  decryptor_handle :: "'x option"
  cc_working_buffer :: aws_byte_buf

type_synonym 'x cc_cipher = "'x cc_aes_cipher aws_symmetric_cipher"

definition set_encryptor :: "'x option \<Rightarrow> 'x cc_cipher \<Rightarrow> 'x cc_cipher" where
  "set_encryptor h c = c\<lparr>cipher_impl := (cipher_impl c)\<lparr>encryptor_handle := h\<rparr>\<rparr>"

definition set_decryptor :: "'x option \<Rightarrow> 'x cc_cipher \<Rightarrow> 'x cc_cipher" where
  "set_decryptor h c = c\<lparr>cipher_impl := (cipher_impl c)\<lparr>decryptor_handle := h\<rparr>\<rparr>"

definition set_work :: "aws_byte_buf \<Rightarrow> 'x cc_cipher \<Rightarrow> 'x cc_cipher" where
  "set_work b c = c\<lparr>cipher_impl := (cipher_impl c)\<lparr>cc_working_buffer := b\<rparr>\<rparr>"

section \<open>Streams\<close>

text \<open>What follows a call that writes behind the contents of \<open>out\<close>.\<close>

definition cc_output :: "('x option \<Rightarrow> 'x cc_cipher \<Rightarrow> 'x cc_cipher) \<Rightarrow> bool \<times> bytes \<times> 'x option \<Rightarrow>
    'x cc_aes_cipher cipher_op" where
  "cc_output set_handle result c out = (case result of
       (False, _, h) \<Rightarrow> (Inl (Raised AWS_ERROR_INVALID_ARGUMENT), (set_handle h c)\<lparr>cipher_good := False\<rparr>, out)
     | (True, written, h) \<Rightarrow> (case poke out written of
           Inl e \<Rightarrow> (Inl e, set_handle h c, out)
         | Inr out' \<Rightarrow> (Inr (), set_handle h c, add_len (length written) out')))"

definition cc_encrypt :: "aws_common \<Rightarrow> 'x cc_api \<Rightarrow> aws_byte_cursor \<Rightarrow> 'x cc_aes_cipher cipher_op" where
  "cc_encrypt C A inp c out =
     (case aws_symmetric_cipher_try_ensure_sufficient_buffer_space C out (cur_len inp + block_size c - 1) of
        Inl f \<Rightarrow> (Inl (reraise AWS_ERROR_SHORT_BUFFER f), c, out)
      | Inr out \<Rightarrow> (case bytes_at (ptr inp) (cur_len inp) of
            Inl f \<Rightarrow> (Inl f, c, out)
          | Inr bs \<Rightarrow> cc_output set_encryptor
              (CCCryptorUpdate A (encryptor_handle (cipher_impl c)) bs (buf_room out)) c out))"

definition cc_decrypt :: "aws_common \<Rightarrow> 'x cc_api \<Rightarrow> aws_byte_cursor \<Rightarrow> 'x cc_aes_cipher cipher_op" where
  "cc_decrypt C A inp c out =
     (case aws_symmetric_cipher_try_ensure_sufficient_buffer_space C out (cur_len inp + block_size c - 1) of
        Inl f \<Rightarrow> (Inl (reraise AWS_ERROR_SHORT_BUFFER f), c, out)
      | Inr out \<Rightarrow> (case bytes_at (ptr inp) (cur_len inp) of
            Inl f \<Rightarrow> (Inl f, c, out)
          | Inr bs \<Rightarrow> cc_output set_decryptor
              (CCCryptorUpdate A (decryptor_handle (cipher_impl c)) bs (buf_room out)) c out))"

definition cc_finalize_encryption :: "aws_common \<Rightarrow> 'x cc_api \<Rightarrow> 'x cc_aes_cipher cipher_op" where
  "cc_finalize_encryption C A c out =
     (case aws_symmetric_cipher_try_ensure_sufficient_buffer_space C out (block_size c) of
        Inl f \<Rightarrow> (Inl (reraise AWS_ERROR_SHORT_BUFFER f), c, out)
      | Inr out \<Rightarrow> cc_output set_encryptor
          (CCCryptorFinal A (encryptor_handle (cipher_impl c)) (buf_room out)) c out)"

definition cc_finalize_decryption :: "aws_common \<Rightarrow> 'x cc_api \<Rightarrow> 'x cc_aes_cipher cipher_op" where
  "cc_finalize_decryption C A c out =
     (case aws_symmetric_cipher_try_ensure_sufficient_buffer_space C out (block_size c) of
        Inl f \<Rightarrow> (Inl (reraise AWS_ERROR_SHORT_BUFFER f), c, out)
      | Inr out \<Rightarrow> cc_output set_decryptor
          (CCCryptorFinal A (decryptor_handle (cipher_impl c)) (buf_room out)) c out)"

text \<open>Key and vector: kept when there are any, otherwise copied or generated.\<close>

definition cc_materials :: "aws_common \<Rightarrow> nat \<Rightarrow> bool \<Rightarrow> aws_byte_cursor option \<Rightarrow> aws_byte_cursor option \<Rightarrow>
    'x cc_cipher \<Rightarrow> unit result \<times> 'x cc_cipher" where
  "cc_materials C iv_len is_ctr_mode k v c =
     (case rbind (if buf_len (key c) \<noteq> 0 then Inr (key c) else key_material C k) (\<lambda>kb.
           rbind (if buf_len (iv c) \<noteq> 0 then Inr (iv c) else iv_material C iv_len is_ctr_mode v) (\<lambda>vb.
             Inr (kb, vb))) of
        Inl f \<Rightarrow> (Inl f, c)
      | Inr (kb, vb) \<Rightarrow> (Inr (), c\<lparr>key := kb, iv := vb\<rparr>))"

text \<open>\<open>status = Create(kCCEncrypt ...); status |= Create(kCCDecrypt ...);\<close>\<close>

definition cc_create_both :: "'x cc_api \<Rightarrow> cc_mode \<Rightarrow> cc_padding \<Rightarrow> cc_mode_option \<Rightarrow> 'x cc_cipher \<Rightarrow>
    unit result \<times> 'x cc_cipher" where
  "cc_create_both A mode pad opt c =
     (let e = CCCryptorCreateWithMode A kCCEncrypt mode pad (buffer (iv c)) (contents (key c)) opt;
          d = CCCryptorCreateWithMode A kCCDecrypt mode pad (buffer (iv c)) (contents (key c)) opt
      in (if e \<noteq> None \<and> d \<noteq> None then Inr () else Inl (Raised AWS_ERROR_INVALID_ARGUMENT),
          set_decryptor d (set_encryptor e c)))"

definition s_initialize_cbc_cipher_materials :: "aws_common \<Rightarrow> 'x cc_api \<Rightarrow> aws_byte_cursor option \<Rightarrow>
    aws_byte_cursor option \<Rightarrow> 'x cc_cipher \<Rightarrow> unit result \<times> 'x cc_cipher" where
  "s_initialize_cbc_cipher_materials C A k v c =
     seq_op (cc_materials C AWS_AES_256_CIPHER_BLOCK_SIZE False k v c)
       (\<lambda>_. cc_create_both A kCCModeCBC ccPKCS7Padding No_option)"

definition s_reset :: "aws_common \<Rightarrow> 'x cc_cipher \<Rightarrow> 'x cc_cipher" where
  "s_reset C c = set_work (aws_byte_buf_secure_zero C (cc_working_buffer (cipher_impl c)))
     (set_decryptor None (set_encryptor None c))"

definition s_cbc_reset :: "aws_common \<Rightarrow> 'x cc_api \<Rightarrow> 'x cc_cipher \<Rightarrow> unit result \<times> 'x cc_cipher" where
  "s_cbc_reset C A c = s_initialize_cbc_cipher_materials C A None None (s_reset C c)"

definition cc_cbc_vtable :: "aws_common \<Rightarrow> 'x cc_api \<Rightarrow> 'x cc_aes_cipher aws_symmetric_cipher_vtable" where
  "cc_cbc_vtable C A = \<lparr>vt_reset = s_cbc_reset C A, vt_encrypt = cc_encrypt C A, vt_decrypt = cc_decrypt C A,
     vt_finalize_encryption = cc_finalize_encryption C A, vt_finalize_decryption = cc_finalize_decryption C A\<rparr>"

text \<open>A cipher from \<open>aws_mem_calloc\<close>, and the end of the constructors.\<close>

definition cc_calloc :: "nat \<Rightarrow> 'x cc_cipher" where
  "cc_calloc bs = \<lparr>iv = zero_buf, key = zero_buf, aad = zero_buf, ctag = zero_buf, block_size = bs,
     key_length_bits = AWS_AES_256_KEY_BIT_LEN, cipher_good = False,
     cipher_impl = \<lparr>encryptor_handle = None, decryptor_handle = None, cc_working_buffer = zero_buf\<rparr>\<rparr>"

definition cc_finish_new :: "aws_common \<Rightarrow> unit result \<times> 'x cc_cipher \<Rightarrow> 'x cc_cipher result" where
  "cc_finish_new C r = (if \<not> aws_mem_acquire_ok C then Inl Fatal
     else case r of (Inl f, _) \<Rightarrow> Inl f | (Inr _, c) \<Rightarrow> Inr (c\<lparr>cipher_good := True\<rparr>))"

definition cc_cbc_256_new_impl :: "aws_common \<Rightarrow> 'x cc_api \<Rightarrow> aws_byte_cursor option \<Rightarrow> aws_byte_cursor option \<Rightarrow>
    'x cc_cipher result" where
  "cc_cbc_256_new_impl C A k v =
     cc_finish_new C (s_initialize_cbc_cipher_materials C A k v (cc_calloc AWS_AES_256_CIPHER_BLOCK_SIZE))"

definition s_initialize_ctr_cipher_materials :: "aws_common \<Rightarrow> 'x cc_api \<Rightarrow> aws_byte_cursor option \<Rightarrow>
    aws_byte_cursor option \<Rightarrow> 'x cc_cipher \<Rightarrow> unit result \<times> 'x cc_cipher" where
  "s_initialize_ctr_cipher_materials C A k v c =
     seq_op (cc_materials C AWS_AES_256_CIPHER_BLOCK_SIZE True k v c)
       (\<lambda>_. cc_create_both A kCCModeCTR ccNoPadding kCCModeOptionCTR_BE)"

definition s_ctr_reset :: "aws_common \<Rightarrow> 'x cc_api \<Rightarrow> 'x cc_cipher \<Rightarrow> unit result \<times> 'x cc_cipher" where
  "s_ctr_reset C A c = s_initialize_ctr_cipher_materials C A None None (s_reset C c)"

definition cc_ctr_vtable :: "aws_common \<Rightarrow> 'x cc_api \<Rightarrow> 'x cc_aes_cipher aws_symmetric_cipher_vtable" where
  "cc_ctr_vtable C A = \<lparr>vt_reset = s_ctr_reset C A, vt_encrypt = cc_encrypt C A, vt_decrypt = cc_decrypt C A,
     vt_finalize_encryption = cc_finalize_encryption C A, vt_finalize_decryption = cc_finalize_decryption C A\<rparr>"

definition cc_ctr_256_new_impl :: "aws_common \<Rightarrow> 'x cc_api \<Rightarrow> aws_byte_cursor option \<Rightarrow> aws_byte_cursor option \<Rightarrow>
    'x cc_cipher result" where
  "cc_ctr_256_new_impl C A k v =
     cc_finish_new C (s_initialize_ctr_cipher_materials C A k v (cc_calloc AWS_AES_256_CIPHER_BLOCK_SIZE))"

section \<open>GCM\<close>

definition s_cc_crypto_gcm_finalize :: "'x cc_api \<Rightarrow> 'x option \<Rightarrow> bytes option \<Rightarrow> nat \<Rightarrow> bool \<times> bytes \<times> 'x option" where
  "s_cc_crypto_gcm_finalize A handle tag_buffer tag_length =
     (if latest_api A then CCCryptorGCMFinalize A handle tag_buffer tag_length
      else CCCryptorGCMFinal A handle tag_length)"

definition s_cc_cryptor_gcm_set_iv :: "'x cc_api \<Rightarrow> 'x option \<Rightarrow> bytes \<Rightarrow> bool \<times> 'x option" where
  "s_cc_cryptor_gcm_set_iv A handle v =
     (if latest_api A then CCCryptorGCMSetIV A handle v else CCCryptorGCMAddIV A handle v)"

text \<open>Bytes written from the start of the memory of a buffer, whatever its length is.\<close>

definition poke_start :: "aws_byte_buf \<Rightarrow> bytes \<Rightarrow> aws_byte_buf result" where
  "poke_start b bs = rbind (poke (b\<lparr>buf_len := 0\<rparr>) bs) (\<lambda>b'. Inr (b'\<lparr>buf_len := buf_len b\<rparr>))"

text \<open>The tag is written into the tag buffer, also when the caller had given a tag.\<close>

definition cc_finalize_gcm_encryption :: "aws_common \<Rightarrow> 'x cc_api \<Rightarrow> 'x cc_aes_cipher cipher_op" where
  "cc_finalize_gcm_encryption C A c out =
     (case (if buf_len (ctag c) = 0 then or_zero (aws_byte_buf_init C AWS_AES_256_CIPHER_BLOCK_SIZE) else Inr (ctag c)) of
        Inl f \<Rightarrow> (Inl f, c, out)
      | Inr t \<Rightarrow>
          (case s_cc_crypto_gcm_finalize A (encryptor_handle (cipher_impl c)) (buffer t) AWS_AES_256_CIPHER_BLOCK_SIZE of
             (False, _, h) \<Rightarrow> (Inl (Raised AWS_ERROR_INVALID_ARGUMENT),
                 (set_encryptor h c)\<lparr>ctag := t, cipher_good := False\<rparr>, out)
           | (True, written, h) \<Rightarrow> (case poke_start t written of
                 Inl f \<Rightarrow> (Inl f, c, out)
               | Inr t' \<Rightarrow> (Inr (), (set_encryptor h c)\<lparr>ctag := t'\<lparr>buf_len := AWS_AES_256_CIPHER_BLOCK_SIZE\<rparr>\<rparr>, out))))"

text \<open>Finalizing a decryption finalizes the encryptor.\<close>

definition cc_finalize_gcm_decryption :: "'x cc_api \<Rightarrow> 'x cc_aes_cipher cipher_op" where
  "cc_finalize_gcm_decryption A c out =
     (case s_cc_crypto_gcm_finalize A (encryptor_handle (cipher_impl c)) (buffer (ctag c)) AWS_AES_256_CIPHER_BLOCK_SIZE of
        (False, _, h) \<Rightarrow> (Inl (Raised AWS_ERROR_INVALID_ARGUMENT), (set_encryptor h c)\<lparr>cipher_good := False\<rparr>, out)
      | (True, written, h) \<Rightarrow> (case poke_start (ctag c) written of
            Inl f \<Rightarrow> (Inl f, c, out)
          | Inr t \<Rightarrow> (Inr (), (set_encryptor h c)\<lparr>ctag := t\<rparr>, out)))"

text \<open>One cryptor for GCM: created, given the vector and the additional data.\<close>

definition cc_gcm_cryptor :: "'x cc_api \<Rightarrow> cc_operation \<Rightarrow> ('x option \<Rightarrow> 'x cc_cipher \<Rightarrow> 'x cc_cipher) \<Rightarrow>
    'x cc_cipher \<Rightarrow> unit result \<times> 'x cc_cipher" where
  "cc_gcm_cryptor A op set_handle c =
     (case CCCryptorCreateWithMode A op kCCModeGCM ccNoPadding None (contents (key c)) kCCModeOptionCTR_BE of
        None \<Rightarrow> (Inl (Raised AWS_ERROR_INVALID_ARGUMENT), c)
      | Some h \<Rightarrow> (case s_cc_cryptor_gcm_set_iv A (Some h) (contents (iv c)) of
            (False, h) \<Rightarrow> (Inl (Raised AWS_ERROR_INVALID_ARGUMENT), set_handle h c)
          | (True, h) \<Rightarrow>
              if buf_len (aad c) \<noteq> 0 then
                (case CCCryptorGCMAddAAD A h (contents (aad c)) of
                   (False, h) \<Rightarrow> (Inl (Raised AWS_ERROR_INVALID_ARGUMENT), set_handle h c)
                 | (True, h) \<Rightarrow> (Inr (), set_handle h c))
              else (Inr (), set_handle h c)))"

text \<open>\<open>if (cur && cur->len) aws_byte_buf_init_copy_from_cursor(...)\<close>\<close>

definition copy_if_any :: "aws_common \<Rightarrow> aws_byte_cursor option \<Rightarrow> aws_byte_buf \<Rightarrow> aws_byte_buf result" where
  "copy_if_any C cur b = (case cur of
       None \<Rightarrow> Inr b
     | Some c \<Rightarrow> if cur_len c \<noteq> 0 then copy_cursor C c else Inr b)"

definition s_initialize_gcm_cipher_materials :: "aws_common \<Rightarrow> 'x cc_api \<Rightarrow> aws_byte_cursor option \<Rightarrow>
    aws_byte_cursor option \<Rightarrow> aws_byte_cursor option \<Rightarrow> aws_byte_cursor option \<Rightarrow> 'x cc_cipher \<Rightarrow>
    unit result \<times> 'x cc_cipher" where
  "s_initialize_gcm_cipher_materials C A k v a t c =
     seq_op (cc_materials C (AWS_AES_256_CIPHER_BLOCK_SIZE - 4) False k v c) (\<lambda>_ c.
     seq_op (case rbind (copy_if_any C a (aad c)) (\<lambda>ab. rbind (copy_if_any C t (ctag c)) (\<lambda>tb. Inr (ab, tb))) of
               Inl f \<Rightarrow> (Inl f, c)
             | Inr (ab, tb) \<Rightarrow> (Inr (), c\<lparr>aad := ab, ctag := tb\<rparr>)) (\<lambda>_ c.
     seq_op (cc_gcm_cryptor A kCCEncrypt set_encryptor c) (\<lambda>_.
       cc_gcm_cryptor A kCCDecrypt set_decryptor)))"

definition s_gcm_reset :: "aws_common \<Rightarrow> 'x cc_api \<Rightarrow> 'x cc_cipher \<Rightarrow> unit result \<times> 'x cc_cipher" where
  "s_gcm_reset C A c = s_initialize_gcm_cipher_materials C A None None None None (s_reset C c)"

definition cc_gcm_vtable :: "aws_common \<Rightarrow> 'x cc_api \<Rightarrow> 'x cc_aes_cipher aws_symmetric_cipher_vtable" where
  "cc_gcm_vtable C A = \<lparr>vt_reset = s_gcm_reset C A, vt_encrypt = cc_encrypt C A, vt_decrypt = cc_decrypt C A,
     vt_finalize_encryption = cc_finalize_gcm_encryption C A, vt_finalize_decryption = cc_finalize_gcm_decryption A\<rparr>"

definition cc_gcm_256_new_impl :: "aws_common \<Rightarrow> 'x cc_api \<Rightarrow> aws_byte_cursor option \<Rightarrow> aws_byte_cursor option \<Rightarrow>
    aws_byte_cursor option \<Rightarrow> aws_byte_cursor option \<Rightarrow> 'x cc_cipher result" where
  "cc_gcm_256_new_impl C A k v a t =
     cc_finish_new C (s_initialize_gcm_cipher_materials C A k v a t (cc_calloc AWS_AES_256_CIPHER_BLOCK_SIZE))"

section \<open>Key wrap\<close>

definition s_keywrap_encrypt_decrypt :: "aws_common \<Rightarrow> aws_byte_cursor \<Rightarrow> 'x cc_aes_cipher cipher_op" where
  "s_keywrap_encrypt_decrypt C inp c out =
     (case rbind (bytes_at (ptr inp) (cur_len inp))
             (aws_byte_buf_append_dynamic C (cc_working_buffer (cipher_impl c))) of
        Inl f \<Rightarrow> (Inl f, c, out)
      | Inr w \<Rightarrow> (Inr (), set_work w c, out))"

text \<open>
  The result is written from the start of the memory of \<open>out\<close>, and the length is added to that of \<open>out\<close>.
  Wrapping and unwrapping differ in the function \<open>wrap\<close> they call.
\<close>

definition finalize_keywrap :: "aws_common \<Rightarrow> (bytes \<Rightarrow> bytes \<Rightarrow> nat \<Rightarrow> bytes option) \<Rightarrow> 'x cc_aes_cipher cipher_op" where
  "finalize_keywrap C wrap c out =
     (let w = cc_working_buffer (cipher_impl c) in
      if buf_len w = 0 then (Inl (Raised AWS_ERROR_INVALID_STATE), c\<lparr>cipher_good := False\<rparr>, out)
      else let output_buffer_len = block_size c + buf_len w in
        case aws_symmetric_cipher_try_ensure_sufficient_buffer_space C out output_buffer_len of
          Inl f \<Rightarrow> (Inl (reraise AWS_ERROR_SHORT_BUFFER f), c, out)
        | Inr out \<Rightarrow> (case wrap (contents (key c)) (contents w) output_buffer_len of
              None \<Rightarrow> (Inl (Raised AWS_ERROR_INVALID_STATE), c\<lparr>cipher_good := False\<rparr>, out)
            | Some written \<Rightarrow> (case poke_start out written of
                  Inl f \<Rightarrow> (Inl f, c, out)
                | Inr out \<Rightarrow> (Inr (), c, add_len (length written) out))))"

definition s_finalize_keywrap_encryption :: "aws_common \<Rightarrow> 'x cc_api \<Rightarrow> 'x cc_aes_cipher cipher_op" where
  "s_finalize_keywrap_encryption C A = finalize_keywrap C (CCSymmetricKeyWrap A)"

definition s_finalize_keywrap_decryption :: "aws_common \<Rightarrow> 'x cc_api \<Rightarrow> 'x cc_aes_cipher cipher_op" where
  "s_finalize_keywrap_decryption C A = finalize_keywrap C (CCSymmetricKeyUnwrap A)"

definition cc_keywrap_vtable :: "aws_common \<Rightarrow> 'x cc_api \<Rightarrow> 'x cc_aes_cipher aws_symmetric_cipher_vtable" where
  "cc_keywrap_vtable C A = \<lparr>vt_reset = (\<lambda>c. (Inr (), s_reset C c)), vt_encrypt = s_keywrap_encrypt_decrypt C,
     vt_decrypt = s_keywrap_encrypt_decrypt C, vt_finalize_encryption = s_finalize_keywrap_encryption C A,
     vt_finalize_decryption = s_finalize_keywrap_decryption C A\<rparr>"

definition cc_keywrap_256_new_impl :: "aws_common \<Rightarrow> aws_byte_cursor option \<Rightarrow> 'x cc_cipher result" where
  "cc_keywrap_256_new_impl C k =
     rbind (key_material C k) (\<lambda>kb.
     rbind (or_zero (aws_byte_buf_init C (AWS_AES_256_CIPHER_BLOCK_SIZE * 2 + 8))) (\<lambda>w.
       cc_finish_new C (Inr (), set_work w ((cc_calloc (AWS_AES_256_CIPHER_BLOCK_SIZE div 2))\<lparr>key := kb\<rparr>))))"

end
