(* ===== verification/Commoncrypto_Streams.thy ===== *)
theory Commoncrypto_Streams
  imports Commoncrypto_Aes Cipher_Stream
begin

text \<open>
  Correctness of the streaming ciphers over CommonCrypto: the contract \<open>cipher_stream\<close> is interpreted on
  the vtables of CBC, CTR and GCM, for both directions at once, and the properties are about whole runs of a
  new cipher. The decryption of GCM does not look at the tag.
\<close>

section \<open>What the proofs use of CommonCrypto\<close>

text \<open>
  \<open>cst op\<close> abstracts a cryptor made for the operation \<open>op\<close> to its parameters (mode, key, vector,
  additional data), the bytes it was fed and the bytes it has written. \<open>cc_Enc\<close> and \<open>cc_Tag\<close> are the cipher text
  and the GCM tag of a message.
\<close>

type_synonym cc_params = "cc_mode \<times> bytes \<times> bytes \<times> bytes"

record 'x cc_stream =
  cst :: "cc_operation \<Rightarrow> 'x \<Rightarrow> (cc_params \<times> bytes \<times> bytes) option"
  cc_Enc :: "cc_params \<Rightarrow> bytes \<Rightarrow> bytes"
  cc_Tag :: "cc_params \<Rightarrow> bytes \<Rightarrow> bytes"

text \<open>The result of an operation on the input \<open>q\<close>.\<close>

fun cc_result :: "'x cc_stream \<Rightarrow> cc_operation \<Rightarrow> cc_params \<Rightarrow> bytes \<Rightarrow> bytes \<Rightarrow> bool" where
  "cc_result S kCCEncrypt p q t \<longleftrightarrow> t = cc_Enc S p q"
| "cc_result S kCCDecrypt p q t \<longleftrightarrow> q = cc_Enc S p t"

definition cc_update_spec :: "'x cc_api \<Rightarrow> 'x cc_stream \<Rightarrow> bool" where
  "cc_update_spec A S \<longleftrightarrow> (\<forall>op x p m w b n. cst S op x = Some (p, m, w) \<longrightarrow> length w \<le> length m \<and>
     (length b + 15 \<le> n \<longrightarrow> (\<exists>w' x'. CCCryptorUpdate A (Some x) b n = (True, w', Some x') \<and>
        cst S op x' = Some (p, m @ b, w @ w') \<and> length w' \<le> length b + 15)))"

definition cc_final_spec :: "'x cc_api \<Rightarrow> 'x cc_stream \<Rightarrow> bool" where
  "cc_final_spec A S \<longleftrightarrow>
     (\<forall>op x p q w t n. cst S op x = Some (p, q, w) \<and> cc_result S op p q t \<longrightarrow>
        (if fst p = kCCModeGCM then t = w
         else 16 \<le> n \<longrightarrow> (\<exists>w' h. CCCryptorFinal A (Some x) n = (True, w', h) \<and> t = w @ w' \<and> length w' \<le> 16))) \<and>
     (\<forall>x p m w mem. cst S kCCEncrypt x = Some (p, m, w) \<and> fst p = kCCModeGCM \<longrightarrow>
        (\<exists>h. CCCryptorGCMFinalize A (Some x) mem 16 = (True, cc_Tag S p m, h)) \<and>
        (\<exists>h. CCCryptorGCMFinal A (Some x) 16 = (True, cc_Tag S p m, h))) \<and>
     (\<forall>p m. length (cc_Tag S p m) = 16)"

definition cc_create_spec :: "'x cc_api \<Rightarrow> 'x cc_stream \<Rightarrow> bool" where
  "cc_create_spec A S \<longleftrightarrow>
     (\<forall>op md pad opt k v. (md, pad, opt) \<in> {(kCCModeCBC, ccPKCS7Padding, No_option),
          (kCCModeCTR, ccNoPadding, kCCModeOptionCTR_BE)} \<and> length k = 32 \<and> length v = 16 \<longrightarrow>
        (\<exists>x. CCCryptorCreateWithMode A op md pad (Some v) k opt = Some x \<and> cst S op x = Some ((md, k, v, []), [], []))) \<and>
     (\<forall>op k v. length k = 32 \<and> length v = 12 \<longrightarrow>
        (\<exists>x. CCCryptorCreateWithMode A op kCCModeGCM ccNoPadding None k kCCModeOptionCTR_BE = Some x \<and>
           (\<exists>y. CCCryptorGCMSetIV A (Some x) v = (True, Some y) \<and> cst S op y = Some ((kCCModeGCM, k, v, []), [], [])) \<and>
           (\<exists>y. CCCryptorGCMAddIV A (Some x) v = (True, Some y) \<and> cst S op y = Some ((kCCModeGCM, k, v, []), [], [])))) \<and>
     (\<forall>op x k v a. cst S op x = Some ((kCCModeGCM, k, v, []), [], []) \<longrightarrow>
        (\<exists>y. CCCryptorGCMAddAAD A (Some x) a = (True, Some y) \<and> cst S op y = Some ((kCCModeGCM, k, v, a), [], [])))"

definition cc_spec :: "'x cc_api \<Rightarrow> 'x cc_stream \<Rightarrow> bool" where
  "cc_spec A S \<longleftrightarrow> cc_update_spec A S \<and> cc_final_spec A S \<and> cc_create_spec A S"

lemma cc_laws:
  assumes "cc_spec A S"
  shows "cst S op x = Some (p, m, w) \<Longrightarrow> length w \<le> length m"
    and "cst S op x = Some (p, m, w) \<Longrightarrow> length b + 15 \<le> n \<Longrightarrow> \<exists>w' x'. CCCryptorUpdate A (Some x) b n = (True, w', Some x') \<and>
      cst S op x' = Some (p, m @ b, w @ w') \<and> length w' \<le> length b + 15"
    and "cst S op x = Some (p, m, w) \<Longrightarrow> cc_result S op p m t \<Longrightarrow> fst p \<noteq> kCCModeGCM \<Longrightarrow> 16 \<le> n \<Longrightarrow>
      \<exists>w' h. CCCryptorFinal A (Some x) n = (True, w', h) \<and> t = w @ w' \<and> length w' \<le> 16"
    and "cst S op x = Some (p, m, w) \<Longrightarrow> cc_result S op p m t \<Longrightarrow> fst p = kCCModeGCM \<Longrightarrow> t = w"
    and "cst S kCCEncrypt x = Some (p, m, w) \<Longrightarrow> fst p = kCCModeGCM \<Longrightarrow>
      \<exists>h. s_cc_crypto_gcm_finalize A (Some x) mem 16 = (True, cc_Tag S p m, h)"
    and "length (cc_Tag S p m) = 16"
proof -
  have u: "cc_update_spec A S" and f: "cc_final_spec A S" using assms by (simp_all add: cc_spec_def)
  show "length w \<le> length m" if "cst S op x = Some (p, m, w)"
    using u that unfolding cc_update_spec_def by blast
  show "\<exists>w' x'. CCCryptorUpdate A (Some x) b n = (True, w', Some x') \<and>
      cst S op x' = Some (p, m @ b, w @ w') \<and> length w' \<le> length b + 15"
    if "cst S op x = Some (p, m, w)" "length b + 15 \<le> n"
    using u that unfolding cc_update_spec_def by blast
  show "\<exists>w' h. CCCryptorFinal A (Some x) n = (True, w', h) \<and> t = w @ w' \<and> length w' \<le> 16"
    if "cst S op x = Some (p, m, w)" "cc_result S op p m t" "fst p \<noteq> kCCModeGCM" "16 \<le> n"
    using f that unfolding cc_final_spec_def by presburger
  show "t = w" if "cst S op x = Some (p, m, w)" "cc_result S op p m t" "fst p = kCCModeGCM"
    using f that unfolding cc_final_spec_def by presburger
  have "(\<exists>h. CCCryptorGCMFinalize A (Some x) mem 16 = (True, cc_Tag S p m, h)) \<and>
      (\<exists>h. CCCryptorGCMFinal A (Some x) 16 = (True, cc_Tag S p m, h))"
    if "cst S kCCEncrypt x = Some (p, m, w)" "fst p = kCCModeGCM"
    using f that unfolding cc_final_spec_def by blast
  then show "\<exists>h. s_cc_crypto_gcm_finalize A (Some x) mem 16 = (True, cc_Tag S p m, h)"
    if "cst S kCCEncrypt x = Some (p, m, w)" "fst p = kCCModeGCM"
    using that unfolding s_cc_crypto_gcm_finalize_def by (cases "latest_api A") simp_all
  show "length (cc_Tag S p m) = 16" using f unfolding cc_final_spec_def by blast
qed

section \<open>Directions and modes\<close>

fun handle_of :: "cc_operation \<Rightarrow> 'x cc_cipher \<Rightarrow> 'x option" where
  "handle_of kCCEncrypt c = encryptor_handle (cipher_impl c)"
| "handle_of kCCDecrypt c = decryptor_handle (cipher_impl c)"

fun set_handle :: "cc_operation \<Rightarrow> 'x option \<Rightarrow> 'x cc_cipher \<Rightarrow> 'x cc_cipher" where
  "set_handle kCCEncrypt = set_encryptor"
| "set_handle kCCDecrypt = set_decryptor"

fun cc_feed :: "cc_operation \<Rightarrow> aws_byte_cursor \<Rightarrow> cipher_call" where
  "cc_feed kCCEncrypt = Encrypt"
| "cc_feed kCCDecrypt = Decrypt"

fun cc_finish :: "cc_operation \<Rightarrow> cipher_call" where
  "cc_finish kCCEncrypt = Finalize_encryption"
| "cc_finish kCCDecrypt = Finalize_decryption"

fun cc_vtable :: "aws_common \<Rightarrow> 'x cc_api \<Rightarrow> cc_mode \<Rightarrow> 'x cc_aes_cipher aws_symmetric_cipher_vtable" where
  "cc_vtable C A kCCModeCBC = cc_cbc_vtable C A"
| "cc_vtable C A kCCModeCTR = cc_ctr_vtable C A"
| "cc_vtable C A kCCModeGCM = cc_gcm_vtable C A"

fun cc_new :: "aws_common \<Rightarrow> 'x cc_api \<Rightarrow> cc_mode \<Rightarrow> aws_byte_cursor \<Rightarrow> aws_byte_cursor \<Rightarrow>
    aws_byte_cursor option \<Rightarrow> aws_byte_cursor option \<Rightarrow> 'x cc_cipher result" where
  "cc_new C A kCCModeCBC k v a t = cc_cbc_256_new_impl C A (Some k) (Some v)"
| "cc_new C A kCCModeCTR k v a t = cc_ctr_256_new_impl C A (Some k) (Some v)"
| "cc_new C A kCCModeGCM k v a t = cc_gcm_256_new_impl C A (Some k) (Some v) a t"

lemma handle_sel [simp]:
  "handle_of op (set_handle op h c) = h" "op \<noteq> op' \<Longrightarrow> handle_of op (set_handle op' h c) = handle_of op c"
  "cipher_good (set_handle op h c) = cipher_good c" "block_size (set_handle op h c) = block_size c"
  "key (set_handle op h c) = key c" "iv (set_handle op h c) = iv c" "aad (set_handle op h c) = aad c"
  "ctag (set_handle op h c) = ctag c"
  by (cases op; cases op'; simp add: set_encryptor_def set_decryptor_def)+

lemma handle_upd [simp]: "handle_of op (c\<lparr>cipher_good := g\<rparr>) = handle_of op c" "handle_of op (c\<lparr>ctag := t\<rparr>) = handle_of op c"
  by (cases op; simp)+

text \<open>Feeding and finalizing a good cipher, in both directions.\<close>

definition cc_step :: "aws_common \<Rightarrow> cc_operation \<Rightarrow> nat \<Rightarrow> (aws_byte_buf \<Rightarrow> bool \<times> bytes \<times> 'x option) \<Rightarrow>
    'x cc_aes_cipher cipher_op" where
  "cc_step C op n call c out =
     (case aws_symmetric_cipher_try_ensure_sufficient_buffer_space C out n of
        Inl f \<Rightarrow> (Inl (reraise AWS_ERROR_SHORT_BUFFER f), c, out)
      | Inr out \<Rightarrow> cc_output (set_handle op) (call out) c out)"

lemmas cc_vtable_simps = cc_cbc_vtable_def cc_ctr_vtable_def cc_gcm_vtable_def

lemma cc_good_feed:
  assumes g: "cipher_good c" "block_size c = 16" and b: "bytes_at (ptr cur) (cur_len cur) = Inr b" "length b + 16 \<le> INT_MAX"
  shows "run_call (cc_vtable C A md) (cc_feed op cur) c out =
    cc_step C op (length b + 15) (\<lambda>out. CCCryptorUpdate A (handle_of op c) b (buf_room out)) c out"
proof -
  have "cur_len cur = length b" using bytes_at_length [OF b(1)] by simp
  with assms show ?thesis
    by (cases md; cases op; simp add: cc_vtable_simps cc_step_def cc_encrypt_def cc_decrypt_def
        aws_symmetric_cipher_encrypt_def aws_symmetric_cipher_decrypt_def s_check_input_size_limits_def add.commute
        split: sum.split)
qed

lemma cc_good_finish:
  assumes g: "cipher_good c" "block_size c = 16"
  shows "md \<noteq> kCCModeGCM \<Longrightarrow> run_call (cc_vtable C A md) (cc_finish op) c out =
      (case cc_step C op 16 (\<lambda>out. CCCryptorFinal A (handle_of op c) (buf_room out)) c out of
         (r, c', out') \<Rightarrow> (r, c'\<lparr>cipher_good := False\<rparr>, out'))"
    and "run_call (cc_vtable C A kCCModeGCM) (cc_finish op) c out =
      (case (case op of kCCEncrypt \<Rightarrow> cc_finalize_gcm_encryption C A c out | kCCDecrypt \<Rightarrow> cc_finalize_gcm_decryption A c out) of
         (r, c', out') \<Rightarrow> (r, c'\<lparr>cipher_good := False\<rparr>, out'))"
  using assms
  by (cases md; cases op; simp add: cc_vtable_simps cc_step_def aws_symmetric_cipher_finalize_encryption_def
      aws_symmetric_cipher_finalize_decryption_def cc_finalize_encryption_def cc_finalize_decryption_def
      split: sum.split)+

text \<open>Making room and one successful call.\<close>

lemma cc_step_ok:
  assumes C: "common_spec C" and out: "valid_buf out" "allocator out" "buf_len out + n \<le> SIZE_MAX div 2"
    and call: "\<And>out1. n \<le> buf_room out1 \<Longrightarrow> \<exists>w h. call out1 = (True, w, h) \<and> length w \<le> n \<and> Q w h"
  shows "\<exists>w h out'. cc_step C op n call c out = (Inr (), set_handle op h c, out') \<and> Q w h \<and> valid_buf out' \<and>
    allocator out' \<and> contents out' = contents out @ w"
proof -
  obtain out1 where o1: "aws_symmetric_cipher_try_ensure_sufficient_buffer_space C out n = Inr out1"
      "valid_buf out1" "contents out1 = contents out" "n \<le> room out1" "allocator out1"
    using ensure_space [OF C out(1,3)] out(2) by auto
  then have "n \<le> buf_room out1" by simp
  then obtain w h where w: "call out1 = (True, w, h)" "length w \<le> n" "Q w h" using call by blast
  obtain b1 where "poke out1 w = Inr b1" "appends out1 w (Some (add_len (length w) b1))"
    by (rule poke_appends [OF o1(2) le_trans [OF w(2) o1(4)]])
  with o1 w show ?thesis by (auto simp: cc_step_def cc_output_def appends_def)
qed

section \<open>The stream contract\<close>

text \<open>The memory of the tag buffer: to finalize a decryption the encryptor must be at its start and the tag
  buffer must have memory, since finalizing writes the tag of the encryptor there.\<close>

fun gcm_ready :: "'x cc_stream \<Rightarrow> cc_operation \<Rightarrow> cc_params \<Rightarrow> 'x cc_cipher \<Rightarrow> bool" where
  "gcm_ready S kCCEncrypt p c \<longleftrightarrow> valid_buf (ctag c) \<and> (buf_len (ctag c) = 0 \<or> capacity (ctag c) = 16)"
| "gcm_ready S kCCDecrypt p c \<longleftrightarrow> valid_buf (ctag c) \<and> buf_len (ctag c) = 16 \<and> capacity (ctag c) = 16 \<and>
     (\<exists>x. encryptor_handle (cipher_impl c) = Some x \<and> cst S kCCEncrypt x = Some (p, [], []))"

type_synonym cc_mats = "aws_byte_buf \<times> aws_byte_buf \<times> aws_byte_buf"

definition cc_io :: "aws_common \<Rightarrow> 'x cc_api \<Rightarrow> 'x cc_stream \<Rightarrow> cc_mode \<Rightarrow> cc_operation \<Rightarrow> 'x cc_cipher \<Rightarrow>
    cc_params \<times> cc_mats \<Rightarrow> bytes \<Rightarrow> bytes \<Rightarrow> bool" where
  "cc_io C A S md op c pm m w \<longleftrightarrow> common_spec C \<and> cc_spec A S \<and> cipher_good c \<and> block_size c = 16 \<and>
     (\<exists>x. handle_of op c = Some x \<and> cst S op x = Some (fst pm, m, w)) \<and> fst (fst pm) = md \<and>
     (md = kCCModeGCM \<longrightarrow> gcm_ready S op (fst pm) c) \<and> snd pm = (key c, iv c, aad c)"

text \<open>What finalizing leaves: the materials, and in the tag buffer the tag of what the encryptor was fed.\<close>

definition cc_finished :: "'x cc_stream \<Rightarrow> cc_mode \<Rightarrow> cc_operation \<Rightarrow> cc_params \<times> cc_mats \<Rightarrow> bytes \<Rightarrow> 'x cc_cipher \<Rightarrow> bool" where
  "cc_finished S md op pm m c \<longleftrightarrow> block_size c = 16 \<and> snd pm = (key c, iv c, aad c) \<and>
     (md = kCCModeGCM \<longrightarrow> valid_buf (ctag c) \<and> capacity (ctag c) = 16 \<and>
        contents (ctag c) = cc_Tag S (fst pm) (if op = kCCEncrypt then m else []))"

lemma cc_feed_ok:
  assumes io: "cc_io C A S md op c pm m w" and b: "bytes_at (ptr cur) (cur_len cur) = Inr b"
    and len: "length b + 16 \<le> INT_MAX" and out: "valid_buf out" "allocator out" "buf_len out + length b + 16 \<le> SIZE_MAX div 2"
  shows "\<exists>w' c' out'. run_call (cc_vtable C A md) (cc_feed op cur) c out = (Inr (), c', out') \<and>
    cc_io C A S md op c' pm (m @ b) (w @ w') \<and> valid_buf out' \<and> allocator out' \<and> contents out' = contents out @ w'"
proof -
  from io obtain x where C: "common_spec C" and S: "cc_spec A S" and g: "cipher_good c" "block_size c = 16"
    and x: "handle_of op c = Some x" "cst S op x = Some (fst pm, m, w)"
    by (auto simp: cc_io_def)
  have "buf_len out + (length b + 15) \<le> SIZE_MAX div 2" using out(3) by linarith
  from cc_step_ok [OF C out(1,2) this, of "\<lambda>out. CCCryptorUpdate A (handle_of op c) b (buf_room out)"
      "\<lambda>w' h. \<exists>x'. h = Some x' \<and> cst S op x' = Some (fst pm, m @ b, w @ w')" op c]
    cc_laws(2) [OF S x(2)] x(1)
  obtain w' x' out' where r: "cc_step C op (length b + 15) (\<lambda>out. CCCryptorUpdate A (handle_of op c) b (buf_room out)) c out =
      (Inr (), set_handle op (Some x') c, out')" "cst S op x' = Some (fst pm, m @ b, w @ w')" "valid_buf out'"
      "allocator out'" "contents out' = contents out @ w'"
    by fastforce
  have "gcm_ready S op (fst pm) (set_handle op (Some x') c)" if "gcm_ready S op (fst pm) c"
    using that by (cases op) (simp_all add: set_encryptor_def set_decryptor_def)
  then have "cc_io C A S md op (set_handle op (Some x') c) pm (m @ b) (w @ w')"
    using io r(2) by (simp add: cc_io_def)
  with r cc_good_feed [OF g b len, of C A md op out] show ?thesis by auto
qed

lemma tag_written:
  assumes "valid_buf t" and "capacity t = 16" and "length bs = 16"
  shows "\<exists>t'. poke_start t bs = Inr t' \<and> capacity t' = 16 \<and> buf_len t' = buf_len t \<and> valid_buf t' \<and>
    valid_buf (t'\<lparr>buf_len := 16\<rparr>) \<and> contents (t'\<lparr>buf_len := 16\<rparr>) = bs"
proof -
  obtain mem where mem: "buffer t = Some mem" "length mem = 16" "buf_len t \<le> 16"
    using assms(1,2) by (cases "buffer t") (auto simp: valid_buf_def)
  then have "poke_start t bs = Inr (t\<lparr>buffer := Some bs\<rparr>)"
    using assms(3) by (cases bs) (auto simp: poke_start_def poke_def overwrite_def)
  with mem assms show ?thesis by (auto simp: valid_buf_def contents_def)
qed

lemma cc_finish_gcm:
  assumes io: "cc_io C A S kCCModeGCM op c pm m w"
  shows "\<exists>c'. run_call (cc_vtable C A kCCModeGCM) (cc_finish op) c out = (Inr (), c', out) \<and> cc_finished S kCCModeGCM op pm m c'"
proof -
  from io have C: "common_spec C" and S: "cc_spec A S" and g: "cipher_good c" "block_size c = 16"
    and r: "gcm_ready S op (fst pm) c" and p: "fst (fst pm) = kCCModeGCM" "snd pm = (key c, iv c, aad c)"
    by (auto simp: cc_io_def)
  define m' where "m' = (if op = kCCEncrypt then m else [])"
  obtain x w' where x: "encryptor_handle (cipher_impl c) = Some x" "cst S kCCEncrypt x = Some (fst pm, m', w')"
    using io r by (cases op) (auto simp: cc_io_def m'_def)
  obtain t where t: "(if op = kCCEncrypt \<and> buf_len (ctag c) = 0 then or_zero (aws_byte_buf_init C 16) else Inr (ctag c)) = Inr t"
      "valid_buf t" "capacity t = 16" "op = kCCDecrypt \<longrightarrow> t = ctag c \<and> buf_len t = 16"
  proof (cases "op = kCCEncrypt \<and> buf_len (ctag c) = 0")
    case True
    with that init_law [OF C, of 16] show ?thesis by (auto simp: or_zero_def fresh_buf_def)
  next
    case False
    with that r show ?thesis by (cases op) auto
  qed
  obtain h where h: "s_cc_crypto_gcm_finalize A (Some x) (buffer t) 16 = (True, cc_Tag S (fst pm) m', h)"
    using cc_laws(5) [OF S x(2) p(1)] by blast
  obtain t' where t': "poke_start t (cc_Tag S (fst pm) m') = Inr t'" "capacity t' = 16" "buf_len t' = buf_len t" "valid_buf t'"
      "valid_buf (t'\<lparr>buf_len := 16\<rparr>)" "contents (t'\<lparr>buf_len := 16\<rparr>) = cc_Tag S (fst pm) m'"
    using tag_written [OF t(2,3) cc_laws(6) [OF S]] by blast
  show ?thesis
  proof (cases op)
    case kCCEncrypt
    with t(1) h t' x(1) g p show ?thesis
      unfolding cc_good_finish(2) [OF g] by (auto simp: cc_finalize_gcm_encryption_def cc_finished_def set_encryptor_def m'_def)
  next
    case kCCDecrypt
    with t(4) t'(3) have e: "t = ctag c" "t'\<lparr>buf_len := 16\<rparr> = t'" by (simp, cases t', simp)
    with kCCDecrypt h t' x(1) g p show ?thesis
      unfolding cc_good_finish(2) [OF g] by (auto simp: cc_finalize_gcm_decryption_def cc_finished_def set_encryptor_def m'_def)
  qed
qed

lemma cc_finish_ok:
  assumes io: "cc_io C A S md op c pm m w" and t: "cc_result S op (fst pm) m t"
    and out: "valid_buf out" "allocator out" "buf_len out + 16 \<le> SIZE_MAX div 2"
  shows "\<exists>w' c' out'. run_call (cc_vtable C A md) (cc_finish op) c out = (Inr (), c', out') \<and> t = w @ w' \<and>
    cc_finished S md op pm m c' \<and> valid_buf out' \<and> contents out' = contents out @ w'"
proof -
  from io obtain x where C: "common_spec C" and S: "cc_spec A S" and g: "cipher_good c" "block_size c = 16"
    and x: "handle_of op c = Some x" "cst S op x = Some (fst pm, m, w)" and p: "fst (fst pm) = md" "snd pm = (key c, iv c, aad c)"
    by (auto simp: cc_io_def)
  show ?thesis
  proof (cases "md = kCCModeGCM")
    case True
    with cc_finish_gcm [of C A S op c pm m w out] cc_laws(4) [OF S x(2) t] io p out(1) show ?thesis by auto
  next
    case False
    then have np: "fst (fst pm) \<noteq> kCCModeGCM" using p by simp
    from cc_step_ok [OF C out, of "\<lambda>out. CCCryptorFinal A (handle_of op c) (buf_room out)" "\<lambda>w' h. t = w @ w'" op c]
      cc_laws(3) [OF S x(2) t np] x(1)
    obtain w' h out' where "cc_step C op 16 (\<lambda>out. CCCryptorFinal A (handle_of op c) (buf_room out)) c out =
        (Inr (), set_handle op h c, out')" "t = w @ w'" "valid_buf out'" "contents out' = contents out @ w'"
      by fastforce
    with cc_good_finish(1) [OF g False] False g p show ?thesis by (auto simp: cc_finished_def)
  qed
qed

interpretation cc: cipher_stream "cc_vtable C A md" "cc_feed op" "cc_finish op" "cc_io C A S md op"
  "\<lambda>_. SIZE_MAX div 2" "SIZE_MAX div 2" "\<lambda>pm. cc_result S op (fst pm)" "\<lambda>_ _. False" "cc_finished S md op" for C A S md op
proof (unfold_locales, goal_cases)
  case (1 c p m w cur b out)
  then show ?case using cc_feed_ok [OF 1(1-3,5,6)] by (fastforce simp: valid_buf_def)
next
  case (2 c p m w)
  then show ?case by (auto simp: cc_io_def dest: cc_laws(1))
next
  case (3 c p m w t out)
  then show ?case by (intro cc_finish_ok) simp_all
qed simp

section \<open>New and reset ciphers\<close>

lemma cc_create_laws:
  assumes "cc_spec A S"
  shows "(md, pad, opt) \<in> {(kCCModeCBC, ccPKCS7Padding, No_option), (kCCModeCTR, ccNoPadding, kCCModeOptionCTR_BE)} \<Longrightarrow>
      length k = 32 \<Longrightarrow> length v = 16 \<Longrightarrow>
      \<exists>x. CCCryptorCreateWithMode A op md pad (Some v) k opt = Some x \<and> cst S op x = Some ((md, k, v, []), [], [])"
    and "length k = 32 \<Longrightarrow> length v = 12 \<Longrightarrow>
      \<exists>x y. CCCryptorCreateWithMode A op kCCModeGCM ccNoPadding None k kCCModeOptionCTR_BE = Some x \<and>
        s_cc_cryptor_gcm_set_iv A (Some x) v = (True, Some y) \<and> cst S op y = Some ((kCCModeGCM, k, v, []), [], [])"
    and "cst S op x = Some ((kCCModeGCM, k, v, []), [], []) \<Longrightarrow>
      \<exists>y. CCCryptorGCMAddAAD A (Some x) a = (True, Some y) \<and> cst S op y = Some ((kCCModeGCM, k, v, a), [], [])"
proof -
  have c: "cc_create_spec A S" using assms by (simp add: cc_spec_def)
  show "\<exists>x. CCCryptorCreateWithMode A op md pad (Some v) k opt = Some x \<and> cst S op x = Some ((md, k, v, []), [], [])"
    if "(md, pad, opt) \<in> {(kCCModeCBC, ccPKCS7Padding, No_option), (kCCModeCTR, ccNoPadding, kCCModeOptionCTR_BE)}"
      "length k = 32" "length v = 16"
    using c that unfolding cc_create_spec_def by blast
  show "\<exists>x y. CCCryptorCreateWithMode A op kCCModeGCM ccNoPadding None k kCCModeOptionCTR_BE = Some x \<and>
      s_cc_cryptor_gcm_set_iv A (Some x) v = (True, Some y) \<and> cst S op y = Some ((kCCModeGCM, k, v, []), [], [])"
    if "length k = 32" "length v = 12"
  proof -
    from c that obtain x y z where "CCCryptorCreateWithMode A op kCCModeGCM ccNoPadding None k kCCModeOptionCTR_BE = Some x"
        "CCCryptorGCMSetIV A (Some x) v = (True, Some y)" "cst S op y = Some ((kCCModeGCM, k, v, []), [], [])"
        "CCCryptorGCMAddIV A (Some x) v = (True, Some z)" "cst S op z = Some ((kCCModeGCM, k, v, []), [], [])"
      unfolding cc_create_spec_def by meson
    then show ?thesis unfolding s_cc_cryptor_gcm_set_iv_def by (cases "latest_api A") auto
  qed
  show "\<exists>y. CCCryptorGCMAddAAD A (Some x) a = (True, Some y) \<and> cst S op y = Some ((kCCModeGCM, k, v, a), [], [])"
    if "cst S op x = Some ((kCCModeGCM, k, v, []), [], [])"
    using c that unfolding cc_create_spec_def by blast
qed

definition cc_iv_len :: "cc_mode \<Rightarrow> nat" where
  "cc_iv_len md = (if md = kCCModeGCM then 12 else 16)"

definition cc_p :: "cc_mode \<Rightarrow> bytes \<Rightarrow> bytes \<Rightarrow> bytes \<Rightarrow> cc_params" where
  "cc_p md k v a = (md, k, v, if md = kCCModeGCM then a else [])"

text \<open>The materials are in memory.\<close>

definition cc_has :: "bytes \<Rightarrow> bytes \<Rightarrow> bytes \<Rightarrow> 'x cc_cipher \<Rightarrow> bool" where
  "cc_has k v a c \<longleftrightarrow> contents (key c) = k \<and> buf_len (key c) = length k \<and> length k = 32 \<and>
     buffer (iv c) = Some v \<and> contents (iv c) = v \<and> buf_len (iv c) = length v \<and>
     valid_buf (aad c) \<and> contents (aad c) = a"

fun cc_create :: "'x cc_api \<Rightarrow> cc_mode \<Rightarrow> 'x cc_cipher \<Rightarrow> unit result \<times> 'x cc_cipher" where
  "cc_create A kCCModeCBC c = cc_create_both A kCCModeCBC ccPKCS7Padding No_option c"
| "cc_create A kCCModeCTR c = cc_create_both A kCCModeCTR ccNoPadding kCCModeOptionCTR_BE c"
| "cc_create A kCCModeGCM c =
     seq_op (cc_gcm_cryptor A kCCEncrypt set_encryptor c) (\<lambda>_. cc_gcm_cryptor A kCCDecrypt set_decryptor)"

lemma gcm_cryptor_ok:
  assumes S: "cc_spec A S" and c: "cc_has k v a c" "length v = 12"
  shows "\<exists>x. cc_gcm_cryptor A op sh c = (Inr (), sh (Some x) c) \<and> cst S op x = Some ((kCCModeGCM, k, v, a), [], [])"
proof -
  obtain x y where x: "CCCryptorCreateWithMode A op kCCModeGCM ccNoPadding None k kCCModeOptionCTR_BE = Some x"
      "s_cc_cryptor_gcm_set_iv A (Some x) v = (True, Some y)" "cst S op y = Some ((kCCModeGCM, k, v, []), [], [])"
    using cc_create_laws(2) [OF S, of k v op] c by (auto simp: cc_has_def)
  obtain z where z: "CCCryptorGCMAddAAD A (Some y) a = (True, Some z)" "cst S op z = Some ((kCCModeGCM, k, v, a), [], [])"
    using cc_create_laws(3) [OF S x(3)] by blast
  have a: "buf_len (aad c) = 0 \<longleftrightarrow> a = []" using c(1) length_contents by (fastforce simp: cc_has_def)
  show ?thesis
  proof (cases "a = []")
    case True
    with x c a show ?thesis by (auto simp: cc_gcm_cryptor_def cc_has_def)
  next
    case False
    with x c a z show ?thesis by (auto simp: cc_gcm_cryptor_def cc_has_def)
  qed
qed

lemma cc_create_ok:
  assumes S: "cc_spec A S" and c: "cc_has k v a c" "length v = cc_iv_len md"
  shows "\<exists>x y. cc_create A md c = (Inr (), set_decryptor (Some y) (set_encryptor (Some x) c)) \<and>
    cst S kCCEncrypt x = Some (cc_p md k v a, [], []) \<and> cst S kCCDecrypt y = Some (cc_p md k v a, [], [])"
proof (cases "md = kCCModeGCM")
  case True
  then have v: "length v = 12" using c by (simp add: cc_iv_len_def)
  obtain x where x: "cc_gcm_cryptor A kCCEncrypt set_encryptor c = (Inr (), set_encryptor (Some x) c)"
      "cst S kCCEncrypt x = Some ((kCCModeGCM, k, v, a), [], [])" using gcm_cryptor_ok [OF S c(1) v] by blast
  have "cc_has k v a (set_encryptor (Some x) c)" using c(1) by (simp add: cc_has_def set_encryptor_def)
  from gcm_cryptor_ok [OF S this v, of kCCDecrypt set_decryptor] x True show ?thesis by (auto simp: cc_p_def)
next
  case False
  define pad where "pad = (if md = kCCModeCBC then ccPKCS7Padding else ccNoPadding)"
  define opt where "opt = (if md = kCCModeCBC then No_option else kCCModeOptionCTR_BE)"
  have m: "(md, pad, opt) \<in> {(kCCModeCBC, ccPKCS7Padding, No_option), (kCCModeCTR, ccNoPadding, kCCModeOptionCTR_BE)}"
    using False by (cases md) (simp_all add: pad_def opt_def)
  have l: "length k = 32" "length v = 16" using c False by (simp_all add: cc_has_def cc_iv_len_def)
  have run: "cc_create A md c = cc_create_both A md pad opt c"
    using False by (cases md) (simp_all add: pad_def opt_def)
  obtain x where "CCCryptorCreateWithMode A kCCEncrypt md pad (Some v) k opt = Some x" "cst S kCCEncrypt x = Some ((md, k, v, []), [], [])"
    using cc_create_laws(1) [OF S m l] by blast
  moreover obtain y where "CCCryptorCreateWithMode A kCCDecrypt md pad (Some v) k opt = Some y" "cst S kCCDecrypt y = Some ((md, k, v, []), [], [])"
    using cc_create_laws(1) [OF S m l] by blast
  ultimately show ?thesis using c(1) False unfolding run by (auto simp: cc_create_both_def Let_def cc_has_def cc_p_def)
qed

text \<open>A good cipher whose two cryptors are at their start.\<close>

definition cc_ready :: "aws_common \<Rightarrow> 'x cc_api \<Rightarrow> 'x cc_stream \<Rightarrow> cc_mode \<Rightarrow> bytes \<Rightarrow> bytes \<Rightarrow> bytes \<Rightarrow> 'x cc_cipher \<Rightarrow> bool" where
  "cc_ready C A S md k v a c \<longleftrightarrow> common_spec C \<and> cc_spec A S \<and> cipher_good c \<and> block_size c = 16 \<and> cc_has k v a c \<and>
     (\<forall>op. \<exists>x. handle_of op c = Some x \<and> cst S op x = Some (cc_p md k v a, [], []))"

lemma ready_io:
  assumes "cc_ready C A S md k v a c" and "md = kCCModeGCM \<longrightarrow> valid_buf (ctag c) \<and>
    (if op = kCCEncrypt then buf_len (ctag c) = 0 \<or> capacity (ctag c) = 16 else buf_len (ctag c) = 16 \<and> capacity (ctag c) = 16)"
  shows "cc_io C A S md op c (cc_p md k v a, key c, iv c, aad c) [] []"
proof -
  have "\<exists>x. encryptor_handle (cipher_impl c) = Some x \<and> cst S kCCEncrypt x = Some (cc_p md k v a, [], [])"
    using assms(1) handle_of.simps(1) unfolding cc_ready_def by metis
  moreover have "\<exists>x. decryptor_handle (cipher_impl c) = Some x \<and> cst S kCCDecrypt x = Some (cc_p md k v a, [], [])"
    using assms(1) handle_of.simps(2) unfolding cc_ready_def by metis
  moreover have "fst (cc_p md k v a) = md" by (simp add: cc_p_def)
  ultimately show ?thesis using assms by (cases op) (auto simp: cc_io_def cc_ready_def)
qed

lemma created_ready:
  assumes C: "common_spec C" and S: "cc_spec A S" and c: "cc_has k v a c" "length v = cc_iv_len md" "block_size c = 16"
  shows "\<exists>c'. cc_create A md c = (Inr (), c') \<and> cc_ready C A S md k v a (c'\<lparr>cipher_good := True\<rparr>) \<and> ctag c' = ctag c"
proof -
  obtain x y where xy: "cc_create A md c = (Inr (), set_decryptor (Some y) (set_encryptor (Some x) c))"
      "cst S kCCEncrypt x = Some (cc_p md k v a, [], [])" "cst S kCCDecrypt y = Some (cc_p md k v a, [], [])"
    using cc_create_ok [OF S c(1,2)] by blast
  have "\<exists>z. handle_of op (set_decryptor (Some y) (set_encryptor (Some x) c)\<lparr>cipher_good := True\<rparr>) = Some z \<and>
      cst S op z = Some (cc_p md k v a, [], [])" for op
    using xy by (cases op) (simp_all add: set_encryptor_def set_decryptor_def)
  with C S c xy(1) show ?thesis by (auto simp: cc_ready_def cc_has_def set_encryptor_def set_decryptor_def)
qed

text \<open>The three initializations as one: the materials, then the cryptors.\<close>

fun cc_init :: "aws_common \<Rightarrow> 'x cc_api \<Rightarrow> cc_mode \<Rightarrow> aws_byte_cursor option \<Rightarrow> aws_byte_cursor option \<Rightarrow> aws_byte_cursor option \<Rightarrow>
    aws_byte_cursor option \<Rightarrow> 'x cc_cipher \<Rightarrow> unit result \<times> 'x cc_cipher" where
  "cc_init C A kCCModeCBC k v a t c = s_initialize_cbc_cipher_materials C A k v c"
| "cc_init C A kCCModeCTR k v a t c = s_initialize_ctr_cipher_materials C A k v c"
| "cc_init C A kCCModeGCM k v a t c = s_initialize_gcm_cipher_materials C A k v a t c"

lemma cc_init_steps:
  assumes "cc_materials C (cc_iv_len md) (md = kCCModeCTR) k v c = (Inr (), c1)"
    and "md = kCCModeGCM \<longrightarrow> copy_if_any C a (aad c1) = Inr ab \<and> copy_if_any C t (ctag c1) = Inr tb"
    and "md \<noteq> kCCModeGCM \<longrightarrow> ab = aad c1 \<and> tb = ctag c1"
  shows "cc_init C A md k v a t c = cc_create A md (c1\<lparr>aad := ab, ctag := tb\<rparr>)"
  using assms
  by (cases md) (simp_all add: s_initialize_cbc_cipher_materials_def s_initialize_ctr_cipher_materials_def
      s_initialize_gcm_cipher_materials_def cc_iv_len_def)

lemma cc_reset_init:
  "aws_symmetric_cipher_reset (cc_vtable C A md) c = (case cc_init C A md None None None None (s_reset C c) of
     (Inr _, c') \<Rightarrow> (Inr (), c'\<lparr>cipher_good := True\<rparr>) | (Inl e, c') \<Rightarrow> (Inl e, c'))"
  by (cases md) (simp_all add: aws_symmetric_cipher_reset_def cc_vtable_simps s_cbc_reset_def s_ctr_reset_def s_gcm_reset_def)

lemma cc_reset_ok:
  assumes C: "common_spec C" and S: "cc_spec A S" and c: "cc_has k v a c" "length v = cc_iv_len md" "block_size c = 16"
  shows "\<exists>c'. aws_symmetric_cipher_reset (cc_vtable C A md) c = (Inr (), c') \<and> cc_ready C A S md k v a c' \<and> ctag c' = ctag c"
proof -
  let ?c = "s_reset C c"
  have s: "key ?c = key c" "iv ?c = iv c" "aad ?c = aad c" "ctag ?c = ctag c" "block_size ?c = block_size c"
    by (simp_all add: s_reset_def set_work_def set_decryptor_def set_encryptor_def)
  have h: "cc_has k v a ?c" using c(1) s by (simp add: cc_has_def)
  have "buf_len (key ?c) \<noteq> 0" "buf_len (iv ?c) \<noteq> 0" using h c(2) by (auto simp: cc_has_def cc_iv_len_def split: if_splits)
  then have "cc_materials C (cc_iv_len md) (md = kCCModeCTR) None None ?c = (Inr (), ?c)" by (simp add: cc_materials_def)
  then have i: "cc_init C A md None None None None ?c = cc_create A md (?c\<lparr>aad := aad ?c, ctag := ctag ?c\<rparr>)"
    by (rule cc_init_steps) (simp_all add: copy_if_any_def)
  have e: "?c\<lparr>aad := aad ?c, ctag := ctag ?c\<rparr> = ?c" by simp
  obtain c' where c': "cc_create A md ?c = (Inr (), c')" "cc_ready C A S md k v a (c'\<lparr>cipher_good := True\<rparr>)" "ctag c' = ctag ?c"
    using created_ready [OF C S h c(2)] s c(3) by auto
  have "cc_init C A md None None None None ?c = (Inr (), c')" unfolding i e by (rule c'(1))
  with c'(2,3) s(4) show ?thesis unfolding cc_reset_init by simp
qed

lemma copy_any:
  assumes "common_spec C" and "bytes_at (ptr cur) (cur_len cur) = Inr a" and "length a \<le> SIZE_MAX div 2"
  shows "\<exists>b. copy_if_any C (Some cur) zero_buf = Inr b \<and> valid_buf b \<and> contents b = a \<and> buf_len b = length a \<and>
    (a \<noteq> [] \<longrightarrow> buffer b = Some a)"
proof (cases "a = []")
  case True
  with assms(2) bytes_at_length [OF assms(2)] show ?thesis by (simp add: copy_if_any_def zero_buf_def valid_buf_def contents_def)
next
  case False
  then have "cur_len cur \<noteq> 0" using bytes_at_length [OF assms(2)] by (metis length_0_conv)
  with copied [OF assms] show ?thesis by (auto simp: copy_if_any_def)
qed

lemma cc_new_ok:
  assumes C: "common_spec C" and S: "cc_spec A S"
    and k: "bytes_at (ptr kc) (cur_len kc) = Inr k" "length k = 32"
    and v: "bytes_at (ptr vc) (cur_len vc) = Inr v" "length v = cc_iv_len md"
    and a: "bytes_at (ptr ac) (cur_len ac) = Inr a" "length a \<le> SIZE_MAX div 2"
    and t: "copy_if_any C tc zero_buf = Inr tb"
  shows "\<exists>c a'. cc_new C A md kc vc (Some ac) tc = Inr c \<and> cc_ready C A S md k v a' c \<and>
    (md = kCCModeGCM \<longrightarrow> a' = a \<and> ctag c = tb)"
proof -
  have l: "length k \<le> SIZE_MAX div 2" "length v \<le> SIZE_MAX div 2" "k \<noteq> []" "v \<noteq> []"
    using k(2) v(2) by (auto simp: cc_iv_len_def split: if_splits)
  obtain kb where kb: "copy_cursor C kc = Inr kb" "valid_buf kb" "contents kb = k" "buf_len kb = length k" using copied [OF C k(1) l(1)] by blast
  obtain vb where vb: "copy_cursor C vc = Inr vb" "valid_buf vb" "contents vb = v" "buf_len vb = length v" "buffer vb = Some v"
    using copied [OF C v(1) l(2)] l(4) by blast
  obtain ab where ab: "copy_if_any C (Some ac) zero_buf = Inr ab" "valid_buf ab" "contents ab = a" using copy_any [OF C a] by blast
  let ?c0 = "cc_calloc 16 :: 'a cc_cipher"
  define a' where "a' = (if md = kCCModeGCM then ab else zero_buf)"
  define t' where "t' = (if md = kCCModeGCM then tb else zero_buf)"
  define c1 where "c1 = ?c0\<lparr>key := kb, iv := vb\<rparr>"
  define c2 where "c2 = c1\<lparr>aad := a', ctag := t'\<rparr>"
  have c1: "cc_materials C (cc_iv_len md) (md = kCCModeCTR) (Some kc) (Some vc) ?c0 = (Inr (), c1)"
    using kb vb by (simp add: cc_materials_def key_material_def iv_material_def cc_calloc_def zero_buf_def c1_def)
  have i: "cc_init C A md (Some kc) (Some vc) (Some ac) tc ?c0 = cc_create A md c2"
    unfolding c2_def by (rule cc_init_steps [OF c1]) (use ab(1) t in \<open>auto simp: a'_def t'_def c1_def cc_calloc_def\<close>)
  have h: "cc_has k v (contents a') c2" and b: "block_size c2 = 16"
    using kb vb ab k(2) by (auto simp: cc_has_def c2_def c1_def a'_def zero_buf_def valid_buf_def cc_calloc_def)
  obtain c where c: "cc_create A md c2 = (Inr (), c)" "cc_ready C A S md k v (contents a') (c\<lparr>cipher_good := True\<rparr>)" "ctag c = ctag c2"
    using created_ready [OF C S h v(2) b] by blast
  have "cc_new C A md kc vc (Some ac) tc = Inr (c\<lparr>cipher_good := True\<rparr>)"
    using i c(1) C by (cases md) (auto simp: cc_cbc_256_new_impl_def cc_ctr_256_new_impl_def cc_gcm_256_new_impl_def cc_finish_new_def)
  with c(2,3) ab(3) show ?thesis by (auto simp: a'_def t'_def c2_def intro!: exI [of _ "contents a'"])
qed

section \<open>Whole runs\<close>

lemma finished_has: "cc_ready C A S md k v a c \<Longrightarrow> cc_finished S md op (p, key c, iv c, aad c) m c' \<Longrightarrow> cc_has k v a c' \<and> block_size c' = 16"
  by (auto simp: cc_ready_def cc_finished_def cc_has_def)

lemma cc_decrypt_run:
  assumes r: "cc_ready C A S md k v a c" and t: "md = kCCModeGCM \<longrightarrow> valid_buf (ctag c) \<and> buf_len (ctag c) = 16 \<and> capacity (ctag c) = 16"
    and ps: "pieces ds ws" "\<forall>b \<in> set ws. length b + 16 \<le> INT_MAX" and q: "concat ws = cc_Enc S (cc_p md k v a) m"
    and res: "valid_buf res" "allocator res" "buf_len res + length (concat ws) + 16 \<le> SIZE_MAX div 2"
  shows "\<exists>d1 d2 res1 res2. run_calls (cc_vtable C A md) (map Decrypt ds) c res = (replicate (length ds) (Inr ()), d1, res1) \<and>
    aws_symmetric_cipher_finalize_decryption (cc_vtable C A md) d1 res1 = (Inr (), d2, res2) \<and>
    contents res2 = contents res @ m \<and> (md = kCCModeGCM \<longrightarrow> contents (ctag d2) = cc_Tag S (cc_p md k v a) [])"
proof -
  have io: "cc_io C A S md kCCDecrypt c (cc_p md k v a, key c, iv c, aad c) [] []" using ready_io [OF r] t by simp
  have "length (concat ws) \<le> SIZE_MAX div 2" using res(3) by linarith
  from cc.stream_ok [OF ps(1) io ps(2) this res(1,2) valid_capacity [OF res(1)] res(3)] q show ?thesis
    by (fastforce simp: cc_finished_def)
qed

text \<open>
  Claim C23. AES on Darwin: in CBC, CTR and GCM mode a new cipher fed any pieces and finalized appends
  CommonCrypto's cipher text of their concatenation, for GCM with its tag left in the cipher. After a reset, feeding
  that text in any pieces and finalizing appends the message.
\<close>

theorem cc_stream_round_trip:
  assumes C: "common_spec C" and S: "cc_spec A S"
    and k: "bytes_at (ptr kc) (cur_len kc) = Inr k" "length k = 32"
    and v: "bytes_at (ptr vc) (cur_len vc) = Inr v" "length v = cc_iv_len md"
    and a: "bytes_at (ptr ac) (cur_len ac) = Inr a" "length a \<le> SIZE_MAX div 2"
    and ps: "pieces cs bs" "\<forall>b \<in> set bs. length b + 16 \<le> INT_MAX"
    and out: "valid_buf out" "allocator out" "buf_len out + length (concat bs) + 16 \<le> SIZE_MAX div 2"
    and p: "p = cc_p md k v a"
  shows "\<exists>c c1 c2 c3 out1 out2. cc_new C A md kc vc (Some ac) None = Inr c \<and>
    run_calls (cc_vtable C A md) (map Encrypt cs) c out = (replicate (length cs) (Inr ()), c1, out1) \<and>
    aws_symmetric_cipher_finalize_encryption (cc_vtable C A md) c1 out1 = (Inr (), c2, out2) \<and>
    contents out2 = contents out @ cc_Enc S p (concat bs) \<and>
    (md = kCCModeGCM \<longrightarrow> contents (ctag c2) = cc_Tag S p (concat bs)) \<and>
    aws_symmetric_cipher_reset (cc_vtable C A md) c2 = (Inr (), c3) \<and>
    (\<forall>ds ws res. pieces ds ws \<and> concat ws = cc_Enc S p (concat bs) \<and>
       (\<forall>b \<in> set ws. length b + 16 \<le> INT_MAX) \<and> valid_buf res \<and> allocator res \<and>
       buf_len res + length (concat ws) + 16 \<le> SIZE_MAX div 2 \<longrightarrow>
       (\<exists>d1 d2 res1 res2.
         run_calls (cc_vtable C A md) (map Decrypt ds) c3 res = (replicate (length ds) (Inr ()), d1, res1) \<and>
         aws_symmetric_cipher_finalize_decryption (cc_vtable C A md) d1 res1 = (Inr (), d2, res2) \<and>
         contents res2 = contents res @ concat bs))"
proof -
  have "copy_if_any C None zero_buf = Inr zero_buf" by (simp add: copy_if_any_def)
  from cc_new_ok [OF C S k v a this] obtain c a' where c: "cc_new C A md kc vc (Some ac) None = Inr c"
      "cc_ready C A S md k v a' c" "md = kCCModeGCM \<longrightarrow> a' = a \<and> ctag c = zero_buf" by blast
  have p': "cc_p md k v a' = p" using c(3) p by (simp add: cc_p_def)
  have "md = kCCModeGCM \<longrightarrow> valid_buf (ctag c) \<and> buf_len (ctag c) = 0" using c(3) by (simp add: zero_buf_def valid_buf_def)
  with ready_io [OF c(2), of kCCEncrypt] p' have io: "cc_io C A S md kCCEncrypt c (p, key c, iv c, aad c) [] []" by simp
  have lim: "length (concat bs) \<le> SIZE_MAX div 2" using out(3) by linarith
  from cc.stream_ok [OF ps(1) io ps(2) lim out(1,2) valid_capacity [OF out(1)] out(3)] obtain c1 out1 c2 out2 where
      r: "run_calls (cc_vtable C A md) (map Encrypt cs) c out = (replicate (length cs) (Inr ()), c1, out1)"
        "aws_symmetric_cipher_finalize_encryption (cc_vtable C A md) c1 out1 = (Inr (), c2, out2)"
        "contents out2 = contents out @ cc_Enc S p (concat bs)"
        "cc_finished S md kCCEncrypt (p, key c, iv c, aad c) (concat bs) c2"
    by auto
  have tag: "md = kCCModeGCM \<longrightarrow> valid_buf (ctag c2) \<and> capacity (ctag c2) = 16 \<and> contents (ctag c2) = cc_Tag S p (concat bs)"
    using r(4) by (simp add: cc_finished_def)
  then have t16: "md = kCCModeGCM \<longrightarrow> valid_buf (ctag c2) \<and> buf_len (ctag c2) = 16 \<and> capacity (ctag c2) = 16"
    using cc_laws(6) [OF S] by (metis length_contents)
  obtain c3 where c3: "aws_symmetric_cipher_reset (cc_vtable C A md) c2 = (Inr (), c3)" "cc_ready C A S md k v a' c3" "ctag c3 = ctag c2"
    using cc_reset_ok [OF C S _ v(2)] finished_has [OF c(2) r(4)] by blast
  have "\<exists>d1 d2 res1 res2.
         run_calls (cc_vtable C A md) (map Decrypt ds) c3 res = (replicate (length ds) (Inr ()), d1, res1) \<and>
         aws_symmetric_cipher_finalize_decryption (cc_vtable C A md) d1 res1 = (Inr (), d2, res2) \<and>
         contents res2 = contents res @ concat bs"
    if "pieces ds ws" "concat ws = cc_Enc S p (concat bs)" "\<forall>b \<in> set ws. length b + 16 \<le> INT_MAX" "valid_buf res" "allocator res"
      "buf_len res + length (concat ws) + 16 \<le> SIZE_MAX div 2" for ds ws res
    using cc_decrypt_run [OF c3(2) _ that(1,3) _ that(4-6)] t16 c3(3) that(2) p' by fastforce
  with c(1) r c3(1) tag show ?thesis by blast
qed

text \<open>
  Claim C32. On Darwin, GCM decryption does not authenticate: a new cipher given any 16-byte tag and fed a cipher text in any
  pieces is finalized with success and returns the message. Finalizing works on the encryptor, so that the tag of
  the empty message replaces the tag the caller gave.
\<close>

theorem cc_gcm_unauthenticated:
  assumes C: "common_spec C" and S: "cc_spec A S"
    and k: "bytes_at (ptr kc) (cur_len kc) = Inr k" "length k = 32"
    and v: "bytes_at (ptr vc) (cur_len vc) = Inr v" "length v = 12"
    and a: "bytes_at (ptr ac) (cur_len ac) = Inr a" "length a \<le> SIZE_MAX div 2"
    and t: "bytes_at (ptr tc) (cur_len tc) = Inr t" "length t = 16"
    and ps: "pieces ds ws" "\<forall>b \<in> set ws. length b + 16 \<le> INT_MAX"
    and q: "concat ws = cc_Enc S (kCCModeGCM, k, v, a) m"
    and out: "valid_buf out" "allocator out" "buf_len out + length (concat ws) + 16 \<le> SIZE_MAX div 2"
  shows "\<exists>c c1 c2 out1 out2. cc_gcm_256_new_impl C A (Some kc) (Some vc) (Some ac) (Some tc) = Inr c \<and>
    contents (ctag c) = t \<and>
    run_calls (cc_gcm_vtable C A) (map Decrypt ds) c out = (replicate (length ds) (Inr ()), c1, out1) \<and>
    aws_symmetric_cipher_finalize_decryption (cc_gcm_vtable C A) c1 out1 = (Inr (), c2, out2) \<and>
    contents out2 = contents out @ m \<and> contents (ctag c2) = cc_Tag S (kCCModeGCM, k, v, a) []"
proof -
  have tl: "length t \<le> SIZE_MAX div 2" "t \<noteq> []" "length v = cc_iv_len kCCModeGCM" using t(2) v(2) by (auto simp: cc_iv_len_def)
  obtain tb where tb: "copy_if_any C (Some tc) zero_buf = Inr tb" "valid_buf tb" "contents tb = t" "buf_len tb = 16" "buffer tb = Some t"
    using copy_any [OF C t(1) tl(1)] tl(2) t(2) by auto
  then have cap: "capacity tb = 16" using t(2) by (simp add: valid_buf_def)
  from cc_new_ok [OF C S k v(1) tl(3) a tb(1)] obtain c where c: "cc_gcm_256_new_impl C A (Some kc) (Some vc) (Some ac) (Some tc) = Inr c"
      "cc_ready C A S kCCModeGCM k v a c" "ctag c = tb" by auto
  have p: "cc_p kCCModeGCM k v a = (kCCModeGCM, k, v, a)" by (simp add: cc_p_def)
  from cc_decrypt_run [OF c(2) _ ps _ out, of m] c(1,3) tb cap q show ?thesis unfolding p by auto
qed

section \<open>A reference library\<close>

text \<open>A library that satisfies the assumptions, for the witnesses: the text is its own cipher text and a cryptor
  remembers what it was fed.\<close>

type_synonym ref_cryptor = "cc_operation \<times> cc_params \<times> bytes"

fun ref_cc_iv :: "ref_cryptor option \<Rightarrow> bytes \<Rightarrow> bool \<times> ref_cryptor option" where
  "ref_cc_iv (Some (op, (md, k, _, _), m)) v = (True, Some (op, (md, k, v, []), m))"
| "ref_cc_iv None v = (False, None)"

fun ref_cc_aad :: "ref_cryptor option \<Rightarrow> bytes \<Rightarrow> bool \<times> ref_cryptor option" where
  "ref_cc_aad (Some (op, (md, k, v, _), m)) a = (True, Some (op, (md, k, v, a), m))"
| "ref_cc_aad None a = (False, None)"

fun ref_cc_update :: "ref_cryptor option \<Rightarrow> bytes \<Rightarrow> nat \<Rightarrow> bool \<times> bytes \<times> ref_cryptor option" where
  "ref_cc_update (Some (op, p, m)) b n = (True, b, Some (op, p, m @ b))"
| "ref_cc_update None b n = (False, [], None)"

definition ref_cc_tag :: "bytes \<Rightarrow> bytes" where
  "ref_cc_tag m = replicate 16 (word_of_nat (length m))"

fun ref_cc_finalize :: "ref_cryptor option \<Rightarrow> bool \<times> bytes \<times> ref_cryptor option" where
  "ref_cc_finalize (Some (op, p, m)) = (True, ref_cc_tag m, Some (op, p, m))"
| "ref_cc_finalize None = (False, [], None)"

definition ref_cc :: "ref_cryptor cc_api" where
  "ref_cc = \<lparr>latest_api = True,
     CCCryptorCreateWithMode = (\<lambda>op md _ v k _. Some (op, (md, k, case v of None \<Rightarrow> [] | Some v \<Rightarrow> v, []), [])),
     CCCryptorUpdate = ref_cc_update, CCCryptorFinal = (\<lambda>h _. (True, [], h)),
     CCCryptorGCMSetIV = ref_cc_iv, CCCryptorGCMAddIV = ref_cc_iv, CCCryptorGCMAddAAD = ref_cc_aad,
     CCCryptorGCMFinalize = (\<lambda>h _ _. ref_cc_finalize h), CCCryptorGCMFinal = (\<lambda>h _. ref_cc_finalize h),
     CCSymmetricKeyWrap = (\<lambda>k m n. if length m + 8 \<le> n then Some (m @ replicate 8 0) else None),
     CCSymmetricKeyUnwrap = (\<lambda>k q n. if length q \<le> n then Some (take (length q - 8) q) else None)\<rparr>"

definition ref_cc_stream :: "ref_cryptor cc_stream" where
  "ref_cc_stream = \<lparr>cst = (\<lambda>op x. case x of (op', p, m) \<Rightarrow> if op' = op then Some (p, m, m) else None),
     cc_Enc = (\<lambda>p m. m), cc_Tag = (\<lambda>p m. ref_cc_tag m)\<rparr>"

lemma ref_cc_result: "cc_result ref_cc_stream op p q t \<longleftrightarrow> t = q"
  by (cases op) (auto simp: ref_cc_stream_def)

lemma cc_spec_ref: "cc_spec ref_cc ref_cc_stream"
  unfolding cc_spec_def
proof (intro conjI)
  show "cc_update_spec ref_cc ref_cc_stream"
    by (auto simp: cc_update_spec_def ref_cc_def ref_cc_stream_def split: if_splits)
  show "cc_final_spec ref_cc ref_cc_stream"
    unfolding cc_final_spec_def ref_cc_result
    by (auto simp: ref_cc_def ref_cc_stream_def ref_cc_tag_def split: if_splits)
  show "cc_create_spec ref_cc ref_cc_stream"
    by (auto simp: cc_create_spec_def ref_cc_def ref_cc_stream_def split: if_splits)
qed

lemma cc_stream_round_trip_witness:
  "\<exists>c c1 c2 out1 out2. cc_new ref_common ref_cc kCCModeCBC (cursor_of (replicate 32 7)) (cursor_of (replicate 16 1)) (Some (cursor_of [])) None = Inr c \<and>
     run_calls (cc_vtable ref_common ref_cc kCCModeCBC) (map Encrypt [cursor_of [1, 2], cursor_of [3]]) c (empty_out 64) =
       ([Inr (), Inr ()], c1, out1) \<and>
     aws_symmetric_cipher_finalize_encryption (cc_vtable ref_common ref_cc kCCModeCBC) c1 out1 = (Inr (), c2, out2) \<and>
     contents out2 = [1, 2, 3]"
proof -
  let ?bs = "[[1, 2], [3]] :: bytes list"
  have prems: "bytes_at (ptr (cursor_of (replicate 32 7))) (cur_len (cursor_of (replicate 32 7))) = Inr (replicate 32 7)"
      "length (replicate 32 (7::byte)) = 32"
      "bytes_at (ptr (cursor_of (replicate 16 1))) (cur_len (cursor_of (replicate 16 1))) = Inr (replicate 16 1)"
      "length (replicate 16 (1::byte)) = cc_iv_len kCCModeCBC"
      "bytes_at (ptr (cursor_of [])) (cur_len (cursor_of [])) = Inr []" "length ([]::bytes) \<le> SIZE_MAX div 2"
      "pieces [cursor_of [1, 2], cursor_of [3]] ?bs" "\<forall>b \<in> set ?bs. length b + 16 \<le> INT_MAX"
      "valid_buf (empty_out 64)" "allocator (empty_out 64)" "buf_len (empty_out 64) + length (concat ?bs) + 16 \<le> SIZE_MAX div 2"
    by (simp_all add: cc_iv_len_def empty_out_def valid_buf_def)
  have e: "contents (empty_out 64) = []" "cc_Enc ref_cc_stream p m = m" "concat ?bs = [1, 2, 3]"
      "replicate (length [cursor_of [1, 2], cursor_of [3]]) (Inr ()) = [Inr (), Inr ()]" for p m
    by (simp_all add: empty_out_def contents_def ref_cc_stream_def)
  from cc_stream_round_trip [OF common_spec_ref cc_spec_ref prems refl, unfolded e append_Nil] show ?thesis by blast
qed

lemma cc_gcm_unauthenticated_witness:
  "\<exists>c c1 c2 out1 out2. cc_gcm_256_new_impl ref_common ref_cc (Some (cursor_of (replicate 32 7))) (Some (cursor_of (replicate 12 1)))
       (Some (cursor_of [])) (Some (cursor_of (replicate 16 0xFF))) = Inr c \<and>
     run_calls (cc_gcm_vtable ref_common ref_cc) (map Decrypt [cursor_of [1, 2]]) c (empty_out 64) = ([Inr ()], c1, out1) \<and>
     aws_symmetric_cipher_finalize_decryption (cc_gcm_vtable ref_common ref_cc) c1 out1 = (Inr (), c2, out2) \<and>
     contents out2 = [1, 2] \<and> contents (ctag c2) = replicate 16 0"
proof -
  have ps: "pieces [cursor_of [1, 2]] [[1, 2]]" by simp
  have e: "contents (empty_out 64) = []" "cc_Enc ref_cc_stream p m = m" "cc_Tag ref_cc_stream p [] = replicate 16 0" for p m
    by (simp_all add: empty_out_def contents_def ref_cc_stream_def ref_cc_tag_def)
  show ?thesis
    using cc_gcm_unauthenticated [OF common_spec_ref cc_spec_ref _ _ _ _ _ _ _ _ ps, of "cursor_of (replicate 32 7)" "replicate 32 7"
        "cursor_of (replicate 12 1)" "replicate 12 1" "cursor_of []" "[]" "cursor_of (replicate 16 0xFF)" "replicate 16 0xFF" "[1, 2]" "empty_out 64"]
    unfolding e by (simp del: replicate.simps) (auto simp: empty_out_def)
qed

end
