(* ===== verification/Commoncrypto_Keywrap.thy ===== *)
theory Commoncrypto_Keywrap
  imports Commoncrypto_Streams
begin

text \<open>
  Key wrap over CommonCrypto: the input is collected, and the finalize call hands it to
  \<open>CCSymmetricKeyWrap\<close> or \<open>CCSymmetricKeyUnwrap\<close>. The result is written over the start of the output
  buffer, which is right for an empty buffer only.
\<close>

section \<open>Collecting\<close>

definition ck_ready :: "aws_common \<Rightarrow> bytes \<Rightarrow> 'x cc_cipher \<Rightarrow> bytes \<Rightarrow> bool" where
  "ck_ready C k c m \<longleftrightarrow> common_spec C \<and> cipher_good c \<and> block_size c = 8 \<and> contents (key c) = k \<and>
     valid_buf (cc_working_buffer (cipher_impl c)) \<and> allocator (cc_working_buffer (cipher_impl c)) \<and>
     contents (cc_working_buffer (cipher_impl c)) = m"

lemma ck_len: "ck_ready C k c m \<Longrightarrow> buf_len (cc_working_buffer (cipher_impl c)) = length m"
  using length_contents by (fastforce simp: ck_ready_def)

lemma ck_collect:
  assumes c: "ck_ready C k c m" and b: "bytes_at (ptr cur) (cur_len cur) = Inr b" "length b + 8 \<le> INT_MAX"
    and len: "length m + length b \<le> SIZE_MAX div 2"
  shows "\<exists>c'. run_call (cc_keywrap_vtable C A) (cc_feed op cur) c out = (Inr (), c', out) \<and> ck_ready C k c' (m @ b)"
proof -
  let ?w = "cc_working_buffer (cipher_impl c)"
  have w: "valid_buf ?w" "allocator ?w" "contents ?w = m" "common_spec C" using c by (simp_all add: ck_ready_def)
  obtain w' where w': "aws_byte_buf_append_dynamic C ?w b = Inr w'" "valid_buf w'" "contents w' = m @ b" "allocator w'"
    using append_dynamic_law [OF w(4,1,2)] ck_len [OF c] len w(3) by auto
  have "s_check_input_size_limits c cur = Inr ()"
    using c b(2) bytes_at_length [OF b(1)] by (simp add: s_check_input_size_limits_def ck_ready_def)
  with b(1) w' c show ?thesis
    by (cases op) (auto simp: aws_symmetric_cipher_encrypt_def aws_symmetric_cipher_decrypt_def cc_keywrap_vtable_def
        s_keywrap_encrypt_decrypt_def set_work_def ck_ready_def)
qed

interpretation ck: cipher_collect "cc_keywrap_vtable C A" "cc_feed op" "ck_ready C k"
  "\<lambda>b. length b + 8 \<le> INT_MAX" "SIZE_MAX div 2" for C A op k
  by unfold_locales (rule ck_collect)

section \<open>Finalizing\<close>

lemma poke_start_ok:
  assumes v: "valid_buf out" and w: "length w \<le> room out" and mem: "buffer out = Some mem"
  shows "\<exists>o1. poke_start out w = Inr o1 \<and> valid_buf (add_len (length w) o1) \<and>
    contents (add_len (length w) o1) = w @ take (buf_len out) (drop (length w) mem)"
proof -
  have l: "length mem = capacity out" "buf_len out + length w \<le> length mem"
    using v w mem by (auto simp: valid_buf_def room_def)
  have "poke_start out w = Inr (out\<lparr>buffer := Some (w @ drop (length w) mem)\<rparr>)"
    using l mem by (auto simp: poke_start_def poke_def overwrite_def)
  with l v show ?thesis by (auto simp: add_len_def valid_buf_def contents_def)
qed

lemma finalize_keywrap_cases:
  assumes c: "ck_ready C k c m" and m: "m \<noteq> []"
    and out: "valid_buf out" "allocator out" "buf_len out + length m + 8 \<le> SIZE_MAX div 2"
    and w: "\<forall>w. wrap k m (8 + length m) = Some w \<longrightarrow> length w \<le> 8 + length m"
  shows "\<exists>out'. (case wrap k m (8 + length m) of
      None \<Rightarrow> finalize_keywrap C wrap c out = (Inl (Raised AWS_ERROR_INVALID_STATE), c\<lparr>cipher_good := False\<rparr>, out') \<and> contents out' = contents out
    | Some w \<Rightarrow> finalize_keywrap C wrap c out = (Inr (), c, out') \<and> valid_buf out' \<and>
        (\<exists>rest. contents out' = w @ rest \<and> length rest = buf_len out))"
proof -
  have C: "common_spec C" and b: "block_size c = 8" "contents (key c) = k" "contents (cc_working_buffer (cipher_impl c)) = m"
    using c by (simp_all add: ck_ready_def)
  have l: "buf_len (cc_working_buffer (cipher_impl c)) = length m" by (rule ck_len [OF c])
  have "buf_len out + (8 + length m) \<le> SIZE_MAX div 2" using out(3) by simp
  from ensure_space [OF C out(1) this] out(2) obtain o1 where
      o1: "aws_symmetric_cipher_try_ensure_sufficient_buffer_space C out (8 + length m) = Inr o1" "valid_buf o1"
        "contents o1 = contents out" "buf_len o1 = buf_len out" "8 + length m \<le> room o1"
    by auto
  show ?thesis
  proof (cases "wrap k m (8 + length m)")
    case None
    with o1 b l m out(1) show ?thesis by (auto simp: finalize_keywrap_def Let_def intro!: exI [of _ o1])
  next
    case (Some w)
    then have lw: "length w \<le> room o1" using w o1(5) by fastforce
    obtain mem where mem: "buffer o1 = Some mem" "buf_len o1 + length w \<le> length mem"
      using o1(2,5) lw by (cases "buffer o1") (auto simp: valid_buf_def room_def)
    obtain o2 where "poke_start o1 w = Inr o2" "valid_buf (add_len (length w) o2)"
        "contents (add_len (length w) o2) = w @ take (buf_len o1) (drop (length w) mem)"
      using poke_start_ok [OF o1(2) lw mem(1)] by blast
    with Some o1 b l m mem(2) out(1) show ?thesis
      by (auto simp: finalize_keywrap_def Let_def intro!: exI [of _ "add_len (length w) o2"])
  qed
qed

lemma ck_finish_call:
  assumes "ck_ready C k c m"
  shows "run_call (cc_keywrap_vtable C A) (cc_finish op) c out =
    (case finalize_keywrap C (case op of kCCEncrypt \<Rightarrow> CCSymmetricKeyWrap A | kCCDecrypt \<Rightarrow> CCSymmetricKeyUnwrap A) c out of
       (r, c', out') \<Rightarrow> (r, c'\<lparr>cipher_good := False\<rparr>, out'))"
  using assms by (cases op) (simp_all add: ck_ready_def aws_symmetric_cipher_finalize_encryption_def
      aws_symmetric_cipher_finalize_decryption_def cc_keywrap_vtable_def s_finalize_keywrap_encryption_def s_finalize_keywrap_decryption_def)

text \<open>All pieces, then the finalize call, in one direction.\<close>

definition wrap_fn :: "'x cc_api \<Rightarrow> cc_operation \<Rightarrow> bytes \<Rightarrow> bytes \<Rightarrow> nat \<Rightarrow> bytes option" where
  "wrap_fn A op = (case op of kCCEncrypt \<Rightarrow> CCSymmetricKeyWrap A | kCCDecrypt \<Rightarrow> CCSymmetricKeyUnwrap A)"

text \<open>What the code relies on. The library writes at most the length it is given. \<open>W k m\<close> is the wrapping of a key \<open>m\<close> of at least two
  whole blocks of 8 bytes, which is one block longer; unwrapping recognises the wrappings and inverts them.\<close>

definition wrappable :: "bytes \<Rightarrow> bool" where
  "wrappable m \<longleftrightarrow> 16 \<le> length m \<and> length m mod 8 = 0"

definition wrap_bounded :: "'x cc_api \<Rightarrow> bool" where
  "wrap_bounded A \<longleftrightarrow> (\<forall>op k m n w. wrap_fn A op k m n = Some w \<longrightarrow> length w \<le> n)"

definition cc_wrap_spec :: "'x cc_api \<Rightarrow> (bytes \<Rightarrow> bytes \<Rightarrow> bytes) \<Rightarrow> bool" where
  "cc_wrap_spec A W \<longleftrightarrow> wrap_bounded A \<and>
     (\<forall>k m n. length k = 32 \<longrightarrow> wrappable m \<longrightarrow> length m + 8 \<le> n \<longrightarrow>
        length (W k m) = length m + 8 \<and> CCSymmetricKeyWrap A k m n = Some (W k m)) \<and>
     (\<forall>k w n m. length k = 32 \<longrightarrow> length w \<le> n \<longrightarrow>
        (CCSymmetricKeyUnwrap A k w n = Some m \<longleftrightarrow> wrappable m \<and> w = W k m))"

lemma cc_wrap_laws:
  assumes "cc_wrap_spec A W" and "length k = 32"
  shows "wrap_bounded A" and "wrappable m \<Longrightarrow> length (W k m) = length m + 8"
    and "wrappable m \<Longrightarrow> wrap_fn A kCCEncrypt k m (8 + length m) = Some (W k m)"
    and "wrap_fn A kCCDecrypt k w (8 + length w) = Some m \<longleftrightarrow> wrappable m \<and> w = W k m"
  using assms unfolding cc_wrap_spec_def wrap_fn_def by (auto simp: add.commute)

lemma ck_run:
  assumes A: "wrap_bounded A" and c: "ck_ready C k c []"
    and ps: "pieces cs bs" "\<forall>b \<in> set bs. length b + 8 \<le> INT_MAX" "concat bs \<noteq> []"
    and out: "valid_buf out" "allocator out" "buf_len out + length (concat bs) + 8 \<le> SIZE_MAX div 2"
  shows "\<exists>c1 c2 out2. run_calls (cc_keywrap_vtable C A) (map (cc_feed op) cs) c out = (replicate (length cs) (Inr ()), c1, out) \<and>
    (case wrap_fn A op k (concat bs) (8 + length (concat bs)) of
       None \<Rightarrow> run_call (cc_keywrap_vtable C A) (cc_finish op) c1 out = (Inl (Raised AWS_ERROR_INVALID_STATE), c2, out2) \<and>
         contents out2 = contents out
     | Some w \<Rightarrow> run_call (cc_keywrap_vtable C A) (cc_finish op) c1 out = (Inr (), c2, out2) \<and>
         (\<exists>rest. contents out2 = w @ rest \<and> length rest = buf_len out)) \<and>
    ck_ready C k (c2\<lparr>cipher_good := True\<rparr>) (concat bs)"
proof -
  have "length ([]::bytes) + length (concat bs) \<le> SIZE_MAX div 2" using out(3) by simp
  from ck.collect_all [OF ps(1) c ps(2) this, of A op out] obtain c1 where
      c1: "run_calls (cc_keywrap_vtable C A) (map (cc_feed op) cs) c out = (replicate (length cs) (Inr ()), c1, out)"
        "ck_ready C k c1 (concat bs)" by auto
  have w: "\<forall>w. wrap_fn A op k (concat bs) (8 + length (concat bs)) = Some w \<longrightarrow> length w \<le> 8 + length (concat bs)"
    using A by (auto simp: wrap_bounded_def)
  have r: "ck_ready C k (c1\<lparr>cipher_good := True\<rparr>) (concat bs)" using c1(2) by (simp add: ck_ready_def)
  from finalize_keywrap_cases [where wrap = "wrap_fn A op", OF c1(2) ps(3) out w]
  show ?thesis
    using c1(1) r ck_finish_call [OF c1(2), of A op out, folded wrap_fn_def]
    by (cases "wrap_fn A op k (concat bs) (8 + length (concat bs))") (auto intro!: exI [of _ c1] exI [of _ "c1\<lparr>cipher_good := False\<rparr>"])
qed

lemma ck_new:
  assumes C: "common_spec C" and k: "bytes_at (ptr kc) (cur_len kc) = Inr k" "length k = 32"
  shows "\<exists>c. cc_keywrap_256_new_impl C (Some kc) = Inr c \<and> ck_ready C k c []"
proof -
  have "length k \<le> SIZE_MAX div 2" using k(2) by simp
  then obtain kb where kb: "copy_cursor C kc = Inr kb" "contents kb = k" using copied [OF C k(1)] by blast
  obtain w where w: "aws_byte_buf_init C 40 = Inr w" "fresh_buf 40 w" using init_law [OF C, of 40] by auto
  then have "contents w = []" "valid_buf w" "allocator w" by (auto simp: fresh_buf_def contents_def split: option.splits)
  with C kb w(1) show ?thesis
    by (simp add: cc_keywrap_256_new_impl_def key_material_def or_zero_def cc_finish_new_def cc_calloc_def set_work_def ck_ready_def)
qed

lemma ck_reset:
  assumes "ck_ready C k (c\<lparr>cipher_good := True\<rparr>) m"
  shows "\<exists>c'. aws_symmetric_cipher_reset (cc_keywrap_vtable C A) c = (Inr (), c') \<and> ck_ready C k c' []"
proof -
  let ?w = "cc_working_buffer (cipher_impl c)"
  have w: "common_spec C" "valid_buf ?w" "allocator ?w" using assms by (simp_all add: ck_ready_def)
  have z: "valid_buf (aws_byte_buf_secure_zero C ?w)" "buf_len (aws_byte_buf_secure_zero C ?w) = 0" "allocator (aws_byte_buf_secure_zero C ?w)"
    using secure_zero_law [OF w(1,2)] w(3) by auto
  then have "contents (aws_byte_buf_secure_zero C ?w) = []" using z(2) by (metis length_contents length_0_conv)
  with assms z show ?thesis
    by (simp add: aws_symmetric_cipher_reset_def cc_keywrap_vtable_def s_reset_def set_work_def set_decryptor_def set_encryptor_def ck_ready_def)
qed

section \<open>Properties\<close>

text \<open>
  Claim C24. Key wrap on Darwin: a new cipher fed a key of at least two whole 8-byte blocks, in any pieces, writes its wrapping. After a
  reset, feeding a text in any pieces and finalizing yields the key whose wrapping it is, in particular the wrapped key for the text
  that was written, and fails with AWS_ERROR_INVALID_STATE, leaving the output contents alone, when there is no such
  key. In both directions the result stands at the start of the output buffer: into an empty
  buffer it is the contents, and whatever a buffer held before is overwritten by it.
\<close>

theorem cc_keywrap_round_trip:
  fixes A :: "'x cc_api"
  assumes C: "common_spec C" and A: "cc_wrap_spec A W"
    and k: "bytes_at (ptr kc) (cur_len kc) = Inr k" "length k = 32"
    and ps: "pieces cs bs" "\<forall>b \<in> set bs. length b + 8 \<le> INT_MAX" "wrappable (concat bs)"
    and out: "valid_buf out" "allocator out" "buf_len out + length (concat bs) + 8 \<le> SIZE_MAX div 2"
  shows "\<exists>c c1 c2 c3 out2. cc_keywrap_256_new_impl C (Some kc) = Inr c \<and>
    run_calls (cc_keywrap_vtable C A) (map Encrypt cs) c out = (replicate (length cs) (Inr ()), c1, out) \<and>
    aws_symmetric_cipher_finalize_encryption (cc_keywrap_vtable C A) c1 out = (Inr (), c2, out2) \<and>
    (\<exists>rest. contents out2 = W k (concat bs) @ rest \<and> length rest = buf_len out) \<and>
    aws_symmetric_cipher_reset (cc_keywrap_vtable C A) c2 = (Inr (), c3) \<and>
    (\<forall>ds ws res. pieces ds ws \<and> (\<forall>b \<in> set ws. length b + 8 \<le> INT_MAX) \<and> concat ws \<noteq> [] \<and> valid_buf res \<and> allocator res \<and>
       buf_len res + length (concat ws) + 8 \<le> SIZE_MAX div 2 \<longrightarrow>
       (\<exists>d1 d2 res2. run_calls (cc_keywrap_vtable C A) (map Decrypt ds) c3 res = (replicate (length ds) (Inr ()), d1, res) \<and>
         (\<forall>m. wrappable m \<and> concat ws = W k m \<longrightarrow>
            aws_symmetric_cipher_finalize_decryption (cc_keywrap_vtable C A) d1 res = (Inr (), d2, res2) \<and>
            (\<exists>rest. contents res2 = m @ rest \<and> length rest = buf_len res)) \<and>
         ((\<nexists>m. wrappable m \<and> concat ws = W k m) \<longrightarrow>
            aws_symmetric_cipher_finalize_decryption (cc_keywrap_vtable C A) d1 res =
              (Inl (Raised AWS_ERROR_INVALID_STATE), d2, res2) \<and> contents res2 = contents res)))"
proof -
  note laws = cc_wrap_laws [OF A k(2)]
  have "length (concat bs) \<noteq> 0" using ps(3) unfolding wrappable_def by linarith
  then have ne: "concat bs \<noteq> []" by (metis length_0_conv)
  obtain c :: "'x cc_cipher" where c: "cc_keywrap_256_new_impl C (Some kc) = Inr c" "ck_ready C k c []" using ck_new [OF C k] by blast
  from ck_run [OF laws(1) c(2) ps(1,2) ne out, of kCCEncrypt] laws(3) [OF ps(3)] obtain c1 c2 out2 where
      r: "run_calls (cc_keywrap_vtable C A) (map Encrypt cs) c out = (replicate (length cs) (Inr ()), c1, out)"
        "aws_symmetric_cipher_finalize_encryption (cc_keywrap_vtable C A) c1 out = (Inr (), c2, out2)"
        "\<exists>rest. contents out2 = W k (concat bs) @ rest \<and> length rest = buf_len out" "ck_ready C k (c2\<lparr>cipher_good := True\<rparr>) (concat bs)"
    by auto
  obtain c3 where c3: "aws_symmetric_cipher_reset (cc_keywrap_vtable C A) c2 = (Inr (), c3)" "ck_ready C k c3 []"
    using ck_reset [OF r(4)] by blast
  have "\<exists>d1 d2 res2. run_calls (cc_keywrap_vtable C A) (map Decrypt ds) c3 res = (replicate (length ds) (Inr ()), d1, res) \<and>
      (\<forall>m. wrappable m \<and> concat ws = W k m \<longrightarrow>
         aws_symmetric_cipher_finalize_decryption (cc_keywrap_vtable C A) d1 res = (Inr (), d2, res2) \<and>
         (\<exists>rest. contents res2 = m @ rest \<and> length rest = buf_len res)) \<and>
      ((\<nexists>m. wrappable m \<and> concat ws = W k m) \<longrightarrow>
         aws_symmetric_cipher_finalize_decryption (cc_keywrap_vtable C A) d1 res =
           (Inl (Raised AWS_ERROR_INVALID_STATE), d2, res2) \<and> contents res2 = contents res)"
    if p: "pieces ds ws \<and> (\<forall>b \<in> set ws. length b + 8 \<le> INT_MAX) \<and> concat ws \<noteq> [] \<and> valid_buf res \<and> allocator res \<and>
       buf_len res + length (concat ws) + 8 \<le> SIZE_MAX div 2" for ds ws res
  proof -
    have u: "(\<nexists>m. wrappable m \<and> concat ws = W k m) \<longleftrightarrow> wrap_fn A kCCDecrypt k (concat ws) (8 + length (concat ws)) = None"
      using laws(4) [of "concat ws"] by (metis not_Some_eq)
    show ?thesis
      using ck_run [OF laws(1) c3(2), of ds ws res kCCDecrypt] p unfolding u laws(4) [symmetric] by (auto split: option.splits)
  qed
  with c(1) r c3(1) show ?thesis by blast
qed

text \<open>An instance of the library: eight zero bytes are appended.\<close>

definition ref_wrap_cc :: "ref_cryptor cc_api" where
  "ref_wrap_cc = ref_cc\<lparr>
     CCSymmetricKeyWrap := \<lambda>k m n. if length m + 8 \<le> n then Some (m @ replicate 8 0) else None,
     CCSymmetricKeyUnwrap := \<lambda>k w n. let m = take (length w - 8) w in
       if length w \<le> n \<and> w = m @ replicate 8 0 \<and> wrappable m then Some m else None\<rparr>"

lemma cc_wrap_spec_ref: "cc_wrap_spec ref_wrap_cc (\<lambda>k m. m @ replicate 8 0)"
  by (auto simp: cc_wrap_spec_def wrap_bounded_def wrap_fn_def ref_wrap_cc_def Let_def split: cc_operation.splits if_splits)

lemma cc_keywrap_round_trip_witness:
  "\<exists>c c1 c2 c3 d1 d2 out2 res2. cc_keywrap_256_new_impl ref_common (Some (cursor_of (replicate 32 7))) = Inr c \<and>
     run_calls (cc_keywrap_vtable ref_common ref_wrap_cc) (map Encrypt [cursor_of (replicate 16 5)]) c (empty_out 0) = ([Inr ()], c1, empty_out 0) \<and>
     aws_symmetric_cipher_finalize_encryption (cc_keywrap_vtable ref_common ref_wrap_cc) c1 (empty_out 0) = (Inr (), c2, out2) \<and>
     contents out2 = replicate 16 5 @ replicate 8 0 \<and>
     aws_symmetric_cipher_reset (cc_keywrap_vtable ref_common ref_wrap_cc) c2 = (Inr (), c3) \<and>
     run_calls (cc_keywrap_vtable ref_common ref_wrap_cc) (map Decrypt [cursor_of (replicate 16 5 @ replicate 8 0)]) c3 (empty_out 0) =
       ([Inr ()], d1, empty_out 0) \<and>
     aws_symmetric_cipher_finalize_decryption (cc_keywrap_vtable ref_common ref_wrap_cc) d1 (empty_out 0) = (Inr (), d2, res2) \<and>
     contents res2 = replicate 16 5"
proof -
  let ?m = "replicate 16 5 :: bytes" and ?vt = "cc_keywrap_vtable ref_common ref_wrap_cc"
  let ?w = "?m @ replicate 8 0"
  have prems: "bytes_at (ptr (cursor_of (replicate 32 7))) (cur_len (cursor_of (replicate 32 7))) = Inr (replicate 32 7)"
      "length (replicate 32 (7::byte)) = 32" "pieces [cursor_of ?m] [?m]" "\<forall>b \<in> set [?m]. length b + 8 \<le> INT_MAX" "wrappable (concat [?m])"
      "valid_buf (empty_out 0)" "allocator (empty_out 0)" "buf_len (empty_out 0) + length (concat [?m]) + 8 \<le> SIZE_MAX div 2"
    by (simp_all add: empty_out_def valid_buf_def wrappable_def)
  have e: "length rest = buf_len (empty_out 0) \<longleftrightarrow> rest = []" for rest :: bytes by (simp add: empty_out_def)
  have one: "replicate (length [x]) y = [y]" "concat [z] = z" for x :: aws_byte_cursor and y :: "unit result" and z :: bytes by simp_all
  have d: "pieces [cursor_of ?w] [?w] \<and> (\<forall>b \<in> set [?w]. length b + 8 \<le> INT_MAX) \<and> concat [?w] \<noteq> [] \<and> valid_buf (empty_out 0) \<and>
      allocator (empty_out 0) \<and> buf_len (empty_out 0) + length (concat [?w]) + 8 \<le> SIZE_MAX div 2"
    "wrappable ?m \<and> concat [?w] = ?m @ replicate 8 0"
    by (simp_all add: empty_out_def valid_buf_def wrappable_def)
  show ?thesis
    using cc_keywrap_round_trip [OF common_spec_ref cc_wrap_spec_ref prems]
  proof (elim exE conjE, goal_cases)
    case (1 c c1 c2 c3 out2 rest)
    note n = this(1-4)
    from 1(6,7) have o: "contents out2 = concat [?m] @ replicate 8 0" by (simp only: e append_Nil2)
    show ?case
      using 1(5) [THEN spec, THEN spec, THEN spec, THEN mp, OF d(1)]
    proof (elim exE conjE, goal_cases)
      case (1 d1 d2 res2)
      from 1(2) [THEN spec, THEN mp, OF d(2)] have f: "aws_symmetric_cipher_finalize_decryption ?vt d1 (empty_out 0) = (Inr (), d2, res2)"
          "contents res2 = ?m" by (simp_all only: e) simp_all
      show ?case
        by (intro exI conjI) (rule n(1), rule n(2) [unfolded one], rule n(3), rule o [unfolded one], rule n(4), rule 1(1) [unfolded one], rule f(1), rule f(2))
    qed
  qed
qed

end
