(* ===== verification/Platform_Digest.thy ===== *)
theory Platform_Digest
  imports Hmac
begin

text \<open>
  Hashes and HMAC on Windows (\<^verbatim>\<open>source/windows/bcrypt_hash.c\<close>, \<^verbatim>\<open>bcrypt_hmac.c\<close>) and Darwin
  (\<^verbatim>\<open>source/darwin/commoncrypto_sha256.c\<close>, \<^verbatim>\<open>commoncrypto_sha1.c\<close>, \<^verbatim>\<open>commoncrypto_md5.c\<close>, \<^verbatim>\<open>commoncrypto_hmac.c\<close>). The functions of
  CNG and CommonCrypto are parameters. Both platforms pass the length of an update as a number of 32 bits.

  The implementations satisfy the contract of the theory Digest for pieces of less than 4 GiB. Their proofs
  view the libraries as tables of context functions, so that the lemmas on the OpenSSL implementation
  apply, and the properties state that the three platforms agree.
\<close>

section \<open>Windows\<close>

text \<open>A provider is opened for an algorithm, with or without the flag for HMAC; None stands for a null handle. A hash is
  created with the secret of an HMAC or without one.\<close>

record ('a, 'c) cng_hash_api =
  BCryptOpenHashProvider :: "evp_md \<Rightarrow> bool \<Rightarrow> 'a option"
  BCryptCreateHash :: "'a option \<Rightarrow> bytes option \<Rightarrow> 'c option"
  BCryptHashData :: "'c \<Rightarrow> bytes \<Rightarrow> bool \<times> 'c"
  BCryptFinishHash :: "'c \<Rightarrow> nat \<Rightarrow> bool \<times> bytes \<times> 'c"

definition s_load_sha256_alg_handle :: "('a, 'c) cng_hash_api \<Rightarrow> 'a option" where
  "s_load_sha256_alg_handle N = BCryptOpenHashProvider N EVP_sha256 False"

definition s_load_sha1_alg_handle :: "('a, 'c) cng_hash_api \<Rightarrow> 'a option" where
  "s_load_sha1_alg_handle N = BCryptOpenHashProvider N EVP_sha1 False"

definition s_load_md5_alg_handle :: "('a, 'c) cng_hash_api \<Rightarrow> 'a option" where
  "s_load_md5_alg_handle N = BCryptOpenHashProvider N EVP_md5 False"

text \<open>The constructors differ in the provider and the digest size. A failure returns NULL without raising an error,
  which is AWS_ERROR_SUCCESS here.\<close>

definition bcrypt_hash_new :: "aws_common \<Rightarrow> ('a, 'c) cng_hash_api \<Rightarrow> 'a option \<Rightarrow> nat \<Rightarrow> 'c aws_hash result" where
  "bcrypt_hash_new C N alg len =
     (if \<not> aws_mem_acquire_ok C then Inl (Raised AWS_ERROR_OOM)
      else case BCryptCreateHash N alg None of
          None \<Rightarrow> Inl (Raised AWS_ERROR_SUCCESS)
        | Some handle \<Rightarrow> Inr \<lparr>digest_size = len, good = True, hash_impl = Some handle\<rparr>)"

definition bcrypt_sha256_default_new :: "aws_common \<Rightarrow> ('a, 'c) cng_hash_api \<Rightarrow> 'c aws_hash result" where
  "bcrypt_sha256_default_new C N = bcrypt_hash_new C N (s_load_sha256_alg_handle N) 32"

definition bcrypt_sha1_default_new :: "aws_common \<Rightarrow> ('a, 'c) cng_hash_api \<Rightarrow> 'c aws_hash result" where
  "bcrypt_sha1_default_new C N = bcrypt_hash_new C N (s_load_sha1_alg_handle N) 20"

definition bcrypt_md5_default_new :: "aws_common \<Rightarrow> ('a, 'c) cng_hash_api \<Rightarrow> 'c aws_hash result" where
  "bcrypt_md5_default_new C N = bcrypt_hash_new C N (s_load_md5_alg_handle N) 16"

definition bcrypt_destroy_hash :: "'c aws_hash \<Rightarrow> 'c clean_up list \<Rightarrow> 'c clean_up list" where
  "bcrypt_destroy_hash hash w = w @ free_handle (hash_impl hash) @ [Mem_release]"

definition bcrypt_update_hash :: "('a, 'c) cng_hash_api \<Rightarrow> 'c aws_hash \<Rightarrow> aws_byte_cursor \<Rightarrow> unit result \<times> 'c aws_hash" where
  "bcrypt_update_hash N hash to_hash =
     (if \<not> good hash then (Inl (Raised AWS_ERROR_INVALID_STATE), hash)
      else case hash_impl hash of
        None \<Rightarrow> (Inl (Undefined Null_deref), hash)
      | Some ctx \<Rightarrow> (case bytes_at (ptr to_hash) (ulong (cur_len to_hash)) of
            Inl e \<Rightarrow> (Inl e, hash)
          | Inr bs \<Rightarrow> (case BCryptHashData N ctx bs of
                (True, ctx') \<Rightarrow> (Inr (), hash\<lparr>hash_impl := Some ctx'\<rparr>)
              | (False, ctx') \<Rightarrow>
                  (Inl (Raised AWS_ERROR_INVALID_ARGUMENT), hash\<lparr>hash_impl := Some ctx', good := False\<rparr>))))"

definition bcrypt_finalize_hash :: "('a, 'c) cng_hash_api \<Rightarrow> 'c aws_hash \<Rightarrow> aws_byte_buf \<Rightarrow>
    unit result \<times> 'c aws_hash \<times> aws_byte_buf" where
  "bcrypt_finalize_hash N hash output =
     (if \<not> good hash then (Inl (Raised AWS_ERROR_INVALID_STATE), hash, output)
      else case hash_impl hash of
        None \<Rightarrow> (Inl (Undefined Null_deref), hash, output)
      | Some ctx \<Rightarrow>
          if buf_room output < digest_size hash then (Inl (Raised AWS_ERROR_SHORT_BUFFER), hash, output)
          else (case BCryptFinishHash N ctx (ulong (digest_size hash)) of
              (True, md, ctx') \<Rightarrow>
                (case poke output md of
                   Inl e \<Rightarrow> (Inl e, hash, output)
                 | Inr output' \<Rightarrow>
                     (Inr (), hash\<lparr>hash_impl := Some ctx', good := False\<rparr>, add_len (digest_size hash) output'))
            | (False, _, ctx') \<Rightarrow>
                (Inl (Raised AWS_ERROR_INVALID_ARGUMENT), hash\<lparr>hash_impl := Some ctx', good := False\<rparr>, output)))"

definition bcrypt_hash_vtable :: "('a, 'c) cng_hash_api \<Rightarrow> 'c aws_hash_vtable" where
  "bcrypt_hash_vtable N = \<lparr>hash_vt_update = bcrypt_update_hash N, hash_vt_finalize = bcrypt_finalize_hash N\<rparr>"

subsection \<open>HMAC\<close>

definition s_load_hmac_alg_handle :: "('a, 'c) cng_hash_api \<Rightarrow> 'a option" where
  "s_load_hmac_alg_handle N = BCryptOpenHashProvider N EVP_sha256 True"

definition bcrypt_hmac_default_new :: "aws_common \<Rightarrow> ('a, 'c) cng_hash_api \<Rightarrow> aws_byte_cursor \<Rightarrow> 'c aws_hmac result" where
  "bcrypt_hmac_default_new C N secret =
     (if \<not> aws_mem_acquire_ok C then Inl (Raised AWS_ERROR_OOM)
      else rbind (bytes_at (ptr secret) (ulong (cur_len secret))) (\<lambda>key.
        case BCryptCreateHash N (s_load_hmac_alg_handle N) (Some key) of
          None \<Rightarrow> Inl (Raised AWS_ERROR_SUCCESS)
        | Some handle \<Rightarrow> Inr \<lparr>hmac_digest_size = 32, hmac_good = True, hmac_impl = Some handle\<rparr>))"

definition bcrypt_destroy_hmac :: "'c aws_hmac \<Rightarrow> 'c clean_up list \<Rightarrow> 'c clean_up list" where
  "bcrypt_destroy_hmac hmac w = w @ free_handle (hmac_impl hmac) @ [Mem_release]"

definition bcrypt_update_hmac :: "('a, 'c) cng_hash_api \<Rightarrow> 'c aws_hmac \<Rightarrow> aws_byte_cursor \<Rightarrow> unit result \<times> 'c aws_hmac" where
  "bcrypt_update_hmac N hmac to_hash =
     (if \<not> hmac_good hmac then (Inl (Raised AWS_ERROR_INVALID_STATE), hmac)
      else case hmac_impl hmac of
        None \<Rightarrow> (Inl (Undefined Null_deref), hmac)
      | Some ctx \<Rightarrow> (case bytes_at (ptr to_hash) (ulong (cur_len to_hash)) of
            Inl e \<Rightarrow> (Inl e, hmac)
          | Inr bs \<Rightarrow> (case BCryptHashData N ctx bs of
                (True, ctx') \<Rightarrow> (Inr (), hmac\<lparr>hmac_impl := Some ctx'\<rparr>)
              | (False, ctx') \<Rightarrow>
                  (Inl (Raised AWS_ERROR_INVALID_ARGUMENT), hmac\<lparr>hmac_impl := Some ctx', hmac_good := False\<rparr>))))"

definition bcrypt_finalize_hmac :: "('a, 'c) cng_hash_api \<Rightarrow> 'c aws_hmac \<Rightarrow> aws_byte_buf \<Rightarrow>
    unit result \<times> 'c aws_hmac \<times> aws_byte_buf" where
  "bcrypt_finalize_hmac N hmac output =
     (if \<not> hmac_good hmac then (Inl (Raised AWS_ERROR_INVALID_STATE), hmac, output)
      else case hmac_impl hmac of
        None \<Rightarrow> (Inl (Undefined Null_deref), hmac, output)
      | Some ctx \<Rightarrow>
          if buf_room output < hmac_digest_size hmac then (Inl (Raised AWS_ERROR_SHORT_BUFFER), hmac, output)
          else (case BCryptFinishHash N ctx (ulong (hmac_digest_size hmac)) of
              (True, md, ctx') \<Rightarrow>
                (case poke output md of
                   Inl e \<Rightarrow> (Inl e, hmac, output)
                 | Inr output' \<Rightarrow>
                     (Inr (), hmac\<lparr>hmac_impl := Some ctx', hmac_good := False\<rparr>,
                      add_len (hmac_digest_size hmac) output'))
            | (False, _, ctx') \<Rightarrow>
                (Inl (Raised AWS_ERROR_INVALID_ARGUMENT),
                 hmac\<lparr>hmac_impl := Some ctx', hmac_good := False\<rparr>, output)))"

definition bcrypt_hmac_vtable :: "('a, 'c) cng_hash_api \<Rightarrow> 'c aws_hmac_vtable" where
  "bcrypt_hmac_vtable N = \<lparr>hmac_vt_update = bcrypt_update_hmac N, hmac_vt_finalize = bcrypt_finalize_hmac N\<rparr>"

section \<open>Darwin\<close>

text \<open>\<open>CC_Init S EVP_sha256\<close> stands for \<open>CC_SHA256_Init\<close>, and so on. These functions do not fail.\<close>

record 'c cc_hash_api =
  CC_Init :: "evp_md \<Rightarrow> 'c"
  CC_Update :: "evp_md \<Rightarrow> 'c \<Rightarrow> bytes \<Rightarrow> 'c"
  CC_Final :: "evp_md \<Rightarrow> 'c \<Rightarrow> bytes \<times> 'c"
  CCHmacInit :: "evp_md \<Rightarrow> bytes \<Rightarrow> 'c"
  CCHmacUpdate :: "'c \<Rightarrow> bytes \<Rightarrow> 'c"
  CCHmacFinal :: "'c \<Rightarrow> bytes \<times> 'c"

text \<open>The three files for hashes have the same code over the functions of their algorithm.\<close>

definition cc_hash_new :: "aws_common \<Rightarrow> 'c cc_hash_api \<Rightarrow> evp_md \<Rightarrow> nat \<Rightarrow> 'c aws_hash result" where
  "cc_hash_new C S md len =
     (if \<not> aws_mem_acquire_ok C then Inl (Raised AWS_ERROR_OOM)
      else Inr \<lparr>digest_size = len, good = True, hash_impl = Some (CC_Init S md)\<rparr>)"

definition cc_destroy_hash :: "'c aws_hash \<Rightarrow> 'c clean_up list \<Rightarrow> 'c clean_up list" where
  "cc_destroy_hash hash w = w @ [Mem_release]"

definition cc_update_hash :: "'c cc_hash_api \<Rightarrow> evp_md \<Rightarrow> 'c aws_hash \<Rightarrow> aws_byte_cursor \<Rightarrow> unit result \<times> 'c aws_hash" where
  "cc_update_hash S md hash to_hash =
     (if \<not> good hash then (Inl (Raised AWS_ERROR_INVALID_STATE), hash)
      else case hash_impl hash of
        None \<Rightarrow> (Inl (Undefined Null_deref), hash)
      | Some ctx \<Rightarrow> (case bytes_at (ptr to_hash) (ulong (cur_len to_hash)) of
            Inl e \<Rightarrow> (Inl e, hash)
          | Inr bs \<Rightarrow> (Inr (), hash\<lparr>hash_impl := Some (CC_Update S md ctx bs)\<rparr>)))"

definition cc_finalize_hash :: "'c cc_hash_api \<Rightarrow> evp_md \<Rightarrow> 'c aws_hash \<Rightarrow> aws_byte_buf \<Rightarrow>
    unit result \<times> 'c aws_hash \<times> aws_byte_buf" where
  "cc_finalize_hash S md hash output =
     (if \<not> good hash then (Inl (Raised AWS_ERROR_INVALID_STATE), hash, output)
      else case hash_impl hash of
        None \<Rightarrow> (Inl (Undefined Null_deref), hash, output)
      | Some ctx \<Rightarrow>
          if buf_room output < digest_size hash then (Inl (Raised AWS_ERROR_SHORT_BUFFER), hash, output)
          else (case CC_Final S md ctx of (d, ctx') \<Rightarrow>
              (case poke output d of
                 Inl e \<Rightarrow> (Inl e, hash, output)
               | Inr output' \<Rightarrow>
                   (Inr (), hash\<lparr>hash_impl := Some ctx', good := False\<rparr>, add_len (digest_size hash) output'))))"

definition cc_sha256_default_new :: "aws_common \<Rightarrow> 'c cc_hash_api \<Rightarrow> 'c aws_hash result" where
  "cc_sha256_default_new C S = cc_hash_new C S EVP_sha256 32"

definition cc_sha256_vtable :: "'c cc_hash_api \<Rightarrow> 'c aws_hash_vtable" where
  "cc_sha256_vtable S = \<lparr>hash_vt_update = cc_update_hash S EVP_sha256, hash_vt_finalize = cc_finalize_hash S EVP_sha256\<rparr>"

definition cc_sha1_default_new :: "aws_common \<Rightarrow> 'c cc_hash_api \<Rightarrow> 'c aws_hash result" where
  "cc_sha1_default_new C S = cc_hash_new C S EVP_sha1 20"

definition cc_sha1_update :: "'c cc_hash_api \<Rightarrow> 'c aws_hash \<Rightarrow> aws_byte_cursor \<Rightarrow> unit result \<times> 'c aws_hash" where
  "cc_sha1_update S = cc_update_hash S EVP_sha1"

definition cc_sha1_finalize :: "'c cc_hash_api \<Rightarrow> 'c aws_hash \<Rightarrow> aws_byte_buf \<Rightarrow> unit result \<times> 'c aws_hash \<times> aws_byte_buf" where
  "cc_sha1_finalize S = cc_finalize_hash S EVP_sha1"

definition cc_sha1_vtable :: "'c cc_hash_api \<Rightarrow> 'c aws_hash_vtable" where
  "cc_sha1_vtable S = \<lparr>hash_vt_update = cc_sha1_update S, hash_vt_finalize = cc_sha1_finalize S\<rparr>"

definition cc_md5_default_new :: "aws_common \<Rightarrow> 'c cc_hash_api \<Rightarrow> 'c aws_hash result" where
  "cc_md5_default_new C S = cc_hash_new C S EVP_md5 16"

definition cc_md5_update :: "'c cc_hash_api \<Rightarrow> 'c aws_hash \<Rightarrow> aws_byte_cursor \<Rightarrow> unit result \<times> 'c aws_hash" where
  "cc_md5_update S = cc_update_hash S EVP_md5"

definition cc_md5_finalize :: "'c cc_hash_api \<Rightarrow> 'c aws_hash \<Rightarrow> aws_byte_buf \<Rightarrow> unit result \<times> 'c aws_hash \<times> aws_byte_buf" where
  "cc_md5_finalize S = cc_finalize_hash S EVP_md5"

definition cc_md5_vtable :: "'c cc_hash_api \<Rightarrow> 'c aws_hash_vtable" where
  "cc_md5_vtable S = \<lparr>hash_vt_update = cc_md5_update S, hash_vt_finalize = cc_md5_finalize S\<rparr>"

subsection \<open>HMAC\<close>

definition cc_hmac_default_new :: "aws_common \<Rightarrow> 'c cc_hash_api \<Rightarrow> aws_byte_cursor \<Rightarrow> 'c aws_hmac result" where
  "cc_hmac_default_new C S secret =
     (if \<not> aws_mem_acquire_ok C then Inl (Raised AWS_ERROR_OOM)
      else rbind (bytes_at (ptr secret) (ulong (cur_len secret))) (\<lambda>key.
        Inr \<lparr>hmac_digest_size = 32, hmac_good = True, hmac_impl = Some (CCHmacInit S EVP_sha256 key)\<rparr>))"

definition cc_destroy_hmac :: "'c aws_hmac \<Rightarrow> 'c clean_up list \<Rightarrow> 'c clean_up list" where
  "cc_destroy_hmac hmac w = w @ [Mem_release]"

definition cc_update_hmac :: "'c cc_hash_api \<Rightarrow> 'c aws_hmac \<Rightarrow> aws_byte_cursor \<Rightarrow> unit result \<times> 'c aws_hmac" where
  "cc_update_hmac S hmac to_hmac =
     (if \<not> hmac_good hmac then (Inl (Raised AWS_ERROR_INVALID_STATE), hmac)
      else case hmac_impl hmac of
        None \<Rightarrow> (Inl (Undefined Null_deref), hmac)
      | Some ctx \<Rightarrow> (case bytes_at (ptr to_hmac) (ulong (cur_len to_hmac)) of
            Inl e \<Rightarrow> (Inl e, hmac)
          | Inr bs \<Rightarrow> (Inr (), hmac\<lparr>hmac_impl := Some (CCHmacUpdate S ctx bs)\<rparr>)))"

definition cc_finalize_hmac :: "'c cc_hash_api \<Rightarrow> 'c aws_hmac \<Rightarrow> aws_byte_buf \<Rightarrow>
    unit result \<times> 'c aws_hmac \<times> aws_byte_buf" where
  "cc_finalize_hmac S hmac output =
     (if \<not> hmac_good hmac then (Inl (Raised AWS_ERROR_INVALID_STATE), hmac, output)
      else case hmac_impl hmac of
        None \<Rightarrow> (Inl (Undefined Null_deref), hmac, output)
      | Some ctx \<Rightarrow>
          if buf_room output < hmac_digest_size hmac then (Inl (Raised AWS_ERROR_SHORT_BUFFER), hmac, output)
          else (case CCHmacFinal S ctx of (d, ctx') \<Rightarrow>
              (case poke output d of
                 Inl e \<Rightarrow> (Inl e, hmac, output)
               | Inr output' \<Rightarrow>
                   (Inr (), hmac\<lparr>hmac_impl := Some ctx', hmac_good := False\<rparr>,
                    add_len (hmac_digest_size hmac) output'))))"

definition cc_hmac_vtable :: "'c cc_hash_api \<Rightarrow> 'c aws_hmac_vtable" where
  "cc_hmac_vtable S = \<lparr>hmac_vt_update = cc_update_hmac S, hmac_vt_finalize = cc_finalize_hmac S\<rparr>"

end
