(* ===== verification/Platform_Digest_Spec.thy ===== *)
theory Platform_Digest_Spec
  imports Platform_Digest
begin

text \<open>
  The three platforms compute the same digests: each implementation satisfies the contract of the theory
  Digest, for the same digest function. On Windows and Darwin this holds for pieces of less than 4 GiB; of a
  longer one only its length modulo \<open>2 ^ 32\<close> is hashed.
\<close>

section \<open>What the proofs use of the libraries\<close>

definition cng_hash_spec :: "('a, 'c) cng_hash_api \<Rightarrow> ('c \<Rightarrow> (evp_md \<times> bytes) option) \<Rightarrow> (evp_md \<Rightarrow> bytes \<Rightarrow> bytes) \<Rightarrow> bool" where
  "cng_hash_spec N msg H \<longleftrightarrow>
     (\<forall>md. \<exists>c. BCryptCreateHash N (BCryptOpenHashProvider N md False) None = Some c \<and> msg c = Some (md, [])) \<and>
     (\<forall>c md m b. msg c = Some (md, m) \<longrightarrow> (\<exists>c'. BCryptHashData N c b = (True, c') \<and> msg c' = Some (md, m @ b))) \<and>
     (\<forall>c md m. msg c = Some (md, m) \<longrightarrow> (\<exists>c'. BCryptFinishHash N c (md_len md) = (True, H md m, c'))) \<and>
     (\<forall>md m. length (H md m) = md_len md)"

definition cc_hash_spec :: "'c cc_hash_api \<Rightarrow> ('c \<Rightarrow> (evp_md \<times> bytes) option) \<Rightarrow> (evp_md \<Rightarrow> bytes \<Rightarrow> bytes) \<Rightarrow> bool" where
  "cc_hash_spec S msg H \<longleftrightarrow> (\<forall>md. msg (CC_Init S md) = Some (md, [])) \<and>
     (\<forall>c md m b. msg c = Some (md, m) \<longrightarrow> msg (CC_Update S md c b) = Some (md, m @ b)) \<and>
     (\<forall>c md m. msg c = Some (md, m) \<longrightarrow> fst (CC_Final S md c) = H md m) \<and> (\<forall>md m. length (H md m) = md_len md)"

definition cng_hmac_spec :: "('a, 'c) cng_hash_api \<Rightarrow> ('c \<Rightarrow> (bytes \<times> bytes) option) \<Rightarrow> (bytes \<Rightarrow> bytes \<Rightarrow> bytes) \<Rightarrow> bool" where
  "cng_hmac_spec N msg M \<longleftrightarrow>
     (\<forall>k. \<exists>c. BCryptCreateHash N (BCryptOpenHashProvider N EVP_sha256 True) (Some k) = Some c \<and> msg c = Some (k, [])) \<and>
     (\<forall>c k m b. msg c = Some (k, m) \<longrightarrow> (\<exists>c'. BCryptHashData N c b = (True, c') \<and> msg c' = Some (k, m @ b))) \<and>
     (\<forall>c k m. msg c = Some (k, m) \<longrightarrow> (\<exists>c'. BCryptFinishHash N c 32 = (True, M k m, c'))) \<and>
     (\<forall>k m. length (M k m) = 32)"

definition cc_hmac_spec :: "'c cc_hash_api \<Rightarrow> ('c \<Rightarrow> (bytes \<times> bytes) option) \<Rightarrow> (bytes \<Rightarrow> bytes \<Rightarrow> bytes) \<Rightarrow> bool" where
  "cc_hmac_spec S msg M \<longleftrightarrow> (\<forall>k. msg (CCHmacInit S EVP_sha256 k) = Some (k, [])) \<and>
     (\<forall>c k m b. msg c = Some (k, m) \<longrightarrow> msg (CCHmacUpdate S c b) = Some (k, m @ b)) \<and>
     (\<forall>c k m. msg c = Some (k, m) \<longrightarrow> fst (CCHmacFinal S c) = M k m) \<and> (\<forall>k m. length (M k m) = 32)"

section \<open>The libraries as tables of context functions\<close>

text \<open>A context that holds no message takes no part; its functions are harmless.\<close>

definition cng_table :: "('a, 'c) cng_hash_api \<Rightarrow> ('c \<Rightarrow> (evp_md \<times> bytes) option) \<Rightarrow> 'c evp_md_ctx_table" where
  "cng_table N msg =
     \<lparr>md_new_fn = BCryptCreateHash N (BCryptOpenHashProvider N EVP_sha256 False) None,
      md_init_ex_fn = (\<lambda>c md. case BCryptCreateHash N (BCryptOpenHashProvider N md False) None of
        None \<Rightarrow> (False, c) | Some c' \<Rightarrow> (True, c')),
      md_update_fn = (\<lambda>c b. case msg c of None \<Rightarrow> (True, c) | Some _ \<Rightarrow> BCryptHashData N c b),
      md_final_ex_fn = (\<lambda>c. case msg c of None \<Rightarrow> (True, [], c) | Some (md, _) \<Rightarrow> BCryptFinishHash N c (md_len md))\<rparr>"

definition cc_table :: "'c cc_hash_api \<Rightarrow> ('c \<Rightarrow> (evp_md \<times> bytes) option) \<Rightarrow> 'c evp_md_ctx_table" where
  "cc_table S msg =
     \<lparr>md_new_fn = Some (CC_Init S EVP_sha256), md_init_ex_fn = (\<lambda>_ md. (True, CC_Init S md)),
      md_update_fn = (\<lambda>c b. case msg c of None \<Rightarrow> (True, c) | Some (md, _) \<Rightarrow> (True, CC_Update S md c b)),
      md_final_ex_fn = (\<lambda>c. case msg c of None \<Rightarrow> (True, [], c) | Some (md, _) \<Rightarrow> (True, CC_Final S md c))\<rparr>"

lemma cng_table_ok:
  assumes "cng_hash_spec N msg H"
  shows "evp_md_spec (cng_table N msg) msg H" and "evp_md_reliable (cng_table N msg)"
proof -
  have create: "\<exists>c. BCryptCreateHash N (BCryptOpenHashProvider N md False) None = Some c \<and> msg c = Some (md, [])"
    and update: "msg c = Some (md, m) \<Longrightarrow> \<exists>c'. BCryptHashData N c b = (True, c') \<and> msg c' = Some (md, m @ b)"
    and final: "msg c = Some (md, m) \<Longrightarrow> \<exists>c'. BCryptFinishHash N c (md_len md) = (True, H md m, c')"
    and len: "length (H md m) = md_len md" for c md m b
    using assms unfolding cng_hash_spec_def by blast+
  show "evp_md_spec (cng_table N msg) msg H"
    unfolding evp_md_spec_def
  proof (intro conjI allI impI)
    fix c md c'
    assume "md_init_ex_fn (cng_table N msg) c md = (True, c')"
    with create [of md] show "msg c' = Some (md, [])" by (auto simp: cng_table_def)
  next
    fix c md m b c'
    assume "msg c = Some (md, m)" "md_update_fn (cng_table N msg) c b = (True, c')"
    with update [of c md m b] show "msg c' = Some (md, m @ b)" by (auto simp: cng_table_def)
  next
    fix c md m d c'
    assume "msg c = Some (md, m)" "md_final_ex_fn (cng_table N msg) c = (True, d, c')"
    with final [of c md m] show "d = H md m" by (auto simp: cng_table_def)
  qed (rule len)
  show "evp_md_reliable (cng_table N msg)"
    unfolding evp_md_reliable_def
  proof (intro conjI allI)
    show "md_new_fn (cng_table N msg) \<noteq> None" using create [of EVP_sha256] by (auto simp: cng_table_def)
    show "fst (md_init_ex_fn (cng_table N msg) c md)" for c md using create [of md] by (auto simp: cng_table_def)
    show "fst (md_update_fn (cng_table N msg) c b)" for c b
      using update [of c _ _ b] by (cases "msg c") (fastforce simp: cng_table_def)+
    show "fst (md_final_ex_fn (cng_table N msg) c)" for c
      using final [of c] by (cases "msg c") (fastforce simp: cng_table_def)+
  qed
qed

lemma cc_table_ok:
  assumes "cc_hash_spec S msg H"
  shows "evp_md_spec (cc_table S msg) msg H" and "evp_md_reliable (cc_table S msg)"
  using assms
  by (auto simp: cc_hash_spec_def evp_md_spec_def evp_md_reliable_def cc_table_def split: option.split; metis fst_conv)+

section \<open>The implementations satisfy the contract\<close>

text \<open>The cursor whose length has been cast to 32 bits.\<close>

definition cast_len :: "aws_byte_cursor \<Rightarrow> aws_byte_cursor" where
  "cast_len cur = cur\<lparr>cur_len := ulong (cur_len cur)\<rparr>"

lemma cast_len_id: "bytes_at (ptr cur) (cur_len cur) = Inr b \<Longrightarrow> length b < 2 ^ 32 \<Longrightarrow> cast_len cur = cur"
  by (auto simp: cast_len_def ulong_def dest: bytes_at_length)

lemma cng_update_eq:
  assumes "hash_inv msg md h"
  shows "bcrypt_update_hash N h cur = s_update_hash (cng_table N msg) h (cast_len cur)"
  using assms
  by (auto simp: bcrypt_update_hash_def s_update_hash_def cast_len_def cng_table_def hash_inv_def split: sum.split)

lemma cng_finalize_eq:
  assumes "hash_inv msg md h"
  shows "bcrypt_finalize_hash N h out = s_finalize_hash (cng_table N msg) h out"
proof -
  have "ulong (md_len md) = md_len md" by (cases md) (simp_all add: ulong_def)
  with assms show ?thesis
    by (auto simp: bcrypt_finalize_hash_def s_finalize_hash_def cng_table_def hash_inv_def)
qed

lemma cc_update_eq:
  assumes "hash_inv msg md h"
  shows "cc_update_hash S md h cur = s_update_hash (cc_table S msg) h (cast_len cur)"
  using assms
  by (auto simp: cc_update_hash_def s_update_hash_def cast_len_def cc_table_def hash_inv_def split: sum.split)

lemma cc_finalize_eq:
  assumes "hash_inv msg md h"
  shows "cc_finalize_hash S md h out = s_finalize_hash (cc_table S msg) h out"
  using assms
  by (auto simp: cc_finalize_hash_def s_finalize_hash_def cc_table_def hash_inv_def split: prod.split sum.split)

text \<open>What follows for any implementation that is the OpenSSL one on another table and on cast lengths.\<close>

lemma digest_like_openssl:
  assumes T: "P \<Longrightarrow> evp_md_spec T msg H" "P \<Longrightarrow> evp_md_reliable T"
    and u: "\<And>h cur. hash_inv msg md h \<Longrightarrow> U h cur = s_update_hash T h (cast_len cur)"
    and f: "\<And>h out. hash_inv msg md h \<Longrightarrow> F h out = s_finalize_hash T h out"
  shows "digest U F (\<lambda>h. P \<and> hash_inv msg md h) (hash_fed msg) (md_len md)
    (\<lambda>m. if P then H md m else replicate (md_len md) 0) True (\<lambda>b. length b < 2 ^ 32)"
proof (unfold_locales, goal_cases)
  case (1 h m cur b)
  then have "U h cur = s_update_hash T h cur" using u [of h cur] cast_len_id by auto
  with openssl_hash.update_ok [of T msg H md h m cur b] 1 T show ?case by auto
next
  case (2 h m out)
  with openssl_hash.finalize_ok [of T msg H md h m out] T f [of h out] show ?case by auto
next
  case (3 h m out)
  with openssl_hash.finalize_short [of T msg H md h m out] T f [of h out] show ?case by auto
next
  case (4 h cur)
  with openssl_hash.spent_update [of T msg H md h "cast_len cur"] T u [of h cur] show ?case by auto
next
  case (5 h out)
  with openssl_hash.spent_finalize [of T msg H md h out] T f [of h out] show ?case by auto
next
  case (6 m)
  show ?case using openssl_hash.dig_length [of T msg H md m] T by auto
next
  case 7
  show ?case by (rule openssl_hash.size_max)
qed

interpretation cng_hash: digest "bcrypt_update_hash N" "bcrypt_finalize_hash N"
  "\<lambda>h. cng_hash_spec N msg H \<and> hash_inv msg md h" "hash_fed msg" "md_len md"
  "\<lambda>m. if cng_hash_spec N msg H then H md m else replicate (md_len md) 0" True "\<lambda>b. length b < 2 ^ 32" for N msg H md
  by (rule digest_like_openssl [where T = "cng_table N msg"]) (auto simp: cng_table_ok cng_update_eq cng_finalize_eq)

interpretation cc_hash: digest "cc_update_hash S md" "cc_finalize_hash S md"
  "\<lambda>h. cc_hash_spec S msg H \<and> hash_inv msg md h" "hash_fed msg" "md_len md"
  "\<lambda>m. if cc_hash_spec S msg H then H md m else replicate (md_len md) 0" True "\<lambda>b. length b < 2 ^ 32" for S msg H md
  by (rule digest_like_openssl [where T = "cc_table S msg"]) (auto simp: cc_table_ok cc_update_eq cc_finalize_eq)

subsection \<open>HMAC\<close>

definition cng_hmac_table :: "('a, 'c) cng_hash_api \<Rightarrow> ('c \<Rightarrow> (bytes \<times> bytes) option) \<Rightarrow> 'c hmac_ctx_table" where
  "cng_hmac_table N msg =
     \<lparr>hmac_new_ctx_fn = BCryptCreateHash N (BCryptOpenHashProvider N EVP_sha256 True) (Some []), hmac_init_fn = (\<lambda>c. c),
      hmac_init_ex_fn = (\<lambda>c k _. case BCryptCreateHash N (BCryptOpenHashProvider N EVP_sha256 True) (Some k) of
        None \<Rightarrow> (False, c) | Some c' \<Rightarrow> (True, c')),
      hmac_update_fn = (\<lambda>c b. case msg c of None \<Rightarrow> (True, c) | Some _ \<Rightarrow> BCryptHashData N c b),
      hmac_final_fn = (\<lambda>c. case msg c of None \<Rightarrow> (True, [], c) | Some _ \<Rightarrow> BCryptFinishHash N c 32)\<rparr>"

definition cc_hmac_table :: "'c cc_hash_api \<Rightarrow> 'c hmac_ctx_table" where
  "cc_hmac_table S =
     \<lparr>hmac_new_ctx_fn = Some (CCHmacInit S EVP_sha256 []), hmac_init_fn = (\<lambda>c. c),
      hmac_init_ex_fn = (\<lambda>_ k _. (True, CCHmacInit S EVP_sha256 k)),
      hmac_update_fn = (\<lambda>c b. (True, CCHmacUpdate S c b)), hmac_final_fn = (\<lambda>c. (True, CCHmacFinal S c))\<rparr>"

lemma cng_hmac_table_ok:
  assumes "cng_hmac_spec N msg M"
  shows "hmac_spec (cng_hmac_table N msg) msg M" and "hmac_reliable (cng_hmac_table N msg)"
proof -
  have create: "\<exists>c. BCryptCreateHash N (BCryptOpenHashProvider N EVP_sha256 True) (Some k) = Some c \<and> msg c = Some (k, [])"
    and update: "msg c = Some (k, m) \<Longrightarrow> \<exists>c'. BCryptHashData N c b = (True, c') \<and> msg c' = Some (k, m @ b)"
    and final: "msg c = Some (k, m) \<Longrightarrow> \<exists>c'. BCryptFinishHash N c 32 = (True, M k m, c')"
    and len: "length (M k m) = 32" for c k m b
    using assms unfolding cng_hmac_spec_def by blast+
  show "hmac_spec (cng_hmac_table N msg) msg M"
    unfolding hmac_spec_def
  proof (intro conjI allI impI)
    fix c k c'
    assume "length k \<le> INT_MAX" "hmac_init_ex_fn (cng_hmac_table N msg) c k EVP_sha256 = (True, c')"
    with create [of k] show "msg c' = Some (k, [])" by (auto simp: cng_hmac_table_def)
  next
    fix c k m b c'
    assume "msg c = Some (k, m)" "hmac_update_fn (cng_hmac_table N msg) c b = (True, c')"
    with update [of c k m b] show "msg c' = Some (k, m @ b)" by (auto simp: cng_hmac_table_def)
  next
    fix c k m d c'
    assume "msg c = Some (k, m)" "hmac_final_fn (cng_hmac_table N msg) c = (True, d, c')"
    with final [of c k m] show "d = M k m" by (auto simp: cng_hmac_table_def)
  qed (rule len)
  show "hmac_reliable (cng_hmac_table N msg)"
    unfolding hmac_reliable_def
  proof (intro conjI allI)
    show "hmac_new_ctx_fn (cng_hmac_table N msg) \<noteq> None" using create [of "[]"] by (auto simp: cng_hmac_table_def)
    show "length k \<le> INT_MAX \<longrightarrow> fst (hmac_init_ex_fn (cng_hmac_table N msg) c k md)" for c k md using create [of k] by (auto simp: cng_hmac_table_def)
    show "fst (hmac_update_fn (cng_hmac_table N msg) c b)" for c b
      using update [of c _ _ b] by (cases "msg c") (fastforce simp: cng_hmac_table_def)+
    show "fst (hmac_final_fn (cng_hmac_table N msg) c)" for c
      using final [of c] by (cases "msg c") (fastforce simp: cng_hmac_table_def)+
  qed
qed

lemma cc_hmac_table_ok:
  assumes "cc_hmac_spec S msg M"
  shows "hmac_spec (cc_hmac_table S) msg M" and "hmac_reliable (cc_hmac_table S)"
  using assms by (auto simp: cc_hmac_spec_def hmac_spec_def hmac_reliable_def cc_hmac_table_def) (metis fst_conv)

lemma hmac_platform_eq:
  assumes "hmac_inv msg k h"
  shows "bcrypt_update_hmac N h cur = s_update_hmac (cng_hmac_table N msg) h (cast_len cur)"
    and "bcrypt_finalize_hmac N h out = s_finalize_hmac (cng_hmac_table N msg) h out"
    and "cc_update_hmac S h cur = s_update_hmac (cc_hmac_table S) h (cast_len cur)"
    and "cc_finalize_hmac S h out = s_finalize_hmac (cc_hmac_table S) h out"
  using assms
  by (auto simp: bcrypt_update_hmac_def s_update_hmac_def cast_len_def cng_hmac_table_def hmac_inv_def ulong_def
      bcrypt_finalize_hmac_def s_finalize_hmac_def cc_update_hmac_def cc_finalize_hmac_def cc_hmac_table_def
      split: sum.split prod.split)

lemma digest_like_openssl_hmac:
  assumes T: "P \<Longrightarrow> hmac_spec T msg M" "P \<Longrightarrow> hmac_reliable T"
    and u: "\<And>h cur. hmac_inv msg k h \<Longrightarrow> U h cur = s_update_hmac T h (cast_len cur)"
    and f: "\<And>h out. hmac_inv msg k h \<Longrightarrow> F h out = s_finalize_hmac T h out"
  shows "digest U F (\<lambda>h. P \<and> hmac_inv msg k h) (hmac_fed msg) 32
    (\<lambda>m. if P then M k m else replicate 32 0) True (\<lambda>b. length b < 2 ^ 32)"
proof (unfold_locales, goal_cases)
  case (1 h m cur b)
  then have "U h cur = s_update_hmac T h cur" using u [of h cur] cast_len_id by auto
  with openssl_hmac.update_ok [of T msg M k h m cur b] 1 T show ?case by auto
next
  case (2 h m out)
  with openssl_hmac.finalize_ok [of T msg M k h m out] T f [of h out] show ?case by auto
next
  case (3 h m out)
  with openssl_hmac.finalize_short [of T msg M k h m out] T f [of h out] show ?case by auto
next
  case (4 h cur)
  with openssl_hmac.spent_update [of T msg M k h "cast_len cur"] T u [of h cur] show ?case by auto
next
  case (5 h out)
  with openssl_hmac.spent_finalize [of T msg M k h out] T f [of h out] show ?case by auto
next
  case (6 m)
  show ?case using openssl_hmac.dig_length [of T msg M k m] T by auto
qed simp

interpretation cng_hmac: digest "bcrypt_update_hmac N" "bcrypt_finalize_hmac N"
  "\<lambda>h. cng_hmac_spec N msg M \<and> hmac_inv msg k h" "hmac_fed msg" 32
  "\<lambda>m. if cng_hmac_spec N msg M then M k m else replicate 32 0" True "\<lambda>b. length b < 2 ^ 32" for N msg M k
  by (rule digest_like_openssl_hmac [where T = "cng_hmac_table N msg"]) (auto simp: cng_hmac_table_ok hmac_platform_eq)

interpretation cc_hmac: digest "cc_update_hmac S" "cc_finalize_hmac S"
  "\<lambda>h. cc_hmac_spec S msg M \<and> hmac_inv msg k h" "hmac_fed msg" 32
  "\<lambda>m. if cc_hmac_spec S msg M then M k m else replicate 32 0" True "\<lambda>b. length b < 2 ^ 32" for S msg M k
  by (rule digest_like_openssl_hmac [where T = "cc_hmac_table S"]) (auto simp: cc_hmac_table_ok hmac_platform_eq)

section \<open>The three platforms agree\<close>

fun cng_new :: "aws_common \<Rightarrow> ('a, 'c) cng_hash_api \<Rightarrow> evp_md \<Rightarrow> 'c aws_hash result" where
  "cng_new C N EVP_md5 = bcrypt_md5_default_new C N"
| "cng_new C N EVP_sha1 = bcrypt_sha1_default_new C N"
| "cng_new C N EVP_sha256 = bcrypt_sha256_default_new C N"

fun cc_default_new :: "aws_common \<Rightarrow> 'c cc_hash_api \<Rightarrow> evp_md \<Rightarrow> 'c aws_hash result" where
  "cc_default_new C S EVP_md5 = cc_md5_default_new C S"
| "cc_default_new C S EVP_sha1 = cc_sha1_default_new C S"
| "cc_default_new C S EVP_sha256 = cc_sha256_default_new C S"

fun cc_hash_vtable :: "'c cc_hash_api \<Rightarrow> evp_md \<Rightarrow> 'c aws_hash_vtable" where
  "cc_hash_vtable S EVP_md5 = cc_md5_vtable S"
| "cc_hash_vtable S EVP_sha1 = cc_sha1_vtable S"
| "cc_hash_vtable S EVP_sha256 = cc_sha256_vtable S"

text \<open>Hashing through the public functions, and its outcome for a digest function.\<close>

definition hash_run :: "'c aws_hash_vtable \<Rightarrow> 'c aws_hash result \<Rightarrow> aws_byte_cursor list \<Rightarrow> aws_byte_buf \<Rightarrow> nat \<Rightarrow> unit result \<times> bytes" where
  "hash_run vt = digest_run (aws_hash_update vt) (aws_hash_finalize vt)"

definition hmac_run :: "'c aws_hmac_vtable \<Rightarrow> 'c aws_hmac result \<Rightarrow> aws_byte_cursor list \<Rightarrow> aws_byte_buf \<Rightarrow> nat \<Rightarrow> unit result \<times> bytes" where
  "hmac_run vt = digest_run (aws_hmac_update vt) (aws_hmac_finalize vt)"

definition outcome :: "nat \<Rightarrow> bytes \<Rightarrow> aws_byte_buf \<Rightarrow> nat \<Rightarrow> unit result \<times> bytes" where
  "outcome dsize d out n = (if out_len dsize n \<le> room out then (Inr (), contents out @ take (out_len dsize n) d)
     else (Inl (Raised AWS_ERROR_SHORT_BUFFER), contents out))"

lemma hash_vtables:
  "aws_hash_update (bcrypt_hash_vtable N) = bcrypt_update_hash N" "aws_hash_update (cc_hash_vtable S md) = cc_update_hash S md"
  "hash_vt_finalize (bcrypt_hash_vtable N) = bcrypt_finalize_hash N" "hash_vt_finalize (cc_hash_vtable S md) = cc_finalize_hash S md"
  by (cases md; simp add: fun_eq_iff aws_hash_update_def bcrypt_hash_vtable_def cc_md5_vtable_def cc_sha1_vtable_def
      cc_sha256_vtable_def cc_md5_update_def cc_md5_finalize_def cc_sha1_update_def cc_sha1_finalize_def)+

lemma hmac_vtables:
  "aws_hmac_update (bcrypt_hmac_vtable N) = bcrypt_update_hmac N" "aws_hmac_update (cc_hmac_vtable S) = cc_update_hmac S"
  "hmac_vt_finalize (bcrypt_hmac_vtable N) = bcrypt_finalize_hmac N" "hmac_vt_finalize (cc_hmac_vtable S) = cc_finalize_hmac S"
  by (simp_all add: fun_eq_iff aws_hmac_update_def bcrypt_hmac_vtable_def cc_hmac_vtable_def)

lemma cng_new_ok:
  assumes "common_spec C" and "cng_hash_spec N msg H"
  obtains h where "cng_new C N md = Inr h" "hash_inv msg md h" "hash_fed msg h = Some []"
proof -
  obtain c where c: "BCryptCreateHash N (BCryptOpenHashProvider N md False) None = Some c" "msg c = Some (md, [])"
    using assms(2) unfolding cng_hash_spec_def by blast
  with assms(1) show ?thesis
    by (intro that [of "\<lparr>digest_size = md_len md, good = True, hash_impl = Some c\<rparr>"]; cases md)
      (simp_all add: bcrypt_md5_default_new_def bcrypt_sha1_default_new_def bcrypt_sha256_default_new_def bcrypt_hash_new_def
        s_load_md5_alg_handle_def s_load_sha1_alg_handle_def s_load_sha256_alg_handle_def hash_inv_def hash_fed_def)
qed

lemma cc_default_new_ok:
  assumes "common_spec C" and "cc_hash_spec S msg H"
  obtains h where "cc_default_new C S md = Inr h" "hash_inv msg md h" "hash_fed msg h = Some []"
proof -
  have "msg (CC_Init S md) = Some (md, [])" using assms(2) by (simp add: cc_hash_spec_def)
  with assms(1) show ?thesis
    by (intro that [of "\<lparr>digest_size = md_len md, good = True, hash_impl = Some (CC_Init S md)\<rparr>"]; cases md)
      (simp_all add: cc_md5_default_new_def cc_sha1_default_new_def cc_sha256_default_new_def cc_hash_new_def hash_inv_def hash_fed_def)
qed

lemma openssl_hash_run:
  assumes "common_spec C" and T: "evp_md_spec T msg H" "evp_md_reliable T"
    and ps: "list_all2 (\<lambda>c b. bytes_at (ptr c) (cur_len c) = Inr b) cs bs" and v: "valid_buf out"
  shows "hash_run (openssl_hash_vtable T) (default_new C T md) cs out n = outcome (md_len md) (H md (concat bs)) out n"
proof -
  obtain h where h: "default_new C T md = Inr h" "hash_inv msg md h" "hash_fed msg h = Some []"
    by (rule default_new_ok [OF assms(1) T])
  show ?thesis
    using openssl_hash.run_ok [of T msg H md h cs bs out "aws_hash_finalize (openssl_hash_vtable T)" n] T h ps v
    by (simp add: hash_run_def hash_update_eq hash_finalize_eq outcome_def)
qed

lemma cng_hash_run:
  assumes "common_spec C" and N: "cng_hash_spec N msg H"
    and ps: "list_all2 (\<lambda>c b. bytes_at (ptr c) (cur_len c) = Inr b) cs bs" "\<forall>b \<in> set bs. length b < 2 ^ 32" and v: "valid_buf out"
  shows "hash_run (bcrypt_hash_vtable N) (cng_new C N md) cs out n = outcome (md_len md) (H md (concat bs)) out n"
proof -
  obtain h where h: "cng_new C N md = Inr h" "hash_inv msg md h" "hash_fed msg h = Some []"
    by (rule cng_new_ok [OF assms(1) N])
  show ?thesis
    using cng_hash.run_ok [of N msg H md h cs bs out "aws_hash_finalize (bcrypt_hash_vtable N)" n] N h ps v
    by (simp add: hash_run_def hash_vtables aws_hash_finalize_def outcome_def hash_inv_def)
qed

lemma cc_hash_run:
  assumes "common_spec C" and S: "cc_hash_spec S msg H"
    and ps: "list_all2 (\<lambda>c b. bytes_at (ptr c) (cur_len c) = Inr b) cs bs" "\<forall>b \<in> set bs. length b < 2 ^ 32" and v: "valid_buf out"
  shows "hash_run (cc_hash_vtable S md) (cc_default_new C S md) cs out n = outcome (md_len md) (H md (concat bs)) out n"
proof -
  obtain h where h: "cc_default_new C S md = Inr h" "hash_inv msg md h" "hash_fed msg h = Some []"
    by (rule cc_default_new_ok [OF assms(1) S])
  show ?thesis
    using cc_hash.run_ok [of S msg H md h cs bs out "aws_hash_finalize (cc_hash_vtable S md)" n] S h ps v
    by (simp add: hash_run_def hash_vtables aws_hash_finalize_def outcome_def hash_inv_def)
qed

text \<open>
  Claim C6. The three platforms hash alike: over libraries that compute the same digest function, a new MD5, SHA1 or SHA256
  object on Unix, Windows or Darwin, fed any pieces of less than 4 GiB each and finalized, appends the digest of their
  concatenation, cut to \<open>truncate_to\<close> bytes where that is positive and less than its size, and fails with
  AWS_ERROR_SHORT_BUFFER and an unchanged output when there is no room.
\<close>

theorem hash_platforms_agree:
  assumes "common_spec C" and "evp_md_spec T msg H" "evp_md_reliable T" and "cng_hash_spec N msgN H" and "cc_hash_spec S msgS H"
    and "list_all2 (\<lambda>c b. bytes_at (ptr c) (cur_len c) = Inr b) cs bs" "\<forall>b \<in> set bs. length b < 2 ^ 32" and "valid_buf out"
  shows "hash_run (openssl_hash_vtable T) (default_new C T md) cs out n = outcome (md_len md) (H md (concat bs)) out n \<and>
    hash_run (bcrypt_hash_vtable N) (cng_new C N md) cs out n = outcome (md_len md) (H md (concat bs)) out n \<and>
    hash_run (cc_hash_vtable S md) (cc_default_new C S md) cs out n = outcome (md_len md) (H md (concat bs)) out n"
  using openssl_hash_run [OF assms(1-3,6,8)] cng_hash_run [OF assms(1,4,6,7,8)] cc_hash_run [OF assms(1,5,6,7,8)] by blast

lemma openssl_hmac_run:
  assumes C: "common_spec C" and T: "hmac_spec T msg M" "hmac_reliable T"
    and k: "bytes_at (ptr secret) (cur_len secret) = Inr k" "length k \<le> INT_MAX"
    and ps: "list_all2 (\<lambda>c b. bytes_at (ptr c) (cur_len c) = Inr b) cs bs" and v: "valid_buf out"
  shows "hmac_run (openssl_hmac_vtable T) (aws_sha256_hmac_default_new C T secret) cs out n = outcome 32 (M k (concat bs)) out n"
proof -
  obtain h where h: "aws_sha256_hmac_default_new C T secret = Inr h" "hmac_inv msg k h" "hmac_fed msg h = Some []"
    by (rule hmac_new_ok [OF C T k])
  show ?thesis
    using openssl_hmac.run_ok [of T msg M k h cs bs out "aws_hmac_finalize (openssl_hmac_vtable T)" n] T h ps v
    by (simp add: hmac_run_def hmac_update_eq hmac_finalize_eq outcome_def)
qed

text \<open>
  Claim C7. The three platforms compute the same HMAC: a new HMAC object under a secret whose length fits a C int, fed pieces of less than 4 GiB
  and finalized, appends the HMAC of their concatenation under that secret, truncated as asked, or fails with
  AWS_ERROR_SHORT_BUFFER and an unchanged output.
\<close>

theorem hmac_platforms_agree:
  assumes C: "common_spec C" and T: "hmac_spec T msg M" "hmac_reliable T" and N: "cng_hmac_spec N msgN M" and S: "cc_hmac_spec S msgS M"
    and k: "bytes_at (ptr secret) (cur_len secret) = Inr k" "length k \<le> INT_MAX"
    and ps: "list_all2 (\<lambda>c b. bytes_at (ptr c) (cur_len c) = Inr b) cs bs" "\<forall>b \<in> set bs. length b < 2 ^ 32" and v: "valid_buf out"
  shows "hmac_run (openssl_hmac_vtable T) (aws_sha256_hmac_default_new C T secret) cs out n = outcome 32 (M k (concat bs)) out n \<and>
    hmac_run (bcrypt_hmac_vtable N) (bcrypt_hmac_default_new C N secret) cs out n = outcome 32 (M k (concat bs)) out n \<and>
    hmac_run (cc_hmac_vtable S) (cc_hmac_default_new C S secret) cs out n = outcome 32 (M k (concat bs)) out n"
proof (intro conjI)
  have k': "bytes_at (ptr secret) (ulong (cur_len secret)) = Inr k"
    using k bytes_at_length [OF k(1)] by (simp add: ulong_def)
  show "hmac_run (openssl_hmac_vtable T) (aws_sha256_hmac_default_new C T secret) cs out n = outcome 32 (M k (concat bs)) out n"
    by (rule openssl_hmac_run [OF C T k ps(1) v])
  obtain c where c: "BCryptCreateHash N (BCryptOpenHashProvider N EVP_sha256 True) (Some k) = Some c" "msgN c = Some (k, [])"
    using N unfolding cng_hmac_spec_def by blast
  define w where "w = \<lparr>hmac_digest_size = 32, hmac_good = True, hmac_impl = Some c\<rparr>"
  have w: "bcrypt_hmac_default_new C N secret = Inr w" "hmac_inv msgN k w" "hmac_fed msgN w = Some []"
    using C c k' by (simp_all add: bcrypt_hmac_default_new_def s_load_hmac_alg_handle_def w_def hmac_inv_def hmac_fed_def)
  show "hmac_run (bcrypt_hmac_vtable N) (bcrypt_hmac_default_new C N secret) cs out n = outcome 32 (M k (concat bs)) out n"
    using cng_hmac.run_ok [of N msgN M k w cs bs out "aws_hmac_finalize (bcrypt_hmac_vtable N)" n] N w ps v
    by (simp add: hmac_run_def hmac_vtables aws_hmac_finalize_def outcome_def hmac_inv_def)
  define d where "d = \<lparr>hmac_digest_size = 32, hmac_good = True, hmac_impl = Some (CCHmacInit S EVP_sha256 k)\<rparr>"
  have d: "cc_hmac_default_new C S secret = Inr d" "hmac_inv msgS k d" "hmac_fed msgS d = Some []"
    using C S k' by (simp_all add: cc_hmac_default_new_def d_def hmac_inv_def hmac_fed_def cc_hmac_spec_def)
  show "hmac_run (cc_hmac_vtable S) (cc_hmac_default_new C S secret) cs out n = outcome 32 (M k (concat bs)) out n"
    using cc_hmac.run_ok [of S msgS M k d cs bs out "aws_hmac_finalize (cc_hmac_vtable S)" n] S d ps v
    by (simp add: hmac_run_def hmac_vtables aws_hmac_finalize_def outcome_def hmac_inv_def)
qed

section \<open>Longer pieces\<close>

lemma cast_len_simps: "ptr (cast_len cur) = ptr cur" "cur_len (cast_len cur) = ulong (cur_len cur)" "ulong (ulong n) = ulong n"
  by (simp_all add: cast_len_def ulong_def)

lemma cast_len_updates:
  "bcrypt_update_hash N h (cast_len cur) = bcrypt_update_hash N h cur" "cc_update_hash S md h' (cast_len cur) = cc_update_hash S md h' cur"
  by (simp_all add: bcrypt_update_hash_def cc_update_hash_def cast_len_simps split: option.split)

lemma update_all_cast:
  assumes "\<And>h cur. U h (cast_len cur) = U h cur"
  shows "update_all U (map cast_len cs) h = update_all U cs h"
  by (induction cs arbitrary: h) (simp_all add: assms split: prod.split sum.split)

lemma cast_pieces:
  assumes "list_all2 (\<lambda>c b. bytes_at (ptr c) (cur_len c) = Inr b) cs bs"
  shows "list_all2 (\<lambda>c b. bytes_at (ptr c) (cur_len c) = Inr b) (map cast_len cs) (map (\<lambda>b. take (ulong (length b)) b) bs)"
  using assms
proof (induction rule: list_all2_induct)
  case (Cons c cs b bs)
  have "length b = cur_len c" using Cons.hyps(1) by (rule bytes_at_length)
  with Cons bytes_at_take [OF Cons.hyps(1), of "ulong (cur_len c)"] show ?case by (simp add: cast_len_simps ulong_def)
qed simp

text \<open>The bytes that reach the hash.\<close>

definition cut_pieces :: "bytes list \<Rightarrow> bytes" where
  "cut_pieces bs = concat (map (\<lambda>b. take (length b mod 2 ^ 32) b) bs)"

text \<open>
  Claim C34. A piece of 4 GiB or more is cut on Windows and Darwin: the hash of any pieces is there the digest of the concatenation
  of their prefixes of length modulo \<open>2 ^ 32\<close>, and the update reports success. The remaining bytes do not contribute.
\<close>

theorem platform_hash_truncates:
  assumes "common_spec C" and "cng_hash_spec N msgN H" and "cc_hash_spec S msgS H"
    and "list_all2 (\<lambda>c b. bytes_at (ptr c) (cur_len c) = Inr b) cs bs" and "valid_buf out"
  shows "hash_run (bcrypt_hash_vtable N) (cng_new C N md) cs out n = outcome (md_len md) (H md (cut_pieces bs)) out n \<and>
    hash_run (cc_hash_vtable S md) (cc_default_new C S md) cs out n = outcome (md_len md) (H md (cut_pieces bs)) out n"
proof -
  let ?bs = "map (\<lambda>b. take (ulong (length b)) b) bs"
  have short: "\<forall>b \<in> set ?bs. length b < 2 ^ 32" by (auto simp: ulong_def intro: le_less_trans [OF _ mod_less_divisor])
  have cut: "cut_pieces bs = concat ?bs" by (simp add: cut_pieces_def ulong_def)
  have "update_all (bcrypt_update_hash N) (map cast_len cs) h = update_all (bcrypt_update_hash N) cs h"
    and "update_all (cc_update_hash S md) (map cast_len cs) h' = update_all (cc_update_hash S md) cs h'" for h h'
    by (simp_all add: update_all_cast cast_len_updates)
  then show ?thesis
    using cng_hash_run [OF assms(1,2) cast_pieces [OF assms(4)] short assms(5), of md n]
      cc_hash_run [OF assms(1,3) cast_pieces [OF assms(4)] short assms(5), of md n]
    by (simp add: hash_run_def digest_run_def hash_vtables cut cong: sum.case_cong)
qed

section \<open>Witnesses\<close>

text \<open>Libraries whose context is the message so far.\<close>

definition ref_mac :: "bytes \<Rightarrow> bytes \<Rightarrow> bytes" where
  "ref_mac k m = replicate 32 (word_of_nat (length k + length m))"

definition ref_cng_hash :: "(evp_md, (evp_md \<times> bytes) option) cng_hash_api" where
  "ref_cng_hash =
     \<lparr>BCryptOpenHashProvider = (\<lambda>md _. Some md), BCryptCreateHash = (\<lambda>a _. Some (map_option (\<lambda>md. (md, [])) a)),
      BCryptHashData = (\<lambda>c b. (True, map_option (\<lambda>(md, m). (md, m @ b)) c)),
      BCryptFinishHash = (\<lambda>c _. (True, (case c of None \<Rightarrow> [] | Some (md, m) \<Rightarrow> ref_digest md m), None))\<rparr>"

definition ref_cng_hmac :: "(evp_md, (bytes \<times> bytes) option) cng_hash_api" where
  "ref_cng_hmac =
     \<lparr>BCryptOpenHashProvider = (\<lambda>md _. Some md), BCryptCreateHash = (\<lambda>_ k. Some (map_option (\<lambda>k. (k, [])) k)),
      BCryptHashData = (\<lambda>c b. (True, map_option (\<lambda>(k, m). (k, m @ b)) c)),
      BCryptFinishHash = (\<lambda>c _. (True, (case c of None \<Rightarrow> [] | Some (k, m) \<Rightarrow> ref_mac k m), None))\<rparr>"

definition ref_cc_hash :: "(evp_md \<times> bytes) option cc_hash_api" where
  "ref_cc_hash =
     \<lparr>CC_Init = (\<lambda>md. Some (md, [])), CC_Update = (\<lambda>_ c b. map_option (\<lambda>(md, m). (md, m @ b)) c),
      CC_Final = (\<lambda>_ c. ((case c of None \<Rightarrow> [] | Some (md, m) \<Rightarrow> ref_digest md m), None)),
      CCHmacInit = (\<lambda>md _. Some (md, [])), CCHmacUpdate = (\<lambda>c _. c), CCHmacFinal = (\<lambda>c. ([], c))\<rparr>"

definition ref_cc_hmac :: "(bytes \<times> bytes) option cc_hash_api" where
  "ref_cc_hmac =
     \<lparr>CC_Init = (\<lambda>_. None), CC_Update = (\<lambda>_ c _. c), CC_Final = (\<lambda>_ c. ([], c)),
      CCHmacInit = (\<lambda>_ k. Some (k, [])), CCHmacUpdate = (\<lambda>c b. map_option (\<lambda>(k, m). (k, m @ b)) c),
      CCHmacFinal = (\<lambda>c. ((case c of None \<Rightarrow> [] | Some (k, m) \<Rightarrow> ref_mac k m), None))\<rparr>"

lemma ref_hash_apis_ok: "cng_hash_spec ref_cng_hash id ref_digest" "cc_hash_spec ref_cc_hash id ref_digest"
  by (auto simp: cng_hash_spec_def ref_cng_hash_def cc_hash_spec_def ref_cc_hash_def ref_digest_def)

lemma ref_hmac_apis_ok: "hmac_spec ref_hmac id ref_mac" "cng_hmac_spec ref_cng_hmac id ref_mac" "cc_hmac_spec ref_cc_hmac id ref_mac"
  by (auto simp: hmac_spec_def ref_hmac_def cng_hmac_spec_def ref_cng_hmac_def cc_hmac_spec_def ref_cc_hmac_def ref_mac_def)

lemma hash_platforms_agree_witness:
  "hash_run (openssl_hash_vtable ref_evp_md) (default_new ref_common ref_evp_md EVP_sha1)
     [cursor_of [1, 2], cursor_of [3]] (empty_out 8) 5 = (Inr (), replicate 5 3) \<and>
   hash_run (bcrypt_hash_vtable ref_cng_hash) (cng_new ref_common ref_cng_hash EVP_sha1)
     [cursor_of [1, 2], cursor_of [3]] (empty_out 8) 5 = (Inr (), replicate 5 3) \<and>
   hash_run (cc_hash_vtable ref_cc_hash EVP_sha1) (cc_default_new ref_common ref_cc_hash EVP_sha1)
     [cursor_of [1, 2], cursor_of [3]] (empty_out 8) 5 = (Inr (), replicate 5 3)"
  using hash_platforms_agree [OF common_spec_ref ref_evp_md_ok ref_hash_apis_ok, of "[cursor_of [1, 2], cursor_of [3]]"
      "[[1, 2], [3]]" "empty_out 8" EVP_sha1 5]
  by (simp add: out_len_def outcome_def ref_digest_def)

lemma hmac_platforms_agree_witness:
  "hmac_run (openssl_hmac_vtable ref_hmac) (aws_sha256_hmac_default_new ref_common ref_hmac (cursor_of [9]))
     [cursor_of [1, 2], cursor_of [3]] (empty_out 40) 0 = (Inr (), replicate 32 4) \<and>
   hmac_run (bcrypt_hmac_vtable ref_cng_hmac) (bcrypt_hmac_default_new ref_common ref_cng_hmac (cursor_of [9]))
     [cursor_of [1, 2], cursor_of [3]] (empty_out 40) 0 = (Inr (), replicate 32 4) \<and>
   hmac_run (cc_hmac_vtable ref_cc_hmac) (cc_hmac_default_new ref_common ref_cc_hmac (cursor_of [9]))
     [cursor_of [1, 2], cursor_of [3]] (empty_out 40) 0 = (Inr (), replicate 32 4)"
  using hmac_platforms_agree [OF common_spec_ref ref_hmac_apis_ok(1) ref_hmac_ok(2) ref_hmac_apis_ok(2,3), of "cursor_of [9]" "[9]"
      "[cursor_of [1, 2], cursor_of [3]]" "[[1, 2], [3]]" "empty_out 40" 0]
  by (simp add: out_len_def outcome_def ref_mac_def)

lemma platform_hash_truncates_witness:
  "hash_run (bcrypt_hash_vtable ref_cng_hash) (cng_new ref_common ref_cng_hash EVP_md5)
     [cursor_of (replicate (2 ^ 32) 7)] (empty_out 16) 0 = (Inr (), replicate 16 0) \<and>
   hash_run (cc_hash_vtable ref_cc_hash EVP_md5) (cc_default_new ref_common ref_cc_hash EVP_md5)
     [cursor_of (replicate (2 ^ 32) 7)] (empty_out 16) 0 = (Inr (), replicate 16 0)"
  using platform_hash_truncates [OF common_spec_ref ref_hash_apis_ok, of "[cursor_of (replicate (2 ^ 32) 7)]"
      "[replicate (2 ^ 32) 7]" "empty_out 16" EVP_md5 0]
  by (simp add: out_len_def outcome_def ref_digest_def cut_pieces_def)

end
