(* ===== verification/Libcrypto.thy ===== *)
theory Libcrypto
  imports Hmac
begin

text \<open>
  How the Unix platform finds libcrypto, \<^verbatim>\<open>source/unix/openssl_platform_init.c\<close>: the functions of the HMAC and
  digest tables are taken from the symbols bound by linking or looked up with \<open>dlsym\<close>, first in the process
  and then in three shared libraries. The dynamic linker and the callbacks of libcrypto are parameters: \<open>'f\<close>
  is a function of libcrypto, \<open>'m\<close> a module and \<open>'s\<close> the state libcrypto keeps for itself. The macro that
  says for which library the code was compiled is the parameter of type \<open>build\<close>.
\<close>

section \<open>The state\<close>

datatype build = OPENSSL_IS_OPENSSL | OPENSSL_IS_AWSLC | OPENSSL_IS_BORINGSSL

datatype aws_libcrypto_version =
  AWS_LIBCRYPTO_NONE | AWS_LIBCRYPTO_1_0_2 | AWS_LIBCRYPTO_1_1_1 | AWS_LIBCRYPTO_LC | AWS_LIBCRYPTO_BORINGSSL

text \<open>A function pointer is null, a function of libcrypto or one of the file's own.\<close>

datatype 'f fn_ptr =
    Lib 'f
  | s_hmac_ctx_new
  | s_hmac_ctx_free
  | s_hmac_ctx_init_noop
  | s_hmac_ctx_clean_up_noop
  | s_hmac_init_ex_openssl
  | s_hmac_init_ex_bssl

record 'f openssl_hmac_ctx_table =
  new_fn :: "'f fn_ptr option"
  free_fn :: "'f fn_ptr option"
  init_fn :: "'f fn_ptr option"
  clean_up_fn :: "'f fn_ptr option"
  init_ex_fn :: "'f fn_ptr option"
  update_fn :: "'f fn_ptr option"
  final_fn :: "'f fn_ptr option"
  impl_init_ex_fn :: "'f fn_ptr option"

record 'f openssl_evp_md_ctx_table =
  evp_new_fn :: "'f fn_ptr option"
  evp_free_fn :: "'f fn_ptr option"
  evp_init_ex_fn :: "'f fn_ptr option"
  evp_update_fn :: "'f fn_ptr option"
  evp_final_ex_fn :: "'f fn_ptr option"

text \<open>The dynamic linker: the weak references that were bound, the modules, their symbols, and the result of the function
  \<open>OpenSSL_version_num\<close>.\<close>

record ('f, 'm) dl_env =
  linked :: "string \<Rightarrow> 'f option"
  dlopen :: "string option \<Rightarrow> 'm option"
  dlsym :: "'m \<Rightarrow> string \<Rightarrow> 'f option"
  call_version_num :: "'f \<Rightarrow> nat"

datatype callback = s_locking_fn | s_id_fn | Foreign_callback

record 's crypto_api =
  CRYPTO_get_locking_callback :: "'s \<Rightarrow> callback option"
  CRYPTO_set_locking_callback :: "callback option \<Rightarrow> 's \<Rightarrow> 's"
  CRYPTO_get_id_callback :: "'s \<Rightarrow> callback option"
  CRYPTO_set_id_callback :: "callback option \<Rightarrow> 's \<Rightarrow> 's"
  CRYPTO_num_locks :: nat
  CRYPTO_LOCK :: "32 word"
  AWSLC_thread_local_clear :: "'s \<Rightarrow> 's"
  AWSLC_thread_local_shutdown :: "'s \<Rightarrow> 's"

text \<open>The array of mutexes: null, allocated with the owner of each mutex, or released.\<close>

datatype locks = No_locks | Locks "nat option list" | Released_locks

text \<open>The static variables of the file, the modules that are open and the state of libcrypto. \<open>g_hmac\<close> and \<open>g_evp_md\<close>
  say whether the global pointers to the tables are set.\<close>

record ('f, 'm, 's) libcrypto_state =
  hmac_table :: "'f openssl_hmac_ctx_table"
  evp_md_table :: "'f openssl_evp_md_ctx_table"
  g_hmac :: bool
  g_evp_md :: bool
  s_libcrypto_allocator :: bool
  s_libcrypto_module :: "'m option"
  s_libcrypto_locks :: locks
  open_modules :: "'m list"
  crypto :: 's

section \<open>Resolving the functions of HMAC\<close>

text \<open>The symbols bound by linking if they are all there, otherwise those of the module.\<close>

definition find_symbols :: "('f, 'm) dl_env \<Rightarrow> 'm \<Rightarrow> string list \<Rightarrow> string \<Rightarrow> 'f fn_ptr option" where
  "find_symbols E module names =
     (if \<forall>s \<in> set names. linked E s \<noteq> None then (\<lambda>s. map_option Lib (linked E s))
      else (\<lambda>s. map_option Lib (dlsym E module s)))"

definition hmac_102_names :: "string list" where
  "hmac_102_names = [''HMAC_CTX_init'', ''HMAC_CTX_cleanup'', ''HMAC_Update'', ''HMAC_Final'', ''HMAC_Init_ex'']"

definition hmac_111_names :: "string list" where
  "hmac_111_names = [''HMAC_CTX_new'', ''HMAC_CTX_free'', ''HMAC_Update'', ''HMAC_Final'', ''HMAC_Init_ex'']"

definition hmac_lc_names :: "string list" where
  "hmac_lc_names =
     [''HMAC_CTX_new'', ''HMAC_CTX_free'', ''HMAC_Update'', ''HMAC_Final'', ''HMAC_CTX_init'', ''HMAC_Init_ex'']"

definition s_resolve_hmac_102 :: "build \<Rightarrow> ('f, 'm) dl_env \<Rightarrow> 'm \<Rightarrow> ('f, 'm, 's) libcrypto_state \<Rightarrow>
    bool \<times> ('f, 'm, 's) libcrypto_state" where
  "s_resolve_hmac_102 b E module st =
     (let look = find_symbols E module hmac_102_names in
      if b = OPENSSL_IS_OPENSSL \<and> look ''HMAC_CTX_init'' \<noteq> None then
        (True, st\<lparr>hmac_table := (hmac_table st)\<lparr>new_fn := Some s_hmac_ctx_new, free_fn := Some s_hmac_ctx_free,
                    init_fn := look ''HMAC_CTX_init'', clean_up_fn := look ''HMAC_CTX_cleanup'',
                    update_fn := look ''HMAC_Update'', final_fn := look ''HMAC_Final'',
                    init_ex_fn := look ''HMAC_Init_ex''\<rparr>,
                  g_hmac := True\<rparr>)
      else (False, st))"

definition s_resolve_hmac_111 :: "build \<Rightarrow> ('f, 'm) dl_env \<Rightarrow> 'm \<Rightarrow> ('f, 'm, 's) libcrypto_state \<Rightarrow>
    bool \<times> ('f, 'm, 's) libcrypto_state" where
  "s_resolve_hmac_111 b E module st =
     (let look = find_symbols E module hmac_111_names in
      if b = OPENSSL_IS_OPENSSL \<and> look ''HMAC_CTX_new'' \<noteq> None then
        (True, st\<lparr>hmac_table := (hmac_table st)\<lparr>new_fn := look ''HMAC_CTX_new'', free_fn := look ''HMAC_CTX_free'',
                    init_fn := Some s_hmac_ctx_init_noop, clean_up_fn := Some s_hmac_ctx_clean_up_noop,
                    update_fn := look ''HMAC_Update'', final_fn := look ''HMAC_Final'',
                    init_ex_fn := Some s_hmac_init_ex_openssl, impl_init_ex_fn := look ''HMAC_Init_ex''\<rparr>,
                  g_hmac := True\<rparr>)
      else (False, st))"

text \<open>For AWS-LC the init and clean-up functions stay the linked ones, whatever the module has.\<close>

definition s_resolve_hmac_lc :: "build \<Rightarrow> ('f, 'm) dl_env \<Rightarrow> 'm \<Rightarrow> ('f, 'm, 's) libcrypto_state \<Rightarrow>
    bool \<times> ('f, 'm, 's) libcrypto_state" where
  "s_resolve_hmac_lc b E module st =
     (let look = find_symbols E module hmac_lc_names in
      if b = OPENSSL_IS_AWSLC \<and> look ''HMAC_CTX_new'' \<noteq> None then
        (True, st\<lparr>hmac_table := (hmac_table st)\<lparr>new_fn := look ''HMAC_CTX_new'', free_fn := look ''HMAC_CTX_free'',
                    init_fn := map_option Lib (linked E ''HMAC_CTX_init''),
                    clean_up_fn := map_option Lib (linked E ''HMAC_CTX_cleanup''),
                    update_fn := look ''HMAC_Update'', final_fn := look ''HMAC_Final'',
                    init_ex_fn := Some s_hmac_init_ex_bssl, impl_init_ex_fn := look ''HMAC_Init_ex''\<rparr>,
                  g_hmac := True\<rparr>)
      else (False, st))"

definition s_resolve_hmac_boringssl :: "build \<Rightarrow> ('f, 'm) dl_env \<Rightarrow> 'm \<Rightarrow> ('f, 'm, 's) libcrypto_state \<Rightarrow>
    bool \<times> ('f, 'm, 's) libcrypto_state" where
  "s_resolve_hmac_boringssl b E module st =
     (let look = find_symbols E module hmac_111_names in
      if b = OPENSSL_IS_BORINGSSL \<and> look ''HMAC_CTX_new'' \<noteq> None then
        (True, st\<lparr>hmac_table := (hmac_table st)\<lparr>new_fn := look ''HMAC_CTX_new'', free_fn := look ''HMAC_CTX_free'',
                    init_fn := Some s_hmac_ctx_init_noop, clean_up_fn := Some s_hmac_ctx_clean_up_noop,
                    update_fn := look ''HMAC_Update'', final_fn := look ''HMAC_Final'',
                    init_ex_fn := Some s_hmac_init_ex_bssl, impl_init_ex_fn := look ''HMAC_Init_ex''\<rparr>,
                  g_hmac := True\<rparr>)
      else (False, st))"

text \<open>The version that was found, or the failed assertion.\<close>

definition version_if :: "aws_libcrypto_version \<Rightarrow> bool \<times> 'st \<Rightarrow> (aws_libcrypto_version \<times> 'st) result" where
  "version_if v r = (case r of (found, st) \<Rightarrow> Inr (if found then v else AWS_LIBCRYPTO_NONE, st))"

fun s_resolve_libcrypto_hmac :: "build \<Rightarrow> ('f, 'm) dl_env \<Rightarrow> aws_libcrypto_version \<Rightarrow> 'm \<Rightarrow> ('f, 'm, 's) libcrypto_state \<Rightarrow>
    (aws_libcrypto_version \<times> ('f, 'm, 's) libcrypto_state) result" where
  "s_resolve_libcrypto_hmac b E AWS_LIBCRYPTO_LC module st = version_if AWS_LIBCRYPTO_LC (s_resolve_hmac_lc b E module st)"
| "s_resolve_libcrypto_hmac b E AWS_LIBCRYPTO_1_1_1 module st = version_if AWS_LIBCRYPTO_1_1_1 (s_resolve_hmac_111 b E module st)"
| "s_resolve_libcrypto_hmac b E AWS_LIBCRYPTO_1_0_2 module st = version_if AWS_LIBCRYPTO_1_0_2 (s_resolve_hmac_102 b E module st)"
| "s_resolve_libcrypto_hmac b E AWS_LIBCRYPTO_BORINGSSL module st =
     version_if AWS_LIBCRYPTO_BORINGSSL (s_resolve_hmac_boringssl b E module st)"
| "s_resolve_libcrypto_hmac b E AWS_LIBCRYPTO_NONE module st = Inl Fatal"

section \<open>Resolving the functions of digests\<close>

definition md_table :: "('f fn_ptr option) list \<Rightarrow> 'f openssl_evp_md_ctx_table" where
  "md_table fs = \<lparr>evp_new_fn = fs ! 0, evp_free_fn = fs ! 1, evp_init_ex_fn = fs ! 2, evp_update_fn = fs ! 3,
     evp_final_ex_fn = fs ! 4\<rparr>"

definition md_102_names :: "string list" where
  "md_102_names = [''EVP_MD_CTX_create'', ''EVP_MD_CTX_destroy'', ''EVP_DigestInit_ex'', ''EVP_DigestUpdate'', ''EVP_DigestFinal_ex'']"

definition md_111_names :: "string list" where
  "md_111_names = [''EVP_MD_CTX_new'', ''EVP_MD_CTX_free'', ''EVP_DigestInit_ex'', ''EVP_DigestUpdate'', ''EVP_DigestFinal_ex'']"

definition set_md :: "(string \<Rightarrow> 'f fn_ptr option) \<Rightarrow> string list \<Rightarrow> ('f, 'm, 's) libcrypto_state \<Rightarrow>
    bool \<times> ('f, 'm, 's) libcrypto_state" where
  "set_md look names st =
     (if look (hd names) = None then (False, st)
      else (True, st\<lparr>evp_md_table := md_table (map look names), g_evp_md := True\<rparr>))"

definition s_resolve_md_102 :: "build \<Rightarrow> ('f, 'm) dl_env \<Rightarrow> 'm \<Rightarrow> ('f, 'm, 's) libcrypto_state \<Rightarrow>
    bool \<times> ('f, 'm, 's) libcrypto_state" where
  "s_resolve_md_102 b E module st =
     (if b = OPENSSL_IS_AWSLC then (False, st) else set_md (find_symbols E module md_102_names) md_102_names st)"

definition s_resolve_md_111 :: "build \<Rightarrow> ('f, 'm) dl_env \<Rightarrow> 'm \<Rightarrow> ('f, 'm, 's) libcrypto_state \<Rightarrow>
    bool \<times> ('f, 'm, 's) libcrypto_state" where
  "s_resolve_md_111 b E module st =
     (if b = OPENSSL_IS_AWSLC then (False, st) else set_md (find_symbols E module md_111_names) md_111_names st)"

text \<open>For AWS-LC the linked symbols are only taken if \<open>EVP_MD_CTX_destroy\<close> is linked, too.\<close>

definition s_resolve_md_lc :: "build \<Rightarrow> ('f, 'm) dl_env \<Rightarrow> 'm \<Rightarrow> ('f, 'm, 's) libcrypto_state \<Rightarrow>
    bool \<times> ('f, 'm, 's) libcrypto_state" where
  "s_resolve_md_lc b E module st =
     (if b \<noteq> OPENSSL_IS_AWSLC then (False, st)
      else set_md (find_symbols E module (''EVP_MD_CTX_destroy'' # md_111_names)) md_111_names st)"

definition s_resolve_md_boringssl :: "build \<Rightarrow> ('f, 'm) dl_env \<Rightarrow> 'm \<Rightarrow> ('f, 'm, 's) libcrypto_state \<Rightarrow>
    bool \<times> ('f, 'm, 's) libcrypto_state" where
  "s_resolve_md_boringssl b E module st =
     (if b = OPENSSL_IS_AWSLC then (False, st) else s_resolve_md_111 b E module st)"

fun s_resolve_libcrypto_md :: "build \<Rightarrow> ('f, 'm) dl_env \<Rightarrow> aws_libcrypto_version \<Rightarrow> 'm \<Rightarrow> ('f, 'm, 's) libcrypto_state \<Rightarrow>
    (aws_libcrypto_version \<times> ('f, 'm, 's) libcrypto_state) result" where
  "s_resolve_libcrypto_md b E AWS_LIBCRYPTO_LC module st = version_if AWS_LIBCRYPTO_LC (s_resolve_md_lc b E module st)"
| "s_resolve_libcrypto_md b E AWS_LIBCRYPTO_1_1_1 module st = version_if AWS_LIBCRYPTO_1_1_1 (s_resolve_md_111 b E module st)"
| "s_resolve_libcrypto_md b E AWS_LIBCRYPTO_1_0_2 module st = version_if AWS_LIBCRYPTO_1_0_2 (s_resolve_md_102 b E module st)"
| "s_resolve_libcrypto_md b E AWS_LIBCRYPTO_BORINGSSL module st =
     version_if AWS_LIBCRYPTO_BORINGSSL (s_resolve_md_boringssl b E module st)"
| "s_resolve_libcrypto_md b E AWS_LIBCRYPTO_NONE module st = Inl Fatal"

section \<open>The search\<close>

definition s_resolve_libcrypto_symbols :: "build \<Rightarrow> ('f, 'm) dl_env \<Rightarrow> aws_libcrypto_version \<Rightarrow> 'm \<Rightarrow>
    ('f, 'm, 's) libcrypto_state \<Rightarrow> (aws_libcrypto_version \<times> ('f, 'm, 's) libcrypto_state) result" where
  "s_resolve_libcrypto_symbols b E version module st =
     rbind (s_resolve_libcrypto_hmac b E version module st) (\<lambda>(found, st).
       if found = AWS_LIBCRYPTO_NONE then Inr (AWS_LIBCRYPTO_NONE, st)
       else s_resolve_libcrypto_md b E found module st)"

definition opened :: "'m \<Rightarrow> ('f, 'm, 's) libcrypto_state \<Rightarrow> ('f, 'm, 's) libcrypto_state" where
  "opened m st = st\<lparr>open_modules := m # open_modules st\<rparr>"

definition dlclose :: "'m \<Rightarrow> ('f, 'm, 's) libcrypto_state \<Rightarrow> ('f, 'm, 's) libcrypto_state" where
  "dlclose m st = st\<lparr>open_modules := remove1 m (open_modules st)\<rparr>"

text \<open>Opening a library and running \<open>probe\<close> on it, which yields the version it resolved; the module stays open if it did.
  Otherwise the search goes on with \<open>rest\<close>.\<close>

definition with_module :: "('f, 'm) dl_env \<Rightarrow> string \<Rightarrow>
    ('m \<Rightarrow> ('f, 'm, 's) libcrypto_state \<Rightarrow> (aws_libcrypto_version \<times> ('f, 'm, 's) libcrypto_state) result) \<Rightarrow>
    (('f, 'm, 's) libcrypto_state \<Rightarrow> (aws_libcrypto_version \<times> ('f, 'm, 's) libcrypto_state) result) \<Rightarrow>
    ('f, 'm, 's) libcrypto_state \<Rightarrow> (aws_libcrypto_version \<times> ('f, 'm, 's) libcrypto_state) result" where
  "with_module E name probe rest st = (case dlopen E (Some name) of
       None \<Rightarrow> rest st
     | Some m \<Rightarrow> rbind (probe m (opened m st)) (\<lambda>(found, st).
         if found \<noteq> AWS_LIBCRYPTO_NONE then Inr (found, st) else rest (dlclose m st)))"

text \<open>\<open>libcrypto.so\<close> is probed for what its version number says.\<close>

definition probe_by_version :: "build \<Rightarrow> ('f, 'm) dl_env \<Rightarrow> 'm \<Rightarrow> ('f, 'm, 's) libcrypto_state \<Rightarrow>
    (aws_libcrypto_version \<times> ('f, 'm, 's) libcrypto_state) result" where
  "probe_by_version b E m st = (case dlsym E m ''OpenSSL_version_num'' of
       None \<Rightarrow> Inr (AWS_LIBCRYPTO_NONE, st)
     | Some f \<Rightarrow>
         let version = call_version_num E f in
         if version \<ge> 0x10101000 then
           rbind (s_resolve_libcrypto_symbols b E AWS_LIBCRYPTO_LC m st) (\<lambda>(found, st).
             if found = AWS_LIBCRYPTO_NONE then s_resolve_libcrypto_symbols b E AWS_LIBCRYPTO_1_1_1 m st else Inr (found, st))
         else if version \<ge> 0x10002000 then s_resolve_libcrypto_symbols b E AWS_LIBCRYPTO_1_0_2 m st
         else Inr (AWS_LIBCRYPTO_NONE, st))"

definition s_resolve_libcrypto_lib :: "build \<Rightarrow> ('f, 'm) dl_env \<Rightarrow> ('f, 'm, 's) libcrypto_state \<Rightarrow>
    (aws_libcrypto_version \<times> ('f, 'm, 's) libcrypto_state) result" where
  "s_resolve_libcrypto_lib b E =
     with_module E ''libcrypto.so.1.0.0'' (s_resolve_libcrypto_symbols b E AWS_LIBCRYPTO_1_0_2)
      (with_module E ''libcrypto.so.1.1'' (s_resolve_libcrypto_symbols b E AWS_LIBCRYPTO_1_1_1)
       (with_module E ''libcrypto.so'' (probe_by_version b E)
        (\<lambda>st. Inr (AWS_LIBCRYPTO_NONE, st))))"

text \<open>\<open>if (result == AWS_LIBCRYPTO_NONE) result = ...\<close>\<close>

definition or_else :: "(aws_libcrypto_version \<times> 'st) result \<Rightarrow> ('st \<Rightarrow> (aws_libcrypto_version \<times> 'st) result) \<Rightarrow>
    (aws_libcrypto_version \<times> 'st) result" where
  "or_else r f = rbind r (\<lambda>(found, st). if found = AWS_LIBCRYPTO_NONE then f st else Inr (found, st))"

definition s_resolve_libcrypto :: "build \<Rightarrow> ('f, 'm) dl_env \<Rightarrow> ('f, 'm, 's) libcrypto_state \<Rightarrow>
    (aws_libcrypto_version \<times> ('f, 'm, 's) libcrypto_state) result" where
  "s_resolve_libcrypto b E st = (case dlopen E None of
       None \<Rightarrow> Inl Fatal
     | Some process \<Rightarrow>
         rbind
          (or_else (or_else (or_else
             (s_resolve_libcrypto_symbols b E AWS_LIBCRYPTO_LC process (opened process st))
             (s_resolve_libcrypto_symbols b E AWS_LIBCRYPTO_BORINGSSL process))
             (s_resolve_libcrypto_symbols b E AWS_LIBCRYPTO_1_0_2 process))
             (s_resolve_libcrypto_symbols b E AWS_LIBCRYPTO_1_1_1 process))
          (\<lambda>(found, st). or_else (Inr (found, dlclose process st)) (s_resolve_libcrypto_lib b E)))"

section \<open>Initialisation and clean-up\<close>

text \<open>The locking callback: one mutex per lock of libcrypto. A thread \<open>t\<close> that asks for a mutex that is held waits, which
  is None here.\<close>

definition locking_fn :: "'s crypto_api \<Rightarrow> 32 word \<Rightarrow> nat \<Rightarrow> nat \<Rightarrow> locks \<Rightarrow> locks result option" where
  "locking_fn K mode n t locks = (case locks of
       No_locks \<Rightarrow> Some (Inl (Undefined Null_deref))
     | Released_locks \<Rightarrow> Some (Inl (Undefined Use_after_free))
     | Locks ls \<Rightarrow>
         if length ls \<le> n then Some (Inl (Undefined Out_of_bounds))
         else if and mode (CRYPTO_LOCK K) \<noteq> 0 then (if ls ! n = None then Some (Inr (Locks (ls[n := Some t]))) else None)
         else Some (Inr (Locks (ls[n := None]))))"

definition install_locking :: "aws_common \<Rightarrow> 's crypto_api \<Rightarrow> ('f, 'm, 's) libcrypto_state \<Rightarrow> ('f, 'm, 's) libcrypto_state result" where
  "install_locking C K st =
     (if CRYPTO_get_locking_callback K (crypto st) \<noteq> None then Inr st
      else let cs = CRYPTO_set_locking_callback K (Some s_locking_fn) (crypto st) in
        if CRYPTO_get_locking_callback K cs \<noteq> Some s_locking_fn then Inr (st\<lparr>crypto := cs\<rparr>)
        else if \<not> aws_mem_acquire_ok C then Inl Fatal
        else Inr (st\<lparr>crypto := cs, s_libcrypto_locks := Locks (replicate (CRYPTO_num_locks K) None)\<rparr>))"

definition install_id :: "'s crypto_api \<Rightarrow> ('f, 'm, 's) libcrypto_state \<Rightarrow> ('f, 'm, 's) libcrypto_state" where
  "install_id K st = (if CRYPTO_get_id_callback K (crypto st) \<noteq> None then st
     else st\<lparr>crypto := CRYPTO_set_id_callback K (Some s_id_fn) (crypto st)\<rparr>)"

definition aws_cal_platform_init :: "build \<Rightarrow> ('f, 'm) dl_env \<Rightarrow> 's crypto_api \<Rightarrow> aws_common \<Rightarrow>
    ('f, 'm, 's) libcrypto_state \<Rightarrow> ('f, 'm, 's) libcrypto_state result" where
  "aws_cal_platform_init b E K C st =
     rbind (s_resolve_libcrypto b E st) (\<lambda>(version, st).
       if version = AWS_LIBCRYPTO_NONE \<or> \<not> g_evp_md st \<or> \<not> g_hmac st then Inl Fatal
       else let st = st\<lparr>s_libcrypto_allocator := True\<rparr> in
         if b \<noteq> OPENSSL_IS_OPENSSL then Inr st
         else rbind (install_locking C K st) (\<lambda>st. Inr (install_id K st)))"

text \<open>Cleaning up runs over as many mutexes as libcrypto has locks and releases the array, but leaves the pointer to it.\<close>

definition clean_up_locks :: "'s crypto_api \<Rightarrow> locks \<Rightarrow> locks result" where
  "clean_up_locks K locks = (case locks of
       No_locks \<Rightarrow> if CRYPTO_num_locks K = 0 then Inr No_locks else Inl (Undefined Null_deref)
     | Released_locks \<Rightarrow> Inl (Undefined Use_after_free)
     | Locks ls \<Rightarrow> if CRYPTO_num_locks K \<le> length ls then Inr Released_locks else Inl (Undefined Out_of_bounds))"

definition remove_callbacks :: "'s crypto_api \<Rightarrow> ('f, 'm, 's) libcrypto_state \<Rightarrow> ('f, 'm, 's) libcrypto_state result" where
  "remove_callbacks K st =
     rbind (if CRYPTO_get_locking_callback K (crypto st) \<noteq> Some s_locking_fn then Inr st
            else rbind (clean_up_locks K (s_libcrypto_locks st)) (\<lambda>ls.
              Inr (st\<lparr>crypto := CRYPTO_set_locking_callback K None (crypto st), s_libcrypto_locks := ls\<rparr>)))
       (\<lambda>st. Inr (if CRYPTO_get_id_callback K (crypto st) \<noteq> Some s_id_fn then st
                  else st\<lparr>crypto := CRYPTO_set_id_callback K None (crypto st)\<rparr>))"

definition aws_cal_platform_clean_up :: "build \<Rightarrow> 's crypto_api \<Rightarrow> ('f, 'm, 's) libcrypto_state \<Rightarrow> ('f, 'm, 's) libcrypto_state result" where
  "aws_cal_platform_clean_up b K st =
     rbind (if b = OPENSSL_IS_OPENSSL then remove_callbacks K st else Inr st) (\<lambda>st.
       let st = (if b = OPENSSL_IS_AWSLC
            then st\<lparr>crypto := AWSLC_thread_local_shutdown K (AWSLC_thread_local_clear K (crypto st))\<rparr> else st);
           st = (case s_libcrypto_module st of None \<Rightarrow> st | Some m \<Rightarrow> dlclose m st)
       in Inr (st\<lparr>s_libcrypto_allocator := False\<rparr>))"

definition aws_cal_platform_thread_clean_up :: "build \<Rightarrow> 's crypto_api \<Rightarrow> ('f, 'm, 's) libcrypto_state \<Rightarrow>
    ('f, 'm, 's) libcrypto_state" where
  "aws_cal_platform_thread_clean_up b K st =
     (if b = OPENSSL_IS_AWSLC then st\<lparr>crypto := AWSLC_thread_local_clear K (crypto st)\<rparr> else st)"

section \<open>Calling through the tables\<close>

text \<open>What the functions of libcrypto do on contexts of type \<open>'c\<close>; \<open>zeroed_ctx\<close> is a context of 300 zero bytes.\<close>

record ('f, 'c) lib_calls =
  call_new :: "'f \<Rightarrow> 'c option"
  call_ctx :: "'f \<Rightarrow> 'c \<Rightarrow> 'c"
  call_hmac_init_ex :: "'f \<Rightarrow> 'c \<Rightarrow> bytes \<Rightarrow> evp_md \<Rightarrow> bool \<times> 'c"
  call_md_init_ex :: "'f \<Rightarrow> 'c \<Rightarrow> evp_md \<Rightarrow> bool \<times> 'c"
  call_update :: "'f \<Rightarrow> 'c \<Rightarrow> bytes \<Rightarrow> bool \<times> 'c"
  call_final :: "'f \<Rightarrow> 'c \<Rightarrow> bool \<times> bytes \<times> 'c"
  zeroed_ctx :: 'c

text \<open>A call through a pointer; the pointers of other types are not called in these places.\<close>

definition call_init_fn :: "('f, 'c) lib_calls \<Rightarrow> 'f openssl_hmac_ctx_table \<Rightarrow> 'c \<Rightarrow> 'c result" where
  "call_init_fn F T c = (case init_fn T of
       Some (Lib f) \<Rightarrow> Inr (call_ctx F f c)
     | Some s_hmac_ctx_init_noop \<Rightarrow> Inr c
     | _ \<Rightarrow> Inl (Undefined Null_deref))"

definition call_new_fn :: "('f, 'c) lib_calls \<Rightarrow> aws_common \<Rightarrow> 'f openssl_hmac_ctx_table \<Rightarrow> 'c option result" where
  "call_new_fn F C T = (case new_fn T of
       Some (Lib f) \<Rightarrow> Inr (call_new F f)
     | Some s_hmac_ctx_new \<Rightarrow>
         if \<not> aws_mem_acquire_ok C then Inl Fatal
         else rbind (call_init_fn F T (zeroed_ctx F)) (\<lambda>c. Inr (Some c))
     | _ \<Rightarrow> Inl (Undefined Null_deref))"

definition call_init_ex_fn :: "('f, 'c) lib_calls \<Rightarrow> 'f openssl_hmac_ctx_table \<Rightarrow> 'c \<Rightarrow> bytes \<Rightarrow> evp_md \<Rightarrow> (bool \<times> 'c) result" where
  "call_init_ex_fn F T c k md = (case init_ex_fn T of
       Some (Lib f) \<Rightarrow> Inr (call_hmac_init_ex F f c k md)
     | Some s_hmac_init_ex_openssl \<Rightarrow>
         if length k > INT_MAX then Inr (False, c)
         else (case impl_init_ex_fn T of Some (Lib f) \<Rightarrow> Inr (call_hmac_init_ex F f c k md) | _ \<Rightarrow> Inl (Undefined Null_deref))
     | Some s_hmac_init_ex_bssl \<Rightarrow>
         (case impl_init_ex_fn T of Some (Lib f) \<Rightarrow> Inr (call_hmac_init_ex F f c k md) | _ \<Rightarrow> Inl (Undefined Null_deref))
     | _ \<Rightarrow> Inl (Undefined Null_deref))"

text \<open>The shim for the release of a context cleans it up before its memory goes.\<close>

definition call_free_fn :: "('f, 'c) lib_calls \<Rightarrow> 'f openssl_hmac_ctx_table \<Rightarrow> 'c \<Rightarrow> 'c clean_up list \<Rightarrow> 'c clean_up list result" where
  "call_free_fn F T c w = (case free_fn T of
       Some (Lib f) \<Rightarrow> Inr (w @ [Free_handle c])
     | Some s_hmac_ctx_free \<Rightarrow> (case clean_up_fn T of
           Some (Lib f) \<Rightarrow> Inr (w @ [Free_handle (call_ctx F f c)])
         | Some s_hmac_ctx_clean_up_noop \<Rightarrow> Inr (w @ [Free_handle c])
         | _ \<Rightarrow> Inl (Undefined Null_deref))
     | _ \<Rightarrow> Inl (Undefined Null_deref))"

end
