(* ===== verification/Libcrypto_Spec.thy ===== *)
theory Libcrypto_Spec
  imports Libcrypto Platform_Digest_Spec
begin

text \<open>
  What the resolution of libcrypto achieves: it is a search through a list of candidates, each a version and a
  module, that stops at the first one that has the functions of both tables; the tables are then those of that
  candidate. With the documented completeness of a library the tables can be called, and HMACs and hashes
  computed through them are the library's.
\<close>

section \<open>The search as a list of candidates\<close>

fun hmac_found :: "build \<Rightarrow> ('f, 'm) dl_env \<Rightarrow> aws_libcrypto_version \<Rightarrow> 'm \<Rightarrow> bool" where
  "hmac_found b E AWS_LIBCRYPTO_1_0_2 m \<longleftrightarrow> b = OPENSSL_IS_OPENSSL \<and> find_symbols E m hmac_102_names ''HMAC_CTX_init'' \<noteq> None"
| "hmac_found b E AWS_LIBCRYPTO_1_1_1 m \<longleftrightarrow> b = OPENSSL_IS_OPENSSL \<and> find_symbols E m hmac_111_names ''HMAC_CTX_new'' \<noteq> None"
| "hmac_found b E AWS_LIBCRYPTO_LC m \<longleftrightarrow> b = OPENSSL_IS_AWSLC \<and> find_symbols E m hmac_lc_names ''HMAC_CTX_new'' \<noteq> None"
| "hmac_found b E AWS_LIBCRYPTO_BORINGSSL m \<longleftrightarrow> b = OPENSSL_IS_BORINGSSL \<and> find_symbols E m hmac_111_names ''HMAC_CTX_new'' \<noteq> None"
| "hmac_found b E AWS_LIBCRYPTO_NONE m \<longleftrightarrow> False"

text \<open>The names under which a version has the digest functions, and those that decide for the linked ones.\<close>

fun md_names :: "aws_libcrypto_version \<Rightarrow> string list" where
  "md_names AWS_LIBCRYPTO_1_0_2 = md_102_names"
| "md_names _ = md_111_names"

fun md_required :: "aws_libcrypto_version \<Rightarrow> string list" where
  "md_required AWS_LIBCRYPTO_LC = ''EVP_MD_CTX_destroy'' # md_111_names"
| "md_required v = md_names v"

definition md_found :: "('f, 'm) dl_env \<Rightarrow> aws_libcrypto_version \<Rightarrow> 'm \<Rightarrow> bool" where
  "md_found E v m \<longleftrightarrow> find_symbols E m (md_required v) (hd (md_names v)) \<noteq> None"

definition resolves :: "build \<Rightarrow> ('f, 'm) dl_env \<Rightarrow> aws_libcrypto_version \<Rightarrow> 'm \<Rightarrow> bool" where
  "resolves b E v m \<longleftrightarrow> hmac_found b E v m \<and> md_found E v m"

text \<open>The tables of a candidate. For 1.0.2 the field for the wrapped function is not used.\<close>

fun hmac_table_for :: "('f, 'm) dl_env \<Rightarrow> aws_libcrypto_version \<Rightarrow> 'm \<Rightarrow> 'f openssl_hmac_ctx_table \<Rightarrow> bool" where
  "hmac_table_for E AWS_LIBCRYPTO_1_0_2 m T \<longleftrightarrow>
     (let look = find_symbols E m hmac_102_names in
      new_fn T = Some s_hmac_ctx_new \<and> free_fn T = Some s_hmac_ctx_free \<and> init_fn T = look ''HMAC_CTX_init'' \<and>
      clean_up_fn T = look ''HMAC_CTX_cleanup'' \<and> update_fn T = look ''HMAC_Update'' \<and> final_fn T = look ''HMAC_Final'' \<and>
      init_ex_fn T = look ''HMAC_Init_ex'')"
| "hmac_table_for E AWS_LIBCRYPTO_LC m T \<longleftrightarrow>
     (let look = find_symbols E m hmac_lc_names in
      new_fn T = look ''HMAC_CTX_new'' \<and> free_fn T = look ''HMAC_CTX_free'' \<and>
      init_fn T = map_option Lib (linked E ''HMAC_CTX_init'') \<and> clean_up_fn T = map_option Lib (linked E ''HMAC_CTX_cleanup'') \<and>
      update_fn T = look ''HMAC_Update'' \<and> final_fn T = look ''HMAC_Final'' \<and>
      init_ex_fn T = Some s_hmac_init_ex_bssl \<and> impl_init_ex_fn T = look ''HMAC_Init_ex'')"
| "hmac_table_for E v m T \<longleftrightarrow>
     (let look = find_symbols E m hmac_111_names in
      new_fn T = look ''HMAC_CTX_new'' \<and> free_fn T = look ''HMAC_CTX_free'' \<and>
      init_fn T = Some s_hmac_ctx_init_noop \<and> clean_up_fn T = Some s_hmac_ctx_clean_up_noop \<and>
      update_fn T = look ''HMAC_Update'' \<and> final_fn T = look ''HMAC_Final'' \<and>
      init_ex_fn T = Some (if v = AWS_LIBCRYPTO_1_1_1 then s_hmac_init_ex_openssl else s_hmac_init_ex_bssl) \<and>
      impl_init_ex_fn T = look ''HMAC_Init_ex'')"

definition tables_for :: "('f, 'm) dl_env \<Rightarrow> aws_libcrypto_version \<Rightarrow> 'm \<Rightarrow> ('f, 'm, 's) libcrypto_state \<Rightarrow> bool" where
  "tables_for E v m st \<longleftrightarrow> g_hmac st \<and> g_evp_md st \<and> hmac_table_for E v m (hmac_table st) \<and>
     evp_md_table st = md_table (map (find_symbols E m (md_required v)) (md_names v))"

text \<open>What resolving leaves alone.\<close>

definition same_rest :: "('f, 'm, 's) libcrypto_state \<Rightarrow> ('f, 'm, 's) libcrypto_state \<Rightarrow> bool" where
  "same_rest st st' \<longleftrightarrow> s_libcrypto_allocator st' = s_libcrypto_allocator st \<and> s_libcrypto_module st' = s_libcrypto_module st \<and>
     s_libcrypto_locks st' = s_libcrypto_locks st \<and> crypto st' = crypto st"

lemma same_rest_refl [simp]: "same_rest st st"
  by (simp add: same_rest_def)

lemma same_rest_trans: "same_rest a b \<Longrightarrow> same_rest b c \<Longrightarrow> same_rest a c"
  by (simp add: same_rest_def)

lemma same_rest_modules [simp]:
  "same_rest st (opened m st') \<longleftrightarrow> same_rest st st'" "same_rest st (dlclose m st') \<longleftrightarrow> same_rest st st'"
  "same_rest (opened m st) st' \<longleftrightarrow> same_rest st st'"
  by (simp_all add: same_rest_def opened_def dlclose_def)

lemmas resolve_hmac_defs = s_resolve_hmac_102_def s_resolve_hmac_111_def s_resolve_hmac_lc_def s_resolve_hmac_boringssl_def
lemmas resolve_md_defs = s_resolve_md_102_def s_resolve_md_111_def s_resolve_md_lc_def s_resolve_md_boringssl_def set_md_def

lemma md_111_names_hd [simp]: "hd md_111_names = ''EVP_MD_CTX_new''" "hd md_102_names = ''EVP_MD_CTX_create''"
  by (simp_all add: md_111_names_def md_102_names_def)

lemma resolve_hmac:
  assumes "v \<noteq> AWS_LIBCRYPTO_NONE"
  obtains st' where "s_resolve_libcrypto_hmac b E v m st = Inr (if hmac_found b E v m then v else AWS_LIBCRYPTO_NONE, st')"
    "hmac_found b E v m \<Longrightarrow> g_hmac st' \<and> hmac_table_for E v m (hmac_table st')"
    "open_modules st' = open_modules st" "same_rest st st'"
proof (rule that [of "snd (projr (s_resolve_libcrypto_hmac b E v m st))"])
  note defs = version_if_def resolve_hmac_defs same_rest_def Let_def
  show "s_resolve_libcrypto_hmac b E v m st =
      Inr (if hmac_found b E v m then v else AWS_LIBCRYPTO_NONE, snd (projr (s_resolve_libcrypto_hmac b E v m st)))"
    using assms by (cases v) (simp_all add: defs)
  show "g_hmac (snd (projr (s_resolve_libcrypto_hmac b E v m st))) \<and>
      hmac_table_for E v m (hmac_table (snd (projr (s_resolve_libcrypto_hmac b E v m st))))" if "hmac_found b E v m"
    using assms that by (cases v) (simp_all add: defs)
  show "open_modules (snd (projr (s_resolve_libcrypto_hmac b E v m st))) = open_modules st"
    "same_rest st (snd (projr (s_resolve_libcrypto_hmac b E v m st)))"
    using assms by (cases v; simp add: defs)+
qed

lemma resolve_md:
  assumes "hmac_found b E v m"
  obtains st' where "s_resolve_libcrypto_md b E v m st = Inr (if md_found E v m then v else AWS_LIBCRYPTO_NONE, st')"
    "md_found E v m \<Longrightarrow> g_evp_md st' \<and> evp_md_table st' = md_table (map (find_symbols E m (md_required v)) (md_names v))"
    "hmac_table st' = hmac_table st" "g_hmac st' = g_hmac st" "open_modules st' = open_modules st" "same_rest st st'"
  using assms by (cases "md_found E v m"; cases v) (auto simp: version_if_def resolve_md_defs same_rest_def md_found_def)

lemma resolve_symbols:
  assumes "v \<noteq> AWS_LIBCRYPTO_NONE"
  obtains st' where "s_resolve_libcrypto_symbols b E v m st = Inr (if resolves b E v m then v else AWS_LIBCRYPTO_NONE, st')"
    "resolves b E v m \<Longrightarrow> tables_for E v m st'" "open_modules st' = open_modules st" "same_rest st st'"
proof -
  obtain st1 where 1: "s_resolve_libcrypto_hmac b E v m st = Inr (if hmac_found b E v m then v else AWS_LIBCRYPTO_NONE, st1)"
      "hmac_found b E v m \<Longrightarrow> g_hmac st1 \<and> hmac_table_for E v m (hmac_table st1)"
      "open_modules st1 = open_modules st" "same_rest st st1"
    using resolve_hmac [OF assms] by metis
  show thesis
  proof (cases "hmac_found b E v m")
    case False
    with 1 that [of st1] show thesis by (simp add: s_resolve_libcrypto_symbols_def resolves_def)
  next
    case True
    obtain st2 where 2: "s_resolve_libcrypto_md b E v m st1 = Inr (if md_found E v m then v else AWS_LIBCRYPTO_NONE, st2)"
        "md_found E v m \<Longrightarrow> g_evp_md st2 \<and> evp_md_table st2 = md_table (map (find_symbols E m (md_required v)) (md_names v))"
        "hmac_table st2 = hmac_table st1" "g_hmac st2 = g_hmac st1" "open_modules st2 = open_modules st1" "same_rest st1 st2"
      using resolve_md [OF True] by metis
    with 1 True assms same_rest_trans [of st st1 st2] that [of st2] show thesis
      by (simp add: s_resolve_libcrypto_symbols_def resolves_def tables_for_def)
  qed
qed

text \<open>A candidate: a version, a module, and whether the module stays open when it is chosen.\<close>

type_synonym 'm candidate = "aws_libcrypto_version \<times> 'm \<times> bool"

definition lib_candidates :: "('f, 'm) dl_env \<Rightarrow> string \<Rightarrow> ('m \<Rightarrow> aws_libcrypto_version list) \<Rightarrow> 'm candidate list" where
  "lib_candidates E name vs = (case dlopen E (Some name) of None \<Rightarrow> [] | Some m \<Rightarrow> map (\<lambda>v. (v, m, True)) (vs m))"

definition versions_of :: "('f, 'm) dl_env \<Rightarrow> 'm \<Rightarrow> aws_libcrypto_version list" where
  "versions_of E m = (case dlsym E m ''OpenSSL_version_num'' of
       None \<Rightarrow> []
     | Some f \<Rightarrow>
         if call_version_num E f \<ge> 0x10101000 then [AWS_LIBCRYPTO_LC, AWS_LIBCRYPTO_1_1_1]
         else if call_version_num E f \<ge> 0x10002000 then [AWS_LIBCRYPTO_1_0_2] else [])"

definition candidates :: "('f, 'm) dl_env \<Rightarrow> 'm \<Rightarrow> 'm candidate list" where
  "candidates E process =
     map (\<lambda>v. (v, process, False)) [AWS_LIBCRYPTO_LC, AWS_LIBCRYPTO_BORINGSSL, AWS_LIBCRYPTO_1_0_2, AWS_LIBCRYPTO_1_1_1] @
     lib_candidates E ''libcrypto.so.1.0.0'' (\<lambda>_. [AWS_LIBCRYPTO_1_0_2]) @
     lib_candidates E ''libcrypto.so.1.1'' (\<lambda>_. [AWS_LIBCRYPTO_1_1_1]) @
     lib_candidates E ''libcrypto.so'' (versions_of E)"

definition first_resolving :: "build \<Rightarrow> ('f, 'm) dl_env \<Rightarrow> 'm candidate list \<Rightarrow> 'm candidate option" where
  "first_resolving b E = List.find (\<lambda>(v, m, _). resolves b E v m)"

text \<open>The version and the state after candidates were tried in turn.\<close>

definition settled :: "build \<Rightarrow> ('f, 'm) dl_env \<Rightarrow> 'm candidate list \<Rightarrow> ('f, 'm, 's) libcrypto_state \<Rightarrow>
    aws_libcrypto_version \<Rightarrow> ('f, 'm, 's) libcrypto_state \<Rightarrow> bool" where
  "settled b E cs st v st' \<longleftrightarrow> same_rest st st' \<and>
     (case first_resolving b E cs of
        None \<Rightarrow> v = AWS_LIBCRYPTO_NONE \<and> open_modules st' = open_modules st
      | Some (w, m, keep) \<Rightarrow> v = w \<and> w \<noteq> AWS_LIBCRYPTO_NONE \<and> tables_for E w m st' \<and>
          open_modules st' = (if keep then [m] else []) @ open_modules st)"

definition tried :: "build \<Rightarrow> ('f, 'm) dl_env \<Rightarrow> 'm candidate list \<Rightarrow> ('f, 'm, 's) libcrypto_state \<Rightarrow>
    (aws_libcrypto_version \<times> ('f, 'm, 's) libcrypto_state) result \<Rightarrow> bool" where
  "tried b E cs st r \<longleftrightarrow> (case r of Inl _ \<Rightarrow> False | Inr (v, st') \<Rightarrow> settled b E cs st v st')"

lemma tried_cases:
  assumes "tried b E cs st r"
  obtains v st' where "r = Inr (v, st')" "settled b E cs st v st'"
  using assms by (auto simp: tried_def split: sum.splits)

lemma first_resolving_append:
  "first_resolving b E (cs @ ds) = (case first_resolving b E cs of None \<Rightarrow> first_resolving b E ds | Some c \<Rightarrow> Some c)"
  unfolding first_resolving_def by (induction cs) (auto split: option.split)

lemma first_resolving_keep:
  "first_resolving b E (map (\<lambda>v. (v, m, k)) vs) =
     map_option (\<lambda>(v, m, _). (v, m, k)) (first_resolving b E (map (\<lambda>v. (v, m, k')) vs))"
  unfolding first_resolving_def by (induction vs) auto

lemma first_resolving_module: "first_resolving b E (map (\<lambda>v. (v, m, k)) vs) = Some (v, m', k') \<Longrightarrow> m' = m \<and> k' = k"
  unfolding first_resolving_def by (induction vs) (auto split: if_splits)

lemma tried_nil: "tried b E [] st (Inr (AWS_LIBCRYPTO_NONE, st))"
  by (simp add: tried_def settled_def first_resolving_def)

lemma tried_symbols:
  assumes "v \<noteq> AWS_LIBCRYPTO_NONE"
  shows "tried b E [(v, m, False)] st (s_resolve_libcrypto_symbols b E v m st)"
proof -
  obtain st' where "s_resolve_libcrypto_symbols b E v m st = Inr (if resolves b E v m then v else AWS_LIBCRYPTO_NONE, st')"
      "resolves b E v m \<Longrightarrow> tables_for E v m st'" "open_modules st' = open_modules st" "same_rest st st'"
    using resolve_symbols [OF assms] by metis
  with assms show ?thesis by (simp add: tried_def settled_def first_resolving_def)
qed

lemma settled_from:
  "settled b E cs st' v st'' \<Longrightarrow> same_rest st st' \<Longrightarrow> open_modules st' = open_modules st \<Longrightarrow> settled b E cs st v st''"
  by (auto simp: settled_def dest: same_rest_trans split: option.splits)

lemma tried_from:
  "tried b E cs st' r \<Longrightarrow> same_rest st st' \<Longrightarrow> open_modules st' = open_modules st \<Longrightarrow> tried b E cs st r"
  by (auto simp: tried_def dest: settled_from split: sum.splits)

lemma tried_skip: "first_resolving b E cs = None \<Longrightarrow> tried b E (cs @ ds) st r = tried b E ds st r"
  by (cases r) (auto simp: tried_def settled_def first_resolving_append)

lemma tried_stop: "first_resolving b E cs = Some c \<Longrightarrow> tried b E (cs @ ds) st r = tried b E cs st r"
  by (cases r) (auto simp: tried_def settled_def first_resolving_append)

lemma tried_or_else:
  assumes "tried b E cs st r" and "\<And>st'. tried b E ds st' (f st')"
  shows "tried b E (cs @ ds) st (or_else r f)"
proof -
  obtain v st' where r: "r = Inr (v, st')" and s: "settled b E cs st v st'" using assms(1) by (rule tried_cases)
  show ?thesis
  proof (cases "first_resolving b E cs")
    case None
    with r s have "or_else r f = f st'" "same_rest st st'" "open_modules st' = open_modules st"
      by (simp_all add: or_else_def settled_def)
    with tried_from [OF assms(2)] show ?thesis by (simp add: tried_skip [OF None])
  next
    case (Some c)
    with r s have "or_else r f = r" by (cases c) (simp add: or_else_def settled_def)
    with assms(1) show ?thesis by (simp add: tried_stop [OF Some])
  qed
qed

lemma tried_with_module:
  assumes probe: "\<And>m st'. dlopen E (Some name) = Some m \<Longrightarrow> tried b E (map (\<lambda>v. (v, m, False)) (vs m)) st' (probe m st')"
    and rest: "\<And>st'. tried b E ds st' (rest st')"
  shows "tried b E (lib_candidates E name vs @ ds) st (with_module E name probe rest st)"
proof (cases "dlopen E (Some name)")
  case None
  then show ?thesis using rest by (simp add: lib_candidates_def with_module_def)
next
  case open_m: (Some m)
  let ?cs = "\<lambda>k. map (\<lambda>v. (v, m, k)) (vs m)"
  have cand: "lib_candidates E name vs = ?cs True" using open_m by (simp add: lib_candidates_def)
  note keep = first_resolving_keep [of b E m True "vs m" False]
  obtain v st' where p: "probe m (opened m st) = Inr (v, st')" and s: "settled b E (?cs False) (opened m st) v st'"
    using probe [OF open_m] by (rule tried_cases)
  show ?thesis
  proof (cases "first_resolving b E (?cs False)")
    case None
    with s have "same_rest st (dlclose m st')" "open_modules (dlclose m st') = open_modules st" "v = AWS_LIBCRYPTO_NONE"
      by (simp_all add: settled_def dlclose_def opened_def) (simp add: same_rest_def)
    with tried_from [OF rest] p open_m show ?thesis
      using None keep by (simp add: cand tried_skip with_module_def)
  next
    case (Some c)
    then obtain w m' k where c: "c = (w, m', k)" by (cases c)
    then have "m' = m \<and> k = False" using Some first_resolving_module by metis
    with c Some s p open_m keep show ?thesis
      by (simp add: tried_def settled_def cand first_resolving_append with_module_def opened_def same_rest_def)
  qed
qed

lemma tried_by_version: "tried b E (map (\<lambda>v. (v, m, False)) (versions_of E m)) st (probe_by_version b E m st)"
proof (cases "dlsym E m ''OpenSSL_version_num''")
  case None
  then show ?thesis by (simp add: versions_of_def probe_by_version_def tried_nil)
next
  case (Some f)
  have "tried b E ([(AWS_LIBCRYPTO_LC, m, False)] @ [(AWS_LIBCRYPTO_1_1_1, m, False)]) st
      (or_else (s_resolve_libcrypto_symbols b E AWS_LIBCRYPTO_LC m st) (s_resolve_libcrypto_symbols b E AWS_LIBCRYPTO_1_1_1 m))"
    by (intro tried_or_else tried_symbols) simp_all
  with Some tried_symbols [of AWS_LIBCRYPTO_1_0_2 b E m st] show ?thesis
    by (simp add: versions_of_def probe_by_version_def Let_def or_else_def tried_nil)
qed

lemma tried_lib: "tried b E (lib_candidates E ''libcrypto.so.1.0.0'' (\<lambda>_. [AWS_LIBCRYPTO_1_0_2]) @
    lib_candidates E ''libcrypto.so.1.1'' (\<lambda>_. [AWS_LIBCRYPTO_1_1_1]) @
    lib_candidates E ''libcrypto.so'' (versions_of E)) st (s_resolve_libcrypto_lib b E st)"
proof -
  have "tried b E (lib_candidates E ''libcrypto.so.1.0.0'' (\<lambda>_. [AWS_LIBCRYPTO_1_0_2]) @
    lib_candidates E ''libcrypto.so.1.1'' (\<lambda>_. [AWS_LIBCRYPTO_1_1_1]) @
    lib_candidates E ''libcrypto.so'' (versions_of E) @ []) st (s_resolve_libcrypto_lib b E st)"
    unfolding s_resolve_libcrypto_lib_def
    by (intro tried_with_module tried_nil tried_by_version) (simp_all add: tried_symbols)
  then show ?thesis by simp
qed

lemma tried_closed:
  assumes "tried b E (map (\<lambda>v. (v, p, False)) vs) (opened p st) r"
  shows "tried b E (map (\<lambda>v. (v, p, False)) vs) st (rbind r (\<lambda>(found, st). Inr (found, dlclose p st)))"
proof -
  obtain v st' where r: "r = Inr (v, st')" and s: "settled b E (map (\<lambda>v. (v, p, False)) vs) (opened p st) v st'"
    using assms by (rule tried_cases)
  show ?thesis
  proof (cases "first_resolving b E (map (\<lambda>v. (v, p, False)) vs)")
    case None
    with r s show ?thesis by (simp add: tried_def settled_def dlclose_def opened_def same_rest_def)
  next
    case (Some c)
    then obtain w m' k where c: "c = (w, m', k)" by (cases c)
    then have "m' = p \<and> k = False" using Some first_resolving_module by metis
    with c Some r s show ?thesis by (simp add: tried_def settled_def dlclose_def opened_def same_rest_def tables_for_def)
  qed
qed

lemma resolve_tried:
  assumes "dlopen E None = Some p"
  shows "tried b E (candidates E p) st (s_resolve_libcrypto b E st)"
proof -
  let ?sym = "\<lambda>v. s_resolve_libcrypto_symbols b E v p"
  let ?r = "or_else (or_else (or_else (?sym AWS_LIBCRYPTO_LC (opened p st)) (?sym AWS_LIBCRYPTO_BORINGSSL))
      (?sym AWS_LIBCRYPTO_1_0_2)) (?sym AWS_LIBCRYPTO_1_1_1)"
  let ?vs = "[AWS_LIBCRYPTO_LC, AWS_LIBCRYPTO_BORINGSSL, AWS_LIBCRYPTO_1_0_2, AWS_LIBCRYPTO_1_1_1]"
  have "tried b E ((([(AWS_LIBCRYPTO_LC, p, False)] @ [(AWS_LIBCRYPTO_BORINGSSL, p, False)]) @ [(AWS_LIBCRYPTO_1_0_2, p, False)]) @
      [(AWS_LIBCRYPTO_1_1_1, p, False)]) (opened p st) ?r"
    by (intro tried_or_else tried_symbols) simp_all
  then have "tried b E (map (\<lambda>v. (v, p, False)) ?vs) st (rbind ?r (\<lambda>(found, st). Inr (found, dlclose p st)))"
    by (intro tried_closed) simp
  then have "tried b E (candidates E p) st
      (or_else (rbind ?r (\<lambda>(found, st). Inr (found, dlclose p st))) (s_resolve_libcrypto_lib b E))"
    unfolding candidates_def by (rule tried_or_else) (rule tried_lib)
  moreover have "s_resolve_libcrypto b E st =
      or_else (rbind ?r (\<lambda>(found, st). Inr (found, dlclose p st))) (s_resolve_libcrypto_lib b E)"
    using assms by (cases ?r) (auto simp: s_resolve_libcrypto_def or_else_def)
  ultimately show ?thesis by simp
qed

text \<open>
  Claim C8. Resolving libcrypto is a search through a fixed list of candidates: the process with the versions AWS-LC, BoringSSL,
  1.0.2 and 1.1.1, then \<open>libcrypto.so.1.0.0\<close>, \<open>libcrypto.so.1.1\<close> and \<open>libcrypto.so\<close> by its version number. It always returns, with the
  first candidate that has the functions of both tables; both tables are then those of that candidate, whatever
  failed attempts wrote before. Every module that was opened is closed again, except the library that was chosen.
\<close>

theorem libcrypto_resolution:
  assumes "dlopen E None = Some process"
  shows "\<exists>v st'. s_resolve_libcrypto b E st = Inr (v, st') \<and>
    (case first_resolving b E (candidates E process) of
       None \<Rightarrow> v = AWS_LIBCRYPTO_NONE \<and> open_modules st' = open_modules st
     | Some (w, m, keep) \<Rightarrow> v = w \<and> w \<noteq> AWS_LIBCRYPTO_NONE \<and> tables_for E w m st' \<and>
         open_modules st' = (if keep then [m] else []) @ open_modules st)"
  using resolve_tried [OF assms, of b st] by (elim tried_cases) (auto simp: settled_def)

section \<open>Initialisation\<close>

lemma install_callbacks:
  assumes "install_locking C K st = Inr st'"
  shows "hmac_table (install_id K st') = hmac_table st" "evp_md_table (install_id K st') = evp_md_table st"
    "g_hmac (install_id K st') = g_hmac st" "g_evp_md (install_id K st') = g_evp_md st"
    "open_modules (install_id K st') = open_modules st" "s_libcrypto_module (install_id K st') = s_libcrypto_module st"
    "s_libcrypto_allocator (install_id K st') = s_libcrypto_allocator st"
  using assms by (auto simp: install_locking_def install_id_def Let_def split: if_splits)

lemma platform_init_found:
  assumes "aws_cal_platform_init b E K C st = Inr st'"
  obtains process v m keep where "dlopen E None = Some process" "first_resolving b E (candidates E process) = Some (v, m, keep)"
    "resolves b E v m" "tables_for E v m st'" "open_modules st' = (if keep then [m] else []) @ open_modules st"
    "s_libcrypto_module st' = s_libcrypto_module st" "s_libcrypto_allocator st'"
proof -
  obtain p where p: "dlopen E None = Some p"
    using assms by (cases "dlopen E None") (auto simp: aws_cal_platform_init_def s_resolve_libcrypto_def)
  obtain v st1 where r: "s_resolve_libcrypto b E st = Inr (v, st1)" and s: "settled b E (candidates E p) st v st1"
    using resolve_tried [OF p] by (rule tried_cases)
  have v: "v \<noteq> AWS_LIBCRYPTO_NONE" using assms r by (auto simp: aws_cal_platform_init_def)
  then obtain w m keep where f: "first_resolving b E (candidates E p) = Some (w, m, keep)"
    using s by (cases "first_resolving b E (candidates E p)") (auto simp: settled_def)
  have ok: "resolves b E w m" using f unfolding first_resolving_def by (auto simp: find_Some_iff)
  have t: "tables_for E w m st1" "open_modules st1 = (if keep then [m] else []) @ open_modules st"
      "s_libcrypto_module st1 = s_libcrypto_module st"
    using s f by (simp_all add: settled_def same_rest_def)
  have "tables_for E w m st' \<and> open_modules st' = open_modules st1 \<and> s_libcrypto_module st' = s_libcrypto_module st1 \<and>
      s_libcrypto_allocator st'"
  proof (cases "b = OPENSSL_IS_OPENSSL")
    case True
    then obtain st2 where i: "install_locking C K (st1\<lparr>s_libcrypto_allocator := True\<rparr>) = Inr st2" "st' = install_id K st2"
      using assms r v
      by (cases "install_locking C K (st1\<lparr>s_libcrypto_allocator := True\<rparr>)")
        (auto simp: aws_cal_platform_init_def Let_def split: if_splits)
    with install_callbacks [OF i(1)] t(1) show ?thesis by (simp add: tables_for_def)
  next
    case False
    with assms r v t(1) show ?thesis by (auto simp: aws_cal_platform_init_def Let_def tables_for_def split: if_splits)
  qed
  with that p f ok t show thesis by simp
qed

text \<open>A library that exports the first function of a version exports all of them.\<close>

definition lib_complete :: "('f, 'm) dl_env \<Rightarrow> bool" where
  "lib_complete E \<longleftrightarrow> (\<forall>m.
     (dlsym E m ''HMAC_CTX_init'' \<noteq> None \<longrightarrow> (\<forall>s \<in> set hmac_102_names. dlsym E m s \<noteq> None)) \<and>
     (dlsym E m ''HMAC_CTX_new'' \<noteq> None \<longrightarrow> (\<forall>s \<in> set hmac_111_names. dlsym E m s \<noteq> None)) \<and>
     (dlsym E m ''EVP_MD_CTX_create'' \<noteq> None \<longrightarrow> (\<forall>s \<in> set md_102_names. dlsym E m s \<noteq> None)) \<and>
     (dlsym E m ''EVP_MD_CTX_new'' \<noteq> None \<longrightarrow> (\<forall>s \<in> set md_111_names. dlsym E m s \<noteq> None)))"

definition is_lib :: "'f fn_ptr option \<Rightarrow> bool" where
  "is_lib p \<longleftrightarrow> (\<exists>f. p = Some (Lib f))"

text \<open>Tables whose functions can all be called, with shims that fit each other. The shim that creates a context for 1.0.2 needs
  the functions of that version, as its precondition says.\<close>

definition hmac_complete :: "'f openssl_hmac_ctx_table \<Rightarrow> bool" where
  "hmac_complete T \<longleftrightarrow> is_lib (update_fn T) \<and> is_lib (final_fn T) \<and>
     (is_lib (new_fn T) \<and> is_lib (free_fn T) \<and> (is_lib (init_fn T) \<or> init_fn T = Some s_hmac_ctx_init_noop) \<or>
      new_fn T = Some s_hmac_ctx_new \<and> free_fn T = Some s_hmac_ctx_free \<and> is_lib (init_fn T) \<and> is_lib (clean_up_fn T)) \<and>
     (is_lib (init_ex_fn T) \<or>
      init_ex_fn T \<in> {Some s_hmac_init_ex_openssl, Some s_hmac_init_ex_bssl} \<and> is_lib (impl_init_ex_fn T))"

definition md_complete :: "'f openssl_evp_md_ctx_table \<Rightarrow> bool" where
  "md_complete T \<longleftrightarrow> is_lib (evp_new_fn T) \<and> is_lib (evp_free_fn T) \<and> is_lib (evp_init_ex_fn T) \<and> is_lib (evp_update_fn T) \<and>
     is_lib (evp_final_ex_fn T)"

lemma is_lib_simps [simp]: "is_lib (map_option Lib p) \<longleftrightarrow> p \<noteq> None" "is_lib None = False" "is_lib (Some (Lib f))"
  "is_lib (Some s_hmac_init_ex_openssl) = False" "is_lib (Some s_hmac_init_ex_bssl) = False"
  by (auto simp: is_lib_def)

text \<open>One lookup function serves a whole table.\<close>

lemma find_symbols_lib:
  assumes "\<forall>s \<in> set names. dlsym E m first \<noteq> None \<longrightarrow> dlsym E m s \<noteq> None"
    and "find_symbols E m required first \<noteq> None" and "set names \<subseteq> set required" and "s \<in> set names"
  shows "is_lib (find_symbols E m required s)"
proof (cases "\<forall>s \<in> set required. linked E s \<noteq> None")
  case True
  then have "find_symbols E m required = (\<lambda>s. map_option Lib (linked E s))" unfolding find_symbols_def by (rule if_P)
  with True assms(3,4) show ?thesis by auto
next
  case False
  then have "find_symbols E m required = (\<lambda>s. map_option Lib (dlsym E m s))" unfolding find_symbols_def by (rule if_not_P)
  with assms(1,2,4) show ?thesis by simp
qed

lemma resolved_hmac_complete:
  assumes "lib_complete E" and "hmac_found b E v m" and "hmac_table_for E v m T"
  shows "hmac_complete T \<longleftrightarrow> (b = OPENSSL_IS_AWSLC \<longrightarrow> linked E ''HMAC_CTX_init'' \<noteq> None)"
proof -
  have l102: "\<forall>s \<in> set hmac_102_names. dlsym E m ''HMAC_CTX_init'' \<noteq> None \<longrightarrow> dlsym E m s \<noteq> None"
    and l111: "\<forall>s \<in> set hmac_111_names. dlsym E m ''HMAC_CTX_new'' \<noteq> None \<longrightarrow> dlsym E m s \<noteq> None"
    using assms(1) unfolding lib_complete_def by blast+
  have sub: "set hmac_111_names \<subseteq> set hmac_lc_names" by (auto simp: hmac_111_names_def hmac_lc_names_def)
  show ?thesis
  proof (cases v)
    case AWS_LIBCRYPTO_1_0_2
    with assms(2,3) find_symbols_lib [OF l102, of hmac_102_names] show ?thesis
      by (simp add: hmac_complete_def Let_def hmac_102_names_def)
  next
    case AWS_LIBCRYPTO_1_1_1
    with assms(2,3) find_symbols_lib [OF l111, of hmac_111_names] show ?thesis
      by (simp add: hmac_complete_def Let_def hmac_111_names_def)
  next
    case AWS_LIBCRYPTO_LC
    with assms(2,3) find_symbols_lib [OF l111 _ sub] show ?thesis
      by (auto simp: hmac_complete_def Let_def hmac_111_names_def is_lib_def)
  next
    case AWS_LIBCRYPTO_BORINGSSL
    with assms(2,3) find_symbols_lib [OF l111, of hmac_111_names] show ?thesis
      by (simp add: hmac_complete_def Let_def hmac_111_names_def)
  next
    case AWS_LIBCRYPTO_NONE
    with assms(2) show ?thesis by simp
  qed
qed

lemma md_table_complete: "length names = 5 \<Longrightarrow> \<forall>s \<in> set names. is_lib (look s) \<Longrightarrow> md_complete (md_table (map look names))"
  by (simp add: md_complete_def md_table_def)

lemma resolved_md_complete:
  assumes "lib_complete E" and "md_found E v m"
  shows "md_complete (md_table (map (find_symbols E m (md_required v)) (md_names v)))"
proof -
  have "dlsym E m ''EVP_MD_CTX_create'' \<noteq> None \<longrightarrow> (\<forall>s \<in> set md_102_names. dlsym E m s \<noteq> None)"
    and "dlsym E m ''EVP_MD_CTX_new'' \<noteq> None \<longrightarrow> (\<forall>s \<in> set md_111_names. dlsym E m s \<noteq> None)"
    using assms(1) unfolding lib_complete_def by blast+
  then have "\<forall>s \<in> set (md_names v). dlsym E m (hd (md_names v)) \<noteq> None \<longrightarrow> dlsym E m s \<noteq> None"
    using md_111_names_hd by (cases v) (metis md_names.simps)+
  moreover have "set (md_names v) \<subseteq> set (md_required v)" by (cases v) auto
  ultimately have "is_lib (find_symbols E m (md_required v) s)" if "s \<in> set (md_names v)" for s
    by (rule find_symbols_lib [OF _ assms(2) [unfolded md_found_def] _ that])
  moreover have "length (md_names v) = 5" by (cases v) (simp_all add: md_102_names_def md_111_names_def)
  ultimately show ?thesis by (intro md_table_complete) blast+
qed

text \<open>
  Claim C33. The tables are well-formed after initialisation: over libraries that are complete, every function of both tables can be called
  and the shims fit the version, in builds for OpenSSL and BoringSSL always and in builds for AWS-LC exactly when
  \<open>HMAC_CTX_init\<close> was bound by linking; a dynamically loaded AWS-LC leaves a null pointer that creating an HMAC calls.
\<close>

theorem platform_init_tables:
  assumes "lib_complete E" and "aws_cal_platform_init b E K C st = Inr st'"
  shows "g_hmac st' \<and> g_evp_md st' \<and> md_complete (evp_md_table st') \<and>
    (hmac_complete (hmac_table st') \<longleftrightarrow> \<not> (b = OPENSSL_IS_AWSLC \<and> linked E ''HMAC_CTX_init'' = None)) \<and>
    (b = OPENSSL_IS_AWSLC \<and> linked E ''HMAC_CTX_init'' = None \<longrightarrow>
       (\<forall>F c. call_init_fn F (hmac_table st') c = Inl (Undefined Null_deref)))"
proof -
  obtain v m where r: "resolves b E v m" and t: "tables_for E v m st'"
    using assms(2) by (rule platform_init_found)
  have "init_fn (hmac_table st') = None" if "b = OPENSSL_IS_AWSLC" "linked E ''HMAC_CTX_init'' = None"
    using r t that by (cases v) (simp_all add: resolves_def tables_for_def Let_def)
  with r t resolved_hmac_complete [OF assms(1), of b v m "hmac_table st'"] resolved_md_complete [OF assms(1), of v m] show ?thesis
    by (auto simp: resolves_def tables_for_def call_init_fn_def)
qed

section \<open>Digests through the resolved tables\<close>

text \<open>The functions behind complete tables, in the form the theories Hmac and Hash take them. The failures of the calls do
  not occur for complete tables.\<close>

definition hmac_functions :: "('f, 'c) lib_calls \<Rightarrow> aws_common \<Rightarrow> 'f openssl_hmac_ctx_table \<Rightarrow> 'c hmac_ctx_table option" where
  "hmac_functions F C T = (if \<not> hmac_complete T then None else Some
     \<lparr>hmac_new_ctx_fn = (case call_new_fn F C T of Inl _ \<Rightarrow> None | Inr c \<Rightarrow> c),
      hmac_init_fn = (\<lambda>c. case call_init_fn F T c of Inl _ \<Rightarrow> c | Inr c' \<Rightarrow> c'),
      hmac_init_ex_fn = (\<lambda>c k md. case call_init_ex_fn F T c k md of Inl _ \<Rightarrow> (False, c) | Inr r \<Rightarrow> r),
      hmac_update_fn = (\<lambda>c b. case update_fn T of Some (Lib f) \<Rightarrow> call_update F f c b | _ \<Rightarrow> (False, c)),
      hmac_final_fn = (\<lambda>c. case final_fn T of Some (Lib f) \<Rightarrow> call_final F f c | _ \<Rightarrow> (False, [], c))\<rparr>)"

definition md_functions :: "('f, 'c) lib_calls \<Rightarrow> 'f openssl_evp_md_ctx_table \<Rightarrow> 'c evp_md_ctx_table option" where
  "md_functions F T = (if \<not> md_complete T then None else Some
     \<lparr>md_new_fn = (case evp_new_fn T of Some (Lib f) \<Rightarrow> call_new F f | _ \<Rightarrow> None),
      md_init_ex_fn = (\<lambda>c md. case evp_init_ex_fn T of Some (Lib f) \<Rightarrow> call_md_init_ex F f c md | _ \<Rightarrow> (False, c)),
      md_update_fn = (\<lambda>c b. case evp_update_fn T of Some (Lib f) \<Rightarrow> call_update F f c b | _ \<Rightarrow> (False, c)),
      md_final_ex_fn = (\<lambda>c. case evp_final_ex_fn T of Some (Lib f) \<Rightarrow> call_final F f c | _ \<Rightarrow> (False, [], c))\<rparr>)"

text \<open>What libcrypto documents, for the functions one provider has under their names; the names decide what a function does.\<close>

definition hmac_lib_spec :: "(string \<Rightarrow> 'f option) \<Rightarrow> ('f, 'c) lib_calls \<Rightarrow> ('c \<Rightarrow> (bytes \<times> bytes) option) \<Rightarrow>
    (bytes \<Rightarrow> bytes \<Rightarrow> bytes) \<Rightarrow> bool" where
  "hmac_lib_spec look F msg M \<longleftrightarrow>
     (\<forall>f. look ''HMAC_CTX_new'' = Some f \<longrightarrow> call_new F f \<noteq> None) \<and>
     (\<forall>f c k md. look ''HMAC_Init_ex'' = Some f \<longrightarrow> length k \<le> INT_MAX \<longrightarrow> fst (call_hmac_init_ex F f c k md)) \<and>
     (\<forall>f c k. look ''HMAC_Init_ex'' = Some f \<longrightarrow> length k \<le> INT_MAX \<longrightarrow>
        msg (snd (call_hmac_init_ex F f c k EVP_sha256)) = Some (k, [])) \<and>
     (\<forall>f c b. look ''HMAC_Update'' = Some f \<longrightarrow> fst (call_update F f c b)) \<and>
     (\<forall>f c k m b. look ''HMAC_Update'' = Some f \<longrightarrow> msg c = Some (k, m) \<longrightarrow> msg (snd (call_update F f c b)) = Some (k, m @ b)) \<and>
     (\<forall>f c. look ''HMAC_Final'' = Some f \<longrightarrow> fst (call_final F f c)) \<and>
     (\<forall>f c k m. look ''HMAC_Final'' = Some f \<longrightarrow> msg c = Some (k, m) \<longrightarrow> fst (snd (call_final F f c)) = M k m) \<and>
     (\<forall>k m. length (M k m) = 32)"

definition md_lib_spec :: "(string \<Rightarrow> 'f option) \<Rightarrow> ('f, 'c) lib_calls \<Rightarrow> ('c \<Rightarrow> (evp_md \<times> bytes) option) \<Rightarrow>
    (evp_md \<Rightarrow> bytes \<Rightarrow> bytes) \<Rightarrow> bool" where
  "md_lib_spec look F msg H \<longleftrightarrow>
     (\<forall>f. look ''EVP_MD_CTX_new'' = Some f \<or> look ''EVP_MD_CTX_create'' = Some f \<longrightarrow> call_new F f \<noteq> None) \<and>
     (\<forall>f c md. look ''EVP_DigestInit_ex'' = Some f \<longrightarrow> fst (call_md_init_ex F f c md)) \<and>
     (\<forall>f c md. look ''EVP_DigestInit_ex'' = Some f \<longrightarrow> msg (snd (call_md_init_ex F f c md)) = Some (md, [])) \<and>
     (\<forall>f c b. look ''EVP_DigestUpdate'' = Some f \<longrightarrow> fst (call_update F f c b)) \<and>
     (\<forall>f c md m b. look ''EVP_DigestUpdate'' = Some f \<longrightarrow> msg c = Some (md, m) \<longrightarrow> msg (snd (call_update F f c b)) = Some (md, m @ b)) \<and>
     (\<forall>f c. look ''EVP_DigestFinal_ex'' = Some f \<longrightarrow> fst (call_final F f c)) \<and>
     (\<forall>f c md m. look ''EVP_DigestFinal_ex'' = Some f \<longrightarrow> msg c = Some (md, m) \<longrightarrow> fst (snd (call_final F f c)) = H md m) \<and>
     (\<forall>md m. length (H md m) = md_len md)"

definition providers :: "('f, 'm) dl_env \<Rightarrow> (string \<Rightarrow> 'f option) set" where
  "providers E = insert (linked E) (range (dlsym E))"

lemma find_symbols_provider: "\<exists>look \<in> providers E. find_symbols E m names = (\<lambda>s. map_option Lib (look s))"
  by (auto simp: find_symbols_def providers_def)

lemma hmac_provider:
  assumes "hmac_table_for E v m T"
  obtains look where "look \<in> providers E" "update_fn T = map_option Lib (look ''HMAC_Update'')"
    "final_fn T = map_option Lib (look ''HMAC_Final'')"
    "new_fn T = Some s_hmac_ctx_new \<or> new_fn T = map_option Lib (look ''HMAC_CTX_new'')"
    "init_ex_fn T = map_option Lib (look ''HMAC_Init_ex'') \<or> impl_init_ex_fn T = map_option Lib (look ''HMAC_Init_ex'') \<and>
       init_ex_fn T \<in> {Some s_hmac_init_ex_openssl, Some s_hmac_init_ex_bssl}"
proof -
  obtain l1 l2 l3 where l: "l1 \<in> providers E" "find_symbols E m hmac_102_names = (\<lambda>s. map_option Lib (l1 s))"
      "l2 \<in> providers E" "find_symbols E m hmac_111_names = (\<lambda>s. map_option Lib (l2 s))"
      "l3 \<in> providers E" "find_symbols E m hmac_lc_names = (\<lambda>s. map_option Lib (l3 s))"
    using find_symbols_provider by metis
  with assms show thesis
    by (cases v) (auto simp: Let_def intro: that [of l1] that [of l2] that [of l3])
qed

lemma hmac_functions_ok:
  assumes C: "common_spec C" and T: "hmac_table_for E v m T" "hmac_complete T"
    and lib: "\<forall>look \<in> providers E. hmac_lib_spec look F msg M"
  obtains U where "hmac_functions F C T = Some U" "hmac_spec U msg M" "hmac_reliable U"
    "\<forall>c k md. init_ex_fn T = Some s_hmac_init_ex_openssl \<longrightarrow> INT_MAX < length k \<longrightarrow> \<not> fst (hmac_init_ex_fn U c k md)"
proof -
  obtain look where look: "look \<in> providers E" "update_fn T = map_option Lib (look ''HMAC_Update'')"
    "final_fn T = map_option Lib (look ''HMAC_Final'')"
    "new_fn T = Some s_hmac_ctx_new \<or> new_fn T = map_option Lib (look ''HMAC_CTX_new'')"
    "init_ex_fn T = map_option Lib (look ''HMAC_Init_ex'') \<or> impl_init_ex_fn T = map_option Lib (look ''HMAC_Init_ex'') \<and>
       init_ex_fn T \<in> {Some s_hmac_init_ex_openssl, Some s_hmac_init_ex_bssl}"
    using hmac_provider [OF T(1)] by metis
  have spec: "hmac_lib_spec look F msg M" using lib look(1) by blast
  obtain u f where uf: "look ''HMAC_Update'' = Some u" "look ''HMAC_Final'' = Some f"
    using look(2,3) T(2) by (auto simp: hmac_complete_def)
  obtain i where i: "look ''HMAC_Init_ex'' = Some i"
    using look(5) T(2) by (cases "look ''HMAC_Init_ex''") (auto simp: hmac_complete_def)
  have init: "call_init_ex_fn F T c k md = Inr (if init_ex_fn T = Some s_hmac_init_ex_openssl \<and> length k > INT_MAX
      then (False, c) else call_hmac_init_ex F i c k md)" for c k md
    using look(5) i by (auto simp: call_init_ex_fn_def)
  have new: "\<exists>c. call_new_fn F C T = Inr (Some c)"
  proof (cases "new_fn T = Some s_hmac_ctx_new")
    case True
    then obtain g where "init_fn T = Some (Lib g)" using T(2) by (auto simp: hmac_complete_def is_lib_def)
    with True C show ?thesis by (simp add: call_new_fn_def call_init_fn_def)
  next
    case False
    then obtain g where "look ''HMAC_CTX_new'' = Some g" "new_fn T = Some (Lib g)"
      using look(4) T(2) by (cases "look ''HMAC_CTX_new''") (auto simp: hmac_complete_def)
    with spec show ?thesis by (auto simp: call_new_fn_def hmac_lib_spec_def)
  qed
  have upd: "update_fn T = Some (Lib u)" "final_fn T = Some (Lib f)" using look(2,3) uf by simp_all
  define U where "U = the (hmac_functions F C T)"
  have U: "hmac_functions F C T = Some U" using T(2) by (simp add: U_def hmac_functions_def)
  have fields: "hmac_new_ctx_fn U \<noteq> None" "hmac_update_fn U = call_update F u" "hmac_final_fn U = call_final F f"
      "hmac_init_ex_fn U = (\<lambda>c k md. if init_ex_fn T = Some s_hmac_init_ex_openssl \<and> length k > INT_MAX then (False, c)
         else call_hmac_init_ex F i c k md)"
    using new T(2) by (auto simp: U_def hmac_functions_def upd init)
  show thesis
  proof (rule that [OF U])
    show "hmac_spec U msg M"
      using spec i uf unfolding hmac_spec_def hmac_lib_spec_def fields by (auto split: if_splits) (metis fst_conv snd_conv)+
    show "hmac_reliable U" using spec i uf fields(1) unfolding hmac_reliable_def hmac_lib_spec_def fields(2-) by auto
    show "\<forall>c k md. init_ex_fn T = Some s_hmac_init_ex_openssl \<longrightarrow> INT_MAX < length k \<longrightarrow> \<not> fst (hmac_init_ex_fn U c k md)"
      by (simp add: fields)
  qed
qed

lemma md_functions_ok:
  assumes "md_complete (md_table (map (find_symbols E m (md_required v)) (md_names v)))"
    and lib: "\<forall>look \<in> providers E. md_lib_spec look F msg H"
  obtains D where "md_functions F (md_table (map (find_symbols E m (md_required v)) (md_names v))) = Some D"
    "evp_md_spec D msg H" "evp_md_reliable D"
proof -
  let ?T = "md_table (map (find_symbols E m (md_required v)) (md_names v))"
  obtain look where look: "look \<in> providers E" "find_symbols E m (md_required v) = (\<lambda>s. map_option Lib (look s))"
    using find_symbols_provider by metis
  have names: "?T = \<lparr>evp_new_fn = map_option Lib (look (hd (md_names v))), evp_free_fn = map_option Lib (look (md_names v ! 1)),
      evp_init_ex_fn = map_option Lib (look ''EVP_DigestInit_ex''), evp_update_fn = map_option Lib (look ''EVP_DigestUpdate''),
      evp_final_ex_fn = map_option Lib (look ''EVP_DigestFinal_ex'')\<rparr>"
    unfolding look(2) by (cases v) (simp_all add: md_table_def md_102_names_def md_111_names_def)
  then obtain a i u f where fs: "look (hd (md_names v)) = Some a" "look ''EVP_DigestInit_ex'' = Some i"
      "look ''EVP_DigestUpdate'' = Some u" "look ''EVP_DigestFinal_ex'' = Some f"
    using assms(1) by (auto simp: md_complete_def)
  have spec: "md_lib_spec look F msg H" using lib look(1) by blast
  define D where "D = the (md_functions F ?T)"
  have D: "md_functions F ?T = Some D" using assms(1) by (simp add: D_def md_functions_def)
  have fields: "md_new_fn D = call_new F a" "md_init_ex_fn D = call_md_init_ex F i" "md_update_fn D = call_update F u"
      "md_final_ex_fn D = call_final F f"
    using assms(1) by (simp_all add: D_def md_functions_def) (simp_all add: names fs)
  have "hd (md_names v) = ''EVP_MD_CTX_new'' \<or> hd (md_names v) = ''EVP_MD_CTX_create''" by (cases v) simp_all
  then have new: "call_new F a \<noteq> None" using spec fs(1) unfolding md_lib_spec_def by metis
  show thesis
  proof (rule that [OF D])
    show "evp_md_spec D msg H" using spec fs unfolding evp_md_spec_def md_lib_spec_def fields by (metis fst_conv snd_conv)
    show "evp_md_reliable D" using spec fs new unfolding evp_md_reliable_def md_lib_spec_def fields by simp
  qed
qed

text \<open>
  Claim C9. After initialisation the digests are those of the library that was found: over complete libraries that behave as
  documented, and in builds for AWS-LC only if \<open>HMAC_CTX_init\<close> is linked (a dynamically loaded AWS-LC leaves a null function in the table of HMACs, which the
  constructor calls), an HMAC under a secret whose length fits a C int and a hash, made through the
  resolved tables from any pieces, are the HMAC and the digest of the concatenation. With the tables of 1.1.1 a longer secret
  is refused with AWS_ERROR_INVALID_ARGUMENT.
\<close>

theorem digests_after_init:
  assumes C: "common_spec C" and E: "lib_complete E" and init: "aws_cal_platform_init b E K C st = Inr st'"
    and lc: "b = OPENSSL_IS_AWSLC \<longrightarrow> linked E ''HMAC_CTX_init'' \<noteq> None"
    and lib: "\<forall>look \<in> providers E. hmac_lib_spec look F msg M \<and> md_lib_spec look F msgD H"
    and k: "bytes_at (ptr secret) (cur_len secret) = Inr k"
    and ps: "list_all2 (\<lambda>c b. bytes_at (ptr c) (cur_len c) = Inr b) cs bs" and v: "valid_buf out"
  shows "\<exists>T D. hmac_functions F C (hmac_table st') = Some T \<and> md_functions F (evp_md_table st') = Some D \<and>
    (length k \<le> INT_MAX \<longrightarrow>
       hmac_run (openssl_hmac_vtable T) (aws_sha256_hmac_default_new C T secret) cs out n = outcome 32 (M k (concat bs)) out n) \<and>
    (INT_MAX < length k \<and> init_ex_fn (hmac_table st') = Some s_hmac_init_ex_openssl \<longrightarrow>
       aws_sha256_hmac_default_new C T secret = Inl (Raised AWS_ERROR_INVALID_ARGUMENT)) \<and>
    hash_run (openssl_hash_vtable D) (default_new C D md) cs out n = outcome (md_len md) (H md (concat bs)) out n"
proof -
  obtain w m where r: "resolves b E w m" and t: "tables_for E w m st'"
    using init by (rule platform_init_found)
  have complete: "hmac_complete (hmac_table st')" "md_complete (evp_md_table st')"
    using resolved_hmac_complete [OF E, of b w m "hmac_table st'"] resolved_md_complete [OF E, of w m] r t lc
    by (auto simp: resolves_def tables_for_def)
  obtain T where T: "hmac_functions F C (hmac_table st') = Some T" "hmac_spec T msg M" "hmac_reliable T"
      "\<forall>c k md. init_ex_fn (hmac_table st') = Some s_hmac_init_ex_openssl \<longrightarrow> INT_MAX < length k \<longrightarrow>
         \<not> fst (hmac_init_ex_fn T c k md)"
    by (rule hmac_functions_ok [OF C _ complete(1), of E w m F msg M]) (use lib t in \<open>auto simp: tables_for_def\<close>)
  obtain D where D: "md_functions F (evp_md_table st') = Some D" "evp_md_spec D msgD H" "evp_md_reliable D"
    using md_functions_ok [of E m w F msgD H] complete(2) lib t unfolding tables_for_def by metis
  have "aws_sha256_hmac_default_new C T secret = Inl (Raised AWS_ERROR_INVALID_ARGUMENT)"
    if "init_ex_fn (hmac_table st') = Some s_hmac_init_ex_openssl" "INT_MAX < length k"
  proof -
    obtain c where "hmac_new_ctx_fn T = Some c" using hmac_reliable_laws(4) [OF T(3)] by blast
    moreover have "\<not> fst (hmac_init_ex_fn T (hmac_init_fn T c) k EVP_sha256)" using T(4) that by blast
    ultimately show ?thesis using C k
      by (cases "hmac_init_ex_fn T (hmac_init_fn T c) k EVP_sha256") (simp add: aws_sha256_hmac_default_new_def)
  qed
  with T(1) D(1) openssl_hmac_run [OF C T(2,3) k _ ps v] openssl_hash_run [OF C D(2,3) ps v] show ?thesis
    by (intro exI [of _ T] exI [of _ D]) simp
qed

section \<open>Witnesses\<close>

text \<open>A process in which nothing is linked and that finds \<open>libcrypto.so.1.1\<close>; a function is its name.\<close>

definition ref_dl :: "(string, nat) dl_env" where
  "ref_dl =
     \<lparr>linked = (\<lambda>_. None),
      dlopen = (\<lambda>name. if name = None then Some 0 else if name = Some ''libcrypto.so.1.1'' then Some 1 else None),
      dlsym = (\<lambda>m s. if m = 1 \<and> s \<in> set (hmac_111_names @ md_111_names) then Some s else None),
      call_version_num = (\<lambda>_. 0)\<rparr>"

text \<open>The callbacks of version 1.1.1 do nothing.\<close>

definition ref_crypto :: "unit crypto_api" where
  "ref_crypto =
     \<lparr>CRYPTO_get_locking_callback = (\<lambda>_. None), CRYPTO_set_locking_callback = (\<lambda>_ s. s),
      CRYPTO_get_id_callback = (\<lambda>_. None), CRYPTO_set_id_callback = (\<lambda>_ s. s),
      CRYPTO_num_locks = 1, CRYPTO_LOCK = 1, AWSLC_thread_local_clear = (\<lambda>s. s), AWSLC_thread_local_shutdown = (\<lambda>s. s)\<rparr>"

definition ref_libcrypto_state :: "(string, nat, unit) libcrypto_state" where
  "ref_libcrypto_state =
     \<lparr>hmac_table = \<lparr>new_fn = None, free_fn = None, init_fn = None, clean_up_fn = None, init_ex_fn = None, update_fn = None,
        final_fn = None, impl_init_ex_fn = None\<rparr>,
      evp_md_table = \<lparr>evp_new_fn = None, evp_free_fn = None, evp_init_ex_fn = None, evp_update_fn = None, evp_final_ex_fn = None\<rparr>,
      g_hmac = False, g_evp_md = False, s_libcrypto_allocator = False, s_libcrypto_module = None,
      s_libcrypto_locks = No_locks, open_modules = [], crypto = ()\<rparr>"

definition ref_calls :: "(string, (bytes \<times> bytes) + (evp_md \<times> bytes)) lib_calls" where
  "ref_calls =
     \<lparr>call_new = (\<lambda>_. Some (Inl ([], []))), call_ctx = (\<lambda>_ c. c),
      call_hmac_init_ex = (\<lambda>_ _ k _. (True, Inl (k, []))), call_md_init_ex = (\<lambda>_ _ md. (True, Inr (md, []))),
      call_update = (\<lambda>_ c b. (True, map_sum (map_prod id (\<lambda>m. m @ b)) (map_prod id (\<lambda>m. m @ b)) c)),
      call_final = (\<lambda>_ c. (True, (case c of Inl (k, m) \<Rightarrow> ref_mac k m | Inr (md, m) \<Rightarrow> ref_digest md m), c)),
      zeroed_ctx = Inl ([], [])\<rparr>"

definition ref_msg_hmac :: "(bytes \<times> bytes) + (evp_md \<times> bytes) \<Rightarrow> (bytes \<times> bytes) option" where
  "ref_msg_hmac c = (case c of Inl x \<Rightarrow> Some x | Inr _ \<Rightarrow> None)"

definition ref_msg_md :: "(bytes \<times> bytes) + (evp_md \<times> bytes) \<Rightarrow> (evp_md \<times> bytes) option" where
  "ref_msg_md c = (case c of Inl _ \<Rightarrow> None | Inr x \<Rightarrow> Some x)"

lemma ref_dl_symbols:
  "find_symbols ref_dl m (n # ns) = (\<lambda>s. map_option Lib (dlsym ref_dl m s))"
  "dlsym ref_dl 0 = (\<lambda>_. None)" "dlopen ref_dl None = Some 0"
  by (auto simp: find_symbols_def ref_dl_def fun_eq_iff)

lemma ref_dl_new: "dlsym ref_dl 1 ''HMAC_CTX_new'' = Some ''HMAC_CTX_new''" "dlsym ref_dl 1 ''EVP_MD_CTX_new'' = Some ''EVP_MD_CTX_new''"
  by (simp_all add: ref_dl_def hmac_111_names_def md_111_names_def)

lemma ref_names:
  "find_symbols ref_dl m hmac_102_names = (\<lambda>s. map_option Lib (dlsym ref_dl m s))"
  "find_symbols ref_dl m hmac_111_names = (\<lambda>s. map_option Lib (dlsym ref_dl m s))"
  "find_symbols ref_dl m hmac_lc_names = (\<lambda>s. map_option Lib (dlsym ref_dl m s))"
  "find_symbols ref_dl m md_102_names = (\<lambda>s. map_option Lib (dlsym ref_dl m s))"
  "find_symbols ref_dl m md_111_names = (\<lambda>s. map_option Lib (dlsym ref_dl m s))"
  unfolding hmac_102_names_def hmac_111_names_def hmac_lc_names_def md_102_names_def md_111_names_def by (rule ref_dl_symbols(1))+

lemma ref_first: "first_resolving OPENSSL_IS_OPENSSL ref_dl (candidates ref_dl 0) = Some (AWS_LIBCRYPTO_1_1_1, 1, True)"
proof -
  have "\<not> resolves OPENSSL_IS_OPENSSL ref_dl v 0" for v
    by (cases v) (simp_all add: resolves_def ref_names ref_dl_symbols(2))
  moreover have "resolves OPENSSL_IS_OPENSSL ref_dl AWS_LIBCRYPTO_1_1_1 1"
    using ref_dl_new by (simp add: resolves_def md_found_def ref_names)
  moreover have "candidates ref_dl 0 = [(AWS_LIBCRYPTO_LC, 0, False), (AWS_LIBCRYPTO_BORINGSSL, 0, False),
      (AWS_LIBCRYPTO_1_0_2, 0, False), (AWS_LIBCRYPTO_1_1_1, 0, False), (AWS_LIBCRYPTO_1_1_1, 1, True)]"
    by (simp add: candidates_def lib_candidates_def ref_dl_def)
  ultimately show ?thesis by (simp add: first_resolving_def)
qed

lemma libcrypto_resolution_witness:
  "\<exists>st'. s_resolve_libcrypto OPENSSL_IS_OPENSSL ref_dl ref_libcrypto_state = Inr (AWS_LIBCRYPTO_1_1_1, st') \<and>
     open_modules st' = [1] \<and> new_fn (hmac_table st') = Some (Lib ''HMAC_CTX_new'')"
  using libcrypto_resolution [OF ref_dl_symbols(3), of OPENSSL_IS_OPENSSL ref_libcrypto_state]
  using ref_dl_new(1) by (auto simp: ref_first ref_libcrypto_state_def tables_for_def Let_def ref_names)

lemma ref_platform_init:
  obtains st' where "aws_cal_platform_init OPENSSL_IS_OPENSSL ref_dl ref_crypto ref_common ref_libcrypto_state = Inr st'"
    "init_ex_fn (hmac_table st') = Some s_hmac_init_ex_openssl" "open_modules st' = [1]" "s_libcrypto_module st' = None"
proof -
  obtain v st1 where "s_resolve_libcrypto OPENSSL_IS_OPENSSL ref_dl ref_libcrypto_state = Inr (v, st1)"
      "settled OPENSSL_IS_OPENSSL ref_dl (candidates ref_dl 0) ref_libcrypto_state v st1"
    using resolve_tried [OF ref_dl_symbols(3)] by (rule tried_cases)
  then show thesis
    by (intro that [of "st1\<lparr>s_libcrypto_allocator := True\<rparr>"])
      (auto simp: settled_def ref_first tables_for_def aws_cal_platform_init_def install_locking_def install_id_def ref_crypto_def
        Let_def same_rest_def ref_libcrypto_state_def)
qed

lemma ref_dl_complete: "lib_complete ref_dl"
  by (auto simp: lib_complete_def ref_dl_def hmac_111_names_def hmac_102_names_def md_111_names_def md_102_names_def)

lemma platform_init_tables_witness:
  "\<exists>st'. aws_cal_platform_init OPENSSL_IS_OPENSSL ref_dl ref_crypto ref_common ref_libcrypto_state = Inr st' \<and>
     md_complete (evp_md_table st') \<and> hmac_complete (hmac_table st')"
proof -
  obtain st' where st': "aws_cal_platform_init OPENSSL_IS_OPENSSL ref_dl ref_crypto ref_common ref_libcrypto_state = Inr st'"
    by (rule ref_platform_init)
  with platform_init_tables [OF ref_dl_complete st'] show ?thesis by simp
qed

lemma ref_lib_ok: "hmac_lib_spec look ref_calls ref_msg_hmac ref_mac" "md_lib_spec look ref_calls ref_msg_md ref_digest"
  by (auto simp: hmac_lib_spec_def md_lib_spec_def ref_calls_def ref_msg_hmac_def ref_msg_md_def ref_mac_def ref_digest_def
      split: sum.splits)

lemma digests_after_init_witness:
  "\<exists>st' T D. aws_cal_platform_init OPENSSL_IS_OPENSSL ref_dl ref_crypto ref_common ref_libcrypto_state = Inr st' \<and>
     hmac_functions ref_calls ref_common (hmac_table st') = Some T \<and> md_functions ref_calls (evp_md_table st') = Some D \<and>
     hmac_run (openssl_hmac_vtable T) (aws_sha256_hmac_default_new ref_common T (cursor_of [9]))
       [cursor_of [1, 2], cursor_of [3]] (empty_out 40) 0 = (Inr (), replicate 32 4) \<and>
     hash_run (openssl_hash_vtable D) (default_new ref_common D EVP_sha1)
       [cursor_of [1, 2], cursor_of [3]] (empty_out 40) 0 = (Inr (), replicate 20 3)"
proof -
  obtain st' where st': "aws_cal_platform_init OPENSSL_IS_OPENSSL ref_dl ref_crypto ref_common ref_libcrypto_state = Inr st'"
    by (rule ref_platform_init)
  have prems: "OPENSSL_IS_OPENSSL = OPENSSL_IS_AWSLC \<longrightarrow> linked ref_dl ''HMAC_CTX_init'' \<noteq> None"
    "\<forall>look \<in> providers ref_dl. hmac_lib_spec look ref_calls ref_msg_hmac ref_mac \<and> md_lib_spec look ref_calls ref_msg_md ref_digest"
    "bytes_at (ptr (cursor_of [9])) (cur_len (cursor_of [9])) = Inr [9]"
    "list_all2 (\<lambda>c b. bytes_at (ptr c) (cur_len c) = Inr b) [cursor_of [1, 2], cursor_of [3]] [[1, 2], [3]]" "valid_buf (empty_out 40)"
    by (simp_all add: ref_lib_ok)
  have e: "outcome 32 (ref_mac [9] (concat [[1, 2], [3]])) (empty_out 40) 0 = (Inr (), replicate 32 4)"
    "outcome (md_len EVP_sha1) (ref_digest EVP_sha1 (concat [[1, 2], [3]])) (empty_out 40) 0 = (Inr (), replicate 20 3)"
    "length [9 :: byte] \<le> INT_MAX \<longleftrightarrow> True"
    by (simp_all add: outcome_def out_len_def ref_mac_def ref_digest_def)
  from digests_after_init [OF common_spec_ref ref_dl_complete st' prems, of 0 EVP_sha1, unfolded e] st' show ?thesis by blast
qed

end
