(* ===== verification/Library.thy ===== *)
theory Library
  imports Libcrypto_Spec
begin

text \<open>
  Initialisation and clean-up of the library, \<^verbatim>\<open>source/cal.c\<close>, over the functions of a platform. On Unix these are the
  functions of \<^verbatim>\<open>source/unix/openssl_platform_init.c\<close>; on Windows and Darwin (\<^verbatim>\<open>bcrypt_platform_init.c\<close>,
  \<^verbatim>\<open>commoncrypto_platform_init.c\<close>) and with \<open>BYO_CRYPTO\<close> they do nothing. Calls into aws-c-common are kept as a log. The
  property is about every sequence of the three public functions.
\<close>

section \<open>The functions\<close>

datatype common_call =
    Common_library_init
  | Register_error_info
  | Register_log_subjects
  | Unregister_log_subjects
  | Unregister_error_info
  | Common_library_clean_up

record 'p platform_fns =
  platform_init :: "'p \<Rightarrow> 'p result"
  platform_clean_up :: "'p \<Rightarrow> 'p result"
  platform_thread_clean_up :: "'p \<Rightarrow> 'p"

definition unix_platform :: "build \<Rightarrow> ('f, 'm) dl_env \<Rightarrow> 's crypto_api \<Rightarrow> aws_common \<Rightarrow> ('f, 'm, 's) libcrypto_state platform_fns" where
  "unix_platform b E K C = \<lparr>platform_init = aws_cal_platform_init b E K C, platform_clean_up = aws_cal_platform_clean_up b K,
     platform_thread_clean_up = aws_cal_platform_thread_clean_up b K\<rparr>"

definition bcrypt_platform :: "'p platform_fns" where
  "bcrypt_platform = \<lparr>platform_init = Inr, platform_clean_up = Inr, platform_thread_clean_up = id\<rparr>"

definition commoncrypto_platform :: "'p platform_fns" where
  "commoncrypto_platform = \<lparr>platform_init = Inr, platform_clean_up = Inr, platform_thread_clean_up = id\<rparr>"

record 'p cal_state =
  s_cal_library_initialized :: bool
  common_calls :: "common_call list"
  platform :: 'p

definition aws_cal_library_init :: "'p platform_fns \<Rightarrow> 'p cal_state \<Rightarrow> 'p cal_state result" where
  "aws_cal_library_init P st =
     (if s_cal_library_initialized st then Inr st
      else rbind (platform_init P (platform st)) (\<lambda>p.
        Inr (st\<lparr>common_calls := common_calls st @ [Common_library_init, Register_error_info, Register_log_subjects],
                platform := p, s_cal_library_initialized := True\<rparr>)))"

definition aws_cal_library_clean_up :: "'p platform_fns \<Rightarrow> 'p cal_state \<Rightarrow> 'p cal_state result" where
  "aws_cal_library_clean_up P st =
     (if \<not> s_cal_library_initialized st then Inr st
      else rbind (platform_clean_up P (platform st)) (\<lambda>p.
        Inr (st\<lparr>s_cal_library_initialized := False, platform := p,
                common_calls := common_calls st @ [Unregister_log_subjects, Unregister_error_info, Common_library_clean_up]\<rparr>)))"

definition aws_cal_thread_clean_up :: "'p platform_fns \<Rightarrow> 'p cal_state \<Rightarrow> 'p cal_state" where
  "aws_cal_thread_clean_up P st = st\<lparr>platform := platform_thread_clean_up P (platform st)\<rparr>"

section \<open>Sequences of calls\<close>

datatype cal_event = Init | Clean_up | Thread_clean_up

fun cal_do :: "'p platform_fns \<Rightarrow> cal_event \<Rightarrow> 'p cal_state \<Rightarrow> 'p cal_state result" where
  "cal_do P Init st = aws_cal_library_init P st"
| "cal_do P Clean_up st = aws_cal_library_clean_up P st"
| "cal_do P Thread_clean_up st = Inr (aws_cal_thread_clean_up P st)"

inductive cal_run :: "'p platform_fns \<Rightarrow> 'p cal_state \<Rightarrow> cal_event list \<Rightarrow> 'p cal_state \<Rightarrow> bool" for P st0 where
  start: "cal_run P st0 [] st0"
| step: "cal_run P st0 evs st \<Longrightarrow> cal_do P ev st = Inr st' \<Longrightarrow> cal_run P st0 (evs @ [ev]) st'"

section \<open>The life of the library on Unix\<close>

text \<open>The callbacks of libcrypto 1.0.2 are those that were set; those of 1.1.1 cannot be set.\<close>

definition crypto_spec :: "'s crypto_api \<Rightarrow> bool" where
  "crypto_spec K \<longleftrightarrow>
     (\<forall>cb s. CRYPTO_get_locking_callback K (CRYPTO_set_locking_callback K cb s) = cb \<and>
        CRYPTO_get_locking_callback K (CRYPTO_set_id_callback K cb s) = CRYPTO_get_locking_callback K s) \<or>
     (\<forall>s. CRYPTO_get_locking_callback K s = None)"

text \<open>The locking callback is only installed while the library is initialised, with the mutexes it uses.\<close>

definition locking_inv :: "build \<Rightarrow> 's crypto_api \<Rightarrow> bool \<Rightarrow> ('f, 'm, 's) libcrypto_state \<Rightarrow> bool" where
  "locking_inv b K on p \<longleftrightarrow> s_libcrypto_module p = None \<and> s_libcrypto_allocator p = on \<and>
     (b = OPENSSL_IS_OPENSSL \<longrightarrow> CRYPTO_get_locking_callback K (crypto p) = Some s_locking_fn \<longrightarrow>
        on \<and> s_libcrypto_locks p = Locks (replicate (CRYPTO_num_locks K) None))"

lemma install_locking_inv:
  assumes "crypto_spec K" and "install_locking C K p = Inr p'" and "CRYPTO_get_locking_callback K (crypto p) \<noteq> Some s_locking_fn"
  shows "CRYPTO_get_locking_callback K (crypto (install_id K p')) = Some s_locking_fn \<longrightarrow>
    s_libcrypto_locks (install_id K p') = Locks (replicate (CRYPTO_num_locks K) None)"
  using assms by (auto simp: crypto_spec_def install_locking_def install_id_def Let_def split: if_splits)

lemma platform_init_inv:
  assumes K: "crypto_spec K" and init: "aws_cal_platform_init b E K C p = Inr p'" and inv: "locking_inv b K False p"
  shows "locking_inv b K True p'"
proof (cases "b = OPENSSL_IS_OPENSSL")
  case False
  with inv platform_init_found [OF init] show ?thesis by (metis locking_inv_def)
next
  case True
  have off: "CRYPTO_get_locking_callback K (crypto p) \<noteq> Some s_locking_fn" using inv True by (auto simp: locking_inv_def)
  obtain q where q: "dlopen E None = Some q" "s_libcrypto_module p' = s_libcrypto_module p" "s_libcrypto_allocator p'"
    using init by (rule platform_init_found)
  obtain v p1 where r: "s_resolve_libcrypto b E p = Inr (v, p1)" "settled b E (candidates E q) p v p1"
    using resolve_tried [OF q(1)] by (rule tried_cases)
  then have same: "crypto p1 = crypto p" by (simp add: settled_def same_rest_def)
  obtain p2 where "install_locking C K (p1\<lparr>s_libcrypto_allocator := True\<rparr>) = Inr p2" "p' = install_id K p2"
    using init r(1) True
    by (cases "install_locking C K (p1\<lparr>s_libcrypto_allocator := True\<rparr>)")
      (auto simp: aws_cal_platform_init_def Let_def split: if_splits)
  with install_locking_inv [OF K, of C "p1\<lparr>s_libcrypto_allocator := True\<rparr>" p2] off same q inv True show ?thesis
    by (simp add: locking_inv_def)
qed

lemma remove_callbacks_inv:
  assumes "crypto_spec K" and "locking_inv OPENSSL_IS_OPENSSL K True p"
  obtains p' where "remove_callbacks K p = Inr p'" "CRYPTO_get_locking_callback K (crypto p') \<noteq> Some s_locking_fn"
    "s_libcrypto_module p' = None" "open_modules p' = open_modules p"
  using assms
  by (cases "CRYPTO_get_locking_callback K (crypto p) = Some s_locking_fn")
    (auto simp: remove_callbacks_def clean_up_locks_def locking_inv_def crypto_spec_def)

lemma platform_clean_up_inv:
  assumes "crypto_spec K" and "locking_inv b K True p"
  obtains p' where "aws_cal_platform_clean_up b K p = Inr p'" "locking_inv b K False p'" "open_modules p' = open_modules p"
proof (cases "b = OPENSSL_IS_OPENSSL")
  case True
  obtain p1 where "remove_callbacks K p = Inr p1" "CRYPTO_get_locking_callback K (crypto p1) \<noteq> Some s_locking_fn"
      "s_libcrypto_module p1 = None" "open_modules p1 = open_modules p"
    using remove_callbacks_inv [OF assms(1)] assms(2) True by metis
  with True show thesis
    by (intro that [of "p1\<lparr>s_libcrypto_allocator := False\<rparr>"]) (simp_all add: aws_cal_platform_clean_up_def locking_inv_def)
next
  case False
  then show thesis
    using assms(2) that by (auto simp: aws_cal_platform_clean_up_def locking_inv_def Let_def)
qed

lemma platform_init_fatal: "aws_cal_platform_init b E K C p = Inl f \<Longrightarrow> f = Fatal"
proof (cases "dlopen E None")
  case None
  then show "aws_cal_platform_init b E K C p = Inl f \<Longrightarrow> f = Fatal"
    by (simp add: aws_cal_platform_init_def s_resolve_libcrypto_def)
next
  case (Some q)
  assume f: "aws_cal_platform_init b E K C p = Inl f"
  obtain v p1 where "s_resolve_libcrypto b E p = Inr (v, p1)" using resolve_tried [OF Some] by (rule tried_cases)
  with f show "f = Fatal"
    by (cases "install_locking C K (p1\<lparr>s_libcrypto_allocator := True\<rparr>)")
      (auto simp: aws_cal_platform_init_def install_locking_def Let_def split: if_splits)
qed

text \<open>The module that the search leaves open, and the calls into aws-c-common of \<open>n\<close> complete uses of the library.\<close>

definition kept_module :: "build \<Rightarrow> ('f, 'm) dl_env \<Rightarrow> 'm list" where
  "kept_module b E = (case dlopen E None of None \<Rightarrow> [] | Some p \<Rightarrow>
     (case first_resolving b E (candidates E p) of Some (_, m, True) \<Rightarrow> [m] | _ \<Rightarrow> []))"

definition init_calls :: "common_call list" where
  "init_calls = [Common_library_init, Register_error_info, Register_log_subjects]"

definition clean_up_calls :: "common_call list" where
  "clean_up_calls = [Unregister_log_subjects, Unregister_error_info, Common_library_clean_up]"

definition uses :: "nat \<Rightarrow> bool \<Rightarrow> common_call list" where
  "uses n on = concat (replicate n (init_calls @ clean_up_calls)) @ (if on then init_calls else [])"

lemma platform_init_keeps:
  assumes "aws_cal_platform_init b E K C p = Inr p'"
  shows "open_modules p' = kept_module b E @ open_modules p"
proof -
  obtain q v m keep where "dlopen E None = Some q" "first_resolving b E (candidates E q) = Some (v, m, keep)"
      "open_modules p' = (if keep then [m] else []) @ open_modules p"
    using assms by (rule platform_init_found)
  then show ?thesis by (simp add: kept_module_def split: bool.split)
qed

definition cal_inv :: "build \<Rightarrow> ('f, 'm) dl_env \<Rightarrow> 's crypto_api \<Rightarrow> ('f, 'm, 's) libcrypto_state cal_state \<Rightarrow> bool" where
  "cal_inv b E K st \<longleftrightarrow> locking_inv b K (s_cal_library_initialized st) (platform st) \<and>
     (\<exists>n. common_calls st = uses n (s_cal_library_initialized st) \<and>
        open_modules (platform st) = concat (replicate (n + (if s_cal_library_initialized st then 1 else 0)) (kept_module b E)))"

lemma uses_Suc: "uses n True @ clean_up_calls = uses (Suc n) False"
  by (simp add: uses_def flip: replicate_append_same)

lemma cal_inv_init:
  assumes K: "crypto_spec K" and inv: "cal_inv b E K st" and run: "aws_cal_library_init (unix_platform b E K C) st = Inr st'"
  shows "cal_inv b E K st'"
proof (cases "s_cal_library_initialized st")
  case True
  with inv run show ?thesis by (simp add: aws_cal_library_init_def)
next
  case False
  then obtain n where n: "common_calls st = uses n False" "open_modules (platform st) = concat (replicate n (kept_module b E))"
    and l: "locking_inv b K False (platform st)"
    using inv by (auto simp: cal_inv_def)
  obtain p where p: "aws_cal_platform_init b E K C (platform st) = Inr p"
      "st' = st\<lparr>common_calls := common_calls st @ init_calls, platform := p, s_cal_library_initialized := True\<rparr>"
    using run False by (auto simp: aws_cal_library_init_def unix_platform_def init_calls_def rbind_eq_Inr)
  have "locking_inv b K True p" "open_modules p = kept_module b E @ concat (replicate n (kept_module b E))"
    using n(2) l platform_init_inv [OF K p(1)] platform_init_keeps [OF p(1)] by simp_all
  moreover have "common_calls st @ init_calls = uses n True" using n(1) by (simp add: uses_def)
  ultimately show ?thesis unfolding cal_inv_def p(2) by (intro conjI exI [of _ n]) simp_all
qed

lemma cal_inv_clean_up:
  assumes K: "crypto_spec K" and inv: "cal_inv b E K st" and on: "s_cal_library_initialized st"
  obtains st' where "aws_cal_library_clean_up (unix_platform b E K C) st = Inr st'" "cal_inv b E K st'"
proof -
  obtain n where n: "common_calls st = uses n True" "open_modules (platform st) = concat (replicate (Suc n) (kept_module b E))"
    and l: "locking_inv b K True (platform st)"
    using inv on by (auto simp: cal_inv_def)
  obtain p where p: "aws_cal_platform_clean_up b K (platform st) = Inr p" "locking_inv b K False p"
      "open_modules p = open_modules (platform st)"
    using platform_clean_up_inv [OF K l] by metis
  let ?st = "st\<lparr>s_cal_library_initialized := False, platform := p, common_calls := common_calls st @ clean_up_calls\<rparr>"
  have "common_calls st @ clean_up_calls = uses (Suc n) False" using n(1) uses_Suc [of n] by simp
  then have "cal_inv b E K ?st" unfolding cal_inv_def using p(2,3) n(2) by (intro conjI exI [of _ "Suc n"]) simp_all
  with p(1) on that [of ?st] show thesis by (simp add: aws_cal_library_clean_up_def unix_platform_def clean_up_calls_def)
qed

lemma cal_do_inv:
  assumes K: "crypto_spec K" and inv: "cal_inv b E K st" and run: "cal_do (unix_platform b E K C) ev st = Inr st'"
  shows "cal_inv b E K st'"
proof (cases ev)
  case Init
  with run cal_inv_init [OF K inv] show ?thesis by simp
next
  case Clean_up
  show ?thesis
  proof (cases "s_cal_library_initialized st")
    case True
    then obtain st1 where "aws_cal_library_clean_up (unix_platform b E K C) st = Inr st1" "cal_inv b E K st1"
      using cal_inv_clean_up [OF K inv] by metis
    with run Clean_up show ?thesis by simp
  qed (use run Clean_up inv in \<open>simp add: aws_cal_library_clean_up_def\<close>)
next
  case Thread_clean_up
  with run inv show ?thesis
    by (cases "b = OPENSSL_IS_AWSLC")
      (auto simp: aws_cal_thread_clean_up_def unix_platform_def aws_cal_platform_thread_clean_up_def cal_inv_def locking_inv_def)
qed

text \<open>
  Claim C10. Every sequence of calls of \<open>aws_cal_library_init\<close>, \<open>aws_cal_library_clean_up\<close> and \<open>aws_cal_thread_clean_up\<close> on Unix: aws-c-common is
  initialised and the error codes and log subjects are registered exactly while the library is, in matched pairs however often the
  functions are called; the locking callback is never installed without its mutexes; and the only way a call fails is a
  failed assertion in the initialisation. A library that was loaded is never closed: each initialisation of an uninitialised library leaves the module of the chosen libcrypto open once
  more. It leaves none when the functions are found in the process itself, as with a linked libcrypto, and a repeated initialisation opens none.
\<close>

theorem library_lifecycle:
  assumes "crypto_spec K"
    and "\<not> s_cal_library_initialized st0" "common_calls st0 = []" "open_modules (platform st0) = []" "locking_inv b K False (platform st0)"
    and "cal_run (unix_platform b E K C) st0 evs st"
  shows "locking_inv b K (s_cal_library_initialized st) (platform st) \<and>
    (\<exists>n. common_calls st = uses n (s_cal_library_initialized st) \<and>
       open_modules (platform st) = concat (replicate (n + (if s_cal_library_initialized st then 1 else 0)) (kept_module b E))) \<and>
    (\<forall>ev f. cal_do (unix_platform b E K C) ev st = Inl f \<longrightarrow> ev = Init \<and> f = Fatal)"
proof -
  have inv: "cal_inv b E K st"
    using assms(6)
  proof induction
    case start
    with assms(2-5) show ?case by (auto simp: cal_inv_def uses_def intro!: exI [of _ 0])
  next
    case (step evs st ev st')
    then show ?case using cal_do_inv [OF assms(1)] by blast
  qed
  have "ev = Init \<and> f = Fatal" if f: "cal_do (unix_platform b E K C) ev st = Inl f" for ev f
  proof (cases ev)
    case Init
    with f show ?thesis
      by (auto simp: aws_cal_library_init_def unix_platform_def rbind_def dest: platform_init_fatal split: if_splits sum.splits)
  next
    case Clean_up
    show ?thesis
    proof (cases "s_cal_library_initialized st")
      case True
      then obtain st' where "aws_cal_library_clean_up (unix_platform b E K C) st = Inr st'"
        using cal_inv_clean_up [OF assms(1) inv] by metis
      with f Clean_up show ?thesis by simp
    qed (use f Clean_up in \<open>simp add: aws_cal_library_clean_up_def\<close>)
  qed (use f in simp)
  with inv show ?thesis by (auto simp: cal_inv_def)
qed

text \<open>A use of the library that is initialised twice, and its second use.\<close>

definition ref_cal_state :: "(string, nat, unit) libcrypto_state cal_state" where
  "ref_cal_state = \<lparr>s_cal_library_initialized = False, common_calls = [], platform = ref_libcrypto_state\<rparr>"

lemma library_lifecycle_witness:
  "\<exists>st. cal_run (unix_platform OPENSSL_IS_OPENSSL ref_dl ref_crypto ref_common) ref_cal_state [Init, Init] st \<and>
     common_calls st = init_calls \<and> open_modules (platform st) = [1]"
proof -
  let ?P = "unix_platform OPENSSL_IS_OPENSSL ref_dl ref_crypto ref_common"
  obtain p where "aws_cal_platform_init OPENSSL_IS_OPENSSL ref_dl ref_crypto ref_common ref_libcrypto_state = Inr p"
    by (rule ref_platform_init)
  then obtain st where on: "cal_do ?P Init ref_cal_state = Inr st" "s_cal_library_initialized st" "cal_do ?P Init st = Inr st"
    by (simp add: unix_platform_def aws_cal_library_init_def ref_cal_state_def)
  have "cal_run ?P ref_cal_state (([] @ [Init]) @ [Init]) st" by (rule cal_run.step [OF cal_run.step [OF cal_run.start on(1)] on(3)])
  then have run: "cal_run ?P ref_cal_state [Init, Init] st" by simp
  have prems: "crypto_spec ref_crypto" "\<not> s_cal_library_initialized ref_cal_state" "common_calls ref_cal_state = []"
    "open_modules (platform ref_cal_state) = []" "locking_inv OPENSSL_IS_OPENSSL ref_crypto False (platform ref_cal_state)"
    by (simp_all add: crypto_spec_def ref_crypto_def ref_cal_state_def ref_libcrypto_state_def locking_inv_def)
  have calls: "common_calls st = init_calls"
    using on(1) by (auto simp: unix_platform_def aws_cal_library_init_def ref_cal_state_def init_calls_def rbind_eq_Inr)
  have len: "length (uses n True) = 6 * n + 3" for n
    by (induction n) (simp_all add: uses_def init_calls_def clean_up_calls_def)
  obtain n where n: "common_calls st = uses n True"
      "open_modules (platform st) = concat (replicate (n + 1) (kept_module OPENSSL_IS_OPENSSL ref_dl))"
    using library_lifecycle [OF prems run] on(2) by auto
  have "length (common_calls st) = 3" using calls by (simp add: init_calls_def)
  then have "n = 0" using n(1) len [of n] by simp
  with n(2) calls run show ?thesis by (auto simp: kept_module_def ref_dl_symbols(3) ref_first)
qed

section \<open>The registered errors\<close>

definition s_errors :: "(aws_error \<times> string) list" where
  "s_errors =
     [(AWS_ERROR_CAL_SIGNATURE_VALIDATION_FAILED, ''Verify on a cryptographic signature failed.''),
      (AWS_ERROR_CAL_MISSING_REQUIRED_KEY_COMPONENT,
       ''An attempt was made to perform an '' @ ''Asymmetric cryptographic operation with the'' @
       ''wrong key component. For example, attempt to'' @ ''verify a signature with a private key or '' @
       ''sign a message with a public key.''),
      (AWS_ERROR_CAL_INVALID_KEY_LENGTH_FOR_ALGORITHM,
       ''A key length was used for an algorithm that needs a different key length''),
      (AWS_ERROR_CAL_UNKNOWN_OBJECT_IDENTIFIER,
       ''An ASN.1 OID was encountered that wasn'' @ [CHR 0x27] @ ''t expected or understood. Most likely, an unsupported algorithm was '' @
       ''encountered.''),
      (AWS_ERROR_CAL_MALFORMED_ASN1_ENCOUNTERED, ''An ASN.1 DER decoding operation failed on malformed input.''),
      (AWS_ERROR_CAL_MISMATCHED_DER_TYPE, ''An invalid DER type was requested during encoding/decoding''),
      (AWS_ERROR_CAL_UNSUPPORTED_ALGORITHM, ''The specified algorithim is unsupported on this platform.''),
      (AWS_ERROR_CAL_BUFFER_TOO_LARGE_FOR_ALGORITHM,
       ''The input passed to a cipher algorithm was too large for that algorithm. Consider breaking the input into '' @
       ''smaller chunks.''),
      (AWS_ERROR_CAL_INVALID_CIPHER_MATERIAL_SIZE_FOR_ALGORITHM,
       ''A cipher material such as an initialization vector or tag was an incorrect size for the selected algorithm.'')]"

text \<open>The numbers of the enumeration; the package begins at 0x1C00.\<close>

fun cal_error_code :: "aws_error \<Rightarrow> nat option" where
  "cal_error_code AWS_ERROR_CAL_SIGNATURE_VALIDATION_FAILED = Some 0x1C00"
| "cal_error_code AWS_ERROR_CAL_MISSING_REQUIRED_KEY_COMPONENT = Some 0x1C01"
| "cal_error_code AWS_ERROR_CAL_INVALID_KEY_LENGTH_FOR_ALGORITHM = Some 0x1C02"
| "cal_error_code AWS_ERROR_CAL_UNKNOWN_OBJECT_IDENTIFIER = Some 0x1C03"
| "cal_error_code AWS_ERROR_CAL_MALFORMED_ASN1_ENCOUNTERED = Some 0x1C04"
| "cal_error_code AWS_ERROR_CAL_MISMATCHED_DER_TYPE = Some 0x1C05"
| "cal_error_code AWS_ERROR_CAL_UNSUPPORTED_ALGORITHM = Some 0x1C06"
| "cal_error_code AWS_ERROR_CAL_BUFFER_TOO_LARGE_FOR_ALGORITHM = Some 0x1C07"
| "cal_error_code AWS_ERROR_CAL_INVALID_CIPHER_MATERIAL_SIZE_FOR_ALGORITHM = Some 0x1C08"
| "cal_error_code _ = None"

text \<open>Looking a code up by its offset finds its own text.\<close>

lemma error_info_by_code:
  assumes "cal_error_code e = Some n"
  shows "n - 0x1C00 < length s_errors \<and> fst (s_errors ! (n - 0x1C00)) = e"
  using assms by (cases e) (auto simp: s_errors_def)

end
