(* ===== verification/Destroy.thy ===== *)
theory Destroy
  imports Der_Decoder Hmac Openssl_Aes Bcrypt_Aes Commoncrypto_Aes Platform_Digest
begin

text \<open>
  The destructors of decoders, hashes, HMACs and ciphers. Each appends the actions on what the object owns to
  the world, a list of \<open>clean_up\<close> actions. None stands for a null object. The lemmas state that a cipher is
  released once, at the end, and that every buffer that held key material is wiped before it is freed.
\<close>

section \<open>Decoders, hashes and HMACs\<close>

definition aws_der_decoder_destroy :: "aws_der_decoder option \<Rightarrow> 'h clean_up list \<Rightarrow> 'h clean_up list" where
  "aws_der_decoder_destroy decoder w = (case decoder of None \<Rightarrow> w | Some _ \<Rightarrow> w @ [Clean_up_list, Mem_release])"

definition ossl_destroy_hash :: "'c aws_hash option \<Rightarrow> 'c clean_up list \<Rightarrow> 'c clean_up list" where
  "ossl_destroy_hash hash w = (case hash of None \<Rightarrow> w | Some h \<Rightarrow> w @ free_handle (hash_impl h) @ [Mem_release])"

definition ossl_destroy_hmac :: "'c aws_hmac option \<Rightarrow> 'c clean_up list \<Rightarrow> 'c clean_up list" where
  "ossl_destroy_hmac hmac w = (case hmac of None \<Rightarrow> w | Some h \<Rightarrow> w @ free_handle (hmac_impl h) @ [Mem_release])"

text \<open>The public functions call the vtable; the hash functions do not test for NULL.\<close>

definition aws_hash_destroy :: "('c aws_hash \<Rightarrow> 'w \<Rightarrow> 'w) \<Rightarrow> 'c aws_hash option \<Rightarrow> 'w \<Rightarrow> 'w result" where
  "aws_hash_destroy vt_destroy hash w = (case hash of None \<Rightarrow> Inl (Undefined Null_deref) | Some h \<Rightarrow> Inr (vt_destroy h w))"

definition aws_hmac_destroy :: "('c aws_hmac \<Rightarrow> 'w \<Rightarrow> 'w) \<Rightarrow> 'c aws_hmac option \<Rightarrow> 'w \<Rightarrow> 'w result" where
  "aws_hmac_destroy vt_destroy hmac w = (case hmac of None \<Rightarrow> Inl (Undefined Null_deref) | Some h \<Rightarrow> Inr (vt_destroy h w))"

section \<open>Ciphers\<close>

definition aws_symmetric_cipher_destroy :: "('i aws_symmetric_cipher \<Rightarrow> 'w \<Rightarrow> 'w) \<Rightarrow> 'i aws_symmetric_cipher option \<Rightarrow> 'w \<Rightarrow> 'w" where
  "aws_symmetric_cipher_destroy vt_destroy cipher w = (case cipher of None \<Rightarrow> w | Some c \<Rightarrow> vt_destroy c w)"

definition clean_up_if :: "bool \<Rightarrow> aws_byte_buf \<Rightarrow> 'h clean_up list" where
  "clean_up_if p b = (if p then [Clean_up_secure b] else [])"

text \<open>Unix. The contexts of a cipher are never null here: the constructors assert that they were created.\<close>

definition ossl_aes_destroy :: "'x aes_cipher \<Rightarrow> 'x clean_up list \<Rightarrow> 'x clean_up list" where
  "ossl_aes_destroy c w =
     w @ [Free_handle (encryptor_ctx (cipher_impl c)), Free_handle (decryptor_ctx (cipher_impl c)),
          Clean_up_secure (key c), Clean_up_secure (iv c)] @
     clean_up_if (buffer (ctag c) \<noteq> None) (ctag c) @ clean_up_if (buffer (aad c) \<noteq> None) (aad c) @
     [Clean_up_secure (working_buffer (cipher_impl c)), Mem_release]"

text \<open>Windows. A working vector without an allocator shares the memory of the vector.\<close>

definition s_aes_default_destroy :: "('a, 'k) bcrypt_cipher \<Rightarrow> 'k clean_up list \<Rightarrow> 'k clean_up list" where
  "s_aes_default_destroy c w =
     (let i = cipher_impl c in
      w @ [Clean_up_secure (key c), Clean_up_secure (iv c), Clean_up_secure (ctag c), Clean_up_secure (aad c)] @
      clean_up_if (allocator (working_iv i)) (working_iv i) @
      [Clean_up_secure (overflow i), Clean_up_secure (working_mac_buffer i)] @
      free_handle (key_handle i) @ (if auth_info_ptr i = None then [] else [Release_auth_info]) @ [Mem_release])"

text \<open>Darwin. The handles are released by the reset that runs in between, which also empties the working buffer.\<close>

definition cc_destroy :: "aws_common \<Rightarrow> 'x cc_cipher \<Rightarrow> 'x clean_up list \<Rightarrow> 'x clean_up list" where
  "cc_destroy C c w =
     w @ [Clean_up_secure (key c), Clean_up_secure (iv c), Clean_up_secure (ctag c), Clean_up_secure (aad c)] @
     free_handle (encryptor_handle (cipher_impl c)) @ free_handle (decryptor_handle (cipher_impl c)) @
     [Clean_up_secure (cc_working_buffer (cipher_impl (s_reset C c))), Mem_release]"

section \<open>What the destructors of ciphers do\<close>

text \<open>A log that releases the object once, at the end, after wiping the given buffers.\<close>

definition releases_after_wiping :: "aws_byte_buf set \<Rightarrow> 'h clean_up list \<Rightarrow> bool" where
  "releases_after_wiping bufs w \<longleftrightarrow>
     w \<noteq> [] \<and> last w = Mem_release \<and> Mem_release \<notin> set (butlast w) \<and> (\<forall>b \<in> bufs. Clean_up_secure b \<in> set (butlast w))"

definition owned_buffers :: "'i aws_symmetric_cipher \<Rightarrow> aws_byte_buf set" where
  "owned_buffers c = {b \<in> {key c, iv c, ctag c, aad c}. buffer b \<noteq> None}"

lemma no_release_parts [simp]:
  "Mem_release \<notin> set (clean_up_if p b)" "Mem_release \<notin> set (free_handle h)"
  by (auto simp: clean_up_if_def free_handle_def split: option.split)

lemma clean_up_if_wipes [simp]: "Clean_up_secure b \<in> set (clean_up_if p b') \<longleftrightarrow> p \<and> b = b'"
  by (auto simp: clean_up_if_def)

lemma ossl_destroy_wipes:
  "releases_after_wiping (owned_buffers c \<union> {working_buffer (cipher_impl c)}) (ossl_aes_destroy c [])"
  by (auto simp: ossl_aes_destroy_def owned_buffers_def butlast_append releases_after_wiping_def)

lemma bcrypt_destroy_wipes:
  "releases_after_wiping (owned_buffers c \<union> {overflow (cipher_impl c), working_mac_buffer (cipher_impl c)} \<union>
     {b \<in> {working_iv (cipher_impl c)}. allocator b}) (s_aes_default_destroy c [])"
  by (auto simp: s_aes_default_destroy_def owned_buffers_def Let_def butlast_append releases_after_wiping_def)

lemma cc_destroy_wipes:
  assumes "common_spec C" and "valid_buf (cc_working_buffer (cipher_impl c))"
  shows "releases_after_wiping (owned_buffers c) (cc_destroy C c []) \<and>
    (\<exists>b. Clean_up_secure b \<in> set (cc_destroy C c []) \<and>
       buffer b = map_option (map (\<lambda>_. 0)) (buffer (cc_working_buffer (cipher_impl c))))"
  using secure_zero_memory [OF assms]
  by (auto simp: cc_destroy_def s_reset_def set_work_def set_decryptor_def set_encryptor_def owned_buffers_def
      butlast_append releases_after_wiping_def)

end
