(* ===== verification/Dispatch.thy ===== *)
theory Dispatch
  imports Ecc Hmac Symmetric_Cipher
begin

text \<open>
  The replaceable constructors of \<^verbatim>\<open>source/ecc.c\<close>, \<^verbatim>\<open>source/hash.c\<close>, \<^verbatim>\<open>source/hmac.c\<close> and \<^verbatim>\<open>source/symmetric_cipher.c\<close>: static
  variables that hold the function of the platform, or, when the library was compiled with \<open>BYO_CRYPTO\<close>, one that aborts until the
  user sets another.
\<close>

section \<open>Key pairs\<close>

record 'k ecc_new_fns =
  s_ecc_key_pair_new_from_public_key_fn :: "aws_ecc_curve_name \<Rightarrow> aws_byte_cursor \<Rightarrow> aws_byte_cursor \<Rightarrow> 'k result"
  s_ecc_key_pair_new_from_private_key_fn :: "aws_ecc_curve_name \<Rightarrow> aws_byte_cursor \<Rightarrow> 'k result"

definition aws_ecc_key_pair_new_from_public_key :: "'k ecc_new_fns \<Rightarrow> aws_ecc_curve_name \<Rightarrow> aws_byte_cursor \<Rightarrow> aws_byte_cursor \<Rightarrow>
    'k result" where
  "aws_ecc_key_pair_new_from_public_key fns curve x y = s_ecc_key_pair_new_from_public_key_fn fns curve x y"

definition aws_ecc_key_pair_new_from_private_key :: "'k ecc_new_fns \<Rightarrow> aws_ecc_curve_name \<Rightarrow> aws_byte_cursor \<Rightarrow> 'k result" where
  "aws_ecc_key_pair_new_from_private_key fns curve d = s_ecc_key_pair_new_from_private_key_fn fns curve d"

definition byo_new_from_public_key_impl :: "aws_ecc_curve_name \<Rightarrow> aws_byte_cursor \<Rightarrow> aws_byte_cursor \<Rightarrow> 'k result" where
  "byo_new_from_public_key_impl curve x y = Inl Fatal"

definition byo_new_from_private_key_impl :: "aws_ecc_curve_name \<Rightarrow> aws_byte_cursor \<Rightarrow> 'k result" where
  "byo_new_from_private_key_impl curve d = Inl Fatal"

section \<open>Hashes and HMACs\<close>

definition aws_hash_new_abort :: "'c aws_hash result" where
  "aws_hash_new_abort = Inl Fatal"

definition aws_hmac_new_abort :: "'c hmac_new_fn" where
  "aws_hmac_new_abort secret = Inl Fatal"

definition aws_set_sha256_hmac_new_fn :: "'c hmac_new_fn \<Rightarrow> 'c hmac_new_fn \<Rightarrow> 'c hmac_new_fn" where
  "aws_set_sha256_hmac_new_fn fn s_sha256_hmac_new_fn = fn"

section \<open>Ciphers\<close>

definition byo_aes_cbc_256_new_impl :: "aws_byte_cursor option \<Rightarrow> aws_byte_cursor option \<Rightarrow> 'c result" where
  "byo_aes_cbc_256_new_impl k v = Inl Fatal"

definition byo_aes_ctr_256_new_impl :: "aws_byte_cursor option \<Rightarrow> aws_byte_cursor option \<Rightarrow> 'c result" where
  "byo_aes_ctr_256_new_impl k v = Inl Fatal"

definition byo_aes_gcm_256_new_impl :: "aws_byte_cursor option \<Rightarrow> aws_byte_cursor option \<Rightarrow> aws_byte_cursor option \<Rightarrow>
    aws_byte_cursor option \<Rightarrow> 'c result" where
  "byo_aes_gcm_256_new_impl k v a t = Inl Fatal"

definition byo_aes_keywrap_256_new_impl :: "aws_byte_cursor option \<Rightarrow> 'c result" where
  "byo_aes_keywrap_256_new_impl k = Inl Fatal"

end
