(* ===== verification/Tools.thy ===== *)
theory Tools
  imports Ecc_Platform Dispatch Library
begin

text \<open>
  What the programs under \<^verbatim>\<open>bin\<close> share: a program ends with an exit status or in undefined behaviour, it prints messages and
  reads and writes text files, and it calls functions of aws-c-common that the library itself does not use. These functions are
  records of functions, as in Aws_Common.

  A text stream of C translates line ends: on Windows a newline is written as a carriage return and a newline, and read back as
  a newline. Elsewhere bytes are read and written as they are.
\<close>

section \<open>The end of a program\<close>

datatype 's stop = Exit int 's | Crash failure

type_synonym ('s, 'a) prog = "'s stop + 'a"

definition pbind :: "('s, 'a) prog \<Rightarrow> ('a \<Rightarrow> ('s, 'b) prog) \<Rightarrow> ('s, 'b) prog" where
  "pbind r f = (case r of Inl e \<Rightarrow> Inl e | Inr x \<Rightarrow> f x)"

text \<open>A step of the program whose errors are handled within it: what remains is a crash.\<close>

definition step :: "'a result \<Rightarrow> ('s, 'a) prog" where
  "step r = (case r of Inl f \<Rightarrow> Inl (Crash f) | Inr x \<Rightarrow> Inr x)"

lemma pbind_simps [simp, cal_simps]:
  "pbind (Inl e) f = Inl e"
  "pbind (Inr x) f = f x"
  by (simp_all add: pbind_def)

lemma step_simps [simp, cal_simps]:
  "step (Inl f) = Inl (Crash f)"
  "step (Inr x) = Inr x"
  by (simp_all add: step_def)

text \<open>Calls whose result is only tested for success, and constructors whose null pointer is not tested.\<close>

definition succeeded :: "'a result \<Rightarrow> bool result" where
  "succeeded r = (case r of Inr _ \<Rightarrow> Inr True | Inl (Raised _) \<Rightarrow> Inr False | Inl f \<Rightarrow> Inl f)"

definition or_null :: "'a result \<Rightarrow> 'a option result" where
  "or_null r = (case r of Inr x \<Rightarrow> Inr (Some x) | Inl (Raised _) \<Rightarrow> Inr None | Inl f \<Rightarrow> Inl f)"

definition not_null :: "'a option \<Rightarrow> 'a result" where
  "not_null p = (case p of None \<Rightarrow> Inl (Undefined Null_deref) | Some x \<Rightarrow> Inr x)"

definition append_dynamic_unchecked :: "aws_common \<Rightarrow> aws_byte_buf \<Rightarrow> bytes \<Rightarrow> aws_byte_buf result" where
  "append_dynamic_unchecked C b bs = (case aws_byte_buf_append_dynamic C b bs of Inl (Raised _) \<Rightarrow> Inr b | r \<Rightarrow> r)"

lemma checked_simps [simp, cal_simps]:
  "succeeded (Inr x) = Inr True"
  "succeeded (Inl (Raised e)) = Inr False"
  "or_null (Inr x) = Inr (Some x)"
  "or_null (Inl (Raised e)) = Inr None"
  "not_null (Some x) = Inr x"
  "not_null None = Inl (Undefined Null_deref)"
  by (simp_all add: succeeded_def or_null_def not_null_def)

section \<open>Strings and text streams\<close>

datatype host = Host_windows | Host_apple | Host_unix

abbreviation newline :: byte where "newline \<equiv> 10"
abbreviation carriage_return :: byte where "carriage_return \<equiv> 13"

definition strlen :: "bytes \<Rightarrow> nat" where
  "strlen s = length (takeWhile (\<lambda>b. b \<noteq> 0) s)"

text \<open>What \<open>%.*s\<close> prints: bytes up to a null byte, at most as many as the precision. \<open>PRInSTR\<close> and \<open>AWS_BYTE_CURSOR_PRI\<close> print a cursor this
  way, with its length cast to \<open>int\<close> and a negative one replaced by zero.\<close>

definition print_string :: "pointer option \<Rightarrow> nat \<Rightarrow> bytes result" where
  "print_string p n =
     (if n = 0 then Inr []
      else case p of
        None \<Rightarrow> Inl (Undefined Null_deref)
      | Some q \<Rightarrow>
          let s = takeWhile (\<lambda>b. b \<noteq> 0) (take n (drop (poff q) (pobj q)))
          in if length s < n \<and> length (pobj q) \<le> poff q + length s then Inl (Undefined Out_of_bounds) else Inr s)"

definition print_cursor :: "aws_byte_cursor \<Rightarrow> bytes result" where
  "print_cursor cur = print_string (ptr cur) (nat (int_of_size (cur_len cur)))"

text \<open>Writing to and reading from a text stream; on Windows the byte 26 ends a text.\<close>

definition text_out :: "host \<Rightarrow> bytes \<Rightarrow> bytes" where
  "text_out h s = (if h = Host_windows
     then concat (map (\<lambda>b. if b = newline then [carriage_return, newline] else [b]) s) else s)"

fun join_line_ends :: "bytes \<Rightarrow> bytes" where
  "join_line_ends (a # b # s) =
     (if a = carriage_return \<and> b = newline then newline # join_line_ends s else a # join_line_ends (b # s))"
| "join_line_ends s = s"

definition text_in :: "host \<Rightarrow> bytes \<Rightarrow> bytes" where
  "text_in h s = (if h = Host_windows then join_line_ends (takeWhile (\<lambda>b. b \<noteq> 26) s) else s)"

text \<open>\<open>fgets(buf, n, file)\<close>: the bytes it stores before the null byte, and the rest of the stream.\<close>

definition fgets :: "nat \<Rightarrow> bytes \<Rightarrow> (bytes \<times> bytes) option" where
  "fgets n s = (if s = [] then None
     else let k = min (n - 1) (Suc (length (takeWhile (\<lambda>b. b \<noteq> newline) s))) in Some (take k s, drop k s))"

lemma fgets_shorter: "fgets n s = Some (l, r) \<Longrightarrow> 1 < n \<Longrightarrow> length r < length s"
  by (auto simp: fgets_def Let_def split: if_splits)

lemma fgets_line:
  assumes "newline \<notin> set l" and "Suc (length l) < n"
  shows "fgets n (l @ newline # s) = Some (l @ [newline], s)"
proof -
  have "takeWhile (\<lambda>b. b \<noteq> newline) (l @ newline # s) = l"
    using assms(1) by (subst takeWhile_append2) auto
  with assms(2) show ?thesis by (simp add: fgets_def Let_def)
qed

section \<open>Functions of aws-c-common\<close>

text \<open>Hexadecimal digits and the search in a cursor extend the record of the theory Ecc.\<close>

record text_ops = hex_ops +
  aws_hex_encode :: "aws_byte_cursor \<Rightarrow> aws_byte_buf \<Rightarrow> unit result \<times> aws_byte_buf"
  aws_byte_cursor_find_exact :: "aws_byte_cursor \<Rightarrow> aws_byte_cursor \<Rightarrow> aws_byte_cursor result"

text \<open>
  Directories are read through iterators. \<open>file_type\<close> stands for the bit \<open>AWS_FILE_TYPE_DIRECTORY\<close> of the field of that name.
  \<open>aws_directory_entry_iterator_next\<close> is \<open>None\<close> when it returns an error.
\<close>

record aws_directory_entry =
  entry_path :: bytes
  relative_path :: bytes
  file_type :: bool

record 'i file_ops =
  AWS_PATH_DELIM :: byte
  aws_fopen_safe :: "bytes \<Rightarrow> string \<Rightarrow> bool"
  aws_directory_entry_iterator_new :: "bytes \<Rightarrow> 'i option"
  aws_directory_entry_iterator_get_value :: "'i \<Rightarrow> aws_directory_entry option"
  aws_directory_entry_iterator_next :: "'i \<Rightarrow> 'i option"

section \<open>The state of a program\<close>

text \<open>Each message stands for one \<open>fprintf\<close> with its arguments.\<close>

datatype message =
    Usage
  | Unknown_option
  | Error_opening bytes
  | Could_not_be_verified bytes
  | Unable_to_load bytes
  | Running_corpus bytes
  | Unable_to_open bytes
  | Invalid_line bytes
  | Failed_to_validate bytes bytes
  | Verification_complete int int int

record ('p, 'w) tool_state =
  tool_lib :: "'p cal_state"
  tool_released :: 'w
  tool_stdout :: "message list"
  tool_stderr :: "message list"
  tool_files :: "bytes \<Rightarrow> bytes option"
  tool_directories :: "bytes list"

definition print_err :: "message \<Rightarrow> ('p, 'w) tool_state \<Rightarrow> ('p, 'w) tool_state" where
  "print_err msg st = st\<lparr>tool_stderr := tool_stderr st @ [msg]\<rparr>"

definition print_out :: "message \<Rightarrow> ('p, 'w) tool_state \<Rightarrow> ('p, 'w) tool_state" where
  "print_out msg st = st\<lparr>tool_stdout := tool_stdout st @ [msg]\<rparr>"

text \<open>
  The options: what \<open>aws_cli_getopt_long\<close> returns call by call, up to the \<open>-1\<close> at the end, each time with the argument of the
  option. 111 and 104 are the characters \<open>o\<close> and \<open>h\<close>.
\<close>

definition s_usage :: "int \<Rightarrow> ('p, 'w) tool_state \<Rightarrow> (('p, 'w) tool_state, 'a) prog" where
  "s_usage code st = Inl (Exit code (print_err Usage st))"

primrec s_parse_options :: "(int \<times> bytes) list \<Rightarrow> bytes option \<Rightarrow> ('p, 'w) tool_state \<Rightarrow>
    (('p, 'w) tool_state, bytes option) prog" where
  "s_parse_options [] root_path st = Inr root_path"
| "s_parse_options (opt # opts) root_path st = (case opt of (c, optarg) \<Rightarrow>
     if c = 0 then s_parse_options opts root_path st
     else if c = 111 then s_parse_options opts (Some optarg) st
     else if c = 104 then s_usage 0 st
     else s_usage 1 (print_err Unknown_option st))"

text \<open>What a program uses of the library on one platform: the vtables, the constructors, initialisation and clean-up.\<close>

record ('c, 'k, 'p, 'w) cal_services =
  cal_platform :: "'p platform_fns"
  hash_vt :: "'c aws_hash_vtable"
  hash_fns :: "'c aws_hash hash_new_fns"
  ecc_vt :: "('k, 'w) aws_ecc_key_pair_vtable"
  ecc_fns :: "'k ecc_new_fns"

end
