(* ===== verification/Corpus.thy ===== *)
theory Corpus
  imports Tools
begin

text \<open>
  The two programs that compare the elliptic-curve signatures of the platforms.
  \<^verbatim>\<open>bin/produce_x_platform_fuzz_corpus/main.c\<close> signs the hashes of 10000 messages and writes the signatures to a text file, one
  hexadecimal number per line; \<^verbatim>\<open>bin/run_x_platform_fuzz_corpus/main.c\<close> looks for such files below a directory and verifies the
  signature of every line. The messages are the strings of the letter \<open>a\<close>, in the order of their length.
\<close>

section \<open>The key\<close>

definition corpus_d :: bytes where
  "corpus_d = [0x51, 0x9b, 0x42, 0x3d, 0x71, 0x5f, 0x8b, 0x58, 0x1f, 0x4f, 0xa8, 0xee, 0x59, 0xf4, 0x77, 0x1a,
    0x5b, 0x44, 0xc8, 0x13, 0x0b, 0x4e, 0x3e, 0xac, 0xca, 0x54, 0xa5, 0x6d, 0xda, 0x72, 0xb4, 0x64]"

definition corpus_x :: bytes where
  "corpus_x = [0x1c, 0xcb, 0xe9, 0x1c, 0x07, 0x5f, 0xc7, 0xf4, 0xf0, 0x33, 0xbf, 0xa2, 0x48, 0xdb, 0x8f, 0xcc,
    0xd3, 0x56, 0x5d, 0xe9, 0x4b, 0xbf, 0xb1, 0x2f, 0x3c, 0x59, 0xff, 0x46, 0xc2, 0x71, 0xbf, 0x83]"

definition corpus_y :: bytes where
  "corpus_y = [0xce, 0x40, 0x14, 0xc6, 0x88, 0x11, 0xf9, 0xa2, 0x1a, 0x1f, 0xdb, 0x2c, 0x0e, 0x61, 0x13, 0xe0,
    0x6d, 0xb7, 0xca, 0x93, 0xb7, 0x40, 0x4e, 0x78, 0xdc, 0x7c, 0xcd, 0x5c, 0xa8, 0x9a, 0x4c, 0xa9]"

text \<open>The characters of a string literal as bytes.\<close>

definition c_str :: "string \<Rightarrow> bytes" where
  "c_str s = map (\<lambda>c. of_char c) s"

section \<open>Producing a corpus\<close>

text \<open>The local buffers of the loop, what it has written to the file, and what it has printed.\<close>

record produce_state =
  raw_buf :: aws_byte_buf
  to_sign :: aws_byte_buf
  signature_output :: aws_byte_buf
  hex_buf :: aws_byte_buf
  output_file :: bytes
  unverified :: "message list"

definition produce_signature :: "aws_common \<Rightarrow> 'm text_ops_scheme \<Rightarrow> ('c, 'k, 'p, 'w) cal_services \<Rightarrow> 'k option \<Rightarrow> 'k option \<Rightarrow>
    produce_state \<Rightarrow> produce_state result" where
  "produce_signature C X S signing_key verifying_key st =
     rbind (ignore_error (aws_sha256_compute (hash_vt S) (hash_fns S) (aws_byte_cursor_from_buf (raw_buf st)) (to_sign st) 0))
       (\<lambda>hash. let signing_cur = aws_byte_cursor_from_buf hash in
     rbind (not_null signing_key) (\<lambda>sk.
     rbind (ignore_error (aws_ecc_key_pair_sign_message (ecc_vt S) sk signing_cur (signature_output st)))
       (\<lambda>sig. let signature_cur = aws_byte_cursor_from_buf sig in
     rbind (not_null verifying_key) (\<lambda>vk.
     rbind (succeeded (aws_ecc_key_pair_verify_signature (ecc_vt S) vk signing_cur signature_cur)) (\<lambda>verified.
     rbind (ignore_error (aws_hex_encode X signature_cur (hex_buf st))) (\<lambda>hex.
     rbind (print_cursor (aws_byte_cursor_from_buf hex)) (\<lambda>line.
     rbind (append_dynamic_unchecked C (raw_buf st) (c_str ''a'')) (\<lambda>raw.
       Inr (st\<lparr>raw_buf := raw, hex_buf := aws_byte_buf_reset C hex True, to_sign := aws_byte_buf_reset C hash True,
               signature_output := aws_byte_buf_reset C sig True,
               output_file := output_file st @ line @ [newline],
               unverified := unverified st @ (if verified then [] else [Could_not_be_verified line])\<rparr>)))))))))"

primrec produce_signatures :: "aws_common \<Rightarrow> 'm text_ops_scheme \<Rightarrow> ('c, 'k, 'p, 'w) cal_services \<Rightarrow> 'k option \<Rightarrow> 'k option \<Rightarrow>
    nat \<Rightarrow> produce_state \<Rightarrow> produce_state result" where
  "produce_signatures C X S signing_key verifying_key 0 st = Inr st"
| "produce_signatures C X S signing_key verifying_key (Suc n) st =
     rbind (produce_signature C X S signing_key verifying_key st) (produce_signatures C X S signing_key verifying_key n)"

abbreviation max_iterations :: nat where "max_iterations \<equiv> 10000"

text \<open>The keys, the buffers and the loop; the key pairs are released afterwards.\<close>

definition produce_corpus :: "aws_common \<Rightarrow> 'm text_ops_scheme \<Rightarrow> ('c, 'i aws_ecc_key_pair, 'p, 'w) cal_services \<Rightarrow> 'w \<Rightarrow>
    (produce_state \<times> 'w) result" where
  "produce_corpus C X S w =
     rbind (or_null (aws_ecc_key_pair_new_from_private_key (ecc_fns S) AWS_CAL_ECDSA_P256 (cursor_of corpus_d))) (\<lambda>signing_key.
     rbind (or_null (aws_ecc_key_pair_new_from_public_key (ecc_fns S) AWS_CAL_ECDSA_P256 (cursor_of corpus_x) (cursor_of corpus_y)))
       (\<lambda>verifying_key.
     rbind (or_zero (aws_byte_buf_init C 1024)) (\<lambda>raw.
     rbind (or_zero (aws_byte_buf_init C 32)) (\<lambda>hash.
     rbind (rbind (not_null signing_key) (aws_ecc_key_pair_signature_length (ecc_vt S))) (\<lambda>n.
     rbind (or_zero (aws_byte_buf_init C n)) (\<lambda>sig.
     rbind (or_zero (aws_byte_buf_init C 1024)) (\<lambda>hex.
     rbind (produce_signatures C X S signing_key verifying_key max_iterations
              \<lparr>raw_buf = raw, to_sign = hash, signature_output = sig, hex_buf = hex, output_file = [], unverified = []\<rparr>) (\<lambda>st.
     case aws_ecc_key_pair_release (ecc_vt S) verifying_key w of (r, _, w) \<Rightarrow> rbind r (\<lambda>_.
     case aws_ecc_key_pair_release (ecc_vt S) signing_key w of (r, _, w) \<Rightarrow> rbind r (\<lambda>_. Inr (st, w)))))))))))"

definition sub_dir :: "host \<Rightarrow> bytes" where
  "sub_dir h = (case h of
       Host_windows \<Rightarrow> c_str ''windows'' @ [92]
     | Host_apple \<Rightarrow> c_str ''darwin/''
     | Host_unix \<Rightarrow> c_str ''unix/'')"

text \<open>The directory the corpus is written to. The last character of an empty path is the byte in front of it.\<close>

definition output_directory :: "host \<Rightarrow> 'i file_ops \<Rightarrow> bytes option \<Rightarrow> bytes result" where
  "output_directory h F root_path =
     rbind (case root_path of
         None \<Rightarrow> Inr []
       | Some root \<Rightarrow> if root = [] then Inl (Undefined Out_of_bounds)
           else Inr (root @ (if last root \<noteq> AWS_PATH_DELIM F then [AWS_PATH_DELIM F] else [])))
       (\<lambda>path. Inr (path @ sub_dir h))"

definition corpus_file_name :: bytes where
  "corpus_file_name = c_str ''p256_sig_corpus.txt''"

definition produce_main :: "host \<Rightarrow> aws_common \<Rightarrow> 'm text_ops_scheme \<Rightarrow> 'd file_ops \<Rightarrow>
    ('c, 'i aws_ecc_key_pair, 'p, 'w) cal_services \<Rightarrow> (int \<times> bytes) list \<Rightarrow> ('p, 'w) tool_state \<Rightarrow>
    (('p, 'w) tool_state, unit) prog" where
  "produce_main h C X F S options st =
     pbind (step (aws_cal_library_init (cal_platform S) (tool_lib st))) (\<lambda>lib. let st = st\<lparr>tool_lib := lib\<rparr> in
     pbind (s_parse_options options None st) (\<lambda>root_path.
     pbind (step (output_directory h F root_path)) (\<lambda>directory.
     let st = st\<lparr>tool_directories := tool_directories st @ [directory]\<rparr>; path = directory @ corpus_file_name in
     if \<not> aws_fopen_safe F path ''w'' then Inl (Exit (- 1) (print_err (Error_opening path) st))
     else pbind (step (produce_corpus C X S (tool_released st))) (\<lambda>(produced, w).
       let st = st\<lparr>tool_files := (tool_files st)(path \<mapsto> text_out h (output_file produced)),
                   tool_stderr := tool_stderr st @ unverified produced, tool_released := w\<rparr> in
       pbind (step (aws_cal_library_clean_up (cal_platform S) (tool_lib st))) (\<lambda>lib.
         Inl (Exit 0 (st\<lparr>tool_lib := lib\<rparr>)))))))"

section \<open>Running a corpus\<close>

record check_state =
  hex_decoded_buf :: aws_byte_buf
  signed_value :: aws_byte_buf
  to_hash :: aws_byte_buf
  signatures_processed :: nat
  signatures_failed :: nat
  check_stderr :: "message list"

text \<open>The line without its last character: the array was zeroed before \<open>fgets\<close> filled it.\<close>

definition line_cursor :: "bytes \<Rightarrow> aws_byte_cursor" where
  "line_cursor line =
     (let line_buf = line @ replicate (1024 - length line) 0
      in \<lparr>ptr = Some \<lparr>pobj = line_buf, poff = 0\<rparr>, cur_len = size_sub (strlen line_buf) 1\<rparr>)"

definition report_failure :: "aws_common \<Rightarrow> 'm text_ops_scheme \<Rightarrow> aws_byte_cursor \<Rightarrow> aws_byte_cursor \<Rightarrow> message result" where
  "report_failure C X line_cur signed_value_cur =
     rbind (or_zero (aws_byte_buf_init C 1024)) (\<lambda>buf.
     rbind (ignore_error (aws_hex_encode X signed_value_cur buf)) (\<lambda>hex_encoded_sha.
     rbind (print_cursor line_cur) (\<lambda>line.
     rbind (print_cursor (aws_byte_cursor_from_buf hex_encoded_sha)) (\<lambda>sha.
       Inr (Failed_to_validate line sha)))))"

definition check_line :: "aws_common \<Rightarrow> 'm text_ops_scheme \<Rightarrow> ('c, 'k, 'p, 'w) cal_services \<Rightarrow> 'k option \<Rightarrow> bytes \<Rightarrow>
    check_state \<Rightarrow> (check_state, check_state) prog" where
  "check_line C X S verifying_key line st =
     (let line_cur = line_cursor line in
      case aws_hex_decode X line_cur (hex_decoded_buf st) of
        (Inl (Raised _), _) \<Rightarrow>
          pbind (step (print_cursor line_cur)) (\<lambda>text.
            Inl (Exit (- 1) (st\<lparr>check_stderr := check_stderr st @ [Invalid_line text]\<rparr>)))
      | (Inl f, _) \<Rightarrow> Inl (Crash f)
      | (Inr _, decoded) \<Rightarrow>
          pbind (step (ignore_error (aws_sha256_compute (hash_vt S) (hash_fns S) (aws_byte_cursor_from_buf (to_hash st))
                   (signed_value st) 0))) (\<lambda>hash.
          pbind (step (not_null verifying_key)) (\<lambda>vk.
          pbind (step (succeeded (aws_ecc_key_pair_verify_signature (ecc_vt S) vk (aws_byte_cursor_from_buf hash)
                   (aws_byte_cursor_from_buf decoded)))) (\<lambda>verified.
          pbind (if verified then Inr []
                 else pbind (step (report_failure C X line_cur (aws_byte_cursor_from_buf hash))) (\<lambda>msg. Inr [msg])) (\<lambda>msgs.
          pbind (step (append_dynamic_unchecked C (to_hash st) (c_str ''a''))) (\<lambda>next.
            Inr (st\<lparr>hex_decoded_buf := aws_byte_buf_reset C decoded True, signed_value := aws_byte_buf_reset C hash True,
                    to_hash := next, signatures_processed := signatures_processed st + 1,
                    signatures_failed := signatures_failed st + (if verified then 0 else 1),
                    check_stderr := check_stderr st @ msgs\<rparr>)))))))"

function check_lines :: "aws_common \<Rightarrow> 'm text_ops_scheme \<Rightarrow> ('c, 'k, 'p, 'w) cal_services \<Rightarrow> 'k option \<Rightarrow> bytes \<Rightarrow>
    check_state \<Rightarrow> (check_state, check_state) prog" where
  "check_lines C X S verifying_key text st =
     (case fgets 1024 text of
        None \<Rightarrow> Inr st
      | Some (line, rest) \<Rightarrow>
          (case check_line C X S verifying_key line st of
             Inl e \<Rightarrow> Inl e
           | Inr st \<Rightarrow> check_lines C X S verifying_key rest st))"
  by pat_completeness auto

termination
  by (relation "measure (\<lambda>(_, _, _, _, text, _). length text)") (auto dest: fgets_shorter)

declare check_lines.simps [simp del]

definition check_corpus :: "aws_common \<Rightarrow> 'm text_ops_scheme \<Rightarrow> ('c, 'k, 'p, 'w) cal_services \<Rightarrow> 'k option \<Rightarrow> bytes \<Rightarrow>
    (check_state, check_state) prog" where
  "check_corpus C X S verifying_key text =
     pbind (step (or_zero (aws_byte_buf_init C 1024))) (\<lambda>decoded.
     pbind (step (or_zero (aws_byte_buf_init C 32))) (\<lambda>value.
     pbind (step (or_zero (aws_byte_buf_init C 1024))) (\<lambda>hash.
       check_lines C X S verifying_key text
         \<lparr>hex_decoded_buf = decoded, signed_value = value, to_hash = hash, signatures_processed = 0,
          signatures_failed = 0, check_stderr = []\<rparr>)))"

definition with_stderr :: "message list \<Rightarrow> ('p, 'w) tool_state \<Rightarrow> ('p, 'w) tool_state" where
  "with_stderr msgs st = st\<lparr>tool_stderr := tool_stderr st @ msgs\<rparr>"

definition run_corpus_file :: "host \<Rightarrow> aws_common \<Rightarrow> 'm text_ops_scheme \<Rightarrow> 'd file_ops \<Rightarrow> ('c, 'k, 'p, 'w) cal_services \<Rightarrow>
    'k option \<Rightarrow> nat \<Rightarrow> bytes \<Rightarrow> ('p, 'w) tool_state \<Rightarrow> (('p, 'w) tool_state, ('p, 'w) tool_state) prog" where
  "run_corpus_file h C X F S verifying_key corpus_runs corpus_file st =
     (let st = print_out (Running_corpus corpus_file) st in
      case (aws_fopen_safe F corpus_file ''r'', tool_files st corpus_file) of
        (True, Some data) \<Rightarrow>
          (case check_corpus C X S verifying_key (text_in h data) of
             Inl (Exit code checked) \<Rightarrow> Inl (Exit code (with_stderr (check_stderr checked) st))
           | Inl (Crash f) \<Rightarrow> Inl (Crash f)
           | Inr checked \<Rightarrow>
               Inr (print_out (Verification_complete (int_of_size corpus_runs) (int_of_size (signatures_failed checked))
                      (int_of_size (signatures_processed checked))) (with_stderr (check_stderr checked) st)))
      | _ \<Rightarrow> Inl (Exit (- 1) (print_err (Unable_to_open corpus_file) st)))"

text \<open>The search for a corpus file in a directory, and the walk over the directories.\<close>

primrec find_corpus_file :: "'m text_ops_scheme \<Rightarrow> 'd file_ops \<Rightarrow> nat \<Rightarrow> 'd \<Rightarrow> bytes option result" where
  "find_corpus_file X F 0 it = Inl Out_of_fuel"
| "find_corpus_file X F (Suc n) it = (case aws_directory_entry_iterator_get_value F it of
     None \<Rightarrow> Inr None
   | Some candidate \<Rightarrow>
       rbind (succeeded (aws_byte_cursor_find_exact X (cursor_of (relative_path candidate)) (cursor_of corpus_file_name))) (\<lambda>found.
         if found then Inr (Some (entry_path candidate))
         else case aws_directory_entry_iterator_next F it of
             None \<Rightarrow> Inr None
           | Some it \<Rightarrow> find_corpus_file X F n it))"

definition entry_corpus_file :: "'m text_ops_scheme \<Rightarrow> 'd file_ops \<Rightarrow> nat \<Rightarrow> aws_directory_entry \<Rightarrow> bytes option result" where
  "entry_corpus_file X F fuel entry =
     (if file_type entry
      then case aws_directory_entry_iterator_new F (entry_path entry) of
          None \<Rightarrow> Inr None
        | Some it \<Rightarrow> find_corpus_file X F fuel it
      else Inr None)"

primrec run_entries :: "host \<Rightarrow> aws_common \<Rightarrow> 'm text_ops_scheme \<Rightarrow> 'd file_ops \<Rightarrow> ('c, 'k, 'p, 'w) cal_services \<Rightarrow>
    'k option \<Rightarrow> nat \<Rightarrow> nat \<Rightarrow> 'd \<Rightarrow> nat \<Rightarrow> ('p, 'w) tool_state \<Rightarrow> (('p, 'w) tool_state, ('p, 'w) tool_state) prog" where
  "run_entries h C X F S verifying_key fuel 0 it corpus_runs st = Inl (Crash Out_of_fuel)"
| "run_entries h C X F S verifying_key fuel (Suc n) it corpus_runs st =
     (case aws_directory_entry_iterator_get_value F it of
        None \<Rightarrow> Inr st
      | Some entry \<Rightarrow>
          pbind (step (entry_corpus_file X F fuel entry)) (\<lambda>corpus_file.
          pbind (case corpus_file of
              None \<Rightarrow> Inr (corpus_runs, st)
            | Some file \<Rightarrow> pbind (run_corpus_file h C X F S verifying_key (corpus_runs + 1) file st) (\<lambda>st.
                Inr (corpus_runs + 1, st))) (\<lambda>(corpus_runs, st).
          case aws_directory_entry_iterator_next F it of
            None \<Rightarrow> Inr st
          | Some it \<Rightarrow> run_entries h C X F S verifying_key fuel n it corpus_runs st)))"

text \<open>\<open>fuel\<close> bounds the entries of a directory.\<close>

definition run_main :: "host \<Rightarrow> aws_common \<Rightarrow> 'm text_ops_scheme \<Rightarrow> 'd file_ops \<Rightarrow>
    ('c, 'i aws_ecc_key_pair, 'p, 'w) cal_services \<Rightarrow> nat \<Rightarrow> (int \<times> bytes) list \<Rightarrow> ('p, 'w) tool_state \<Rightarrow>
    (('p, 'w) tool_state, unit) prog" where
  "run_main h C X F S fuel options st =
     pbind (step (aws_cal_library_init (cal_platform S) (tool_lib st))) (\<lambda>lib. let st = st\<lparr>tool_lib := lib\<rparr> in
     pbind (s_parse_options options None st) (\<lambda>root_path.
     pbind (step (or_null (aws_ecc_key_pair_new_from_public_key (ecc_fns S) AWS_CAL_ECDSA_P256 (cursor_of corpus_x)
              (cursor_of corpus_y)))) (\<lambda>verifying_key.
     let scan_path = (case root_path of None \<Rightarrow> [] | Some root \<Rightarrow> root) in
     case aws_directory_entry_iterator_new F scan_path of
       None \<Rightarrow> Inl (Exit (- 1) (print_err (Unable_to_load scan_path) st))
     | Some it \<Rightarrow>
         pbind (run_entries h C X F S verifying_key fuel fuel it 0 st) (\<lambda>st.
         case aws_ecc_key_pair_release (ecc_vt S) verifying_key (tool_released st) of (r, _, w) \<Rightarrow>
         pbind (step r) (\<lambda>_.
         pbind (step (aws_cal_library_clean_up (cal_platform S) (tool_lib st))) (\<lambda>lib.
           Inl (Exit 0 (st\<lparr>tool_lib := lib, tool_released := w\<rparr>)))))))) "

end
