(* ===== verification/Corpus_Spec.thy ===== *)
theory Corpus_Spec
  imports Corpus Bcrypt_Ecc_Spec Openssl_Ecc_Spec Security_Ecc_Spec Platform_Digest_Spec
begin

text \<open>
  A corpus written on one platform is accepted on another. The locales of this theory state what the two programs require of the
  library on a platform, and their behaviour is proved from that; the three platforms are shown to meet the requirements.
\<close>

section \<open>Hexadecimal text\<close>

definition hex_digit :: "byte \<Rightarrow> bool" where
  "hex_digit b \<longleftrightarrow> 48 \<le> b \<and> b \<le> 57 \<or> 65 \<le> b \<and> b \<le> 70 \<or> 97 \<le> b \<and> b \<le> 102"

text \<open>
  The functions of aws-c-common: encoding into an empty buffer with room for the digits and a null byte writes two digits per byte and the
  null byte, which may or may not be counted in the length; decoding inverts it, and fails on a byte that is no digit.
\<close>

definition hex_spec :: "'m text_ops_scheme \<Rightarrow> (bytes \<Rightarrow> bytes) \<Rightarrow> bool" where
  "hex_spec X enc \<longleftrightarrow>
     (\<forall>bs. length (enc bs) = 2 * length bs \<and> (\<forall>b \<in> set (enc bs). hex_digit b)) \<and>
     (\<forall>cur bs out. bytes_at (ptr cur) (cur_len cur) = Inr bs \<and> valid_buf out \<and> buf_len out = 0 \<and> 2 * length bs < capacity out \<longrightarrow>
        (\<exists>out' rest. aws_hex_encode X cur out = (Inr (), out') \<and> valid_buf out' \<and> capacity out' = capacity out \<and>
           buffer out' = Some (enc bs @ 0 # rest) \<and> (buf_len out' = 2 * length bs \<or> buf_len out' = 2 * length bs + 1))) \<and>
     (\<forall>cur bs out. bytes_at (ptr cur) (cur_len cur) = Inr (enc bs) \<and> valid_buf out \<and> buf_len out = 0 \<and> length bs \<le> capacity out \<longrightarrow>
        (\<exists>out'. aws_hex_decode X cur out = (Inr (), out') \<and> valid_buf out' \<and> capacity out' = capacity out \<and> contents out' = bs)) \<and>
     (\<forall>cur s out. bytes_at (ptr cur) (cur_len cur) = Inr s \<and> (\<exists>b \<in> set s. \<not> hex_digit b) \<longrightarrow>
        (\<exists>e out'. aws_hex_decode X cur out = (Inl (Raised e), out')))"

lemma hex_laws:
  assumes "hex_spec X enc"
  shows "length (enc bs) = 2 * length bs" and "b \<in> set (enc bs) \<Longrightarrow> hex_digit b"
    and "bytes_at (ptr cur) (cur_len cur) = Inr bs \<Longrightarrow> valid_buf out \<Longrightarrow> buf_len out = 0 \<Longrightarrow> 2 * length bs < capacity out \<Longrightarrow>
      \<exists>out' rest. aws_hex_encode X cur out = (Inr (), out') \<and> valid_buf out' \<and> capacity out' = capacity out \<and>
        buffer out' = Some (enc bs @ 0 # rest) \<and> (buf_len out' = 2 * length bs \<or> buf_len out' = 2 * length bs + 1)"
    and "bytes_at (ptr cur) (cur_len cur) = Inr (enc bs) \<Longrightarrow> valid_buf out \<Longrightarrow> buf_len out = 0 \<Longrightarrow> length bs \<le> capacity out \<Longrightarrow>
      \<exists>out'. aws_hex_decode X cur out = (Inr (), out') \<and> valid_buf out' \<and> capacity out' = capacity out \<and> contents out' = bs"
    and "bytes_at (ptr cur) (cur_len cur) = Inr s \<Longrightarrow> b \<in> set s \<Longrightarrow> \<not> hex_digit b \<Longrightarrow>
      \<exists>e out'. aws_hex_decode X cur out = (Inl (Raised e), out')"
  using assms unfolding hex_spec_def by blast+

lemma hex_digit_not: "\<not> hex_digit 0" "\<not> hex_digit newline" "\<not> hex_digit carriage_return" "\<not> hex_digit 26"
  by (simp_all add: hex_digit_def)

lemma enc_clean:
  assumes "hex_spec X enc"
  shows "0 \<notin> set (enc bs)" "newline \<notin> set (enc bs)" "carriage_return \<notin> set (enc bs)" "26 \<notin> set (enc bs)"
proof -
  show "0 \<notin> set (enc bs)" using hex_laws(2) [OF assms, of 0 bs] hex_digit_not(1) by metis
  show "newline \<notin> set (enc bs)" using hex_laws(2) [OF assms, of newline bs] hex_digit_not(2) by metis
  show "carriage_return \<notin> set (enc bs)" using hex_laws(2) [OF assms, of carriage_return bs] hex_digit_not(3) by metis
  show "26 \<notin> set (enc bs)" using hex_laws(2) [OF assms, of 26 bs] hex_digit_not(4) by metis
qed

lemma takeWhile_clean:
  fixes s :: bytes
  assumes "x \<notin> set s"
  shows "takeWhile (\<lambda>b. b \<noteq> x) s = s" and "takeWhile (\<lambda>b. b \<noteq> x) (s @ x # rest) = s"
  using assms by (induction s) auto

lemma encoded_line:
  assumes X: "hex_spec X enc" and "bytes_at (ptr cur) (cur_len cur) = Inr bs" and "valid_buf out" and "buf_len out = 0"
    and cap: "2 * length bs < capacity out" "capacity out \<le> 1024"
  shows "\<exists>out'. aws_hex_encode X cur out = (Inr (), out') \<and> valid_buf out' \<and> capacity out' = capacity out \<and>
    print_cursor (aws_byte_cursor_from_buf out') = Inr (enc bs)"
proof -
  obtain out' rest where o: "aws_hex_encode X cur out = (Inr (), out')" "valid_buf out'" "capacity out' = capacity out"
      "buffer out' = Some (enc bs @ 0 # rest)" "buf_len out' = 2 * length bs \<or> buf_len out' = 2 * length bs + 1"
    using hex_laws(3) [OF X assms(2-5)] by blast
  have len: "length (enc bs) = 2 * length bs" by (rule hex_laws(1) [OF X])
  have s: "takeWhile (\<lambda>b. b \<noteq> 0) (enc bs) = enc bs" by (rule takeWhile_clean(1) [OF enc_clean(1) [OF X]])
  have "int_of_size (buf_len out') = int (buf_len out')" using o(5) cap by (intro int_of_size_small) auto
  then have print: "print_cursor (aws_byte_cursor_from_buf out') = print_string (Some \<lparr>pobj = enc bs @ 0 # rest, poff = 0\<rparr>) (buf_len out')"
    using o(4) by (simp add: print_cursor_def aws_byte_cursor_from_buf_def)
  have "print_string (Some \<lparr>pobj = enc bs @ 0 # rest, poff = 0\<rparr>) (buf_len out') = Inr (enc bs)"
  proof (rule disjE [OF o(5)])
    assume "buf_len out' = 2 * length bs"
    moreover have "enc bs = []" if "bs = []" using len that by simp
    ultimately show ?thesis using len by (simp add: print_string_def Let_def s)
  next
    assume "buf_len out' = 2 * length bs + 1"
    with len show ?thesis by (simp add: print_string_def Let_def takeWhile_clean(2) [OF enc_clean(1) [OF X]])
  qed
  with print have "print_cursor (aws_byte_cursor_from_buf out') = Inr (enc bs)" by (rule trans)
  with o(1-3) show ?thesis by blast
qed

lemma line_cursor_bytes:
  assumes "0 \<notin> set s" and "Suc (length s) < 1024"
  shows "bytes_at (ptr (line_cursor (s @ [newline]))) (cur_len (line_cursor (s @ [newline]))) = Inr s"
    and "print_cursor (line_cursor (s @ [newline])) = Inr s"
proof -
  let ?z = "replicate (1024 - Suc (length s)) (0 :: byte)"
  have "?z = 0 # replicate (1023 - Suc (length s)) 0" using assms(2) by (simp flip: replicate_Suc)
  moreover have "0 \<notin> set (s @ [newline])" using assms(1) by simp
  ultimately have "takeWhile (\<lambda>b. b \<noteq> 0) ((s @ [newline]) @ ?z) = s @ [newline]"
    using takeWhile_clean(2) [of 0 "s @ [newline]"] by simp
  then have l: "line_cursor (s @ [newline]) = \<lparr>ptr = Some \<lparr>pobj = s @ newline # ?z, poff = 0\<rparr>, cur_len = length s\<rparr>"
    by (simp add: line_cursor_def Let_def strlen_def)
  then show "bytes_at (ptr (line_cursor (s @ [newline]))) (cur_len (line_cursor (s @ [newline]))) = Inr s"
    by (simp add: bytes_at_def)
  have "int_of_size (length s) = int (length s)" using assms(2) by (intro int_of_size_small) simp
  then show "print_cursor (line_cursor (s @ [newline])) = Inr s"
    by (simp add: l print_cursor_def print_string_def Let_def takeWhile_clean(1) [OF assms(1)])
qed

section \<open>Lines and line ends\<close>

definition corpus_text :: "(bytes \<Rightarrow> bytes) \<Rightarrow> bytes list \<Rightarrow> bytes" where
  "corpus_text enc sigs = concat (map (\<lambda>sig. enc sig @ [newline]) sigs)"

lemma join_line_ends_clean:
  "carriage_return \<notin> set s \<Longrightarrow> join_line_ends (s @ t) = s @ join_line_ends t"
proof (induction s)
  case (Cons a s)
  then have "join_line_ends (a # (s @ t)) = a # join_line_ends (s @ t)"
    by (cases "s @ t") auto
  with Cons show ?case by simp
qed simp

lemma join_written_line:
  assumes "carriage_return \<notin> set s"
  shows "join_line_ends (s @ carriage_return # newline # t) = s @ newline # join_line_ends t"
    and "join_line_ends (s @ newline # t) = s @ newline # join_line_ends t"
proof -
  show "join_line_ends (s @ carriage_return # newline # t) = s @ newline # join_line_ends t"
    using join_line_ends_clean [OF assms, of "carriage_return # newline # t"] by simp
  have "carriage_return \<notin> set (s @ [newline])" using assms by simp
  from join_line_ends_clean [OF this, of t] show "join_line_ends (s @ newline # t) = s @ newline # join_line_ends t" by simp
qed

lemma text_out_line:
  assumes "newline \<notin> set s"
  shows "text_out Host_windows (s @ newline # t) = s @ carriage_return # newline # text_out Host_windows t"
proof -
  have "concat (map (\<lambda>b. if b = newline then [carriage_return, newline] else [b]) s) = s"
    using assms by (induction s) auto
  then show ?thesis by (simp add: text_out_def)
qed

lemma corpus_text_Cons: "corpus_text enc (sig # sigs) = enc sig @ newline # corpus_text enc sigs"
  by (simp add: corpus_text_def)

text \<open>Windows reads its own files and those of the other platforms; a line from Windows ends elsewhere in a carriage return.\<close>

lemma corpus_read_back:
  assumes X: "hex_spec X enc" and h: "h \<noteq> Host_windows \<or> h' = Host_windows"
  shows "text_in h' (text_out h (corpus_text enc sigs)) = corpus_text enc sigs"
proof (cases "h' = Host_windows")
  case False
  with h show ?thesis by (simp add: text_in_def text_out_def)
next
  case True
  let ?t = "text_out h (corpus_text enc sigs)"
  have "26 \<notin> set ?t \<and> join_line_ends ?t = corpus_text enc sigs"
  proof (induction sigs)
    case Nil
    show ?case by (simp add: corpus_text_def text_out_def)
  next
    case (Cons sig sigs)
    note clean = enc_clean [OF X, of sig]
    show ?case
    proof (cases "h = Host_windows")
      case True
      with Cons text_out_line [OF clean(2)] join_written_line(1) [OF clean(3)] clean(4) show ?thesis
        by (simp add: corpus_text_Cons)
    next
      case False
      with Cons join_written_line(2) [OF clean(3)] clean(4) show ?thesis
        by (simp add: corpus_text_Cons text_out_def)
    qed
  qed
  then have t: "26 \<notin> set ?t" "join_line_ends ?t = corpus_text enc sigs" by blast+
  show ?thesis using True t(2) by (simp add: text_in_def takeWhile_clean(1) [OF t(1)])
qed

section \<open>What the programs require of a platform\<close>

text \<open>A signature of the curve P256: two numbers of 32 bytes, in DER without their leading zeros.\<close>

definition scalar :: "bytes \<Rightarrow> bool" where
  "scalar r \<longleftrightarrow> length r = 32 \<and> (\<exists>b \<in> set r. b \<noteq> 0)"

definition ecdsa_sig :: "bytes \<Rightarrow> bytes \<Rightarrow> bytes" where
  "ecdsa_sig r s = der_of (signature_value (trim_zeros r) (trim_zeros s))"

lemma ecdsa_sig_length:
  assumes "scalar r" and "scalar s"
  shows "length (ecdsa_sig r s) \<le> 72"
  using signature_der_length [of "trim_zeros r" 32 "trim_zeros s"] length_trim_zeros [of r] length_trim_zeros [of s] assms
  by (simp add: scalar_def ecdsa_sig_def)

lemma ecdsa_sig_nonempty: "ecdsa_sig r s \<noteq> []"
  by (simp add: ecdsa_sig_def signature_value_def der_frame_def)

text \<open>
  The library hashes with \<open>sha\<close>, makes a key from the coordinates of the programs, and verifies with it the signatures for which
  \<open>V hash r s\<close> holds, where \<open>V\<close> is what ECDSA says of that key. A program that signs also makes a key from the private number, which
  signs validly. All of this is required where \<open>ok\<close> holds.
\<close>

locale corpus_verifier =
  fixes ok :: bool and S :: "('c, 'i aws_ecc_key_pair, 'p, 'w) cal_services" and sha :: "bytes \<Rightarrow> bytes"
    and V :: "bytes \<Rightarrow> bytes \<Rightarrow> bytes \<Rightarrow> bool" and is_vk :: "'i aws_ecc_key_pair \<Rightarrow> bool"
  assumes sha256:
      "ok \<Longrightarrow> bytes_at (ptr cur) (cur_len cur) = Inr m \<Longrightarrow> length m < 2 ^ 32 \<Longrightarrow> valid_buf out \<Longrightarrow> 32 \<le> room out \<Longrightarrow>
       \<exists>out'. aws_sha256_compute (hash_vt S) (hash_fns S) cur out 0 = (Inr (), out') \<and> appends out (sha m) (Some out')"
    and sha_length: "ok \<Longrightarrow> length (sha m) = 32"
    and new_vk: "ok \<Longrightarrow> \<exists>vk. aws_ecc_key_pair_new_from_public_key (ecc_fns S) AWS_CAL_ECDSA_P256 (cursor_of corpus_x)
       (cursor_of corpus_y) = Inr vk \<and> is_vk vk"
    and verify: "ok \<Longrightarrow> is_vk vk \<Longrightarrow> bytes_at (ptr mc) (cur_len mc) = Inr hash \<Longrightarrow> length hash = 32 \<Longrightarrow> scalar r \<Longrightarrow> scalar s \<Longrightarrow>
       cursor_at cur (ecdsa_sig r s) \<Longrightarrow> aws_ecc_key_pair_verify_signature (ecc_vt S) vk mc cur =
         (if V hash r s then Inr () else Inl (Raised AWS_ERROR_CAL_SIGNATURE_VALIDATION_FAILED))"
    and destroys: "vt_destroy (ecc_vt S) \<noteq> None"

locale corpus_signer = corpus_verifier ok S sha V is_vk
  for ok :: bool and S :: "('c, 'i aws_ecc_key_pair, 'p, 'w) cal_services" and sha :: "bytes \<Rightarrow> bytes"
    and V :: "bytes \<Rightarrow> bytes \<Rightarrow> bytes \<Rightarrow> bool" and is_vk :: "'i aws_ecc_key_pair \<Rightarrow> bool" +
  fixes is_sk :: "'i aws_ecc_key_pair \<Rightarrow> bool"
  assumes new_sk: "ok \<Longrightarrow> \<exists>sk. aws_ecc_key_pair_new_from_private_key (ecc_fns S) AWS_CAL_ECDSA_P256 (cursor_of corpus_d) = Inr sk \<and>
       is_sk sk"
    and length_sk: "ok \<Longrightarrow> is_sk sk \<Longrightarrow> aws_ecc_key_pair_signature_length (ecc_vt S) sk = Inr 72"
    and sign: "ok \<Longrightarrow> is_sk sk \<Longrightarrow> bytes_at (ptr mc) (cur_len mc) = Inr hash \<Longrightarrow> length hash = 32 \<Longrightarrow> valid_buf out \<Longrightarrow>
       room out = 72 \<Longrightarrow> \<exists>out' r s. aws_ecc_key_pair_sign_message (ecc_vt S) sk mc out = (Inr (), out') \<and> scalar r \<and> scalar s \<and>
         V hash r s \<and> appends out (ecdsa_sig r s) (Some out')"

section \<open>Checking a line\<close>

definition corpus_message :: "nat \<Rightarrow> bytes" where
  "corpus_message k = replicate k 97"

text \<open>What is reported for the signatures of the messages of length \<open>k\<close>, \<open>k + 1\<close> and so on.\<close>

definition verdict :: "(bytes \<Rightarrow> bytes) \<Rightarrow> (bytes \<Rightarrow> bytes) \<Rightarrow> (bytes \<Rightarrow> bytes \<Rightarrow> bytes \<Rightarrow> bool) \<Rightarrow> nat \<Rightarrow> bytes \<times> bytes \<Rightarrow> message list" where
  "verdict enc sha V k = (\<lambda>(r, s). if V (sha (corpus_message k)) r s then []
     else [Failed_to_validate (enc (ecdsa_sig r s)) (enc (sha (corpus_message k)))])"

primrec verdicts :: "(bytes \<Rightarrow> bytes) \<Rightarrow> (bytes \<Rightarrow> bytes) \<Rightarrow> (bytes \<Rightarrow> bytes \<Rightarrow> bytes \<Rightarrow> bool) \<Rightarrow> nat \<Rightarrow> (bytes \<times> bytes) list \<Rightarrow>
    message list" where
  "verdicts enc sha V k [] = []"
| "verdicts enc sha V k (rs # rss) = verdict enc sha V k rs @ verdicts enc sha V (Suc k) rss"

definition sig_text :: "(bytes \<Rightarrow> bytes) \<Rightarrow> (bytes \<times> bytes) list \<Rightarrow> bytes" where
  "sig_text enc sigs = corpus_text enc (map (\<lambda>(r, s). ecdsa_sig r s) sigs)"

definition empty_of :: "nat \<Rightarrow> aws_byte_buf \<Rightarrow> bool" where
  "empty_of n b \<longleftrightarrow> valid_buf b \<and> buf_len b = 0 \<and> capacity b = n"

definition holds_message :: "nat \<Rightarrow> aws_byte_buf \<Rightarrow> bool" where
  "holds_message k b \<longleftrightarrow> valid_buf b \<and> allocator b \<and> contents b = corpus_message k"

definition check_inv :: "nat \<Rightarrow> check_state \<Rightarrow> bool" where
  "check_inv k st \<longleftrightarrow> empty_of 1024 (hex_decoded_buf st) \<and> empty_of 32 (signed_value st) \<and> holds_message k (to_hash st)"

lemma a_str [simp]: "c_str ''a'' = [97]"
  by (simp add: c_str_def)

lemma empty_reset: "common_spec C \<Longrightarrow> valid_buf b \<Longrightarrow> capacity b = n \<Longrightarrow> empty_of n (aws_byte_buf_reset C b z)"
  using reset_law [of C b z] by (simp add: empty_of_def)

lemma empty_room: "empty_of n b \<Longrightarrow> valid_buf b \<and> buf_len b = 0 \<and> capacity b = n \<and> room b = n \<and> contents b = []"
  by (auto simp: empty_of_def room_def contents_def split: option.splits)

lemma new_empty:
  assumes "common_spec C" and "n \<le> SIZE_MAX div 2"
  shows "\<exists>b. or_zero (aws_byte_buf_init C n) = Inr b \<and> empty_of n b \<and> allocator b \<and> holds_message 0 b"
proof -
  obtain b where "aws_byte_buf_init C n = Inr b" "fresh_buf n b" using init_law [OF assms] by blast
  then show ?thesis
    by (auto simp: or_zero_def fresh_buf_def empty_of_def holds_message_def corpus_message_def contents_def split: option.splits)
qed

lemma next_message:
  assumes C: "common_spec C" and h: "holds_message k b" and k: "k < 2 ^ 31"
  shows "\<exists>b'. append_dynamic_unchecked C b (c_str ''a'') = Inr b' \<and> holds_message (Suc k) b'"
proof -
  have l: "buf_len b = k" using h length_contents [of b] by (simp add: holds_message_def corpus_message_def)
  obtain b' where "aws_byte_buf_append_dynamic C b [97] = Inr b'" "valid_buf b'" "contents b' = contents b @ [97]" "allocator b'"
    using append_dynamic_law [OF C, of b "[97]"] h k l by (auto simp: holds_message_def)
  with h show ?thesis by (simp add: append_dynamic_unchecked_def holds_message_def corpus_message_def replicate_append_same)
qed

lemma message_bytes:
  "holds_message k b \<Longrightarrow> bytes_at (ptr (aws_byte_cursor_from_buf b)) (cur_len (aws_byte_cursor_from_buf b)) = Inr (corpus_message k)"
  using bytes_at_from_buf [of b] by (simp add: holds_message_def)

lemma filled:
  assumes "empty_of n b" and "appends b bs (Some b')"
  shows "valid_buf b'" and "capacity b' = n" and "contents b' = bs"
    and "bytes_at (ptr (aws_byte_cursor_from_buf b')) (cur_len (aws_byte_cursor_from_buf b')) = Inr bs"
  using assms bytes_at_from_buf [of b'] empty_room [OF assms(1)] by (auto simp: appends_def)

context corpus_verifier
begin

lemma released: "\<exists>k' w'. aws_ecc_key_pair_release (ecc_vt S) (Some pair) w = (Inr (), k', w')"
  using destroys by (auto simp: aws_ecc_key_pair_release_def s_aws_ecc_key_pair_destroy_def Let_def)

lemma hashed:
  assumes "ok" and "holds_message k b" and "k < 2 ^ 31" and "empty_of 32 out"
  shows "\<exists>out'. aws_sha256_compute (hash_vt S) (hash_fns S) (aws_byte_cursor_from_buf b) out 0 = (Inr (), out') \<and>
    appends out (sha (corpus_message k)) (Some out')"
  using sha256 [OF assms(1) message_bytes [OF assms(2)]] assms(3) empty_room [OF assms(4)] by (simp add: corpus_message_def)

text \<open>One line with a signature in it.\<close>

lemma check_line_ok:
  assumes ok and C: "common_spec C" and X: "hex_spec X enc" and vk: "is_vk vk" and rs: "scalar r" "scalar s"
    and inv: "check_inv k st" and k: "k < 2 ^ 31"
  shows "\<exists>st'. check_line C X S (Some vk) (enc (ecdsa_sig r s) @ [newline]) st = Inr st' \<and> check_inv (Suc k) st' \<and>
    signatures_processed st' = signatures_processed st + 1 \<and> check_stderr st' = check_stderr st @ verdict enc sha V k (r, s) \<and>
    signatures_failed st' = signatures_failed st + length (verdict enc sha V k (r, s))"
proof -
  let ?sig = "ecdsa_sig r s" and ?hash = "sha (corpus_message k)"
  let ?line = "enc ?sig @ [newline]"
  note parts = inv [unfolded check_inv_def]
  note e1 = empty_room [OF conjunct1 [OF parts]] and e2 = conjunct1 [OF conjunct2 [OF parts]]
  have n: "length ?sig \<le> 72" by (rule ecdsa_sig_length [OF rs])
  have "Suc (length (enc ?sig)) < 1024" using n hex_laws(1) [OF X] by simp
  note line = line_cursor_bytes [OF enc_clean(1) [OF X] this]
  obtain d where d: "aws_hex_decode X (line_cursor ?line) (hex_decoded_buf st) = (Inr (), d)" "valid_buf d" "capacity d = 1024"
      "contents d = ?sig"
    using hex_laws(4) [OF X line(1), of "hex_decoded_buf st"] e1 n by auto
  obtain v where v: "aws_sha256_compute (hash_vt S) (hash_fns S) (aws_byte_cursor_from_buf (to_hash st)) (signed_value st) 0 = (Inr (), v)"
      "appends (signed_value st) ?hash (Some v)"
    using hashed [OF assms(1) _ k e2] parts by blast
  note fv = filled [OF e2 v(2)]
  have ver: "aws_ecc_key_pair_verify_signature (ecc_vt S) vk (aws_byte_cursor_from_buf v) (aws_byte_cursor_from_buf d) =
      (if V ?hash r s then Inr () else Inl (Raised AWS_ERROR_CAL_SIGNATURE_VALIDATION_FAILED))"
    using verify [OF assms(1) vk fv(4) sha_length [OF assms(1)] rs] cursor_at_from_buf [OF d(2)] d(4) ecdsa_sig_nonempty by simp
  obtain t where t: "append_dynamic_unchecked C (to_hash st) (c_str ''a'') = Inr t" "holds_message (Suc k) t"
    using next_message [OF C _ k] parts by blast
  have rep: "report_failure C X (line_cursor ?line) (aws_byte_cursor_from_buf v) = Inr (Failed_to_validate (enc ?sig) (enc ?hash))"
  proof -
    obtain b where b: "or_zero (aws_byte_buf_init C 1024) = Inr b" "empty_of 1024 b" using new_empty [OF C, of 1024] by auto
    with encoded_line [OF X fv(4), of b] empty_room [OF b(2)] sha_length [OF assms(1)] line(2) show ?thesis
      by (auto simp: report_failure_def)
  qed
  show ?thesis
    using d(1) v(1) ver rep t empty_reset [OF C d(2,3)] empty_reset [OF C fv(1,2)]
    by (auto simp: check_line_def verdict_def check_inv_def Let_def)
qed

text \<open>All lines of a corpus.\<close>

lemma check_lines_ok:
  assumes ok and C: "common_spec C" and X: "hex_spec X enc" and vk: "is_vk vk"
    and "\<forall>(r, s) \<in> set sigs. scalar r \<and> scalar s" and "check_inv k st" and "k + length sigs \<le> 2 ^ 31"
  shows "\<exists>st'. check_lines C X S (Some vk) (sig_text enc sigs) st = Inr st' \<and>
    signatures_processed st' = signatures_processed st + length sigs \<and> check_stderr st' = check_stderr st @ verdicts enc sha V k sigs \<and>
    signatures_failed st' = signatures_failed st + length (verdicts enc sha V k sigs)"
  using assms(5-7)
proof (induction sigs arbitrary: k st)
  case Nil
  show ?case by (subst check_lines.simps) (simp add: sig_text_def corpus_text_def fgets_def)
next
  case (Cons rs sigs)
  obtain r s where rs: "rs = (r, s)" "scalar r" "scalar s" using Cons.prems(1) by (cases rs) auto
  obtain st1 where st1: "check_line C X S (Some vk) (enc (ecdsa_sig r s) @ [newline]) st = Inr st1" "check_inv (Suc k) st1"
      "signatures_processed st1 = signatures_processed st + 1" "check_stderr st1 = check_stderr st @ verdict enc sha V k rs"
      "signatures_failed st1 = signatures_failed st + length (verdict enc sha V k rs)"
    using check_line_ok [OF assms(1) C X vk rs(2,3) Cons.prems(2)] Cons.prems(3) rs(1) by auto
  have "Suc (length (enc (ecdsa_sig r s))) < 1024" using ecdsa_sig_length [OF rs(2,3)] hex_laws(1) [OF X] by simp
  from fgets_line [OF enc_clean(2) [OF X] this] have
    "check_lines C X S (Some vk) (sig_text enc (rs # sigs)) st = check_lines C X S (Some vk) (sig_text enc sigs) st1"
    by (subst check_lines.simps) (simp add: sig_text_def corpus_text_Cons rs(1) st1(1))
  with Cons.IH [OF _ st1(2)] Cons.prems st1 show ?case by auto
qed

lemma check_corpus_ok:
  assumes ok and C: "common_spec C" and X: "hex_spec X enc" and vk: "is_vk vk"
    and sigs: "\<forall>(r, s) \<in> set sigs. scalar r \<and> scalar s" and n: "length sigs \<le> 2 ^ 31"
  shows "\<exists>st. check_corpus C X S (Some vk) (sig_text enc sigs) = Inr st \<and> signatures_processed st = length sigs \<and>
    check_stderr st = verdicts enc sha V 0 sigs \<and> signatures_failed st = length (verdicts enc sha V 0 sigs)"
proof -
  obtain b1 b2 b3 where b: "or_zero (aws_byte_buf_init C 1024) = Inr b1" "empty_of 1024 b1" "holds_message 0 b1"
      "or_zero (aws_byte_buf_init C 32) = Inr b2" "empty_of 32 b2"
    using new_empty [OF C, of 1024] new_empty [OF C, of 32] by auto
  have "check_inv 0 \<lparr>hex_decoded_buf = b1, signed_value = b2, to_hash = b1, signatures_processed = 0, signatures_failed = 0,
      check_stderr = []\<rparr>"
    using b by (simp add: check_inv_def)
  from check_lines_ok [OF assms(1) C X vk sigs this] n b show ?thesis by (auto simp: check_corpus_def)
qed

end

section \<open>Producing signatures\<close>

lemma verdicts_snoc: "verdicts enc sha V k (sigs @ [rs]) = verdicts enc sha V k sigs @ verdict enc sha V (k + length sigs) rs"
  by (induction sigs arbitrary: k) simp_all

lemma sig_text_snoc: "sig_text enc (sigs @ [(r, s)]) = sig_text enc sigs @ enc (ecdsa_sig r s) @ [newline]"
  by (simp add: sig_text_def corpus_text_def)

text \<open>A list of valid signatures of the first messages.\<close>

definition genuine :: "(bytes \<Rightarrow> bytes) \<Rightarrow> (bytes \<Rightarrow> bytes \<Rightarrow> bytes \<Rightarrow> bool) \<Rightarrow> (bytes \<times> bytes) list \<Rightarrow> bool" where
  "genuine sha V sigs \<longleftrightarrow> (\<forall>(r, s) \<in> set sigs. scalar r \<and> scalar s) \<and>
     (\<forall>i < length sigs. V (sha (corpus_message i)) (fst (sigs ! i)) (snd (sigs ! i)))"

lemma genuine_snoc:
  "genuine sha V sigs \<Longrightarrow> scalar r \<Longrightarrow> scalar s \<Longrightarrow> V (sha (corpus_message (length sigs))) r s \<Longrightarrow> genuine sha V (sigs @ [(r, s)])"
  by (auto simp: genuine_def nth_append less_Suc_eq)

lemma genuine_verdicts: "genuine sha V sigs \<Longrightarrow> verdicts enc sha V 0 sigs = []"
proof (induction sigs rule: rev_induct)
  case (snoc rs sigs)
  have g: "V (sha (corpus_message i)) (fst ((sigs @ [rs]) ! i)) (snd ((sigs @ [rs]) ! i))" if "i \<le> length sigs" for i
    using snoc.prems that by (simp add: genuine_def)
  have "V (sha (corpus_message i)) (fst (sigs ! i)) (snd (sigs ! i))" if "i < length sigs" for i
    using g [of i] that by (simp add: nth_append)
  then have "genuine sha V sigs" using snoc.prems by (simp add: genuine_def)
  moreover have "V (sha (corpus_message (length sigs))) (fst rs) (snd rs)" using g [of "length sigs"] by simp
  ultimately show ?case using snoc.IH by (simp add: verdicts_snoc verdict_def split_def)
qed simp

definition produce_inv :: "(bytes \<Rightarrow> bytes) \<Rightarrow> (bytes \<Rightarrow> bytes) \<Rightarrow> (bytes \<Rightarrow> bytes \<Rightarrow> bytes \<Rightarrow> bool) \<Rightarrow> (bytes \<times> bytes) list \<Rightarrow> produce_state \<Rightarrow>
    bool" where
  "produce_inv enc sha V sigs st \<longleftrightarrow> holds_message (length sigs) (raw_buf st) \<and> empty_of 32 (to_sign st) \<and>
     empty_of 72 (signature_output st) \<and> empty_of 1024 (hex_buf st) \<and> output_file st = sig_text enc sigs \<and> unverified st = [] \<and>
     genuine sha V sigs"

context corpus_signer
begin

lemma produce_signature_ok:
  assumes ok and C: "common_spec C" and X: "hex_spec X enc" and keys: "is_sk sk" "is_vk vk"
    and inv: "produce_inv enc sha V sigs st" and k: "length sigs < 2 ^ 31"
  shows "\<exists>r s st'. produce_signature C X S (Some sk) (Some vk) st = Inr st' \<and> produce_inv enc sha V (sigs @ [(r, s)]) st'"
proof -
  let ?hash = "sha (corpus_message (length sigs))"
  have parts: "holds_message (length sigs) (raw_buf st)" "empty_of 32 (to_sign st)" "empty_of 72 (signature_output st)"
      "empty_of 1024 (hex_buf st)" "genuine sha V sigs"
    using inv by (simp_all add: produce_inv_def)
  obtain h where h: "aws_sha256_compute (hash_vt S) (hash_fns S) (aws_byte_cursor_from_buf (raw_buf st)) (to_sign st) 0 = (Inr (), h)"
      "appends (to_sign st) ?hash (Some h)"
    using hashed [OF assms(1) parts(1) k parts(2)] by blast
  note fh = filled [OF parts(2) h(2)] and len = sha_length [OF assms(1)]
  obtain g r s where g: "aws_ecc_key_pair_sign_message (ecc_vt S) sk (aws_byte_cursor_from_buf h) (signature_output st) = (Inr (), g)"
      "scalar r" "scalar s" "V ?hash r s" "appends (signature_output st) (ecdsa_sig r s) (Some g)"
    using sign [OF assms(1) keys(1) fh(4) len, of "signature_output st"] empty_room [OF parts(3)] by blast
  note fg = filled [OF parts(3) g(5)] and n = ecdsa_sig_length [OF g(2,3)]
  have ver: "aws_ecc_key_pair_verify_signature (ecc_vt S) vk (aws_byte_cursor_from_buf h) (aws_byte_cursor_from_buf g) = Inr ()"
    using verify [OF assms(1) keys(2) fh(4) len g(2,3)] cursor_at_from_buf [OF fg(1)] fg(3) ecdsa_sig_nonempty g(4) by simp
  obtain x where x: "aws_hex_encode X (aws_byte_cursor_from_buf g) (hex_buf st) = (Inr (), x)" "valid_buf x" "capacity x = 1024"
      "print_cursor (aws_byte_cursor_from_buf x) = Inr (enc (ecdsa_sig r s))"
    using encoded_line [OF X fg(4), of "hex_buf st"] empty_room [OF parts(4)] n by auto
  obtain b where b: "append_dynamic_unchecked C (raw_buf st) (c_str ''a'') = Inr b" "holds_message (Suc (length sigs)) b"
    using next_message [OF C parts(1) k] by blast
  have "produce_inv enc sha V (sigs @ [(r, s)]) (st\<lparr>raw_buf := b, hex_buf := aws_byte_buf_reset C x True,
      to_sign := aws_byte_buf_reset C h True, signature_output := aws_byte_buf_reset C g True,
      output_file := output_file st @ enc (ecdsa_sig r s) @ [newline], unverified := unverified st @ []\<rparr>)"
    using inv b(2) empty_reset [OF C x(2,3)] empty_reset [OF C fh(1,2)] empty_reset [OF C fg(1,2)]
      genuine_snoc [OF parts(5) g(2-4)] sig_text_snoc [of enc sigs r s] by (simp add: produce_inv_def)
  moreover have "produce_signature C X S (Some sk) (Some vk) st = Inr (st\<lparr>raw_buf := b, hex_buf := aws_byte_buf_reset C x True,
      to_sign := aws_byte_buf_reset C h True, signature_output := aws_byte_buf_reset C g True,
      output_file := output_file st @ enc (ecdsa_sig r s) @ [newline], unverified := unverified st @ []\<rparr>)"
    using h(1) g(1) ver x(1,4) b(1) by (simp add: produce_signature_def Let_def)
  ultimately show ?thesis by blast
qed

lemma produce_signatures_ok:
  assumes ok and C: "common_spec C" and X: "hex_spec X enc" and keys: "is_sk sk" "is_vk vk"
    and "produce_inv enc sha V sigs st" and "length sigs + n \<le> 2 ^ 31"
  shows "\<exists>sigs' st'. produce_signatures C X S (Some sk) (Some vk) n st = Inr st' \<and> produce_inv enc sha V sigs' st' \<and>
    length sigs' = length sigs + n"
  using assms(6,7)
proof (induction n arbitrary: sigs st)
  case (Suc n)
  then obtain r s st1 where st1: "produce_signature C X S (Some sk) (Some vk) st = Inr st1"
      "produce_inv enc sha V (sigs @ [(r, s)]) st1"
    using produce_signature_ok [OF assms(1) C X keys Suc.prems(1)] by auto
  with Suc.IH [OF st1(2)] Suc.prems(2) show ?case by auto
qed auto

lemma produce_corpus_ok:
  assumes ok and C: "common_spec C" and X: "hex_spec X enc"
  shows "\<exists>sigs st w'. produce_corpus C X S w = Inr (st, w') \<and> output_file st = sig_text enc sigs \<and> unverified st = [] \<and>
    genuine sha V sigs \<and> length sigs = max_iterations"
proof -
  obtain sk where sk: "aws_ecc_key_pair_new_from_private_key (ecc_fns S) AWS_CAL_ECDSA_P256 (cursor_of corpus_d) = Inr sk" "is_sk sk"
    using new_sk [OF assms(1)] by blast
  obtain vk where vk: "aws_ecc_key_pair_new_from_public_key (ecc_fns S) AWS_CAL_ECDSA_P256 (cursor_of corpus_x) (cursor_of corpus_y) =
      Inr vk" "is_vk vk"
    using new_vk [OF assms(1)] by blast
  obtain b1 b2 b3 where b: "or_zero (aws_byte_buf_init C 1024) = Inr b1" "holds_message 0 b1" "empty_of 1024 b1"
      "or_zero (aws_byte_buf_init C 32) = Inr b2" "empty_of 32 b2" "or_zero (aws_byte_buf_init C 72) = Inr b3" "empty_of 72 b3"
    using new_empty [OF C, of 1024] new_empty [OF C, of 32] new_empty [OF C, of 72] by auto
  have "produce_inv enc sha V [] \<lparr>raw_buf = b1, to_sign = b2, signature_output = b3, hex_buf = b1, output_file = [], unverified = []\<rparr>"
    using b by (simp add: produce_inv_def sig_text_def corpus_text_def genuine_def)
  then obtain sigs st where st: "produce_signatures C X S (Some sk) (Some vk) max_iterations
      \<lparr>raw_buf = b1, to_sign = b2, signature_output = b3, hex_buf = b1, output_file = [], unverified = []\<rparr> = Inr st"
      "produce_inv enc sha V sigs st" "length sigs = max_iterations"
    using produce_signatures_ok [OF assms(1) C X sk(2) vk(2), of "[]" _ max_iterations] that by fastforce
  obtain k1 w1 where w1: "aws_ecc_key_pair_release (ecc_vt S) (Some vk) w = (Inr (), k1, w1)" using released by blast
  obtain k2 w2 where "aws_ecc_key_pair_release (ecc_vt S) (Some sk) w1 = (Inr (), k2, w2)" using released by blast
  with w1 b(1,4,6) sk(1) vk(1) length_sk [OF assms(1) sk(2)] st show ?thesis
    by (simp add: produce_corpus_def produce_inv_def del: produce_signatures.simps) metis
qed

end

section \<open>Directories\<close>

text \<open>
  The functions of aws-c-common: an iterator stands at the first of the entries that are left; the next one is refused when
  there is none. A search succeeds when the bytes occur.
\<close>

definition dir_spec :: "'d file_ops \<Rightarrow> ('d \<Rightarrow> aws_directory_entry list) \<Rightarrow> bool" where
  "dir_spec F rest \<longleftrightarrow>
     (\<forall>it. aws_directory_entry_iterator_get_value F it = (case rest it of [] \<Rightarrow> None | e # _ \<Rightarrow> Some e)) \<and>
     (\<forall>it. case aws_directory_entry_iterator_next F it of
        None \<Rightarrow> tl (rest it) = []
      | Some it' \<Rightarrow> rest it \<noteq> [] \<and> rest it' = tl (rest it))"

definition occurs :: "bytes \<Rightarrow> bytes \<Rightarrow> bool" where
  "occurs s t \<longleftrightarrow> (\<exists>pre post. t = pre @ s @ post)"

definition find_spec :: "'m text_ops_scheme \<Rightarrow> bool" where
  "find_spec X \<longleftrightarrow> (\<forall>s t. s \<noteq> [] \<longrightarrow>
     (if occurs s t then \<exists>cur. aws_byte_cursor_find_exact X (cursor_of t) (cursor_of s) = Inr cur
      else \<exists>e. aws_byte_cursor_find_exact X (cursor_of t) (cursor_of s) = Inl (Raised e)))"

text \<open>No directory has as many entries as \<open>fuel\<close>.\<close>

definition small_dirs :: "'d file_ops \<Rightarrow> ('d \<Rightarrow> aws_directory_entry list) \<Rightarrow> nat \<Rightarrow> bool" where
  "small_dirs F rest fuel \<longleftrightarrow> (\<forall>p it. aws_directory_entry_iterator_new F p = Some it \<longrightarrow> length (rest it) < fuel)"

text \<open>The corpus file of a directory is the first entry with the name in its path.\<close>

definition dir_corpus_file :: "aws_directory_entry list \<Rightarrow> bytes option" where
  "dir_corpus_file es = map_option entry_path (find (\<lambda>e. occurs corpus_file_name (relative_path e)) es)"

definition corpus_file_of :: "'d file_ops \<Rightarrow> ('d \<Rightarrow> aws_directory_entry list) \<Rightarrow> aws_directory_entry \<Rightarrow> bytes option" where
  "corpus_file_of F rest e =
     (if file_type e then Option.bind (aws_directory_entry_iterator_new F (entry_path e)) (\<lambda>it. dir_corpus_file (rest it)) else None)"

definition corpus_files :: "'d file_ops \<Rightarrow> ('d \<Rightarrow> aws_directory_entry list) \<Rightarrow> aws_directory_entry list \<Rightarrow> bytes list" where
  "corpus_files F rest es = List.map_filter (corpus_file_of F rest) es"

lemma find_succeeded:
  assumes "find_spec X"
  shows "succeeded (aws_byte_cursor_find_exact X (cursor_of t) (cursor_of corpus_file_name)) = Inr (occurs corpus_file_name t)"
proof -
  have "corpus_file_name \<noteq> []" by (simp add: corpus_file_name_def c_str_def)
  with assms [unfolded find_spec_def, rule_format, of corpus_file_name t] show ?thesis by (auto split: if_splits)
qed

lemma dir_next_cases:
  assumes "dir_spec F rest"
  obtains "aws_directory_entry_iterator_next F it = None" "tl (rest it) = []"
    | it' where "aws_directory_entry_iterator_next F it = Some it'" "rest it \<noteq> []" "rest it' = tl (rest it)"
  using assms by (cases "aws_directory_entry_iterator_next F it") (auto simp: dir_spec_def dest: spec [of _ it])

lemma find_corpus_file_ok:
  assumes X: "find_spec X" and F: "dir_spec F rest" and "length (rest it) < n"
  shows "find_corpus_file X F n it = Inr (dir_corpus_file (rest it))"
  using assms(3)
proof (induction n arbitrary: it)
  case (Suc n)
  show ?case
  proof (cases "rest it")
    case Nil
    with F show ?thesis by (simp add: dir_spec_def dir_corpus_file_def)
  next
    case (Cons e es)
    then have v: "aws_directory_entry_iterator_get_value F it = Some e" using F by (simp add: dir_spec_def)
    show ?thesis
    proof (cases "occurs corpus_file_name (relative_path e)")
      case True
      with v Cons show ?thesis by (simp add: find_succeeded [OF X] dir_corpus_file_def)
    next
      case False
      show ?thesis
        using F
      proof (rule dir_next_cases [of F rest it])
        assume "aws_directory_entry_iterator_next F it = None" "tl (rest it) = []"
        with v Cons False show ?thesis by (simp add: find_succeeded [OF X] dir_corpus_file_def)
      next
        fix it' assume "aws_directory_entry_iterator_next F it = Some it'" "rest it \<noteq> []" "rest it' = tl (rest it)"
        with v Cons False Suc.IH [of it'] Suc.prems show ?thesis by (simp add: find_succeeded [OF X] dir_corpus_file_def)
      qed
    qed
  qed
qed simp

lemma entry_corpus_file_ok:
  assumes "find_spec X" and "dir_spec F rest" and "small_dirs F rest n"
  shows "entry_corpus_file X F n e = Inr (corpus_file_of F rest e)"
  using find_corpus_file_ok [OF assms(1,2)] assms(3)
  by (simp add: entry_corpus_file_def corpus_file_of_def small_dirs_def split: option.split)

text \<open>The walk runs the files one after the other.\<close>

primrec run_files :: "host \<Rightarrow> aws_common \<Rightarrow> 'm text_ops_scheme \<Rightarrow> 'd file_ops \<Rightarrow> ('c, 'k, 'p, 'w) cal_services \<Rightarrow> 'k option \<Rightarrow> nat \<Rightarrow>
    bytes list \<Rightarrow> ('p, 'w) tool_state \<Rightarrow> (('p, 'w) tool_state, ('p, 'w) tool_state) prog" where
  "run_files h C X F S vk k [] st = Inr st"
| "run_files h C X F S vk k (f # fs) st =
     pbind (run_corpus_file h C X F S vk (k + 1) f st) (run_files h C X F S vk (k + 1) fs)"

lemma run_entries_ok:
  assumes X: "find_spec X" and F: "dir_spec F rest" and fuel: "small_dirs F rest fuel" and "length (rest it) < n"
  shows "run_entries h C X F S vk fuel n it k st = run_files h C X F S vk k (corpus_files F rest (rest it)) st"
  using assms(4)
proof (induction n arbitrary: it k st)
  case (Suc n)
  note entry = entry_corpus_file_ok [OF X F fuel]
  show ?case
  proof (cases "rest it")
    case Nil
    with F show ?thesis by (simp add: dir_spec_def corpus_files_def List.map_filter_simps)
  next
    case (Cons e es)
    then have v: "aws_directory_entry_iterator_get_value F it = Some e" using F by (simp add: dir_spec_def)
    have tail: "(case aws_directory_entry_iterator_next F it of None \<Rightarrow> Inr st'
        | Some it \<Rightarrow> run_entries h C X F S vk fuel n it k' st') = run_files h C X F S vk k' (corpus_files F rest es) st'" for k' st'
      using F
    proof (rule dir_next_cases [of F rest it])
      assume "aws_directory_entry_iterator_next F it = None" "tl (rest it) = []"
      with Cons show ?thesis by (simp add: corpus_files_def List.map_filter_simps)
    next
      fix it' assume "aws_directory_entry_iterator_next F it = Some it'" "rest it \<noteq> []" "rest it' = tl (rest it)"
      with Cons Suc.IH [of it'] Suc.prems show ?thesis by simp
    qed
    show ?thesis
    proof (cases "corpus_file_of F rest e")
      case None
      with Cons v tail show ?thesis by (simp add: entry corpus_files_def List.map_filter_simps)
    next
      case (Some f)
      with Cons v tail show ?thesis
        by (cases "run_corpus_file h C X F S vk (k + 1) f st") (simp_all add: entry corpus_files_def List.map_filter_simps)
    qed
  qed
qed simp

section \<open>The programs\<close>

text \<open>What is printed for files with the signatures of the first messages.\<close>

primrec reports :: "(bytes \<Rightarrow> bytes) \<Rightarrow> (bytes \<Rightarrow> bytes) \<Rightarrow> (bytes \<Rightarrow> bytes \<Rightarrow> bytes \<Rightarrow> bool) \<Rightarrow> nat \<Rightarrow>
    (bytes \<times> (bytes \<times> bytes) list) list \<Rightarrow> message list" where
  "reports enc sha V k [] = []"
| "reports enc sha V k (f # fs) = [Running_corpus (fst f),
     Verification_complete (int (k + 1)) (int (length (verdicts enc sha V 0 (snd f)))) (int (length (snd f)))] @
     reports enc sha V (k + 1) fs"

text \<open>A file that can be read and holds these signatures, as the platform reads it.\<close>

definition readable_corpus :: "host \<Rightarrow> 'd file_ops \<Rightarrow> (bytes \<Rightarrow> bytes) \<Rightarrow> (bytes \<Rightarrow> bytes option) \<Rightarrow> bytes \<times> (bytes \<times> bytes) list \<Rightarrow> bool" where
  "readable_corpus h F enc files = (\<lambda>(f, sigs). aws_fopen_safe F f ''r'' \<and> length sigs < 2 ^ 31 \<and> (\<forall>(r, s) \<in> set sigs. scalar r \<and> scalar s) \<and>
     (\<exists>data. files f = Some data \<and> text_in h data = sig_text enc sigs))"

lemma verdicts_length: "length (verdicts enc sha V k sigs) \<le> length sigs"
proof (induction sigs arbitrary: k)
  case (Cons rs sigs)
  have "length (verdict enc sha V k rs) \<le> 1" by (simp add: verdict_def split_def)
  with Cons [of "Suc k"] show ?case by simp
qed simp

context corpus_verifier
begin

lemma run_corpus_file_ok:
  assumes ok and C: "common_spec C" and X: "hex_spec X enc" and vk: "is_vk vk"
    and f: "readable_corpus h F enc (tool_files st) (f, sigs)" and k: "k < 2 ^ 31"
  shows "run_corpus_file h C X F S (Some vk) k f st =
    Inr (st\<lparr>tool_stdout := tool_stdout st @ [Running_corpus f,
        Verification_complete (int k) (int (length (verdicts enc sha V 0 sigs))) (int (length sigs))],
      tool_stderr := tool_stderr st @ verdicts enc sha V 0 sigs\<rparr>)"
proof -
  obtain data where d: "aws_fopen_safe F f ''r''" "tool_files st f = Some data" "text_in h data = sig_text enc sigs"
      "length sigs < 2 ^ 31" "\<forall>(r, s) \<in> set sigs. scalar r \<and> scalar s"
    using f by (auto simp: readable_corpus_def)
  obtain ch where ch: "check_corpus C X S (Some vk) (sig_text enc sigs) = Inr ch" "signatures_processed ch = length sigs"
      "check_stderr ch = verdicts enc sha V 0 sigs" "signatures_failed ch = length (verdicts enc sha V 0 sigs)"
    using check_corpus_ok [OF assms(1) C X vk d(5)] d(4) by auto
  have "length (verdicts enc sha V 0 sigs) < 2 ^ 31" using verdicts_length [of enc sha V 0 sigs] d(4) by simp
  with d ch k show ?thesis
    by (simp add: run_corpus_file_def Let_def print_out_def with_stderr_def)
qed

lemma run_files_ok:
  assumes ok and C: "common_spec C" and X: "hex_spec X enc" and vk: "is_vk vk"
    and "\<forall>f \<in> set fs. readable_corpus h F enc (tool_files st) f" and "k + length fs < 2 ^ 31"
  shows "run_files h C X F S (Some vk) k (map fst fs) st =
    Inr (st\<lparr>tool_stdout := tool_stdout st @ reports enc sha V k fs,
      tool_stderr := tool_stderr st @ concat (map (verdicts enc sha V 0 \<circ> snd) fs)\<rparr>)"
  using assms(5,6)
proof (induction fs arbitrary: k st)
  case (Cons f fs)
  obtain p sigs where f: "f = (p, sigs)" by (cases f)
  have "readable_corpus h F enc (tool_files st) (p, sigs)" using Cons.prems(1) f by simp
  from run_corpus_file_ok [OF assms(1) C X vk this, of "k + 1"] Cons.prems Cons.IH f show ?case by simp
qed simp

lemma run_main_ok:
  assumes ok and C: "common_spec C" and X: "hex_spec X enc" "find_spec X" and F: "dir_spec F rest" "small_dirs F rest fuel"
    and lib: "aws_cal_library_init (cal_platform S) (tool_lib st) = Inr lib1" "aws_cal_library_clean_up (cal_platform S) lib1 = Inr lib2"
    and it: "aws_directory_entry_iterator_new F scan = Some it" "corpus_files F rest (rest it) = map fst fs"
    and fs: "\<forall>f \<in> set fs. readable_corpus h F enc (tool_files st) f" "length fs < 2 ^ 31"
  shows "\<exists>w. run_main h C X F S fuel [(111, scan)] st =
    Inl (Exit 0 (st\<lparr>tool_lib := lib2, tool_released := w, tool_stdout := tool_stdout st @ reports enc sha V 0 fs,
      tool_stderr := tool_stderr st @ concat (map (verdicts enc sha V 0 \<circ> snd) fs)\<rparr>))"
proof -
  obtain vk where vk: "aws_ecc_key_pair_new_from_public_key (ecc_fns S) AWS_CAL_ECDSA_P256 (cursor_of corpus_x) (cursor_of corpus_y) =
      Inr vk" "is_vk vk"
    using new_vk [OF assms(1)] by blast
  have "length (rest it) < fuel" using F(2) it(1) by (auto simp: small_dirs_def)
  note walk = run_entries_ok [OF X(2) F this, of h C S "Some vk" 0 "st\<lparr>tool_lib := lib1\<rparr>", unfolded it(2)]
  have files: "run_files h C X F S (Some vk) 0 (map fst fs) (st\<lparr>tool_lib := lib1\<rparr>) =
      Inr (st\<lparr>tool_lib := lib1, tool_stdout := tool_stdout st @ reports enc sha V 0 fs,
        tool_stderr := tool_stderr st @ concat (map (verdicts enc sha V 0 \<circ> snd) fs)\<rparr>)"
    using run_files_ok [OF assms(1) C X(1) vk(2), of fs h F "st\<lparr>tool_lib := lib1\<rparr>" 0] fs by simp
  obtain k' w where "aws_ecc_key_pair_release (ecc_vt S) (Some vk) (tool_released st) = (Inr (), k', w)" using released by blast
  with lib it(1) vk(1) walk files show ?thesis by (intro exI [of _ w]) (simp add: run_main_def Let_def)
qed

end

context corpus_signer
begin

lemma produce_main_ok:
  assumes ok and C: "common_spec C" and X: "hex_spec X enc"
    and lib: "aws_cal_library_init (cal_platform S) (tool_lib st) = Inr lib1" "aws_cal_library_clean_up (cal_platform S) lib1 = Inr lib2"
    and dir: "output_directory h F (Some root) = Inr dir" and op: "aws_fopen_safe F (dir @ corpus_file_name) ''w''"
  shows "\<exists>sigs w. produce_main h C X F S [(111, root)] st =
      Inl (Exit 0 (st\<lparr>tool_lib := lib2, tool_released := w, tool_directories := tool_directories st @ [dir],
        tool_files := (tool_files st)(dir @ corpus_file_name \<mapsto> text_out h (sig_text enc sigs))\<rparr>)) \<and>
    genuine sha V sigs \<and> length sigs = max_iterations"
proof -
  obtain sigs pr w where p: "produce_corpus C X S (tool_released st) = Inr (pr, w)" "output_file pr = sig_text enc sigs"
      "unverified pr = []" "genuine sha V sigs" "length sigs = max_iterations"
    using produce_corpus_ok [OF assms(1) C X, of "tool_released st"] by blast
  have "produce_main h C X F S [(111, root)] st =
      Inl (Exit 0 (st\<lparr>tool_lib := lib2, tool_released := w, tool_directories := tool_directories st @ [dir],
        tool_files := (tool_files st)(dir @ corpus_file_name \<mapsto> text_out h (sig_text enc sigs))\<rparr>))"
    using lib dir op p(1-3) by (simp add: produce_main_def Let_def)
  with p(4,5) show ?thesis by blast
qed

end

end
