(* ===== verification/Services.thy ===== *)
theory Services
  imports Tools Platform_Digest_Spec Bcrypt_Ecc_Spec Openssl_Ecc_Spec Security_Ecc_Spec
begin

text \<open>
  The library as a program sees it on each of the three platforms: the vtables and the constructors that are in force when no other
  has been set. The locale \<open>sha256_stream\<close> is the contract of SHA256 that the programs under \<^verbatim>\<open>bin\<close> rely on; its clients prove from
  it what hashing in pieces and at once delivers, and every platform satisfies it.
\<close>

section \<open>The library on the three platforms\<close>

text \<open>The initial values of the replaceable constructors, and the vtables of the objects they make.\<close>

definition unix_services :: "aws_common \<Rightarrow> 'c evp_md_ctx_table \<Rightarrow> ('e, 'q, 'b) ec_api \<Rightarrow> 'p platform_fns \<Rightarrow>
    ('c, 'e ossl_key, 'p, 'e clean_up list) cal_services" where
  "unix_services C T E P = \<lparr>cal_platform = P, hash_vt = openssl_hash_vtable T,
     hash_fns = \<lparr>s_sha256_new_fn = (\<lambda>_. aws_sha256_default_new C T), s_sha1_new_fn = (\<lambda>_. aws_sha1_default_new C T),
       s_md5_new_fn = (\<lambda>_. aws_md5_default_new C T)\<rparr>,
     ecc_vt = ossl_ecc_vtable C E,
     ecc_fns = \<lparr>s_ecc_key_pair_new_from_public_key_fn = ossl_new_from_public_key_impl C E,
       s_ecc_key_pair_new_from_private_key_fn = ossl_new_from_private_key_impl C E\<rparr>\<rparr>"

definition windows_services :: "aws_common \<Rightarrow> der_tlv array_list_ops \<Rightarrow> ('a, 'c) cng_hash_api \<Rightarrow> ('b, 'k) cng_ecc_api \<Rightarrow>
    'p platform_fns \<Rightarrow> ('c, 'k bcrypt_key, 'p, 'k clean_up list) cal_services" where
  "windows_services C L H N P = \<lparr>cal_platform = P, hash_vt = bcrypt_hash_vtable H,
     hash_fns = \<lparr>s_sha256_new_fn = (\<lambda>_. bcrypt_sha256_default_new C H), s_sha1_new_fn = (\<lambda>_. bcrypt_sha1_default_new C H),
       s_md5_new_fn = (\<lambda>_. bcrypt_md5_default_new C H)\<rparr>,
     ecc_vt = bcrypt_ecc_vtable C L N,
     ecc_fns = \<lparr>s_ecc_key_pair_new_from_public_key_fn = bcrypt_new_from_public_key_impl C N,
       s_ecc_key_pair_new_from_private_key_fn = bcrypt_new_from_private_key_impl C N\<rparr>\<rparr>"

text \<open>On Darwin every algorithm has a vtable of its own; the programs use SHA256.\<close>

definition darwin_services :: "aws_common \<Rightarrow> 'c cc_hash_api \<Rightarrow> 'r sec_api \<Rightarrow> 'p platform_fns \<Rightarrow>
    ('c, 'r sec_key, 'p, 'r clean_up list) cal_services" where
  "darwin_services C H Z P = \<lparr>cal_platform = P, hash_vt = cc_sha256_vtable H,
     hash_fns = \<lparr>s_sha256_new_fn = (\<lambda>_. cc_sha256_default_new C H), s_sha1_new_fn = (\<lambda>_. cc_sha1_default_new C H),
       s_md5_new_fn = (\<lambda>_. cc_md5_default_new C H)\<rparr>,
     ecc_vt = s_key_pair_vtable C Z,
     ecc_fns = \<lparr>s_ecc_key_pair_new_from_public_key_fn = sec_new_from_public_key_impl C Z,
       s_ecc_key_pair_new_from_private_key_fn = sec_new_from_private_key_impl C Z\<rparr>\<rparr>"

section \<open>The contract of SHA256\<close>

text \<open>
  While \<open>ok\<close> holds: a new object has been fed nothing, an update of less than 4 GiB extends what it has been fed, and finalizing
  appends the digest.
\<close>

locale sha256_stream =
  fixes ok :: bool and S :: "('c, 'k, 'p, 'w) cal_services" and sha :: "bytes \<Rightarrow> bytes"
    and inv :: "'c aws_hash \<Rightarrow> bool" and fed :: "'c aws_hash \<Rightarrow> bytes option"
  assumes new_hash: "ok \<Longrightarrow> \<exists>h. aws_sha256_new (hash_fns S) = Inr h \<and> inv h \<and> fed h = Some []"
    and update_hash: "ok \<Longrightarrow> inv h \<Longrightarrow> fed h = Some m \<Longrightarrow> bytes_at (ptr cur) (cur_len cur) = Inr b \<Longrightarrow> length b < 2 ^ 32 \<Longrightarrow>
       \<exists>h'. aws_hash_update (hash_vt S) h cur = (Inr (), h') \<and> inv h' \<and> fed h' = Some (m @ b)"
    and finalize_hash: "ok \<Longrightarrow> inv h \<Longrightarrow> fed h = Some m \<Longrightarrow> valid_buf out \<Longrightarrow> 32 \<le> room out \<Longrightarrow>
       \<exists>h' out'. aws_hash_finalize (hash_vt S) h out 0 = (Inr (), h', out') \<and> appends out (sha m) (Some out')"
begin

lemma compute_whole:
  assumes "ok" and "bytes_at (ptr cur) (cur_len cur) = Inr m" and "length m < 2 ^ 32" and "valid_buf out" and "32 \<le> room out"
  shows "\<exists>out'. aws_sha256_compute (hash_vt S) (hash_fns S) cur out 0 = (Inr (), out') \<and> appends out (sha m) (Some out')"
proof -
  obtain h where h: "aws_sha256_new (hash_fns S) = Inr h" "inv h" "fed h = Some []" using new_hash [OF assms(1)] by blast
  obtain h1 where h1: "aws_hash_update (hash_vt S) h cur = (Inr (), h1)" "inv h1" "fed h1 = Some m"
    using update_hash [OF assms(1) h(2,3) assms(2,3)] by auto
  show ?thesis
    using finalize_hash [OF assms(1) h1(2,3) assms(4,5)] h h1
    by (auto simp: aws_sha256_compute_def compute_hash_def digest_compute_def)
qed

end

section \<open>The platforms satisfy the contract\<close>

interpretation unix_hash: sha256_stream "common_spec C \<and> evp_md_spec T msg H \<and> evp_md_reliable T" "unix_services C T E P"
  "H EVP_sha256" "hash_inv msg EVP_sha256" "hash_fed msg" for C T msg H E P
proof (unfold_locales, goal_cases)
  case 1
  then show ?case by (auto simp: unix_services_def aws_sha256_new_def intro: default_new_ok [of C T msg H EVP_sha256])
next
  case (2 h m cur b)
  then show ?case using openssl_hash.update_ok [of T msg H EVP_sha256 h m cur b] by (simp add: unix_services_def hash_update_eq)
next
  case (3 h m out)
  then show ?case using openssl_hash.finalize_ok [of T msg H EVP_sha256 h m out]
    by (auto simp: unix_services_def hash_finalize_eq digest_finalize_def)
qed

interpretation windows_hash: sha256_stream "common_spec C \<and> cng_hash_spec A msg H" "windows_services C L A N P"
  "H EVP_sha256" "hash_inv msg EVP_sha256" "hash_fed msg" for C A msg H L N P
proof (unfold_locales, goal_cases)
  case 1
  then show ?case by (auto simp: windows_services_def aws_sha256_new_def intro: cng_new_ok [of C A msg H EVP_sha256])
next
  case (2 h m cur b)
  then show ?case using cng_hash.update_ok [of A msg H EVP_sha256 h m cur b] by (simp add: windows_services_def hash_vtables)
next
  case (3 h m out)
  then show ?case using cng_hash.finalize_ok [of A msg H EVP_sha256 h m out]
    by (auto simp: windows_services_def hash_vtables aws_hash_finalize_def digest_finalize_def)
qed

interpretation darwin_hash: sha256_stream "common_spec C \<and> cc_hash_spec A msg H" "darwin_services C A Z P"
  "H EVP_sha256" "hash_inv msg EVP_sha256" "hash_fed msg" for C A msg H Z P
proof (unfold_locales, goal_cases)
  case 1
  then show ?case by (auto simp: darwin_services_def aws_sha256_new_def intro: cc_default_new_ok [of C A msg H EVP_sha256])
next
  case (2 h m cur b)
  then show ?case using cc_hash.update_ok [of A msg H EVP_sha256 h m cur b] hash_vtables(2) [of A EVP_sha256]
    by (simp add: darwin_services_def)
next
  case (3 h m out)
  then show ?case using cc_hash.finalize_ok [of A msg H EVP_sha256 h m out] hash_vtables(4) [of A EVP_sha256]
    by (auto simp: darwin_services_def aws_hash_finalize_def digest_finalize_def)
qed

text \<open>The state of the library in the witnesses, on a platform that keeps none of its own.\<close>

definition ref_lib :: "bool \<Rightarrow> common_call list \<Rightarrow> unit cal_state" where
  "ref_lib on calls = \<lparr>s_cal_library_initialized = on, common_calls = calls, platform = ()\<rparr>"

abbreviation ref_common_calls :: "common_call list" where
  "ref_common_calls \<equiv> [Common_library_init, Register_error_info, Register_log_subjects]"

lemma ref_life:
  "aws_cal_library_init (cal_platform (windows_services C L A N bcrypt_platform)) (ref_lib False []) = Inr (ref_lib True ref_common_calls)"
  "aws_cal_library_clean_up (cal_platform (windows_services C L A N bcrypt_platform)) (ref_lib True ref_common_calls) =
     Inr (ref_lib False (ref_common_calls @ [Unregister_log_subjects, Unregister_error_info, Common_library_clean_up]))"
  "aws_cal_library_init (cal_platform (darwin_services C B Z commoncrypto_platform)) (ref_lib False []) = Inr (ref_lib True ref_common_calls)"
  "aws_cal_library_clean_up (cal_platform (darwin_services C B Z commoncrypto_platform)) (ref_lib True ref_common_calls) =
     Inr (ref_lib False (ref_common_calls @ [Unregister_log_subjects, Unregister_error_info, Common_library_clean_up]))"
  by (simp_all add: aws_cal_library_init_def aws_cal_library_clean_up_def bcrypt_platform_def commoncrypto_platform_def ref_lib_def
      windows_services_def darwin_services_def)

end
