(* ===== verification/Corpus_Platforms.thy ===== *)
theory Corpus_Platforms
  imports Corpus_Spec Services
begin

text \<open>
  The library of each platform meets what the programs under \<^verbatim>\<open>bin\<close> require of it, if the cryptography below it computes
  the same hash function and implements ECDSA for the key of the programs. From this follows what a corpus of one platform leads to on
  another.
\<close>

section \<open>The key of the programs\<close>

lemma p256_coord [simp]: "coord_size AWS_CAL_ECDSA_P256 = 32"
  by (simp add: aws_ecc_key_coordinate_byte_size_from_curve_name_def)

lemma corpus_key_lengths [simp]: "length corpus_d = 32" "length corpus_x = 32" "length corpus_y = 32"
  by (simp_all add: corpus_d_def corpus_x_def corpus_y_def)

lemma corpus_key_parts [simp]: "key_part (cursor_of bs) (Some bs)"
  by (simp add: key_part_def cursor_of_def bytes_at_def)

lemma scalar_trim: "scalar r \<Longrightarrow> trim_zeros r \<noteq> []"
  by (simp add: scalar_def trim_zeros_nonempty)

section \<open>ECDSA on Unix\<close>

text \<open>
  What libcrypto computes for the key of the programs, where \<open>V\<close> tells which signatures ECDSA accepts: signing delivers an accepted
  signature of at most 72 bytes, and verifying decides \<open>V\<close>.
\<close>

definition unix_signs :: "('e, 'q, 'b) ec_api \<Rightarrow> (bytes \<Rightarrow> bytes \<Rightarrow> bytes \<Rightarrow> bool) \<Rightarrow> 'e \<Rightarrow> bool" where
  "unix_signs E V e \<longleftrightarrow> ECDSA_size E e = 72 \<and> (\<forall>hash. length hash = 32 \<longrightarrow> (\<exists>r s. scalar r \<and> scalar s \<and> V hash r s \<and>
     ECDSA_sign E e hash 72 = (True, ecdsa_sig r s, length (ecdsa_sig r s))))"

definition unix_verifies :: "('e, 'q, 'b) ec_api \<Rightarrow> (bytes \<Rightarrow> bytes \<Rightarrow> bytes \<Rightarrow> bool) \<Rightarrow> 'e \<Rightarrow> bool" where
  "unix_verifies E V e \<longleftrightarrow> (\<forall>hash r s. scalar r \<longrightarrow> scalar s \<longrightarrow> (ECDSA_verify E e hash (ecdsa_sig r s) = 1 \<longleftrightarrow> V hash r s))"

definition unix_ecdsa :: "('e, 'q, 'b) ec_api \<Rightarrow> (bytes \<Rightarrow> bytes \<Rightarrow> bytes \<Rightarrow> bool) \<Rightarrow> bool" where
  "unix_ecdsa E V \<longleftrightarrow> (\<exists>e. EC_KEY_new_by_curve_name E NID_X9_62_prime256v1 = Some e \<and>
     (\<exists>e1. EC_KEY_set_private_key E e (BN_bin2bn E corpus_d) = (True, e1) \<and> unix_signs E V e1) \<and>
     (\<exists>q e2. EC_POINT_set_affine_coordinates_GFp E e (BN_bin2bn E corpus_x) (BN_bin2bn E corpus_y) = Some q \<and>
        EC_KEY_set_public_key E e q = (True, e2) \<and> unix_verifies E V e2))"

definition unix_key :: "('e \<Rightarrow> bool) \<Rightarrow> 'e ossl_key \<Rightarrow> bool" where
  "unix_key Q k \<longleftrightarrow> (\<exists>e. ec_key (impl k) = Some e \<and> Q e)"

lemma hash_bytes_whole: "length bs < 2 ^ 31 \<Longrightarrow> hash_bytes (cursor_of bs) = Inr bs"
  by (rule hash_bytes_small) simp_all

lemma init_copy_whole: "init_copy_from_cursor C (cursor_of bs) = aws_byte_buf_init_copy C bs"
  by (simp add: init_copy_from_cursor_def bytes_at_def cursor_of_def)

lemma unix_new_vk:
  assumes C: "common_spec C" and E: "unix_ecdsa E V"
  shows "\<exists>vk. ossl_new_from_public_key_impl C E AWS_CAL_ECDSA_P256 (cursor_of corpus_x) (cursor_of corpus_y) = Inr vk \<and>
    unix_key (unix_verifies E V) vk"
proof -
  obtain e q e2 where e: "EC_KEY_new_by_curve_name E NID_X9_62_prime256v1 = Some e"
      "EC_POINT_set_affine_coordinates_GFp E e (BN_bin2bn E corpus_x) (BN_bin2bn E corpus_y) = Some q"
      "EC_KEY_set_public_key E e q = (True, e2)" "unix_verifies E V e2"
    using E by (auto simp: unix_ecdsa_def)
  obtain x y where "aws_byte_buf_init_copy C corpus_x = Inr x" "aws_byte_buf_init_copy C corpus_y = Inr y"
    using init_copy_law [OF C, of corpus_x] init_copy_law [OF C, of corpus_y] by auto
  with C e show ?thesis
    by (simp add: ossl_new_from_public_key_impl_def calloc_key_def s_curve_name_to_nid_def init_copy_whole hash_bytes_whole
        with_ec_key_def set_ec_key_def unix_key_def)
qed

lemma unix_new_sk:
  assumes C: "common_spec C" and E: "unix_ecdsa E V"
  shows "\<exists>sk. ossl_new_from_private_key_impl C E AWS_CAL_ECDSA_P256 (cursor_of corpus_d) = Inr sk \<and> unix_key (unix_signs E V) sk"
proof -
  obtain e e1 where e: "EC_KEY_new_by_curve_name E NID_X9_62_prime256v1 = Some e"
      "EC_KEY_set_private_key E e (BN_bin2bn E corpus_d) = (True, e1)" "unix_signs E V e1"
    using E by (auto simp: unix_ecdsa_def)
  from import_private_key [OF C _ e(1), of AWS_CAL_ECDSA_P256 "cursor_of corpus_d" corpus_d e1] e(2,3) show ?thesis
    by (auto simp: s_curve_name_to_nid_def unix_key_def)
qed

interpretation unix_corpus: corpus_signer
  "common_spec C \<and> evp_md_spec T msg H \<and> evp_md_reliable T \<and> unix_ecdsa E V" "unix_services C T E P" "H EVP_sha256" V
  "unix_key (unix_verifies E V)" "unix_key (unix_signs E V)" for C T msg H E V P
proof (unfold_locales, goal_cases)
  case (1 cur m out)
  then show ?case using unix_hash.compute_whole [of C T msg H cur m out E P] by blast
next
  case (2 m)
  then show ?case using evp_md_laws(4) [of T msg H EVP_sha256 m] by simp
next
  case 3
  then show ?case
    using unix_new_vk [of C E V] by (simp add: unix_services_def aws_ecc_key_pair_new_from_public_key_def)
next
  case (4 vk mc hash r s cur)
  then obtain e where e: "ec_key (impl vk) = Some e" "unix_verifies E V e" by (auto simp: unix_key_def)
  have len: "length (ecdsa_sig r s) \<le> 72" using 4 by (intro ecdsa_sig_length)
  have "bytes_at (ptr cur) (cur_len cur) = Inr (ecdsa_sig r s)"
    using cursor_at_take(1) [of cur "ecdsa_sig r s" "[]"] cursor_at_len [of cur] 4 by simp
  from ossl_verify_bytes [OF e(1) 4(3) _ this, of E] e(2) 4 len bytes_at_length [OF 4(3)] cursor_at_len [of cur] show ?case
    by (simp add: unix_services_def aws_ecc_key_pair_verify_signature_def ossl_ecc_vtable_def unix_verifies_def)
next
  case 5
  then show ?case by (simp add: unix_services_def ossl_ecc_vtable_def)
next
  case 6
  then show ?case
    using unix_new_sk [of C E V] by (simp add: unix_services_def aws_ecc_key_pair_new_from_private_key_def)
next
  case (7 sk)
  then show ?case
    by (auto simp: unix_services_def aws_ecc_key_pair_signature_length_def ossl_ecc_vtable_def s_signature_length_def unix_key_def
        unix_signs_def)
next
  case (8 sk mc hash out)
  then obtain e where e: "ec_key (impl sk) = Some e" "unix_signs E V e" by (auto simp: unix_key_def)
  then obtain r s where rs: "scalar r" "scalar s" "V hash r s" "ECDSA_sign E e hash 72 = (True, ecdsa_sig r s, length (ecdsa_sig r s))"
    using 8 by (auto simp: unix_signs_def)
  from ossl_sign_fits [OF e(1) 8(3) _ 8(5), of E "ecdsa_sig r s"] rs 8 ecdsa_sig_length [OF rs(1,2)] bytes_at_length [OF 8(3)] show ?case
    by (auto simp: unix_services_def aws_ecc_key_pair_sign_message_def ossl_ecc_vtable_def)
qed

section \<open>ECDSA on Windows\<close>

text \<open>CNG returns the two numbers of a signature one behind the other.\<close>

definition windows_signs :: "('b, 'k) cng_ecc_api \<Rightarrow> (bytes \<Rightarrow> bytes \<Rightarrow> bytes \<Rightarrow> bool) \<Rightarrow> 'k \<Rightarrow> bool" where
  "windows_signs N V h \<longleftrightarrow> (\<forall>hash. length hash = 32 \<longrightarrow> (\<exists>r s. scalar r \<and> scalar s \<and> V hash r s \<and>
     BCryptSignHash N (Some h) hash 96 = Some (r @ s)))"

definition windows_verifies :: "('b, 'k) cng_ecc_api \<Rightarrow> (bytes \<Rightarrow> bytes \<Rightarrow> bytes \<Rightarrow> bool) \<Rightarrow> 'k \<Rightarrow> bool" where
  "windows_verifies N V h \<longleftrightarrow> (\<forall>hash r s. scalar r \<longrightarrow> scalar s \<longrightarrow> BCryptVerifySignature N (Some h) hash (r @ s) = V hash r s)"

definition windows_ecdsa :: "('b, 'k) cng_ecc_api \<Rightarrow> (bytes \<Rightarrow> bytes \<Rightarrow> bytes \<Rightarrow> bool) \<Rightarrow> bool" where
  "windows_ecdsa N V \<longleftrightarrow> header_spec N \<and>
     (\<exists>h. BCryptImportKeyPair N (s_key_alg_handle_from_curve_name (s_load_alg_handle N) AWS_CAL_ECDSA_P256) BCRYPT_ECCPRIVATE_BLOB
        (key_blob N AWS_CAL_ECDSA_P256 None None (Some corpus_d)) True = Some h \<and> windows_signs N V h) \<and>
     (\<exists>h. BCryptImportKeyPair N (s_key_alg_handle_from_curve_name (s_load_alg_handle N) AWS_CAL_ECDSA_P256) BCRYPT_ECCPUBLIC_BLOB
        (key_blob N AWS_CAL_ECDSA_P256 (Some corpus_x) (Some corpus_y) None) False = Some h \<and> windows_verifies N V h)"

definition windows_key :: "('k \<Rightarrow> bool) \<Rightarrow> 'k bcrypt_key \<Rightarrow> bool" where
  "windows_key Q k \<longleftrightarrow> curve_name k = AWS_CAL_ECDSA_P256 \<and> (\<exists>h. ecc_key_handle (impl k) = Some h \<and> Q h)"

lemma windows_new_sk:
  assumes C: "common_spec C" and N: "windows_ecdsa N V"
  shows "\<exists>sk. bcrypt_new_from_private_key_impl C N AWS_CAL_ECDSA_P256 (cursor_of corpus_d) = Inr sk \<and>
    windows_key (windows_signs N V) sk"
proof -
  have H: "header_spec N" using N by (simp add: windows_ecdsa_def)
  obtain h where h: "BCryptImportKeyPair N (s_key_alg_handle_from_curve_name (s_load_alg_handle N) AWS_CAL_ECDSA_P256)
      BCRYPT_ECCPRIVATE_BLOB (key_blob N AWS_CAL_ECDSA_P256 None None (Some corpus_d)) True = Some h" "windows_signs N V h"
    using N by (auto simp: windows_ecdsa_def)
  from alloc_pair_ok [OF C H, of AWS_CAL_ECDSA_P256 null_cursor None null_cursor None "cursor_of corpus_d" "Some corpus_d"] h show ?thesis
    by (auto simp: bcrypt_new_from_private_key_impl_def built_key_def windows_key_def)
qed

lemma windows_new_vk:
  assumes C: "common_spec C" and N: "windows_ecdsa N V"
  shows "\<exists>vk. bcrypt_new_from_public_key_impl C N AWS_CAL_ECDSA_P256 (cursor_of corpus_x) (cursor_of corpus_y) = Inr vk \<and>
    windows_key (windows_verifies N V) vk"
proof -
  have H: "header_spec N" using N by (simp add: windows_ecdsa_def)
  obtain h where h: "BCryptImportKeyPair N (s_key_alg_handle_from_curve_name (s_load_alg_handle N) AWS_CAL_ECDSA_P256)
      BCRYPT_ECCPUBLIC_BLOB (key_blob N AWS_CAL_ECDSA_P256 (Some corpus_x) (Some corpus_y) None) False = Some h" "windows_verifies N V h"
    using N by (auto simp: windows_ecdsa_def)
  have len: "length bs = coord_size AWS_CAL_ECDSA_P256" if "Some bs \<in> {Some corpus_x, Some corpus_y, None}" for bs using that by auto
  have "key_part (cursor_of corpus_x) (Some corpus_x)" "key_part (cursor_of corpus_y) (Some corpus_y)" by simp_all
  from alloc_pair_ok [OF C H _ this key_part_null _ len] h show ?thesis
    by (auto simp: bcrypt_new_from_public_key_impl_def built_key_def windows_key_def)
qed

interpretation windows_corpus: corpus_signer
  "common_spec C \<and> array_list_spec L \<and> cng_hash_spec A msg H \<and> windows_ecdsa N V" "windows_services C L A N P" "H EVP_sha256" V
  "windows_key (windows_verifies N V)" "windows_key (windows_signs N V)" for C L A msg H N V P
proof (unfold_locales, goal_cases)
  case (1 cur m out)
  then show ?case using windows_hash.compute_whole [of C A msg H cur m out L N P] by blast
next
  case (2 m)
  then show ?case by (simp add: cng_hash_spec_def)
next
  case 3
  then show ?case
    using windows_new_vk [of C N V] by (simp add: windows_services_def aws_ecc_key_pair_new_from_public_key_def)
next
  case (4 vk mc hash r s cur)
  then obtain h where h: "curve_name vk = AWS_CAL_ECDSA_P256" "ecc_key_handle (impl vk) = Some h" "windows_verifies N V h"
    by (auto simp: windows_key_def)
  have "cur_len mc < 2 ^ 32" using bytes_at_length [OF 4(3)] 4(4) by simp
  from verify_signature_value [of C L vk mc hash r s cur N] this 4 h scalar_trim [of r] scalar_trim [of s] show ?case
    by (simp add: windows_services_def aws_ecc_key_pair_verify_signature_def bcrypt_ecc_vtable_def scalar_def ecdsa_sig_def
        windows_verifies_def)
next
  case 5
  then show ?case by (simp add: windows_services_def bcrypt_ecc_vtable_def)
next
  case 6
  then show ?case
    using windows_new_sk [of C N V] by (simp add: windows_services_def aws_ecc_key_pair_new_from_private_key_def)
next
  case (7 sk)
  then show ?case
    by (auto simp: windows_services_def aws_ecc_key_pair_signature_length_def bcrypt_ecc_vtable_def bcrypt_signature_length_def
        windows_key_def)
next
  case (8 sk mc hash out)
  then obtain h where h: "curve_name sk = AWS_CAL_ECDSA_P256" "ecc_key_handle (impl sk) = Some h" "windows_signs N V h"
    by (auto simp: windows_key_def)
  then obtain r s where rs: "scalar r" "scalar s" "V hash r s" "BCryptSignHash N (Some h) hash 96 = Some (r @ s)"
    using 8 by (auto simp: windows_signs_def)
  have len: "cur_len mc < 2 ^ 32" "bcrypt_signature_length sk = 72" using bytes_at_length [OF 8(3)] 8(4) h(1) by (simp_all add: bcrypt_signature_length_def)
  from bcrypt_sign_ok [of C L sk mc hash N r s out "ecdsa_sig r s"] 8 h rs len scalar_trim [OF rs(1)] scalar_trim [OF rs(2)]
    ecdsa_sig_length [OF rs(1,2)]
  have "\<exists>out'. bcrypt_sign_message C L N sk mc out = (Inr (), out') \<and> appends out (ecdsa_sig r s) (Some out')"
    by (simp add: scalar_def ecdsa_sig_def)
  with rs show ?case by (auto simp: windows_services_def aws_ecc_key_pair_sign_message_def bcrypt_ecc_vtable_def)
qed

section \<open>ECDSA on Darwin\<close>

definition darwin_signs :: "'r sec_api \<Rightarrow> (bytes \<Rightarrow> bytes \<Rightarrow> bytes \<Rightarrow> bool) \<Rightarrow> 'r \<Rightarrow> bool" where
  "darwin_signs Z V k \<longleftrightarrow> (\<forall>hash. length hash = 32 \<longrightarrow> (\<exists>r s. scalar r \<and> scalar s \<and> V hash r s \<and>
     SecKeyCreateSignature Z k hash = (Some (ecdsa_sig r s), False)))"

definition darwin_verifies :: "'r sec_api \<Rightarrow> (bytes \<Rightarrow> bytes \<Rightarrow> bytes \<Rightarrow> bool) \<Rightarrow> 'r \<Rightarrow> bool" where
  "darwin_verifies Z V k \<longleftrightarrow> (\<forall>hash r s. scalar r \<longrightarrow> scalar s \<longrightarrow> SecKeyVerifySignature Z k hash (ecdsa_sig r s) = V hash r s)"

definition darwin_ecdsa :: "'r sec_api \<Rightarrow> (bytes \<Rightarrow> bytes \<Rightarrow> bytes \<Rightarrow> bool) \<Rightarrow> bool" where
  "darwin_ecdsa Z V \<longleftrightarrow> cf_spec Z \<and>
     (\<exists>k. SecKeyCreateWithData Z (s_preamble # replicate 64 0 @ corpus_d) [KeyType_ECSECPrimeRandom, KeyClass kSecAttrKeyClassPrivate,
        KeySizeInBits_address 256, CanSign True, CanVerify False, CanDerive True] = (Some k, False) \<and> darwin_signs Z V k) \<and>
     (\<exists>k. SecKeyCreateWithData Z (s_preamble # corpus_x @ corpus_y) [KeyType_ECSECPrimeRandom, KeyClass kSecAttrKeyClassPublic,
        KeySizeInBits_address 256, CanSign False, CanVerify True, CanDerive False] = (Some k, False) \<and> darwin_verifies Z V k)"

definition darwin_sk :: "('r \<Rightarrow> bool) \<Rightarrow> 'r sec_key \<Rightarrow> bool" where
  "darwin_sk Q k \<longleftrightarrow> curve_name k = AWS_CAL_ECDSA_P256 \<and> (\<exists>r. priv_key_ref (impl k) = Some r \<and> Q r)"

definition darwin_vk :: "('r \<Rightarrow> bool) \<Rightarrow> 'r sec_key \<Rightarrow> bool" where
  "darwin_vk Q k \<longleftrightarrow> (\<exists>r. pub_key_ref (impl k) = Some r \<and> Q r)"

lemma darwin_new_vk:
  assumes C: "common_spec C" and Z: "darwin_ecdsa Z V"
  shows "\<exists>vk. sec_new_from_public_key_impl C Z AWS_CAL_ECDSA_P256 (cursor_of corpus_x) (cursor_of corpus_y) = Inr vk \<and>
    darwin_vk (darwin_verifies Z V) vk"
proof -
  have cf: "cf_spec Z" using Z by (simp add: darwin_ecdsa_def)
  obtain r where r: "SecKeyCreateWithData Z (s_preamble # corpus_x @ corpus_y) [KeyType_ECSECPrimeRandom,
      KeyClass kSecAttrKeyClassPublic, KeySizeInBits_address 256, CanSign False, CanVerify True, CanDerive False] = (Some r, False)"
      "darwin_verifies Z V r"
    using Z by (auto simp: darwin_ecdsa_def)
  obtain k where k: "sec_alloc_pair_and_init_buffers C Z AWS_CAL_ECDSA_P256 (cursor_of corpus_x) (cursor_of corpus_y) null_cursor = Inr k"
      "sec_key_data Z k = Inr (s_preamble # corpus_x @ corpus_y)" "buf_len (pub_x k) = 32"
    using sec_alloc_full [OF C cf, of 32 AWS_CAL_ECDSA_P256 "cursor_of corpus_x" corpus_x "cursor_of corpus_y" corpus_y null_cursor None "[]"]
    by auto
  with r show ?thesis by (simp add: sec_new_from_public_key_impl_def darwin_vk_def)
qed

text \<open>Without a public key zeros stand in for the coordinates.\<close>

lemma sec_alloc_private:
  assumes C: "common_spec C" and Z: "cf_spec Z" and d: "length ds = 32"
  shows "\<exists>k. sec_alloc_pair_and_init_buffers C Z AWS_CAL_ECDSA_P256 null_cursor null_cursor (cursor_of ds) = Inr k \<and>
    sec_key_data Z k = Inr (s_preamble # replicate 64 0 @ ds) \<and> curve_name k = AWS_CAL_ECDSA_P256 \<and> buf_len (priv_d k) = 32"
proof -
  obtain b where b: "aws_byte_buf_init C 97 = Inr b" "fresh_buf 97 b" using init_law [OF C, of 97] by auto
  then have v: "valid_buf b" "room b = 97" "contents b = []"
    by (auto simp: fresh_buf_def room_def contents_def split: option.splits)
  define b1 where "b1 = write_unchecked (aws_byte_buf_write_u8 C b s_preamble) b"
  have b1: "appends b [s_preamble] (Some b1)" unfolding b1_def by (rule write_u8_unchecked [OF C v(1)]) (simp add: v)
  have v1: "valid_buf b1" "room b1 = 96" using b1 appends_room [OF b1] v(2) by (simp_all add: appends_def)
  define b2 where "b2 = write_unchecked (aws_byte_buf_write_u8_n C b1 0 64) b1"
  have b2: "appends b1 (replicate 64 0) (Some b2)"
    using write_laws(5) [OF C v1(1), of 64 0] v1(2) by (auto simp: b2_def write_unchecked_def appends_def split: option.splits)
  have v2: "valid_buf b2" "room b2 = 32" using b2 appends_room [OF b2] v1(2) by (simp_all add: appends_def)
  have "bytes_at (ptr (cursor_of ds)) (cur_len (cursor_of ds)) = Inr ds" by simp
  from append_unchecked_ok [OF C v2(1) this] v2(2) d obtain b3 where
      b3: "append_unchecked C b2 (cursor_of ds) = Inr b3" "appends b2 ds (Some b3)" by auto
  have v3: "valid_buf b3" "contents b3 = s_preamble # replicate 64 0 @ ds"
    using b1 b2 b3(2) v(3) by (simp_all add: appends_def)
  then obtain post where mem: "buffer b3 = Some ((s_preamble # replicate 64 0 @ ds) @ post)" using memory_of [OF v3] by blast
  define k where "k = sec_point_into False 32 ((sec_zero_key AWS_CAL_ECDSA_P256 :: 'a sec_key)\<lparr>key_buf := b3\<rparr>)"
  have run: "sec_alloc_pair_and_init_buffers C Z AWS_CAL_ECDSA_P256 null_cursor null_cursor (cursor_of ds) = Inr k"
    using C Z b(1) b3(1) d
    by (simp add: sec_alloc_pair_and_init_buffers_def cf_spec_def wrong_length_def null_cursor_def cursor_of_def k_def b1_def b2_def)
  have k: "key_buf k = b3" "curve_name k = AWS_CAL_ECDSA_P256" "buf_len (priv_d k) = 32"
    using mem by (simp_all add: k_def sec_point_into_def sec_zero_key_def array_buf_def)
  have "sec_key_data Z k = Inr (s_preamble # replicate 64 0 @ ds)"
    using bytes_at_from_buf [OF v3(1)] v3(2) Z k(1) by (simp add: sec_key_data_def cf_spec_def aws_byte_cursor_from_buf_def)
  with run k show ?thesis by blast
qed

lemma darwin_new_sk:
  assumes C: "common_spec C" and Z: "darwin_ecdsa Z V"
  shows "\<exists>sk. sec_new_from_private_key_impl C Z AWS_CAL_ECDSA_P256 (cursor_of corpus_d) = Inr sk \<and> darwin_sk (darwin_signs Z V) sk"
proof -
  have cf: "cf_spec Z" using Z by (simp add: darwin_ecdsa_def)
  obtain r where "SecKeyCreateWithData Z (s_preamble # replicate 64 0 @ corpus_d) [KeyType_ECSECPrimeRandom,
      KeyClass kSecAttrKeyClassPrivate, KeySizeInBits_address 256, CanSign True, CanVerify False, CanDerive True] = (Some r, False)"
      "darwin_signs Z V r"
    using Z by (auto simp: darwin_ecdsa_def)
  with sec_alloc_private [OF C cf, of corpus_d] show ?thesis
    by (auto simp: sec_new_from_private_key_impl_def darwin_sk_def)
qed

interpretation darwin_corpus: corpus_signer
  "common_spec C \<and> cc_hash_spec A msg H \<and> darwin_ecdsa Z V" "darwin_services C A Z P" "H EVP_sha256" V
  "darwin_vk (darwin_verifies Z V)" "darwin_sk (darwin_signs Z V)" for C A msg H Z V P
proof (unfold_locales, goal_cases)
  case (1 cur m out)
  then show ?case using darwin_hash.compute_whole [of C A msg H cur m out Z P] by blast
next
  case (2 m)
  then show ?case by (simp add: cc_hash_spec_def)
next
  case 3
  then show ?case
    using darwin_new_vk [of C Z V] by (simp add: darwin_services_def aws_ecc_key_pair_new_from_public_key_def)
next
  case (4 vk mc hash r s cur)
  then obtain k where k: "pub_key_ref (impl vk) = Some k" "darwin_verifies Z V k" by (auto simp: darwin_vk_def)
  have cf: "cf_spec Z" using 4 by (simp add: darwin_ecdsa_def)
  have "bytes_at (ptr cur) (cur_len cur) = Inr (ecdsa_sig r s)"
    using cursor_at_take(1) [of cur "ecdsa_sig r s" "[]"] cursor_at_len [of cur] 4 by simp
  with 4 k cf show ?case
    by (simp add: darwin_services_def aws_ecc_key_pair_verify_signature_def s_key_pair_vtable_def sec_verify_signature_def
        darwin_verifies_def cf_spec_def)
next
  case 5
  then show ?case by (simp add: darwin_services_def s_key_pair_vtable_def)
next
  case 6
  then show ?case
    using darwin_new_sk [of C Z V] by (simp add: darwin_services_def aws_ecc_key_pair_new_from_private_key_def)
next
  case (7 sk)
  then show ?case
    by (auto simp: darwin_services_def aws_ecc_key_pair_signature_length_def s_key_pair_vtable_def sec_signature_length_def darwin_sk_def)
next
  case (8 sk mc hash out)
  then obtain k where k: "priv_key_ref (impl sk) = Some k" "darwin_signs Z V k" by (auto simp: darwin_sk_def)
  then obtain r s where rs: "scalar r" "scalar s" "V hash r s" "SecKeyCreateSignature Z k hash = (Some (ecdsa_sig r s), False)"
    using 8 by (auto simp: darwin_signs_def)
  have cf: "cf_spec Z" and C: "common_spec C" using 8 by (simp_all add: darwin_ecdsa_def)
  have "bytes_at (ptr (cursor_of (ecdsa_sig r s))) (cur_len (cursor_of (ecdsa_sig r s))) = Inr (ecdsa_sig r s)" by simp
  from append_ok [OF C 8(5) this] 8(6) ecdsa_sig_length [OF rs(1,2)] obtain out' where
      "buf_append C out (cursor_of (ecdsa_sig r s)) = Inr out'" "appends out (ecdsa_sig r s) (Some out')" by auto
  with 8 k rs cf show ?case
    by (auto simp: darwin_services_def aws_ecc_key_pair_sign_message_def s_key_pair_vtable_def sec_sign_message_def cf_spec_def)
qed

section \<open>Properties\<close>


text \<open>
  Claim C13. The checking program counts exactly the signatures that ECDSA does not accept: for every directory below the scanned one that has
  a corpus file, if every line of these files, as read on that platform, is the hexadecimal DER encoding of two nonzero numbers of at most 32 bytes, it reports as failures the lines whose signature is not
  one of the message of that line, each with the hash it should have signed, in their order, and then the number of failures and of lines. It
  ends with status 0 whatever the number of failures.
\<close>

theorem corpus_verdict:
  assumes "corpus_verifier ok S sha V is_vk" "ok" and "common_spec C" and "hex_spec X enc" "find_spec X"
    and "dir_spec F rest" "small_dirs F rest fuel"
    and "aws_cal_library_init (cal_platform S) (tool_lib st) = Inr lib1" "aws_cal_library_clean_up (cal_platform S) lib1 = Inr lib2"
    and "aws_directory_entry_iterator_new F scan = Some it" "corpus_files F rest (rest it) = map fst fs"
    and "\<forall>f \<in> set fs. readable_corpus h F enc (tool_files st) f" "length fs < 2 ^ 31"
  shows "\<exists>w. run_main h C X F S fuel [(111, scan)] st =
    Inl (Exit 0 (st\<lparr>tool_lib := lib2, tool_released := w, tool_stdout := tool_stdout st @ reports enc sha V 0 fs,
      tool_stderr := tool_stderr st @ concat (map (verdicts enc sha V 0 \<circ> snd) fs)\<rparr>))"
  by (rule corpus_verifier.run_main_ok [OF assms])

lemma genuine_reports:
  "genuine sha V sigs \<Longrightarrow> reports enc sha V 0 [(f, sigs)] = [Running_corpus f, Verification_complete 1 0 (int (length sigs))]"
  by (simp add: genuine_verdicts)

lemma genuine_readable:
  assumes X: "hex_spec X enc" and g: "genuine sha V sigs" "length sigs < 2 ^ 31" and h: "h \<noteq> Host_windows \<or> h' = Host_windows"
    and f: "aws_fopen_safe F f ''r''" "files f = Some (text_out h (sig_text enc sigs))"
  shows "readable_corpus h' F enc files (f, sigs)"
  using g f corpus_read_back [OF X h] by (simp add: readable_corpus_def genuine_def sig_text_def)

text \<open>
  Claim C11. A corpus is accepted on every platform: when the producing program runs on one platform, it ends with status 0 and has found each of
  its signatures valid, and the checking program on another, given the file it wrote, reports no failure in 10000 signatures. This holds
  unless the file was written on Windows and is read elsewhere.
\<close>

theorem corpus_round_trip:
  assumes S: "corpus_signer ok S sha V is_vk is_sk" "ok" and S': "corpus_verifier ok' S' sha V is_vk'" "ok'"
    and C: "common_spec C" and X: "hex_spec X enc" "find_spec X" and h: "h \<noteq> Host_windows \<or> h' = Host_windows"
    and lib: "aws_cal_library_init (cal_platform S) (tool_lib st) = Inr lib1" "aws_cal_library_clean_up (cal_platform S) lib1 = Inr lib2"
    and dir: "output_directory h F (Some root) = Inr dir" "aws_fopen_safe F (dir @ corpus_file_name) ''w''"
    and F': "dir_spec F' rest" "small_dirs F' rest fuel"
    and lib': "aws_cal_library_init (cal_platform S') (tool_lib st') = Inr lib1'" "aws_cal_library_clean_up (cal_platform S') lib1' = Inr lib2'"
    and it: "aws_directory_entry_iterator_new F' scan = Some it" "corpus_files F' rest (rest it) = [dir @ corpus_file_name]"
      "aws_fopen_safe F' (dir @ corpus_file_name) ''r''"
  shows "\<exists>st1 st2. produce_main h C X F S [(111, root)] st = Inl (Exit 0 st1) \<and> tool_stderr st1 = tool_stderr st \<and>
    run_main h' C X F' S' fuel [(111, scan)] (st'\<lparr>tool_files := tool_files st1\<rparr>) = Inl (Exit 0 st2) \<and>
    tool_stdout st2 = tool_stdout st' @ [Running_corpus (dir @ corpus_file_name), Verification_complete 1 0 10000] \<and>
    tool_stderr st2 = tool_stderr st'"
proof -
  let ?f = "dir @ corpus_file_name"
  obtain sigs w where p: "produce_main h C X F S [(111, root)] st =
      Inl (Exit 0 (st\<lparr>tool_lib := lib2, tool_released := w, tool_directories := tool_directories st @ [dir],
        tool_files := (tool_files st)(?f \<mapsto> text_out h (sig_text enc sigs))\<rparr>))" "genuine sha V sigs" "length sigs = max_iterations"
    using corpus_signer.produce_main_ok [OF S C X(1) lib dir] by blast
  let ?files = "(tool_files st)(?f \<mapsto> text_out h (sig_text enc sigs))"
  have "readable_corpus h' F' enc ?files (?f, sigs)"
    using p(3) it(3) by (intro genuine_readable [OF X(1) p(2) _ h]) simp_all
  then have "\<forall>f \<in> set [(?f, sigs)]. readable_corpus h' F' enc (tool_files (st'\<lparr>tool_files := ?files\<rparr>)) f" by simp
  then obtain w' where "run_main h' C X F' S' fuel [(111, scan)] (st'\<lparr>tool_files := ?files\<rparr>) =
    Inl (Exit 0 (st'\<lparr>tool_files := ?files, tool_lib := lib2', tool_released := w',
      tool_stdout := tool_stdout st' @ reports enc sha V 0 [(?f, sigs)],
      tool_stderr := tool_stderr st' @ concat (map (verdicts enc sha V 0 \<circ> snd) [(?f, sigs)])\<rparr>))"
    using corpus_verifier.run_main_ok [OF S' C X F', of "st'\<lparr>tool_files := ?files\<rparr>" lib1' lib2' scan it "[(?f, sigs)]" h'] lib' it(1,2)
    by fastforce
  with p(1,3) genuine_verdicts [OF p(2)] genuine_reports [OF p(2), of enc ?f] show ?thesis by simp
qed

lemma check_corpus_crlf:
  assumes C: "common_spec C" and X: "hex_spec X enc" and g: "genuine sha V sigs" "sigs = (r, s) # rest"
  shows "\<exists>st. check_corpus C X S vk (text_out Host_windows (sig_text enc sigs)) = Inl (Exit (- 1) st) \<and>
    check_stderr st = [Invalid_line (enc (ecdsa_sig r s) @ [carriage_return])]"
proof -
  let ?line = "enc (ecdsa_sig r s) @ [carriage_return]" and ?rest = "text_out Host_windows (sig_text enc rest)"
  have out: "text_out Host_windows (sig_text enc sigs) = ?line @ newline # ?rest"
    using text_out_line [OF enc_clean(2) [OF X]] by (simp add: g(2) sig_text_def corpus_text_Cons)
  have "length (ecdsa_sig r s) \<le> 72" using g by (intro ecdsa_sig_length) (auto simp: genuine_def)
  then have len: "Suc (length ?line) < 1024" using hex_laws(1) [OF X] by simp
  have clean: "newline \<notin> set ?line" "0 \<notin> set ?line" using enc_clean [OF X] by simp_all
  note line = line_cursor_bytes [OF clean(2) len]
  have fail: "\<exists>e out'. aws_hex_decode X (line_cursor (?line @ [newline])) b = (Inl (Raised e), out')" for b
    by (rule hex_laws(5) [OF X line(1) _ hex_digit_not(3)]) simp
  obtain b1 b2 where b: "or_zero (aws_byte_buf_init C 1024) = Inr b1" "or_zero (aws_byte_buf_init C 32) = Inr b2"
    using new_empty [OF C, of 1024] new_empty [OF C, of 32] by auto
  let ?st = "\<lparr>hex_decoded_buf = b1, signed_value = b2, to_hash = b1, signatures_processed = 0, signatures_failed = 0, check_stderr = []\<rparr>"
  obtain st where "check_line C X S vk (?line @ [newline]) ?st = Inl (Exit (- 1) st)" "check_stderr st = [Invalid_line ?line]"
    using fail [of b1] line(2) by (auto simp: check_line_def Let_def)
  moreover have "check_corpus C X S vk (?line @ newline # ?rest) = check_lines C X S vk (?line @ newline # ?rest) ?st"
    using b by (simp add: check_corpus_def)
  moreover have "check_lines C X S vk (?line @ newline # ?rest) ?st =
      (case check_line C X S vk (?line @ [newline]) ?st of Inl e \<Rightarrow> Inl e | Inr st \<Rightarrow> check_lines C X S vk ?rest st)"
    by (subst check_lines.simps) (simp only: fgets_line [OF clean(1) len] option.case prod.case)
  ultimately show ?thesis by (simp only: out sum.case) blast
qed

text \<open>
  Claim C36. A corpus written on Windows is refused elsewhere: its lines end in a carriage return and a newline, of which the checking program strips one,
  so that it takes the first line for invalid hexadecimal text and ends with status -1 before it has checked a signature.
\<close>

theorem corpus_from_windows:
  assumes S: "corpus_signer ok S sha V is_vk is_sk" "ok" and S': "corpus_verifier ok' S' sha V is_vk'" "ok'"
    and C: "common_spec C" and X: "hex_spec X enc" "find_spec X" and h: "h' \<noteq> Host_windows"
    and lib: "aws_cal_library_init (cal_platform S) (tool_lib st) = Inr lib1" "aws_cal_library_clean_up (cal_platform S) lib1 = Inr lib2"
    and dir: "output_directory Host_windows F (Some root) = Inr dir" "aws_fopen_safe F (dir @ corpus_file_name) ''w''"
    and F': "dir_spec F' rest" "small_dirs F' rest fuel"
    and lib': "aws_cal_library_init (cal_platform S') (tool_lib st') = Inr lib1'"
    and it: "aws_directory_entry_iterator_new F' scan = Some it" "corpus_files F' rest (rest it) = [dir @ corpus_file_name]"
      "aws_fopen_safe F' (dir @ corpus_file_name) ''r''"
  shows "\<exists>st1 st2 r s. produce_main Host_windows C X F S [(111, root)] st = Inl (Exit 0 st1) \<and> tool_stderr st1 = tool_stderr st \<and>
    V (sha []) r s \<and> run_main h' C X F' S' fuel [(111, scan)] (st'\<lparr>tool_files := tool_files st1\<rparr>) = Inl (Exit (- 1) st2) \<and>
    tool_stderr st2 = tool_stderr st' @ [Invalid_line (enc (ecdsa_sig r s) @ [carriage_return])]"
proof -
  let ?f = "dir @ corpus_file_name"
  obtain sigs w where p: "produce_main Host_windows C X F S [(111, root)] st =
      Inl (Exit 0 (st\<lparr>tool_lib := lib2, tool_released := w, tool_directories := tool_directories st @ [dir],
        tool_files := (tool_files st)(?f \<mapsto> text_out Host_windows (sig_text enc sigs))\<rparr>))" "genuine sha V sigs"
      "length sigs = max_iterations"
    using corpus_signer.produce_main_ok [OF S C X(1) lib dir] by blast
  let ?files = "(tool_files st)(?f \<mapsto> text_out Host_windows (sig_text enc sigs))"
  obtain r s tail where rs: "sigs = (r, s) # tail" using p(3) by (cases sigs) auto
  have "V (sha (corpus_message 0)) (fst (sigs ! 0)) (snd (sigs ! 0))"
    using p(2) [unfolded genuine_def] p(3) by (metis zero_less_numeral)
  then have v: "V (sha []) r s" by (simp add: rs corpus_message_def)
  obtain vk where vk: "aws_ecc_key_pair_new_from_public_key (ecc_fns S') AWS_CAL_ECDSA_P256 (cursor_of corpus_x) (cursor_of corpus_y) = Inr vk"
    using corpus_verifier.new_vk [OF S'] by blast
  obtain ch where ch: "check_corpus C X S' (Some vk) (text_out Host_windows (sig_text enc sigs)) = Inl (Exit (- 1) ch)"
      "check_stderr ch = [Invalid_line (enc (ecdsa_sig r s) @ [carriage_return])]"
    using check_corpus_crlf [OF C X(1) p(2) rs] by blast
  let ?st = "st'\<lparr>tool_files := ?files, tool_lib := lib1'\<rparr>"
  have "length (rest it) < fuel" using F'(2) it(1) by (auto simp: small_dirs_def)
  note walk = run_entries_ok [OF X(2) F' this, of h' C S' "Some vk" 0 ?st, unfolded it(2)]
  have read: "text_in h' data = data" for data using h by (simp add: text_in_def)
  have "run_main h' C X F' S' fuel [(111, scan)] (st'\<lparr>tool_files := ?files\<rparr>) =
      Inl (Exit (- 1) (with_stderr (check_stderr ch) (print_out (Running_corpus ?f) ?st)))"
    using lib' it(1,3) vk walk ch(1) read by (simp add: run_main_def Let_def run_corpus_file_def print_out_def)
  with p(1) v ch(2) show ?thesis by (simp add: with_stderr_def print_out_def) blast
qed

section \<open>Witnesses\<close>

subsection \<open>Hexadecimal text and directories\<close>

definition hex_char :: "nat \<Rightarrow> byte" where
  "hex_char n = word_of_nat (if n < 10 then 48 + n else 87 + n)"

definition hex_value :: "byte \<Rightarrow> nat option" where
  "hex_value b = (let n = unat b in if 48 \<le> n \<and> n \<le> 57 then Some (n - 48) else if 97 \<le> n \<and> n \<le> 102 then Some (n - 87)
     else if 65 \<le> n \<and> n \<le> 70 then Some (n - 55) else None)"

definition ref_enc :: "bytes \<Rightarrow> bytes" where
  "ref_enc bs = concat (map (\<lambda>b. [hex_char (unat b div 16), hex_char (unat b mod 16)]) bs)"

fun ref_dec :: "bytes \<Rightarrow> bytes option" where
  "ref_dec [] = Some []"
| "ref_dec [a] = None"
| "ref_dec (a # b # s) = (case (hex_value a, hex_value b, ref_dec s) of
     (Some x, Some y, Some r) \<Rightarrow> Some (word_of_nat (16 * x + y) # r) | _ \<Rightarrow> None)"

definition ref_occurs :: "bytes \<Rightarrow> bytes \<Rightarrow> bool" where
  "ref_occurs s t \<longleftrightarrow> list_ex (\<lambda>i. take (length s) (drop i t) = s) [0..<Suc (length t)]"

definition ref_text :: text_ops where
  "ref_text = \<lparr>aws_hex_compute_decoded_len = (\<lambda>n. Inr ((n + 1) div 2)),
     aws_hex_decode = (\<lambda>cur out. case bytes_at (ptr cur) (cur_len cur) of
         Inl f \<Rightarrow> (Inl f, out)
       | Inr s \<Rightarrow> (case Option.bind (ref_dec s) (ref_write out) of
             None \<Rightarrow> (Inl (Raised (Lib_error 0)), out) | Some out' \<Rightarrow> (Inr (), out'))),
     aws_hex_encode = (\<lambda>cur out. case bytes_at (ptr cur) (cur_len cur) of
         Inl f \<Rightarrow> (Inl f, out)
       | Inr bs \<Rightarrow> (case ref_write out (ref_enc bs @ [0]) of
             None \<Rightarrow> (Inl (Raised AWS_ERROR_SHORT_BUFFER), out) | Some out' \<Rightarrow> (Inr (), out'))),
     aws_byte_cursor_find_exact = (\<lambda>cur s. case (bytes_at (ptr cur) (cur_len cur), bytes_at (ptr s) (cur_len s)) of
         (Inr t, Inr s') \<Rightarrow> if ref_occurs s' t then Inr cur else Inl (Raised (Lib_error 1))
       | _ \<Rightarrow> Inl (Undefined Out_of_bounds))\<rparr>"

lemma hex_char_digit:
  assumes "n < 16"
  shows "hex_digit (hex_char n)" and "hex_value (hex_char n) = Some n"
proof -
  have u: "unat (hex_char n) = (if n < 10 then 48 + n else 87 + n)"
    using assms by (simp add: hex_char_def unat_of_nat)
  then show "hex_value (hex_char n) = Some n" using assms by (auto simp: hex_value_def Let_def)
  show "hex_digit (hex_char n)" using u assms by (auto simp: hex_digit_def word_le_nat_alt)
qed

lemma hex_value_digit: "hex_value b = Some n \<Longrightarrow> hex_digit b"
  by (auto simp: hex_value_def hex_digit_def word_le_nat_alt Let_def split: if_splits)

lemma ref_dec_enc: "ref_dec (ref_enc bs) = Some bs"
proof (induction bs)
  case (Cons b bs)
  have "unat b < 256" using unsigned_less [of b] by simp
  then have "unat b div 16 < 16" "unat b mod 16 < 16" by simp_all
  with Cons show ?case by (simp add: ref_enc_def hex_char_digit)
qed (simp add: ref_enc_def)

lemma ref_dec_digits: "ref_dec s = Some bs \<Longrightarrow> b \<in> set s \<Longrightarrow> hex_digit b"
  by (induction s arbitrary: bs rule: ref_dec.induct) (auto split: option.splits prod.splits dest: hex_value_digit)

lemma ref_enc_digits: "length (ref_enc bs) = 2 * length bs" "b \<in> set (ref_enc bs) \<Longrightarrow> hex_digit b"
  using ref_dec_digits [OF ref_dec_enc] by (simp_all add: ref_enc_def length_concat comp_def sum_list_triv)

lemma hex_spec_ref: "hex_spec ref_text ref_enc"
  unfolding hex_spec_def
proof (intro conjI allI impI ballI)
  show "length (ref_enc bs) = 2 * length bs" for bs by (rule ref_enc_digits)
  show "b \<in> set (ref_enc bs) \<Longrightarrow> hex_digit b" for b bs by (rule ref_enc_digits)
next
  fix cur :: aws_byte_cursor and bs :: bytes and out :: aws_byte_buf
  assume a: "bytes_at (ptr cur) (cur_len cur) = Inr bs \<and> valid_buf out \<and> buf_len out = 0 \<and> 2 * length bs < capacity out"
  then obtain m where m: "buffer out = Some m" by (cases "buffer out") (auto simp: valid_buf_def)
  have "appends out (ref_enc bs @ [0]) (ref_write out (ref_enc bs @ [0]))" using a by (intro appends_ref_write) simp
  then show "\<exists>out' rest. aws_hex_encode ref_text cur out = (Inr (), out') \<and> valid_buf out' \<and> capacity out' = capacity out \<and>
      buffer out' = Some (ref_enc bs @ 0 # rest) \<and> (buf_len out' = 2 * length bs \<or> buf_len out' = 2 * length bs + 1)"
    using a m by (auto simp: ref_text_def ref_write_def room_def ref_enc_digits(1) overwrite_def appends_def)
next
  fix cur :: aws_byte_cursor and bs :: bytes and out :: aws_byte_buf
  assume a: "bytes_at (ptr cur) (cur_len cur) = Inr (ref_enc bs) \<and> valid_buf out \<and> buf_len out = 0 \<and> length bs \<le> capacity out"
  have "appends out bs (ref_write out bs)" using a by (intro appends_ref_write) simp
  then show "\<exists>out'. aws_hex_decode ref_text cur out = (Inr (), out') \<and> valid_buf out' \<and> capacity out' = capacity out \<and> contents out' = bs"
    using a by (auto simp: ref_text_def ref_dec_enc appends_def room_def contents_def split: option.splits)
next
  fix cur :: aws_byte_cursor and s :: bytes and out :: aws_byte_buf
  assume a: "bytes_at (ptr cur) (cur_len cur) = Inr s \<and> (\<exists>b \<in> set s. \<not> hex_digit b)"
  then have "ref_dec s = None" using ref_dec_digits [of s] by (cases "ref_dec s") auto
  with a show "\<exists>e out'. aws_hex_decode ref_text cur out = (Inl (Raised e), out')" by (simp add: ref_text_def)
qed

lemma ref_occurs: "ref_occurs s t \<longleftrightarrow> occurs s t"
proof
  assume "ref_occurs s t"
  then obtain i where "take (length s) (drop i t) = s" by (auto simp: ref_occurs_def list_ex_iff)
  then have "t = take i t @ s @ drop (length s) (drop i t)" by (metis append_take_drop_id)
  then show "occurs s t" unfolding occurs_def by blast
next
  assume "occurs s t"
  then obtain pre post where "t = pre @ s @ post" by (auto simp: occurs_def)
  then show "ref_occurs s t" by (auto simp: ref_occurs_def list_ex_iff intro: bexI [of _ "length pre"])
qed

lemma find_spec_ref: "find_spec ref_text"
  by (simp add: find_spec_def ref_text_def ref_occurs bytes_at_def cursor_of_def)

text \<open>A directory with one directory in it, which has one file.\<close>

definition ref_output_dir :: "host \<Rightarrow> bytes" where
  "ref_output_dir h = c_str ''r/'' @ sub_dir h"

definition ref_files :: "host \<Rightarrow> aws_directory_entry list file_ops" where
  "ref_files h = \<lparr>AWS_PATH_DELIM = 47, aws_fopen_safe = (\<lambda>_ _. True),
     aws_directory_entry_iterator_new = (\<lambda>p.
       if p = c_str ''r'' then Some [\<lparr>entry_path = ref_output_dir h, relative_path = sub_dir h, file_type = True\<rparr>]
       else if p = ref_output_dir h
       then Some [\<lparr>entry_path = ref_output_dir h @ corpus_file_name, relative_path = corpus_file_name, file_type = False\<rparr>]
       else None),
     aws_directory_entry_iterator_get_value = (\<lambda>es. case es of [] \<Rightarrow> None | e # _ \<Rightarrow> Some e),
     aws_directory_entry_iterator_next = (\<lambda>es. case es of [] \<Rightarrow> None | e # es \<Rightarrow> if es = [] then None else Some es)\<rparr>"

lemma ref_files_ok: "dir_spec (ref_files h) id" "small_dirs (ref_files h) id 2"
  by (auto simp: dir_spec_def small_dirs_def ref_files_def split: list.splits if_splits)

lemma ref_files_walk:
  "aws_directory_entry_iterator_new (ref_files h) (c_str ''r'') =
     Some [\<lparr>entry_path = ref_output_dir h, relative_path = sub_dir h, file_type = True\<rparr>]"
  "corpus_files (ref_files h) id (id [\<lparr>entry_path = ref_output_dir h, relative_path = sub_dir h, file_type = True\<rparr>]) =
     [ref_output_dir h @ corpus_file_name]"
  "output_directory h (ref_files h) (Some (c_str ''r'')) = Inr (ref_output_dir h)"
proof -
  have ne: "ref_output_dir h \<noteq> c_str ''r''" by (cases h) (simp_all add: ref_output_dir_def sub_dir_def c_str_def)
  have "occurs corpus_file_name corpus_file_name" unfolding occurs_def by (intro exI [of _ "[]"]) simp
  with ne show "corpus_files (ref_files h) id (id [\<lparr>entry_path = ref_output_dir h, relative_path = sub_dir h, file_type = True\<rparr>]) =
      [ref_output_dir h @ corpus_file_name]"
    by (simp add: corpus_files_def List.map_filter_simps corpus_file_of_def dir_corpus_file_def ref_files_def)
qed (simp_all add: ref_files_def output_directory_def ref_output_dir_def c_str_def)

subsection \<open>Libraries\<close>

text \<open>A signature of a hash is the hash with another first byte, and a constant.\<close>

definition ref_r :: "bytes \<Rightarrow> bytes" where
  "ref_r hash = 1 # drop 1 hash"

definition ref_s :: bytes where
  "ref_s = replicate 32 7"

definition ref_V :: "bytes \<Rightarrow> bytes \<Rightarrow> bytes \<Rightarrow> bool" where
  "ref_V hash r s \<longleftrightarrow> ecdsa_sig r s = ecdsa_sig (ref_r hash) ref_s"

lemma ref_scalars: "length hash = 32 \<Longrightarrow> scalar (ref_r hash)" "scalar ref_s" "ref_V hash (ref_r hash) ref_s"
  by (simp_all add: scalar_def ref_r_def ref_s_def ref_V_def)

definition ref_ec_corpus :: "(ref_bn \<times> ref_bn, ref_bn, ref_bn) ec_api" where
  "ref_ec_corpus = ref_ec\<lparr>EC_KEY_new_by_curve_name := (\<lambda>_. Some (bn_of [], bn_of [])), EC_KEY_set_private_key := (\<lambda>e _. (True, e)),
     EC_POINT_set_affine_coordinates_GFp := (\<lambda>_ _ _. Some (bn_of [])), EC_KEY_set_public_key := (\<lambda>e _. (True, e)),
     ECDSA_size := (\<lambda>_. 72),
     ECDSA_sign := (\<lambda>_ hash _. (True, ecdsa_sig (ref_r hash) ref_s, length (ecdsa_sig (ref_r hash) ref_s))),
     ECDSA_verify := (\<lambda>_ hash sig. if sig = ecdsa_sig (ref_r hash) ref_s then 1 else 0)\<rparr>"

definition ref_cng_corpus :: "(unit, bytes) cng_ecc_api" where
  "ref_cng_corpus = ref_cng_ecc\<lparr>BCryptSignHash := (\<lambda>_ hash _. Some (ref_r hash @ ref_s)),
     BCryptVerifySignature := (\<lambda>_ hash sig. ecdsa_sig (take 32 sig) (drop 32 sig) = ecdsa_sig (ref_r hash) ref_s)\<rparr>"

definition ref_sec_corpus :: "bytes sec_api" where
  "ref_sec_corpus = (ref_sec [])\<lparr>SecKeyCreateWithData := (\<lambda>d _. (Some d, False)),
     SecKeyCreateSignature := (\<lambda>_ hash. (Some (ecdsa_sig (ref_r hash) ref_s), False)),
     SecKeyVerifySignature := (\<lambda>_ hash sig. sig = ecdsa_sig (ref_r hash) ref_s)\<rparr>"

lemma ref_ecdsa_ok: "unix_ecdsa ref_ec_corpus ref_V" "windows_ecdsa ref_cng_corpus ref_V" "darwin_ecdsa ref_sec_corpus ref_V"
proof -
  show "unix_ecdsa ref_ec_corpus ref_V"
    using ref_scalars by (auto simp: unix_ecdsa_def unix_signs_def unix_verifies_def ref_ec_corpus_def ref_V_def)
  have "header_spec ref_cng_corpus" using header_spec_ref by (simp add: header_spec_def ref_cng_corpus_def)
  moreover have "windows_signs ref_cng_corpus ref_V k" for k
    using ref_scalars unfolding windows_signs_def ref_cng_corpus_def by fastforce
  moreover have "windows_verifies ref_cng_corpus ref_V k" for k
    by (auto simp: windows_verifies_def ref_cng_corpus_def ref_V_def scalar_def)
  moreover have "BCryptImportKeyPair ref_cng_corpus a t blob v = Some blob" for a t blob v
    by (simp add: ref_cng_corpus_def ref_cng_ecc_def)
  ultimately show "windows_ecdsa ref_cng_corpus ref_V" by (simp add: windows_ecdsa_def)
  show "darwin_ecdsa ref_sec_corpus ref_V"
    using ref_scalars cf_spec_ref [of "[]"]
    by (auto simp: darwin_ecdsa_def darwin_signs_def darwin_verifies_def ref_sec_corpus_def cf_spec_def ref_V_def)
qed

abbreviation ref_windows :: "((evp_md \<times> bytes) option, bytes bcrypt_key, unit, bytes clean_up list) cal_services" where
  "ref_windows \<equiv> windows_services ref_common ref_array_list ref_cng_hash ref_cng_corpus bcrypt_platform"

abbreviation ref_darwin :: "((evp_md \<times> bytes) option, bytes sec_key, unit, bytes clean_up list) cal_services" where
  "ref_darwin \<equiv> darwin_services ref_common ref_cc_hash ref_sec_corpus commoncrypto_platform"

lemma ref_services_ok:
  "corpus_signer True ref_windows (ref_digest EVP_sha256) ref_V (windows_key (windows_verifies ref_cng_corpus ref_V))
     (windows_key (windows_signs ref_cng_corpus ref_V))"
  "corpus_signer True ref_darwin (ref_digest EVP_sha256) ref_V (darwin_vk (darwin_verifies ref_sec_corpus ref_V))
     (darwin_sk (darwin_signs ref_sec_corpus ref_V))"
  using windows_corpus.corpus_signer_axioms [of ref_common ref_array_list ref_cng_hash id ref_digest ref_cng_corpus ref_V bcrypt_platform]
    darwin_corpus.corpus_signer_axioms [of ref_common ref_cc_hash id ref_digest ref_sec_corpus ref_V commoncrypto_platform]
  by (simp_all add: common_spec_ref array_list_spec_ref ref_hash_apis_ok ref_ecdsa_ok)

abbreviation ref_tool :: "(unit, bytes clean_up list) tool_state" where
  "ref_tool \<equiv> \<lparr>tool_lib = ref_lib False [], tool_released = [], tool_stdout = [], tool_stderr = [], tool_files = Map.empty,
     tool_directories = []\<rparr>"

lemma ref_tool_life:
  "aws_cal_library_init (cal_platform ref_windows) (tool_lib ref_tool) = Inr (ref_lib True ref_common_calls)"
  "aws_cal_library_init (cal_platform ref_darwin) (tool_lib ref_tool) = Inr (ref_lib True ref_common_calls)"
  by (simp_all add: ref_life)

lemma ref_open: "aws_fopen_safe (ref_files h) p m"
  by (simp add: ref_files_def)

lemma ref_verifiers:
  "corpus_verifier True ref_windows (ref_digest EVP_sha256) ref_V (windows_key (windows_verifies ref_cng_corpus ref_V))"
  "corpus_verifier True ref_darwin (ref_digest EVP_sha256) ref_V (darwin_vk (darwin_verifies ref_sec_corpus ref_V))"
  using ref_services_ok by (auto simp: corpus_signer_def)

lemma corpus_round_trip_witness:
  "\<exists>st1 st2. produce_main Host_apple ref_common ref_text (ref_files Host_apple) ref_darwin [(111, c_str ''r'')] ref_tool = Inl (Exit 0 st1) \<and>
     tool_stderr st1 = [] \<and> run_main Host_windows ref_common ref_text (ref_files Host_apple) ref_windows 2 [(111, c_str ''r'')]
       (ref_tool\<lparr>tool_files := tool_files st1\<rparr>) = Inl (Exit 0 st2) \<and>
     tool_stdout st2 = [Running_corpus (ref_output_dir Host_apple @ corpus_file_name), Verification_complete 1 0 10000] \<and>
     tool_stderr st2 = []"
  using corpus_round_trip [OF ref_services_ok(2) TrueI ref_verifiers(1) TrueI common_spec_ref hex_spec_ref find_spec_ref _ ref_tool_life(2) ref_life(4)
      ref_files_walk(3) ref_open ref_files_ok ref_tool_life(1) ref_life(2) ref_files_walk(1,2) ref_open, of Host_apple Host_windows]
  by simp

lemma corpus_from_windows_witness:
  "\<exists>st1 st2 r s. produce_main Host_windows ref_common ref_text (ref_files Host_windows) ref_windows [(111, c_str ''r'')] ref_tool =
       Inl (Exit 0 st1) \<and> tool_stderr st1 = [] \<and> ref_V (ref_digest EVP_sha256 []) r s \<and>
     run_main Host_apple ref_common ref_text (ref_files Host_windows) ref_darwin 2 [(111, c_str ''r'')]
       (ref_tool\<lparr>tool_files := tool_files st1\<rparr>) = Inl (Exit (- 1) st2) \<and>
     tool_stderr st2 = [Invalid_line (ref_enc (ecdsa_sig r s) @ [carriage_return])]"
  using corpus_from_windows [OF ref_services_ok(1) TrueI ref_verifiers(2) TrueI common_spec_ref hex_spec_ref find_spec_ref _ ref_tool_life(1) ref_life(2)
      ref_files_walk(3) ref_open ref_files_ok ref_tool_life(2) ref_files_walk(1,2) ref_open, of Host_apple]
  by simp

text \<open>Two lines, the second with a signature of another number.\<close>

definition ref_sigs :: "(bytes \<times> bytes) list" where
  "ref_sigs = [(ref_r (ref_digest EVP_sha256 []), ref_s), (replicate 32 1, 0 # replicate 31 8)]"

abbreviation ref_corpus_path :: bytes where
  "ref_corpus_path \<equiv> ref_output_dir Host_apple @ corpus_file_name"

lemma ref_bad_signature: "\<not> ref_V (replicate 32 1) (replicate 32 1) (0 # replicate 31 8)"
proof -
  have trim: "trim_zeros (0 # bs) = trim_zeros bs" "x \<noteq> 0 \<Longrightarrow> trim_zeros (replicate n x) = replicate n x" for x n bs
    by (simp_all add: trim_zeros_def s_trim_zeros_predicate_def dropWhile_replicate)
  have r: "ref_r (replicate 32 1) = replicate 32 1" by (simp add: ref_r_def flip: replicate_Suc)
  have "hd (replicate n x) = x" if "0 < n" for n and x :: byte using that by (cases n) simp_all
  then have "length (ecdsa_sig (replicate 32 1) (0 # replicate 31 8)) \<noteq> length (ecdsa_sig (replicate 32 1) (replicate 32 7))"
    by (simp add: ecdsa_sig_def trim signature_value_def der_frame_def der_length_bytes_def prim_body_def der_body_def)
  then show ?thesis by (auto simp: ref_V_def r ref_s_def)
qed

lemma ref_verdicts: "verdicts ref_enc (ref_digest EVP_sha256) ref_V 0 ref_sigs =
    [Failed_to_validate (ref_enc (ecdsa_sig (replicate 32 1) (0 # replicate 31 8))) (ref_enc (replicate 32 1))]"
proof -
  have m: "corpus_message 0 = []" and d: "ref_digest EVP_sha256 (corpus_message (Suc 0)) = replicate 32 1"
    by (simp_all add: ref_digest_def corpus_message_def)
  show ?thesis
    unfolding ref_sigs_def verdicts.simps verdict_def prod.case m d by (simp only: ref_bad_signature ref_scalars(3) if_True if_False append_Nil append_Nil2)
qed

lemma ref_readable:
  "readable_corpus Host_apple (ref_files Host_apple) ref_enc [ref_corpus_path \<mapsto> sig_text ref_enc ref_sigs] (ref_corpus_path, ref_sigs)"
  using ref_scalars(1) [of "ref_digest EVP_sha256 []"] ref_scalars(2)
  by (simp add: readable_corpus_def ref_open text_in_def ref_sigs_def scalar_def ref_digest_def)

lemma corpus_verdict_witness:
  "\<exists>st. run_main Host_apple ref_common ref_text (ref_files Host_apple) ref_darwin 2 [(111, c_str ''r'')]
       (ref_tool\<lparr>tool_files := [ref_corpus_path \<mapsto> sig_text ref_enc ref_sigs]\<rparr>) = Inl (Exit 0 st) \<and>
     tool_stdout st = [Running_corpus ref_corpus_path, Verification_complete 1 1 2] \<and>
     tool_stderr st = [Failed_to_validate (ref_enc (ecdsa_sig (replicate 32 1) (0 # replicate 31 8))) (ref_enc (replicate 32 1))]"
proof -
  let ?st = "ref_tool\<lparr>tool_files := [ref_corpus_path \<mapsto> sig_text ref_enc ref_sigs]\<rparr>"
  have n: "length ref_sigs = 2" by (simp add: ref_sigs_def)
  have lib: "aws_cal_library_init (cal_platform ref_darwin) (tool_lib ?st) = Inr (ref_lib True ref_common_calls)" using ref_tool_life(2) by simp
  have fs: "\<forall>f \<in> set [(ref_corpus_path, ref_sigs)]. readable_corpus Host_apple (ref_files Host_apple) ref_enc (tool_files ?st) f"
    using ref_readable by simp
  have files: "corpus_files (ref_files Host_apple) id (id [\<lparr>entry_path = ref_output_dir Host_apple, relative_path = sub_dir Host_apple,
      file_type = True\<rparr>]) = map fst [(ref_corpus_path, ref_sigs)]"
    using ref_files_walk(2) [of Host_apple] by simp
  show ?thesis
    using corpus_verdict [OF ref_verifiers(2) TrueI common_spec_ref hex_spec_ref find_spec_ref ref_files_ok lib ref_life(4) ref_files_walk(1)
        files fs] n by (auto simp: ref_verdicts)
qed

end
