(* ===== verification/Sha256_Profile.thy ===== *)
theory Sha256_Profile
  imports Services
begin

text \<open>
  The program that times SHA256, \<^verbatim>\<open>bin/sha256_profile/main.c\<close>: random data of four sizes are hashed in chunks of three sizes, after a first piece that is
  meant to align the rest, and then at once. Every failure is fatal. The functions return the digests they compute, which the program
  does not look at, and it is proved that they are all the same.
\<close>

section \<open>The program\<close>

text \<open>The clock, the random numbers and the address of a block of memory; \<open>'t\<close> is the state of the machine that the clock reads.\<close>

record 't profile_ops =
  aws_high_res_clock_get_ticks :: "'t \<Rightarrow> 64 word result \<times> 't"
  aws_device_random_buffer :: "aws_byte_buf \<Rightarrow> unit result \<times> aws_byte_buf"
  address_of :: "aws_byte_buf \<Rightarrow> nat"

text \<open>\<open>AWS_FATAL_ASSERT(!call)\<close>.\<close>

definition must :: "'a result \<Rightarrow> 'a result" where
  "must r = (case r of Inl (Raised _) \<Rightarrow> Inl Fatal | _ \<Rightarrow> r)"

definition must_do :: "unit result \<times> 's \<Rightarrow> 's result" where
  "must_do p = (case p of (r, s) \<Rightarrow> rbind (must r) (\<lambda>_. Inr s))"

definition ticks :: "'t profile_ops \<Rightarrow> 't \<Rightarrow> (64 word \<times> 't) result" where
  "ticks K t = (case aws_high_res_clock_get_ticks K t of (r, t) \<Rightarrow> rbind (must r) (\<lambda>now. Inr (now, t)))"

definition skip_unaligned :: "aws_common \<Rightarrow> 'c aws_hash_vtable \<Rightarrow> nat \<Rightarrow> nat \<Rightarrow> 'c aws_hash \<times> aws_byte_cursor \<Rightarrow>
    ('c aws_hash \<times> aws_byte_cursor) result" where
  "skip_unaligned C vt address alignment = (\<lambda>(hash, to_hash_seeked).
     if alignment \<noteq> 0
     then case aws_byte_cursor_advance C to_hash_seeked (address mod alignment) of (unaligned_chunk, to_hash_seeked) \<Rightarrow>
       rbind (must_do (aws_hash_update vt hash unaligned_chunk)) (\<lambda>hash. Inr (hash, to_hash_seeked))
     else Inr (hash, to_hash_seeked))"

primrec hash_chunks :: "aws_common \<Rightarrow> 'c aws_hash_vtable \<Rightarrow> nat \<Rightarrow> nat \<Rightarrow> 'c aws_hash \<times> aws_byte_cursor \<Rightarrow> 'c aws_hash result" where
  "hash_chunks C vt chunk_size 0 st = Inl Out_of_fuel"
| "hash_chunks C vt chunk_size (Suc n) st = (case st of (hash, to_hash_seeked) \<Rightarrow>
     if cur_len to_hash_seeked = 0 then Inr hash
     else case aws_byte_cursor_advance C to_hash_seeked
         (if chunk_size > cur_len to_hash_seeked then cur_len to_hash_seeked else chunk_size) of (chunk_to_process, to_hash_seeked) \<Rightarrow>
       rbind (must_do (aws_hash_update vt hash chunk_to_process)) (\<lambda>hash.
         hash_chunks C vt chunk_size n (hash, to_hash_seeked)))"

definition s_profile_streaming_hash_at_chunk_size :: "aws_common \<Rightarrow> 't profile_ops \<Rightarrow> ('c, 'k, 'p, 'w) cal_services \<Rightarrow> nat \<Rightarrow>
    aws_byte_cursor \<Rightarrow> nat \<Rightarrow> nat \<Rightarrow> 't \<Rightarrow> (bytes \<times> 64 word \<times> 't) result" where
  "s_profile_streaming_hash_at_chunk_size C K S address to_hash chunk_size alignment t =
     rbind (must (aws_sha256_new (hash_fns S))) (\<lambda>hash.
     rbind (must (aws_byte_buf_init C 32)) (\<lambda>output_buf.
     rbind (ticks K t) (\<lambda>(start, t).
     rbind (skip_unaligned C (hash_vt S) address alignment (hash, to_hash)) (\<lambda>st.
     rbind (hash_chunks C (hash_vt S) chunk_size (cur_len to_hash + 1) st) (\<lambda>hash.
     case aws_hash_finalize (hash_vt S) hash output_buf 0 of (r, _, output_buf) \<Rightarrow>
     rbind (must r) (\<lambda>_.
     rbind (ticks K t) (\<lambda>(stop, t). Inr (contents output_buf, stop - start, t))))))))"

definition s_profile_oneshot_hash :: "aws_common \<Rightarrow> 't profile_ops \<Rightarrow> ('c, 'k, 'p, 'w) cal_services \<Rightarrow> aws_byte_cursor \<Rightarrow> 't \<Rightarrow>
    (bytes \<times> 64 word \<times> 't) result" where
  "s_profile_oneshot_hash C K S to_hash t =
     rbind (must (aws_byte_buf_init C 32)) (\<lambda>output_buf.
     rbind (ticks K t) (\<lambda>(start, t).
     rbind (must_do (aws_sha256_compute (hash_vt S) (hash_fns S) to_hash output_buf 0)) (\<lambda>output_buf.
     rbind (ticks K t) (\<lambda>(stop, t). Inr (contents output_buf, stop - start, t)))))"

definition profile_runs :: "(nat \<times> nat) list" where
  "profile_runs = [(128, 8), (128, 16), (128, 64), (128, 128), (256, 8), (256, 16), (256, 64), (256, 128),
     (512, 8), (512, 16), (512, 64), (512, 128)]"

primrec streaming_runs :: "aws_common \<Rightarrow> 't profile_ops \<Rightarrow> ('c, 'k, 'p, 'w) cal_services \<Rightarrow> nat \<Rightarrow> aws_byte_cursor \<Rightarrow> (nat \<times> nat) list \<Rightarrow>
    't \<Rightarrow> (bytes list \<times> 't) result" where
  "streaming_runs C K S address to_hash [] t = Inr ([], t)"
| "streaming_runs C K S address to_hash (run # runs) t =
     rbind (s_profile_streaming_hash_at_chunk_size C K S address to_hash (fst run) (snd run) t) (\<lambda>(digest, _, t).
     rbind (streaming_runs C K S address to_hash runs t) (\<lambda>(digests, t). Inr (digest # digests, t)))"

definition s_run_profiles :: "aws_common \<Rightarrow> 't profile_ops \<Rightarrow> ('c, 'k, 'p, 'w) cal_services \<Rightarrow> nat \<Rightarrow> 't \<Rightarrow>
    (bytes list \<times> 't) result" where
  "s_run_profiles C K S to_hash_size t =
     rbind (must (aws_byte_buf_init C to_hash_size)) (\<lambda>buf.
     rbind (must_do (aws_device_random_buffer K buf)) (\<lambda>to_hash.
     let to_hash_cur = aws_byte_cursor_from_buf to_hash in
     rbind (streaming_runs C K S (address_of K to_hash) to_hash_cur profile_runs t) (\<lambda>(digests, t).
     rbind (s_profile_oneshot_hash C K S to_hash_cur t) (\<lambda>(digest, _, t). Inr (digests @ [digest], t)))))"

primrec run_sizes :: "aws_common \<Rightarrow> 't profile_ops \<Rightarrow> ('c, 'k, 'p, 'w) cal_services \<Rightarrow> nat list \<Rightarrow> 't \<Rightarrow> (bytes list list \<times> 't) result" where
  "run_sizes C K S [] t = Inr ([], t)"
| "run_sizes C K S (to_hash_size # sizes) t =
     rbind (s_run_profiles C K S to_hash_size t) (\<lambda>(digests, t).
     rbind (run_sizes C K S sizes t) (\<lambda>(rest, t). Inr (digests # rest, t)))"

text \<open>The hash object whose provider is printed is dereferenced without a test.\<close>

definition profile_main :: "aws_common \<Rightarrow> 't profile_ops \<Rightarrow> ('c, 'k, 'p, 'w) cal_services \<Rightarrow> 'p cal_state \<Rightarrow> 't \<Rightarrow>
    (bytes list list \<times> 'p cal_state) result" where
  "profile_main C K S lib t =
     rbind (aws_cal_library_init (cal_platform S) lib) (\<lambda>lib.
     rbind (or_null (aws_sha256_new (hash_fns S))) (\<lambda>hash.
     rbind (not_null hash) (\<lambda>_.
     rbind (run_sizes C K S [1024, 1024 * 64, 1024 * 128, 1024 * 512] t) (\<lambda>(digests, t).
     rbind (aws_cal_library_clean_up (cal_platform S) lib) (\<lambda>lib. Inr (digests, lib))))))"

section \<open>All runs compute the same digest\<close>

text \<open>The clock does not fail, and the random numbers fill the room that is left in a buffer.\<close>

definition profile_spec :: "'t profile_ops \<Rightarrow> bool" where
  "profile_spec K \<longleftrightarrow> (\<forall>t. \<exists>now t'. aws_high_res_clock_get_ticks K t = (Inr now, t')) \<and>
     (\<forall>b. valid_buf b \<longrightarrow> (\<exists>rnd b'. length rnd = room b \<and> aws_device_random_buffer K b = (Inr (), b') \<and> appends b rnd (Some b')))"

lemma must_simps [simp]: "must (Inr x) = Inr x" "must_do (Inr (), s) = Inr s"
  by (simp_all add: must_def must_do_def)

lemma ticks_ok: "profile_spec K \<Longrightarrow> \<exists>now t'. ticks K t = Inr (now, t')"
  by (auto simp: profile_spec_def ticks_def dest!: spec [of _ t])

text \<open>A piece is cut off a cursor: what is read from the piece and from the rest is what is read from the whole.\<close>

lemma advance_splits:
  assumes "common_spec C" and b: "bytes_at (ptr cur) (cur_len cur) = Inr bs" and "cur_len cur < 2 ^ 32"
  obtains piece rest x y where "aws_byte_cursor_advance C cur n = (piece, rest)" "bytes_at (ptr piece) (cur_len piece) = Inr x"
    "bytes_at (ptr rest) (cur_len rest) = Inr y" "bs = x @ y" "length x < 2 ^ 32" "cur_len rest < 2 ^ 32"
    "n \<le> cur_len cur \<longrightarrow> cur_len rest = cur_len cur - n"
proof (cases "n \<le> cur_len cur")
  case True
  with advance_bytes [OF assms(1) b, of n] bytes_at_length [OF b] assms(3) obtain piece rest where
      "aws_byte_cursor_advance C cur n = (piece, rest)" "bytes_at (ptr piece) (cur_len piece) = Inr (take n bs)"
      "bytes_at (ptr rest) (cur_len rest) = Inr (drop n bs)" by auto
  with assms(3) bytes_at_length [OF b] bytes_at_length [OF this(3)] show ?thesis
    by (intro that [of piece rest "take n bs" "drop n bs"]) simp_all
next
  case False
  show ?thesis
    by (rule that [of null_cursor cur "[]" bs]) (use assms False in \<open>simp_all add: advance_law null_cursor_def\<close>)
qed

lemma digest_buffer:
  assumes "common_spec C"
  obtains out where "aws_byte_buf_init C 32 = Inr out" "valid_buf out" "32 \<le> room out" "contents out = []"
  using init_law [OF assms, of 32] by (auto simp: fresh_buf_def room_def contents_def split: option.splits)

context sha256_stream
begin

lemma skip_unaligned_ok:
  assumes "ok" and "common_spec C" and h: "inv h" "fed h = Some m"
    and b: "bytes_at (ptr cur) (cur_len cur) = Inr bs" "cur_len cur < 2 ^ 32"
  obtains h' cur' x y where "skip_unaligned C (hash_vt S) address alignment (h, cur) = Inr (h', cur')" "inv h'" "fed h' = Some (m @ x)"
    "bytes_at (ptr cur') (cur_len cur') = Inr y" "bs = x @ y" "cur_len cur' < 2 ^ 32"
proof (cases "alignment = 0")
  case True
  show ?thesis by (rule that [of h cur "[]" bs]) (use h b True in \<open>simp_all add: skip_unaligned_def\<close>)
next
  case False
  obtain piece rest x y where p: "aws_byte_cursor_advance C cur (address mod alignment) = (piece, rest)"
      "bytes_at (ptr piece) (cur_len piece) = Inr x" "bytes_at (ptr rest) (cur_len rest) = Inr y" "bs = x @ y" "length x < 2 ^ 32"
      "cur_len rest < 2 ^ 32"
    by (rule advance_splits [OF assms(2) b])
  obtain h' where "aws_hash_update (hash_vt S) h piece = (Inr (), h')" "inv h'" "fed h' = Some (m @ x)"
    using update_hash [OF assms(1) h p(2,5)] by auto
  then show ?thesis by (intro that [of h' rest x y]) (use p False in \<open>simp_all add: skip_unaligned_def\<close>)
qed

lemma hash_chunks_ok:
  assumes "ok" and "common_spec C" and "0 < chunk_size"
  shows "inv h \<Longrightarrow> fed h = Some m \<Longrightarrow> bytes_at (ptr cur) (cur_len cur) = Inr bs \<Longrightarrow> cur_len cur < 2 ^ 32 \<Longrightarrow> cur_len cur < n \<Longrightarrow>
    \<exists>h'. hash_chunks C (hash_vt S) chunk_size n (h, cur) = Inr h' \<and> inv h' \<and> fed h' = Some (m @ bs)"
proof (induction n arbitrary: h m cur bs)
  case (Suc n)
  show ?case
  proof (cases "cur_len cur = 0")
    case True
    with Suc.prems show ?thesis by simp
  next
    case False
    let ?k = "if chunk_size > cur_len cur then cur_len cur else chunk_size"
    obtain piece rest x y where p: "aws_byte_cursor_advance C cur ?k = (piece, rest)"
        "bytes_at (ptr piece) (cur_len piece) = Inr x" "bytes_at (ptr rest) (cur_len rest) = Inr y" "bs = x @ y" "length x < 2 ^ 32"
        "cur_len rest < 2 ^ 32" "?k \<le> cur_len cur \<longrightarrow> cur_len rest = cur_len cur - ?k"
      by (rule advance_splits [OF assms(2) Suc.prems(3,4)])
    obtain h1 where h1: "aws_hash_update (hash_vt S) h piece = (Inr (), h1)" "inv h1" "fed h1 = Some (m @ x)"
      using update_hash [OF assms(1) Suc.prems(1,2) p(2,5)] by auto
    have "cur_len rest < n" using p(7) Suc.prems(5) False assms(3) by (auto split: if_splits)
    from Suc.IH [OF h1(2,3) p(3,6) this] h1(1) p(1,4) False show ?thesis by simp
  qed
qed simp

lemma streaming_ok:
  assumes "ok" and "common_spec C" and K: "profile_spec K" and "0 < chunk_size"
    and b: "bytes_at (ptr to_hash) (cur_len to_hash) = Inr bs" "cur_len to_hash < 2 ^ 32"
  shows "\<exists>elapsed t'. s_profile_streaming_hash_at_chunk_size C K S address to_hash chunk_size alignment t = Inr (sha bs, elapsed, t')"
proof -
  obtain h where h: "aws_sha256_new (hash_fns S) = Inr h" "inv h" "fed h = Some []" using new_hash [OF assms(1)] by blast
  obtain out where out: "aws_byte_buf_init C 32 = Inr out" "valid_buf out" "32 \<le> room out" "contents out = []"
    by (rule digest_buffer [OF assms(2)])
  obtain start t1 where t1: "ticks K t = Inr (start, t1)" using ticks_ok [OF K] by blast
  obtain h1 cur x y where h1: "skip_unaligned C (hash_vt S) address alignment (h, to_hash) = Inr (h1, cur)" "inv h1" "fed h1 = Some ([] @ x)"
      "bytes_at (ptr cur) (cur_len cur) = Inr y" "bs = x @ y" "cur_len cur < 2 ^ 32"
    by (rule skip_unaligned_ok [OF assms(1,2) h(2,3) b])
  have "cur_len cur < cur_len to_hash + 1" using bytes_at_length [OF h1(4)] bytes_at_length [OF b(1)] h1(5) by simp
  from hash_chunks_ok [OF assms(1,2,4) h1(2,3,4,6) this] obtain h2 where
      h2: "hash_chunks C (hash_vt S) chunk_size (cur_len to_hash + 1) (h1, cur) = Inr h2" "inv h2" "fed h2 = Some bs"
    by (auto simp only: h1(5) append_Nil)
  obtain h3 out' where "aws_hash_finalize (hash_vt S) h2 out 0 = (Inr (), h3, out')" "contents out' = sha bs"
    using finalize_hash [OF assms(1) h2(2,3) out(2,3)] out(4) by (auto simp: appends_def)
  with h(1) out(1) t1 h1(1) h2(1) ticks_ok [OF K, of t1] show ?thesis
    by (auto simp: s_profile_streaming_hash_at_chunk_size_def simp del: hash_chunks.simps)
qed

lemma oneshot_ok:
  assumes "ok" and "common_spec C" and K: "profile_spec K"
    and b: "bytes_at (ptr to_hash) (cur_len to_hash) = Inr bs" "cur_len to_hash < 2 ^ 32"
  shows "\<exists>elapsed t'. s_profile_oneshot_hash C K S to_hash t = Inr (sha bs, elapsed, t')"
proof -
  obtain out where out: "aws_byte_buf_init C 32 = Inr out" "valid_buf out" "32 \<le> room out" "contents out = []"
    by (rule digest_buffer [OF assms(2)])
  obtain start t1 where t1: "ticks K t = Inr (start, t1)" using ticks_ok [OF K] by blast
  have "length bs < 2 ^ 32" using bytes_at_length [OF b(1)] b(2) by simp
  with compute_whole [OF assms(1) b(1) _ out(2,3)] obtain out' where
      "aws_sha256_compute (hash_vt S) (hash_fns S) to_hash out 0 = (Inr (), out')" "contents out' = sha bs"
    using out(4) by (auto simp: appends_def)
  with out(1) t1 ticks_ok [OF K, of t1] show ?thesis by (auto simp: s_profile_oneshot_hash_def)
qed

lemma streaming_runs_ok:
  assumes "ok" and "common_spec C" and K: "profile_spec K"
    and b: "bytes_at (ptr to_hash) (cur_len to_hash) = Inr bs" "cur_len to_hash < 2 ^ 32"
  shows "\<forall>run \<in> set runs. 0 < fst run \<Longrightarrow>
    \<exists>t'. streaming_runs C K S address to_hash runs t = Inr (replicate (length runs) (sha bs), t')"
proof (induction runs arbitrary: t)
  case (Cons run runs)
  then have "0 < fst run" by simp
  from streaming_ok [OF assms(1-3) this b, of address "snd run" t] obtain elapsed t1 where
      "s_profile_streaming_hash_at_chunk_size C K S address to_hash (fst run) (snd run) t = Inr (sha bs, elapsed, t1)" by blast
  with Cons.IH [of t1] Cons.prems show ?case by auto
qed simp

lemma run_profiles_ok:
  assumes "ok" and "common_spec C" and K: "profile_spec K" and n: "n < 2 ^ 32"
  shows "\<exists>bs t'. length bs = n \<and> s_run_profiles C K S n t = Inr (replicate 13 (sha bs), t')"
proof -
  obtain b where b: "aws_byte_buf_init C n = Inr b" "fresh_buf n b" using init_law [OF assms(2), of n] n by auto
  then have v: "valid_buf b" "room b = n" "contents b = []" by (auto simp: fresh_buf_def room_def contents_def split: option.splits)
  with K obtain bs b' where r: "length bs = n" "aws_device_random_buffer K b = (Inr (), b')" "valid_buf b'" "contents b' = bs"
    unfolding profile_spec_def by (auto simp: appends_def)
  let ?cur = "aws_byte_cursor_from_buf b'"
  have cur: "bytes_at (ptr ?cur) (cur_len ?cur) = Inr bs" using bytes_at_from_buf [OF r(3)] r(4) by simp
  with bytes_at_length [OF cur] r(1) n have len: "cur_len ?cur < 2 ^ 32" by simp
  have runs: "\<forall>run \<in> set profile_runs. 0 < fst run" "length profile_runs = 12" by (simp_all add: profile_runs_def)
  from streaming_runs_ok [OF assms(1-3) cur len this(1)] obtain t1 where
      "streaming_runs C K S (address_of K b') ?cur profile_runs t = Inr (replicate 12 (sha bs), t1)"
    unfolding runs(2) by blast
  moreover obtain elapsed t2 where "s_profile_oneshot_hash C K S ?cur t1 = Inr (sha bs, elapsed, t2)"
    using oneshot_ok [OF assms(1-3) cur len] by blast
  moreover have "replicate 12 (sha bs) @ [sha bs] = replicate 13 (sha bs)" by (simp add: replicate_append_same flip: replicate_Suc)
  ultimately show ?thesis using b(1) r(1,2) by (auto simp: s_run_profiles_def)
qed

lemma run_sizes_ok:
  assumes "ok" and "common_spec C" and "profile_spec K"
  shows "\<forall>n \<in> set sizes. n < 2 ^ 32 \<Longrightarrow>
    \<exists>blocks t'. map length blocks = sizes \<and> run_sizes C K S sizes t = Inr (map (\<lambda>bs. replicate 13 (sha bs)) blocks, t')"
proof (induction sizes arbitrary: t)
  case (Cons n sizes)
  then obtain bs t1 where bs: "length bs = n" "s_run_profiles C K S n t = Inr (replicate 13 (sha bs), t1)"
    using run_profiles_ok [OF assms, of n t] by auto
  with Cons obtain blocks t2 where "map length blocks = sizes"
      "run_sizes C K S sizes t1 = Inr (map (\<lambda>bs. replicate 13 (sha bs)) blocks, t2)" by fastforce
  with bs show ?case by (intro exI [of _ "bs # blocks"]) simp
qed simp

end

text \<open>
  Claim C17. How a message is cut up does not change its digest: on any platform whose hash satisfies the contract, and whose clock and
  random numbers do not fail, the program for timing SHA256 ends, for each of its four sizes, after thirteen runs that have all delivered the
  digest of the same block of random bytes, no matter at which address the block is: twelve in chunks of 128, 256 and 512 bytes after
  a first piece of up to 127 bytes, and one at once.
\<close>

theorem profile_main_digests:
  assumes "sha256_stream ok S sha I fed" and "ok" and "common_spec C" and "profile_spec K"
    and "aws_cal_library_init (cal_platform S) lib = Inr lib1" and "aws_cal_library_clean_up (cal_platform S) lib1 = Inr lib2"
  shows "\<exists>blocks. map length blocks = [1024, 65536, 131072, 524288] \<and>
    profile_main C K S lib t = Inr (map (\<lambda>bs. replicate 13 (sha bs)) blocks, lib2)"
proof -
  obtain h where "aws_sha256_new (hash_fns S) = Inr h" using sha256_stream.new_hash [OF assms(1,2)] by blast
  moreover have "\<forall>n \<in> set [1024, 65536, 131072, 524288]. n < (2::nat) ^ 32" by simp
  from sha256_stream.run_sizes_ok [OF assms(1-4) this, of t] obtain blocks t' where
    "map length blocks = [1024, 65536, 131072, 524288]"
    "run_sizes C K S [1024, 65536, 131072, 524288] t = Inr (map (\<lambda>bs. replicate 13 (sha bs)) blocks, t')" by (elim exE conjE)
  ultimately show ?thesis using assms(5,6) by (intro exI [of _ blocks]) (simp add: profile_main_def del: run_sizes.simps)
qed

text \<open>A chunk size of zero, which the program does not use, would make the loop run forever on any data.\<close>

lemma hash_chunks_zero:
  assumes "common_spec C" and "sha256_stream ok S sha I fed" and "ok"
  shows "I h \<Longrightarrow> fed h = Some m \<Longrightarrow> 0 < cur_len cur \<Longrightarrow> cur_len cur \<le> SIZE_MAX div 2 \<Longrightarrow>
    hash_chunks C (hash_vt S) 0 n (h, cur) = Inl Out_of_fuel"
proof (induction n arbitrary: h)
  case (Suc n)
  obtain h1 where "aws_hash_update (hash_vt S) h (cur\<lparr>cur_len := 0\<rparr>) = (Inr (), h1)" "I h1" "fed h1 = Some m"
    using sha256_stream.update_hash [OF assms(2,3) Suc.prems(1,2), of "cur\<lparr>cur_len := 0\<rparr>" "[]"] by auto
  with Suc advance_law [OF assms(1) Suc.prems(4), of 0] show ?case by simp
qed simp

text \<open>
  The first piece is meant to end at an aligned address. It is as long as the address exceeds the aligned address below it, so it ends at
  an aligned address only if twice the address is aligned.
\<close>

lemma unaligned_after_skip:
  assumes "common_spec C" and "0 < alignment" and cur: "ptr cur = Some \<lparr>pobj = mem, poff = 0\<rparr>" "cur_len cur \<le> SIZE_MAX div 2"
    and "address mod alignment \<le> cur_len cur" and run: "skip_unaligned C vt address alignment (h, cur) = Inr (h', cur')"
  shows "\<exists>p. ptr cur' = Some p \<and> ((address + poff p) mod alignment = 0 \<longleftrightarrow> 2 * address mod alignment = 0)"
proof -
  have "cur' = cur_drop (address mod alignment) cur"
    using run assms(2,5) advance_law [OF assms(1) cur(2)]
    by (auto simp: skip_unaligned_def rbind_eq_Inr)
  then show ?thesis using cur(1) by (simp add: cur_drop_def ptr_add_def mod_add_right_eq mult_2)
qed

text \<open>An instance: a clock that ticks, and a source of random numbers that are all seven.\<close>

definition ref_profile :: "64 word profile_ops" where
  "ref_profile = \<lparr>aws_high_res_clock_get_ticks = (\<lambda>t. (Inr t, t + 1)),
     aws_device_random_buffer = (\<lambda>b. case ref_write b (replicate (room b) 7) of
         None \<Rightarrow> (Inl (Raised AWS_ERROR_SHORT_BUFFER), b) | Some b' \<Rightarrow> (Inr (), b')),
     address_of = (\<lambda>_. 20)\<rparr>"

lemma profile_spec_ref: "profile_spec ref_profile"
proof -
  have "\<exists>b'. ref_write b (replicate (room b) 7) = Some b' \<and> appends b (replicate (room b) 7) (Some b')" if "valid_buf b" for b
    using write_laws(1) [OF common_spec_ref that, of "replicate (room b) 7"]
    by (cases "ref_write b (replicate (room b) 7)") (auto simp: ref_common_def appends_def)
  then have "\<exists>rnd b'. length rnd = room b \<and> aws_device_random_buffer ref_profile b = (Inr (), b') \<and> appends b rnd (Some b')"
    if "valid_buf b" for b using that by (intro exI [of _ "replicate (room b) 7"]) (fastforce simp: ref_profile_def)
  then show ?thesis by (simp add: profile_spec_def) (simp add: ref_profile_def)
qed

lemma profile_main_digests_witness:
  "\<exists>blocks. map length blocks = [1024, 65536, 131072, 524288] \<and>
    profile_main ref_common ref_profile (darwin_services ref_common ref_cc_hash (ref_sec []) commoncrypto_platform) (ref_lib False []) 0 =
      Inr (map (\<lambda>bs. replicate 13 (ref_digest EVP_sha256 bs)) blocks,
        ref_lib False (ref_common_calls @ [Unregister_log_subjects, Unregister_error_info, Common_library_clean_up]))"
proof (rule profile_main_digests [OF darwin_hash.sha256_stream_axioms _ common_spec_ref profile_spec_ref ref_life(3,4)])
  show "common_spec ref_common \<and> cc_hash_spec ref_cc_hash id ref_digest" by (simp add: common_spec_ref ref_hash_apis_ok)
qed

end
