(* ===== verification/Spec2Isabelle.thy ===== *)
theory Spec2Isabelle
  imports Ecc_Spec Hmac Key_Wrap Aes_Streams Bcrypt_Cbc Bcrypt_Gcm Bcrypt_Ctr Bcrypt_Keywrap
    Bcrypt_Ecc_Spec Openssl_Ecc_Spec Security_Ecc_Spec Commoncrypto_Keywrap Platform_Digest_Spec
    Library Destroy Dispatch Corpus_Platforms Sha256_Profile
begin

text \<open>
  A verification of aws-c-cal, a library that gives hashes, HMACs, AES ciphers, elliptic-curve key pairs and
  a DER encoder and decoder one interface over the cryptography of three platforms: libcrypto on
  Unix, Cryptography API: Next Generation (CNG) on Windows, CommonCrypto and the Security framework on Darwin.

  \<^bold>\<open>The program and its theories.\<close> The platform-independent files define structures with a vtable and call the
  platform through it; the platform files provide the vtables and the constructors. Paths are relative to the repository.

  \<^item> Cal_Prelude: error codes (\<^verbatim>\<open>include/aws/cal/cal.h\<close>), the result type, sequencing that stands for early returns, big-endian
    numbers and shared lemmas. Aws_Common: the structures and functions of aws-c-common that the sources use. Pointers are offsets into
    an object or null, so that reads outside an object are values of the model.
  \<^item> Der_Encoder, Der_Encoder_Spec, Der_Decoder, Der_Decoder_Spec (\<^verbatim>\<open>source/der.c\<close>): the encoder with its stack of container buffers,
    and the decoder with its list of TLVs, each with the functions of the file under their names.
  \<^item> Ecc, Ecc_Spec (\<^verbatim>\<open>source/ecc.c\<close>): curves, loading keys from DER, reference counts. Ecc_Platform: buffers that point into other
    buffers. Bcrypt_Ecc, Openssl_Ecc, Security_Ecc with their \<open>_Spec\<close> theories: the key pairs of \<^verbatim>\<open>source/windows/bcrypt_ecc.c\<close>,
    \<^verbatim>\<open>source/unix/opensslcrypto_ecc.c\<close> and \<^verbatim>\<open>source/darwin/securityframework_ecc.c\<close>.
  \<^item> Digest (what \<^verbatim>\<open>source/hash.c\<close> and \<^verbatim>\<open>source/hmac.c\<close> have in common), Hash and Hmac (the two files with
    \<^verbatim>\<open>source/unix/opensslcrypto_hash.c\<close> and \<^verbatim>\<open>opensslcrypto_hmac.c\<close>), Platform_Digest (\<^verbatim>\<open>source/windows/bcrypt_hash.c\<close>, \<^verbatim>\<open>bcrypt_hmac.c\<close>,
    \<^verbatim>\<open>source/darwin/commoncrypto_sha256.c\<close>, \<^verbatim>\<open>commoncrypto_sha1.c\<close>, \<^verbatim>\<open>commoncrypto_md5.c\<close>, \<^verbatim>\<open>commoncrypto_hmac.c\<close>) and Platform_Digest_Spec.
  \<^item> Symmetric_Cipher (\<^verbatim>\<open>source/symmetric_cipher.c\<close>) and Cipher_Stream, the contract of a streaming cipher. Openssl_Aes
    (\<^verbatim>\<open>source/unix/openssl_aes.c\<close>) with Aes_Streams and Key_Wrap; Bcrypt_Aes (\<^verbatim>\<open>source/windows/bcrypt_aes.c\<close>) with Bcrypt_Buffers,
    Bcrypt_Cbc, Bcrypt_Gcm, Bcrypt_Ctr and Bcrypt_Keywrap; Commoncrypto_Aes (\<^verbatim>\<open>source/darwin/commoncrypto_aes.c\<close>) with
    Commoncrypto_Streams and Commoncrypto_Keywrap.
  \<^item> Libcrypto, Libcrypto_Spec (\<^verbatim>\<open>source/unix/openssl_platform_init.c\<close>): the search for libcrypto and the function tables.
    Library (\<^verbatim>\<open>source/cal.c\<close>): initialisation and clean-up. Dispatch: the replaceable constructors. Destroy: the destructors of
    decoders, hashes, HMACs and ciphers.
  \<^item> Tools: exit codes, text files, options and messages, which the programs under \<^verbatim>\<open>bin\<close> share. Services: the library as such a program
    sees it on each platform. Corpus (\<^verbatim>\<open>bin/produce_x_platform_fuzz_corpus/main.c\<close>, which writes a file of signatures, and
    \<^verbatim>\<open>bin/run_x_platform_fuzz_corpus/main.c\<close>, which verifies such files) with Corpus_Spec and Corpus_Platforms; Sha256_Profile
    (\<^verbatim>\<open>bin/sha256_profile/main.c\<close>, which times hashing).

  \<^bold>\<open>How code becomes definitions.\<close> A structure is a record with the fields of the source, a function a definition that takes the
  structures it changes and returns them. A function that returns AWS_OP_ERR or NULL returns \<open>Inl (Raised e)\<close> with the error
  it raised; undefined behaviour is \<open>Inl (Undefined _)\<close>, a failed fatal assertion \<open>Inl Fatal\<close>. Assertions that release builds drop
  are not modelled. Lengths are natural numbers where the sources check them or use functions that do, and
  words or explicit remainders where they are cast. The functions of libcrypto, CNG, CommonCrypto, the Security framework, the dynamic
  linker and aws-c-common are records of functions, arguments of the definitions. What the properties rely on is
  stated about them by predicates named \<open>_spec\<close>, \<open>_reliable\<close> or \<open>_complete\<close>, and each property has a witness over a concrete
  instance that satisfies them.

  \<^bold>\<open>Interfaces.\<close> Six locales state contracts. \<open>digest\<close> (in Digest) is what the code that truncates and combines digests
  requires of an implementation; it is interpreted on the hashes and HMACs of the three platforms. \<open>cipher_stream\<close> (in Cipher_Stream) is what one
  direction of a cipher promises behind the public interface; it is interpreted on every mode of every platform, for
  encryption and decryption. \<open>cipher_collect\<close> is the case of ciphers that gather their input for the finalize call, the three key wraps. \<open>sha256_stream\<close> (in Services) is what a program relies on when it hashes,
  \<open>corpus_verifier\<close> and its extension \<open>corpus_signer\<close> (in Corpus_Spec) what the corpus programs rely on when they verify and sign; they are interpreted
  on the library of each platform.

  \<^bold>\<open>What is shown.\<close>

  \<^item> DER: every sequence of encoder calls simulates an abstract encoder; the bytes written for a tree of values are given, and are
    those of X.690 DER for values in canonical form whose contents do not have the lengths for which the code uses four octets instead of three. Creating a decoder returns on every
    input that is not null: with a decoder, the error for malformed input, a read outside the input, or a use of a list that has moved. What the encoder
    wrote, and any forest framed in this way, of at most sixteen TLVs, decodes to its elements in order, or is malformed when more than fifteen containers are nested.
  \<^item> Key pairs: loading a DER document yields its parts, platform by platform; on Windows a signature survives the translation to DER and
    back, with the outcome of verifying given for integers of any length; a key pair is destroyed once, by its last release.
  \<^item> Digests: the three platforms append the same digest of the concatenated pieces, truncated as asked, or report a short buffer.
  \<^item> Ciphers: for all platforms, encrypting in any pieces is encrypting at once, and decrypting after a reset yields the message (on Windows, GCM for
    non-empty messages); the pieces and the additional data of GCM have lengths that fit a C int. Key wrap
    on Unix is that of RFC 3394 up to 42 blocks, and on all platforms unwrapping yields the wrapped key; the counter mode that is built by hand on Windows is the textbook one, and
    the call that would take the counter past its largest value fails; a cipher that was finalized refuses everything but a reset.
  \<^item> Libcrypto and the library: the search returns the first candidate that has all functions, and its tables can be called, so that digests made
    through them are the library's, except with a dynamically loaded AWS-LC, which leaves a null function; every sequence of initialisations and clean-ups keeps its invariant.
  \<^item> Programs: the platforms provide what the corpus programs require; a corpus that one platform produces is accepted by another, and for corpora of well-formed lines the failures
    that checking reports are exactly the signatures ECDSA does not accept; hashing in chunks and at once deliver the same digest.
  \<^item> Defects: several theorems state exactly what happens where the code departs from its documentation, among them over-reads of the
    decoder, additional data whose length is cast, constructors on Windows that dereference a null pointer when they fail, an assertion that a signature can trigger, signatures written without a bounds check, GCM finalisations that
    check no tag, pieces of 4 GiB that are cut, and a corpus from Windows that is refused elsewhere.

  \<^bold>\<open>Bounds and fuel.\<close> The decoder recurses at most sixteen levels deep, which is the limit of the source; its loops take fuel that the length of
  the input bounds, and it is proved that the fuel never runs out. The loop that hashes in chunks takes the length of the data plus one as fuel, which is enough for any
  chunk size but zero; the walk over directories takes fuel that exceeds the number of entries of every directory. All other functions are total. Buffers hold at most
  \<open>SIZE_MAX div 2\<close> bytes, as no object of a C program is larger.

  \<^bold>\<open>Not modelled.\<close> The memory allocator beyond its failures; threads (the once-initialisation of handles, the atomic reference
  counts, and mutexes beyond their owner); log messages; the text of the log subjects; the tests; in the programs, the parsing of the command line below
  \<open>aws_cli_getopt_long\<close>, the file system beyond opening, reading and listing, the printed headings, and the freeing of buffers and strings; \<^verbatim>\<open>source/darwin/common_cryptor_spi.h\<close> and the remaining headers, which only declare
  functions.
\<close>

end
